(* ===== verification/Prelude.thy ===== *)
theory Prelude
  imports Main "HOL-Library.Word" "HOL-Library.Monad_Syntax"
begin

text \<open>
  Shared vocabulary of the development: the machine integer types of the C++ sources, the
  error codes of \<^verbatim>\<open>modula/Common/Include/ErrCodes.h\<close>, the enumerations of
  \<^verbatim>\<open>modula/Common/Include/Utils.h\<close> and \<^verbatim>\<open>UrmPlatformAL.h\<close>,
  and the generic lemmas on words, option-valued folds and lists that the components share.

  Conventions. A signed \<open>w\<close>-bit integer of the source is a \<open>w word\<close> read with
  \<^const>\<open>sint\<close>, an unsigned one is the same word read with \<^const>\<open>uint\<close>;
  an \<^verbatim>\<open>int8_t\<close> that is only used as a truth value is a \<^typ>\<open>bool\<close>. A
  computation that can fault (null or dangling dereference) or loop returns an option, with
  \<^const>\<open>None\<close> for the fault, so a theorem that the result is
  \<^const>\<open>Some\<close> states memory safety and termination together.
\<close>

unbundle bit_operations_syntax

type_synonym i8 = "8 word"
type_synonym u8 = "8 word"
type_synonym i32 = "32 word"
type_synonym u32 = "32 word"
type_synonym i64 = "64 word"
type_synonym u64 = "64 word"
type_synonym addr = nat

named_theorems dl_simps \<open>unfolding rules of the linked-list operations\<close>
named_theorems frame_intros \<open>what an operation leaves unchanged\<close>
named_theorems coco_simps \<open>unfolding rules of the concurrency table\<close>

section \<open>Error codes\<close>

datatype ErrCode =
    RC_REQ_SUBMISSION_FAILURE
  | RC_SUCCESS
  | RC_MODULE_INIT_FAILURE
  | RC_FILE_NOT_FOUND
  | RC_YAML_PARSING_ERROR
  | RC_YAML_INVALID_SYNTAX
  | RC_REQUEST_SANITY_FAILURE
  | RC_REQUEST_VERIFICATION_FAILURE
  | RC_REQUEST_NOT_FOUND
  | RC_DUPLICATE_REQUEST
  | RC_MEMORY_ALLOCATION_FAILURE
  | RC_MEMORY_POOL_ALLOCATION_FAILURE
  | RC_MEMORY_POOL_BLOCK_RETRIEVAL_FAILURE
  | RC_PROP_PARSING_ERROR
  | RC_PROP_NOT_FOUND
  | RC_BAD_ARG
  | RC_INVALID_VALUE
  | RC_SOCKET_CONN_NOT_INITIALIZED
  | RC_SOCKET_OP_FAILURE
  | RC_SOCKET_FD_READ_FAILURE
  | RC_SOCKET_FD_WRITE_FAILURE
  | RC_SOCKET_FD_CLOSE_FAILURE
  | RC_REQUEST_DESERIALIZATION_FAILURE
  | RC_REQUEST_PARSING_FAILED
  | RC_RESOURCE_NOT_SUPPORTED
  | RC_WORKER_THREAD_ASSIGNMENT_FAILURE
  | RC_LOGICAL_TO_PHYSICAL_GEN_FAILED
  | RC_CGROUP_CREATION_FAILURE
  | RC_DBUS_COMM_FAIL

definition RC_IS_OK :: "ErrCode \<Rightarrow> bool" where
  "RC_IS_OK rc = (rc = RC_SUCCESS)"

definition RC_IS_NOTOK :: "ErrCode \<Rightarrow> bool" where
  "RC_IS_NOTOK rc = (\<not> RC_IS_OK rc)"

lemma RC_IS_OK_iff [simp]: "RC_IS_OK rc \<longleftrightarrow> rc = RC_SUCCESS"
  by (simp add: RC_IS_OK_def)

lemma RC_IS_NOTOK_iff [simp]: "RC_IS_NOTOK rc \<longleftrightarrow> rc \<noteq> RC_SUCCESS"
  by (simp add: RC_IS_NOTOK_def)

section \<open>Enumerations of the message protocol\<close>

text \<open>
  \<^verbatim>\<open>enum RequestType : int8_t\<close> and \<^verbatim>\<open>enum ModuleID : int8_t\<close> travel as
  bytes, so their values are kept as words.
\<close>

definition REQ_RESOURCE_TUNING :: i8 where "REQ_RESOURCE_TUNING = 0"
definition REQ_RESOURCE_RETUNING :: i8 where "REQ_RESOURCE_RETUNING = 1"
definition REQ_RESOURCE_UNTUNING :: i8 where "REQ_RESOURCE_UNTUNING = 2"
definition REQ_PROP_GET :: i8 where "REQ_PROP_GET = 3"
definition REQ_SIGNAL_TUNING :: i8 where "REQ_SIGNAL_TUNING = 4"
definition REQ_SIGNAL_UNTUNING :: i8 where "REQ_SIGNAL_UNTUNING = 5"
definition REQ_SIGNAL_RELAY :: i8 where "REQ_SIGNAL_RELAY = 6"
definition MOD_RESTUNE :: i8 where "MOD_RESTUNE = 0"

lemmas request_types =
  REQ_RESOURCE_TUNING_def REQ_RESOURCE_RETUNING_def REQ_RESOURCE_UNTUNING_def
  REQ_PROP_GET_def REQ_SIGNAL_TUNING_def REQ_SIGNAL_UNTUNING_def REQ_SIGNAL_RELAY_def

text \<open>Permissions, priority levels and device modes are compared as small integers.\<close>

definition PERMISSION_SYSTEM :: i8 where "PERMISSION_SYSTEM = 0"
definition PERMISSION_THIRD_PARTY :: i8 where "PERMISSION_THIRD_PARTY = 1"

definition SYSTEM_HIGH :: i8 where "SYSTEM_HIGH = 0"
definition SYSTEM_LOW :: i8 where "SYSTEM_LOW = 1"
definition THIRD_PARTY_HIGH :: i8 where "THIRD_PARTY_HIGH = 2"
definition THIRD_PARTY_LOW :: i8 where "THIRD_PARTY_LOW = 3"
definition TOTAL_PRIORITIES :: int where "TOTAL_PRIORITIES = 4"

lemmas priority_levels =
  SYSTEM_HIGH_def SYSTEM_LOW_def THIRD_PARTY_HIGH_def THIRD_PARTY_LOW_def

definition REQ_PRIORITY_HIGH :: i8 where "REQ_PRIORITY_HIGH = 0"
definition REQ_PRIORITY_LOW :: i8 where "REQ_PRIORITY_LOW = 1"

definition HIGH_TRANSFER_PRIORITY :: i8 where "HIGH_TRANSFER_PRIORITY = -1"
definition SERVER_CLEANUP_TRIGGER_PRIORITY :: i8 where "SERVER_CLEANUP_TRIGGER_PRIORITY = -2"

definition MODE_RESUME :: i8 where "MODE_RESUME = 1"
definition MODE_SUSPEND :: i8 where "MODE_SUSPEND = 2"
definition MODE_DOZE :: i8 where "MODE_DOZE = 4"

datatype Policy =
    INSTANT_APPLY
  | HIGHER_BETTER
  | LOWER_BETTER
  | LAZY_APPLY
  | PASS_THROUGH
  | PASS_THROUGH_APPEND

section \<open>Words\<close>

lemma byte_mask: "(push_bit 8 1 - 1 :: 'a::len word) = mask 8"
  by (simp add: mask_eq_exp_minus_1 push_bit_eq_mult)

lemma top_bit_of_byte: "(7::nat) \<le> n \<Longrightarrow> n < 8 \<Longrightarrow> n = 7"
  by simp

lemma bit_scast8: "n < 8 \<Longrightarrow> bit (scast (p :: 8 word) :: 32 word) n = bit p n"
  by (cases "n = 7") (auto simp: bit_simps min_def)

lemma bit_scast8_high: "8 \<le> n \<Longrightarrow> n < 32 \<Longrightarrow> bit (scast (p :: 8 word) :: 32 word) n = (sint p < 0)"
  using bit_last_iff[of p] by (auto simp: bit_simps min_def)

section \<open>Option-valued folds\<close>

text \<open>Running a faulting step over the elements of a list, left to right.\<close>

fun foldM :: "('a \<Rightarrow> 's \<Rightarrow> 's option) \<Rightarrow> 'a list \<Rightarrow> 's \<Rightarrow> 's option" where
  "foldM f [] s = Some s"
| "foldM f (x # xs) s = (case f x s of None \<Rightarrow> None | Some t \<Rightarrow> foldM f xs t)"

lemma foldM_append:
  "foldM f (xs @ ys) s = (case foldM f xs s of None \<Rightarrow> None | Some t \<Rightarrow> foldM f ys t)"
  by (induction xs arbitrary: s) (auto split: option.splits)

text \<open>An invariant that also carries progress: every step from an invariant state returns.\<close>

lemma foldM_invariant:
  assumes "I s"
    and "\<And>x s. x \<in> set xs \<Longrightarrow> I s \<Longrightarrow> \<exists>t. f x s = Some t \<and> I t"
  shows "\<exists>t. foldM f xs s = Some t \<and> I t"
  using assms
proof (induction xs arbitrary: s)
  case Nil
  then show ?case by simp
next
  case (Cons x xs)
  from Cons.prems obtain u where u: "f x s = Some u" "I u" by fastforce
  have "\<exists>t. foldM f xs u = Some t \<and> I t"
    using u(2) Cons.prems(2) by (intro Cons.IH) auto
  with u show ?case by auto
qed

section \<open>Lists\<close>

lemma remove1_filter_distinct: "distinct xs \<Longrightarrow> remove1 a xs = filter (\<lambda>x. x \<noteq> a) xs"
  by (simp add: distinct_remove1_removeAll removeAll_filter_not_eq eq_commute)

lemma split_list_distinct:
  assumes "a \<in> set xs" "distinct xs"
  obtains us vs where "xs = us @ a # vs" "a \<notin> set us" "a \<notin> set vs"
proof -
  from assms(1) obtain us vs where "xs = us @ a # vs" by (meson split_list)
  with assms(2) that show ?thesis by auto
qed

lemma remove1_mid [simp]: "a \<notin> set us \<Longrightarrow> remove1 a (us @ a # vs) = us @ vs"
  by (simp add: remove1_append)

lemma nth_update_nested:
  "i < length t \<Longrightarrow> (t[i := r]) ! i' = (if i' = i then r else t ! i')"
  by (cases "i' < length t") (auto simp: nth_list_update)

end
