(* ===== verification/Message.thy ===== *)
theory Message
  imports Prelude
begin

text \<open>
  The base class of all requests (\<^verbatim>\<open>modula/Common/Message.cpp\<close>) with its packed
  \<^verbatim>\<open>mProperties\<close> word: priority in bits 0-7, processing modes in bits 8-15. The client
  side macros of \<^verbatim>\<open>UrmPlatformAL.h\<close> that build the same word are modelled next to it.
  Right shifts of a signed value are arithmetic and a narrower signed operand is sign-extended,
  as C++ does.
\<close>

record message =
  mHandle :: i64
  mDuration :: i64
  mProperties :: i32
  mClientPID :: i32
  mClientTID :: i32
  mReqType :: i8

definition getRequestType :: "('a) message_scheme \<Rightarrow> i8" where
  "getRequestType m = mReqType m"

definition getHandle :: "('a) message_scheme \<Rightarrow> i64" where
  "getHandle m = mHandle m"

definition getClientPID :: "('a) message_scheme \<Rightarrow> i32" where
  "getClientPID m = mClientPID m"

definition getClientTID :: "('a) message_scheme \<Rightarrow> i32" where
  "getClientTID m = mClientTID m"

definition getPriority :: "('a) message_scheme \<Rightarrow> i8" where
  "getPriority m = ucast (mProperties m AND (push_bit 8 1 - 1))"

definition getDuration :: "('a) message_scheme \<Rightarrow> i64" where
  "getDuration m = mDuration m"

definition getProperties :: "('a) message_scheme \<Rightarrow> i32" where
  "getProperties m = mProperties m"

definition getProcessingModes :: "('a) message_scheme \<Rightarrow> i8" where
  "getProcessingModes m = ucast (signed_drop_bit 8 (mProperties m) AND (push_bit 8 1 - 1))"

definition setRequestType :: "i8 \<Rightarrow> ('a) message_scheme \<Rightarrow> ('a) message_scheme" where
  "setRequestType reqType m = m\<lparr>mReqType := reqType\<rparr>"

definition setHandle :: "i64 \<Rightarrow> ('a) message_scheme \<Rightarrow> ('a) message_scheme" where
  "setHandle handle m = m\<lparr>mHandle := handle\<rparr>"

definition setDuration :: "i64 \<Rightarrow> ('a) message_scheme \<Rightarrow> ('a) message_scheme" where
  "setDuration duration m = m\<lparr>mDuration := duration\<rparr>"

definition setClientPID :: "i32 \<Rightarrow> ('a) message_scheme \<Rightarrow> ('a) message_scheme" where
  "setClientPID clientPid m = m\<lparr>mClientPID := clientPid\<rparr>"

definition setClientTID :: "i32 \<Rightarrow> ('a) message_scheme \<Rightarrow> ('a) message_scheme" where
  "setClientTID clientTid m = m\<lparr>mClientTID := clientTid\<rparr>"

definition setProperties :: "i32 \<Rightarrow> ('a) message_scheme \<Rightarrow> ('a) message_scheme" where
  "setProperties properties m = m\<lparr>mProperties := properties\<rparr>"

definition setPriority :: "i8 \<Rightarrow> ('a) message_scheme \<Rightarrow> ('a) message_scheme" where
  "setPriority priority m = m\<lparr>mProperties := mProperties m OR scast priority\<rparr>"

definition addProcessingMode :: "i8 \<Rightarrow> ('a) message_scheme \<Rightarrow> ('a) message_scheme" where
  "addProcessingMode processingMode m =
     m\<lparr>mProperties := mProperties m OR
         push_bit 8 (signed_drop_bit 8 (mProperties m) OR scast processingMode)\<rparr>"

definition setBackgroundProcessing :: "i8 \<Rightarrow> ('a) message_scheme \<Rightarrow> ('a) message_scheme" where
  "setBackgroundProcessing backgroundProcessing m =
     m\<lparr>mProperties := mProperties m OR push_bit 8 (scast backgroundProcessing)\<rparr>"

definition setUntuneProcessingOrder :: "i8 \<Rightarrow> ('a) message_scheme \<Rightarrow> ('a) message_scheme" where
  "setUntuneProcessingOrder untuneProcessingOrder m =
     m\<lparr>mProperties := mProperties m OR push_bit 16 (scast untuneProcessingOrder)\<rparr>"

lemmas message_getters =
  getRequestType_def getHandle_def getClientPID_def getClientTID_def getDuration_def
  getProperties_def
lemmas message_setters =
  setRequestType_def setHandle_def setDuration_def setClientPID_def setClientTID_def
  setProperties_def

section \<open>The packed properties word\<close>

lemma getPriority_ucast: "getPriority m = ucast (mProperties m)"
  unfolding getPriority_def byte_mask by (rule bit_word_eqI) (simp add: bit_simps)

lemma getProcessingModes_ucast: "getProcessingModes m = ucast (drop_bit 8 (mProperties m))"
  unfolding getProcessingModes_def byte_mask
  by (rule bit_word_eqI) (auto simp: bit_simps min_def)

lemma getPriority_setPriority: "getPriority (setPriority p m) = getPriority m OR p"
  by (rule bit_word_eqI)
    (auto simp: getPriority_ucast setPriority_def bit_scast8 bit_simps simp del: bit_signed_iff)

lemma getPriority_addProcessingMode [simp]: "getPriority (addProcessingMode k m) = getPriority m"
  by (rule bit_word_eqI) (auto simp: getPriority_ucast addProcessingMode_def bit_simps)

lemma getProcessingModes_addProcessingMode:
  "getProcessingModes (addProcessingMode k m) = getProcessingModes m OR k"
  by (rule bit_word_eqI)
    (auto simp: getProcessingModes_ucast addProcessingMode_def bit_simps min_def
       dest: top_bit_of_byte)

lemma getProcessingModes_setPriority:
  "0 \<le> sint p \<Longrightarrow> getProcessingModes (setPriority p m) = getProcessingModes m"
  by (rule bit_word_eqI)
    (auto simp: getProcessingModes_ucast setPriority_def bit_scast8_high bit_or_iff
       bit_unsigned_iff bit_drop_bit_eq)

lemma message_setters_frame [simp]:
  "mHandle (setPriority p m) = mHandle m" "mHandle (addProcessingMode k m) = mHandle m"
  "mDuration (setPriority p m) = mDuration m" "mDuration (addProcessingMode k m) = mDuration m"
  "mClientPID (setPriority p m) = mClientPID m" "mClientPID (addProcessingMode k m) = mClientPID m"
  "mClientTID (setPriority p m) = mClientTID m" "mClientTID (addProcessingMode k m) = mClientTID m"
  "mReqType (setPriority p m) = mReqType m" "mReqType (addProcessingMode k m) = mReqType m"
  by (simp_all add: setPriority_def addProcessingMode_def)

section \<open>Client-side macros on the properties word\<close>

definition SET_REQUEST_PRIORITY :: "i32 \<Rightarrow> i32 \<Rightarrow> i32" where
  "SET_REQUEST_PRIORITY properties priority =
     (if sint properties < 0 \<or> sint priority < 0 \<or> sint priority \<ge> 2 then -1
      else properties OR priority)"

definition ADD_ALLOWED_MODE :: "i32 \<Rightarrow> i32 \<Rightarrow> i32" where
  "ADD_ALLOWED_MODE properties mode =
     (if sint properties < 0 \<or> sint mode < 1 \<or> sint mode > 4 then -1
      else properties OR push_bit 8 (signed_drop_bit 8 properties OR mode))"

definition EXTRACT_REQUEST_PRIORITY :: "i32 \<Rightarrow> i8" where
  "EXTRACT_REQUEST_PRIORITY properties = ucast (properties AND (push_bit 8 1 - 1))"

definition EXTRACT_ALLOWED_MODES :: "i32 \<Rightarrow> i8" where
  "EXTRACT_ALLOWED_MODES properties =
     ucast (signed_drop_bit 8 properties AND (push_bit 8 1 - 1))"

text \<open>The server reads back exactly what the client macros extract from the same word.\<close>

lemma server_reads_client_priority: "getPriority m = EXTRACT_REQUEST_PRIORITY (mProperties m)"
  by (simp add: getPriority_def EXTRACT_REQUEST_PRIORITY_def)

lemma server_reads_client_modes: "getProcessingModes m = EXTRACT_ALLOWED_MODES (mProperties m)"
  by (simp add: getProcessingModes_def EXTRACT_ALLOWED_MODES_def)

end
