(* ===== verification/Resource.thy ===== *)
theory Resource
  imports Prelude
begin

text \<open>
  A tunable of a request (\<^verbatim>\<open>modula/Common/Resource.cpp\<close>,
  \<^verbatim>\<open>Include/Resource.h\<close>). The union \<^verbatim>\<open>mResValue\<close> holds two inline
  values or a pointer to an array: \<open>Values\<close> is the state after an inline write (a half the
  source never wrote is \<^const>\<open>None\<close>), \<open>ValueArr None\<close> the null pointer, whose
  bytes read as zero inline values, and \<open>ValueArr (Some xs)\<close> an allocated array, with
  \<^const>\<open>None\<close> for an element never written. Reading memory that holds no value of the
  type is a fault. The answers of \<^verbatim>\<open>new (std::nothrow)\<close> are an argument.
\<close>

datatype ResAction = RES_FORWARD | RES_SKIP

datatype res_union =
    Values "i32 option" "i32 option"
  | ValueArr "i32 option list option"

record resource =
  mResCode :: u32
  mResInfo :: u32
  mOptionalInfo :: i32
  mNumValues :: i32
  mResValue :: res_union
  mResAction :: ResAction

definition Resource_init :: resource where
  "Resource_init = \<lparr>mResCode = 0, mResInfo = 0, mOptionalInfo = 0, mNumValues = 0,
     mResValue = ValueArr None, mResAction = RES_FORWARD\<rparr>"

section \<open>Accessors\<close>

definition getCoreValue :: "resource \<Rightarrow> i32" where
  "getCoreValue r = mResInfo r AND (push_bit 8 1 - 1)"

definition getClusterValue :: "resource \<Rightarrow> i32" where
  "getClusterValue r = drop_bit 8 (mResInfo r) AND (push_bit 8 1 - 1)"

definition getValuesCount :: "resource \<Rightarrow> i32" where
  "getValuesCount r = mNumValues r"

definition inline_value :: "res_union \<Rightarrow> nat \<Rightarrow> i32 option" where
  "inline_value u index =
     (case u of Values a b \<Rightarrow> (if index = 0 then a else b)
      | ValueArr None \<Rightarrow> Some 0
      | ValueArr (Some _) \<Rightarrow> None)"

definition array_value :: "res_union \<Rightarrow> nat \<Rightarrow> i32 option" where
  "array_value u index =
     (case u of ValueArr (Some xs) \<Rightarrow> (if index < length xs then xs ! index else None)
      | _ \<Rightarrow> None)"

definition getValueAt :: "resource \<Rightarrow> i32 \<Rightarrow> i32 option" where
  "getValueAt r index =
     (if sint index < 0 \<or> sint index \<ge> sint (mNumValues r) then Some (-1)
      else if sint (mNumValues r) \<le> 2 then inline_value (mResValue r) (nat (sint index))
      else array_value (mResValue r) (nat (sint index)))"

definition setCoreValue :: "i32 \<Rightarrow> resource \<Rightarrow> resource" where
  "setCoreValue core r = r\<lparr>mResInfo := (mResInfo r XOR getCoreValue r) OR core\<rparr>"

definition setClusterValue :: "i32 \<Rightarrow> resource \<Rightarrow> resource" where
  "setClusterValue cluster r =
     r\<lparr>mResInfo := (mResInfo r XOR push_bit 8 (getClusterValue r)) OR push_bit 8 cluster\<rparr>"

definition setResCode :: "u32 \<Rightarrow> resource \<Rightarrow> resource" where
  "setResCode resCode r = r\<lparr>mResCode := resCode\<rparr>"

definition setResInfo :: "i32 \<Rightarrow> resource \<Rightarrow> resource" where
  "setResInfo resInfo r = r\<lparr>mResInfo := resInfo\<rparr>"

definition setOptionalInfo :: "i32 \<Rightarrow> resource \<Rightarrow> resource" where
  "setOptionalInfo optionalInfo r = r\<lparr>mOptionalInfo := optionalInfo\<rparr>"

definition setResAction :: "ResAction \<Rightarrow> resource \<Rightarrow> resource" where
  "setResAction action r = r\<lparr>mResAction := action\<rparr>"

text \<open>\<open>new_ok\<close>: whether \<^verbatim>\<open>new (std::nothrow) int32_t[mNumValues]\<close> succeeds.\<close>

definition setNumValues :: "bool \<Rightarrow> i32 \<Rightarrow> resource \<Rightarrow> resource" where
  "setNumValues new_ok numValues r =
     (let r' = r\<lparr>mNumValues := numValues\<rparr> in
      if sint numValues > 2
      then r'\<lparr>mResValue := ValueArr (if new_ok then Some (replicate (nat (sint numValues)) None)
                                     else None)\<rparr>
      else r')"

definition write_inline :: "res_union \<Rightarrow> nat \<Rightarrow> i32 \<Rightarrow> res_union" where
  "write_inline u index v =
     (if index = 0 then Values (Some v) (inline_value u 1)
      else Values (inline_value u 0) (Some v))"

definition setValueAt :: "i32 \<Rightarrow> i32 \<Rightarrow> resource \<Rightarrow> (ErrCode \<times> resource) option" where
  "setValueAt index v r =
     (if sint index < 0 \<or> sint index \<ge> sint (mNumValues r) then Some (RC_BAD_ARG, r)
      else if sint (mNumValues r) > 2 then
        (case mResValue r of
           ValueArr None \<Rightarrow> Some (RC_MEMORY_ALLOCATION_FAILURE, r)
         | ValueArr (Some xs) \<Rightarrow>
             (if nat (sint index) < length xs
              then Some (RC_SUCCESS, r\<lparr>mResValue := ValueArr (Some (xs[nat (sint index) := Some v]))\<rparr>)
              else None)
         | Values _ _ \<Rightarrow> None)
      else Some (RC_SUCCESS, r\<lparr>mResValue := write_inline (mResValue r) (nat (sint index)) v\<rparr>))"

text \<open>The copy constructor: allocate, copy the header, then copy values until a write fails.\<close>

fun copy_values :: "i32 list \<Rightarrow> resource \<Rightarrow> resource \<Rightarrow> resource option" where
  "copy_values [] src dst = Some dst"
| "copy_values (i # is) src dst =
     (case getValueAt src i of None \<Rightarrow> None
      | Some v \<Rightarrow> (case setValueAt i v dst of None \<Rightarrow> None
          | Some (rc, dst') \<Rightarrow> if RC_IS_NOTOK rc then Some dst' else copy_values is src dst'))"

definition Resource_copy :: "bool \<Rightarrow> resource \<Rightarrow> resource option" where
  "Resource_copy new_ok src =
     (let dst = setNumValues new_ok (getValuesCount src)
                  (Resource_init\<lparr>mResCode := mResCode src\<rparr>);
          dst = dst\<lparr>mResInfo := mResInfo src, mOptionalInfo := mOptionalInfo src,
                    mResAction := mResAction src\<rparr>
      in copy_values (map word_of_nat [0 ..< nat (sint (mNumValues src))]) src dst)"

section \<open>Core and cluster fields\<close>

lemma getCoreValue_mask: "getCoreValue r = mResInfo r AND mask 8"
  unfolding getCoreValue_def byte_mask ..

lemma getClusterValue_mask: "getClusterValue r = drop_bit 8 (mResInfo r) AND mask 8"
  unfolding getClusterValue_def byte_mask ..

lemma bit_core: "bit (getCoreValue r) n \<longleftrightarrow> n < 8 \<and> bit (mResInfo r) n"
  by (auto simp: getCoreValue_mask bit_simps)

lemma bit_cluster: "bit (getClusterValue r) n \<longleftrightarrow> n < 8 \<and> bit (mResInfo r) (8 + n)"
  by (auto simp: getClusterValue_mask bit_simps)

text \<open>A word below 256 has no bit at position 8 or above.\<close>

lemma small_word_bits: "(c :: i32) < 256 \<Longrightarrow> bit c n \<Longrightarrow> n < 8"
proof (rule ccontr)
  assume "c < 256" "bit c n" "\<not> n < 8"
  have "c = take_bit 8 c"
    using \<open>c < 256\<close> by (simp add: word_less_nat_alt unsigned_take_bit_eq take_bit_nat_eq_self
        word_unat_eq_iff)
  with \<open>bit c n\<close> have "bit (take_bit 8 c) n" by simp
  with \<open>\<not> n < 8\<close> show False by (simp add: bit_take_bit_iff)
qed

lemma setCoreValue_get: "c < 256 \<Longrightarrow> getCoreValue (setCoreValue c r) = c"
  by (rule bit_word_eqI)
    (auto simp: bit_core setCoreValue_def bit_or_iff bit_xor_iff dest: small_word_bits)

lemma setCoreValue_cluster: "c < 256 \<Longrightarrow> getClusterValue (setCoreValue c r) = getClusterValue r"
  by (rule bit_word_eqI)
    (auto simp: bit_cluster bit_core setCoreValue_def bit_or_iff bit_xor_iff dest: small_word_bits)

lemma setClusterValue_get: "c < 256 \<Longrightarrow> getClusterValue (setClusterValue c r) = c"
  by (rule bit_word_eqI)
    (auto simp: bit_cluster setClusterValue_def bit_or_iff bit_xor_iff bit_push_bit_iff
       dest: small_word_bits)

lemma setClusterValue_core: "getCoreValue (setClusterValue c r) = getCoreValue r"
  by (rule bit_word_eqI)
    (auto simp: bit_core setClusterValue_def bit_or_iff bit_xor_iff bit_push_bit_iff)

text \<open>The upper half of the word (the Mpam group) survives both.\<close>

lemma setCoreValue_high: "c < 256 \<Longrightarrow> drop_bit 16 (mResInfo (setCoreValue c r)) = drop_bit 16 (mResInfo r)"
  by (rule bit_word_eqI)
    (auto simp: bit_core setCoreValue_def bit_or_iff bit_xor_iff bit_drop_bit_eq dest: small_word_bits)

lemma setClusterValue_high:
  "c < 256 \<Longrightarrow> drop_bit 16 (mResInfo (setClusterValue c r)) = drop_bit 16 (mResInfo r)"
  by (rule bit_word_eqI)
    (auto simp: bit_cluster setClusterValue_def bit_or_iff bit_xor_iff bit_drop_bit_eq
       bit_push_bit_iff dest: small_word_bits)

section \<open>Values\<close>

text \<open>
  What the value store looks like between operations: up to two values inline, more in an array
  of exactly \<^verbatim>\<open>mNumValues\<close> elements (or no array, when its allocation failed).
\<close>

definition res_ok :: "resource \<Rightarrow> bool" where
  "res_ok r \<longleftrightarrow>
     (if sint (mNumValues r) > 2
      then (\<exists>arr. mResValue r = ValueArr arr \<and>
              (\<forall>xs. arr = Some xs \<longrightarrow> length xs = nat (sint (mNumValues r))))
      else (\<forall>xs. mResValue r \<noteq> ValueArr (Some xs)))"

definition in_values :: "resource \<Rightarrow> i32 \<Rightarrow> bool" where
  "in_values r i \<longleftrightarrow> 0 \<le> sint i \<and> sint i < sint (mNumValues r)"

lemma Resource_init_ok: "res_ok Resource_init"
  by (simp add: res_ok_def Resource_init_def)

lemma setNumValues_ok: "res_ok r \<Longrightarrow> mNumValues r = 0 \<Longrightarrow> res_ok (setNumValues b n r)"
  by (auto simp: res_ok_def setNumValues_def Let_def)

lemma setValueAt_defined: "res_ok r \<Longrightarrow> setValueAt i v r \<noteq> None"
  by (auto simp: res_ok_def setValueAt_def split: res_union.splits option.splits)

lemma setValueAt_keeps_ok: "setValueAt i v r = Some (rc, r') \<Longrightarrow> res_ok r \<Longrightarrow> res_ok r'"
  by (auto simp: res_ok_def setValueAt_def write_inline_def
      split: if_splits res_union.splits option.splits)

lemma setValueAt_out: "\<not> in_values r i \<Longrightarrow> setValueAt i v r = Some (RC_BAD_ARG, r)"
  by (auto simp: in_values_def setValueAt_def)

lemma setValueAt_frame:
  "setValueAt i v r = Some (rc, r') \<Longrightarrow>
     mResCode r' = mResCode r \<and> mResInfo r' = mResInfo r \<and> mOptionalInfo r' = mOptionalInfo r \<and>
     mNumValues r' = mNumValues r \<and> mResAction r' = mResAction r"
  by (auto simp: setValueAt_def split: if_splits res_union.splits option.splits)

lemma sint_eq_nat_iff: "0 \<le> sint i \<Longrightarrow> 0 \<le> sint j \<Longrightarrow> nat (sint i) = nat (sint j) \<longleftrightarrow> i = (j :: i32)"
  by (auto dest: eq_nat_nat_iff[THEN iffD1, rotated 2] simp: signed_word_eqI)

lemma inline_value_write:
  "i < 2 \<Longrightarrow> j < 2 \<Longrightarrow> inline_value (write_inline u i v) j = (if j = i then Some v else inline_value u j)"
  by (cases i; cases j) (auto simp: write_inline_def inline_value_def split: res_union.splits option.splits)

text \<open>Reading back: the written value at the written index, the old value elsewhere.\<close>

lemma setValueAt_getValueAt:
  assumes "res_ok r" "in_values r i" "setValueAt i v r = Some (RC_SUCCESS, r')"
  shows "getValueAt r' j = (if j = i then Some v else getValueAt r j)"
proof (cases "in_values r j")
  case False
  with assms show ?thesis
    using setValueAt_frame[OF assms(3)] by (auto simp: getValueAt_def in_values_def)
next
  case True
  note j = this
  show ?thesis
  proof (cases "sint (mNumValues r) > 2")
    case True
    with assms j show ?thesis
      by (auto simp: res_ok_def setValueAt_def getValueAt_def array_value_def in_values_def
          sint_eq_nat_iff nth_list_update split: if_splits option.splits)
  next
    case False
    have r': "r' = r\<lparr>mResValue := write_inline (mResValue r) (nat (sint i)) v\<rparr>"
      using assms False by (auto simp: setValueAt_def in_values_def)
    have "nat (sint i) < 2" "nat (sint j) < 2"
      using assms(2) j False by (auto simp: in_values_def)
    then have "inline_value (mResValue r') (nat (sint j)) =
        (if nat (sint j) = nat (sint i) then Some v else inline_value (mResValue r) (nat (sint j)))"
      by (simp add: r' inline_value_write)
    with False assms(2) j show ?thesis
      using sint_eq_nat_iff[of j i] by (auto simp: r' getValueAt_def in_values_def)
  qed
qed

section \<open>The copy constructor\<close>

text \<open>The array of a resource with more than two values was allocated.\<close>

definition allocated :: "resource \<Rightarrow> bool" where
  "allocated r \<longleftrightarrow> (sint (mNumValues r) > 2 \<longrightarrow> mResValue r \<noteq> ValueArr None)"

definition same_header :: "resource \<Rightarrow> resource \<Rightarrow> bool" where
  "same_header r r' \<longleftrightarrow> mResCode r' = mResCode r \<and> mResInfo r' = mResInfo r \<and>
     mOptionalInfo r' = mOptionalInfo r \<and> mNumValues r' = mNumValues r \<and> mResAction r' = mResAction r"

lemma same_header_trans: "same_header a b \<Longrightarrow> same_header b c \<Longrightarrow> same_header a c"
  by (simp add: same_header_def)

lemma setValueAt_success:
  "res_ok r \<Longrightarrow> allocated r \<Longrightarrow> in_values r i \<Longrightarrow>
     \<exists>r'. setValueAt i v r = Some (RC_SUCCESS, r') \<and> allocated r'"
  by (auto simp: res_ok_def allocated_def in_values_def setValueAt_def nat_less_iff
      split: option.splits if_splits)

lemma copy_values_spec:
  assumes "res_ok dst" "allocated dst" "mNumValues dst = mNumValues src"
    and "\<And>i. i \<in> set is \<Longrightarrow> in_values src i \<and> getValueAt src i \<noteq> None"
  shows "\<exists>r. copy_values is src dst = Some r \<and> res_ok r \<and> same_header dst r \<and>
    (\<forall>j. getValueAt r j = (if j \<in> set is then getValueAt src j else getValueAt dst j))"
  using assms
proof (induction "is" arbitrary: dst)
  case Nil
  then show ?case by (simp add: same_header_def)
next
  case (Cons i "is")
  obtain v where v: "getValueAt src i = Some v" using Cons.prems(4)[of i] by auto
  have i: "in_values dst i" using Cons.prems(3,4) by (simp add: in_values_def)
  obtain d where d: "setValueAt i v dst = Some (RC_SUCCESS, d)" "allocated d"
    using setValueAt_success[OF Cons.prems(1,2) i] by blast
  have ok: "res_ok d" "same_header dst d"
    using setValueAt_keeps_ok[OF d(1) Cons.prems(1)] setValueAt_frame[OF d(1)] by (auto simp: same_header_def)
  have "\<exists>r. copy_values is src d = Some r \<and> res_ok r \<and> same_header d r \<and>
      (\<forall>j. getValueAt r j = (if j \<in> set is then getValueAt src j else getValueAt d j))"
    using ok d Cons.prems(3,4) by (intro Cons.IH) (auto simp: same_header_def)
  then obtain r where r: "copy_values is src d = Some r" "res_ok r" "same_header d r"
    "\<And>j. getValueAt r j = (if j \<in> set is then getValueAt src j else getValueAt d j)" by blast
  have "getValueAt r j = (if j \<in> set (i # is) then getValueAt src j else getValueAt dst j)" for j
    using r(4)[of j] setValueAt_getValueAt[OF Cons.prems(1) i d(1), of j] v by auto
  with v d r ok same_header_trans show ?case by auto
qed

definition copy_indices :: "i32 \<Rightarrow> i32 list" where
  "copy_indices n = map word_of_nat [0 ..< nat (sint n)]"

lemma sint_of_nat_below: "k < nat (sint (n :: i32)) \<Longrightarrow> sint (word_of_nat k :: i32) = int k"
  using sint_lt[of n] by (simp add: signed_of_nat signed_take_bit_int_eq_self)

lemma copy_indices_set: "i \<in> set (copy_indices n) \<longleftrightarrow> 0 \<le> sint i \<and> sint i < sint n"
proof
  assume "i \<in> set (copy_indices n)"
  then show "0 \<le> sint i \<and> sint i < sint n"
    by (auto simp: copy_indices_def sint_of_nat_below)
next
  assume i: "0 \<le> sint i \<and> sint i < sint n"
  then have "i = word_of_nat (nat (sint i))" by simp
  moreover have "nat (sint i) < nat (sint n)" using i by simp
  ultimately show "i \<in> set (copy_indices n)" unfolding copy_indices_def by fastforce
qed

lemma Resource_copy_faithful:
  assumes "res_ok src" "\<And>j. in_values src j \<Longrightarrow> getValueAt src j \<noteq> None"
  shows "\<exists>r. Resource_copy True src = Some r \<and> res_ok r \<and> same_header src r \<and>
    (\<forall>j. getValueAt r j = getValueAt src j)"
proof -
  let ?d = "(setNumValues True (getValuesCount src) (Resource_init\<lparr>mResCode := mResCode src\<rparr>))
      \<lparr>mResInfo := mResInfo src, mOptionalInfo := mOptionalInfo src, mResAction := mResAction src\<rparr>"
  have d: "res_ok ?d" "allocated ?d" "same_header src ?d"
    by (simp_all add: res_ok_def allocated_def same_header_def setNumValues_def Resource_init_def
        getValuesCount_def Let_def)
  have "\<exists>r. copy_values (copy_indices (mNumValues src)) src ?d = Some r \<and> res_ok r \<and> same_header ?d r \<and>
    (\<forall>j. getValueAt r j = (if j \<in> set (copy_indices (mNumValues src)) then getValueAt src j else getValueAt ?d j))"
    using d assms(2) by (intro copy_values_spec) (auto simp: copy_indices_set in_values_def same_header_def)
  then obtain r where r: "copy_values (copy_indices (mNumValues src)) src ?d = Some r" "res_ok r" "same_header ?d r"
    "\<And>j. getValueAt r j = (if j \<in> set (copy_indices (mNumValues src)) then getValueAt src j else getValueAt ?d j)"
    by blast
  have "getValueAt r j = getValueAt src j" for j
    using r(4)[of j] d(3) by (auto simp: copy_indices_set getValueAt_def same_header_def)
  moreover have "Resource_copy True src = Some r"
    using r(1) by (simp add: Resource_copy_def Let_def copy_indices_def)
  ultimately show ?thesis using r same_header_trans[OF d(3)] by auto
qed

end
