(* ===== verification/DLManager.thy ===== *)
theory DLManager
  imports Prelude
begin

text \<open>
  The intrusive doubly linked lists of \<^verbatim>\<open>modula/Components/DLManager.cpp\<close> and
  \<^verbatim>\<open>Include/DLManager.h\<close>, at the level of pointers. A node
  (\<^verbatim>\<open>ExtIterable1\<close>) carries two pairs of links, so one node sits in two lists at once:
  linker 0 in its request's list, linker 1 in a list of the concurrency table. The heap maps an
  address to the node stored there; dereferencing an address that holds no node is a fault.

  The list a manager represents is given by the relation \<open>dl_list\<close>; every operation is
  shown to return, to implement the list operation its comment promises, and to leave all other
  nodes, the other linker and the payloads alone.
\<close>

record 'd dl_node =
  nd_next :: "nat \<Rightarrow> addr option"
  nd_prev :: "nat \<Rightarrow> addr option"
  mData :: 'd

type_synonym 'd dl_heap = "addr \<Rightarrow> 'd dl_node option"

text \<open>A \<^verbatim>\<open>DLPolicy\<close> callback looks at the new node and at a list node.\<close>

type_synonym 'd dl_policy = "'d dl_heap \<Rightarrow> addr \<Rightarrow> addr \<Rightarrow> bool option"

record 'd dl_manager =
  mHead :: "addr option"
  mTail :: "addr option"
  mLinkerInUse :: nat
  mSize :: int
  mRank :: int
  mAscPolicy :: "'d dl_policy option"
  mDescPolicy :: "'d dl_policy option"

datatype DLOptions = INSERT_START | INSERT_END | INSERT_N_NODE_START

section \<open>Nodes\<close>

text \<open>\<^verbatim>\<open>CREATE_N_WAY_ITERABLE(1)\<close>: linkers 0 and 1, anything else reads as null.\<close>

definition getNextPtr :: "'d dl_heap \<Rightarrow> addr \<Rightarrow> nat \<Rightarrow> addr option option" where
  "getNextPtr h a linker =
     (case h a of None \<Rightarrow> None
      | Some nd \<Rightarrow> Some (if linker \<ge> 2 then None else nd_next nd linker))"

definition getPrevPtr :: "'d dl_heap \<Rightarrow> addr \<Rightarrow> nat \<Rightarrow> addr option option" where
  "getPrevPtr h a linker =
     (case h a of None \<Rightarrow> None
      | Some nd \<Rightarrow> Some (if linker \<ge> 2 then None else nd_prev nd linker))"

definition setNextLinkage :: "'d dl_heap \<Rightarrow> addr \<Rightarrow> nat \<Rightarrow> addr option \<Rightarrow> 'd dl_heap option" where
  "setNextLinkage h a linker node =
     (case h a of None \<Rightarrow> None
      | Some nd \<Rightarrow> Some (if linker \<ge> 2 then h
                        else h(a \<mapsto> nd\<lparr>nd_next := (nd_next nd)(linker := node)\<rparr>)))"

definition setPrevLinkage :: "'d dl_heap \<Rightarrow> addr \<Rightarrow> nat \<Rightarrow> addr option \<Rightarrow> 'd dl_heap option" where
  "setPrevLinkage h a linker node =
     (case h a of None \<Rightarrow> None
      | Some nd \<Rightarrow> Some (if linker \<ge> 2 then h
                        else h(a \<mapsto> nd\<lparr>nd_prev := (nd_prev nd)(linker := node)\<rparr>)))"

section \<open>Operations\<close>

definition DLManager_init :: "nat \<Rightarrow> 'd dl_manager" where
  "DLManager_init linkerInUse =
     \<lparr>mHead = None, mTail = None, mLinkerInUse = linkerInUse, mSize = 0, mRank = 0,
      mAscPolicy = None, mDescPolicy = None\<rparr>"

definition insertHelper ::
    "'d dl_heap \<Rightarrow> 'd dl_manager \<Rightarrow> addr option \<Rightarrow> ('d dl_heap \<times> 'd dl_manager \<times> ErrCode) option" where
  "insertHelper h m node =
     (case node of None \<Rightarrow> Some (h, m, RC_INVALID_VALUE)
      | Some n \<Rightarrow>
        (case mTail m of
           Some tail \<Rightarrow> do {
             h \<leftarrow> setNextLinkage h n (mLinkerInUse m) None;
             h \<leftarrow> setPrevLinkage h n (mLinkerInUse m) (Some tail);
             h \<leftarrow> setNextLinkage h tail (mLinkerInUse m) (Some n);
             Some (h, m\<lparr>mTail := Some n, mSize := mSize m + 1\<rparr>, RC_SUCCESS) }
         | None \<Rightarrow> do {
             h \<leftarrow> setNextLinkage h n (mLinkerInUse m) None;
             h \<leftarrow> setPrevLinkage h n (mLinkerInUse m) None;
             Some (h, m\<lparr>mHead := Some n, mTail := Some n, mSize := mSize m + 1\<rparr>, RC_SUCCESS) }))"

definition insertStart ::
    "'d dl_heap \<Rightarrow> 'd dl_manager \<Rightarrow> addr \<Rightarrow> ('d dl_heap \<times> 'd dl_manager \<times> ErrCode) option" where
  "insertStart h m n =
     (case mHead m of
        Some head \<Rightarrow> do {
          h \<leftarrow> setNextLinkage h n (mLinkerInUse m) (Some head);
          h \<leftarrow> setPrevLinkage h n (mLinkerInUse m) None;
          h \<leftarrow> setPrevLinkage h head (mLinkerInUse m) (Some n);
          Some (h, m\<lparr>mHead := Some n, mSize := mSize m + 1\<rparr>, RC_SUCCESS) }
      | None \<Rightarrow> do {
          h \<leftarrow> setPrevLinkage h n (mLinkerInUse m) None;
          h \<leftarrow> setNextLinkage h n (mLinkerInUse m) None;
          Some (h, m\<lparr>mHead := Some n, mTail := Some n, mSize := mSize m + 1\<rparr>, RC_SUCCESS) })"

text \<open>
  The position loops (\<^verbatim>\<open>getNth\<close>, \<^verbatim>\<open>isNodeNthHelper\<close>, the search of
  \<^verbatim>\<open>INSERT_N_NODE_START\<close>) all advance along one linker and count: the result is the
  node at which the count matches, or null at the end of the list.
\<close>

partial_function (option) dl_walk ::
    "'d dl_heap \<Rightarrow> nat \<Rightarrow> addr option \<Rightarrow> int \<Rightarrow> int \<Rightarrow> addr option option" where
  "dl_walk h k currNode position n =
     (case currNode of None \<Rightarrow> Some None
      | Some a \<Rightarrow>
         if position = n then Some (Some a)
         else Option.bind (getNextPtr h a k) (\<lambda>nx. dl_walk h k nx (position + 1) n))"

definition insertHelper_opt ::
    "'d dl_heap \<Rightarrow> 'd dl_manager \<Rightarrow> addr option \<Rightarrow> DLOptions \<Rightarrow> int \<Rightarrow>
       ('d dl_heap \<times> 'd dl_manager \<times> ErrCode) option" where
  "insertHelper_opt h m node opt n =
     (case node of None \<Rightarrow> Some (h, m, RC_INVALID_VALUE)
      | Some nd \<Rightarrow>
        (case opt of
           INSERT_START \<Rightarrow> insertStart h m nd
         | INSERT_END \<Rightarrow> insertHelper h m (Some nd)
         | INSERT_N_NODE_START \<Rightarrow>
            (if n < 0 then Some (h, m, RC_BAD_ARG)
             else if n = 0 then insertStart h m nd
             else if n = mSize m + 1 then insertHelper h m (Some nd)
             else if n > mSize m then Some (h, m, RC_BAD_ARG)
             else do {
               cur \<leftarrow> dl_walk h (mLinkerInUse m) (mHead m) 1 n;
               curNode \<leftarrow> cur;
               prevNode \<leftarrow> getPrevPtr h curNode (mLinkerInUse m);
               (case prevNode of
                  None \<Rightarrow> insertStart h m nd
                | Some p \<Rightarrow> do {
                    h \<leftarrow> setNextLinkage h p (mLinkerInUse m) (Some nd);
                    h \<leftarrow> setPrevLinkage h nd (mLinkerInUse m) (Some p);
                    h \<leftarrow> setPrevLinkage h curNode (mLinkerInUse m) (Some nd);
                    h \<leftarrow> setNextLinkage h nd (mLinkerInUse m) (Some curNode);
                    Some (h, m\<lparr>mSize := mSize m + 1\<rparr>, RC_SUCCESS) }) })))"

partial_function (option) policy_scan ::
    "'d dl_policy \<Rightarrow> 'd dl_heap \<Rightarrow> nat \<Rightarrow> addr \<Rightarrow> addr option \<Rightarrow> addr option option" where
  "policy_scan policyCB h k node currNode =
     (case currNode of None \<Rightarrow> Some None
      | Some a \<Rightarrow>
         Option.bind (getNextPtr h a k) (\<lambda>currNext.
         Option.bind (policyCB h node a) (\<lambda>hit.
           if hit then Some (Some a) else policy_scan policyCB h k node currNext)))"

definition insertWithPolicyHelper ::
    "'d dl_heap \<Rightarrow> 'd dl_manager \<Rightarrow> addr option \<Rightarrow> 'd dl_policy \<Rightarrow>
       ('d dl_heap \<times> 'd dl_manager \<times> ErrCode) option" where
  "insertWithPolicyHelper h m node policyCB =
     (case node of None \<Rightarrow> Some (h, m, RC_INVALID_VALUE)
      | Some n \<Rightarrow> do {
          hit \<leftarrow> policy_scan policyCB h (mLinkerInUse m) n (mHead m);
          (case hit of
             Some currNode \<Rightarrow> do {
               h \<leftarrow> setNextLinkage h n (mLinkerInUse m) (Some currNode);
               prv \<leftarrow> getPrevPtr h currNode (mLinkerInUse m);
               h \<leftarrow> setPrevLinkage h n (mLinkerInUse m) prv;
               (case prv of
                  None \<Rightarrow> do {
                    h \<leftarrow> setPrevLinkage h currNode (mLinkerInUse m) (Some n);
                    (if mHead m = None
                     then Some (h, m\<lparr>mTail := None, mHead := None, mSize := mSize m + 1\<rparr>, RC_SUCCESS)
                     else Some (h, m\<lparr>mHead := Some n, mSize := mSize m + 1\<rparr>, RC_SUCCESS)) }
                | Some p \<Rightarrow> do {
                    h \<leftarrow> setNextLinkage h p (mLinkerInUse m) (Some n);
                    h \<leftarrow> setPrevLinkage h currNode (mLinkerInUse m) (Some n);
                    Some (h, m\<lparr>mSize := mSize m + 1\<rparr>, RC_SUCCESS) }) }
           | None \<Rightarrow> do {
               h \<leftarrow> setNextLinkage h n (mLinkerInUse m) None;
               h \<leftarrow> setPrevLinkage h n (mLinkerInUse m) (mTail m);
               (case mTail m of
                  Some tail \<Rightarrow> do {
                    h \<leftarrow> setNextLinkage h tail (mLinkerInUse m) (Some n);
                    Some (h, m\<lparr>mTail := Some n, mSize := mSize m + 1\<rparr>, RC_SUCCESS) }
                | None \<Rightarrow>
                    Some (h, m\<lparr>mHead := Some n, mTail := Some n, mSize := mSize m + 1\<rparr>, RC_SUCCESS)) }) })"

definition insertAscHelper ::
    "'d dl_heap \<Rightarrow> 'd dl_manager \<Rightarrow> addr option \<Rightarrow> ('d dl_heap \<times> 'd dl_manager \<times> ErrCode) option" where
  "insertAscHelper h m node =
     (case mAscPolicy m of None \<Rightarrow> Some (h, m, RC_BAD_ARG)
      | Some policy \<Rightarrow> insertWithPolicyHelper h m node policy)"

definition insertDescHelper ::
    "'d dl_heap \<Rightarrow> 'd dl_manager \<Rightarrow> addr option \<Rightarrow> ('d dl_heap \<times> 'd dl_manager \<times> ErrCode) option" where
  "insertDescHelper h m node =
     (case mDescPolicy m of None \<Rightarrow> Some (h, m, RC_BAD_ARG)
      | Some policy \<Rightarrow> insertWithPolicyHelper h m node policy)"

definition isNodeNthHelper :: "'d dl_heap \<Rightarrow> 'd dl_manager \<Rightarrow> int \<Rightarrow> addr option \<Rightarrow> bool option" where
  "isNodeNthHelper h m n node =
     do { r \<leftarrow> dl_walk h (mLinkerInUse m) (mHead m) 0 n;
          Some (case r of None \<Rightarrow> False | Some a \<Rightarrow> node = Some a) }"

definition getNth :: "'d dl_heap \<Rightarrow> 'd dl_manager \<Rightarrow> int \<Rightarrow> addr option option" where
  "getNth h m n = dl_walk h (mLinkerInUse m) (mHead m) 0 n"

partial_function (option) match_walk ::
    "('d dl_heap \<Rightarrow> addr \<Rightarrow> addr \<Rightarrow> bool option) option \<Rightarrow> 'd dl_heap \<Rightarrow> nat \<Rightarrow> nat \<Rightarrow>
       addr option \<Rightarrow> addr option \<Rightarrow> bool option" where
  "match_walk cmpPolicy h k k' srcCur targetCur =
     (case (srcCur, targetCur) of
        (Some a, Some b) \<Rightarrow>
          Option.bind (case cmpPolicy of None \<Rightarrow> Some (a = b) | Some cmp \<Rightarrow> cmp h a b) (\<lambda>same.
            if \<not> same then Some False
            else Option.bind (getNextPtr h a k) (\<lambda>a'.
                 Option.bind (getNextPtr h b k') (\<lambda>b'. match_walk cmpPolicy h k k' a' b')))
      | (None, None) \<Rightarrow> Some True
      | _ \<Rightarrow> Some False)"

definition matchAgainstHelper ::
    "'d dl_heap \<Rightarrow> 'd dl_manager \<Rightarrow> 'd dl_manager option \<Rightarrow> 'd dl_policy option \<Rightarrow> bool option" where
  "matchAgainstHelper h m target cmpPolicy =
     (case target of None \<Rightarrow> Some False
      | Some t \<Rightarrow>
         if mSize m \<noteq> mSize t then Some False
         else match_walk cmpPolicy h (mLinkerInUse m) (mLinkerInUse t) (mHead m) (mHead t))"

definition getLenHelper :: "'d dl_manager \<Rightarrow> int" where
  "getLenHelper m = mSize m"

definition deleteNodeHelper ::
    "'d dl_heap \<Rightarrow> 'd dl_manager \<Rightarrow> addr option \<Rightarrow> ('d dl_heap \<times> 'd dl_manager \<times> ErrCode) option" where
  "deleteNodeHelper h m node =
     (case node of None \<Rightarrow> Some (h, m, RC_INVALID_VALUE)
      | Some a \<Rightarrow> do {
          prv \<leftarrow> getPrevPtr h a (mLinkerInUse m);
          nx \<leftarrow> getNextPtr h a (mLinkerInUse m);
          (h, m) \<leftarrow> (case prv of
             Some p \<Rightarrow> do { h \<leftarrow> setNextLinkage h p (mLinkerInUse m) nx; Some (h, m) }
           | None \<Rightarrow> Some (h, m\<lparr>mHead := nx, mTail := (if nx = None then None else mTail m)\<rparr>));
          nx \<leftarrow> getNextPtr h a (mLinkerInUse m);
          prv \<leftarrow> getPrevPtr h a (mLinkerInUse m);
          (h, m) \<leftarrow> (case nx of
             Some x \<Rightarrow> do { h \<leftarrow> setPrevLinkage h x (mLinkerInUse m) prv; Some (h, m) }
           | None \<Rightarrow> Some (h, m\<lparr>mTail := prv, mHead := (if prv = None then None else mHead m)\<rparr>));
          Some (h, m\<lparr>mSize := mSize m - 1\<rparr>, RC_SUCCESS) })"

definition destroyHelper :: "'d dl_manager \<Rightarrow> 'd dl_manager" where
  "destroyHelper m = m\<lparr>mHead := None, mTail := None, mSize := 0\<rparr>"

text \<open>
  \<^verbatim>\<open>DL_ITERATE\<close>: the body runs on each node in turn with the heap and the surrounding
  state threaded through, and the next pointer is read after the body.
\<close>

partial_function (option) dl_iterate ::
    "nat \<Rightarrow> ('s \<Rightarrow> 'd dl_heap) \<Rightarrow> (addr \<Rightarrow> 's \<Rightarrow> 's option) \<Rightarrow> addr option \<Rightarrow> 's \<Rightarrow> 's option" where
  "dl_iterate k hp body iter s =
     (case iter of None \<Rightarrow> Some s
      | Some a \<Rightarrow>
         Option.bind (body a s) (\<lambda>s'.
         Option.bind (getNextPtr (hp s') a k) (\<lambda>nx. dl_iterate k hp body nx s')))"

declare dl_iterate.simps [code] dl_walk.simps [code] policy_scan.simps [code] match_walk.simps [code]

section \<open>Links and payloads of a heap\<close>

definition links :: "'d dl_heap \<Rightarrow> addr \<Rightarrow> nat \<Rightarrow> (addr option \<times> addr option) option" where
  "links h a k = map_option (\<lambda>nd. (nd_prev nd k, nd_next nd k)) (h a)"

definition dl_data :: "'d dl_heap \<Rightarrow> addr \<Rightarrow> 'd option" where
  "dl_data h a = map_option mData (h a)"

lemma links_None_iff [simp]: "links h a k = None \<longleftrightarrow> h a = None"
  by (simp add: links_def)

lemma dl_data_None_iff [simp]: "dl_data h a = None \<longleftrightarrow> h a = None"
  by (simp add: dl_data_def)

text \<open>Every pointer operation, seen through \<open>links\<close>.\<close>

lemma getNextPtr_links [dl_simps]:
  "links h a k = Some (p, n) \<Longrightarrow> k < 2 \<Longrightarrow> getNextPtr h a k = Some n"
  by (auto simp: links_def getNextPtr_def)

lemma getPrevPtr_links [dl_simps]:
  "links h a k = Some (p, n) \<Longrightarrow> k < 2 \<Longrightarrow> getPrevPtr h a k = Some p"
  by (auto simp: links_def getPrevPtr_def)

lemma setNextLinkage_ex:
  "h a \<noteq> None \<Longrightarrow> k < 2 \<Longrightarrow>
     \<exists>h'. setNextLinkage h a k q = Some h' \<and> (\<forall>b. dl_data h' b = dl_data h b) \<and>
       (\<forall>b j. links h' b j = (if b = a \<and> j = k then map_option (\<lambda>(p, n). (p, q)) (links h a k)
                              else links h b j))"
  by (auto simp: setNextLinkage_def links_def dl_data_def)

lemma setPrevLinkage_ex:
  "h a \<noteq> None \<Longrightarrow> k < 2 \<Longrightarrow>
     \<exists>h'. setPrevLinkage h a k q = Some h' \<and> (\<forall>b. dl_data h' b = dl_data h b) \<and>
       (\<forall>b j. links h' b j = (if b = a \<and> j = k then map_option (\<lambda>(p, n). (q, n)) (links h a k)
                              else links h b j))"
  by (auto simp: setPrevLinkage_def links_def dl_data_def)

lemma same_data_dom: "(\<forall>b. dl_data h' b = dl_data h b) \<Longrightarrow> (h' a = None) = (h a = None)"
  by (metis dl_data_None_iff)

text \<open>What an operation on linker \<open>k\<close> may touch: the links at \<open>k\<close> of the nodes in \<open>A\<close>.\<close>

definition dl_frame :: "nat \<Rightarrow> addr set \<Rightarrow> 'd dl_heap \<Rightarrow> 'd dl_heap \<Rightarrow> bool" where
  "dl_frame k A h h' \<longleftrightarrow>
     (\<forall>a. dl_data h' a = dl_data h a) \<and> (\<forall>a j. a \<notin> A \<or> j \<noteq> k \<longrightarrow> links h' a j = links h a j)"

lemma dl_frame_refl [frame_intros]: "dl_frame k A h h"
  by (simp add: dl_frame_def)

lemma dl_frame_mono: "dl_frame k A h h' \<Longrightarrow> A \<subseteq> B \<Longrightarrow> dl_frame k B h h'"
  by (auto simp: dl_frame_def)

lemma dl_frame_trans: "dl_frame k A h h' \<Longrightarrow> dl_frame k A h' h'' \<Longrightarrow> dl_frame k A h h''"
  by (auto simp: dl_frame_def)

lemma dl_frame_dom: "dl_frame k A h h' \<Longrightarrow> (h' a = None) = (h a = None)"
  by (simp add: dl_frame_def same_data_dom)

section \<open>The list a manager represents\<close>

fun first_ptr :: "addr list \<Rightarrow> addr option \<Rightarrow> addr option" where
  "first_ptr [] n = n"
| "first_ptr (x # xs) n = Some x"

definition last_ptr :: "addr list \<Rightarrow> addr option \<Rightarrow> addr option" where
  "last_ptr xs p = (if xs = [] then p else Some (last xs))"

lemma last_ptr_simps [simp]: "last_ptr [] p = p" "last_ptr (x # xs) p = last_ptr xs (Some x)"
  by (auto simp: last_ptr_def)

lemma last_ptr_append [simp]: "last_ptr (xs @ ys) p = last_ptr ys (last_ptr xs p)"
  by (auto simp: last_ptr_def)

lemma first_ptr_append [simp]: "first_ptr (xs @ ys) n = first_ptr xs (first_ptr ys n)"
  by (cases xs) auto

text \<open>A segment: forward and backward links agree, \<open>p\<close> before it and \<open>n\<close> after it.\<close>

fun dseg :: "'d dl_heap \<Rightarrow> nat \<Rightarrow> addr option \<Rightarrow> addr list \<Rightarrow> addr option \<Rightarrow> bool" where
  "dseg h k p [] n = True"
| "dseg h k p (x # xs) n = (links h x k = Some (p, first_ptr xs n) \<and> dseg h k (Some x) xs n)"

definition dl_list :: "'d dl_heap \<Rightarrow> 'd dl_manager \<Rightarrow> addr list \<Rightarrow> bool" where
  "dl_list h m xs \<longleftrightarrow>
     distinct xs \<and> mLinkerInUse m < 2 \<and> dseg h (mLinkerInUse m) None xs None \<and>
     mHead m = first_ptr xs None \<and> mTail m = last_ptr xs None \<and> mSize m = int (length xs)"

lemma dseg_append [simp]:
  "dseg h k p (xs @ ys) n \<longleftrightarrow> dseg h k p xs (first_ptr ys n) \<and> dseg h k (last_ptr xs p) ys n"
  by (induction xs arbitrary: p) auto

lemma dseg_links: "dseg h k p xs n \<Longrightarrow> a \<in> set xs \<Longrightarrow> \<exists>q r. links h a k = Some (q, r)"
  by (induction xs arbitrary: p) auto

lemma dseg_alloc: "dseg h k p xs n \<Longrightarrow> a \<in> set xs \<Longrightarrow> h a \<noteq> None"
  using dseg_links[of h k p xs n a] by (metis links_None_iff option.distinct(1))

lemma dseg_cong: "(\<And>a. a \<in> set xs \<Longrightarrow> links h' a k = links h a k) \<Longrightarrow> dseg h' k p xs n = dseg h k p xs n"
  by (induction xs arbitrary: p) auto

lemma dl_list_frame:
  "dl_frame k A h h' \<Longrightarrow> dl_list h m xs \<Longrightarrow> mLinkerInUse m \<noteq> k \<or> A \<inter> set xs = {} \<Longrightarrow> dl_list h' m xs"
  using dseg_cong[of xs h' "mLinkerInUse m" h None None] by (auto simp: dl_list_def dl_frame_def)

lemma dl_list_cong:
  "(\<And>a. a \<in> set xs \<Longrightarrow> links h' a (mLinkerInUse m) = links h a (mLinkerInUse m)) \<Longrightarrow>
     dl_list h m xs \<Longrightarrow> dl_list h' m xs"
  using dseg_cong[of xs h' "mLinkerInUse m" h None None] by (auto simp: dl_list_def)

lemma dl_list_alloc: "dl_list h m xs \<Longrightarrow> a \<in> set xs \<Longrightarrow> h a \<noteq> None"
  by (auto simp: dl_list_def dest: dseg_alloc)

lemma dl_list_rank [simp]: "dl_list h (m\<lparr>mRank := x\<rparr>) xs = dl_list h m xs"
  by (simp add: dl_list_def)

lemma dl_list_fresh: "dl_list h m xs \<Longrightarrow> h a = None \<Longrightarrow> dl_list (h(a \<mapsto> nd)) m xs"
proof (rule dl_list_cong)
  fix b assume "dl_list h m xs" "h a = None" "b \<in> set xs"
  then have "b \<noteq> a" using dl_list_alloc by metis
  then show "links (h(a \<mapsto> nd)) b (mLinkerInUse m) = links h b (mLinkerInUse m)" by (simp add: links_def)
qed

lemma dseg_relink_last:
  "dseg h k p xs q \<Longrightarrow> distinct xs \<Longrightarrow>
   (\<And>b. b \<in> set xs \<Longrightarrow>
      links h' b k = (if b = last xs then map_option (\<lambda>(u, v). (u, q')) (links h b k) else links h b k)) \<Longrightarrow>
   dseg h' k p xs q'"
proof (induction xs arbitrary: p)
  case Nil
  then show ?case by simp
next
  case (Cons x xs)
  show ?case
  proof (cases "xs = []")
    case True
    with Cons.prems show ?thesis by simp
  next
    case False
    with Cons.prems(2) have "x \<noteq> last xs" by auto
    with Cons.prems False have "links h' x k = Some (p, first_ptr xs q')"
      by (cases xs) auto
    moreover have "dseg h' k (Some x) xs q'"
      using Cons.prems False by (intro Cons.IH) auto
    ultimately show ?thesis by simp
  qed
qed

lemma dseg_relink_first:
  assumes "dseg h k p xs q" "distinct xs"
    and "\<And>b. b \<in> set xs \<Longrightarrow>
      links h' b k = (if b = hd xs then map_option (\<lambda>(u, v). (p', v)) (links h b k) else links h b k)"
  shows "dseg h' k p' xs q"
proof (cases xs)
  case (Cons a list)
  then have "dseg h' k (Some a) list q = dseg h k (Some a) list q"
    using assms(2,3) by (intro dseg_cong) auto
  with Cons assms(1,3) show ?thesis by auto
qed simp

text \<open>The two surgeries on which every insertion and deletion rests.\<close>

lemma dseg_splice:
  assumes seg: "dseg h k None (us @ vs) None" and dist: "distinct (us @ vs)" "n \<notin> set (us @ vs)"
    and new: "links h' n k = Some (last_ptr us None, first_ptr vs None)"
    and left: "\<And>b. b \<in> set us \<Longrightarrow>
      links h' b k = (if b = last us then map_option (\<lambda>(u, v). (u, Some n)) (links h b k) else links h b k)"
    and right: "\<And>b. b \<in> set vs \<Longrightarrow>
      links h' b k = (if b = hd vs then map_option (\<lambda>(u, v). (Some n, v)) (links h b k) else links h b k)"
  shows "dseg h' k None (us @ n # vs) None"
proof -
  have "dseg h' k None us (Some n)"
    by (rule dseg_relink_last[OF _ _ left, where q = "first_ptr vs None"]) (use seg dist in auto)
  moreover have "dseg h' k (Some n) vs None"
    by (rule dseg_relink_first[OF _ _ right, where p = "last_ptr us None"]) (use seg dist in auto)
  ultimately show ?thesis using new by simp
qed

lemma dseg_unsplice:
  assumes seg: "dseg h k None (us @ n # vs) None" and dist: "distinct (us @ n # vs)"
    and left: "\<And>b. b \<in> set us \<Longrightarrow>
      links h' b k = (if b = last us then map_option (\<lambda>(u, v). (u, first_ptr vs None)) (links h b k) else links h b k)"
    and right: "\<And>b. b \<in> set vs \<Longrightarrow>
      links h' b k = (if b = hd vs then map_option (\<lambda>(u, v). (last_ptr us None, v)) (links h b k) else links h b k)"
  shows "dseg h' k None (us @ vs) None"
proof -
  have "dseg h' k None us (first_ptr vs None)"
    by (rule dseg_relink_last[OF _ _ left, where q = "Some n"]) (use seg dist in auto)
  moreover have "dseg h' k (last_ptr us None) vs None"
    by (rule dseg_relink_first[OF _ _ right, where p = "Some n"]) (use seg dist in auto)
  ultimately show ?thesis by simp
qed

section \<open>The operations implement list operations\<close>

definition same_cfg :: "'d dl_manager \<Rightarrow> 'd dl_manager \<Rightarrow> bool" where
  "same_cfg m m' \<longleftrightarrow> mLinkerInUse m' = mLinkerInUse m \<and> mRank m' = mRank m \<and>
     mAscPolicy m' = mAscPolicy m \<and> mDescPolicy m' = mDescPolicy m"

text \<open>The operation returned with success, its list is now \<open>ys\<close>, and it touched only \<open>A\<close>.\<close>

definition dl_done ::
    "'d dl_heap \<Rightarrow> 'd dl_manager \<Rightarrow> addr set \<Rightarrow> addr list \<Rightarrow>
       ('d dl_heap \<times> 'd dl_manager \<times> ErrCode) option \<Rightarrow> bool" where
  "dl_done h m A ys r \<longleftrightarrow>
     (\<exists>h' m'. r = Some (h', m', RC_SUCCESS) \<and> dl_list h' m' ys \<and>
        dl_frame (mLinkerInUse m) A h h' \<and> same_cfg m m')"

lemma dl_doneI:
  "r = Some (h', m', RC_SUCCESS) \<Longrightarrow> dl_list h' m' ys \<Longrightarrow> dl_frame (mLinkerInUse m) A h h' \<Longrightarrow>
     same_cfg m m' \<Longrightarrow> dl_done h m A ys r"
  by (auto simp: dl_done_def)

lemma dl_doneE:
  assumes "dl_done h m A ys r"
  obtains h' m' where "r = Some (h', m', RC_SUCCESS)" "dl_list h' m' ys"
    "dl_frame (mLinkerInUse m) A h h'" "same_cfg m m'"
  using assms by (auto simp: dl_done_def)

lemma dl_list_splice:
  assumes l: "dl_list h m (us @ vs)" and n: "n \<notin> set (us @ vs)" and k: "mLinkerInUse m' = mLinkerInUse m"
    and new: "links h' n (mLinkerInUse m) = Some (last_ptr us None, first_ptr vs None)"
    and left: "\<And>b. b \<in> set us \<Longrightarrow> links h' b (mLinkerInUse m) =
      (if b = last us then map_option (\<lambda>(u, v). (u, Some n)) (links h b (mLinkerInUse m)) else links h b (mLinkerInUse m))"
    and right: "\<And>b. b \<in> set vs \<Longrightarrow> links h' b (mLinkerInUse m) =
      (if b = hd vs then map_option (\<lambda>(u, v). (Some n, v)) (links h b (mLinkerInUse m)) else links h b (mLinkerInUse m))"
    and hd: "mHead m' = first_ptr us (Some n)" and tl: "mTail m' = last_ptr vs (Some n)"
    and sz: "mSize m' = mSize m + 1"
  shows "dl_list h' m' (us @ n # vs)"
  using dseg_splice[OF _ _ n new left right] l n k hd tl sz by (auto simp: dl_list_def)

lemma dl_list_last: "dl_list h m (us @ [t]) \<Longrightarrow> mTail m = Some t \<and> (\<exists>nd. h t = Some nd)"
  by (auto simp: dl_list_def links_def last_ptr_def split: option.splits)

lemma dl_list_hd: "dl_list h m (t # us) \<Longrightarrow> mHead m = Some t \<and> (\<exists>nd. h t = Some nd)"
  by (auto simp: dl_list_def links_def split: option.splits)

lemma dl_list_Nil: "dl_list h m [] \<Longrightarrow> mHead m = None \<and> mTail m = None"
  by (auto simp: dl_list_def)

lemma dl_list_linker: "dl_list h m xs \<Longrightarrow> mLinkerInUse m < 2"
  by (simp add: dl_list_def)

lemma dl_list_distinct: "dl_list h m xs \<Longrightarrow> distinct xs"
  by (simp add: dl_list_def)

lemma DLManager_init_list: "k < 2 \<Longrightarrow> dl_list h (DLManager_init k) []"
  by (simp add: DLManager_init_def dl_list_def)

lemmas dl_unfold = setNextLinkage_def setPrevLinkage_def getNextPtr_def getPrevPtr_def

lemma insertHelper_list:
  assumes "dl_list h m xs" "n \<notin> set xs" "h n \<noteq> None"
  shows "dl_done h m (insert n (set xs)) (xs @ [n]) (insertHelper h m (Some n))"
proof (cases xs rule: rev_cases)
  case Nil
  with assms show ?thesis
    by (auto simp: insertHelper_def dl_unfold dl_done_def dl_list_def dl_frame_def links_def dl_data_def
        same_cfg_def)
next
  case (snoc us t)
  with assms have t: "mTail m = Some t" "t \<noteq> n" and k: "mLinkerInUse m < 2"
    using dl_list_last[of h m us t] dl_list_linker by auto
  from assms snoc obtain nt nn where h: "h t = Some nt" "h n = Some nn"
    using dl_list_last[of h m us t] by auto
  let ?nn = "nn\<lparr>nd_next := (nd_next nn)(mLinkerInUse m := None),
                  nd_prev := (nd_prev nn)(mLinkerInUse m := Some t)\<rparr>"
  let ?h = "h(n \<mapsto> ?nn, t \<mapsto> nt\<lparr>nd_next := (nd_next nt)(mLinkerInUse m := Some n)\<rparr>)"
  show ?thesis
  proof (rule dl_doneI)
    show "insertHelper h m (Some n) = Some (?h, m\<lparr>mTail := Some n, mSize := mSize m + 1\<rparr>, RC_SUCCESS)"
      using t k h by (simp add: insertHelper_def dl_unfold)
    show "dl_list ?h (m\<lparr>mTail := Some n, mSize := mSize m + 1\<rparr>) (xs @ [n])"
      by (rule dl_list_splice[of h m xs "[]"])
        (use assms snoc h t in \<open>auto simp: links_def last_ptr_def dl_list_def\<close>)
    show "dl_frame (mLinkerInUse m) (insert n (set xs)) h ?h"
      using h snoc by (auto simp: dl_frame_def links_def dl_data_def)
  qed (simp add: same_cfg_def)
qed

lemma insertStart_list:
  assumes "dl_list h m xs" "n \<notin> set xs" "h n \<noteq> None"
  shows "dl_done h m (insert n (set xs)) (n # xs) (insertStart h m n)"
proof (cases xs)
  case Nil
  with assms show ?thesis
    by (auto simp: insertStart_def dl_unfold dl_done_def dl_list_def dl_frame_def links_def dl_data_def
        same_cfg_def)
next
  case (Cons t us)
  with assms have t: "mHead m = Some t" "t \<noteq> n" and k: "mLinkerInUse m < 2"
    using dl_list_hd[of h m t us] dl_list_linker by auto
  from assms Cons obtain nt nn where h: "h t = Some nt" "h n = Some nn"
    using dl_list_hd[of h m t us] by auto
  let ?nn = "nn\<lparr>nd_next := (nd_next nn)(mLinkerInUse m := Some t),
                  nd_prev := (nd_prev nn)(mLinkerInUse m := None)\<rparr>"
  let ?h = "h(n \<mapsto> ?nn, t \<mapsto> nt\<lparr>nd_prev := (nd_prev nt)(mLinkerInUse m := Some n)\<rparr>)"
  show ?thesis
  proof (rule dl_doneI)
    show "insertStart h m n = Some (?h, m\<lparr>mHead := Some n, mSize := mSize m + 1\<rparr>, RC_SUCCESS)"
      using t k h by (simp add: insertStart_def dl_unfold)
    show "dl_list ?h (m\<lparr>mHead := Some n, mSize := mSize m + 1\<rparr>) (n # xs)"
    proof -
      have "dl_list ?h (m\<lparr>mHead := Some n, mSize := mSize m + 1\<rparr>) ([] @ n # xs)"
        by (rule dl_list_splice[of h m "[]" xs])
          (use assms Cons h t in \<open>auto simp: links_def last_ptr_def dl_list_def\<close>)
      then show ?thesis by simp
    qed
    show "dl_frame (mLinkerInUse m) (insert n (set xs)) h ?h"
      using h Cons by (auto simp: dl_frame_def links_def dl_data_def)
  qed (simp add: same_cfg_def)
qed

lemma dl_done_splice:
  assumes l: "dl_list h m (us @ vs)" and n: "n \<notin> set (us @ vs)" and u: "us \<noteq> []" and v: "vs \<noteq> []"
    and r: "r = Some (h', m\<lparr>mSize := mSize m + 1\<rparr>, RC_SUCCESS)"
    and data: "\<And>b. dl_data h' b = dl_data h b"
    and links: "\<And>b j. links h' b j =
      (if j \<noteq> mLinkerInUse m then links h b j
       else if b = n then Some (Some (last us), Some (hd vs))
       else if b = last us then map_option (\<lambda>(u, v). (u, Some n)) (links h b j)
       else if b = hd vs then map_option (\<lambda>(u, v). (Some n, v)) (links h b j)
       else links h b j)"
  shows "dl_done h m (insert n (set (us @ vs))) (us @ n # vs) r"
proof (rule dl_doneI[OF r])
  have d: "distinct (us @ vs)" using l by (rule dl_list_distinct)
  have e: "last us \<in> set us" "hd vs \<in> set vs" using u v by auto
  show "dl_list h' (m\<lparr>mSize := mSize m + 1\<rparr>) (us @ n # vs)"
  proof (rule dl_list_splice[OF l n])
    show "links h' n (mLinkerInUse m) = Some (last_ptr us None, first_ptr vs None)"
      using u v by (cases vs) (auto simp: links last_ptr_def)
    show "mHead (m\<lparr>mSize := mSize m + 1\<rparr>) = first_ptr us (Some n)"
      using l u by (cases us) (auto simp: dl_list_def)
    show "mTail (m\<lparr>mSize := mSize m + 1\<rparr>) = last_ptr vs (Some n)"
      using l v by (auto simp: dl_list_def last_ptr_def)
  qed (use n d e in \<open>auto simp: links\<close>)
  show "dl_frame (mLinkerInUse m) (insert n (set (us @ vs))) h h'"
    using e by (auto simp: dl_frame_def data links)
qed (simp add: same_cfg_def)

lemma dl_list_mid:
  assumes "dl_list h m (us @ c # vs)" "us \<noteq> []"
  shows "\<exists>np nc. h (last us) = Some np \<and> h c = Some nc \<and> nd_prev nc (mLinkerInUse m) = Some (last us) \<and>
    last us \<noteq> c \<and> mLinkerInUse m < 2"
proof -
  have "h (last us) \<noteq> None" "links h c (mLinkerInUse m) = Some (last_ptr us None, first_ptr vs None)"
    using assms dseg_alloc[of h "mLinkerInUse m" None us "Some c" "last us"] by (auto simp: dl_list_def)
  with assms show ?thesis by (auto simp: links_def last_ptr_def dl_list_def)
qed

text \<open>The loops that walk one linker.\<close>

lemma dl_walk_seg:
  "dseg h k p xs None \<Longrightarrow> k < 2 \<Longrightarrow>
     dl_walk h k (first_ptr xs None) pos n =
       Some (if pos \<le> n \<and> n - pos < int (length xs) then Some (xs ! nat (n - pos)) else None)"
proof (induction xs arbitrary: p pos)
  case Nil
  then show ?case by (simp add: dl_walk.simps)
next
  case (Cons x xs)
  have nx: "getNextPtr h x k = Some (first_ptr xs None)"
    using Cons.prems by (auto intro: getNextPtr_links)
  have "dl_walk h k (first_ptr xs None) (pos + 1) n =
      Some (if pos + 1 \<le> n \<and> n - (pos + 1) < int (length xs) then Some (xs ! nat (n - (pos + 1))) else None)"
    using Cons.prems by (intro Cons.IH) auto
  moreover have "pos < n \<Longrightarrow> nat (n - pos) = Suc (nat (n - (pos + 1)))" by simp
  ultimately show ?case
    using nx by (auto simp: dl_walk.simps[of _ _ "Some x"])
qed

lemma policy_scan_seg:
  "dseg h k p xs None \<Longrightarrow> k < 2 \<Longrightarrow> (\<And>a. a \<in> set xs \<Longrightarrow> policy h n a = Some (P a)) \<Longrightarrow>
     policy_scan policy h k n (first_ptr xs None) = Some (find P xs)"
proof (induction xs arbitrary: p)
  case Nil
  then show ?case by (simp add: policy_scan.simps)
next
  case (Cons x xs)
  have "getNextPtr h x k = Some (first_ptr xs None)"
    using Cons.prems by (auto intro: getNextPtr_links)
  moreover have "policy_scan policy h k n (first_ptr xs None) = Some (find P xs)"
    using Cons.prems by (intro Cons.IH) auto
  ultimately show ?case using Cons.prems(3) by (simp add: policy_scan.simps[of _ _ _ _ "Some x"])
qed

lemma match_walk_seg:
  "dseg h k p xs None \<Longrightarrow> dseg h k' p' ys None \<Longrightarrow> k < 2 \<Longrightarrow> k' < 2 \<Longrightarrow> length xs = length ys \<Longrightarrow>
   (\<And>a b. a \<in> set xs \<Longrightarrow> b \<in> set ys \<Longrightarrow>
      (case cmp of None \<Rightarrow> Some (a = b) | Some c \<Rightarrow> c h a b) = Some (P a b)) \<Longrightarrow>
     match_walk cmp h k k' (first_ptr xs None) (first_ptr ys None) = Some (list_all2 P xs ys)"
proof (induction xs arbitrary: p p' ys)
  case Nil
  then show ?case by (simp add: match_walk.simps)
next
  case (Cons x xs)
  then obtain y zs where ys: "ys = y # zs" by (cases ys) auto
  have "getNextPtr h x k = Some (first_ptr xs None)" "getNextPtr h y k' = Some (first_ptr zs None)"
    using Cons.prems ys by (auto intro: getNextPtr_links)
  moreover have "match_walk cmp h k k' (first_ptr xs None) (first_ptr zs None) = Some (list_all2 P xs zs)"
    using Cons.prems ys by (intro Cons.IH) auto
  ultimately show ?case
    using Cons.prems(6)[of x y] ys by (simp add: match_walk.simps[of _ _ _ _ "Some x"])
qed

text \<open>Insertion in front of the first list node the policy prefers the new node to.\<close>

definition policy_insert :: "(addr \<Rightarrow> bool) \<Rightarrow> addr \<Rightarrow> addr list \<Rightarrow> addr list" where
  "policy_insert P n xs = takeWhile (\<lambda>a. \<not> P a) xs @ n # dropWhile (\<lambda>a. \<not> P a) xs"

lemma set_policy_insert [simp]: "set (policy_insert P n xs) = insert n (set xs)"
proof -
  have "set xs = set (takeWhile (\<lambda>a. \<not> P a) xs) \<union> set (dropWhile (\<lambda>a. \<not> P a) xs)"
    by (metis set_append takeWhile_dropWhile_id)
  then show ?thesis by (auto simp: policy_insert_def)
qed

lemma length_policy_insert [simp]: "length (policy_insert P n xs) = Suc (length xs)"
  by (simp add: policy_insert_def) (metis length_append takeWhile_dropWhile_id)

lemma policy_insert_None: "find P xs = None \<Longrightarrow> policy_insert P n xs = xs @ [n]"
  by (simp add: policy_insert_def find_None_iff takeWhile_eq_all_conv[THEN iffD2] dropWhile_eq_Nil_conv[THEN iffD2])

lemma find_SomeD:
  "find P xs = Some a \<Longrightarrow>
     \<exists>us vs. xs = us @ a # vs \<and> P a \<and> (\<forall>u\<in>set us. \<not> P u)"
proof (induction xs)
  case (Cons x xs)
  show ?case
  proof (cases "P x")
    case True
    with Cons.prems show ?thesis by (intro exI[of _ "[]"] exI[of _ xs]) simp
  next
    case False
    with Cons obtain us vs where "xs = us @ a # vs" "P a" "\<forall>u\<in>set us. \<not> P u" by auto
    with False show ?thesis by (intro exI[of _ "x # us"] exI[of _ vs]) simp
  qed
qed simp

lemma policy_insert_Some:
  "P a \<Longrightarrow> \<forall>u\<in>set us. \<not> P u \<Longrightarrow> policy_insert P n (us @ a # vs) = us @ n # a # vs"
  by (simp add: policy_insert_def)

lemma insertWithPolicyHelper_hit:
  assumes l: "dl_list h m (us @ c # vs)" and n: "n \<notin> set (us @ c # vs)" and hn: "h n = Some nn"
    and scan: "policy_scan policy h (mLinkerInUse m) n (mHead m) = Some (Some c)"
  shows "dl_done h m (insert n (set (us @ c # vs))) (us @ n # c # vs) (insertWithPolicyHelper h m (Some n) policy)"
proof (cases "us = []")
  case False
  from dl_list_mid[OF l False] obtain np nc where
    h: "h (last us) = Some np" "h c = Some nc" "nd_prev nc (mLinkerInUse m) = Some (last us)"
      "last us \<noteq> c" "mLinkerInUse m < 2" by blast
  have ne: "n \<noteq> c" "n \<noteq> last us" using n False by auto
  let ?k = "mLinkerInUse m"
  let ?h = "h(n \<mapsto> nn\<lparr>nd_next := (nd_next nn)(?k := Some c), nd_prev := (nd_prev nn)(?k := Some (last us))\<rparr>,
      last us \<mapsto> np\<lparr>nd_next := (nd_next np)(?k := Some n)\<rparr>,
      c \<mapsto> nc\<lparr>nd_prev := (nd_prev nc)(?k := Some n)\<rparr>)"
  show ?thesis
    by (rule dl_done_splice[OF l n False, where h' = ?h])
      (use h ne hn in \<open>auto simp: insertWithPolicyHelper_def scan dl_unfold links_def dl_data_def\<close>)
next
  case True
  with l have k: "mLinkerInUse m < 2" and hd: "mHead m = Some c" by (auto simp: dl_list_def)
  from l True obtain nc where c: "h c = Some nc" "nd_prev nc (mLinkerInUse m) = None"
    by (auto simp: dl_list_def links_def)
  have ne: "n \<noteq> c" using n by auto
  have "insertWithPolicyHelper h m (Some n) policy = insertStart h m n"
    using k hd c ne hn by (auto simp: insertWithPolicyHelper_def scan[unfolded hd] insertStart_def dl_unfold)
  with insertStart_list[OF l n] hn True show ?thesis by simp
qed

lemma insertWithPolicyHelper_list:
  assumes l: "dl_list h m xs" and n: "n \<notin> set xs" and hn: "h n \<noteq> None"
    and P: "\<And>a. a \<in> set xs \<Longrightarrow> policy h n a = Some (P a)"
  shows "dl_done h m (insert n (set xs)) (policy_insert P n xs) (insertWithPolicyHelper h m (Some n) policy)"
proof -
  have scan: "policy_scan policy h (mLinkerInUse m) n (mHead m) = Some (find P xs)"
    using l P policy_scan_seg[of h "mLinkerInUse m" None xs policy n P] by (auto simp: dl_list_def)
  show ?thesis
  proof (cases "find P xs")
    case None
    have "insertWithPolicyHelper h m (Some n) policy = insertHelper h m (Some n)"
    proof (cases xs rule: rev_cases)
      case Nil
      with l scan None show ?thesis
        by (auto simp: insertWithPolicyHelper_def insertHelper_def dl_list_def)
    next
      case (snoc us t)
      with l scan None show ?thesis
        by (auto simp: insertWithPolicyHelper_def insertHelper_def dl_list_def last_ptr_def)
    qed
    with insertHelper_list[OF l n hn] None show ?thesis by (simp add: policy_insert_None)
  next
    case (Some c)
    then obtain us vs where xs: "xs = us @ c # vs" "P c" "\<forall>u\<in>set us. \<not> P u"
      by (blast dest: find_SomeD)
    from hn obtain nn where "h n = Some nn" by auto
    with insertWithPolicyHelper_hit[of h m us c vs n nn policy] l n scan Some xs show ?thesis
      by (simp add: policy_insert_Some)
  qed
qed

text \<open>Deletion.\<close>

lemma deleteNodeHelper_heap:
  assumes l: "dl_list h m (us @ a # vs)"
  shows "\<exists>h'. deleteNodeHelper h m (Some a) =
      Some (h', m\<lparr>mHead := first_ptr us (first_ptr vs None), mTail := last_ptr vs (last_ptr us None),
                   mSize := mSize m - 1\<rparr>, RC_SUCCESS) \<and>
    (\<forall>b. dl_data h' b = dl_data h b) \<and>
    (\<forall>b j. links h' b j = (if j \<noteq> mLinkerInUse m then links h b j
       else if us \<noteq> [] \<and> b = last us then map_option (\<lambda>(u, v). (u, first_ptr vs None)) (links h b j)
       else if vs \<noteq> [] \<and> b = hd vs then map_option (\<lambda>(u, v). (last_ptr us None, v)) (links h b j)
       else links h b j))" (is ?goal)
proof -
  let ?k = "mLinkerInUse m"
  have k: "?k < 2" and d: "distinct (us @ a # vs)" and seg: "dseg h ?k None (us @ a # vs) None"
    and hd: "mHead m = first_ptr us (Some a)" and tl: "mTail m = last_ptr vs (Some a)"
    using l by (auto simp: dl_list_def)
  have la: "links h a ?k = Some (last_ptr us None, first_ptr vs None)" using seg by simp
  have lu: "us \<noteq> [] \<Longrightarrow> \<exists>np. h (last us) = Some np \<and> last us \<noteq> a"
    and lv: "vs \<noteq> [] \<Longrightarrow> \<exists>nv. h (hd vs) = Some nv \<and> hd vs \<noteq> a"
    using dseg_alloc[OF seg, of "last us"] dseg_alloc[OF seg, of "hd vs"] d by auto
  have luv: "us \<noteq> [] \<Longrightarrow> vs \<noteq> [] \<Longrightarrow> last us \<noteq> hd vs"
    using d last_in_set[of us] hd_in_set[of vs] by fastforce
  note defs = deleteNodeHelper_def dl_unfold links_def dl_data_def last_ptr_def
  show ?goal
  proof (cases us rule: rev_cases)
    case Nil
    then show ?thesis using lv la k hd tl by (cases vs) (auto simp: defs)
  next
    case (snoc us' p)
    then show ?thesis using lu lv luv la k hd tl by (cases vs; cases us') (auto simp: defs)
  qed
qed

lemma deleteNodeHelper_list:
  assumes l: "dl_list h m (us @ a # vs)"
  shows "dl_done h m (set (us @ a # vs)) (us @ vs) (deleteNodeHelper h m (Some a))"
proof -
  let ?k = "mLinkerInUse m"
  let ?m = "m\<lparr>mHead := first_ptr us (first_ptr vs None), mTail := last_ptr vs (last_ptr us None), mSize := mSize m - 1\<rparr>"
  have k: "?k < 2" and d: "distinct (us @ a # vs)" and seg: "dseg h ?k None (us @ a # vs) None"
    and sz: "mSize m = int (length (us @ a # vs))"
    using l by (auto simp: dl_list_def)
  have nin: "us \<noteq> [] \<Longrightarrow> last us \<in> set us" "vs \<noteq> [] \<Longrightarrow> hd vs \<in> set vs"
    "us \<noteq> [] \<Longrightarrow> last us \<notin> set vs" "vs \<noteq> [] \<Longrightarrow> hd vs \<notin> set us"
    using d last_in_set[of us] hd_in_set[of vs] by (auto simp: disjoint_iff)
  from deleteNodeHelper_heap[OF l] obtain h' where r: "deleteNodeHelper h m (Some a) = Some (h', ?m, RC_SUCCESS)"
    and dat: "\<And>b. dl_data h' b = dl_data h b"
    and lk: "\<And>b j. links h' b j = (if j \<noteq> ?k then links h b j
       else if us \<noteq> [] \<and> b = last us then map_option (\<lambda>(u, v). (u, first_ptr vs None)) (links h b j)
       else if vs \<noteq> [] \<and> b = hd vs then map_option (\<lambda>(u, v). (last_ptr us None, v)) (links h b j)
       else links h b j)" by auto
  have "dseg h' ?k None (us @ vs) None"
    by (rule dseg_unsplice[OF seg d]) (use d nin in \<open>auto simp: lk split: if_splits\<close>)
  then have "dl_list h' ?m (us @ vs)" using d k sz by (simp add: dl_list_def)
  moreover have "dl_frame ?k (set (us @ a # vs)) h h'"
    using nin by (auto simp: dl_frame_def dat lk)
  ultimately show ?thesis by (intro dl_doneI[OF r]) (auto simp: same_cfg_def)
qed

text \<open>The positional operations.\<close>

lemma getNth_list:
  "dl_list h m xs \<Longrightarrow>
     getNth h m n = Some (if 0 \<le> n \<and> n < int (length xs) then Some (xs ! nat n) else None)"
  using dl_walk_seg[of h "mLinkerInUse m" None xs 0 n] by (auto simp: getNth_def dl_list_def)

lemma isNodeNthHelper_list:
  "dl_list h m xs \<Longrightarrow>
     isNodeNthHelper h m n (Some a) = Some (0 \<le> n \<and> n < int (length xs) \<and> xs ! nat n = a)"
  using getNth_list[of h m xs n] by (auto simp: isNodeNthHelper_def getNth_def)

lemma matchAgainstHelper_list:
  assumes "dl_list h m xs" "dl_list h t ys"
    and "\<And>a b. a \<in> set xs \<Longrightarrow> b \<in> set ys \<Longrightarrow>
      (case cmp of None \<Rightarrow> Some (a = b) | Some c \<Rightarrow> c h a b) = Some (P a b)"
  shows "matchAgainstHelper h m (Some t) cmp = Some (list_all2 P xs ys)"
  using assms match_walk_seg[of h "mLinkerInUse m" None xs "mLinkerInUse t" None ys cmp P]
  by (auto simp: matchAgainstHelper_def dl_list_def list_all2_lengthD)

lemma destroyHelper_list: "dl_list h m xs \<Longrightarrow> dl_list h (destroyHelper m) []"
  by (simp add: dl_list_def destroyHelper_def)

text \<open>Position \<open>n\<close> of \<^verbatim>\<open>INSERT_N_NODE_START\<close>: 0 and 1 both mean the front.\<close>

definition position_ok :: "int \<Rightarrow> addr list \<Rightarrow> bool" where
  "position_ok n xs \<longleftrightarrow> 0 \<le> n \<and> n \<le> int (length xs) + 1"

lemma insertHelper_opt_mid:
  assumes l: "dl_list h m (us @ c # vs)" and n: "a \<notin> set (us @ c # vs)" and hn: "h a = Some na"
    and us: "us \<noteq> []"
  shows "dl_done h m (insert a (set (us @ c # vs))) (us @ a # c # vs)
    (insertHelper_opt h m (Some a) INSERT_N_NODE_START (int (length us) + 1))"
proof -
  let ?k = "mLinkerInUse m"
  from dl_list_mid[OF l us] obtain np nc where
    h: "h (last us) = Some np" "h c = Some nc" "nd_prev nc ?k = Some (last us)" "last us \<noteq> c" "?k < 2"
    by blast
  have ne: "a \<noteq> c" "a \<noteq> last us" using n us by auto
  have w: "dl_walk h ?k (mHead m) 1 (int (length us) + 1) = Some (Some c)"
    using l dl_walk_seg[of h ?k None "us @ c # vs" 1 "int (length us) + 1"]
    by (auto simp: dl_list_def nth_append)
  have sz: "mSize m = int (length us) + 1 + int (length vs)" using l by (simp add: dl_list_def)
  let ?h = "h(last us \<mapsto> np\<lparr>nd_next := (nd_next np)(?k := Some a)\<rparr>,
      c \<mapsto> nc\<lparr>nd_prev := (nd_prev nc)(?k := Some a)\<rparr>,
      a \<mapsto> na\<lparr>nd_prev := (nd_prev na)(?k := Some (last us)), nd_next := (nd_next na)(?k := Some c)\<rparr>)"
  have r: "insertHelper_opt h m (Some a) INSERT_N_NODE_START (int (length us) + 1) =
      Some (?h, m\<lparr>mSize := mSize m + 1\<rparr>, RC_SUCCESS)"
    using h ne hn us by (auto simp: insertHelper_opt_def w sz dl_unfold)
  show ?thesis
    by (rule dl_done_splice[OF l n us _ r]) (use h ne hn in \<open>auto simp: links_def dl_data_def\<close>)
qed

lemma insertHelper_opt_list:
  assumes l: "dl_list h m xs" and n: "a \<notin> set xs" and hn: "h a \<noteq> None" and pos: "position_ok n xs"
  shows "dl_done h m (insert a (set xs)) (take (nat (n - 1)) xs @ a # drop (nat (n - 1)) xs)
    (insertHelper_opt h m (Some a) INSERT_N_NODE_START n)"
proof -
  have sz: "mSize m = int (length xs)" using l by (simp add: dl_list_def)
  consider "n = 0" | "n = int (length xs) + 1" | "n = 1" "xs \<noteq> []" | "1 < n" "n \<le> int (length xs)"
    using pos by (cases xs) (force simp: position_ok_def)+
  then show ?thesis
  proof cases
    case 1
    then show ?thesis using insertStart_list[OF l n hn] by (simp add: insertHelper_opt_def)
  next
    case 2
    then show ?thesis using insertHelper_list[OF l n hn] sz by (simp add: insertHelper_opt_def)
  next
    case 3
    then obtain c vs where xs: "xs = c # vs" by (cases xs) auto
    have "insertHelper_opt h m (Some a) INSERT_N_NODE_START n = insertStart h m a"
      using 3 l xs sz
      by (auto simp: insertHelper_opt_def dl_list_def dl_walk.simps getPrevPtr_def links_def)
    with insertStart_list[OF l n hn] 3 show ?thesis by simp
  next
    case 4
    define us where "us = take (nat (n - 1)) xs"
    obtain c vs where d: "drop (nat (n - 1)) xs = c # vs" using 4 by (cases "drop (nat (n - 1)) xs") auto
    have xs: "xs = us @ c # vs" using d us_def by (metis append_take_drop_id)
    have len: "int (length us) + 1 = n" "us \<noteq> []" using 4 by (auto simp: us_def)
    from hn obtain na where "h a = Some na" by auto
    then have "dl_done h m (insert a (set xs)) (us @ a # c # vs) (insertHelper_opt h m (Some a) INSERT_N_NODE_START n)"
      using insertHelper_opt_mid[of h m us c vs a na, folded xs] l n len by simp
    then show ?thesis by (simp only: d us_def)
  qed
qed

lemma insertHelper_opt_bad_position:
  assumes "dl_list h m xs" "\<not> position_ok n xs"
  shows "insertHelper_opt h m (Some a) INSERT_N_NODE_START n = Some (h, m, RC_BAD_ARG)"
  using assms by (auto simp: insertHelper_opt_def dl_list_def position_ok_def)

text \<open>
  Iteration visits exactly the nodes of the list, in order, as long as the body leaves the links
  of this linker alone.
\<close>

lemma dl_iterate_seg:
  assumes "dseg (hp s) k p xs None" "k < 2"
    and "\<And>a s t. a \<in> set xs \<Longrightarrow> body a s = Some t \<Longrightarrow> \<forall>b\<in>set xs. links (hp t) b k = links (hp s) b k"
  shows "dl_iterate k hp body (first_ptr xs None) s = foldM body xs s"
  using assms
proof (induction xs arbitrary: p s)
  case Nil
  then show ?case by (simp add: dl_iterate.simps)
next
  case (Cons x xs)
  show ?case
  proof (cases "body x s")
    case None
    then show ?thesis by (simp add: dl_iterate.simps[of _ _ _ "Some x"])
  next
    case (Some t)
    have same: "\<forall>b\<in>set (x # xs). links (hp t) b k = links (hp s) b k"
      using Cons.prems(3)[OF _ Some] by simp
    have "dseg (hp t) k p (x # xs) None"
      using Cons.prems(1) dseg_cong[of "x # xs" "hp t" k "hp s" p None] same by blast
    then have seg: "dseg (hp t) k (Some x) xs None" and nx: "getNextPtr (hp t) x k = Some (first_ptr xs None)"
      using Cons.prems(2) by (auto intro: getNextPtr_links)
    have "dl_iterate k hp body (first_ptr xs None) t = foldM body xs t"
      using Cons.prems(2,3) by (intro Cons.IH[OF seg]) (simp, metis list.set_intros(2))
    with Some nx show ?thesis by (simp add: dl_iterate.simps[of _ _ _ "Some x"])
  qed
qed

lemma dl_iterate_list:
  assumes "dl_list (hp s) m xs"
    and "\<And>a s t. a \<in> set xs \<Longrightarrow> body a s = Some t \<Longrightarrow>
      \<forall>b\<in>set xs. links (hp t) b (mLinkerInUse m) = links (hp s) b (mLinkerInUse m)"
  shows "dl_iterate (mLinkerInUse m) hp body (mHead m) s = foldM body xs s"
  using assms dl_iterate_seg[of hp s "mLinkerInUse m" None xs body] by (simp add: dl_list_def)

text \<open>
  Progress and correctness of a loop in one step: \<open>J ys s\<close> holds when \<open>ys\<close> are still to be
  visited, and every iteration returns, keeps it, and leaves this linker alone.
\<close>

lemma dl_iterate_progress:
  assumes "dseg (hp s) k p xs None" "k < 2" "J xs s"
    and "\<And>y ys s. J (y # ys) s \<Longrightarrow>
      \<exists>t. body y s = Some t \<and> J ys t \<and> (\<forall>b. links (hp t) b k = links (hp s) b k)"
  shows "\<exists>t. dl_iterate k hp body (first_ptr xs None) s = Some t \<and> J [] t"
  using assms
proof (induction xs arbitrary: p s)
  case Nil
  then show ?case by (simp add: dl_iterate.simps)
next
  case (Cons x xs)
  obtain t where t: "body x s = Some t" "J xs t" "\<forall>b. links (hp t) b k = links (hp s) b k"
    using Cons.prems(4)[OF Cons.prems(3)] by blast
  have "dseg (hp t) k p (x # xs) None"
    using Cons.prems(1) dseg_cong[of "x # xs" "hp t" k "hp s" p None] t(3) by blast
  then have seg: "dseg (hp t) k (Some x) xs None" and nx: "getNextPtr (hp t) x k = Some (first_ptr xs None)"
    using Cons.prems(2) by (auto intro: getNextPtr_links)
  show ?case using Cons.IH[OF seg Cons.prems(2) t(2) Cons.prems(4)] t(1) nx
    by (simp add: dl_iterate.simps[of _ _ _ "Some x"])
qed

section \<open>The contract clients rely on\<close>

text \<open>
  What the request lists and the concurrency table need of a manager: a state that represents a
  list of nodes, insertion at either end and deletion, each total on a node it may be given.
\<close>

locale node_sequence =
  fixes repr :: "'s \<Rightarrow> addr list \<Rightarrow> bool" and node :: "'s \<Rightarrow> addr \<Rightarrow> bool"
    and push_back push_front erase :: "addr \<Rightarrow> 's \<Rightarrow> 's option"
  assumes push_back: "repr s xs \<Longrightarrow> node s a \<Longrightarrow> a \<notin> set xs \<Longrightarrow>
      \<exists>t. push_back a s = Some t \<and> repr t (xs @ [a]) \<and> node t = node s"
    and push_front: "repr s xs \<Longrightarrow> node s a \<Longrightarrow> a \<notin> set xs \<Longrightarrow>
      \<exists>t. push_front a s = Some t \<and> repr t (a # xs) \<and> node t = node s"
    and erase: "repr s xs \<Longrightarrow> a \<in> set xs \<Longrightarrow>
      \<exists>t. erase a s = Some t \<and> repr t (remove1 a xs) \<and> node t = node s"
    and repr_distinct: "repr s xs \<Longrightarrow> distinct xs"
begin

lemma push_back_all:
  "repr s xs \<Longrightarrow> \<forall>a\<in>set as. node s a \<Longrightarrow> distinct (xs @ as) \<Longrightarrow>
     \<exists>t. foldM push_back as s = Some t \<and> repr t (xs @ as) \<and> node t = node s"
proof (induction as arbitrary: s xs)
  case (Cons a as)
  obtain t where t: "push_back a s = Some t" "repr t (xs @ [a])" "node t = node s"
    using push_back[of s xs a] Cons.prems by auto
  have "\<exists>u. foldM push_back as t = Some u \<and> repr u ((xs @ [a]) @ as) \<and> node u = node t"
    using Cons.prems t by (intro Cons.IH) auto
  with t show ?case by auto
qed auto

lemma erase_all:
  "repr s xs \<Longrightarrow> distinct as \<Longrightarrow> set as \<subseteq> set xs \<Longrightarrow>
     \<exists>t. foldM erase as s = Some t \<and> repr t (filter (\<lambda>x. x \<notin> set as) xs) \<and> node t = node s"
proof (induction as arbitrary: s xs)
  case (Cons a as)
  obtain t where t: "erase a s = Some t" "repr t (remove1 a xs)" "node t = node s"
    using erase[of s xs a] Cons.prems by auto
  have d: "distinct xs" using Cons.prems(1) by (rule repr_distinct)
  have "\<exists>u. foldM erase as t = Some u \<and> repr u (filter (\<lambda>x. x \<notin> set as) (remove1 a xs)) \<and> node u = node t"
    using Cons.prems t d by (intro Cons.IH) (auto simp: set_remove1_eq)
  moreover have "filter (\<lambda>x. x \<notin> set as) (remove1 a xs) = filter (\<lambda>x. x \<notin> set (a # as)) xs"
    using d by (simp add: remove1_filter_distinct conj_commute)
  ultimately show ?case using t by auto
qed auto

lemma fill_then_clear:
  "repr s [] \<Longrightarrow> \<forall>a\<in>set as. node s a \<Longrightarrow> distinct as \<Longrightarrow>
     \<exists>t u. foldM push_back as s = Some t \<and> repr t as \<and> foldM erase as t = Some u \<and> repr u []"
  using push_back_all[of s "[]" as] erase_all[of _ as as] by fastforce

end

type_synonym 'd dl_state = "'d dl_heap \<times> 'd dl_manager"

definition dl_repr :: "'d dl_state \<Rightarrow> addr list \<Rightarrow> bool" where
  "dl_repr s xs = dl_list (fst s) (snd s) xs"

definition dl_is_node :: "'d dl_state \<Rightarrow> addr \<Rightarrow> bool" where
  "dl_is_node s a \<longleftrightarrow> fst s a \<noteq> None"

text \<open>A caller that checks the returned code and stops at the first failure.\<close>

definition dl_checked :: "('d dl_heap \<times> 'd dl_manager \<times> ErrCode) option \<Rightarrow> 'd dl_state option" where
  "dl_checked r = (case r of Some (h, m, RC_SUCCESS) \<Rightarrow> Some (h, m) | _ \<Rightarrow> None)"

definition dl_push_back :: "addr \<Rightarrow> 'd dl_state \<Rightarrow> 'd dl_state option" where
  "dl_push_back a s = dl_checked (insertHelper (fst s) (snd s) (Some a))"

definition dl_push_front :: "addr \<Rightarrow> 'd dl_state \<Rightarrow> 'd dl_state option" where
  "dl_push_front a s = dl_checked (insertHelper_opt (fst s) (snd s) (Some a) INSERT_START 0)"

definition dl_erase :: "addr \<Rightarrow> 'd dl_state \<Rightarrow> 'd dl_state option" where
  "dl_erase a s = dl_checked (deleteNodeHelper (fst s) (snd s) (Some a))"

lemma dl_done_checked:
  "dl_done h m A ys r \<Longrightarrow>
     \<exists>t. dl_checked r = Some t \<and> dl_repr t ys \<and> dl_is_node t = dl_is_node (h, m)"
proof (erule dl_doneE)
  fix h' m'
  assume r: "r = Some (h', m', RC_SUCCESS)" "dl_list h' m' ys" "dl_frame (mLinkerInUse m) A h h'"
  have "dl_is_node (h', m') = dl_is_node (h, m)"
    using dl_frame_dom[OF r(3)] by (auto simp: dl_is_node_def)
  with r show ?thesis by (auto simp: dl_checked_def dl_repr_def)
qed

interpretation dlq: node_sequence dl_repr dl_is_node dl_push_back dl_push_front dl_erase
proof
  fix s :: "'d dl_state" and xs a
  assume r: "dl_repr s xs"
  show "distinct xs" using r by (simp add: dl_repr_def dl_list_distinct)
  { assume "dl_is_node s a" "a \<notin> set xs"
    with r show "\<exists>t. dl_push_back a s = Some t \<and> dl_repr t (xs @ [a]) \<and> dl_is_node t = dl_is_node s"
      using dl_done_checked[OF insertHelper_list[of "fst s" "snd s" xs a]]
      by (auto simp: dl_push_back_def dl_repr_def dl_is_node_def)
  next
    assume "dl_is_node s a" "a \<notin> set xs"
    with r show "\<exists>t. dl_push_front a s = Some t \<and> dl_repr t (a # xs) \<and> dl_is_node t = dl_is_node s"
      using dl_done_checked[OF insertStart_list[of "fst s" "snd s" xs a]]
      by (auto simp: dl_push_front_def dl_repr_def dl_is_node_def insertHelper_opt_def)
  next
    assume "a \<in> set xs"
    then obtain us vs where xs: "xs = us @ a # vs" "a \<notin> set us"
      using r dl_list_distinct by (metis split_list_first)
    with r show "\<exists>t. dl_erase a s = Some t \<and> dl_repr t (remove1 a xs) \<and> dl_is_node t = dl_is_node s"
      using dl_done_checked[OF deleteNodeHelper_list[of "fst s" "snd s" us a vs]]
      by (auto simp: dl_erase_def dl_repr_def) }
qed

section \<open>Ordered insertion\<close>

text \<open>
  A policy that compares payload values strictly keeps a list sorted, best value first and equal
  values in order of arrival.
\<close>

locale strict_policy =
  fixes better :: "'v \<Rightarrow> 'v \<Rightarrow> bool"
  assumes better_asym: "better x y \<Longrightarrow> \<not> better y x"
    and better_neg_trans: "\<not> better x y \<Longrightarrow> \<not> better y z \<Longrightarrow> \<not> better x z"
begin

lemma insert_keeps_order:
  assumes "sorted_wrt (\<lambda>x y. \<not> better (val y) (val x)) xs"
  shows "sorted_wrt (\<lambda>x y. \<not> better (val y) (val x)) (policy_insert (\<lambda>a. better (val n) (val a)) n xs)"
  using assms
proof (induction xs)
  case (Cons x xs)
  show ?case
  proof (cases "better (val n) (val x)")
    case True
    then have "\<not> better (val x) (val n)" by (rule better_asym)
    moreover have "\<forall>y\<in>set xs. \<not> better (val y) (val n)"
      using Cons.prems calculation better_neg_trans by fastforce
    ultimately show ?thesis using True Cons.prems by (auto simp: policy_insert_def)
  next
    case False
    have ih: "sorted_wrt (\<lambda>x y. \<not> better (val y) (val x)) (policy_insert (\<lambda>a. better (val n) (val a)) n xs)"
      using Cons by simp
    have "policy_insert (\<lambda>a. better (val n) (val a)) n (x # xs) = x # policy_insert (\<lambda>a. better (val n) (val a)) n xs"
      using False by (simp add: policy_insert_def)
    with ih False Cons.prems show ?thesis by simp
  qed
qed (simp add: policy_insert_def)

lemma first_is_best:
  "sorted_wrt (\<lambda>x y. \<not> better (val y) (val x)) xs \<Longrightarrow> x \<in> set xs \<Longrightarrow> \<not> better (val x) (val (hd xs))"
  by (cases xs) (auto dest: better_asym)

end

interpretation higher_better: strict_policy "\<lambda>x y :: int. y < x"
  by unfold_locales auto

interpretation lower_better: strict_policy "\<lambda>x y :: int. x < y"
  by unfold_locales auto

end
