(* ===== verification/Wire.thy ===== *)
theory Wire
  imports Prelude
begin

text \<open>
  Bytes on the wire: the little-endian image of an integer, the bounded encoder
  \<^verbatim>\<open>FlatBuffEncoder\<close> of \<^verbatim>\<open>modula/CoreModules\<close> and the pointer-increment
  readers (\<^verbatim>\<open>DEREF_AND_INCR\<close>) of the deserializers. A write or read outside its
  buffer is a fault. The contract between writers and readers is the locale
  \<open>wire_field\<close>: wherever the image of a value stands in a buffer, the reader gets the value
  back and moves past it.
\<close>

definition REQ_BUFFER_SIZE :: int where "REQ_BUFFER_SIZE = 580"

section \<open>Little-endian images\<close>

definition le_bytes :: "nat \<Rightarrow> 'a::len word \<Rightarrow> u8 list" where
  "le_bytes n w = map (\<lambda>i. ucast (drop_bit (8 * i) w)) [0..<n]"

fun le_word :: "u8 list \<Rightarrow> 'a::len word" where
  "le_word [] = 0"
| "le_word (b # bs) = ucast b OR push_bit 8 (le_word bs)"

lemma length_le_bytes [simp]: "length (le_bytes n w) = n"
  by (simp add: le_bytes_def)

lemma bit_le_word:
  "bit (le_word bs :: 'a::len word) i \<longleftrightarrow>
     i < LENGTH('a) \<and> i div 8 < length bs \<and> bit (bs ! (i div 8)) (i mod 8)"
proof (induction bs arbitrary: i)
  case (Cons b bs)
  show ?case
  proof (cases "i < 8")
    case True
    then show ?thesis by (auto simp: bit_or_iff bit_push_bit_iff bit_ucast_iff)
  next
    case False
    then have "i div 8 = Suc ((i - 8) div 8)" "i mod 8 = (i - 8) mod 8"
      by (simp_all add: le_div_geq le_mod_geq)
    moreover have "\<not> bit b i" using False bit_imp_le_length[of b i] by auto
    ultimately show ?thesis using False Cons.IH[of "i - 8"]
      by (auto simp: bit_or_iff bit_push_bit_iff bit_ucast_iff dest: bit_imp_le_length)
  qed
qed simp

lemma le_word_le_bytes:
  "LENGTH('a) = 8 * n \<Longrightarrow> le_word (le_bytes n (w :: 'a::len word)) = w"
  by (rule bit_word_eqI) (auto simp: bit_le_word le_bytes_def bit_ucast_iff bit_drop_bit_eq)

section \<open>Where a byte string stands in a buffer\<close>

definition reads :: "u8 list \<Rightarrow> nat \<Rightarrow> u8 list \<Rightarrow> bool" where
  "reads buf pos bs \<longleftrightarrow> pos + length bs \<le> length buf \<and> take (length bs) (drop pos buf) = bs"

lemma reads_Nil [simp]: "reads buf pos [] \<longleftrightarrow> pos \<le> length buf"
  by (simp add: reads_def)

lemma reads_append: "reads buf pos (xs @ ys) \<longleftrightarrow> reads buf pos xs \<and> reads buf (pos + length xs) ys"
proof
  assume r: "reads buf pos (xs @ ys)"
  then have "take (length xs + length ys) (drop pos buf) = xs @ ys" by (simp add: reads_def)
  then have "take (length xs) (drop pos buf) @ take (length ys) (drop (pos + length xs) buf) = xs @ ys"
    by (simp add: take_add add.commute)
  with r show "reads buf pos xs \<and> reads buf (pos + length xs) ys" by (auto simp: reads_def)
next
  assume "reads buf pos xs \<and> reads buf (pos + length xs) ys"
  then show "reads buf pos (xs @ ys)" by (auto simp: reads_def take_add add.commute)
qed

lemma reads_Cons: "reads buf pos (b # bs) \<longleftrightarrow> pos < length buf \<and> buf ! pos = b \<and> reads buf (pos + 1) bs"
  using reads_append[of buf pos "[b]" bs] by (auto simp: reads_def take_Suc_conv_app_nth hd_drop_conv_nth take_Suc)

text \<open>\<^verbatim>\<open>DEREF_AND_INCR(ptr, T)\<close> at byte offset \<open>pos\<close>, for a type of \<open>n\<close> bytes.\<close>

definition deref_and_incr :: "nat \<Rightarrow> u8 list \<Rightarrow> nat \<Rightarrow> ('a::len word \<times> nat) option" where
  "deref_and_incr n buf pos =
     (if pos + n \<le> length buf then Some (le_word (take n (drop pos buf)), pos + n) else None)"

text \<open>Reading a counted sequence of fields, one after the other.\<close>

fun read_fields ::
    "(u8 list \<Rightarrow> nat \<Rightarrow> ('v \<times> nat) option) \<Rightarrow> nat \<Rightarrow> u8 list \<Rightarrow> nat \<Rightarrow> ('v list \<times> nat) option" where
  "read_fields read_field 0 buf pos = Some ([], pos)"
| "read_fields read_field (Suc k) buf pos =
     (case read_field buf pos of None \<Rightarrow> None
      | Some (v, pos') \<Rightarrow> map_option (\<lambda>(vs, q). (v # vs, q)) (read_fields read_field k buf pos'))"

lemma read_fields_length: "read_fields rd n buf p = Some (vs, q) \<Longrightarrow> length vs = n"
  by (induction n arbitrary: p vs) (auto split: option.splits)

locale wire_field =
  fixes image :: "'v \<Rightarrow> u8 list" and read_field :: "u8 list \<Rightarrow> nat \<Rightarrow> ('v \<times> nat) option"
  assumes read_image: "reads buf pos (image v) \<Longrightarrow> read_field buf pos = Some (v, pos + length (image v))"
begin

lemma read_images:
  "reads buf pos (concat (map image vs)) \<Longrightarrow>
     read_fields read_field (length vs) buf pos = Some (vs, pos + length (concat (map image vs)))"
  by (induction vs arbitrary: pos) (auto simp: reads_append read_image add.assoc)

lemma image_unique: "reads buf pos (image v) \<Longrightarrow> reads buf pos (image w) \<Longrightarrow> v = w"
  using read_image[of buf pos v] read_image[of buf pos w] by simp

end

lemma deref_le_bytes:
  "LENGTH('a) = 8 * n \<Longrightarrow> reads buf pos (le_bytes n (w :: 'a::len word)) \<Longrightarrow>
     deref_and_incr n buf pos = Some (w, pos + n)"
  by (simp add: deref_and_incr_def reads_def le_word_le_bytes)

interpretation byte_field: wire_field "le_bytes 1 :: i8 \<Rightarrow> u8 list" "deref_and_incr 1"
  by unfold_locales (simp add: deref_le_bytes)

interpretation word32_field: wire_field "le_bytes 4 :: i32 \<Rightarrow> u8 list" "deref_and_incr 4"
  by unfold_locales (simp add: deref_le_bytes)

interpretation word64_field: wire_field "le_bytes 8 :: i64 \<Rightarrow> u8 list" "deref_and_incr 8"
  by unfold_locales (simp add: deref_le_bytes)

section \<open>The encoder\<close>

record flat_buff_encoder =
  mBuffer :: "u8 list option"
  mCurPtr :: nat
  mRunningIndex :: int

definition FlatBuffEncoder_init :: flat_buff_encoder where
  "FlatBuffEncoder_init = \<lparr>mBuffer = None, mCurPtr = 0, mRunningIndex = 0\<rparr>"

definition setBuf :: "u8 list \<Rightarrow> flat_buff_encoder \<Rightarrow> flat_buff_encoder" where
  "setBuf buffer e = e\<lparr>mBuffer := Some buffer, mCurPtr := 0, mRunningIndex := 0\<rparr>"

definition write_at :: "u8 list \<Rightarrow> nat \<Rightarrow> u8 list \<Rightarrow> u8 list option" where
  "write_at buf pos bs =
     (if pos + length bs \<le> length buf then Some (take pos buf @ bs @ drop (pos + length bs) buf) else None)"

text \<open>\<^verbatim>\<open>append<T>\<close>, for a value given by its image.\<close>

definition append_val :: "u8 list \<Rightarrow> flat_buff_encoder \<Rightarrow> flat_buff_encoder option" where
  "append_val val e =
     (case mBuffer e of None \<Rightarrow> Some e
      | Some buf \<Rightarrow>
          if mRunningIndex e = -1 then Some e
          else if mRunningIndex e + int (length val) < REQ_BUFFER_SIZE then
            (case write_at buf (mCurPtr e) val of None \<Rightarrow> None
             | Some buf' \<Rightarrow> Some (e\<lparr>mBuffer := Some buf',
                                    mRunningIndex := mRunningIndex e + int (length val),
                                    mCurPtr := mCurPtr e + length val\<rparr>))
          else Some (e\<lparr>mRunningIndex := REQ_BUFFER_SIZE\<rparr>))"

text \<open>
  \<^verbatim>\<open>appendString\<close>: character by character, then the terminator. The loop ends at the
  terminator of the argument, or breaks when the buffer is full.
\<close>

fun append_chars :: "u8 list \<Rightarrow> flat_buff_encoder \<Rightarrow> flat_buff_encoder option" where
  "append_chars [] e = Some e"
| "append_chars (c # cs) e =
     (if mRunningIndex e \<noteq> -1 \<and> mRunningIndex e + 1 < REQ_BUFFER_SIZE then
        (case mBuffer e of None \<Rightarrow> None
         | Some buf \<Rightarrow>
            (case write_at buf (mCurPtr e) [c] of None \<Rightarrow> None
             | Some buf' \<Rightarrow> append_chars cs (e\<lparr>mBuffer := Some buf',
                                              mRunningIndex := mRunningIndex e + 1,
                                              mCurPtr := mCurPtr e + 1\<rparr>)))
      else Some (e\<lparr>mRunningIndex := REQ_BUFFER_SIZE\<rparr>))"

definition appendString :: "u8 list \<Rightarrow> flat_buff_encoder \<Rightarrow> flat_buff_encoder option" where
  "appendString valStr e =
     (if mRunningIndex e = -1 \<or> mBuffer e = None then Some e
      else (case append_chars valStr e of None \<Rightarrow> None
            | Some e' \<Rightarrow>
                if mRunningIndex e' \<ge> 0 \<and> mRunningIndex e' < REQ_BUFFER_SIZE
                then append_val [0] e' else Some e'))"

definition isBufSane :: "flat_buff_encoder \<Rightarrow> bool" where
  "isBufSane e = (if mRunningIndex e \<ge> REQ_BUFFER_SIZE \<or> mBuffer e = None then False else True)"

section \<open>The encoder stays inside its buffer\<close>

text \<open>\<open>encoded e bs\<close>: the buffer has full size and starts with \<open>bs\<close>, and the encoder stands behind it.\<close>

definition encoded :: "flat_buff_encoder \<Rightarrow> u8 list \<Rightarrow> bool" where
  "encoded e bs \<longleftrightarrow>
     (\<exists>buf. mBuffer e = Some buf \<and> length buf = nat REQ_BUFFER_SIZE \<and> reads buf 0 bs) \<and>
     mCurPtr e = length bs \<and>
     (mRunningIndex e = int (length bs) \<or> mRunningIndex e = REQ_BUFFER_SIZE) \<and>
     int (length bs) < REQ_BUFFER_SIZE"

lemma encoded_setBuf: "length buf = nat REQ_BUFFER_SIZE \<Longrightarrow> encoded (setBuf buf e) []"
  by (simp add: encoded_def setBuf_def REQ_BUFFER_SIZE_def)

lemma write_at_reads: "reads buf 0 bs \<Longrightarrow> write_at buf (length bs) v = Some buf' \<Longrightarrow>
   reads buf' 0 (bs @ v) \<and> length buf' = length buf"
  by (auto simp: write_at_def reads_def split: if_splits)

lemma append_val_encoded:
  assumes "encoded e bs"
  shows "\<exists>e'. append_val v e = Some e' \<and>
    (if mRunningIndex e + int (length v) < REQ_BUFFER_SIZE
     then encoded e' (bs @ v) \<and> mRunningIndex e' = mRunningIndex e + int (length v)
     else encoded e' bs \<and> mRunningIndex e' = REQ_BUFFER_SIZE)"
proof -
  from assms obtain buf where b: "mBuffer e = Some buf" "length buf = nat REQ_BUFFER_SIZE" "reads buf 0 bs"
    by (auto simp: encoded_def)
  show ?thesis
  proof (cases "mRunningIndex e + int (length v) < REQ_BUFFER_SIZE")
    case True
    then have idx: "mRunningIndex e = int (length bs)" using assms by (auto simp: encoded_def)
    then have "length bs + length v \<le> length buf" using True b(2) by (simp add: REQ_BUFFER_SIZE_def)
    then obtain buf' where w: "write_at buf (length bs) v = Some buf'" by (simp add: write_at_def)
    show ?thesis using True idx b w write_at_reads[OF b(3) w] assms
      by (auto simp: append_val_def encoded_def)
  next
    case False
    then show ?thesis using assms b by (auto simp: append_val_def encoded_def REQ_BUFFER_SIZE_def)
  qed
qed

text \<open>A chain of appends either encodes everything, or leaves the encoder insane.\<close>

lemma append_vals_encoded:
  "encoded e bs \<Longrightarrow>
   \<exists>e' bs'. foldM append_val vs e = Some e' \<and> encoded e' bs' \<and>
     (isBufSane e' \<longrightarrow> isBufSane e \<and> bs' = bs @ concat vs)"
proof (induction vs arbitrary: e bs)
  case Nil
  then show ?case by auto
next
  case (Cons v vs)
  obtain e1 where e1: "append_val v e = Some e1"
    "if mRunningIndex e + int (length v) < REQ_BUFFER_SIZE
     then encoded e1 (bs @ v) \<and> mRunningIndex e1 = mRunningIndex e + int (length v)
     else encoded e1 bs \<and> mRunningIndex e1 = REQ_BUFFER_SIZE"
    using append_val_encoded[OF Cons.prems, of v] by blast
  show ?case
  proof (cases "mRunningIndex e + int (length v) < REQ_BUFFER_SIZE")
    case True
    moreover have "isBufSane e" using True Cons.prems by (auto simp: isBufSane_def encoded_def)
    ultimately show ?thesis using e1 Cons.IH[of e1 "bs @ v"] by auto
  next
    case False
    then have "\<not> isBufSane e1" "encoded e1 bs" using e1 by (auto simp: isBufSane_def)
    then show ?thesis using e1(1) Cons.IH[of e1 bs] by auto
  qed
qed

lemma append_vals_fit:
  "encoded e bs \<Longrightarrow> isBufSane e \<Longrightarrow> int (length bs) + int (length (concat vs)) < REQ_BUFFER_SIZE \<Longrightarrow>
   \<exists>e'. foldM append_val vs e = Some e' \<and> encoded e' (bs @ concat vs) \<and> isBufSane e'"
proof (induction vs arbitrary: e bs)
  case Nil
  then show ?case by auto
next
  case (Cons v vs)
  have idx: "mRunningIndex e = int (length bs)" using Cons.prems by (auto simp: encoded_def isBufSane_def)
  with append_val_encoded[OF Cons.prems(1), of v] Cons.prems(3)
  obtain e1 where e1: "append_val v e = Some e1" "encoded e1 (bs @ v)" "mRunningIndex e1 = int (length (bs @ v))"
    by auto
  have "isBufSane e1" using e1 Cons.prems(3) by (auto simp: isBufSane_def encoded_def)
  with e1 Cons.IH[of e1 "bs @ v"] Cons.prems(3) show ?case by auto
qed

end
