(* ===== verification/Request.thy ===== *)
theory Request
  imports Message Resource DLManager Wire
begin

text \<open>
  Requests and signals of \<^verbatim>\<open>modula/Common\<close>: \<^verbatim>\<open>Request.cpp\<close> and
  \<^verbatim>\<open>Signal.cpp\<close>. A request owns its resources through a \<^verbatim>\<open>DLManager\<close> on
  linker 0; the nodes live in a heap whose payloads are the resources they point to. Memory comes
  from the pools, so which block a placement-new obtains, or that it throws, is a parameter
  (\<open>alloc_source\<close>). The main facts are that deserialization of a well-formed image yields
  exactly the encoded request, and that it trusts the counts in the message.
\<close>

type_synonym res_heap = "resource dl_heap"

definition REQUEST_DL_NR :: nat where "REQUEST_DL_NR = 0"
definition COCO_TABLE_DL_NR :: nat where "COCO_TABLE_DL_NR = 1"

record request = message +
  mTimer :: "addr option"
  mResourceList :: "resource dl_manager option"
  mSource :: u64

definition Request_init :: "request \<Rightarrow> request" where
  "Request_init raw = raw\<lparr>mProperties := 0, mTimer := None, mResourceList := None, mSource := 0\<rparr>"

definition getResourcesCount :: "request \<Rightarrow> int" where
  "getResourcesCount req = (case mResourceList req of None \<Rightarrow> 0 | Some l \<Rightarrow> getLenHelper l)"

definition getTimer :: "request \<Rightarrow> addr option" where
  "getTimer req = mTimer req"

definition getResDlMgr :: "request \<Rightarrow> resource dl_manager option" where
  "getResDlMgr req = mResourceList req"

definition getSource :: "request \<Rightarrow> u64" where
  "getSource req = mSource req"

definition setTimer :: "addr option \<Rightarrow> request \<Rightarrow> request" where
  "setTimer timer req = req\<lparr>mTimer := timer\<rparr>"

definition unsetTimer :: "request \<Rightarrow> request" where
  "unsetTimer req = req\<lparr>mTimer := None\<rparr>"

definition setSource :: "u64 \<Rightarrow> request \<Rightarrow> request" where
  "setSource source req = req\<lparr>mSource := source\<rparr>"

text \<open>\<open>list_ok\<close>: whether the pool has a block for the manager; if not, the resource is dropped.\<close>

definition addResource :: "bool \<Rightarrow> res_heap \<Rightarrow> request \<Rightarrow> addr \<Rightarrow> (res_heap \<times> request) option" where
  "addResource list_ok h req resIterable =
     (let l = (case mResourceList req of
                 None \<Rightarrow> if list_ok then Some (DLManager_init REQUEST_DL_NR) else None
               | Some l \<Rightarrow> Some l)
      in case l of None \<Rightarrow> Some (h, req)
         | Some l \<Rightarrow>
            (case insertHelper h l (Some resIterable) of None \<Rightarrow> None
             | Some (h, l, rc) \<Rightarrow> Some (h, req\<lparr>mResourceList := Some l\<rparr>)))"

definition populateUntuneRequest :: "request \<Rightarrow> request option \<Rightarrow> request option" where
  "populateUntuneRequest req untuneRequest =
     map_option (\<lambda>u. u\<lparr>mReqType := REQ_RESOURCE_UNTUNING, mProperties := getProperties req,
       mHandle := getHandle req, mClientPID := getClientPID req, mClientTID := getClientTID req,
       mTimer := None, mResourceList := None\<rparr>) untuneRequest"

definition populateRetuneRequest :: "request \<Rightarrow> request option \<Rightarrow> i64 \<Rightarrow> request option" where
  "populateRetuneRequest req retuneRequest newDuration =
     map_option (\<lambda>u. u\<lparr>mReqType := REQ_RESOURCE_RETUNING, mHandle := getHandle req,
       mProperties := getProperties req, mClientPID := getClientPID req,
       mClientTID := getClientTID req, mDuration := newDuration, mResourceList := None\<rparr>) retuneRequest"

text \<open>
  \<^verbatim>\<open>clearResources\<close> returns each node to the pool and then, in the loop header, reads its
  next pointer. A freed block is no longer a node of the heap.
\<close>

definition clearResources :: "res_heap \<Rightarrow> request \<Rightarrow> (res_heap \<times> request) option" where
  "clearResources h req =
     (case mResourceList req of None \<Rightarrow> Some (h, req)
      | Some l \<Rightarrow>
         (case dl_iterate (mLinkerInUse l) (\<lambda>s. s) (\<lambda>a h. Some (h(a := None))) (mHead l) h of
            None \<Rightarrow> None
          | Some h' \<Rightarrow> Some (h', req\<lparr>mResourceList := Some (destroyHelper l)\<rparr>)))"

text \<open>Frees the nodes, the timer block if there is one (the second result) and the request.\<close>

definition cleanUpRequest :: "res_heap \<Rightarrow> request option \<Rightarrow> (res_heap \<times> addr option) option" where
  "cleanUpRequest h request =
     (case request of None \<Rightarrow> Some (h, None)
      | Some req \<Rightarrow> map_option (\<lambda>(h', req'). (h', mTimer req')) (clearResources h req))"

section \<open>Deserialization of a request\<close>

record alloc_source =
  iter_block :: "nat \<Rightarrow> addr option"
  res_block :: "nat \<Rightarrow> bool"
  val_array :: "nat \<Rightarrow> bool"
  list_block :: "nat \<Rightarrow> bool"

fun read_values :: "nat list \<Rightarrow> u8 list \<Rightarrow> nat \<Rightarrow> resource \<Rightarrow> (ErrCode \<times> resource \<times> nat) option" where
  "read_values [] buf p r = Some (RC_SUCCESS, r, p)"
| "read_values (j # js) buf p r = do {
     (v, p) \<leftarrow> deref_and_incr 4 buf p;
     (rc, r) \<leftarrow> setValueAt (word_of_nat j) v r;
     (if RC_IS_NOTOK rc then Some (RC_REQUEST_DESERIALIZATION_FAILURE, r, p)
      else read_values js buf p r) }"

definition read_resource :: "bool \<Rightarrow> u8 list \<Rightarrow> nat \<Rightarrow> (ErrCode \<times> resource \<times> nat) option" where
  "read_resource new_ok buf p = do {
     (resCode, p) \<leftarrow> deref_and_incr 4 buf p;
     (resInfo, p) \<leftarrow> deref_and_incr 4 buf p;
     (optionalInfo, p) \<leftarrow> deref_and_incr 4 buf p;
     (numValues, p) \<leftarrow> deref_and_incr 4 buf p;
     let r = setNumValues new_ok numValues
               (setOptionalInfo optionalInfo (setResInfo resInfo (setResCode resCode Resource_init)));
     read_values [0 ..< nat (sint (getValuesCount r))] buf p r }"

fun read_resources ::
    "alloc_source \<Rightarrow> nat list \<Rightarrow> u8 list \<Rightarrow> nat \<Rightarrow> res_heap \<Rightarrow> request \<Rightarrow>
       (ErrCode \<times> res_heap \<times> request) option" where
  "read_resources al [] buf p h req = Some (RC_SUCCESS, h, req)"
| "read_resources al (i # is) buf p h req =
     (case iter_block al i of
        None \<Rightarrow> Some (RC_MEMORY_POOL_BLOCK_RETRIEVAL_FAILURE, h, req)
      | Some a \<Rightarrow>
         if \<not> res_block al i then Some (RC_MEMORY_POOL_BLOCK_RETRIEVAL_FAILURE, h, req)
         else do {
           (rc, r, p) \<leftarrow> read_resource (val_array al i) buf p;
           (if RC_IS_NOTOK rc then Some (rc, h, req)
            else do {
              (h, req) \<leftarrow> addResource (list_block al i)
                 (h(a \<mapsto> \<lparr>nd_next = (\<lambda>_. None), nd_prev = (\<lambda>_. None), mData = r\<rparr>)) req a;
              read_resources al is buf p h req }) })"

definition Request_deserialize ::
    "alloc_source \<Rightarrow> u8 list \<Rightarrow> res_heap \<Rightarrow> request \<Rightarrow> (ErrCode \<times> res_heap \<times> request) option" where
  "Request_deserialize al buf h req = do {
     (_ :: i8, p) \<leftarrow> deref_and_incr 1 buf 0;
     (reqType, p) \<leftarrow> deref_and_incr 1 buf p;
     (handle, p) \<leftarrow> deref_and_incr 8 buf p;
     (duration, p) \<leftarrow> deref_and_incr 8 buf p;
     (numResources :: i32, p) \<leftarrow> deref_and_incr 4 buf p;
     (properties, p) \<leftarrow> deref_and_incr 4 buf p;
     (pid, p) \<leftarrow> deref_and_incr 4 buf p;
     (tid, p) \<leftarrow> deref_and_incr 4 buf p;
     let req = req\<lparr>mReqType := reqType, mHandle := handle, mDuration := duration,
                   mProperties := properties, mClientPID := pid, mClientTID := tid\<rparr>;
     (if mReqType req = REQ_RESOURCE_TUNING
      then read_resources al [0 ..< nat (sint numResources)] buf p h req
      else Some (RC_SUCCESS, h, req)) }"

section \<open>Signals\<close>

record signal = message +
  mSignalCode :: u32
  mSignalType :: u32
  mAppName :: "u8 list"
  mScenario :: "u8 list"
  mNumArgs :: i32
  mListArgs :: "u32 list option"

definition getListArgAt :: "signal \<Rightarrow> i32 \<Rightarrow> u32 option" where
  "getListArgAt sig index =
     (case mListArgs sig of None \<Rightarrow> None
      | Some xs \<Rightarrow> if 0 \<le> sint index \<and> sint index < int (length xs) then Some (xs ! nat (sint index)) else None)"

definition setSignalCode :: "u32 \<Rightarrow> signal \<Rightarrow> signal" where
  "setSignalCode signalCode sig = sig\<lparr>mSignalCode := signalCode\<rparr>"

definition setSignalType :: "u32 \<Rightarrow> signal \<Rightarrow> signal" where
  "setSignalType signalType sig = sig\<lparr>mSignalType := signalType\<rparr>"

definition setAppName :: "u8 list \<Rightarrow> signal \<Rightarrow> signal" where
  "setAppName appName sig = sig\<lparr>mAppName := appName\<rparr>"

definition setScenario :: "u8 list \<Rightarrow> signal \<Rightarrow> signal" where
  "setScenario scenario sig = sig\<lparr>mScenario := scenario\<rparr>"

definition setNumArgs :: "i32 \<Rightarrow> signal \<Rightarrow> signal" where
  "setNumArgs numArgs sig = sig\<lparr>mNumArgs := numArgs\<rparr>"

definition setList :: "u32 list option \<Rightarrow> signal \<Rightarrow> signal" where
  "setList listArgs sig = sig\<lparr>mListArgs := listArgs\<rparr>"

text \<open>A C string in the buffer: the bytes up to the terminator, and the position behind it.\<close>

definition read_cstr :: "u8 list \<Rightarrow> nat \<Rightarrow> (u8 list \<times> nat) option" where
  "read_cstr buf p =
     (let s = takeWhile (\<lambda>c. c \<noteq> 0) (drop p buf)
      in if p + length s < length buf then Some (s, p + length s + 1) else None)"

definition Signal_deserialize :: "bool \<Rightarrow> u8 list \<Rightarrow> signal \<Rightarrow> (ErrCode \<times> signal) option" where
  "Signal_deserialize vec_ok buf sig = do {
     (_ :: i8, p) \<leftarrow> deref_and_incr 1 buf 0;
     (reqType, p) \<leftarrow> deref_and_incr 1 buf p;
     (code, p) \<leftarrow> deref_and_incr 4 buf p;
     (type, p) \<leftarrow> deref_and_incr 4 buf p;
     (handle, p) \<leftarrow> deref_and_incr 8 buf p;
     (duration, p) \<leftarrow> deref_and_incr 8 buf p;
     (app, p) \<leftarrow> read_cstr buf p;
     (scenario, p) \<leftarrow> read_cstr buf p;
     (numArgs, p) \<leftarrow> deref_and_incr 4 buf p;
     (properties, p) \<leftarrow> deref_and_incr 4 buf p;
     (pid, p) \<leftarrow> deref_and_incr 4 buf p;
     (tid, p) \<leftarrow> deref_and_incr 4 buf p;
     let sig = sig\<lparr>mReqType := reqType, mSignalCode := code, mSignalType := type, mHandle := handle,
                   mDuration := duration, mAppName := app, mScenario := scenario,
                   mNumArgs := numArgs, mProperties := properties, mClientPID := pid, mClientTID := tid\<rparr>;
     (if \<not> vec_ok then Some (RC_MEMORY_POOL_BLOCK_RETRIEVAL_FAILURE, sig)
      else if sint numArgs < 0 then Some (RC_REQUEST_DESERIALIZATION_FAILURE, sig\<lparr>mListArgs := Some []\<rparr>)
      else do {
        (args, p) \<leftarrow> read_fields (deref_and_incr 4) (nat (sint numArgs)) buf p;
        Some (RC_SUCCESS, sig\<lparr>mListArgs := Some args\<rparr>) }) }"

section \<open>The image of a request\<close>

record wire_resource =
  w_code :: u32
  w_info :: i32
  w_opt :: i32
  w_vals :: "i32 list"

definition res_image :: "wire_resource \<Rightarrow> u8 list" where
  "res_image w = le_bytes 4 (w_code w) @ le_bytes 4 (w_info w) @ le_bytes 4 (w_opt w) @
     le_bytes 4 (word_of_nat (length (w_vals w)) :: i32) @ concat (map (le_bytes 4) (w_vals w))"

definition req_image ::
    "i8 \<Rightarrow> i64 \<Rightarrow> i64 \<Rightarrow> i32 \<Rightarrow> i32 \<Rightarrow> i32 \<Rightarrow> wire_resource list \<Rightarrow> u8 list" where
  "req_image ty handle duration properties pid tid ws =
     le_bytes 1 MOD_RESTUNE @ le_bytes 1 ty @ le_bytes 8 handle @ le_bytes 8 duration @
     le_bytes 4 (word_of_nat (length ws) :: i32) @ le_bytes 4 properties @ le_bytes 4 pid @
     le_bytes 4 tid @ concat (map res_image ws)"

definition resource_is :: "resource \<Rightarrow> wire_resource \<Rightarrow> bool" where
  "resource_is r w \<longleftrightarrow>
     mResCode r = w_code w \<and> mResInfo r = w_info w \<and> mOptionalInfo r = w_opt w \<and>
     mResAction r = RES_FORWARD \<and> sint (mNumValues r) = int (length (w_vals w)) \<and> res_ok r \<and>
     (\<forall>j < length (w_vals w). getValueAt r (word_of_nat j) = Some (w_vals w ! j))"

lemma sint_small_nat: "n < 2 ^ 31 \<Longrightarrow> sint (word_of_nat n :: i32) = int n"
  by (simp add: signed_of_nat signed_take_bit_int_eq_self)

lemma word_of_nat_small_eq: "i < 2 ^ 31 \<Longrightarrow> j < 2 ^ 31 \<Longrightarrow> (word_of_nat i = (word_of_nat j :: i32)) = (i = j)"
  by (metis sint_small_nat of_nat_eq_iff)

lemma deref_word32: "reads buf p (le_bytes 4 (w :: i32)) \<Longrightarrow> deref_and_incr 4 buf p = Some (w, p + 4)"
  by (simp add: deref_le_bytes)

lemma deref_word64: "reads buf p (le_bytes 8 (w :: i64)) \<Longrightarrow> deref_and_incr 8 buf p = Some (w, p + 8)"
  by (simp add: deref_le_bytes)

lemma deref_byte: "reads buf p (le_bytes (Suc 0) (w :: i8)) \<Longrightarrow> deref_and_incr (Suc 0) buf p = Some (w, p + 1)"
  by (simp add: deref_le_bytes)

lemma read_values_image:
  assumes "res_ok r" "allocated r" "length js = length vs" "distinct js"
    and "\<forall>j\<in>set js. int j < sint (mNumValues r)"
    and "reads buf p (concat (map (le_bytes 4) vs))"
  shows "\<exists>r'. read_values js buf p r = Some (RC_SUCCESS, r', p + 4 * length vs) \<and> res_ok r' \<and>
    same_header r r' \<and> (\<forall>k < length js. getValueAt r' (word_of_nat (js ! k)) = Some (vs ! k)) \<and>
    (\<forall>i. i \<notin> word_of_nat ` set js \<longrightarrow> getValueAt r' i = getValueAt r i)"
  using assms
proof (induction js arbitrary: vs p r)
  case Nil
  then show ?case by (simp add: same_header_def)
next
  case (Cons j js)
  then obtain v ws where vs: "vs = v # ws" by (cases vs) auto
  have small: "k \<in> set (j # js) \<Longrightarrow> k < 2 ^ 31" for k
    using Cons.prems(5) sint_lt[of "mNumValues r"] by fastforce
  have j: "in_values r (word_of_nat j)"
    using Cons.prems(5) small[of j] by (simp add: in_values_def sint_small_nat)
  obtain r1 where r1: "setValueAt (word_of_nat j) v r = Some (RC_SUCCESS, r1)" "allocated r1"
    using setValueAt_success[OF Cons.prems(1,2) j] by blast
  have h1: "res_ok r1" "same_header r r1"
    using setValueAt_keeps_ok[OF r1(1) Cons.prems(1)] setValueAt_frame[OF r1(1)] by (auto simp: same_header_def)
  have rd: "reads buf p (le_bytes 4 v)" "reads buf (p + 4) (concat (map (le_bytes 4) ws))"
    using Cons.prems(6) vs by (auto simp: reads_append)
  have "\<exists>r'. read_values js buf (p + 4) r1 = Some (RC_SUCCESS, r', (p + 4) + 4 * length ws) \<and> res_ok r' \<and>
    same_header r1 r' \<and> (\<forall>k < length js. getValueAt r' (word_of_nat (js ! k)) = Some (ws ! k)) \<and>
    (\<forall>i. i \<notin> word_of_nat ` set js \<longrightarrow> getValueAt r' i = getValueAt r1 i)"
    using Cons.prems(3-5) vs h1 r1(2) rd(2) by (intro Cons.IH) (auto simp: same_header_def)
  then obtain r' where r': "read_values js buf (p + 4) r1 = Some (RC_SUCCESS, r', p + 4 * length vs)"
    "res_ok r'" "same_header r1 r'"
    "\<And>k. k < length js \<Longrightarrow> getValueAt r' (word_of_nat (js ! k)) = Some (ws ! k)"
    "\<And>i. i \<notin> word_of_nat ` set js \<Longrightarrow> getValueAt r' i = getValueAt r1 i"
    using vs by (auto simp: algebra_simps)
  have nj: "(word_of_nat j :: i32) \<notin> word_of_nat ` set js"
    using small Cons.prems(4) by (auto simp: word_of_nat_small_eq)
  have g: "getValueAt r1 i = (if i = word_of_nat j then Some v else getValueAt r i)" for i
    by (rule setValueAt_getValueAt[OF Cons.prems(1) j r1(1)])
  have "getValueAt r' (word_of_nat ((j # js) ! k)) = Some (vs ! k)" if "k < length (j # js)" for k
    using that r'(4) r'(5)[OF nj] g vs by (cases k) auto
  with r' rd(1) r1(1) h1(2) g show ?case
    by (auto simp: deref_word32 intro: same_header_trans)
qed

lemma read_resource_image:
  assumes "reads buf p (res_image w)" "length (w_vals w) < 2 ^ 31"
  shows "\<exists>r. read_resource True buf p = Some (RC_SUCCESS, r, p + length (res_image w)) \<and> resource_is r w"
proof -
  let ?n = "word_of_nat (length (w_vals w)) :: i32"
  let ?r = "setNumValues True ?n
     (setOptionalInfo (w_opt w) (setResInfo (w_info w) (setResCode (w_code w) Resource_init)))"
  have n: "sint ?n = int (length (w_vals w))" using assms(2) by (rule sint_small_nat)
  have hd: "res_ok ?r" "allocated ?r" "mNumValues ?r = ?n" "mResCode ?r = w_code w" "mResInfo ?r = w_info w"
    "mOptionalInfo ?r = w_opt w" "mResAction ?r = RES_FORWARD"
    by (simp_all add: res_ok_def allocated_def setNumValues_def Let_def setOptionalInfo_def setResInfo_def
        setResCode_def Resource_init_def)
  have rd: "reads buf p (le_bytes 4 (w_code w))" "reads buf (p + 4) (le_bytes 4 (w_info w))"
    "reads buf (p + 4 + 4) (le_bytes 4 (w_opt w))" "reads buf (p + 4 + 4 + 4) (le_bytes 4 ?n)"
    "reads buf (p + 4 + 4 + 4 + 4) (concat (map (le_bytes 4) (w_vals w)))"
    using assms(1) by (auto simp: res_image_def reads_append)
  have len: "length (concat (map (le_bytes 4) (w_vals w))) = 4 * length (w_vals w)"
    by (simp add: length_concat o_def sum_list_triv)
  have "\<exists>r'. read_values [0..<length (w_vals w)] buf (p + 4 + 4 + 4 + 4) ?r =
      Some (RC_SUCCESS, r', p + 4 + 4 + 4 + 4 + 4 * length (w_vals w)) \<and> res_ok r' \<and> same_header ?r r' \<and>
      (\<forall>k < length [0..<length (w_vals w)]. getValueAt r' (word_of_nat ([0..<length (w_vals w)] ! k)) = Some (w_vals w ! k)) \<and>
      (\<forall>i. i \<notin> word_of_nat ` set [0..<length (w_vals w)] \<longrightarrow> getValueAt r' i = getValueAt ?r i)"
    using hd n rd(5) by (intro read_values_image) auto
  then obtain r' where r': "read_values [0..<length (w_vals w)] buf (p + 4 + 4 + 4 + 4) ?r =
      Some (RC_SUCCESS, r', p + 4 + 4 + 4 + 4 + 4 * length (w_vals w))" "res_ok r'" "same_header ?r r'"
      "\<And>k. k < length (w_vals w) \<Longrightarrow> getValueAt r' (word_of_nat k) = Some (w_vals w ! k)" by auto
  have "read_resource True buf p = read_values [0..<length (w_vals w)] buf (p + 4 + 4 + 4 + 4) ?r"
    using rd hd(3) n by (simp add: read_resource_def deref_word32 getValuesCount_def Let_def)
  moreover have "resource_is r' w"
    using r' hd n by (simp add: resource_is_def same_header_def)
  ultimately show ?thesis using r'(1) len by (simp add: res_image_def)
qed

section \<open>The resource list of a request\<close>

definition req_list :: "res_heap \<Rightarrow> request \<Rightarrow> addr list \<Rightarrow> bool" where
  "req_list h req xs \<longleftrightarrow>
     (case mResourceList req of None \<Rightarrow> xs = []
      | Some l \<Rightarrow> dl_list h l xs \<and> mLinkerInUse l = REQUEST_DL_NR)"

lemma req_list_count: "req_list h req xs \<Longrightarrow> getResourcesCount req = int (length xs)"
  by (auto simp: req_list_def getResourcesCount_def getLenHelper_def dl_list_def split: option.splits)

lemma req_list_alloc: "req_list h req xs \<Longrightarrow> a \<in> set xs \<Longrightarrow> h a \<noteq> None"
  by (auto simp: req_list_def dl_list_def split: option.splits dest: dseg_alloc)

lemma req_list_fresh: "req_list h req xs \<Longrightarrow> h a = None \<Longrightarrow> req_list (h(a \<mapsto> nd)) req xs"
  by (auto simp: req_list_def dl_list_fresh split: option.splits)

lemma addResource_spec:
  assumes "req_list h req xs" "h a \<noteq> None" "a \<notin> set xs"
  shows "\<exists>h' l. addResource True h req a = Some (h', req\<lparr>mResourceList := Some l\<rparr>) \<and>
    req_list h' (req\<lparr>mResourceList := Some l\<rparr>) (xs @ [a]) \<and> (\<forall>b. dl_data h' b = dl_data h b)"
proof -
  let ?l = "case mResourceList req of None \<Rightarrow> DLManager_init REQUEST_DL_NR | Some l \<Rightarrow> l"
  have l: "dl_list h ?l xs" "mLinkerInUse ?l = REQUEST_DL_NR"
    using assms(1) DLManager_init_list[of REQUEST_DL_NR h]
    by (auto simp: req_list_def REQUEST_DL_NR_def DLManager_init_def split: option.splits)
  from insertHelper_list[OF l(1) assms(3,2)] obtain h' l' where
    "insertHelper h ?l (Some a) = Some (h', l', RC_SUCCESS)" "dl_list h' l' (xs @ [a])"
    "dl_frame (mLinkerInUse ?l) (insert a (set xs)) h h'" "same_cfg ?l l'" by (rule dl_doneE)
  with l(2) show ?thesis
    by (auto simp: addResource_def req_list_def dl_frame_def same_cfg_def Let_def split: option.splits)
qed

text \<open>Every block the loop asks for exists, is unused, and is handed out once.\<close>

definition alloc_ok :: "alloc_source \<Rightarrow> nat list \<Rightarrow> (nat \<Rightarrow> addr) \<Rightarrow> res_heap \<Rightarrow> bool" where
  "alloc_ok al is A h \<longleftrightarrow>
     inj_on A (set is) \<and>
     (\<forall>i\<in>set is. iter_block al i = Some (A i) \<and> h (A i) = None \<and> res_block al i \<and> val_array al i \<and>
        list_block al i)"

definition stored :: "res_heap \<Rightarrow> addr \<Rightarrow> wire_resource \<Rightarrow> bool" where
  "stored h a w \<longleftrightarrow> (\<exists>r. dl_data h a = Some r \<and> resource_is r w)"

lemma read_resources_image:
  "reads buf p (concat (map res_image ws)) \<Longrightarrow> \<forall>w\<in>set ws. length (w_vals w) < 2 ^ 31 \<Longrightarrow>
   length is = length ws \<Longrightarrow> distinct is \<Longrightarrow> alloc_ok al is A h \<Longrightarrow> req_list h req xs \<Longrightarrow>
   \<exists>h' l. read_resources al is buf p h req = Some (RC_SUCCESS, h', req\<lparr>mResourceList := l\<rparr>) \<and>
     req_list h' (req\<lparr>mResourceList := l\<rparr>) (xs @ map A is) \<and> list_all2 (stored h') (map A is) ws \<and>
     (\<forall>a. a \<notin> A ` set is \<longrightarrow> dl_data h' a = dl_data h a)"
proof (induction "is" arbitrary: ws p h req xs)
  case Nil
  then have "req\<lparr>mResourceList := mResourceList req\<rparr> = req" by simp
  with Nil show ?case by (intro exI[of _ h] exI[of _ "mResourceList req"]) simp
next
  case (Cons i "is")
  then obtain w ws' where ws: "ws = w # ws'" by (cases ws) auto
  have rd: "reads buf p (res_image w)" "reads buf (p + length (res_image w)) (concat (map res_image ws'))"
    using Cons.prems(1) ws by (auto simp: reads_append)
  obtain r where r: "read_resource True buf p = Some (RC_SUCCESS, r, p + length (res_image w))" "resource_is r w"
    using read_resource_image[OF rd(1)] Cons.prems(2) ws by auto
  have al: "iter_block al i = Some (A i)" "h (A i) = None" "res_block al i" "val_array al i" "list_block al i"
    using Cons.prems(5) by (auto simp: alloc_ok_def)
  let ?h = "h(A i \<mapsto> \<lparr>nd_next = (\<lambda>_. None), nd_prev = (\<lambda>_. None), mData = r\<rparr>)"
  have "A i \<notin> set xs" using req_list_alloc[OF Cons.prems(6)] al(2) by blast
  with addResource_spec[OF req_list_fresh[OF Cons.prems(6) al(2)]] obtain h1 l1 where
    a1: "addResource True ?h req (A i) = Some (h1, req\<lparr>mResourceList := Some l1\<rparr>)"
    "req_list h1 (req\<lparr>mResourceList := Some l1\<rparr>) (xs @ [A i])" "\<And>b. dl_data h1 b = dl_data ?h b"
    by (metis fun_upd_same option.distinct(1))
  have fresh: "h1 (A j) = None" if "j \<in> set is" for j
  proof -
    have "A j \<noteq> A i" "h (A j) = None" using that Cons.prems(4,5) by (auto simp: alloc_ok_def inj_on_def)
    with a1(3)[of "A j"] have "dl_data h1 (A j) = None" by (simp add: dl_data_def)
    then show ?thesis by simp
  qed
  then have "alloc_ok al is A h1" using Cons.prems(5) by (auto simp: alloc_ok_def)
  with Cons.IH[OF rd(2) _ _ _ _ a1(2)] Cons.prems ws obtain h' l where
    ih: "read_resources al is buf (p + length (res_image w)) h1 (req\<lparr>mResourceList := Some l1\<rparr>) =
        Some (RC_SUCCESS, h', req\<lparr>mResourceList := l\<rparr>)"
    "req_list h' (req\<lparr>mResourceList := l\<rparr>) ((xs @ [A i]) @ map A is)" "list_all2 (stored h') (map A is) ws'"
    "\<And>a. a \<notin> A ` set is \<Longrightarrow> dl_data h' a = dl_data h1 a" by auto
  have "A i \<notin> A ` set is" using Cons.prems(4,5) by (auto simp: alloc_ok_def)
  then have "dl_data h' (A i) = Some r" using ih(4) a1(3)[of "A i"] by (simp add: dl_data_def)
  then have "stored h' (A i) w" using r(2) by (simp add: stored_def)
  moreover have "dl_data h' a = dl_data h a" if "a \<notin> A ` set (i # is)" for a
    using that ih(4)[of a] a1(3)[of a] by (simp add: dl_data_def)
  ultimately show ?case using al r a1(1) ih(1-3) ws by auto
qed

text \<open>The reader obtains exactly the encoded request.\<close>

lemma Request_deserialize_image:
  assumes "reads buf 0 (req_image REQ_RESOURCE_TUNING handle duration properties pid tid ws)"
    and "length ws < 2 ^ 31" "\<forall>w\<in>set ws. length (w_vals w) < 2 ^ 31"
    and "alloc_ok al [0..<length ws] A h" "mResourceList req = None"
  shows "\<exists>h' req'. Request_deserialize al buf h req = Some (RC_SUCCESS, h', req') \<and>
    mReqType req' = REQ_RESOURCE_TUNING \<and> mHandle req' = handle \<and> mDuration req' = duration \<and>
    mProperties req' = properties \<and> mClientPID req' = pid \<and> mClientTID req' = tid \<and>
    req_list h' req' (map A [0..<length ws]) \<and> list_all2 (stored h') (map A [0..<length ws]) ws"
proof -
  let ?req = "req\<lparr>mReqType := REQ_RESOURCE_TUNING, mHandle := handle, mDuration := duration,
                   mProperties := properties, mClientPID := pid, mClientTID := tid\<rparr>"
  note rd = assms(1)[unfolded req_image_def reads_append, simplified]
  have n: "sint (word_of_nat (length ws) :: i32) = int (length ws)" using assms(2) by (rule sint_small_nat)
  have "req_list h ?req []" using assms(5) by (simp add: req_list_def)
  then obtain h' l where
    "read_resources al [0..<length ws] buf 34 h ?req = Some (RC_SUCCESS, h', ?req\<lparr>mResourceList := l\<rparr>)"
    "req_list h' (?req\<lparr>mResourceList := l\<rparr>) ([] @ map A [0..<length ws])"
    "list_all2 (stored h') (map A [0..<length ws]) ws"
    using read_resources_image[of buf 34 ws "[0..<length ws]" al A h ?req "[]"] assms(3,4) rd by auto
  moreover have "Request_deserialize al buf h req = read_resources al [0..<length ws] buf 34 h ?req"
    using rd n by (elim conjE) (simp add: Request_deserialize_def deref_byte deref_word32 deref_word64 Let_def)
  ultimately show ?thesis by auto
qed

section \<open>Counts are trusted\<close>

lemma zero_res_image: "res_image \<lparr>w_code = 0, w_info = 0, w_opt = 0, w_vals = []\<rparr> = replicate 16 0"
  by (simp add: res_image_def le_bytes_def map_replicate_const flip: replicate_add)

lemma read_resource_short: "length buf < p + 16 \<Longrightarrow> read_resource b buf p = None"
proof -
  assume s: "length buf < p + 16"
  consider "length buf < p + 4" | "p + 4 \<le> length buf" "length buf < p + 8"
    | "p + 8 \<le> length buf" "length buf < p + 12" | "p + 12 \<le> length buf" using s by linarith
  then show ?thesis using s by cases (simp_all add: read_resource_def deref_and_incr_def)
qed

text \<open>
  The loop is bounded by the count in the message alone: once the bytes run out it reads past the
  end of the buffer.
\<close>

lemma read_resources_overrun:
  "\<forall>q < length buf. p \<le> q \<longrightarrow> buf ! q = 0 \<Longrightarrow> p \<le> length buf \<Longrightarrow> length buf < p + 16 * length is \<Longrightarrow> distinct is \<Longrightarrow>
   alloc_ok al is A h \<Longrightarrow> req_list h req xs \<Longrightarrow> read_resources al is buf p h req = None"
proof (induction "is" arbitrary: p h req xs)
  case (Cons i "is")
  have al: "iter_block al i = Some (A i)" "h (A i) = None" "res_block al i" "val_array al i" "list_block al i"
    using Cons.prems(5) by (auto simp: alloc_ok_def)
  show ?case
  proof (cases "length buf < p + 16")
    case True
    then show ?thesis using al read_resource_short[of buf p True] by simp
  next
    case False
    have "reads buf p (replicate 16 0)"
      using False Cons.prems(1) by (auto simp: reads_def intro!: nth_equalityI)
    then obtain r where r: "read_resource True buf p = Some (RC_SUCCESS, r, p + 16)"
      using read_resource_image[of buf p "\<lparr>w_code = 0, w_info = 0, w_opt = 0, w_vals = []\<rparr>"]
      unfolding zero_res_image by auto
    let ?h = "h(A i \<mapsto> \<lparr>nd_next = (\<lambda>_. None), nd_prev = (\<lambda>_. None), mData = r\<rparr>)"
    have "A i \<notin> set xs" using req_list_alloc[OF Cons.prems(6)] al(2) by blast
    with addResource_spec[OF req_list_fresh[OF Cons.prems(6) al(2)]] obtain h1 l1 where
      a1: "addResource True ?h req (A i) = Some (h1, req\<lparr>mResourceList := Some l1\<rparr>)"
      "req_list h1 (req\<lparr>mResourceList := Some l1\<rparr>) (xs @ [A i])" "\<And>b. dl_data h1 b = dl_data ?h b"
      by (metis fun_upd_same option.distinct(1))
    have "h1 (A j) = None" if "j \<in> set is" for j
    proof -
      have "A j \<noteq> A i" "h (A j) = None" using that Cons.prems(4,5) by (auto simp: alloc_ok_def inj_on_def)
      with a1(3)[of "A j"] have "dl_data h1 (A j) = None" by (simp add: dl_data_def)
      then show ?thesis by simp
    qed
    then have "alloc_ok al is A h1" using Cons.prems(5) by (auto simp: alloc_ok_def)
    with Cons.IH[OF _ _ _ _ _ a1(2), of "p + 16"] Cons.prems(1-4) False al r a1(1) show ?thesis by simp
  qed
qed simp

lemma Request_deserialize_overrun:
  assumes "reads buf 0 (le_bytes 1 (md :: i8) @ le_bytes 1 REQ_RESOURCE_TUNING @ le_bytes 8 (handle :: i64) @
      le_bytes 8 (duration :: i64) @ le_bytes 4 (n :: i32) @ le_bytes 4 (properties :: i32) @ le_bytes 4 (pid :: i32) @
      le_bytes 4 (tid :: i32))"
    and "\<forall>q < length buf. 34 \<le> q \<longrightarrow> buf ! q = 0" "length buf < 34 + 16 * nat (sint n)"
    and "alloc_ok al [0 ..< nat (sint n)] A h" "mResourceList req = None"
  shows "Request_deserialize al buf h req = None"
proof -
  let ?req = "req\<lparr>mReqType := REQ_RESOURCE_TUNING, mHandle := handle, mDuration := duration,
                   mProperties := properties, mClientPID := pid, mClientTID := tid\<rparr>"
  note rd = assms(1)[unfolded reads_append, simplified]
  have "34 \<le> length buf" using assms(1) by (simp add: reads_def)
  then have "read_resources al [0 ..< nat (sint n)] buf 34 h ?req = None"
    using assms by (intro read_resources_overrun[where xs = "[]"]) (simp_all add: req_list_def)
  moreover have "Request_deserialize al buf h req = read_resources al [0 ..< nat (sint n)] buf 34 h ?req"
    using rd by (elim conjE) (simp add: Request_deserialize_def deref_byte deref_word32 deref_word64 Let_def)
  ultimately show ?thesis by simp
qed

end
