(* ===== verification/ClientData.thy ===== *)
theory ClientData
  imports Complex_Main Prelude
begin

text \<open>
  Per-client bookkeeping: \<^verbatim>\<open>ClientDataManager.cpp\<close> (who is known, with which threads,
  handles, health and last request time) and \<^verbatim>\<open>RateLimiter.cpp\<close>, which keeps its state
  there. An entry of the thread table can be a null pointer, because
  \<^verbatim>\<open>operator[]\<close> inserts one for a thread that is not known; dereferencing it is a fault.
  Health is a C++ double: an arithmetic result is rounded by the parameter \<open>fl\<close>. The order in
  which an unordered container is traversed is that of the list that stands for it.
\<close>

section \<open>Tables\<close>

definition PER_CLIENT_TID_CAP :: nat where "PER_CLIENT_TID_CAP = 32"

text \<open>The threads recorded so far; their number is \<^verbatim>\<open>mCurClientThreads\<close>.\<close>

record ClientInfo =
  mClientType :: "8 word"
  mClientTIDs :: "i32 list"

record ClientTidData =
  mClientHandles :: "i64 list"
  mLastRequestTimestamp :: i64
  mHealth :: real

record client_data =
  mClientRepo :: "i32 \<Rightarrow> ClientInfo option"
  mClientTidRepo :: "i32 \<Rightarrow> ClientTidData option option"

definition ClientDataManager_init :: client_data where
  "ClientDataManager_init = \<lparr>mClientRepo = (\<lambda>_. None), mClientTidRepo = (\<lambda>_. None)\<rparr>"

definition clientExists :: "i32 \<Rightarrow> i32 \<Rightarrow> client_data \<Rightarrow> bool" where
  "clientExists clientPID clientTID cd \<longleftrightarrow> mClientRepo cd clientPID \<noteq> None \<and> mClientTidRepo cd clientTID \<noteq> None"

text \<open>
  \<open>tid_ok\<close> and \<open>info_ok\<close>: the pool blocks are available; \<open>permission\<close>: what reading
  \<^verbatim>\<open>/proc/<pid>/status\<close> says.
\<close>

definition createNewClient ::
    "bool \<Rightarrow> bool \<Rightarrow> i8 \<Rightarrow> i32 \<Rightarrow> i32 \<Rightarrow> client_data \<Rightarrow> bool \<times> client_data" where
  "createNewClient tid_ok info_ok permission clientPID clientTID cd =
     (if clientExists clientPID clientTID cd then (True, cd)
      else if \<not> tid_ok then (False, cd)
      else
        (let cd' = cd\<lparr>mClientTidRepo := (mClientTidRepo cd)
               (clientTID \<mapsto> Some \<lparr>mClientHandles = [], mLastRequestTimestamp = 0, mHealth = 100\<rparr>)\<rparr>
         in case mClientRepo cd clientPID of
              Some info \<Rightarrow>
                if length (mClientTIDs info) < PER_CLIENT_TID_CAP
                then (True, cd'\<lparr>mClientRepo := (mClientRepo cd)
                        (clientPID \<mapsto> info\<lparr>mClientTIDs := mClientTIDs info @ [clientTID]\<rparr>)\<rparr>)
                else (False, cd')
            | None \<Rightarrow>
                if info_ok
                then (True, cd'\<lparr>mClientRepo := (mClientRepo cd)
                        (clientPID \<mapsto> \<lparr>mClientType = permission, mClientTIDs = [clientTID]\<rparr>)\<rparr>)
                else (False, cd')))"

text \<open>\<^verbatim>\<open>mClientTidRepo[tid]\<close>: reads the entry, inserting a null pointer when there is none.\<close>

definition tid_lookup :: "i32 \<Rightarrow> client_data \<Rightarrow> ClientTidData option \<times> client_data" where
  "tid_lookup tid cd =
     (case mClientTidRepo cd tid of
        None \<Rightarrow> (None, cd\<lparr>mClientTidRepo := (mClientTidRepo cd)(tid \<mapsto> None)\<rparr>)
      | Some d \<Rightarrow> (d, cd))"

definition getRequestsByClientID :: "i32 \<Rightarrow> client_data \<Rightarrow> i64 list option \<times> client_data" where
  "getRequestsByClientID clientTID cd =
     (let (d, cd') = tid_lookup clientTID cd in (map_option mClientHandles d, cd'))"

definition insertRequestByClientId :: "i32 \<Rightarrow> i64 \<Rightarrow> client_data \<Rightarrow> client_data" where
  "insertRequestByClientId clientTID requestHandle cd =
     (let (d, cd') = tid_lookup clientTID cd
      in case d of None \<Rightarrow> cd'
         | Some t \<Rightarrow> cd'\<lparr>mClientTidRepo := (mClientTidRepo cd')
              (clientTID \<mapsto> Some (t\<lparr>mClientHandles := List.insert requestHandle (mClientHandles t)\<rparr>))\<rparr>)"

definition deleteRequestByClientId :: "i32 \<Rightarrow> i64 \<Rightarrow> client_data \<Rightarrow> client_data option" where
  "deleteRequestByClientId clientTID requestHandle cd =
     (case mClientTidRepo cd clientTID of
        None \<Rightarrow> Some cd
      | Some None \<Rightarrow> None
      | Some (Some t) \<Rightarrow> Some (cd\<lparr>mClientTidRepo := (mClientTidRepo cd)
           (clientTID \<mapsto> Some (t\<lparr>mClientHandles := removeAll requestHandle (mClientHandles t)\<rparr>))\<rparr>))"

definition getClientLevelByID :: "i32 \<Rightarrow> client_data \<Rightarrow> i8" where
  "getClientLevelByID clientPID cd = (case mClientRepo cd clientPID of None \<Rightarrow> -1 | Some info \<Rightarrow> mClientType info)"

definition getThreadsByClientId :: "i32 \<Rightarrow> client_data \<Rightarrow> i32 list" where
  "getThreadsByClientId clientPID cd = (case mClientRepo cd clientPID of None \<Rightarrow> [] | Some info \<Rightarrow> mClientTIDs info)"

text \<open>Getters and setters of the thread entry. The outer option is the fault on a null entry.\<close>

definition getHealthByClientID :: "i32 \<Rightarrow> client_data \<Rightarrow> real option" where
  "getHealthByClientID clientTID cd =
     (case mClientTidRepo cd clientTID of None \<Rightarrow> Some (-1) | Some d \<Rightarrow> map_option mHealth d)"

definition getLastRequestTimestampByClientID :: "i32 \<Rightarrow> client_data \<Rightarrow> i64 option" where
  "getLastRequestTimestampByClientID clientTID cd =
     (case mClientTidRepo cd clientTID of None \<Rightarrow> Some 0 | Some d \<Rightarrow> map_option mLastRequestTimestamp d)"

definition updateHealthByClientID :: "i32 \<Rightarrow> real \<Rightarrow> client_data \<Rightarrow> client_data option" where
  "updateHealthByClientID clientTID health cd =
     (case mClientTidRepo cd clientTID of
        None \<Rightarrow> Some cd
      | Some None \<Rightarrow> None
      | Some (Some t) \<Rightarrow> Some (cd\<lparr>mClientTidRepo := (mClientTidRepo cd)(clientTID \<mapsto> Some (t\<lparr>mHealth := health\<rparr>))\<rparr>))"

definition updateLastRequestTimestampByClientID :: "i32 \<Rightarrow> i64 \<Rightarrow> client_data \<Rightarrow> client_data option" where
  "updateLastRequestTimestampByClientID clientTID currentMillis cd =
     (case mClientTidRepo cd clientTID of
        None \<Rightarrow> Some cd
      | Some None \<Rightarrow> None
      | Some (Some t) \<Rightarrow> Some (cd\<lparr>mClientTidRepo := (mClientTidRepo cd)
           (clientTID \<mapsto> Some (t\<lparr>mLastRequestTimestamp := currentMillis\<rparr>))\<rparr>))"

text \<open>The known processes, in the order \<open>pids\<close> in which the table is traversed.\<close>

definition getActiveClientList :: "i32 list \<Rightarrow> client_data \<Rightarrow> i32 list" where
  "getActiveClientList pids cd = filter (\<lambda>p. mClientRepo cd p \<noteq> None) pids"

definition deleteClientPID :: "i32 \<Rightarrow> client_data \<Rightarrow> client_data" where
  "deleteClientPID clientPID cd = cd\<lparr>mClientRepo := (mClientRepo cd)(clientPID := None)\<rparr>"

definition deleteClientTID :: "i32 \<Rightarrow> client_data \<Rightarrow> client_data option" where
  "deleteClientTID clientTID cd =
     (case mClientTidRepo cd clientTID of
        None \<Rightarrow> Some cd
      | Some None \<Rightarrow> None
      | Some (Some t) \<Rightarrow> Some (cd\<lparr>mClientTidRepo := (mClientTidRepo cd)(clientTID := None)\<rparr>))"

section \<open>Rate limiting\<close>

record rate_config =
  mDelta :: "32 word"
  mPenaltyFactor :: real
  mRewardFactor :: real

text \<open>The signed difference of two time stamps is undefined when it overflows.\<close>

definition time_difference :: "i64 \<Rightarrow> i64 \<Rightarrow> int option" where
  "time_difference a b =
     (let d = sint a - sint b in if - (2 ^ 63) \<le> d \<and> d < 2 ^ 63 then Some d else None)"

definition new_health :: "(real \<Rightarrow> real) \<Rightarrow> rate_config \<Rightarrow> real \<Rightarrow> int \<Rightarrow> real" where
  "new_health fl rc health requestDelta =
     (if requestDelta < uint (mDelta rc) then fl (health - mPenaltyFactor rc)
      else min 100 (fl (health + mRewardFactor rc)))"

definition shouldBeProcessed ::
    "(real \<Rightarrow> real) \<Rightarrow> rate_config \<Rightarrow> i64 \<Rightarrow> i32 \<Rightarrow> client_data \<Rightarrow> (bool \<times> client_data) option" where
  "shouldBeProcessed fl rc currentMillis clientTID cd = do {
     health \<leftarrow> getHealthByClientID clientTID cd;
     (if health \<le> 0 then Some (False, cd)
      else do {
        last \<leftarrow> getLastRequestTimestampByClientID clientTID cd;
        health \<leftarrow> (if last \<noteq> 0
                   then map_option (new_health fl rc health) (time_difference currentMillis last)
                   else Some health);
        cd \<leftarrow> updateHealthByClientID clientTID health cd;
        (if health \<le> 0 then Some (False, cd)
         else do {
           cd \<leftarrow> updateLastRequestTimestampByClientID clientTID currentMillis cd;
           Some (True, cd) }) }) }"

definition isRateLimitHonored ::
    "(real \<Rightarrow> real) \<Rightarrow> rate_config \<Rightarrow> i64 \<Rightarrow> i32 \<Rightarrow> client_data \<Rightarrow> (bool \<times> client_data) option" where
  "isRateLimitHonored fl rc currentMillis clientTID cd = shouldBeProcessed fl rc currentMillis clientTID cd"

text \<open>\<open>currActiveReqCount\<close> is compared as a signed 64-bit value with a 32-bit limit.\<close>

definition isGlobalRateLimitHonored :: "u32 \<Rightarrow> i64 \<Rightarrow> bool" where
  "isGlobalRateLimitHonored maxConcurrentRequests currActiveReqCount =
     (if sint currActiveReqCount \<ge> uint maxConcurrentRequests then False else True)"

section \<open>The store contract\<close>

text \<open>What a client of the thread table may rely on for a known thread.\<close>

locale thread_store =
  fixes known :: "'s \<Rightarrow> 't \<Rightarrow> bool" and get :: "'t \<Rightarrow> 's \<Rightarrow> 'v option" and put :: "'t \<Rightarrow> 'v \<Rightarrow> 's \<Rightarrow> 's option"
  assumes get_known: "known s t \<Longrightarrow> get t s \<noteq> None"
    and put_known: "known s t \<Longrightarrow> \<exists>s'. put t v s = Some s' \<and> get t s' = Some v \<and> known s' = known s \<and>
      (\<forall>t'. t' \<noteq> t \<longrightarrow> get t' s' = get t' s)"
begin

lemma put_put: "known s t \<Longrightarrow> \<exists>a b. put t v s = Some a \<and> put t w a = Some b \<and> get t b = Some w"
  using put_known by metis

text \<open>Any sequence of updates of one thread leaves the values of the others alone.\<close>

lemma puts_frame:
  "known s t \<Longrightarrow> \<exists>s'. foldM (put t) vs s = Some s' \<and> known s' = known s \<and>
     (\<forall>t'. t' \<noteq> t \<longrightarrow> get t' s' = get t' s) \<and> get t s' = (if vs = [] then get t s else Some (last vs))"
proof (induction vs arbitrary: s)
  case (Cons v vs)
  obtain a where a: "put t v s = Some a" "get t a = Some v" "known a = known s"
    "\<forall>t'. t' \<noteq> t \<longrightarrow> get t' a = get t' s" using put_known[OF Cons.prems, of v] by blast
  from a(3) Cons.prems have "known a t" by simp
  from Cons.IH[OF this] a show ?case by auto
qed simp

end

definition known_thread :: "client_data \<Rightarrow> i32 \<Rightarrow> bool" where
  "known_thread cd tid \<longleftrightarrow> (\<exists>t. mClientTidRepo cd tid = Some (Some t))"

interpretation health_store: thread_store known_thread getHealthByClientID updateHealthByClientID
  by unfold_locales
    (auto simp: known_thread_def getHealthByClientID_def updateHealthByClientID_def fun_eq_iff split: if_splits)

interpretation time_store: thread_store known_thread getLastRequestTimestampByClientID updateLastRequestTimestampByClientID
  by unfold_locales
    (auto simp: known_thread_def getLastRequestTimestampByClientID_def updateLastRequestTimestampByClientID_def
       fun_eq_iff split: if_splits)

lemma health_time_independent:
  "updateHealthByClientID t v cd = Some cd' \<Longrightarrow>
     getLastRequestTimestampByClientID t' cd' = getLastRequestTimestampByClientID t' cd"
  "updateLastRequestTimestampByClientID t w cd = Some cd' \<Longrightarrow> getHealthByClientID t' cd' = getHealthByClientID t' cd"
  by (auto simp: updateHealthByClientID_def updateLastRequestTimestampByClientID_def getHealthByClientID_def
      getLastRequestTimestampByClientID_def split: option.splits if_splits)

text \<open>One decision, in full.\<close>

lemma shouldBeProcessed_step:
  assumes k: "known_thread cd t" and h: "getHealthByClientID t cd = Some h" "0 < h"
    and last: "getLastRequestTimestampByClientID t cd = Some l"
    and d: "l \<noteq> 0 \<longrightarrow> time_difference now l = Some d"
  shows "\<exists>cd'. shouldBeProcessed fl rc now t cd =
      Some (0 < (if l = 0 then h else new_health fl rc h d), cd') \<and>
    getHealthByClientID t cd' = Some (if l = 0 then h else new_health fl rc h d) \<and>
    getLastRequestTimestampByClientID t cd' =
      Some (if 0 < (if l = 0 then h else new_health fl rc h d) then now else l) \<and>
    known_thread cd' = known_thread cd \<and>
    (\<forall>t'. t' \<noteq> t \<longrightarrow> getHealthByClientID t' cd' = getHealthByClientID t' cd \<and>
       getLastRequestTimestampByClientID t' cd' = getLastRequestTimestampByClientID t' cd)"
proof -
  let ?h = "if l = 0 then h else new_health fl rc h d"
  obtain a where a: "updateHealthByClientID t ?h cd = Some a" "getHealthByClientID t a = Some ?h"
    "known_thread a = known_thread cd" "\<forall>t'. t' \<noteq> t \<longrightarrow> getHealthByClientID t' a = getHealthByClientID t' cd"
    using health_store.put_known[OF k, of ?h] by blast
  have la: "getLastRequestTimestampByClientID t' a = getLastRequestTimestampByClientID t' cd" for t'
    by (rule health_time_independent(1)[OF a(1)])
  have ka: "known_thread a t" using k a(3) by simp
  obtain b where b: "updateLastRequestTimestampByClientID t now a = Some b"
    "getLastRequestTimestampByClientID t b = Some now" "known_thread b = known_thread a"
    "\<forall>t'. t' \<noteq> t \<longrightarrow> getLastRequestTimestampByClientID t' b = getLastRequestTimestampByClientID t' a"
    using time_store.put_known[OF ka, of now] by blast
  have hb: "getHealthByClientID t' b = getHealthByClientID t' a" for t'
    by (rule health_time_independent(2)[OF b(1)])
  have "shouldBeProcessed fl rc now t cd = (if ?h \<le> 0 then Some (False, a) else Some (True, b))"
    using h last d a(1) b(1) by (auto simp: shouldBeProcessed_def)
  then show ?thesis using a b hb la last by (cases "?h \<le> 0") (auto split: if_splits)
qed

lemma blocked_forever:
  "getHealthByClientID t cd = Some h \<Longrightarrow> h \<le> 0 \<Longrightarrow> shouldBeProcessed fl rc now t cd = Some (False, cd)"
  by (simp add: shouldBeProcessed_def)

end
