(* ===== verification/SafeOps.thy ===== *)
theory SafeOps
  imports Prelude
begin

text \<open>
  The saturating integer operations of \<^verbatim>\<open>modula/Components/Include/SafeOps.h\<close>. The
  templates are modelled at a signed integer type of \<open>n\<close> bits: arguments are mathematical
  integers in the range of that type, and an intermediate result that the type cannot hold is
  undefined behaviour in C++, which the model returns as \<^const>\<open>None\<close>. Division truncates
  towards zero.
\<close>

datatype OperationStatus = SUCCESS | OVERFLOW | UNDERFLOW | DIVISION_BY_ZERO

definition type_max :: "nat \<Rightarrow> int" where
  "type_max n = 2 ^ (n - 1) - 1"

definition type_lowest :: "nat \<Rightarrow> int" where
  "type_lowest n = - (2 ^ (n - 1))"

definition in_type :: "nat \<Rightarrow> int \<Rightarrow> bool" where
  "in_type n x \<longleftrightarrow> type_lowest n \<le> x \<and> x \<le> type_max n"

text \<open>A C++ arithmetic result at type \<open>n\<close>: undefined when the type cannot hold it.\<close>

definition arith :: "nat \<Rightarrow> int \<Rightarrow> int option" where
  "arith n x = (if in_type n x then Some x else None)"

definition trunc_div :: "int \<Rightarrow> int \<Rightarrow> int" where
  "trunc_div a b = sgn a * sgn b * (\<bar>a\<bar> div \<bar>b\<bar>)"

definition c_div :: "nat \<Rightarrow> int \<Rightarrow> int \<Rightarrow> int option" where
  "c_div n a b = (if b = 0 then None else arith n (trunc_div a b))"

definition Add :: "nat \<Rightarrow> int \<Rightarrow> int \<Rightarrow> (int \<times> OperationStatus) option" where
  "Add n firstArg secondArg =
     (if firstArg \<ge> 0 \<and> secondArg \<ge> 0 \<and> type_max n - firstArg < secondArg
      then Some (type_max n, OVERFLOW)
      else if firstArg < 0 \<and> secondArg < 0 \<and> type_lowest n - firstArg > secondArg
      then Some (type_lowest n, UNDERFLOW)
      else do { r \<leftarrow> arith n (firstArg + secondArg); Some (r, SUCCESS) })"

definition Subtract :: "nat \<Rightarrow> int \<Rightarrow> int \<Rightarrow> (int \<times> OperationStatus) option" where
  "Subtract n firstArg secondArg =
     (if firstArg \<ge> 0 \<and> secondArg < 0 \<and> firstArg - type_max n > secondArg
      then Some (type_max n, OVERFLOW)
      else if firstArg < 0 \<and> secondArg \<ge> 0 \<and> firstArg - type_lowest n < secondArg
      then Some (type_lowest n, UNDERFLOW)
      else do { r \<leftarrow> arith n (firstArg - secondArg); Some (r, SUCCESS) })"

text \<open>The guards of \<^verbatim>\<open>Multiply\<close> divide a limit by the first argument before multiplying.\<close>

definition Multiply :: "nat \<Rightarrow> int \<Rightarrow> int \<Rightarrow> (int \<times> OperationStatus) option" where
  "Multiply n firstArg secondArg =
     (if firstArg > 0 \<and> secondArg > 0 then
        do { q \<leftarrow> c_div n (type_max n) firstArg;
             if q < secondArg then Some (type_max n, OVERFLOW)
             else do { r \<leftarrow> arith n (firstArg * secondArg); Some (r, SUCCESS) } }
      else if firstArg < 0 \<and> secondArg < 0 then
        do { q \<leftarrow> c_div n (type_max n) firstArg;
             if q > secondArg then Some (type_max n, OVERFLOW)
             else do { r \<leftarrow> arith n (firstArg * secondArg); Some (r, SUCCESS) } }
      else if firstArg > 0 \<and> secondArg < 0 then
        do { q \<leftarrow> c_div n (type_lowest n) firstArg;
             if q > secondArg then Some (type_lowest n, UNDERFLOW)
             else do { r \<leftarrow> arith n (firstArg * secondArg); Some (r, SUCCESS) } }
      else if firstArg < 0 \<and> secondArg > 0 then
        do { q \<leftarrow> c_div n (type_lowest n) firstArg;
             if q < secondArg then Some (type_lowest n, UNDERFLOW)
             else do { r \<leftarrow> arith n (firstArg * secondArg); Some (r, SUCCESS) } }
      else do { r \<leftarrow> arith n (firstArg * secondArg); Some (r, SUCCESS) })"

text \<open>
  At an integer type no value lies strictly between 0 and 1 or between -1 and 0, so the four
  range guards of \<^verbatim>\<open>Divide\<close> are never taken; they are kept as the source has them.
\<close>

definition Divide :: "nat \<Rightarrow> int \<Rightarrow> int \<Rightarrow> (int \<times> OperationStatus) option" where
  "Divide n firstArg secondArg =
     (if secondArg = 0 then Some (firstArg, DIVISION_BY_ZERO)
      else if secondArg > 0 \<and> secondArg < 1 \<and> firstArg > 0 \<and> type_max n * secondArg < firstArg
      then Some (type_max n, OVERFLOW)
      else if secondArg > 0 \<and> secondArg < 1 \<and> firstArg < 0 \<and> type_lowest n * secondArg > firstArg
      then Some (type_lowest n, UNDERFLOW)
      else if secondArg < 0 \<and> secondArg > -1 \<and> firstArg > 0 \<and> type_lowest n * secondArg < firstArg
      then Some (type_lowest n, UNDERFLOW)
      else if secondArg < 0 \<and> secondArg > -1 \<and> firstArg < 0 \<and> type_max n * secondArg > firstArg
      then Some (type_max n, OVERFLOW)
      else do { r \<leftarrow> c_div n firstArg secondArg; Some (r, SUCCESS) })"

text \<open>What each operation is meant to compute: the exact result, clamped into the type.\<close>

definition saturate :: "nat \<Rightarrow> int \<Rightarrow> int \<times> OperationStatus" where
  "saturate n x =
     (if x > type_max n then (type_max n, OVERFLOW)
      else if x < type_lowest n then (type_lowest n, UNDERFLOW)
      else (x, SUCCESS))"

section \<open>Correctness\<close>

lemma type_limits: "type_lowest n = - type_max n - 1" "0 \<le> type_max n"
  by (auto simp: type_lowest_def type_max_def)

lemma Add_saturates:
  "in_type n a \<Longrightarrow> in_type n b \<Longrightarrow> Add n a b = Some (saturate n (a + b))"
  using type_limits[of n]
  by (auto simp: Add_def saturate_def arith_def in_type_def)

lemma Subtract_saturates:
  "in_type n a \<Longrightarrow> in_type n b \<Longrightarrow> Subtract n a b = Some (saturate n (a - b))"
  using type_limits[of n]
  by (auto simp: Subtract_def saturate_def arith_def in_type_def)

lemma trunc_div_pos: "b > 0 \<Longrightarrow> a \<ge> 0 \<Longrightarrow> trunc_div a b = a div b"
  by (cases "a = 0") (auto simp: trunc_div_def)

lemma trunc_div_neg_neg: "b < 0 \<Longrightarrow> a < 0 \<Longrightarrow> trunc_div a b = (- a) div (- b)"
  by (auto simp: trunc_div_def)

lemma trunc_div_pos_neg: "b < 0 \<Longrightarrow> a \<ge> 0 \<Longrightarrow> trunc_div a b = - (a div (- b))"
  by (cases "a = 0") (auto simp: trunc_div_def)

lemma trunc_div_neg_pos: "b > 0 \<Longrightarrow> a < 0 \<Longrightarrow> trunc_div a b = - ((- a) div b)"
  by (auto simp: trunc_div_def)

lemma div_less_iff_mult: "(0::int) < b \<Longrightarrow> a div b < c \<longleftrightarrow> a < c * b"
proof (intro iffI)
  assume b: "0 < b" and "a div b < c"
  then have "(a div b + 1) * b \<le> c * b" by (intro mult_right_mono) auto
  moreover have "a < (a div b + 1) * b"
    using pos_mod_bound[OF b, of a] div_mult_mod_eq[of a b] distrib_right[of "a div b" 1 b]
    by linarith
  ultimately show "a < c * b" by simp
next
  assume b: "0 < b" and lt: "a < c * b"
  have "a div b * b \<le> a"
    using pos_mod_sign[OF b, of a] div_mult_mod_eq[of a b] by linarith
  with lt have "a div b * b < c * b" by simp
  with b show "a div b < c" by simp
qed

lemma quotient_bounds: "0 < b \<Longrightarrow> 0 \<le> a \<Longrightarrow> 0 \<le> a div b \<and> a div b \<le> (a::int)"
  by (simp add: pos_imp_zdiv_nonneg_iff int_div_less_self div_le_dividend zdiv_mono2[of a 1 b, simplified])

lemma quotient_in_type:
  "0 < b \<Longrightarrow> 0 \<le> a \<Longrightarrow> a \<le> type_max n \<Longrightarrow> in_type n (a div b) \<and> in_type n (- (a div b))"
  using quotient_bounds[of b a] type_limits[of n] by (auto simp: in_type_def)

lemma Multiply_pos_pos:
  assumes "0 < a" "0 < b"
  shows "Multiply n a b = Some (saturate n (a * b))"
proof -
  have q: "c_div n (type_max n) a = Some (type_max n div a)"
    using assms type_limits[of n] quotient_in_type[of a "type_max n" n]
    by (simp add: c_div_def arith_def trunc_div_pos)
  have "0 < a * b" using assms by simp
  then have "\<not> a * b < type_lowest n" using type_limits[of n] by linarith
  moreover have "type_max n div a < b \<longleftrightarrow> type_max n < a * b"
    using assms by (simp add: div_less_iff_mult mult.commute)
  ultimately show ?thesis
    using assms q type_limits[of n]
    by (auto simp: Multiply_def saturate_def arith_def in_type_def)
qed

lemma Multiply_neg_neg:
  assumes "a < 0" "b < 0"
  shows "Multiply n a b = Some (saturate n (a * b))"
proof -
  have q: "c_div n (type_max n) a = Some (- (type_max n div (- a)))"
    using assms type_limits[of n] quotient_in_type[of "- a" "type_max n" n]
    by (simp add: c_div_def arith_def trunc_div_pos_neg)
  have "0 < a * b" using assms by (simp add: mult_neg_neg)
  moreover have "- (type_max n div (- a)) > b \<longleftrightarrow> type_max n < a * b"
    using assms div_less_iff_mult[of "- a" "type_max n" "- b"] by (auto simp: mult.commute)
  ultimately show ?thesis
    using assms q type_limits[of n]
    by (auto simp: Multiply_def saturate_def arith_def in_type_def)
qed

lemma Multiply_pos_neg:
  assumes "0 < a" "b < 0"
  shows "Multiply n a b = Some (saturate n (a * b))"
proof -
  let ?m = "type_max n + 1"
  have t: "trunc_div (type_lowest n) a = - (?m div a)"
    using assms type_limits[of n] by (simp add: trunc_div_neg_pos add.commute)
  have "0 \<le> ?m div a" "?m div a \<le> ?m"
    using quotient_bounds[of a ?m] assms type_limits[of n] by auto
  then have q: "c_div n (type_lowest n) a = Some (- (?m div a))"
    using assms t type_limits[of n] by (auto simp: c_div_def arith_def in_type_def)
  have "a * b < 0" using assms by (simp add: mult_pos_neg)
  moreover have "- (?m div a) > b \<longleftrightarrow> a * b < type_lowest n"
    using assms div_less_iff_mult[of a ?m "- b"] type_limits[of n] by (auto simp: mult.commute)
  ultimately show ?thesis
    using assms q type_limits[of n]
    by (auto simp: Multiply_def saturate_def arith_def in_type_def)
qed

text \<open>With a first argument of -1 the guard itself divides the lowest value by -1.\<close>

lemma Multiply_neg_pos:
  assumes "a < - 1" "0 < b" "0 < type_max n"
  shows "Multiply n a b = Some (saturate n (a * b))"
proof -
  let ?m = "type_max n + 1"
  have t: "trunc_div (type_lowest n) a = ?m div (- a)"
    using assms type_limits[of n] by (simp add: trunc_div_neg_neg add.commute)
  have "?m div (- a) \<le> ?m div 2"
    using assms type_limits[of n] by (intro zdiv_mono2) auto
  moreover have "?m div 2 \<le> type_max n" using assms by linarith
  moreover have "0 \<le> ?m div (- a)"
    using quotient_bounds[of "- a" ?m] assms type_limits[of n] by auto
  ultimately have q: "c_div n (type_lowest n) a = Some (?m div (- a))"
    using assms t type_limits[of n] by (auto simp: c_div_def arith_def in_type_def)
  have "a * b < 0" using assms by (simp add: mult_neg_pos)
  moreover have "?m div (- a) < b \<longleftrightarrow> a * b < type_lowest n"
    using assms div_less_iff_mult[of "- a" ?m b] type_limits[of n] by (auto simp: mult.commute)
  ultimately show ?thesis
    using assms q type_limits[of n]
    by (auto simp: Multiply_def saturate_def arith_def in_type_def)
qed

lemma Multiply_zero: "a = 0 \<or> b = 0 \<Longrightarrow> Multiply n a b = Some (saturate n (a * b))"
  using type_limits[of n] by (auto simp: Multiply_def saturate_def arith_def in_type_def)

lemma Multiply_minus_one_undefined: "0 < b \<Longrightarrow> Multiply n (- 1) b = None"
  using type_limits[of n]
  by (simp add: Multiply_def c_div_def trunc_div_neg_neg arith_def in_type_def)

end
