(* ===== verification/AuxRoutines.thy ===== *)
theory AuxRoutines
  imports SafeOps
begin

text \<open>
  Helpers of \<^verbatim>\<open>modula/CoreModules/AuxRoutines.cpp\<close>: the generator of request handles
  and the small cache \<^verbatim>\<open>MinLRUCache\<close> that remembers recently untuned handles. The
  unordered set of the cache is a list without duplicates.
\<close>

section \<open>Handles\<close>

text \<open>The static counter is the state; the answer is -1 once it cannot grow.\<close>

definition generateUniqueHandle :: "int \<Rightarrow> (int \<times> int) option" where
  "generateUniqueHandle handleGenerator =
     (case Add 64 handleGenerator 1 of
        None \<Rightarrow> None
      | Some (nextHandle, opStatus) \<Rightarrow>
          if opStatus = SUCCESS then Some (nextHandle, nextHandle) else Some (-1, handleGenerator))"

fun generate_handles :: "nat \<Rightarrow> int \<Rightarrow> (int list \<times> int) option" where
  "generate_handles 0 g = Some ([], g)"
| "generate_handles (Suc n) g =
     (case generateUniqueHandle g of None \<Rightarrow> None
      | Some (h, g') \<Rightarrow> map_option (\<lambda>(hs, g''). (h # hs, g'')) (generate_handles n g'))"

lemma generateUniqueHandle_step:
  "0 \<le> g \<Longrightarrow> g < 2 ^ 63 - 1 \<Longrightarrow> generateUniqueHandle g = Some (g + 1, g + 1)"
  by (simp add: generateUniqueHandle_def Add_def type_max_def type_lowest_def arith_def in_type_def)

lemma generateUniqueHandle_exhausted: "generateUniqueHandle (2 ^ 63 - 1) = Some (-1, 2 ^ 63 - 1)"
  by (simp add: generateUniqueHandle_def Add_def type_max_def)

lemma generate_handles_spec:
  "0 \<le> g \<Longrightarrow> g + int n \<le> 2 ^ 63 - 1 \<Longrightarrow>
     generate_handles n g = Some (map (\<lambda>i. g + 1 + int i) [0..<n], g + int n)"
proof (induction n arbitrary: g)
  case (Suc n)
  have "generate_handles n (g + 1) = Some (map (\<lambda>i. g + 1 + 1 + int i) [0..<n], g + 1 + int n)"
    using Suc.prems by (intro Suc.IH) auto
  moreover have "map (\<lambda>i. g + 1 + int i) [0..<Suc n] = (g + 1) # map (\<lambda>i. g + 1 + 1 + int i) [0..<n]"
    by (rule nth_equalityI) (simp_all add: nth_Cons' del: upt_Suc)
  ultimately show ?case using Suc.prems generateUniqueHandle_step[of g] by simp
qed simp

section \<open>The cache\<close>

record min_lru_cache =
  mMaxSize :: nat
  mDataSet :: "i64 list"
  mRecencyQueue :: "i64 list"

definition MinLRUCache_init :: "nat \<Rightarrow> min_lru_cache" where
  "MinLRUCache_init maxSize = \<lparr>mMaxSize = maxSize, mDataSet = [], mRecencyQueue = []\<rparr>"

text \<open>\<^verbatim>\<open>front\<close> of an empty queue is undefined.\<close>

definition lru_insert :: "i64 \<Rightarrow> min_lru_cache \<Rightarrow> min_lru_cache option" where
  "lru_insert data c =
     (case (if length (mDataSet c) \<ge> mMaxSize c
            then (case mRecencyQueue c of [] \<Rightarrow> None
                  | oldest # rest \<Rightarrow> Some (c\<lparr>mRecencyQueue := rest, mDataSet := removeAll oldest (mDataSet c)\<rparr>))
            else Some c) of
        None \<Rightarrow> None
      | Some c' \<Rightarrow> Some (c'\<lparr>mDataSet := List.insert data (mDataSet c'), mRecencyQueue := mRecencyQueue c' @ [data]\<rparr>))"

definition isPresent :: "i64 \<Rightarrow> min_lru_cache \<Rightarrow> bool" where
  "isPresent data c \<longleftrightarrow> data \<in> set (mDataSet c)"

text \<open>
  The set is covered by the queue, and while it is full the queue is not empty, so an insertion
  never reads an empty queue.
\<close>

definition lru_inv :: "min_lru_cache \<Rightarrow> bool" where
  "lru_inv c \<longleftrightarrow> 0 < mMaxSize c \<and> distinct (mDataSet c) \<and> set (mDataSet c) \<subseteq> set (mRecencyQueue c) \<and>
     length (mDataSet c) \<le> mMaxSize c"

lemma lru_init_inv: "0 < n \<Longrightarrow> lru_inv (MinLRUCache_init n)"
  by (simp add: lru_inv_def MinLRUCache_init_def)

lemma lru_insert_spec:
  assumes "lru_inv c"
  shows "\<exists>c'. lru_insert x c = Some c' \<and> isPresent x c' \<and> mMaxSize c' = mMaxSize c \<and>
    distinct (mDataSet c') \<and> set (mDataSet c') \<subseteq> set (mRecencyQueue c') \<and>
    (\<forall>y. isPresent y c \<and> length (mDataSet c) < mMaxSize c \<longrightarrow> isPresent y c')"
proof (cases "length (mDataSet c) \<ge> mMaxSize c")
  case False
  with assms show ?thesis by (auto simp: lru_insert_def lru_inv_def isPresent_def)
next
  case True
  with assms obtain q qs where q: "mRecencyQueue c = q # qs"
    by (cases "mRecencyQueue c") (auto simp: lru_inv_def)
  with True assms show ?thesis
    by (auto simp: lru_insert_def lru_inv_def isPresent_def distinct_removeAll)
qed

text \<open>
  The bound on the set survives only if the evicted element was in the set: a repeated insertion
  puts a duplicate into the queue, and when the queue later yields it the eviction removes an
  element that has been used since, or none at all.
\<close>

lemma lru_insert_bound:
  assumes "lru_inv c" "length (mDataSet c) < mMaxSize c \<or> hd (mRecencyQueue c) \<in> set (mDataSet c)"
  shows "\<exists>c'. lru_insert x c = Some c' \<and> lru_inv c'"
proof (cases "length (mDataSet c) \<ge> mMaxSize c")
  case False
  with assms show ?thesis by (auto simp: lru_insert_def lru_inv_def List.insert_def)
next
  case True
  with assms obtain q qs where q: "mRecencyQueue c = q # qs"
    by (cases "mRecencyQueue c") (auto simp: lru_inv_def)
  with True assms have "q \<in> set (mDataSet c)" by auto
  then have "length (removeAll q (mDataSet c)) < length (mDataSet c)"
    by (rule length_removeAll_less)
  with True assms q show ?thesis
    by (auto simp: lru_insert_def lru_inv_def distinct_removeAll List.insert_def)
qed

text \<open>A cache of two that ends up with three elements.\<close>

lemma lru_bound_lost:
  "foldM lru_insert [1, 1, 2, 3, 4] (MinLRUCache_init 2) =
     Some \<lparr>mMaxSize = 2, mDataSet = [4, 3, 2], mRecencyQueue = [2, 3, 4]\<rparr>"
  by (simp add: lru_insert_def MinLRUCache_init_def List.insert_def)

end
