(* ===== verification/RequestManager.thy ===== *)
theory RequestManager
  imports Request ClientData AuxRoutines "HOL-Library.AList"
begin

text \<open>
  \<^verbatim>\<open>resource-tuner/core/RequestManager.cpp\<close>: the map from handles to the tune requests
  the daemon has accepted, with a processing status each, and the test for duplicates. Request
  objects live in a store of their own (\<open>req_store\<close>), their resource nodes in the heap of
  \<open>Request\<close>; an address without an object is a fault. The unordered map is an association
  list. An operation runs under the map's lock, so it is one step of the model.
\<close>

type_synonym req_store = "addr \<Rightarrow> request option"

definition REQ_UNCHANGED :: i8 where "REQ_UNCHANGED = 1"
definition REQ_CANCELLED :: i8 where "REQ_CANCELLED = 2"
definition REQ_COMPLETED :: i8 where "REQ_COMPLETED = 4"
definition REQ_NOT_FOUND :: i8 where "REQ_NOT_FOUND = 8"

lemmas processing_status = REQ_UNCHANGED_def REQ_CANCELLED_def REQ_COMPLETED_def REQ_NOT_FOUND_def

record request_manager =
  mTotalRequestServed :: i64
  mActiveTune :: "addr list"
  mPendingTune :: "addr list"
  mActiveRequests :: "(i64 \<times> addr \<times> i8) list"
  mUntuneCache :: min_lru_cache

definition RequestManager_init :: request_manager where
  "RequestManager_init = \<lparr>mTotalRequestServed = 0, mActiveTune = [], mPendingTune = [],
     mActiveRequests = [], mUntuneCache = MinLRUCache_init 30\<rparr>"

definition has_flag :: "i8 \<Rightarrow> i8 \<Rightarrow> bool" where
  "has_flag status flag \<longleftrightarrow> status AND flag \<noteq> 0"

section \<open>Duplicates\<close>

fun same_values :: "nat list \<Rightarrow> resource \<Rightarrow> resource \<Rightarrow> bool option" where
  "same_values [] res1 res2 = Some True"
| "same_values (i # is) res1 res2 = do {
     a \<leftarrow> getValueAt res1 (word_of_nat i);
     b \<leftarrow> getValueAt res2 (word_of_nat i);
     (if a \<noteq> b then Some False else same_values is res1 res2) }"

definition resourceCmpPolicy :: "resource dl_policy" where
  "resourceCmpPolicy h src target = do {
     res1 \<leftarrow> dl_data h src;
     res2 \<leftarrow> dl_data h target;
     (if mResCode res1 \<noteq> mResCode res2 then Some False
      else if mResInfo res1 \<noteq> mResInfo res2 then Some False
      else if mOptionalInfo res1 \<noteq> mOptionalInfo res2 then Some False
      else if getValuesCount res1 \<noteq> getValuesCount res2 then Some False
      else if getValuesCount res1 = 1 then same_values [0] res1 res2
      else same_values [0 ..< nat (sint (getValuesCount res1))] res1 res2) }"

text \<open>
  A node's resource is part of the node here, so the null test on it cannot fail; a node that is
  not in the heap is a fault.
\<close>

definition isSane :: "res_heap \<Rightarrow> request option \<Rightarrow> bool option" where
  "isSane h request =
     (case request of None \<Rightarrow> Some False
      | Some req \<Rightarrow>
          if getRequestType req \<noteq> REQ_RESOURCE_TUNING \<and> getRequestType req \<noteq> REQ_RESOURCE_RETUNING
             \<and> getRequestType req \<noteq> REQ_RESOURCE_UNTUNING then Some False
          else if sint (getHandle req) \<le> 0 \<or> getResourcesCount req < 0 \<or> sint (getPriority req) < 0
             \<or> sint (getClientPID req) < 0 \<or> sint (getClientTID req) < 0 then Some False
          else (case getResDlMgr req of None \<Rightarrow> Some False
            | Some l \<Rightarrow> map_option (\<lambda>_. True)
                (dl_iterate (mLinkerInUse l) (\<lambda>s. s) (\<lambda>a h. map_option (\<lambda>_. h) (dl_data h a)) (mHead l) h)))"

definition getRequestProcessingStatus :: "i64 \<Rightarrow> request_manager \<Rightarrow> i8" where
  "getRequestProcessingStatus handle rm =
     (case map_of (mActiveRequests rm) handle of None \<Rightarrow> REQ_NOT_FOUND | Some (a, status) \<Rightarrow> status)"

text \<open>One candidate handle: \<open>Some False\<close> stands for \<^verbatim>\<open>continue\<close>.\<close>

definition match_handle ::
    "res_heap \<Rightarrow> req_store \<Rightarrow> request \<Rightarrow> client_data \<Rightarrow> request_manager \<Rightarrow> i64 \<Rightarrow> bool option" where
  "match_handle h objs req cd rm handle =
     (let status = getRequestProcessingStatus handle rm in
      if status = REQ_NOT_FOUND then Some False
      else if getClientLevelByID (getClientPID req) cd = PERMISSION_SYSTEM
         \<and> (has_flag status REQ_CANCELLED \<or> has_flag status REQ_COMPLETED) then Some False
      else (case map_of (mActiveRequests rm) handle of None \<Rightarrow> Some False
        | Some (a, _) \<Rightarrow> do {
            target \<leftarrow> objs a;
            (if getSource req \<noteq> getSource target then Some False
             else if getResourcesCount req \<noteq> getResourcesCount target then Some False
             else do {
               l \<leftarrow> getResDlMgr req;
               matchAgainstHelper h l (getResDlMgr target) (Some resourceCmpPolicy) }) }))"

fun match_any :: "(i64 \<Rightarrow> bool option) \<Rightarrow> i64 list \<Rightarrow> bool option" where
  "match_any f [] = Some False"
| "match_any f (x # xs) = do { b \<leftarrow> f x; (if b then Some True else match_any f xs) }"

definition requestMatch ::
    "res_heap \<Rightarrow> req_store \<Rightarrow> request \<Rightarrow> request_manager \<Rightarrow> client_data \<Rightarrow> (bool \<times> client_data) option" where
  "requestMatch h objs req rm cd =
     (case getRequestsByClientID (getClientTID req) cd of
        (None, cd') \<Rightarrow> Some (False, cd')
      | (Some clientHandles, cd') \<Rightarrow>
          if length clientHandles = 0 then Some (False, cd')
          else map_option (\<lambda>b. (b, cd')) (match_any (match_handle h objs req cd' rm) clientHandles))"

section \<open>The map\<close>

definition verifyHandle :: "i64 \<Rightarrow> request_manager \<Rightarrow> bool" where
  "verifyHandle handle rm \<longleftrightarrow> map_of (mActiveRequests rm) handle \<noteq> None"

definition getRequestFromMap :: "i64 \<Rightarrow> request_manager \<Rightarrow> addr option \<times> i8" where
  "getRequestFromMap handle rm =
     (case map_of (mActiveRequests rm) handle of None \<Rightarrow> (None, REQ_CANCELLED) | Some (a, s) \<Rightarrow> (Some a, s))"

definition shouldRequestBeAdded ::
    "nat \<Rightarrow> res_heap \<Rightarrow> req_store \<Rightarrow> request option \<Rightarrow> request_manager \<Rightarrow> client_data \<Rightarrow> (bool \<times> client_data) option" where
  "shouldRequestBeAdded mMaxConcurrentRequests h objs request rm cd = do {
     sane \<leftarrow> isSane h request;
     (if \<not> sane then Some (False, cd)
      else if length (mActiveRequests rm) \<ge> mMaxConcurrentRequests then Some (False, cd)
      else do {
        req \<leftarrow> request;
        (duplicateFound, cd) \<leftarrow> requestMatch h objs req rm cd;
        Some (\<not> duplicateFound, cd) }) }"

text \<open>A handle that is present already loses its entry.\<close>

definition addRequest ::
    "nat \<Rightarrow> addr \<times> request \<Rightarrow> request_manager \<Rightarrow> client_data \<Rightarrow> bool \<times> request_manager \<times> client_data" where
  "addRequest mMaxConcurrentRequests request rm cd =
     (let handle = getHandle (snd request) in
      if length (mActiveRequests rm) \<ge> mMaxConcurrentRequests then (False, rm, cd)
      else if map_of (mActiveRequests rm) handle \<noteq> None
      then (False, rm\<lparr>mActiveRequests := AList.delete handle (mActiveRequests rm)\<rparr>, cd)
      else if isPresent handle (mUntuneCache rm) then (False, rm, cd)
      else (True,
            rm\<lparr>mTotalRequestServed := mTotalRequestServed rm + 1,
               mActiveRequests := AList.update handle (fst request, REQ_UNCHANGED) (mActiveRequests rm)\<rparr>,
            insertRequestByClientId (getClientTID (snd request)) handle cd))"

definition removeRequest ::
    "request \<Rightarrow> request_manager \<Rightarrow> client_data \<Rightarrow> (request_manager \<times> client_data) option" where
  "removeRequest req rm cd = do {
     cd \<leftarrow> deleteRequestByClientId (getClientTID req) (getHandle req) cd;
     Some (rm\<lparr>mActiveRequests := AList.delete (getHandle req) (mActiveRequests rm)\<rparr>, cd) }"

definition getPendingList :: "request_manager \<Rightarrow> addr list" where
  "getPendingList rm = mPendingTune rm"

definition set_flag :: "i64 \<Rightarrow> i8 \<Rightarrow> request_manager \<Rightarrow> request_manager" where
  "set_flag handle flag rm =
     (case map_of (mActiveRequests rm) handle of None \<Rightarrow> rm
      | Some (a, s) \<Rightarrow> rm\<lparr>mActiveRequests := AList.update handle (a, s OR flag) (mActiveRequests rm)\<rparr>)"

definition disableRequestProcessing :: "i64 \<Rightarrow> request_manager \<Rightarrow> (bool \<times> request_manager) option" where
  "disableRequestProcessing handle rm =
     (if map_of (mActiveRequests rm) handle = None
      then map_option (\<lambda>c. (False, rm\<lparr>mUntuneCache := c\<rparr>)) (lru_insert handle (mUntuneCache rm))
      else Some (True, set_flag handle REQ_CANCELLED rm))"

text \<open>The size is narrowed to 32 bits on the way.\<close>

definition getActiveReqeustsCount :: "request_manager \<Rightarrow> i64" where
  "getActiveReqeustsCount rm = scast (word_of_nat (length (mActiveRequests rm)) :: i32)"

definition markRequestAsComplete :: "i64 \<Rightarrow> request_manager \<Rightarrow> request_manager" where
  "markRequestAsComplete handle rm = set_flag handle REQ_COMPLETED rm"

definition clearPending :: "request_manager \<Rightarrow> request_manager" where
  "clearPending rm = rm\<lparr>mPendingTune := []\<rparr>"

section \<open>What counts as a duplicate\<close>

text \<open>Every value of the resource can be read.\<close>

definition readable :: "resource \<Rightarrow> bool" where
  "readable r \<longleftrightarrow> list_all (\<lambda>i. getValueAt r (word_of_nat i) \<noteq> None) [0 ..< nat (sint (mNumValues r))]"

lemma readable_getValueAt: "readable r \<Longrightarrow> getValueAt r i \<noteq> None"
proof (cases "in_values r i")
  case True
  assume r: "readable r"
  from True have "nat (sint i) < nat (sint (mNumValues r))" by (auto simp: in_values_def)
  with r have "getValueAt r (word_of_nat (nat (sint i))) \<noteq> None" by (simp add: readable_def list_all_iff)
  moreover from True have "word_of_nat (nat (sint i)) = i"
    using of_nat_nat[of "sint i", where 'a = "32 word"] by (simp add: in_values_def)
  ultimately show ?thesis by simp
qed (auto simp: getValueAt_def in_values_def)

definition same_resource :: "resource \<Rightarrow> resource \<Rightarrow> bool" where
  "same_resource r s \<longleftrightarrow> mResCode r = mResCode s \<and> mResInfo r = mResInfo s \<and> mOptionalInfo r = mOptionalInfo s
     \<and> mNumValues r = mNumValues s
     \<and> list_all (\<lambda>i. getValueAt r (word_of_nat i) = getValueAt s (word_of_nat i)) [0 ..< nat (sint (mNumValues r))]"

lemma same_values_spec:
  "readable r \<Longrightarrow> readable s \<Longrightarrow>
     same_values is r s = Some (list_all (\<lambda>i. getValueAt r (word_of_nat i) = getValueAt s (word_of_nat i)) is)"
proof (induction "is")
  case (Cons i "is")
  with readable_getValueAt[of r "word_of_nat i"] readable_getValueAt[of s "word_of_nat i"]
  obtain a b where "getValueAt r (word_of_nat i) = Some a" "getValueAt s (word_of_nat i) = Some b" by auto
  with Cons show ?case by simp
qed simp

definition data_at :: "res_heap \<Rightarrow> addr \<Rightarrow> resource" where
  "data_at h a = the (dl_data h a)"

definition nodes_readable :: "res_heap \<Rightarrow> addr list \<Rightarrow> bool" where
  "nodes_readable h xs \<longleftrightarrow> list_all (\<lambda>a. case dl_data h a of None \<Rightarrow> False | Some r \<Rightarrow> readable r) xs"

lemma case_option_ex: "(case x of None \<Rightarrow> False | Some r \<Rightarrow> P r) \<longleftrightarrow> (\<exists>r. x = Some r \<and> P r)"
  by (cases x) auto

lemma nodes_readable_iff: "nodes_readable h xs \<longleftrightarrow> (\<forall>a\<in>set xs. \<exists>r. dl_data h a = Some r \<and> readable r)"
  unfolding nodes_readable_def case_option_ex list_all_iff ..

lemma nodes_readableD: "nodes_readable h xs \<Longrightarrow> a \<in> set xs \<Longrightarrow> \<exists>r. dl_data h a = Some r \<and> readable r"
  by (simp add: nodes_readable_iff)

lemma resourceCmpPolicy_spec:
  assumes "nodes_readable h xs" "nodes_readable h ys" "a \<in> set xs" "b \<in> set ys"
  shows "resourceCmpPolicy h a b = Some (same_resource (data_at h a) (data_at h b))"
proof -
  from assms obtain r s where r: "dl_data h a = Some r" "readable r" and s: "dl_data h b = Some s" "readable s"
    by (meson nodes_readableD)
  have one: "nat (sint (mNumValues r)) = 1" if "mNumValues r = 1" using that by simp
  show ?thesis
    using r s same_values_spec[OF r(2) s(2)] one
    by (auto simp: resourceCmpPolicy_def same_resource_def data_at_def getValuesCount_def)
qed

definition req_ok :: "res_heap \<Rightarrow> request \<Rightarrow> addr list \<Rightarrow> bool" where
  "req_ok h req xs \<longleftrightarrow> req_list h req xs \<and> nodes_readable h xs"

definition same_resources :: "res_heap \<Rightarrow> addr list \<Rightarrow> addr list \<Rightarrow> bool" where
  "same_resources h xs ys \<longleftrightarrow> list_all2 (\<lambda>a b. same_resource (data_at h a) (data_at h b)) xs ys"

lemma match_resources:
  assumes "req_ok h req xs" "req_ok h target ys" "getResDlMgr req = Some l"
  shows "matchAgainstHelper h l (getResDlMgr target) (Some resourceCmpPolicy) =
    Some (getResDlMgr target \<noteq> None \<and> same_resources h xs ys)"
proof (cases "getResDlMgr target")
  case (Some t)
  with assms have "dl_list h l xs" "dl_list h t ys" "nodes_readable h xs" "nodes_readable h ys"
    by (auto simp: req_ok_def req_list_def getResDlMgr_def)
  then have "matchAgainstHelper h l (Some t) (Some resourceCmpPolicy) =
      Some (list_all2 (\<lambda>a b. same_resource (data_at h a) (data_at h b)) xs ys)"
    by (intro matchAgainstHelper_list) (simp_all add: resourceCmpPolicy_spec)
  with Some show ?thesis by (simp add: same_resources_def)
qed (simp add: matchAgainstHelper_def)

lemma isSane_spec:
  assumes "req_ok h req xs"
  shows "isSane h (Some req) = Some (getResDlMgr req \<noteq> None \<and> 0 < sint (getHandle req) \<and> 0 \<le> sint (getPriority req)
    \<and> 0 \<le> sint (getClientPID req) \<and> 0 \<le> sint (getClientTID req)
    \<and> getRequestType req \<in> {REQ_RESOURCE_TUNING, REQ_RESOURCE_RETUNING, REQ_RESOURCE_UNTUNING})"
proof (cases "getResDlMgr req")
  case (Some l)
  with assms have l: "dl_list h l xs" and rd: "nodes_readable h xs" by (auto simp: req_ok_def req_list_def getResDlMgr_def)
  have "dl_iterate (mLinkerInUse l) (\<lambda>s. s) (\<lambda>a h. map_option (\<lambda>_. h) (dl_data h a)) (mHead l) h
      = foldM (\<lambda>a h. map_option (\<lambda>_. h) (dl_data h a)) xs h"
    by (intro dl_iterate_list[where hp = "\<lambda>s. s", OF l]) auto
  also have "\<dots> = Some h"
    using rd by (induction xs) (auto simp: nodes_readable_iff)
  finally have "dl_iterate (mLinkerInUse l) (\<lambda>s. s) (\<lambda>a h. map_option (\<lambda>_. h) (dl_data h a)) (mHead l) h = Some h" .
  moreover have "0 \<le> getResourcesCount req" using assms req_list_count[of h req xs] by (simp add: req_ok_def)
  ultimately show ?thesis using Some by (auto simp: isSane_def)
qed (auto simp: isSane_def)

text \<open>One handle of the client against the new request, when the map is sound.\<close>

definition duplicates ::
    "res_heap \<Rightarrow> req_store \<Rightarrow> (addr \<Rightarrow> addr list) \<Rightarrow> request \<Rightarrow> addr list \<Rightarrow> client_data \<Rightarrow> request_manager \<Rightarrow> i64 \<Rightarrow> bool" where
  "duplicates h objs nodes req xs cd rm handle \<longleftrightarrow>
     (case map_of (mActiveRequests rm) handle of None \<Rightarrow> False
      | Some (a, status) \<Rightarrow>
          (case objs a of None \<Rightarrow> False
           | Some target \<Rightarrow>
               \<not> (getClientLevelByID (getClientPID req) cd = PERMISSION_SYSTEM
                   \<and> (has_flag status REQ_CANCELLED \<or> has_flag status REQ_COMPLETED))
               \<and> getSource req = getSource target \<and> getResDlMgr target \<noteq> None
               \<and> same_resources h xs (nodes a)))"

definition map_sound :: "res_heap \<Rightarrow> req_store \<Rightarrow> (addr \<Rightarrow> addr list) \<Rightarrow> request_manager \<Rightarrow> bool" where
  "map_sound h objs nodes rm \<longleftrightarrow>
     (\<forall>(handle, a, status)\<in>set (mActiveRequests rm). status \<noteq> REQ_NOT_FOUND \<and>
        (\<exists>target. objs a = Some target \<and> req_ok h target (nodes a)))"

lemma match_handle_spec:
  assumes "map_sound h objs nodes rm" "req_ok h req xs" "getResDlMgr req = Some l"
  shows "match_handle h objs req cd rm handle = Some (duplicates h objs nodes req xs cd rm handle)"
proof (cases "map_of (mActiveRequests rm) handle")
  case None
  then show ?thesis by (simp add: match_handle_def duplicates_def getRequestProcessingStatus_def)
next
  case (Some p)
  obtain a status where p: "p = (a, status)" by (cases p)
  with Some assms(1) obtain target where t: "status \<noteq> REQ_NOT_FOUND" "objs a = Some target" "req_ok h target (nodes a)"
    by (fastforce simp: map_sound_def dest: map_of_SomeD)
  have "getResourcesCount req = int (length xs)" "getResourcesCount target = int (length (nodes a))"
    using assms(2) t(3) req_list_count by (auto simp: req_ok_def)
  moreover have "same_resources h xs (nodes a) \<Longrightarrow> length xs = length (nodes a)"
    by (simp add: same_resources_def list_all2_lengthD)
  ultimately show ?thesis
    using Some p t match_resources[OF assms(2) t(3) assms(3)] assms(3)
    by (auto simp: match_handle_def duplicates_def getRequestProcessingStatus_def Let_def)
qed

lemma match_any_spec: "(\<And>x. x \<in> set xs \<Longrightarrow> f x = Some (P x)) \<Longrightarrow> match_any f xs = Some (\<exists>x\<in>set xs. P x)"
  by (induction xs) auto

text \<open>The handles the client thread has been given.\<close>

definition handles_of :: "i32 \<Rightarrow> client_data \<Rightarrow> i64 list" where
  "handles_of tid cd = (case mClientTidRepo cd tid of Some (Some t) \<Rightarrow> mClientHandles t | _ \<Rightarrow> [])"

lemma requestMatch_spec:
  assumes "map_sound h objs nodes rm" "req_ok h req xs" "getResDlMgr req \<noteq> None" "known_thread cd (getClientTID req)"
  shows "requestMatch h objs req rm cd =
    Some (\<exists>handle\<in>set (handles_of (getClientTID req) cd). duplicates h objs nodes req xs cd rm handle, cd)"
proof -
  from assms(3) obtain l where l: "getResDlMgr req = Some l" by blast
  from assms(4) obtain t where t: "mClientTidRepo cd (getClientTID req) = Some (Some t)" by (auto simp: known_thread_def)
  have "match_any (match_handle h objs req cd rm) hs = Some (\<exists>x\<in>set hs. duplicates h objs nodes req xs cd rm x)" for hs
    by (rule match_any_spec) (rule match_handle_spec[OF assms(1,2) l])
  with t show ?thesis by (auto simp: requestMatch_def getRequestsByClientID_def tid_lookup_def handles_of_def)
qed

text \<open>A tune request is let in exactly if it is sane, there is room, and nothing equal is active.\<close>

lemma shouldRequestBeAdded_spec:
  assumes "map_sound h objs nodes rm" "req_ok h req xs" "known_thread cd (getClientTID req)"
    and "getRequestType req = REQ_RESOURCE_TUNING"
  shows "shouldRequestBeAdded n h objs (Some req) rm cd =
    Some (getResDlMgr req \<noteq> None \<and> 0 < sint (getHandle req) \<and> 0 \<le> sint (getPriority req)
      \<and> 0 \<le> sint (getClientPID req) \<and> 0 \<le> sint (getClientTID req) \<and> length (mActiveRequests rm) < n
      \<and> \<not> (\<exists>handle\<in>set (handles_of (getClientTID req) cd). duplicates h objs nodes req xs cd rm handle), cd)"
  using assms isSane_spec[OF assms(2)] requestMatch_spec[OF assms(1,2) _ assms(3)]
  by (auto simp: shouldRequestBeAdded_def)

end
