(* ===== verification/OrderedQueue.thy ===== *)
theory OrderedQueue
  imports RequestManager "HOL-Library.Multiset"
begin

text \<open>
  \<^verbatim>\<open>modula/Components/OrderedQueue.cpp\<close>: the queue between the threads that accept
  requests and the one that applies them. It holds pointers to messages; \<^verbatim>\<open>top\<close> of the
  \<^verbatim>\<open>std::priority_queue\<close> is an element of smallest priority value, and which one of several
  is not specified, so \<open>pop\<close> takes the choice as an argument. A pointer to a request that has
  been freed is a fault when its priority is compared.
\<close>

datatype queue_item = QRequest addr | QMessage message

record ordered_queue =
  mElementCount :: int
  mOrderedQueue :: "queue_item list"

definition OrderedQueue_init :: ordered_queue where
  "OrderedQueue_init = \<lparr>mElementCount = 0, mOrderedQueue = []\<rparr>"

definition item_priority :: "req_store \<Rightarrow> queue_item \<Rightarrow> int option" where
  "item_priority objs item =
     (case item of QRequest a \<Rightarrow> map_option (\<lambda>r. sint (getPriority r)) (objs a)
      | QMessage m \<Rightarrow> Some (sint (getPriority m)))"

definition addAndWakeup ::
    "req_store \<Rightarrow> queue_item option \<Rightarrow> ordered_queue \<Rightarrow> (bool \<times> ordered_queue) option" where
  "addAndWakeup objs queueItem q =
     (case queueItem of None \<Rightarrow> Some (False, q)
      | Some item \<Rightarrow> do {
          p \<leftarrow> item_priority objs item;
          (if p < sint SERVER_CLEANUP_TRIGGER_PRIORITY then Some (False, q)
           else Some (True, q\<lparr>mOrderedQueue := mOrderedQueue q @ [item], mElementCount := mElementCount q + 1\<rparr>)) })"

definition hasPendingTasks :: "ordered_queue \<Rightarrow> bool" where
  "hasPendingTasks q \<longleftrightarrow> mElementCount q > 0"

text \<open>The positions at which the smallest value stands.\<close>

definition min_positions :: "int list \<Rightarrow> nat list" where
  "min_positions ps = filter (\<lambda>i. \<forall>p\<in>set ps. ps ! i \<le> p) [0 ..< length ps]"

definition pop :: "nat \<Rightarrow> req_store \<Rightarrow> ordered_queue \<Rightarrow> (queue_item option \<times> ordered_queue) option" where
  "pop tie objs q =
     (if mElementCount q = 0 then Some (None, q)
      else case those (map (item_priority objs) (mOrderedQueue q)) of
             None \<Rightarrow> None
           | Some [] \<Rightarrow> None
           | Some ps \<Rightarrow>
               (let is = min_positions ps; k = is ! (tie mod length is)
                in Some (Some (mOrderedQueue q ! k),
                     q\<lparr>mOrderedQueue := take k (mOrderedQueue q) @ drop (Suc k) (mOrderedQueue q),
                       mElementCount := mElementCount q - 1\<rparr>)))"

text \<open>What wakes the consumer to end: a bare message of priority -2.\<close>

definition forcefulAwake :: "message option \<Rightarrow> req_store \<Rightarrow> ordered_queue \<Rightarrow> (bool \<times> ordered_queue) option" where
  "forcefulAwake block objs q =
     (case block of None \<Rightarrow> Some (False, q)
      | Some raw \<Rightarrow> addAndWakeup objs
          (Some (QMessage (setPriority SERVER_CLEANUP_TRIGGER_PRIORITY (raw\<lparr>mProperties := 0\<rparr>)))) q)"

section \<open>The queue as a bag ordered by urgency\<close>

definition queue_inv :: "req_store \<Rightarrow> ordered_queue \<Rightarrow> bool" where
  "queue_inv objs q \<longleftrightarrow> mElementCount q = int (length (mOrderedQueue q))
     \<and> (\<forall>x\<in>set (mOrderedQueue q). item_priority objs x \<noteq> None)"

lemma those_map_some: "\<forall>x\<in>set xs. f x \<noteq> None \<Longrightarrow> those (map f xs) = Some (map (\<lambda>x. the (f x)) xs)"
  by (induction xs) auto

lemma min_positions_nonempty: "ps \<noteq> [] \<Longrightarrow> min_positions ps \<noteq> []"
proof -
  assume "ps \<noteq> []"
  then obtain i where "i < length ps" "ps ! i = Min (set ps)"
    by (metis List.finite_set Min_in in_set_conv_nth set_empty)
  then have "i \<in> set (min_positions ps)" by (simp add: min_positions_def)
  then show ?thesis by (metis empty_iff empty_set)
qed

lemma pop_spec:
  assumes inv: "queue_inv objs q" and ne: "mOrderedQueue q \<noteq> []"
  shows "\<exists>us x vs. mOrderedQueue q = us @ x # vs
    \<and> pop tie objs q = Some (Some x, q\<lparr>mOrderedQueue := us @ vs, mElementCount := int (length (us @ vs))\<rparr>)
    \<and> (\<forall>y\<in>set (mOrderedQueue q). the (item_priority objs x) \<le> the (item_priority objs y))"
proof -
  define ps where "ps = map (\<lambda>x. the (item_priority objs x)) (mOrderedQueue q)"
  define k where "k = min_positions ps ! (tie mod length (min_positions ps))"
  have those: "those (map (item_priority objs) (mOrderedQueue q)) = Some ps"
    using inv by (simp add: queue_inv_def ps_def those_map_some)
  have "ps \<noteq> []" using ne by (simp add: ps_def)
  then have "min_positions ps \<noteq> []" by (rule min_positions_nonempty)
  then have "k \<in> set (min_positions ps)" by (simp add: k_def)
  then have k: "k < length (mOrderedQueue q)" "\<forall>p\<in>set ps. ps ! k \<le> p"
    by (auto simp: min_positions_def ps_def)
  have "mOrderedQueue q = take k (mOrderedQueue q) @ mOrderedQueue q ! k # drop (Suc k) (mOrderedQueue q)"
    using k(1) by (rule id_take_nth_drop)
  moreover have "pop tie objs q = Some (Some (mOrderedQueue q ! k),
      q\<lparr>mOrderedQueue := take k (mOrderedQueue q) @ drop (Suc k) (mOrderedQueue q),
        mElementCount := int (length (take k (mOrderedQueue q) @ drop (Suc k) (mOrderedQueue q)))\<rparr>)"
    using inv k(1) ne \<open>ps \<noteq> []\<close>
    by (cases ps) (auto simp: pop_def those queue_inv_def Let_def k_def min_def of_nat_diff)
  moreover have "\<forall>y\<in>set (mOrderedQueue q). the (item_priority objs (mOrderedQueue q ! k)) \<le> the (item_priority objs y)"
    using k by (simp add: ps_def)
  ultimately show ?thesis by blast
qed

lemma pop_inv:
  assumes "queue_inv objs q" "pop tie objs q = Some (Some x, q')"
  shows "queue_inv objs q'" "mset (mOrderedQueue q) = add_mset x (mset (mOrderedQueue q'))"
proof -
  have "mOrderedQueue q \<noteq> []" using assms by (auto simp: pop_def queue_inv_def)
  from pop_spec[OF assms(1) this, of tie] assms
  show "queue_inv objs q'" "mset (mOrderedQueue q) = add_mset x (mset (mOrderedQueue q'))"
    by (auto simp: queue_inv_def)
qed

lemma addAndWakeup_inv:
  "queue_inv objs q \<Longrightarrow> item_priority objs x = Some p \<Longrightarrow> -2 \<le> p \<Longrightarrow>
     addAndWakeup objs (Some x) q = Some (True, q\<lparr>mOrderedQueue := mOrderedQueue q @ [x],
       mElementCount := mElementCount q + 1\<rparr>)
     \<and> queue_inv objs (q\<lparr>mOrderedQueue := mOrderedQueue q @ [x], mElementCount := mElementCount q + 1\<rparr>)"
  by (auto simp: addAndWakeup_def queue_inv_def SERVER_CLEANUP_TRIGGER_PRIORITY_def)

text \<open>
  The contract of a bag from which a most urgent element is taken, whichever that is: a run of
  removals drains it in ascending order of urgency.
\<close>

locale urgent_bag =
  fixes items :: "'q \<Rightarrow> 'a list" and prio :: "'a \<Rightarrow> int" and ok :: "'q \<Rightarrow> bool"
    and take_one :: "nat \<Rightarrow> 'q \<Rightarrow> ('a \<times> 'q) option"
  assumes take_some: "ok q \<Longrightarrow> items q \<noteq> [] \<Longrightarrow> \<exists>x q'. take_one t q = Some (x, q')"
    and take_law: "ok q \<Longrightarrow> take_one t q = Some (x, q') \<Longrightarrow>
      ok q' \<and> mset (items q) = add_mset x (mset (items q')) \<and> (\<forall>y\<in>set (items q). prio x \<le> prio y)"
begin

fun drain :: "nat list \<Rightarrow> 'q \<Rightarrow> 'a list option" where
  "drain [] q = Some []"
| "drain (t # ts) q = (case take_one t q of None \<Rightarrow> None | Some (x, q') \<Rightarrow> map_option ((#) x) (drain ts q'))"

lemma drain_sorted:
  "ok q \<Longrightarrow> length ts = length (items q) \<Longrightarrow>
     \<exists>xs. drain ts q = Some xs \<and> mset xs = mset (items q) \<and> sorted (map prio xs)"
proof (induction ts arbitrary: q)
  case (Cons t ts)
  then have "items q \<noteq> []" by auto
  with Cons.prems(1) obtain x q' where t: "take_one t q = Some (x, q')" using take_some by blast
  from take_law[OF Cons.prems(1) t] have q': "ok q'" "mset (items q) = add_mset x (mset (items q'))"
    "\<forall>y\<in>set (items q). prio x \<le> prio y" by blast+
  from q'(2) have "size (mset (items q)) = Suc (size (mset (items q')))" by simp
  with Cons.prems(2) have "length ts = length (items q')" by simp
  from Cons.IH[OF q'(1) this] obtain xs where xs: "drain ts q' = Some xs" "mset xs = mset (items q')"
    "sorted (map prio xs)" by blast
  have "set xs \<subseteq> set (items q)" using xs(2) q'(2) by (metis set_mset_mset set_mset_add_mset_insert subset_insertI)
  then have "sorted (map prio (x # xs))" using xs(3) q'(3) by auto
  with t xs(1,2) q'(2) show ?case by auto
qed simp

end

definition pop_item :: "req_store \<Rightarrow> nat \<Rightarrow> ordered_queue \<Rightarrow> (queue_item \<times> ordered_queue) option" where
  "pop_item objs tie q = (case pop tie objs q of Some (Some x, q') \<Rightarrow> Some (x, q') | _ \<Rightarrow> None)"

interpretation oq: urgent_bag mOrderedQueue "\<lambda>x. the (item_priority objs x)" "queue_inv objs" "pop_item objs"
  for objs
proof unfold_locales
  fix q t assume "queue_inv objs q" "mOrderedQueue q \<noteq> []"
  from pop_spec[OF this, of t] show "\<exists>x q'. pop_item objs t q = Some (x, q')"
    by (auto simp: pop_item_def)
next
  fix q t x q' assume q: "queue_inv objs q" "pop_item objs t q = Some (x, q')"
  then have p: "pop t objs q = Some (Some x, q')" by (auto simp: pop_item_def split: option.splits)
  then have ne: "mOrderedQueue q \<noteq> []" using q by (auto simp: pop_def queue_inv_def)
  show "queue_inv objs q' \<and> mset (mOrderedQueue q) = add_mset x (mset (mOrderedQueue q'))
      \<and> (\<forall>y\<in>set (mOrderedQueue q). the (item_priority objs x) \<le> the (item_priority objs y))"
    using pop_inv[OF q(1) p] pop_spec[OF q(1) ne, of t] p by auto
qed

end
