(* ===== verification/Strings.thy ===== *)
theory Strings
  imports Prelude
begin

text \<open>
  The string functions of the C++ library that the sources use: \<^verbatim>\<open>std::stoi\<close> with base
  ten and with base detection, \<^verbatim>\<open>std::to_string\<close>, hexadecimal formatting, splitting with
  \<^verbatim>\<open>std::getline\<close>, and the keyword tables of the configuration builders. Printing and
  parsing are inverse to each other.
\<close>

section \<open>Reading integers\<close>

text \<open>
  \<^verbatim>\<open>std::stoi(s, nullptr, 0)\<close>: white space, a sign, a base prefix, digits; nothing parsed or
  a value outside \<^verbatim>\<open>int\<close> throws.
\<close>

definition c_space :: "char \<Rightarrow> bool" where
  "c_space c \<longleftrightarrow> of_char c \<in> {32, 9, 10, 11, 12, 13 :: nat}"

definition digit_value :: "char \<Rightarrow> nat" where
  "digit_value c =
     (let n = of_char c :: nat
      in if 48 \<le> n \<and> n \<le> 57 then n - 48
         else if 97 \<le> n \<and> n \<le> 122 then n - 87
         else if 65 \<le> n \<and> n \<le> 90 then n - 55 else 99)"

fun parse_digits :: "nat \<Rightarrow> string \<Rightarrow> int \<Rightarrow> int" where
  "parse_digits base [] acc = acc"
| "parse_digits base (c # cs) acc =
     (if digit_value c < base then parse_digits base cs (acc * int base + int (digit_value c)) else acc)"

definition parse_base :: "nat \<Rightarrow> string \<Rightarrow> int option" where
  "parse_base base s =
     (case s of [] \<Rightarrow> None | c # cs \<Rightarrow> if digit_value c < base then Some (parse_digits base s 0) else None)"

definition parse_magnitude :: "string \<Rightarrow> int option" where
  "parse_magnitude s =
     (case s of
        c # d # e # rest \<Rightarrow>
          if c = CHR ''0'' \<and> (d = CHR ''x'' \<or> d = CHR ''X'') \<and> digit_value e < 16 then parse_base 16 (e # rest)
          else if c = CHR ''0'' then parse_base 8 s else parse_base 10 s
      | c # rest \<Rightarrow> if c = CHR ''0'' then parse_base 8 s else parse_base 10 s
      | [] \<Rightarrow> None)"

definition stoi :: "string \<Rightarrow> int option" where
  "stoi str =
     (let s = dropWhile c_space str;
          neg = (s \<noteq> [] \<and> hd s = CHR ''-'');
          body = (if s \<noteq> [] \<and> (hd s = CHR ''-'' \<or> hd s = CHR ''+'') then tl s else s)
      in case parse_magnitude body of None \<Rightarrow> None
         | Some v \<Rightarrow> (let x = (if neg then - v else v)
                     in if - (2 ^ 31) \<le> x \<and> x < 2 ^ 31 then Some x else None))"

text \<open>\<^verbatim>\<open>std::stoi(s)\<close>: base ten only.\<close>

definition stoi10 :: "string \<Rightarrow> int option" where
  "stoi10 str =
     (let s = dropWhile c_space str;
          neg = (s \<noteq> [] \<and> hd s = CHR ''-'');
          body = (if s \<noteq> [] \<and> (hd s = CHR ''-'' \<or> hd s = CHR ''+'') then tl s else s)
      in case parse_base 10 body of None \<Rightarrow> None
         | Some v \<Rightarrow> (let x = (if neg then - v else v)
                     in if - (2 ^ 31) \<le> x \<and> x < 2 ^ 31 then Some x else None))"

section \<open>Writing integers\<close>

definition digit_char :: "nat \<Rightarrow> char" where
  "digit_char d = ''0123456789abcdef'' ! d"

fun to_base :: "nat \<Rightarrow> nat \<Rightarrow> string" where
  "to_base b n = (if n < b \<or> b < 2 then [digit_char n] else to_base b (n div b) @ [digit_char (n mod b)])"

declare to_base.simps [simp del]

definition to_string :: "int \<Rightarrow> string" where
  "to_string v = (if v < 0 then CHR ''-'' # to_base 10 (nat (- v)) else to_base 10 (nat v))"

definition cpuMaskToHex :: "u64 \<Rightarrow> string" where
  "cpuMaskToHex msk = to_base 16 (unat msk)"

section \<open>Splitting\<close>

text \<open>The tokens that repeated \<^verbatim>\<open>std::getline(stream, token, d)\<close> reads.\<close>

function tokens :: "char \<Rightarrow> string \<Rightarrow> string list" where
  "tokens d s = (if s = [] then []
     else takeWhile (\<lambda>c. c \<noteq> d) s # tokens d (tl (dropWhile (\<lambda>c. c \<noteq> d) s)))"
  by pat_completeness auto

termination
proof (relation "measure (length \<circ> snd)")
  fix d :: char and s :: string
  assume "s \<noteq> []"
  moreover have "length (dropWhile (\<lambda>c. c \<noteq> d) s) \<le> length s" by (rule length_dropWhile_le)
  ultimately show "((d, tl (dropWhile (\<lambda>c. c \<noteq> d) s)), (d, s)) \<in> measure (length \<circ> snd)"
    by (cases s) (simp_all add: less_Suc_eq_le)
qed simp

declare tokens.simps [simp del]

section \<open>Keywords\<close>

text \<open>A keyword setter: an empty string means the default, an unknown one is refused.\<close>

definition keyword :: "(string \<times> 'k) list \<Rightarrow> 'k \<Rightarrow> string \<Rightarrow> 'k option" where
  "keyword tbl dflt str = (case map_of tbl str of Some k \<Rightarrow> Some k | None \<Rightarrow> if str = [] then Some dflt else None)"

section \<open>Printing and parsing\<close>

lemma digit_value_char: "d < 16 \<Longrightarrow> digit_value (digit_char d) = d"
proof -
  assume "d < 16"
  then have "d \<in> {0..<16}" by simp
  moreover have "{0..<16::nat} = set [0..<16]" by simp
  moreover have "\<forall>d\<in>set [0..<16]. digit_value (digit_char d) = d" by code_simp
  ultimately show ?thesis by blast
qed

lemma digit_value_mod: "2 \<le> b \<Longrightarrow> b \<le> 16 \<Longrightarrow> digit_value (digit_char (n mod b)) = n mod b"
  using mod_less_divisor[of b n] by (intro digit_value_char) linarith

lemma parse_digits_append:
  "\<forall>c\<in>set xs. digit_value c < b \<Longrightarrow> parse_digits b (xs @ ys) acc = parse_digits b ys (parse_digits b xs acc)"
  by (induction xs arbitrary: acc) auto

lemma to_base_digits: "2 \<le> b \<Longrightarrow> b \<le> 16 \<Longrightarrow> c \<in> set (to_base b n) \<Longrightarrow> digit_value c < b"
proof (induction b n rule: to_base.induct)
  case (1 b n)
  then show ?case
    by (subst (asm) to_base.simps[of b n]) (auto simp: digit_value_char digit_value_mod split: if_splits)
qed

lemma to_base_nonempty [simp]: "to_base b n \<noteq> []"
  by (subst to_base.simps) simp

lemma parse_to_base: "2 \<le> b \<Longrightarrow> b \<le> 16 \<Longrightarrow> parse_digits b (to_base b n) 0 = int n"
proof (induction b n rule: to_base.induct)
  case (1 b n)
  show ?case
  proof (cases "n < b")
    case True
    with 1 show ?thesis by (simp add: to_base.simps[of b n] digit_value_char)
  next
    case False
    have "parse_digits b (to_base b (n div b) @ [digit_char (n mod b)]) 0 = int (n div b) * int b + int (n mod b)"
      using 1 False by (subst parse_digits_append) (auto simp: digit_value_mod to_base_digits)
    also have "\<dots> = int n" by (simp flip: of_nat_mult of_nat_add)
    finally show ?thesis using 1 False by (simp add: to_base.simps[of b n])
  qed
qed

lemma parse_base_to_base: "2 \<le> b \<Longrightarrow> b \<le> 16 \<Longrightarrow> parse_base b (to_base b n) = Some (int n)"
  using parse_to_base[of b n] to_base_digits[of b _ n]
  by (cases "to_base b n") (auto simp: parse_base_def)

lemma digit_not_special: "digit_value c < 10 \<Longrightarrow> \<not> c_space c \<and> c \<noteq> CHR ''-'' \<and> c \<noteq> CHR ''+''"
  by (auto simp: digit_value_def c_space_def Let_def split: if_splits)

lemma to_string_chars: "c \<in> set (to_string v) \<Longrightarrow> c = CHR ''-'' \<or> digit_value c < 10"
  using to_base_digits[of 10 c] by (auto simp: to_string_def split: if_splits)

lemma to_string_nonempty [simp]: "to_string v \<noteq> []"
  by (simp add: to_string_def)

lemma stoi10_to_string: "- (2 ^ 31) \<le> v \<Longrightarrow> v < 2 ^ 31 \<Longrightarrow> stoi10 (to_string v) = Some v"
proof -
  assume v: "- (2 ^ 31) \<le> v" "v < 2 ^ 31"
  obtain c cs where c: "to_base 10 (nat \<bar>v\<bar>) = c # cs" by (cases "to_base 10 (nat \<bar>v\<bar>)") auto
  have "digit_value c < 10" using to_base_digits[of 10 c "nat \<bar>v\<bar>"] c by simp
  note d = digit_not_special[OF this]
  have p: "parse_base 10 (c # cs) = Some \<bar>v\<bar>" using parse_base_to_base[of 10 "nat \<bar>v\<bar>"] c by simp
  have s: "\<not> c_space CHR ''-''" by code_simp
  show ?thesis
  proof (cases "v < 0")
    case True
    then have "to_string v = CHR ''-'' # c # cs" using c by (simp add: to_string_def)
    with True p s v show ?thesis by (simp add: stoi10_def Let_def)
  next
    case False
    then have "to_string v = c # cs" using c by (simp add: to_string_def)
    with False p d v show ?thesis by (simp add: stoi10_def Let_def)
  qed
qed

lemma cpuMaskToHex_parse: "parse_base 16 (cpuMaskToHex m) = Some (uint m)"
  by (simp add: cpuMaskToHex_def parse_base_to_base)

end
