(* ===== verification/Files.thy ===== *)
theory Files
  imports Strings
begin

text \<open>
  The files the resource tuner reads and writes, and the file helpers of
  \<^verbatim>\<open>modula/CoreModules/AuxRoutines.cpp\<close>. The file system itself is outside the program:
  a world holds the contents a read sees, which paths can be opened for writing, what
  \<^verbatim>\<open>opendir\<close> lists and what \<^verbatim>\<open>mkdir\<close> answers. Every write is also
  recorded in order, so that what the daemon did to the system is part of the state.
\<close>

datatype mkdir_result = MkdirOk | MkdirExists | MkdirFailed

record world =
  contents :: "string \<Rightarrow> string option"
  opens :: "string \<Rightarrow> bool"
  entries :: "string \<Rightarrow> (string \<times> bool) list option"
  mkdir :: "string \<Rightarrow> mkdir_result"
  written :: "(string \<times> string) list"

definition newline :: char where "newline = CHR 0x0A"

section \<open>Reading and writing\<close>

definition readFromFile :: "world \<Rightarrow> string \<Rightarrow> string" where
  "readFromFile w fileName =
     (if fileName = [] then []
      else case contents w fileName of None \<Rightarrow> [] | Some c \<Rightarrow> takeWhile (\<lambda>x. x \<noteq> newline) c)"

definition writeToFile :: "string \<Rightarrow> string \<Rightarrow> world \<Rightarrow> world" where
  "writeToFile fileName v w =
     (if fileName = [] \<or> \<not> opens w fileName then w
      else w\<lparr>contents := (contents w)(fileName \<mapsto> v), written := written w @ [(fileName, v)]\<rparr>)"

definition deleteFile :: "string \<Rightarrow> world \<Rightarrow> world" where
  "deleteFile fileName w = w\<lparr>contents := (contents w)(fileName := None)\<rparr>"

definition fileExists :: "world \<Rightarrow> string \<Rightarrow> bool" where
  "fileExists w filePath \<longleftrightarrow> contents w filePath \<noteq> None"

definition isNumericString :: "string \<Rightarrow> bool" where
  "isNumericString str = list_all (\<lambda>c. digit_value c < 10) str"

section \<open>Restoring recorded defaults\<close>

text \<open>
  One line of the persistence file: the token counter is an \<^verbatim>\<open>int8_t\<close>, so it returns
  to zero after 256 tokens.
\<close>

definition sysfs_token :: "string \<Rightarrow> i8 \<times> string \<times> int \<Rightarrow> i8 \<times> string \<times> int" where
  "sysfs_token token st =
     (case st of (index, sysfsNodePath, sysfsNodeDefaultValue) \<Rightarrow>
        if index = 0 then (index + 1, token, sysfsNodeDefaultValue)
        else if index = 1 then
          (index + 1, sysfsNodePath, case stoi10 token of Some v \<Rightarrow> v | None \<Rightarrow> sysfsNodeDefaultValue)
        else (index + 1, sysfsNodePath, sysfsNodeDefaultValue))"

definition sysfs_line :: "string \<Rightarrow> world \<Rightarrow> world" where
  "sysfs_line line w =
     (case fold sysfs_token (tokens CHR '','' line) (0, [], -1) of
        (_, sysfsNodePath, sysfsNodeDefaultValue) \<Rightarrow>
          if length sysfsNodePath > 0 \<and> sysfsNodeDefaultValue \<noteq> -1
          then writeToFile sysfsNodePath (to_string sysfsNodeDefaultValue) w else w)"

definition writeSysFsDefaults :: "string \<Rightarrow> world \<Rightarrow> world" where
  "writeSysFsDefaults mPersistenceFile w =
     (case contents w mPersistenceFile of None \<Rightarrow> w
      | Some content \<Rightarrow> fold sysfs_line (tokens newline content) w)"

section \<open>Lemmas\<close>

lemma readFromFile_write:
  "p \<noteq> [] \<Longrightarrow> opens w p \<Longrightarrow> newline \<notin> set v \<Longrightarrow> readFromFile (writeToFile p v w) p = v"
  by (auto simp: readFromFile_def writeToFile_def takeWhile_eq_all_conv)

lemma readFromFile_write_other: "q \<noteq> p \<Longrightarrow> readFromFile (writeToFile p v w) q = readFromFile w q"
  by (simp add: readFromFile_def writeToFile_def)

lemma writeToFile_opens [simp]: "opens (writeToFile p v w) = opens w"
  by (simp add: writeToFile_def)

lemma fileExists_write [simp]: "fileExists w q \<Longrightarrow> fileExists (writeToFile p v w) q"
  by (simp add: fileExists_def writeToFile_def)

lemma tokens_Nil [simp]: "tokens d [] = []"
  by (subst tokens.simps) simp

lemma tokens_no_sep: "s \<noteq> [] \<Longrightarrow> d \<notin> set s \<Longrightarrow> tokens d s = [s]"
proof -
  assume s: "s \<noteq> []" "d \<notin> set s"
  then have "takeWhile (\<lambda>c. c \<noteq> d) s = s" by (auto simp: takeWhile_eq_all_conv)
  moreover from s have "dropWhile (\<lambda>c. c \<noteq> d) s = []" by (auto simp: dropWhile_eq_Nil_conv)
  then have "tokens d (tl (dropWhile (\<lambda>c. c \<noteq> d) s)) = []" by (simp only: list.sel tokens_Nil)
  ultimately show ?thesis using s by (subst tokens.simps) simp
qed

lemma tokens_cons_sep: "d \<notin> set s \<Longrightarrow> tokens d (s @ d # t) = s # tokens d t"
proof -
  assume s: "d \<notin> set s"
  have "takeWhile (\<lambda>c. c \<noteq> d) (s @ d # t) = s" "dropWhile (\<lambda>c. c \<noteq> d) (s @ d # t) = d # t"
    using s by (induction s) auto
  then show ?thesis by (subst tokens.simps) simp
qed

lemma to_string_no_separator: "c = CHR '','' \<or> c = newline \<Longrightarrow> c \<notin> set (to_string v)"
proof -
  assume c: "c = CHR '','' \<or> c = newline"
  have "\<not> digit_value CHR '','' < 10" "\<not> digit_value newline < 10" by code_simp+
  with c to_string_chars[of c v] show ?thesis by (auto simp: newline_def)
qed

text \<open>The recorded line \<^verbatim>\<open>path,value\<close> writes the value back to the path.\<close>

definition sysfs_entry :: "string \<times> int \<Rightarrow> string" where
  "sysfs_entry e = fst e @ CHR '','' # to_string (snd e)"

definition entry_ok :: "string \<times> int \<Rightarrow> bool" where
  "entry_ok e \<longleftrightarrow> fst e \<noteq> [] \<and> CHR '','' \<notin> set (fst e) \<and> newline \<notin> set (fst e)
     \<and> - (2 ^ 31) \<le> snd e \<and> snd e < 2 ^ 31 \<and> snd e \<noteq> -1"

lemma sysfs_line_restores:
  "entry_ok e \<Longrightarrow> sysfs_line (sysfs_entry e) w = writeToFile (fst e) (to_string (snd e)) w"
  using stoi10_to_string[of "snd e"] to_string_no_separator[of "CHR '',''" "snd e"]
  by (cases e) (simp add: sysfs_line_def sysfs_entry_def entry_ok_def tokens_cons_sep tokens_no_sep sysfs_token_def)

lemma tokens_entries:
  "\<forall>e\<in>set es. entry_ok e \<Longrightarrow> tokens newline (concat (map (\<lambda>e. sysfs_entry e @ [newline]) es)) = map sysfs_entry es"
proof (induction es)
  case (Cons e es)
  then have "newline \<notin> set (sysfs_entry e)"
    using to_string_no_separator[of newline "snd e"] by (auto simp: entry_ok_def sysfs_entry_def newline_def)
  then have "tokens newline (sysfs_entry e @ newline # concat (map (\<lambda>e. sysfs_entry e @ [newline]) es))
      = sysfs_entry e # tokens newline (concat (map (\<lambda>e. sysfs_entry e @ [newline]) es))"
    by (rule tokens_cons_sep)
  with Cons show ?case by simp
qed simp

lemma fold_sysfs_entries:
  "\<forall>e\<in>set es. entry_ok e \<Longrightarrow>
     fold sysfs_line (map sysfs_entry es) w = fold (\<lambda>e. writeToFile (fst e) (to_string (snd e))) es w"
  by (induction es arbitrary: w) (simp_all add: sysfs_line_restores)

lemma fold_writes_opens [simp]: "opens (fold (\<lambda>e. writeToFile (f e) (g e)) es w) = opens w"
  by (induction es arbitrary: w) simp_all

lemma fold_writes_other:
  "p \<notin> f ` set es \<Longrightarrow> readFromFile (fold (\<lambda>e. writeToFile (f e) (g e)) es w) p = readFromFile w p"
  by (induction es arbitrary: w) (simp_all add: readFromFile_write_other)

lemma fold_writes_read:
  "distinct (map f es) \<Longrightarrow> e \<in> set es \<Longrightarrow> f e \<noteq> [] \<Longrightarrow> opens w (f e) \<Longrightarrow> newline \<notin> set (g e)
     \<Longrightarrow> readFromFile (fold (\<lambda>e. writeToFile (f e) (g e)) es w) (f e) = g e"
proof (induction es arbitrary: w)
  case (Cons d es)
  then show ?case
    by (cases "d = e") (simp_all add: fold_writes_other readFromFile_write)
qed simp

lemma sysfs_defaults_restored:
  assumes "\<forall>e\<in>set es. entry_ok e" "distinct (map fst es)" "e \<in> set es" "opens w (fst e)"
    and "contents w pf = Some (concat (map (\<lambda>e. sysfs_entry e @ [newline]) es))"
  shows "readFromFile (writeSysFsDefaults pf w) (fst e) = to_string (snd e)"
proof -
  have "writeSysFsDefaults pf w = fold (\<lambda>e. writeToFile (fst e) (to_string (snd e))) es w"
    using assms(1,5) by (simp add: writeSysFsDefaults_def tokens_entries fold_sysfs_entries)
  moreover have "fst e \<noteq> []" using assms(1,3) by (auto simp: entry_ok_def)
  ultimately show ?thesis
    using fold_writes_read[of fst es e w "\<lambda>e. to_string (snd e)"] assms to_string_no_separator[of newline "snd e"]
    by simp
qed

end
