(* ===== verification/ResourceRegistry.thy ===== *)
theory ResourceRegistry
  imports Files
begin

text \<open>
  \<^verbatim>\<open>resource-tuner/core/ResourceRegistry.cpp\<close>: the table of resource configurations and
  the builder that fills one configuration from the strings of a YAML file. The files are those of a
  world (\<open>Files\<close>), and the target facts the registry asks for are parameters. The search for
  a wildcard directory in \<^verbatim>\<open>setPath\<close> and the log output of
  \<^verbatim>\<open>displayResources\<close> are not modelled. The contract the concurrency table uses is the
  locale \<open>config_directory\<close>: codes with a configuration have distinct indices below the total.
\<close>

datatype ResourceApplyType = APPLY_CORE | APPLY_CLUSTER | APPLY_GLOBAL | APPLY_CGROUP

text \<open>The lifecycle callbacks: the four defaults, or one registered by an extension.\<close>

datatype lifecycle_cb = DefaultClusterCb | DefaultCoreCb | DefaultCGroupCb | DefaultGlobalCb | ExtensionCb nat

record ResConfInfo =
  mResourceName :: string
  mResourcePath :: string
  mResourceResType :: "8 word"
  mResourceResID :: "16 word"
  mHighThreshold :: i32
  mLowThreshold :: i32
  mPermissions :: i8
  mModes :: "8 word"
  mApplyType :: ResourceApplyType
  mPolicy :: Policy
  mUnit :: int
  mResourceApplierCallback :: "lifecycle_cb option"
  mResourceTearCallback :: "lifecycle_cb option"

record resource_registry =
  mResourceConfigs :: "ResConfInfo list"
  mSILMap :: "u32 \<Rightarrow> int option"
  mTotalResources :: int
  mDefaultValueStore :: "string \<Rightarrow> string option"

definition ResourceRegistry_init :: resource_registry where
  "ResourceRegistry_init =
     \<lparr>mResourceConfigs = [], mSILMap = (\<lambda>_. None), mTotalResources = 0, mDefaultValueStore = (\<lambda>_. None)\<rparr>"

section \<open>Registration\<close>

definition isResourceConfigMalformed :: "ResConfInfo option \<Rightarrow> bool" where
  "isResourceConfigMalformed rConf =
     (case rConf of None \<Rightarrow> True | Some c \<Rightarrow> mResourceResType c = 0)"

definition setLifeCycleCallbacks :: "ResConfInfo \<Rightarrow> ResConfInfo" where
  "setLifeCycleCallbacks c =
     (case mApplyType c of
        APPLY_CLUSTER \<Rightarrow> c\<lparr>mResourceApplierCallback := Some DefaultClusterCb, mResourceTearCallback := Some DefaultClusterCb\<rparr>
      | APPLY_CORE \<Rightarrow> c\<lparr>mResourceApplierCallback := Some DefaultCoreCb, mResourceTearCallback := Some DefaultCoreCb\<rparr>
      | APPLY_CGROUP \<Rightarrow> c\<lparr>mResourceApplierCallback := Some DefaultCGroupCb, mResourceTearCallback := Some DefaultCGroupCb\<rparr>
      | APPLY_GLOBAL \<Rightarrow> c\<lparr>mResourceApplierCallback := Some DefaultGlobalCb, mResourceTearCallback := Some DefaultGlobalCb\<rparr>)"

definition addDefaultValue :: "string \<Rightarrow> string \<Rightarrow> resource_registry \<Rightarrow> resource_registry" where
  "addDefaultValue filePath v rr = rr\<lparr>mDefaultValueStore := (mDefaultValueStore rr)(filePath \<mapsto> v)\<rparr>"

text \<open>
  What \<^verbatim>\<open>fetchAndStoreDefaults\<close> asks of its surroundings: the files, the clusters, cores
  and cgroups of the target, and \<^verbatim>\<open>snprintf\<close> with a path from the configuration as the
  format.
\<close>

record registry_env =
  env_world :: world
  path_of_int :: "string \<Rightarrow> int \<Rightarrow> string"
  path_of_name :: "string \<Rightarrow> string \<Rightarrow> string"
  env_clusterIDs :: "int list"
  env_cGroupNames :: "string list"
  env_coreCount :: nat

definition read_file :: "registry_env \<Rightarrow> string \<Rightarrow> string" where
  "read_file env filePath = readFromFile (env_world env) filePath"

definition default_paths :: "registry_env \<Rightarrow> ResConfInfo \<Rightarrow> string list" where
  "default_paths env c =
     (case mApplyType c of
        APPLY_CLUSTER \<Rightarrow> map (path_of_int env (mResourcePath c)) (env_clusterIDs env)
      | APPLY_CGROUP \<Rightarrow> map (path_of_name env (mResourcePath c)) (env_cGroupNames env)
      | APPLY_CORE \<Rightarrow> map (\<lambda>coreID. path_of_int env (mResourcePath c) (int coreID)) [0 ..< env_coreCount env]
      | APPLY_GLOBAL \<Rightarrow> [mResourcePath c])"

definition fetchAndStoreDefaults :: "registry_env \<Rightarrow> ResConfInfo \<Rightarrow> resource_registry \<Rightarrow> resource_registry" where
  "fetchAndStoreDefaults env c rr =
     fold (\<lambda>filePath. addDefaultValue filePath (read_file env filePath)) (default_paths env c) rr"

definition resourceBitmap :: "ResConfInfo \<Rightarrow> u32" where
  "resourceBitmap c = (0 OR ucast (mResourceResID c)) OR push_bit 16 (ucast (mResourceResType c))"

definition getResourceTableIndex :: "resource_registry \<Rightarrow> u32 \<Rightarrow> int" where
  "getResourceTableIndex rr resourceId = (case mSILMap rr resourceId of None \<Rightarrow> -1 | Some i \<Rightarrow> i)"

text \<open>
  The configuration is shared by pointer, so storing it and then setting its callbacks stores it
  with the callbacks set. An index outside the vector is a fault.
\<close>

definition registerResource ::
    "registry_env \<Rightarrow> ResConfInfo option \<Rightarrow> resource_registry \<Rightarrow> resource_registry option" where
  "registerResource env rConf rr =
     (if isResourceConfigMalformed rConf then Some rr
      else case rConf of None \<Rightarrow> None
        | Some c \<Rightarrow>
            (let key = resourceBitmap c; c' = setLifeCycleCallbacks c
             in if mSILMap rr key \<noteq> None then
                  (let i = getResourceTableIndex rr key
                   in if 0 \<le> i \<and> i < int (length (mResourceConfigs rr))
                      then Some (fetchAndStoreDefaults env c'
                             (rr\<lparr>mResourceConfigs := (mResourceConfigs rr)[nat i := c'],
                                 mSILMap := ((mSILMap rr)(key := None))(key \<mapsto> i)\<rparr>))
                      else None)
                else Some (fetchAndStoreDefaults env c'
                       (rr\<lparr>mSILMap := (mSILMap rr)(key \<mapsto> mTotalResources rr),
                           mResourceConfigs := mResourceConfigs rr @ [c'],
                           mTotalResources := mTotalResources rr + 1\<rparr>))))"

definition getRegisteredResources :: "resource_registry \<Rightarrow> ResConfInfo list" where
  "getRegisteredResources rr = mResourceConfigs rr"

definition getResConf :: "resource_registry \<Rightarrow> u32 \<Rightarrow> ResConfInfo option" where
  "getResConf rr resourceId =
     (case mSILMap rr resourceId of None \<Rightarrow> None
      | Some i \<Rightarrow> if i = -1 then None
                 else if 0 \<le> i \<and> i < int (length (mResourceConfigs rr)) then Some (mResourceConfigs rr ! nat i)
                 else None)"

definition getTotalResourcesCount :: "resource_registry \<Rightarrow> int" where
  "getTotalResourcesCount rr = mTotalResources rr"

text \<open>Reading through \<^verbatim>\<open>operator[]\<close> inserts an empty entry for a missing key.\<close>

definition getDefaultValue :: "string \<Rightarrow> resource_registry \<Rightarrow> string \<times> resource_registry" where
  "getDefaultValue filePath rr =
     (case mDefaultValueStore rr filePath of
        Some v \<Rightarrow> (v, rr)
      | None \<Rightarrow> ('''', rr\<lparr>mDefaultValueStore := (mDefaultValueStore rr)(filePath \<mapsto> '''')\<rparr>))"

definition deleteDefaultValue :: "string \<Rightarrow> resource_registry \<Rightarrow> resource_registry" where
  "deleteDefaultValue filePath rr = rr\<lparr>mDefaultValueStore := (mDefaultValueStore rr)(filePath := None)\<rparr>"

definition set_callback ::
    "(lifecycle_cb \<Rightarrow> ResConfInfo \<Rightarrow> ResConfInfo) \<Rightarrow> u32 \<times> lifecycle_cb \<Rightarrow> resource_registry \<Rightarrow> resource_registry option" where
  "set_callback upd p rr =
     (let i = getResourceTableIndex rr (fst p)
      in if i = -1 then Some rr
         else if 0 \<le> i \<and> i < int (length (mResourceConfigs rr))
         then Some (rr\<lparr>mResourceConfigs := (mResourceConfigs rr)[nat i := upd (snd p) (mResourceConfigs rr ! nat i)]\<rparr>)
         else None)"

definition pluginModifications ::
    "(u32 \<times> lifecycle_cb) list \<Rightarrow> (u32 \<times> lifecycle_cb) list \<Rightarrow> resource_registry \<Rightarrow> resource_registry option" where
  "pluginModifications applierCallbacks tearCallbacks rr =
     Option.bind (foldM (set_callback (\<lambda>cb c. c\<lparr>mResourceApplierCallback := Some cb\<rparr>)) applierCallbacks rr)
       (foldM (set_callback (\<lambda>cb c. c\<lparr>mResourceTearCallback := Some cb\<rparr>)) tearCallbacks)"

section \<open>The builder\<close>

record config_builder =
  mResourceConfigInfo :: "ResConfInfo option"
  mTargetRefCount :: int

definition unsupportedResoure :: int where "unsupportedResoure = -2"

definition ResourceConfigInfoBuilder_init :: "bool \<Rightarrow> config_builder" where
  "ResourceConfigInfoBuilder_init new_ok =
     \<lparr>mResourceConfigInfo = (if new_ok then Some \<lparr>mResourceName = '''', mResourcePath = '''',
        mResourceResType = 0, mResourceResID = 0, mHighThreshold = -1, mLowThreshold = -1,
        mPermissions = PERMISSION_THIRD_PARTY, mModes = 0, mApplyType = APPLY_GLOBAL, mPolicy = LAZY_APPLY,
        mUnit = 1, mResourceApplierCallback = None, mResourceTearCallback = None\<rparr> else None),
      mTargetRefCount = 0\<rparr>"

definition on_config ::
    "(ResConfInfo \<Rightarrow> ErrCode \<times> ResConfInfo) \<Rightarrow> config_builder \<Rightarrow> ErrCode \<times> config_builder" where
  "on_config f b =
     (case mResourceConfigInfo b of None \<Rightarrow> (RC_INVALID_VALUE, b)
      | Some c \<Rightarrow> (fst (f c), b\<lparr>mResourceConfigInfo := Some (snd (f c))\<rparr>))"

definition setName :: "string \<Rightarrow> config_builder \<Rightarrow> ErrCode \<times> config_builder" where
  "setName name = on_config (\<lambda>c. (RC_SUCCESS, c\<lparr>mResourceName := name\<rparr>))"

definition setResType :: "string \<Rightarrow> config_builder \<Rightarrow> ErrCode \<times> config_builder" where
  "setResType str = on_config (\<lambda>c. case stoi str of
       None \<Rightarrow> (RC_INVALID_VALUE, c\<lparr>mResourceResType := -1\<rparr>)
     | Some v \<Rightarrow> (RC_SUCCESS, c\<lparr>mResourceResType := word_of_int v\<rparr>))"

definition setResID :: "string \<Rightarrow> config_builder \<Rightarrow> ErrCode \<times> config_builder" where
  "setResID str = on_config (\<lambda>c. case stoi str of
       None \<Rightarrow> (RC_INVALID_VALUE, c\<lparr>mResourceResID := 0\<rparr>)
     | Some v \<Rightarrow> (RC_SUCCESS, c\<lparr>mResourceResID := word_of_int v\<rparr>))"

definition setHighThreshold :: "string \<Rightarrow> config_builder \<Rightarrow> ErrCode \<times> config_builder" where
  "setHighThreshold str = on_config (\<lambda>c. case stoi str of
       None \<Rightarrow> (RC_INVALID_VALUE, c\<lparr>mHighThreshold := 0\<rparr>)
     | Some v \<Rightarrow> (RC_SUCCESS, c\<lparr>mHighThreshold := word_of_int v\<rparr>))"

definition setLowThreshold :: "string \<Rightarrow> config_builder \<Rightarrow> ErrCode \<times> config_builder" where
  "setLowThreshold str = on_config (\<lambda>c. case stoi str of
       None \<Rightarrow> (RC_INVALID_VALUE, c\<lparr>mLowThreshold := 0\<rparr>)
     | Some v \<Rightarrow> (RC_SUCCESS, c\<lparr>mLowThreshold := word_of_int v\<rparr>))"

definition setPermissions :: "string \<Rightarrow> config_builder \<Rightarrow> ErrCode \<times> config_builder" where
  "setPermissions str = on_config (\<lambda>c.
     case keyword [(''system'', PERMISSION_SYSTEM), (''third_party'', PERMISSION_THIRD_PARTY)] PERMISSION_THIRD_PARTY str of
       None \<Rightarrow> (RC_INVALID_VALUE, c) | Some p \<Rightarrow> (RC_SUCCESS, c\<lparr>mPermissions := p\<rparr>))"

definition setModes :: "string \<Rightarrow> config_builder \<Rightarrow> ErrCode \<times> config_builder" where
  "setModes str = on_config (\<lambda>c.
     case keyword [(''display_on'', MODE_RESUME), (''display_off'', MODE_SUSPEND), (''doze'', MODE_DOZE)] 0 str of
       None \<Rightarrow> (RC_INVALID_VALUE, c) | Some m \<Rightarrow> (RC_SUCCESS, c\<lparr>mModes := mModes c OR m\<rparr>))"

definition setSupported :: "string \<Rightarrow> config_builder \<Rightarrow> ErrCode \<times> config_builder" where
  "setSupported str b =
     (if mResourceConfigInfo b = None then (RC_INVALID_VALUE, b)
      else (RC_SUCCESS, if str \<noteq> ''true'' then b\<lparr>mTargetRefCount := unsupportedResoure\<rparr> else b))"

definition setPolicy :: "string \<Rightarrow> config_builder \<Rightarrow> ErrCode \<times> config_builder" where
  "setPolicy str = on_config (\<lambda>c.
     case keyword [(''higher_is_better'', HIGHER_BETTER), (''lower_is_better'', LOWER_BETTER),
        (''lazy_apply'', LAZY_APPLY), (''instant_apply'', INSTANT_APPLY), (''pass_through'', PASS_THROUGH),
        (''pass_through_append'', PASS_THROUGH_APPEND)] LAZY_APPLY str of
       None \<Rightarrow> (RC_INVALID_VALUE, c) | Some p \<Rightarrow> (RC_SUCCESS, c\<lparr>mPolicy := p\<rparr>))"

definition unit_table :: "(string \<times> int) list" where
  "unit_table =
     [(''KB'', 1024), (''kb'', 1024), (''MB'', 1024 * 1024), (''mb'', 1024 * 1024),
      (''GB'', 1024 * 1024 * 1024), (''gb'', 1024 * 1024 * 1024), (''KHz'', 1000), (''khz'', 1000),
      (''MHz'', 1000 * 1000), (''mhz'', 1000 * 1000), (''GHz'', 1000 * 1000 * 1000),
      (''ghz'', 1000 * 1000 * 1000), (''Hz'', 1), (''hz'', 1), (''byte'', 1), (''NA'', 1), (''na'', 1)]"

definition setTranslationUnit :: "string \<Rightarrow> config_builder \<Rightarrow> ErrCode \<times> config_builder" where
  "setTranslationUnit str = on_config (\<lambda>c.
     case keyword unit_table 1 str of
       None \<Rightarrow> (RC_INVALID_VALUE, c) | Some u \<Rightarrow> (RC_SUCCESS, c\<lparr>mUnit := u\<rparr>))"

definition setApplyType :: "string \<Rightarrow> config_builder \<Rightarrow> ErrCode \<times> config_builder" where
  "setApplyType str = on_config (\<lambda>c.
     case keyword [(''global'', APPLY_GLOBAL), (''core'', APPLY_CORE), (''cluster'', APPLY_CLUSTER),
        (''cgroup'', APPLY_CGROUP)] APPLY_GLOBAL str of
       None \<Rightarrow> (RC_INVALID_VALUE, c) | Some t \<Rightarrow> (RC_SUCCESS, c\<lparr>mApplyType := t\<rparr>))"

definition addTargetEnabled :: "string \<Rightarrow> string \<Rightarrow> config_builder \<Rightarrow> ErrCode \<times> config_builder" where
  "addTargetEnabled targetName target b =
     (if mResourceConfigInfo b = None then (RC_MEMORY_ALLOCATION_FAILURE, b)
      else if mTargetRefCount b = unsupportedResoure then (RC_RESOURCE_NOT_SUPPORTED, b)
      else (let n = (if mTargetRefCount b = 0 then -1 else mTargetRefCount b)
            in (RC_SUCCESS, b\<lparr>mTargetRefCount := (if target = targetName then 1 else n)\<rparr>)))"

definition addTargetDisabled :: "string \<Rightarrow> string \<Rightarrow> config_builder \<Rightarrow> ErrCode \<times> config_builder" where
  "addTargetDisabled targetName target b =
     (if mResourceConfigInfo b = None then (RC_MEMORY_ALLOCATION_FAILURE, b)
      else if mTargetRefCount b = unsupportedResoure then (RC_RESOURCE_NOT_SUPPORTED, b)
      else (let n = (if mTargetRefCount b = 0 then 1 else mTargetRefCount b)
            in (RC_SUCCESS, b\<lparr>mTargetRefCount := (if target = targetName then -1 else n)\<rparr>)))"

definition build :: "config_builder \<Rightarrow> ResConfInfo option" where
  "build b = mResourceConfigInfo b"

section \<open>The registry invariant\<close>

definition reg_inv :: "resource_registry \<Rightarrow> bool" where
  "reg_inv rr \<longleftrightarrow>
     mTotalResources rr = int (length (mResourceConfigs rr)) \<and>
     (\<forall>key i. mSILMap rr key = Some i \<longrightarrow>
        0 \<le> i \<and> i < mTotalResources rr \<and> resourceBitmap (mResourceConfigs rr ! nat i) = key) \<and>
     (\<forall>n < length (mResourceConfigs rr). mSILMap rr (resourceBitmap (mResourceConfigs rr ! n)) = Some (int n))"

lemma resourceBitmap_callbacks [simp]: "resourceBitmap (setLifeCycleCallbacks c) = resourceBitmap c"
  by (cases "mApplyType c") (simp_all add: setLifeCycleCallbacks_def resourceBitmap_def)

lemma addDefaultValue_frame [simp]:
  "mResourceConfigs (addDefaultValue p v rr) = mResourceConfigs rr"
  "mSILMap (addDefaultValue p v rr) = mSILMap rr"
  "mTotalResources (addDefaultValue p v rr) = mTotalResources rr"
  by (simp_all add: addDefaultValue_def)

lemma fetch_frame [simp]:
  "mResourceConfigs (fetchAndStoreDefaults env c rr) = mResourceConfigs rr \<and>
   mSILMap (fetchAndStoreDefaults env c rr) = mSILMap rr \<and>
   mTotalResources (fetchAndStoreDefaults env c rr) = mTotalResources rr"
proof -
  have "mResourceConfigs (fold (\<lambda>p. addDefaultValue p (read_file env p)) ps rr) = mResourceConfigs rr \<and>
    mSILMap (fold (\<lambda>p. addDefaultValue p (read_file env p)) ps rr) = mSILMap rr \<and>
    mTotalResources (fold (\<lambda>p. addDefaultValue p (read_file env p)) ps rr) = mTotalResources rr" for ps
    by (induction ps arbitrary: rr) simp_all
  then show ?thesis by (simp add: fetchAndStoreDefaults_def)
qed

lemma getResConf_frame: "mResourceConfigs r = mResourceConfigs s \<Longrightarrow> mSILMap r = mSILMap s \<Longrightarrow>
   getResConf r = getResConf s \<and> getResourceTableIndex r = getResourceTableIndex s"
  by (intro conjI ext) (simp_all add: getResConf_def getResourceTableIndex_def split: option.split)

lemma reg_inv_frame: "mResourceConfigs r = mResourceConfigs s \<Longrightarrow> mSILMap r = mSILMap s \<Longrightarrow>
   mTotalResources r = mTotalResources s \<Longrightarrow> reg_inv r = reg_inv s"
  by (simp add: reg_inv_def)

lemma ResourceRegistry_init_inv: "reg_inv ResourceRegistry_init"
  by (simp add: reg_inv_def ResourceRegistry_init_def)

lemma getResConf_inv:
  "reg_inv rr \<Longrightarrow> getResConf rr key = map_option (\<lambda>i. mResourceConfigs rr ! nat i) (mSILMap rr key)"
  by (fastforce simp: reg_inv_def getResConf_def split: option.splits)

lemma getResConf_index:
  "reg_inv rr \<Longrightarrow> getResConf rr key = Some c \<Longrightarrow>
     0 \<le> getResourceTableIndex rr key \<and> getResourceTableIndex rr key < getTotalResourcesCount rr \<and>
     resourceBitmap c = key"
  by (auto simp: getResConf_inv getResourceTableIndex_def getTotalResourcesCount_def reg_inv_def)

lemma getResourceTableIndex_inj:
  "reg_inv rr \<Longrightarrow> getResConf rr k = Some c \<Longrightarrow> getResConf rr k' = Some c' \<Longrightarrow>
     getResourceTableIndex rr k = getResourceTableIndex rr k' \<Longrightarrow> k = k'"
  using getResConf_index[of rr k c] getResConf_index[of rr k' c']
  by (auto simp: getResConf_inv getResourceTableIndex_def)

text \<open>Registration: a new code gets the next row, a known one keeps its row; nothing else moves.\<close>

lemma registerResource_spec:
  assumes inv: "reg_inv rr" and res: "mResourceResType c \<noteq> 0"
  shows "\<exists>rr'. registerResource env (Some c) rr = Some rr' \<and> reg_inv rr' \<and>
    (\<forall>k. getResConf rr' k = (if k = resourceBitmap c then Some (setLifeCycleCallbacks c) else getResConf rr k)) \<and>
    (\<forall>k. k \<noteq> resourceBitmap c \<or> getResConf rr k \<noteq> None \<longrightarrow>
       getResourceTableIndex rr' k = getResourceTableIndex rr k)"
proof (cases "mSILMap rr (resourceBitmap c)")
  case None
  let ?r = "rr\<lparr>mSILMap := (mSILMap rr)(resourceBitmap c \<mapsto> mTotalResources rr),
      mResourceConfigs := mResourceConfigs rr @ [setLifeCycleCallbacks c], mTotalResources := mTotalResources rr + 1\<rparr>"
  have r: "registerResource env (Some c) rr = Some (fetchAndStoreDefaults env (setLifeCycleCallbacks c) ?r)"
    using None res by (simp add: registerResource_def isResourceConfigMalformed_def Let_def)
  have inv': "reg_inv ?r"
    using inv None unfolding reg_inv_def by (auto simp: nth_append nat_less_iff less_Suc_eq)
  have "getResConf ?r k = (if k = resourceBitmap c then Some (setLifeCycleCallbacks c) else getResConf rr k)" for k
    unfolding getResConf_inv[OF inv'] getResConf_inv[OF inv] using inv
    by (cases "mSILMap rr k") (auto simp: reg_inv_def nth_append nat_less_iff)
  moreover have "\<forall>k. k \<noteq> resourceBitmap c \<or> getResConf rr k \<noteq> None \<longrightarrow>
       getResourceTableIndex ?r k = getResourceTableIndex rr k"
    using None by (auto simp: getResConf_def getResourceTableIndex_def)
  ultimately show ?thesis
    using r inv' getResConf_frame[of "fetchAndStoreDefaults env (setLifeCycleCallbacks c) ?r" ?r]
      reg_inv_frame[of "fetchAndStoreDefaults env (setLifeCycleCallbacks c) ?r" ?r] by auto
next
  case (Some i)
  let ?r = "rr\<lparr>mResourceConfigs := (mResourceConfigs rr)[nat i := setLifeCycleCallbacks c],
      mSILMap := ((mSILMap rr)(resourceBitmap c := None))(resourceBitmap c \<mapsto> i)\<rparr>"
  have i: "0 \<le> i" "i < int (length (mResourceConfigs rr))" "resourceBitmap (mResourceConfigs rr ! nat i) = resourceBitmap c"
    using inv Some by (auto simp: reg_inv_def)
  have m: "(mSILMap rr)(resourceBitmap c \<mapsto> i) = mSILMap rr"
    using Some by (simp add: fun_eq_iff)
  have r: "registerResource env (Some c) rr = Some (fetchAndStoreDefaults env (setLifeCycleCallbacks c) ?r)"
    using Some res i by (simp add: registerResource_def isResourceConfigMalformed_def Let_def getResourceTableIndex_def)
  have "resourceBitmap ((mResourceConfigs rr)[nat i := setLifeCycleCallbacks c] ! n) =
      resourceBitmap (mResourceConfigs rr ! n)" for n
    using i by (cases "n = nat i") (auto simp: nat_less_iff)
  then have inv': "reg_inv ?r" using inv unfolding reg_inv_def by (auto simp: m)
  have uniq: "mSILMap rr k = Some j \<Longrightarrow> nat j = nat i \<Longrightarrow> k = resourceBitmap c" for k j
    using inv i by (fastforce simp: reg_inv_def)
  have "getResConf ?r k = (if k = resourceBitmap c then Some (setLifeCycleCallbacks c) else getResConf rr k)" for k
    unfolding getResConf_inv[OF inv'] getResConf_inv[OF inv] using Some i uniq[of k]
    by (cases "mSILMap rr k") (auto simp: nth_list_update nat_less_iff)
  moreover have "\<forall>k. getResourceTableIndex ?r k = getResourceTableIndex rr k"
    by (simp add: getResourceTableIndex_def Some)
  ultimately show ?thesis
    using r inv' getResConf_frame[of "fetchAndStoreDefaults env (setLifeCycleCallbacks c) ?r" ?r]
      reg_inv_frame[of "fetchAndStoreDefaults env (setLifeCycleCallbacks c) ?r" ?r] by auto
qed

lemma registerResource_malformed: "mResourceResType c = 0 \<Longrightarrow> registerResource env (Some c) rr = Some rr"
  by (simp add: registerResource_def isResourceConfigMalformed_def)

section \<open>The directory contract\<close>

locale config_directory =
  fixes inv :: "'s \<Rightarrow> bool" and conf :: "'s \<Rightarrow> 'k \<Rightarrow> 'c option" and idx :: "'s \<Rightarrow> 'k \<Rightarrow> int"
    and total :: "'s \<Rightarrow> int" and add :: "'c \<Rightarrow> 's \<Rightarrow> 's option" and key :: "'c \<Rightarrow> 'k"
    and stored_as :: "'c \<Rightarrow> 'c" and good :: "'c \<Rightarrow> bool"
  assumes conf_idx: "inv s \<Longrightarrow> conf s k = Some c \<Longrightarrow> 0 \<le> idx s k \<and> idx s k < total s"
    and idx_inj: "inv s \<Longrightarrow> conf s k = Some c \<Longrightarrow> conf s k' = Some c' \<Longrightarrow> idx s k = idx s k' \<Longrightarrow> k = k'"
    and add_conf: "inv s \<Longrightarrow> good c \<Longrightarrow>
      \<exists>t. add c s = Some t \<and> inv t \<and> (\<forall>k. conf t k = (if k = key c then Some (stored_as c) else conf s k))"
    and add_bad: "\<not> good c \<Longrightarrow> add c s = Some s"
begin

text \<open>Registering a whole file: the last good entry of a code wins.\<close>

lemma add_all:
  "inv s \<Longrightarrow> \<exists>t. foldM add cs s = Some t \<and> inv t \<and>
     (\<forall>k. conf t k = (case find (\<lambda>c. key c = k) (rev (filter good cs)) of
            Some c \<Rightarrow> Some (stored_as c) | None \<Rightarrow> conf s k))"
proof (induction cs arbitrary: s)
  case (Cons c cs)
  have f: "find P (xs @ [y]) = (case find P xs of Some z \<Rightarrow> Some z | None \<Rightarrow> if P y then Some y else None)"
    for P and xs :: "'c list" and y by (induction xs) auto
  show ?case
  proof (cases "good c")
    case True
    then obtain u where u: "add c s = Some u" "inv u"
      "\<And>k. conf u k = (if k = key c then Some (stored_as c) else conf s k)"
      using add_conf[OF Cons.prems True] by blast
    from Cons.IH[OF u(2)] obtain t where t: "foldM add cs u = Some t" "inv t"
      "\<And>k. conf t k = (case find (\<lambda>c. key c = k) (rev (filter good cs)) of
            Some c \<Rightarrow> Some (stored_as c) | None \<Rightarrow> conf u k)" by blast
    have "conf t k = (case find (\<lambda>c. key c = k) (rev (filter good (c # cs))) of
            Some c \<Rightarrow> Some (stored_as c) | None \<Rightarrow> conf s k)" for k
      using t(3)[of k] u(3)[of k] True by (simp add: f split: option.split)
    with t u show ?thesis by simp
  next
    case False
    with Cons.IH[OF Cons.prems] show ?thesis by (auto simp: add_bad)
  qed
qed simp

end

interpretation res_directory: config_directory reg_inv getResConf getResourceTableIndex getTotalResourcesCount
  "\<lambda>c. registerResource env (Some c)" resourceBitmap setLifeCycleCallbacks "\<lambda>c. mResourceResType c \<noteq> 0" for env
proof
  fix s k k' c c'
  assume inv: "reg_inv s"
  show "getResConf s k = Some c \<Longrightarrow> 0 \<le> getResourceTableIndex s k \<and> getResourceTableIndex s k < getTotalResourcesCount s"
    using getResConf_index[OF inv] by blast
  show "getResConf s k = Some c \<Longrightarrow> getResConf s k' = Some c' \<Longrightarrow>
      getResourceTableIndex s k = getResourceTableIndex s k' \<Longrightarrow> k = k'"
    by (rule getResourceTableIndex_inj[OF inv])
  show "mResourceResType c \<noteq> 0 \<Longrightarrow> \<exists>t. registerResource env (Some c) s = Some t \<and> reg_inv t \<and>
      (\<forall>k. getResConf t k = (if k = resourceBitmap c then Some (setLifeCycleCallbacks c) else getResConf s k))"
    using registerResource_spec[OF inv] by blast
qed (simp add: registerResource_malformed)

section \<open>The builder's target decision\<close>

text \<open>
  After any sequence of enabled targets the count is 1 exactly if this target was among them, and
  dually for disabled ones; an unsupported resource stays unsupported.
\<close>

definition enable_all :: "string \<Rightarrow> string list \<Rightarrow> config_builder \<Rightarrow> config_builder" where
  "enable_all self = fold (\<lambda>t b. snd (addTargetEnabled self t b))"

definition disable_all :: "string \<Rightarrow> string list \<Rightarrow> config_builder \<Rightarrow> config_builder" where
  "disable_all self = fold (\<lambda>t b. snd (addTargetDisabled self t b))"

lemma enable_all_count:
  "mResourceConfigInfo b \<noteq> None \<Longrightarrow> mTargetRefCount b \<in> {0, 1, -1} \<Longrightarrow> ts \<noteq> [] \<Longrightarrow>
     mTargetRefCount (enable_all self ts b) =
       (if self \<in> set ts \<or> mTargetRefCount b = 1 then 1 else -1) \<and>
     mResourceConfigInfo (enable_all self ts b) = mResourceConfigInfo b"
proof (induction ts arbitrary: b)
  case (Cons t ts)
  then show ?case
    by (cases "ts = []")
      (auto simp: enable_all_def addTargetEnabled_def unsupportedResoure_def Let_def)
qed simp

lemma disable_all_count:
  "mResourceConfigInfo b \<noteq> None \<Longrightarrow> mTargetRefCount b \<in> {0, 1, -1} \<Longrightarrow> ts \<noteq> [] \<Longrightarrow>
     mTargetRefCount (disable_all self ts b) =
       (if self \<in> set ts \<or> mTargetRefCount b = -1 then -1 else 1) \<and>
     mResourceConfigInfo (disable_all self ts b) = mResourceConfigInfo b"
proof (induction ts arbitrary: b)
  case (Cons t ts)
  then show ?case
    by (cases "ts = []")
      (auto simp: disable_all_def addTargetDisabled_def unsupportedResoure_def Let_def)
qed simp

lemma unsupported_stays:
  "mTargetRefCount b = unsupportedResoure \<Longrightarrow>
     mTargetRefCount (enable_all self ts b) = unsupportedResoure \<and>
     mTargetRefCount (disable_all self ts b) = unsupportedResoure"
  by (induction ts arbitrary: b)
    (simp_all add: enable_all_def disable_all_def addTargetEnabled_def addTargetDisabled_def)

end
