(* ===== verification/CocoTable.thy ===== *)
theory CocoTable
  imports Request ResourceRegistry
begin

text \<open>
  The concurrency coordinator \<^verbatim>\<open>resource-tuner/core/CocoTable.cpp\<close>. The table has a row
  per registered resource and, in each row, one intrusive list (linker 1) per priority level, or per
  level and core, cluster or cgroup. All lists share the heap of resource nodes with the request
  lists of linker 0. Calls of the lifecycle callbacks and of timers are recorded in a trace, the
  newest event first. Block allocation and the start of a timer are parameters.
\<close>

section \<open>State\<close>

datatype coco_event =
    CallApply lifecycle_cb resource
  | CallTear lifecycle_cb resource
  | TimerStart addr i64
  | TimerKill addr
  | TimerFree addr

record coco_env =
  ce_registry :: resource_registry
  ce_mode :: i8

record coco_state =
  c_heap :: res_heap
  mCocoTable :: "resource dl_manager list list"
  mCurrentlyAppliedPriority :: "int list"
  mFlatClusterMap :: "int \<Rightarrow> int option"
  mFlatCGroupMap :: "int \<Rightarrow> int option"
  c_trace :: "coco_event list"

definition flat_map :: "int list \<Rightarrow> int \<Rightarrow> int option" where
  "flat_map ids = fst (fold (\<lambda>x (m, sz). (m(x \<mapsto> sz), if m x = None then sz + 1 else sz)) ids ((\<lambda>_. None), 0))"

definition row_size :: "int \<Rightarrow> int \<Rightarrow> int \<Rightarrow> ResConfInfo \<Rightarrow> nat" where
  "row_size totalCoreCount totalClusterCount totalCGroupCount c =
     (case mApplyType c of
        APPLY_CORE \<Rightarrow> nat (TOTAL_PRIORITIES * totalCoreCount)
      | APPLY_CLUSTER \<Rightarrow> nat (TOTAL_PRIORITIES * totalClusterCount)
      | APPLY_CGROUP \<Rightarrow> nat (TOTAL_PRIORITIES * totalCGroupCount)
      | APPLY_GLOBAL \<Rightarrow> nat TOTAL_PRIORITIES)"

definition CocoTable_init ::
    "resource_registry \<Rightarrow> int list \<Rightarrow> int list \<Rightarrow> int \<Rightarrow> int \<Rightarrow> int \<Rightarrow> res_heap \<Rightarrow> coco_state" where
  "CocoTable_init rr clusterIDs cgroupIDs totalCoreCount totalClusterCount totalCGroupCount h =
     \<lparr>c_heap = h,
      mCocoTable = map (\<lambda>c. replicate (row_size totalCoreCount totalClusterCount totalCGroupCount c)
                              (DLManager_init COCO_TABLE_DL_NR)) (getRegisteredResources rr),
      mCurrentlyAppliedPriority = replicate (nat (getTotalResourcesCount rr)) (-1),
      mFlatClusterMap = flat_map clusterIDs, mFlatCGroupMap = flat_map cgroupIDs, c_trace = []\<rparr>"

section \<open>Comparators\<close>

definition compared_value :: "resource \<Rightarrow> i32 option" where
  "compared_value r = (if sint (getValuesCount r) = 1 then getValueAt r 0 else getValueAt r 1)"

definition comparHBetter :: "resource dl_policy" where
  "comparHBetter h newNode targetNode = do {
     first \<leftarrow> dl_data h newNode;
     second \<leftarrow> dl_data h targetNode;
     newValue \<leftarrow> compared_value first;
     targetValue \<leftarrow> compared_value second;
     Some (sint newValue > sint targetValue) }"

definition comparLBetter :: "resource dl_policy" where
  "comparLBetter h newNode targetNode = do {
     first \<leftarrow> dl_data h newNode;
     second \<leftarrow> dl_data h targetNode;
     newValue \<leftarrow> compared_value first;
     targetValue \<leftarrow> compared_value second;
     Some (sint newValue < sint targetValue) }"

section \<open>Actions\<close>

definition conf_of :: "coco_env \<Rightarrow> resource \<Rightarrow> ResConfInfo option" where
  "conf_of env r = getResConf (ce_registry env) (mResCode r)"

definition needsAllocation :: "coco_env \<Rightarrow> resource \<Rightarrow> bool option" where
  "needsAllocation env res = map_option (\<lambda>c. mPolicy c \<noteq> PASS_THROUGH \<and> mPolicy c \<noteq> PASS_THROUGH_APPEND) (conf_of env res)"

definition log_event :: "coco_event \<Rightarrow> coco_state \<Rightarrow> coco_state" where
  "log_event e st = st\<lparr>c_trace := e # c_trace st\<rparr>"

definition call_applier :: "ResConfInfo \<Rightarrow> resource \<Rightarrow> coco_state \<Rightarrow> coco_state" where
  "call_applier c r st =
     (case mResourceApplierCallback c of None \<Rightarrow> st | Some cb \<Rightarrow> log_event (CallApply cb r) st)"

definition applyAction :: "coco_env \<Rightarrow> addr option \<Rightarrow> nat \<Rightarrow> int \<Rightarrow> coco_state \<Rightarrow> coco_state option" where
  "applyAction env currNode index priority st =
     (case currNode of None \<Rightarrow> Some st
      | Some a \<Rightarrow> do {
          resource \<leftarrow> dl_data (c_heap st) a;
          (if index \<ge> length (mCurrentlyAppliedPriority st) then None
           else if mCurrentlyAppliedPriority st ! index \<ge> priority \<or> mCurrentlyAppliedPriority st ! index = -1 then do {
             c \<leftarrow> conf_of env resource;
             (if mModes c AND ce_mode env \<noteq> 0
              then Some ((call_applier c resource st)
                     \<lparr>mCurrentlyAppliedPriority := (mCurrentlyAppliedPriority st)[index := priority]\<rparr>)
              else Some st) }
           else Some st) })"

definition fastPathApply :: "coco_env \<Rightarrow> resource \<Rightarrow> coco_state \<Rightarrow> coco_state option" where
  "fastPathApply env resource st = do {
     c \<leftarrow> conf_of env resource;
     Some (if mModes c AND ce_mode env \<noteq> 0 then call_applier c resource st else st) }"

definition removeAction :: "coco_env \<Rightarrow> nat \<Rightarrow> resource option \<Rightarrow> coco_state \<Rightarrow> coco_state option" where
  "removeAction env index resource st =
     (case resource of None \<Rightarrow> Some st
      | Some r \<Rightarrow>
         (case conf_of env r of None \<Rightarrow> Some st
          | Some c \<Rightarrow>
             if index \<ge> length (mCurrentlyAppliedPriority st) then None
             else Some ((case mResourceTearCallback c of None \<Rightarrow> st | Some cb \<Rightarrow> log_event (CallTear cb r) st)
                    \<lparr>mCurrentlyAppliedPriority := (mCurrentlyAppliedPriority st)[index := -1]\<rparr>)))"

text \<open>The test is on the applier callback, the call is of the tear callback.\<close>

definition fastPathReset :: "coco_env \<Rightarrow> resource \<Rightarrow> coco_state \<Rightarrow> coco_state option" where
  "fastPathReset env resource st = do {
     c \<leftarrow> conf_of env resource;
     (if mResourceApplierCallback c \<noteq> None
      then (case mResourceTearCallback c of None \<Rightarrow> None | Some cb \<Rightarrow> Some (log_event (CallTear cb resource) st))
      else Some st) }"

section \<open>Indices\<close>

definition getCocoTablePrimaryIndex :: "coco_env \<Rightarrow> u32 \<Rightarrow> int" where
  "getCocoTablePrimaryIndex env opId =
     (if getResConf (ce_registry env) opId = None then -1
      else getResourceTableIndex (ce_registry env) opId)"

text \<open>
  \<^verbatim>\<open>operator[]\<close> on a missing key yields (and stores) 0, which no later lookup can tell from
  a missing key.
\<close>

definition flat_index :: "(int \<Rightarrow> int option) \<Rightarrow> int \<Rightarrow> int" where
  "flat_index m k = (case m k of None \<Rightarrow> 0 | Some i \<Rightarrow> i)"

definition getCocoTableSecondaryIndex :: "coco_env \<Rightarrow> coco_state \<Rightarrow> resource \<Rightarrow> int \<Rightarrow> int option" where
  "getCocoTableSecondaryIndex env st resource priority =
     (case conf_of env resource of None \<Rightarrow> Some (-1)
      | Some c \<Rightarrow>
         (case mApplyType c of
            APPLY_CORE \<Rightarrow> Some (sint (getCoreValue resource) * TOTAL_PRIORITIES + priority)
          | APPLY_CLUSTER \<Rightarrow>
              (let physicalCluster = sint (getClusterValue resource)
               in if physicalCluster = -1 then Some (-1)
                  else Some (flat_index (mFlatClusterMap st) physicalCluster * TOTAL_PRIORITIES + priority))
          | APPLY_CGROUP \<Rightarrow>
              (case getValueAt resource 0 of None \<Rightarrow> None
               | Some v \<Rightarrow> if sint v = -1 then Some (-1)
                          else Some (flat_index (mFlatCGroupMap st) (sint v) * TOTAL_PRIORITIES + priority))
          | APPLY_GLOBAL \<Rightarrow> Some priority))"

text \<open>Both bounds checks of the source: the row exists and has the cell.\<close>

definition in_table :: "coco_state \<Rightarrow> int \<Rightarrow> int \<Rightarrow> bool" where
  "in_table st p s \<longleftrightarrow> 0 \<le> p \<and> 0 \<le> s \<and> p < int (length (mCocoTable st)) \<and>
     s < int (length (mCocoTable st ! nat p))"

definition cell :: "coco_state \<Rightarrow> nat \<Rightarrow> nat \<Rightarrow> resource dl_manager" where
  "cell st p s = mCocoTable st ! p ! s"

definition set_cell :: "nat \<Rightarrow> nat \<Rightarrow> resource dl_manager \<Rightarrow> coco_state \<Rightarrow> coco_state" where
  "set_cell p s m st = st\<lparr>mCocoTable := (mCocoTable st)[p := (mCocoTable st ! p)[s := m]]\<rparr>"

section \<open>Insertion\<close>

text \<open>One list operation on a cell; then the node is applied if it became the head.\<close>

definition insert_and_apply ::
    "coco_env \<Rightarrow> addr \<Rightarrow> nat \<Rightarrow> nat \<Rightarrow> int \<Rightarrow> (res_heap \<times> resource dl_manager \<times> ErrCode) option \<Rightarrow>
       coco_state \<Rightarrow> coco_state option" where
  "insert_and_apply env newNode p s priority r st = do {
     (h, m, rc) \<leftarrow> r;
     let st = set_cell p s m (st\<lparr>c_heap := h\<rparr>);
     (if RC_IS_OK rc then do {
        isHead \<leftarrow> isNodeNthHelper h m 0 (Some newNode);
        (if isHead then applyAction env (Some newNode) p priority st else Some st) }
      else Some st) }"

definition insertInCocoTable :: "coco_env \<Rightarrow> addr option \<Rightarrow> int \<Rightarrow> coco_state \<Rightarrow> (bool \<times> coco_state) option" where
  "insertInCocoTable env newNode priority st =
     (case newNode of None \<Rightarrow> Some (False, st)
      | Some n \<Rightarrow> do {
          resource \<leftarrow> dl_data (c_heap st) n;
          (if mResAction resource = RES_SKIP then Some (False, st)
           else do {
             let primaryIndex = getCocoTablePrimaryIndex env (mResCode resource);
             secondaryIndex \<leftarrow> getCocoTableSecondaryIndex env st resource priority;
             (if \<not> in_table st primaryIndex secondaryIndex then Some (False, st)
              else do {
                rConf \<leftarrow> conf_of env resource;
                let p = nat primaryIndex;
                let s = nat secondaryIndex;
                let dlm = cell st p s;
                needs \<leftarrow> needsAllocation env resource;
                (if \<not> needs then do {
                   let st = (if mPolicy rConf = PASS_THROUGH then set_cell p s (dlm\<lparr>mRank := mRank dlm + 1\<rparr>) st else st);
                   st \<leftarrow> fastPathApply env resource st;
                   Some (True, st) }
                 else (case mPolicy rConf of
                     INSTANT_APPLY \<Rightarrow> map_option (Pair True) (insert_and_apply env n p s priority
                        (insertHelper_opt (c_heap st) dlm (Some n) INSERT_START 0) st)
                   | HIGHER_BETTER \<Rightarrow> map_option (Pair True) (insert_and_apply env n p s priority
                        (insertWithPolicyHelper (c_heap st) dlm (Some n) comparHBetter) st)
                   | LOWER_BETTER \<Rightarrow> map_option (Pair True) (insert_and_apply env n p s priority
                        (insertWithPolicyHelper (c_heap st) dlm (Some n) comparLBetter) st)
                   | LAZY_APPLY \<Rightarrow> map_option (Pair True) (insert_and_apply env n p s priority
                        (insertHelper (c_heap st) dlm (Some n)) st)
                   | _ \<Rightarrow> Some (False, st))) }) }) })"

text \<open>
  \<open>timer_block\<close> is the block the pool hands out for the timer, \<open>start_ok\<close> what
  \<^verbatim>\<open>startTimer\<close> answers.
\<close>

definition insert_body :: "coco_env \<Rightarrow> int \<Rightarrow> addr \<Rightarrow> int \<times> coco_state \<Rightarrow> (int \<times> coco_state) option" where
  "insert_body env prio iter =
     (\<lambda>(n, st). map_option (\<lambda>(b, st). (n + of_bool b, st)) (insertInCocoTable env (Some iter) prio st))"

text \<open>What follows the loop: give up when nothing was inserted, else start the timer.\<close>

definition finish_insert ::
    "bool \<Rightarrow> addr option \<Rightarrow> request \<Rightarrow> int \<times> coco_state \<Rightarrow> bool \<times> request option \<times> coco_state" where
  "finish_insert start_ok requestTimer req =
     (\<lambda>(appliedCount, st).
        if appliedCount = 0
        then (case requestTimer of
                None \<Rightarrow> (False, Some req, st)
              | Some t \<Rightarrow> (False, Some (unsetTimer req), log_event (TimerFree t) st))
        else if getDuration req \<noteq> -1
        then (case requestTimer of
                None \<Rightarrow> (False, Some req, st)
              | Some t \<Rightarrow> if start_ok then (True, Some req, log_event (TimerStart t (getDuration req)) st)
                          else (False, Some req, st))
        else (True, Some req, st))"

definition insertRequest ::
    "coco_env \<Rightarrow> addr option \<Rightarrow> bool \<Rightarrow> request option \<Rightarrow> coco_state \<Rightarrow> (bool \<times> request option \<times> coco_state) option" where
  "insertRequest env timer_block start_ok request st =
     (case request of None \<Rightarrow> Some (False, None, st)
      | Some req0 \<Rightarrow>
         (let req0 = setTimer None req0; finite = (getDuration req0 \<noteq> -1)
          in if finite \<and> timer_block = None then Some (False, Some req0, st)
             else
               (let requestTimer = (if finite then timer_block else None);
                    req = (if finite then setTimer timer_block req0 else req0)
                in case getResDlMgr req of None \<Rightarrow> Some (False, Some req, st)
                   | Some l \<Rightarrow> map_option (finish_insert start_ok requestTimer req)
                       (dl_iterate (mLinkerInUse l) (\<lambda>cs. c_heap (snd cs))
                          (insert_body env (sint (getPriority req))) (mHead l) (0, st)))))"

definition updateRequest ::
    "addr option \<Rightarrow> bool \<Rightarrow> request option \<Rightarrow> i64 \<Rightarrow> coco_state \<Rightarrow> (bool \<times> request option \<times> coco_state) option" where
  "updateRequest timer_block start_ok request duration st =
     (case request of None \<Rightarrow> Some (False, None, st)
      | Some req \<Rightarrow>
         if sint duration < -1 \<or> (sint duration > 0 \<and> sint duration < sint (getDuration req))
         then Some (False, Some req, st)
         else (case getTimer req of None \<Rightarrow> None
           | Some currTimer \<Rightarrow>
              (let req = setDuration duration (unsetTimer req);
                   st = log_event (TimerFree currTimer) (log_event (TimerKill currTimer) st)
               in case timer_block of None \<Rightarrow> Some (False, Some req, st)
                  | Some t \<Rightarrow>
                     (let req = setTimer (Some t) req
                      in if start_ok then Some (True, Some req, log_event (TimerStart t (getDuration req)) st)
                         else Some (False, Some req, st)))))"

section \<open>Removal\<close>

text \<open>
  The search for the best remaining request of the cell group: levels in order, the first list
  that is not empty. A cell outside the row is a fault.
\<close>

fun first_waiting :: "coco_state \<Rightarrow> nat \<Rightarrow> int \<Rightarrow> int list \<Rightarrow> int option option" where
  "first_waiting st p off [] = Some None"
| "first_waiting st p off (lvl # lvls) =
     (if \<not> in_table st (int p) (lvl + off) then None
      else if mHead (cell st p (nat (lvl + off))) \<noteq> None then Some (Some lvl)
      else first_waiting st p off lvls)"

definition priority_levels_list :: "int list" where
  "priority_levels_list = [0, 1, 2, 3]"

definition reapply ::
    "coco_env \<Rightarrow> resource \<Rightarrow> nat \<Rightarrow> coco_state \<Rightarrow> coco_state option" where
  "reapply env resource p st = do {
     c \<leftarrow> conf_of env resource;
     off \<leftarrow> (if mApplyType c = APPLY_CORE \<or> mApplyType c = APPLY_CLUSTER \<or> mApplyType c = APPLY_CGROUP
             then getCocoTableSecondaryIndex env st resource (sint SYSTEM_HIGH) else Some 0);
     (if mApplyType c \<noteq> APPLY_GLOBAL \<and> off = -1 then Some st
      else do {
        found \<leftarrow> first_waiting st p off priority_levels_list;
        (case found of
           None \<Rightarrow> removeAction env p (Some resource) st
         | Some prioLevel \<Rightarrow>
             if p \<ge> length (mCurrentlyAppliedPriority st) then None
             else applyAction env (mHead (cell st p (nat (prioLevel + off)))) p prioLevel
                    (st\<lparr>mCurrentlyAppliedPriority := (mCurrentlyAppliedPriority st)[p := prioLevel]\<rparr>)) }) }"

definition removeNode :: "coco_env \<Rightarrow> int \<Rightarrow> addr \<Rightarrow> coco_state \<Rightarrow> coco_state option" where
  "removeNode env priority iter st = do {
     resource \<leftarrow> dl_data (c_heap st) iter;
     (if mResAction resource = RES_SKIP then Some st
      else do {
        let primaryIndex = getCocoTablePrimaryIndex env (mResCode resource);
        secondaryIndex \<leftarrow> getCocoTableSecondaryIndex env st resource priority;
        (if \<not> in_table st primaryIndex secondaryIndex then Some st
         else do {
           rConf \<leftarrow> conf_of env resource;
           let p = nat primaryIndex;
           let s = nat secondaryIndex;
           let dlm = cell st p s;
           needs \<leftarrow> needsAllocation env resource;
           (if \<not> needs then
              (if mPolicy rConf = PASS_THROUGH then
                 (let st = set_cell p s (dlm\<lparr>mRank := mRank dlm - 1\<rparr>) st
                  in if mRank dlm - 1 = 0 then fastPathReset env resource st else Some st)
               else fastPathReset env resource st)
            else do {
              nodeIsHead \<leftarrow> isNodeNthHelper (c_heap st) dlm 0 (Some iter);
              (h, m, _) \<leftarrow> deleteNodeHelper (c_heap st) dlm (Some iter);
              let st = set_cell p s m (st\<lparr>c_heap := h\<rparr>);
              (if mHead m = None then reapply env resource p st
               else if nodeIsHead then applyAction env (mHead m) p priority st
               else Some st) }) }) }) }"

definition removeRequest :: "coco_env \<Rightarrow> request option \<Rightarrow> coco_state \<Rightarrow> (int \<times> coco_state) option" where
  "removeRequest env request st =
     (case request of None \<Rightarrow> None
      | Some req \<Rightarrow>
         (case getResDlMgr req of None \<Rightarrow> Some (0, st)
          | Some l \<Rightarrow> map_option (Pair 0)
              (dl_iterate (mLinkerInUse l) c_heap (removeNode env (sint (getPriority req))) (mHead l) st)))"

text \<open>What expiry of a timer sends to the request queue.\<close>

definition timerExpired :: "request option \<Rightarrow> request \<Rightarrow> request option" where
  "timerExpired untune_block req = populateUntuneRequest req (map_option Request_init untune_block)"

section \<open>The lists of the table\<close>

definition valid_cell :: "coco_state \<Rightarrow> nat \<Rightarrow> nat \<Rightarrow> bool" where
  "valid_cell st p s \<longleftrightarrow> p < length (mCocoTable st) \<and> s < length (mCocoTable st ! p)"

text \<open>\<open>L p s\<close> lists the nodes of cell \<open>(p, s)\<close>; a node is in at most one cell.\<close>

definition coco_rel :: "coco_state \<Rightarrow> (nat \<Rightarrow> nat \<Rightarrow> addr list) \<Rightarrow> bool" where
  "coco_rel st L \<longleftrightarrow>
     length (mCurrentlyAppliedPriority st) = length (mCocoTable st) \<and>
     (\<forall>p s. valid_cell st p s \<longrightarrow>
        dl_list (c_heap st) (cell st p s) (L p s) \<and> mLinkerInUse (cell st p s) = COCO_TABLE_DL_NR) \<and>
     (\<forall>p s p' s'. valid_cell st p s \<longrightarrow> valid_cell st p' s' \<longrightarrow> (p, s) \<noteq> (p', s') \<longrightarrow>
        set (L p s) \<inter> set (L p' s') = {})"

definition outside :: "coco_state \<Rightarrow> (nat \<Rightarrow> nat \<Rightarrow> addr list) \<Rightarrow> addr \<Rightarrow> bool" where
  "outside st L n \<longleftrightarrow> (\<forall>p s. valid_cell st p s \<longrightarrow> n \<notin> set (L p s))"

lemma set_cell_simps [simp]:
  "c_heap (set_cell p s m st) = c_heap st"
  "mCurrentlyAppliedPriority (set_cell p s m st) = mCurrentlyAppliedPriority st"
  "mFlatClusterMap (set_cell p s m st) = mFlatClusterMap st"
  "mFlatCGroupMap (set_cell p s m st) = mFlatCGroupMap st"
  "c_trace (set_cell p s m st) = c_trace st"
  "length (mCocoTable (set_cell p s m st)) = length (mCocoTable st)"
  by (simp_all add: set_cell_def)

lemma set_cell_row_length [simp]: "length (mCocoTable (set_cell p s m st) ! q) = length (mCocoTable st ! q)"
  by (cases "p < length (mCocoTable st)") (auto simp: set_cell_def nth_list_update list_update_beyond)

lemma valid_cell_set_cell [simp]: "valid_cell (set_cell p s m st) = valid_cell st"
  by (auto simp: valid_cell_def fun_eq_iff)

lemma valid_cell_heap [simp]: "valid_cell (st\<lparr>c_heap := h\<rparr>) = valid_cell st"
  by (auto simp: valid_cell_def fun_eq_iff)

lemma cell_heap [simp]: "cell (st\<lparr>c_heap := h\<rparr>) p s = cell st p s"
  by (simp add: cell_def)

lemma cell_set_cell:
  "valid_cell st p s \<Longrightarrow> cell (set_cell p s m st) p' s' = (if p' = p \<and> s' = s then m else cell st p' s')"
  by (cases "s' < length (mCocoTable st ! p)") (auto simp: cell_def set_cell_def valid_cell_def nth_list_update)

lemma in_table_valid: "in_table st p s \<longleftrightarrow> 0 \<le> p \<and> 0 \<le> s \<and> valid_cell st (nat p) (nat s)"
  by (auto simp: in_table_def valid_cell_def)

text \<open>A list operation on one cell keeps the relation.\<close>

lemma coco_update:
  assumes rel: "coco_rel st L" and v: "valid_cell st p s"
    and m: "dl_list h' m' ys" "mLinkerInUse m' = COCO_TABLE_DL_NR"
    and fr: "dl_frame COCO_TABLE_DL_NR A (c_heap st) h'" and A: "A \<subseteq> insert n (set (L p s))"
    and n: "\<forall>p' s'. valid_cell st p' s' \<longrightarrow> (p', s') \<noteq> (p, s) \<longrightarrow> n \<notin> set (L p' s')"
    and ys: "set ys \<subseteq> insert n (set (L p s))"
  shows "coco_rel (set_cell p s m' (st\<lparr>c_heap := h'\<rparr>)) (L(p := (L p)(s := ys)))"
proof -
  let ?st = "set_cell p s m' (st\<lparr>c_heap := h'\<rparr>)" and ?L = "L(p := (L p)(s := ys))"
  have sep: "set (L p' s') \<inter> insert n (set (L p s)) = {}" if "valid_cell st p' s'" "(p', s') \<noteq> (p, s)" for p' s'
    using that rel v n unfolding coco_rel_def by blast
  have c: "cell ?st p' s' = (if p' = p \<and> s' = s then m' else cell st p' s')" for p' s'
    using cell_set_cell[of "st\<lparr>c_heap := h'\<rparr>" p s m' p' s'] v by simp
  have "dl_list h' (cell ?st p' s') (?L p' s') \<and> mLinkerInUse (cell ?st p' s') = COCO_TABLE_DL_NR"
    if "valid_cell st p' s'" for p' s'
  proof (cases "(p', s') = (p, s)")
    case True
    then show ?thesis using m c by simp
  next
    case False
    have "dl_list (c_heap st) (cell st p' s') (L p' s') \<and> mLinkerInUse (cell st p' s') = COCO_TABLE_DL_NR"
      using rel that by (auto simp: coco_rel_def)
    moreover have "A \<inter> set (L p' s') = {}" using sep[OF that False] A by blast
    ultimately show ?thesis using dl_list_frame[OF fr] c False by auto
  qed
  moreover have "set (?L a b) \<inter> set (?L a' b') = {}"
    if "valid_cell st a b" "valid_cell st a' b'" "(a, b) \<noteq> (a', b')" for a b a' b'
  proof -
    consider "(a, b) = (p, s)" | "(a', b') = (p, s)" | "(a, b) \<noteq> (p, s)" "(a', b') \<noteq> (p, s)" by blast
    then show ?thesis
    proof cases
      case 1
      then show ?thesis using sep[OF that(2)] that(3) ys by (auto simp: disjoint_iff)
    next
      case 2
      then show ?thesis using sep[OF that(1)] that(3) ys by (auto simp: disjoint_iff)
    next
      case 3
      have "set (L a b) \<inter> set (L a' b') = {}" using rel that unfolding coco_rel_def by blast
      with 3 show ?thesis by auto
    qed
  qed
  ultimately show ?thesis using rel by (simp add: coco_rel_def)
qed

lemma coco_rel_other [intro]:
  "coco_rel st L \<Longrightarrow> c_heap st' = c_heap st \<Longrightarrow> mCocoTable st' = mCocoTable st \<Longrightarrow>
   length (mCurrentlyAppliedPriority st') = length (mCurrentlyAppliedPriority st) \<Longrightarrow> coco_rel st' L"
  by (simp add: coco_rel_def valid_cell_def cell_def)

section \<open>Where a node is put\<close>

definition cval :: "res_heap \<Rightarrow> addr \<Rightarrow> int" where
  "cval h a = (case Option.bind (dl_data h a) compared_value of None \<Rightarrow> 0 | Some v \<Rightarrow> sint v)"

definition comparable :: "res_heap \<Rightarrow> addr \<Rightarrow> bool" where
  "comparable h a \<longleftrightarrow> (\<exists>r v. dl_data h a = Some r \<and> compared_value r = Some v)"

lemma comparHBetter_cval:
  "comparable h n \<Longrightarrow> comparable h a \<Longrightarrow> comparHBetter h n a = Some (cval h a < cval h n)"
  by (auto simp: comparable_def comparHBetter_def cval_def)

lemma comparLBetter_cval:
  "comparable h n \<Longrightarrow> comparable h a \<Longrightarrow> comparLBetter h n a = Some (cval h n < cval h a)"
  by (auto simp: comparable_def comparLBetter_def cval_def)

definition cell_op ::
    "Policy \<Rightarrow> res_heap \<Rightarrow> resource dl_manager \<Rightarrow> addr \<Rightarrow> (res_heap \<times> resource dl_manager \<times> ErrCode) option" where
  "cell_op pol h dlm n =
     (case pol of
        INSTANT_APPLY \<Rightarrow> insertHelper_opt h dlm (Some n) INSERT_START 0
      | HIGHER_BETTER \<Rightarrow> insertWithPolicyHelper h dlm (Some n) comparHBetter
      | LOWER_BETTER \<Rightarrow> insertWithPolicyHelper h dlm (Some n) comparLBetter
      | _ \<Rightarrow> insertHelper h dlm (Some n))"

definition place :: "Policy \<Rightarrow> res_heap \<Rightarrow> addr \<Rightarrow> addr list \<Rightarrow> addr list" where
  "place pol h n xs =
     (case pol of
        INSTANT_APPLY \<Rightarrow> n # xs
      | HIGHER_BETTER \<Rightarrow> policy_insert (\<lambda>a. cval h a < cval h n) n xs
      | LOWER_BETTER \<Rightarrow> policy_insert (\<lambda>a. cval h n < cval h a) n xs
      | _ \<Rightarrow> xs @ [n])"

lemma set_place [simp]: "set (place pol h n xs) = insert n (set xs)"
  by (cases pol) (auto simp: place_def)

lemma place_nonempty [simp]: "place pol h n xs \<noteq> []"
  using set_place[of pol h n xs] by (metis empty_iff empty_set insertI1)

lemma hd_place: "hd (place pol h n xs) \<noteq> n \<Longrightarrow> xs \<noteq> [] \<and> hd (place pol h n xs) = hd xs"
  by (cases xs; cases pol) (auto simp: place_def policy_insert_def split: if_splits)

lemma cell_op_list:
  assumes "dl_list h m xs" "n \<notin> set xs" "comparable h n" "\<forall>a\<in>set xs. comparable h a"
  shows "dl_done h m (insert n (set xs)) (place pol h n xs) (cell_op pol h m n)"
proof -
  have hn: "h n \<noteq> None" using assms(3) by (auto simp: comparable_def dl_data_def)
  have "dl_done h m (insert n (set xs)) (policy_insert (\<lambda>a. cval h a < cval h n) n xs)
      (insertWithPolicyHelper h m (Some n) comparHBetter)"
    using assms hn by (intro insertWithPolicyHelper_list) (auto simp: comparHBetter_cval)
  moreover have "dl_done h m (insert n (set xs)) (policy_insert (\<lambda>a. cval h n < cval h a) n xs)
      (insertWithPolicyHelper h m (Some n) comparLBetter)"
    using assms hn by (intro insertWithPolicyHelper_list) (auto simp: comparLBetter_cval)
  ultimately show ?thesis
    using insertHelper_list[OF assms(1,2) hn] insertStart_list[OF assms(1,2) hn]
    by (cases pol) (auto simp: cell_op_def place_def insertHelper_opt_def)
qed

text \<open>Ordered placement keeps the lists of the value policies sorted.\<close>

lemma place_sorted:
  "sorted_wrt (\<lambda>x y. \<not> cval h y > cval h x) xs \<Longrightarrow>
     sorted_wrt (\<lambda>x y. \<not> cval h y > cval h x) (place HIGHER_BETTER h n xs)"
  "sorted_wrt (\<lambda>x y. \<not> cval h y < cval h x) xs \<Longrightarrow>
     sorted_wrt (\<lambda>x y. \<not> cval h y < cval h x) (place LOWER_BETTER h n xs)"
  using higher_better.insert_keeps_order[of "cval h" xs n] lower_better.insert_keeps_order[of "cval h" xs n]
  by (simp_all add: place_def)

section \<open>What is in effect\<close>

text \<open>The resource whose applier ran last for a code, unless its tear-down ran after that.\<close>

fun in_effect :: "u32 \<Rightarrow> coco_event list \<Rightarrow> resource option" where
  "in_effect k [] = None"
| "in_effect k (CallApply cb r # es) = (if mResCode r = k then Some r else in_effect k es)"
| "in_effect k (CallTear cb r # es) = (if mResCode r = k then None else in_effect k es)"
| "in_effect k (e # es) = in_effect k es"

definition good_env :: "coco_env \<Rightarrow> bool" where
  "good_env env \<longleftrightarrow> reg_inv (ce_registry env) \<and>
     (\<forall>k c. getResConf (ce_registry env) k = Some c \<longrightarrow>
        mResourceApplierCallback c \<noteq> None \<and> mResourceTearCallback c \<noteq> None)"

text \<open>Resources the table arbitrates system-wide in the current mode.\<close>

definition managed :: "coco_env \<Rightarrow> ResConfInfo \<Rightarrow> bool" where
  "managed env c \<longleftrightarrow> mApplyType c = APPLY_GLOBAL \<and> mPolicy c \<noteq> PASS_THROUGH \<and>
     mPolicy c \<noteq> PASS_THROUGH_APPEND \<and> mModes c AND ce_mode env \<noteq> 0"

definition row_of :: "coco_env \<Rightarrow> u32 \<Rightarrow> nat" where
  "row_of env k = nat (getResourceTableIndex (ce_registry env) k)"

definition top_level :: "(nat \<Rightarrow> addr list) \<Rightarrow> nat option" where
  "top_level row = find (\<lambda>s. row s \<noteq> []) [0, 1, 2, 3]"

text \<open>
  The correctness condition of a row: the recorded priority is that of the first level with a
  request, and what is in effect is the head of that level's list; nothing when all are empty.
\<close>

definition row_ok :: "coco_env \<Rightarrow> coco_state \<Rightarrow> (nat \<Rightarrow> nat \<Rightarrow> addr list) \<Rightarrow> u32 \<Rightarrow> bool" where
  "row_ok env st L k \<longleftrightarrow>
     (let p = row_of env k in
      mCurrentlyAppliedPriority st ! p = (case top_level (L p) of None \<Rightarrow> -1 | Some s \<Rightarrow> int s) \<and>
      in_effect k (c_trace st) =
        (case top_level (L p) of None \<Rightarrow> None | Some s \<Rightarrow> dl_data (c_heap st) (hd (L p s))))"

text \<open>The lists of the value policies are sorted, the best value first.\<close>

definition cell_sorted :: "Policy \<Rightarrow> res_heap \<Rightarrow> addr list \<Rightarrow> bool" where
  "cell_sorted pol h xs \<longleftrightarrow>
     (pol = HIGHER_BETTER \<longrightarrow> sorted_wrt (\<lambda>x y. \<not> cval h y > cval h x) xs) \<and>
     (pol = LOWER_BETTER \<longrightarrow> sorted_wrt (\<lambda>x y. \<not> cval h y < cval h x) xs)"

definition row_nodes :: "Policy \<Rightarrow> coco_state \<Rightarrow> nat \<Rightarrow> (nat \<Rightarrow> addr list) \<Rightarrow> u32 \<Rightarrow> bool" where
  "row_nodes pol st p row k \<longleftrightarrow>
     (\<forall>s < length (mCocoTable st ! p). cell_sorted pol (c_heap st) (row s) \<and>
        (\<forall>a\<in>set (row s). comparable (c_heap st) a \<and> (\<exists>r. dl_data (c_heap st) a = Some r \<and> mResCode r = k)))"

lemma place_cell_sorted: "cell_sorted pol h xs \<Longrightarrow> cell_sorted pol h (place pol h n xs)"
  unfolding cell_sorted_def using place_sorted by (cases pol) simp_all

lemma sorted_wrt_remove1: "sorted_wrt P xs \<Longrightarrow> sorted_wrt P (remove1 x xs)"
  by (induction xs) (use notin_set_remove1 in \<open>fastforce+\<close>)

lemma remove_cell_sorted: "cell_sorted pol h xs \<Longrightarrow> cell_sorted pol h (remove1 n xs)"
  unfolding cell_sorted_def by (simp add: sorted_wrt_remove1)

definition coco_inv :: "coco_env \<Rightarrow> coco_state \<Rightarrow> (nat \<Rightarrow> nat \<Rightarrow> addr list) \<Rightarrow> bool" where
  "coco_inv env st L \<longleftrightarrow> coco_rel st L \<and> length (mCocoTable st) = nat (getTotalResourcesCount (ce_registry env)) \<and>
     (\<forall>k c. getResConf (ce_registry env) k = Some c \<longrightarrow>
        length (mCocoTable st ! row_of env k) mod 4 = 0 \<and> row_nodes (mPolicy c) st (row_of env k) (L (row_of env k)) k \<and>
        (managed env c \<longrightarrow> length (mCocoTable st ! row_of env k) = 4 \<and> row_ok env st L k))"

text \<open>A step that concerns one row: everything but the applied priority and effect of that row stays.\<close>

definition touches :: "u32 \<Rightarrow> nat \<Rightarrow> coco_state \<Rightarrow> coco_state \<Rightarrow> bool" where
  "touches k p st st' \<longleftrightarrow>
     c_heap st' = c_heap st \<and> mCocoTable st' = mCocoTable st \<and>
     mFlatClusterMap st' = mFlatClusterMap st \<and> mFlatCGroupMap st' = mFlatCGroupMap st \<and>
     length (mCurrentlyAppliedPriority st') = length (mCurrentlyAppliedPriority st) \<and>
     (\<forall>q. q \<noteq> p \<longrightarrow> mCurrentlyAppliedPriority st' ! q = mCurrentlyAppliedPriority st ! q) \<and>
     (\<forall>k'. k' \<noteq> k \<longrightarrow> in_effect k' (c_trace st') = in_effect k' (c_trace st))"

text \<open>The parts of the state that index computations look at.\<close>

definition same_shape :: "coco_state \<Rightarrow> coco_state \<Rightarrow> bool" where
  "same_shape st st' \<longleftrightarrow>
     mFlatClusterMap st' = mFlatClusterMap st \<and> mFlatCGroupMap st' = mFlatCGroupMap st \<and>
     length (mCocoTable st') = length (mCocoTable st) \<and>
     (\<forall>q. length (mCocoTable st' ! q) = length (mCocoTable st ! q))"

lemma same_shape_refl [simp]: "same_shape st st"
  by (simp add: same_shape_def)

lemma same_shape_trans: "same_shape a b \<Longrightarrow> same_shape b c \<Longrightarrow> same_shape a c"
  by (simp add: same_shape_def)

lemma touches_shape: "touches k p st st' \<Longrightarrow> same_shape st st'"
  by (simp add: touches_def same_shape_def)

lemma set_cell_shape: "same_shape st (set_cell p s m (st\<lparr>c_heap := h\<rparr>))" "same_shape st (set_cell p s m st)"
  using set_cell_row_length[of p s m "st\<lparr>c_heap := h\<rparr>"] set_cell_row_length[of p s m st]
  by (simp_all add: same_shape_def)

lemma touches_refl [simp]: "touches k p st st"
  by (simp add: touches_def)

lemma touches_trans: "touches k p a b \<Longrightarrow> touches k p b c \<Longrightarrow> touches k p a c"
  by (simp add: touches_def)

lemma touches_set_applied: "touches k p st (st\<lparr>mCurrentlyAppliedPriority := (mCurrentlyAppliedPriority st)[p := x]\<rparr>)"
  by (auto simp: touches_def)

lemma good_env_conf:
  "good_env env \<Longrightarrow> conf_of env r = Some c \<Longrightarrow>
     \<exists>ca ct. mResourceApplierCallback c = Some ca \<and> mResourceTearCallback c = Some ct"
  unfolding good_env_def conf_of_def by blast

lemma row_of_bound:
  "good_env env \<Longrightarrow> getResConf (ce_registry env) k = Some c \<Longrightarrow>
     row_of env k < nat (getTotalResourcesCount (ce_registry env)) \<and>
     getResourceTableIndex (ce_registry env) k = int (row_of env k)"
  using res_directory.conf_idx[of "ce_registry env" k c] by (auto simp: good_env_def row_of_def)

lemma row_of_inj:
  "good_env env \<Longrightarrow> getResConf (ce_registry env) k = Some c \<Longrightarrow> getResConf (ce_registry env) k' = Some c' \<Longrightarrow>
     row_of env k = row_of env k' \<Longrightarrow> k = k'"
  using row_of_bound[of env k c] row_of_bound[of env k' c'] res_directory.idx_inj[of "ce_registry env" k c k' c']
  by (auto simp: good_env_def)

lemma applyAction_effect:
  assumes "good_env env" "dl_data (c_heap st) a = Some r" "conf_of env r = Some c"
    and "p < length (mCurrentlyAppliedPriority st)"
  shows "\<exists>st'. applyAction env (Some a) p prio st = Some st' \<and> touches (mResCode r) p st st' \<and>
    (if (mCurrentlyAppliedPriority st ! p \<ge> prio \<or> mCurrentlyAppliedPriority st ! p = -1) \<and> mModes c AND ce_mode env \<noteq> 0
     then mCurrentlyAppliedPriority st' ! p = prio \<and> in_effect (mResCode r) (c_trace st') = Some r
     else st' = st)"
proof -
  obtain ca where "mResourceApplierCallback c = Some ca" using good_env_conf[OF assms(1,3)] by blast
  then show ?thesis using assms
    by (auto simp: applyAction_def call_applier_def log_event_def touches_def)
qed

lemma removeAction_effect:
  assumes "good_env env" "conf_of env r = Some c" "p < length (mCurrentlyAppliedPriority st)"
  shows "\<exists>st'. removeAction env p (Some r) st = Some st' \<and> touches (mResCode r) p st st' \<and>
    mCurrentlyAppliedPriority st' ! p = -1 \<and> in_effect (mResCode r) (c_trace st') = None"
proof -
  obtain ct where "mResourceTearCallback c = Some ct" using good_env_conf[OF assms(1,2)] by blast
  then show ?thesis using assms by (auto simp: removeAction_def log_event_def touches_def)
qed

lemma fastPathApply_effect:
  "conf_of env r = Some c \<Longrightarrow> \<exists>st'. fastPathApply env r st = Some st' \<and> touches (mResCode r) p st st' \<and>
     mCurrentlyAppliedPriority st' = mCurrentlyAppliedPriority st"
  by (auto simp: fastPathApply_def call_applier_def log_event_def touches_def split: option.splits)

lemma fastPathReset_effect:
  "good_env env \<Longrightarrow> conf_of env r = Some c \<Longrightarrow> \<exists>st'. fastPathReset env r st = Some st' \<and> touches (mResCode r) p st st' \<and>
     mCurrentlyAppliedPriority st' = mCurrentlyAppliedPriority st"
  by (auto simp: fastPathReset_def log_event_def touches_def dest!: good_env_conf)

lemma top_level_insert:
  "s < 4 \<Longrightarrow> ys \<noteq> [] \<Longrightarrow>
     top_level (row(s := ys)) = (case top_level row of None \<Rightarrow> Some s | Some t \<Rightarrow> Some (min s t))"
proof -
  assume "s < 4" "ys \<noteq> []"
  then consider "s = 0" | "s = 1" | "s = 2" | "s = 3" by linarith
  then show ?thesis using \<open>ys \<noteq> []\<close> by cases (auto simp: top_level_def)
qed

lemma top_level_Some: "top_level row = Some t \<Longrightarrow> t < 4 \<and> row t \<noteq> [] \<and> (\<forall>s<t. row s = [])"
proof -
  assume t: "top_level row = Some t"
  have "\<forall>s<t. row s = []"
  proof (intro allI impI)
    fix s assume s: "s < t"
    have "t < 4" using t by (auto simp: top_level_def split: if_splits)
    then consider "s = 0" | "s = 1" | "s = 2" using s by linarith
    then show "row s = []" using t s by cases (auto simp: top_level_def split: if_splits)
  qed
  with t show ?thesis by (auto simp: top_level_def split: if_splits)
qed

lemma top_level_None: "top_level row = None \<Longrightarrow> s < 4 \<Longrightarrow> row s = []"
proof -
  assume t: "top_level row = None" "s < 4"
  then consider "s = 0" | "s = 1" | "s = 2" | "s = 3" by linarith
  then show ?thesis using t by cases (auto simp: top_level_def split: if_splits)
qed

section \<open>The invariant under a step\<close>

lemma row_nodes_data:
  "(\<And>b. dl_data (c_heap st') b = dl_data (c_heap st) b) \<Longrightarrow>
   length (mCocoTable st' ! p) = length (mCocoTable st ! p) \<Longrightarrow> row_nodes pol st' p row k = row_nodes pol st p row k"
  by (simp add: row_nodes_def comparable_def cell_sorted_def cval_def)

text \<open>\<open>st1\<close> is the state after the list operation, \<open>st2\<close> after the action on row \<open>p\<close>.\<close>

lemma coco_inv_step:
  assumes env: "good_env env" and inv: "coco_inv env st L" and conf: "getResConf (ce_registry env) k = Some c"
    and p: "p = row_of env k" and rel: "coco_rel st1 (L(p := row))"
    and data: "\<And>b. dl_data (c_heap st1) b = dl_data (c_heap st) b"
    and len: "length (mCocoTable st1) = length (mCocoTable st)"
      "\<And>q. length (mCocoTable st1 ! q) = length (mCocoTable st ! q)"
    and same: "mCurrentlyAppliedPriority st1 = mCurrentlyAppliedPriority st" "c_trace st1 = c_trace st"
    and t: "touches k p st1 st2" and nodes: "row_nodes (mPolicy c) st p row k"
    and ok: "managed env c \<Longrightarrow> row_ok env st2 (L(p := row)) k"
  shows "coco_inv env st2 (L(p := row))"
proof -
  have rel2: "coco_rel st2 (L(p := row))" using rel t by (auto simp: touches_def)
  have tab: "mCocoTable st2 = mCocoTable st1" "c_heap st2 = c_heap st1" using t by (auto simp: touches_def)
  have rows: "length (mCocoTable st2 ! row_of env k') mod 4 = 0 \<and>
      row_nodes (mPolicy c') st2 (row_of env k') ((L(p := row)) (row_of env k')) k' \<and>
      (managed env c' \<longrightarrow> length (mCocoTable st2 ! row_of env k') = 4 \<and> row_ok env st2 (L(p := row)) k')"
    if c': "getResConf (ce_registry env) k' = Some c'" for k' c'
  proof -
    have old: "length (mCocoTable st ! row_of env k') mod 4 = 0"
      "row_nodes (mPolicy c') st (row_of env k') (L (row_of env k')) k'"
      "managed env c' \<Longrightarrow> length (mCocoTable st ! row_of env k') = 4 \<and> row_ok env st L k'"
      using inv c' unfolding coco_inv_def by blast+
    have rn: "row_nodes pol st2 q r k'' = row_nodes pol st q r k''" for pol q r k''
      by (rule row_nodes_data) (simp_all add: data len tab)
    show ?thesis
    proof (cases "k' = k")
      case True
      then show ?thesis using old nodes ok conf c' p by (simp add: rn len tab)
    next
      case False
      then have q: "row_of env k' \<noteq> p" using row_of_inj[OF env conf c'] p by auto
      have "row_ok env st2 (L(p := row)) k'" if "row_ok env st L k'"
        using that q False t same data unfolding row_ok_def touches_def Let_def by (simp split: option.splits)
      then show ?thesis using old q by (auto simp: rn len tab)
    qed
  qed
  show ?thesis unfolding coco_inv_def using rel2 inv rows by (auto simp: coco_inv_def tab len)
qed

lemma coco_inv_conf:
  assumes "good_env env" "coco_inv env st L" "getResConf (ce_registry env) k = Some c"
  shows "row_of env k < length (mCocoTable st)" "row_of env k < length (mCurrentlyAppliedPriority st)"
    "getCocoTablePrimaryIndex env k = int (row_of env k)"
  using row_of_bound[OF assms(1,3)] assms by (auto simp: coco_inv_def coco_rel_def getCocoTablePrimaryIndex_def)

section \<open>Insertion keeps the invariant\<close>

text \<open>The action after an insertion at level \<open>s\<close> of a managed row restores the row condition.\<close>

lemma row_ok_insert:
  assumes ok: "row_ok env st L k" and p: "p = row_of env k" and s: "s < 4"
    and ys: "set ys = insert n (set (L p s))" "hd ys \<noteq> n \<longrightarrow> L p s \<noteq> [] \<and> hd ys = hd (L p s)"
    and same: "mCurrentlyAppliedPriority st1 = mCurrentlyAppliedPriority st" "c_trace st1 = c_trace st"
    and data: "\<And>b. dl_data (c_heap st2) b = dl_data (c_heap st) b" "dl_data (c_heap st) n = Some r"
    and act: "if hd ys = n \<and> (mCurrentlyAppliedPriority st1 ! p \<ge> int s \<or> mCurrentlyAppliedPriority st1 ! p = -1)
      then mCurrentlyAppliedPriority st2 ! p = int s \<and> in_effect k (c_trace st2) = Some r
      else mCurrentlyAppliedPriority st2 ! p = mCurrentlyAppliedPriority st1 ! p \<and>
        in_effect k (c_trace st2) = in_effect k (c_trace st1)"
  shows "row_ok env st2 (L(p := (L p)(s := ys))) k"
proof -
  have ne: "ys \<noteq> []" using ys(1) by auto
  note top = top_level_insert[OF s ne, of "L p"]
  show ?thesis
  proof (cases "top_level (L p)")
    case None
    then have "hd ys = n" using ys(2) top_level_None[OF None s] by auto
    then show ?thesis using None ok act same data top p by (auto simp: row_ok_def Let_def)
  next
    case (Some t)
    note t = top_level_Some[OF Some]
    have cur: "mCurrentlyAppliedPriority st ! p = int t" "in_effect k (c_trace st) = dl_data (c_heap st) (hd (L p t))"
      using ok Some p by (auto simp: row_ok_def Let_def)
    show ?thesis
    proof (cases "hd ys = n \<and> t \<ge> s")
      case True
      then have "min s t = s" by simp
      then show ?thesis using True act same cur data top Some p by (simp add: row_ok_def Let_def)
    next
      case False
      have le: "t \<le> s" using False ys(2) t by (metis nat_le_linear not_less)
      then have "min s t = t" by simp
      moreover have "hd (((L p)(s := ys)) t) = hd (L p t)" using False ys(2) le by auto
      ultimately show ?thesis using False act same cur data top Some p by (auto simp: row_ok_def Let_def)
    qed
  qed
qed

definition index_ok :: "coco_env \<Rightarrow> coco_state \<Rightarrow> resource \<Rightarrow> int \<Rightarrow> int \<Rightarrow> bool" where
  "index_ok env st r prio s \<longleftrightarrow> getCocoTableSecondaryIndex env st r prio = Some s"

lemma managed_index:
  "conf_of env r = Some c \<Longrightarrow> managed env c \<Longrightarrow> getCocoTableSecondaryIndex env st r prio = Some prio"
  by (simp add: getCocoTableSecondaryIndex_def managed_def)

text \<open>What a node must be like to be inserted or removed safely.\<close>

definition node_for :: "coco_state \<Rightarrow> addr \<Rightarrow> resource \<Rightarrow> bool" where
  "node_for st n r \<longleftrightarrow> dl_data (c_heap st) n = Some r \<and> comparable (c_heap st) n \<and> getValueAt r 0 \<noteq> None"

lemma secondary_defined:
  "getValueAt r 0 \<noteq> None \<Longrightarrow> \<exists>s. getCocoTableSecondaryIndex env st r prio = Some s"
  by (auto simp: getCocoTableSecondaryIndex_def Let_def split: option.splits ResourceApplyType.splits)

lemma set_cell_rank_rel:
  "coco_rel st L \<Longrightarrow> valid_cell st p s \<Longrightarrow> coco_rel (set_cell p s ((cell st p s)\<lparr>mRank := x\<rparr>) st) L"
  unfolding coco_rel_def by (auto simp: cell_set_cell)

text \<open>Outcome of \<^verbatim>\<open>insertInCocoTable\<close> on a node that needs a cell.\<close>

lemma insertInCocoTable_alloc:
  assumes "dl_data (c_heap st) n = Some r" "mResAction r \<noteq> RES_SKIP" "conf_of env r = Some c"
    and "mPolicy c \<noteq> PASS_THROUGH" "mPolicy c \<noteq> PASS_THROUGH_APPEND"
    and "getCocoTableSecondaryIndex env st r prio = Some sidx"
    and "in_table st (getCocoTablePrimaryIndex env (mResCode r)) sidx"
  shows "insertInCocoTable env (Some n) prio st = map_option (Pair True)
    (let p = nat (getCocoTablePrimaryIndex env (mResCode r)); s = nat sidx
     in insert_and_apply env n p s prio (cell_op (mPolicy c) (c_heap st) (cell st p s) n) st)"
  using assms
  by (cases "mPolicy c") (simp_all add: insertInCocoTable_def needsAllocation_def cell_op_def Let_def)

lemma isNodeNth_head:
  "dl_list h m ys \<Longrightarrow> ys \<noteq> [] \<Longrightarrow> isNodeNthHelper h m 0 (Some n) = Some (hd ys = n)"
  using isNodeNthHelper_list[of h m ys 0 n] by (cases ys) auto

lemma insert_and_apply_spec:
  assumes env: "good_env env" and rel: "coco_rel st L" and v: "valid_cell st p s"
    and out: "outside st L n" and r: "dl_data (c_heap st) n = Some r" and conf: "conf_of env r = Some c"
    and cmp: "comparable (c_heap st) n" "\<forall>a\<in>set (L p s). comparable (c_heap st) a"
  shows "\<exists>st1 st2 ys. insert_and_apply env n p s prio (cell_op pol (c_heap st) (cell st p s) n) st = Some st2 \<and>
    ys = place pol (c_heap st) n (L p s) \<and> coco_rel st1 (L(p := (L p)(s := ys))) \<and>
    (\<forall>b. dl_data (c_heap st1) b = dl_data (c_heap st) b) \<and> dl_frame COCO_TABLE_DL_NR UNIV (c_heap st) (c_heap st1) \<and>
    length (mCocoTable st1) = length (mCocoTable st) \<and> (\<forall>q. length (mCocoTable st1 ! q) = length (mCocoTable st ! q)) \<and>
    mCurrentlyAppliedPriority st1 = mCurrentlyAppliedPriority st \<and> c_trace st1 = c_trace st \<and>
    touches (mResCode r) p st1 st2 \<and> same_shape st st1 \<and>
    (if hd ys = n \<and> (mCurrentlyAppliedPriority st1 ! p \<ge> prio \<or> mCurrentlyAppliedPriority st1 ! p = -1) \<and>
        mModes c AND ce_mode env \<noteq> 0
     then mCurrentlyAppliedPriority st2 ! p = prio \<and> in_effect (mResCode r) (c_trace st2) = Some r
     else st2 = st1)"
proof -
  let ?ys = "place pol (c_heap st) n (L p s)"
  have l: "dl_list (c_heap st) (cell st p s) (L p s)" "mLinkerInUse (cell st p s) = COCO_TABLE_DL_NR"
    using rel v by (auto simp: coco_rel_def)
  have n: "n \<notin> set (L p s)" using out v by (auto simp: outside_def)
  from cell_op_list[OF l(1) n cmp(1) cmp(2), of pol] obtain h m where
    op: "cell_op pol (c_heap st) (cell st p s) n = Some (h, m, RC_SUCCESS)" "dl_list h m ?ys"
    and fr: "dl_frame COCO_TABLE_DL_NR (insert n (set (L p s))) (c_heap st) h" and cfg: "same_cfg (cell st p s) m"
    using l(2) by (auto elim: dl_doneE)
  let ?st1 = "set_cell p s m (st\<lparr>c_heap := h\<rparr>)"
  have rel1: "coco_rel ?st1 (L(p := (L p)(s := ?ys)))"
    by (rule coco_update[OF rel v op(2) _ fr]) (use cfg l(2) out in \<open>auto simp: same_cfg_def outside_def\<close>)
  have dat: "dl_data h b = dl_data (c_heap st) b" for b using fr by (simp add: dl_frame_def)
  have plen: "p < length (mCurrentlyAppliedPriority ?st1)" using rel v by (simp add: coco_rel_def valid_cell_def)
  obtain st2 where st2: "applyAction env (Some n) p prio ?st1 = Some st2" "touches (mResCode r) p ?st1 st2"
    "if (mCurrentlyAppliedPriority ?st1 ! p \<ge> prio \<or> mCurrentlyAppliedPriority ?st1 ! p = -1) \<and> mModes c AND ce_mode env \<noteq> 0
     then mCurrentlyAppliedPriority st2 ! p = prio \<and> in_effect (mResCode r) (c_trace st2) = Some r else st2 = ?st1"
    using applyAction_effect[OF env _ conf plen, of n prio] r dat by auto
  have hd: "isNodeNthHelper h m 0 (Some n) = Some (hd ?ys = n)" by (rule isNodeNth_head[OF op(2)]) simp
  show ?thesis
  proof (intro exI conjI)
    show "insert_and_apply env n p s prio (cell_op pol (c_heap st) (cell st p s) n) st =
        Some (if hd ?ys = n then st2 else ?st1)"
      using st2(1) by (simp add: insert_and_apply_def op(1) hd)
    show "coco_rel ?st1 (L(p := (L p)(s := ?ys)))" by (rule rel1)
    show "dl_frame COCO_TABLE_DL_NR UNIV (c_heap st) (c_heap ?st1)" using dl_frame_mono[OF fr] by simp
  qed (use dat st2 set_cell_shape(1)[of st p s m h] in \<open>auto simp: same_shape_def\<close>)
qed

text \<open>The cell a resource is arbitrated in, when it is.\<close>

definition slot :: "coco_env \<Rightarrow> coco_state \<Rightarrow> resource \<Rightarrow> int \<Rightarrow> (nat \<times> nat) option" where
  "slot env st r prio =
     (if mResAction r = RES_SKIP then None
      else case conf_of env r of None \<Rightarrow> None
        | Some c \<Rightarrow>
            if mPolicy c = PASS_THROUGH \<or> mPolicy c = PASS_THROUGH_APPEND then None
            else case getCocoTableSecondaryIndex env st r prio of None \<Rightarrow> None
              | Some sidx \<Rightarrow>
                  if in_table st (getCocoTablePrimaryIndex env (mResCode r)) sidx
                  then Some (row_of env (mResCode r), nat sidx) else None)"

lemma slot_SomeD:
  assumes "good_env env" "coco_inv env st L" "slot env st r prio = Some (p, s)"
  obtains c sidx where "mResAction r \<noteq> RES_SKIP" "conf_of env r = Some c" "mPolicy c \<noteq> PASS_THROUGH"
    "mPolicy c \<noteq> PASS_THROUGH_APPEND" "getCocoTableSecondaryIndex env st r prio = Some sidx"
    "in_table st (getCocoTablePrimaryIndex env (mResCode r)) sidx" "p = row_of env (mResCode r)" "s = nat sidx"
    "valid_cell st p s" "getCocoTablePrimaryIndex env (mResCode r) = int p" "0 \<le> sidx"
proof -
  from assms(3) obtain c sidx where s: "mResAction r \<noteq> RES_SKIP" "conf_of env r = Some c" "mPolicy c \<noteq> PASS_THROUGH"
    "mPolicy c \<noteq> PASS_THROUGH_APPEND" "getCocoTableSecondaryIndex env st r prio = Some sidx"
    "in_table st (getCocoTablePrimaryIndex env (mResCode r)) sidx" "p = row_of env (mResCode r)" "s = nat sidx"
    by (auto simp: slot_def split: if_splits option.splits)
  have "getCocoTablePrimaryIndex env (mResCode r) = int p"
    using coco_inv_conf(3)[OF assms(1,2)] s(2,7) by (simp add: conf_of_def)
  with s show ?thesis by (intro that[of c sidx]) (auto simp: in_table_valid)
qed

lemma slot_managed_level:
  "slot env st r prio = Some (p, s) \<Longrightarrow> conf_of env r = Some c \<Longrightarrow> managed env c \<Longrightarrow> s = nat prio"
  by (auto simp: slot_def managed_index split: if_splits option.splits)

text \<open>A resource with a cell is put into its list where its policy says.\<close>

lemma coco_insert_slot:
  assumes env: "good_env env" and inv: "coco_inv env st L" and out: "outside st L n"
    and nd: "node_for st n r" and prio: "0 \<le> prio" "prio < 4" and sl: "slot env st r prio = Some (p, s)"
    and c: "conf_of env r = Some c"
  shows "\<exists>st'. insertInCocoTable env (Some n) prio st = Some (True, st') \<and>
    coco_inv env st' (L(p := (L p)(s := place (mPolicy c) (c_heap st) n (L p s)))) \<and>
    dl_frame COCO_TABLE_DL_NR UNIV (c_heap st) (c_heap st') \<and> same_shape st st'"
proof -
  obtain sidx where sd: "mResAction r \<noteq> RES_SKIP" "mPolicy c \<noteq> PASS_THROUGH" "mPolicy c \<noteq> PASS_THROUGH_APPEND"
    "getCocoTableSecondaryIndex env st r prio = Some sidx"
    "in_table st (getCocoTablePrimaryIndex env (mResCode r)) sidx" "p = row_of env (mResCode r)" "s = nat sidx"
    "valid_cell st p s" "getCocoTablePrimaryIndex env (mResCode r) = int p"
    using slot_SomeD[OF env inv sl] c by (metis option.inject)
  have r: "dl_data (c_heap st) n = Some r" "comparable (c_heap st) n" using nd by (auto simp: node_for_def)
  have conf: "getResConf (ce_registry env) (mResCode r) = Some c" using c by (simp add: conf_of_def)
  have rel: "coco_rel st L" using inv by (simp add: coco_inv_def)
  have rows: "row_nodes (mPolicy c) st p (L p) (mResCode r)" "managed env c \<Longrightarrow> row_ok env st L (mResCode r)"
    using inv conf sd by (auto simp: coco_inv_def)
  have cmp: "\<forall>a\<in>set (L p s). comparable (c_heap st) a" using rows(1) sd(8) by (auto simp: row_nodes_def valid_cell_def)
  from insert_and_apply_spec[OF env rel sd(8) out r(1) c r(2) cmp, of prio "mPolicy c"] obtain st1 st2 ys where
    op: "insert_and_apply env n p s prio (cell_op (mPolicy c) (c_heap st) (cell st p s) n) st = Some st2"
    and ys: "ys = place (mPolicy c) (c_heap st) n (L p s)" and rel1: "coco_rel st1 (L(p := (L p)(s := ys)))"
    and dat: "\<And>b. dl_data (c_heap st1) b = dl_data (c_heap st) b"
    and fr: "dl_frame COCO_TABLE_DL_NR UNIV (c_heap st) (c_heap st1)"
    and len: "length (mCocoTable st1) = length (mCocoTable st)" "\<And>q. length (mCocoTable st1 ! q) = length (mCocoTable st ! q)"
    and same: "mCurrentlyAppliedPriority st1 = mCurrentlyAppliedPriority st" "c_trace st1 = c_trace st"
    and t: "touches (mResCode r) p st1 st2" and shape: "same_shape st st1"
    and eff: "if hd ys = n \<and> (mCurrentlyAppliedPriority st1 ! p \<ge> prio \<or> mCurrentlyAppliedPriority st1 ! p = -1) \<and>
        mModes c AND ce_mode env \<noteq> 0
      then mCurrentlyAppliedPriority st2 ! p = prio \<and> in_effect (mResCode r) (c_trace st2) = Some r else st2 = st1"
    by blast
  have heap2: "c_heap st2 = c_heap st1" using t by (simp add: touches_def)
  have "coco_inv env st2 (L(p := (L p)(s := ys)))"
  proof (rule coco_inv_step[OF env inv conf sd(6) rel1 dat len same t])
    show "row_nodes (mPolicy c) st p ((L p)(s := ys)) (mResCode r)"
      using rows(1) r sd(8) ys by (auto simp: row_nodes_def valid_cell_def place_cell_sorted)
    assume m: "managed env c"
    have si: "s = nat prio" by (rule slot_managed_level[OF sl c m])
    have hd: "hd ys \<noteq> n \<longrightarrow> L p s \<noteq> [] \<and> hd ys = hd (L p s)" using hd_place ys by blast
    show "row_ok env st2 (L(p := (L p)(s := ys))) (mResCode r)"
      by (rule row_ok_insert[OF rows(2)[OF m] sd(6) _ _ hd same])
        (use m si prio ys eff r dat heap2 in \<open>auto simp: managed_def split: if_splits\<close>)
  qed
  moreover have "insertInCocoTable env (Some n) prio st = Some (True, st2)"
    using insertInCocoTable_alloc[OF r(1) sd(1) c sd(2,3,4,5)] sd(7,9) op by (simp add: Let_def)
  moreover have "same_shape st st2" using shape touches_shape[OF t] by (rule same_shape_trans)
  ultimately show ?thesis using ys fr heap2 by auto
qed

text \<open>Any other resource is refused or applied at once; the lists stay as they are.\<close>

lemma coco_insert_noslot:
  assumes env: "good_env env" and inv: "coco_inv env st L" and nd: "node_for st n r"
    and sl: "slot env st r prio = None"
  shows "\<exists>b st'. insertInCocoTable env (Some n) prio st = Some (b, st') \<and> coco_inv env st' L \<and>
    c_heap st' = c_heap st \<and> same_shape st st'"
proof (cases "mResAction r = RES_SKIP \<or> conf_of env r = None")
  case True
  have "insertInCocoTable env (Some n) prio st = Some (False, st)"
    using True nd secondary_defined[of r env st prio]
    by (auto simp: insertInCocoTable_def node_for_def getCocoTablePrimaryIndex_def conf_of_def in_table_def)
  with inv show ?thesis by auto
next
  case False
  then obtain c where c: "conf_of env r = Some c" and act: "mResAction r \<noteq> RES_SKIP" by auto
  have r: "dl_data (c_heap st) n = Some r" using nd by (auto simp: node_for_def)
  have conf: "getResConf (ce_registry env) (mResCode r) = Some c" using c by (simp add: conf_of_def)
  obtain sidx where sidx: "getCocoTableSecondaryIndex env st r prio = Some sidx"
    using nd secondary_defined[of r env st prio] by (auto simp: node_for_def)
  let ?p = "row_of env (mResCode r)" and ?s = "nat sidx"
  note row = coco_inv_conf[OF env inv conf]
  show ?thesis
  proof (cases "in_table st (int ?p) sidx")
    case False
    then have "insertInCocoTable env (Some n) prio st = Some (False, st)"
      using act r sidx row by (simp add: insertInCocoTable_def)
    with inv show ?thesis by auto
  next
    case it: True
    then have v: "valid_cell st ?p ?s" by (auto simp: in_table_valid)
    have pass: "mPolicy c = PASS_THROUGH \<or> mPolicy c = PASS_THROUGH_APPEND"
      using sl act c sidx it row(3) by (auto simp: slot_def split: if_splits)
    let ?st1 = "if mPolicy c = PASS_THROUGH
      then set_cell ?p ?s ((cell st ?p ?s)\<lparr>mRank := mRank (cell st ?p ?s) + 1\<rparr>) st else st"
    obtain st2 where st2: "fastPathApply env r ?st1 = Some st2" "touches (mResCode r) ?p ?st1 st2"
      using fastPathApply_effect[OF c] by blast
    have st1: "coco_rel ?st1 (L(?p := L ?p))" using inv v by (auto simp: coco_inv_def set_cell_rank_rel)
    have rn: "row_nodes (mPolicy c) st ?p (L ?p) (mResCode r)" using inv conf by (auto simp: coco_inv_def)
    have "coco_inv env st2 (L(?p := L ?p))"
      by (rule coco_inv_step[OF env inv conf refl st1 _ _ _ _ _ st2(2) rn]) (use pass in \<open>auto simp: managed_def\<close>)
    moreover have "insertInCocoTable env (Some n) prio st = Some (True, st2)"
      using act r sidx row it c pass st2(1) by (auto simp: insertInCocoTable_def needsAllocation_def Let_def)
    moreover have "c_heap st2 = c_heap st" using st2(2) by (auto simp: touches_def)
    moreover have "same_shape st ?st1" using set_cell_shape(2)[of st] by simp
    then have "same_shape st st2" using touches_shape[OF st2(2)] by (rule same_shape_trans)
    ultimately show ?thesis by auto
  qed
qed

section \<open>Removal keeps the invariant\<close>

text \<open>All levels of one core, cluster or cgroup sit next to each other, four to a group.\<close>

lemma secondary_group:
  assumes "getCocoTableSecondaryIndex env st r prio = Some sidx" "conf_of env r = Some c" "0 \<le> sidx"
  shows "\<exists>off. 4 dvd off \<and> sidx = off + prio \<and> getCocoTableSecondaryIndex env st r 0 = Some off \<and>
    (mApplyType c = APPLY_GLOBAL \<longrightarrow> off = 0)"
  using assms
  by (cases "mApplyType c")
    (auto simp: getCocoTableSecondaryIndex_def TOTAL_PRIORITIES_def Let_def split: if_splits option.splits)

lemma group_in_table:
  assumes "in_table st p sidx" "length (mCocoTable st ! nat p) mod 4 = 0" "4 dvd off" "sidx = off + prio"
    "0 \<le> prio" "prio < 4" "0 \<le> lvl" "lvl < 4"
  shows "in_table st p (off + lvl) \<and> 0 \<le> off"
proof -
  obtain q where q: "off = 4 * q" using assms(3) by blast
  obtain len where len: "length (mCocoTable st ! nat p) = 4 * len" using assms(2) by auto
  have b: "0 \<le> 4 * q + prio" "4 * q + prio < 4 * int len"
    using assms(1,4) q len by (auto simp: in_table_def)
  then have "q < int len" "- 1 < q" using assms(5,6) by linarith+
  then have "0 \<le> off" "off + 4 \<le> int (4 * len)" using q by auto
  with assms(1,7,8) len show ?thesis by (auto simp: in_table_def)
qed

lemma head_iff: "coco_rel st L \<Longrightarrow> valid_cell st p s \<Longrightarrow>
   mHead (cell st p s) = (case L p s of [] \<Rightarrow> None | a # as \<Rightarrow> Some a)"
  by (cases "L p s") (fastforce simp: coco_rel_def dl_list_def)+

text \<open>The search finds the first level of the group with a request.\<close>

lemma first_waiting_find:
  "coco_rel st L \<Longrightarrow> (\<And>l. l \<in> set lvls \<Longrightarrow> in_table st (int p) (l + off)) \<Longrightarrow>
     first_waiting st p off lvls = Some (find (\<lambda>l. L p (nat (l + off)) \<noteq> []) lvls)"
proof (induction lvls)
  case (Cons l lvls)
  have v: "valid_cell st p (nat (l + off))" and it: "in_table st (int p) (l + off)"
    using Cons.prems(2)[of l] by (auto simp: in_table_valid)
  have "first_waiting st p off lvls = Some (find (\<lambda>l. L p (nat (l + off)) \<noteq> []) lvls)"
    using Cons by simp
  then show ?case using it head_iff[OF Cons.prems(1) v] by (auto split: list.splits)
qed simp

lemma find_levels: "find (\<lambda>l. row (nat (l + 0)) \<noteq> []) priority_levels_list = map_option int (top_level row)"
  by (auto simp: priority_levels_list_def top_level_def)

lemma find_in_set: "find P xs = Some x \<Longrightarrow> x \<in> set xs \<and> P x"
  by (induction xs) (auto split: if_splits)

lemma reapply_effect:
  assumes env: "good_env env" and rel: "coco_rel st L" and conf: "conf_of env r = Some c"
    and p: "p = row_of env (mResCode r)" and idx: "getCocoTableSecondaryIndex env st r prio = Some sidx"
    and it: "in_table st (int p) sidx" and len: "length (mCocoTable st ! p) mod 4 = 0"
    and prio: "0 \<le> prio" "prio < 4" and nodes: "row_nodes (mPolicy c) st p (L p) (mResCode r)"
  shows "\<exists>st'. reapply env r p st = Some st' \<and> touches (mResCode r) p st st' \<and>
    (managed env c \<longrightarrow> row_ok env st' L (mResCode r))"
proof -
  obtain off where off: "4 dvd off" "sidx = off + prio" "getCocoTableSecondaryIndex env st r 0 = Some off"
    "mApplyType c = APPLY_GLOBAL \<longrightarrow> off = 0"
    using secondary_group[OF idx conf] it by (auto simp: in_table_def)
  have grp: "in_table st (int p) (l + off) \<and> 0 \<le> off" if "l \<in> set priority_levels_list" for l
    using group_in_table[OF it _ off(1,2) prio, of l] len that by (auto simp: priority_levels_list_def add.commute)
  have o0: "0 \<le> off" using grp[of 0] by (simp add: priority_levels_list_def)
  let ?f = "find (\<lambda>l. L p (nat (l + off)) \<noteq> []) priority_levels_list"
  have fw: "first_waiting st p off priority_levels_list = Some ?f"
    using first_waiting_find[OF rel, of priority_levels_list p off] grp by blast
  have plen: "p < length (mCurrentlyAppliedPriority st)"
    using rel it by (auto simp: coco_rel_def in_table_def)
  have sh: "sint SYSTEM_HIGH = 0" by (simp add: SYSTEM_HIGH_def)
  have re: "reapply env r p st = (case ?f of None \<Rightarrow> removeAction env p (Some r) st
      | Some lvl \<Rightarrow> applyAction env (mHead (cell st p (nat (lvl + off)))) p lvl
          (st\<lparr>mCurrentlyAppliedPriority := (mCurrentlyAppliedPriority st)[p := lvl]\<rparr>))"
    using conf off(3,4) o0 fw plen
    by (cases "mApplyType c") (simp_all add: reapply_def sh split: option.split)
  show ?thesis
  proof (cases ?f)
    case None
    obtain st' where st': "removeAction env p (Some r) st = Some st'" "touches (mResCode r) p st st'"
      "mCurrentlyAppliedPriority st' ! p = -1" "in_effect (mResCode r) (c_trace st') = None"
      using removeAction_effect[OF env conf plen] by blast
    have "row_ok env st' L (mResCode r)" if "managed env c"
      using st' None off(4) that p find_levels[of "L p"] by (simp add: managed_def row_ok_def Let_def)
    with st' None re show ?thesis by auto
  next
    case (Some lvl)
    let ?s = "nat (lvl + off)"
    have lvl: "lvl \<in> set priority_levels_list" "L p ?s \<noteq> []" using find_in_set[OF Some] by auto
    then obtain a as where as: "L p ?s = a # as" by (cases "L p ?s") auto
    have v: "valid_cell st p ?s" using grp[OF lvl(1)] by (auto simp: in_table_valid)
    obtain ra where ra: "dl_data (c_heap st) a = Some ra" "mResCode ra = mResCode r"
      using nodes v as by (fastforce simp: row_nodes_def valid_cell_def)
    have ca: "conf_of env ra = Some c" using conf ra(2) by (simp add: conf_of_def)
    let ?st0 = "st\<lparr>mCurrentlyAppliedPriority := (mCurrentlyAppliedPriority st)[p := lvl]\<rparr>"
    obtain st' where st': "applyAction env (Some a) p lvl ?st0 = Some st'" "touches (mResCode r) p ?st0 st'"
      and eff: "if mModes c AND ce_mode env \<noteq> 0 then mCurrentlyAppliedPriority st' ! p = lvl \<and>
        in_effect (mResCode r) (c_trace st') = Some ra else st' = ?st0"
      using applyAction_effect[OF env _ ca, of ?st0 a p lvl, unfolded ra(2)] ra(1) plen by auto
    have hd: "mHead (cell st p ?s) = Some a" using head_iff[OF rel v] as by simp
    have "row_ok env st' L (mResCode r)" if m: "managed env c"
    proof -
      have z: "off = 0" using m off(4) by (simp add: managed_def)
      then have "map_option int (top_level (L p)) = Some lvl" using Some find_levels[of "L p"] by simp
      then obtain t where "top_level (L p) = Some t" "lvl = int t" by auto
      moreover have "c_heap st' = c_heap st" using st'(2) by (simp add: touches_def)
      ultimately show ?thesis using eff m ra(1) as z p by (simp add: managed_def row_ok_def Let_def)
    qed
    moreover have "touches (mResCode r) p st st'" using touches_trans[OF touches_set_applied st'(2)] .
    ultimately show ?thesis using re Some hd st'(1) by auto
  qed
qed

lemma row_ok_remove:
  assumes ok: "row_ok env st L k" and p: "p = row_of env k" and s: "s < 4"
    and ne: "L p s \<noteq> []" "ys \<noteq> []" "hd (L p s) \<noteq> n \<longrightarrow> hd ys = hd (L p s)"
    and same: "mCurrentlyAppliedPriority st1 = mCurrentlyAppliedPriority st" "c_trace st1 = c_trace st"
    and data: "\<And>b. dl_data (c_heap st2) b = dl_data (c_heap st) b"
    and act: "if hd (L p s) = n \<and> (mCurrentlyAppliedPriority st1 ! p \<ge> int s \<or> mCurrentlyAppliedPriority st1 ! p = -1)
      then mCurrentlyAppliedPriority st2 ! p = int s \<and> in_effect k (c_trace st2) = dl_data (c_heap st) (hd ys)
      else mCurrentlyAppliedPriority st2 ! p = mCurrentlyAppliedPriority st1 ! p \<and>
        in_effect k (c_trace st2) = in_effect k (c_trace st1)"
  shows "row_ok env st2 (L(p := (L p)(s := ys))) k"
proof -
  obtain t where t: "top_level (L p) = Some t" using top_level_None[of "L p" s] s ne by fastforce
  have le: "t \<le> s" using top_level_Some[OF t] ne(1) by (metis not_less)
  have top: "top_level ((L p)(s := ys)) = Some t"
    using top_level_insert[OF s ne(2), of "L p"] t le by (simp add: min_def)
  have cur: "mCurrentlyAppliedPriority st ! p = int t" "in_effect k (c_trace st) = dl_data (c_heap st) (hd (L p t))"
    using ok t p by (auto simp: row_ok_def Let_def)
  show ?thesis using act same cur data top p le ne(3) by (auto simp: row_ok_def Let_def split: if_splits)
qed

text \<open>The list part of a removal.\<close>

lemma remove_from_cell:
  assumes rel: "coco_rel st L" and v: "valid_cell st p s" and n: "n \<in> set (L p s)"
  shows "\<exists>h m. deleteNodeHelper (c_heap st) (cell st p s) (Some n) = Some (h, m, RC_SUCCESS) \<and>
    coco_rel (set_cell p s m (st\<lparr>c_heap := h\<rparr>)) (L(p := (L p)(s := remove1 n (L p s)))) \<and>
    mHead m = (case remove1 n (L p s) of [] \<Rightarrow> None | a # as \<Rightarrow> Some a) \<and>
    dl_frame COCO_TABLE_DL_NR UNIV (c_heap st) h"
proof -
  have l: "dl_list (c_heap st) (cell st p s) (L p s)" "mLinkerInUse (cell st p s) = COCO_TABLE_DL_NR"
    using rel v by (auto simp: coco_rel_def)
  obtain us vs where uv: "L p s = us @ n # vs" "n \<notin> set us"
    using n by (metis split_list_first)
  have rem: "remove1 n (L p s) = us @ vs" using uv by simp
  from deleteNodeHelper_list[OF l(1)[unfolded uv(1)]] obtain h m where
    d: "deleteNodeHelper (c_heap st) (cell st p s) (Some n) = Some (h, m, RC_SUCCESS)" "dl_list h m (us @ vs)"
    and fr: "dl_frame COCO_TABLE_DL_NR (set (us @ n # vs)) (c_heap st) h" and cfg: "same_cfg (cell st p s) m"
    using l(2) by (auto elim: dl_doneE)
  have "\<forall>p' s'. valid_cell st p' s' \<longrightarrow> (p', s') \<noteq> (p, s) \<longrightarrow> n \<notin> set (L p' s')"
    using rel v n unfolding coco_rel_def by blast
  then have "coco_rel (set_cell p s m (st\<lparr>c_heap := h\<rparr>)) (L(p := (L p)(s := us @ vs)))"
    by (intro coco_update[OF rel v d(2) _ fr]) (use cfg l(2) uv in \<open>auto simp: same_cfg_def\<close>)
  moreover have "mHead m = (case us @ vs of [] \<Rightarrow> None | a # as \<Rightarrow> Some a)"
    using d(2) by (cases "us @ vs") (auto simp: dl_list_def)
  ultimately show ?thesis using d(1) rem dl_frame_mono[OF fr] by auto
qed

lemma removeNode_alloc:
  assumes "dl_data (c_heap st) n = Some r" "mResAction r \<noteq> RES_SKIP" "conf_of env r = Some c"
    and "mPolicy c \<noteq> PASS_THROUGH" "mPolicy c \<noteq> PASS_THROUGH_APPEND"
    and "getCocoTableSecondaryIndex env st r prio = Some (int s)"
    and "in_table st (getCocoTablePrimaryIndex env (mResCode r)) (int s)"
    and "getCocoTablePrimaryIndex env (mResCode r) = int p"
    and "isNodeNthHelper (c_heap st) (cell st p s) 0 (Some n) = Some isHead"
    and "deleteNodeHelper (c_heap st) (cell st p s) (Some n) = Some (h, m, rc)"
  shows "removeNode env prio n st =
    (let st1 = set_cell p s m (st\<lparr>c_heap := h\<rparr>)
     in if mHead m = None then reapply env r p st1
        else if isHead then applyAction env (mHead m) p prio st1 else Some st1)"
  using assms by (simp add: removeNode_def needsAllocation_def Let_def)

text \<open>\<open>getCocoTableSecondaryIndex\<close> and \<open>in_table\<close> see only the shape of the table.\<close>

lemma shape_index:
  "mFlatClusterMap st' = mFlatClusterMap st \<Longrightarrow> mFlatCGroupMap st' = mFlatCGroupMap st \<Longrightarrow>
     getCocoTableSecondaryIndex env st' = getCocoTableSecondaryIndex env st"
  by (intro ext) (simp add: getCocoTableSecondaryIndex_def Let_def split: option.split ResourceApplyType.split)

lemma coco_remove_slot:
  assumes env: "good_env env" and inv: "coco_inv env st L" and nd: "node_for st n r"
    and prio: "0 \<le> prio" "prio < 4" and sl: "slot env st r prio = Some (p, s)" and n: "n \<in> set (L p s)"
  shows "\<exists>st'. removeNode env prio n st = Some st' \<and>
    coco_inv env st' (L(p := (L p)(s := remove1 n (L p s)))) \<and>
    dl_frame COCO_TABLE_DL_NR UNIV (c_heap st) (c_heap st') \<and> same_shape st st'"
proof -
  obtain c sidx where sd: "mResAction r \<noteq> RES_SKIP" "conf_of env r = Some c" "mPolicy c \<noteq> PASS_THROUGH"
    "mPolicy c \<noteq> PASS_THROUGH_APPEND" "getCocoTableSecondaryIndex env st r prio = Some sidx"
    "in_table st (getCocoTablePrimaryIndex env (mResCode r)) sidx" "p = row_of env (mResCode r)" "s = nat sidx"
    "valid_cell st p s" "getCocoTablePrimaryIndex env (mResCode r) = int p" "0 \<le> sidx"
    using slot_SomeD[OF env inv sl] by metis
  have sidx: "sidx = int s" using sd(8,11) by simp
  have r: "dl_data (c_heap st) n = Some r" using nd by (simp add: node_for_def)
  have conf: "getResConf (ce_registry env) (mResCode r) = Some c" using sd(2) by (simp add: conf_of_def)
  have rel: "coco_rel st L" using inv by (simp add: coco_inv_def)
  let ?ys = "remove1 n (L p s)" and ?k = "mResCode r"
  from remove_from_cell[OF rel sd(9) n] obtain h m where
    d: "deleteNodeHelper (c_heap st) (cell st p s) (Some n) = Some (h, m, RC_SUCCESS)"
    and rel1: "coco_rel (set_cell p s m (st\<lparr>c_heap := h\<rparr>)) (L(p := (L p)(s := ?ys)))"
    and hd: "mHead m = (case ?ys of [] \<Rightarrow> None | a # as \<Rightarrow> Some a)"
    and fr: "dl_frame COCO_TABLE_DL_NR UNIV (c_heap st) h" by blast
  let ?st1 = "set_cell p s m (st\<lparr>c_heap := h\<rparr>)" and ?L = "L(p := (L p)(s := ?ys))"
  have dat: "dl_data (c_heap ?st1) b = dl_data (c_heap st) b" for b using fr by (simp add: dl_frame_def)
  have len: "length (mCocoTable ?st1) = length (mCocoTable st)" "\<And>q. length (mCocoTable ?st1 ! q) = length (mCocoTable st ! q)"
    using set_cell_row_length[of p s m "st\<lparr>c_heap := h\<rparr>"] by simp_all
  have rows: "row_nodes (mPolicy c) st p (L p) ?k" "managed env c \<Longrightarrow> row_ok env st L ?k" "length (mCocoTable st ! p) mod 4 = 0"
    using inv conf sd(7) by (auto simp: coco_inv_def)
  have rows1: "row_nodes (mPolicy c) st p ((L p)(s := ?ys)) ?k"
    using rows(1) sd(9) set_remove1_subset[of n "L p s"] by (auto simp: row_nodes_def valid_cell_def remove_cell_sorted)
  have cell_ne: "L p s \<noteq> []" using n by auto
  have head: "isNodeNthHelper (c_heap st) (cell st p s) 0 (Some n) = Some (hd (L p s) = n)"
    using isNodeNth_head[of "c_heap st" "cell st p s" "L p s" n] cell_ne rel sd(9) by (simp add: coco_rel_def)
  have red: "removeNode env prio n st = (if mHead m = None then reapply env r p ?st1
      else if hd (L p s) = n then applyAction env (mHead m) p prio ?st1 else Some ?st1)"
    using removeNode_alloc[OF r sd(1-4) sd(5,6)[unfolded sidx] sd(10) head d] by (simp add: Let_def)
  have plen: "p < length (mCurrentlyAppliedPriority ?st1)" using rel sd(9) by (simp add: coco_rel_def valid_cell_def)
  have lev: "managed env c \<Longrightarrow> s = nat prio" by (rule slot_managed_level[OF sl sd(2)])
  have "\<exists>st'. removeNode env prio n st = Some st' \<and> touches ?k p ?st1 st' \<and> (managed env c \<longrightarrow> row_ok env st' ?L ?k)"
  proof (cases ?ys)
    case Nil
    have it: "in_table ?st1 (int p) sidx" using sd(9,11) len by (auto simp: in_table_def valid_cell_def sidx)
    have nodes: "row_nodes (mPolicy c) ?st1 p (?L p) ?k" using rows1 row_nodes_data[of ?st1 st p] dat len by simp
    have "getCocoTableSecondaryIndex env ?st1 r prio = Some sidx" using sd(5) shape_index[of ?st1 st env] by simp
    from reapply_effect[where L = ?L, OF env rel1 sd(2,7) this it _ prio nodes] rows(3) len obtain st' where
      "reapply env r p ?st1 = Some st'" "touches ?k p ?st1 st'" "managed env c \<longrightarrow> row_ok env st' ?L ?k" by auto
    moreover have "mHead m = None" using hd Nil by simp
    ultimately show ?thesis using red by (intro exI[of _ st'] conjI) simp_all
  next
    case (Cons b bs)
    have "b \<in> set (L p s)" using Cons set_remove1_subset[of n "L p s"] by auto
    then obtain rb where rb: "dl_data (c_heap st) b = Some rb" "mResCode rb = ?k"
      using rows(1) sd(9) by (fastforce simp: row_nodes_def valid_cell_def)
    then have cb: "conf_of env rb = Some c" using sd(2) by (simp add: conf_of_def)
    have db: "dl_data (c_heap ?st1) b = Some rb" using dat rb(1) by simp
    obtain st2 where st2: "applyAction env (Some b) p prio ?st1 = Some st2" "touches ?k p ?st1 st2"
      and eff: "if (mCurrentlyAppliedPriority ?st1 ! p \<ge> prio \<or> mCurrentlyAppliedPriority ?st1 ! p = -1) \<and> mModes c AND ce_mode env \<noteq> 0
       then mCurrentlyAppliedPriority st2 ! p = prio \<and> in_effect ?k (c_trace st2) = Some rb else st2 = ?st1"
      using applyAction_effect[OF env db cb plen, unfolded rb(2), of prio] by blast
    let ?st' = "if hd (L p s) = n then st2 else ?st1"
    have hd': "hd (L p s) \<noteq> n \<longrightarrow> hd ?ys = hd (L p s)" by (cases "L p s") auto
    have "row_ok env ?st' ?L ?k" if mg: "managed env c"
      by (rule row_ok_remove[OF rows(2)[OF mg] sd(7) _ cell_ne _ hd', of ?st1])
        (use mg lev[OF mg] prio Cons eff rb(1) dat st2(2) in \<open>auto simp: managed_def touches_def split: if_splits\<close>)
    then show ?thesis using red hd Cons st2 by auto
  qed
  then obtain st' where st': "removeNode env prio n st = Some st'" "touches ?k p ?st1 st'"
    "managed env c \<Longrightarrow> row_ok env st' ?L ?k" by blast
  have "coco_inv env st' ?L"
    by (rule coco_inv_step[OF env inv conf sd(7) rel1 dat len _ _ st'(2) rows1 st'(3)]) simp_all
  moreover have "c_heap st' = h" using st'(2) by (simp add: touches_def)
  moreover have "same_shape st st'" using set_cell_shape(1) touches_shape[OF st'(2)] by (rule same_shape_trans)
  ultimately show ?thesis using st'(1) fr by auto
qed

lemma slot_shape: "same_shape st st' \<Longrightarrow> slot env st' r prio = slot env st r prio"
  using shape_index[of st' st env]
  by (simp add: slot_def same_shape_def in_table_def split: option.split)

lemma coco_remove_noslot:
  assumes env: "good_env env" and inv: "coco_inv env st L" and nd: "node_for st n r"
    and sl: "slot env st r prio = None"
  shows "\<exists>st'. removeNode env prio n st = Some st' \<and> coco_inv env st' L \<and> c_heap st' = c_heap st \<and> same_shape st st'"
proof (cases "mResAction r = RES_SKIP \<or> conf_of env r = None")
  case True
  have "removeNode env prio n st = Some st"
    using True nd secondary_defined[of r env st prio]
    by (auto simp: removeNode_def node_for_def getCocoTablePrimaryIndex_def conf_of_def in_table_def)
  with inv show ?thesis by auto
next
  case False
  then obtain c where c: "conf_of env r = Some c" and act: "mResAction r \<noteq> RES_SKIP" by auto
  have r: "dl_data (c_heap st) n = Some r" using nd by (auto simp: node_for_def)
  have conf: "getResConf (ce_registry env) (mResCode r) = Some c" using c by (simp add: conf_of_def)
  obtain sidx where sidx: "getCocoTableSecondaryIndex env st r prio = Some sidx"
    using nd secondary_defined[of r env st prio] by (auto simp: node_for_def)
  let ?p = "row_of env (mResCode r)" and ?s = "nat sidx"
  note row = coco_inv_conf[OF env inv conf]
  show ?thesis
  proof (cases "in_table st (int ?p) sidx")
    case False
    then have "removeNode env prio n st = Some st"
      using act r sidx row by (simp add: removeNode_def)
    with inv show ?thesis by auto
  next
    case it: True
    then have v: "valid_cell st ?p ?s" by (auto simp: in_table_valid)
    have pass: "mPolicy c = PASS_THROUGH \<or> mPolicy c = PASS_THROUGH_APPEND"
      using sl act c sidx it row(3) by (auto simp: slot_def split: if_splits)
    let ?st1 = "if mPolicy c = PASS_THROUGH
      then set_cell ?p ?s ((cell st ?p ?s)\<lparr>mRank := mRank (cell st ?p ?s) - 1\<rparr>) st else st"
    obtain st2 where st2: "fastPathReset env r ?st1 = Some st2" "touches (mResCode r) ?p ?st1 st2"
      using fastPathReset_effect[OF env c] by blast
    let ?st' = "if mPolicy c = PASS_THROUGH \<and> mRank (cell st ?p ?s) - 1 \<noteq> 0 then ?st1 else st2"
    have t: "touches (mResCode r) ?p ?st1 ?st'" using st2(2) by simp
    have st1: "coco_rel ?st1 (L(?p := L ?p))" using inv v by (auto simp: coco_inv_def set_cell_rank_rel)
    have rn: "row_nodes (mPolicy c) st ?p (L ?p) (mResCode r)" using inv conf by (auto simp: coco_inv_def)
    have "coco_inv env ?st' (L(?p := L ?p))"
      by (rule coco_inv_step[OF env inv conf refl st1 _ _ _ _ _ t rn]) (use pass in \<open>auto simp: managed_def\<close>)
    moreover have "removeNode env prio n st = Some ?st'"
      using act r sidx row it c pass st2(1) by (auto simp: removeNode_def needsAllocation_def Let_def)
    moreover have "c_heap ?st' = c_heap st" using t by (auto simp: touches_def)
    moreover have "same_shape st ?st1" using set_cell_shape(2)[of st] by simp
    then have "same_shape st ?st'" using touches_shape[OF t] by (rule same_shape_trans)
    ultimately show ?thesis by (intro exI[of _ ?st']) simp
  qed
qed

section \<open>Requests\<close>

lemma frame_links: "dl_frame k UNIV h h' \<Longrightarrow> j \<noteq> k \<Longrightarrow> links h' b j = links h b j"
  by (simp add: dl_frame_def)

lemma frame_node_for:
  "dl_frame k UNIV (c_heap st) (c_heap st') \<Longrightarrow> node_for st' n r = node_for st n r"
  by (simp add: dl_frame_def node_for_def comparable_def)

lemma filter_absent: "n \<notin> set xs \<Longrightarrow> filter (\<lambda>a. a \<noteq> n) xs = xs"
  by (induction xs) auto

lemma filter_place: "n \<in> X \<Longrightarrow> filter (\<lambda>a. a \<notin> X) (place pol h n xs) = filter (\<lambda>a. a \<notin> X) xs"
proof -
  assume n: "n \<in> X"
  have "filter (\<lambda>a. a \<notin> X) (policy_insert P n xs) = filter (\<lambda>a. a \<notin> X) xs" for P
  proof -
    have "filter (\<lambda>a. a \<notin> X) (policy_insert P n xs) =
        filter (\<lambda>a. a \<notin> X) (takeWhile (\<lambda>a. \<not> P a) xs @ dropWhile (\<lambda>a. \<not> P a) xs)"
      using n unfolding policy_insert_def filter_append by simp
    then show ?thesis by simp
  qed
  with n show ?thesis by (cases pol) (simp_all add: place_def)
qed

text \<open>A node is in the cell its resource is arbitrated in, and in no other.\<close>

definition at_slot :: "coco_env \<Rightarrow> coco_state \<Rightarrow> (nat \<Rightarrow> nat \<Rightarrow> addr list) \<Rightarrow> int \<Rightarrow> addr \<Rightarrow> bool" where
  "at_slot env st L prio n \<longleftrightarrow>
     (\<forall>p s. valid_cell st p s \<longrightarrow>
        (n \<in> set (L p s)) = (\<exists>r. dl_data (c_heap st) n = Some r \<and> slot env st r prio = Some (p, s)))"

lemma shape_valid: "same_shape st st' \<Longrightarrow> valid_cell st' = valid_cell st"
  by (simp add: same_shape_def valid_cell_def fun_eq_iff)

lemma at_slot_frame:
  "same_shape st st' \<Longrightarrow> dl_data (c_heap st') n = dl_data (c_heap st) n \<Longrightarrow>
   (\<And>p s. valid_cell st p s \<Longrightarrow> (n \<in> set (L' p s)) = (n \<in> set (L p s))) \<Longrightarrow>
   at_slot env st' L' prio n = at_slot env st L prio n"
  by (simp add: at_slot_def shape_valid slot_shape)

text \<open>One node, whatever its resource is.\<close>

lemma coco_insert_node:
  assumes env: "good_env env" and inv: "coco_inv env st L" and out: "outside st L n"
    and nd: "node_for st n r" and prio: "0 \<le> prio" "prio < 4" and X: "n \<in> X"
  shows "\<exists>b st' L'. insertInCocoTable env (Some n) prio st = Some (b, st') \<and> coco_inv env st' L' \<and>
    dl_frame COCO_TABLE_DL_NR UNIV (c_heap st) (c_heap st') \<and> same_shape st st' \<and> at_slot env st' L' prio n \<and>
    (\<forall>p s. set (L p s) \<subseteq> set (L' p s) \<and> set (L' p s) \<subseteq> insert n (set (L p s))) \<and>
    (\<forall>p s. filter (\<lambda>a. a \<notin> X) (L' p s) = filter (\<lambda>a. a \<notin> X) (L p s)) \<and> (\<not> b \<longrightarrow> L' = L)"
proof (cases "slot env st r prio")
  case None
  from coco_insert_noslot[OF env inv nd None] obtain b st' where
    st': "insertInCocoTable env (Some n) prio st = Some (b, st')" "coco_inv env st' L" "c_heap st' = c_heap st"
    "same_shape st st'" by blast
  have "at_slot env st' L prio n"
    using out None nd slot_shape[OF st'(4)] st'(3) shape_valid[OF st'(4)]
    by (auto simp: at_slot_def outside_def node_for_def)
  with st' show ?thesis by (intro exI[of _ b] exI[of _ st'] exI[of _ L]) (auto intro: frame_intros)
next
  case (Some ps)
  then obtain p s where ps: "slot env st r prio = Some (p, s)" by (cases ps) auto
  then obtain c where c: "conf_of env r = Some c" by (auto simp: slot_def split: if_splits option.splits)
  from coco_insert_slot[OF env inv out nd prio ps c] obtain st' where
    st': "insertInCocoTable env (Some n) prio st = Some (True, st')"
    "coco_inv env st' (L(p := (L p)(s := place (mPolicy c) (c_heap st) n (L p s))))"
    "dl_frame COCO_TABLE_DL_NR UNIV (c_heap st) (c_heap st')" "same_shape st st'" by blast
  let ?L = "L(p := (L p)(s := place (mPolicy c) (c_heap st) n (L p s)))"
  have "at_slot env st' ?L prio n"
    using out ps nd slot_shape[OF st'(4)] st'(3) shape_valid[OF st'(4)]
    by (auto simp: at_slot_def outside_def node_for_def dl_frame_def)
  with st' X show ?thesis
    by (intro exI[of _ True] exI[of _ st'] exI[of _ ?L]) (auto simp: filter_place)
qed

lemma coco_remove_node:
  assumes env: "good_env env" and inv: "coco_inv env st L" and nd: "node_for st n r"
    and prio: "0 \<le> prio" "prio < 4" and at: "at_slot env st L prio n"
  shows "\<exists>st' L'. removeNode env prio n st = Some st' \<and> coco_inv env st' L' \<and>
    dl_frame COCO_TABLE_DL_NR UNIV (c_heap st) (c_heap st') \<and> same_shape st st' \<and>
    (\<forall>p s. valid_cell st p s \<longrightarrow> L' p s = filter (\<lambda>a. a \<noteq> n) (L p s))"
proof (cases "slot env st r prio")
  case None
  from coco_remove_noslot[OF env inv nd None] obtain st' where
    st': "removeNode env prio n st = Some st'" "coco_inv env st' L" "c_heap st' = c_heap st" "same_shape st st'" by blast
  have "L p s = filter (\<lambda>a. a \<noteq> n) (L p s)" if "valid_cell st p s" for p s
  proof -
    have "n \<notin> set (L p s)" using at that None nd by (auto simp: at_slot_def node_for_def)
    then show ?thesis by (rule filter_absent[symmetric])
  qed
  with st' show ?thesis by (intro exI[of _ st'] exI[of _ L]) (auto intro: frame_intros)
next
  case (Some ps)
  then obtain p s where ps: "slot env st r prio = Some (p, s)" by (cases ps) auto
  have v: "valid_cell st p s" using slot_SomeD[OF env inv ps] by metis
  then have n: "n \<in> set (L p s)" using at ps nd by (auto simp: at_slot_def node_for_def)
  have rel: "coco_rel st L" using inv by (simp add: coco_inv_def)
  have "dl_list (c_heap st) (cell st p s) (L p s)" using rel v by (simp add: coco_rel_def)
  then have dist: "distinct (L p s)" by (rule dl_list_distinct)
  from coco_remove_slot[OF env inv nd prio ps n] obtain st' where
    st': "removeNode env prio n st = Some st'" "coco_inv env st' (L(p := (L p)(s := remove1 n (L p s))))"
    "dl_frame COCO_TABLE_DL_NR UNIV (c_heap st) (c_heap st')" "same_shape st st'" by blast
  have "(L(p := (L p)(s := remove1 n (L p s)))) p' s' = filter (\<lambda>a. a \<noteq> n) (L p' s')" if "valid_cell st p' s'" for p' s'
  proof (cases "(p', s') = (p, s)")
    case True
    then show ?thesis using dist by (simp add: remove1_filter_distinct)
  next
    case False
    then have "n \<notin> set (L p' s')" using rel v n that unfolding coco_rel_def by blast
    then show ?thesis using False by (auto simp: filter_absent)
  qed
  with st' show ?thesis by blast
qed

text \<open>The resources of a request, as the table sees them.\<close>

definition request_nodes :: "coco_state \<Rightarrow> request \<Rightarrow> addr list \<Rightarrow> bool" where
  "request_nodes st req xs \<longleftrightarrow> req_list (c_heap st) req xs \<and> mResourceList req \<noteq> None \<and>
     (\<forall>n\<in>set xs. \<exists>r. node_for st n r) \<and> 0 \<le> sint (getPriority req) \<and> sint (getPriority req) < 4"

text \<open>Progress of the insertion loop: \<open>ys\<close> remain.\<close>

definition inserting ::
    "coco_env \<Rightarrow> coco_state \<Rightarrow> (nat \<Rightarrow> nat \<Rightarrow> addr list) \<Rightarrow> int \<Rightarrow> addr list \<Rightarrow> addr list \<Rightarrow> int \<times> coco_state \<Rightarrow> bool" where
  "inserting env st0 L0 prio xs ys ks \<longleftrightarrow>
     (\<exists>L us. xs = us @ ys \<and> coco_inv env (snd ks) L \<and> same_shape st0 (snd ks) \<and>
        dl_frame COCO_TABLE_DL_NR UNIV (c_heap st0) (c_heap (snd ks)) \<and>
        (\<forall>n\<in>set us. at_slot env (snd ks) L prio n) \<and>
        (\<forall>p s. set (L0 p s) \<subseteq> set (L p s) \<and> set (L p s) \<subseteq> set us \<union> set (L0 p s)) \<and>
        (\<forall>p s. filter (\<lambda>a. a \<notin> set xs) (L p s) = filter (\<lambda>a. a \<notin> set xs) (L0 p s)) \<and>
        0 \<le> fst ks \<and> (fst ks = 0 \<longrightarrow> L = L0))"

lemma inserting_step:
  assumes env: "good_env env" and prio: "0 \<le> prio" "prio < 4" and dist: "distinct xs"
    and nodes: "\<forall>n\<in>set xs. outside st0 L0 n \<and> (\<exists>r. node_for st0 n r)"
    and J: "inserting env st0 L0 prio xs (y # ys) ks"
  shows "\<exists>t. insert_body env prio y ks = Some t \<and> inserting env st0 L0 prio xs ys t \<and>
    (\<forall>b. links (c_heap (snd t)) b 0 = links (c_heap (snd ks)) b 0)"
proof -
  obtain k st where ks: "ks = (k, st)" by (cases ks)
  from J ks obtain L us where xs: "xs = us @ y # ys" and inv: "coco_inv env st L" and sh: "same_shape st0 st"
    and fr: "dl_frame COCO_TABLE_DL_NR UNIV (c_heap st0) (c_heap st)" and at: "\<forall>n\<in>set us. at_slot env st L prio n"
    and bnd: "\<And>p s. set (L0 p s) \<subseteq> set (L p s) \<and> set (L p s) \<subseteq> set us \<union> set (L0 p s)"
    and fil: "\<And>p s. filter (\<lambda>a. a \<notin> set xs) (L p s) = filter (\<lambda>a. a \<notin> set xs) (L0 p s)"
    and cnt: "0 \<le> k" "k = 0 \<longrightarrow> L = L0"
    unfolding inserting_def by auto
  obtain r where "node_for st0 y r" using nodes xs by auto
  then have nd: "node_for st y r" using frame_node_for[OF fr] by simp
  have out: "outside st L y" unfolding outside_def
  proof (intro allI impI)
    fix p s assume "valid_cell st p s"
    then have "y \<notin> set (L0 p s)" using nodes xs shape_valid[OF sh] by (auto simp: outside_def)
    then show "y \<notin> set (L p s)" using bnd[of p s] dist xs by auto
  qed
  have yX: "y \<in> set xs" using xs by simp
  from coco_insert_node[OF env inv out nd prio yX] obtain b st' L' where
    ins: "insertInCocoTable env (Some y) prio st = Some (b, st')" "coco_inv env st' L'"
    and fr': "dl_frame COCO_TABLE_DL_NR UNIV (c_heap st) (c_heap st')" and sh': "same_shape st st'"
    and at': "at_slot env st' L' prio y"
    and bnd': "\<And>p s. set (L p s) \<subseteq> set (L' p s) \<and> set (L' p s) \<subseteq> insert y (set (L p s))"
    and fil': "\<And>p s. filter (\<lambda>a. a \<notin> set xs) (L' p s) = filter (\<lambda>a. a \<notin> set xs) (L p s)"
    and no: "\<not> b \<longrightarrow> L' = L" by blast
  have "at_slot env st' L' prio n" if n: "n \<in> set us" for n
  proof -
    have "n \<noteq> y" using n dist xs by auto
    then have "at_slot env st' L' prio n = at_slot env st L prio n"
      using fr' bnd' by (intro at_slot_frame[OF sh']) (auto simp: dl_frame_def)
    with at n show ?thesis by simp
  qed
  moreover have "set (L0 p s) \<subseteq> set (L' p s) \<and> set (L' p s) \<subseteq> set (us @ [y]) \<union> set (L0 p s)" for p s
    using bnd[of p s] bnd'[of p s] by auto
  moreover have "0 \<le> k + of_bool b" "k + of_bool b = 0 \<longrightarrow> L' = L0" using cnt no by (cases b; simp)+
  ultimately have "inserting env st0 L0 prio xs ys (k + of_bool b, st')"
    unfolding inserting_def using xs ins(2) same_shape_trans[OF sh sh'] dl_frame_trans[OF fr fr'] at' fil fil'
    by (intro exI[of _ L'] exI[of _ "us @ [y]"]) auto
  moreover have "insert_body env prio y ks = Some (k + of_bool b, st')" by (simp add: insert_body_def ks ins(1))
  ultimately show ?thesis using frame_links[OF fr'] ks by (auto simp: COCO_TABLE_DL_NR_def)
qed

lemma row_ok_cong:
  "mCurrentlyAppliedPriority st' = mCurrentlyAppliedPriority st \<Longrightarrow>
   in_effect k (c_trace st') = in_effect k (c_trace st) \<Longrightarrow> c_heap st' = c_heap st \<Longrightarrow>
   row_ok env st' L k = row_ok env st L k"
  by (simp add: row_ok_def Let_def split: option.split)

text \<open>Timers do not change what is in effect.\<close>

lemma coco_inv_timer:
  "coco_inv env st L \<Longrightarrow> e \<in> {TimerStart a d, TimerKill a, TimerFree a} \<Longrightarrow> coco_inv env (log_event e st) L"
proof -
  assume inv: "coco_inv env st L" and e: "e \<in> {TimerStart a d, TimerKill a, TimerFree a}"
  have "in_effect k (c_trace (log_event e st)) = in_effect k (c_trace st)" for k
    using e by (auto simp: log_event_def)
  moreover have "coco_rel (log_event e st) L" using inv by (auto simp: coco_inv_def log_event_def)
  moreover have "row_ok env (log_event e st) L k = row_ok env st L k" for k
    by (rule row_ok_cong) (simp_all add: calculation(1), simp_all add: log_event_def)
  ultimately show ?thesis using inv by (simp add: coco_inv_def row_nodes_def log_event_def)
qed

definition inserted ::
    "coco_env \<Rightarrow> coco_state \<Rightarrow> (nat \<Rightarrow> nat \<Rightarrow> addr list) \<Rightarrow> int \<Rightarrow> addr list \<Rightarrow> coco_state \<Rightarrow> (nat \<Rightarrow> nat \<Rightarrow> addr list) \<Rightarrow> bool" where
  "inserted env st0 L0 prio xs st L \<longleftrightarrow>
     coco_inv env st L \<and> same_shape st0 st \<and> dl_frame COCO_TABLE_DL_NR UNIV (c_heap st0) (c_heap st) \<and>
     (\<forall>n\<in>set xs. at_slot env st L prio n) \<and>
     (\<forall>p s. filter (\<lambda>a. a \<notin> set xs) (L p s) = filter (\<lambda>a. a \<notin> set xs) (L0 p s))"

lemma log_event_frame [simp]:
  "c_heap (log_event e st) = c_heap st" "mCocoTable (log_event e st) = mCocoTable st"
  "mFlatClusterMap (log_event e st) = mFlatClusterMap st" "mFlatCGroupMap (log_event e st) = mFlatCGroupMap st"
  by (simp_all add: log_event_def)

lemma inserted_timer:
  "inserted env st0 L0 prio xs st L \<Longrightarrow> e \<in> {TimerStart a d, TimerKill a, TimerFree a} \<Longrightarrow>
     inserted env st0 L0 prio xs (log_event e st) L"
proof -
  assume i: "inserted env st0 L0 prio xs st L" and e: "e \<in> {TimerStart a d, TimerKill a, TimerFree a}"
  have sh: "same_shape st (log_event e st)" by (simp add: same_shape_def)
  have "at_slot env (log_event e st) L prio n = at_slot env st L prio n" for n
    by (rule at_slot_frame[OF sh]) simp_all
  moreover have "coco_inv env (log_event e st) L" by (rule coco_inv_timer[OF _ e]) (use i in \<open>simp add: inserted_def\<close>)
  moreover have "same_shape st0 (log_event e st)" by (rule same_shape_trans[OF _ sh]) (use i in \<open>simp add: inserted_def\<close>)
  ultimately show ?thesis using i by (simp add: inserted_def)
qed

lemma insert_loop:
  assumes env: "good_env env" and inv: "coco_inv env st L" and req: "mResourceList req = Some l"
    and nodes: "request_nodes st req xs" and out: "\<forall>n\<in>set xs. outside st L n"
  shows "\<exists>k st' L'. dl_iterate (mLinkerInUse l) (\<lambda>cs. c_heap (snd cs)) (insert_body env (sint (getPriority req)))
      (mHead l) (0, st) = Some (k, st') \<and> inserted env st L (sint (getPriority req)) xs st' L' \<and> (k = 0 \<longrightarrow> L' = L)"
proof -
  let ?prio = "sint (getPriority req)"
  have l: "dl_list (c_heap st) l xs" "mLinkerInUse l = 0"
    using nodes req by (auto simp: request_nodes_def req_list_def REQUEST_DL_NR_def)
  have prio: "0 \<le> ?prio" "?prio < 4" and nd: "\<forall>n\<in>set xs. outside st L n \<and> (\<exists>r. node_for st n r)"
    using nodes out by (auto simp: request_nodes_def)
  have J0: "inserting env st L ?prio xs xs (0, st)"
    unfolding inserting_def using inv by (intro exI[of _ L] exI[of _ "[]"]) (auto intro: frame_intros)
  have "\<exists>t. dl_iterate 0 (\<lambda>cs. c_heap (snd cs)) (insert_body env ?prio) (first_ptr xs None) (0, st) = Some t \<and>
      inserting env st L ?prio xs [] t"
  proof (rule dl_iterate_progress[where p = None and J = "inserting env st L ?prio xs" and s = "(0, st)"])
    show "inserting env st L ?prio xs xs (0, st)" by (rule J0)
    show "dseg (c_heap (snd (0, st))) 0 None xs None" using l by (auto simp: dl_list_def)
  qed (use inserting_step[OF env prio dl_list_distinct[OF l(1)] nd] in auto)
  then obtain t where t: "dl_iterate 0 (\<lambda>cs. c_heap (snd cs)) (insert_body env ?prio) (first_ptr xs None) (0, st) = Some t"
    "inserting env st L ?prio xs [] t" by blast
  from t(2) obtain L' where "inserted env st L ?prio xs (snd t) L'" "fst t = 0 \<longrightarrow> L' = L"
    unfolding inserting_def inserted_def by (elim exE conjE) simp
  then show ?thesis using t(1) l by (intro exI[of _ "fst t"] exI[of _ "snd t"] exI[of _ L']) (simp add: dl_list_def)
qed

text \<open>A tune request is inserted as a whole; the loop returns and no list is damaged.\<close>

lemma insertRequest_inserted:
  assumes env: "good_env env" and inv: "coco_inv env st L" and nodes: "request_nodes st req xs"
    and out: "\<forall>n\<in>set xs. outside st L n" and tm: "getDuration req = -1 \<or> timer_block \<noteq> None"
  shows "\<exists>b req' st' L'. insertRequest env timer_block start_ok (Some req) st = Some (b, Some req', st') \<and>
    inserted env st L (sint (getPriority req)) xs st' L' \<and>
    mResourceList req' = mResourceList req \<and> message.truncate req' = message.truncate req \<and>
    (start_ok \<longrightarrow> \<not> b \<longrightarrow> L' = L)"
proof -
  obtain l where l: "mResourceList req = Some l" using nodes by (auto simp: request_nodes_def)
  from insert_loop[OF env inv l nodes out] obtain k st' L' where
    loop: "dl_iterate (mLinkerInUse l) (\<lambda>cs. c_heap (snd cs)) (insert_body env (sint (getPriority req)))
      (mHead l) (0, st) = Some (k, st')" "inserted env st L (sint (getPriority req)) xs st' L'" "k = 0 \<longrightarrow> L' = L"
    by blast
  have "\<exists>b req' st2. insertRequest env timer_block start_ok (Some req) st = Some (b, Some req', st2) \<and>
      (st2 = st' \<or> (\<exists>e a d. e \<in> {TimerStart a d, TimerKill a, TimerFree a} \<and> st2 = log_event e st')) \<and>
      mResourceList req' = mResourceList req \<and> message.truncate req' = message.truncate req \<and>
      (start_ok \<longrightarrow> \<not> b \<longrightarrow> k = 0)"
    using loop(1) tm l
    by (cases "k = 0"; cases "getDuration req = -1"; cases timer_block; cases start_ok)
      (auto simp: insertRequest_def finish_insert_def Let_def setTimer_def getResDlMgr_def getDuration_def
         getPriority_def unsetTimer_def message.defs)
  then obtain b req' st2 where r: "insertRequest env timer_block start_ok (Some req) st = Some (b, Some req', st2)"
    "st2 = st' \<or> (\<exists>e a d. e \<in> {TimerStart a d, TimerKill a, TimerFree a} \<and> st2 = log_event e st')"
    "mResourceList req' = mResourceList req" "message.truncate req' = message.truncate req"
    "start_ok \<longrightarrow> \<not> b \<longrightarrow> k = 0" by blast
  have "inserted env st L (sint (getPriority req)) xs st2 L'" using r(2) loop(2) inserted_timer[OF loop(2)] by blast
  then show ?thesis using r loop(3) by (intro exI[of _ b] exI[of _ req'] exI[of _ st2] exI[of _ L']) simp
qed

text \<open>Progress of the removal loop.\<close>

definition removing ::
    "coco_env \<Rightarrow> coco_state \<Rightarrow> (nat \<Rightarrow> nat \<Rightarrow> addr list) \<Rightarrow> int \<Rightarrow> addr list \<Rightarrow> addr list \<Rightarrow> coco_state \<Rightarrow> bool" where
  "removing env st0 L0 prio xs ys st \<longleftrightarrow>
     (\<exists>L us. xs = us @ ys \<and> coco_inv env st L \<and> same_shape st0 st \<and>
        dl_frame COCO_TABLE_DL_NR UNIV (c_heap st0) (c_heap st) \<and>
        (\<forall>n\<in>set ys. at_slot env st L prio n) \<and>
        (\<forall>p s. valid_cell st0 p s \<longrightarrow> L p s = filter (\<lambda>a. a \<notin> set us) (L0 p s)))"

lemma removing_step:
  assumes env: "good_env env" and prio: "0 \<le> prio" "prio < 4" and dist: "distinct xs"
    and nodes: "\<forall>n\<in>set xs. \<exists>r. node_for st0 n r" and J: "removing env st0 L0 prio xs (y # ys) st"
  shows "\<exists>t. removeNode env prio y st = Some t \<and> removing env st0 L0 prio xs ys t \<and>
    (\<forall>b. links (c_heap t) b 0 = links (c_heap st) b 0)"
proof -
  from J obtain L us where xs: "xs = us @ y # ys" and inv: "coco_inv env st L" and sh: "same_shape st0 st"
    and fr: "dl_frame COCO_TABLE_DL_NR UNIV (c_heap st0) (c_heap st)"
    and at: "\<forall>n\<in>set (y # ys). at_slot env st L prio n"
    and fil: "\<And>p s. valid_cell st0 p s \<Longrightarrow> L p s = filter (\<lambda>a. a \<notin> set us) (L0 p s)"
    unfolding removing_def by blast
  obtain r where "node_for st0 y r" using nodes xs by auto
  then have nd: "node_for st y r" using frame_node_for[OF fr] by simp
  from coco_remove_node[OF env inv nd prio] at obtain st' L' where
    rm: "removeNode env prio y st = Some st'" "coco_inv env st' L'"
    and fr': "dl_frame COCO_TABLE_DL_NR UNIV (c_heap st) (c_heap st')" and sh': "same_shape st st'"
    and fil': "\<And>p s. valid_cell st p s \<Longrightarrow> L' p s = filter (\<lambda>a. a \<noteq> y) (L p s)" by auto
  have "at_slot env st' L' prio n" if n: "n \<in> set ys" for n
  proof -
    have "n \<noteq> y" using n dist xs by auto
    then have "at_slot env st' L' prio n = at_slot env st L prio n"
      using fr' fil' by (intro at_slot_frame[OF sh']) (auto simp: dl_frame_def)
    with at n show ?thesis by simp
  qed
  moreover have "L' p s = filter (\<lambda>a. a \<notin> set (us @ [y])) (L0 p s)" if "valid_cell st0 p s" for p s
    using fil[OF that] fil'[of p s] that shape_valid[OF sh] by (auto intro: filter_cong)
  ultimately have "removing env st0 L0 prio xs ys st'"
    unfolding removing_def using xs rm(2) same_shape_trans[OF sh sh'] dl_frame_trans[OF fr fr']
    by (intro exI[of _ L'] exI[of _ "us @ [y]"]) auto
  then show ?thesis using rm(1) frame_links[OF fr'] by (auto simp: COCO_TABLE_DL_NR_def)
qed

lemma removeRequest_removed:
  assumes env: "good_env env" and inv: "coco_inv env st L" and nodes: "request_nodes st req xs"
    and at: "\<forall>n\<in>set xs. at_slot env st L (sint (getPriority req)) n"
  shows "\<exists>st' L'. removeRequest env (Some req) st = Some (0, st') \<and> coco_inv env st' L' \<and> same_shape st st' \<and>
    dl_frame COCO_TABLE_DL_NR UNIV (c_heap st) (c_heap st') \<and>
    (\<forall>p s. valid_cell st p s \<longrightarrow> L' p s = filter (\<lambda>a. a \<notin> set xs) (L p s))"
proof -
  let ?prio = "sint (getPriority req)"
  obtain l where req: "mResourceList req = Some l" using nodes by (auto simp: request_nodes_def)
  have l: "dl_list (c_heap st) l xs" "mLinkerInUse l = 0"
    using nodes req by (auto simp: request_nodes_def req_list_def REQUEST_DL_NR_def)
  have prio: "0 \<le> ?prio" "?prio < 4" and nd: "\<forall>n\<in>set xs. \<exists>r. node_for st n r"
    using nodes by (auto simp: request_nodes_def)
  have J0: "removing env st L ?prio xs xs st"
    unfolding removing_def using inv at by (intro exI[of _ L] exI[of _ "[]"]) (auto intro: frame_intros)
  have "\<exists>t. dl_iterate 0 c_heap (removeNode env ?prio) (first_ptr xs None) st = Some t \<and> removing env st L ?prio xs [] t"
  proof (rule dl_iterate_progress[where p = None and J = "removing env st L ?prio xs" and s = st])
    show "dseg (c_heap st) 0 None xs None" using l by (auto simp: dl_list_def)
  qed (use J0 removing_step[OF env prio dl_list_distinct[OF l(1)] nd] in auto)
  then obtain t where t: "dl_iterate 0 c_heap (removeNode env ?prio) (first_ptr xs None) st = Some t"
    "removing env st L ?prio xs [] t" by blast
  then show ?thesis using l req by (auto simp: removing_def removeRequest_def getResDlMgr_def dl_list_def)
qed

section \<open>Tune, then untune\<close>

lemma effect_of_lists:
  assumes "coco_inv env st L" "coco_inv env st' L'" "same_shape st st'"
    and "\<And>b. dl_data (c_heap st') b = dl_data (c_heap st) b"
    and "\<And>p s. valid_cell st p s \<Longrightarrow> L' p s = L p s"
    and "good_env env" "getResConf (ce_registry env) k = Some c" "managed env c"
  shows "in_effect k (c_trace st') = in_effect k (c_trace st)"
proof -
  let ?p = "row_of env k"
  have row: "row_ok env st L k" "row_ok env st' L' k" "length (mCocoTable st ! ?p) = 4"
    using assms(1,2,7,8) by (auto simp: coco_inv_def)
  have v: "s < 4 \<Longrightarrow> valid_cell st ?p s" for s
    using row(3) coco_inv_conf(1)[OF assms(6,1,7)] by (simp add: valid_cell_def)
  then have same: "s < 4 \<Longrightarrow> L' ?p s = L ?p s" for s using assms(5) by blast
  then have "top_level (L' ?p) = top_level (L ?p)" by (simp add: top_level_def)
  with row(1,2) same assms(4) top_level_Some[of "L ?p"] show ?thesis
    by (auto simp: row_ok_def Let_def split: option.splits)
qed

lemma tune_untune_restores:
  assumes env: "good_env env" and inv: "coco_inv env st L" and nodes: "request_nodes st req xs"
    and out: "\<forall>n\<in>set xs. outside st L n" and tm: "getDuration req = -1 \<or> timer_block \<noteq> None"
  shows "\<exists>b req' st1 st2. insertRequest env timer_block start_ok (Some req) st = Some (b, Some req', st1) \<and>
    removeRequest env (Some req') st1 = Some (0, st2) \<and>
    (\<forall>p s. valid_cell st p s \<longrightarrow> dl_list (c_heap st2) (cell st2 p s) (L p s)) \<and>
    (\<forall>k c. getResConf (ce_registry env) k = Some c \<longrightarrow> managed env c \<longrightarrow>
       in_effect k (c_trace st2) = in_effect k (c_trace st))"
proof -
  let ?prio = "sint (getPriority req)"
  from insertRequest_inserted[OF env inv nodes out tm, of start_ok] obtain b req' st1 L1 where
    ins: "insertRequest env timer_block start_ok (Some req) st = Some (b, Some req', st1)"
    and i: "inserted env st L ?prio xs st1 L1"
    and rq: "mResourceList req' = mResourceList req" "message.truncate req' = message.truncate req" by blast
  have pr: "getPriority req' = getPriority req" using rq(2) by (simp add: getPriority_def message.defs)
  have i': "coco_inv env st1 L1" "same_shape st st1" "dl_frame COCO_TABLE_DL_NR UNIV (c_heap st) (c_heap st1)"
    "\<forall>n\<in>set xs. at_slot env st1 L1 ?prio n"
    "\<And>p s. filter (\<lambda>a. a \<notin> set xs) (L1 p s) = filter (\<lambda>a. a \<notin> set xs) (L p s)"
    using i by (auto simp: inserted_def)
  have "req_list (c_heap st1) req' xs"
    using nodes rq(1) dl_list_frame[OF i'(3)]
    by (auto simp: request_nodes_def req_list_def REQUEST_DL_NR_def COCO_TABLE_DL_NR_def split: option.splits)
  then have n1: "request_nodes st1 req' xs"
    using nodes rq(1) pr frame_node_for[OF i'(3)] by (simp add: request_nodes_def)
  from removeRequest_removed[OF env i'(1) n1] i'(4) pr obtain st2 L2 where
    rem: "removeRequest env (Some req') st1 = Some (0, st2)" "coco_inv env st2 L2" "same_shape st1 st2"
    "dl_frame COCO_TABLE_DL_NR UNIV (c_heap st1) (c_heap st2)"
    "\<And>p s. valid_cell st1 p s \<Longrightarrow> L2 p s = filter (\<lambda>a. a \<notin> set xs) (L1 p s)" by auto
  have same: "L2 p s = L p s" if "valid_cell st p s" for p s
  proof -
    have "L2 p s = filter (\<lambda>a. a \<notin> set xs) (L p s)" using rem(5) i'(5) that shape_valid[OF i'(2)] by simp
    also have "\<dots> = L p s" using out that by (auto simp: outside_def intro: filter_True)
    finally show ?thesis .
  qed
  have sh: "same_shape st st2" by (rule same_shape_trans[OF i'(2) rem(3)])
  have dat: "dl_data (c_heap st2) a = dl_data (c_heap st) a" for a using i'(3) rem(4) by (simp add: dl_frame_def)
  have "dl_list (c_heap st2) (cell st2 p s) (L p s)" if "valid_cell st p s" for p s
  proof -
    have "coco_rel st2 L2" using rem(2) by (simp add: coco_inv_def)
    then have "dl_list (c_heap st2) (cell st2 p s) (L2 p s)"
      using that shape_valid[OF sh] by (simp add: coco_rel_def)
    then show ?thesis by (simp only: same[OF that])
  qed
  moreover have "in_effect k (c_trace st2) = in_effect k (c_trace st)"
    if "getResConf (ce_registry env) k = Some c" "managed env c" for k c
    by (rule effect_of_lists[OF inv rem(2) sh dat same env that])
  ultimately show ?thesis using ins rem(1) by blast
qed

end
