(* ===== verification/Target.thy ===== *)
theory Target
  imports Files SafeOps "HOL-Library.AList" "HOL-Library.List_Lexorder" "HOL-Library.Char_ord" "HOL-Library.Product_Lexorder"
    "HOL-Library.Multiset"
begin

text \<open>
  \<^verbatim>\<open>resource-tuner/core/TargetRegistry.cpp\<close>: what the daemon knows of its device. The
  clusters are discovered from the cpufreq policy directories or from the cpu topology, or given
  by a configuration file; cgroups, MPAM groups and caches come from the configuration. The
  unordered maps are association lists: their order stands for the iteration order the library
  chooses, and is not observable through a lookup. An entry \<^const>\<open>None\<close> is the null
  pointer that \<^verbatim>\<open>operator[]\<close> inserts. A signed result that does not fit in 32 bits, a
  shift by 64 or more and a null dereference are faults.
\<close>

section \<open>Data\<close>

record CGroupConfigInfo =
  mCgroupName :: string
  mCgroupID :: int
  mCreationNeeded :: bool
  mIsThreaded :: bool

record ClusterInfo =
  mPhysicalID :: int
  mCapacity :: int
  mStartCpu :: int
  mNumCpus :: int

record MpamGroupConfigInfo =
  mMpamGroupInfoID :: int
  mMpamGroupName :: string
  mMpamPriority :: int

record CacheInfo =
  mCacheType :: string
  mNumCacheBlocks :: int
  mPriorityAware :: bool

text \<open>
  The registry, with the two counters of \<^verbatim>\<open>UrmSettings::targetConfigs\<close> it maintains.
\<close>

record target =
  mLogicalToPhysicalClusterMapping :: "(int \<times> int) list"
  mPhysicalClusters :: "(int \<times> ClusterInfo option) list"
  mCGroupMapping :: "(int \<times> CGroupConfigInfo option) list"
  mMpamGroupMapping :: "(int \<times> MpamGroupConfigInfo option) list"
  mCacheInfoMapping :: "(string \<times> CacheInfo option) list"
  mTotalCoreCount :: int
  mTotalClusterCount :: int

definition target_empty :: target where
  "target_empty = \<lparr>mLogicalToPhysicalClusterMapping = [], mPhysicalClusters = [], mCGroupMapping = [],
     mMpamGroupMapping = [], mCacheInfoMapping = [], mTotalCoreCount = 0, mTotalClusterCount = 0\<rparr>"

section \<open>Reading the device\<close>

definition ONLINE_CPU_FILE_PATH :: string where "ONLINE_CPU_FILE_PATH = ''/sys/devices/system/cpu/online''"
definition POLICY_DIR_PATH :: string where "POLICY_DIR_PATH = ''/sys/devices/system/cpu/cpufreq/''"
definition cpuDir :: string where "cpuDir = ''/sys/devices/system/cpu''"

text \<open>\<^const>\<open>None\<close> inside the fold is the exception of \<^verbatim>\<open>std::stoi\<close>.\<close>

definition max_index :: "string \<Rightarrow> int option \<Rightarrow> int option" where
  "max_index token acc =
     (case acc of None \<Rightarrow> None | Some cpuIndex \<Rightarrow>
        (case stoi10 token of None \<Rightarrow> None | Some v \<Rightarrow> Some (max cpuIndex v)))"

definition getOnlineCpuCount :: "world \<Rightarrow> int option" where
  "getOnlineCpuCount w =
     (case contents w ONLINE_CPU_FILE_PATH of None \<Rightarrow> Some 0
      | Some c \<Rightarrow> (case fold max_index (tokens CHR ''-'' (takeWhile (\<lambda>x. x \<noteq> newline) c)) (Some 0) of
           None \<Rightarrow> Some 0 | Some cpuIndex \<Rightarrow> arith 32 (cpuIndex + 1)))"

text \<open>The list keeps what was read before an exception; each id is cast to \<^verbatim>\<open>int8_t\<close>.\<close>

fun related_cpus :: "string list \<Rightarrow> int list" where
  "related_cpus [] = []"
| "related_cpus (token # ts) =
     (if token = [] then related_cpus ts
      else case stoi10 token of None \<Rightarrow> []
        | Some v \<Rightarrow> sint (word_of_int v :: i8) # related_cpus ts)"

definition readRelatedCpus :: "world \<Rightarrow> string \<Rightarrow> ErrCode \<times> int list" where
  "readRelatedCpus w policyPath =
     (case contents w (policyPath @ ''/related_cpus'') of None \<Rightarrow> (RC_FILE_NOT_FOUND, [])
      | Some c \<Rightarrow> (RC_SUCCESS, related_cpus (tokens CHR '' '' (takeWhile (\<lambda>x. x \<noteq> newline) c))))"

definition readCpuCapacity :: "world \<Rightarrow> int \<Rightarrow> int" where
  "readCpuCapacity w cpuID =
     (case stoi10 (readFromFile w (cpuDir @ ''/cpu'' @ to_string cpuID @ ''/cpu_capacity'')) of
        None \<Rightarrow> 0 | Some capacity \<Rightarrow> capacity)"

section \<open>Clusters from the policy directories\<close>

text \<open>
  \<open>indet\<close> is what an uninitialised member holds: a policy without cpus leaves its start
  unset.
\<close>

definition policy_step :: "int \<Rightarrow> world \<Rightarrow> string
    \<Rightarrow> i8 \<times> (int \<times> int \<times> ClusterInfo) list \<times> (int \<times> ClusterInfo option) list
    \<Rightarrow> i8 \<times> (int \<times> int \<times> ClusterInfo) list \<times> (int \<times> ClusterInfo option) list" where
  "policy_step indet w dirName st =
     (case st of (physicalClusterId, clusterConfigs, physical) \<Rightarrow>
        (case readRelatedCpus w (POLICY_DIR_PATH @ dirName) of (rc, cpuList) \<Rightarrow>
           if RC_IS_OK rc then
             (let start = (if cpuList = [] then indet else fold min cpuList (hd cpuList));
                  clusterCapacity = (if cpuList = [] then 0 else readCpuCapacity w (hd cpuList));
                  clusterInfo = \<lparr>mPhysicalID = sint physicalClusterId, mCapacity = clusterCapacity,
                    mStartCpu = start, mNumCpus = int (length cpuList)\<rparr>
              in (physicalClusterId + of_nat (length cpuList),
                  clusterConfigs @ [(clusterCapacity, mPhysicalID clusterInfo, clusterInfo)],
                  AList.update (mPhysicalID clusterInfo) (Some clusterInfo) physical))
           else st))"

definition number_clusters :: "int list \<Rightarrow> (int \<times> int) list \<Rightarrow> (int \<times> int) list" where
  "number_clusters ids mp = fold (\<lambda>(i, p). AList.update (int i) p) (List.enumerate 0 ids) mp"

definition generatePolicyBasedMapping :: "int \<Rightarrow> world \<Rightarrow> string list \<Rightarrow> target \<Rightarrow> target" where
  "generatePolicyBasedMapping indet w policyDirs T =
     (case fold (policy_step indet w) (sort policyDirs) (0, [], mPhysicalClusters T) of
        (_, clusterConfigs, physical) \<Rightarrow>
          (let ordered = sort_key (\<lambda>x. (fst x, fst (snd x))) clusterConfigs
           in T\<lparr>mTotalClusterCount := int (length policyDirs), mPhysicalClusters := physical,
               mLogicalToPhysicalClusterMapping :=
                 number_clusters (map (\<lambda>x. mPhysicalID (snd (snd x))) ordered)
                   (mLogicalToPhysicalClusterMapping T)\<rparr>))"

section \<open>Clusters from the cpu topology\<close>

definition append_core :: "int \<Rightarrow> int \<Rightarrow> (int \<times> int list) list \<Rightarrow> (int \<times> int list) list" where
  "append_core clusterID cpuNum mp =
     AList.update clusterID ((case map_of mp clusterID of None \<Rightarrow> [] | Some cs \<Rightarrow> cs) @ [cpuNum]) mp"

text \<open>
  Directory entries \<^verbatim>\<open>cpu<digits>\<close>; a number that does not fit ends the scan. The stream
  extraction of \<^verbatim>\<open>cluster_id\<close> accepts what base-ten \<^verbatim>\<open>stoi\<close> accepts.
\<close>

fun scan_cpus :: "world \<Rightarrow> (string \<times> bool) list \<Rightarrow> (int \<times> int list) list \<Rightarrow> (int \<times> int list) list" where
  "scan_cpus w [] mp = mp"
| "scan_cpus w ((name, is_dir) # es) mp =
     (if is_dir \<and> take 3 name = ''cpu'' \<and> drop 3 name \<noteq> [] \<and> isNumericString (drop 3 name) then
        (case stoi10 (drop 3 name) of None \<Rightarrow> mp
         | Some cpuNum \<Rightarrow>
             (case contents w (cpuDir @ ''/'' @ name @ ''/topology/cluster_id'') of None \<Rightarrow> scan_cpus w es mp
              | Some c \<Rightarrow> (case stoi10 c of None \<Rightarrow> scan_cpus w es mp
                  | Some clusterID \<Rightarrow> scan_cpus w es (append_core clusterID cpuNum mp))))
      else scan_cpus w es mp)"

definition cluster_of_cores :: "int \<Rightarrow> int \<times> int list \<Rightarrow> ClusterInfo" where
  "cluster_of_cores indet e =
     \<lparr>mPhysicalID = fst e, mCapacity = indet,
      mStartCpu = (if snd e = [] then indet else fold min (snd e) (hd (snd e))),
      mNumCpus = int (length (snd e))\<rparr>"

definition cluster_capacity :: "world \<Rightarrow> ClusterInfo option \<Rightarrow> int" where
  "cluster_capacity w info = (case info of None \<Rightarrow> 0 | Some c \<Rightarrow> readCpuCapacity w (mStartCpu c))"

text \<open>
  The final sort compares pointers when capacities tie: \<open>ptr\<close> gives the address of the record
  allocated for a cluster.
\<close>

definition getClusterIdBasedMapping :: "int \<Rightarrow> (int \<Rightarrow> nat) \<Rightarrow> world \<Rightarrow> target \<Rightarrow> target option" where
  "getClusterIdBasedMapping indet ptr w T =
     (case entries w cpuDir of None \<Rightarrow> Some T
      | Some es \<Rightarrow>
          (let clusterToCoreMap = scan_cpus w es [];
               physical = fold (\<lambda>e. AList.update (fst e) (Some (cluster_of_cores indet e)))
                 clusterToCoreMap (mPhysicalClusters T);
               ordered = sort_key (\<lambda>e. (cluster_capacity w (snd e), case snd e of None \<Rightarrow> 0 | Some _ \<Rightarrow> ptr (fst e))) physical
           in if \<exists>e\<in>set ordered. snd e = None then None
              else Some (T\<lparr>mTotalClusterCount := int (length clusterToCoreMap), mPhysicalClusters := physical,
                mLogicalToPhysicalClusterMapping :=
                  number_clusters (map (\<lambda>e. mPhysicalID (the (snd e))) ordered)
                    (mLogicalToPhysicalClusterMapping T)\<rparr>)))"

definition readTargetInfo :: "int \<Rightarrow> (int \<Rightarrow> nat) \<Rightarrow> world \<Rightarrow> target \<Rightarrow> target option" where
  "readTargetInfo indet ptr w T =
     do {
       count \<leftarrow> getOnlineCpuCount w;
       let T = T\<lparr>mTotalCoreCount := count\<rparr>;
       case entries w POLICY_DIR_PATH of None \<Rightarrow> Some T
       | Some es \<Rightarrow>
           (let policyDirs = filter (\<lambda>n. take 6 n = ''policy'') (map fst es)
            in if policyDirs \<noteq> [] then Some (generatePolicyBasedMapping indet w policyDirs T)
               else getClusterIdBasedMapping indet ptr w T)
     }"

section \<open>Clusters from the configuration\<close>

definition addClusterMapping :: "string \<Rightarrow> string \<Rightarrow> target \<Rightarrow> target" where
  "addClusterMapping logicalIDString physicalIDString T =
     (case stoi10 logicalIDString of None \<Rightarrow> T
      | Some logicalID \<Rightarrow>
          (case stoi10 physicalIDString of None \<Rightarrow> T
           | Some physicalID \<Rightarrow>
               (let physical = (if map_of (mPhysicalClusters T) physicalID = None
                    then AList.update physicalID (Some \<lparr>mPhysicalID = physicalID, mCapacity = 0,
                      mStartCpu = physicalID, mNumCpus = 0\<rparr>) (mPhysicalClusters T)
                    else mPhysicalClusters T)
                in T\<lparr>mPhysicalClusters := physical,
                    mLogicalToPhysicalClusterMapping :=
                      AList.update logicalID physicalID (mLogicalToPhysicalClusterMapping T),
                    mTotalClusterCount := int (length physical)\<rparr>)))"

definition addClusterSpreadInfo :: "string \<Rightarrow> string \<Rightarrow> target \<Rightarrow> target option" where
  "addClusterSpreadInfo physicalIDString numCoresString T =
     (case stoi10 physicalIDString of None \<Rightarrow> Some T
      | Some physicalID \<Rightarrow>
          (case stoi10 numCoresString of None \<Rightarrow> Some T
           | Some numCores \<Rightarrow>
               (case map_of (mPhysicalClusters T) physicalID of None \<Rightarrow> Some T
                | Some None \<Rightarrow> None
                | Some (Some clusterInfo) \<Rightarrow>
                    Some (T\<lparr>mPhysicalClusters := AList.update physicalID
                      (Some (clusterInfo\<lparr>mNumCpus := numCores\<rparr>)) (mPhysicalClusters T)\<rparr>))))"

section \<open>Queries\<close>

definition getClusterIDs :: "target \<Rightarrow> int list" where
  "getClusterIDs T = map snd (mLogicalToPhysicalClusterMapping T)"

definition getPhysicalClusterId :: "target \<Rightarrow> int \<Rightarrow> int" where
  "getPhysicalClusterId T logicalClusterId =
     (case map_of (mLogicalToPhysicalClusterMapping T) logicalClusterId of None \<Rightarrow> -1 | Some p \<Rightarrow> p)"

text \<open>\<^verbatim>\<open>operator[]\<close> of the pointer maps: a missing key is inserted with a null value.\<close>

definition at_or_null :: "'k \<Rightarrow> ('k \<times> 'v option) list \<Rightarrow> 'v option \<times> ('k \<times> 'v option) list" where
  "at_or_null k mp = (case map_of mp k of Some v \<Rightarrow> (v, mp) | None \<Rightarrow> (None, AList.update k None mp))"

definition getClusterInfo :: "int \<Rightarrow> target \<Rightarrow> ClusterInfo option \<times> target" where
  "getClusterInfo physicalClusterID T =
     (case at_or_null physicalClusterID (mPhysicalClusters T) of
        (info, mp) \<Rightarrow> (info, T\<lparr>mPhysicalClusters := mp\<rparr>))"

definition getPhysicalCoreId :: "int \<Rightarrow> int \<Rightarrow> target \<Rightarrow> (int \<times> target) option" where
  "getPhysicalCoreId logicalClusterId logicalCoreCount T =
     (if mPhysicalClusters T = [] then Some (logicalCoreCount, T)
      else case map_of (mLogicalToPhysicalClusterMapping T) logicalClusterId of None \<Rightarrow> Some (-1, T)
        | Some physicalClusterId \<Rightarrow>
            (case getClusterInfo physicalClusterId T of
               (None, T') \<Rightarrow> Some (-1, T')
             | (Some clusterInfo, T') \<Rightarrow>
                 if logicalCoreCount \<le> 0 \<or> logicalCoreCount > mNumCpus clusterInfo then Some (-1, T')
                 else do { s \<leftarrow> arith 32 (mStartCpu clusterInfo + logicalCoreCount);
                           r \<leftarrow> arith 32 (s - 1); Some (r, T') }))"

definition getCGroupNames :: "target \<Rightarrow> string list option" where
  "getCGroupNames T =
     (if list_all (\<lambda>e. snd e \<noteq> None) (mCGroupMapping T)
      then Some (map (\<lambda>e. mCgroupName (the (snd e))) (mCGroupMapping T)) else None)"

definition getCGroupConfig :: "int \<Rightarrow> target \<Rightarrow> CGroupConfigInfo option \<times> target" where
  "getCGroupConfig cGroupID T =
     (case at_or_null cGroupID (mCGroupMapping T) of (info, mp) \<Rightarrow> (info, T\<lparr>mCGroupMapping := mp\<rparr>))"

definition getCGroupConfigs :: "target \<Rightarrow> CGroupConfigInfo option list" where
  "getCGroupConfigs T = map snd (mCGroupMapping T)"

definition getCreatedCGroupsCount :: "target \<Rightarrow> int" where
  "getCreatedCGroupsCount T = int (length (mCGroupMapping T))"

definition getMpamGroupNames :: "target \<Rightarrow> string list option" where
  "getMpamGroupNames T =
     (if list_all (\<lambda>e. snd e \<noteq> None) (mMpamGroupMapping T)
      then Some (map (\<lambda>e. mMpamGroupName (the (snd e))) (mMpamGroupMapping T)) else None)"

definition getMpamGroupConfig :: "int \<Rightarrow> target \<Rightarrow> MpamGroupConfigInfo option \<times> target" where
  "getMpamGroupConfig mpamGroupID T =
     (case at_or_null mpamGroupID (mMpamGroupMapping T) of (info, mp) \<Rightarrow> (info, T\<lparr>mMpamGroupMapping := mp\<rparr>))"

definition getCreatedMpamGroupsCount :: "target \<Rightarrow> int" where
  "getCreatedMpamGroupsCount T = int (length (mMpamGroupMapping T))"

section \<open>Groups and caches from the configuration\<close>

definition createCGroup :: "string \<Rightarrow> CGroupConfigInfo option \<Rightarrow> world \<Rightarrow> ErrCode \<times> world" where
  "createCGroup mBaseCGroupPath cGroupConfig w =
     (case cGroupConfig of None \<Rightarrow> (RC_BAD_ARG, w)
      | Some c \<Rightarrow>
          if \<not> mCreationNeeded c then (RC_SUCCESS, w)
          else (let cGroupPath = mBaseCGroupPath @ mCgroupName c
                in case mkdir w cGroupPath of
                     MkdirOk \<Rightarrow> (RC_SUCCESS, if mIsThreaded c
                       then writeToFile (cGroupPath @ ''/cgroup.type'') ''threaded'' w else w)
                   | MkdirExists \<Rightarrow> (RC_SUCCESS, w)
                   | MkdirFailed \<Rightarrow> (RC_CGROUP_CREATION_FAILURE, w)))"

definition addCGroupMapping :: "string \<Rightarrow> CGroupConfigInfo option \<Rightarrow> target \<times> world \<Rightarrow> target \<times> world" where
  "addCGroupMapping mBaseCGroupPath cGroupConfigInfo st =
     (case st of (T, w) \<Rightarrow>
        (case cGroupConfigInfo of None \<Rightarrow> (T, w)
         | Some c \<Rightarrow>
             if mCgroupID c = -1 \<or> length (mCgroupName c) = 0 then (T, w)
             else (case createCGroup mBaseCGroupPath (Some c) w of (rc, w') \<Rightarrow>
                     if RC_IS_OK rc
                     then (T\<lparr>mCGroupMapping := AList.update (mCgroupID c) (Some c) (mCGroupMapping T)\<rparr>, w')
                     else (T, w'))))"

definition createMpamGroup :: "MpamGroupConfigInfo option \<Rightarrow> ErrCode" where
  "createMpamGroup mpamGroupConfig = (case mpamGroupConfig of None \<Rightarrow> RC_BAD_ARG | Some _ \<Rightarrow> RC_SUCCESS)"

definition addMpamGroupMapping :: "MpamGroupConfigInfo option \<Rightarrow> target \<Rightarrow> target" where
  "addMpamGroupMapping mpamGroupConfigInfo T =
     (case mpamGroupConfigInfo of None \<Rightarrow> T
      | Some m \<Rightarrow>
          if mMpamGroupInfoID m = -1 \<or> length (mMpamGroupName m) = 0 then T
          else if RC_IS_OK (createMpamGroup (Some m))
          then T\<lparr>mMpamGroupMapping := AList.update (mMpamGroupInfoID m) (Some m) (mMpamGroupMapping T)\<rparr>
          else T)"

definition addCacheInfoMapping :: "CacheInfo option \<Rightarrow> target \<Rightarrow> target" where
  "addCacheInfoMapping cacheInfo T =
     (case cacheInfo of None \<Rightarrow> T
      | Some c \<Rightarrow>
          if length (mCacheType c) = 0 \<or> mNumCacheBlocks c = -1 then T
          else T\<lparr>mCacheInfoMapping := AList.update (mCacheType c) (Some c) (mCacheInfoMapping T)\<rparr>)"

text \<open>The builders: a null pointer when the allocation failed.\<close>

definition CGroupConfigInfoBuilder :: "bool \<Rightarrow> CGroupConfigInfo option" where
  "CGroupConfigInfoBuilder new_ok =
     (if new_ok then Some \<lparr>mCgroupName = [], mCgroupID = -1, mCreationNeeded = False, mIsThreaded = False\<rparr> else None)"

text \<open>A setter refuses a null object, and otherwise answers the code the update gives.\<close>

definition on_object :: "('a \<Rightarrow> ErrCode \<times> 'a) \<Rightarrow> 'a option \<Rightarrow> ErrCode \<times> 'a option" where
  "on_object f b = (case b of None \<Rightarrow> (RC_MEMORY_ALLOCATION_FAILURE, None)
     | Some c \<Rightarrow> (case f c of (rc, c') \<Rightarrow> (rc, Some c')))"

definition setCGroupName :: "string \<Rightarrow> CGroupConfigInfo option \<Rightarrow> ErrCode \<times> CGroupConfigInfo option" where
  "setCGroupName name = on_object (\<lambda>c. (RC_SUCCESS, c\<lparr>mCgroupName := name\<rparr>))"

definition setCGroupID :: "string \<Rightarrow> CGroupConfigInfo option \<Rightarrow> ErrCode \<times> CGroupConfigInfo option" where
  "setCGroupID cGroupIDString = on_object (\<lambda>c. case stoi10 cGroupIDString of
       Some v \<Rightarrow> (RC_SUCCESS, c\<lparr>mCgroupID := v\<rparr>) | None \<Rightarrow> (RC_INVALID_VALUE, c\<lparr>mCgroupID := -1\<rparr>))"

definition setCreationNeeded :: "string \<Rightarrow> CGroupConfigInfo option \<Rightarrow> ErrCode \<times> CGroupConfigInfo option" where
  "setCreationNeeded str = on_object (\<lambda>c. (RC_SUCCESS, c\<lparr>mCreationNeeded := (str = ''true'')\<rparr>))"

definition setThreaded :: "string \<Rightarrow> CGroupConfigInfo option \<Rightarrow> ErrCode \<times> CGroupConfigInfo option" where
  "setThreaded str = on_object (\<lambda>c. (RC_SUCCESS, c\<lparr>mIsThreaded := (str = ''true'')\<rparr>))"

definition MpamGroupConfigInfoBuilder :: "bool \<Rightarrow> MpamGroupConfigInfo option" where
  "MpamGroupConfigInfoBuilder new_ok =
     (if new_ok then Some \<lparr>mMpamGroupInfoID = -1, mMpamGroupName = [], mMpamPriority = 0\<rparr> else None)"

definition setMpamName :: "string \<Rightarrow> MpamGroupConfigInfo option \<Rightarrow> ErrCode \<times> MpamGroupConfigInfo option" where
  "setMpamName name = on_object (\<lambda>m. (RC_SUCCESS, m\<lparr>mMpamGroupName := name\<rparr>))"

definition setLgcID :: "string \<Rightarrow> MpamGroupConfigInfo option \<Rightarrow> ErrCode \<times> MpamGroupConfigInfo option" where
  "setLgcID logicalIDString = on_object (\<lambda>m. case stoi10 logicalIDString of
       Some v \<Rightarrow> (RC_SUCCESS, m\<lparr>mMpamGroupInfoID := v\<rparr>) | None \<Rightarrow> (RC_INVALID_VALUE, m))"

definition setMpamPriority :: "string \<Rightarrow> MpamGroupConfigInfo option \<Rightarrow> ErrCode \<times> MpamGroupConfigInfo option" where
  "setMpamPriority priorityString = on_object (\<lambda>m. case stoi10 priorityString of
       Some v \<Rightarrow> (RC_SUCCESS, m\<lparr>mMpamPriority := v\<rparr>) | None \<Rightarrow> (RC_INVALID_VALUE, m))"

definition CacheInfoBuilder :: "bool \<Rightarrow> CacheInfo option" where
  "CacheInfoBuilder new_ok =
     (if new_ok then Some \<lparr>mCacheType = [], mNumCacheBlocks = -1, mPriorityAware = False\<rparr> else None)"

definition setCacheType :: "string \<Rightarrow> CacheInfo option \<Rightarrow> ErrCode \<times> CacheInfo option" where
  "setCacheType type = on_object (\<lambda>c. (RC_SUCCESS, c\<lparr>mCacheType := type\<rparr>))"

definition setNumBlocks :: "string \<Rightarrow> CacheInfo option \<Rightarrow> ErrCode \<times> CacheInfo option" where
  "setNumBlocks numBlocksString = on_object (\<lambda>c. case stoi10 numBlocksString of
       Some v \<Rightarrow> (RC_SUCCESS, c\<lparr>mNumCacheBlocks := v\<rparr>) | None \<Rightarrow> (RC_INVALID_VALUE, c))"

definition setPriorityAware :: "string \<Rightarrow> CacheInfo option \<Rightarrow> ErrCode \<times> CacheInfo option" where
  "setPriorityAware str = on_object (\<lambda>c. (RC_SUCCESS, c\<lparr>mPriorityAware := (str = ''true'')\<rparr>))"

section \<open>Interrupt affinity\<close>

text \<open>
  A call of \<^verbatim>\<open>std::stoi\<close> that throws leaves \<^verbatim>\<open>addIrqAffine\<close> before anything
  is written.
\<close>

datatype exn = StoiException

type_synonym 'a outcome = "(exn + 'a) option"

fun stoi_all :: "string list \<Rightarrow> exn + int list" where
  "stoi_all [] = Inr []"
| "stoi_all (v # vs) =
     (case stoi10 v of None \<Rightarrow> Inl StoiException
      | Some x \<Rightarrow> (case stoi_all vs of Inl e \<Rightarrow> Inl e | Inr xs \<Rightarrow> Inr (x # xs)))"

fun cluster_cores :: "int list \<Rightarrow> target \<Rightarrow> (int list \<times> target) option" where
  "cluster_cores [] T = Some ([], T)"
| "cluster_cores (i # is) T =
     (case getClusterInfo i T of
        (None, T') \<Rightarrow> cluster_cores is T'
      | (Some cInfo, T') \<Rightarrow> do {
          e \<leftarrow> arith 32 (mStartCpu cInfo + mNumCpus cInfo);
          (cs, T'') \<leftarrow> cluster_cores is T';
          Some ([mStartCpu cInfo .. e - 1] @ cs, T'') })"

fun mask_of :: "int list \<Rightarrow> u64 \<Rightarrow> u64 option" where
  "mask_of [] msk = Some msk"
| "mask_of (i # is) msk = (if 0 \<le> i \<and> i < 64 then mask_of is (msk OR push_bit (nat i) 1) else None)"

definition irq_file :: "string \<Rightarrow> string" where
  "irq_file d = ''/proc/irq/'' @ d @ ''/'' @ ''smp_affinity''"

definition write_if_exists :: "string \<Rightarrow> string \<Rightarrow> world \<Rightarrow> world" where
  "write_if_exists filePath v w = (if fileExists w filePath then writeToFile filePath v w else w)"

definition addIrqAffine ::
    "string list \<Rightarrow> bool \<Rightarrow> target \<Rightarrow> world \<Rightarrow> (ErrCode \<times> target \<times> world) outcome" where
  "addIrqAffine values areClusterValues T w =
     (if length values < 1 then Some (Inr (RC_INVALID_VALUE, T, w))
      else case stoi_all values of Inl e \<Rightarrow> Some (Inl e)
        | Inr xs \<Rightarrow>
            do {
              (ids, T') \<leftarrow> (if areClusterValues then cluster_cores (map (getPhysicalClusterId T) (tl xs)) T
                            else Some (tl xs, T));
              msk \<leftarrow> mask_of ids 0;
              let irqLine = hd xs;
              Some (Inr (RC_SUCCESS, T',
                if irqLine = -1 then
                  (case entries w ''/proc/irq/'' of None \<Rightarrow> w
                   | Some es \<Rightarrow> fold (\<lambda>e. write_if_exists (irq_file (fst e)) (cpuMaskToHex msk)) es w)
                else write_if_exists (irq_file (to_string irqLine)) (to_base 10 (unat msk)) w))
            })"

section \<open>Target queries\<close>

definition GET_MASK :: int where "GET_MASK = 801"
definition GET_CLUSTER_COUNT :: int where "GET_CLUSTER_COUNT = 802"
definition GET_CORE_COUNT :: int where "GET_CORE_COUNT = 803"
definition GET_PHYSICAL_CLUSTER_ID :: int where "GET_PHYSICAL_CLUSTER_ID = 804"
definition GET_PHYSICAL_CORE_ID :: int where "GET_PHYSICAL_CORE_ID = 805"
definition GET_MAX_CLUSTER :: int where "GET_MAX_CLUSTER = 806"

lemmas target_queries =
  GET_MASK_def GET_CLUSTER_COUNT_def GET_CORE_COUNT_def GET_PHYSICAL_CLUSTER_ID_def
  GET_PHYSICAL_CORE_ID_def GET_MAX_CLUSTER_def

text \<open>
  The two loops: \<open>dir\<close> is 1 or -1, the counter is the remaining \<^verbatim>\<open>coreCount\<close>,
  positive on entry.
\<close>

fun mask_loop :: "int \<Rightarrow> nat \<Rightarrow> int \<Rightarrow> u64 \<Rightarrow> u64 option" where
  "mask_loop dir 0 curCpu msk = Some msk"
| "mask_loop dir (Suc n) curCpu msk =
     (let msk' = (if 0 \<le> curCpu \<and> curCpu < 64 then msk OR push_bit (nat curCpu) 1 else msk)
      in do { c \<leftarrow> arith 32 (curCpu + dir); mask_loop dir n c msk' })"

definition get_mask :: "int \<Rightarrow> int \<Rightarrow> target \<Rightarrow> (u64 \<times> target) option" where
  "get_mask cluster0 coreCount T =
     do {
       cluster \<leftarrow> (if cluster0 = GET_MAX_CLUSTER then arith 32 (mTotalClusterCount T - 1) else Some cluster0);
       let (clusInfo, T') = getClusterInfo (getPhysicalClusterId T cluster) T;
       case clusInfo of None \<Rightarrow> Some (0, T')
       | Some c \<Rightarrow>
           if mNumCpus c \<le> 0 then Some (0, T')
           else if coreCount = - (2 ^ 31) then Some (0, T')
           else if coreCount < 0 then
             do { s \<leftarrow> arith 32 (mStartCpu c + mNumCpus c); e \<leftarrow> arith 32 (s - 1);
                  m \<leftarrow> mask_loop (-1) (nat (min (- coreCount) (mNumCpus c))) e 0; Some (m, T') }
           else
             do { m \<leftarrow> mask_loop 1 (nat (if coreCount = 0 then mNumCpus c else min coreCount (mNumCpus c)))
                    (mStartCpu c) 0; Some (m, T') }
     }"

definition arg :: "int list \<Rightarrow> nat \<Rightarrow> int option" where
  "arg args i = (if i < length args then Some (args ! i) else None)"

definition GET_TARGET_INFO :: "int \<Rightarrow> int \<Rightarrow> int list \<Rightarrow> target \<Rightarrow> (u64 \<times> target) option" where
  "GET_TARGET_INFO option numArgs args T =
     (if option = GET_MASK then
        (if numArgs < 2 then Some (0, T)
         else do { cluster \<leftarrow> arg args 0; coreCount \<leftarrow> arg args 1; get_mask cluster coreCount T })
      else if option = GET_CLUSTER_COUNT then Some (word_of_int (mTotalClusterCount T), T)
      else if option = GET_CORE_COUNT then Some (word_of_int (mTotalCoreCount T), T)
      else if option = GET_PHYSICAL_CLUSTER_ID then
        (if numArgs < 1 then Some (0, T)
         else do { a \<leftarrow> arg args 0; Some (word_of_int (getPhysicalClusterId T a), T) })
      else if option = GET_PHYSICAL_CORE_ID then
        (if numArgs < 2 then Some (0, T)
         else do { a \<leftarrow> arg args 0; b \<leftarrow> arg args 1; (c, T') \<leftarrow> getPhysicalCoreId a b T; Some (word_of_int c, T') })
      else Some (0, T))"

section \<open>The journal limits\<close>

definition JOURNALD_CONF :: string where "JOURNALD_CONF = ''/etc/systemd/journald.conf''"

definition configOptions :: "(string \<times> string) list" where
  "configOptions =
     [(''RuntimeMaxUse'', ''20M''), (''RuntimeMaxFileSize'', ''128K''), (''MaxLevelStore'', ''notice''),
      (''MaxLevelSyslog'', ''notice''), (''MaxLevelKMsg'', ''notice''), (''MaxLevelConsole'', ''notice''),
      (''ForwardToSyslog'', ''no'')]"

text \<open>
  \<^verbatim>\<open>find_last_not_of\<close> may find nothing although the first search did (only carriage
  returns): the length then wraps, to nothing when the start is zero and to the rest otherwise.
\<close>

definition trimStr :: "string \<Rightarrow> string" where
  "trimStr s =
     (let a = dropWhile (\<lambda>c. c \<in> {CHR '' '', CHR 0x09}) s;
          blank = (\<lambda>c. c \<in> {CHR '' '', CHR 0x09, CHR 0x0D})
      in if a = [] then []
         else if list_all blank s then (if length a = length s then [] else a)
         else rev (dropWhile blank (rev a)))"

definition starts_with :: "string \<Rightarrow> string \<Rightarrow> bool" where
  "starts_with p s \<longleftrightarrow> take (length p) s = p"

definition option_line :: "string \<times> string \<Rightarrow> string" where
  "option_line e = fst e @ ''='' @ snd e @ [newline]"

definition option_matches :: "string \<Rightarrow> string \<times> string \<Rightarrow> bool" where
  "option_matches trimmedLine e \<longleftrightarrow>
     starts_with (fst e @ ''='') trimmedLine \<or> starts_with (''#'' @ fst e @ ''='') trimmedLine"

definition journal_line :: "(string \<times> string) list \<Rightarrow> string
    \<Rightarrow> string \<times> bool \<times> string list \<Rightarrow> string \<times> bool \<times> string list" where
  "journal_line opts line st =
     (case st of (newContent, journalSectionFound, keyUpdated) \<Rightarrow>
        let t = trimStr line; found = journalSectionFound \<or> t = ''[Journal]''
        in case find (option_matches t) opts of
             Some e \<Rightarrow> (newContent @ option_line e, found, fst e # keyUpdated)
           | None \<Rightarrow> (newContent @ line @ [newline], found, keyUpdated))"

text \<open>\<open>opts\<close>: the table in the order the unordered map iterates it.\<close>

definition addLogLimit :: "(string \<times> string) list \<Rightarrow> string \<Rightarrow> string list \<Rightarrow> world \<Rightarrow> ErrCode \<times> world" where
  "addLogLimit opts journald_urm_conf values w =
     (if length values < 1 then (RC_INVALID_VALUE, w)
      else if hd values \<noteq> ''minimal'' then (RC_SUCCESS, w)
      else (let w1 = writeToFile journald_urm_conf
                  (case contents w JOURNALD_CONF of None \<Rightarrow> [] | Some c \<Rightarrow> c) w
            in case contents w1 JOURNALD_CONF of None \<Rightarrow> (RC_SUCCESS, w1)
               | Some c \<Rightarrow>
                   (case fold (journal_line opts) (tokens newline c) ([], False, []) of
                      (newContent, journalSectionFound, keyUpdated) \<Rightarrow>
                        let body = newContent
                              @ (if journalSectionFound then [] else [newline] @ ''[Journal]'' @ [newline])
                              @ concat (map option_line (filter (\<lambda>e. fst e \<notin> set keyUpdated) opts))
                        in (RC_SUCCESS, writeToFile ''/proc/sys/kernel/printk'' ''3 4 1 3''
                              (writeToFile JOURNALD_CONF body w1)))))"

text \<open>The constructor puts back a journal configuration saved by an earlier run.\<close>

definition TargetRegistry_init :: "string \<Rightarrow> world \<Rightarrow> target \<times> world" where
  "TargetRegistry_init journald_urm_conf w =
     (target_empty,
      case contents w journald_urm_conf of None \<Rightarrow> w
      | Some c \<Rightarrow> deleteFile journald_urm_conf (writeToFile JOURNALD_CONF c w))"

section \<open>Masks and cores\<close>

text \<open>Reference definition: the cores a request for \<open>k\<close> cores of a cluster means.\<close>

definition cluster_range :: "ClusterInfo \<Rightarrow> int list" where
  "cluster_range c = [mStartCpu c .. mStartCpu c + mNumCpus c - 1]"

definition selected_cores :: "ClusterInfo \<Rightarrow> int \<Rightarrow> int list" where
  "selected_cores c k =
     (if k = - (2 ^ 31) then [] else if k = 0 then cluster_range c
      else if 0 < k then take (nat k) (cluster_range c)
      else drop (length (cluster_range c) - nat (- k)) (cluster_range c))"

definition cluster_ok :: "ClusterInfo \<Rightarrow> bool" where
  "cluster_ok c \<longleftrightarrow> 0 \<le> mStartCpu c \<and> 0 < mNumCpus c \<and> mStartCpu c + mNumCpus c < 2 ^ 31"

lemma arith32_ok: "- (2 ^ 31) \<le> x \<Longrightarrow> x < 2 ^ 31 \<Longrightarrow> arith 32 x = Some x"
  by (simp add: arith_def in_type_def type_lowest_def type_max_def)

lemma bit_or_exp: "bit (m OR 2 ^ k :: u64) i \<longleftrightarrow> bit m i \<or> (k < 64 \<and> i = k)"
  by (auto simp: bit_simps)

lemma mask_loop_up:
  "- (2 ^ 31) \<le> cur \<Longrightarrow> cur + int n < 2 ^ 31 \<Longrightarrow>
     \<exists>m. mask_loop 1 n cur m0 = Some m
       \<and> (\<forall>i<64. bit m i \<longleftrightarrow> bit m0 i \<or> (cur \<le> int i \<and> int i < cur + int n))"
proof (induction n arbitrary: cur m0)
  case (Suc n)
  define m1 where "m1 = (if 0 \<le> cur \<and> cur < 64 then m0 OR push_bit (nat cur) 1 else m0)"
  have a: "arith 32 (cur + 1) = Some (cur + 1)" using Suc.prems by (intro arith32_ok) simp_all
  obtain m where m: "mask_loop 1 n (cur + 1) m1 = Some m"
    "\<forall>i<64. bit m i \<longleftrightarrow> bit m1 i \<or> (cur + 1 \<le> int i \<and> int i < cur + 1 + int n)"
    using Suc.IH[of "cur + 1" m1] Suc.prems by auto
  have "bit m1 i \<longleftrightarrow> bit m0 i \<or> int i = cur" if "i < 64" for i
    using that by (auto simp: m1_def bit_or_exp)
  then have "\<forall>i<64. bit m i \<longleftrightarrow> bit m0 i \<or> (cur \<le> int i \<and> int i < cur + int (Suc n))"
    using m(2) by auto
  with a m(1) show ?case by (auto simp: m1_def)
qed auto

lemma mask_loop_down:
  "- (2 ^ 31) \<le> cur - int n \<Longrightarrow> cur < 2 ^ 31 \<Longrightarrow>
     \<exists>m. mask_loop (-1) n cur m0 = Some m
       \<and> (\<forall>i<64. bit m i \<longleftrightarrow> bit m0 i \<or> (cur - int n < int i \<and> int i \<le> cur))"
proof (induction n arbitrary: cur m0)
  case (Suc n)
  define m1 where "m1 = (if 0 \<le> cur \<and> cur < 64 then m0 OR push_bit (nat cur) 1 else m0)"
  have a: "arith 32 (cur + -1) = Some (cur + -1)" using Suc.prems by (intro arith32_ok) simp_all
  obtain m where m: "mask_loop (-1) n (cur + -1) m1 = Some m"
    "\<forall>i<64. bit m i \<longleftrightarrow> bit m1 i \<or> (cur + -1 - int n < int i \<and> int i \<le> cur + -1)"
    using Suc.IH[of "cur + -1" m1] Suc.prems by auto
  have "bit m1 i \<longleftrightarrow> bit m0 i \<or> int i = cur" if "i < 64" for i
    using that by (auto simp: m1_def bit_or_exp)
  then have "\<forall>i<64. bit m i \<longleftrightarrow> bit m0 i \<or> (cur - int (Suc n) < int i \<and> int i \<le> cur)"
    using m(2) by auto
  with a m(1) show ?case by (auto simp: m1_def)
qed auto

lemma upto_take: "take n [a .. b] = [a .. min b (a + int n - 1)]"
proof (induction n arbitrary: a)
  case (Suc n)
  show ?case
  proof (cases "a \<le> b")
    case True
    then have "take (Suc n) [a .. b] = a # [a + 1 .. min b (a + 1 + int n - 1)]"
      using Suc[of "a + 1"] by (simp add: upto_rec1)
    also have "\<dots> = [a .. min b (a + int (Suc n) - 1)]" using True by (simp add: upto_rec1 add.commute add.left_commute)
    finally show ?thesis .
  qed simp
qed simp

lemma upto_drop: "drop n [a .. b] = [a + int n .. b]"
proof (induction n arbitrary: a)
  case (Suc n)
  show ?case
  proof (cases "a \<le> b")
    case True
    then show ?thesis using Suc[of "a + 1"] by (simp add: upto_rec1 add.commute add.left_commute)
  qed simp
qed simp

lemma selected_cores_set:
  assumes "cluster_ok c" "- (2 ^ 31) < k"
  shows "x \<in> set (selected_cores c k) \<longleftrightarrow>
    (if k = 0 then mStartCpu c \<le> x \<and> x < mStartCpu c + mNumCpus c
     else if 0 < k then mStartCpu c \<le> x \<and> x < mStartCpu c + min k (mNumCpus c)
     else mStartCpu c + mNumCpus c - min (- k) (mNumCpus c) \<le> x \<and> x < mStartCpu c + mNumCpus c)"
  using assms by (auto simp: selected_cores_def cluster_range_def upto_take upto_drop cluster_ok_def)

lemma get_mask_selected:
  assumes c: "getClusterInfo (getPhysicalClusterId T cluster) T = (Some c, T)" "cluster_ok c"
    and k: "- (2 ^ 31) \<le> k" "k < 2 ^ 31" and cl: "cluster \<noteq> GET_MAX_CLUSTER"
  shows "\<exists>m. get_mask cluster k T = Some (m, T) \<and> (\<forall>i<64. bit m i \<longleftrightarrow> int i \<in> set (selected_cores c k))"
proof -
  have ok: "0 \<le> mStartCpu c" "0 < mNumCpus c" "mStartCpu c + mNumCpus c < 2 ^ 31"
    using c(2) by (auto simp: cluster_ok_def)
  consider "k = - (2 ^ 31)" | "- (2 ^ 31) < k" "k < 0" | "0 \<le> k" using k by linarith
  then show ?thesis
  proof cases
    case 1
    then show ?thesis using c cl ok by (simp add: get_mask_def selected_cores_def)
  next
    case 2
    define n where "n = nat (min (- k) (mNumCpus c))"
    define e where "e = mStartCpu c + mNumCpus c - 1"
    have n: "int n = min (- k) (mNumCpus c)" using 2 ok by (simp add: n_def)
    obtain m where m: "mask_loop (-1) n e 0 = Some m"
      "\<forall>i<64. bit m i \<longleftrightarrow> (e - int n < int i \<and> int i \<le> e)"
      using mask_loop_down[of e n 0] ok n by (auto simp: e_def)
    have "get_mask cluster k T = Some (m, T)"
      using c cl ok 2 m(1) by (simp add: get_mask_def arith32_ok e_def n_def)
    moreover have "\<forall>i<64. bit m i \<longleftrightarrow> int i \<in> set (selected_cores c k)"
      using m(2) 2 n by (auto simp: selected_cores_set[OF c(2)] e_def)
    ultimately show ?thesis by blast
  next
    case 3
    define n where "n = nat (if k = 0 then mNumCpus c else min k (mNumCpus c))"
    have n: "int n = (if k = 0 then mNumCpus c else min k (mNumCpus c))" using 3 ok by (simp add: n_def)
    then have "int n \<le> mNumCpus c" by simp
    obtain m where m: "mask_loop 1 n (mStartCpu c) 0 = Some m"
      "\<forall>i<64. bit m i \<longleftrightarrow> (mStartCpu c \<le> int i \<and> int i < mStartCpu c + int n)"
      using mask_loop_up[of "mStartCpu c" n 0] ok \<open>int n \<le> mNumCpus c\<close> by auto
    have "get_mask cluster k T = Some (m, T)"
      using c cl ok 3 m(1) by (simp add: get_mask_def n_def)
    moreover have "\<forall>i<64. bit m i \<longleftrightarrow> int i \<in> set (selected_cores c k)"
      using m(2) 3 n by (auto simp: selected_cores_set[OF c(2)] split: if_splits)
    ultimately show ?thesis by blast
  qed
qed

lemma physical_core_in_cluster:
  assumes "mPhysicalClusters T \<noteq> []" "map_of (mLogicalToPhysicalClusterMapping T) lc = Some p"
    and "map_of (mPhysicalClusters T) p = Some (Some c)" "cluster_ok c"
  shows "getPhysicalCoreId lc k T =
    Some (if 1 \<le> k \<and> k \<le> mNumCpus c then cluster_range c ! nat (k - 1) else -1, T)"
  using assms by (auto simp: getPhysicalCoreId_def getClusterInfo_def at_or_null_def cluster_ok_def
      cluster_range_def arith32_ok nth_upto)

section \<open>Interrupt masks\<close>

lemma mask_of_ids:
  "\<forall>i\<in>set ids. 0 \<le> i \<and> i < 64 \<Longrightarrow>
     \<exists>m. mask_of ids m0 = Some m \<and> (\<forall>i<64. bit m i \<longleftrightarrow> bit m0 i \<or> int i \<in> set ids)"
proof (induction ids arbitrary: m0)
  case (Cons x xs)
  then obtain m where "mask_of xs (m0 OR 2 ^ nat x) = Some m"
    "\<forall>i<64. bit m i \<longleftrightarrow> bit (m0 OR 2 ^ nat x) i \<or> int i \<in> set xs"
    by (metis list.set_intros(2))
  with Cons.prems show ?case by (auto simp: bit_or_exp)
qed simp

lemma mask_of_undefined: "\<exists>i\<in>set ids. i < 0 \<or> 64 \<le> i \<Longrightarrow> mask_of ids m = None"
  by (induction ids m rule: mask_of.induct) auto

lemma stoi_all_strings:
  "\<forall>v\<in>set vs. - (2 ^ 31) \<le> v \<and> v < 2 ^ 31 \<Longrightarrow> stoi_all (map to_string vs) = Inr vs"
  by (induction vs) (simp_all add: stoi10_to_string)

lemma irq_file_inj: "irq_file a = irq_file b \<longleftrightarrow> a = b"
  by (simp add: irq_file_def)

lemma fold_irq_opens [simp]: "opens (fold (\<lambda>e. write_if_exists (irq_file (fst e)) v) es w) = opens w"
  by (induction es arbitrary: w) (simp_all add: write_if_exists_def)

lemma fold_irq_exists:
  "fileExists w p \<Longrightarrow> fileExists (fold (\<lambda>e. write_if_exists (irq_file (fst e)) v) es w) p"
  by (induction es arbitrary: w) (simp_all add: write_if_exists_def)

lemma fold_irq_keep:
  "contents w p = Some v \<Longrightarrow> contents (fold (\<lambda>e. write_if_exists (irq_file (fst e)) v) es w) p = Some v"
  by (induction es arbitrary: w) (simp_all add: write_if_exists_def writeToFile_def)

lemma fold_irq_written:
  "e \<in> set es \<Longrightarrow> fileExists w (irq_file (fst e)) \<Longrightarrow> opens w (irq_file (fst e)) \<Longrightarrow>
     contents (fold (\<lambda>e. write_if_exists (irq_file (fst e)) v) es w) (irq_file (fst e)) = Some v"
proof (induction es arbitrary: w)
  case (Cons d es)
  show ?case
  proof (cases "d = e")
    case True
    then have "contents (write_if_exists (irq_file (fst d)) v w) (irq_file (fst e)) = Some v"
      using Cons.prems by (simp add: write_if_exists_def writeToFile_def irq_file_def)
    from fold_irq_keep[OF this] show ?thesis by simp
  next
    case False
    with Cons show ?thesis by (simp add: write_if_exists_def)
  qed
qed simp

text \<open>All interrupts: every existing affinity file gets the cores in hexadecimal.\<close>

lemma irq_affine_all:
  assumes ids: "\<forall>i\<in>set ids. 0 \<le> i \<and> i < 64"
    and es: "entries w ''/proc/irq/'' = Some es" "e \<in> set es"
    and f: "fileExists w (irq_file (fst e))" "opens w (irq_file (fst e))"
  shows "\<exists>w' m. addIrqAffine (map to_string (-1 # ids)) False T w = Some (Inr (RC_SUCCESS, T, w'))
    \<and> contents w' (irq_file (fst e)) = Some (cpuMaskToHex m)
    \<and> parse_base 16 (cpuMaskToHex m) = Some (uint m)
    \<and> (\<forall>i<64. bit m i \<longleftrightarrow> int i \<in> set ids)"
proof -
  obtain m where m: "mask_of ids 0 = Some m" "\<forall>i<64. bit m i \<longleftrightarrow> int i \<in> set ids"
    using mask_of_ids[OF ids, of 0] by auto
  have "stoi_all (map to_string (-1 # ids)) = Inr (-1 # ids)"
    using ids by (intro stoi_all_strings) auto
  then have "addIrqAffine (map to_string (-1 # ids)) False T w
      = Some (Inr (RC_SUCCESS, T, fold (\<lambda>e. write_if_exists (irq_file (fst e)) (cpuMaskToHex m)) es w))"
    using m(1) es(1) by (simp add: addIrqAffine_def)
  with m(2) fold_irq_written[OF es(2) f] cpuMaskToHex_parse[of m] show ?thesis by blast
qed

text \<open>One interrupt: the same cores are written in decimal, which the kernel reads as hexadecimal.\<close>

lemma irq_affine_single_decimal:
  assumes ids: "\<forall>i\<in>set ids. 0 \<le> i \<and> i < 64" and l: "0 \<le> line" "line < 2 ^ 31"
    and f: "fileExists w (irq_file (to_string line))" "opens w (irq_file (to_string line))"
  shows "\<exists>w' m. addIrqAffine (map to_string (line # ids)) False T w = Some (Inr (RC_SUCCESS, T, w'))
    \<and> contents w' (irq_file (to_string line)) = Some (to_base 10 (unat (m :: u64)))
    \<and> (\<forall>i<64. bit m i \<longleftrightarrow> int i \<in> set ids)"
proof -
  obtain m where m: "mask_of ids 0 = Some m" "\<forall>i<64. bit m i \<longleftrightarrow> int i \<in> set ids"
    using mask_of_ids[OF ids, of 0] by auto
  have "stoi_all (map to_string (line # ids)) = Inr (line # ids)"
    using ids l by (intro stoi_all_strings) auto
  then have a: "addIrqAffine (map to_string (line # ids)) False T w
      = Some (Inr (RC_SUCCESS, T, write_if_exists (irq_file (to_string line)) (to_base 10 (unat m)) w))"
    using m(1) l by (simp add: addIrqAffine_def)
  have "irq_file (to_string line) \<noteq> []" by (simp add: irq_file_def)
  then have b: "contents (write_if_exists (irq_file (to_string line)) (to_base 10 (unat m)) w) (irq_file (to_string line))
      = Some (to_base 10 (unat m))"
    using f by (simp add: write_if_exists_def writeToFile_def)
  show ?thesis by (rule exI, rule exI[of _ m], intro conjI) (rule a, rule b, rule m(2))
qed

lemma irq_decimal_is_not_hex: "parse_base 16 (to_base 10 (unat (240 :: u64))) = Some 576"
  by code_simp

section \<open>Clusters from the policy directories, in order\<close>

lemma map_of_number_clusters_aux:
  "map_of (fold (\<lambda>(i, p). AList.update (int i) p) (List.enumerate s ids) mp) k =
     (if int s \<le> k \<and> k < int s + int (length ids) then Some (ids ! nat (k - int s)) else map_of mp k)"
proof (induction ids arbitrary: s mp k)
  case (Cons p ids)
  show ?case
  proof (cases "int s \<le> k \<and> k < int s + int (length (p # ids))")
    case True
    show ?thesis
    proof (cases "k = int s")
      case False
      with True have "nat (k - int s) = Suc (nat (k - int (Suc s)))" by linarith
      with True False show ?thesis by (simp add: Cons.IH)
    qed (simp add: Cons.IH update_conv')
  next
    case False
    then show ?thesis by (auto simp: Cons update_conv')
  qed
qed auto

lemma map_of_number_clusters:
  "map_of (number_clusters ids mp) k =
     (if 0 \<le> k \<and> k < int (length ids) then Some (ids ! nat k) else map_of mp k)"
  using map_of_number_clusters_aux[of 0 ids mp k] by (simp add: number_clusters_def)

text \<open>
  The assumption of the policy scan: every policy directory names at least one cpu, and the
  counts fit the \<^verbatim>\<open>int8_t\<close> in which the physical ids are accumulated.
\<close>

definition policy_cpus :: "world \<Rightarrow> string \<Rightarrow> int list" where
  "policy_cpus w d = snd (readRelatedCpus w (POLICY_DIR_PATH @ d))"

definition policies_ok :: "world \<Rightarrow> string list \<Rightarrow> bool" where
  "policies_ok w ds \<longleftrightarrow>
     (\<forall>d\<in>set ds. fst (readRelatedCpus w (POLICY_DIR_PATH @ d)) = RC_SUCCESS \<and> policy_cpus w d \<noteq> [])
     \<and> sum_list (map (\<lambda>d. length (policy_cpus w d)) ds) \<le> 127"

definition policy_inv ::
    "nat \<Rightarrow> i8 \<times> (int \<times> int \<times> ClusterInfo) list \<times> (int \<times> ClusterInfo option) list \<Rightarrow> bool" where
  "policy_inv used st \<longleftrightarrow>
     (case st of (pid, cfgs, phys) \<Rightarrow>
        sint pid = int used \<and> distinct (map (\<lambda>x. fst (snd x)) cfgs)
        \<and> (\<forall>x\<in>set cfgs. fst (snd x) < int used \<and> mPhysicalID (snd (snd x)) = fst (snd x)
             \<and> mCapacity (snd (snd x)) = fst x \<and> map_of phys (fst (snd x)) = Some (Some (snd (snd x)))))"

lemma sint8_of_nat: "n \<le> 127 \<Longrightarrow> sint (of_nat n :: i8) = int n"
proof -
  assume "n \<le> 127"
  then have "signed_take_bit 7 (int n) = int n" by (intro signed_take_bit_int_eq_self) simp_all
  then show ?thesis using sint_sbintrunc'[of "int n", where 'a = 8] by simp
qed

lemma policy_inv_step:
  assumes inv: "policy_inv used (pid, cfgs, phys)"
    and d: "fst (readRelatedCpus w (POLICY_DIR_PATH @ d)) = RC_SUCCESS" "policy_cpus w d \<noteq> []"
    and b: "used + length (policy_cpus w d) \<le> 127"
  shows "policy_inv (used + length (policy_cpus w d)) (policy_step indet w d (pid, cfgs, phys))"
    "length (fst (snd (policy_step indet w d (pid, cfgs, phys)))) = Suc (length cfgs)"
proof -
  define cs where "cs = policy_cpus w d"
  have r: "readRelatedCpus w (POLICY_DIR_PATH @ d) = (RC_SUCCESS, cs)"
    using d(1) by (simp add: cs_def policy_cpus_def prod_eq_iff)
  have s: "sint pid = int used" using inv by (simp add: policy_inv_def)
  have "pid = of_int (sint pid)" by simp
  also have "\<dots> = of_nat used" by (simp only: s of_int_of_nat_eq)
  finally have "pid = of_nat used" .
  then have "pid + of_nat (length cs) = of_nat (used + length cs)" by simp
  then have s': "sint (pid + of_nat (length cs)) = int (used + length cs)"
    using b sint8_of_nat[of "used + length cs"] by (simp add: cs_def)
  have "0 < length cs" using d(2) by (simp add: cs_def)
  with inv s s' show "policy_inv (used + length (policy_cpus w d)) (policy_step indet w d (pid, cfgs, phys))"
    by (auto simp: policy_inv_def policy_step_def r update_conv' Let_def simp flip: cs_def)
  show "length (fst (snd (policy_step indet w d (pid, cfgs, phys)))) = Suc (length cfgs)"
    by (simp add: policy_step_def r Let_def)
qed

lemma policy_inv_fold:
  "policy_inv used st \<Longrightarrow> policies_ok w ds \<Longrightarrow> used + sum_list (map (\<lambda>d. length (policy_cpus w d)) ds) \<le> 127 \<Longrightarrow>
     policy_inv (used + sum_list (map (\<lambda>d. length (policy_cpus w d)) ds)) (fold (policy_step indet w) ds st)
     \<and> length (fst (snd (fold (policy_step indet w) ds st))) = length (fst (snd st)) + length ds"
proof (induction ds arbitrary: used st)
  case (Cons d ds)
  obtain pid cfgs phys where st: "st = (pid, cfgs, phys)" by (cases st)
  have "policy_inv (used + length (policy_cpus w d)) (policy_step indet w d st)"
    "length (fst (snd (policy_step indet w d st))) = Suc (length cfgs)"
    using policy_inv_step[of used pid cfgs phys w d indet] Cons.prems by (auto simp: st policies_ok_def)
  moreover have "policies_ok w ds" using Cons.prems by (auto simp: policies_ok_def)
  ultimately show ?case
    using Cons.IH[of "used + length (policy_cpus w d)" "policy_step indet w d st"] Cons.prems
    by (simp add: st add.assoc)
qed simp

lemma policies_ok_sort: "policies_ok w (sort ds) \<longleftrightarrow> policies_ok w ds"
proof -
  have "mset (map f (sort ds)) = mset (map f ds)" for f :: "string \<Rightarrow> nat" by simp
  then have "sum_list (map f (sort ds)) = sum_list (map f ds)" for f :: "string \<Rightarrow> nat"
    by (metis sum_mset_sum_list)
  then show ?thesis by (simp only: policies_ok_def set_sort)
qed

text \<open>
  Logical clusters are numbered from zero in ascending capacity, and distinct logical clusters
  are distinct physical clusters, each with a record.
\<close>

lemma policy_mapping:
  assumes ok: "policies_ok w ds" and T': "T' = generatePolicyBasedMapping indet w ds T"
  shows "mTotalClusterCount T' = int (length ds)
    \<and> (\<forall>i<length ds. \<exists>c. map_of (mLogicalToPhysicalClusterMapping T') (int i) = Some (mPhysicalID c)
          \<and> map_of (mPhysicalClusters T') (mPhysicalID c) = Some (Some c))
    \<and> (\<forall>i j. i < j \<longrightarrow> j < length ds \<longrightarrow>
          getPhysicalClusterId T' (int i) \<noteq> getPhysicalClusterId T' (int j)
          \<and> mCapacity (the (the (map_of (mPhysicalClusters T') (getPhysicalClusterId T' (int i)))))
              \<le> mCapacity (the (the (map_of (mPhysicalClusters T') (getPhysicalClusterId T' (int j))))))"
proof -
  obtain pid cfgs phys where f: "fold (policy_step indet w) (sort ds) (0, [], mPhysicalClusters T) = (pid, cfgs, phys)"
    by (metis prod_cases3)
  define ord where "ord = sort_key (\<lambda>x. (fst x, fst (snd x))) cfgs"
  have "policy_inv 0 (0, [], mPhysicalClusters T)" by (simp add: policy_inv_def)
  moreover have "policies_ok w (sort ds)" using ok by (simp only: policies_ok_sort)
  ultimately have "policy_inv (sum_list (map (\<lambda>d. length (policy_cpus w d)) (sort ds))) (pid, cfgs, phys)
      \<and> length cfgs = length ds"
    using policy_inv_fold[of 0 "(0, [], mPhysicalClusters T)" w "sort ds" indet] by (simp add: f policies_ok_def)
  then have inv: "distinct (map (\<lambda>x. fst (snd x)) cfgs)"
    "\<And>x. x \<in> set cfgs \<Longrightarrow> mPhysicalID (snd (snd x)) = fst (snd x) \<and> mCapacity (snd (snd x)) = fst x
       \<and> map_of phys (fst (snd x)) = Some (Some (snd (snd x)))"
    and len: "length cfgs = length ds"
    by (auto simp: policy_inv_def)
  have ord: "set ord = set cfgs" "length ord = length ds" "distinct (map (\<lambda>x. fst (snd x)) ord)"
    using inv(1) len by (simp_all add: ord_def distinct_map)
  have sorted: "sorted (map (\<lambda>x. (fst x, fst (snd x))) ord)" by (simp add: ord_def)
  have T: "mPhysicalClusters T' = phys" "mTotalClusterCount T' = int (length ds)"
    by (simp_all add: T' generatePolicyBasedMapping_def f Let_def)
  have log: "map_of (mLogicalToPhysicalClusterMapping T') (int i) = Some (fst (snd (ord ! i)))"
    "map_of phys (fst (snd (ord ! i))) = Some (Some (snd (snd (ord ! i))))"
    "mPhysicalID (snd (snd (ord ! i))) = fst (snd (ord ! i))" "mCapacity (snd (snd (ord ! i))) = fst (ord ! i)"
    if "i < length ds" for i
  proof -
    have "ord ! i \<in> set cfgs" using that ord nth_mem[of i ord] by simp
    note x = inv(2)[OF this]
    show "map_of (mLogicalToPhysicalClusterMapping T') (int i) = Some (fst (snd (ord ! i)))"
      using that ord x by (simp add: T' generatePolicyBasedMapping_def f map_of_number_clusters Let_def flip: ord_def)
  qed (use that ord inv(2) nth_mem[of i ord] in auto)
  have id: "getPhysicalClusterId T' (int i) = fst (snd (ord ! i))" if "i < length ds" for i
    using log(1)[OF that] by (simp add: getPhysicalClusterId_def)
  have "\<exists>c. map_of (mLogicalToPhysicalClusterMapping T') (int i) = Some (mPhysicalID c)
      \<and> map_of (mPhysicalClusters T') (mPhysicalID c) = Some (Some c)" if "i < length ds" for i
    using log[OF that] by (intro exI[of _ "snd (snd (ord ! i))"]) (simp add: T)
  moreover have "getPhysicalClusterId T' (int i) \<noteq> getPhysicalClusterId T' (int j)
      \<and> mCapacity (the (the (map_of (mPhysicalClusters T') (getPhysicalClusterId T' (int i)))))
          \<le> mCapacity (the (the (map_of (mPhysicalClusters T') (getPhysicalClusterId T' (int j)))))"
    if ij: "i < j" "j < length ds" for i j
  proof -
    have "fst (snd (ord ! i)) \<noteq> fst (snd (ord ! j))"
      using ord(2,3) ij nth_eq_iff_index_eq[of "map (\<lambda>x. fst (snd x)) ord" i j] by auto
    moreover have "(fst (ord ! i), fst (snd (ord ! i))) \<le> (fst (ord ! j), fst (snd (ord ! j)))"
      using sorted_nth_mono[OF sorted, of i j] ij ord(2) by simp
    ultimately show ?thesis using ij log[of i] log[of j] by (auto simp: id T less_eq_prod_def)
  qed
  ultimately show ?thesis using T by blast
qed

section \<open>The journal configuration survives a restart\<close>

lemma log_limit_restart:
  assumes c: "contents w JOURNALD_CONF = Some c" "opens w JOURNALD_CONF" "opens w urm"
    and urm: "urm \<noteq> []" "urm \<noteq> JOURNALD_CONF" "urm \<noteq> ''/proc/sys/kernel/printk''"
  shows "contents (snd (TargetRegistry_init urm (snd (addLogLimit opts urm (''minimal'' # vs) w)))) JOURNALD_CONF = Some c"
proof -
  have j: "JOURNALD_CONF \<noteq> []" "JOURNALD_CONF \<noteq> ''/proc/sys/kernel/printk''" by (simp_all add: JOURNALD_CONF_def)
  define w2 where "w2 = snd (addLogLimit opts urm (''minimal'' # vs) w)"
  have "contents w2 urm = Some c" "opens w2 = opens w"
    using c urm j by (auto simp: w2_def addLogLimit_def writeToFile_def Let_def split: prod.splits)
  then show ?thesis
    using c urm j by (simp add: TargetRegistry_init_def deleteFile_def writeToFile_def flip: w2_def)
qed

text \<open>
  The directories are sorted as strings, so with a policy of two digits the physical ids that are
  assigned are not the numbers in the directory names: here \<^verbatim>\<open>policy10\<close> gets id 4.
\<close>

definition three_policies :: world where
  "three_policies = \<lparr>contents = map_of
     [(POLICY_DIR_PATH @ ''policy0/related_cpus'', ''0 1 2 3''),
      (POLICY_DIR_PATH @ ''policy4/related_cpus'', ''4 5 6 7 8 9''),
      (POLICY_DIR_PATH @ ''policy10/related_cpus'', ''10 11''),
      (''/sys/devices/system/cpu/cpu0/cpu_capacity'', ''300''),
      (''/sys/devices/system/cpu/cpu4/cpu_capacity'', ''700''),
      (''/sys/devices/system/cpu/cpu10/cpu_capacity'', ''1024'')],
     opens = (\<lambda>_. True), entries = (\<lambda>_. None), mkdir = (\<lambda>_. MkdirOk), written = []\<rparr>"

lemma policy_order_by_string:
  "map_of (mPhysicalClusters (generatePolicyBasedMapping 0 three_policies [''policy4'', ''policy0'', ''policy10''] target_empty)) 4
     = Some (Some \<lparr>mPhysicalID = 4, mCapacity = 1024, mStartCpu = 10, mNumCpus = 2\<rparr>)"
  by code_simp

end
