(* ===== verification/RequestHandler.thy ===== *)
theory RequestHandler
  imports OrderedQueue CocoTable Target
begin

text \<open>
  \<^verbatim>\<open>resource-tuner/core/RequestHandler.cpp\<close>: what happens to a message from a client
  until its request is dropped or queued. The state of the server gathers the state of the
  components it goes through. What the surroundings decide (clock, permissions read from
  \<^verbatim>\<open>/proc\<close>, pool blocks) is an argument.
\<close>

section \<open>The server\<close>

record server =
  sv_coco :: coco_state
  sv_objs :: req_store
  sv_rm :: request_manager
  sv_clients :: client_data
  sv_queue :: ordered_queue
  sv_target :: target

record server_env =
  se_coco :: coco_env
  se_maxConcurrentRequests :: u32
  se_rate :: rate_config
  se_rounding :: "real \<Rightarrow> real"

record arrival =
  ar_now :: i64
  ar_permission :: i8
  ar_tid_block :: bool
  ar_info_block :: bool

text \<open>
  \<^verbatim>\<open>Request::cleanUpRequest\<close> as the server runs it. Its loop reads the link of a node just
  after the node was returned to the pool, an error of the code. The pool does not overwrite a returned block before it hands it
  out again (\<^verbatim>\<open>MemoryPool::freeBlock\<close>), so that without another thread in between the loop finds the old links: the
  nodes are collected as they are, and all of them, the timer and the request leave their stores.
  \<open>Request.cleanUpRequest\<close> is the same code under the rule that a returned block may not be read; that it then fails for
  every request with a resource is the property \<open>release_reads_freed\<close>.
\<close>

definition collect_nodes :: "addr \<Rightarrow> res_heap \<times> addr list \<Rightarrow> (res_heap \<times> addr list) option" where
  "collect_nodes a st = (case fst st a of None \<Rightarrow> None | Some _ \<Rightarrow> Some (fst st, snd st @ [a]))"

definition list_nodes :: "res_heap \<Rightarrow> request \<Rightarrow> addr list option" where
  "list_nodes h req =
     (case mResourceList req of None \<Rightarrow> Some []
      | Some l \<Rightarrow> map_option snd (dl_iterate (mLinkerInUse l) fst collect_nodes (mHead l) (h, [])))"

definition free_nodes :: "addr list \<Rightarrow> res_heap \<Rightarrow> res_heap" where
  "free_nodes xs h = (\<lambda>a. if a \<in> set xs then None else h a)"

definition release_request :: "addr \<Rightarrow> server \<Rightarrow> server option" where
  "release_request a sv = do {
     req \<leftarrow> sv_objs sv a;
     xs \<leftarrow> list_nodes (c_heap (sv_coco sv)) req;
     let st = (sv_coco sv)\<lparr>c_heap := free_nodes xs (c_heap (sv_coco sv))\<rparr>;
     Some (sv\<lparr>sv_objs := (sv_objs sv)(a := None),
              sv_coco := (case mTimer req of None \<Rightarrow> st | Some t \<Rightarrow> log_event (TimerFree t) st)\<rparr>) }"

section \<open>Verification\<close>

definition getRequestPriority :: "i8 \<Rightarrow> i8 \<Rightarrow> i8" where
  "getRequestPriority clientPermissions reqSpecifiedPriority =
     (if clientPermissions = PERMISSION_SYSTEM then
        (if reqSpecifiedPriority = REQ_PRIORITY_HIGH then SYSTEM_HIGH
         else if reqSpecifiedPriority = REQ_PRIORITY_LOW then SYSTEM_LOW else -1)
      else if clientPermissions = PERMISSION_THIRD_PARTY then
        (if reqSpecifiedPriority = REQ_PRIORITY_HIGH then THIRD_PARTY_HIGH
         else if reqSpecifiedPriority = REQ_PRIORITY_LOW then THIRD_PARTY_LOW
         else if reqSpecifiedPriority = THIRD_PARTY_HIGH \<or> reqSpecifiedPriority = THIRD_PARTY_LOW
         then reqSpecifiedPriority else -1)
      else -1)"

text \<open>The translated core and cluster, when the mapping succeeds.\<close>

definition performPhysicalMapping :: "int \<Rightarrow> int \<Rightarrow> target \<Rightarrow> ((int \<times> int) option \<times> target) option" where
  "performPhysicalMapping coreValue clusterValue T = do {
     let physicalClusterValue = getPhysicalClusterId T clusterValue;
     (physicalCoreValue, T) \<leftarrow> (if coreValue \<noteq> 0 then getPhysicalCoreId clusterValue coreValue T else Some (0, T));
     Some (if physicalCoreValue \<noteq> -1 \<and> physicalClusterValue \<noteq> -1
           then Some (physicalCoreValue, physicalClusterValue) else None, T) }"

definition translateToPhysicalIDs ::
    "resource_registry \<Rightarrow> resource \<Rightarrow> target \<Rightarrow> (ErrCode \<times> resource \<times> target) option" where
  "translateToPhysicalIDs rr r T =
     (case getResConf rr (mResCode r) of None \<Rightarrow> None
      | Some rConf \<Rightarrow>
          (case mApplyType rConf of
             APPLY_CORE \<Rightarrow>
               (let coreValue = sint (getCoreValue r); clusterValue = sint (getClusterValue r)
                in if coreValue < 0 \<or> clusterValue < 0 then Some (RC_INVALID_VALUE, r, T)
                   else do {
                     (m, T) \<leftarrow> performPhysicalMapping coreValue clusterValue T;
                     Some (case m of
                         Some (c, k) \<Rightarrow> (RC_SUCCESS, setClusterValue (word_of_int k) (setCoreValue (word_of_int c) r), T)
                       | None \<Rightarrow> if mPolicy rConf \<noteq> PASS_THROUGH then (RC_INVALID_VALUE, r, T)
                           else (RC_SUCCESS, setClusterValue (word_of_int clusterValue)
                                   (setCoreValue (word_of_int coreValue) r), T)) })
           | APPLY_CLUSTER \<Rightarrow>
               (let clusterValue = sint (getClusterValue r)
                in if clusterValue < 0 then Some (RC_INVALID_VALUE, r, T)
                   else (let physicalClusterID = getPhysicalClusterId T clusterValue
                         in Some (if physicalClusterID = -1 \<and> mPolicy rConf \<noteq> PASS_THROUGH
                              then (RC_INVALID_VALUE, r, T)
                              else (RC_SUCCESS, setClusterValue (word_of_int physicalClusterID) r, T))))
           | _ \<Rightarrow> Some (RC_SUCCESS, r, T)))"

text \<open>One resource of a request; the first component says whether it counts as forwarded.\<close>

definition verify_resource ::
    "resource_registry \<Rightarrow> i8 \<Rightarrow> resource \<Rightarrow> target \<Rightarrow> (bool \<times> resource \<times> target) option" where
  "verify_resource rr clientPermissions r T =
     (case getResConf rr (mResCode r) of None \<Rightarrow> Some (False, setResAction RES_SKIP r, T)
      | Some resourceConfig \<Rightarrow> do {
          inRange \<leftarrow> (if sint (getValuesCount r) = 1 then do {
              configValue \<leftarrow> getValueAt r 0;
              Some (\<not> (mLowThreshold resourceConfig \<noteq> -1 \<and> mHighThreshold resourceConfig \<noteq> -1
                \<and> (sint configValue < sint (mLowThreshold resourceConfig)
                    \<or> sint configValue > sint (mHighThreshold resourceConfig)))) }
            else Some True);
          (if \<not> inRange then Some (False, setResAction RES_SKIP r, T)
           else if mPermissions resourceConfig = PERMISSION_SYSTEM \<and> clientPermissions = PERMISSION_THIRD_PARTY
           then Some (False, setResAction RES_SKIP r, T)
           else do {
             (rc, r, T) \<leftarrow> translateToPhysicalIDs rr r T;
             Some (if RC_IS_NOTOK rc then (False, setResAction RES_SKIP r, T) else (True, r, T)) }) })"

definition verify_body ::
    "resource_registry \<Rightarrow> i8 \<Rightarrow> addr \<Rightarrow> res_heap \<times> target \<times> nat \<Rightarrow> (res_heap \<times> target \<times> nat) option" where
  "verify_body rr clientPermissions iter st =
     (case st of (h, T, forwardCount) \<Rightarrow>
        (case h iter of None \<Rightarrow> None
         | Some nd \<Rightarrow> do {
             (fwd, r, T) \<leftarrow> verify_resource rr clientPermissions (mData nd) T;
             Some (h(iter \<mapsto> nd\<lparr>mData := r\<rparr>), T, forwardCount + of_bool fwd) }))"

text \<open>The answer, with the request, the heap and the target as the checks leave them.\<close>

definition VerifyIncomingRequest ::
    "coco_env \<Rightarrow> client_data \<Rightarrow> request \<Rightarrow> res_heap \<Rightarrow> target \<Rightarrow> (bool \<times> request \<times> res_heap \<times> target) option" where
  "VerifyIncomingRequest env cd req h T =
     (if sint (getDuration req) < -1 \<or> getDuration req = 0 then Some (False, req, h, T)
      else
        (let req = addProcessingMode MODE_RESUME req;
             clientPermissions = getClientLevelByID (getClientPID req) cd;
             reqSpecifiedPriority = getPriority req;
             allowedPriority = getRequestPriority clientPermissions reqSpecifiedPriority
         in if ce_mode env \<noteq> MODE_RESUME then Some (False, req, h, T)
            else if clientPermissions = -1 then Some (False, req, h, T)
            else if sint reqSpecifiedPriority > sint THIRD_PARTY_LOW \<or> sint reqSpecifiedPriority < sint SYSTEM_HIGH
            then Some (False, req, h, T)
            else if allowedPriority = -1 then Some (False, req, h, T)
            else
              (let req = setPriority allowedPriority req
               in case getResDlMgr req of None \<Rightarrow> Some (False, req, h, T)
                  | Some l \<Rightarrow> do {
                      (h, T, forwardCount) \<leftarrow> dl_iterate (mLinkerInUse l) fst
                        (verify_body (ce_registry env) clientPermissions) (mHead l) (h, T, 0);
                      Some (forwardCount \<noteq> 0, req, h, T) })))"

section \<open>Admission\<close>

definition addToRequestManager ::
    "u32 \<Rightarrow> addr \<Rightarrow> server \<Rightarrow> (bool \<times> server) option" where
  "addToRequestManager mMaxConcurrentRequests a sv = do {
     req \<leftarrow> sv_objs sv a;
     (ok, cd) \<leftarrow> shouldRequestBeAdded (unat mMaxConcurrentRequests) (c_heap (sv_coco sv)) (sv_objs sv)
       (Some req) (sv_rm sv) (sv_clients sv);
     (if \<not> ok then Some (False, sv\<lparr>sv_clients := cd\<rparr>)
      else (case addRequest (unat mMaxConcurrentRequests) (a, req) (sv_rm sv) cd of
              (added, rm, cd) \<Rightarrow> Some (added, sv\<lparr>sv_rm := rm, sv_clients := cd\<rparr>))) }"

definition enqueue :: "addr \<Rightarrow> server \<Rightarrow> server option" where
  "enqueue a sv = map_option (\<lambda>(_, q). sv\<lparr>sv_queue := q\<rparr>) (addAndWakeup (sv_objs sv) (Some (QRequest a)) (sv_queue sv))"

definition admit :: "server_env \<Rightarrow> addr \<Rightarrow> server \<Rightarrow> server option" where
  "admit env a sv = do {
     (added, sv) \<leftarrow> addToRequestManager (se_maxConcurrentRequests env) a sv;
     (if added then enqueue a sv else release_request a sv) }"

text \<open>The client checks of a tune request: \<open>Inl\<close> drops it.\<close>

definition client_checks :: "server_env \<Rightarrow> arrival \<Rightarrow> request \<Rightarrow> server \<Rightarrow> server + server" where
  "client_checks env ar req sv =
     (if \<not> isGlobalRateLimitHonored (se_maxConcurrentRequests env) (getActiveReqeustsCount (sv_rm sv)) then Inl sv
      else if clientExists (getClientPID req) (getClientTID req) (sv_clients sv) then Inr sv
      else (case createNewClient (ar_tid_block ar) (ar_info_block ar) (ar_permission ar)
                   (getClientPID req) (getClientTID req) (sv_clients sv) of
              (ok, cd) \<Rightarrow> if ok then Inr (sv\<lparr>sv_clients := cd\<rparr>) else Inl (sv\<lparr>sv_clients := cd\<rparr>)))"

definition is_untune_or_retune :: "request \<Rightarrow> bool" where
  "is_untune_or_retune req \<longleftrightarrow>
     getRequestType req = REQ_RESOURCE_UNTUNING \<or> getRequestType req = REQ_RESOURCE_RETUNING"

definition handle_checks :: "bool \<Rightarrow> request \<Rightarrow> server \<Rightarrow> (server + server) option" where
  "handle_checks isValidated req sv =
     (if \<not> isValidated \<and> \<not> clientExists (getClientPID req) (getClientTID req) (sv_clients sv) then Some (Inl sv)
      else if getRequestType req = REQ_RESOURCE_UNTUNING then
        map_option (\<lambda>(found, rm). if found then Inr (sv\<lparr>sv_rm := rm\<rparr>) else Inl (sv\<lparr>sv_rm := rm\<rparr>))
          (disableRequestProcessing (getHandle req) (sv_rm sv))
      else Some (Inr sv))"

definition processIncomingRequest ::
    "server_env \<Rightarrow> arrival \<Rightarrow> bool \<Rightarrow> addr \<Rightarrow> server \<Rightarrow> server option" where
  "processIncomingRequest env ar isValidated a sv = do {
     req \<leftarrow> sv_objs sv a;
     checked \<leftarrow> (if getRequestType req = REQ_RESOURCE_TUNING then Some (client_checks env ar req sv)
                 else if is_untune_or_retune req then handle_checks isValidated req sv
                 else Some (Inr sv));
     (case checked of Inl sv \<Rightarrow> release_request a sv
      | Inr sv \<Rightarrow> do {
          (honored, cd) \<leftarrow> (if isValidated then Some (True, sv_clients sv)
             else isRateLimitHonored (se_rounding env) (se_rate env) (ar_now ar) (getClientTID req) (sv_clients sv));
          let sv = sv\<lparr>sv_clients := cd\<rparr>;
          (if \<not> honored then release_request a sv
           else if is_untune_or_retune req then
             (if verifyHandle (getHandle req) (sv_rm sv) then enqueue a sv else release_request a sv)
           else if isValidated then admit env a sv
           else do {
             (valid, req, h, T) \<leftarrow> VerifyIncomingRequest (se_coco env) (sv_clients sv) req
               (c_heap (sv_coco sv)) (sv_target sv);
             let sv = sv\<lparr>sv_objs := (sv_objs sv)(a \<mapsto> req), sv_coco := (sv_coco sv)\<lparr>c_heap := h\<rparr>, sv_target := T\<rparr>;
             (if valid then admit env a sv else release_request a sv) }) }) }"

text \<open>
  A message from the receiver: \<open>block\<close> is the fresh request object the pool hands out, if it
  has one; a request that cannot be read is freed.
\<close>

definition submitResProvisionReqMsg ::
    "server_env \<Rightarrow> arrival \<Rightarrow> alloc_source \<Rightarrow> (addr \<times> request) option \<Rightarrow> u8 list \<Rightarrow> i64 \<Rightarrow> server \<Rightarrow> server option" where
  "submitResProvisionReqMsg env ar al block buf handle sv =
     (case block of None \<Rightarrow> Some sv
      | Some (a, raw) \<Rightarrow> do {
          (rc, h, req) \<leftarrow> Request_deserialize al buf (c_heap (sv_coco sv)) (Request_init raw);
          let req = (if RC_IS_OK rc \<and> getRequestType req = REQ_RESOURCE_TUNING then setHandle handle req else req);
          let sv = sv\<lparr>sv_objs := (sv_objs sv)(a \<mapsto> req), sv_coco := (sv_coco sv)\<lparr>c_heap := h\<rparr>\<rparr>;
          (if RC_IS_NOTOK rc then release_request a sv else processIncomingRequest env ar False a sv) })"

end
