(* ===== verification/RequestQueue.thy ===== *)
theory RequestQueue
  imports RequestHandler
begin

text \<open>
  \<^verbatim>\<open>resource-tuner/core/RequestQueue.cpp\<close>: the consumer that applies queued requests to
  the concurrency table, and the producers that are not clients: an expired timer
  (\<^verbatim>\<open>CocoTable::timerExpired\<close>), the device going to sleep
  (\<^verbatim>\<open>RequestManager::moveToPendingList\<close>).
\<close>

section \<open>The consumer\<close>

text \<open>
  What is decided outside for one message: which of the equally urgent ones comes first, the block
  of the timer and whether the timer starts.
\<close>

record choice =
  ch_tie :: nat
  ch_timer_block :: "addr option"
  ch_start_ok :: bool

definition drop_request :: "addr \<Rightarrow> server \<Rightarrow> server option" where
  "drop_request a sv = do {
     req \<leftarrow> sv_objs sv a;
     (rm, cd) \<leftarrow> RequestManager.removeRequest req (sv_rm sv) (sv_clients sv);
     release_request a (sv\<lparr>sv_rm := rm, sv_clients := cd\<rparr>) }"

definition consume_tune :: "server_env \<Rightarrow> choice \<Rightarrow> addr \<Rightarrow> request \<Rightarrow> server \<Rightarrow> server option" where
  "consume_tune env ch a req sv =
     (let status = getRequestProcessingStatus (getHandle req) (sv_rm sv)
      in if has_flag status REQ_CANCELLED \<or> has_flag status REQ_COMPLETED then drop_request a sv
         else do {
           let sv = sv\<lparr>sv_rm := markRequestAsComplete (getHandle req) (sv_rm sv)\<rparr>;
           (ok, req', st) \<leftarrow> insertRequest (se_coco env) (ch_timer_block ch) (ch_start_ok ch) (Some req) (sv_coco sv);
           let sv = sv\<lparr>sv_coco := st, sv_objs := (sv_objs sv)(a := req')\<rparr>;
           (if ok then Some sv else drop_request a sv) })"

text \<open>Requests for an existing tune request, the one at \<open>b\<close>.\<close>

definition consume_untune :: "server_env \<Rightarrow> addr \<Rightarrow> addr \<Rightarrow> server \<Rightarrow> server option" where
  "consume_untune env a b sv = do {
     tune \<leftarrow> sv_objs sv b;
     (_, st) \<leftarrow> CocoTable.removeRequest (se_coco env) (Some tune) (sv_coco sv);
     (rm, cd) \<leftarrow> RequestManager.removeRequest tune (sv_rm sv) (sv_clients sv);
     sv \<leftarrow> release_request a (sv\<lparr>sv_coco := st, sv_rm := rm, sv_clients := cd\<rparr>);
     release_request b sv }"

definition consume_retune :: "server_env \<Rightarrow> choice \<Rightarrow> addr \<Rightarrow> request \<Rightarrow> addr \<Rightarrow> i8 \<Rightarrow> server \<Rightarrow> server option" where
  "consume_retune env ch a req b status sv = do {
     tune \<leftarrow> sv_objs sv b;
     sv \<leftarrow> (if \<not> has_flag status REQ_COMPLETED
            then Some (sv\<lparr>sv_objs := (sv_objs sv)(b \<mapsto> setDuration (getDuration req) tune)\<rparr>)
            else map_option (\<lambda>(_, tune', st). sv\<lparr>sv_coco := st, sv_objs := (sv_objs sv)(b := tune')\<rparr>)
              (updateRequest (ch_timer_block ch) (ch_start_ok ch) (Some tune) (getDuration req) (sv_coco sv)));
     release_request a sv }"

definition consume_request :: "server_env \<Rightarrow> choice \<Rightarrow> addr \<Rightarrow> server \<Rightarrow> server option" where
  "consume_request env ch a sv = do {
     req \<leftarrow> sv_objs sv a;
     (if getRequestType req = REQ_RESOURCE_TUNING then consume_tune env ch a req sv
      else (case getRequestFromMap (getHandle req) (sv_rm sv) of
          (None, _) \<Rightarrow> release_request a sv
        | (Some b, status) \<Rightarrow>
            if has_flag status REQ_NOT_FOUND then release_request a sv
            else if getRequestType req = REQ_RESOURCE_UNTUNING then
              (if \<not> has_flag status REQ_COMPLETED then release_request a sv else consume_untune env a b sv)
            else if getRequestType req = REQ_RESOURCE_RETUNING then consume_retune env ch a req b status sv
            else Some sv)) }"

text \<open>The loop of the consumer; a message of priority -2 ends it.\<close>

partial_function (option) orderedQueueConsumerHook ::
    "server_env \<Rightarrow> (nat \<Rightarrow> choice) \<Rightarrow> nat \<Rightarrow> server \<Rightarrow> server option" where
  "orderedQueueConsumerHook env chs i sv =
     (if \<not> hasPendingTasks (sv_queue sv) then Some sv
      else Option.bind (pop (ch_tie (chs i)) (sv_objs sv) (sv_queue sv)) (\<lambda>(item, q).
        let sv = sv\<lparr>sv_queue := q\<rparr>
        in case item of None \<Rightarrow> orderedQueueConsumerHook env chs (Suc i) sv
           | Some x \<Rightarrow>
               Option.bind (item_priority (sv_objs sv) x) (\<lambda>p.
               if p = sint SERVER_CLEANUP_TRIGGER_PRIORITY then Some sv
               else case x of QMessage _ \<Rightarrow> orderedQueueConsumerHook env chs (Suc i) sv
                    | QRequest a \<Rightarrow> Option.bind (consume_request env (chs i) a sv)
                        (orderedQueueConsumerHook env chs (Suc i)))))"

declare orderedQueueConsumerHook.simps [code]

text \<open>One round of the loop, which ends it or goes on.\<close>

datatype consumer_next = Done (next_state: server) | Again (next_state: server)

definition consumer_round :: "server_env \<Rightarrow> choice \<Rightarrow> server \<Rightarrow> consumer_next option" where
  "consumer_round env ch sv =
     (if \<not> hasPendingTasks (sv_queue sv) then Some (Done sv)
      else Option.bind (pop (ch_tie ch) (sv_objs sv) (sv_queue sv)) (\<lambda>(item, q).
        let sv = sv\<lparr>sv_queue := q\<rparr>
        in case item of None \<Rightarrow> Some (Again sv)
           | Some x \<Rightarrow>
               Option.bind (item_priority (sv_objs sv) x) (\<lambda>p.
               if p = sint SERVER_CLEANUP_TRIGGER_PRIORITY then Some (Done sv)
               else case x of QMessage _ \<Rightarrow> Some (Again sv)
                    | QRequest a \<Rightarrow> map_option Again (consume_request env ch a sv))))"

lemma consumer_rounds:
  "orderedQueueConsumerHook env chs i sv =
     Option.bind (consumer_round env (chs i) sv) (\<lambda>r. case r of Done sv' \<Rightarrow> Some sv'
        | Again sv' \<Rightarrow> orderedQueueConsumerHook env chs (Suc i) sv')"
  by (subst orderedQueueConsumerHook.simps)
    (auto simp: consumer_round_def Let_def Option.bind_map_option comp_def split: Option.bind_split option.splits queue_item.splits)

text \<open>The state after some rounds that went on.\<close>

fun after_rounds :: "server_env \<Rightarrow> (nat \<Rightarrow> choice) \<Rightarrow> nat \<Rightarrow> server \<Rightarrow> server option" where
  "after_rounds env chs 0 sv = Some sv"
| "after_rounds env chs (Suc j) sv =
     Option.bind (after_rounds env chs j sv) (\<lambda>sv. case consumer_round env (chs j) sv of Some (Again sv') \<Rightarrow> Some sv' | _ \<Rightarrow> None)"

text \<open>The request a round takes from the queue and acts on.\<close>

definition next_request :: "choice \<Rightarrow> server \<Rightarrow> (addr \<times> request) option" where
  "next_request ch sv =
     (case pop (ch_tie ch) (sv_objs sv) (sv_queue sv) of
        Some (Some (QRequest a), _) \<Rightarrow>
          (case sv_objs sv a of None \<Rightarrow> None
           | Some req \<Rightarrow> if getPriority req = SERVER_CLEANUP_TRIGGER_PRIORITY then None else Some (a, req))
      | _ \<Rightarrow> None)"

section \<open>Other producers\<close>

text \<open>The timer of the request at \<open>b\<close> expires; \<open>block\<close> is the pool's answer.\<close>

definition timer_expiry :: "(addr \<times> request) option \<Rightarrow> addr \<Rightarrow> server \<Rightarrow> server option" where
  "timer_expiry block b sv = do {
     req \<leftarrow> sv_objs sv b;
     (case block of None \<Rightarrow> Some sv
      | Some (a, raw) \<Rightarrow> do {
          u \<leftarrow> timerExpired (Some raw) req;
          enqueue a (sv\<lparr>sv_objs := (sv_objs sv)(a \<mapsto> u)\<rparr>) }) }"

text \<open>
  The list \<^verbatim>\<open>ACTIVE_TUNE\<close> that this loop walks; \<open>blocks\<close> answers each allocation.
\<close>

fun move_to_pending :: "(nat \<Rightarrow> (addr \<times> request) option) \<Rightarrow> addr list \<Rightarrow> server \<Rightarrow> server option" where
  "move_to_pending blocks [] sv = Some sv"
| "move_to_pending blocks (b # bs) sv = do {
     req \<leftarrow> sv_objs sv b;
     sv \<leftarrow> (if getProcessingModes req AND MODE_SUSPEND = 0 then do {
              sv \<leftarrow> (case blocks (length bs) of None \<Rightarrow> Some sv
                 | Some (a, raw) \<Rightarrow> do {
                     u \<leftarrow> populateUntuneRequest req (Some (Request_init raw));
                     enqueue a (sv\<lparr>sv_objs := (sv_objs sv)(a \<mapsto> setPriority HIGH_TRANSFER_PRIORITY u)\<rparr>) });
              Some (sv\<lparr>sv_rm := (sv_rm sv)\<lparr>mPendingTune := List.insert b (mPendingTune (sv_rm sv))\<rparr>\<rparr>) }
            else Some sv);
     move_to_pending blocks bs sv }"

definition moveToPendingList :: "(nat \<Rightarrow> (addr \<times> request) option) \<Rightarrow> server \<Rightarrow> server option" where
  "moveToPendingList blocks sv = move_to_pending blocks (mActiveTune (sv_rm sv)) sv"

end
