(* ===== verification/CocoReach.thy ===== *)
theory CocoReach
  imports CocoTable
begin

text \<open>
  The concurrency table in operation: it starts as \<^verbatim>\<open>CocoTable\<close>'s constructor leaves
  it and then sees tune requests inserted or refused, durations updated and requests removed, while
  new requests are built in the rest of the heap. The main result is the arbitration contract of a
  resource that is global to the system: the value in effect is the best one of the active requests
  of the highest priority.
\<close>

section \<open>The initial table\<close>

lemma row_size_mod: "row_size a b c conf mod 4 = 0"
proof -
  have "nat (4 * x) mod 4 = 0" for x :: int by (cases "0 \<le> x") (simp_all add: nat_mult_distrib)
  then show ?thesis by (cases "mApplyType conf") (simp_all add: row_size_def TOTAL_PRIORITIES_def)
qed

lemma CocoTable_init_inv:
  assumes "reg_inv (ce_registry env)"
  shows "coco_inv env (CocoTable_init (ce_registry env) clusterIDs cgroupIDs cores clusters cgroups h) (\<lambda>_ _. [])"
    (is "coco_inv env ?st _")
proof -
  let ?rr = "ce_registry env"
  have len: "length (mCocoTable ?st) = nat (getTotalResourcesCount ?rr)"
    using assms by (simp add: CocoTable_init_def getRegisteredResources_def getTotalResourcesCount_def reg_inv_def)
  have cells: "cell ?st p s = DLManager_init COCO_TABLE_DL_NR" if "valid_cell ?st p s" for p s
    using that by (auto simp: valid_cell_def cell_def CocoTable_init_def)
  have rel: "coco_rel ?st (\<lambda>_ _. [])"
    using len cells by (auto simp: coco_rel_def) (simp_all add: dl_list_def DLManager_init_def COCO_TABLE_DL_NR_def CocoTable_init_def)
  have "length (mCocoTable ?st ! row_of env k) mod 4 = 0 \<and> (managed env c \<longrightarrow> length (mCocoTable ?st ! row_of env k) = 4) \<and>
      mCurrentlyAppliedPriority ?st ! row_of env k = -1"
    if k: "getResConf ?rr k = Some c" for k c
  proof -
    have i: "row_of env k < length (mResourceConfigs ?rr)" "mResourceConfigs ?rr ! row_of env k = c"
      using assms k by (auto simp: getResConf_inv row_of_def getResourceTableIndex_def reg_inv_def nat_less_iff)
    then show ?thesis using assms
      by (simp add: CocoTable_init_def getRegisteredResources_def getTotalResourcesCount_def reg_inv_def row_size_mod)
        (simp add: managed_def row_size_def TOTAL_PRIORITIES_def)
  qed
  moreover have "row_ok env ?st (\<lambda>_ _. []) k" if "mCurrentlyAppliedPriority ?st ! row_of env k = -1" for k
    using that by (simp add: row_ok_def top_level_def Let_def CocoTable_init_def)
  ultimately show ?thesis using rel len by (simp add: coco_inv_def row_nodes_def cell_sorted_def)
qed

section \<open>Steps\<close>

text \<open>
  A state of the system is the table and the active requests, each with the addresses of its
  resource nodes. \<open>build\<close>: the heap outside the nodes of active requests changes, as it does
  when requests are received, rejected or freed. \<open>refuse\<close>: the table inserts nothing, and the
  request is dropped. \<open>strand\<close>: the timer could not be started. The insertion answers that it failed, but
  the nodes stay in the lists, so the request counts as active as long as its nodes are not freed.
\<close>

type_synonym active = "(request \<times> addr list) list"

definition active_nodes :: "active \<Rightarrow> addr list" where
  "active_nodes A = concat (map snd A)"

inductive coco_step :: "coco_env \<Rightarrow> coco_state \<times> active \<Rightarrow> coco_state \<times> active \<Rightarrow> bool" for env where
  build: "(\<And>n. n \<in> set (active_nodes A) \<Longrightarrow> h n = c_heap st n) \<Longrightarrow>
     coco_step env (st, A) (st\<lparr>c_heap := h\<rparr>, A)"
| tune: "request_nodes st req xs \<Longrightarrow> set xs \<inter> set (active_nodes A) = {} \<Longrightarrow>
     insertRequest env timer_block start_ok (Some req) st = Some (True, Some req', st') \<Longrightarrow>
     coco_step env (st, A) (st', (req', xs) # A)"
| refuse: "request_nodes st req xs \<Longrightarrow> set xs \<inter> set (active_nodes A) = {} \<Longrightarrow>
     insertRequest env timer_block True (Some req) st = Some (False, req', st') \<Longrightarrow>
     coco_step env (st, A) (st', A)"
| strand: "request_nodes st req xs \<Longrightarrow> set xs \<inter> set (active_nodes A) = {} \<Longrightarrow>
     insertRequest env (Some t) False (Some req) st = Some (False, Some req', st') \<Longrightarrow>
     coco_step env (st, A) (st', (req', xs) # A)"
| retune: "updateRequest timer_block start_ok (Some req) duration st = Some (b, Some req', st') \<Longrightarrow>
     coco_step env (st, us @ (req, xs) # vs) (st', us @ (req', xs) # vs)"
| untune: "removeRequest env (Some req) st = Some (rc, st') \<Longrightarrow>
     coco_step env (st, us @ (req, xs) # vs) (st', us @ vs)"

inductive_cases coco_stepE: "coco_step env s s'"

inductive coco_reach :: "coco_env \<Rightarrow> coco_state \<times> active \<Rightarrow> coco_state \<times> active \<Rightarrow> bool" for env s0 where
  reach_start: "coco_reach env s0 s0"
| reach_step: "coco_reach env s0 s \<Longrightarrow> coco_step env s s' \<Longrightarrow> coco_reach env s0 s'"

section \<open>The system invariant\<close>

text \<open>A node of an active request that is arbitrated in cell \<open>(p, s)\<close>.\<close>

definition claims_cell :: "coco_env \<Rightarrow> coco_state \<Rightarrow> active \<Rightarrow> nat \<Rightarrow> nat \<Rightarrow> addr \<Rightarrow> bool" where
  "claims_cell env st A p s n \<longleftrightarrow>
     (\<exists>(req, xs)\<in>set A. n \<in> set xs \<and>
        (\<exists>r. dl_data (c_heap st) n = Some r \<and> slot env st r (sint (getPriority req)) = Some (p, s)))"

definition sys_inv :: "coco_env \<Rightarrow> coco_state \<times> active \<Rightarrow> (nat \<Rightarrow> nat \<Rightarrow> addr list) \<Rightarrow> bool" where
  "sys_inv env = (\<lambda>(st, A) L.
     coco_inv env st L \<and> distinct (active_nodes A) \<and> (\<forall>(req, xs)\<in>set A. request_nodes st req xs) \<and>
     (\<forall>p s n. valid_cell st p s \<longrightarrow> n \<in> set (L p s) \<longleftrightarrow> claims_cell env st A p s n))"

lemma active_nodes_simps [simp]:
  "active_nodes [] = []" "active_nodes (x # A) = snd x @ active_nodes A"
  "active_nodes (A @ B) = active_nodes A @ active_nodes B"
  by (simp_all add: active_nodes_def)

lemma active_nodes_iff: "n \<in> set (active_nodes A) \<longleftrightarrow> (\<exists>(req, xs)\<in>set A. n \<in> set xs)"
  by (force simp: active_nodes_def)

lemma claims_cell_simps [simp]:
  "claims_cell env st [] p s n = False"
  "claims_cell env st (A @ B) p s n \<longleftrightarrow> claims_cell env st A p s n \<or> claims_cell env st B p s n"
  by (auto simp: claims_cell_def)

lemma claims_Cons: "claims_cell env st (x # A) p s n \<longleftrightarrow> claims_cell env st [x] p s n \<or> claims_cell env st A p s n"
  by (auto simp: claims_cell_def)

lemma claims_active: "claims_cell env st A p s n \<Longrightarrow> n \<in> set (active_nodes A)"
  by (auto simp: claims_cell_def active_nodes_iff)

text \<open>Claims depend on the payloads of the nodes and the shape of the table only.\<close>

lemma claims_cong:
  "same_shape st st' \<Longrightarrow> (\<And>n. n \<in> set (active_nodes A) \<Longrightarrow> dl_data (c_heap st') n = dl_data (c_heap st) n) \<Longrightarrow>
     claims_cell env st' A p s n = claims_cell env st A p s n"
  by (force simp: claims_cell_def slot_shape active_nodes_iff)

lemma claims_priority:
  "getPriority req' = getPriority req \<Longrightarrow> claims_cell env st [(req', xs)] p s n = claims_cell env st [(req, xs)] p s n"
  by (simp add: claims_cell_def)

lemma at_slot_claims:
  "at_slot env st L (sint (getPriority req)) n \<Longrightarrow> n \<in> set xs \<Longrightarrow> valid_cell st p s \<Longrightarrow>
     n \<in> set (L p s) \<longleftrightarrow> claims_cell env st [(req, xs)] p s n"
  by (auto simp: at_slot_def claims_cell_def)

lemma sys_invE:
  assumes "sys_inv env (st, A) L"
  obtains "coco_inv env st L" "distinct (active_nodes A)" "\<And>req xs. (req, xs) \<in> set A \<Longrightarrow> request_nodes st req xs"
    "\<And>p s n. valid_cell st p s \<Longrightarrow> n \<in> set (L p s) \<longleftrightarrow> claims_cell env st A p s n"
  using assms unfolding sys_inv_def by (simp add: case_prod_beta') (metis fst_conv snd_conv)

lemma frame_request_nodes:
  "dl_frame COCO_TABLE_DL_NR UNIV (c_heap st) (c_heap st') \<Longrightarrow> request_nodes st req xs \<Longrightarrow> request_nodes st' req xs"
  using dl_list_frame[of COCO_TABLE_DL_NR UNIV "c_heap st" "c_heap st'"]
  by (auto simp: request_nodes_def req_list_def frame_node_for REQUEST_DL_NR_def COCO_TABLE_DL_NR_def split: option.splits)

lemma request_nodes_cong:
  "request_nodes st req xs \<Longrightarrow> (\<And>n. n \<in> set xs \<Longrightarrow> c_heap st' n = c_heap st n) \<Longrightarrow> request_nodes st' req xs"
  using dl_list_cong[of xs "c_heap st'" _ "c_heap st"]
  by (auto simp: request_nodes_def req_list_def links_def node_for_def comparable_def dl_data_def split: option.splits)

lemma coco_inv_heap:
  assumes env: "good_env env" and inv: "coco_inv env st L"
    and same: "\<And>p s n. valid_cell st p s \<Longrightarrow> n \<in> set (L p s) \<Longrightarrow> h n = c_heap st n"
  shows "coco_inv env (st\<lparr>c_heap := h\<rparr>) L"
proof -
  have dat: "dl_data h n = dl_data (c_heap st) n" if "valid_cell st p s" "n \<in> set (L p s)" for p s n
    using same[OF that] by (simp add: dl_data_def)
  have "coco_rel (st\<lparr>c_heap := h\<rparr>) L"
    unfolding coco_rel_def
    using inv same dl_list_cong[of "L p s" h "cell st p s" "c_heap st" for p s]
    by (auto simp: coco_inv_def coco_rel_def links_def)
  moreover have "row_nodes (mPolicy c) (st\<lparr>c_heap := h\<rparr>) (row_of env k) (L (row_of env k)) k \<and>
      (managed env c \<longrightarrow> row_ok env (st\<lparr>c_heap := h\<rparr>) L k)"
    if c: "getResConf (ce_registry env) k = Some c" for k c
  proof -
    let ?p = "row_of env k"
    have v: "s < length (mCocoTable st ! ?p) \<Longrightarrow> valid_cell st ?p s" for s
      using coco_inv_conf(1)[OF env inv c] by (simp add: valid_cell_def)
    have old: "row_nodes (mPolicy c) st ?p (L ?p) k"
      "managed env c \<Longrightarrow> length (mCocoTable st ! ?p) = 4 \<and> row_ok env st L k"
      using inv c by (auto simp: coco_inv_def)
    have cv: "sorted_wrt (\<lambda>x y. \<not> P (cval h y) (cval h x)) (L ?p s) \<longleftrightarrow>
        sorted_wrt (\<lambda>x y. \<not> P (cval (c_heap st) y) (cval (c_heap st) x)) (L ?p s)"
      if "s < length (mCocoTable st ! ?p)" for s and P :: "int \<Rightarrow> int \<Rightarrow> bool"
      using dat[OF v[OF that]] by (intro iffI; elim sorted_wrt_mono_rel[rotated]) (simp_all add: cval_def)
    have nod: "comparable h a \<and> (\<exists>r. dl_data h a = Some r \<and> mResCode r = k)"
      if "s < length (mCocoTable st ! ?p)" "a \<in> set (L ?p s)" for s a
      using old(1) dat[OF v[OF that(1)] that(2)] that by (simp add: row_nodes_def comparable_def)
    have "row_nodes (mPolicy c) (st\<lparr>c_heap := h\<rparr>) ?p (L ?p) k"
      using old(1) cv[of _ "(<)"] cv[of _ "\<lambda>x y. y < x"] nod by (simp add: row_nodes_def cell_sorted_def)
    moreover have "row_ok env (st\<lparr>c_heap := h\<rparr>) L k" if "managed env c"
    proof -
      have "dl_data h (hd (L ?p s)) = dl_data (c_heap st) (hd (L ?p s))" if "s < 4" "L ?p s \<noteq> []" for s
        using that v[of s] old(2)[OF \<open>managed env c\<close>] dat[of ?p s "hd (L ?p s)"] by simp
      then show ?thesis using old(2)[OF that] top_level_Some[of "L ?p"]
        by (simp add: row_ok_def Let_def split: option.splits)
    qed
    ultimately show ?thesis by blast
  qed
  ultimately show ?thesis using inv by (simp add: coco_inv_def)
qed

section \<open>Every step keeps the invariant\<close>

lemma sys_inv_build:
  assumes env: "good_env env" and inv: "sys_inv env (st, A) L"
    and same: "\<And>n. n \<in> set (active_nodes A) \<Longrightarrow> h n = c_heap st n"
  shows "sys_inv env (st\<lparr>c_heap := h\<rparr>, A) L"
proof -
  from inv obtain i: "coco_inv env st L" "distinct (active_nodes A)" "\<And>req xs. (req, xs) \<in> set A \<Longrightarrow> request_nodes st req xs"
    "\<And>p s n. valid_cell st p s \<Longrightarrow> n \<in> set (L p s) \<longleftrightarrow> claims_cell env st A p s n" by (rule sys_invE) metis
  have "claims_cell env (st\<lparr>c_heap := h\<rparr>) A p s n = claims_cell env st A p s n" for p s n
    by (rule claims_cong) (simp_all add: same_shape_def same dl_data_def)
  moreover have "coco_inv env (st\<lparr>c_heap := h\<rparr>) L"
    by (rule coco_inv_heap[OF env i(1)]) (use i(4) same claims_active in metis)
  moreover have "request_nodes (st\<lparr>c_heap := h\<rparr>) req xs" if "(req, xs) \<in> set A" for req xs
    by (rule request_nodes_cong[OF i(3)[OF that]]) (use that same in \<open>force simp: active_nodes_iff\<close>)
  ultimately show ?thesis using i by (auto simp: sys_inv_def)
qed

text \<open>Steps of the table keep the active requests as they are.\<close>

lemma sys_inv_frame:
  assumes inv: "sys_inv env (st, A) L" and L: "coco_inv env st' L'" and sh: "same_shape st st'"
    and fr: "dl_frame COCO_TABLE_DL_NR UNIV (c_heap st) (c_heap st')"
    and B: "distinct (active_nodes B)" "\<And>req xs. (req, xs) \<in> set B \<Longrightarrow> request_nodes st req xs"
    and cl: "\<And>p s n. valid_cell st p s \<Longrightarrow> n \<in> set (L' p s) \<longleftrightarrow> claims_cell env st B p s n"
  shows "sys_inv env (st', B) L'"
proof -
  have "claims_cell env st' B p s n = claims_cell env st B p s n" for p s n
    by (rule claims_cong[OF sh]) (use fr in \<open>simp add: dl_frame_def\<close>)
  then show ?thesis using L B cl frame_request_nodes[OF fr] shape_valid[OF sh] by (auto simp: sys_inv_def)
qed

lemma request_nodes_req:
  "request_nodes st req xs \<Longrightarrow> mResourceList req' = mResourceList req \<Longrightarrow> getPriority req' = getPriority req \<Longrightarrow>
     request_nodes st req' xs"
  by (simp add: request_nodes_def req_list_def)

lemma untimed_insert:
  "getDuration req \<noteq> -1 \<Longrightarrow> timer_block = None \<Longrightarrow>
     \<exists>req'. insertRequest env timer_block start_ok (Some req) st = Some (False, Some req', st)"
  by (simp add: insertRequest_def Let_def setTimer_def getDuration_def)

lemma outside_inactive:
  "sys_inv env (st, A) L \<Longrightarrow> n \<notin> set (active_nodes A) \<Longrightarrow> outside st L n"
  by (elim sys_invE) (auto simp: outside_def dest: claims_active)

text \<open>
  Once the loop over the resources has run, every node of the request that has a slot is in the list of its cell,
  whatever becomes of the timer.
\<close>

lemma sys_inv_linked:
  assumes env: "good_env env" and inv: "sys_inv env (st, A) L" and nodes: "request_nodes st req xs"
    and new: "set xs \<inter> set (active_nodes A) = {}" and tm: "getDuration req = -1 \<or> timer_block \<noteq> None"
    and ins: "insertRequest env timer_block start_ok (Some req) st = Some (b, ro, st')"
  shows "\<exists>req' L'. ro = Some req' \<and> sys_inv env (st', (req', xs) # A) L'"
proof -
  from inv obtain i: "coco_inv env st L" "distinct (active_nodes A)" "\<And>req xs. (req, xs) \<in> set A \<Longrightarrow> request_nodes st req xs"
    "\<And>p s n. valid_cell st p s \<Longrightarrow> n \<in> set (L p s) \<longleftrightarrow> claims_cell env st A p s n" by (rule sys_invE) metis
  have out: "\<forall>n\<in>set xs. outside st L n" using new outside_inactive[OF inv] by auto
  from insertRequest_inserted[OF env i(1) nodes out tm, of start_ok] ins obtain req' L' where
    ro: "ro = Some req'" and ri: "inserted env st L (sint (getPriority req)) xs st' L'"
    and rq: "mResourceList req' = mResourceList req" "message.truncate req' = message.truncate req" by auto
  have pr: "getPriority req' = getPriority req" using rq(2) by (simp add: getPriority_def message.defs)
  have r: "coco_inv env st' L'" "same_shape st st'" "dl_frame COCO_TABLE_DL_NR UNIV (c_heap st) (c_heap st')"
    "\<And>n. n \<in> set xs \<Longrightarrow> at_slot env st' L' (sint (getPriority req)) n"
    and fil: "\<And>p s. filter (\<lambda>a. a \<notin> set xs) (L' p s) = filter (\<lambda>a. a \<notin> set xs) (L p s)"
    using ri by (auto simp: inserted_def)
  have dxs: "distinct xs"
    using nodes by (auto simp: request_nodes_def req_list_def dest: dl_list_distinct split: option.splits)
  have in_xs: "n \<in> set (L' p s) \<longleftrightarrow> claims_cell env st [(req', xs)] p s n \<or> claims_cell env st A p s n"
    if v: "valid_cell st p s" for p s n
  proof (cases "n \<in> set xs")
    case True
    have "valid_cell st' p s" using v shape_valid[OF r(2)] by simp
    then have "n \<in> set (L' p s) \<longleftrightarrow> claims_cell env st' [(req, xs)] p s n"
      by (rule at_slot_claims[OF r(4)[OF True] True])
    also have "\<dots> \<longleftrightarrow> claims_cell env st [(req, xs)] p s n"
      by (rule claims_cong[OF r(2)]) (use r(3) in \<open>simp add: dl_frame_def\<close>)
    finally show ?thesis using True new claims_priority[OF pr] claims_active[of env st A p s n] by auto
  next
    case False
    have "n \<in> set (filter (\<lambda>a. a \<notin> set xs) (L' p s)) \<longleftrightarrow> n \<in> set (filter (\<lambda>a. a \<notin> set xs) (L p s))"
      by (simp only: fil)
    then have "n \<in> set (L' p s) \<longleftrightarrow> n \<in> set (L p s)" using False by simp
    then show ?thesis using False i(4)[OF v] claims_active[of env st "[(req', xs)]" p s n] by auto
  qed
  have "sys_inv env (st', (req', xs) # A) L'"
    by (rule sys_inv_frame[OF inv r(1-3)])
      (use i(2,3) new dxs in_xs request_nodes_req[OF nodes rq(1) pr] in \<open>auto simp: Int_commute claims_Cons[of _ _ _ A]\<close>)
  with ro show ?thesis by blast
qed

lemma sys_inv_insert:
  assumes env: "good_env env" and inv: "sys_inv env (st, A) L" and nodes: "request_nodes st req xs"
    and new: "set xs \<inter> set (active_nodes A) = {}" and ok: "b \<or> start_ok"
    and ins: "insertRequest env timer_block start_ok (Some req) st = Some (b, ro, st')"
  shows "\<exists>req' L'. ro = Some req' \<and> sys_inv env (st', if b then (req', xs) # A else A) L'"
proof (cases "getDuration req = -1 \<or> timer_block \<noteq> None")
  case False
  then have "\<not> b \<and> (\<exists>req'. ro = Some req') \<and> st' = st" using untimed_insert[of req timer_block env start_ok st] ins by auto
  with inv show ?thesis by auto
next
  case tm: True
  show ?thesis
  proof (cases b)
    case True
    then show ?thesis using sys_inv_linked[OF env inv nodes new tm ins] by simp
  next
    case False
    from inv obtain i: "coco_inv env st L" "distinct (active_nodes A)" "\<And>req xs. (req, xs) \<in> set A \<Longrightarrow> request_nodes st req xs"
      "\<And>p s n. valid_cell st p s \<Longrightarrow> n \<in> set (L p s) \<longleftrightarrow> claims_cell env st A p s n" by (rule sys_invE) metis
    have out: "\<forall>n\<in>set xs. outside st L n" using new outside_inactive[OF inv] by auto
    from insertRequest_inserted[OF env i(1) nodes out tm, of start_ok] ins False ok obtain req' where
      ro: "ro = Some req'" and ri: "inserted env st L (sint (getPriority req)) xs st' L" by auto
    have "sys_inv env (st', A) L"
      by (rule sys_inv_frame[OF inv _ _ _ i(2,3)]) (use ri i(4) in \<open>auto simp: inserted_def\<close>)
    with ro False show ?thesis by auto
  qed
qed

lemma updateRequest_frame:
  assumes u: "updateRequest timer_block start_ok (Some req) duration st = Some (b, Some req', st')"
    and inv: "coco_inv env st L"
  shows "mResourceList req' = mResourceList req \<and> getPriority req' = getPriority req \<and> coco_inv env st' L \<and>
    same_shape st st' \<and> c_heap st' = c_heap st"
proof -
  have t: "coco_inv env (log_event e s) L" if "coco_inv env s L" "e = TimerStart a d \<or> e = TimerKill a \<or> e = TimerFree a"
    for e a d s using coco_inv_timer[OF that(1)] that(2) by blast
  have sh: "same_shape st (log_event e st')" if "same_shape st st'" for e st'
    using that by (simp add: same_shape_def)
  show ?thesis using u inv
    by (auto simp: updateRequest_def Let_def setTimer_def unsetTimer_def setDuration_def getPriority_def message.defs
        intro!: t sh split: if_splits option.splits)
qed

lemma sys_inv_retune:
  assumes inv: "sys_inv env (st, us @ (req, xs) # vs) L"
    and u: "updateRequest timer_block start_ok (Some req) duration st = Some (b, Some req', st')"
  shows "sys_inv env (st', us @ (req', xs) # vs) L"
proof -
  from inv obtain i: "coco_inv env st L" "distinct (active_nodes (us @ (req, xs) # vs))"
    "\<And>r ys. (r, ys) \<in> set (us @ (req, xs) # vs) \<Longrightarrow> request_nodes st r ys"
    "\<And>p s n. valid_cell st p s \<Longrightarrow> n \<in> set (L p s) \<longleftrightarrow> claims_cell env st (us @ (req, xs) # vs) p s n"
    by (rule sys_invE) metis
  from updateRequest_frame[OF u i(1)] have f: "mResourceList req' = mResourceList req" "getPriority req' = getPriority req"
    "coco_inv env st' L" "same_shape st st'" "c_heap st' = c_heap st" by auto
  show ?thesis
  proof (rule sys_inv_frame[OF inv f(3,4)])
    show "dl_frame COCO_TABLE_DL_NR UNIV (c_heap st) (c_heap st')" by (simp add: f(5) frame_intros)
    show "distinct (active_nodes (us @ (req', xs) # vs))" using i(2) by simp
    show "request_nodes st r ys" if "(r, ys) \<in> set (us @ (req', xs) # vs)" for r ys
      using that i(3) request_nodes_req[OF i(3)[of req xs] f(1,2)] by auto
    show "n \<in> set (L p s) \<longleftrightarrow> claims_cell env st (us @ (req', xs) # vs) p s n" if "valid_cell st p s" for p s n
      using i(4)[OF that] claims_priority[OF f(2)] claims_Cons[of env st _ vs] by simp
  qed
qed

lemma sys_inv_untune:
  assumes env: "good_env env" and inv: "sys_inv env (st, us @ (req, xs) # vs) L"
    and rm: "removeRequest env (Some req) st = Some (rc, st')"
  shows "\<exists>L'. sys_inv env (st', us @ vs) L'"
proof -
  from inv obtain i: "coco_inv env st L" "distinct (active_nodes (us @ (req, xs) # vs))"
    "\<And>r ys. (r, ys) \<in> set (us @ (req, xs) # vs) \<Longrightarrow> request_nodes st r ys"
    "\<And>p s n. valid_cell st p s \<Longrightarrow> n \<in> set (L p s) \<longleftrightarrow> claims_cell env st (us @ (req, xs) # vs) p s n"
    by (rule sys_invE) metis
  have split: "claims_cell env st (us @ (req, xs) # vs) p s n \<longleftrightarrow>
      (if n \<in> set xs then claims_cell env st [(req, xs)] p s n else claims_cell env st (us @ vs) p s n)" for p s n
    using i(2) claims_active[of env st us p s n] claims_active[of env st vs p s n]
      claims_active[of env st "[(req, xs)]" p s n] by (auto simp: claims_Cons[of env st _ vs])
  have at: "\<forall>n\<in>set xs. at_slot env st L (sint (getPriority req)) n"
    using i(4) split by (simp add: at_slot_def) (auto simp: claims_cell_def)
  from removeRequest_removed[OF env i(1) i(3) at] rm obtain L' where
    r: "coco_inv env st' L'" "same_shape st st'" "dl_frame COCO_TABLE_DL_NR UNIV (c_heap st) (c_heap st')"
    "\<And>p s. valid_cell st p s \<Longrightarrow> L' p s = filter (\<lambda>a. a \<notin> set xs) (L p s)" by auto
  have "sys_inv env (st', us @ vs) L'"
  proof (rule sys_inv_frame[OF inv r(1-3)])
    show "distinct (active_nodes (us @ vs))" using i(2) by auto
    show "request_nodes st r ys" if "(r, ys) \<in> set (us @ vs)" for r ys using that i(3) by auto
    show "n \<in> set (L' p s) \<longleftrightarrow> claims_cell env st (us @ vs) p s n" if "valid_cell st p s" for p s n
      using r(4)[OF that] i(4)[OF that] split i(2) claims_active[of env st "us @ vs" p s n] by auto
  qed
  then show ?thesis by blast
qed

lemma coco_step_inv:
  assumes env: "good_env env" and inv: "sys_inv env s L" and step: "coco_step env s s'"
  shows "\<exists>L'. sys_inv env s' L'"
  using step
proof (rule coco_stepE)
  fix A h st assume "s = (st, A)" "s' = (st\<lparr>c_heap := h\<rparr>, A)" "\<And>n. n \<in> set (active_nodes A) \<Longrightarrow> h n = c_heap st n"
  then show ?thesis using sys_inv_build[OF env] inv by blast
next
  fix st req xs A timer_block start_ok req' st'
  assume "s = (st, A)" "s' = (st', (req', xs) # A)" "request_nodes st req xs" "set xs \<inter> set (active_nodes A) = {}"
    "insertRequest env timer_block start_ok (Some req) st = Some (True, Some req', st')"
  then show ?thesis using sys_inv_insert[OF env, of st A L req xs True start_ok timer_block "Some req'" st'] inv by auto
next
  fix st req xs A timer_block req' st'
  assume "s = (st, A)" "s' = (st', A)" "request_nodes st req xs" "set xs \<inter> set (active_nodes A) = {}"
    "insertRequest env timer_block True (Some req) st = Some (False, req', st')"
  then show ?thesis using sys_inv_insert[OF env, of st A L req xs False True timer_block req' st'] inv by auto
next
  fix st req xs A t req' st'
  assume "s = (st, A)" "s' = (st', (req', xs) # A)" "request_nodes st req xs" "set xs \<inter> set (active_nodes A) = {}"
    "insertRequest env (Some t) False (Some req) st = Some (False, Some req', st')"
  then show ?thesis using sys_inv_linked[OF env, of st A L req xs "Some t" False False "Some req'" st'] inv by auto
next
  fix timer_block start_ok req duration st b req' st' us xs vs
  assume s: "s = (st, us @ (req, xs) # vs)" and s': "s' = (st', us @ (req', xs) # vs)"
    and u: "updateRequest timer_block start_ok (Some req) duration st = Some (b, Some req', st')"
  show ?thesis unfolding s' by (rule exI, rule sys_inv_retune[OF inv[unfolded s] u])
next
  fix req st rc st' us xs vs
  assume s: "s = (st, us @ (req, xs) # vs)" and s': "s' = (st', us @ vs)"
    and u: "removeRequest env (Some req) st = Some (rc, st')"
  show ?thesis unfolding s' by (rule sys_inv_untune[OF env inv[unfolded s] u])
qed

lemma coco_reach_inv:
  "coco_reach env s0 s \<Longrightarrow> good_env env \<Longrightarrow> \<exists>L. sys_inv env s0 L \<Longrightarrow> \<exists>L. sys_inv env s L"
  by (induction rule: coco_reach.induct) (use coco_step_inv in blast)+

text \<open>In a state of the invariant both operations return.\<close>

lemma sys_inv_slots:
  assumes inv: "sys_inv env (st, A) L" and m: "(req, xs) \<in> set A"
  shows "\<forall>n\<in>set xs. at_slot env st L (sint (getPriority req)) n"
proof -
  from inv obtain i: "distinct (active_nodes A)"
    "\<And>p s n. valid_cell st p s \<Longrightarrow> n \<in> set (L p s) \<longleftrightarrow> claims_cell env st A p s n" by (rule sys_invE) metis
  from m obtain us vs where A: "A = us @ (req, xs) # vs" by (auto simp: in_set_conv_decomp)
  have "n \<in> set xs \<Longrightarrow> claims_cell env st A p s n \<longleftrightarrow> claims_cell env st [(req, xs)] p s n" for p s n
    using i(1) A claims_active[of env st us p s n] claims_active[of env st vs p s n]
    by (auto simp: claims_Cons[of env st _ vs])
  then show ?thesis using i(2) by (simp add: at_slot_def) (auto simp: claims_cell_def)
qed

lemma sys_inv_defined:
  assumes env: "good_env env" and inv: "sys_inv env (st, A) L"
  shows "(\<forall>req xs. request_nodes st req xs \<longrightarrow> set xs \<inter> set (active_nodes A) = {} \<longrightarrow>
       insertRequest env timer_block start_ok (Some req) st \<noteq> None) \<and>
     (\<forall>(req, xs)\<in>set A. removeRequest env (Some req) st \<noteq> None)"
proof -
  have ci: "coco_inv env st L" using inv by (rule sys_invE)
  have "insertRequest env timer_block start_ok (Some req) st \<noteq> None"
    if nd: "request_nodes st req xs" and new: "set xs \<inter> set (active_nodes A) = {}" for req xs
  proof (cases "getDuration req = -1 \<or> timer_block \<noteq> None")
    case True
    have "\<forall>n\<in>set xs. outside st L n" using new outside_inactive[OF inv] by auto
    from insertRequest_inserted[OF env ci nd this True, of start_ok] show ?thesis by auto
  next
    case False
    then show ?thesis using untimed_insert[of req timer_block env start_ok st] by auto
  qed
  moreover have "removeRequest env (Some req) st \<noteq> None" if m: "(req, xs) \<in> set A" for req xs
  proof -
    have "request_nodes st req xs" using inv m by (elim sys_invE) blast
    from removeRequest_removed[OF env ci this sys_inv_slots[OF inv m]] show ?thesis by auto
  qed
  ultimately show ?thesis by blast
qed

section \<open>Arbitration\<close>

text \<open>
  The active requests' claims on a resource code: priority, payload and address of each node of
  theirs that is not marked to be skipped.
\<close>

definition claim :: "coco_state \<Rightarrow> active \<Rightarrow> u32 \<Rightarrow> int \<Rightarrow> resource \<Rightarrow> bool" where
  "claim st A k prio r \<longleftrightarrow>
     (\<exists>(req, xs)\<in>set A. prio = sint (getPriority req) \<and>
        (\<exists>n\<in>set xs. dl_data (c_heap st) n = Some r) \<and> mResCode r = k \<and> mResAction r \<noteq> RES_SKIP)"

definition value_of :: "resource \<Rightarrow> int" where
  "value_of r = (case compared_value r of None \<Rightarrow> 0 | Some v \<Rightarrow> sint v)"

text \<open>No claim of the same priority beats the one in effect.\<close>

definition unbeaten :: "Policy \<Rightarrow> resource \<Rightarrow> resource \<Rightarrow> bool" where
  "unbeaten pol r r' \<longleftrightarrow>
     (pol = HIGHER_BETTER \<longrightarrow> value_of r' \<le> value_of r) \<and> (pol = LOWER_BETTER \<longrightarrow> value_of r \<le> value_of r')"

lemma cval_value: "dl_data h a = Some r \<Longrightarrow> cval h a = value_of r"
  by (simp add: cval_def value_of_def)

lemma sorted_wrt_hd: "sorted_wrt P xs \<Longrightarrow> a \<in> set xs \<Longrightarrow> a = hd xs \<or> P (hd xs) a"
  by (cases xs) auto

lemma cell_sorted_hd:
  "cell_sorted pol h xs \<Longrightarrow> a \<in> set xs \<Longrightarrow> dl_data h (hd xs) = Some r \<Longrightarrow> dl_data h a = Some r' \<Longrightarrow> unbeaten pol r r'"
  using sorted_wrt_hd[of _ xs a] by (fastforce simp: cell_sorted_def unbeaten_def cval_value)

text \<open>On a managed row the cells are the priority levels.\<close>

lemma claims_managed:
  assumes env: "good_env env" and inv: "sys_inv env (st, A) L"
    and c: "getResConf (ce_registry env) k = Some c" and m: "managed env c" and s: "s < 4"
  shows "claim st A k (int s) r \<longleftrightarrow> (\<exists>n\<in>set (L (row_of env k) s). dl_data (c_heap st) n = Some r)"
proof -
  from inv obtain i: "coco_inv env st L" "\<And>req xs. (req, xs) \<in> set A \<Longrightarrow> request_nodes st req xs"
    "\<And>p s n. valid_cell st p s \<Longrightarrow> n \<in> set (L p s) \<longleftrightarrow> claims_cell env st A p s n" by (rule sys_invE) metis
  let ?p = "row_of env k"
  have len: "length (mCocoTable st ! ?p) = 4" using i(1) c m by (auto simp: coco_inv_def)
  have v: "valid_cell st ?p s'" if "s' < 4" for s' using len coco_inv_conf(1)[OF env i(1) c] that by (simp add: valid_cell_def)
  have sl: "slot env st r' prio = Some (?p, nat prio)" if "mResCode r' = k" "mResAction r' \<noteq> RES_SKIP" "0 \<le> prio" "prio < 4"
    for r' prio
    using that c m v[of "nat prio"] coco_inv_conf(3)[OF env i(1) c] managed_index[of env r' c st prio]
    by (auto simp: slot_def conf_of_def managed_def in_table_valid)
  have rn: "mResCode r' = k" if "n \<in> set (L ?p s)" "dl_data (c_heap st) n = Some r'" for n r'
    using i(1) c s len that by (fastforce simp: coco_inv_def row_nodes_def)
  show ?thesis
  proof
    assume "claim st A k (int s) r"
    then obtain req xs n where a: "(req, xs) \<in> set A" "int s = sint (getPriority req)" "n \<in> set xs"
      "dl_data (c_heap st) n = Some r" "mResCode r = k" "mResAction r \<noteq> RES_SKIP" by (auto simp: claim_def)
    have "slot env st r (sint (getPriority req)) = Some (?p, s)" using sl[OF a(5,6), of "int s"] s a(2) by simp
    then have "claims_cell env st A ?p s n" unfolding claims_cell_def using a by blast
    with a(4) i(3)[OF v[OF s]] show "\<exists>n\<in>set (L ?p s). dl_data (c_heap st) n = Some r" by blast
  next
    assume "\<exists>n\<in>set (L ?p s). dl_data (c_heap st) n = Some r"
    then obtain n where n: "n \<in> set (L ?p s)" "dl_data (c_heap st) n = Some r" by blast
    then have code: "mResCode r = k" by (rule rn)
    from n i(3)[OF v[OF s]] obtain req xs where a: "(req, xs) \<in> set A" "n \<in> set xs"
      "slot env st r (sint (getPriority req)) = Some (?p, s)" by (auto simp: claims_cell_def)
    have p: "0 \<le> sint (getPriority req)" using i(2)[OF a(1)] by (simp add: request_nodes_def)
    have "s = nat (sint (getPriority req))"
      using slot_managed_level[OF a(3)] c m code by (simp add: conf_of_def)
    moreover have "mResAction r \<noteq> RES_SKIP" using a(3) by (auto simp: slot_def split: if_splits)
    ultimately show "claim st A k (int s) r" using a n p code unfolding claim_def by auto
  qed
qed

text \<open>
  The effect on a managed resource is decided by the active requests alone: nothing without a
  claim, and otherwise a claim of the highest priority that no claim of that priority beats.
\<close>

lemma sys_arbitration:
  assumes env: "good_env env" and inv: "sys_inv env (st, A) L"
    and c: "getResConf (ce_registry env) k = Some c" and m: "managed env c"
  shows "case in_effect k (c_trace st) of
      None \<Rightarrow> \<forall>prio r. \<not> claim st A k prio r
    | Some r \<Rightarrow> \<exists>prio. claim st A k prio r \<and>
        (\<forall>prio' r'. claim st A k prio' r' \<longrightarrow> prio \<le> prio' \<and> (prio' = prio \<longrightarrow> unbeaten (mPolicy c) r r'))"
proof -
  let ?p = "row_of env k"
  from inv obtain i: "coco_inv env st L" "\<And>req xs. (req, xs) \<in> set A \<Longrightarrow> request_nodes st req xs"
    by (rule sys_invE) metis
  note at = claims_managed[OF env inv c m]
  have lv: "\<exists>s<4. prio = int s" if "claim st A k prio r" for prio r
  proof -
    have "0 \<le> prio \<and> prio < 4" using that i(2) unfolding claim_def request_nodes_def by fastforce
    then show ?thesis by (intro exI[of _ "nat prio"]) auto
  qed
  have row: "row_ok env st L k" and rn: "row_nodes (mPolicy c) st ?p (L ?p) k" and len: "length (mCocoTable st ! ?p) = 4"
    using i(1) c m by (auto simp: coco_inv_def)
  show ?thesis
  proof (cases "top_level (L ?p)")
    case None
    then have "in_effect k (c_trace st) = None" using row by (simp add: row_ok_def Let_def)
    moreover have "\<not> claim st A k prio r" for prio r
      using lv[of prio r] at top_level_None[OF None] by auto
    ultimately show ?thesis by simp
  next
    case (Some s)
    then have s: "s < 4" "L ?p s \<noteq> []" "\<And>t. t < s \<Longrightarrow> L ?p t = []" using top_level_Some by auto
    then have hd: "hd (L ?p s) \<in> set (L ?p s)" by simp
    with rn len s(1) obtain r where r: "dl_data (c_heap st) (hd (L ?p s)) = Some r" by (fastforce simp: row_nodes_def)
    have eff: "in_effect k (c_trace st) = Some r" using row Some r by (simp add: row_ok_def Let_def)
    have "int s \<le> prio' \<and> (prio' = int s \<longrightarrow> unbeaten (mPolicy c) r r')" if cl: "claim st A k prio' r'" for prio' r'
    proof -
      obtain s' where s': "s' < 4" "prio' = int s'" using lv[OF cl] by blast
      then obtain n where n: "n \<in> set (L ?p s')" "dl_data (c_heap st) n = Some r'" using at[OF s'(1)] cl by blast
      then have "\<not> s' < s" using s(3)[of s'] by auto
      moreover have "unbeaten (mPolicy c) r r'" if "s' = s"
        using cell_sorted_hd[OF _ _ r n(2)] rn len s(1) n(1) that by (simp add: row_nodes_def)
      ultimately show ?thesis using s'(2) by auto
    qed
    moreover have "claim st A k (int s) r" using at[OF s(1)] hd r by blast
    ultimately show ?thesis using eff by auto
  qed
qed

end
