(* ===== verification/ServerInv.thy ===== *)
theory ServerInv
  imports RequestQueue CocoReach
begin

text \<open>
  The life of a request in the daemon. Every request object is held in exactly one place: in the
  table (\<open>T\<close>), accepted and waiting in the queue (\<open>W\<close>), queued to untune or retune another one
  (\<open>U\<close>), or in the hands of the code that is working on it (\<open>P\<close>). The invariant says so, ties
  the request map and its status bits to these places, and contains the invariant of the table.
\<close>

type_synonym held = "(addr \<times> addr list) list"

section \<open>The invariant\<close>

definition objects :: "server \<Rightarrow> held \<Rightarrow> bool" where
  "objects sv H \<longleftrightarrow> distinct (map fst H) \<and> distinct (concat (map snd H)) \<and>
     (\<forall>(a, xs)\<in>set H. \<exists>req. sv_objs sv a = Some req \<and> req_ok (c_heap (sv_coco sv)) req xs)"

definition tune_objs :: "req_store \<Rightarrow> held \<Rightarrow> active" where
  "tune_objs objs T = map (\<lambda>(a, xs). (the (objs a), xs)) T"

definition waiting :: "server \<Rightarrow> held \<Rightarrow> bool" where
  "waiting sv W \<longleftrightarrow> (\<forall>(a, xs)\<in>set W. \<exists>req. sv_objs sv a = Some req \<and> request_nodes (sv_coco sv) req xs)"

text \<open>
  The request map lists the tune requests in the table and in the queue, under their handles;
  a request is marked completed when it has left the queue.
\<close>

definition ledger :: "req_store \<Rightarrow> request_manager \<Rightarrow> addr set \<Rightarrow> addr set \<Rightarrow> bool" where
  "ledger objs rm T W \<longleftrightarrow>
     (\<forall>h a s. map_of (mActiveRequests rm) h = Some (a, s) \<longrightarrow>
        \<not> has_flag s REQ_NOT_FOUND \<and> (if has_flag s REQ_COMPLETED then a \<in> T else a \<in> W)
        \<and> (\<exists>req. objs a = Some req \<and> getHandle req = h)) \<and>
     (\<forall>a\<in>T \<union> W. \<exists>req s. objs a = Some req \<and> getRequestType req = REQ_RESOURCE_TUNING
        \<and> map_of (mActiveRequests rm) (getHandle req) = Some (a, s))"

definition others :: "server \<Rightarrow> held \<Rightarrow> bool" where
  "others sv U \<longleftrightarrow> (\<forall>(a, xs)\<in>set U. \<exists>req. sv_objs sv a = Some req \<and> getRequestType req \<noteq> REQ_RESOURCE_TUNING)"

definition clients_ok :: "client_data \<Rightarrow> bool" where
  "clients_ok cd \<longleftrightarrow> (\<forall>t d. mClientTidRepo cd t = Some d \<longrightarrow>
     (\<exists>e. d = Some e \<and> 0 \<le> sint (mLastRequestTimestamp e)))"

definition lru_safe :: "min_lru_cache \<Rightarrow> bool" where
  "lru_safe c \<longleftrightarrow> 0 < mMaxSize c \<and> distinct (mDataSet c) \<and> set (mDataSet c) \<subseteq> set (mRecencyQueue c)"

definition bounded :: "server_env \<Rightarrow> request_manager \<Rightarrow> bool" where
  "bounded env rm \<longleftrightarrow> distinct (map fst (mActiveRequests rm)) \<and>
     length (mActiveRequests rm) \<le> unat (se_maxConcurrentRequests env)"

definition core_inv :: "server_env \<Rightarrow> server \<Rightarrow> held \<Rightarrow> held \<Rightarrow> held \<Rightarrow> held \<Rightarrow> bool" where
  "core_inv env sv T W U P \<longleftrightarrow>
     good_env (se_coco env) \<and> objects sv (T @ W @ U @ P) \<and>
     (\<exists>L. sys_inv (se_coco env) (sv_coco sv, tune_objs (sv_objs sv) T) L) \<and> waiting sv W \<and> others sv U \<and>
     ledger (sv_objs sv) (sv_rm sv) (fst ` set T) (fst ` set W) \<and>
     clients_ok (sv_clients sv) \<and> lru_safe (mUntuneCache (sv_rm sv)) \<and> bounded env (sv_rm sv)"

text \<open>The queue holds the waiting requests and those of \<open>U\<close>, each once, besides bare messages.\<close>

definition queue_addrs :: "queue_item list \<Rightarrow> addr list" where
  "queue_addrs items = concat (map (\<lambda>x. case x of QRequest a \<Rightarrow> [a] | QMessage _ \<Rightarrow> []) items)"

definition queued :: "server \<Rightarrow> held \<Rightarrow> bool" where
  "queued sv Q \<longleftrightarrow>
     mElementCount (sv_queue sv) = int (length (mOrderedQueue (sv_queue sv))) \<and>
     mset (queue_addrs (mOrderedQueue (sv_queue sv))) = mset (map fst Q)"

definition server_inv :: "server_env \<Rightarrow> server \<Rightarrow> held \<Rightarrow> held \<Rightarrow> held \<Rightarrow> held \<Rightarrow> bool" where
  "server_inv env sv T W U P \<longleftrightarrow> core_inv env sv T W U P \<and> queued sv (W @ U)"

lemma core_invE:
  assumes "core_inv env sv T W U P"
  obtains L where "good_env (se_coco env)" "objects sv (T @ W @ U @ P)"
    "sys_inv (se_coco env) (sv_coco sv, tune_objs (sv_objs sv) T) L" "waiting sv W" "others sv U"
    "ledger (sv_objs sv) (sv_rm sv) (fst ` set T) (fst ` set W)"
    "clients_ok (sv_clients sv)" "lru_safe (mUntuneCache (sv_rm sv))" "bounded env (sv_rm sv)"
  using assms unfolding core_inv_def by blast

section \<open>Status bits\<close>

lemma has_flag_bits:
  "has_flag s REQ_UNCHANGED \<longleftrightarrow> bit s 0" "has_flag s REQ_CANCELLED \<longleftrightarrow> bit s 1"
  "has_flag s REQ_COMPLETED \<longleftrightarrow> bit s 2" "has_flag s REQ_NOT_FOUND \<longleftrightarrow> bit s 3"
proof -
  have "s AND 2 ^ n \<noteq> 0 \<longleftrightarrow> bit s n" for s :: i8 and n by (simp add: and_exp_eq_0_iff_not_bit)
  from this[of s 0] this[of s 1] this[of s 2] this[of s 3]
  show "has_flag s REQ_UNCHANGED \<longleftrightarrow> bit s 0" "has_flag s REQ_CANCELLED \<longleftrightarrow> bit s 1"
    "has_flag s REQ_COMPLETED \<longleftrightarrow> bit s 2" "has_flag s REQ_NOT_FOUND \<longleftrightarrow> bit s 3"
    by (simp_all add: has_flag_def processing_status)
qed

lemma status_bits:
  "REQ_UNCHANGED = 2 ^ 0" "REQ_CANCELLED = 2 ^ 1" "REQ_COMPLETED = 2 ^ 2" "REQ_NOT_FOUND = 2 ^ 3"
  by (simp_all add: processing_status)

lemma bit_status:
  "bit REQ_UNCHANGED n \<longleftrightarrow> n = 0" "bit REQ_CANCELLED n \<longleftrightarrow> n = 1" "bit REQ_COMPLETED n \<longleftrightarrow> n = 2"
  unfolding status_bits bit_exp_iff by auto

lemma has_flag_or [simp]:
  "has_flag (s OR REQ_CANCELLED) REQ_COMPLETED = has_flag s REQ_COMPLETED"
  "has_flag (s OR REQ_CANCELLED) REQ_NOT_FOUND = has_flag s REQ_NOT_FOUND"
  "has_flag (s OR REQ_COMPLETED) REQ_COMPLETED"
  "has_flag (s OR REQ_COMPLETED) REQ_NOT_FOUND = has_flag s REQ_NOT_FOUND"
  "has_flag (s OR REQ_COMPLETED) REQ_CANCELLED = has_flag s REQ_CANCELLED"
  "\<not> has_flag REQ_UNCHANGED REQ_NOT_FOUND" "\<not> has_flag REQ_UNCHANGED REQ_COMPLETED"
  unfolding has_flag_bits bit_or_iff bit_status by simp_all

section \<open>Heaps and lists\<close>

lemma req_list_cong:
  "req_list h req xs \<Longrightarrow> (\<And>n. n \<in> set xs \<Longrightarrow> h' n = h n) \<Longrightarrow> req_list h' req xs"
  using dl_list_cong[of xs h' _ h] by (auto simp: req_list_def links_def split: option.splits)

lemma req_list_req:
  "req_list h req xs \<Longrightarrow> mResourceList req' = mResourceList req \<Longrightarrow> req_list h req' xs"
  by (simp add: req_list_def)

lemma req_ok_cong:
  "req_ok h req xs \<Longrightarrow> (\<And>n. n \<in> set xs \<Longrightarrow> h' n = h n) \<Longrightarrow> req_ok h' req xs"
  using req_list_cong[of h req xs h'] by (auto simp: req_ok_def nodes_readable_iff dl_data_def)

lemma foldM_collect: "\<forall>a\<in>set xs. h a \<noteq> None \<Longrightarrow> foldM collect_nodes xs (h, ys) = Some (h, ys @ xs)"
  by (induction xs arbitrary: ys) (auto simp: collect_nodes_def)

lemma list_nodes_req_list: "req_list h req xs \<Longrightarrow> list_nodes h req = Some xs"
proof -
  assume r: "req_list h req xs"
  show ?thesis
  proof (cases "mResourceList req")
    case (Some l)
    with r have l: "dl_list h l xs" by (simp add: req_list_def)
    then have "dl_iterate (mLinkerInUse l) fst collect_nodes (mHead l) (h, []) = foldM collect_nodes xs (h, [])"
      by (intro dl_iterate_list) (auto simp: collect_nodes_def split: option.splits)
    also have "\<dots> = Some (h, xs)" using r req_list_alloc[of h req xs] by (simp add: foldM_collect)
    finally show ?thesis using Some by (simp add: list_nodes_def)
  qed (use r in \<open>simp add: req_list_def list_nodes_def\<close>)
qed

lemma sys_inv_timer:
  assumes inv: "sys_inv env (st, A) L" and e: "e \<in> {TimerStart a d, TimerKill a, TimerFree a}"
  shows "sys_inv env (log_event e st, A) L"
proof -
  from inv obtain i: "coco_inv env st L" "distinct (active_nodes A)" "\<And>req xs. (req, xs) \<in> set A \<Longrightarrow> request_nodes st req xs"
    "\<And>p s n. valid_cell st p s \<Longrightarrow> n \<in> set (L p s) \<longleftrightarrow> claims_cell env st A p s n" by (rule sys_invE) metis
  have "same_shape st (log_event e st)" by (simp add: same_shape_def log_event_def)
  moreover have "dl_frame COCO_TABLE_DL_NR UNIV (c_heap st) (c_heap (log_event e st))"
    by (simp add: log_event_def frame_intros)
  ultimately show ?thesis using sys_inv_frame[OF inv coco_inv_timer[OF i(1) e] _ _ i(2,3,4)] by blast
qed

lemma tune_objs_simps [simp]:
  "tune_objs objs [] = []" "tune_objs objs ((a, xs) # T) = (the (objs a), xs) # tune_objs objs T"
  "tune_objs objs (S @ T) = tune_objs objs S @ tune_objs objs T"
  by (simp_all add: tune_objs_def)

lemma tune_objs_upd [simp]: "a \<notin> fst ` set T \<Longrightarrow> tune_objs (objs(a := x)) T = tune_objs objs T"
  by (auto simp: tune_objs_def image_iff)

lemma tune_objs_cong: "(\<And>a xs. (a, xs) \<in> set T \<Longrightarrow> objs' a = objs a) \<Longrightarrow> tune_objs objs' T = tune_objs objs T"
  by (auto simp: tune_objs_def)

lemma tune_objs_nodes [simp]: "active_nodes (tune_objs objs T) = concat (map snd T)"
  by (induction T) auto

lemma set_tune_objs: "(req, xs) \<in> set (tune_objs objs T) \<longleftrightarrow> (\<exists>a. (a, xs) \<in> set T \<and> req = the (objs a))"
  by (auto simp: tune_objs_def)

lemma waiting_cong:
  "waiting sv W \<Longrightarrow> (\<And>a xs. (a, xs) \<in> set W \<Longrightarrow> sv_objs sv' a = sv_objs sv a
      \<and> (\<forall>n\<in>set xs. c_heap (sv_coco sv') n = c_heap (sv_coco sv) n)) \<Longrightarrow> waiting sv' W"
  unfolding waiting_def
proof (intro ballI, clarify)
  fix a xs
  assume w: "\<forall>(a, xs)\<in>set W. \<exists>req. sv_objs sv a = Some req \<and> request_nodes (sv_coco sv) req xs"
    and c: "\<And>a xs. (a, xs) \<in> set W \<Longrightarrow> sv_objs sv' a = sv_objs sv a
      \<and> (\<forall>n\<in>set xs. c_heap (sv_coco sv') n = c_heap (sv_coco sv) n)" and m: "(a, xs) \<in> set W"
  from w m obtain req where r: "sv_objs sv a = Some req" "request_nodes (sv_coco sv) req xs" by blast
  from request_nodes_cong[OF r(2)] r(1) c[OF m]
  show "\<exists>req. sv_objs sv' a = Some req \<and> request_nodes (sv_coco sv') req xs" by simp
qed

lemma objects_cong:
  "objects sv H \<Longrightarrow> set G \<subseteq> set H \<Longrightarrow> distinct (map fst G) \<Longrightarrow> distinct (concat (map snd G)) \<Longrightarrow>
     (\<And>a xs. (a, xs) \<in> set G \<Longrightarrow> sv_objs sv' a = sv_objs sv a
        \<and> (\<forall>n\<in>set xs. c_heap (sv_coco sv') n = c_heap (sv_coco sv) n)) \<Longrightarrow> objects sv' G"
proof -
  assume o: "objects sv H" and s: "set G \<subseteq> set H" and d: "distinct (map fst G)" "distinct (concat (map snd G))"
    and c: "\<And>a xs. (a, xs) \<in> set G \<Longrightarrow> sv_objs sv' a = sv_objs sv a
        \<and> (\<forall>n\<in>set xs. c_heap (sv_coco sv') n = c_heap (sv_coco sv) n)"
  have "\<exists>req. sv_objs sv' a = Some req \<and> req_ok (c_heap (sv_coco sv')) req xs" if m: "(a, xs) \<in> set G" for a xs
  proof -
    from o s m obtain req where r: "sv_objs sv a = Some req" "req_ok (c_heap (sv_coco sv)) req xs"
      unfolding objects_def by blast
    from req_ok_cong[OF r(2)] r(1) c[OF m] show ?thesis by simp
  qed
  with d show ?thesis unfolding objects_def by blast
qed

text \<open>Nothing the queue looks at changed.\<close>

definition same_kind :: "req_store \<Rightarrow> req_store \<Rightarrow> addr \<Rightarrow> bool" where
  "same_kind objs objs' a \<longleftrightarrow> (\<exists>r r'. objs a = Some r \<and> objs' a = Some r' \<and>
     getRequestType r' = getRequestType r \<and> getPriority r' = getPriority r)"

lemma same_kind_refl: "objs a \<noteq> None \<Longrightarrow> objs' a = objs a \<Longrightarrow> same_kind objs objs' a"
  by (auto simp: same_kind_def)

lemma ledger_cong:
  "ledger objs rm T W \<Longrightarrow> (\<And>a. a \<in> T \<union> W \<Longrightarrow> objs' a = objs a) \<Longrightarrow> ledger objs' rm T W"
proof -
  assume l: "ledger objs rm T W" and c: "\<And>a. a \<in> T \<union> W \<Longrightarrow> objs' a = objs a"
  have "a \<in> T \<union> W" if "map_of (mActiveRequests rm) h = Some (a, s)" for h a s
    using l that unfolding ledger_def by (meson UnI1 UnI2)
  with l c show ?thesis unfolding ledger_def by simp
qed

lemma others_cong:
  "others sv U \<Longrightarrow> (\<And>a xs. (a, xs) \<in> set U \<Longrightarrow> sv_objs sv' a = sv_objs sv a) \<Longrightarrow> others sv' U"
  unfolding others_def by fastforce

lemma concat_nodes_disjoint:
  "distinct (concat (map snd (A @ (a, xs) # B))) \<Longrightarrow> (b, ys) \<in> set (A @ B) \<Longrightarrow> set xs \<inter> set ys = {}"
  by (fastforce simp: disjoint_iff)

section \<open>Framing\<close>

lemma objectsD:
  assumes "objects sv (H @ (a, xs) # P)"
  shows "\<exists>req. sv_objs sv a = Some req \<and> req_ok (c_heap (sv_coco sv)) req xs" "a \<notin> fst ` set (H @ P)"
    "\<And>b ys. (b, ys) \<in> set (H @ P) \<Longrightarrow> b \<noteq> a \<and> set xs \<inter> set ys = {}" "objects sv (H @ P)" "distinct xs"
proof -
  have d: "distinct (map fst (H @ (a, xs) # P))" "distinct (concat (map snd (H @ (a, xs) # P)))"
    and o: "\<forall>(b, ys)\<in>set (H @ (a, xs) # P). \<exists>req. sv_objs sv b = Some req \<and> req_ok (c_heap (sv_coco sv)) req ys"
    using assms unfolding objects_def by blast+
  from o show "\<exists>req. sv_objs sv a = Some req \<and> req_ok (c_heap (sv_coco sv)) req xs" by auto
  from d(1) show fresh: "a \<notin> fst ` set (H @ P)" by auto
  show "b \<noteq> a \<and> set xs \<inter> set ys = {}" if "(b, ys) \<in> set (H @ P)" for b ys
    using fresh that concat_nodes_disjoint[OF d(2) that] by force
  have "distinct (map fst (H @ P)) \<and> distinct (concat (map snd (H @ P)))" using d by auto
  with o show "objects sv (H @ P)" by (auto simp: objects_def)
  show "distinct xs" using d(2) by auto
qed

lemma core_inv_frame:
  assumes inv: "core_inv env sv T W U Q" and obj: "objects sv' (T @ W @ U @ P)"
    and same: "\<And>b ys. (b, ys) \<in> set (T @ W @ U) \<Longrightarrow> sv_objs sv' b = sv_objs sv b
      \<and> (\<forall>n\<in>set ys. c_heap (sv_coco sv') n = c_heap (sv_coco sv) n)"
    and tab: "\<And>L. sys_inv (se_coco env) (sv_coco sv, tune_objs (sv_objs sv) T) L \<Longrightarrow>
      \<exists>L'. sys_inv (se_coco env) (sv_coco sv', tune_objs (sv_objs sv) T) L'"
    and rm: "sv_rm sv' = sv_rm sv" and cd: "clients_ok (sv_clients sv')"
  shows "core_inv env sv' T W U P"
proof -
  from inv obtain L where i: "good_env (se_coco env)" "objects sv (T @ W @ U @ Q)"
    "sys_inv (se_coco env) (sv_coco sv, tune_objs (sv_objs sv) T) L" "waiting sv W" "others sv U"
    "ledger (sv_objs sv) (sv_rm sv) (fst ` set T) (fst ` set W)"
    "clients_ok (sv_clients sv)" "lru_safe (mUntuneCache (sv_rm sv))" "bounded env (sv_rm sv)" by (rule core_invE)
  have so: "sv_objs sv' b = sv_objs sv b" if "(b, ys) \<in> set T \<or> (b, ys) \<in> set W \<or> (b, ys) \<in> set U" for b ys
    using same[of b ys] that by auto
  have "tune_objs (sv_objs sv') T = tune_objs (sv_objs sv) T"
    by (rule tune_objs_cong) (auto intro: so)
  with tab[OF i(3)] have "\<exists>L. sys_inv (se_coco env) (sv_coco sv', tune_objs (sv_objs sv') T) L" by simp
  moreover have "waiting sv' W" by (rule waiting_cong[OF i(4)]) (use same in auto)
  moreover have "others sv' U" by (rule others_cong[OF i(5)]) (use same in auto)
  moreover have "ledger (sv_objs sv') (sv_rm sv) (fst ` set T) (fst ` set W)"
    by (rule ledger_cong[OF i(6)]) (auto intro: so)
  ultimately show ?thesis using i obj rm cd by (simp add: core_inv_def)
qed

lemma sys_inv_heap_tune:
  assumes "core_inv env sv T W U P" "sys_inv (se_coco env) (sv_coco sv, A) L"
    "\<And>n. n \<in> set (active_nodes A) \<Longrightarrow> h n = c_heap (sv_coco sv) n"
  shows "sys_inv (se_coco env) ((sv_coco sv)\<lparr>c_heap := h\<rparr>, A) L"
  using assms sys_inv_build by (auto simp: core_inv_def)

text \<open>Releasing an object in hand.\<close>

lemma release_inv:
  assumes inv: "core_inv env sv T W U ((a, xs) # P)"
  shows "\<exists>sv'. release_request a sv = Some sv' \<and> core_inv env sv' T W U P \<and> sv_rm sv' = sv_rm sv \<and>
    sv_clients sv' = sv_clients sv \<and> sv_queue sv' = sv_queue sv \<and> sv_target sv' = sv_target sv \<and>
    sv_objs sv' = (sv_objs sv)(a := None) \<and>
    (\<forall>k. in_effect k (c_trace (sv_coco sv')) = in_effect k (c_trace (sv_coco sv)))"
proof -
  have o: "objects sv ((T @ W @ U) @ (a, xs) # P)" using inv by (simp add: core_inv_def)
  note d = objectsD[OF o]
  from d(1) obtain req where r: "sv_objs sv a = Some req" "req_list (c_heap (sv_coco sv)) req xs" by (auto simp: req_ok_def)
  define st where "st = (sv_coco sv)\<lparr>c_heap := free_nodes xs (c_heap (sv_coco sv))\<rparr>"
  define st' where "st' = (case mTimer req of None \<Rightarrow> st | Some t \<Rightarrow> log_event (TimerFree t) st)"
  define sv' where "sv' = sv\<lparr>sv_objs := (sv_objs sv)(a := None), sv_coco := st'\<rparr>"
  have rel: "release_request a sv = Some sv'"
    using r list_nodes_req_list[OF r(2)]
    by (cases "mTimer req") (simp_all add: release_request_def sv'_def st'_def st_def Let_def)
  have heap: "c_heap st' = free_nodes xs (c_heap (sv_coco sv))"
    by (simp add: st'_def st_def log_event_def split: option.splits)
  have same: "sv_objs sv' b = sv_objs sv b \<and> (\<forall>n\<in>set ys. c_heap (sv_coco sv') n = c_heap (sv_coco sv) n)"
    if "(b, ys) \<in> set ((T @ W @ U) @ P)" for b ys
    using d(3)[OF that] by (auto simp: sv'_def heap free_nodes_def)
  have obj: "objects sv' (T @ W @ U @ P)"
    using objects_cong[OF d(4), of "(T @ W @ U) @ P" sv'] same d(4) by (simp add: objects_def)
  have tab: "\<exists>L'. sys_inv (se_coco env) (sv_coco sv', tune_objs (sv_objs sv) T) L'"
    if L: "sys_inv (se_coco env) (sv_coco sv, tune_objs (sv_objs sv) T) L" for L
  proof -
    have "n \<notin> set xs" if "n \<in> set (concat (map snd T))" for n using that d(3) by fastforce
    then have "sys_inv (se_coco env) (st, tune_objs (sv_objs sv) T) L"
      unfolding st_def by (intro sys_inv_heap_tune[OF inv L]) (simp add: free_nodes_def)
    then have "sys_inv (se_coco env) (st', tune_objs (sv_objs sv) T) L"
      using sys_inv_timer[of "se_coco env" st "tune_objs (sv_objs sv) T" L]
      by (cases "mTimer req") (simp_all add: st'_def)
    then show ?thesis by (auto simp: sv'_def)
  qed
  have "core_inv env sv' T W U P"
  proof (rule core_inv_frame[OF inv obj _ tab])
    show "sv_objs sv' b = sv_objs sv b \<and> (\<forall>n\<in>set ys. c_heap (sv_coco sv') n = c_heap (sv_coco sv) n)"
      if "(b, ys) \<in> set (T @ W @ U)" for b ys using same[of b ys] that by auto
  qed (use inv in \<open>simp_all add: sv'_def core_inv_def\<close>)
  moreover have "in_effect k (c_trace st') = in_effect k (c_trace (sv_coco sv))" for k
    by (simp add: st'_def st_def log_event_def split: option.splits)
  ultimately show ?thesis using rel by (simp add: sv'_def)
qed

section \<open>Moving objects between places\<close>

lemma mset_concat_nodes: "mset (concat (map snd H)) = (\<Sum>x\<in>#mset H. mset (snd x))"
  by (induction H) auto

lemma objects_perm: "objects sv H \<Longrightarrow> mset G \<subseteq># mset H \<Longrightarrow> objects sv G"
proof -
  assume o: "objects sv H" and s: "mset G \<subseteq># mset H"
  then obtain K where K: "mset H = mset (G @ K)" by (metis mset_append mset_subset_eq_exists_conv ex_mset)
  from K have "mset (map fst H) = mset (map fst (G @ K))" by (simp only: mset_map)
  moreover from K have "mset (concat (map snd H)) = mset (concat (map snd (G @ K)))"
    by (simp only: mset_concat_nodes)
  ultimately have "distinct (map fst (G @ K))" "distinct (concat (map snd (G @ K)))"
    using o mset_eq_imp_distinct_iff unfolding objects_def by blast+
  then have "distinct (map fst G)" "distinct (concat (map snd G))" by auto
  moreover have "set G \<subseteq> set H" using s by (metis set_mset_mono set_mset_mset)
  ultimately show ?thesis using o by (intro objects_cong[OF o]) auto
qed

lemma core_inv_other_fields [simp]:
  "core_inv env (sv\<lparr>sv_target := t\<rparr>) T W U P = core_inv env sv T W U P"
  "core_inv env (sv\<lparr>sv_queue := q\<rparr>) T W U P = core_inv env sv T W U P"
  by (simp_all add: core_inv_def objects_def waiting_def others_def)

lemma core_inv_clients:
  "core_inv env sv T W U P \<Longrightarrow> clients_ok cd \<Longrightarrow> core_inv env (sv\<lparr>sv_clients := cd\<rparr>) T W U P"
  by (simp add: core_inv_def objects_def waiting_def others_def)

lemma core_inv_drop: "core_inv env sv T W U (p # P) \<Longrightarrow> core_inv env sv T W U P"
proof -
  assume inv: "core_inv env sv T W U (p # P)"
  then have "objects sv (T @ W @ U @ p # P)" by (simp add: core_inv_def)
  then have "objects sv (T @ W @ U @ P)" by (rule objects_perm) simp
  with inv show ?thesis by (auto simp: core_inv_def)
qed

lemma core_inv_perm:
  "core_inv env sv T W U P \<Longrightarrow> mset W' = mset W \<Longrightarrow> mset U' = mset U \<Longrightarrow> mset P' = mset P \<Longrightarrow>
     core_inv env sv T W' U' P'"
proof -
  assume inv: "core_inv env sv T W U P" and m: "mset W' = mset W" "mset U' = mset U" "mset P' = mset P"
  then have s: "set W' = set W" "set U' = set U" by (metis set_mset_mset)+
  have "objects sv (T @ W @ U @ P)" using inv by (simp add: core_inv_def)
  then have "objects sv (T @ W' @ U' @ P')" by (rule objects_perm) (simp add: m)
  with inv s show ?thesis by (simp add: core_inv_def waiting_def others_def)
qed

text \<open>A fresh object with fresh nodes comes into hand.\<close>

lemma hold_inv:
  assumes inv: "core_inv env sv T W U P"
    and a: "a \<notin> fst ` set (T @ W @ U @ P)"
    and xs: "distinct xs" "\<And>b ys. (b, ys) \<in> set (T @ W @ U @ P) \<Longrightarrow> set xs \<inter> set ys = {}"
    and h: "\<And>b ys n. (b, ys) \<in> set (T @ W @ U @ P) \<Longrightarrow> n \<in> set ys \<Longrightarrow> h n = c_heap (sv_coco sv) n"
    and r: "req_ok h req xs"
  shows "core_inv env (sv\<lparr>sv_objs := (sv_objs sv)(a \<mapsto> req), sv_coco := (sv_coco sv)\<lparr>c_heap := h\<rparr>\<rparr>) T W U ((a, xs) # P)"
    (is "core_inv env ?sv _ _ _ _")
proof (rule core_inv_frame[OF inv])
  have o: "objects sv (T @ W @ U @ P)" using inv by (simp add: core_inv_def)
  have same: "sv_objs ?sv b = sv_objs sv b \<and> (\<forall>n\<in>set ys. c_heap (sv_coco ?sv) n = c_heap (sv_coco sv) n)"
    if "(b, ys) \<in> set (T @ W @ U @ P)" for b ys using a h that by (force simp: image_iff)
  show "sv_objs ?sv b = sv_objs sv b \<and> (\<forall>n\<in>set ys. c_heap (sv_coco ?sv) n = c_heap (sv_coco sv) n)"
    if "(b, ys) \<in> set (T @ W @ U)" for b ys using same[of b ys] that by auto
  have d: "distinct (map fst (T @ W @ U @ P))" "distinct (concat (map snd (T @ W @ U @ P)))"
    using o unfolding objects_def by blast+
  have o': "objects ?sv (T @ W @ U @ P)" by (rule objects_cong[OF o _ d same]) simp_all
  have "set xs \<inter> set (concat (map snd (T @ W @ U @ P))) = {}" using xs(2) by fastforce
  then have "distinct (concat (map snd ((a, xs) # T @ W @ U @ P)))" using d(2) xs(1) by simp
  moreover have "distinct (map fst ((a, xs) # T @ W @ U @ P))" using d(1) a by (simp add: image_Un)
  moreover have "sv_objs ?sv a = Some req \<and> req_ok (c_heap (sv_coco ?sv)) req xs" using r by simp
  ultimately have "objects ?sv ((a, xs) # T @ W @ U @ P)"
    using o' unfolding objects_def by (simp only: list.set ball_simps case_prod_conv) blast
  then show "objects ?sv (T @ W @ U @ (a, xs) # P)" by (rule objects_perm) simp
  show "\<exists>L'. sys_inv (se_coco env) (sv_coco ?sv, tune_objs (sv_objs sv) T) L'"
    if "sys_inv (se_coco env) (sv_coco sv, tune_objs (sv_objs sv) T) L" for L
  proof -
    have "h n = c_heap (sv_coco sv) n" if "n \<in> set (concat (map snd T))" for n
      using that h by fastforce
    then show ?thesis using sys_inv_heap_tune[OF inv that, of h] by auto
  qed
  show "clients_ok (sv_clients ?sv)" using inv by (simp add: core_inv_def)
qed simp

section \<open>Operations on the request map\<close>

lemma lru_safe_insert: "lru_safe c \<Longrightarrow> \<exists>c'. lru_insert h c = Some c' \<and> lru_safe c'"
proof (cases "length (mDataSet c) \<ge> mMaxSize c")
  case True
  assume "lru_safe c"
  with True obtain q qs where "mRecencyQueue c = q # qs"
    by (cases "mRecencyQueue c") (auto simp: lru_safe_def)
  with True \<open>lru_safe c\<close> show ?thesis by (auto simp: lru_insert_def lru_safe_def distinct_removeAll)
qed (auto simp: lru_insert_def lru_safe_def)

lemma length_update: "length (AList.update k v al) = (if k \<in> fst ` set al then length al else Suc (length al))"
  by (induction al) auto

lemma length_delete_less: "length (AList.delete k al) \<le> length al"
  by (simp add: AList.delete_eq)

lemma set_flag_simps [simp]:
  "mUntuneCache (set_flag h f rm) = mUntuneCache rm"
  by (simp add: set_flag_def split: option.splits)

lemma map_of_set_flag:
  "map_of (mActiveRequests (set_flag h f rm)) k =
     (if k = h then map_option (\<lambda>(a, s). (a, s OR f)) (map_of (mActiveRequests rm) h)
      else map_of (mActiveRequests rm) k)"
  by (auto simp: set_flag_def update_conv' split: option.splits)

lemma bounded_set_flag: "bounded env rm \<Longrightarrow> bounded env (set_flag h f rm)"
  by (auto simp: bounded_def set_flag_def length_update distinct_update dest: map_of_SomeD
      split: option.splits intro: rev_image_eqI)

lemma ledger_cancel: "ledger objs rm T W \<Longrightarrow> ledger objs (set_flag h REQ_CANCELLED rm) T W"
proof -
  assume l: "ledger objs rm T W"
  have "\<not> has_flag s REQ_NOT_FOUND \<and> (if has_flag s REQ_COMPLETED then a \<in> T else a \<in> W)
      \<and> (\<exists>req. objs a = Some req \<and> getHandle req = k)"
    if m: "map_of (mActiveRequests (set_flag h REQ_CANCELLED rm)) k = Some (a, s)" for k a s
  proof -
    from m obtain s0 where "map_of (mActiveRequests rm) k = Some (a, s0)" "s = s0 \<or> s = s0 OR REQ_CANCELLED"
      by (auto simp: map_of_set_flag split: if_splits)
    with l show ?thesis unfolding ledger_def by fastforce
  qed
  moreover have "\<exists>req s. objs a = Some req \<and> getRequestType req = REQ_RESOURCE_TUNING
        \<and> map_of (mActiveRequests (set_flag h REQ_CANCELLED rm)) (getHandle req) = Some (a, s)"
    if "a \<in> T \<union> W" for a
  proof -
    from l that obtain req s where "objs a = Some req" "getRequestType req = REQ_RESOURCE_TUNING"
      "map_of (mActiveRequests rm) (getHandle req) = Some (a, s)" unfolding ledger_def by blast
    then show ?thesis by (cases "getHandle req = h") (auto simp: map_of_set_flag)
  qed
  ultimately show ?thesis by (simp add: ledger_def)
qed

section \<open>The ledger\<close>

lemma ledger_entry:
  "ledger objs rm T W \<Longrightarrow> map_of (mActiveRequests rm) h = Some (a, s) \<Longrightarrow>
     \<not> has_flag s REQ_NOT_FOUND \<and> (if has_flag s REQ_COMPLETED then a \<in> T else a \<in> W)
     \<and> (\<exists>req. objs a = Some req \<and> getHandle req = h)"
  unfolding ledger_def by blast

lemma ledger_object:
  "ledger objs rm T W \<Longrightarrow> a \<in> T \<union> W \<Longrightarrow> \<exists>req s. objs a = Some req \<and> getRequestType req = REQ_RESOURCE_TUNING
        \<and> map_of (mActiveRequests rm) (getHandle req) = Some (a, s)"
  unfolding ledger_def by blast

lemma ledgerI:
  assumes "\<And>h a s. map_of (mActiveRequests rm) h = Some (a, s) \<Longrightarrow>
        \<not> has_flag s REQ_NOT_FOUND \<and> (if has_flag s REQ_COMPLETED then a \<in> T else a \<in> W)
        \<and> (\<exists>req. objs a = Some req \<and> getHandle req = h)"
    and "\<And>a. a \<in> T \<union> W \<Longrightarrow> \<exists>req s. objs a = Some req \<and> getRequestType req = REQ_RESOURCE_TUNING
        \<and> map_of (mActiveRequests rm) (getHandle req) = Some (a, s)"
  shows "ledger objs rm T W"
  using assms unfolding ledger_def by blast

lemma ledgerD:
  assumes "ledger objs rm T W" "a \<in> T \<union> W" "T \<inter> W = {}" "objs a = Some req"
  shows "\<exists>s. map_of (mActiveRequests rm) (getHandle req) = Some (a, s) \<and> getRequestType req = REQ_RESOURCE_TUNING
    \<and> \<not> has_flag s REQ_NOT_FOUND \<and> has_flag s REQ_COMPLETED = (a \<in> T)"
proof -
  from ledger_object[OF assms(1,2)] assms(4) obtain s where s: "getRequestType req = REQ_RESOURCE_TUNING"
    "map_of (mActiveRequests rm) (getHandle req) = Some (a, s)" by auto
  from ledger_entry[OF assms(1) s(2)] assms(2,3) have "\<not> has_flag s REQ_NOT_FOUND" "has_flag s REQ_COMPLETED = (a \<in> T)"
    by (auto split: if_splits)
  with s show ?thesis by blast
qed

lemma ledger_same:
  assumes l: "ledger objs rm T W"
    and c: "\<And>a req. a \<in> T \<union> W \<Longrightarrow> objs a = Some req \<Longrightarrow>
      \<exists>req'. objs' a = Some req' \<and> getHandle req' = getHandle req \<and> getRequestType req' = getRequestType req"
  shows "ledger objs' rm T W"
proof (rule ledgerI)
  fix h a s assume m: "map_of (mActiveRequests rm) h = Some (a, s)"
  from ledger_entry[OF l m] have "a \<in> T \<union> W" by (auto split: if_splits)
  from ledger_entry[OF l m] c[OF this] show "\<not> has_flag s REQ_NOT_FOUND \<and> (if has_flag s REQ_COMPLETED then a \<in> T else a \<in> W)
      \<and> (\<exists>req. objs' a = Some req \<and> getHandle req = h)" by fastforce
next
  fix a assume a: "a \<in> T \<union> W"
  from ledger_object[OF l a] c[OF a] show "\<exists>req s. objs' a = Some req \<and> getRequestType req = REQ_RESOURCE_TUNING
      \<and> map_of (mActiveRequests rm) (getHandle req) = Some (a, s)" by fastforce
qed

lemma ledger_complete:
  assumes l: "ledger objs rm T W" and a: "a \<in> W" "objs a = Some req"
  shows "ledger objs (markRequestAsComplete (getHandle req) rm) (insert a T) (W - {a})"
proof (rule ledgerI)
  let ?rm = "markRequestAsComplete (getHandle req) rm"
  from ledger_object[OF l] a obtain s0 where s0: "map_of (mActiveRequests rm) (getHandle req) = Some (a, s0)"
    by fastforce
  fix h b s assume m: "map_of (mActiveRequests ?rm) h = Some (b, s)"
  show "\<not> has_flag s REQ_NOT_FOUND \<and> (if has_flag s REQ_COMPLETED then b \<in> insert a T else b \<in> W - {a})
      \<and> (\<exists>req. objs b = Some req \<and> getHandle req = h)"
  proof (cases "h = getHandle req")
    case True
    with m s0 have "b = a" "s = s0 OR REQ_COMPLETED" by (auto simp: markRequestAsComplete_def map_of_set_flag)
    with ledger_entry[OF l s0] True a show ?thesis by simp
  next
    case False
    with m have m: "map_of (mActiveRequests rm) h = Some (b, s)" by (simp add: markRequestAsComplete_def map_of_set_flag)
    from ledger_entry[OF l m] a(2) False have "b \<noteq> a" by auto
    with ledger_entry[OF l m] show ?thesis by auto
  qed
next
  fix b assume "b \<in> insert a T \<union> (W - {a})"
  then have "b \<in> T \<union> W" using a(1) by auto
  from ledger_object[OF l this] obtain r s where "objs b = Some r" "getRequestType r = REQ_RESOURCE_TUNING"
    "map_of (mActiveRequests rm) (getHandle r) = Some (b, s)" by blast
  then show "\<exists>req' s. objs b = Some req' \<and> getRequestType req' = REQ_RESOURCE_TUNING
      \<and> map_of (mActiveRequests (markRequestAsComplete (getHandle req) rm)) (getHandle req') = Some (b, s)"
    by (cases "getHandle r = getHandle req") (auto simp: markRequestAsComplete_def map_of_set_flag)
qed

lemma ledger_remove:
  assumes l: "ledger objs rm T W" and a: "a \<in> T \<union> W" "objs a = Some req"
  shows "ledger objs (rm\<lparr>mActiveRequests := AList.delete (getHandle req) (mActiveRequests rm)\<rparr>) (T - {a}) (W - {a})"
proof (rule ledgerI)
  let ?rm = "rm\<lparr>mActiveRequests := AList.delete (getHandle req) (mActiveRequests rm)\<rparr>"
  from ledger_object[OF l a(1)] a(2) obtain s0 where s0: "map_of (mActiveRequests rm) (getHandle req) = Some (a, s0)"
    by auto
  fix h b s assume "map_of (mActiveRequests ?rm) h = Some (b, s)"
  then have m: "map_of (mActiveRequests rm) h = Some (b, s)" "h \<noteq> getHandle req"
    by (auto simp: delete_conv' split: if_splits)
  from ledger_entry[OF l m(1)] a(2) m(2) have "b \<noteq> a" by auto
  with ledger_entry[OF l m(1)] show "\<not> has_flag s REQ_NOT_FOUND
      \<and> (if has_flag s REQ_COMPLETED then b \<in> T - {a} else b \<in> W - {a})
      \<and> (\<exists>req. objs b = Some req \<and> getHandle req = h)" by auto
next
  fix b assume b: "b \<in> T - {a} \<union> (W - {a})"
  then have "b \<in> T \<union> W" by auto
  from ledger_object[OF l this] obtain r s where r: "objs b = Some r" "getRequestType r = REQ_RESOURCE_TUNING"
    "map_of (mActiveRequests rm) (getHandle r) = Some (b, s)" by blast
  from ledger_object[OF l a(1)] a(2) r(3) b have "getHandle r \<noteq> getHandle req" by auto
  with r show "\<exists>req' s. objs b = Some req' \<and> getRequestType req' = REQ_RESOURCE_TUNING
      \<and> map_of (mActiveRequests (rm\<lparr>mActiveRequests := AList.delete (getHandle req) (mActiveRequests rm)\<rparr>)) (getHandle req') = Some (b, s)"
    by (auto simp: delete_conv')
qed

lemma ledger_add:
  assumes l: "ledger objs rm T W" and a: "objs a = Some req" "getRequestType req = REQ_RESOURCE_TUNING"
    and fresh: "map_of (mActiveRequests rm) (getHandle req) = None"
    and rm': "mActiveRequests rm' = AList.update (getHandle req) (a, REQ_UNCHANGED) (mActiveRequests rm)"
  shows "ledger objs rm' T (insert a W)"
proof (rule ledgerI)
  have upd: "map_of (mActiveRequests rm') h
      = (if h = getHandle req then Some (a, REQ_UNCHANGED) else map_of (mActiveRequests rm) h)" for h
    by (simp add: rm' update_conv')
  fix h b s assume "map_of (mActiveRequests rm') h = Some (b, s)"
  then consider "h = getHandle req" "b = a" "s = REQ_UNCHANGED" | "map_of (mActiveRequests rm) h = Some (b, s)"
    unfolding upd by (cases "h = getHandle req") simp_all
  then show "\<not> has_flag s REQ_NOT_FOUND \<and> (if has_flag s REQ_COMPLETED then b \<in> T else b \<in> insert a W)
      \<and> (\<exists>req. objs b = Some req \<and> getHandle req = h)"
  proof cases
    case 2
    from ledger_entry[OF l this] show ?thesis by (simp split: if_splits)
  qed (use a in simp)
next
  fix b assume "b \<in> T \<union> insert a W"
  then show "\<exists>r s. objs b = Some r \<and> getRequestType r = REQ_RESOURCE_TUNING
      \<and> map_of (mActiveRequests rm') (getHandle r) = Some (b, s)"
  proof (cases "b = a")
    case False
    with \<open>b \<in> T \<union> insert a W\<close> have "b \<in> T \<union> W" by auto
    from ledger_object[OF l this] obtain r s where "objs b = Some r" "getRequestType r = REQ_RESOURCE_TUNING"
      "map_of (mActiveRequests rm) (getHandle r) = Some (b, s)" by blast
    with fresh show ?thesis by (auto simp: rm' update_conv')
  qed (use a in \<open>simp add: rm' update_conv'\<close>)
qed

lemma clients_known: "clients_ok cd \<Longrightarrow> mClientTidRepo cd t \<noteq> None \<Longrightarrow> known_thread cd t"
  by (auto simp: clients_ok_def known_thread_def)

lemma clients_ok_update:
  "clients_ok cd \<Longrightarrow> 0 \<le> sint (mLastRequestTimestamp e) \<Longrightarrow>
     clients_ok (cd\<lparr>mClientTidRepo := (mClientTidRepo cd)(t \<mapsto> Some e)\<rparr>)"
  by (simp add: clients_ok_def)

lemma clients_okD:
  "clients_ok cd \<Longrightarrow> mClientTidRepo cd t = Some d \<Longrightarrow> \<exists>e. d = Some e \<and> 0 \<le> sint (mLastRequestTimestamp e)"
  by (simp add: clients_ok_def)

lemma deleteRequestByClientId_ok:
  assumes "clients_ok cd"
  shows "\<exists>cd'. deleteRequestByClientId t h cd = Some cd' \<and> clients_ok cd'"
proof (cases "mClientTidRepo cd t")
  case (Some d)
  with clients_okD[OF assms] obtain e where "d = Some e" "0 \<le> sint (mLastRequestTimestamp e)" by blast
  with Some assms show ?thesis by (simp add: deleteRequestByClientId_def clients_ok_update)
qed (use assms in \<open>simp add: deleteRequestByClientId_def\<close>)

lemma insertRequestByClientId_ok:
  assumes "clients_ok cd" "known_thread cd t"
  shows "clients_ok (insertRequestByClientId t h cd)"
proof -
  from assms obtain e where "mClientTidRepo cd t = Some (Some e)" "0 \<le> sint (mLastRequestTimestamp e)"
    using clients_okD[OF assms(1)] by (fastforce simp: known_thread_def)
  with assms(1) show ?thesis by (simp add: insertRequestByClientId_def tid_lookup_def clients_ok_update)
qed

lemma bounded_delete:
  "bounded env rm \<Longrightarrow> bounded env (rm\<lparr>mActiveRequests := AList.delete k (mActiveRequests rm)\<rparr>)"
  using length_delete_less[of k "mActiveRequests rm"] by (auto simp: bounded_def distinct_delete)

text \<open>Dropping a request: it leaves the map and its memory is released.\<close>

lemma drop_inv:
  assumes env: "good_env (se_coco env)" and obj: "objects sv (T @ W @ U @ (a, xs) # P)"
    and tab: "sys_inv (se_coco env) (sv_coco sv, tune_objs (sv_objs sv) T) L"
    and wu: "waiting sv W" "others sv U"
    and led: "ledger (sv_objs sv) (sv_rm sv) A B" "a \<in> A \<union> B" "A - {a} = fst ` set T" "B - {a} = fst ` set W"
    and misc: "clients_ok (sv_clients sv)" "lru_safe (mUntuneCache (sv_rm sv))" "bounded env (sv_rm sv)"
  shows "\<exists>sv'. drop_request a sv = Some sv' \<and> core_inv env sv' T W U P \<and> sv_queue sv' = sv_queue sv \<and>
    sv_objs sv' = (sv_objs sv)(a := None) \<and> sv_target sv' = sv_target sv"
proof -
  from led(1,2) obtain req where req: "sv_objs sv a = Some req" by (meson ledger_object)
  obtain cd where cd: "deleteRequestByClientId (getClientTID req) (getHandle req) (sv_clients sv) = Some cd" "clients_ok cd"
    using deleteRequestByClientId_ok[OF misc(1)] by blast
  define rm where "rm = (sv_rm sv)\<lparr>mActiveRequests := AList.delete (getHandle req) (mActiveRequests (sv_rm sv))\<rparr>"
  define sv1 where "sv1 = sv\<lparr>sv_rm := rm, sv_clients := cd\<rparr>"
  have "ledger (sv_objs sv) rm (fst ` set T) (fst ` set W)"
    using ledger_remove[OF led(1,2) req] led(3,4) by (simp add: rm_def)
  moreover have "objects sv1 (T @ W @ U @ (a, xs) # P)" "waiting sv1 W" "others sv1 U"
    using obj wu by (simp_all add: sv1_def objects_def waiting_def others_def)
  ultimately have "core_inv env sv1 T W U ((a, xs) # P)"
    using env tab cd(2) misc bounded_delete[OF misc(3)] by (auto simp: core_inv_def sv1_def rm_def)
  from release_inv[OF this] show ?thesis
    using req cd(1) by (auto simp: drop_request_def RequestManager.removeRequest_def sv1_def rm_def)
qed

section \<open>Steps of the table\<close>

lemma req_ok_frame: "dl_frame COCO_TABLE_DL_NR UNIV h h' \<Longrightarrow> req_ok h req xs \<Longrightarrow> req_ok h' req xs"
  using dl_list_frame[of COCO_TABLE_DL_NR UNIV h h']
  by (auto simp: req_ok_def req_list_def nodes_readable_iff dl_frame_def REQUEST_DL_NR_def COCO_TABLE_DL_NR_def
      split: option.splits)

lemma objects_frame:
  assumes "objects sv H" "dl_frame COCO_TABLE_DL_NR UNIV (c_heap (sv_coco sv)) (c_heap (sv_coco sv'))"
    and "\<And>a xs req. (a, xs) \<in> set H \<Longrightarrow> sv_objs sv a = Some req \<Longrightarrow>
      \<exists>req'. sv_objs sv' a = Some req' \<and> mResourceList req' = mResourceList req"
  shows "objects sv' H"
proof -
  have "\<exists>req. sv_objs sv' a = Some req \<and> req_ok (c_heap (sv_coco sv')) req xs" if m: "(a, xs) \<in> set H" for a xs
  proof -
    from assms(1) m obtain req where r: "sv_objs sv a = Some req" "req_ok (c_heap (sv_coco sv)) req xs"
      unfolding objects_def by blast
    from assms(3)[OF m r(1)] obtain req' where r': "sv_objs sv' a = Some req'" "mResourceList req' = mResourceList req"
      by blast
    from req_ok_frame[OF assms(2) r(2)] r' show ?thesis by (simp add: req_ok_def req_list_def)
  qed
  with assms(1) show ?thesis unfolding objects_def by blast
qed

lemma waiting_frame:
  assumes "waiting sv W" "dl_frame COCO_TABLE_DL_NR UNIV (c_heap (sv_coco sv)) (c_heap (sv_coco sv'))"
    and "\<And>a. a \<in> fst ` set W \<Longrightarrow> sv_objs sv' a = sv_objs sv a"
  shows "waiting sv' W"
  unfolding waiting_def
proof (intro ballI, clarify)
  fix a xs assume m: "(a, xs) \<in> set W"
  with assms(1) obtain req where "sv_objs sv a = Some req" "request_nodes (sv_coco sv) req xs"
    unfolding waiting_def by blast
  with frame_request_nodes[OF assms(2)] assms(3)[of a] m
  show "\<exists>req. sv_objs sv' a = Some req \<and> request_nodes (sv_coco sv') req xs" by force
qed

lemma table_insert:
  assumes env: "good_env env" and inv: "sys_inv env (st, A) L" and nodes: "request_nodes st req xs"
    and new: "set xs \<inter> set (active_nodes A) = {}"
  shows "\<exists>b req' st' L'. insertRequest env tb True (Some req) st = Some (b, Some req', st')
    \<and> sys_inv env (st', if b then (req', xs) # A else A) L' \<and> dl_frame COCO_TABLE_DL_NR UNIV (c_heap st) (c_heap st')
    \<and> mResourceList req' = mResourceList req \<and> message.truncate req' = message.truncate req"
proof -
  have ci: "coco_inv env st L" using inv by (rule sys_invE)
  have out: "\<forall>n\<in>set xs. outside st L n" using new outside_inactive[OF inv] by auto
  have "\<exists>b req' st'. insertRequest env tb True (Some req) st = Some (b, Some req', st')
      \<and> dl_frame COCO_TABLE_DL_NR UNIV (c_heap st) (c_heap st')
      \<and> mResourceList req' = mResourceList req \<and> message.truncate req' = message.truncate req"
  proof (cases "getDuration req = -1 \<or> tb \<noteq> None")
    case True
    from insertRequest_inserted[OF env ci nodes out True, of True] show ?thesis
      unfolding inserted_def by blast
  next
    case False
    then show ?thesis
      by (auto simp: insertRequest_def Let_def setTimer_def getDuration_def message.defs frame_intros ex_bool_eq)
  qed
  then obtain b req' st' where r: "insertRequest env tb True (Some req) st = Some (b, Some req', st')"
    "dl_frame COCO_TABLE_DL_NR UNIV (c_heap st) (c_heap st')"
    "mResourceList req' = mResourceList req" "message.truncate req' = message.truncate req" by blast
  from sys_inv_insert[OF env inv nodes new _ r(1)] r show ?thesis by auto
qed

lemma table_remove:
  assumes env: "good_env env" and inv: "sys_inv env (st, us @ (req, xs) # vs) L"
  shows "\<exists>rc st' L'. CocoTable.removeRequest env (Some req) st = Some (rc, st')
    \<and> sys_inv env (st', us @ vs) L' \<and> dl_frame COCO_TABLE_DL_NR UNIV (c_heap st) (c_heap st')"
proof -
  have ci: "coco_inv env st L" and nodes: "request_nodes st req xs" using inv by (auto elim!: sys_invE)
  from removeRequest_removed[OF env ci nodes] sys_inv_slots[OF inv, of req xs] obtain st' where
    r: "CocoTable.removeRequest env (Some req) st = Some (0, st')"
    "dl_frame COCO_TABLE_DL_NR UNIV (c_heap st) (c_heap st')" by auto
  with sys_inv_untune[OF env inv r(1)] show ?thesis by blast
qed

text \<open>A new duration that \<^const>\<open>updateRequest\<close> turns down.\<close>

definition turned_down :: "i64 \<Rightarrow> request \<Rightarrow> bool" where
  "turned_down d tune \<longleftrightarrow> sint d < -1 \<or> (0 < sint d \<and> sint d < sint (getDuration tune))"

lemma table_update:
  assumes inv: "sys_inv env (st, us @ (req, xs) # vs) L" and tm: "getTimer req \<noteq> None \<or> turned_down d req"
  shows "\<exists>b req' st'. updateRequest tb ok (Some req) d st = Some (b, Some req', st')
    \<and> sys_inv env (st', us @ (req', xs) # vs) L \<and> c_heap st' = c_heap st
    \<and> mResourceList req' = mResourceList req \<and> getHandle req' = getHandle req
    \<and> getRequestType req' = getRequestType req \<and> getPriority req' = getPriority req"
proof -
  have "\<exists>b req' st'. updateRequest tb ok (Some req) d st = Some (b, Some req', st')
      \<and> getHandle req' = getHandle req \<and> getRequestType req' = getRequestType req"
    using tm by (auto simp: turned_down_def updateRequest_def Let_def setTimer_def unsetTimer_def setDuration_def message_getters
        split: option.splits)
  then obtain b req' st' where u: "updateRequest tb ok (Some req) d st = Some (b, Some req', st')"
    "getHandle req' = getHandle req" "getRequestType req' = getRequestType req" by blast
  have "coco_inv env st L" using inv by (rule sys_invE)
  from updateRequest_frame[OF u(1) this] sys_inv_retune[OF inv u(1)] u show ?thesis by blast
qed

section \<open>The consumer\<close>

lemma place_disjoint:
  "objects sv (T @ W @ U @ P) \<Longrightarrow> fst ` set T \<inter> fst ` set W = {}"
  unfolding objects_def by auto

lemma consume_tune_inv:
  assumes inv: "core_inv env sv T ((a, xs) # W) U P" and req: "sv_objs sv a = Some req" and ok: "ch_start_ok ch"
  shows "\<exists>sv' T'. consume_tune env ch a req sv = Some sv' \<and> core_inv env sv' T' W U P \<and> sv_queue sv' = sv_queue sv
    \<and> (T' = T \<or> T' = (a, xs) # T) \<and> (\<forall>b. b \<noteq> a \<longrightarrow> sv_objs sv' b = sv_objs sv b)"
proof -
  from inv obtain L where i: "good_env (se_coco env)" "objects sv (T @ ((a, xs) # W) @ U @ P)"
    "sys_inv (se_coco env) (sv_coco sv, tune_objs (sv_objs sv) T) L" "waiting sv ((a, xs) # W)" "others sv U"
    "ledger (sv_objs sv) (sv_rm sv) (fst ` set T) (fst ` set ((a, xs) # W))"
    "clients_ok (sv_clients sv)" "lru_safe (mUntuneCache (sv_rm sv))" "bounded env (sv_rm sv)" by (rule core_invE)
  have o: "objects sv (T @ W @ U @ (a, xs) # P)" using i(2) by (rule objects_perm) simp
  note d = objectsD[OF o[folded append_assoc]]
  have w: "waiting sv W" and nd: "request_nodes (sv_coco sv) req xs" using i(4) req by (auto simp: waiting_def)
  have nT: "a \<notin> fst ` set T" and nW: "a \<notin> fst ` set W" using d(2) by auto
  from ledgerD[OF i(6) _ place_disjoint[OF i(2)] req] nT obtain s where
    s: "map_of (mActiveRequests (sv_rm sv)) (getHandle req) = Some (a, s)" "\<not> has_flag s REQ_COMPLETED" by auto
  have st: "getRequestProcessingStatus (getHandle req) (sv_rm sv) = s"
    using s(1) by (simp add: getRequestProcessingStatus_def)
  show ?thesis
  proof (cases "has_flag s REQ_CANCELLED")
    case True
    from drop_inv[OF i(1) o i(3) w i(5,6)] i(7-9) nT nW obtain sv' where
      "drop_request a sv = Some sv'" "core_inv env sv' T W U P" "sv_queue sv' = sv_queue sv"
      "sv_objs sv' = (sv_objs sv)(a := None)" by auto
    with True st s(2) show ?thesis by (auto simp: consume_tune_def)
  next
    case False
    define rm where "rm = markRequestAsComplete (getHandle req) (sv_rm sv)"
    have "set xs \<inter> set (active_nodes (tune_objs (sv_objs sv) T)) = {}" using d(3) by fastforce
    from table_insert[OF i(1,3) nd this, of "ch_timer_block ch"] ok obtain b req' cs L' where
      ins: "insertRequest (se_coco env) (ch_timer_block ch) (ch_start_ok ch) (Some req) (sv_coco sv) = Some (b, Some req', cs)"
      and tab: "sys_inv (se_coco env) (cs, if b then (req', xs) # tune_objs (sv_objs sv) T else tune_objs (sv_objs sv) T) L'"
      and fr: "dl_frame COCO_TABLE_DL_NR UNIV (c_heap (sv_coco sv)) (c_heap cs)"
      and rq: "mResourceList req' = mResourceList req" "message.truncate req' = message.truncate req" by auto
    define sv1 where "sv1 = sv\<lparr>sv_rm := rm, sv_coco := cs, sv_objs := (sv_objs sv)(a \<mapsto> req')\<rparr>"
    have hd: "getHandle req' = getHandle req" "getRequestType req' = getRequestType req"
      using rq(2) by (simp_all add: message_getters message.defs)
    have obj: "objects sv1 (T @ W @ U @ (a, xs) # P)"
      by (rule objects_frame[OF o]) (use fr rq req in \<open>auto simp: sv1_def\<close>)
    have w1: "waiting sv1 W" by (rule waiting_frame[OF w]) (use fr nW in \<open>auto simp: sv1_def\<close>)
    have "b \<noteq> a" if "(b, ys) \<in> set U" for b ys using d(3)[of b ys] that by simp
    then have o1: "others sv1 U" by (intro others_cong[OF i(5)]) (auto simp: sv1_def)
    have "ledger (sv_objs sv) rm (insert a (fst ` set T)) (fst ` set W)"
      using ledger_complete[OF i(6) _ req] nW by (simp add: rm_def)
    then have led: "ledger (sv_objs sv1) rm (insert a (fst ` set T)) (fst ` set W)"
      by (rule ledger_same) (use req hd in \<open>auto simp: sv1_def\<close>)
    have misc: "clients_ok (sv_clients sv1)" "lru_safe (mUntuneCache (sv_rm sv1))" "bounded env (sv_rm sv1)" "sv_rm sv1 = rm"
      using i(7-9) bounded_set_flag by (auto simp: sv1_def rm_def markRequestAsComplete_def)
    have tun: "tune_objs (sv_objs sv1) T = tune_objs (sv_objs sv) T" using nT by (simp add: sv1_def)
    have step: "consume_tune env ch a req sv = (if b then Some sv1 else drop_request a sv1)"
      using False s(2) st ins by (simp add: consume_tune_def Let_def sv1_def rm_def)
    show ?thesis
    proof (cases b)
      case True
      have "objects sv1 (((a, xs) # T) @ W @ U @ P)" using obj by (rule objects_perm) simp
      moreover have "sys_inv (se_coco env) (sv_coco sv1, tune_objs (sv_objs sv1) ((a, xs) # T)) L'"
        using tab True tun by (simp add: sv1_def)
      ultimately have "core_inv env sv1 ((a, xs) # T) W U P"
        unfolding core_inv_def using i(1) w1 o1 led misc by auto
      with step True show ?thesis by (auto simp: sv1_def)
    next
      case False
      have "sys_inv (se_coco env) (sv_coco sv1, tune_objs (sv_objs sv1) T) L'"
        using tab False tun by (simp add: sv1_def)
      from drop_inv[OF i(1) obj this w1 o1 led[folded misc(4)]] misc nT nW obtain sv' where
        "drop_request a sv1 = Some sv'" "core_inv env sv' T W U P" "sv_queue sv' = sv_queue sv1"
        "sv_objs sv' = (sv_objs sv1)(a := None)" by auto
      with step False show ?thesis by (auto simp: sv1_def)
    qed
  qed
qed

lemma consume_untune_inv:
  assumes inv: "core_inv env sv (us @ (b, ys) # vs) W U ((a, xs) # P)"
  shows "\<exists>sv'. consume_untune env a b sv = Some sv' \<and> core_inv env sv' (us @ vs) W U P \<and> sv_queue sv' = sv_queue sv
    \<and> (\<forall>c. c \<noteq> a \<longrightarrow> c \<noteq> b \<longrightarrow> sv_objs sv' c = sv_objs sv c)"
proof -
  let ?T = "us @ (b, ys) # vs"
  from inv obtain L where i: "good_env (se_coco env)" "objects sv (?T @ W @ U @ (a, xs) # P)"
    "sys_inv (se_coco env) (sv_coco sv, tune_objs (sv_objs sv) ?T) L" "waiting sv W" "others sv U"
    "ledger (sv_objs sv) (sv_rm sv) (fst ` set ?T) (fst ` set W)"
    "clients_ok (sv_clients sv)" "lru_safe (mUntuneCache (sv_rm sv))" "bounded env (sv_rm sv)" by (rule core_invE)
  have o: "objects sv ((us @ vs) @ W @ U @ (a, xs) # (b, ys) # P)" using i(2) by (rule objects_perm) simp
  have ob: "objects sv (((us @ vs) @ W @ U @ [(a, xs)]) @ (b, ys) # P)" using o by simp
  note d = objectsD[OF ob]
  from d(1) obtain tune where tune: "sv_objs sv b = Some tune" by blast
  have nb: "b \<notin> fst ` set (us @ vs)" "b \<notin> fst ` set W" using d(2) by auto
  have "tune_objs (sv_objs sv) ?T = tune_objs (sv_objs sv) us @ (tune, ys) # tune_objs (sv_objs sv) vs"
    by (simp add: tune)
  with table_remove[OF i(1)] i(3) obtain rc cs L' where
    rem: "CocoTable.removeRequest (se_coco env) (Some tune) (sv_coco sv) = Some (rc, cs)"
    and tab: "sys_inv (se_coco env) (cs, tune_objs (sv_objs sv) (us @ vs)) L'"
    and fr: "dl_frame COCO_TABLE_DL_NR UNIV (c_heap (sv_coco sv)) (c_heap cs)" by (metis tune_objs_simps(3))
  obtain cd where cd: "deleteRequestByClientId (getClientTID tune) (getHandle tune) (sv_clients sv) = Some cd" "clients_ok cd"
    using deleteRequestByClientId_ok[OF i(7)] by blast
  define rm where "rm = (sv_rm sv)\<lparr>mActiveRequests := AList.delete (getHandle tune) (mActiveRequests (sv_rm sv))\<rparr>"
  define sv1 where "sv1 = sv\<lparr>sv_coco := cs, sv_rm := rm, sv_clients := cd\<rparr>"
  have "fst ` set ?T - {b} = fst ` set (us @ vs)" "fst ` set W - {b} = fst ` set W" using nb by auto
  then have "ledger (sv_objs sv) rm (fst ` set (us @ vs)) (fst ` set W)"
    using ledger_remove[OF i(6) _ tune] by (simp add: rm_def)
  moreover have "objects sv1 ((us @ vs) @ W @ U @ (a, xs) # (b, ys) # P)"
    by (rule objects_frame[OF o]) (use fr in \<open>simp_all add: sv1_def\<close>)
  moreover have "waiting sv1 W" by (rule waiting_frame[OF i(4)]) (use fr in \<open>simp_all add: sv1_def\<close>)
  moreover have "others sv1 U" using i(5) by (simp add: others_def sv1_def)
  ultimately have "core_inv env sv1 (us @ vs) W U ((a, xs) # (b, ys) # P)"
    unfolding core_inv_def using i(1,8) tab cd(2) bounded_delete[OF i(9)] by (auto simp: sv1_def rm_def)
  from release_inv[OF this] obtain sv2 where
    r2: "release_request a sv1 = Some sv2" "core_inv env sv2 (us @ vs) W U ((b, ys) # P)" "sv_queue sv2 = sv_queue sv1"
    "sv_objs sv2 = (sv_objs sv1)(a := None)" by blast
  from release_inv[OF r2(2)] obtain sv3 where
    r3: "release_request b sv2 = Some sv3" "core_inv env sv3 (us @ vs) W U P" "sv_queue sv3 = sv_queue sv2"
    "sv_objs sv3 = (sv_objs sv2)(b := None)" by blast
  have "consume_untune env a b sv = Some sv3"
    using tune rem cd(1) r2(1) r3(1)
    by (simp add: consume_untune_def RequestManager.removeRequest_def sv1_def rm_def)
  with r2 r3 show ?thesis by (auto simp: sv1_def)
qed

text \<open>Changing the duration of a request in hand or in the table concerns no list.\<close>

lemma request_nodes_fields:
  "request_nodes st req xs \<Longrightarrow> mResourceList req' = mResourceList req \<Longrightarrow> getPriority req' = getPriority req \<Longrightarrow>
     request_nodes st req' xs"
  by (rule request_nodes_req)

lemma setDuration_fields [simp]:
  "mResourceList (setDuration d req) = mResourceList req" "getPriority (setDuration d req) = getPriority req"
  "getHandle (setDuration d req) = getHandle req" "getRequestType (setDuration d req) = getRequestType req"
  by (simp_all add: setDuration_def getPriority_def message_getters)

lemma consume_retune_inv:
  assumes inv: "core_inv env sv T W U ((a, xs) # P)" and m: "map_of (mActiveRequests (sv_rm sv)) (getHandle req) = Some (b, s)"
    and tm: "\<And>tune. has_flag s REQ_COMPLETED \<Longrightarrow> sv_objs sv b = Some tune \<Longrightarrow>
      getTimer tune \<noteq> None \<or> turned_down (getDuration req) tune"
  shows "\<exists>sv'. consume_retune env ch a req b s sv = Some sv' \<and> core_inv env sv' T W U P \<and> sv_queue sv' = sv_queue sv
    \<and> (\<forall>c. c \<noteq> a \<longrightarrow> sv_objs sv c \<noteq> None \<longrightarrow> same_kind (sv_objs sv) (sv_objs sv') c)"
proof -
  from inv obtain L where i: "good_env (se_coco env)" "objects sv (T @ W @ U @ (a, xs) # P)"
    "sys_inv (se_coco env) (sv_coco sv, tune_objs (sv_objs sv) T) L" "waiting sv W" "others sv U"
    "ledger (sv_objs sv) (sv_rm sv) (fst ` set T) (fst ` set W)"
    "clients_ok (sv_clients sv)" "lru_safe (mUntuneCache (sv_rm sv))" "bounded env (sv_rm sv)" by (rule core_invE)
  from ledger_entry[OF i(6) m] obtain tune where tune: "sv_objs sv b = Some tune"
    and bp: "if has_flag s REQ_COMPLETED then b \<in> fst ` set T else b \<in> fst ` set W" by blast
  then have bTW: "b \<in> fst ` set T \<union> fst ` set W" by (auto split: if_splits)
  have dis: "fst ` set T \<inter> fst ` set W = {}" by (rule place_disjoint[OF i(2)])
  have nU: "c \<noteq> b" if "(c, zs) \<in> set U" for c zs
  proof -
    have "fst ` set U \<inter> (fst ` set T \<union> fst ` set W) = {}" using i(2) by (auto simp: objects_def)
    then show ?thesis using that bTW by force
  qed
  have "\<exists>tune' cs. (if \<not> has_flag s REQ_COMPLETED
        then Some (sv\<lparr>sv_objs := (sv_objs sv)(b \<mapsto> setDuration (getDuration req) tune)\<rparr>)
        else map_option (\<lambda>(_, tune', st). sv\<lparr>sv_coco := st, sv_objs := (sv_objs sv)(b := tune')\<rparr>)
          (updateRequest (ch_timer_block ch) (ch_start_ok ch) (Some tune) (getDuration req) (sv_coco sv)))
      = Some (sv\<lparr>sv_coco := cs, sv_objs := (sv_objs sv)(b \<mapsto> tune')\<rparr>)
      \<and> getRequestType tune' = getRequestType tune \<and> getPriority tune' = getPriority tune
      \<and> core_inv env (sv\<lparr>sv_coco := cs, sv_objs := (sv_objs sv)(b \<mapsto> tune')\<rparr>) T W U ((a, xs) # P)"
  proof (cases "has_flag s REQ_COMPLETED")
    case False
    let ?sv = "sv\<lparr>sv_coco := sv_coco sv, sv_objs := (sv_objs sv)(b \<mapsto> setDuration (getDuration req) tune)\<rparr>"
    from False bp dis have nT: "b \<notin> fst ` set T" by auto
    have "objects ?sv (T @ W @ U @ (a, xs) # P)"
      by (rule objects_frame[OF i(2)]) (use tune in \<open>auto simp: frame_intros\<close>)
    moreover have "waiting ?sv W"
      using i(4) request_nodes_fields[of "sv_coco sv" tune _ "setDuration (getDuration req) tune"] tune
      unfolding waiting_def by fastforce
    moreover have "others ?sv U" by (rule others_cong[OF i(5)]) (use nU in auto)
    moreover have "ledger (sv_objs ?sv) (sv_rm sv) (fst ` set T) (fst ` set W)"
      by (rule ledger_same[OF i(6)]) (use tune in auto)
    ultimately have "core_inv env ?sv T W U ((a, xs) # P)"
      unfolding core_inv_def using i(1,3,7-9) nT by auto
    with False show ?thesis by (intro exI[of _ "setDuration (getDuration req) tune"] exI[of _ "sv_coco sv"]) simp
  next
    case True
    with bp obtain ys us vs where T: "T = us @ (b, ys) # vs" by (auto simp: in_set_conv_decomp)
    have eq: "tune_objs (sv_objs sv) T = tune_objs (sv_objs sv) us @ (tune, ys) # tune_objs (sv_objs sv) vs"
      by (simp add: T tune)
    from table_update[OF i(3)[unfolded eq] tm[OF True tune], of "ch_timer_block ch" "ch_start_ok ch"]
    obtain r tune' cs where
      u: "updateRequest (ch_timer_block ch) (ch_start_ok ch) (Some tune) (getDuration req) (sv_coco sv) = Some (r, Some tune', cs)"
      and tab: "sys_inv (se_coco env) (cs, tune_objs (sv_objs sv) us @ (tune', ys) # tune_objs (sv_objs sv) vs) L"
      and hp: "c_heap cs = c_heap (sv_coco sv)" and rl: "mResourceList tune' = mResourceList tune"
      "getHandle tune' = getHandle tune" "getRequestType tune' = getRequestType tune" "getPriority tune' = getPriority tune"
      by blast
    let ?sv = "sv\<lparr>sv_coco := cs, sv_objs := (sv_objs sv)(b \<mapsto> tune')\<rparr>"
    have db: "b \<notin> fst ` set us" "b \<notin> fst ` set vs" "b \<notin> fst ` set W" using i(2) by (auto simp: objects_def T)
    then have "tune_objs (sv_objs ?sv) T = tune_objs (sv_objs sv) us @ (tune', ys) # tune_objs (sv_objs sv) vs"
      by (simp add: T)
    with tab have "sys_inv (se_coco env) (sv_coco ?sv, tune_objs (sv_objs ?sv) T) L" by simp
    moreover have "objects ?sv (T @ W @ U @ (a, xs) # P)"
      by (rule objects_frame[OF i(2)]) (use tune rl hp in \<open>auto simp: frame_intros\<close>)
    moreover have "waiting ?sv W"
      by (rule waiting_frame[OF i(4)]) (use hp db in \<open>auto simp: frame_intros\<close>)
    moreover have "others ?sv U" by (rule others_cong[OF i(5)]) (use nU in auto)
    moreover have "ledger (sv_objs ?sv) (sv_rm sv) (fst ` set T) (fst ` set W)"
      by (rule ledger_same[OF i(6)]) (use tune rl in auto)
    ultimately have "core_inv env ?sv T W U ((a, xs) # P)"
      unfolding core_inv_def using i(1,7-9) by auto
    with True u rl show ?thesis by auto
  qed
  then obtain tune' cs where step: "(if \<not> has_flag s REQ_COMPLETED
        then Some (sv\<lparr>sv_objs := (sv_objs sv)(b \<mapsto> setDuration (getDuration req) tune)\<rparr>)
        else map_option (\<lambda>(_, tune', st). sv\<lparr>sv_coco := st, sv_objs := (sv_objs sv)(b := tune')\<rparr>)
          (updateRequest (ch_timer_block ch) (ch_start_ok ch) (Some tune) (getDuration req) (sv_coco sv)))
      = Some (sv\<lparr>sv_coco := cs, sv_objs := (sv_objs sv)(b \<mapsto> tune')\<rparr>)"
    and kind: "getRequestType tune' = getRequestType tune" "getPriority tune' = getPriority tune"
    and core: "core_inv env (sv\<lparr>sv_coco := cs, sv_objs := (sv_objs sv)(b \<mapsto> tune')\<rparr>) T W U ((a, xs) # P)" by blast
  from release_inv[OF core] obtain sv' where
    r: "release_request a (sv\<lparr>sv_coco := cs, sv_objs := (sv_objs sv)(b \<mapsto> tune')\<rparr>) = Some sv'"
    "core_inv env sv' T W U P" "sv_queue sv' = sv_queue sv" "sv_objs sv' = (sv_objs sv)(b \<mapsto> tune', a := None)" by auto
  have "consume_retune env ch a req b s sv = Some sv'"
    unfolding consume_retune_def tune Option.bind.simps step by (rule r(1))
  moreover have "same_kind (sv_objs sv) (sv_objs sv') c" if "c \<noteq> a" "sv_objs sv c \<noteq> None" for c
    using that r(4) kind tune by (cases "c = b") (auto simp: same_kind_def)
  ultimately show ?thesis using r by blast
qed

text \<open>
  One message of the queue. The only fault left is a retune of a request in the table that has no
  timer, which \<open>retune_ok\<close> excludes.
\<close>

definition retune_ok :: "server \<Rightarrow> addr \<Rightarrow> bool" where
  "retune_ok sv a \<longleftrightarrow>
     (\<forall>req b s tune. sv_objs sv a = Some req \<longrightarrow> getRequestType req = REQ_RESOURCE_RETUNING \<longrightarrow>
        map_of (mActiveRequests (sv_rm sv)) (getHandle req) = Some (b, s) \<longrightarrow> has_flag s REQ_COMPLETED \<longrightarrow>
        sv_objs sv b = Some tune \<longrightarrow> getTimer tune \<noteq> None \<or> turned_down (getDuration req) tune)"

lemma consume_request_inv:
  assumes inv: "core_inv env sv T W U P" and m: "(a, xs) \<in> set (W @ U)" and rt: "retune_ok sv a"
    and start: "\<And>req. sv_objs sv a = Some req \<Longrightarrow> getRequestType req = REQ_RESOURCE_TUNING \<Longrightarrow> ch_start_ok ch"
  shows "\<exists>sv' T' W' U' P'. consume_request env ch a sv = Some sv' \<and> core_inv env sv' T' W' U' P'
    \<and> mset (W @ U) = add_mset (a, xs) (mset (W' @ U')) \<and> sv_queue sv' = sv_queue sv \<and> set P \<subseteq> set P'
    \<and> (\<forall>(c, zs)\<in>set (W' @ U'). same_kind (sv_objs sv) (sv_objs sv') c) \<and> set T' \<subseteq> set T \<union> set W
    \<and> set W' \<subseteq> set W"
proof (cases "(a, xs) \<in> set W")
  case True
  then obtain W' where W: "mset W = mset ((a, xs) # W')"
    by (metis ex_mset insert_DiffM mset.simps(2) set_mset_mset)
  have c: "core_inv env sv T ((a, xs) # W') U P" by (rule core_inv_perm[OF inv]) (simp_all add: W)
  from c obtain req where req: "sv_objs sv a = Some req" "getRequestType req = REQ_RESOURCE_TUNING"
    unfolding core_inv_def by (elim conjE) (drule ledger_object[of _ _ _ _ a], auto)
  from consume_tune_inv[OF c req(1) start[OF req]] obtain sv' T' where
    r: "consume_tune env ch a req sv = Some sv'" "core_inv env sv' T' W' U P" "sv_queue sv' = sv_queue sv"
    "T' = T \<or> T' = (a, xs) # T" "\<And>c. c \<noteq> a \<Longrightarrow> sv_objs sv' c = sv_objs sv c" by blast
  have "objects sv (T @ ((a, xs) # W') @ U @ P)" using c by (simp add: core_inv_def)
  then have o: "objects sv ([] @ (a, xs) # T @ W' @ U @ P)" by (rule objects_perm) simp
  have "same_kind (sv_objs sv) (sv_objs sv') c" if "(c, zs) \<in> set (W' @ U)" for c zs
  proof (rule same_kind_refl)
    have m: "(c, zs) \<in> set ([] @ T @ W' @ U @ P)" using that by auto
    then show "sv_objs sv c \<noteq> None" using objectsD(4)[OF o] unfolding objects_def by blast
    show "sv_objs sv' c = sv_objs sv c" using objectsD(3)[OF o m] r(5) by blast
  qed
  moreover have "set W = insert (a, xs) (set W')" using W by (metis set_mset_mset list.simps(15))
  ultimately show ?thesis using req W r True
    by (intro exI[of _ sv'] exI[of _ T'] exI[of _ W'] exI[of _ U] exI[of _ P]) (auto simp: consume_request_def)
next
  case False
  with m have "(a, xs) \<in> set U" by simp
  then obtain U' where U: "mset U = mset ((a, xs) # U')"
    by (metis ex_mset insert_DiffM mset.simps(2) set_mset_mset)
  have c: "core_inv env sv T W ((a, xs) # U') P" by (rule core_inv_perm[OF inv]) (simp_all add: U)
  then have o: "others sv ((a, xs) # U')" by (simp add: core_inv_def)
  then obtain req where req: "sv_objs sv a = Some req" "getRequestType req \<noteq> REQ_RESOURCE_TUNING"
    by (auto simp: others_def)
  have "objects sv (T @ W @ ((a, xs) # U') @ P)" using c by (simp add: core_inv_def)
  then have "objects sv (T @ W @ U' @ (a, xs) # P)" by (rule objects_perm) simp
  moreover have "others sv U'" using o by (simp add: others_def)
  ultimately have c: "core_inv env sv T W U' ((a, xs) # P)" using c by (auto simp: core_inv_def)
  have obj: "objects sv ((T @ W @ U') @ (a, xs) # P)" using c by (simp add: core_inv_def)
  have other: "c \<noteq> a \<and> sv_objs sv c \<noteq> None \<and> c \<notin> fst ` set T" if "(c, zs) \<in> set (W @ U')" for c zs
  proof -
    have "c \<noteq> a" using objectsD(3)[OF obj, of c zs] that by auto
    moreover have "(c, zs) \<in> set ((T @ W @ U') @ (a, xs) # P)" using that by auto
    then have "sv_objs sv c \<noteq> None" using obj unfolding objects_def by blast
    moreover have "distinct (map fst ((T @ W @ U') @ (a, xs) # P))" using obj unfolding objects_def by blast
    then have "fst ` set T \<inter> fst ` set (W @ U') = {}" by auto
    then have "c \<notin> fst ` set T" using that by force
    ultimately show ?thesis by blast
  qed
  have finish: ?thesis if "consume_request env ch a sv = Some sv'" "core_inv env sv' T' W U' P'" "sv_queue sv' = sv_queue sv"
    "set P \<subseteq> set P'" "set T' \<subseteq> set T"
    "\<And>c. c \<noteq> a \<Longrightarrow> sv_objs sv c \<noteq> None \<Longrightarrow> c \<notin> fst ` set T \<Longrightarrow> same_kind (sv_objs sv) (sv_objs sv') c" for sv' T' P'
  proof -
    have "\<forall>(c, zs)\<in>set (W @ U'). same_kind (sv_objs sv) (sv_objs sv') c" using other that(6) by blast
    with that(1-5) U show ?thesis
      by (intro exI[of _ sv'] exI[of _ T'] exI[of _ W] exI[of _ U'] exI[of _ P']) auto
  qed
  obtain sv1 where r1: "release_request a sv = Some sv1" "core_inv env sv1 T W U' P" "sv_queue sv1 = sv_queue sv"
    "sv_objs sv1 = (sv_objs sv)(a := None)"
    using release_inv[OF c] by blast
  have k1: "same_kind (sv_objs sv) (sv_objs sv1) c" if "c \<noteq> a" "sv_objs sv c \<noteq> None" for c
    using that r1(4) by (intro same_kind_refl) simp_all
  show ?thesis
  proof (cases "map_of (mActiveRequests (sv_rm sv)) (getHandle req)")
    case None
    then have "consume_request env ch a sv = Some sv1"
      using req r1(1) by (simp add: consume_request_def getRequestFromMap_def)
    then show ?thesis using r1 k1 by (intro finish[of sv1 T P]) simp_all
  next
    case (Some p)
    obtain b s where p: "p = (b, s)" by (cases p)
    with Some have mp: "map_of (mActiveRequests (sv_rm sv)) (getHandle req) = Some (b, s)" by simp
    have led: "ledger (sv_objs sv) (sv_rm sv) (fst ` set T) (fst ` set W)" using c by (simp add: core_inv_def)
    note e = ledger_entry[OF led mp]
    have step: "consume_request env ch a sv =
        (if getRequestType req = REQ_RESOURCE_UNTUNING then
           (if \<not> has_flag s REQ_COMPLETED then release_request a sv else consume_untune env a b sv)
         else if getRequestType req = REQ_RESOURCE_RETUNING then consume_retune env ch a req b s sv
         else Some sv)"
      using req mp e by (simp add: consume_request_def getRequestFromMap_def)
    consider "getRequestType req = REQ_RESOURCE_UNTUNING" "\<not> has_flag s REQ_COMPLETED"
      | "getRequestType req = REQ_RESOURCE_UNTUNING" "has_flag s REQ_COMPLETED"
      | "getRequestType req = REQ_RESOURCE_RETUNING" "getRequestType req \<noteq> REQ_RESOURCE_UNTUNING"
      | "getRequestType req \<noteq> REQ_RESOURCE_UNTUNING" "getRequestType req \<noteq> REQ_RESOURCE_RETUNING" by blast
    then show ?thesis
    proof cases
      case 1
      then show ?thesis using step r1 k1 by (intro finish[of sv1 T P]) simp_all
    next
      case 2
      with e obtain ys us vs where T: "T = us @ (b, ys) # vs" by (auto simp: in_set_conv_decomp)
      from consume_untune_inv[OF c[unfolded T]] obtain sv' where
        "consume_untune env a b sv = Some sv'" "core_inv env sv' (us @ vs) W U' P" "sv_queue sv' = sv_queue sv"
        "\<And>c. c \<noteq> a \<Longrightarrow> c \<noteq> b \<Longrightarrow> sv_objs sv' c = sv_objs sv c" by blast
      with 2 step T show ?thesis
        by (intro finish[of sv' "us @ vs" P]) (auto intro!: same_kind_refl)
    next
      case 3
      have "\<And>tune. has_flag s REQ_COMPLETED \<Longrightarrow> sv_objs sv b = Some tune \<Longrightarrow>
          getTimer tune \<noteq> None \<or> turned_down (getDuration req) tune"
        using rt req(1) 3(1) mp unfolding retune_ok_def by blast
      from consume_retune_inv[OF c mp this, of ch] obtain sv' where
        "consume_retune env ch a req b s sv = Some sv'" "core_inv env sv' T W U' P" "sv_queue sv' = sv_queue sv"
        "\<And>c. c \<noteq> a \<Longrightarrow> sv_objs sv c \<noteq> None \<Longrightarrow> same_kind (sv_objs sv) (sv_objs sv') c" by blast
      with 3 step show ?thesis by (intro finish[of sv' T P]) simp_all
    next
      case 4
      then show ?thesis using step c by (intro finish[of sv T "(a, xs) # P"]) (auto intro: same_kind_refl)
    qed
  qed
qed

section \<open>Draining the queue\<close>

text \<open>What a round may rely on: a timer starts, and a request that is retuned in the table has a timer.\<close>

definition timer_starts :: "choice \<Rightarrow> server \<Rightarrow> bool" where
  "timer_starts ch sv \<longleftrightarrow>
     (\<forall>a req. next_request ch sv = Some (a, req) \<longrightarrow> getRequestType req = REQ_RESOURCE_TUNING \<longrightarrow> ch_start_ok ch)"

definition retune_timed :: "choice \<Rightarrow> server \<Rightarrow> bool" where
  "retune_timed ch sv \<longleftrightarrow> (\<forall>a req. next_request ch sv = Some (a, req) \<longrightarrow> retune_ok sv a)"

definition no_trigger :: "server \<Rightarrow> bool" where
  "no_trigger sv \<longleftrightarrow> (\<forall>x\<in>set (mOrderedQueue (sv_queue sv)).
     item_priority (sv_objs sv) x \<noteq> Some (sint SERVER_CLEANUP_TRIGGER_PRIORITY))"

lemma queue_addrs_mem: "QRequest a \<in> set items \<Longrightarrow> a \<in> set (queue_addrs items)"
  by (force simp: queue_addrs_def)

lemma queue_addrs_simps [simp]:
  "queue_addrs [] = []" "queue_addrs (us @ vs) = queue_addrs us @ queue_addrs vs"
  "queue_addrs (QRequest a # vs) = a # queue_addrs vs" "queue_addrs (QMessage m # vs) = queue_addrs vs"
  by (simp_all add: queue_addrs_def)

lemma queued_mem: "queued sv Q \<Longrightarrow> QRequest a \<in> set (mOrderedQueue (sv_queue sv)) \<Longrightarrow> \<exists>xs. (a, xs) \<in> set Q"
proof -
  assume q: "queued sv Q" and m: "QRequest a \<in> set (mOrderedQueue (sv_queue sv))"
  from q have "set (queue_addrs (mOrderedQueue (sv_queue sv))) = set (map fst Q)"
    unfolding queued_def by (metis set_mset_mset)
  with queue_addrs_mem[OF m] show ?thesis by force
qed

lemma core_objs: "core_inv env sv T W U P \<Longrightarrow> (a, xs) \<in> set (T @ W @ U @ P) \<Longrightarrow> sv_objs sv a \<noteq> None"
  unfolding core_inv_def objects_def by blast

lemma server_queue_inv:
  assumes "server_inv env sv T W U P" shows "queue_inv (sv_objs sv) (sv_queue sv)"
proof -
  have q: "queued sv (W @ U)" and c: "core_inv env sv T W U P" using assms by (auto simp: server_inv_def)
  have "item_priority (sv_objs sv) x \<noteq> None" if m: "x \<in> set (mOrderedQueue (sv_queue sv))" for x
  proof (cases x)
    case (QRequest a)
    with queued_mem[OF q] m obtain xs where "(a, xs) \<in> set (W @ U)" by blast
    with core_objs[OF c, of a xs] QRequest show ?thesis by (auto simp: item_priority_def)
  qed (simp add: item_priority_def)
  with q show ?thesis by (auto simp: queue_inv_def queued_def)
qed

lemma waiting_priority:
  assumes "core_inv env sv T W U P" "(a, xs) \<in> set W"
  shows "item_priority (sv_objs sv) (QRequest a) \<noteq> Some (sint SERVER_CLEANUP_TRIGGER_PRIORITY)"
proof -
  from assms obtain req where "sv_objs sv a = Some req" "request_nodes (sv_coco sv) req xs"
    unfolding core_inv_def waiting_def by blast
  then show ?thesis by (auto simp: item_priority_def request_nodes_def SERVER_CLEANUP_TRIGGER_PRIORITY_def)
qed

lemma mset_map_fst_remove:
  "mset ys = add_mset (a, xs) (mset zs) \<Longrightarrow> mset (map fst ys) = add_mset a (mset (map fst zs))"
  by simp

lemma consumer_round_inv:
  assumes inv: "server_inv env sv T W U P" and start: "timer_starts ch sv" and rt: "retune_timed ch sv"
  shows "\<exists>r T' W' U' P'. consumer_round env ch sv = Some r \<and> server_inv env (next_state r) T' W' U' P' \<and>
    (no_trigger sv \<longrightarrow> (case r of Again sv' \<Rightarrow> no_trigger sv' | Done _ \<Rightarrow> W' = [] \<and> U' = []))"
proof (cases "mOrderedQueue (sv_queue sv) = []")
  case True
  then have "mElementCount (sv_queue sv) = 0" "W = []" "U = []" using inv by (auto simp: server_inv_def queued_def)
  then have "consumer_round env ch sv = Some (Done sv)" by (simp add: consumer_round_def hasPendingTasks_def)
  with inv \<open>W = []\<close> \<open>U = []\<close> show ?thesis by (intro exI[of _ "Done sv"]) auto
next
  case ne: False
  let ?q = "sv_queue sv"
  have core: "core_inv env sv T W U P" and que: "queued sv (W @ U)" using inv by (auto simp: server_inv_def)
  have qi: "queue_inv (sv_objs sv) ?q" by (rule server_queue_inv[OF inv])
  from pop_spec[OF qi ne, of "ch_tie ch"] obtain us x vs where
    q: "mOrderedQueue ?q = us @ x # vs"
    and pop: "pop (ch_tie ch) (sv_objs sv) ?q
      = Some (Some x, ?q\<lparr>mOrderedQueue := us @ vs, mElementCount := int (length (us @ vs))\<rparr>)" by blast
  define sv1 where "sv1 = sv\<lparr>sv_queue := ?q\<lparr>mOrderedQueue := us @ vs, mElementCount := int (length (us @ vs))\<rparr>\<rparr>"
  have core1: "core_inv env sv1 T W U P" using core by (simp add: sv1_def)
  have "mElementCount ?q > 0" using que ne by (simp add: queued_def)
  then have pend: "hasPendingTasks ?q" by (simp add: hasPendingTasks_def)
  obtain p where p: "item_priority (sv_objs sv) x = Some p" using qi q by (auto simp: queue_inv_def)
  have step: "consumer_round env ch sv =
      (if p = sint SERVER_CLEANUP_TRIGGER_PRIORITY then Some (Done sv1)
       else case x of QMessage _ \<Rightarrow> Some (Again sv1) | QRequest a \<Rightarrow> map_option Again (consume_request env ch a sv1))"
    using pend pop p by (cases x) (simp_all add: consumer_round_def sv1_def Let_def)
  have x_mem: "x \<in> set (mOrderedQueue ?q)" using q by simp
  have trig: "\<not> no_trigger sv" if "p = sint SERVER_CLEANUP_TRIGGER_PRIORITY"
    using that p x_mem by (auto simp: no_trigger_def)
  have nt1: "no_trigger sv \<Longrightarrow> no_trigger sv1" by (simp add: no_trigger_def sv1_def q)
  show ?thesis
  proof (cases x)
    case (QMessage m)
    have inv1: "server_inv env sv1 T W U P" using core1 que q QMessage by (simp add: server_inv_def queued_def sv1_def)
    show ?thesis
    proof (cases "p = sint SERVER_CLEANUP_TRIGGER_PRIORITY")
      case True
      with step inv1 trig show ?thesis by (intro exI[of _ "Done sv1"]) auto
    next
      case False
      with step inv1 nt1 QMessage show ?thesis by (intro exI[of _ "Again sv1"]) auto
    qed
  next
    case (QRequest a)
    with queued_mem[OF que] x_mem obtain xs where a: "(a, xs) \<in> set (W @ U)" by blast
    have adr: "add_mset a (mset (queue_addrs (us @ vs))) = mset (map fst (W @ U))"
      using que q QRequest by (simp add: queued_def)
    show ?thesis
    proof (cases "p = sint SERVER_CLEANUP_TRIGGER_PRIORITY")
      case True
      with waiting_priority[OF core, of a xs] p QRequest a have "(a, xs) \<in> set U" by auto
      then obtain U' where U: "mset U = mset ((a, xs) # U')"
        by (metis ex_mset insert_DiffM mset.simps(2) set_mset_mset)
      have "core_inv env sv1 T W ((a, xs) # U') P" by (rule core_inv_perm[OF core1]) (simp_all add: U)
      then have "objects sv1 (T @ W @ ((a, xs) # U') @ P)" "others sv1 ((a, xs) # U')" and c: "core_inv env sv1 T W ((a, xs) # U') P"
        by (auto simp: core_inv_def)
      then have "objects sv1 (T @ W @ U' @ (a, xs) # P)" "others sv1 U'"
        by (auto simp: others_def intro: objects_perm)
      then have "core_inv env sv1 T W U' ((a, xs) # P)" using c by (auto simp: core_inv_def)
      moreover have "mset (map fst (W @ U)) = add_mset a (mset (map fst (W @ U')))"
        by (rule mset_map_fst_remove) (simp add: U)
      with adr have "mset (queue_addrs (us @ vs)) = mset (map fst (W @ U'))" by simp
      then have "queued sv1 (W @ U')" by (simp add: queued_def sv1_def)
      ultimately have "server_inv env sv1 T W U' ((a, xs) # P)" by (simp add: server_inv_def)
      then show ?thesis using True step trig
        by (intro exI[of _ "Done sv1"] exI[of _ T] exI[of _ W] exI[of _ U'] exI[of _ "(a, xs) # P"]) auto
    next
      case False
      from a have "(a, xs) \<in> set (T @ W @ U @ P)" by auto
      with core_objs[OF core] obtain req where req: "sv_objs sv a = Some req" by blast
      have next_r: "next_request ch sv = Some (a, req)" using pop QRequest req p False by (auto simp: next_request_def item_priority_def)
      have "retune_ok sv1 a" using rt next_r by (simp add: retune_timed_def retune_ok_def sv1_def)
      moreover have "sv_objs sv1 a = Some r \<Longrightarrow> getRequestType r = REQ_RESOURCE_TUNING \<Longrightarrow> ch_start_ok ch" for r
        using start next_r req by (simp add: timer_starts_def sv1_def)
      ultimately obtain sv2 T2 W2 U2 P2 where
        c: "consume_request env ch a sv1 = Some sv2" "core_inv env sv2 T2 W2 U2 P2"
        "mset (W @ U) = add_mset (a, xs) (mset (W2 @ U2))" "sv_queue sv2 = sv_queue sv1"
        "\<forall>(c, zs)\<in>set (W2 @ U2). same_kind (sv_objs sv1) (sv_objs sv2) c"
        using consume_request_inv[OF core1 a] by blast
      have "mset (queue_addrs (us @ vs)) = mset (map fst (W2 @ U2))"
        using adr mset_map_fst_remove[OF c(3)] by simp
      then have que2: "queued sv2 (W2 @ U2)" using c(4) by (simp add: queued_def sv1_def)
      then have inv2: "server_inv env sv2 T2 W2 U2 P2" using c(2) by (simp add: server_inv_def)
      have "no_trigger sv2" if nt: "no_trigger sv"
        unfolding no_trigger_def
      proof
        fix y assume y: "y \<in> set (mOrderedQueue (sv_queue sv2))"
        then have ym: "y \<in> set (mOrderedQueue ?q)" using c(4) q by (auto simp: sv1_def)
        show "item_priority (sv_objs sv2) y \<noteq> Some (sint SERVER_CLEANUP_TRIGGER_PRIORITY)"
        proof (cases y)
          case (QRequest b)
          with queued_mem[OF que2] y obtain zs where "(b, zs) \<in> set (W2 @ U2)" by blast
          with c(5) have "same_kind (sv_objs sv) (sv_objs sv2) b" by (auto simp: sv1_def)
          then have "item_priority (sv_objs sv2) y = item_priority (sv_objs sv) y"
            using QRequest by (auto simp: same_kind_def item_priority_def)
          with nt ym show ?thesis by (simp add: no_trigger_def)
        qed (use nt ym in \<open>auto simp: no_trigger_def item_priority_def\<close>)
      qed
      then show ?thesis using False step QRequest c(1) inv2 by (intro exI[of _ "Again sv2"]) auto
    qed
  qed
qed

text \<open>The fault that remains: a retune of a request in the table that has no timer.\<close>

lemma untimed_retune_faults:
  assumes inv: "server_inv env sv T W U P" and rt: "\<not> retune_timed ch sv"
  shows "consumer_round env ch sv = None"
proof -
  from rt obtain a req where n: "next_request ch sv = Some (a, req)" and nr: "\<not> retune_ok sv a"
    by (auto simp: retune_timed_def)
  from n obtain q where pop: "pop (ch_tie ch) (sv_objs sv) (sv_queue sv) = Some (Some (QRequest a), q)" and req: "sv_objs sv a = Some req"
    and pr: "getPriority req \<noteq> SERVER_CLEANUP_TRIGGER_PRIORITY"
    by (auto simp: next_request_def split: option.splits queue_item.splits if_splits)
  from nr req obtain b s tune where r: "getRequestType req = REQ_RESOURCE_RETUNING"
    "map_of (mActiveRequests (sv_rm sv)) (getHandle req) = Some (b, s)" "has_flag s REQ_COMPLETED"
    "sv_objs sv b = Some tune" "getTimer tune = None" "\<not> turned_down (getDuration req) tune" by (auto simp: retune_ok_def)
  have core: "core_inv env sv T W U P" and qi: "queue_inv (sv_objs sv) (sv_queue sv)"
    using inv server_queue_inv[OF inv] by (auto simp: server_inv_def)
  then have "ledger (sv_objs sv) (sv_rm sv) (fst ` set T) (fst ` set W)" by (simp add: core_inv_def)
  from ledger_entry[OF this r(2)] have nf: "\<not> has_flag s REQ_NOT_FOUND" by simp
  have up: "updateRequest tb ok (Some tune) (getDuration req) st = None" for tb ok st
    using r(5,6) by (auto simp: updateRequest_def turned_down_def)
  let ?sv = "sv\<lparr>sv_queue := q\<rparr>"
  have "consume_request env ch a ?sv = None"
    using req r nf up by (simp add: consume_request_def getRequestFromMap_def consume_retune_def
        REQ_RESOURCE_TUNING_def REQ_RESOURCE_RETUNING_def REQ_RESOURCE_UNTUNING_def)
  moreover have "mOrderedQueue (sv_queue sv) \<noteq> []" "mElementCount (sv_queue sv) \<noteq> 0"
    using pop by (auto simp: pop_def split: option.splits list.splits if_splits)
  then have "hasPendingTasks (sv_queue sv)" using qi by (simp add: hasPendingTasks_def queue_inv_def)
  moreover have "sint (getPriority req) \<noteq> sint SERVER_CLEANUP_TRIGGER_PRIORITY" using pr signed_word_eqI by blast
  ultimately show ?thesis using pop req by (simp add: consumer_round_def item_priority_def)
qed

end
