(* ===== verification/ServerArrival.thy ===== *)
theory ServerArrival
  imports ServerInv
begin

text \<open>
  What an arriving request does to the server: every path through
  \<^verbatim>\<open>processIncomingRequest\<close> is defined and keeps the invariant, and the request ends
  accepted and queued, queued to act on an accepted one, or released.
\<close>

section \<open>Clients\<close>

lemma time_difference_defined: "0 \<le> sint a \<Longrightarrow> 0 \<le> sint b \<Longrightarrow> time_difference a b \<noteq> None"
  using sint_lt[of a] sint_lt[of b] by (simp add: time_difference_def Let_def)

lemma rate_limit_ok:
  assumes cd: "clients_ok cd" and now: "0 \<le> sint now"
  shows "\<exists>b cd'. isRateLimitHonored fl rc now t cd = Some (b, cd') \<and> clients_ok cd'
    \<and> (\<forall>u. known_thread cd u \<longrightarrow> known_thread cd' u)"
proof (cases "mClientTidRepo cd t")
  case None
  then show ?thesis using cd
    by (simp add: isRateLimitHonored_def shouldBeProcessed_def getHealthByClientID_def ex_bool_eq)
next
  case (Some d)
  with clients_okD[OF cd] obtain e where e: "mClientTidRepo cd t = Some (Some e)" "0 \<le> sint (mLastRequestTimestamp e)"
    by blast
  from time_difference_defined[OF now e(2)] obtain df where df: "time_difference now (mLastRequestTimestamp e) = Some df"
    by blast
  define hl where "hl = (if mLastRequestTimestamp e \<noteq> 0 then new_health fl rc (mHealth e) df else mHealth e)"
  define cd1 where "cd1 = cd\<lparr>mClientTidRepo := (mClientTidRepo cd)(t \<mapsto> Some (e\<lparr>mHealth := hl\<rparr>))\<rparr>"
  define cd2 where "cd2 = cd1\<lparr>mClientTidRepo := (mClientTidRepo cd1)(t \<mapsto> Some (e\<lparr>mHealth := hl, mLastRequestTimestamp := now\<rparr>))\<rparr>"
  have "clients_ok cd1" unfolding cd1_def by (rule clients_ok_update[OF cd]) (simp add: e)
  then have "clients_ok cd2" unfolding cd2_def by (rule clients_ok_update) (simp add: now)
  moreover have "known_thread cd u \<Longrightarrow> known_thread cd1 u \<and> known_thread cd2 u" for u
    by (auto simp: known_thread_def cd1_def cd2_def)
  moreover have "isRateLimitHonored fl rc now t cd =
      (if mHealth e \<le> 0 then Some (False, cd) else if hl \<le> 0 then Some (False, cd1) else Some (True, cd2))"
    using e(1) df
    by (simp add: isRateLimitHonored_def shouldBeProcessed_def getHealthByClientID_def getLastRequestTimestampByClientID_def
        updateHealthByClientID_def updateLastRequestTimestampByClientID_def hl_def cd1_def cd2_def)
  ultimately show ?thesis using cd \<open>clients_ok cd1\<close> by auto
qed

lemma createNewClient_ok:
  assumes "clients_ok cd" "createNewClient tid_ok info_ok perm pid tid cd = (b, cd')"
  shows "clients_ok cd'" "b \<Longrightarrow> mClientTidRepo cd' tid \<noteq> None"
proof -
  have 1: "clients_ok (cd\<lparr>mClientTidRepo := (mClientTidRepo cd)(tid \<mapsto> Some \<lparr>mClientHandles = [], mLastRequestTimestamp = 0, mHealth = 100\<rparr>)\<rparr>)"
    by (rule clients_ok_update[OF assms(1)]) simp
  have 2: "clients_ok (cd\<lparr>mClientTidRepo := f, mClientRepo := r\<rparr>) = clients_ok (cd\<lparr>mClientTidRepo := f\<rparr>)" for f r
    by (simp add: clients_ok_def)
  show "clients_ok cd'" using assms 1
    by (auto simp: createNewClient_def Let_def 2 split: if_splits option.splits)
  show "b \<Longrightarrow> mClientTidRepo cd' tid \<noteq> None" using assms(2)
    by (auto simp: createNewClient_def Let_def clientExists_def split: if_splits option.splits)
qed

lemma client_checks_ok:
  assumes "clients_ok (sv_clients sv)"
  shows "\<exists>cd. clients_ok cd \<and> (client_checks env ar req sv = Inl (sv\<lparr>sv_clients := cd\<rparr>)
    \<or> client_checks env ar req sv = Inr (sv\<lparr>sv_clients := cd\<rparr>) \<and> known_thread cd (getClientTID req))"
proof -
  obtain b cd where c: "createNewClient (ar_tid_block ar) (ar_info_block ar) (ar_permission ar)
      (getClientPID req) (getClientTID req) (sv_clients sv) = (b, cd)" by fastforce
  note n = createNewClient_ok[OF assms c]
  have self: "sv = sv\<lparr>sv_clients := sv_clients sv\<rparr>" by simp
  show ?thesis
  proof (cases "isGlobalRateLimitHonored (se_maxConcurrentRequests env) (getActiveReqeustsCount (sv_rm sv))")
    case False
    then show ?thesis using assms self by (auto simp: client_checks_def)
  next
    case True
    show ?thesis
    proof (cases "clientExists (getClientPID req) (getClientTID req) (sv_clients sv)")
      case ex: True
      then have "known_thread (sv_clients sv) (getClientTID req)"
        using clients_known[OF assms] by (simp add: clientExists_def)
      with True ex assms self show ?thesis by (intro exI[of _ "sv_clients sv"]) (simp add: client_checks_def)
    next
      case ex: False
      with True c n clients_known[of cd] show ?thesis by (intro exI[of _ cd]) (auto simp: client_checks_def)
    qed
  qed
qed

section \<open>Untunes seen early\<close>

lemma disable_ok:
  assumes inv: "core_inv env sv T W U P"
  shows "\<exists>b rm. disableRequestProcessing h (sv_rm sv) = Some (b, rm) \<and> core_inv env (sv\<lparr>sv_rm := rm\<rparr>) T W U P
    \<and> (b \<longrightarrow> verifyHandle h rm)"
proof (cases "map_of (mActiveRequests (sv_rm sv)) h")
  case None
  have "lru_safe (mUntuneCache (sv_rm sv))" using inv by (simp add: core_inv_def)
  then obtain c where "lru_insert h (mUntuneCache (sv_rm sv)) = Some c" "lru_safe c" using lru_safe_insert by blast
  with inv None show ?thesis
    by (auto simp: disableRequestProcessing_def core_inv_def objects_def waiting_def others_def ledger_def bounded_def)
next
  case (Some p)
  let ?rm = "set_flag h REQ_CANCELLED (sv_rm sv)"
  from inv have "ledger (sv_objs sv) ?rm (fst ` set T) (fst ` set W)" "bounded env ?rm"
    using ledger_cancel bounded_set_flag by (auto simp: core_inv_def)
  with inv have "core_inv env (sv\<lparr>sv_rm := ?rm\<rparr>) T W U P"
    by (auto simp: core_inv_def objects_def waiting_def others_def)
  moreover have "verifyHandle h ?rm" using Some by (simp add: verifyHandle_def map_of_set_flag)
  ultimately show ?thesis using Some by (simp add: disableRequestProcessing_def ex_bool_eq)
qed

section \<open>Verification\<close>

text \<open>The number range of every known cluster fits the code's integers.\<close>

definition target_ok :: "target \<Rightarrow> bool" where
  "target_ok T \<longleftrightarrow> (\<forall>p c. map_of (mPhysicalClusters T) p = Some (Some c) \<longrightarrow>
     0 \<le> mStartCpu c \<and> mStartCpu c + mNumCpus c < 2 ^ 31)"

lemma getClusterInfo_target_ok:
  assumes "target_ok T" "getClusterInfo p T = (i, T')"
  shows "target_ok T'" "i = Some c \<Longrightarrow> 0 \<le> mStartCpu c \<and> mStartCpu c + mNumCpus c < 2 ^ 31"
  using assms by (auto simp: target_ok_def getClusterInfo_def at_or_null_def update_conv' split: option.splits if_splits)

lemma getPhysicalCoreId_ok:
  assumes "target_ok T"
  shows "\<exists>r T'. getPhysicalCoreId lc k T = Some (r, T') \<and> target_ok T'"
proof (cases "mPhysicalClusters T = [] \<or> map_of (mLogicalToPhysicalClusterMapping T) lc = None")
  case True
  then show ?thesis using assms by (auto simp: getPhysicalCoreId_def)
next
  case False
  then obtain p where p: "mPhysicalClusters T \<noteq> []" "map_of (mLogicalToPhysicalClusterMapping T) lc = Some p" by blast
  obtain i T' where i: "getClusterInfo p T = (i, T')" by (metis surj_pair)
  note ok = getClusterInfo_target_ok[OF assms i]
  show ?thesis
  proof (cases i)
    case (Some c)
    have "arith 32 (mStartCpu c + k) = Some (mStartCpu c + k) \<and> arith 32 (mStartCpu c + k - 1) = Some (mStartCpu c + k - 1)"
      if "0 < k" "k \<le> mNumCpus c" using ok(2)[OF Some] that by (simp add: arith32_ok)
    with p i Some ok(1) show ?thesis by (auto simp: getPhysicalCoreId_def)
  qed (use p i ok(1) in \<open>simp add: getPhysicalCoreId_def\<close>)
qed

lemma performPhysicalMapping_ok:
  assumes "target_ok T"
  shows "\<exists>m T'. performPhysicalMapping c k T = Some (m, T') \<and> target_ok T'"
  using getPhysicalCoreId_ok[OF assms, of k c] assms by (auto simp: performPhysicalMapping_def Let_def)

text \<open>The checks may redirect a resource or mark it to be skipped; its values stay.\<close>

definition redirected :: "resource \<Rightarrow> resource \<Rightarrow> bool" where
  "redirected r r' \<longleftrightarrow> mResCode r' = mResCode r \<and> mOptionalInfo r' = mOptionalInfo r
     \<and> mNumValues r' = mNumValues r \<and> mResValue r' = mResValue r"

lemma redirected_intros:
  "redirected r r" "redirected r (setResAction act r)"
  "redirected r s \<Longrightarrow> redirected r (setCoreValue i s)" "redirected r s \<Longrightarrow> redirected r (setClusterValue i s)"
  by (simp_all add: redirected_def setResAction_def setCoreValue_def setClusterValue_def)

lemma redirected_trans: "redirected a b \<Longrightarrow> redirected b c \<Longrightarrow> redirected a c"
  by (simp add: redirected_def)

lemma redirected_value: "redirected r r' \<Longrightarrow> getValueAt r' i = getValueAt r i"
  by (simp add: redirected_def getValueAt_def)

lemma redirected_readable: "redirected r r' \<Longrightarrow> readable r' = readable r"
  using redirected_value[of r r'] by (simp add: readable_def redirected_def)

lemma translate_ok:
  assumes "target_ok T" "getResConf rr (mResCode r) = Some c"
  shows "\<exists>rc r' T'. translateToPhysicalIDs rr r T = Some (rc, r', T') \<and> target_ok T' \<and> redirected r r'"
proof -
  obtain m T' where m: "performPhysicalMapping (sint (getCoreValue r)) (sint (getClusterValue r)) T = Some (m, T')"
    "target_ok T'" using performPhysicalMapping_ok[OF assms(1)] by blast
  have one: "\<exists>rc r' T''. Some (case m of
      Some (a, k) \<Rightarrow> (RC_SUCCESS, setClusterValue (word_of_int k) (setCoreValue (word_of_int a) r), T')
    | None \<Rightarrow> if mPolicy c \<noteq> PASS_THROUGH then (RC_INVALID_VALUE, r, T')
        else (RC_SUCCESS, setClusterValue (word_of_int (sint (getClusterValue r)))
               (setCoreValue (word_of_int (sint (getCoreValue r))) r), T'))
      = Some (rc, r', T'') \<and> target_ok T'' \<and> redirected r r'"
    using m(2) by (auto simp: redirected_intros split: option.splits)
  show ?thesis
    using assms m one by (cases "mApplyType c") (auto simp: translateToPhysicalIDs_def Let_def intro: redirected_intros)
qed

lemma verify_resource_ok:
  assumes T: "target_ok T" and r: "readable r"
  shows "\<exists>fwd r' T'. verify_resource rr cp r T = Some (fwd, r', T') \<and> target_ok T' \<and> redirected r r'"
proof (cases "getResConf rr (mResCode r)")
  case None
  then show ?thesis using T by (auto simp: verify_resource_def intro: redirected_intros)
next
  case (Some c)
  obtain v where v: "getValueAt r 0 = Some v" using readable_getValueAt[OF r] by blast
  obtain rc r' T' where t: "translateToPhysicalIDs rr r T = Some (rc, r', T')" "target_ok T'" "redirected r r'"
    using translate_ok[OF T Some] by blast
  have "redirected r (setResAction RES_SKIP r')" using t(3) by (rule redirected_trans) (rule redirected_intros)
  with Some v t T show ?thesis by (auto simp: verify_resource_def intro: redirected_intros)
qed

definition redirected_nodes :: "addr list \<Rightarrow> res_heap \<Rightarrow> res_heap \<Rightarrow> bool" where
  "redirected_nodes xs h h' \<longleftrightarrow> (\<forall>a. a \<notin> set xs \<longrightarrow> h' a = h a) \<and>
     (\<forall>a\<in>set xs. \<exists>nd d. h a = Some nd \<and> h' a = Some (nd\<lparr>mData := d\<rparr>) \<and> redirected (mData nd) d)"

lemma redirected_nodes_links: "redirected_nodes xs h h' \<Longrightarrow> links h' a k = links h a k"
  by (cases "a \<in> set xs") (auto simp: redirected_nodes_def links_def)

lemma redirected_nodes_req_ok:
  assumes "redirected_nodes xs h h'" "req_ok h req xs"
  shows "req_ok h' req xs"
proof -
  have "dl_list h l xs \<Longrightarrow> dl_list h' l xs" for l
    by (rule dl_list_cong[of xs h' _ h]) (simp_all add: redirected_nodes_links[OF assms(1)])
  then have "req_list h' req xs" using assms(2) by (auto simp: req_ok_def req_list_def split: option.splits)
  moreover have "\<exists>r. dl_data h' a = Some r \<and> readable r" if a: "a \<in> set xs" for a
  proof -
    from assms(1) a obtain nd d where "h a = Some nd" "h' a = Some (nd\<lparr>mData := d\<rparr>)" "redirected (mData nd) d"
      unfolding redirected_nodes_def by blast
    with assms(2) a show ?thesis
      using redirected_readable[of "mData nd" d] by (auto simp: req_ok_def nodes_readable_iff dl_data_def)
  qed
  ultimately show ?thesis by (simp add: req_ok_def nodes_readable_iff)
qed

lemma redirected_nodes_step:
  assumes "redirected_nodes xs h0 h" "a \<in> set xs" "h a = Some nd" "redirected (mData nd) d"
  shows "redirected_nodes xs h0 (h(a \<mapsto> nd\<lparr>mData := d\<rparr>))"
  using assms redirected_trans unfolding redirected_nodes_def by (auto; fastforce)

lemma redirected_nodes_refl: "nodes_readable h xs \<Longrightarrow> redirected_nodes xs h h"
proof -
  assume rd: "nodes_readable h xs"
  have "\<exists>nd d. h a = Some nd \<and> h a = Some (nd\<lparr>mData := d\<rparr>) \<and> redirected (mData nd) d" if a: "a \<in> set xs" for a
  proof -
    from rd a obtain nd where "h a = Some nd" by (fastforce simp: nodes_readable_iff dl_data_def)
    then show ?thesis by (intro exI[of _ nd] exI[of _ "mData nd"]) (simp add: redirected_intros)
  qed
  then show ?thesis by (simp add: redirected_nodes_def)
qed

lemma verify_loop:
  assumes l: "dl_list h l xs" and rd: "nodes_readable h xs" and T: "target_ok T"
  shows "\<exists>h' T' n. dl_iterate (mLinkerInUse l) fst (verify_body rr cp) (mHead l) (h, T, 0) = Some (h', T', n)
    \<and> target_ok T' \<and> redirected_nodes xs h h'"
proof -
  define J where "J ys s \<longleftrightarrow> set ys \<subseteq> set xs \<and> target_ok (fst (snd s)) \<and> redirected_nodes xs h (fst s)"
    for ys and s :: "res_heap \<times> target \<times> nat"
  have seg: "dseg (fst (h, T, 0::nat)) (mLinkerInUse l) None xs None" "mLinkerInUse l < 2" "mHead l = first_ptr xs None"
    using l by (auto simp: dl_list_def)
  have "redirected_nodes xs h h" using rd by (rule redirected_nodes_refl)
  with T have J0: "J xs (h, T, 0)" by (simp add: J_def)
  have step: "\<exists>t. verify_body rr cp y s = Some t \<and> J ys t \<and> (\<forall>b. links (fst t) b (mLinkerInUse l) = links (fst s) b (mLinkerInUse l))"
    if j: "J (y # ys) s" for y ys s
  proof -
    obtain h1 T1 n where s: "s = (h1, T1, n)" by (cases s)
    from j s have y: "y \<in> set xs" "target_ok T1" "redirected_nodes xs h h1" "set ys \<subseteq> set xs" by (auto simp: J_def)
    then obtain nd d where nd: "h y = Some nd" "h1 y = Some (nd\<lparr>mData := d\<rparr>)" "redirected (mData nd) d"
      unfolding redirected_nodes_def by blast
    have "readable d" using rd y(1) nd redirected_readable by (auto simp: nodes_readable_iff dl_data_def)
    from verify_resource_ok[OF y(2) this, of rr cp] obtain fwd r' T' where
      v: "verify_resource rr cp d T1 = Some (fwd, r', T')" "target_ok T'" "redirected d r'" by blast
    have "redirected_nodes xs h (h1(y \<mapsto> nd\<lparr>mData := r'\<rparr>))"
      using redirected_nodes_step[OF y(3,1) nd(2)] v(3) by simp
    moreover have "links (h1(y \<mapsto> nd\<lparr>mData := r'\<rparr>)) b k = links h1 b k" for b k
      using nd by (simp add: links_def)
    ultimately show ?thesis using v y nd s by (auto simp: verify_body_def J_def)
  qed
  from dl_iterate_progress[where hp = fst and J = J and body = "verify_body rr cp", OF seg(1,2) J0 step] obtain t where
    "dl_iterate (mLinkerInUse l) fst (verify_body rr cp) (mHead l) (h, T, 0) = Some t" "J [] t"
    unfolding seg(3) by blast
  then show ?thesis by (cases t) (auto simp: J_def)
qed

lemma priority_or_range:
  fixes p q :: i8
  assumes "0 \<le> sint p" "sint p < 4" "0 \<le> sint q" "sint q < 4"
  shows "0 \<le> sint (p OR q)" "sint (p OR q) < 4"
proof -
  have "x \<in> {0, 1, 2, 3}" if "0 \<le> sint x" "sint x < 4" for x :: i8
  proof -
    from that consider "sint x = 0" | "sint x = 1" | "sint x = 2" | "sint x = 3" by force
    then have "sint x = sint (0 :: i8) \<or> sint x = sint (1 :: i8) \<or> sint x = sint (2 :: i8) \<or> sint x = sint (3 :: i8)"
      by cases simp_all
    then show ?thesis by (simp only: word_eq_iff_signed[symmetric] insert_iff empty_iff simp_thms)
  qed
  with assms have pq: "p \<in> {0, 1, 2, 3}" "q \<in> {0, 1, 2, 3}" by blast+
  then show "0 \<le> sint (p OR q)" "sint (p OR q) < 4" by auto
qed

lemma low_byte_or: "ucast ((a OR b) AND mask 8 :: i32) = (ucast (a AND mask 8) OR ucast (b AND mask 8) :: i8)"
  by (rule bit_eqI) (auto simp: bit_simps)

lemma priority_ored: "getPriority (setPriority q m) = getPriority m OR q"
proof -
  have m: "push_bit 8 1 - 1 = (mask 8 :: i32)" by (simp add: mask_eq_exp_minus_1)
  have "ucast (scast q AND mask 8 :: i32) = (q :: i8)"
    by (rule bit_eqI) (auto simp: bit_simps)
  then show ?thesis unfolding getPriority_def setPriority_def m by (simp add: low_byte_or)
qed

lemma priority_keeps_mode: "getPriority (addProcessingMode x m) = getPriority m"
proof -
  have m: "push_bit 8 1 - 1 = (mask 8 :: i32)" by (simp add: mask_eq_exp_minus_1)
  have "ucast (push_bit 8 y AND mask 8 :: i32) = (0 :: i8)" for y
    by (rule bit_eqI) (auto simp: bit_simps)
  then show ?thesis unfolding getPriority_def addProcessingMode_def m by (simp add: low_byte_or)
qed

lemma getRequestPriority_range:
  "getRequestPriority c p \<noteq> -1 \<Longrightarrow> 0 \<le> sint (getRequestPriority c p) \<and> sint (getRequestPriority c p) < 4"
  unfolding getRequestPriority_def SYSTEM_HIGH_def SYSTEM_LOW_def THIRD_PARTY_HIGH_def THIRD_PARTY_LOW_def
  by (simp split: if_split_asm)

definition verified_as :: "request \<Rightarrow> request \<Rightarrow> bool" where
  "verified_as req req' \<longleftrightarrow> (\<exists>ps. req' = req\<lparr>mProperties := ps\<rparr>)"

lemma verified_as_intros:
  "verified_as req req" "verified_as req (addProcessingMode x req)"
  "verified_as req req' \<Longrightarrow> verified_as req (setPriority p req')"
  by (auto simp: verified_as_def addProcessingMode_def setPriority_def intro: exI[of _ "mProperties req"])

lemma VerifyIncomingRequest_ok:
  assumes r: "req_ok h req xs" and T: "target_ok T"
  shows "\<exists>b req' h' T'. VerifyIncomingRequest env cd req h T = Some (b, req', h', T') \<and> target_ok T' \<and>
    redirected_nodes xs h h' \<and> verified_as req req' \<and>
    (b \<longrightarrow> mResourceList req' \<noteq> None \<and> 0 \<le> sint (getPriority req') \<and> sint (getPriority req') < 4)"
proof -
  define p where "p = getRequestPriority (getClientLevelByID (getClientPID req) cd) (getPriority req)"
  define req1 where "req1 = addProcessingMode MODE_RESUME req"
  define req2 where "req2 = setPriority p req1"
  have eqs: "getPriority req1 = getPriority req" "getClientPID req1 = getClientPID req"
    "getDuration req1 = getDuration req" "getPriority req2 = getPriority req OR p"
    "getResDlMgr req2 = mResourceList req" "mResourceList req2 = mResourceList req"
    by (simp_all add: req1_def req2_def priority_keeps_mode priority_ored getResDlMgr_def
        getClientPID_def getDuration_def)
      (simp_all add: addProcessingMode_def setPriority_def)
  have va: "verified_as req req1" "verified_as req req2" by (simp_all add: req1_def req2_def verified_as_intros)
  have nr: "nodes_readable h xs" using r by (simp add: req_ok_def)
  note refl = redirected_nodes_refl[OF nr] verified_as_intros(1)
  show ?thesis
  proof (cases "mResourceList req")
    case None
    then show ?thesis using refl T va eqs
      by (auto simp: VerifyIncomingRequest_def Let_def simp flip: req1_def p_def req2_def)
  next
    case (Some l)
    then have "dl_list h l xs" using r by (simp add: req_ok_def req_list_def)
    from verify_loop[OF this nr T] obtain h' T' n where
      lp: "dl_iterate (mLinkerInUse l) fst (verify_body (ce_registry env) (getClientLevelByID (getClientPID req) cd)) (mHead l) (h, T, 0) = Some (h', T', n)"
      "target_ok T'" "redirected_nodes xs h h'" by blast
    have rng: "0 \<le> sint (getPriority req OR p) \<and> sint (getPriority req OR p) < 4"
      if "p \<noteq> -1" "\<not> sint THIRD_PARTY_LOW < sint (getPriority req)" "\<not> sint (getPriority req) < sint SYSTEM_HIGH"
      using that getRequestPriority_range[of "getClientLevelByID (getClientPID req) cd" "getPriority req"]
        priority_or_range[of "getPriority req" p] by (simp add: p_def THIRD_PARTY_LOW_def SYSTEM_HIGH_def)
    show ?thesis using refl T va eqs lp rng Some
      by (auto simp: VerifyIncomingRequest_def Let_def simp flip: req1_def p_def req2_def)
  qed
qed

section \<open>Where a request goes\<close>

lemma server_inv_clients:
  "server_inv env sv T W U P \<Longrightarrow> clients_ok cd \<Longrightarrow> server_inv env (sv\<lparr>sv_clients := cd\<rparr>) T W U P"
  by (simp add: server_inv_def core_inv_clients queued_def)

lemma server_inv_target [simp]:
  "server_inv env (sv\<lparr>sv_target := t\<rparr>) T W U P = server_inv env sv T W U P"
  by (simp add: server_inv_def queued_def)

lemma server_inv_parts:
  assumes "server_inv env sv T W U P"
  shows "core_inv env sv T W U P" "clients_ok (sv_clients sv)" "queued sv (W @ U)"
  using assms by (auto simp: server_inv_def core_inv_def)

lemma held_req:
  assumes "server_inv env sv T W U ((a, xs) # P)"
  shows "\<exists>req. sv_objs sv a = Some req \<and> req_ok (c_heap (sv_coco sv)) req xs"
  using objectsD(1)[of sv "T @ W @ U" a xs P] assms by (simp add: server_inv_def core_inv_def)

lemma release_done:
  assumes "server_inv env sv T W U ((a, xs) # P)"
  shows "\<exists>sv'. release_request a sv = Some sv' \<and> server_inv env sv' T W U P \<and> sv_target sv' = sv_target sv"
  using release_inv[of env sv T W U a xs P] assms by (auto simp: server_inv_def queued_def)

lemma core_inv_queue_other:
  assumes inv: "core_inv env sv T W U ((a, xs) # P)" and r: "sv_objs sv a = Some req" "getRequestType req \<noteq> REQ_RESOURCE_TUNING"
  shows "core_inv env sv T W ((a, xs) # U) P"
proof -
  have "objects sv (T @ W @ U @ (a, xs) # P)" using inv by (simp add: core_inv_def)
  then have "objects sv (T @ W @ ((a, xs) # U) @ P)" by (rule objects_perm) simp
  with inv r show ?thesis by (auto simp: core_inv_def others_def)
qed

lemma enqueue_other:
  assumes inv: "server_inv env sv T W U ((a, xs) # P)"
    and r: "sv_objs sv a = Some req" "getRequestType req \<noteq> REQ_RESOURCE_TUNING"
  shows "\<exists>sv'. enqueue a sv = Some sv' \<and> sv_target sv' = sv_target sv \<and>
    (if sint (getPriority req) < sint SERVER_CLEANUP_TRIGGER_PRIORITY then server_inv env sv' T W U ((a, xs) # P)
     else server_inv env sv' T W ((a, xs) # U) P)"
proof -
  have c: "core_inv env sv T W ((a, xs) # U) P"
    using core_inv_queue_other[OF _ r] inv by (auto simp: server_inv_def)
  show ?thesis
  proof (cases "sint (getPriority req) < sint SERVER_CLEANUP_TRIGGER_PRIORITY")
    case True
    then have "enqueue a sv = Some (sv\<lparr>sv_queue := sv_queue sv\<rparr>)"
      using r by (simp add: enqueue_def addAndWakeup_def item_priority_def)
    with True inv show ?thesis by simp
  next
    case False
    let ?q = "(sv_queue sv)\<lparr>mOrderedQueue := mOrderedQueue (sv_queue sv) @ [QRequest a],
      mElementCount := mElementCount (sv_queue sv) + 1\<rparr>"
    have "enqueue a sv = Some (sv\<lparr>sv_queue := ?q\<rparr>)"
      using r False by (simp add: enqueue_def addAndWakeup_def item_priority_def)
    moreover have "server_inv env (sv\<lparr>sv_queue := ?q\<rparr>) T W ((a, xs) # U) P"
      using c inv by (auto simp: server_inv_def queued_def)
    ultimately show ?thesis using False by simp
  qed
qed

text \<open>The request map is sound in the sense of the test for duplicates.\<close>

definition nodes_in :: "held \<Rightarrow> addr \<Rightarrow> addr list" where
  "nodes_in H a = (case map_of H a of None \<Rightarrow> [] | Some xs \<Rightarrow> xs)"

lemma inv_map_sound:
  assumes "core_inv env sv T W U P"
  shows "map_sound (c_heap (sv_coco sv)) (sv_objs sv) (nodes_in (T @ W)) (sv_rm sv)"
  unfolding map_sound_def
proof (intro ballI, clarify)
  fix h a s assume m: "(h, a, s) \<in> set (mActiveRequests (sv_rm sv))"
  have b: "distinct (map fst (mActiveRequests (sv_rm sv)))" and o: "objects sv (T @ W @ U @ P)"
    and led: "ledger (sv_objs sv) (sv_rm sv) (fst ` set T) (fst ` set W)"
    using assms by (auto simp: core_inv_def bounded_def)
  from m b have "map_of (mActiveRequests (sv_rm sv)) h = Some (a, s)" by simp
  from ledger_entry[OF led this] have e: "\<not> has_flag s REQ_NOT_FOUND" "a \<in> fst ` set (T @ W)"
    by (auto split: if_splits)
  have "has_flag REQ_NOT_FOUND REQ_NOT_FOUND" by (simp add: has_flag_def REQ_NOT_FOUND_def)
  with e(1) have "s \<noteq> REQ_NOT_FOUND" by blast
  have "distinct (map fst (T @ W))" using o unfolding objects_def by auto
  from e(2) obtain xs where m: "(a, xs) \<in> set (T @ W)" unfolding image_iff by (metis prod.collapse)
  from map_of_is_SomeI[OF \<open>distinct (map fst (T @ W))\<close> m] have x: "(a, xs) \<in> set (T @ W)" "nodes_in (T @ W) a = xs"
    using m by (simp_all add: nodes_in_def del: map_of_append)
  have "(a, xs) \<in> set (T @ W @ U @ P)" using x(1) by auto
  with o have "\<exists>req. sv_objs sv a = Some req \<and> req_ok (c_heap (sv_coco sv)) req xs" unfolding objects_def by blast
  with x \<open>s \<noteq> REQ_NOT_FOUND\<close> show "s \<noteq> REQ_NOT_FOUND \<and>
      (\<exists>target. sv_objs sv a = Some target \<and> req_ok (c_heap (sv_coco sv)) target (nodes_in (T @ W) a))" by simp
qed

lemma readable_node_for:
  assumes "req_ok (c_heap st) req xs" "mResourceList req \<noteq> None" "0 \<le> sint (getPriority req)" "sint (getPriority req) < 4"
  shows "request_nodes st req xs"
proof -
  have "\<exists>r. node_for st n r" if n: "n \<in> set xs" for n
  proof -
    from assms(1) n obtain r where r: "dl_data (c_heap st) n = Some r" "readable r"
      by (auto simp: req_ok_def nodes_readable_iff)
    with readable_getValueAt[OF r(2)] show ?thesis by (auto simp: node_for_def comparable_def compared_value_def)
  qed
  with assms show ?thesis by (simp add: request_nodes_def req_ok_def)
qed

text \<open>Admission: accepted and queued under a fresh handle, or released.\<close>

lemma admit_reject:
  assumes inv: "server_inv env sv T W U ((a, xs) # P)"
    and n: "addToRequestManager (se_maxConcurrentRequests env) a sv = Some (False, sv\<lparr>sv_clients := cd\<rparr>)" "clients_ok cd"
  shows "\<exists>sv'. admit env a sv = Some sv' \<and> server_inv env sv' T W U P \<and> sv_target sv' = sv_target sv"
  using release_done[OF server_inv_clients[OF inv n(2)]] n(1) by (auto simp: admit_def)

lemma accept_inv:
  assumes inv: "server_inv env sv T W U ((a, xs) # P)" and r: "sv_objs sv a = Some req"
    and tune: "getRequestType req = REQ_RESOURCE_TUNING" "known_thread (sv_clients sv) (getClientTID req)"
    and fresh: "map_of (mActiveRequests (sv_rm sv)) (getHandle req) = None"
    and prio: "0 \<le> sint (getPriority req)" "sint (getPriority req) < 4" "mResourceList req \<noteq> None"
    and room: "length (mActiveRequests (sv_rm sv)) < unat (se_maxConcurrentRequests env)"
    and new: "\<not> isPresent (getHandle req) (mUntuneCache (sv_rm sv))"
    and add: "addRequest (unat (se_maxConcurrentRequests env)) (a, req) (sv_rm sv) (sv_clients sv) = (b, rm, cd)"
  shows "b \<and> core_inv env (sv\<lparr>sv_rm := rm, sv_clients := cd\<rparr>) T ((a, xs) # W) U P"
proof -
  have c: "core_inv env sv T W U ((a, xs) # P)" using inv by (simp add: server_inv_def)
  then have o: "objects sv (T @ W @ U @ (a, xs) # P)" by (simp add: core_inv_def)
  have ok: "req_ok (c_heap (sv_coco sv)) req xs" using held_req[OF inv] r by auto
  have "mActiveRequests rm = AList.update (getHandle req) (a, REQ_UNCHANGED) (mActiveRequests (sv_rm sv))"
    "mUntuneCache rm = mUntuneCache (sv_rm sv)" "b" "cd = insertRequestByClientId (getClientTID req) (getHandle req) (sv_clients sv)"
    using add fresh room new by (auto simp: addRequest_def Let_def)
  note rm = this
  have led: "ledger (sv_objs sv) rm (fst ` set T) (insert a (fst ` set W))"
    using c by (intro ledger_add[of "sv_objs sv" "sv_rm sv", OF _ r tune(1) fresh rm(1)]) (simp add: core_inv_def)
  have cok: "clients_ok cd" unfolding rm(4) using c tune(2) by (intro insertRequestByClientId_ok) (simp_all add: core_inv_def)
  have "getHandle req \<notin> fst ` set (mActiveRequests (sv_rm sv))" using fresh by (simp add: map_of_eq_None_iff)
  then have bnd: "bounded env rm"
    using c room by (auto simp: core_inv_def bounded_def rm(1) length_update distinct_update)
  have "objects sv (T @ ((a, xs) # W) @ U @ P)" using o by (rule objects_perm) simp
  then have obj: "objects (sv\<lparr>sv_rm := rm, sv_clients := cd\<rparr>) (T @ ((a, xs) # W) @ U @ P)" by (simp add: objects_def)
  have "waiting (sv\<lparr>sv_rm := rm, sv_clients := cd\<rparr>) ((a, xs) # W)"
    using c r readable_node_for[OF ok prio(3,1,2)] by (auto simp: core_inv_def waiting_def)
  with c led cok bnd obj rm(2,3) show ?thesis
    by (auto simp: core_inv_def others_def)
qed

lemma admit_ok:
  assumes inv: "server_inv env sv T W U ((a, xs) # P)" and r: "sv_objs sv a = Some req"
    and prio: "sint (getPriority req) < 4"
    and other: "\<not> is_untune_or_retune req"
    and tune: "getRequestType req = REQ_RESOURCE_TUNING \<Longrightarrow> known_thread (sv_clients sv) (getClientTID req)
      \<and> map_of (mActiveRequests (sv_rm sv)) (getHandle req) = None"
  shows "\<exists>sv'. admit env a sv = Some sv' \<and> sv_target sv' = sv_target sv
    \<and> (server_inv env sv' T W U P \<or> server_inv env sv' T ((a, xs) # W) U P)"
proof -
  have c: "core_inv env sv T W U ((a, xs) # P)" using inv by (simp add: server_inv_def)
  have ok: "req_ok (c_heap (sv_coco sv)) req xs" using held_req[OF inv] r by auto
  let ?n = "unat (se_maxConcurrentRequests env)"
  have self: "sv = sv\<lparr>sv_clients := sv_clients sv\<rparr>" by simp
  have cok: "clients_ok (sv_clients sv)" using c by (simp add: core_inv_def)
  have rej: ?thesis if "shouldRequestBeAdded ?n (c_heap (sv_coco sv)) (sv_objs sv) (Some req) (sv_rm sv) (sv_clients sv)
      = Some (False, sv_clients sv)"
  proof -
    have "addToRequestManager (se_maxConcurrentRequests env) a sv = Some (False, sv\<lparr>sv_clients := sv_clients sv\<rparr>)"
      using that r by (simp add: addToRequestManager_def)
    from admit_reject[OF inv this cok] show ?thesis by auto
  qed
  show ?thesis
  proof (cases "getRequestType req = REQ_RESOURCE_TUNING")
    case False
    then have "isSane (c_heap (sv_coco sv)) (Some req) = Some False"
      using other by (simp add: isSane_def is_untune_or_retune_def)
    then show ?thesis by (intro rej) (simp add: shouldRequestBeAdded_def)
  next
    case True
    note tn = tune[OF True]
    note spec = shouldRequestBeAdded_spec[OF inv_map_sound[OF c] ok conjunct1[OF tn] True, of ?n]
    show ?thesis
    proof (cases "shouldRequestBeAdded ?n (c_heap (sv_coco sv)) (sv_objs sv) (Some req) (sv_rm sv) (sv_clients sv)
      = Some (False, sv_clients sv)")
      case True
      then show ?thesis by (rule rej)
    next
      case False
      then have yes: "shouldRequestBeAdded ?n (c_heap (sv_coco sv)) (sv_objs sv) (Some req) (sv_rm sv) (sv_clients sv)
        = Some (True, sv_clients sv)" "mResourceList req \<noteq> None" "0 \<le> sint (getPriority req)"
        "length (mActiveRequests (sv_rm sv)) < ?n"
        using spec by (auto simp: getResDlMgr_def)
      obtain b rm cd where add: "addRequest ?n (a, req) (sv_rm sv) (sv_clients sv) = (b, rm, cd)" by (metis prod_cases3)
      show ?thesis
      proof (cases "isPresent (getHandle req) (mUntuneCache (sv_rm sv))")
        case True
        with add tn yes(4) have "\<not> b" "rm = sv_rm sv" "cd = sv_clients sv"
          by (auto simp: addRequest_def Let_def)
        then have "addToRequestManager (se_maxConcurrentRequests env) a sv = Some (False, sv\<lparr>sv_clients := sv_clients sv\<rparr>)"
          using yes(1) add r by (simp add: addToRequestManager_def)
        from admit_reject[OF inv this cok] show ?thesis by auto
      next
        case False
        from accept_inv[OF inv r True _ _ yes(3) prio yes(2) yes(4) False add] tn
        have acc: "b" "core_inv env (sv\<lparr>sv_rm := rm, sv_clients := cd\<rparr>) T ((a, xs) # W) U P" by auto
        let ?q = "(sv_queue sv)\<lparr>mOrderedQueue := mOrderedQueue (sv_queue sv) @ [QRequest a],
          mElementCount := mElementCount (sv_queue sv) + 1\<rparr>"
        have "admit env a sv = Some (sv\<lparr>sv_rm := rm, sv_clients := cd, sv_queue := ?q\<rparr>)"
          using yes(1,3) add acc(1) r
          by (simp add: admit_def addToRequestManager_def enqueue_def addAndWakeup_def item_priority_def
              SERVER_CLEANUP_TRIGGER_PRIORITY_def)
        moreover have "server_inv env (sv\<lparr>sv_rm := rm, sv_clients := cd, sv_queue := ?q\<rparr>) T ((a, xs) # W) U P"
          using acc(2) inv
          by (auto simp: server_inv_def queued_def)
        ultimately show ?thesis by auto
      qed
    qed
  qed
qed

section \<open>Processing an arrival\<close>

lemma verified_inv:
  assumes inv: "server_inv env sv T W U ((a, xs) # P)" and r: "sv_objs sv a = Some req"
    and h: "redirected_nodes xs (c_heap (sv_coco sv)) h'" and v: "verified_as req req'"
  shows "server_inv env (sv\<lparr>sv_objs := (sv_objs sv)(a \<mapsto> req'), sv_coco := (sv_coco sv)\<lparr>c_heap := h'\<rparr>, sv_target := t\<rparr>)
    T W U ((a, xs) # P)"
proof -
  have c: "core_inv env sv T W U ((a, xs) # P)" and q: "queued sv (W @ U)" using inv by (auto simp: server_inv_def)
  then have o: "objects sv ((T @ W @ U) @ (a, xs) # P)" by (simp add: core_inv_def)
  note d = objectsD[OF o]
  from d(1) r have ok: "req_ok (c_heap (sv_coco sv)) req xs" by simp
  have "req_ok h' req xs" by (rule redirected_nodes_req_ok[OF h ok])
  then have ok': "req_ok h' req' xs" using v by (auto simp: verified_as_def req_ok_def req_list_def)
  have same: "h' n = c_heap (sv_coco sv) n" if "(b, ys) \<in> set (T @ W @ U @ P)" "n \<in> set ys" for b ys n
    using d(3)[of b ys] that h by (auto simp: redirected_nodes_def)
  have "core_inv env (sv\<lparr>sv_objs := (sv_objs sv)(a \<mapsto> req'), sv_coco := (sv_coco sv)\<lparr>c_heap := h'\<rparr>\<rparr>) T W U ((a, xs) # P)"
    by (rule hold_inv[OF core_inv_drop[OF c] _ d(5) _ _ ok']) (use d(2,3) same in auto)
  with q show ?thesis by (simp add: server_inv_def queued_def)
qed

text \<open>What an arrival has to satisfy: a tune request carries a handle nobody has.\<close>

definition arrival_ok :: "arrival \<Rightarrow> bool \<Rightarrow> request \<Rightarrow> server \<Rightarrow> bool" where
  "arrival_ok ar isValidated req sv \<longleftrightarrow> 0 \<le> sint (ar_now ar) \<and> target_ok (sv_target sv) \<and>
     (isValidated \<and> \<not> is_untune_or_retune req \<longrightarrow> sint (getPriority req) < 4) \<and>
     (getRequestType req = REQ_RESOURCE_TUNING \<longrightarrow> map_of (mActiveRequests (sv_rm sv)) (getHandle req) = None)"

text \<open>The four ends of a request.\<close>

definition settled ::
    "server_env \<Rightarrow> server \<Rightarrow> held \<Rightarrow> held \<Rightarrow> held \<Rightarrow> held \<Rightarrow> addr \<times> addr list \<Rightarrow> bool" where
  "settled env sv T W U P p \<longleftrightarrow>
     server_inv env sv T W U P \<or> server_inv env sv T (p # W) U P \<or> server_inv env sv T W (p # U) P
     \<or> server_inv env sv T W U (p # P)"

lemma processed_tail:
  assumes inv: "server_inv env sv T W U ((a, xs) # P)" and r: "sv_objs sv a = Some req"
    and now: "0 \<le> sint (ar_now ar)" and tg: "target_ok (sv_target sv)"
    and val: "isValidated \<Longrightarrow> \<not> is_untune_or_retune req \<Longrightarrow> sint (getPriority req) < 4"
    and tune: "getRequestType req = REQ_RESOURCE_TUNING \<Longrightarrow> known_thread (sv_clients sv) (getClientTID req)
      \<and> map_of (mActiveRequests (sv_rm sv)) (getHandle req) = None"
    and run: "run = do {
          (honored, cd) \<leftarrow> (if isValidated then Some (True, sv_clients sv)
             else isRateLimitHonored (se_rounding env) (se_rate env) (ar_now ar) (getClientTID req) (sv_clients sv));
          let sv = sv\<lparr>sv_clients := cd\<rparr>;
          (if \<not> honored then release_request a sv
           else if is_untune_or_retune req then
             (if verifyHandle (getHandle req) (sv_rm sv) then enqueue a sv else release_request a sv)
           else if isValidated then admit env a sv
           else do {
             (valid, req, h, T) \<leftarrow> VerifyIncomingRequest (se_coco env) (sv_clients sv) req
               (c_heap (sv_coco sv)) (sv_target sv);
             let sv = sv\<lparr>sv_objs := (sv_objs sv)(a \<mapsto> req), sv_coco := (sv_coco sv)\<lparr>c_heap := h\<rparr>, sv_target := T\<rparr>;
             (if valid then admit env a sv else release_request a sv) }) }"
  shows "\<exists>sv'. run = Some sv' \<and> target_ok (sv_target sv') \<and> settled env sv' T W U P (a, xs)"
proof -
  have cok: "clients_ok (sv_clients sv)" using inv by (simp add: server_inv_def core_inv_def)
  obtain honored cd where cd: "(if isValidated then Some (True, sv_clients sv)
      else isRateLimitHonored (se_rounding env) (se_rate env) (ar_now ar) (getClientTID req) (sv_clients sv)) = Some (honored, cd)"
    "clients_ok cd" "\<forall>u. known_thread (sv_clients sv) u \<longrightarrow> known_thread cd u"
    using rate_limit_ok[OF cok now, of "se_rounding env" "se_rate env" "getClientTID req"] cok by (cases isValidated) auto
  define sv1 where "sv1 = sv\<lparr>sv_clients := cd\<rparr>"
  have inv1: "server_inv env sv1 T W U ((a, xs) # P)" unfolding sv1_def by (rule server_inv_clients[OF inv cd(2)])
  have eq1: "sv_objs sv1 a = Some req" "sv_target sv1 = sv_target sv" "sv_rm sv1 = sv_rm sv" "sv_clients sv1 = cd"
    by (simp_all add: sv1_def r)
  have rel: "\<exists>sv'. release_request a sv2 = Some sv' \<and> target_ok (sv_target sv') \<and> settled env sv' T W U P (a, xs)"
    if "server_inv env sv2 T W U ((a, xs) # P)" "target_ok (sv_target sv2)" for sv2
    using release_done[OF that(1)] that(2) by (auto simp: settled_def)
  have adm: "\<exists>sv'. admit env a sv2 = Some sv' \<and> target_ok (sv_target sv') \<and> settled env sv' T W U P (a, xs)"
    if "server_inv env sv2 T W U ((a, xs) # P)" "target_ok (sv_target sv2)" "sv_objs sv2 a = Some req2" "sint (getPriority req2) < 4"
      "verified_as req req2" "\<not> is_untune_or_retune req" "sv_rm sv2 = sv_rm sv" "sv_clients sv2 = cd" for sv2 req2
  proof -
    have same: "getRequestType req2 = getRequestType req" "getClientTID req2 = getClientTID req" "getHandle req2 = getHandle req"
      using that(5) by (auto simp: verified_as_def getRequestType_def getClientTID_def getHandle_def)
    have "\<exists>sv'. admit env a sv2 = Some sv' \<and> sv_target sv' = sv_target sv2
        \<and> (server_inv env sv' T W U P \<or> server_inv env sv' T ((a, xs) # W) U P)"
      by (rule admit_ok[OF that(1,3,4)]) (use that(6-8) same tune cd(3) in \<open>auto simp: is_untune_or_retune_def\<close>)
    with that(2) show ?thesis by (auto simp: settled_def)
  qed
  have unt: "\<exists>sv'. enqueue a sv1 = Some sv' \<and> target_ok (sv_target sv') \<and> settled env sv' T W U P (a, xs)"
    if "is_untune_or_retune req"
  proof -
    have "getRequestType req \<noteq> REQ_RESOURCE_TUNING"
      using that by (auto simp: is_untune_or_retune_def REQ_RESOURCE_TUNING_def REQ_RESOURCE_UNTUNING_def REQ_RESOURCE_RETUNING_def)
    from enqueue_other[OF inv1 eq1(1) this] tg eq1(2) show ?thesis by (auto simp: settled_def split: if_splits)
  qed
  consider "\<not> honored" | "honored" "is_untune_or_retune req" | "honored" "\<not> is_untune_or_retune req" "isValidated"
    | "honored" "\<not> is_untune_or_retune req" "\<not> isValidated" by blast
  then show ?thesis
  proof cases
    case 1
    then show ?thesis using run cd(1) rel[OF inv1] tg eq1 by (simp flip: sv1_def)
  next
    case 2
    then show ?thesis using run cd(1) rel[OF inv1] unt tg eq1 by (simp add: Let_def flip: sv1_def)
  next
    case 3
    have "\<exists>sv'. admit env a sv1 = Some sv' \<and> target_ok (sv_target sv') \<and> settled env sv' T W U P (a, xs)"
      by (rule adm[OF inv1 _ eq1(1) _ verified_as_intros(1)]) (use tg eq1 3 val in simp_all)
    moreover have "sv1 = sv" using cd(1) 3 by (simp add: sv1_def)
    ultimately show ?thesis using 3 run cd(1) by (simp add: Let_def)
  next
    case 4
    have ok: "req_ok (c_heap (sv_coco sv1)) req xs" using held_req[OF inv1] eq1(1) by simp
    have tg1: "target_ok (sv_target sv1)" using tg eq1 by simp
    from VerifyIncomingRequest_ok[OF ok tg1, of "se_coco env" cd] obtain b req' h' T' where
      v: "VerifyIncomingRequest (se_coco env) cd req (c_heap (sv_coco sv1)) (sv_target sv1) = Some (b, req', h', T')"
      "target_ok T'" "redirected_nodes xs (c_heap (sv_coco sv1)) h'" "verified_as req req'"
      "b \<longrightarrow> sint (getPriority req') < 4" by blast
    define sv2 where "sv2 = sv1\<lparr>sv_objs := (sv_objs sv1)(a \<mapsto> req'), sv_coco := (sv_coco sv1)\<lparr>c_heap := h'\<rparr>, sv_target := T'\<rparr>"
    have inv2: "server_inv env sv2 T W U ((a, xs) # P)" unfolding sv2_def by (rule verified_inv[OF inv1 eq1(1) v(3,4)])
    have eq2: "sv_objs sv2 a = Some req'" "target_ok (sv_target sv2)" "sv_rm sv2 = sv_rm sv" "sv_clients sv2 = cd"
      using v(2) eq1 by (simp_all add: sv2_def)
    have "run = (if b then admit env a sv2 else release_request a sv2)"
      using 4 run cd(1) v(1) by (simp add: Let_def sv2_def sv1_def)
    then show ?thesis using adm[OF inv2 eq2(2,1) _ v(4) 4(2) eq2(3,4)] rel[OF inv2 eq2(2)] v(5) by (cases b) simp_all
  qed
qed

text \<open>Every path through the handler is defined and keeps the invariant.\<close>

lemma process_settles:
  assumes inv: "server_inv env sv T W U ((a, xs) # P)" and r: "sv_objs sv a = Some req"
    and ok: "arrival_ok ar isValidated req sv"
  shows "\<exists>sv'. processIncomingRequest env ar isValidated a sv = Some sv' \<and> target_ok (sv_target sv')
    \<and> settled env sv' T W U P (a, xs)"
proof -
  have c: "core_inv env sv T W U ((a, xs) # P)" and cok: "clients_ok (sv_clients sv)"
    using inv by (auto simp: server_inv_def core_inv_def)
  note k = ok[unfolded arrival_ok_def]
  let ?checked = "if getRequestType req = REQ_RESOURCE_TUNING then Some (client_checks env ar req sv)
                 else if is_untune_or_retune req then handle_checks isValidated req sv else Some (Inr sv)"
  have rel: ?thesis if "?checked = Some (Inl sv1)" "server_inv env sv1 T W U ((a, xs) # P)" "sv_target sv1 = sv_target sv" for sv1
    using release_done[OF that(2)] that(1,3) r k by (auto simp: processIncomingRequest_def settled_def)
  have go: ?thesis if "?checked = Some (Inr sv1)" "server_inv env sv1 T W U ((a, xs) # P)" "sv_target sv1 = sv_target sv"
      "sv_objs sv1 = sv_objs sv" "getRequestType req = REQ_RESOURCE_TUNING \<Longrightarrow>
        known_thread (sv_clients sv1) (getClientTID req) \<and> sv_rm sv1 = sv_rm sv" for sv1
  proof -
    have 1: "sv_objs sv1 a = Some req" "target_ok (sv_target sv1)" using that r k by simp_all
    have 2: "getRequestType req = REQ_RESOURCE_TUNING \<Longrightarrow> known_thread (sv_clients sv1) (getClientTID req)
      \<and> map_of (mActiveRequests (sv_rm sv1)) (getHandle req) = None" using that(5) k by simp
    note tail = processed_tail[where run = "processIncomingRequest env ar isValidated a sv" and isValidated = isValidated
        and ar = ar, OF that(2) 1(1) _ 1(2) _ 2]
    show ?thesis by (rule tail) (use k that(1) r in \<open>simp_all add: processIncomingRequest_def\<close>)
  qed
  consider "getRequestType req = REQ_RESOURCE_TUNING" | "getRequestType req \<noteq> REQ_RESOURCE_TUNING" "is_untune_or_retune req"
    | "getRequestType req \<noteq> REQ_RESOURCE_TUNING" "\<not> is_untune_or_retune req" by blast
  then show ?thesis
  proof cases
    case 1
    from client_checks_ok[OF cok, of env ar req] obtain cd where cd: "clients_ok cd"
      "client_checks env ar req sv = Inl (sv\<lparr>sv_clients := cd\<rparr>)
       \<or> client_checks env ar req sv = Inr (sv\<lparr>sv_clients := cd\<rparr>) \<and> known_thread cd (getClientTID req)" by blast
    note i = server_inv_clients[OF inv cd(1)]
    from cd(2) show ?thesis
    proof
      assume "client_checks env ar req sv = Inl (sv\<lparr>sv_clients := cd\<rparr>)"
      then show ?thesis by (intro rel[OF _ i]) (simp_all add: 1)
    next
      assume "client_checks env ar req sv = Inr (sv\<lparr>sv_clients := cd\<rparr>) \<and> known_thread cd (getClientTID req)"
      then show ?thesis by (intro go[OF _ i]) (simp_all add: 1)
    qed
  next
    case 2
    from disable_ok[OF c, of "getHandle req"] obtain b rm where d: "disableRequestProcessing (getHandle req) (sv_rm sv) = Some (b, rm)"
      "core_inv env (sv\<lparr>sv_rm := rm\<rparr>) T W U ((a, xs) # P)" by blast
    then have i: "server_inv env (sv\<lparr>sv_rm := rm\<rparr>) T W U ((a, xs) # P)" using inv by (simp add: server_inv_def queued_def)
    have "handle_checks isValidated req sv \<in> {Some (Inl sv), Some (Inr sv), Some (Inl (sv\<lparr>sv_rm := rm\<rparr>)),
        Some (Inr (sv\<lparr>sv_rm := rm\<rparr>))}" using d(1) by (simp add: handle_checks_def)
    then consider "handle_checks isValidated req sv = Some (Inl sv)" | "handle_checks isValidated req sv = Some (Inr sv)"
      | "handle_checks isValidated req sv = Some (Inl (sv\<lparr>sv_rm := rm\<rparr>))"
      | "handle_checks isValidated req sv = Some (Inr (sv\<lparr>sv_rm := rm\<rparr>))"
      by blast
    then show ?thesis
    proof cases
      case 1 then show ?thesis by (intro rel[OF _ inv]) (simp_all add: 2)
    next
      case h: 2 then show ?thesis by (intro go[OF _ inv]) (simp_all add: 2)
    next
      case 3 then show ?thesis by (intro rel[OF _ i]) (simp_all add: 2)
    next
      case 4 then show ?thesis by (intro go[OF _ i]) (simp_all add: 2)
    qed
  next
    case 3
    then show ?thesis by (intro go[OF _ inv]) simp_all
  qed
qed

end
