(* ===== verification/ServerReach.thy ===== *)
theory ServerReach
  imports ServerArrival
begin

text \<open>
  The daemon as a system: messages arrive, timers expire and the consumer thread takes rounds, in any
  order, each as one whole step, and the timers of inserted requests start. The invariant of \<open>ServerInv\<close> holds in every
  state reached this way, and what comes next is defined there, but for a round of the consumer that takes a retune of
  a request in the table without a timer. \<open>Failures\<close> shows what happens in the cases left out here.
\<close>

section \<open>Reading a message\<close>

lemma frame_outside: "dl_frame k A h h' \<Longrightarrow> a \<notin> A \<Longrightarrow> h' a = h a"
proof -
  assume f: "dl_frame k A h h'" and a: "a \<notin> A"
  then have l: "links h' a j = links h a j" for j by (simp add: dl_frame_def)
  have d: "dl_data h' a = dl_data h a" using f by (simp add: dl_frame_def)
  show ?thesis
  proof (cases "h a")
    case None
    with d show ?thesis by (simp add: dl_data_def)
  next
    case (Some n)
    with d obtain n' where n': "h' a = Some n'" "mData n' = mData n" by (auto simp: dl_data_def)
    from l Some n' have "nd_next n' = nd_next n" "nd_prev n' = nd_prev n" by (auto simp: links_def fun_eq_iff)
    with n' Some show ?thesis by simp
  qed
qed

lemma addResource_cases:
  assumes "req_list h req xs" "h a \<noteq> None" "a \<notin> set xs"
  shows "\<exists>h' l ys. addResource b h req a = Some (h', req\<lparr>mResourceList := l\<rparr>) \<and>
    req_list h' (req\<lparr>mResourceList := l\<rparr>) (xs @ ys) \<and> set ys \<subseteq> {a} \<and> (b \<longrightarrow> ys = [a]) \<and>
    (\<forall>n. dl_data h' n = dl_data h n) \<and>
    (\<forall>n. n \<notin> insert a (set xs) \<longrightarrow> h' n = h n)"
proof (cases "mResourceList req = None \<and> \<not> b")
  case True
  then have "addResource b h req a = Some (h, req\<lparr>mResourceList := mResourceList req\<rparr>)" by (simp add: addResource_def)
  moreover have "\<not> b" using True by simp
  ultimately show ?thesis using assms(1) by (intro exI[of _ h] exI[of _ "mResourceList req"] exI[of _ "[]"]) simp
next
  case False
  let ?l = "case mResourceList req of None \<Rightarrow> DLManager_init REQUEST_DL_NR | Some l \<Rightarrow> l"
  have l: "dl_list h ?l xs" "mLinkerInUse ?l = REQUEST_DL_NR"
    using assms(1) DLManager_init_list[of REQUEST_DL_NR h]
    by (auto simp: req_list_def REQUEST_DL_NR_def DLManager_init_def split: option.splits)
  from insertHelper_list[OF l(1) assms(3,2)] obtain h' l' where
    i: "insertHelper h ?l (Some a) = Some (h', l', RC_SUCCESS)" "dl_list h' l' (xs @ [a])"
    "dl_frame (mLinkerInUse ?l) (insert a (set xs)) h h'" "same_cfg ?l l'" by (rule dl_doneE)
  have "addResource b h req a = Some (h', req\<lparr>mResourceList := Some l'\<rparr>)"
    using False i(1) by (auto simp: addResource_def Let_def split: option.splits)
  moreover have "req_list h' (req\<lparr>mResourceList := Some l'\<rparr>) (xs @ [a])"
    using i(2,4) l(2) by (simp add: req_list_def same_cfg_def)
  moreover have "\<forall>n. dl_data h' n = dl_data h n" using i(3) by (simp add: dl_frame_def)
  ultimately show ?thesis using frame_outside[OF i(3)]
    by (intro exI[of _ h'] exI[of _ "Some l'"] exI[of _ "[a]"]) simp
qed

lemma read_values_readable:
  "read_values js buf p r = Some (RC_SUCCESS, r', q) \<Longrightarrow> res_ok r \<Longrightarrow>
     \<forall>i. in_values r i \<longrightarrow> getValueAt r i \<noteq> None \<or> i \<in> word_of_nat ` set js \<Longrightarrow>
     \<forall>i. getValueAt r' i \<noteq> None"
proof (induction js arbitrary: p r)
  case Nil
  then have "getValueAt r i \<noteq> None" for i
    by (cases "in_values r i") (auto simp: in_values_def getValueAt_def)
  with Nil show ?case by simp
next
  case (Cons j js)
  from Cons.prems(1) obtain v p' rc r1 where s: "deref_and_incr 4 buf p = Some (v, p')"
    "setValueAt (word_of_nat j) v r = Some (rc, r1)" by (auto split: Option.bind_splits)
  with Cons.prems(1) have ok: "rc = RC_SUCCESS" "read_values js buf p' r1 = Some (RC_SUCCESS, r', q)"
    by (auto split: if_splits)
  have "in_values r (word_of_nat j)"
    using s(2) setValueAt_out[of r "word_of_nat j" v] ok(1) by (cases "in_values r (word_of_nat j)") auto
  then have g: "getValueAt r1 i = (if i = word_of_nat j then Some v else getValueAt r i)" for i
    using setValueAt_getValueAt[OF Cons.prems(2)] s(2) ok(1) by simp
  have "mNumValues r1 = mNumValues r" using setValueAt_frame[OF s(2)] by simp
  then show ?case
    using Cons.prems(3) g by (intro Cons.IH[OF ok(2) setValueAt_keeps_ok[OF s(2) Cons.prems(2)]]) (auto simp: in_values_def)
qed

lemma read_resource_readable: "read_resource b buf p = Some (RC_SUCCESS, r, q) \<Longrightarrow> readable r"
proof -
  assume a: "read_resource b buf p = Some (RC_SUCCESS, r, q)"
  then obtain c i opt n p' where
    rv: "read_values [0 ..< nat (sint (getValuesCount (setNumValues b n (setOptionalInfo opt (setResInfo i (setResCode c Resource_init))))))]
      buf p' (setNumValues b n (setOptionalInfo opt (setResInfo i (setResCode c Resource_init)))) = Some (RC_SUCCESS, r, q)"
    by (auto simp: read_resource_def Let_def split: Option.bind_splits)
  let ?r = "setNumValues b n (setOptionalInfo opt (setResInfo i (setResCode c Resource_init)))"
  have ok: "res_ok ?r"
    by (rule setNumValues_ok) (simp_all add: res_ok_def Resource_init_def setOptionalInfo_def setResInfo_def setResCode_def)
  have "i \<in> word_of_nat ` set [0 ..< nat (sint (getValuesCount ?r))]" if "in_values ?r i" for i
  proof -
    have "i = word_of_nat (nat (sint i))" "nat (sint i) < nat (sint (getValuesCount ?r))"
      using that of_nat_nat[of "sint i", where 'a = "32 word"] by (auto simp: in_values_def getValuesCount_def)
    then show ?thesis by (metis atLeastLessThan_iff imageI le0 set_upt)
  qed
  with read_values_readable[OF rv ok] show ?thesis by (simp add: readable_def list_all_iff)
qed

text \<open>A fresh node with a readable resource is added to a request.\<close>

lemma add_fresh_node:
  assumes ok: "req_ok h req xs" and ha: "h a = None" and r: "readable r"
  obtains h1 l ys where
    "addResource b (h(a \<mapsto> \<lparr>nd_next = (\<lambda>_. None), nd_prev = (\<lambda>_. None), mData = r\<rparr>)) req a =
       Some (h1, req\<lparr>mResourceList := l\<rparr>)"
    "req_ok h1 (req\<lparr>mResourceList := l\<rparr>) (xs @ ys)" "set ys \<subseteq> {a}" "b \<longrightarrow> ys = [a]" "a \<notin> set xs"
    "\<And>n. dl_data h1 n = (if n = a then Some r else dl_data h n)"
    "\<And>n. n \<notin> insert a (set xs) \<Longrightarrow> h1 n = h n"
proof -
  let ?h = "h(a \<mapsto> \<lparr>nd_next = (\<lambda>_. None), nd_prev = (\<lambda>_. None), mData = r\<rparr>)"
  have rl: "req_list h req xs" and nr: "nodes_readable h xs" using ok by (auto simp: req_ok_def)
  have axs: "a \<notin> set xs" using req_list_alloc[OF rl] ha by blast
  have "req_list ?h req xs" by (rule req_list_fresh[OF rl ha])
  from addResource_cases[OF this, of a b] axs obtain h1 l ys where
    ad: "addResource b ?h req a = Some (h1, req\<lparr>mResourceList := l\<rparr>)"
    "req_list h1 (req\<lparr>mResourceList := l\<rparr>) (xs @ ys)" "set ys \<subseteq> {a}" "b \<longrightarrow> ys = [a]"
    "\<And>n. dl_data h1 n = dl_data ?h n" "\<And>n. n \<notin> insert a (set xs) \<Longrightarrow> h1 n = ?h n" by auto
  have dd: "dl_data h1 n = (if n = a then Some r else dl_data h n)" for n
    unfolding ad(5) by (simp add: dl_data_def)
  have "\<exists>s. dl_data h1 n = Some s \<and> readable s" if "n \<in> set (xs @ ys)" for n
    using that ad(3) nr axs r by (cases "n = a") (auto simp: dd nodes_readable_iff)
  then have ok1: "req_ok h1 (req\<lparr>mResourceList := l\<rparr>) (xs @ ys)" using ad(2) by (simp add: req_ok_def nodes_readable_iff)
  show ?thesis by (rule that[OF ad(1) ok1 ad(3,4) axs dd]) (use ad(6) in auto)
qed

text \<open>The pool hands out free blocks, each once.\<close>

definition alloc_fresh :: "alloc_source \<Rightarrow> nat list \<Rightarrow> res_heap \<Rightarrow> bool" where
  "alloc_fresh al is h \<longleftrightarrow> (\<forall>i\<in>set is. \<forall>x. iter_block al i = Some x \<longrightarrow>
     h x = None \<and> (\<forall>j\<in>set is. iter_block al j = Some x \<longrightarrow> j = i))"

definition read_result :: "res_heap \<Rightarrow> request \<Rightarrow> addr list \<Rightarrow> res_heap \<Rightarrow> request \<Rightarrow> bool" where
  "read_result h req xs h' req' \<longleftrightarrow> (\<exists>ys l. req' = req\<lparr>mResourceList := l\<rparr> \<and> req_ok h' req' (xs @ ys) \<and>
     (\<forall>a\<in>set ys. h a = None) \<and> (\<forall>n. n \<notin> set xs \<longrightarrow> h n \<noteq> None \<longrightarrow> h' n = h n))"

lemma read_result_refl: "req_ok h req xs \<Longrightarrow> read_result h req xs h req"
  unfolding read_result_def by (intro exI[of _ "[]"] exI[of _ "mResourceList req"]) simp

lemma read_resources_ok:
  "read_resources al is buf p h req = Some (rc, h', req') \<Longrightarrow> req_ok h req xs \<Longrightarrow> distinct is \<Longrightarrow>
     alloc_fresh al is h \<Longrightarrow> read_result h req xs h' req'"
proof (induction "is" arbitrary: p h req xs)
  case Nil
  then show ?case by (auto intro: read_result_refl)
next
  case (Cons i "is")
  consider "h' = h" "req' = req" | a r q where "iter_block al i = Some a" "res_block al i"
    "read_resource (val_array al i) buf p = Some (RC_SUCCESS, r, q)"
    "Option.bind (addResource (list_block al i) (h(a \<mapsto> \<lparr>nd_next = (\<lambda>_. None), nd_prev = (\<lambda>_. None), mData = r\<rparr>)) req a)
      (\<lambda>(h, req). read_resources al is buf q h req) = Some (rc, h', req')"
    using Cons.prems(1) by (auto split: option.splits if_splits Option.bind_splits)
  then show ?case
  proof cases
    case 1
    with Cons.prems(2) show ?thesis by (simp add: read_result_refl)
  next
    case 2
    let ?h = "h(a \<mapsto> \<lparr>nd_next = (\<lambda>_. None), nd_prev = (\<lambda>_. None), mData = r\<rparr>)"
    have ha: "h a = None" using Cons.prems(4) 2(1) by (auto simp: alloc_fresh_def)
    from add_fresh_node[OF Cons.prems(2) ha read_resource_readable[OF 2(3)], of "list_block al i"] obtain h1 l ys where
      ad: "addResource (list_block al i) ?h req a = Some (h1, req\<lparr>mResourceList := l\<rparr>)"
      and ok1: "req_ok h1 (req\<lparr>mResourceList := l\<rparr>) (xs @ ys)" and ys: "set ys \<subseteq> {a}"
      and dd: "\<And>n. dl_data h1 n = (if n = a then Some r else dl_data h n)"
      and frame: "\<And>n. n \<notin> insert a (set xs) \<Longrightarrow> h1 n = h n" by metis
    have fr: "alloc_fresh al is h1"
      unfolding alloc_fresh_def
    proof (intro ballI allI impI conjI)
      fix k x assume k: "k \<in> set is" "iter_block al k = Some x"
      with Cons.prems(3,4) 2(1) have "h x = None" "x \<noteq> a" by (auto simp: alloc_fresh_def)
      then have "dl_data h1 x = None" unfolding dd by (simp add: dl_data_def)
      then show "h1 x = None" by simp
      show "j = k" if "j \<in> set is" "iter_block al j = Some x" for j
        using Cons.prems(4) k that unfolding alloc_fresh_def by (metis list.set_intros(2))
    qed
    have "read_resources al is buf q h1 (req\<lparr>mResourceList := l\<rparr>) = Some (rc, h', req')" using 2(4) ad by simp
    from Cons.IH[OF this ok1 _ fr] Cons.prems(3) obtain zs l' where
      z: "req' = req\<lparr>mResourceList := l'\<rparr>" "req_ok h' req' ((xs @ ys) @ zs)" "\<And>b. b \<in> set zs \<Longrightarrow> h1 b = None"
      "\<And>n. n \<notin> set (xs @ ys) \<Longrightarrow> h1 n \<noteq> None \<Longrightarrow> h' n = h1 n" by (auto simp: read_result_def)
    have "h b = None" if "b \<in> set (ys @ zs)" for b
    proof (cases "b \<in> set zs")
      case True
      then have "dl_data h1 b = None" using z(3) by (simp add: dl_data_def)
      from this[unfolded dd] show ?thesis by (simp add: dl_data_def split: if_splits)
    qed (use that ys ha in auto)
    moreover have "h' n = h n" if n: "n \<notin> set xs" "h n \<noteq> None" for n
    proof -
      have na: "n \<noteq> a" using n ha by auto
      then have "h1 n = h n" using frame[of n] n by simp
      then show ?thesis using z(4)[of n] n na ys by auto
    qed
    ultimately show ?thesis using z(1,2) unfolding read_result_def
      by (intro exI[of _ "ys @ zs"] exI[of _ l']) simp
  qed
qed

text \<open>The record fields a message sets.\<close>

definition message_fields :: "request \<Rightarrow> request \<Rightarrow> bool" where
  "message_fields req req' \<longleftrightarrow> mTimer req' = mTimer req \<and> mSource req' = mSource req"

lemma Request_deserialize_ok:
  assumes d: "Request_deserialize al buf h req = Some (rc, h', req')" and l: "mResourceList req = None"
    and fr: "\<And>n. alloc_fresh al [0 ..< n] h"
  shows "\<exists>xs. req_ok h' req' xs \<and> distinct xs \<and> (\<forall>a\<in>set xs. h a = None) \<and> (\<forall>n. h n \<noteq> None \<longrightarrow> h' n = h n)"
proof -
  from d obtain ty hd du pr pi ti p and n :: i32 where
    x: "(if ty = REQ_RESOURCE_TUNING
      then read_resources al [0 ..< nat (sint n)] buf p h (req\<lparr>mReqType := ty, mHandle := hd, mDuration := du,
        mProperties := pr, mClientPID := pi, mClientTID := ti\<rparr>)
      else Some (RC_SUCCESS, h, req\<lparr>mReqType := ty, mHandle := hd, mDuration := du,
        mProperties := pr, mClientPID := pi, mClientTID := ti\<rparr>)) = Some (rc, h', req')"
    by (auto simp: Request_deserialize_def Let_def split: Option.bind_splits)
  define r where "r = req\<lparr>mReqType := ty, mHandle := hd, mDuration := du,
        mProperties := pr, mClientPID := pi, mClientTID := ti\<rparr>"
  have r: "mResourceList r = None" "(if mReqType r = REQ_RESOURCE_TUNING then read_resources al [0 ..< nat (sint n)] buf p h r
    else Some (RC_SUCCESS, h, r)) = Some (rc, h', req')"
    using l x by (simp_all add: r_def split: if_splits)
  have ok: "req_ok h r []" using r(1) by (simp add: req_ok_def req_list_def nodes_readable_iff)
  have "read_result h r [] h' req'"
  proof (cases "mReqType r = REQ_RESOURCE_TUNING")
    case True
    with r(2) show ?thesis using read_resources_ok[OF _ ok _ fr] by simp
  next
    case False
    with r(2) ok show ?thesis by (auto intro: read_result_refl)
  qed
  then obtain xs where x: "req_ok h' req' xs" "\<forall>a\<in>set xs. h a = None" "\<forall>n. h n \<noteq> None \<longrightarrow> h' n = h n"
    by (auto simp: read_result_def)
  have "distinct xs" using x(1) by (auto simp: req_ok_def req_list_def dest: dl_list_distinct split: option.splits)
  with x show ?thesis by blast
qed

section \<open>The daemon\<close>

lemma fresh_object: "server_inv env sv T W U P \<Longrightarrow> sv_objs sv a = None \<Longrightarrow> a \<notin> fst ` set (T @ W @ U @ P)"
  unfolding image_iff by (metis core_objs prod.collapse server_inv_def)

lemma held_nodes:
  assumes "server_inv env sv T W U P" "(b, ys) \<in> set (T @ W @ U @ P)" "n \<in> set ys"
  shows "c_heap (sv_coco sv) n \<noteq> None"
proof -
  from assms obtain req where "req_ok (c_heap (sv_coco sv)) req ys"
    unfolding server_inv_def core_inv_def objects_def by blast
  with assms(3) show ?thesis using req_list_alloc by (auto simp: req_ok_def)
qed

lemma receive_ok:
  assumes inv: "server_inv env sv T W U P" and tg: "target_ok (sv_target sv)"
    and fresh: "sv_objs sv a = None" "\<And>n. alloc_fresh al [0 ..< n] (c_heap (sv_coco sv))"
    and read: "Request_deserialize al buf (c_heap (sv_coco sv)) (Request_init raw) \<noteq> None"
    and now: "0 \<le> sint (ar_now ar)" and hd: "map_of (mActiveRequests (sv_rm sv)) handle = None"
  shows "\<exists>sv' W' U' P'. submitResProvisionReqMsg env ar al (Some (a, raw)) buf handle sv = Some sv'
    \<and> server_inv env sv' T W' U' P' \<and> target_ok (sv_target sv')"
proof -
  let ?h = "c_heap (sv_coco sv)"
  from read obtain rc h req where d: "Request_deserialize al buf ?h (Request_init raw) = Some (rc, h, req)"
    by (metis option.exhaust prod_cases3)
  have "mResourceList (Request_init raw) = None" by (simp add: Request_init_def)
  from Request_deserialize_ok[OF d this fresh(2)] obtain xs where
    x: "req_ok h req xs" "distinct xs" "\<And>a. a \<in> set xs \<Longrightarrow> ?h a = None" "\<And>n. ?h n \<noteq> None \<Longrightarrow> h n = ?h n" by blast
  define req1 where "req1 = (if RC_IS_OK rc \<and> getRequestType req = REQ_RESOURCE_TUNING then setHandle handle req else req)"
  define sv1 where "sv1 = sv\<lparr>sv_objs := (sv_objs sv)(a \<mapsto> req1), sv_coco := (sv_coco sv)\<lparr>c_heap := h\<rparr>\<rparr>"
  have ok1: "req_ok h req1 xs" using x(1) by (simp add: req1_def req_ok_def req_list_def setHandle_def)
  have "core_inv env sv1 T W U ((a, xs) # P)"
    unfolding sv1_def
  proof (rule hold_inv[OF _ fresh_object[OF inv fresh(1)] x(2) _ _ ok1])
    show "core_inv env sv T W U P" using inv by (simp add: server_inv_def)
    show "set xs \<inter> set ys = {}" if "(b, ys) \<in> set (T @ W @ U @ P)" for b ys
      using held_nodes[OF inv that] x(3) by (metis disjoint_iff)
    show "h n = ?h n" if "(b, ys) \<in> set (T @ W @ U @ P)" "n \<in> set ys" for b ys n
      using held_nodes[OF inv that] x(4) by blast
  qed
  then have inv1: "server_inv env sv1 T W U ((a, xs) # P)"
    using inv by (simp add: server_inv_def sv1_def queued_def)
  have eqs: "sv_target sv1 = sv_target sv" "sv_objs sv1 a = Some req1" "sv_rm sv1 = sv_rm sv" by (simp_all add: sv1_def)
  have run: "submitResProvisionReqMsg env ar al (Some (a, raw)) buf handle sv =
      (if RC_IS_NOTOK rc then release_request a sv1 else processIncomingRequest env ar False a sv1)"
    using d by (simp add: submitResProvisionReqMsg_def sv1_def req1_def Let_def)
  show ?thesis
  proof (cases "rc = RC_SUCCESS")
    case True
    have "arrival_ok ar False req1 sv1"
      using True tg now hd eqs by (auto simp: arrival_ok_def req1_def getHandle_def setHandle_def)
    from process_settles[OF inv1 eqs(2) this] obtain sv' where
      "processIncomingRequest env ar False a sv1 = Some sv'" "target_ok (sv_target sv')" "settled env sv' T W U P (a, xs)" by blast
    with run True show ?thesis unfolding settled_def by auto
  next
    case False
    with release_done[OF inv1] run eqs(1) tg show ?thesis by (metis RC_IS_NOTOK_iff)
  qed
qed

lemma expiry_ok:
  assumes inv: "server_inv env sv T W U P" and fresh: "sv_objs sv a = None" and b: "sv_objs sv b \<noteq> None"
  shows "\<exists>sv' U' P'. timer_expiry (Some (a, raw)) b sv = Some sv' \<and> server_inv env sv' T W U' P' \<and> sv_target sv' = sv_target sv"
proof -
  from b obtain req where req: "sv_objs sv b = Some req" by blast
  obtain u where u: "timerExpired (Some raw) req = Some u" "mResourceList u = None" "getRequestType u \<noteq> REQ_RESOURCE_TUNING"
    by (auto simp: timerExpired_def populateUntuneRequest_def getRequestType_def REQ_RESOURCE_TUNING_def REQ_RESOURCE_UNTUNING_def)
  define sv1 where "sv1 = sv\<lparr>sv_objs := (sv_objs sv)(a \<mapsto> u), sv_coco := (sv_coco sv)\<lparr>c_heap := c_heap (sv_coco sv)\<rparr>\<rparr>"
  have eq: "sv\<lparr>sv_objs := (sv_objs sv)(a \<mapsto> u)\<rparr> = sv1" by (simp add: sv1_def)
  have "req_ok (c_heap (sv_coco sv)) u []" using u(2) by (simp add: req_ok_def req_list_def nodes_readable_iff)
  then have "core_inv env sv1 T W U ((a, []) # P)"
    unfolding sv1_def using inv fresh_object[OF inv fresh] by (intro hold_inv) (simp_all add: server_inv_def)
  then have inv1: "server_inv env sv1 T W U ((a, []) # P)" using inv by (simp add: server_inv_def sv1_def queued_def)
  have "sv_objs sv1 a = Some u" "sv_target sv1 = sv_target sv" by (simp_all add: sv1_def)
  with enqueue_other[OF inv1 _ u(3)] req u(1) show ?thesis
    by (auto simp: timer_expiry_def eq split: if_splits)
qed

text \<open>
  The steps of the daemon, each taken as a whole: a message, an expired timer of a request that exists, a round of the
  consumer. The surroundings promise that the pools hand out free blocks, that the
  clock is not negative and that a handle they issue is not in use; a message has to decode; and the timer of a
  request that is inserted starts. What happens when it does not is \<open>failed_start\<close> in \<open>Failures\<close>.
\<close>

definition receivable ::
    "arrival \<Rightarrow> alloc_source \<Rightarrow> addr \<Rightarrow> request \<Rightarrow> u8 list \<Rightarrow> i64 \<Rightarrow> server \<Rightarrow> bool" where
  "receivable ar al a raw buf handle sv \<longleftrightarrow>
     sv_objs sv a = None \<and> (\<forall>n. alloc_fresh al [0 ..< n] (c_heap (sv_coco sv))) \<and> 0 \<le> sint (ar_now ar) \<and>
     map_of (mActiveRequests (sv_rm sv)) handle = None \<and>
     Request_deserialize al buf (c_heap (sv_coco sv)) (Request_init raw) \<noteq> None"

inductive daemon_step :: "server_env \<Rightarrow> server \<Rightarrow> server \<Rightarrow> bool" for env where
  receive: "receivable ar al a raw buf handle sv \<Longrightarrow>
     submitResProvisionReqMsg env ar al (Some (a, raw)) buf handle sv = Some sv' \<Longrightarrow> daemon_step env sv sv'"
| expire: "sv_objs sv a = None \<Longrightarrow> timer_expiry (Some (a, raw)) b sv = Some sv' \<Longrightarrow> daemon_step env sv sv'"
| consume: "timer_starts ch sv \<Longrightarrow> consumer_round env ch sv = Some r \<Longrightarrow> daemon_step env sv (next_state r)"

inductive_cases daemon_stepE: "daemon_step env sv sv'"

inductive daemon_reach :: "server_env \<Rightarrow> server \<Rightarrow> server \<Rightarrow> bool" for env sv0 where
  daemon_start: "daemon_reach env sv0 sv0"
| daemon_more: "daemon_reach env sv0 sv \<Longrightarrow> daemon_step env sv sv' \<Longrightarrow> daemon_reach env sv0 sv'"

definition server_init ::
    "server_env \<Rightarrow> int list \<Rightarrow> int list \<Rightarrow> nat \<Rightarrow> nat \<Rightarrow> nat \<Rightarrow> target \<Rightarrow> server" where
  "server_init env clusterIDs cgroupIDs cores clusters cgroups T =
     \<lparr>sv_coco = CocoTable_init (ce_registry (se_coco env)) clusterIDs cgroupIDs cores clusters cgroups Map.empty,
      sv_objs = Map.empty, sv_rm = RequestManager_init, sv_clients = ClientDataManager_init,
      sv_queue = OrderedQueue_init, sv_target = T\<rparr>"

lemma server_init_inv:
  assumes "good_env (se_coco env)"
  shows "server_inv env (server_init env clusterIDs cgroupIDs cores clusters cgroups T) [] [] [] []"
proof -
  have "sys_inv (se_coco env) (CocoTable_init (ce_registry (se_coco env)) clusterIDs cgroupIDs cores clusters cgroups Map.empty, [])
      (\<lambda>_ _. [])"
    using assms CocoTable_init_inv by (auto simp: sys_inv_def good_env_def)
  then show ?thesis using assms
    by (auto simp: server_init_def server_inv_def core_inv_def objects_def waiting_def others_def ledger_def queued_def
        clients_ok_def lru_safe_def bounded_def RequestManager_init_def ClientDataManager_init_def OrderedQueue_init_def
        MinLRUCache_init_def)
qed

definition daemon_inv :: "server_env \<Rightarrow> server \<Rightarrow> bool" where
  "daemon_inv env sv \<longleftrightarrow> target_ok (sv_target sv) \<and> (\<exists>T W U P. server_inv env sv T W U P)"

lemma round_ok:
  assumes "daemon_inv env sv" "timer_starts ch sv"
  shows "consumer_round env ch sv = None \<longleftrightarrow> \<not> retune_timed ch sv"
proof -
  from assms(1) obtain T W U P where inv: "server_inv env sv T W U P" by (auto simp: daemon_inv_def)
  show ?thesis using untimed_retune_faults[OF inv] consumer_round_inv[OF inv assms(2)] by auto
qed

lemma release_target: "release_request a sv = Some sv' \<Longrightarrow> sv_target sv' = sv_target sv"
  by (auto simp: release_request_def Let_def split: Option.bind_splits)

lemma drop_target: "drop_request a sv = Some sv' \<Longrightarrow> sv_target sv' = sv_target sv"
  by (auto simp: drop_request_def split: Option.bind_splits dest: release_target)

lemma consume_target: "consume_request env ch a sv = Some sv' \<Longrightarrow> sv_target sv' = sv_target sv"
  by (auto simp: consume_request_def consume_tune_def consume_untune_def consume_retune_def Let_def
      split: Option.bind_splits if_splits option.splits prod.splits dest!: release_target drop_target)

lemma round_target: "consumer_round env ch sv = Some r \<Longrightarrow> sv_target (next_state r) = sv_target sv"
  by (auto simp: consumer_round_def Let_def split: if_splits Option.bind_splits option.splits queue_item.splits prod.splits
      dest!: consume_target)

text \<open>Every round that goes on takes an item, so that there are no more rounds than items.\<close>

lemma release_queue: "release_request a sv = Some sv' \<Longrightarrow> sv_queue sv' = sv_queue sv"
  by (auto simp: release_request_def Let_def split: Option.bind_splits)

lemma drop_queue: "drop_request a sv = Some sv' \<Longrightarrow> sv_queue sv' = sv_queue sv"
  by (auto simp: drop_request_def split: Option.bind_splits dest: release_queue)

lemma consume_queue: "consume_request env ch a sv = Some sv' \<Longrightarrow> sv_queue sv' = sv_queue sv"
  by (auto simp: consume_request_def consume_tune_def consume_untune_def consume_retune_def Let_def
      split: Option.bind_splits if_splits option.splits prod.splits dest!: release_queue drop_queue)

lemma length_those: "those xs = Some ys \<Longrightarrow> length ys = length xs"
  by (induction xs arbitrary: ys) (auto split: option.splits)

lemma pop_length:
  assumes "pop tie objs q = Some (item, q')" "mElementCount q \<noteq> 0"
  shows "length (mOrderedQueue q) = Suc (length (mOrderedQueue q'))"
proof -
  from assms obtain ps where ps: "those (map (item_priority objs) (mOrderedQueue q)) = Some ps" "ps \<noteq> []"
    by (auto simp: pop_def split: option.splits list.splits)
  have "min_positions ps ! (tie mod length (min_positions ps)) \<in> set (min_positions ps)"
    using min_positions_nonempty[OF ps(2)] by simp
  then have "min_positions ps ! (tie mod length (min_positions ps)) < length (mOrderedQueue q)"
    using length_those[OF ps(1)] by (simp add: min_positions_def)
  with ps assms show ?thesis by (cases ps) (auto simp: pop_def Let_def)
qed

lemma round_takes:
  "consumer_round env ch sv = Some (Again sv') \<Longrightarrow>
     length (mOrderedQueue (sv_queue sv)) = Suc (length (mOrderedQueue (sv_queue sv')))"
  by (auto simp: consumer_round_def Let_def hasPendingTasks_def split: if_splits Option.bind_splits option.splits
      queue_item.splits prod.splits dest!: pop_length consume_queue)

lemma rounds_bounded:
  "after_rounds env chs j sv = Some sv' \<Longrightarrow>
     j + length (mOrderedQueue (sv_queue sv')) = length (mOrderedQueue (sv_queue sv))"
  by (induction j arbitrary: sv') (fastforce split: Option.bind_splits option.splits consumer_next.splits dest: round_takes)+

lemma daemon_step_inv:
  assumes "daemon_step env sv sv'" "daemon_inv env sv"
  shows "daemon_inv env sv'"
  using assms(1)
proof cases
  case (receive ar al a raw buf handle)
  from assms(2) obtain T W U P where inv: "server_inv env sv T W U P" "target_ok (sv_target sv)"
    by (auto simp: daemon_inv_def)
  have "\<exists>sv' W' U' P'. submitResProvisionReqMsg env ar al (Some (a, raw)) buf handle sv = Some sv'
      \<and> server_inv env sv' T W' U' P' \<and> target_ok (sv_target sv')"
    by (rule receive_ok[OF inv]) (use receive(1) in \<open>auto simp: receivable_def\<close>)
  then show ?thesis using receive(2) by (auto simp: daemon_inv_def)
next
  case (expire a raw b)
  from assms(2) obtain T W U P where inv: "server_inv env sv T W U P" "target_ok (sv_target sv)"
    by (auto simp: daemon_inv_def)
  have "sv_objs sv b \<noteq> None" using expire(2) by (auto simp: timer_expiry_def split: Option.bind_splits)
  from expiry_ok[OF inv(1) expire(1) this, of raw] expire(2) inv(2) show ?thesis by (auto simp: daemon_inv_def)
next
  case (consume ch r)
  from assms(2) obtain T W U P where inv: "server_inv env sv T W U P" "target_ok (sv_target sv)"
    by (auto simp: daemon_inv_def)
  have "retune_timed ch sv" using round_ok[OF assms(2) consume(2)] consume(3) by auto
  from consumer_round_inv[OF inv(1) consume(2) this] consume(1,3) round_target[OF consume(3)] inv(2)
  show ?thesis by (auto simp: daemon_inv_def)
qed

lemma daemon_reach_inv: "daemon_reach env sv0 sv \<Longrightarrow> daemon_inv env sv0 \<Longrightarrow> daemon_inv env sv"
  by (induction rule: daemon_reach.induct) (auto intro: daemon_step_inv)

lemma server_init_reach_inv:
  assumes "good_env (se_coco env)" "target_ok T"
    and "daemon_reach env (server_init env clusterIDs cgroupIDs cores clusters cgroups T) sv"
  shows "daemon_inv env sv"
proof (rule daemon_reach_inv[OF assms(3)])
  show "daemon_inv env (server_init env clusterIDs cgroupIDs cores clusters cgroups T)"
    using server_init_inv[OF assms(1), of clusterIDs cgroupIDs cores clusters cgroups T] assms(2)
    unfolding daemon_inv_def by (auto simp: server_init_def)
qed

text \<open>Progress: whatever may happen next, the daemon's code returns.\<close>

lemma daemon_progress:
  assumes "daemon_inv env sv"
  shows "receivable ar al a raw buf handle sv \<Longrightarrow>
      submitResProvisionReqMsg env ar al (Some (a, raw)) buf handle sv \<noteq> None"
    and "sv_objs sv a = None \<Longrightarrow> sv_objs sv b \<noteq> None \<Longrightarrow> timer_expiry (Some (a, raw)) b sv \<noteq> None"
    and "timer_starts ch sv \<Longrightarrow> consumer_round env ch sv = None \<longleftrightarrow> \<not> retune_timed ch sv"
proof -
  from assms obtain T W U P where inv: "server_inv env sv T W U P" "target_ok (sv_target sv)"
    by (auto simp: daemon_inv_def)
  show "submitResProvisionReqMsg env ar al (Some (a, raw)) buf handle sv \<noteq> None"
    if r: "receivable ar al a raw buf handle sv"
  proof -
    have "\<exists>sv' W' U' P'. submitResProvisionReqMsg env ar al (Some (a, raw)) buf handle sv = Some sv'
        \<and> server_inv env sv' T W' U' P' \<and> target_ok (sv_target sv')"
      by (rule receive_ok[OF inv]) (use r in \<open>auto simp: receivable_def\<close>)
    then show ?thesis by auto
  qed
  show "timer_expiry (Some (a, raw)) b sv \<noteq> None" if "sv_objs sv a = None" "sv_objs sv b \<noteq> None"
    using expiry_ok[OF inv(1) that, of raw] by auto
  show "consumer_round env ch sv = None \<longleftrightarrow> \<not> retune_timed ch sv" if "timer_starts ch sv"
    by (rule round_ok[OF assms that])
qed

text \<open>What the invariant says about the request map and the queue.\<close>

lemma daemon_map_sound:
  assumes "daemon_inv env sv"
  shows "length (mActiveRequests (sv_rm sv)) \<le> unat (se_maxConcurrentRequests env)"
    and "map_of (mActiveRequests (sv_rm sv)) h = Some (a, s) \<Longrightarrow>
      \<exists>req. sv_objs sv a = Some req \<and> getHandle req = h \<and> getRequestType req = REQ_RESOURCE_TUNING"
    and "QRequest a \<in> set (mOrderedQueue (sv_queue sv)) \<Longrightarrow> sv_objs sv a \<noteq> None"
    and "distinct (queue_addrs (mOrderedQueue (sv_queue sv)))"
proof -
  from assms obtain T W U P where inv: "core_inv env sv T W U P" "queued sv (W @ U)"
    by (auto simp: daemon_inv_def server_inv_def)
  then have o: "objects sv (T @ W @ U @ P)" and b: "bounded env (sv_rm sv)"
    and led: "ledger (sv_objs sv) (sv_rm sv) (fst ` set T) (fst ` set W)" by (auto simp: core_inv_def)
  show "length (mActiveRequests (sv_rm sv)) \<le> unat (se_maxConcurrentRequests env)" using b by (simp add: bounded_def)
  show "\<exists>req. sv_objs sv a = Some req \<and> getHandle req = h \<and> getRequestType req = REQ_RESOURCE_TUNING"
    if m: "map_of (mActiveRequests (sv_rm sv)) h = Some (a, s)"
  proof -
    from ledger_entry[OF led m] have a: "a \<in> fst ` set T \<union> fst ` set W" by (auto split: if_splits)
    from ledger_entry[OF led m] ledger_object[OF led a] show ?thesis by auto
  qed
  show "sv_objs sv a \<noteq> None" if "QRequest a \<in> set (mOrderedQueue (sv_queue sv))"
    using queued_mem[OF inv(2) that] core_objs[OF inv(1), of a] by auto
  have "distinct (map fst (W @ U))" using o unfolding objects_def by auto
  moreover have "mset (queue_addrs (mOrderedQueue (sv_queue sv))) = mset (map fst (W @ U))" using inv(2) by (simp add: queued_def)
  ultimately show "distinct (queue_addrs (mOrderedQueue (sv_queue sv)))" by (metis mset_eq_imp_distinct_iff)
qed

text \<open>What is in effect on a managed resource belongs to a completed request of the map.\<close>

lemma daemon_effect:
  assumes inv: "daemon_inv env sv" and eff: "in_effect k (c_trace (sv_coco sv)) = Some r"
    and c: "getResConf (ce_registry (se_coco env)) k = Some c" "managed (se_coco env) c"
  shows "\<exists>h a s req. map_of (mActiveRequests (sv_rm sv)) h = Some (a, s) \<and> has_flag s REQ_COMPLETED \<and>
    sv_objs sv a = Some req \<and> (\<exists>n. list_nodes (c_heap (sv_coco sv)) req = Some n \<and>
      (\<exists>x\<in>set n. dl_data (c_heap (sv_coco sv)) x = Some r \<and> mResCode r = k))"
proof -
  from inv obtain T W U P where core: "core_inv env sv T W U P" by (auto simp: daemon_inv_def server_inv_def)
  then obtain L where i: "good_env (se_coco env)" "objects sv (T @ W @ U @ P)"
    "sys_inv (se_coco env) (sv_coco sv, tune_objs (sv_objs sv) T) L"
    "ledger (sv_objs sv) (sv_rm sv) (fst ` set T) (fst ` set W)" by (rule core_invE)
  from sys_arbitration[OF i(1,3) c] eff obtain prio where "claim (sv_coco sv) (tune_objs (sv_objs sv) T) k prio r" by auto
  then obtain a xs x where x: "(a, xs) \<in> set T" "x \<in> set xs" "dl_data (c_heap (sv_coco sv)) x = Some r" "mResCode r = k"
    by (auto simp: claim_def set_tune_objs)
  have "(a, xs) \<in> set (T @ W @ U @ P)" using x(1) by simp
  with i(2) obtain req where req: "sv_objs sv a = Some req" "req_ok (c_heap (sv_coco sv)) req xs"
    unfolding objects_def by blast
  have nl: "list_nodes (c_heap (sv_coco sv)) req = Some xs" using req(2) list_nodes_req_list by (auto simp: req_ok_def)
  have a: "a \<in> fst ` set T \<union> fst ` set W" using x(1) by force
  from ledgerD[OF i(4) a place_disjoint[OF i(2)] req(1)] x(1) obtain s where
    "map_of (mActiveRequests (sv_rm sv)) (getHandle req) = Some (a, s)" "has_flag s REQ_COMPLETED" by force
  with req(1) nl x show ?thesis by blast
qed

text \<open>A whole run of the consumer is a sequence of rounds.\<close>

lemma daemon_first: "daemon_step env sv sv1 \<Longrightarrow> daemon_reach env sv1 sv' \<Longrightarrow> daemon_reach env sv sv'"
  by (rotate_tac, induction rule: daemon_reach.induct) (auto intro: daemon_start daemon_more)

lemma round_progress:
  assumes inv: "daemon_inv env sv" and start: "timer_starts ch sv" and rt: "retune_timed ch sv"
  shows "\<exists>r. consumer_round env ch sv = Some r \<and> daemon_step env sv (next_state r) \<and> daemon_inv env (next_state r) \<and>
    (no_trigger sv \<longrightarrow> (case r of Again sv' \<Rightarrow> no_trigger sv' | Done sv' \<Rightarrow> queue_addrs (mOrderedQueue (sv_queue sv')) = []))"
proof -
  from inv obtain T W U P where "server_inv env sv T W U P" by (auto simp: daemon_inv_def)
  from consumer_round_inv[OF this start rt] obtain r T' W' U' P' where
    r: "consumer_round env ch sv = Some r" "server_inv env (next_state r) T' W' U' P'"
    "no_trigger sv \<longrightarrow> (case r of Again sv' \<Rightarrow> no_trigger sv' | Done _ \<Rightarrow> W' = [] \<and> U' = [])" by blast
  have "daemon_step env sv (next_state r)" by (rule daemon_step.consume[OF start r(1)])
  with daemon_step_inv[OF this inv] r show ?thesis
    by (intro exI[of _ r]) (auto simp: server_inv_def queued_def split: consumer_next.splits)
qed

lemma drains_from:
  assumes start: "\<And>i. ch_start_ok (chs i)"
    and rt: "\<And>j sv1. after_rounds env chs j sv0 = Some sv1 \<Longrightarrow> retune_timed (chs j) sv1"
  shows "daemon_inv env sv \<Longrightarrow> after_rounds env chs i sv0 = Some sv \<Longrightarrow>
    \<exists>sv'. orderedQueueConsumerHook env chs i sv = Some sv' \<and> daemon_reach env sv sv' \<and>
      (no_trigger sv \<longrightarrow> queue_addrs (mOrderedQueue (sv_queue sv')) = [])"
proof (induction "length (mOrderedQueue (sv_queue sv))" arbitrary: i sv rule: less_induct)
  case less
  have "timer_starts (chs i) sv" using start by (simp add: timer_starts_def)
  from round_progress[OF less.prems(1) this rt[OF less.prems(2)]] obtain r where
    r: "consumer_round env (chs i) sv = Some r" "daemon_step env sv (next_state r)" "daemon_inv env (next_state r)"
    "no_trigger sv \<longrightarrow> (case r of Again sv' \<Rightarrow> no_trigger sv' | Done sv' \<Rightarrow> queue_addrs (mOrderedQueue (sv_queue sv')) = [])"
    by blast
  show ?case
  proof (cases r)
    case (Done sv')
    then show ?thesis using r by (subst consumer_rounds) (auto intro: daemon_start daemon_more)
  next
    case (Again sv1)
    have "after_rounds env chs (Suc i) sv0 = Some sv1" using less.prems(2) r(1) Again by simp
    from less.hyps[OF _ _ this] round_takes r Again obtain sv' where
      "orderedQueueConsumerHook env chs (Suc i) sv1 = Some sv'" "daemon_reach env sv1 sv'"
      "no_trigger sv1 \<longrightarrow> queue_addrs (mOrderedQueue (sv_queue sv')) = []" by fastforce
    then show ?thesis using r Again daemon_first by (subst consumer_rounds) auto
  qed
qed

lemma daemon_drains:
  assumes "daemon_inv env sv" "\<And>i. ch_start_ok (chs i)"
    and "\<And>j sv1. after_rounds env chs j sv = Some sv1 \<Longrightarrow> retune_timed (chs j) sv1"
  shows "\<exists>sv'. orderedQueueConsumerHook env chs 0 sv = Some sv' \<and> daemon_reach env sv sv' \<and>
    (no_trigger sv \<longrightarrow> queue_addrs (mOrderedQueue (sv_queue sv')) = [])"
  using drains_from[of chs env sv sv 0] assms by simp

end
