(* ===== verification/ConfigValues.thy ===== *)
theory ConfigValues
  imports Strings
begin

text \<open>
  How the configuration builders read their strings: \<^verbatim>\<open>std::stol\<close> and
  \<^verbatim>\<open>std::stoul\<close> with base detection (64 bits), lower case
  (\<^verbatim>\<open>AuxRoutines::toLowerCase\<close>), and the symbolic resource codes of
  \<^verbatim>\<open>UrmPlatformAL.h\<close>.
\<close>

text \<open>White space and sign in front of a number; \<^const>\<open>True\<close> for a minus.\<close>

definition split_sign :: "string \<Rightarrow> bool \<times> string" where
  "split_sign str =
     (let s = dropWhile c_space str
      in if s \<noteq> [] \<and> hd s = CHR ''-'' then (True, tl s)
         else if s \<noteq> [] \<and> hd s = CHR ''+'' then (False, tl s) else (False, s))"

definition stol :: "string \<Rightarrow> int option" where
  "stol str =
     (let (neg, body) = split_sign str
      in case parse_magnitude body of None \<Rightarrow> None
         | Some v \<Rightarrow> (let x = (if neg then - v else v)
                     in if - (2 ^ 63) \<le> x \<and> x < 2 ^ 63 then Some x else None))"

text \<open>\<^verbatim>\<open>strtoul\<close> accepts a sign: the magnitude is checked, then negated modulo \<open>2 ^ 64\<close>.\<close>

definition stoul :: "string \<Rightarrow> int option" where
  "stoul str =
     (let (neg, body) = split_sign str
      in case parse_magnitude body of None \<Rightarrow> None
         | Some v \<Rightarrow> if v < 2 ^ 64 then Some ((if neg then - v else v) mod 2 ^ 64) else None)"

definition toLowerCase :: "string \<Rightarrow> string" where
  "toLowerCase s =
     map (\<lambda>c. let n = of_char c :: nat in if 65 \<le> n \<and> n \<le> 90 then char_of (n + 32) else c) s"

definition resCodeMapping :: "(string \<times> 32 word) list" where
  "resCodeMapping =
    [(''RES_SCALE_MIN_FREQ'', 0x40000),
     (''RES_SCALE_MAX_FREQ'', 0x40001),
     (''RES_RATE_LIMIT_US'', 0x40002),
     (''RES_CPU_ONLINE_PER_CORE'', 0x40003),
     (''RES_CPU_IDLE_DISABLE_ST0'', 0x10002),
     (''RES_CPU_IDLE_DISABLE_ST1'', 0x10003),
     (''RES_CPU_IDLE_DISABLE_ST2'', 0x10004),
     (''RES_SCHED_UTIL_CLAMP_MIN'', 0x30000),
     (''RES_SCHED_UTIL_CLAMP_MAX'', 0x30001),
     (''RES_SCHED_ENERGY_AWARE'', 0x30002),
     (''RES_SCHED_RT_RUNTIME'', 0x30003),
     (''RES_CPU_DMA_LATENCY'', 0x10000),
     (''RES_PM_QOS_LATENCY'', 0x10001),
     (''RES_DEVFREQ_GPU_MAX'', 0x50000),
     (''RES_DEVFREQ_GPU_MIN'', 0x50001),
     (''RES_DEVFREQ_GPU_POLL_INTV'', 0x50002),
     (''RES_DEVFREQ_UFS_MAX'', 0xA0000),
     (''RES_DEVFREQ_UFS_MIN'', 0xA0001),
     (''RES_DEVFREQ_UFS_POLL_INTV'', 0xA0002),
     (''RES_IRQ_AFFINE'', 0xB0000),
     (''RES_DEF_IRQ_AFFINE'', 0xB0001),
     (''RES_CGRP_MOVE_PID'', 0x90000),
     (''RES_CGRP_MOVE_TID'', 0x90001),
     (''RES_CGRP_RUN_CORES'', 0x90002),
     (''RES_CGRP_RUN_CORES_EXCL'', 0x90003),
     (''RES_CGRP_FREEZE'', 0x90004),
     (''RES_CGRP_LIMIT_CPU_TIME'', 0x90005),
     (''RES_CGRP_RUN_WHEN_CPU_IDLE'', 0x90006),
     (''RES_CGRP_UCLAMP_MIN'', 0x90007),
     (''RES_CGRP_UCLAMP_MAX'', 0x90008),
     (''RES_CGRP_REL_CPU_WEIGHT'', 0x90009),
     (''RES_CGRP_HIGH_MEM'', 0x9000A),
     (''RES_CGRP_MAX_MEM'', 0x9000B),
     (''RES_CGRP_LOW_MEM'', 0x9000C),
     (''RES_CGRP_MIN_MEM'', 0x9000D),
     (''RES_CGRP_SWAP_MAX_MEMORY'', 0x9000E),
     (''RES_CGRP_IO_WEIGHT'', 0x9000F),
     (''RES_CGRP_CPU_LATENCY'', 0x90011),
     (''FOCUSED_CGROUP_IDENTIFIER'', 0x4),
     (''GLYMUR_APP_CGRP_IDENTIFIER'', 0x5),
     (''CLUSTER_LITTLE_ALL_CORES'', 0x0),
     (''CLUSTER_LITTLE_CORE_0'', 0x1),
     (''CLUSTER_LITTLE_CORE_1'', 0x2),
     (''CLUSTER_LITTLE_CORE_2'', 0x3),
     (''CLUSTER_LITTLE_CORE_3'', 0x4),
     (''CLUSTER_BIG_ALL_CORES'', 0x100),
     (''CLUSTER_BIG_CORE_0'', 0x101),
     (''CLUSTER_BIG_CORE_1'', 0x102),
     (''CLUSTER_BIG_CORE_2'', 0x103),
     (''CLUSTER_BIG_CORE_3'', 0x104),
     (''CLUSTER_PLUS_ALL_CORES'', 0x200),
     (''CLUSTER_PLUS_CORE_0'', 0x201),
     (''CLUSTER_PLUS_CORE_1'', 0x202),
     (''CLUSTER_PLUS_CORE_2'', 0x203),
     (''CLUSTER_PLUS_CORE_3'', 0x204),
     (''DEFAULT_SIGNAL_TYPE'', 0x0)]"

text \<open>The first entry with the name; the code zero when there is none.\<close>

definition getResCodeFromString :: "string \<Rightarrow> u32 \<times> bool" where
  "getResCodeFromString strCode =
     (case map_of resCodeMapping strCode of Some c \<Rightarrow> (c, True) | None \<Rightarrow> (0, False))"

lemma resCode_example: "getResCodeFromString ''RES_SCHED_UTIL_CLAMP_MAX'' = (0x30001, True)"
  by (simp add: getResCodeFromString_def resCodeMapping_def)

lemma stol_of_stoi: "stoi s = Some v \<Longrightarrow> stol s = Some v"
  by (auto simp: stoi_def stol_def split_sign_def Let_def split: option.splits if_splits)

end
