(* ===== verification/Stores.thy ===== *)
theory Stores
  imports Prelude
begin

text \<open>
  The contract of the registries that the configuration parser fills entry by entry: an admissible
  entry is found under its key until another entry with the same key replaces it, and a store that
  counts counts its keys. The properties, the signals and the settings of the daemon are such
  stores.
\<close>

locale keyed_store =
  fixes valid_store :: "'s \<Rightarrow> bool" and admissible :: "'e \<Rightarrow> bool" and key :: "'e \<Rightarrow> 'k"
    and content :: "'e \<Rightarrow> 'v" and find :: "'k \<Rightarrow> 's \<Rightarrow> 'v option" and put :: "'e \<Rightarrow> 's \<Rightarrow> 's"
  assumes put_valid: "valid_store s \<Longrightarrow> valid_store (put e s)"
    and find_put: "valid_store s \<Longrightarrow>
      find x (put e s) = (if admissible e \<and> x = key e then Some (content e) else find x s)"
begin

definition put_all :: "'e list \<Rightarrow> 's \<Rightarrow> 's" where
  "put_all es = fold put es"

definition last_entry :: "'k \<Rightarrow> 'e list \<Rightarrow> 'v option" where
  "last_entry x es = map_of (rev (map (\<lambda>e. (key e, content e)) (filter admissible es))) x"

lemma put_all_valid: "valid_store s \<Longrightarrow> valid_store (put_all es s)"
  unfolding put_all_def by (induction es arbitrary: s) (auto simp: put_valid)

lemma find_put_all:
  "valid_store s \<Longrightarrow> find x (put_all es s) = (case last_entry x es of Some v \<Rightarrow> Some v | None \<Rightarrow> find x s)"
proof (induction es rule: rev_induct)
  case Nil
  then show ?case by (simp add: put_all_def last_entry_def)
next
  case (snoc e es)
  have "put_all (es @ [e]) s = put e (put_all es s)" by (simp add: put_all_def)
  with snoc find_put[OF put_all_valid[OF snoc.prems], of x e es] show ?case
    by (auto simp: last_entry_def)
qed

lemma find_put_all_some: "valid_store s \<Longrightarrow> (\<And>x. find x s = None) \<Longrightarrow>
   {x. find x (put_all es s) \<noteq> None} = key ` set (filter admissible es)"
  by (auto simp: find_put_all last_entry_def map_of_eq_None_iff image_image split: option.splits)

end

locale counted_store = keyed_store valid_store admissible key content find put
  for valid_store :: "'s \<Rightarrow> bool" and admissible :: "'e \<Rightarrow> bool" and key :: "'e \<Rightarrow> 'k"
    and content :: "'e \<Rightarrow> 'v" and find :: "'k \<Rightarrow> 's \<Rightarrow> 'v option" and put :: "'e \<Rightarrow> 's \<Rightarrow> 's" +
  fixes count :: "'s \<Rightarrow> 'n::len word"
  assumes count_put: "valid_store s \<Longrightarrow>
    count (put e s) = (if admissible e \<and> find (key e) s = None then count s + 1 else count s)"
begin

lemma count_put_all:
  assumes "valid_store s" "\<And>x. find x s = None" "count s = 0"
  shows "count (put_all es s) = word_of_nat (card (key ` set (filter admissible es)))"
proof (induction es rule: rev_induct)
  case Nil
  then show ?case using assms by (simp add: put_all_def)
next
  case (snoc e es)
  let ?K = "key ` set (filter admissible es)"
  have "put_all (es @ [e]) s = put e (put_all es s)" by (simp add: put_all_def)
  moreover have known: "find x (put_all es s) = None \<longleftrightarrow> x \<notin> ?K" for x
    using find_put_all_some[OF assms(1,2), of es] by blast
  ultimately have "count (put_all (es @ [e]) s) =
      (if admissible e \<and> key e \<notin> ?K then count (put_all es s) + 1 else count (put_all es s))"
    using count_put[OF put_all_valid[OF assms(1)], of e es] known[of "key e"] by (simp add: image_iff)
  then show ?case using snoc by (cases "key e \<in> ?K") (auto simp: insert_absorb)
qed

end

end
