(* ===== verification/Signals.thy ===== *)
theory Signals
  imports Request ConfigValues Stores
begin

text \<open>
  \<^verbatim>\<open>resource-tuner/signals/SignalRegistry.cpp\<close>: the table of signal configurations and
  the two builders that fill it from the strings of a YAML file. A signal may have one plain
  configuration and a list of variants with extra attributes (frame rate, height, width, source).
  The chain of \<^verbatim>\<open>next\<close> pointers of the variants is a list; the answers of
  \<^verbatim>\<open>new\<close> are arguments. What is proved: what a lookup returns after any sequence of
  registrations, and that the variant chosen for given attributes is the closest one.
\<close>

section \<open>Configurations\<close>

definition NSIG_PLACEHOLDER :: i32 where "NSIG_PLACEHOLDER = word_of_int (- (2 ^ 31))"

definition SIGNAL_EXTRA_ATTRS_COUNT :: nat where "SIGNAL_EXTRA_ATTRS_COUNT = 4"
definition SIGNAL_EXTRA_ATTR_FPS :: nat where "SIGNAL_EXTRA_ATTR_FPS = 0"
definition SIGNAL_EXTRA_ATTR_HEIGHT :: nat where "SIGNAL_EXTRA_ATTR_HEIGHT = 1"
definition SIGNAL_EXTRA_ATTR_WIDTH :: nat where "SIGNAL_EXTRA_ATTR_WIDTH = 2"
definition SIGNAL_EXTRA_ATTR_SRC_ELEMENT :: nat where "SIGNAL_EXTRA_ATTR_SRC_ELEMENT = 3"

record SignalInfo =
  mSignalCategory :: "8 word"
  mSignalID :: "16 word"
  mSigType :: u32
  mSignalName :: string
  mTimeout :: i32
  mPermissions :: "i8 list option"
  mDerivatives :: "string list option"
  mExtraAttrs :: "u32 list"
  mHasExtraAttrs :: bool
  mSignalResources :: "resource option list option"

record SignalConf =
  mSignalInfo :: "SignalInfo option"
  mFeatureSignals :: "SignalInfo list"

record signal_registry =
  mTotalSignals :: i32
  mSignalsConfigs :: "u64 \<Rightarrow> SignalConf option"

definition SignalConf_init :: SignalConf where
  "SignalConf_init = \<lparr>mSignalInfo = None, mFeatureSignals = []\<rparr>"

definition SignalRegistry_init :: signal_registry where
  "SignalRegistry_init = \<lparr>mTotalSignals = 0, mSignalsConfigs = (\<lambda>_. None)\<rparr>"

section \<open>The closest variant\<close>

definition exact_score :: "nat \<Rightarrow> u32 list \<Rightarrow> SignalInfo \<Rightarrow> int" where
  "exact_score n extraAttrs candidate =
     int (length (filter (\<lambda>i. mExtraAttrs candidate ! i = extraAttrs ! i) [0 ..< n]))"

text \<open>Within twenty percent of the value asked for, in 64-bit arithmetic.\<close>

definition within_tolerance :: "u32 \<Rightarrow> u32 \<Rightarrow> bool" where
  "within_tolerance wanted have =
     (let lowerBound = (ucast wanted :: u64) * 80; upperBound = (ucast wanted :: u64) * 120;
          candidateValue = (ucast have :: u64) * 100
      in lowerBound \<le> candidateValue \<and> candidateValue \<le> upperBound)"

definition tolerance_score :: "nat \<Rightarrow> u32 list \<Rightarrow> SignalInfo \<Rightarrow> int" where
  "tolerance_score n extraAttrs candidate =
     int (length (filter (\<lambda>i. within_tolerance (extraAttrs ! i) (mExtraAttrs candidate ! i)) [0 ..< n]))"

text \<open>One pass over the candidates: a strictly better score replaces the best so far.\<close>

fun best_pass :: "(SignalInfo \<Rightarrow> int) \<Rightarrow> SignalInfo list \<Rightarrow> int \<times> SignalInfo option \<Rightarrow> int \<times> SignalInfo option" where
  "best_pass score [] best = best"
| "best_pass score (candidate # rest) (bestScore, bestMatch) =
     best_pass score rest
       (if score candidate > bestScore then (score candidate, Some candidate) else (bestScore, bestMatch))"

text \<open>
  The second result tells whether the array of the caller was deleted. The arrays are read up to
  \<^verbatim>\<open>min(numArgs, SIGNAL_EXTRA_ATTRS_COUNT)\<close> when there is a candidate.
\<close>

definition findBestExtraAttrsMatch ::
    "SignalInfo list \<Rightarrow> i32 \<Rightarrow> u32 list option \<Rightarrow> (SignalInfo option \<times> bool) option" where
  "findBestExtraAttrsMatch featureSignalHead numArgs extraAttrs =
     (case extraAttrs of None \<Rightarrow> Some (None, False)
      | Some attrs \<Rightarrow>
         (let bound = min (sint numArgs) (int SIGNAL_EXTRA_ATTRS_COUNT); n = nat bound
          in if featureSignalHead \<noteq> [] \<and> length attrs < n then None
             else (let (bestScore, bestMatch) =
                         best_pass (exact_score n attrs) featureSignalHead (-1, None)
                   in if bestScore = bound then Some (bestMatch, False)
                      else (let (_, bestMatch) =
                                  best_pass (tolerance_score n attrs) featureSignalHead (bestScore, bestMatch)
                            in Some (case bestMatch of Some m \<Rightarrow> Some m
                                     | None \<Rightarrow> (case featureSignalHead of [] \<Rightarrow> None | m # _ \<Rightarrow> Some m), True)))))"

section \<open>Registration\<close>

definition isSignalConfigMalformed :: "SignalInfo option \<Rightarrow> bool" where
  "isSignalConfigMalformed sConf =
     (case sConf of None \<Rightarrow> True | Some c \<Rightarrow> if mSignalCategory c = 0 then True else False)"

definition isDuplicateConfig :: "SignalInfo \<Rightarrow> SignalInfo \<Rightarrow> bool" where
  "isDuplicateConfig src dest =
     (length (filter (\<lambda>i. mExtraAttrs src ! i = mExtraAttrs dest ! i) [0 ..< SIGNAL_EXTRA_ATTRS_COUNT])
        = SIGNAL_EXTRA_ATTRS_COUNT)"

fun replace_duplicate :: "SignalInfo \<Rightarrow> SignalInfo list \<Rightarrow> SignalInfo list option" where
  "replace_duplicate signalInfo [] = None"
| "replace_duplicate signalInfo (curInfo # rest) =
     (if isDuplicateConfig curInfo signalInfo then Some (signalInfo # rest)
      else map_option (\<lambda>l. curInfo # l) (replace_duplicate signalInfo rest))"

definition addToFeaturedSigList :: "SignalInfo list \<Rightarrow> SignalInfo \<Rightarrow> SignalInfo list \<times> bool" where
  "addToFeaturedSigList featureHead signalInfo =
     (case replace_duplicate signalInfo featureHead of
        Some l \<Rightarrow> (l, True) | None \<Rightarrow> (signalInfo # featureHead, False))"

definition signalBitmap :: "SignalInfo \<Rightarrow> u64" where
  "signalBitmap s =
     push_bit 32 (((0 OR ucast (ucast (mSignalID s) :: u32)) :: u64)
       OR ucast (push_bit 16 (ucast (mSignalCategory s) :: u32))) OR ucast (mSigType s)"

definition registerSignal :: "SignalInfo option \<Rightarrow> signal_registry \<Rightarrow> signal_registry" where
  "registerSignal signalInfo sr =
     (if isSignalConfigMalformed signalInfo then sr
      else case signalInfo of None \<Rightarrow> sr
        | Some s \<Rightarrow>
            (let conf = (case mSignalsConfigs sr (signalBitmap s) of Some c \<Rightarrow> c | None \<Rightarrow> SignalConf_init);
                 (conf, isOveridden) =
                   (if mHasExtraAttrs s then
                      (if mFeatureSignals conf = [] then (conf\<lparr>mFeatureSignals := [s]\<rparr>, False)
                       else (let (l, o') = addToFeaturedSigList (mFeatureSignals conf) s
                             in (conf\<lparr>mFeatureSignals := l\<rparr>, o')))
                    else (conf\<lparr>mSignalInfo := Some s\<rparr>, mSignalInfo conf \<noteq> None))
             in sr\<lparr>mSignalsConfigs := (mSignalsConfigs sr)(signalBitmap s \<mapsto> conf),
                   mTotalSignals := (if isOveridden then mTotalSignals sr else mTotalSignals sr + 1)\<rparr>))"

section \<open>Lookup\<close>

definition getSignalConfigById ::
    "u64 \<Rightarrow> i32 \<Rightarrow> u32 list option \<Rightarrow> signal_registry \<Rightarrow> (SignalInfo option \<times> bool) option" where
  "getSignalConfigById sigCode numArgs extraAttrs sr =
     (case mSignalsConfigs sr sigCode of None \<Rightarrow> Some (None, False)
      | Some conf \<Rightarrow>
          (if extraAttrs = None then
             Some (case mSignalInfo conf of Some s \<Rightarrow> Some s
                   | None \<Rightarrow> (case mFeatureSignals conf of [] \<Rightarrow> None | s # _ \<Rightarrow> Some s), False)
           else if mFeatureSignals conf = [] then Some (mSignalInfo conf, False)
           else findBestExtraAttrsMatch (mFeatureSignals conf) numArgs extraAttrs))"

definition getSignalConfigByIdAndType ::
    "u32 \<Rightarrow> u32 \<Rightarrow> i32 \<Rightarrow> u32 list option \<Rightarrow> signal_registry \<Rightarrow> (SignalInfo option \<times> bool) option" where
  "getSignalConfigByIdAndType sigId sigType numArgs extraAttrs sr =
     (let bitmap = push_bit 32 (ucast sigId :: u64) OR ucast sigType
      in case mSignalsConfigs sr bitmap of None \<Rightarrow> Some (None, False)
      | Some conf \<Rightarrow>
          (if extraAttrs = None then
             Some (case mSignalInfo conf of Some s \<Rightarrow> Some s
                   | None \<Rightarrow> (case mFeatureSignals conf of [] \<Rightarrow> None | s # _ \<Rightarrow> Some s), False)
           else if mFeatureSignals conf = [] then Some (mSignalInfo conf, False)
           else findBestExtraAttrsMatch (mFeatureSignals conf) numArgs extraAttrs))"

definition getSignalsConfigCount :: "signal_registry \<Rightarrow> i32" where
  "getSignalsConfigCount sr = mTotalSignals sr"

section \<open>The builders\<close>

record signal_builder =
  sb_info :: "SignalInfo option"
  mTargetRefCount :: int

definition unsupportedResoure :: int where "unsupportedResoure = -2"

definition SignalInfoBuilder_init :: "bool \<Rightarrow> signal_builder" where
  "SignalInfoBuilder_init new_ok =
     \<lparr>sb_info = (if new_ok then Some \<lparr>mSignalCategory = 0, mSignalID = 0, mSigType = 0, mSignalName = '''',
        mTimeout = 1, mPermissions = None, mDerivatives = None,
        mExtraAttrs = replicate SIGNAL_EXTRA_ATTRS_COUNT 0, mHasExtraAttrs = False, mSignalResources = None\<rparr>
        else None),
      mTargetRefCount = 0\<rparr>"

definition on_signal :: "(SignalInfo \<Rightarrow> ErrCode \<times> SignalInfo) \<Rightarrow> signal_builder \<Rightarrow> ErrCode \<times> signal_builder" where
  "on_signal f b =
     (case sb_info b of None \<Rightarrow> (RC_MEMORY_ALLOCATION_FAILURE, b)
      | Some s \<Rightarrow> (fst (f s), b\<lparr>sb_info := Some (snd (f s))\<rparr>))"

definition setSignalID :: "string \<Rightarrow> signal_builder \<Rightarrow> ErrCode \<times> signal_builder" where
  "setSignalID str = on_signal (\<lambda>s. case stoi str of
       None \<Rightarrow> (RC_INVALID_VALUE, s\<lparr>mSignalID := 0\<rparr>)
     | Some v \<Rightarrow> (RC_SUCCESS, s\<lparr>mSignalID := word_of_int v\<rparr>))"

definition setSignalCategory :: "string \<Rightarrow> signal_builder \<Rightarrow> ErrCode \<times> signal_builder" where
  "setSignalCategory str = on_signal (\<lambda>s. case stoi str of
       None \<Rightarrow> (RC_INVALID_VALUE, s\<lparr>mSignalCategory := 0\<rparr>)
     | Some v \<Rightarrow> (RC_SUCCESS, s\<lparr>mSignalCategory := word_of_int v\<rparr>))"

definition setSignalType :: "string \<Rightarrow> signal_builder \<Rightarrow> ErrCode \<times> signal_builder" where
  "setSignalType str = on_signal (\<lambda>s. case stol str of
       None \<Rightarrow> (RC_INVALID_VALUE, s\<lparr>mSigType := 0\<rparr>)
     | Some v \<Rightarrow> (RC_SUCCESS, s\<lparr>mSigType := word_of_int v\<rparr>))"

definition setName :: "string \<Rightarrow> signal_builder \<Rightarrow> ErrCode \<times> signal_builder" where
  "setName name = on_signal (\<lambda>s. (RC_SUCCESS, s\<lparr>mSignalName := name\<rparr>))"

definition setTimeout :: "string \<Rightarrow> signal_builder \<Rightarrow> ErrCode \<times> signal_builder" where
  "setTimeout str = on_signal (\<lambda>s. case stoi10 str of
       None \<Rightarrow> (RC_INVALID_VALUE, s) | Some v \<Rightarrow> (RC_SUCCESS, s\<lparr>mTimeout := word_of_int v\<rparr>))"

definition setIsEnabled :: "string \<Rightarrow> signal_builder \<Rightarrow> ErrCode \<times> signal_builder" where
  "setIsEnabled str b =
     (if sb_info b = None then (RC_MEMORY_ALLOCATION_FAILURE, b)
      else (RC_SUCCESS, if str \<noteq> ''true'' then b\<lparr>mTargetRefCount := unsupportedResoure\<rparr> else b))"

text \<open>The vector is created first, also when the permission is then refused.\<close>

definition addPermission :: "bool \<Rightarrow> string \<Rightarrow> signal_builder \<Rightarrow> ErrCode \<times> signal_builder" where
  "addPermission vec_ok str = on_signal (\<lambda>s.
     (let s = (if mPermissions s = None \<and> vec_ok then s\<lparr>mPermissions := Some []\<rparr> else s)
      in case keyword [(''system'', PERMISSION_SYSTEM), (''third_party'', PERMISSION_THIRD_PARTY)] PERMISSION_THIRD_PARTY str of
           None \<Rightarrow> (RC_INVALID_VALUE, s)
         | Some p \<Rightarrow> (case mPermissions s of None \<Rightarrow> (RC_INVALID_VALUE, s)
             | Some ps \<Rightarrow> (RC_SUCCESS, s\<lparr>mPermissions := Some (ps @ [p])\<rparr>))))"

definition addTargetEnabled :: "string \<Rightarrow> string \<Rightarrow> signal_builder \<Rightarrow> ErrCode \<times> signal_builder" where
  "addTargetEnabled targetName target b =
     (if sb_info b = None then (RC_MEMORY_ALLOCATION_FAILURE, b)
      else if mTargetRefCount b = unsupportedResoure then (RC_RESOURCE_NOT_SUPPORTED, b)
      else (let n = (if mTargetRefCount b = 0 then -1 else mTargetRefCount b)
            in (RC_SUCCESS, b\<lparr>mTargetRefCount := (if target = targetName then 1 else n)\<rparr>)))"

definition addTargetDisabled :: "string \<Rightarrow> string \<Rightarrow> signal_builder \<Rightarrow> ErrCode \<times> signal_builder" where
  "addTargetDisabled targetName target b =
     (if sb_info b = None then (RC_MEMORY_ALLOCATION_FAILURE, b)
      else if mTargetRefCount b = unsupportedResoure then (RC_RESOURCE_NOT_SUPPORTED, b)
      else (let n = (if mTargetRefCount b = 0 then 1 else mTargetRefCount b)
            in (RC_SUCCESS, b\<lparr>mTargetRefCount := (if target = targetName then -1 else n)\<rparr>)))"

definition addDerivative :: "bool \<Rightarrow> string \<Rightarrow> signal_builder \<Rightarrow> ErrCode \<times> signal_builder" where
  "addDerivative vec_ok derivative = on_signal (\<lambda>s.
     (case mDerivatives s of
        Some ds \<Rightarrow> (RC_SUCCESS, s\<lparr>mDerivatives := Some (ds @ [derivative])\<rparr>)
      | None \<Rightarrow> if vec_ok then (RC_SUCCESS, s\<lparr>mDerivatives := Some [derivative]\<rparr>) else (RC_INVALID_VALUE, s)))"

definition addSignalResource :: "bool \<Rightarrow> resource option \<Rightarrow> signal_builder \<Rightarrow> ErrCode \<times> signal_builder" where
  "addSignalResource vec_ok resource b =
     (if sb_info b = None \<or> resource = None then (RC_MEMORY_ALLOCATION_FAILURE, b)
      else on_signal (\<lambda>s. case mSignalResources s of
          Some rs \<Rightarrow> (RC_SUCCESS, s\<lparr>mSignalResources := Some (rs @ [resource])\<rparr>)
        | None \<Rightarrow> if vec_ok then (RC_SUCCESS, s\<lparr>mSignalResources := Some [resource]\<rparr>)
                  else (RC_MEMORY_ALLOCATION_FAILURE, s)) b)"

definition markExtraAttrsPresent :: "signal_builder \<Rightarrow> signal_builder" where
  "markExtraAttrsPresent b = b\<lparr>sb_info := map_option (\<lambda>s. s\<lparr>mHasExtraAttrs := True\<rparr>) (sb_info b)\<rparr>"

definition set_attr :: "nat \<Rightarrow> string \<Rightarrow> SignalInfo \<Rightarrow> ErrCode \<times> SignalInfo" where
  "set_attr i str s = (case stoul str of
       None \<Rightarrow> (RC_INVALID_VALUE, s)
     | Some v \<Rightarrow> (RC_SUCCESS, s\<lparr>mExtraAttrs := (mExtraAttrs s)[i := word_of_int v]\<rparr>))"

definition setFps :: "string \<Rightarrow> signal_builder \<Rightarrow> ErrCode \<times> signal_builder" where
  "setFps str = on_signal (set_attr SIGNAL_EXTRA_ATTR_FPS str)"

definition setHeight :: "string \<Rightarrow> signal_builder \<Rightarrow> ErrCode \<times> signal_builder" where
  "setHeight str = on_signal (set_attr SIGNAL_EXTRA_ATTR_HEIGHT str)"

definition setWidth :: "string \<Rightarrow> signal_builder \<Rightarrow> ErrCode \<times> signal_builder" where
  "setWidth str = on_signal (set_attr SIGNAL_EXTRA_ATTR_WIDTH str)"

definition setMmSrc :: "string \<Rightarrow> signal_builder \<Rightarrow> ErrCode \<times> signal_builder" where
  "setMmSrc str = on_signal (\<lambda>s.
     (RC_SUCCESS, s\<lparr>mExtraAttrs := (mExtraAttrs s)[SIGNAL_EXTRA_ATTR_SRC_ELEMENT :=
        (if toLowerCase str = ''qtiqmmfsrc'' then 1
         else if toLowerCase str = ''libcamerasrc'' then 2 else 0)]\<rparr>))"

definition build_signal :: "signal_builder \<Rightarrow> SignalInfo option" where
  "build_signal b = sb_info b"

text \<open>The resource of a signal; a symbolic code is looked up when the string is not a number.\<close>

definition ResourceBuilder_init :: "bool \<Rightarrow> resource option" where
  "ResourceBuilder_init new_ok = (if new_ok then Some Resource_init else None)"

definition rb_setResCode :: "string \<Rightarrow> resource option \<Rightarrow> ErrCode \<times> resource option" where
  "rb_setResCode str b =
     (case b of None \<Rightarrow> (RC_MEMORY_ALLOCATION_FAILURE, b)
      | Some r \<Rightarrow> (case stol str of
            Some v \<Rightarrow> (RC_SUCCESS, Some (setResCode (word_of_int v) r))
          | None \<Rightarrow> (let (code, found) = getResCodeFromString str
                    in if \<not> found then (RC_INVALID_VALUE, b) else (RC_SUCCESS, Some (setResCode code r)))))"

definition rb_setResInfo :: "string \<Rightarrow> resource option \<Rightarrow> ErrCode \<times> resource option" where
  "rb_setResInfo str b =
     (case b of None \<Rightarrow> (RC_MEMORY_ALLOCATION_FAILURE, b)
      | Some r \<Rightarrow> (case stoi str of
            Some v \<Rightarrow> (RC_SUCCESS, Some (setResInfo (word_of_int v) r))
          | None \<Rightarrow> (let (code, found) = getResCodeFromString str
                    in if \<not> found then (RC_INVALID_VALUE, b) else (RC_SUCCESS, Some (setResInfo code r)))))"

definition rb_setNumValues :: "bool \<Rightarrow> i32 \<Rightarrow> resource option \<Rightarrow> ErrCode \<times> resource option" where
  "rb_setNumValues new_ok valuesCount b =
     (case b of None \<Rightarrow> (RC_MEMORY_ALLOCATION_FAILURE, b)
      | Some r \<Rightarrow> (RC_SUCCESS, Some (setNumValues new_ok valuesCount r)))"

text \<open>\<^verbatim>\<open>%d\<close> stands for a value the caller of the signal passes; the result of the write is ignored.\<close>

definition rb_addValue :: "i32 \<Rightarrow> string \<Rightarrow> resource option \<Rightarrow> (ErrCode \<times> resource option) option" where
  "rb_addValue index str b =
     (case b of None \<Rightarrow> Some (RC_MEMORY_ALLOCATION_FAILURE, b)
      | Some r \<Rightarrow>
          (let value = (if str = ''%d'' then Some NSIG_PLACEHOLDER else map_option word_of_int (stoi10 str))
           in case value of None \<Rightarrow> Some (RC_INVALID_VALUE, b)
              | Some v \<Rightarrow> map_option (\<lambda>(_, r'). (RC_SUCCESS, Some r')) (setValueAt index v r)))"

definition rb_build :: "resource option \<Rightarrow> resource option" where
  "rb_build b = b"

section \<open>The closest variant is chosen\<close>

lemma best_pass_spec:
  "best_pass score cs (b, m) = (b', m') \<Longrightarrow>
     b \<le> b' \<and> (\<forall>c\<in>set cs. score c \<le> b') \<and>
     (b' = b \<and> m' = m \<or> (\<exists>c\<in>set cs. m' = Some c \<and> score c = b' \<and> b < b'))"
proof (induction cs arbitrary: b m)
  case Nil
  then show ?case by simp
next
  case (Cons c cs)
  show ?case
  proof (cases "score c > b")
    case True
    with Cons.prems have "best_pass score cs (score c, Some c) = (b', m')" by simp
    from Cons.IH[OF this] True show ?thesis by auto
  next
    case False
    with Cons.prems have "best_pass score cs (b, m) = (b', m')" by simp
    from Cons.IH[OF this] False show ?thesis by auto
  qed
qed

lemma within_tolerance_uint:
  "within_tolerance w v \<longleftrightarrow> 80 * uint w \<le> 100 * uint v \<and> 100 * uint v \<le> 120 * uint w"
proof -
  have bounds: "0 \<le> uint w" "uint w < 2 ^ 32" "0 \<le> uint v" "uint v < 2 ^ 32"
    using uint_lt2p[of w] uint_lt2p[of v] by auto
  have u: "uint (ucast x :: u64) = uint x" for x :: u32
    by (simp add: unsigned_ucast_eq take_bit_int_eq_self_iff order_less_trans[OF uint_lt2p[of x]])
  have "uint ((ucast w :: u64) * 80) = 80 * uint w" "uint ((ucast w :: u64) * 120) = 120 * uint w"
    "uint ((ucast v :: u64) * 100) = 100 * uint v"
    using bounds by (simp_all add: uint_word_ariths u)
  then show ?thesis by (simp add: within_tolerance_def word_le_def)
qed

lemma within_tolerance_refl [simp]: "within_tolerance w w"
  by (simp add: within_tolerance_uint)

lemma tolerance_exact: "exact_score n attrs c \<le> tolerance_score n attrs c"
proof -
  have "length (filter (\<lambda>i. mExtraAttrs c ! i = attrs ! i) [0..<n]) \<le>
    length (filter (\<lambda>i. within_tolerance (attrs ! i) (mExtraAttrs c ! i)) [0..<n])"
    by (induction n) auto
  then show ?thesis by (simp add: exact_score_def tolerance_score_def)
qed

lemma exact_score_bound: "exact_score n attrs c \<le> int n"
  unfolding exact_score_def using length_filter_le[of _ "[0..<n]"] by (metis length_upt minus_nat.diff_0 of_nat_le_iff)

lemma tolerance_score_bound: "tolerance_score n attrs c \<le> int n"
  unfolding tolerance_score_def using length_filter_le[of _ "[0..<n]"] by (metis length_upt minus_nat.diff_0 of_nat_le_iff)

text \<open>The variant found is as close as any; one that agrees exactly is preferred.\<close>

lemma findBest_closest:
  assumes "fs \<noteq> []" "0 \<le> sint numArgs" "n = nat (min (sint numArgs) 4)" "n \<le> length attrs"
  shows "\<exists>m\<in>set fs. findBestExtraAttrsMatch fs numArgs (Some attrs) =
      Some (Some m, \<not> (\<exists>c\<in>set fs. exact_score n attrs c = int n)) \<and>
    (\<forall>c\<in>set fs. tolerance_score n attrs c \<le> tolerance_score n attrs m) \<and>
    ((\<exists>c\<in>set fs. exact_score n attrs c = int n) \<longrightarrow> exact_score n attrs m = int n)"
proof -
  have bound: "min (sint numArgs) (int SIGNAL_EXTRA_ATTRS_COUNT) = int n"
    using assms(2,3) by (simp add: SIGNAL_EXTRA_ATTRS_COUNT_def)
  obtain b1 m1 where p1: "best_pass (exact_score n attrs) fs (-1, None) = (b1, m1)" by fastforce
  from best_pass_spec[OF p1] assms(1) have s1: "\<forall>c\<in>set fs. exact_score n attrs c \<le> b1"
    and "\<exists>c\<in>set fs. m1 = Some c \<and> exact_score n attrs c = b1"
    by (auto simp: exact_score_def neq_Nil_conv)
  then obtain c1 where c1: "c1 \<in> set fs" "m1 = Some c1" "exact_score n attrs c1 = b1" by blast
  have best: "findBestExtraAttrsMatch fs numArgs (Some attrs) =
      (if b1 = int n then Some (Some c1, False)
       else let (_, m2) = best_pass (tolerance_score n attrs) fs (b1, Some c1)
            in Some (case m2 of Some m \<Rightarrow> Some m | None \<Rightarrow> (case fs of [] \<Rightarrow> None | m # _ \<Rightarrow> Some m), True))"
    using assms(4) p1 c1 by (simp add: findBestExtraAttrsMatch_def bound Let_def)
  show ?thesis
  proof (cases "b1 = int n")
    case True
    then have "tolerance_score n attrs c \<le> tolerance_score n attrs c1" for c
      using c1(3) tolerance_exact[of n attrs c1] tolerance_score_bound[of n attrs c] by simp
    with True c1 best show ?thesis by auto
  next
    case False
    obtain b2 m2 where p2: "best_pass (tolerance_score n attrs) fs (b1, Some c1) = (b2, m2)" by fastforce
    from best_pass_spec[OF p2] have s2: "b1 \<le> b2" "\<forall>c\<in>set fs. tolerance_score n attrs c \<le> b2"
      "b2 = b1 \<and> m2 = Some c1 \<or> (\<exists>c\<in>set fs. m2 = Some c \<and> tolerance_score n attrs c = b2 \<and> b1 < b2)" by auto
    then obtain m where m: "m \<in> set fs" "m2 = Some m" "tolerance_score n attrs m \<ge> b2"
      using c1 tolerance_exact[of n attrs c1] by auto
    have none: "\<not> (\<exists>c\<in>set fs. exact_score n attrs c = int n)"
      using s1 False c1(3) exact_score_bound[of n attrs c1] by force
    have "\<forall>c\<in>set fs. tolerance_score n attrs c \<le> tolerance_score n attrs m" using s2(2) m(3) by force
    with False m best p2 none show ?thesis by auto
  qed
qed

lemma findBest_safe:
  assumes "n = nat (min (sint numArgs) 4)" "n \<le> length attrs"
  shows "findBestExtraAttrsMatch fs numArgs (Some attrs) \<noteq> None"
  using assms by (auto simp: findBestExtraAttrsMatch_def SIGNAL_EXTRA_ATTRS_COUNT_def Let_def split: prod.splits)

lemma findBest_member:
  assumes "findBestExtraAttrsMatch fs n e = Some (Some m, d)"
  shows "m \<in> set fs"
proof -
  obtain attrs where e: "e = Some attrs" using assms by (cases e) (auto simp: findBestExtraAttrsMatch_def)
  let ?n = "nat (min (sint n) (int SIGNAL_EXTRA_ATTRS_COUNT))"
  obtain b1 m1 where p1: "best_pass (exact_score ?n attrs) fs (-1, None) = (b1, m1)" by fastforce
  obtain b2 m2 where p2: "best_pass (tolerance_score ?n attrs) fs (b1, m1) = (b2, m2)" by fastforce
  have "m1 = None \<or> (\<exists>c\<in>set fs. m1 = Some c)" using best_pass_spec[OF p1] by auto
  moreover from this have "m2 = None \<or> (\<exists>c\<in>set fs. m2 = Some c)" using best_pass_spec[OF p2] by auto
  ultimately show ?thesis using assms p1 p2
    by (cases fs) (auto simp: findBestExtraAttrsMatch_def e Let_def split: if_splits option.splits)
qed

section \<open>Registrations\<close>

definition attr_key :: "SignalInfo \<Rightarrow> u32 list" where
  "attr_key s = map (\<lambda>i. mExtraAttrs s ! i) [0 ..< SIGNAL_EXTRA_ATTRS_COUNT]"

definition sig_key :: "SignalInfo \<Rightarrow> u64 \<times> u32 list option" where
  "sig_key s = (signalBitmap s, if mHasExtraAttrs s then Some (attr_key s) else None)"

lemma length_filter_all: "length (filter P xs) = length xs \<longleftrightarrow> (\<forall>x\<in>set xs. P x)"
proof (induction xs)
  case (Cons x xs)
  have "length (filter P xs) \<noteq> Suc (length xs)" using length_filter_le[of P xs] by linarith
  with Cons show ?case by simp
qed simp

lemma isDuplicateConfig_key: "isDuplicateConfig c s \<longleftrightarrow> attr_key c = attr_key s"
proof -
  have "isDuplicateConfig c s \<longleftrightarrow> (\<forall>i<SIGNAL_EXTRA_ATTRS_COUNT. mExtraAttrs c ! i = mExtraAttrs s ! i)"
    using length_filter_all[of "\<lambda>i. mExtraAttrs c ! i = mExtraAttrs s ! i" "[0..<SIGNAL_EXTRA_ATTRS_COUNT]"]
    by (auto simp: isDuplicateConfig_def)
  then show ?thesis by (auto simp: attr_key_def)
qed

definition find_variant :: "u32 list \<Rightarrow> SignalInfo list \<Rightarrow> SignalInfo option" where
  "find_variant k fs = map_of (map (\<lambda>s. (attr_key s, s)) fs) k"

definition find_config :: "u64 \<times> u32 list option \<Rightarrow> signal_registry \<Rightarrow> SignalInfo option" where
  "find_config key sr =
     (case mSignalsConfigs sr (fst key) of None \<Rightarrow> None
      | Some conf \<Rightarrow> (case snd key of None \<Rightarrow> mSignalInfo conf | Some k \<Rightarrow> find_variant k (mFeatureSignals conf)))"

definition stored_ok :: "u64 \<Rightarrow> bool \<Rightarrow> SignalInfo \<Rightarrow> bool" where
  "stored_ok key extra s \<longleftrightarrow> signalBitmap s = key \<and> mSignalCategory s \<noteq> 0 \<and> mHasExtraAttrs s = extra"

definition sig_inv :: "signal_registry \<Rightarrow> bool" where
  "sig_inv sr \<longleftrightarrow> (\<forall>key conf. mSignalsConfigs sr key = Some conf \<longrightarrow>
     (mSignalInfo conf \<noteq> None \<or> mFeatureSignals conf \<noteq> []) \<and>
     (\<forall>s. mSignalInfo conf = Some s \<longrightarrow> stored_ok key False s) \<and>
     (\<forall>s\<in>set (mFeatureSignals conf). stored_ok key True s) \<and>
     distinct (map attr_key (mFeatureSignals conf)))"

lemma replace_duplicate_spec:
  "case replace_duplicate s fs of
     None \<Rightarrow> attr_key s \<notin> attr_key ` set fs
   | Some l \<Rightarrow> attr_key s \<in> attr_key ` set fs \<and> map attr_key l = map attr_key fs \<and> set l \<subseteq> insert s (set fs) \<and>
       (distinct (map attr_key fs) \<longrightarrow>
         (\<forall>k. find_variant k l = (if k = attr_key s then Some s else find_variant k fs)))"
proof (induction fs)
  case Nil
  then show ?case by simp
next
  case (Cons c fs)
  then show ?case
    by (cases "attr_key c = attr_key s"; cases "replace_duplicate s fs")
       (auto simp: isDuplicateConfig_key find_variant_def)
qed

lemma addToFeatured_spec:
  assumes "addToFeaturedSigList fs s = (l, dup)" "distinct (map attr_key fs)"
  shows "distinct (map attr_key l) \<and> set l \<subseteq> insert s (set fs) \<and> l \<noteq> [] \<and> (dup \<longleftrightarrow> attr_key s \<in> attr_key ` set fs) \<and>
    (\<forall>k. find_variant k l = (if k = attr_key s then Some s else find_variant k fs))"
  using assms replace_duplicate_spec[of s fs]
  by (cases "replace_duplicate s fs") (auto simp: addToFeaturedSigList_def find_variant_def)

lemma find_variant_known: "find_variant k fs = None \<longleftrightarrow> k \<notin> attr_key ` set fs"
  by (auto simp: find_variant_def map_of_eq_None_iff image_image)

text \<open>One registration.\<close>

definition updated_conf :: "SignalInfo \<Rightarrow> SignalConf \<Rightarrow> SignalConf \<times> bool" where
  "updated_conf s conf =
     (if mHasExtraAttrs s then
        (if mFeatureSignals conf = [] then (conf\<lparr>mFeatureSignals := [s]\<rparr>, False)
         else (let (l, o') = addToFeaturedSigList (mFeatureSignals conf) s in (conf\<lparr>mFeatureSignals := l\<rparr>, o')))
      else (conf\<lparr>mSignalInfo := Some s\<rparr>, mSignalInfo conf \<noteq> None))"

lemma updated_conf_spec:
  assumes "updated_conf s conf = (conf', dup)" "distinct (map attr_key (mFeatureSignals conf))"
  shows "distinct (map attr_key (mFeatureSignals conf')) \<and> (mSignalInfo conf' \<noteq> None \<or> mFeatureSignals conf' \<noteq> []) \<and>
    (if mHasExtraAttrs s
     then mSignalInfo conf' = mSignalInfo conf \<and> set (mFeatureSignals conf') \<subseteq> insert s (set (mFeatureSignals conf)) \<and>
       (dup \<longleftrightarrow> find_variant (attr_key s) (mFeatureSignals conf) \<noteq> None) \<and>
       (\<forall>k. find_variant k (mFeatureSignals conf') =
         (if k = attr_key s then Some s else find_variant k (mFeatureSignals conf)))
     else mSignalInfo conf' = Some s \<and> mFeatureSignals conf' = mFeatureSignals conf \<and>
       (dup \<longleftrightarrow> mSignalInfo conf \<noteq> None))"
proof (cases "mHasExtraAttrs s \<and> mFeatureSignals conf \<noteq> []")
  case True
  obtain l d where "addToFeaturedSigList (mFeatureSignals conf) s = (l, d)" by fastforce
  with addToFeatured_spec[OF this assms(2)] True assms(1) show ?thesis
    by (auto simp: updated_conf_def find_variant_known)
next
  case False
  with assms show ?thesis by (auto simp: updated_conf_def find_variant_def)
qed

lemma registerSignal_eq:
  "registerSignal (Some s) sr =
     (if mSignalCategory s = 0 then sr
      else (let (conf, dup) = updated_conf s (case mSignalsConfigs sr (signalBitmap s) of Some c \<Rightarrow> c | None \<Rightarrow> SignalConf_init)
            in sr\<lparr>mSignalsConfigs := (mSignalsConfigs sr)(signalBitmap s \<mapsto> conf),
                  mTotalSignals := (if dup then mTotalSignals sr else mTotalSignals sr + 1)\<rparr>))"
  by (simp add: registerSignal_def isSignalConfigMalformed_def updated_conf_def Let_def)

lemma SignalRegistry_init_inv: "sig_inv SignalRegistry_init"
  by (simp add: sig_inv_def SignalRegistry_init_def)

definition conf_at :: "u64 \<Rightarrow> signal_registry \<Rightarrow> SignalConf" where
  "conf_at key sr = (case mSignalsConfigs sr key of Some c \<Rightarrow> c | None \<Rightarrow> SignalConf_init)"

lemma find_config_conf_at:
  "find_config key sr = (case snd key of None \<Rightarrow> mSignalInfo (conf_at (fst key) sr)
     | Some k \<Rightarrow> find_variant k (mFeatureSignals (conf_at (fst key) sr)))"
  by (auto simp: find_config_def conf_at_def SignalConf_init_def find_variant_def split: option.splits)

lemma conf_at_inv:
  assumes "sig_inv sr"
  shows "\<forall>s. mSignalInfo (conf_at key sr) = Some s \<longrightarrow> stored_ok key False s"
    and "\<forall>s\<in>set (mFeatureSignals (conf_at key sr)). stored_ok key True s"
    and "distinct (map attr_key (mFeatureSignals (conf_at key sr)))"
proof -
  have "mSignalsConfigs sr key = None \<or> mSignalsConfigs sr key = Some (conf_at key sr)"
    by (simp add: conf_at_def split: option.split)
  moreover have "mSignalsConfigs sr key = None \<Longrightarrow> conf_at key sr = SignalConf_init" by (simp add: conf_at_def)
  ultimately show "\<forall>s. mSignalInfo (conf_at key sr) = Some s \<longrightarrow> stored_ok key False s"
    "\<forall>s\<in>set (mFeatureSignals (conf_at key sr)). stored_ok key True s"
    "distinct (map attr_key (mFeatureSignals (conf_at key sr)))"
    using assms unfolding sig_inv_def by (auto simp: SignalConf_init_def)
qed

lemma register_conf:
  assumes "mSignalCategory s \<noteq> 0" "updated_conf s (conf_at (signalBitmap s) sr) = (conf', dup)"
  shows "registerSignal (Some s) sr =
    sr\<lparr>mSignalsConfigs := (mSignalsConfigs sr)(signalBitmap s \<mapsto> conf'),
       mTotalSignals := (if dup then mTotalSignals sr else mTotalSignals sr + 1)\<rparr>"
  using assms by (simp add: registerSignal_eq conf_at_def)

lemma registerSignal_spec:
  assumes "sig_inv sr" "mSignalCategory s \<noteq> 0"
  shows "sig_inv (registerSignal (Some s) sr) \<and>
    (\<forall>key. find_config key (registerSignal (Some s) sr) = (if key = sig_key s then Some s else find_config key sr)) \<and>
    mTotalSignals (registerSignal (Some s) sr) =
      (if find_config (sig_key s) sr = None then mTotalSignals sr + 1 else mTotalSignals sr)"
proof -
  obtain conf' dup where u: "updated_conf s (conf_at (signalBitmap s) sr) = (conf', dup)" by fastforce
  note spec = updated_conf_spec[OF u conf_at_inv(3)[OF assms(1)]]
  note reg = register_conf[OF assms(2) u]
  have at: "conf_at b (registerSignal (Some s) sr) = (if b = signalBitmap s then conf' else conf_at b sr)" for b
    by (simp add: reg conf_at_def)
  have "find_config key (registerSignal (Some s) sr) = (if key = sig_key s then Some s else find_config key sr)" for key
    using spec by (cases key) (auto simp: find_config_conf_at at sig_key_def split: option.splits if_splits)
  moreover have "dup \<longleftrightarrow> find_config (sig_key s) sr \<noteq> None"
    using spec by (auto simp: find_config_conf_at sig_key_def split: if_splits)
  moreover have "sig_inv (registerSignal (Some s) sr)"
  proof -
    have "stored_ok (signalBitmap s) (mHasExtraAttrs s) s" using assms(2) by (simp add: stored_ok_def)
    then have "\<forall>x. mSignalInfo conf' = Some x \<longrightarrow> stored_ok (signalBitmap s) False x"
      "\<forall>x\<in>set (mFeatureSignals conf'). stored_ok (signalBitmap s) True x"
      using spec conf_at_inv[OF assms(1), of "signalBitmap s"] by (auto split: if_splits)
    then show ?thesis using spec assms(1) unfolding sig_inv_def reg by (auto split: if_splits)
  qed
  ultimately show ?thesis by (simp add: reg)
qed

lemma registerSignal_malformed: "mSignalCategory s = 0 \<Longrightarrow> registerSignal (Some s) sr = sr"
  by (simp add: registerSignal_eq)

lemma registerSignal_inv: "sig_inv sr \<Longrightarrow> sig_inv (registerSignal (Some s) sr)"
  by (cases "mSignalCategory s = 0") (simp_all add: registerSignal_malformed registerSignal_spec)

interpretation signals: counted_store sig_inv "\<lambda>s. mSignalCategory s \<noteq> 0" sig_key "\<lambda>s. s" find_config
    "\<lambda>s. registerSignal (Some s)" getSignalsConfigCount
proof unfold_locales
  fix sr s x assume "sig_inv sr"
  then show "sig_inv (registerSignal (Some s) sr)"
    "find_config x (registerSignal (Some s) sr) =
      (if mSignalCategory s \<noteq> 0 \<and> x = sig_key s then Some s else find_config x sr)"
    "getSignalsConfigCount (registerSignal (Some s) sr) =
      (if mSignalCategory s \<noteq> 0 \<and> find_config (sig_key s) sr = None then getSignalsConfigCount sr + 1
       else getSignalsConfigCount sr)"
    by (cases "mSignalCategory s = 0";
        simp add: registerSignal_malformed registerSignal_spec getSignalsConfigCount_def)+
qed

section \<open>What a lookup finds\<close>

definition code_bitmap :: "u32 \<Rightarrow> u32 \<Rightarrow> u64" where
  "code_bitmap sigId sigType = push_bit 32 (ucast sigId) OR ucast sigType"

definition sigCode :: "SignalInfo \<Rightarrow> u32" where
  "sigCode s = ucast (mSignalID s) OR push_bit 16 (ucast (mSignalCategory s))"

lemma bit_code_bitmap:
  "bit (code_bitmap i t) n \<longleftrightarrow> (if n < 32 then bit t n else n < 64 \<and> bit i (n - 32))"
  using bit_imp_le_length[of i "n - 32"] bit_imp_le_length[of t n] by (auto simp: code_bitmap_def bit_simps)

lemma code_bitmap_inj: "code_bitmap i t = code_bitmap i' t' \<longleftrightarrow> i = i' \<and> t = t'"
proof
  assume e: "code_bitmap i t = code_bitmap i' t'"
  have "bit t n = bit t' n" for n
    using arg_cong[OF e, of "\<lambda>w. bit w n"] bit_imp_le_length[of t n] bit_imp_le_length[of t' n]
    by (auto simp: bit_code_bitmap)
  moreover have "bit i n = bit i' n" for n
    using arg_cong[OF e, of "\<lambda>w. bit w (n + 32)"] bit_imp_le_length[of i n] bit_imp_le_length[of i' n]
    by (auto simp: bit_code_bitmap)
  ultimately show "i = i' \<and> t = t'" by (simp add: bit_eq_iff)
qed simp

lemma signalBitmap_code: "signalBitmap s = code_bitmap (sigCode s) (mSigType s)"
  by (rule bit_eqI) (auto simp: signalBitmap_def code_bitmap_def sigCode_def bit_simps)

lemma sigCode_category: "mSignalCategory s \<noteq> 0 \<Longrightarrow> sigCode s \<noteq> 0"
proof
  assume "mSignalCategory s \<noteq> 0" "sigCode s = 0"
  then obtain n where "bit (mSignalCategory s) n" by (auto simp: bit_eq_iff)
  moreover from this have "n < 8" using bit_imp_le_length[of "mSignalCategory s" n] by simp
  ultimately have "bit (sigCode s) (n + 16)" by (auto simp: sigCode_def bit_simps)
  with \<open>sigCode s = 0\<close> show False by simp
qed

lemma lookup_plain:
  "getSignalConfigByIdAndType i t n None sr =
     Some (case find_config (code_bitmap i t, None) sr of Some s \<Rightarrow> Some s
           | None \<Rightarrow> (case mFeatureSignals (conf_at (code_bitmap i t) sr) of [] \<Rightarrow> None | s # _ \<Rightarrow> Some s), False)"
  by (auto simp: getSignalConfigByIdAndType_def code_bitmap_def find_config_def conf_at_def SignalConf_init_def Let_def
      split: option.splits)

lemma lookup_sound:
  assumes "sig_inv sr" "getSignalConfigByIdAndType i t n None sr = Some (Some s, d)"
  shows "sigCode s = i \<and> mSigType s = t \<and> mSignalCategory s \<noteq> 0 \<and> \<not> d"
proof -
  have "stored_ok (code_bitmap i t) (mHasExtraAttrs s) s \<and> \<not> d"
    using assms(2) conf_at_inv[OF assms(1), of "code_bitmap i t"]
    by (auto simp: lookup_plain find_config_conf_at stored_ok_def split: option.splits list.splits)
  then show ?thesis by (auto simp: stored_ok_def signalBitmap_code code_bitmap_inj)
qed

lemma getSignalConfigById_eq:
  "getSignalConfigById (code_bitmap i t) n e sr = getSignalConfigByIdAndType i t n e sr"
  by (simp add: getSignalConfigById_def getSignalConfigByIdAndType_def code_bitmap_def Let_def)

text \<open>A 64-bit key whose upper half is zero is never registered: the upper half holds the category.\<close>

lemma no_config_below:
  assumes "sig_inv sr"
  shows "getSignalConfigById (ucast (c :: u32)) n None sr = Some (None, False)"
proof -
  have "(ucast c :: u64) = code_bitmap 0 c" by (simp add: code_bitmap_def)
  moreover have "getSignalConfigByIdAndType 0 c n None sr = Some (None, False)"
    using lookup_sound[OF assms, of 0 c n] sigCode_category
    by (cases "fst (the (getSignalConfigByIdAndType 0 c n None sr))") (fastforce simp: lookup_plain)+
  ultimately show ?thesis by (simp add: getSignalConfigById_eq)
qed

end
