(* ===== verification/ExtFeatures.thy ===== *)
theory ExtFeatures
  imports Signals
begin

text \<open>
  \<^verbatim>\<open>ExtFeaturesRegistry.cpp\<close>, \<^verbatim>\<open>ExtFeatureMapper.cpp\<close> and
  \<^verbatim>\<open>AppConfigs.cpp\<close> of \<^verbatim>\<open>resource-tuner/signals\<close>: external features, the
  signals they subscribe to, and the configurations of applications. A library is what
  \<^verbatim>\<open>dlopen\<close> finds under its path: which of the three routines it defines. What is proved:
  the subscription of a feature never takes effect.
\<close>

section \<open>Features\<close>

record ExtFeatureInfo =
  mFeatureId :: u32
  mFeatureLib :: string
  mFeatureName :: string
  mSignalsSubscribedTo :: "u32 list option"

record ext_features =
  mTotalExtFeatures :: int
  mExtFeaturesConfigs :: "ExtFeatureInfo list"
  mFeatureIndex :: "u32 \<Rightarrow> int option"
  mSignalTofeaturesMap :: "u32 \<Rightarrow> u32 list option"

definition ExtFeaturesRegistry_init :: ext_features where
  "ExtFeaturesRegistry_init =
     \<lparr>mTotalExtFeatures = 0, mExtFeaturesConfigs = [], mFeatureIndex = (\<lambda>_. None), mSignalTofeaturesMap = (\<lambda>_. None)\<rparr>"

text \<open>
  \<^verbatim>\<open>SignalExtFeatureMapper::addFeature\<close>: the code is looked up as a 64-bit signal key,
  and the map is keyed by 32 bits.
\<close>

definition addFeature :: "signal_registry \<Rightarrow> u64 \<Rightarrow> i32 \<Rightarrow> ext_features \<Rightarrow> (bool \<times> ext_features) option" where
  "addFeature sr signalCode feature ef = do {
     (info, _) \<leftarrow> getSignalConfigById signalCode 0 None sr;
     Some (case info of None \<Rightarrow> (False, ef)
       | Some _ \<Rightarrow> (True, ef\<lparr>mSignalTofeaturesMap := (mSignalTofeaturesMap ef)(ucast signalCode \<mapsto>
           (case mSignalTofeaturesMap ef (ucast signalCode) of None \<Rightarrow> [] | Some fs \<Rightarrow> fs) @ [feature])\<rparr>)) }"

definition getFeatures :: "u64 \<Rightarrow> u32 list \<Rightarrow> ext_features \<Rightarrow> bool \<times> u32 list" where
  "getFeatures signalCode features ef =
     (case mSignalTofeaturesMap ef (ucast signalCode) of None \<Rightarrow> (False, features) | Some fs \<Rightarrow> (True, fs))"

definition subscribe :: "signal_registry \<Rightarrow> u32 \<Rightarrow> u32 \<Rightarrow> ext_features \<Rightarrow> ext_features option" where
  "subscribe sr featureId signalCode ef = map_option snd (addFeature sr (ucast signalCode) featureId ef)"

text \<open>A feature that subscribes to nothing has no vector, which is a fault.\<close>

definition registerExtFeature :: "signal_registry \<Rightarrow> ExtFeatureInfo option \<Rightarrow> ext_features \<Rightarrow> ext_features option" where
  "registerExtFeature sr featureInfo ef =
     (case featureInfo of None \<Rightarrow> Some ef
      | Some f \<Rightarrow>
          (if length (mFeatureLib f) = 0 then Some ef
           else (case mSignalsSubscribedTo f of None \<Rightarrow> None
             | Some codes \<Rightarrow> foldM (subscribe sr (mFeatureId f)) codes
                 (ef\<lparr>mFeatureIndex := (mFeatureIndex ef)(mFeatureId f \<mapsto> mTotalExtFeatures ef),
                     mExtFeaturesConfigs := mExtFeaturesConfigs ef @ [f],
                     mTotalExtFeatures := mTotalExtFeatures ef + 1\<rparr>))))"

definition getExtFeaturesConfigs :: "ext_features \<Rightarrow> ExtFeatureInfo list" where
  "getExtFeaturesConfigs ef = mExtFeaturesConfigs ef"

definition getExtFeatureConfigById :: "u32 \<Rightarrow> ext_features \<Rightarrow> ExtFeatureInfo option option" where
  "getExtFeatureConfigById featureId ef =
     (case mFeatureIndex ef featureId of None \<Rightarrow> Some None
      | Some i \<Rightarrow> if 0 \<le> i \<and> i < int (length (mExtFeaturesConfigs ef)) then Some (Some (mExtFeaturesConfigs ef ! nat i))
                  else None)"

definition getExtFeaturesConfigCount :: "ext_features \<Rightarrow> i32" where
  "getExtFeaturesConfigCount ef = word_of_nat (length (mExtFeaturesConfigs ef))"

section \<open>Calls into the libraries\<close>

record feature_lib =
  has_init :: bool
  has_tear :: bool
  has_relay :: bool

datatype relay_call = RelayCall string u32 "u8 list" "u8 list" i32 "u32 list option"

definition initializeFeatures :: "(string \<Rightarrow> feature_lib option) \<Rightarrow> ext_features \<Rightarrow> string list" where
  "initializeFeatures openLib ef =
     concat (map (\<lambda>f. case openLib (mFeatureLib f) of Some l \<Rightarrow> if has_init l then [mFeatureLib f] else [] | None \<Rightarrow> [])
       (mExtFeaturesConfigs ef))"

definition teardownFeatures :: "(string \<Rightarrow> feature_lib option) \<Rightarrow> ext_features \<Rightarrow> string list" where
  "teardownFeatures openLib ef =
     concat (map (\<lambda>f. case openLib (mFeatureLib f) of Some l \<Rightarrow> if has_tear l then [mFeatureLib f] else [] | None \<Rightarrow> [])
       (mExtFeaturesConfigs ef))"

definition relayToFeature ::
    "(string \<Rightarrow> feature_lib option) \<Rightarrow> u32 \<Rightarrow> signal \<Rightarrow> ext_features \<Rightarrow> (ErrCode \<times> relay_call list) option" where
  "relayToFeature openLib featureId sig ef = do {
     info \<leftarrow> getExtFeatureConfigById featureId ef;
     Some (case info of None \<Rightarrow> (RC_INVALID_VALUE, [])
       | Some f \<Rightarrow> (case openLib (mFeatureLib f) of None \<Rightarrow> (RC_INVALID_VALUE, [])
           | Some l \<Rightarrow> (RC_SUCCESS, if has_relay l
               then [RelayCall (mFeatureLib f) (mSignalCode sig) (mAppName sig) (mScenario sig) (mNumArgs sig) (mListArgs sig)]
               else []))) }"

section \<open>The builder of a feature\<close>

definition ExtFeatureInfoBuilder_init :: "bool \<Rightarrow> ExtFeatureInfo option" where
  "ExtFeatureInfoBuilder_init new_ok =
     (if new_ok then Some \<lparr>mFeatureId = 0, mFeatureLib = '''', mFeatureName = '''', mSignalsSubscribedTo = None\<rparr> else None)"

definition setId :: "string \<Rightarrow> ExtFeatureInfo option \<Rightarrow> ErrCode \<times> ExtFeatureInfo option" where
  "setId str b =
     (case b of None \<Rightarrow> (RC_INVALID_VALUE, b)
      | Some f \<Rightarrow> (case stol str of None \<Rightarrow> (RC_INVALID_VALUE, Some (f\<lparr>mFeatureId := 0\<rparr>))
          | Some v \<Rightarrow> (RC_SUCCESS, Some (f\<lparr>mFeatureId := word_of_int v\<rparr>))))"

definition setFeatureName :: "string \<Rightarrow> ExtFeatureInfo option \<Rightarrow> ErrCode \<times> ExtFeatureInfo option" where
  "setFeatureName featureName b =
     (case b of None \<Rightarrow> (RC_INVALID_VALUE, b) | Some f \<Rightarrow> (RC_SUCCESS, Some (f\<lparr>mFeatureName := featureName\<rparr>)))"

definition setLib :: "string \<Rightarrow> ExtFeatureInfo option \<Rightarrow> ErrCode \<times> ExtFeatureInfo option" where
  "setLib featureLib b =
     (case b of None \<Rightarrow> (RC_INVALID_VALUE, b) | Some f \<Rightarrow> (RC_SUCCESS, Some (f\<lparr>mFeatureLib := featureLib\<rparr>)))"

definition addSignalSubscribedTo :: "bool \<Rightarrow> string \<Rightarrow> ExtFeatureInfo option \<Rightarrow> ErrCode \<times> ExtFeatureInfo option" where
  "addSignalSubscribedTo vec_ok sigCodeString b =
     (case b of None \<Rightarrow> (RC_INVALID_VALUE, b)
      | Some f \<Rightarrow>
         (if length sigCodeString = 0 then (RC_INVALID_VALUE, b)
          else (case stol sigCodeString of None \<Rightarrow> (RC_INVALID_VALUE, b)
            | Some v \<Rightarrow> (case mSignalsSubscribedTo f of
                Some codes \<Rightarrow> (RC_SUCCESS, Some (f\<lparr>mSignalsSubscribedTo := Some (codes @ [word_of_int v])\<rparr>))
              | None \<Rightarrow> if vec_ok then (RC_SUCCESS, Some (f\<lparr>mSignalsSubscribedTo := Some [word_of_int v]\<rparr>))
                        else (RC_INVALID_VALUE, b)))))"

section \<open>Subscriptions\<close>

lemma subscribe_nothing: "sig_inv sr \<Longrightarrow> subscribe sr fid code ef = Some ef"
  by (simp add: subscribe_def addFeature_def no_config_below)

lemma subscribe_all_nothing: "sig_inv sr \<Longrightarrow> foldM (subscribe sr fid) codes ef = Some ef"
  by (induction codes) (simp_all add: subscribe_nothing)

lemma registerExtFeature_spec:
  assumes "sig_inv sr" "registerExtFeature sr f ef = Some ef'"
  shows "mSignalTofeaturesMap ef' = mSignalTofeaturesMap ef"
  using assms(2) by (auto simp: registerExtFeature_def subscribe_all_nothing[OF assms(1)] split: option.splits if_splits)

lemma registered_features_unused:
  assumes "foldM (\<lambda>x. registerExtFeature (fst x) (snd x)) regs ef = Some ef'" "\<forall>x\<in>set regs. sig_inv (fst x)"
  shows "mSignalTofeaturesMap ef' = mSignalTofeaturesMap ef"
  using assms
proof (induction regs arbitrary: ef)
  case (Cons x regs)
  from Cons.prems(1) obtain ef1 where "registerExtFeature (fst x) (snd x) ef = Some ef1"
    "foldM (\<lambda>x. registerExtFeature (fst x) (snd x)) regs ef1 = Some ef'" by (auto split: option.splits)
  with Cons.IH[of ef1] Cons.prems(2) registerExtFeature_spec show ?case by fastforce
qed simp

definition feature_index_ok :: "ext_features \<Rightarrow> bool" where
  "feature_index_ok ef \<longleftrightarrow> mTotalExtFeatures ef = int (length (mExtFeaturesConfigs ef)) \<and>
     (\<forall>k i. mFeatureIndex ef k = Some i \<longrightarrow> 0 \<le> i \<and> i < mTotalExtFeatures ef)"

lemma feature_index_init: "feature_index_ok ExtFeaturesRegistry_init"
  by (simp add: feature_index_ok_def ExtFeaturesRegistry_init_def)

lemma feature_index_register:
  assumes "sig_inv sr" "feature_index_ok ef" "registerExtFeature sr f ef = Some ef'"
  shows "feature_index_ok ef'"
  using assms(2,3) by (force simp: feature_index_ok_def registerExtFeature_def subscribe_all_nothing[OF assms(1)]
      split: option.splits if_splits)

lemma getExtFeatureConfigById_defined: "feature_index_ok ef \<Longrightarrow> getExtFeatureConfigById k ef \<noteq> None"
  by (fastforce simp: feature_index_ok_def getExtFeatureConfigById_def split: option.splits)

section \<open>Application configurations\<close>

text \<open>An element of a new array of integers holds no value until it is written.\<close>

record AppConfig =
  mAppName :: string
  mNumThreads :: i32
  mThreadNameList :: "string list option"
  mCGroupIds :: "i32 option list option"
  mNumSignals :: i32
  mSignalCodes :: "u32 option list option"

type_synonym app_configs = "string \<Rightarrow> AppConfig option option"

definition registerAppConfig :: "AppConfig option \<Rightarrow> app_configs \<Rightarrow> app_configs" where
  "registerAppConfig appConfig m = (case appConfig of None \<Rightarrow> m | Some c \<Rightarrow> m(mAppName c \<mapsto> Some c))"

text \<open>Reading an unknown name inserts a null pointer.\<close>

definition getAppConfig :: "string \<Rightarrow> app_configs \<Rightarrow> AppConfig option \<times> app_configs" where
  "getAppConfig name m = (case m name of Some c \<Rightarrow> (c, m) | None \<Rightarrow> (None, m(name \<mapsto> None)))"

definition AppConfigBuilder_init :: "bool \<Rightarrow> AppConfig option" where
  "AppConfigBuilder_init new_ok =
     (if new_ok then Some \<lparr>mAppName = '''', mNumThreads = 0, mThreadNameList = None, mCGroupIds = None,
        mNumSignals = 0, mSignalCodes = None\<rparr> else None)"

definition setAppName :: "string \<Rightarrow> AppConfig option \<Rightarrow> ErrCode \<times> AppConfig option" where
  "setAppName name b =
     (case b of None \<Rightarrow> (RC_MEMORY_ALLOCATION_FAILURE, b) | Some c \<Rightarrow> (RC_SUCCESS, Some (c\<lparr>mAppName := name\<rparr>)))"

text \<open>A negative length and a failed allocation throw.\<close>

definition setNumThreads :: "bool \<Rightarrow> bool \<Rightarrow> i32 \<Rightarrow> AppConfig option \<Rightarrow> ErrCode \<times> AppConfig option" where
  "setNumThreads names_ok ids_ok threadCnt b =
     (case b of None \<Rightarrow> (RC_MEMORY_ALLOCATION_FAILURE, b)
      | Some c \<Rightarrow>
         (let c = c\<lparr>mNumThreads := threadCnt\<rparr>; n = nat (sint threadCnt)
          in if sint threadCnt < 0 \<or> \<not> names_ok then (RC_INVALID_VALUE, Some c)
             else (let c = c\<lparr>mThreadNameList := Some (replicate n '''')\<rparr>
                   in if \<not> ids_ok then (RC_INVALID_VALUE, Some c)
                      else (RC_SUCCESS, Some (c\<lparr>mCGroupIds := Some (replicate n None)\<rparr>)))))"

definition read_cgroup :: "string \<Rightarrow> i32" where
  "read_cgroup cGroup =
     (case stoi10 cGroup of Some v \<Rightarrow> word_of_int v
      | None \<Rightarrow> (let (code, found) = getResCodeFromString cGroup in if found then code else -1))"

definition addThreadMapping :: "i32 \<Rightarrow> string \<Rightarrow> string \<Rightarrow> AppConfig option \<Rightarrow> (ErrCode \<times> AppConfig option) option" where
  "addThreadMapping index threadName cGroup b =
     (case b of None \<Rightarrow> Some (RC_MEMORY_ALLOCATION_FAILURE, b)
      | Some c \<Rightarrow>
         (case mThreadNameList c of None \<Rightarrow> Some (RC_MEMORY_ALLOCATION_FAILURE, b)
          | Some names \<Rightarrow>
             (if read_cgroup cGroup = -1 then Some (RC_INVALID_VALUE, b)
              else (case mCGroupIds c of None \<Rightarrow> None
                | Some ids \<Rightarrow>
                   (let i = nat (sint index)
                    in if sint index < 0 \<or> length names \<le> i \<or> length ids \<le> i then None
                       else Some (RC_SUCCESS, Some (c\<lparr>mThreadNameList := Some (names[i := threadName]),
                              mCGroupIds := Some (ids[i := Some (read_cgroup cGroup)])\<rparr>)))))))"

definition setNumSigCodes :: "bool \<Rightarrow> i32 \<Rightarrow> AppConfig option \<Rightarrow> ErrCode \<times> AppConfig option" where
  "setNumSigCodes codes_ok count b =
     (case b of None \<Rightarrow> (RC_MEMORY_ALLOCATION_FAILURE, b)
      | Some c \<Rightarrow>
         (let c = c\<lparr>mNumSignals := count\<rparr>
          in if sint count < 0 \<or> \<not> codes_ok then (RC_INVALID_VALUE, Some c)
             else (RC_SUCCESS, Some (c\<lparr>mSignalCodes := Some (replicate (nat (sint count)) None)\<rparr>))))"

definition addSigCode :: "i32 \<Rightarrow> string \<Rightarrow> AppConfig option \<Rightarrow> (ErrCode \<times> AppConfig option) option" where
  "addSigCode index sigCodeStr b =
     (case b of None \<Rightarrow> Some (RC_MEMORY_ALLOCATION_FAILURE, b)
      | Some c \<Rightarrow>
         (case mSignalCodes c of None \<Rightarrow> Some (RC_MEMORY_ALLOCATION_FAILURE, b)
          | Some codes \<Rightarrow>
             (case stol sigCodeStr of None \<Rightarrow> Some (RC_INVALID_VALUE, b)
              | Some v \<Rightarrow>
                 (let i = nat (sint index)
                  in if sint index < 0 \<or> length codes \<le> i then None
                     else Some (RC_SUCCESS, Some (c\<lparr>mSignalCodes := Some (codes[i := Some (word_of_int v)])\<rparr>))))))"

definition build_app :: "AppConfig option \<Rightarrow> AppConfig option" where
  "build_app b = b"

definition build_app_named :: "bool \<Rightarrow> string \<Rightarrow> AppConfig option \<Rightarrow> AppConfig option" where
  "build_app_named new_ok appName b =
     (case b of None \<Rightarrow> None | Some c \<Rightarrow> if new_ok then Some (c\<lparr>mAppName := appName\<rparr>) else None)"

text \<open>Configurations of applications are found under their name.\<close>

interpretation apps: keyed_store "\<lambda>_. True" "\<lambda>_. True" mAppName "\<lambda>c. c"
    "\<lambda>name m. fst (getAppConfig name m)" "\<lambda>c. registerAppConfig (Some c)"
  by unfold_locales (auto simp: getAppConfig_def registerAppConfig_def split: option.splits)

end
