(* ===== verification/SignalHandler.thy ===== *)
theory SignalHandler
  imports ServerReach ExtFeatures
begin

text \<open>
  \<^verbatim>\<open>resource-tuner/signals/SignalHandler.cpp\<close>: a signal from a client is checked, and turned
  into a tune or untune request whose resources come from the configuration of the signal, with the
  arguments of the signal in place of the placeholders. What is proved: which requests are built,
  and that every event of a signal keeps the invariant of the daemon.
\<close>

section \<open>Verification\<close>

definition getRequestPriority :: "i8 \<Rightarrow> i8 \<Rightarrow> i8" where
  "getRequestPriority clientPermissions reqSpecifiedPriority =
     (if clientPermissions = PERMISSION_SYSTEM then
        (if reqSpecifiedPriority = REQ_PRIORITY_HIGH then SYSTEM_HIGH
         else if reqSpecifiedPriority = REQ_PRIORITY_LOW then SYSTEM_LOW else -1)
      else if clientPermissions = PERMISSION_THIRD_PARTY then
        (if reqSpecifiedPriority = REQ_PRIORITY_HIGH then THIRD_PARTY_HIGH
         else if reqSpecifiedPriority = REQ_PRIORITY_LOW then THIRD_PARTY_LOW else -1)
      else -1)"

text \<open>A configuration without a vector of permissions is a fault: its null pointer is iterated.\<close>

definition VerifyIncomingRequest :: "signal_registry \<Rightarrow> client_data \<Rightarrow> signal \<Rightarrow> (bool \<times> signal) option" where
  "VerifyIncomingRequest sr cd sig = do {
     (signalInfo, _) \<leftarrow> getSignalConfigByIdAndType (mSignalCode sig) (mSignalType sig) 0 None sr;
     (case signalInfo of None \<Rightarrow> Some (False, sig)
      | Some info \<Rightarrow>
         (let clientPermissions = getClientLevelByID (getClientPID sig) cd;
              reqSpecifiedPriority = getPriority sig;
              allowedPriority = getRequestPriority clientPermissions reqSpecifiedPriority
          in if clientPermissions = -1 then Some (False, sig)
             else if sint reqSpecifiedPriority > sint REQ_PRIORITY_LOW \<or> sint reqSpecifiedPriority < sint REQ_PRIORITY_HIGH
             then Some (False, sig)
             else if allowedPriority = -1 then Some (False, sig)
             else (let sig = setPriority allowedPriority sig
                   in case mPermissions info of None \<Rightarrow> None
                      | Some ps \<Rightarrow>
                          if clientPermissions \<notin> set ps then Some (False, sig)
                          else Some (True, if getDuration sig = 0 then setDuration (scast (mTimeout info)) sig
                                           else sig)))) }"

section \<open>From a signal to a request\<close>

text \<open>
  The placeholders of one resource, from value \<open>j\<close> on: the resource and the next index into the
  arguments, or \<open>Inl ()\<close> where the source gives up.
\<close>

fun fill_placeholders :: "nat list \<Rightarrow> signal \<Rightarrow> nat \<Rightarrow> resource \<Rightarrow> (unit + nat \<times> resource) option" where
  "fill_placeholders [] sig listIndex r = Some (Inr (listIndex, r))"
| "fill_placeholders (j # js) sig listIndex r = do {
     v \<leftarrow> getValueAt r (word_of_nat j);
     (if v = NSIG_PLACEHOLDER then
        (if mListArgs sig = None then Some (Inl ())
         else if int listIndex < sint (mNumArgs sig) then do {
           arg \<leftarrow> getListArgAt sig (word_of_nat listIndex);
           (_, r) \<leftarrow> setValueAt (word_of_nat j) arg r;
           fill_placeholders js sig (Suc listIndex) r }
         else Some (Inl ()))
      else fill_placeholders js sig listIndex r) }"

text \<open>
  The resources of the signal from number \<open>i\<close> on; \<open>fill\<close> replaces the placeholders of a copy and
  carries the index into the arguments along. The first component is false where the source
  returns a null pointer; what was allocated by then stays allocated.
\<close>

fun add_locks ::
    "alloc_source \<Rightarrow> nat \<Rightarrow> resource option list \<Rightarrow> (nat \<Rightarrow> resource \<Rightarrow> (unit + nat \<times> resource) option) \<Rightarrow> nat \<Rightarrow>
       res_heap \<Rightarrow> request \<Rightarrow> (bool \<times> res_heap \<times> request) option" where
  "add_locks al i [] fill listIndex h req = Some (True, h, req)"
| "add_locks al i (None # locks) fill listIndex h req = add_locks al (Suc i) locks fill listIndex h req"
| "add_locks al i (Some lock # locks) fill listIndex h req =
     (if \<not> res_block al i then Some (False, h, req)
      else do {
        r \<leftarrow> Resource_copy (val_array al i) lock;
        filled \<leftarrow> fill listIndex r;
        (case filled of Inl _ \<Rightarrow> Some (False, h, req)
         | Inr (listIndex, r) \<Rightarrow>
            (case iter_block al i of None \<Rightarrow> Some (False, h, req)
             | Some a \<Rightarrow> do {
                 (h, req) \<leftarrow> addResource (list_block al i)
                   (h(a \<mapsto> \<lparr>nd_next = (\<lambda>_. None), nd_prev = (\<lambda>_. None), mData = r\<rparr>)) req a;
                 add_locks al (Suc i) locks fill listIndex h req })) })"

definition fill_all :: "signal \<Rightarrow> nat \<Rightarrow> resource \<Rightarrow> (unit + nat \<times> resource) option" where
  "fill_all sig listIndex r = fill_placeholders [0 ..< nat (sint (getValuesCount r))] sig listIndex r"

definition CONSTRUCT_SIG_CODE :: "u32 \<Rightarrow> u32 \<Rightarrow> u32" where
  "CONSTRUCT_SIG_CODE sigCat sigID = (0 OR sigID) OR push_bit 16 sigCat"

text \<open>
  \<open>block\<close> is the fresh request object, if the pool has one; the result has the request as it was
  left when one was allocated. A signal without a vector of resources is a fault.
\<close>

definition createResourceTuningRequest ::
    "signal_registry \<Rightarrow> alloc_source \<Rightarrow> request option \<Rightarrow> signal \<Rightarrow> res_heap \<Rightarrow>
       (bool \<times> res_heap \<times> request option) option" where
  "createResourceTuningRequest sr al block sig h = do {
     (signalInfo, _) \<leftarrow> getSignalConfigByIdAndType (mSignalCode sig) (mSignalType sig) 0 None sr;
     (case signalInfo of None \<Rightarrow> Some (False, h, None)
      | Some info \<Rightarrow>
         (case block of None \<Rightarrow> Some (False, h, None)
          | Some raw \<Rightarrow>
             (let req = setSource (ucast (CONSTRUCT_SIG_CODE (mSignalCode sig) (mSignalType sig)))
                    (setClientTID (getClientTID sig) (setClientPID (getClientPID sig)
                    (setProperties (getProperties sig) (setDuration (getDuration sig)
                    (setHandle (getHandle sig) (setRequestType REQ_RESOURCE_TUNING (Request_init raw)))))))
              in case mSignalResources info of None \<Rightarrow> None
                 | Some signalLocks \<Rightarrow>
                     map_option (\<lambda>(ok, h, req). (ok, h, Some req)) (add_locks al 0 signalLocks (fill_all sig) 0 h req)))) }"

definition createResourceUntuneRequest :: "request option \<Rightarrow> signal \<Rightarrow> request option" where
  "createResourceUntuneRequest block sig =
     map_option (\<lambda>raw. setClientTID (getClientTID sig) (setClientPID (getClientPID sig)
       (setProperties (getProperties sig) (setDuration (-1) (setHandle (getHandle sig)
       (setRequestType REQ_RESOURCE_UNTUNING (Request_init raw))))))) block"

section \<open>Processing a signal\<close>

record signal_env =
  sg_registry :: signal_registry
  sg_features :: ext_features
  sg_open :: "string \<Rightarrow> feature_lib option"

text \<open>
  Two readings of the surroundings: \<open>ar\<close> when the signal is checked, \<open>ar'\<close> when the request made
  from it is. The second result is the calls into feature libraries.
\<close>

definition hold_request :: "addr \<Rightarrow> request \<Rightarrow> res_heap \<Rightarrow> server \<Rightarrow> server" where
  "hold_request a req h sv = sv\<lparr>sv_objs := (sv_objs sv)(a \<mapsto> req), sv_coco := (sv_coco sv)\<lparr>c_heap := h\<rparr>\<rparr>"

definition signal_tune ::
    "server_env \<Rightarrow> signal_env \<Rightarrow> arrival \<Rightarrow> alloc_source \<Rightarrow> (addr \<times> request) option \<Rightarrow> signal \<Rightarrow> server \<Rightarrow> server option" where
  "signal_tune env sg ar al block sig sv = do {
     (valid, sig) \<leftarrow> VerifyIncomingRequest (sg_registry sg) (sv_clients sv) sig;
     (if \<not> valid then Some sv
      else do {
        (ok, h, req) \<leftarrow> createResourceTuningRequest (sg_registry sg) al (map_option snd block) sig (c_heap (sv_coco sv));
        (case (req, block) of
           (Some req, Some (a, _)) \<Rightarrow>
             (let sv = hold_request a req h sv in if ok then processIncomingRequest env ar False a sv else Some sv)
         | _ \<Rightarrow> Some sv) }) }"

definition signal_untune ::
    "server_env \<Rightarrow> arrival \<Rightarrow> (addr \<times> request) option \<Rightarrow> signal \<Rightarrow> server \<Rightarrow> server option" where
  "signal_untune env ar block sig sv =
     (case (createResourceUntuneRequest (map_option snd block) sig, block) of
        (Some req, Some (a, _)) \<Rightarrow> processIncomingRequest env ar True a (hold_request a req (c_heap (sv_coco sv)) sv)
      | _ \<Rightarrow> Some sv)"

fun relay_all :: "signal_env \<Rightarrow> signal \<Rightarrow> u32 list \<Rightarrow> relay_call list option" where
  "relay_all sg sig [] = Some []"
| "relay_all sg sig (featureId # fs) = do {
     (_, calls) \<leftarrow> relayToFeature (sg_open sg) featureId sig (sg_features sg);
     more \<leftarrow> relay_all sg sig fs;
     Some (calls @ more) }"

definition signal_relay :: "signal_env \<Rightarrow> signal \<Rightarrow> relay_call list option" where
  "signal_relay sg sig =
     (case getFeatures (ucast (mSignalCode sig)) [] (sg_features sg) of
        (featureExist, subscribedFeatures) \<Rightarrow>
          if featureExist then relay_all sg sig subscribedFeatures else Some [])"

definition signal_client_checks :: "server_env \<Rightarrow> arrival \<Rightarrow> signal \<Rightarrow> server \<Rightarrow> bool \<times> server" where
  "signal_client_checks env ar sig sv =
     (if \<not> isGlobalRateLimitHonored (se_maxConcurrentRequests env) (getActiveReqeustsCount (sv_rm sv)) then (False, sv)
      else if getRequestType sig = REQ_SIGNAL_RELAY \<or> getRequestType sig = REQ_SIGNAL_TUNING then
        (if clientExists (getClientPID sig) (getClientTID sig) (sv_clients sv) then (True, sv)
         else (case createNewClient (ar_tid_block ar) (ar_info_block ar) (ar_permission ar)
                      (getClientPID sig) (getClientTID sig) (sv_clients sv) of
                 (ok, cd) \<Rightarrow> (ok, sv\<lparr>sv_clients := cd\<rparr>)))
      else (clientExists (getClientPID sig) (getClientTID sig) (sv_clients sv), sv))"

definition processIncomingSignal ::
    "server_env \<Rightarrow> signal_env \<Rightarrow> arrival \<Rightarrow> arrival \<Rightarrow> alloc_source \<Rightarrow> (addr \<times> request) option \<Rightarrow> signal \<Rightarrow> server \<Rightarrow>
       (server \<times> relay_call list) option" where
  "processIncomingSignal env sg ar ar' al block sig sv =
     (case signal_client_checks env ar sig sv of
        (False, sv) \<Rightarrow> Some (sv, [])
      | (True, sv) \<Rightarrow> do {
          (honored, cd) \<leftarrow> isRateLimitHonored (se_rounding env) (se_rate env) (ar_now ar) (getClientTID sig) (sv_clients sv);
          let sv = sv\<lparr>sv_clients := cd\<rparr>;
          (if \<not> honored then Some (sv, [])
           else if getRequestType sig = REQ_SIGNAL_TUNING
           then map_option (\<lambda>sv. (sv, [])) (signal_tune env sg ar' al block sig sv)
           else if getRequestType sig = REQ_SIGNAL_UNTUNING
           then map_option (\<lambda>sv. (sv, [])) (signal_untune env ar' block sig sv)
           else if getRequestType sig = REQ_SIGNAL_RELAY then map_option (\<lambda>calls. (sv, calls)) (signal_relay sg sig)
           else Some (sv, [])) })"

definition submitSignalRequest ::
    "server_env \<Rightarrow> signal_env \<Rightarrow> arrival \<Rightarrow> arrival \<Rightarrow> alloc_source \<Rightarrow> (addr \<times> request) option \<Rightarrow>
       signal option \<Rightarrow> bool \<Rightarrow> u8 list \<Rightarrow> i64 \<Rightarrow> server \<Rightarrow> (server \<times> relay_call list) option" where
  "submitSignalRequest env sg ar ar' al block sig_block vec_ok buf handle sv =
     (case sig_block of None \<Rightarrow> Some (sv, [])
      | Some raw \<Rightarrow> do {
          (rc, sig) \<leftarrow> Signal_deserialize vec_ok buf raw;
          (if RC_IS_NOTOK rc then Some (sv, [])
           else processIncomingSignal env sg ar ar' al block
             (if getRequestType sig = REQ_SIGNAL_TUNING then setHandle handle sig else sig) sv) })"

section \<open>Signals of the daemon itself\<close>

text \<open>
  \<^verbatim>\<open>acquireSignal\<close>, which the classifier and the extensions call. Its arguments start over
  with every resource, and a placeholder without an argument stays.
\<close>

fun fill_some :: "nat list \<Rightarrow> i32 \<Rightarrow> u32 list option \<Rightarrow> nat \<Rightarrow> resource \<Rightarrow> (unit + resource) option" where
  "fill_some [] numArgs args listIndex r = Some (Inr r)"
| "fill_some (j # js) numArgs args listIndex r = do {
     v \<leftarrow> getValueAt r (word_of_nat j);
     (if v = NSIG_PLACEHOLDER then
        (case args of None \<Rightarrow> Some (Inl ())
         | Some xs \<Rightarrow>
            if int listIndex < sint numArgs then
              (if listIndex < length xs then do {
                 (_, r) \<leftarrow> setValueAt (word_of_nat j) (xs ! listIndex) r;
                 fill_some js numArgs args (Suc listIndex) r }
               else None)
            else fill_some js numArgs args listIndex r)
      else fill_some js numArgs args listIndex r) }"

definition fill_each :: "i32 \<Rightarrow> u32 list option \<Rightarrow> nat \<Rightarrow> resource \<Rightarrow> (unit + nat \<times> resource) option" where
  "fill_each numArgs args k r =
     map_option (map_sum id (\<lambda>r. (k, r))) (fill_some [0 ..< nat (sint (getValuesCount r))] numArgs args 0 r)"

text \<open>The third result tells whether the filter array of the caller was deleted.\<close>

definition createTuneRequestFromSignal ::
    "signal_registry \<Rightarrow> alloc_source \<Rightarrow> request option \<Rightarrow> u32 \<Rightarrow> u32 \<Rightarrow> i32 \<Rightarrow> i32 \<Rightarrow> i32 \<Rightarrow> u32 list option \<Rightarrow>
       i32 \<Rightarrow> u32 list option \<Rightarrow> int \<Rightarrow> res_heap \<Rightarrow> (bool \<times> res_heap \<times> request option \<times> bool \<times> int) option" where
  "createTuneRequestFromSignal sr al block sigId sigType incomingPID incomingTID numFilterArgs filterArgs numArgs args gen h = do {
     (signalInfo, freed) \<leftarrow> getSignalConfigByIdAndType sigId sigType numFilterArgs filterArgs sr;
     (case signalInfo of None \<Rightarrow> Some (False, h, None, freed, gen)
      | Some info \<Rightarrow>
         (case block of None \<Rightarrow> Some (False, h, None, freed, gen)
          | Some raw \<Rightarrow> do {
             (handle, gen) \<leftarrow> generateUniqueHandle gen;
             let req = setClientTID incomingTID (setClientPID incomingPID (setProperties (scast SYSTEM_HIGH)
                   (setDuration (scast (mTimeout info)) (setRequestType REQ_RESOURCE_TUNING
                   (setHandle (word_of_int handle) (Request_init raw))))));
             (case mSignalResources info of None \<Rightarrow> None
              | Some signalLocks \<Rightarrow>
                  map_option (\<lambda>(ok, h, req). (ok, h, Some req, freed, gen))
                    (add_locks al 0 signalLocks (fill_each numArgs args) 0 h req)) })) }"

definition acquireSignal ::
    "server_env \<Rightarrow> signal_registry \<Rightarrow> arrival \<Rightarrow> alloc_source \<Rightarrow> (addr \<times> request) option \<Rightarrow> u32 \<Rightarrow> u32 \<Rightarrow> i32 \<Rightarrow> i32 \<Rightarrow>
       i32 \<Rightarrow> u32 list option \<Rightarrow> i32 \<Rightarrow> u32 list option \<Rightarrow> int \<Rightarrow> server \<Rightarrow> (i64 \<times> int \<times> server) option" where
  "acquireSignal env sr ar al block sigId sigType incomingPID incomingTID numFilterArgs filterArgs numArgs args gen sv = do {
     (ok, h, req, freed, gen) \<leftarrow> createTuneRequestFromSignal sr al (map_option snd block) sigId sigType incomingPID incomingTID
        numFilterArgs filterArgs numArgs args gen (c_heap (sv_coco sv));
     (case (req, block) of
        (Some req, Some (a, _)) \<Rightarrow>
          (let sv = hold_request a req h sv
           in if \<not> ok then Some (-1, gen, sv)
              else if getResourcesCount req > 0
              then map_option (\<lambda>sv. (getHandle req, gen, sv)) (RequestHandler.processIncomingRequest env ar False a sv)
              else map_option (\<lambda>sv. (-1, gen, sv)) (release_request a sv))
      | _ \<Rightarrow> Some (-1, gen, sv)) }"

section \<open>Filling placeholders\<close>

definition vals :: "resource \<Rightarrow> i32 list" where
  "vals r = map (\<lambda>j. the (getValueAt r (word_of_nat j))) [0 ..< nat (sint (mNumValues r))]"

text \<open>The reference: the placeholders of a list of values take the arguments one after the other.\<close>

fun fill_values :: "i32 list \<Rightarrow> u32 list \<Rightarrow> (i32 list \<times> u32 list) option" where
  "fill_values [] args = Some ([], args)"
| "fill_values (v # vs) args =
     (if v = NSIG_PLACEHOLDER
      then (case args of [] \<Rightarrow> None | a # as \<Rightarrow> map_option (\<lambda>(ws, rest). (a # ws, rest)) (fill_values vs as))
      else map_option (\<lambda>(ws, rest). (v # ws, rest)) (fill_values vs args))"

lemma fill_values_append:
  "fill_values (vs @ vs') args =
     (case fill_values vs args of None \<Rightarrow> None
      | Some (ws, rest) \<Rightarrow> map_option (\<lambda>(ws', rest'). (ws @ ws', rest')) (fill_values vs' rest))"
  by (induction vs arbitrary: args) (auto simp: map_option_case split: list.split option.splits prod.splits)

lemma fill_values_length: "fill_values vs args = Some (ws, rest) \<Longrightarrow>
   length ws = length vs \<and> length rest \<le> length args \<and> rest = drop (length args - length rest) args"
proof (induction vs arbitrary: args ws)
  case (Cons v vs)
  then show ?case
    by (cases args) (fastforce split: if_splits simp: Suc_diff_le)+
qed simp

lemma fill_values_none: "fill_values vs args = None \<longleftrightarrow> length args < count_list vs NSIG_PLACEHOLDER"
proof (induction vs arbitrary: args)
  case (Cons v vs)
  then show ?case by (cases args) simp_all
qed simp

text \<open>A resource as the builder leaves it: every value can be read and written.\<close>

definition lock_ok :: "resource \<Rightarrow> bool" where
  "lock_ok r \<longleftrightarrow> res_ok r \<and> readable r"

definition sig_args :: "signal \<Rightarrow> u32 list \<Rightarrow> bool" where
  "sig_args sig args \<longleftrightarrow> mListArgs sig = Some args \<and> int (length args) = sint (mNumArgs sig)"

lemma length_vals [simp]: "length (vals r) = nat (sint (mNumValues r))"
  by (simp add: vals_def)

lemma vals_nth: "j < nat (sint (mNumValues r)) \<Longrightarrow> vals r ! j = the (getValueAt r (word_of_nat j))"
  by (simp add: vals_def)

lemma in_values_nat: "j < nat (sint (mNumValues r)) \<Longrightarrow> in_values r (word_of_nat j)"
  by (simp add: in_values_def sint_of_nat_below)

lemma word_of_nat_below: "i < nat (sint (n :: i32)) \<Longrightarrow> j < nat (sint n) \<Longrightarrow>
   (word_of_nat i :: i32) = word_of_nat j \<longleftrightarrow> i = j"
  by (metis of_nat_eq_iff sint_of_nat_below)

lemma lock_ok_allocated: "lock_ok r \<Longrightarrow> allocated r"
proof (unfold allocated_def, intro impI notI)
  assume l: "lock_ok r" "2 < sint (mNumValues r)" "mResValue r = ValueArr None"
  have "getValueAt r 0 \<noteq> None" using l(1) readable_getValueAt by (simp add: lock_ok_def)
  with l(2,3) show False by (simp add: getValueAt_def array_value_def)
qed

lemma write_value:
  assumes "lock_ok r" "j < nat (sint (mNumValues r))"
  obtains r' where "setValueAt (word_of_nat j) v r = Some (RC_SUCCESS, r')" "lock_ok r'" "same_header r r'"
    "vals r' = (vals r)[j := v]"
proof -
  note in_j = in_values_nat[OF assms(2)]
  from assms(1) have ok: "res_ok r" by (simp add: lock_ok_def)
  from setValueAt_success[OF ok lock_ok_allocated[OF assms(1)] in_j] obtain r' where
    r': "setValueAt (word_of_nat j) v r = Some (RC_SUCCESS, r')" by blast
  have h: "same_header r r'" using setValueAt_frame[OF r'] by (simp add: same_header_def)
  note g = setValueAt_getValueAt[OF ok in_j r']
  have "lock_ok r'"
    using setValueAt_keeps_ok[OF r' ok] assms(1) readable_getValueAt[of r]
    by (auto simp: lock_ok_def readable_def list_all_iff g)
  moreover have "vals r' = (vals r)[j := v]"
    using h assms(2) word_of_nat_below[of _ "mNumValues r" j]
    by (intro nth_equalityI) (auto simp: vals_nth same_header_def g nth_list_update)
  ultimately show ?thesis using that r' h by blast
qed

lemma fill_placeholders_spec:
  assumes "lock_ok r" "sig_args sig args" "k \<le> length args" "j \<le> nat (sint (mNumValues r))"
  shows "case fill_values (drop j (vals r)) (drop k args) of
      None \<Rightarrow> fill_placeholders [j ..< nat (sint (mNumValues r))] sig k r = Some (Inl ())
    | Some (ws, rest) \<Rightarrow> \<exists>r'. fill_placeholders [j ..< nat (sint (mNumValues r))] sig k r =
          Some (Inr (length args - length rest, r')) \<and>
        vals r' = take j (vals r) @ ws \<and> lock_ok r' \<and> same_header r r'"
  using assms
proof (induction "nat (sint (mNumValues r)) - j" arbitrary: j k r)
  case 0
  then show ?case by (auto simp: same_header_def)
next
  case (Suc n)
  then have j: "j < nat (sint (mNumValues r))" by simp
  then have up: "[j ..< nat (sint (mNumValues r))] = j # [Suc j ..< nat (sint (mNumValues r))]" by (simp add: upt_rec)
  have dr: "drop j (vals r) = vals r ! j # drop (Suc j) (vals r)" using j by (simp add: Cons_nth_drop_Suc)
  obtain v where v: "getValueAt r (word_of_nat j) = Some v" "vals r ! j = v"
    using readable_getValueAt[of r] Suc.prems(1) j by (fastforce simp: lock_ok_def vals_nth)
  have tk: "take (Suc j) xs = take j xs @ [xs ! j]" if "j < length xs" for xs :: "i32 list"
    using that by (simp add: take_Suc_conv_app_nth)
  show ?case
  proof (cases "v = NSIG_PLACEHOLDER")
    case False
    have "n = nat (sint (mNumValues r)) - Suc j" using Suc.hyps(2) by simp
    from Suc.hyps(1)[OF this Suc.prems(1-3)] j
    show ?thesis using v False j tk[of "vals r"] by (auto simp: up dr split: option.splits)
  next
    case True
    show ?thesis
    proof (cases "k < length args")
      case False
      then show ?thesis using v True Suc.prems(2,3) by (simp add: up dr sig_args_def)
    next
      case k: True
      then have dk: "drop k args = args ! k # drop (Suc k) args" by (simp add: Cons_nth_drop_Suc)
      have kk: "k < nat (sint (mNumArgs sig))" using k Suc.prems(2) unfolding sig_args_def by (metis nat_int)
      have arg: "getListArgAt sig (word_of_nat k) = Some (args ! k)"
        using k Suc.prems(2) sint_of_nat_below[OF kk] by (simp add: getListArgAt_def sig_args_def)
      from write_value[OF Suc.prems(1) j, of "args ! k"] obtain r' where
        r': "setValueAt (word_of_nat j) (args ! k) r = Some (RC_SUCCESS, r')" "lock_ok r'" "same_header r r'"
        "vals r' = (vals r)[j := args ! k]" by blast
      have n': "mNumValues r' = mNumValues r" using r'(3) by (simp add: same_header_def)
      have "n = nat (sint (mNumValues r')) - Suc j" using Suc.hyps(2) n' by simp
      have tk': "take (Suc j) (vals r') = take j (vals r) @ [args ! k]"
        using tk[of "vals r'"] j n' by (simp add: r'(4))
      have "Suc k \<le> length args" "Suc j \<le> nat (sint (mNumValues r'))" using k j n' by simp_all
      note Suc.hyps(1)[OF \<open>n = _\<close> r'(2) Suc.prems(2) this, unfolded n' tk']
      then have ih: "case fill_values (drop (Suc j) (vals r)) (drop (Suc k) args) of
          None \<Rightarrow> fill_placeholders [Suc j ..< nat (sint (mNumValues r))] sig (Suc k) r' = Some (Inl ())
        | Some (ws, rest) \<Rightarrow> \<exists>r''. fill_placeholders [Suc j ..< nat (sint (mNumValues r))] sig (Suc k) r' =
              Some (Inr (length args - length rest, r'')) \<and>
            vals r'' = (take j (vals r) @ [args ! k]) @ ws \<and> lock_ok r'' \<and> same_header r' r''"
        by (simp add: r'(4))
      have step: "fill_placeholders [j ..< nat (sint (mNumValues r))] sig k r =
          fill_placeholders [Suc j ..< nat (sint (mNumValues r))] sig (Suc k) r'"
        using v True kk Suc.prems(2) arg r'(1) by (simp add: up sig_args_def)
      show ?thesis using ih same_header_trans[OF r'(3)] v True
        unfolding step by (auto simp: dr dk split: option.splits)
    qed
  qed
qed

section \<open>The resources of a signal\<close>

definition somes :: "'a option list \<Rightarrow> 'a list" where
  "somes xs = concat (map (\<lambda>x. case x of None \<Rightarrow> [] | Some y \<Rightarrow> [y]) xs)"

lemma somes_simps [simp]: "somes [] = []" "somes (None # xs) = somes xs" "somes (Some y # xs) = y # somes xs"
  by (simp_all add: somes_def)

lemma set_somes [simp]: "set (somes xs) = {y. Some y \<in> set xs}"
  by (induction xs) (auto simp: somes_def split: option.splits)

lemma copy_lock:
  assumes "lock_ok r"
  obtains r' where "Resource_copy True r = Some r'" "lock_ok r'" "same_header r r'" "vals r' = vals r"
proof -
  have "res_ok r" "\<And>j. in_values r j \<Longrightarrow> getValueAt r j \<noteq> None"
    using assms readable_getValueAt by (auto simp: lock_ok_def)
  from Resource_copy_faithful[OF this] obtain r' where
    r': "Resource_copy True r = Some r'" "res_ok r'" "same_header r r'" "\<forall>j. getValueAt r' j = getValueAt r j" by blast
  moreover have "lock_ok r'" "vals r' = vals r" using r' assms
    by (auto simp: lock_ok_def readable_def vals_def same_header_def)
  ultimately show ?thesis using that by blast
qed

text \<open>All blocks that are asked for are handed out.\<close>

definition alloc_full :: "alloc_source \<Rightarrow> nat list \<Rightarrow> bool" where
  "alloc_full al is \<longleftrightarrow> (\<forall>i\<in>set is. iter_block al i \<noteq> None \<and> res_block al i \<and> list_block al i)"

text \<open>
  What filling a sequence of resources does, given what \<open>ref\<close> does to the values of one. \<open>fills\<close>
  says that \<open>fill\<close> implements \<open>ref\<close> from every good index.
\<close>

fun fold_ref :: "(nat \<Rightarrow> i32 list \<Rightarrow> (nat \<times> i32 list) option) \<Rightarrow> nat \<Rightarrow> i32 list list \<Rightarrow> i32 list list option" where
  "fold_ref ref k [] = Some []"
| "fold_ref ref k (vs # vss) =
     (case ref k vs of None \<Rightarrow> None
      | Some (k', ws) \<Rightarrow> map_option (\<lambda>wss. ws # wss) (fold_ref ref k' vss))"

definition fills ::
    "(nat \<Rightarrow> bool) \<Rightarrow> (nat \<Rightarrow> resource \<Rightarrow> (unit + nat \<times> resource) option) \<Rightarrow> (nat \<Rightarrow> i32 list \<Rightarrow> (nat \<times> i32 list) option) \<Rightarrow> bool" where
  "fills good fill ref \<longleftrightarrow> (\<forall>k r. good k \<longrightarrow> lock_ok r \<longrightarrow>
     (case ref k (vals r) of None \<Rightarrow> fill k r = Some (Inl ())
      | Some (k', ws) \<Rightarrow> \<exists>r'. fill k r = Some (Inr (k', r')) \<and> good k' \<and> vals r' = ws \<and> lock_ok r' \<and> same_header r r'))"

definition locks_result :: "resource list \<Rightarrow> i32 list list option \<Rightarrow> bool \<Rightarrow> res_heap \<Rightarrow> addr list \<Rightarrow> bool" where
  "locks_result locks expected ok h ys \<longleftrightarrow>
     (case expected of
        None \<Rightarrow> \<not> ok
      | Some wss \<Rightarrow> ok \<and> map (\<lambda>a. vals (data_at h a)) ys = wss \<and> list_all2 same_header locks (map (data_at h) ys))"

definition added :: "res_heap \<Rightarrow> request \<Rightarrow> addr list \<Rightarrow> res_heap \<Rightarrow> request \<Rightarrow> addr list \<Rightarrow> bool" where
  "added h req xs h' req' ys \<longleftrightarrow> (\<exists>l. req' = req\<lparr>mResourceList := l\<rparr>) \<and> req_ok h' req' (xs @ ys) \<and>
     (\<forall>a\<in>set ys. h a = None) \<and> (\<forall>n. n \<notin> set xs \<longrightarrow> h n \<noteq> None \<longrightarrow> h' n = h n) \<and>
     (\<forall>n. h n \<noteq> None \<longrightarrow> dl_data h' n = dl_data h n)"

lemma added_refl: "req_ok h req xs \<Longrightarrow> added h req xs h req []"
  unfolding added_def by (intro conjI exI[of _ "mResourceList req"]) simp_all

lemma alloc_fresh_after:
  assumes "alloc_fresh al (i # is) h" "iter_block al i = Some a" "i \<notin> set is"
    and "\<And>n. dl_data h1 n = (if n = a then Some r else dl_data h n)"
  shows "alloc_fresh al is h1"
  unfolding alloc_fresh_def
proof (intro ballI allI impI conjI)
  fix k x assume k: "k \<in> set is" "iter_block al k = Some x"
  with assms(1-3) have "h x = None" "x \<noteq> a" by (auto simp: alloc_fresh_def)
  then have "dl_data h1 x = None" unfolding assms(4) by (simp add: dl_data_def)
  then show "h1 x = None" by simp
  show "j = k" if "j \<in> set is" "iter_block al j = Some x" for j
    using assms(1) k that unfolding alloc_fresh_def by (metis list.set_intros(2))
qed

lemma added_trans:
  assumes a: "added h1 (req\<lparr>mResourceList := l\<rparr>) (xs @ ys) h' req' zs"
    and ys: "set ys \<subseteq> {a}" and ha: "h a = None"
    and dd: "\<And>n. dl_data h1 n = (if n = a then Some r else dl_data h n)"
    and fr: "\<And>n. n \<notin> insert a (set xs) \<Longrightarrow> h1 n = h n"
  shows "added h req xs h' req' (ys @ zs)"
proof -
  have data: "h n \<noteq> None \<Longrightarrow> dl_data h1 n = dl_data h n" for n using ha dd[of n] by auto
  have some: "h n \<noteq> None \<Longrightarrow> h1 n \<noteq> None" for n using data[of n] by (auto simp: dl_data_def)
  have "h b = None" if "b \<in> set (ys @ zs)" for b
  proof (cases "b \<in> set zs")
    case True
    then have "h1 b = None" using a unfolding added_def by blast
    with some[of b] show ?thesis by blast
  qed (use that ys ha in auto)
  moreover have "h' n = h n" if "n \<notin> set xs" "h n \<noteq> None" for n
  proof -
    have "n \<noteq> a" using that ha by auto
    then have "h1 n = h n" "n \<notin> set (xs @ ys)" using fr[of n] that ys by auto
    then show ?thesis using a that unfolding added_def by metis
  qed
  moreover have "dl_data h' n = dl_data h n" if "h n \<noteq> None" for n
    using a some[OF that] data[OF that] unfolding added_def by metis
  ultimately show ?thesis using a by (auto simp: added_def)
qed

lemma data_at_added: "added h req xs h' req' ys \<Longrightarrow> dl_data h n = Some r \<Longrightarrow> data_at h' n = r"
  unfolding added_def data_at_def by (metis dl_data_def map_option_is_None option.distinct(1) option.sel)

lemma add_locks_ok:
  assumes fills: "fills good fill ref" and va: "\<And>j. val_array al j"
  shows "\<forall>r\<in>set (somes locks). lock_ok r \<Longrightarrow> good k \<Longrightarrow>
   alloc_fresh al [i ..< i + length locks] h \<Longrightarrow> req_ok h req xs \<Longrightarrow>
   \<exists>ok h' req' ys. add_locks al i locks fill k h req = Some (ok, h', req') \<and> added h req xs h' req' ys \<and>
     (alloc_full al [i ..< i + length locks] \<longrightarrow>
        locks_result (somes locks) (fold_ref ref k (map vals (somes locks))) ok h' ys)"
proof (induction locks arbitrary: i k h req xs)
  case Nil
  then show ?case
    by (intro exI[of _ True] exI[of _ h] exI[of _ req] exI[of _ "[]"]) (simp add: added_refl locks_result_def)
next
  case (Cons lock locks)
  have upt: "[i ..< i + length (lock # locks)] = i # [Suc i ..< Suc i + length locks]" by (simp add: upt_rec)
  have fr': "alloc_fresh al [Suc i ..< Suc i + length locks] h"
    using Cons.prems(3) unfolding upt alloc_fresh_def by auto
  have full: "iter_block al i \<noteq> None \<and> res_block al i \<and> list_block al i"
      "alloc_full al [Suc i ..< Suc i + length locks]" if "alloc_full al [i ..< i + length (lock # locks)]"
    using that unfolding upt by (auto simp: alloc_full_def)
  show ?case
  proof (cases lock)
    case None
    have "\<exists>ok h' req' ys. add_locks al (Suc i) locks fill k h req = Some (ok, h', req') \<and> added h req xs h' req' ys \<and>
     (alloc_full al [Suc i ..< Suc i + length locks] \<longrightarrow>
        locks_result (somes locks) (fold_ref ref k (map vals (somes locks))) ok h' ys)"
      using Cons.prems None fr' by (intro Cons.IH) auto
    then show ?thesis using full(2) None by fastforce
  next
    case (Some lk)
    have lk: "lock_ok lk" using Cons.prems(1) Some by simp
    have stop: ?thesis if "add_locks al i (lock # locks) fill k h req = Some (False, h, req)"
      "alloc_full al [i ..< i + length (lock # locks)] \<Longrightarrow> ref k (vals lk) = None"
      using that added_refl[OF Cons.prems(4)] by (fastforce simp: locks_result_def Some)
    show ?thesis
    proof (cases "res_block al i")
      case False
      then show ?thesis using full(1) Some by (intro stop) auto
    next
      case res: True
      from copy_lock[OF lk] obtain r where r: "Resource_copy True lk = Some r" "lock_ok r" "same_header lk r" "vals r = vals lk"
        by blast
      have va: "val_array al i = True" using va by simp
      have fp: "case ref k (vals lk) of None \<Rightarrow> fill k r = Some (Inl ())
        | Some (k', ws) \<Rightarrow> \<exists>r'. fill k r = Some (Inr (k', r')) \<and> good k' \<and> vals r' = ws \<and> lock_ok r' \<and> same_header r r'"
        using fills Cons.prems(2) r(2,4) unfolding fills_def by fastforce
      show ?thesis
      proof (cases "ref k (vals lk)")
        case None
        then show ?thesis using fp res r(1) va Some by (intro stop) simp_all
      next
        case filled: (Some p)
        obtain k' ws where p: "p = (k', ws)" by (cases p)
        from fp filled obtain r' where r': "fill k r = Some (Inr (k', r'))" "good k'" "vals r' = ws" "lock_ok r'" "same_header r r'"
          by (auto simp: p)
        show ?thesis
        proof (cases "iter_block al i")
          case None
          then show ?thesis using full(1) Some res r(1) va r'(1) by (intro stop) auto
        next
          case a: (Some a)
          have ha: "h a = None" using Cons.prems(3) a unfolding upt alloc_fresh_def by auto
          have rd: "readable r'" using r'(4) by (simp add: lock_ok_def)
          from add_fresh_node[OF Cons.prems(4) ha rd, of "list_block al i"] obtain h1 l ys where
            ad: "addResource (list_block al i) (h(a \<mapsto> \<lparr>nd_next = (\<lambda>_. None), nd_prev = (\<lambda>_. None), mData = r'\<rparr>)) req a =
              Some (h1, req\<lparr>mResourceList := l\<rparr>)" "req_ok h1 (req\<lparr>mResourceList := l\<rparr>) (xs @ ys)" "set ys \<subseteq> {a}"
            "list_block al i \<longrightarrow> ys = [a]" "\<And>n. dl_data h1 n = (if n = a then Some r' else dl_data h n)"
            "\<And>n. n \<notin> insert a (set xs) \<Longrightarrow> h1 n = h n" by metis
          have fr1: "alloc_fresh al [Suc i ..< Suc i + length locks] h1"
            by (rule alloc_fresh_after[OF Cons.prems(3)[unfolded upt] a _ ad(5)]) auto
          have "\<exists>ok h' req' zs. add_locks al (Suc i) locks fill k' h1 (req\<lparr>mResourceList := l\<rparr>) = Some (ok, h', req') \<and>
              added h1 (req\<lparr>mResourceList := l\<rparr>) (xs @ ys) h' req' zs \<and>
              (alloc_full al [Suc i ..< Suc i + length locks] \<longrightarrow>
                locks_result (somes locks) (fold_ref ref k' (map vals (somes locks))) ok h' zs)"
            using Cons.prems(1) r'(2) Some fr1 ad(2) by (intro Cons.IH) auto
          then obtain ok h' req' zs where z:
            "add_locks al (Suc i) locks fill k' h1 (req\<lparr>mResourceList := l\<rparr>) = Some (ok, h', req')"
            "added h1 (req\<lparr>mResourceList := l\<rparr>) (xs @ ys) h' req' zs"
            "alloc_full al [Suc i ..< Suc i + length locks] \<Longrightarrow>
              locks_result (somes locks) (fold_ref ref k' (map vals (somes locks))) ok h' zs" by blast
          have run: "add_locks al i (lock # locks) fill k h req = Some (ok, h', req')"
            using Some res r(1) va r'(1) a ad(1) z(1) by simp
          have da: "data_at h' a = r'" by (rule data_at_added[OF z(2)]) (simp add: ad(5))
          have "locks_result (somes (lock # locks)) (fold_ref ref k (map vals (somes (lock # locks)))) ok h' (ys @ zs)"
            if "alloc_full al [i ..< i + length (lock # locks)]"
          proof -
            have "alloc_full al [Suc i ..< Suc i + length locks]" "ys = [a]" using full[OF that] ad(4) by auto
            with z(3) same_header_trans[OF r(3) r'(5)] filled p r'(3) da show ?thesis
              by (auto simp: locks_result_def Some split: option.splits)
          qed
          with run added_trans[OF z(2) ad(3) ha ad(5,6)] show ?thesis by blast
        qed
      qed
    qed
  qed
qed

text \<open>The arguments of a signal are used up across its resources.\<close>

definition ref_all :: "u32 list \<Rightarrow> nat \<Rightarrow> i32 list \<Rightarrow> (nat \<times> i32 list) option" where
  "ref_all args k vs = map_option (\<lambda>(ws, rest). (length args - length rest, ws)) (fill_values vs (drop k args))"

lemma fill_all_fills:
  assumes "sig_args sig args"
  shows "fills (\<lambda>k. k \<le> length args) (fill_all sig) (ref_all args)"
  unfolding fills_def
proof (intro allI impI)
  fix k r assume k: "k \<le> length args" "lock_ok r"
  have "(0::nat) \<le> nat (sint (mNumValues r))" by simp
  note fp = fill_placeholders_spec[OF k(2) assms k(1) this, simplified drop_0]
  show "case ref_all args k (vals r) of None \<Rightarrow> fill_all sig k r = Some (Inl ())
     | Some (k', ws) \<Rightarrow> \<exists>r'. fill_all sig k r = Some (Inr (k', r')) \<and> k' \<le> length args \<and> vals r' = ws \<and> lock_ok r' \<and> same_header r r'"
    using fp by (cases "fill_values (vals r) (drop k args)") (auto simp: ref_all_def fill_all_def getValuesCount_def)
qed

lemma fold_ref_all: "k \<le> length args \<Longrightarrow>
   map_option concat (fold_ref (ref_all args) k vss) = map_option fst (fill_values (concat vss) (drop k args))"
proof (induction vss arbitrary: k)
  case (Cons vs vss)
  show ?case
  proof (cases "fill_values vs (drop k args)")
    case None
    then show ?thesis by (simp add: ref_all_def fill_values_append)
  next
    case (Some p)
    obtain ws rest where p: "p = (ws, rest)" by (cases p)
    from fill_values_length[OF Some[unfolded p]] have "rest = drop (length args - k - length rest) (drop k args)"
      "length rest \<le> length args - k" by simp_all
    then have d: "drop (length args - length rest) args = rest" using Cons.prems by simp
    have "map_option concat (fold_ref (ref_all args) (length args - length rest) vss) =
        map_option fst (fill_values (concat vss) rest)"
      using Cons.IH[of "length args - length rest"] by (simp add: d)
    moreover have "ref_all args k vs = Some (length args - length rest, ws)" by (simp add: ref_all_def Some p)
    ultimately show ?thesis using Some p
      by (cases "fold_ref (ref_all args) (length args - length rest) vss"; cases "fill_values (concat vss) rest")
         (auto simp: fill_values_append)
  qed
qed simp

section \<open>The requests that are built\<close>

text \<open>
  A registry whose signals can be used: every configuration that a lookup can return has its vectors
  of permissions and of resources.
\<close>

definition usable :: "SignalInfo \<Rightarrow> bool" where
  "usable s \<longleftrightarrow> mPermissions s \<noteq> None \<and>
     (case mSignalResources s of None \<Rightarrow> False | Some locks \<Rightarrow> list_all lock_ok (somes locks))"

definition registry_usable :: "signal_registry \<Rightarrow> bool" where
  "registry_usable sr \<longleftrightarrow> sig_inv sr \<and>
     (\<forall>key conf. mSignalsConfigs sr key = Some conf \<longrightarrow>
        (\<forall>s. mSignalInfo conf = Some s \<longrightarrow> usable s) \<and> (\<forall>s\<in>set (mFeatureSignals conf). usable s))"

lemma lookup_total: "\<exists>info. getSignalConfigByIdAndType i t n None sr = Some (info, False)"
  by (simp add: lookup_plain)

lemma lookup_usable:
  assumes "registry_usable sr" "getSignalConfigByIdAndType i t n e sr = Some (Some s, d)"
  shows "usable s"
  using assms findBest_member
  by (fastforce simp: registry_usable_def getSignalConfigByIdAndType_def Let_def split: option.splits if_splits list.splits)

definition tune_fields :: "signal \<Rightarrow> request \<Rightarrow> request" where
  "tune_fields sig req = setSource (ucast (CONSTRUCT_SIG_CODE (mSignalCode sig) (mSignalType sig)))
     (setClientTID (getClientTID sig) (setClientPID (getClientPID sig)
     (setProperties (getProperties sig) (setDuration (getDuration sig)
     (setHandle (getHandle sig) (setRequestType REQ_RESOURCE_TUNING (Request_init req)))))))"

lemma tune_fields_empty: "req_ok h (tune_fields sig req) []"
  by (simp add: tune_fields_def req_ok_def req_list_def nodes_readable_iff setSource_def setClientTID_def setClientPID_def
      setProperties_def setDuration_def setHandle_def setRequestType_def Request_init_def)

lemma createResourceTuningRequest_ok:
  assumes "usable s" "getSignalConfigByIdAndType (mSignalCode sig) (mSignalType sig) 0 None sr = Some (Some s, False)"
    and "sig_args sig args" "\<And>n. alloc_fresh al [0 ..< n] h" "\<And>j. val_array al j"
  obtains ok h' req ys where
    "createResourceTuningRequest sr al (Some raw) sig h = Some (ok, h', Some req)"
    "added h (tune_fields sig raw) [] h' req ys"
    "alloc_full al [0 ..< length (the (mSignalResources s))] \<Longrightarrow>
       locks_result (somes (the (mSignalResources s)))
         (fold_ref (ref_all args) 0 (map vals (somes (the (mSignalResources s))))) ok h' ys"
proof -
  obtain locks where l: "mSignalResources s = Some locks" "\<forall>r\<in>set (somes locks). lock_ok r"
    using assms(1) by (auto simp: usable_def list_all_iff split: option.splits)
  from add_locks_ok[OF fill_all_fills[OF assms(3)] assms(5) l(2) _ _ tune_fields_empty[of h sig raw], of 0 0] assms(4)[of "length locks"]
  obtain ok h' req ys where x: "add_locks al 0 locks (fill_all sig) 0 h (tune_fields sig raw) = Some (ok, h', req)"
    "added h (tune_fields sig raw) [] h' req ys"
    "alloc_full al [0 ..< length locks] \<Longrightarrow>
       locks_result (somes locks) (fold_ref (ref_all args) 0 (map vals (somes locks))) ok h' ys" by auto
  have "createResourceTuningRequest sr al (Some raw) sig h = Some (ok, h', Some req)"
    using assms(2) l(1) x(1) by (simp add: createResourceTuningRequest_def tune_fields_def[symmetric] Let_def)
  with that x l(1) show ?thesis by simp
qed

section \<open>Signals keep the daemon sound\<close>

lemma VerifyIncomingSignal_ok:
  assumes "registry_usable sr"
  obtains b sig' where "SignalHandler.VerifyIncomingRequest sr cd sig = Some (b, sig')"
    "mSignalCode sig' = mSignalCode sig" "mSignalType sig' = mSignalType sig" "mListArgs sig' = mListArgs sig"
    "mNumArgs sig' = mNumArgs sig" "getHandle sig' = getHandle sig"
    "b \<Longrightarrow> \<exists>s. getSignalConfigByIdAndType (mSignalCode sig) (mSignalType sig) 0 None sr = Some (Some s, False) \<and> usable s"
proof -
  obtain info where l: "getSignalConfigByIdAndType (mSignalCode sig) (mSignalType sig) 0 None sr = Some (info, False)"
    using lookup_total by blast
  show ?thesis
  proof (cases info)
    case None
    then show ?thesis using l by (intro that[of False sig]) (simp_all add: VerifyIncomingRequest_def)
  next
    case (Some s)
    have u: "usable s" using lookup_usable[OF assms] l Some by blast
    then obtain ps where ps: "mPermissions s = Some ps" by (auto simp: usable_def)
    let ?p = "setPriority (SignalHandler.getRequestPriority (getClientLevelByID (getClientPID sig) cd) (getPriority sig)) sig"
    have "\<exists>b. SignalHandler.VerifyIncomingRequest sr cd sig \<in>
        {Some (False, sig), Some (False, ?p), Some (True, ?p), Some (True, setDuration (scast (mTimeout s)) ?p)}"
      using l Some ps by (simp add: VerifyIncomingRequest_def Let_def)
    then obtain b sig' where v: "SignalHandler.VerifyIncomingRequest sr cd sig = Some (b, sig')"
      "sig' \<in> {sig, ?p, setDuration (scast (mTimeout s)) ?p}" by auto
    show ?thesis by (rule that[OF v(1)])
      (use v(2) l u Some in \<open>auto simp: setPriority_def setDuration_def getHandle_def\<close>)
  qed
qed

text \<open>What the surroundings promise when a signal arrives.\<close>

definition signal_receivable ::
    "arrival \<Rightarrow> arrival \<Rightarrow> alloc_source \<Rightarrow> (addr \<times> request) option \<Rightarrow> i64 \<Rightarrow> server \<Rightarrow> bool" where
  "signal_receivable ar ar' al block handle sv \<longleftrightarrow>
     (\<forall>a raw. block = Some (a, raw) \<longrightarrow> sv_objs sv a = None) \<and> (\<forall>n. alloc_fresh al [0 ..< n] (c_heap (sv_coco sv))) \<and>
     (\<forall>j. val_array al j) \<and> 0 \<le> sint (ar_now ar) \<and> 0 \<le> sint (ar_now ar') \<and>
     map_of (mActiveRequests (sv_rm sv)) handle = None"

lemma signal_args_read:
  assumes "Signal_deserialize vec_ok buf raw = Some (RC_SUCCESS, sig)"
  shows "\<exists>args. sig_args sig args"
  using assms
  by (auto simp: Signal_deserialize_def sig_args_def Let_def split: Option.bind_splits if_splits
      dest!: read_fields_length)

lemma hold_request_inv:
  assumes inv: "server_inv env sv T W U P" and fresh: "sv_objs sv a = None"
    and ad: "added (c_heap (sv_coco sv)) req0 [] h req xs"
  shows "server_inv env (hold_request a req h sv) T W U ((a, xs) # P)"
proof -
  let ?h = "c_heap (sv_coco sv)"
  have ok: "req_ok h req xs" "\<And>x. x \<in> set xs \<Longrightarrow> ?h x = None" "\<And>n. ?h n \<noteq> None \<Longrightarrow> h n = ?h n"
    using ad by (auto simp: added_def)
  have d: "distinct xs" using ok(1) by (auto simp: req_ok_def req_list_def dest: dl_list_distinct split: option.splits)
  have "core_inv env (hold_request a req h sv) T W U ((a, xs) # P)"
    unfolding hold_request_def
  proof (rule hold_inv[OF _ fresh_object[OF inv fresh] d _ _ ok(1)])
    show "core_inv env sv T W U P" using inv by (simp add: server_inv_def)
    show "set xs \<inter> set ys = {}" if "(b, ys) \<in> set (T @ W @ U @ P)" for b ys
      using held_nodes[OF inv that] ok(2) by (metis disjoint_iff)
    show "h n = ?h n" if "(b, ys) \<in> set (T @ W @ U @ P)" "n \<in> set ys" for b ys n
      using held_nodes[OF inv that] ok(3) by blast
  qed
  then show ?thesis using inv by (simp add: server_inv_def hold_request_def queued_def)
qed

lemma settled_daemon: "settled env sv T W U P p \<Longrightarrow> target_ok (sv_target sv) \<Longrightarrow> daemon_inv env sv"
  unfolding settled_def daemon_inv_def by blast

lemma arrival_daemon:
  assumes "server_inv env sv T W U ((a, xs) # P)" "sv_objs sv a = Some req" "arrival_ok ar v req sv"
  shows "\<exists>sv'. RequestHandler.processIncomingRequest env ar v a sv = Some sv' \<and> daemon_inv env sv'"
  using process_settles[OF assms] settled_daemon by blast

lemma signal_tune_ok:
  assumes inv: "server_inv env sv T W U P" "target_ok (sv_target sv)" and sr: "registry_usable (sg_registry sg)"
    and rcv: "signal_receivable ar0 ar al block (getHandle sig) sv" and args: "sig_args sig args"
  shows "\<exists>sv'. signal_tune env sg ar al block sig sv = Some sv' \<and> daemon_inv env sv'"
proof -
  have stay: "daemon_inv env sv" using inv by (auto simp: daemon_inv_def)
  from VerifyIncomingSignal_ok[OF sr, of "sv_clients sv" sig] obtain b sig' where
    v: "SignalHandler.VerifyIncomingRequest (sg_registry sg) (sv_clients sv) sig = Some (b, sig')"
    "mSignalCode sig' = mSignalCode sig" "mSignalType sig' = mSignalType sig" "mListArgs sig' = mListArgs sig"
    "mNumArgs sig' = mNumArgs sig" "getHandle sig' = getHandle sig"
    "b \<Longrightarrow> \<exists>s. getSignalConfigByIdAndType (mSignalCode sig) (mSignalType sig) 0 None (sg_registry sg) = Some (Some s, False)
      \<and> usable s" by blast
  have args': "sig_args sig' args" using args v by (simp add: sig_args_def)
  show ?thesis
  proof (cases b)
    case False
    with v(1) stay show ?thesis by (simp add: signal_tune_def)
  next
    case True
    then obtain s where s: "getSignalConfigByIdAndType (mSignalCode sig') (mSignalType sig') 0 None (sg_registry sg) =
        Some (Some s, False)" "usable s" using v by auto
    show ?thesis
    proof (cases block)
      case None
      with v(1) True s stay show ?thesis by (simp add: signal_tune_def createResourceTuningRequest_def)
    next
      case (Some p)
      obtain a raw where p: "block = Some (a, raw)" using Some by (cases p) auto
      have al: "\<And>n. alloc_fresh al [0 ..< n] (c_heap (sv_coco sv))" "\<And>j. val_array al j" and fresh: "sv_objs sv a = None"
        and now: "0 \<le> sint (ar_now ar)" and hd: "map_of (mActiveRequests (sv_rm sv)) (getHandle sig) = None"
        using rcv p by (auto simp: signal_receivable_def)
      from createResourceTuningRequest_ok[OF s(2,1) args' al, of raw] obtain ok h req ys where
        c: "createResourceTuningRequest (sg_registry sg) al (Some raw) sig' (c_heap (sv_coco sv)) = Some (ok, h, Some req)"
        "added (c_heap (sv_coco sv)) (tune_fields sig' raw) [] h req ys" by metis
      let ?sv = "hold_request a req h sv"
      have inv1: "server_inv env ?sv T W U ((a, ys) # P)" by (rule hold_request_inv[OF inv(1) fresh c(2)])
      have eqs: "sv_target ?sv = sv_target sv" "sv_objs ?sv a = Some req" "sv_rm ?sv = sv_rm sv"
        by (simp_all add: hold_request_def)
      have run: "signal_tune env sg ar al block sig sv =
          (if ok then RequestHandler.processIncomingRequest env ar False a ?sv else Some ?sv)"
        using v(1) True c(1) by (simp add: signal_tune_def p)
      have "getHandle req = getHandle sig"
        using c(2) v(6) by (auto simp: added_def tune_fields_def getHandle_def setSource_def setClientTID_def setClientPID_def
            setProperties_def setDuration_def setHandle_def setRequestType_def)
      then have "arrival_ok ar False req ?sv" using now hd inv(2) eqs by (simp add: arrival_ok_def)
      from arrival_daemon[OF inv1 eqs(2) this] run inv1 eqs(1) inv(2) show ?thesis
        by (cases ok) (auto simp: daemon_inv_def)
    qed
  qed
qed

lemma signal_untune_ok:
  assumes inv: "server_inv env sv T W U P" "target_ok (sv_target sv)"
    and rcv: "signal_receivable ar0 ar al block hdl sv"
  shows "\<exists>sv'. signal_untune env ar block sig sv = Some sv' \<and> daemon_inv env sv'"
proof (cases block)
  case None
  then show ?thesis using inv by (auto simp: signal_untune_def createResourceUntuneRequest_def daemon_inv_def)
next
  case (Some p)
  obtain a raw where p: "block = Some (a, raw)" using Some by (cases p) auto
  have fresh: "sv_objs sv a = None" and now: "0 \<le> sint (ar_now ar)"
    using rcv p by (auto simp: signal_receivable_def)
  obtain req where req: "createResourceUntuneRequest (Some raw) sig = Some req"
    by (simp add: createResourceUntuneRequest_def)
  have fields: "mResourceList req = None" "getRequestType req = REQ_RESOURCE_UNTUNING"
    using req by (auto simp: createResourceUntuneRequest_def getRequestType_def setClientTID_def setClientPID_def
        setProperties_def setDuration_def setHandle_def setRequestType_def Request_init_def)
  have "added (c_heap (sv_coco sv)) req [] (c_heap (sv_coco sv)) req []"
    by (rule added_refl) (simp add: req_ok_def req_list_def nodes_readable_iff fields)
  note inv1 = hold_request_inv[OF inv(1) fresh this]
  let ?sv = "hold_request a req (c_heap (sv_coco sv)) sv"
  have "sv_objs ?sv a = Some req" "sv_target ?sv = sv_target sv" by (simp_all add: hold_request_def)
  moreover have "is_untune_or_retune req" "getRequestType req \<noteq> REQ_RESOURCE_TUNING"
    using fields(2) by (simp_all add: is_untune_or_retune_def request_types)
  ultimately have "arrival_ok ar True req ?sv" using now inv(2) by (simp add: arrival_ok_def)
  from arrival_daemon[OF inv1 \<open>sv_objs ?sv a = Some req\<close> this] show ?thesis
    by (simp add: signal_untune_def p req)
qed

lemma relay_all_defined:
  assumes "feature_index_ok (sg_features sg)"
  shows "relay_all sg sig fs \<noteq> None"
proof (induction fs)
  case (Cons f fs)
  obtain info where "getExtFeatureConfigById f (sg_features sg) = Some info"
    using getExtFeatureConfigById_defined[OF assms] by auto
  with Cons show ?case by (auto simp: relayToFeature_def split: option.splits)
qed simp

definition signals_ready :: "signal_env \<Rightarrow> bool" where
  "signals_ready sg \<longleftrightarrow> registry_usable (sg_registry sg) \<and> feature_index_ok (sg_features sg)"

lemma signal_client_checks_ok:
  assumes "server_inv env sv T W U P"
  obtains b cd where "signal_client_checks env ar sig sv = (b, sv\<lparr>sv_clients := cd\<rparr>)" "clients_ok cd"
proof -
  have cok: "clients_ok (sv_clients sv)" using assms by (simp add: server_inv_def core_inv_def)
  obtain b cd where c: "createNewClient (ar_tid_block ar) (ar_info_block ar) (ar_permission ar)
      (getClientPID sig) (getClientTID sig) (sv_clients sv) = (b, cd)" by fastforce
  have "signal_client_checks env ar sig sv \<in> {(False, sv), (True, sv), (b, sv\<lparr>sv_clients := cd\<rparr>)}"
    using c by (simp add: signal_client_checks_def)
  then consider b' where "signal_client_checks env ar sig sv = (b', sv)"
    | "signal_client_checks env ar sig sv = (b, sv\<lparr>sv_clients := cd\<rparr>)" by blast
  then show ?thesis
  proof cases
    case 1
    show ?thesis by (rule that[of b' "sv_clients sv"]) (use 1 cok in simp_all)
  next
    case 2
    show ?thesis by (rule that[OF 2 createNewClient_ok(1)[OF cok c]])
  qed
qed

lemma process_signal_ok:
  assumes inv: "server_inv env sv T W U P" "target_ok (sv_target sv)" and sg: "signals_ready sg"
    and rcv: "signal_receivable ar ar' al block hdl sv" and args: "sig_args sig args"
    and handle: "getRequestType sig = REQ_SIGNAL_TUNING \<Longrightarrow> getHandle sig = hdl"
  shows "\<exists>sv' calls. processIncomingSignal env sg ar ar' al block sig sv = Some (sv', calls) \<and> daemon_inv env sv'"
proof -
  from signal_client_checks_ok[OF inv(1), of ar sig] obtain b cd where
    c: "signal_client_checks env ar sig sv = (b, sv\<lparr>sv_clients := cd\<rparr>)" "clients_ok cd" by blast
  have now: "0 \<le> sint (ar_now ar)" using rcv by (simp add: signal_receivable_def)
  obtain honored cd' where r: "isRateLimitHonored (se_rounding env) (se_rate env) (ar_now ar) (getClientTID sig) cd =
      Some (honored, cd')" "clients_ok cd'"
    using rate_limit_ok[OF c(2) now] by blast
  let ?sv = "sv\<lparr>sv_clients := cd'\<rparr>"
  have inv1: "server_inv env (sv\<lparr>sv_clients := cd\<rparr>) T W U P" and inv2: "server_inv env ?sv T W U P"
    using server_inv_clients[OF inv(1)] c(2) r(2) by auto
  have tg: "target_ok (sv_target ?sv)" using inv(2) by simp
  have stay: "daemon_inv env (sv\<lparr>sv_clients := cd\<rparr>)" "daemon_inv env ?sv"
    using inv1 inv2 inv(2) unfolding daemon_inv_def by auto
  have rcv': "signal_receivable ar ar' al block hdl ?sv" using rcv by (simp add: signal_receivable_def)
  obtain calls where calls: "signal_relay sg sig = Some calls"
    using relay_all_defined sg by (fastforce simp: signal_relay_def signals_ready_def split: prod.splits)
  have sr: "registry_usable (sg_registry sg)" using sg by (simp add: signals_ready_def)
  have t: "\<exists>t. signal_tune env sg ar' al block sig ?sv = Some t \<and> daemon_inv env t"
    if "getRequestType sig = REQ_SIGNAL_TUNING"
    by (rule signal_tune_ok[OF inv2 tg sr _ args]) (use rcv' handle[OF that] in simp)
  from signal_untune_ok[OF inv2 tg rcv', of sig] obtain u where u: "signal_untune env ar' block sig ?sv = Some u" "daemon_inv env u"
    by blast
  show ?thesis using c(1) r(1) stay t u calls
    by (cases b; cases honored) (auto simp: processIncomingSignal_def Let_def)
qed

lemma submit_signal_ok:
  assumes inv: "daemon_inv env sv" and sg: "signals_ready sg" and rcv: "signal_receivable ar ar' al block handle sv"
    and read: "\<And>raw. sig_block = Some raw \<Longrightarrow> Signal_deserialize vec_ok buf raw \<noteq> None"
  shows "\<exists>sv' calls. submitSignalRequest env sg ar ar' al block sig_block vec_ok buf handle sv = Some (sv', calls) \<and>
    daemon_inv env sv'"
proof (cases sig_block)
  case None
  with inv show ?thesis by (simp add: submitSignalRequest_def)
next
  case (Some raw)
  from read[OF Some] obtain rc sig where d: "Signal_deserialize vec_ok buf raw = Some (rc, sig)" by auto
  show ?thesis
  proof (cases "rc = RC_SUCCESS")
    case False
    with Some d inv show ?thesis by (simp add: submitSignalRequest_def)
  next
    case True
    define sig1 where "sig1 = (if getRequestType sig = REQ_SIGNAL_TUNING then setHandle handle sig else sig)"
    obtain args where "sig_args sig args" using signal_args_read d True by blast
    then have args: "sig_args sig1 args" by (simp add: sig1_def sig_args_def setHandle_def)
    have h: "getRequestType sig1 = REQ_SIGNAL_TUNING \<Longrightarrow> getHandle sig1 = handle"
      by (auto simp: sig1_def setHandle_def getHandle_def getRequestType_def split: if_splits)
    from inv obtain T W U P where i: "server_inv env sv T W U P" "target_ok (sv_target sv)" by (auto simp: daemon_inv_def)
    from process_signal_ok[OF i sg rcv args h] show ?thesis
      using Some d True by (simp add: submitSignalRequest_def flip: sig1_def)
  qed
qed

section \<open>Signals acquired by the daemon\<close>

fun some_values :: "i32 list \<Rightarrow> u32 list \<Rightarrow> i32 list" where
  "some_values [] args = []"
| "some_values (v # vs) args =
     (if v = NSIG_PLACEHOLDER
      then (case args of [] \<Rightarrow> v # some_values vs [] | a # as \<Rightarrow> a # some_values vs as)
      else v # some_values vs args)"

definition ref_each :: "i32 \<Rightarrow> u32 list option \<Rightarrow> nat \<Rightarrow> i32 list \<Rightarrow> (nat \<times> i32 list) option" where
  "ref_each numArgs args k vs =
     (case args of None \<Rightarrow> if NSIG_PLACEHOLDER \<in> set vs then None else Some (k, vs)
      | Some xs \<Rightarrow> Some (k, some_values vs (take (nat (sint numArgs)) xs)))"

lemma fill_some_none:
  assumes "lock_ok r" "j \<le> nat (sint (mNumValues r))"
  shows "fill_some [j ..< nat (sint (mNumValues r))] numArgs None k r =
    Some (if NSIG_PLACEHOLDER \<in> set (drop j (vals r)) then Inl () else Inr r)"
  using assms
proof (induction "nat (sint (mNumValues r)) - j" arbitrary: j)
  case (Suc n)
  then have j: "j < nat (sint (mNumValues r))" by simp
  then have up: "[j ..< nat (sint (mNumValues r))] = j # [Suc j ..< nat (sint (mNumValues r))]" by (simp add: upt_rec)
  have dr: "drop j (vals r) = vals r ! j # drop (Suc j) (vals r)" using j by (simp add: Cons_nth_drop_Suc)
  obtain v where v: "getValueAt r (word_of_nat j) = Some v" "vals r ! j = v"
    using readable_getValueAt[of r] Suc.prems(1) j by (fastforce simp: lock_ok_def vals_nth)
  have "n = nat (sint (mNumValues r)) - Suc j" using Suc.hyps(2) by simp
  from Suc.hyps(1)[OF this Suc.prems(1)] j v show ?case by (auto simp: up dr)
qed simp

lemma fill_some_spec:
  assumes "lock_ok r" "nat (sint numArgs) \<le> length xs" "j \<le> nat (sint (mNumValues r))"
  shows "\<exists>r'. fill_some [j ..< nat (sint (mNumValues r))] numArgs (Some xs) k r = Some (Inr r') \<and>
    vals r' = take j (vals r) @ some_values (drop j (vals r)) (drop k (take (nat (sint numArgs)) xs)) \<and>
    lock_ok r' \<and> same_header r r'"
  using assms
proof (induction "nat (sint (mNumValues r)) - j" arbitrary: j k r)
  case 0
  then show ?case by (auto simp: same_header_def)
next
  case (Suc n)
  let ?args = "take (nat (sint numArgs)) xs"
  have j: "j < nat (sint (mNumValues r))" using Suc by simp
  then have up: "[j ..< nat (sint (mNumValues r))] = j # [Suc j ..< nat (sint (mNumValues r))]" by (simp add: upt_rec)
  have dr: "drop j (vals r) = vals r ! j # drop (Suc j) (vals r)" using j by (simp add: Cons_nth_drop_Suc)
  obtain v where v: "getValueAt r (word_of_nat j) = Some v" "vals r ! j = v"
    using readable_getValueAt[of r] Suc.prems(1) j by (fastforce simp: lock_ok_def vals_nth)
  have tk: "take (Suc j) (vals r) = take j (vals r) @ [v]" using j v(2) by (simp add: take_Suc_conv_app_nth)
  show ?case
  proof (cases "v = NSIG_PLACEHOLDER \<and> int k < sint numArgs")
    case False
    have "n = nat (sint (mNumValues r)) - Suc j" using Suc.hyps(2) by simp
    from Suc.hyps(1)[OF this Suc.prems(1,2), of k] j obtain r' where
      r': "fill_some [Suc j ..< nat (sint (mNumValues r))] numArgs (Some xs) k r = Some (Inr r')"
      "vals r' = take j (vals r) @ v # some_values (drop (Suc j) (vals r)) (drop k ?args)" "lock_ok r'" "same_header r r'"
      by (auto simp: tk)
    have "some_values (drop j (vals r)) (drop k ?args) = v # some_values (drop (Suc j) (vals r)) (drop k ?args)"
      using False v(2) unfolding dr by auto
    with r' v False show ?thesis by (auto simp: up)
  next
    case True
    then have k: "k < length xs" "k < nat (sint numArgs)" using Suc.prems(2) by auto
    then have dk: "drop k ?args = xs ! k # drop (Suc k) ?args" by (simp add: Cons_nth_drop_Suc[symmetric])
    from write_value[OF Suc.prems(1) j, of "xs ! k"] obtain r1 where
      r1: "setValueAt (word_of_nat j) (xs ! k) r = Some (RC_SUCCESS, r1)" "lock_ok r1" "same_header r r1"
      "vals r1 = (vals r)[j := xs ! k]" by blast
    have n1: "mNumValues r1 = mNumValues r" using r1(3) by (simp add: same_header_def)
    have tk1: "take (Suc j) (vals r1) = take j (vals r) @ [xs ! k]"
      using j by (simp add: r1(4) take_Suc_conv_app_nth)
    have "n = nat (sint (mNumValues r1)) - Suc j" "Suc j \<le> nat (sint (mNumValues r1))" using Suc.hyps(2) n1 j by simp_all
    from Suc.hyps(1)[OF this(1) r1(2) Suc.prems(2) this(2), of "Suc k", unfolded n1 tk1] obtain r' where
      r': "fill_some [Suc j ..< nat (sint (mNumValues r))] numArgs (Some xs) (Suc k) r1 = Some (Inr r')"
      "vals r' = take j (vals r) @ xs ! k # some_values (drop (Suc j) (vals r)) (drop (Suc k) ?args)"
      "lock_ok r'" "same_header r1 r'" by (auto simp: r1(4))
    have "some_values (drop j (vals r)) (drop k ?args) = xs ! k # some_values (drop (Suc j) (vals r)) (drop (Suc k) ?args)"
      using True v(2) unfolding dr dk by simp
    with r' v True k r1(1) same_header_trans[OF r1(3) r'(4)] show ?thesis by (auto simp: up)
  qed
qed

lemma fill_each_fills:
  assumes "\<And>xs. args = Some xs \<Longrightarrow> nat (sint numArgs) \<le> length xs"
  shows "fills (\<lambda>_. True) (fill_each numArgs args) (ref_each numArgs args)"
  unfolding fills_def
proof (intro allI impI)
  fix k r assume r: "lock_ok r"
  show "case ref_each numArgs args k (vals r) of None \<Rightarrow> fill_each numArgs args k r = Some (Inl ())
     | Some (k', ws) \<Rightarrow> \<exists>r'. fill_each numArgs args k r = Some (Inr (k', r')) \<and> True \<and> vals r' = ws \<and> lock_ok r' \<and> same_header r r'"
  proof (cases args)
    case None
    then show ?thesis using fill_some_none[OF r, of 0 numArgs 0] r
      by (auto simp: ref_each_def fill_each_def getValuesCount_def same_header_def)
  next
    case (Some xs)
    then show ?thesis using fill_some_spec[OF r assms[OF Some], of 0 0]
      by (auto simp: ref_each_def fill_each_def getValuesCount_def)
  qed
qed

definition acquire_fields :: "i32 \<Rightarrow> i32 \<Rightarrow> i32 \<Rightarrow> int \<Rightarrow> request \<Rightarrow> request" where
  "acquire_fields timeout pid tid handle raw =
     setClientTID tid (setClientPID pid (setProperties (scast SYSTEM_HIGH)
       (setDuration (scast timeout) (setRequestType REQ_RESOURCE_TUNING (setHandle (word_of_int handle) (Request_init raw))))))"

lemma acquire_fields_empty: "req_ok h (acquire_fields timeout pid tid handle raw) []"
  by (simp add: acquire_fields_def req_ok_def req_list_def nodes_readable_iff setClientTID_def setClientPID_def
      setProperties_def setDuration_def setHandle_def setRequestType_def Request_init_def)

text \<open>What acquiring a signal relies on: well-formed arrays and a handle that is not in use.\<close>

definition acquirable :: "arrival \<Rightarrow> alloc_source \<Rightarrow> (addr \<times> request) option \<Rightarrow> i32 \<Rightarrow> u32 list option \<Rightarrow> i32 \<Rightarrow>
     u32 list option \<Rightarrow> int \<Rightarrow> server \<Rightarrow> bool" where
  "acquirable ar al block numFilterArgs filterArgs numArgs args gen sv \<longleftrightarrow>
     (\<forall>a raw. block = Some (a, raw) \<longrightarrow> sv_objs sv a = None) \<and> (\<forall>n. alloc_fresh al [0 ..< n] (c_heap (sv_coco sv))) \<and>
     (\<forall>j. val_array al j) \<and> 0 \<le> sint (ar_now ar) \<and> 0 \<le> gen \<and> gen < 2 ^ 63 - 1 \<and>
     map_of (mActiveRequests (sv_rm sv)) (word_of_int (gen + 1)) = None \<and>
     (\<forall>xs. filterArgs = Some xs \<longrightarrow> nat (min (sint numFilterArgs) 4) \<le> length xs) \<and>
     (\<forall>xs. args = Some xs \<longrightarrow> nat (sint numArgs) \<le> length xs)"

lemma lookup_defined:
  "(\<And>xs. e = Some xs \<Longrightarrow> nat (min (sint n) 4) \<le> length xs) \<Longrightarrow> getSignalConfigByIdAndType i t n e sr \<noteq> None"
  using findBest_safe by (fastforce simp: getSignalConfigByIdAndType_def Let_def split: option.splits)

lemma acquireSignal_ok:
  assumes inv: "daemon_inv env sv" and sr: "registry_usable sr"
    and acq: "acquirable ar al block nf fa numArgs args gen sv"
  shows "\<exists>handle gen' sv'. acquireSignal env sr ar al block i t pid tid nf fa numArgs args gen sv = Some (handle, gen', sv') \<and>
    daemon_inv env sv' \<and> gen \<le> gen'"
proof -
  from inv obtain T W U P where inv': "server_inv env sv T W U P" and tg: "target_ok (sv_target sv)" by (auto simp: daemon_inv_def)
  note q = acq[unfolded acquirable_def]
  obtain info freed where l: "getSignalConfigByIdAndType i t nf fa sr = Some (info, freed)"
    using lookup_defined[of fa nf i t sr] q by fastforce
  show ?thesis
  proof (cases "info = None \<or> block = None")
    case True
    with l inv show ?thesis
      by (cases info; cases block) (auto simp: acquireSignal_def createTuneRequestFromSignal_def)
  next
    case False
    then obtain s a raw where s: "info = Some s" "block = Some (a, raw)" by auto
    have u: "usable s" using lookup_usable[OF sr] l s by blast
    then obtain locks where lk: "mSignalResources s = Some locks" "\<forall>r\<in>set (somes locks). lock_ok r"
      by (auto simp: usable_def list_all_iff split: option.splits)
    have g: "generateUniqueHandle gen = Some (gen + 1, gen + 1)" using q by (intro generateUniqueHandle_step) auto
    let ?req = "acquire_fields (mTimeout s) pid tid (gen + 1) raw" and ?h = "c_heap (sv_coco sv)"
    have ff: "fills (\<lambda>_. True) (fill_each numArgs args) (ref_each numArgs args)" using q by (intro fill_each_fills) auto
    from add_locks_ok[OF ff _ lk(2) _ _ acquire_fields_empty[of ?h "mTimeout s" pid tid "gen + 1" raw], of al 0 0] q
    obtain ok h req ys where x: "add_locks al 0 locks (fill_each numArgs args) 0 ?h ?req = Some (ok, h, req)"
      "added ?h ?req [] h req ys" by auto
    have c: "createTuneRequestFromSignal sr al (Some raw) i t pid tid nf fa numArgs args gen ?h = Some (ok, h, Some req, freed, gen + 1)"
      using l s(1) lk(1) x(1) g by (simp add: createTuneRequestFromSignal_def acquire_fields_def[symmetric] Let_def)
    have fresh: "sv_objs sv a = None" using q s(2) by blast
    let ?sv = "hold_request a req h sv"
    have inv1: "server_inv env ?sv T W U ((a, ys) # P)" by (rule hold_request_inv[OF inv' fresh x(2)])
    have eqs: "sv_target ?sv = sv_target sv" "sv_objs ?sv a = Some req" "sv_rm ?sv = sv_rm sv" by (simp_all add: hold_request_def)
    have "getHandle req = word_of_int (gen + 1)"
      using x(2) by (auto simp: added_def acquire_fields_def getHandle_def setClientTID_def setClientPID_def
          setProperties_def setDuration_def setHandle_def setRequestType_def)
    then have "arrival_ok ar False req ?sv" using q tg eqs by (simp add: arrival_ok_def)
    from arrival_daemon[OF inv1 eqs(2) this] obtain sv1 where
      p: "RequestHandler.processIncomingRequest env ar False a ?sv = Some sv1" "daemon_inv env sv1" by blast
    from release_done[OF inv1] eqs(1) tg obtain sv2 where r: "release_request a ?sv = Some sv2" "daemon_inv env sv2"
      unfolding daemon_inv_def by metis
    have "daemon_inv env ?sv" using inv1 eqs(1) tg by (auto simp: daemon_inv_def)
    with c p r s show ?thesis
      by (cases ok; cases "getResourcesCount req > 0") (auto simp: acquireSignal_def Let_def)
  qed
qed

section \<open>The whole system\<close>

text \<open>
  The daemon with signals: besides the steps of \<^const>\<open>daemon_step\<close>, a signal message arrives or the
  daemon acquires a signal itself, for the classifier or an extension. The second component of a state is the calls into feature libraries so far.
\<close>

inductive system_step ::
    "server_env \<Rightarrow> signal_env \<Rightarrow> server \<times> relay_call list \<Rightarrow> server \<times> relay_call list \<Rightarrow> bool" for env sg where
  request_step: "daemon_step env sv sv' \<Longrightarrow> system_step env sg (sv, calls) (sv', calls)"
| signal_step: "signal_receivable ar ar' al block handle sv \<Longrightarrow>
     submitSignalRequest env sg ar ar' al block sig_block vec_ok buf handle sv = Some (sv', new) \<Longrightarrow>
     system_step env sg (sv, calls) (sv', calls @ new)"
| acquire_step: "acquirable ar al block nf fa numArgs args gen sv \<Longrightarrow>
     acquireSignal env (sg_registry sg) ar al block i t pid tid nf fa numArgs args gen sv = Some (handle, gen', sv') \<Longrightarrow>
     system_step env sg (sv, calls) (sv', calls)"

inductive system_reach ::
    "server_env \<Rightarrow> signal_env \<Rightarrow> server \<times> relay_call list \<Rightarrow> server \<times> relay_call list \<Rightarrow> bool" for env sg st0 where
  system_start: "system_reach env sg st0 st0"
| system_more: "system_reach env sg st0 st \<Longrightarrow> system_step env sg st st' \<Longrightarrow> system_reach env sg st0 st'"

inductive_cases system_stepE: "system_step env sg st st'"

definition relays_unused :: "signal_env \<Rightarrow> bool" where
  "relays_unused sg \<longleftrightarrow> mSignalTofeaturesMap (sg_features sg) = (\<lambda>_. None)"

lemma relay_none: "relays_unused sg \<Longrightarrow> signal_relay sg sig = Some []"
  by (simp add: signal_relay_def getFeatures_def relays_unused_def)

lemma submit_signal_calls:
  "relays_unused sg \<Longrightarrow> submitSignalRequest env sg ar ar' al block sig_block vec_ok buf handle sv = Some (sv', calls) \<Longrightarrow>
     calls = []"
  by (auto simp: submitSignalRequest_def processIncomingSignal_def relay_none Let_def
      split: option.splits Option.bind_splits if_splits prod.splits bool.splits)

lemma submit_signal_inv:
  assumes "daemon_inv env sv" "signals_ready sg" "signal_receivable ar ar' al block handle sv"
    "submitSignalRequest env sg ar ar' al block sig_block vec_ok buf handle sv = Some (sv', calls)"
  shows "daemon_inv env sv'"
proof -
  have read: "sig_block = Some raw \<Longrightarrow> Signal_deserialize vec_ok buf raw \<noteq> None" for raw
    using assms(4) by (auto simp: submitSignalRequest_def split: Option.bind_splits)
  have "\<exists>sv' calls. submitSignalRequest env sg ar ar' al block sig_block vec_ok buf handle sv = Some (sv', calls) \<and>
      daemon_inv env sv'" by (rule submit_signal_ok[OF assms(1-3) read])
  with assms(4) show ?thesis by auto
qed

lemma system_step_inv:
  assumes "system_step env sg st st'" "signals_ready sg" "daemon_inv env (fst st)"
  shows "daemon_inv env (fst st')"
  using assms(1)
proof cases
  case (request_step sv sv' calls)
  with assms(3) show ?thesis using daemon_step_inv by auto
next
  case (signal_step ar ar' al block handle sv sig_block vec_ok buf sv' new calls)
  with assms(2,3) show ?thesis using submit_signal_inv by auto
next
  case (acquire_step ar al block nf fa numArgs args gen sv i t pid tid handle gen' sv' calls)
  have "registry_usable (sg_registry sg)" using assms(2) by (simp add: signals_ready_def)
  from acquireSignal_ok[OF _ this acquire_step(3), of env i t pid tid] acquire_step assms(3) show ?thesis by auto
qed

lemma system_reach_inv:
  "system_reach env sg st0 st \<Longrightarrow> signals_ready sg \<Longrightarrow> daemon_inv env (fst st0) \<Longrightarrow> daemon_inv env (fst st)"
  by (induction rule: system_reach.induct) (auto intro: system_step_inv)

lemma system_reach_calls:
  "system_reach env sg st0 st \<Longrightarrow> relays_unused sg \<Longrightarrow> snd st = snd st0"
  by (induction rule: system_reach.induct) (auto elim!: system_stepE dest: submit_signal_calls)

end
