(* ===== verification/ClientAPI.thy ===== *)
theory ClientAPI
  imports Request
begin

text \<open>
  The client library \<^verbatim>\<open>client/APIs/UrmAPIs.cpp\<close>: parameter checks, encoding of the
  message into the fixed buffer, transmission and the reply. The connection is a parameter
  (\<open>net\<close>). An exception thrown by a \<^verbatim>\<open>VALIDATE\<close> macro is caught in the same function
  and turned into -1, so an encoding step returns \<open>Inl ()\<close> for it; the bytes appended before
  the throw die with the local buffer. What is proved: a message that leaves the client decodes on
  the server to the arguments of the call, and which calls produce a message.
\<close>

section \<open>Transport\<close>

record net =
  conn_ok :: bool
  send_ok :: bool
  reply :: "u8 list option"

definition sendMsgHelper :: "net \<Rightarrow> bool" where
  "sendMsgHelper nt = (conn_ok nt \<and> send_ok nt)"

text \<open>The first eight bytes of the reply, read into a zeroed buffer of 64.\<close>

definition readHandleHelper :: "net \<Rightarrow> i64" where
  "readHandleHelper nt =
     (case reply nt of None \<Rightarrow> -1
      | Some bytes \<Rightarrow> le_word (take 8 (take 64 bytes @ replicate 64 0)))"

definition zero_buf :: "u8 list" where
  "zero_buf = replicate (nat REQ_BUFFER_SIZE) 0"

text \<open>What a call does with an encoded message: the value it returns and the message it sent.\<close>

definition transmit ::
    "net \<Rightarrow> i64 \<Rightarrow> (unit + flat_buff_encoder) option \<Rightarrow> (i64 \<times> u8 list option) option" where
  "transmit nt answer enc =
     (case enc of None \<Rightarrow> None
      | Some (Inl u) \<Rightarrow> Some (-1, None)
      | Some (Inr e) \<Rightarrow>
          if isBufSane e
          then (if sendMsgHelper nt then Some (answer, mBuffer e) else Some (-1, None))
          else Some (-1, None))"

section \<open>Resource requests\<close>

datatype sys_value = SysValue i32 | SysValues "i32 list"

record sys_resource =
  sr_code :: u32
  sr_info :: i32
  sr_opt :: i32
  sr_num :: i32
  sr_value :: sys_value

definition maxResPerReq :: int where "maxResPerReq = 20"

text \<open>The union holds one value, or a pointer to at least \<^verbatim>\<open>mNumValues\<close> of them.\<close>

definition sys_values :: "sys_resource \<Rightarrow> i32 list option" where
  "sys_values r =
     (if sint (sr_num r) = 1
      then (case sr_value r of SysValue v \<Rightarrow> Some [v] | SysValues _ \<Rightarrow> None)
      else (case sr_value r of SysValue _ \<Rightarrow> None
            | SysValues vs \<Rightarrow> if nat (sint (sr_num r)) \<le> length vs
                             then Some (take (nat (sint (sr_num r))) vs) else None))"

definition sys_valid :: "sys_resource \<Rightarrow> bool" where
  "sys_valid r \<longleftrightarrow> sr_code r \<noteq> 0 \<and> 0 \<le> sint (sr_info r) \<and> 0 \<le> sint (sr_opt r) \<and> 0 < sint (sr_num r)"

definition encode_resource :: "sys_resource \<Rightarrow> flat_buff_encoder \<Rightarrow> (unit + flat_buff_encoder) option" where
  "encode_resource r e =
     (if \<not> sys_valid r then Some (Inl ())
      else case sys_values r of None \<Rightarrow> None
        | Some vs \<Rightarrow>
           map_option Inr (foldM append_val
             ([le_bytes 4 (sr_code r), le_bytes 4 (sr_info r), le_bytes 4 (sr_opt r), le_bytes 4 (sr_num r)] @
              map (le_bytes 4) vs) e))"

fun encode_resources ::
    "nat list \<Rightarrow> sys_resource list \<Rightarrow> flat_buff_encoder \<Rightarrow> (unit + flat_buff_encoder) option" where
  "encode_resources [] resourceList e = Some (Inr e)"
| "encode_resources (i # is) resourceList e =
     (if i \<ge> length resourceList then None
      else case encode_resource (resourceList ! i) e of
             None \<Rightarrow> None
           | Some (Inl u) \<Rightarrow> Some (Inl ())
           | Some (Inr e') \<Rightarrow> encode_resources is resourceList e')"

definition header_chunks :: "i8 \<Rightarrow> i64 \<Rightarrow> i64 \<Rightarrow> i32 \<Rightarrow> i32 \<Rightarrow> i32 \<Rightarrow> i32 \<Rightarrow> u8 list list" where
  "header_chunks ty handle duration num properties pid tid =
     [le_bytes 1 MOD_RESTUNE, le_bytes 1 ty, le_bytes 8 handle, le_bytes 8 duration, le_bytes 4 num,
      le_bytes 4 properties, le_bytes 4 pid, le_bytes 4 tid]"

definition tuneResources ::
    "net \<Rightarrow> flat_buff_encoder \<Rightarrow> i32 \<Rightarrow> i32 \<Rightarrow> i64 \<Rightarrow> i32 \<Rightarrow> i32 \<Rightarrow> sys_resource list option \<Rightarrow>
       (i64 \<times> u8 list option) option" where
  "tuneResources nt batch pid tid duration properties numRes resourceList =
     (case resourceList of None \<Rightarrow> Some (-1, None)
      | Some rs \<Rightarrow>
        if sint numRes \<le> 0 \<or> sint duration = 0 \<or> sint duration < -1 then Some (-1, None)
        else if sint numRes > maxResPerReq then Some (-1, None)
        else if sint properties < 0 then Some (-1, None)
        else transmit nt (readHandleHelper nt)
          (case foldM append_val (header_chunks REQ_RESOURCE_TUNING 0 duration numRes properties pid tid)
                  (setBuf zero_buf batch) of
             None \<Rightarrow> None
           | Some e \<Rightarrow> encode_resources [0 ..< nat (sint numRes)] rs e))"

definition retuneResources ::
    "net \<Rightarrow> flat_buff_encoder \<Rightarrow> i32 \<Rightarrow> i32 \<Rightarrow> i64 \<Rightarrow> i64 \<Rightarrow> (i64 \<times> u8 list option) option" where
  "retuneResources nt batch pid tid handle duration =
     (if sint handle \<le> 0 \<or> sint duration = 0 \<or> sint duration < -1 then Some (-1, None)
      else transmit nt 0
        (map_option Inr (foldM append_val (header_chunks REQ_RESOURCE_RETUNING handle duration 0 0 pid tid)
           (setBuf zero_buf batch))))"

definition untuneResources ::
    "net \<Rightarrow> flat_buff_encoder \<Rightarrow> i32 \<Rightarrow> i32 \<Rightarrow> i64 \<Rightarrow> (i64 \<times> u8 list option) option" where
  "untuneResources nt batch pid tid handle =
     (if sint handle \<le> 0 then Some (-1, None)
      else transmit nt 0
        (map_option Inr (foldM append_val (header_chunks REQ_RESOURCE_UNTUNING handle (-1) 0 0 pid tid)
           (setBuf zero_buf batch))))"

section \<open>Signals\<close>

text \<open>A C string argument is its bytes before the terminator, appended one at a time.\<close>

definition signal_chunks ::
    "i8 \<Rightarrow> u32 \<Rightarrow> u32 \<Rightarrow> i64 \<Rightarrow> i64 \<Rightarrow> u8 list \<Rightarrow> u8 list \<Rightarrow> i32 \<Rightarrow> i32 \<Rightarrow> i32 \<Rightarrow> i32 \<Rightarrow> u32 list \<Rightarrow> u8 list list" where
  "signal_chunks ty sigId sigType handle duration appName scenario numArgs properties pid tid args =
     [le_bytes 1 MOD_RESTUNE, le_bytes 1 ty, le_bytes 4 sigId, le_bytes 4 sigType, le_bytes 8 handle,
      le_bytes 8 duration] @ map (\<lambda>c. [c]) appName @ [[0]] @ map (\<lambda>c. [c]) scenario @ [[0]] @
     [le_bytes 4 numArgs, le_bytes 4 properties, le_bytes 4 pid, le_bytes 4 tid] @ map (le_bytes 4) args"

definition signal_args :: "i32 \<Rightarrow> u32 list option \<Rightarrow> u32 list option" where
  "signal_args numArgs lst =
     (if sint numArgs = 0 then Some []
      else case lst of None \<Rightarrow> None
        | Some xs \<Rightarrow> if nat (sint numArgs) \<le> length xs then Some (take (nat (sint numArgs)) xs) else None)"

definition encode_signal ::
    "i8 \<Rightarrow> flat_buff_encoder \<Rightarrow> i32 \<Rightarrow> i32 \<Rightarrow> u32 \<Rightarrow> u32 \<Rightarrow> i64 \<Rightarrow> i32 \<Rightarrow> u8 list \<Rightarrow> u8 list \<Rightarrow> i32 \<Rightarrow>
       u32 list option \<Rightarrow> (unit + flat_buff_encoder) option" where
  "encode_signal ty batch pid tid sigId sigType duration properties appName scenario numArgs lst =
     (if sint properties < 0 then Some (Inl ())
      else case signal_args numArgs lst of None \<Rightarrow> None
        | Some args \<Rightarrow>
           map_option Inr (foldM append_val
             (signal_chunks ty sigId sigType 0 duration appName scenario numArgs properties pid tid args)
             (setBuf zero_buf batch)))"

definition tuneSignal ::
    "net \<Rightarrow> flat_buff_encoder \<Rightarrow> i32 \<Rightarrow> i32 \<Rightarrow> u32 \<Rightarrow> u32 \<Rightarrow> i64 \<Rightarrow> i32 \<Rightarrow> u8 list \<Rightarrow> u8 list \<Rightarrow> i32 \<Rightarrow>
       u32 list option \<Rightarrow> (i64 \<times> u8 list option) option" where
  "tuneSignal nt batch pid tid sigId sigType duration properties appName scenario numArgs lst =
     (if sint duration < -1 \<or> sint numArgs < 0 \<or> (lst \<noteq> None \<and> sint numArgs = 0) then Some (-1, None)
      else transmit nt (readHandleHelper nt)
        (encode_signal REQ_SIGNAL_TUNING batch pid tid sigId sigType duration properties appName scenario numArgs lst))"

definition relaySignal ::
    "net \<Rightarrow> flat_buff_encoder \<Rightarrow> i32 \<Rightarrow> i32 \<Rightarrow> u32 \<Rightarrow> u32 \<Rightarrow> i64 \<Rightarrow> i32 \<Rightarrow> u8 list \<Rightarrow> u8 list \<Rightarrow> i32 \<Rightarrow>
       u32 list option \<Rightarrow> (i64 \<times> u8 list option) option" where
  "relaySignal nt batch pid tid sigId sigType duration properties appName scenario numArgs lst =
     (if sint duration < -1 \<or> sint numArgs < 0 \<or> (lst \<noteq> None \<and> sint numArgs = 0) then Some (-1, None)
      else transmit nt 0
        (encode_signal REQ_SIGNAL_RELAY batch pid tid sigId sigType duration properties appName scenario numArgs lst))"

definition untuneSignal ::
    "net \<Rightarrow> flat_buff_encoder \<Rightarrow> i32 \<Rightarrow> i32 \<Rightarrow> i64 \<Rightarrow> (i64 \<times> u8 list option) option" where
  "untuneSignal nt batch pid tid handle =
     (if sint handle \<le> 0 then Some (-1, None)
      else transmit nt 0
        (map_option Inr (foldM append_val
          (signal_chunks REQ_SIGNAL_UNTUNING 0 0 handle (-1) [] [] 0 0 pid tid []) (setBuf zero_buf batch))))"

definition retuneSignal ::
    "net \<Rightarrow> flat_buff_encoder \<Rightarrow> i32 \<Rightarrow> i32 \<Rightarrow> i64 \<Rightarrow> i64 \<Rightarrow> (i64 \<times> u8 list option) option" where
  "retuneSignal nt batch pid tid handle duration = retuneResources nt batch pid tid handle duration"

section \<open>What is sent\<close>

lemma zero_buf_length: "length zero_buf = nat REQ_BUFFER_SIZE"
  by (simp add: zero_buf_def)

lemma encoded_start: "encoded (setBuf zero_buf e) []"
  by (rule encoded_setBuf) (rule zero_buf_length)

text \<open>A message that leaves the client starts with everything that was appended.\<close>

lemma transmit_chunks:
  assumes "transmit nt answer (map_option Inr (foldM append_val cs (setBuf zero_buf batch))) = Some (ret, Some buf)"
  shows "reads buf 0 (concat cs) \<and> ret = answer \<and> sendMsgHelper nt"
proof -
  obtain e bs where e: "foldM append_val cs (setBuf zero_buf batch) = Some e" "encoded e bs"
    "isBufSane e \<longrightarrow> bs = [] @ concat cs"
    using append_vals_encoded[OF encoded_start] by blast
  with assms have "isBufSane e" "sendMsgHelper nt" "mBuffer e = Some buf" "ret = answer"
    by (auto simp: transmit_def split: if_splits)
  with e show ?thesis by (auto simp: encoded_def)
qed

lemma transmit_chunks_fit:
  assumes "int (length (concat cs)) < REQ_BUFFER_SIZE" "sendMsgHelper nt"
  shows "\<exists>buf. transmit nt answer (map_option Inr (foldM append_val cs (setBuf zero_buf batch))) =
    Some (answer, Some buf)"
proof -
  have "isBufSane (setBuf zero_buf batch)" by (simp add: isBufSane_def setBuf_def REQ_BUFFER_SIZE_def)
  then obtain e where "foldM append_val cs (setBuf zero_buf batch) = Some e" "encoded e ([] @ concat cs)"
    "isBufSane e"
    using append_vals_fit[OF encoded_start] assms(1) by fastforce
  with assms(2) show ?thesis by (auto simp: transmit_def encoded_def)
qed

definition wire_of :: "sys_resource \<Rightarrow> wire_resource" where
  "wire_of r = \<lparr>w_code = sr_code r, w_info = sr_info r, w_opt = sr_opt r,
     w_vals = (case sys_values r of None \<Rightarrow> [] | Some vs \<Rightarrow> vs)\<rparr>"

lemma sys_values_length: "sys_valid r \<Longrightarrow> sys_values r = Some vs \<Longrightarrow> int (length vs) = sint (sr_num r)"
  by (auto simp: sys_values_def sys_valid_def split: if_splits sys_value.splits)

lemma encode_resource_encoded:
  assumes "encoded e bs" "encode_resource r e = Some (Inr e')"
  shows "\<exists>bs'. encoded e' bs' \<and> (isBufSane e' \<longrightarrow> isBufSane e \<and> bs' = bs @ res_image (wire_of r)) \<and>
    int (length (w_vals (wire_of r))) = sint (sr_num r)"
proof -
  from assms(2) obtain vs where v: "sys_valid r" "sys_values r = Some vs"
    by (auto simp: encode_resource_def split: if_splits option.splits)
  have n: "int (length vs) = sint (sr_num r)" by (rule sys_values_length[OF v])
  have "word_of_nat (length vs) = (word_of_int (int (length vs)) :: i32)" by simp
  then have sr: "word_of_nat (length vs) = sr_num r" unfolding n by simp
  let ?cs = "[le_bytes 4 (sr_code r), le_bytes 4 (sr_info r), le_bytes 4 (sr_opt r), le_bytes 4 (sr_num r)] @
      map (le_bytes 4) vs"
  have "concat ?cs = res_image (wire_of r)" using v sr by (simp add: res_image_def wire_of_def)
  moreover have "map_option Inr (foldM append_val ?cs e) = Some (Inr e')"
    using assms(2) v by (simp add: encode_resource_def del: foldM.simps)
  moreover obtain e2 bs2 where e2: "foldM append_val ?cs e = Some e2" "encoded e2 bs2"
    "isBufSane e2 \<longrightarrow> isBufSane e \<and> bs2 = bs @ concat ?cs"
    using append_vals_encoded[OF assms(1), of ?cs] by blast
  ultimately have "e2 = e'" "isBufSane e' \<longrightarrow> isBufSane e \<and> bs2 = bs @ res_image (wire_of r)" by simp_all
  moreover have "int (length (w_vals (wire_of r))) = sint (sr_num r)" using n v by (simp add: wire_of_def)
  ultimately show ?thesis using e2(2) by blast
qed

lemma encode_resources_encoded:
  "encoded e bs \<Longrightarrow> encode_resources is rs e = Some (Inr e') \<Longrightarrow>
   \<exists>bs'. encoded e' bs' \<and> (\<forall>i\<in>set is. i < length rs \<and> length (w_vals (wire_of (rs ! i))) < 2 ^ 31) \<and>
     (isBufSane e' \<longrightarrow> isBufSane e \<and> bs' = bs @ concat (map (\<lambda>i. res_image (wire_of (rs ! i))) is))"
proof (induction "is" arbitrary: e bs)
  case Nil
  then show ?case by auto
next
  case (Cons i "is")
  from Cons.prems(2) obtain e1 where i: "i < length rs" "encode_resource (rs ! i) e = Some (Inr e1)"
    "encode_resources is rs e1 = Some (Inr e')"
    by (auto split: if_splits option.splits sum.splits)
  from encode_resource_encoded[OF Cons.prems(1) i(2)] obtain bs1 where
    b: "encoded e1 bs1" "isBufSane e1 \<longrightarrow> isBufSane e \<and> bs1 = bs @ res_image (wire_of (rs ! i))"
    "int (length (w_vals (wire_of (rs ! i)))) = sint (sr_num (rs ! i))" by blast
  have "length (w_vals (wire_of (rs ! i))) < 2 ^ 31"
  proof -
    have "int (length (w_vals (wire_of (rs ! i)))) < 2 ^ 31"
      unfolding b(3) using sint_lt[of "sr_num (rs ! i)"] by simp
    then show ?thesis by simp
  qed
  moreover from Cons.IH[OF b(1) i(3)] obtain bs' where "encoded e' bs'"
    "\<forall>i\<in>set is. i < length rs \<and> length (w_vals (wire_of (rs ! i))) < 2 ^ 31"
    "isBufSane e' \<longrightarrow> isBufSane e1 \<and> bs' = bs1 @ concat (map (\<lambda>i. res_image (wire_of (rs ! i))) is)" by blast
  ultimately show ?case using b(2) i(1) by (intro exI[of _ bs']) simp
qed

section \<open>Round trips\<close>

lemma transmit_Some:
  "transmit nt answer enc = Some (ret, Some buf) \<longleftrightarrow>
     (\<exists>e. enc = Some (Inr e) \<and> isBufSane e \<and> sendMsgHelper nt \<and> ret = answer \<and> mBuffer e = Some buf)"
  by (auto simp: transmit_def split: option.splits sum.splits)

lemma header_image:
  "concat (header_chunks ty handle duration num properties pid tid) @ rest =
     le_bytes 1 MOD_RESTUNE @ le_bytes 1 ty @ le_bytes 8 handle @ le_bytes 8 duration @ le_bytes 4 num @
     le_bytes 4 properties @ le_bytes 4 pid @ le_bytes 4 tid @ rest"
  by (simp add: header_chunks_def)

lemma word_of_pos: "0 < sint (n :: i32) \<Longrightarrow> word_of_nat (nat (sint n)) = n"
  by simp

text \<open>The bytes of a tune request that was sent.\<close>

lemma tuneResources_image:
  assumes "tuneResources nt batch pid tid duration properties numRes resourceList = Some (ret, Some buf)"
  obtains rs where "resourceList = Some rs" "0 < sint numRes" "sint numRes \<le> maxResPerReq"
    "nat (sint numRes) \<le> length rs" "sint duration = -1 \<or> 0 < sint duration" "0 \<le> sint properties"
    "reads buf 0 (req_image REQ_RESOURCE_TUNING 0 duration properties pid tid
       (map wire_of (take (nat (sint numRes)) rs)))"
    "\<forall>r\<in>set (take (nat (sint numRes)) rs). length (w_vals (wire_of r)) < 2 ^ 31"
proof -
  let ?n = "nat (sint numRes)" and ?hd = "header_chunks REQ_RESOURCE_TUNING 0 duration numRes properties pid tid"
  from assms obtain rs e0 e where rs: "resourceList = Some rs" "0 < sint numRes" "sint numRes \<le> maxResPerReq"
    "sint duration = -1 \<or> 0 < sint duration" "0 \<le> sint properties"
    and e0: "foldM append_val ?hd (setBuf zero_buf batch) = Some e0"
    and e: "encode_resources [0..<?n] rs e0 = Some (Inr e)" "isBufSane e" "mBuffer e = Some buf"
    by (fastforce simp: tuneResources_def transmit_Some split: option.splits if_splits)
  from append_vals_encoded[OF encoded_start, of ?hd batch] e0 obtain b0 where
    b0: "encoded e0 b0" "isBufSane e0 \<longrightarrow> b0 = concat ?hd" by auto
  from encode_resources_encoded[OF b0(1) e(1)] e(2) b0(2) obtain bs' where
    bs: "encoded e bs'" "\<forall>i\<in>set [0..<?n]. i < length rs \<and> length (w_vals (wire_of (rs ! i))) < 2 ^ 31"
    "bs' = concat ?hd @ concat (map (\<lambda>i. res_image (wire_of (rs ! i))) [0..<?n])" by auto
  have len: "?n \<le> length rs" using bs(2) rs(2) by (cases ?n) auto
  have tk: "map (\<lambda>i. wire_of (rs ! i)) [0..<?n] = map wire_of (take ?n rs)"
    using len by (auto intro!: nth_equalityI)
  have "bs' = req_image REQ_RESOURCE_TUNING 0 duration properties pid tid (map wire_of (take ?n rs))"
    using len rs(2) unfolding bs(3) req_image_def header_image tk[symmetric] by (simp add: o_def)
  moreover have "reads buf 0 bs'" using bs(1) e(3) by (auto simp: encoded_def)
  moreover have "\<forall>r\<in>set (take ?n rs). length (w_vals (wire_of r)) < 2 ^ 31"
    using bs(2) len by (auto simp: in_set_conv_nth)
  ultimately show ?thesis using that rs len by blast
qed

lemma tune_roundtrip_lemma:
  assumes sent: "tuneResources nt batch pid tid duration properties numRes resourceList = Some (ret, Some buf)"
    and al: "alloc_ok al [0..<nat (sint numRes)] A h" and req: "mResourceList req = None"
  shows "\<exists>h' req' rs. resourceList = Some rs \<and> Request_deserialize al buf h req = Some (RC_SUCCESS, h', req') \<and>
    mReqType req' = REQ_RESOURCE_TUNING \<and> mDuration req' = duration \<and> mProperties req' = properties \<and>
    mClientPID req' = pid \<and> mClientTID req' = tid \<and>
    req_list h' req' (map A [0..<nat (sint numRes)]) \<and>
    list_all2 (stored h') (map A [0..<nat (sint numRes)]) (map wire_of (take (nat (sint numRes)) rs))"
proof -
  let ?n = "nat (sint numRes)"
  from tuneResources_image[OF sent] obtain rs where rs: "resourceList = Some rs" "?n \<le> length rs"
    and img: "reads buf 0 (req_image REQ_RESOURCE_TUNING 0 duration properties pid tid (map wire_of (take ?n rs)))"
    and small: "\<forall>r\<in>set (take ?n rs). length (w_vals (wire_of r)) < 2 ^ 31" by metis
  have n: "length (map wire_of (take ?n rs)) = ?n" "?n < 2 ^ 31"
    using rs(2) sint_lt[of numRes] by auto
  with Request_deserialize_image[OF img _ _ _ req, of al A h] al small rs(1) show ?thesis by fastforce
qed

text \<open>Retune and untune requests carry their handle and no resources.\<close>

lemma short_request_roundtrip:
  assumes "transmit nt 0 (map_option Inr (foldM append_val
      (header_chunks ty handle duration 0 0 pid tid) (setBuf zero_buf batch))) = Some (ret, Some buf)"
    and "ty \<noteq> REQ_RESOURCE_TUNING"
  shows "Request_deserialize al buf h req = Some (RC_SUCCESS, h,
    req\<lparr>mReqType := ty, mHandle := handle, mDuration := duration, mProperties := 0, mClientPID := pid,
        mClientTID := tid\<rparr>)"
proof -
  have "reads buf 0 (concat (header_chunks ty handle duration 0 0 pid tid))"
    using transmit_chunks[OF assms(1)] by simp
  then have "reads buf 0 (le_bytes 1 MOD_RESTUNE @ le_bytes 1 ty @ le_bytes 8 handle @ le_bytes 8 duration @
      le_bytes 4 (0 :: i32) @ le_bytes 4 (0 :: i32) @ le_bytes 4 pid @ le_bytes 4 tid)"
    by (simp add: header_chunks_def)
  note rd = this[unfolded reads_append, simplified]
  show ?thesis
    using rd assms(2)
    by (elim conjE) (simp add: Request_deserialize_def deref_byte deref_word32 deref_word64 Let_def)
qed

lemma REQ_types_distinct [simp]:
  "REQ_RESOURCE_RETUNING \<noteq> REQ_RESOURCE_TUNING" "REQ_RESOURCE_UNTUNING \<noteq> REQ_RESOURCE_TUNING"
  by (simp_all add: request_types)

text \<open>C strings in the buffer.\<close>

lemma concat_singletons [simp]: "concat (map (\<lambda>c. [c]) xs) = xs"
  by (induction xs) auto

lemma takeWhile_drop_reads:
  "reads buf p (s @ [0]) \<Longrightarrow> 0 \<notin> set s \<Longrightarrow> takeWhile (\<lambda>c. c \<noteq> 0) (drop p buf) = s"
proof -
  assume r: "reads buf p (s @ [0])" and s: "0 \<notin> set s"
  have "drop p buf = take (length (s @ [0])) (drop p buf) @ drop (length (s @ [0])) (drop p buf)"
    by (rule append_take_drop_id[symmetric])
  then have d: "drop p buf = s @ 0 # drop (length (s @ [0])) (drop p buf)"
    using r by (simp add: reads_def)
  have "\<And>x. x \<in> set s \<Longrightarrow> x \<noteq> 0" using s by auto
  then show ?thesis by (subst d) (simp add: takeWhile_append2)
qed

lemma read_cstr_image:
  "reads buf p (s @ [0]) \<Longrightarrow> 0 \<notin> set s \<Longrightarrow> read_cstr buf p = Some (s, p + length s + 1)"
  using takeWhile_drop_reads[of buf p s] by (auto simp: read_cstr_def Let_def reads_def)

lemma signal_deserialize_image:
  assumes "reads buf 0 (concat (signal_chunks ty sigId sigType handle duration app scn numArgs properties pid tid args))"
    and "0 \<notin> set app" "0 \<notin> set scn" "sint numArgs = int (length args)"
  shows "Signal_deserialize True buf sig = Some (RC_SUCCESS,
    sig\<lparr>mReqType := ty, mSignalCode := sigId, mSignalType := sigType, mHandle := handle, mDuration := duration,
        mAppName := app, mScenario := scn, mNumArgs := numArgs, mProperties := properties,
        mClientPID := pid, mClientTID := tid, mListArgs := Some args\<rparr>)"
proof -
  have "reads buf 0 (le_bytes 1 MOD_RESTUNE @ le_bytes 1 ty @ le_bytes 4 sigId @ le_bytes 4 sigType @
      le_bytes 8 handle @ le_bytes 8 duration @ (app @ [0]) @ (scn @ [0]) @ le_bytes 4 numArgs @
      le_bytes 4 properties @ le_bytes 4 pid @ le_bytes 4 tid @ concat (map (le_bytes 4) args))"
    using assms(1) by (simp add: signal_chunks_def)
  note rd = this[unfolded reads_append[of _ _ "le_bytes _ _"] reads_append[of _ _ "app @ [0]"]
      reads_append[of _ _ "scn @ [0]"], simplified]
  show ?thesis
    using rd assms(2-4) word32_field.read_images[of buf _ args]
    by (elim conjE) (simp add: Signal_deserialize_def deref_byte deref_word32 deref_word64 Let_def
        read_cstr_image add.commute add.left_commute)
qed

section \<open>Which calls are sent\<close>

definition sys_readable :: "sys_resource \<Rightarrow> bool" where
  "sys_readable r \<longleftrightarrow> sys_valid r \<and> sys_values r \<noteq> None"

definition tune_size :: "sys_resource list \<Rightarrow> nat" where
  "tune_size rs = 34 + (\<Sum>r\<leftarrow>rs. length (res_image (wire_of r)))"

lemma encode_resource_chunks:
  assumes "sys_readable r"
  obtains cs where "encode_resource r e = map_option Inr (foldM append_val cs e)"
    "concat cs = res_image (wire_of r)"
proof -
  from assms obtain vs where v: "sys_valid r" "sys_values r = Some vs" by (auto simp: sys_readable_def)
  have n: "int (length vs) = sint (sr_num r)" by (rule sys_values_length[OF v])
  have "word_of_nat (length vs) = (word_of_int (int (length vs)) :: i32)" by simp
  then have sr: "word_of_nat (length vs) = sr_num r" unfolding n by simp
  show ?thesis
  proof (rule that)
    show "encode_resource r e = map_option Inr (foldM append_val
      ([le_bytes 4 (sr_code r), le_bytes 4 (sr_info r), le_bytes 4 (sr_opt r), le_bytes 4 (sr_num r)] @
       map (le_bytes 4) vs) e)"
      using v by (simp add: encode_resource_def del: foldM.simps)
  qed (use v sr in \<open>simp add: res_image_def wire_of_def\<close>)
qed

lemma encode_resources_fit:
  "encoded e bs \<Longrightarrow> isBufSane e \<Longrightarrow> \<forall>i\<in>set is. i < length rs \<and> sys_readable (rs ! i) \<Longrightarrow>
   int (length bs + (\<Sum>i\<leftarrow>is. length (res_image (wire_of (rs ! i))))) < REQ_BUFFER_SIZE \<Longrightarrow>
   \<exists>e' bs'. encode_resources is rs e = Some (Inr e') \<and> encoded e' bs' \<and> isBufSane e'"
proof (induction "is" arbitrary: e bs)
  case Nil
  then show ?case by auto
next
  case (Cons i "is")
  then have i: "i < length rs" "sys_readable (rs ! i)" by auto
  from encode_resource_chunks[OF i(2), of e] obtain cs where
    cs: "encode_resource (rs ! i) e = map_option Inr (foldM append_val cs e)"
    "concat cs = res_image (wire_of (rs ! i))" .
  have "int (length bs) + int (length (concat cs)) < REQ_BUFFER_SIZE" using Cons.prems(4) cs(2) by simp
  from append_vals_fit[OF Cons.prems(1,2) this] obtain e1 where
    e1: "foldM append_val cs e = Some e1" "encoded e1 (bs @ concat cs)" "isBufSane e1" by blast
  from Cons.IH[OF e1(2,3)] Cons.prems(3,4) cs(2) obtain e' bs' where
    "encode_resources is rs e1 = Some (Inr e')" "encoded e' bs'" "isBufSane e'" by auto
  with i cs e1 show ?case by auto
qed

text \<open>An admissible call whose message fits is sent; the caller gets the handle of the reply.\<close>

lemma tuneResources_sends:
  assumes "0 < sint numRes" "sint numRes \<le> maxResPerReq" "nat (sint numRes) \<le> length rs"
    and "sint duration = -1 \<or> 0 < sint duration" "0 \<le> sint properties"
    and "\<forall>r\<in>set (take (nat (sint numRes)) rs). sys_readable r"
    and "int (tune_size (take (nat (sint numRes)) rs)) < REQ_BUFFER_SIZE" "sendMsgHelper nt"
  shows "\<exists>buf. tuneResources nt batch pid tid duration properties numRes (Some rs) =
    Some (readHandleHelper nt, Some buf)"
proof -
  let ?n = "nat (sint numRes)" and ?hd = "header_chunks REQ_RESOURCE_TUNING 0 duration numRes properties pid tid"
  have tk: "map (\<lambda>i. rs ! i) [0..<?n] = take ?n rs"
    using assms(3) by (auto intro!: nth_equalityI)
  have hl: "length (concat ?hd) = 34" by (simp add: header_chunks_def)
  have sane: "isBufSane (setBuf zero_buf batch)" by (simp add: isBufSane_def setBuf_def REQ_BUFFER_SIZE_def)
  then obtain e0 where e0: "foldM append_val ?hd (setBuf zero_buf batch) = Some e0" "encoded e0 (concat ?hd)"
    "isBufSane e0"
    using append_vals_fit[OF encoded_start sane, of ?hd] by (auto simp: hl REQ_BUFFER_SIZE_def)
  have "(\<Sum>i\<leftarrow>[0..<?n]. length (res_image (wire_of (rs ! i)))) = (\<Sum>r\<leftarrow>take ?n rs. length (res_image (wire_of r)))"
    unfolding tk[symmetric] by (simp add: o_def)
  then have fit: "int (length (concat ?hd) + (\<Sum>i\<leftarrow>[0..<?n]. length (res_image (wire_of (rs ! i))))) < REQ_BUFFER_SIZE"
    using assms(7) unfolding hl tune_size_def by simp
  have "rs ! i \<in> set (take ?n rs)" if "i < ?n" for i
    using that assms(3) by (auto simp: in_set_conv_nth intro!: exI[of _ i])
  then have "\<forall>i\<in>set [0..<?n]. i < length rs \<and> sys_readable (rs ! i)" using assms(3,6) by auto
  from encode_resources_fit[OF e0(2,3) this fit] obtain e' bs' where
    "encode_resources [0..<?n] rs e0 = Some (Inr e')" "encoded e' bs'" "isBufSane e'" by blast
  then show ?thesis using assms(1,2,4,5,8) e0(1)
    by (auto simp: tuneResources_def transmit_def encoded_def)
qed

section \<open>Signals that were sent\<close>

lemma encode_signal_roundtrip:
  assumes "transmit nt answer (encode_signal ty batch pid tid sigId sigType duration properties app scn numArgs lst) =
      Some (ret, Some buf)"
    and "0 \<notin> set app" "0 \<notin> set scn" "0 \<le> sint numArgs"
  shows "\<exists>args. signal_args numArgs lst = Some args \<and> Signal_deserialize True buf sig = Some (RC_SUCCESS,
    sig\<lparr>mReqType := ty, mSignalCode := sigId, mSignalType := sigType, mHandle := 0, mDuration := duration,
        mAppName := app, mScenario := scn, mNumArgs := numArgs, mProperties := properties,
        mClientPID := pid, mClientTID := tid, mListArgs := Some args\<rparr>)"
proof -
  from assms(1) obtain args where a: "signal_args numArgs lst = Some args"
    "transmit nt answer (map_option Inr (foldM append_val
       (signal_chunks ty sigId sigType 0 duration app scn numArgs properties pid tid args) (setBuf zero_buf batch))) =
       Some (ret, Some buf)"
    by (auto simp: encode_signal_def transmit_def split: if_splits option.splits)
  have "sint numArgs = int (length args)"
    using a(1) assms(4) by (auto simp: signal_args_def split: if_splits option.splits)
  with signal_deserialize_image[OF _ assms(2,3)] transmit_chunks[OF a(2)] a(1) show ?thesis by blast
qed

end
