(* ===== verification/Properties.thy ===== *)
theory Properties
  imports ClientAPI AuxRoutines Stores "HOL-Library.AList"
begin

text \<open>
  Properties: \<^verbatim>\<open>PropertiesRegistry.cpp\<close>, the query of a client
  (\<^verbatim>\<open>getProp\<close> of \<^verbatim>\<open>UrmAPIs.cpp\<close>), its service
  (\<^verbatim>\<open>submitPropGetRequest\<close> of \<^verbatim>\<open>RequestHandler.cpp\<close>) and the dispatch of received
  messages (\<^verbatim>\<open>RequestReceiver.cpp\<close>). Names and values are byte strings without their
  terminator. The map is an association list with distinct keys. What is proved: the last
  well-formed value stored under a name is the one found, and what a query of the client leaves in
  the buffer of its caller, from the bytes it sends to the bytes it reads.
\<close>

section \<open>The registry\<close>

type_synonym bytes = "u8 list"

record properties_registry =
  pr_properties :: "(bytes \<times> bytes) list"

definition PropertiesRegistry_init :: properties_registry where
  "PropertiesRegistry_init = \<lparr>pr_properties = []\<rparr>"

definition createProperty :: "bytes \<Rightarrow> bytes \<Rightarrow> properties_registry \<Rightarrow> bool \<times> properties_registry" where
  "createProperty propertyName propertyValue pr =
     (if length propertyName = 0 \<or> length propertyValue = 0 then (False, pr)
      else (True, pr\<lparr>pr_properties := AList.update propertyName propertyValue (pr_properties pr)\<rparr>))"

text \<open>The number of bytes written and, where the name is known, the new value of \<^verbatim>\<open>result\<close>.\<close>

definition queryProperty :: "bytes \<Rightarrow> bytes \<Rightarrow> properties_registry \<Rightarrow> nat \<times> bytes" where
  "queryProperty propertyName result pr =
     (if length propertyName = 0 then (0, result)
      else case map_of (pr_properties pr) propertyName of
             None \<Rightarrow> (0, result)
           | Some v \<Rightarrow> (length v, v))"

definition modifyProperty :: "bytes \<Rightarrow> bytes \<Rightarrow> properties_registry \<Rightarrow> bool \<times> properties_registry" where
  "modifyProperty propertyName propertyValue pr =
     (if length propertyName = 0 \<or> length propertyValue = 0 then (False, pr)
      else if fst (queryProperty propertyName [] pr) = 0 then (False, pr)
      else (True, pr\<lparr>pr_properties := AList.update propertyName propertyValue (pr_properties pr)\<rparr>))"

definition deleteProperty :: "bytes \<Rightarrow> properties_registry \<Rightarrow> bool \<times> properties_registry" where
  "deleteProperty propertyName pr =
     (if length propertyName = 0 then (False, pr)
      else if fst (queryProperty propertyName [] pr) = 0 then (False, pr)
      else (True, pr\<lparr>pr_properties := AList.delete propertyName (pr_properties pr)\<rparr>))"

definition getPropertiesCount :: "properties_registry \<Rightarrow> i32" where
  "getPropertiesCount pr = word_of_nat (length (pr_properties pr))"

section \<open>Queries on the server\<close>

text \<open>The name stands behind the type bytes and the buffer size of the message.\<close>

definition submitPropGetRequest :: "u8 list option \<Rightarrow> bytes \<Rightarrow> properties_registry \<Rightarrow> (nat \<times> bytes) option" where
  "submitPropGetRequest msg result pr =
     (case msg of None \<Rightarrow> Some (0, result)
      | Some buf \<Rightarrow> do {
          (_ :: i8, p) \<leftarrow> deref_and_incr 1 buf 0;
          (_ :: i8, p) \<leftarrow> deref_and_incr 1 buf p;
          (_ :: u64, p) \<leftarrow> deref_and_incr 8 buf p;
          (propName, p) \<leftarrow> read_cstr buf p;
          let (writtenBytes, buffer) = queryProperty propName [] pr;
          Some (writtenBytes, if writtenBytes > 0 then buffer else result) })"

definition submitPropGetRequest_def_value :: "bytes \<Rightarrow> bytes \<Rightarrow> properties_registry \<Rightarrow> nat \<times> bytes" where
  "submitPropGetRequest_def_value propName defVal pr =
     (let (writtenBytes, buffer) = queryProperty propName [] pr
      in (writtenBytes, if writtenBytes > 0 then buffer else defVal))"

text \<open>
  \<^verbatim>\<open>forwardMessage\<close>. What is written back on the socket, and the task handed to the thread
  pool. The pool is an argument: \<^const>\<open>None\<close> when it is not initialised, else whether it takes
  the task. Handles come from \<open>generateUniqueHandle\<close>.
\<close>

datatype task = ProvisionTask i64 "u8 list" | SignalTask i64 "u8 list"

record forwarded =
  fw_reply :: "bytes option"
  fw_task :: "task option"

definition na_reply :: bytes where "na_reply = [110, 97]"

definition no_answer :: forwarded where
  "no_answer = \<lparr>fw_reply = None, fw_task = None\<rparr>"

definition task_of :: "i8 \<Rightarrow> i64 \<Rightarrow> u8 list \<Rightarrow> task option" where
  "task_of requestType handle buf =
     (if requestType = REQ_RESOURCE_TUNING \<or> requestType = REQ_RESOURCE_RETUNING \<or>
         requestType = REQ_RESOURCE_UNTUNING then Some (ProvisionTask handle buf)
      else if requestType = REQ_SIGNAL_TUNING \<or> requestType = REQ_SIGNAL_UNTUNING \<or>
         requestType = REQ_SIGNAL_RELAY then Some (SignalTask handle buf)
      else None)"

definition forwardMessage ::
    "bool option \<Rightarrow> properties_registry \<Rightarrow> int \<Rightarrow> u8 list \<Rightarrow> (forwarded \<times> int) option" where
  "forwardMessage pool pr gen buf = do {
     (_ :: i8, p) \<leftarrow> deref_and_incr 1 buf 0;
     (requestType, _) \<leftarrow> deref_and_incr 1 buf p;
     (if requestType = REQ_PROP_GET then do {
        (writeLen, result) \<leftarrow> submitPropGetRequest (Some buf) [] pr;
        Some (no_answer\<lparr>fw_reply := Some (if writeLen = 0 then na_reply else take writeLen result)\<rparr>, gen) }
      else do {
        (handle, gen) \<leftarrow> generateUniqueHandle gen;
        (if handle < 0 then Some (no_answer, gen)
         else case pool of None \<Rightarrow> Some (no_answer, gen)
           | Some ok \<Rightarrow>
              Some (\<lparr>fw_reply = (if requestType = REQ_RESOURCE_TUNING \<or> requestType = REQ_SIGNAL_TUNING
                                then Some (le_bytes 8 (word_of_int handle :: i64)) else None),
                     fw_task = (if ok then task_of requestType (word_of_int handle) buf else None)\<rparr>, gen)) }) }"

section \<open>The query of a client\<close>

text \<open>\<^verbatim>\<open>strncpy(dst, src, n)\<close>; the source is readable up to its end.\<close>

definition strncpy :: "nat \<Rightarrow> bytes \<Rightarrow> bytes \<Rightarrow> bytes option" where
  "strncpy n dst src =
     (let s = take n (takeWhile (\<lambda>c. c \<noteq> 0) src)
      in if length dst < n \<or> (length s < n \<and> length s = length src) then None
         else Some (s @ replicate (n - length s) 0 @ drop n dst))"

text \<open>\<^verbatim>\<open>strncmp(buf, "na", 2) == 0\<close>\<close>

definition is_na :: "bytes \<Rightarrow> bool option" where
  "is_na buf =
     (case buf of [] \<Rightarrow> None
      | a # rest \<Rightarrow> if a \<noteq> 110 then Some False
                    else (case rest of [] \<Rightarrow> None | b # _ \<Rightarrow> Some (b = 97)))"

definition prop_chunks :: "u64 \<Rightarrow> bytes \<Rightarrow> u8 list list" where
  "prop_chunks bufferSize prop =
     [le_bytes 1 MOD_RESTUNE, le_bytes 1 REQ_PROP_GET, le_bytes 8 bufferSize] @ map (\<lambda>c. [c]) prop @ [[0]]"

text \<open>The answer is read into a zeroed buffer of \<open>n\<close> bytes.\<close>

definition take_answer :: "bytes \<Rightarrow> bytes \<Rightarrow> nat \<Rightarrow> bytes option \<Rightarrow> bytes option" where
  "take_answer answer out n defValue = do {
     let resultBuf = take n answer @ replicate (n - length answer) 0;
     na \<leftarrow> is_na resultBuf;
     src \<leftarrow> (if na then map_option (\<lambda>d. d @ [0]) defValue else Some resultBuf);
     strncpy (n - 1) out src }"

text \<open>
  The buffer of the caller is given by its bytes, the default value without its terminator. The
  result is the return value, the message that was sent and the buffer.
\<close>

definition getProp ::
    "net \<Rightarrow> flat_buff_encoder \<Rightarrow> bytes option \<Rightarrow> bytes option \<Rightarrow> u64 \<Rightarrow> bytes option \<Rightarrow>
       (i64 \<times> u8 list option \<times> bytes option) option" where
  "getProp nt batch prop buffer bufferSize defValue =
     (case (prop, buffer) of
        (Some name, Some out) \<Rightarrow> do {
          e \<leftarrow> foldM append_val (prop_chunks bufferSize name) (setBuf zero_buf batch);
          (if \<not> isBufSane e \<or> \<not> sendMsgHelper nt then Some (-1, None, Some out)
           else if bufferSize = 0 then Some (-1, mBuffer e, Some out)
           else case reply nt of None \<Rightarrow> Some (-1, mBuffer e, Some out)
             | Some answer \<Rightarrow>
                 map_option (\<lambda>out'. (0, mBuffer e, Some out')) (take_answer answer out (unat bufferSize) defValue)) }
      | _ \<Rightarrow> Some (-1, None, buffer))"

section \<open>The registry as a map\<close>

definition props_inv :: "properties_registry \<Rightarrow> bool" where
  "props_inv pr \<longleftrightarrow> distinct (map fst (pr_properties pr)) \<and> (\<forall>(k, v)\<in>set (pr_properties pr). k \<noteq> [] \<and> v \<noteq> [])"

definition find_property :: "bytes \<Rightarrow> properties_registry \<Rightarrow> bytes option" where
  "find_property k pr = map_of (pr_properties pr) k"

lemma props_inv_init: "props_inv PropertiesRegistry_init"
  by (simp add: props_inv_def PropertiesRegistry_init_def)

lemma set_update_subset: "set (AList.update k v xs) \<subseteq> insert (k, v) (set xs)"
  by (induction xs) auto

lemma set_delete_subset: "set (AList.delete k xs) \<subseteq> set xs"
  by (auto simp: AList.delete_eq)

lemma createProperty_inv: "props_inv pr \<Longrightarrow> props_inv (snd (createProperty k v pr))"
  using set_update_subset[of k v "pr_properties pr"]
  by (fastforce simp: props_inv_def createProperty_def intro: distinct_update)

lemma modifyProperty_inv: "props_inv pr \<Longrightarrow> props_inv (snd (modifyProperty k v pr))"
  using set_update_subset[of k v "pr_properties pr"]
  by (fastforce simp: props_inv_def modifyProperty_def intro: distinct_update)

lemma deleteProperty_inv: "props_inv pr \<Longrightarrow> props_inv (snd (deleteProperty k pr))"
  using set_delete_subset[of k "pr_properties pr"]
  by (fastforce simp: props_inv_def deleteProperty_def intro: distinct_delete)

lemma find_property_nonempty: "props_inv pr \<Longrightarrow> find_property k pr = Some v \<Longrightarrow> k \<noteq> [] \<and> v \<noteq> []"
  by (auto simp: props_inv_def find_property_def dest!: map_of_SomeD)

lemma queryProperty_find:
  "props_inv pr \<Longrightarrow> queryProperty k r pr =
     (case find_property k pr of None \<Rightarrow> (0, r) | Some v \<Rightarrow> (length v, v))"
  using find_property_nonempty[of pr k]
  by (auto simp: queryProperty_def find_property_def split: option.splits)

lemma query_known: "props_inv pr \<Longrightarrow> fst (queryProperty k r pr) = 0 \<longleftrightarrow> find_property k pr = None"
  using find_property_nonempty[of pr k] by (auto simp: queryProperty_find split: option.splits)

lemma find_createProperty:
  "find_property x (snd (createProperty k v pr)) = (if (k \<noteq> [] \<and> v \<noteq> []) \<and> x = k then Some v else find_property x pr)"
  by (auto simp: find_property_def createProperty_def update_conv')

lemma length_put_alist: "distinct (map fst xs) \<Longrightarrow>
   length (AList.update k v xs) = (if map_of xs k = None then length xs + 1 else length xs)"
  by (induction xs) auto

lemma count_createProperty: "props_inv pr \<Longrightarrow> getPropertiesCount (snd (createProperty k v pr)) =
   (if (k \<noteq> [] \<and> v \<noteq> []) \<and> find_property k pr = None then getPropertiesCount pr + 1 else getPropertiesCount pr)"
  by (auto simp: getPropertiesCount_def createProperty_def props_inv_def find_property_def length_put_alist)

interpretation props: counted_store props_inv "\<lambda>(k, v). k \<noteq> [] \<and> v \<noteq> []" fst snd find_property
    "\<lambda>(k, v) pr. snd (createProperty k v pr)" getPropertiesCount
  by unfold_locales
    (auto simp: createProperty_inv find_createProperty count_createProperty)

lemma find_modifyProperty:
  "props_inv pr \<Longrightarrow> find_property x (snd (modifyProperty k v pr)) =
     (if k \<noteq> [] \<and> v \<noteq> [] \<and> find_property k pr \<noteq> None \<and> x = k then Some v else find_property x pr)"
  using query_known[of pr k "[]"] by (auto simp: find_property_def modifyProperty_def update_conv')

lemma find_deleteProperty:
  "props_inv pr \<Longrightarrow> find_property x (snd (deleteProperty k pr)) = (if x = k then None else find_property x pr)"
  using query_known[of pr k "[]"] find_property_nonempty[of pr k]
  by (auto simp: find_property_def deleteProperty_def delete_conv')

section \<open>A query and its answer\<close>

lemma read_cstr_reads:
  assumes "reads buf p (s @ [0])" "0 \<notin> set s"
  shows "read_cstr buf p = Some (s, p + length s + 1)"
proof -
  have d: "drop p buf = s @ 0 # drop (p + length s + 1) buf"
  proof -
    have "take (length s + 1) (drop p buf) = s @ [0]" using assms(1) by (simp add: reads_def)
    then have "drop p buf = (s @ [0]) @ drop (length s + 1) (drop p buf)" by (metis append_take_drop_id)
    then show ?thesis by (simp add: add.commute add.left_commute)
  qed
  have "takeWhile (\<lambda>c. c \<noteq> 0) (drop p buf) = s"
    unfolding d using assms(2) by (subst takeWhile_append2) auto
  moreover have "p + length s < length buf" using assms(1) by (simp add: reads_def)
  ultimately show ?thesis by (simp add: read_cstr_def Let_def)
qed

lemma concat_prop_chunks:
  "concat (prop_chunks n prop) = le_bytes 1 MOD_RESTUNE @ le_bytes 1 REQ_PROP_GET @ le_bytes 8 n @ prop @ [0]"
  by (simp add: prop_chunks_def)

lemma submitPropGetRequest_image:
  assumes "reads buf 0 (concat (prop_chunks n name))" "0 \<notin> set name" "props_inv pr"
  shows "submitPropGetRequest (Some buf) r pr =
    Some (case find_property name pr of None \<Rightarrow> (0, r) | Some v \<Rightarrow> (length v, v))"
proof -
  from assms(1) have r: "reads buf 0 (le_bytes 1 MOD_RESTUNE)" "reads buf 1 (le_bytes 1 REQ_PROP_GET)"
    "reads buf 2 (le_bytes 8 n)" "reads buf 10 (name @ [0])"
    by (simp_all add: concat_prop_chunks reads_append flip: numeral_2_eq_2)
  have "find_property name pr = Some v \<Longrightarrow> v \<noteq> []" for v using find_property_nonempty[OF assms(3)] by blast
  then show ?thesis
    using r(1,2) deref_le_bytes[OF _ r(1)] deref_le_bytes[OF _ r(2)] deref_word64[OF r(3), unfolded numeral_2_eq_2]
      read_cstr_reads[OF r(4) assms(2)]
    by (auto simp: submitPropGetRequest_def queryProperty_find[OF assms(3)] split: option.splits)
qed

lemma forward_query:
  assumes "reads buf 0 (concat (prop_chunks n name))" "0 \<notin> set name" "props_inv pr"
  shows "forwardMessage pool pr gen buf =
    Some (\<lparr>fw_reply = Some (case find_property name pr of None \<Rightarrow> na_reply | Some v \<Rightarrow> v), fw_task = None\<rparr>, gen)"
proof -
  from assms(1) have r: "reads buf 0 (le_bytes 1 MOD_RESTUNE)" "reads buf 1 (le_bytes 1 REQ_PROP_GET)"
    by (simp_all add: concat_prop_chunks reads_append)
  have "find_property name pr = Some v \<Longrightarrow> v \<noteq> []" for v using find_property_nonempty[OF assms(3)] by blast
  then show ?thesis
    using deref_le_bytes[OF _ r(1)] deref_le_bytes[OF _ r(2)] submitPropGetRequest_image[OF assms]
    by (auto simp: forwardMessage_def no_answer_def split: option.splits)
qed

lemma strncpy_takes:
  assumes "takeWhile (\<lambda>c. c \<noteq> 0) src = w" "n \<le> length w \<or> length w < length src" "n \<le> length out"
  shows "strncpy n out src = Some (take n w @ replicate (n - length w) 0 @ drop n out)"
  using assms by (auto simp: strncpy_def Let_def min_def)

lemma cstring_chars: "0 \<notin> set w \<Longrightarrow> takeWhile (\<lambda>c. c \<noteq> 0) (w @ 0 # x) = (w :: bytes)"
  by (subst takeWhile_append2) auto

lemma strncpy_cstring:
  "0 \<notin> set w \<Longrightarrow> n \<le> length out \<Longrightarrow>
     strncpy n out (w @ [0]) = Some (take n w @ replicate (n - length w) 0 @ drop n out)"
  by (rule strncpy_takes) (simp_all add: cstring_chars)

lemma strncpy_received:
  assumes "0 \<notin> set w" "n \<le> length out"
  shows "strncpy n out (take (Suc n) w @ replicate (Suc n - length w) 0) =
    Some (take n w @ replicate (n - length w) 0 @ drop n out)"
proof (cases "length w \<le> n")
  case True
  then have "take (Suc n) w @ replicate (Suc n - length w) 0 = w @ 0 # replicate (n - length w) 0"
    by (simp add: Suc_diff_le)
  then show ?thesis using assms cstring_chars[OF assms(1)] by (auto intro: strncpy_takes)
next
  case False
  moreover have "takeWhile (\<lambda>c. c \<noteq> 0) (take (Suc n) w) = take (Suc n) w"
    using assms(1) by (auto simp: takeWhile_eq_all_conv dest: in_set_takeD)
  ultimately show ?thesis using assms(2) strncpy_takes[of "take (Suc n) w" "take (Suc n) w" n out] by simp
qed

lemma is_na_received:
  assumes "0 \<notin> set w" "w \<noteq> []"
  shows "is_na (take (Suc (Suc n)) w @ replicate (Suc (Suc n) - length w) 0) = Some (take 2 w = na_reply)"
proof -
  obtain a ws where w: "w = a # ws" using assms(2) by (cases w) auto
  show ?thesis by (cases ws) (auto simp: w is_na_def na_reply_def)
qed

definition received_value :: "bytes \<Rightarrow> bytes option \<Rightarrow> bytes" where
  "received_value d found = (case found of None \<Rightarrow> d | Some v \<Rightarrow> if take 2 v = na_reply then d else v)"

lemma getProp_answer:
  assumes e: "foldM append_val (prop_chunks bufferSize name) (setBuf zero_buf batch) = Some e" "isBufSane e"
    and nt: "sendMsgHelper nt" "reply nt = Some (case found of None \<Rightarrow> na_reply | Some v \<Rightarrow> v)"
    and found: "\<forall>v. found = Some v \<longrightarrow> v \<noteq> [] \<and> 0 \<notin> set v" and d: "0 \<notin> set d"
    and size: "2 \<le> unat bufferSize" "unat bufferSize \<le> length out + 1"
  shows "getProp nt batch (Some name) (Some out) bufferSize (Some d) =
    Some (0, mBuffer e, Some (take (unat bufferSize - 1) (received_value d found) @
      replicate (unat bufferSize - 1 - length (received_value d found)) 0 @ drop (unat bufferSize - 1) out))"
proof -
  have "unat bufferSize = Suc (Suc (unat bufferSize - 2))" using size(1) by simp
  then obtain n where n: "unat bufferSize = Suc (Suc n)" by blast
  have nz: "bufferSize \<noteq> 0" using n by auto
  define w where "w = (case found of None \<Rightarrow> na_reply | Some v \<Rightarrow> v)"
  have w: "0 \<notin> set w" "w \<noteq> []" using found by (auto simp: w_def na_reply_def split: option.splits)
  have len: "Suc n \<le> length out" using size n by simp
  let ?r = "take (Suc (Suc n)) w @ replicate (Suc (Suc n) - length w) 0"
  have "take_answer w out (unat bufferSize) (Some d) =
      Some (take (Suc n) (received_value d found) @
        replicate (Suc n - length (received_value d found)) 0 @ drop (Suc n) out)"
  proof (cases "take 2 w = na_reply")
    case True
    then have "received_value d found = d" by (auto simp: received_value_def w_def split: option.splits)
    with True strncpy_cstring[OF d len] is_na_received[OF w, of n] show ?thesis
      by (simp add: take_answer_def n)
  next
    case False
    then have "received_value d found = w"
      by (auto simp: received_value_def w_def na_reply_def split: option.splits)
    with False strncpy_received[OF w(1) len] is_na_received[OF w, of n] show ?thesis
      by (simp add: take_answer_def n)
  qed
  then show ?thesis using e nt nz n by (simp add: getProp_def w_def[symmetric])
qed

lemma property_query_lemma:
  assumes "props_inv pr" "0 \<notin> set name" "length name < 569" "\<forall>v. find_property name pr = Some v \<longrightarrow> 0 \<notin> set v"
    "0 \<notin> set d" "2 \<le> unat bufferSize" "unat bufferSize \<le> length out + 1"
  shows "\<exists>msg answer. (\<forall>pool gen. forwardMessage pool pr gen msg = Some (answer, gen)) \<and> fw_task answer = None \<and>
    (\<forall>nt. sendMsgHelper nt \<and> reply nt = fw_reply answer \<longrightarrow>
       getProp nt batch (Some name) (Some out) bufferSize (Some d) = Some (0, Some msg, Some (
         let v = received_value d (find_property name pr); n = unat bufferSize - 1
         in take n v @ replicate (n - length v) 0 @ drop n out)))"
proof -
  have "isBufSane (setBuf zero_buf batch)" by (simp add: isBufSane_def setBuf_def REQ_BUFFER_SIZE_def)
  moreover have "int (length ([] :: bytes)) + int (length (concat (prop_chunks bufferSize name))) < REQ_BUFFER_SIZE"
    using assms(3) by (simp add: concat_prop_chunks REQ_BUFFER_SIZE_def)
  ultimately obtain e where e: "foldM append_val (prop_chunks bufferSize name) (setBuf zero_buf batch) = Some e"
    "encoded e (concat (prop_chunks bufferSize name))" "isBufSane e"
    using append_vals_fit[OF encoded_start] by fastforce
  from e(2) obtain msg where msg: "mBuffer e = Some msg" "reads msg 0 (concat (prop_chunks bufferSize name))"
    by (auto simp: encoded_def)
  have f: "\<forall>v. find_property name pr = Some v \<longrightarrow> v \<noteq> [] \<and> 0 \<notin> set v"
    using assms(4) find_property_nonempty[OF assms(1)] by blast
  show ?thesis
    using forward_query[OF msg(2) assms(2,1)] getProp_answer[OF e(1,3) _ _ f assms(5-7)] msg(1)
    by (intro exI[of _ msg] exI) (fastforce simp: Let_def)
qed

end
