(* ===== verification/ResourcePaths.thy ===== *)
theory ResourcePaths
  imports ResourceRegistry Files
begin

text \<open>
  The two operations of \<^verbatim>\<open>ResourceRegistry.cpp\<close> that touch the file system:
  \<^verbatim>\<open>setPath\<close>, which resolves a wildcard directory, and
  \<^verbatim>\<open>restoreResourcesToDefaultValues\<close>. What is proved: the directory chosen is the first
  that fits, and restoring writes back every stored default in whatever order the store is iterated.
\<close>

section \<open>Wildcard paths\<close>

text \<open>What stands behind the star: up to the first slash the suffix of the directory, then the rest.\<close>

definition key_match :: "string \<Rightarrow> string" where
  "key_match t = takeWhile (\<lambda>ch. ch \<noteq> CHR ''/'') t"

definition rem_path :: "string \<Rightarrow> string" where
  "rem_path t = drop 1 (dropWhile (\<lambda>ch. ch \<noteq> CHR ''/'') t)"

definition ends_with :: "string \<Rightarrow> string \<Rightarrow> bool" where
  "ends_with keyMatch dirName \<longleftrightarrow>
     length keyMatch \<le> length dirName \<and> drop (length dirName - length keyMatch) dirName = keyMatch"

definition candidate_path :: "string \<Rightarrow> string \<Rightarrow> string \<Rightarrow> string" where
  "candidate_path base remFilePath dirName =
     (if last base = CHR ''/'' then base else base @ ''/'') @ dirName @ ''/'' @ remFilePath"

definition dir_fits :: "world \<Rightarrow> string \<Rightarrow> string \<Rightarrow> string \<times> bool \<Rightarrow> bool" where
  "dir_fits w base pat e \<longleftrightarrow>
     fst e \<noteq> ''.'' \<and> fst e \<noteq> ''..'' \<and> snd e \<and> ends_with (key_match pat) (fst e) \<and>
     (CHR ''%'' \<in> set pat \<or> fileExists w (candidate_path base (rem_path pat) (fst e)))"

text \<open>The path, with the directory in place of the star when one fits. \<^verbatim>\<open>opendir\<close> of an empty name fails.\<close>

definition resolve_path :: "world \<Rightarrow> string \<Rightarrow> string" where
  "resolve_path w path =
     (case tokens CHR ''*'' path of
        base # pat # _ \<Rightarrow>
          (case (if base = [] then None else entries w base) of None \<Rightarrow> path
           | Some es \<Rightarrow> (case find (dir_fits w base pat) es of
               None \<Rightarrow> path | Some e \<Rightarrow> candidate_path base (rem_path pat) (fst e)))
      | _ \<Rightarrow> path)"

definition setPath :: "world \<Rightarrow> string \<Rightarrow> config_builder \<Rightarrow> ErrCode \<times> config_builder" where
  "setPath w path = on_config (\<lambda>c. (RC_SUCCESS, c\<lparr>mResourcePath := resolve_path w path\<rparr>))"

lemma key_match_split: "CHR ''/'' \<in> set t \<Longrightarrow> t = key_match t @ CHR ''/'' # rem_path t"
  unfolding key_match_def rem_path_def
  by (induction t) auto

lemma ends_with_append: "ends_with k d \<longleftrightarrow> (\<exists>p. d = p @ k)"
  unfolding ends_with_def by (metis append_take_drop_id append_eq_conv_conj diff_add_inverse2 le_add2 length_append)

text \<open>A path without a star is taken as it is; else the first fitting directory of the listing decides.\<close>

lemma tokens_single:
  assumes "d \<notin> set s" "s \<noteq> []"
  shows "tokens d s = [s]"
proof -
  have whole: "takeWhile (\<lambda>c. c \<noteq> d) s = s" "dropWhile (\<lambda>c. c \<noteq> d) s = []"
    using assms(1) by (auto simp: takeWhile_eq_all_conv dropWhile_eq_Nil_conv)
  have "tokens d s = s # tokens d []" using tokens.simps[of d s] assms(2) unfolding whole by simp
  then show ?thesis by (simp add: tokens.simps)
qed

lemma resolve_plain: "CHR ''*'' \<notin> set path \<Longrightarrow> resolve_path w path = path"
  by (cases "path = []") (simp_all add: resolve_path_def tokens_single tokens.simps[of _ "[]"])

section \<open>Restoring defaults\<close>

text \<open>\<open>order\<close>: the pairs of the store in the order the unordered map iterates them.\<close>

definition restoreResourcesToDefaultValues :: "(string \<times> string) list \<Rightarrow> world \<Rightarrow> world" where
  "restoreResourcesToDefaultValues order w = fold (\<lambda>(filePath, value). writeToFile filePath value) order w"

definition store_order :: "resource_registry \<Rightarrow> (string \<times> string) list \<Rightarrow> bool" where
  "store_order rr order \<longleftrightarrow> distinct (map fst order) \<and> map_of order = mDefaultValueStore rr"

lemma opens_write [simp]: "opens (writeToFile p v w) = opens w"
  by (simp add: writeToFile_def)

lemma contents_write:
  "contents (writeToFile p v w) q = (if q = p \<and> p \<noteq> [] \<and> opens w p then Some v else contents w q)"
  by (simp add: writeToFile_def)

lemma restore_contents:
  assumes "distinct (map fst order)"
  shows "contents (restoreResourcesToDefaultValues order w) p =
    (case map_of order p of Some v \<Rightarrow> if p \<noteq> [] \<and> opens w p then Some v else contents w p | None \<Rightarrow> contents w p)"
  using assms unfolding restoreResourcesToDefaultValues_def
proof (induction order arbitrary: w)
  case (Cons e order)
  obtain q v where e: "e = (q, v)" by (cases e)
  then have "map_of order q = None" using Cons.prems by (auto simp: map_of_eq_None_iff)
  with Cons e show ?case by (auto simp: contents_write split: option.splits)
qed simp

lemma defaults_stored:
  "mDefaultValueStore (fetchAndStoreDefaults env c rr) p =
     (if p \<in> set (default_paths env c) then Some (read_file env p) else mDefaultValueStore rr p)"
proof -
  have "mDefaultValueStore (fold (\<lambda>filePath. addDefaultValue filePath (read_file env filePath)) ps rr) p =
      (if p \<in> set ps then Some (read_file env p) else mDefaultValueStore rr p)" for ps
    by (induction ps arbitrary: rr) (auto simp: addDefaultValue_def)
  then show ?thesis by (simp add: fetchAndStoreDefaults_def)
qed

lemma stored_with_resource:
  assumes "registerResource env (Some c) rr = Some rr'" "mResourceResType c \<noteq> 0" "p \<in> set (default_paths env c)"
  shows "mDefaultValueStore rr' p = Some (read_file env p)"
proof -
  have "default_paths env (setLifeCycleCallbacks c) = default_paths env c"
    by (cases "mApplyType c") (simp_all add: default_paths_def setLifeCycleCallbacks_def)
  with assms show ?thesis
    by (auto simp: registerResource_def isResourceConfigMalformed_def Let_def defaults_stored split: if_splits)
qed

lemma kept_with_resource:
  assumes "registerResource env (Some c) rr = Some rr'" "p \<notin> set (default_paths env c)"
  shows "mDefaultValueStore rr' p = mDefaultValueStore rr p"
proof -
  have "default_paths env (setLifeCycleCallbacks c) = default_paths env c"
    by (cases "mApplyType c") (simp_all add: default_paths_def setLifeCycleCallbacks_def)
  with assms show ?thesis
    by (auto simp: registerResource_def Let_def defaults_stored split: if_splits)
qed

text \<open>After any list of registrations the store holds the files of the well-formed ones.\<close>

lemma registerResource_void: "mResourceResType c = 0 \<Longrightarrow> registerResource env (Some c) rr = Some rr"
  by (simp add: registerResource_def isResourceConfigMalformed_def)

lemma stored_defaults:
  assumes "foldM (\<lambda>c. registerResource env (Some c)) cs rr = Some rr'"
  shows "mDefaultValueStore rr' p =
    (if \<exists>c\<in>set cs. mResourceResType c \<noteq> 0 \<and> p \<in> set (default_paths env c) then Some (read_file env p)
     else mDefaultValueStore rr p)"
  using assms
proof (induction cs arbitrary: rr)
  case (Cons c cs)
  from Cons.prems obtain rr1 where r: "registerResource env (Some c) rr = Some rr1"
    "foldM (\<lambda>c. registerResource env (Some c)) cs rr1 = Some rr'" by (auto split: option.splits)
  have "mDefaultValueStore rr1 p =
      (if mResourceResType c \<noteq> 0 \<and> p \<in> set (default_paths env c) then Some (read_file env p) else mDefaultValueStore rr p)"
    using r(1) stored_with_resource[OF r(1)] kept_with_resource[OF r(1)] registerResource_void[of c env rr] by auto
  with Cons.IH[OF r(2)] show ?case by auto
qed simp

text \<open>Lookups of defaults in between leave an empty entry for every path that has none.\<close>

definition looked_up :: "string list \<Rightarrow> resource_registry \<Rightarrow> resource_registry" where
  "looked_up qs rr = fold (\<lambda>q rr. snd (getDefaultValue q rr)) qs rr"

lemma looked_up_store:
  "mDefaultValueStore (looked_up qs rr) p =
     (case mDefaultValueStore rr p of Some v \<Rightarrow> Some v | None \<Rightarrow> if p \<in> set qs then Some [] else None)"
  unfolding looked_up_def
  by (induction qs arbitrary: rr) (auto simp: getDefaultValue_def split: option.splits)

definition first_line :: "string option \<Rightarrow> string" where
  "first_line content = (case content of None \<Rightarrow> [] | Some c \<Rightarrow> takeWhile (\<lambda>x. x \<noteq> newline) c)"

lemma read_file_first_line: "p \<noteq> [] \<Longrightarrow> read_file env p = first_line (contents (env_world env) p)"
  by (simp add: read_file_def readFromFile_def first_line_def)

lemma restored_after:
  assumes "foldM (\<lambda>c. registerResource env (Some c)) cs ResourceRegistry_init = Some rr" "store_order (looked_up qs rr) order"
  shows "contents (restoreResourcesToDefaultValues order w) p =
    (if p = [] \<or> \<not> opens w p then contents w p
     else if \<exists>c\<in>set cs. mResourceResType c \<noteq> 0 \<and> p \<in> set (default_paths env c)
     then Some (first_line (contents (env_world env) p))
     else if p \<in> set qs then Some [] else contents w p)"
proof -
  have "mDefaultValueStore rr p = (if \<exists>c\<in>set cs. mResourceResType c \<noteq> 0 \<and> p \<in> set (default_paths env c)
      then Some (read_file env p) else None)"
    using stored_defaults[OF assms(1), of p] by (simp add: ResourceRegistry_init_def)
  with assms(2) restore_contents[of order w p] looked_up_store[of qs rr p] read_file_first_line[of p env]
  show ?thesis by (auto simp: store_order_def)
qed

end
