(* ===== verification/RestuneParser.thy ===== *)
theory RestuneParser
  imports Target Properties ExtFeatures ResourcePaths
begin

text \<open>
  \<^verbatim>\<open>resource-tuner/init/RestuneParser.cpp\<close>: the seven loops that read a YAML file event by
  event and drive the builders and registries. The events are what
  \<^verbatim>\<open>yaml_parser_parse\<close> of libyaml returns, one after the other; when they run out it
  reports an error. The locals of a function are a record, with what all of them have in
  \<open>key_state\<close>; the stack of keys is a list with the top first. An event either goes on with new
  locals, returns a code or leaves by an exception; a null pointer, an empty stack or an index out of
  range is \<^const>\<open>None\<close>. \<open>al\<close> numbers the answers of \<^verbatim>\<open>new\<close> while one event is handled.
\<close>

section \<open>Events and the loop\<close>

datatype yaml_event =
  StreamEnd | MappingStart | MappingEnd | SequenceStart | SequenceEnd | Scalar "string option" | OtherEvent

datatype 'l next_step = Go 'l | Return ErrCode | Throw exn

record config_state =
  cs_registry :: resource_registry
  cs_props :: properties_registry
  cs_target :: target
  cs_world :: world
  cs_signals :: signal_registry
  cs_features :: ext_features
  cs_apps :: app_configs

record parse_env =
  pe_fopen :: "string \<Rightarrow> bool"
  pe_parser_init :: "string \<Rightarrow> bool"
  pe_events :: "string \<Rightarrow> yaml_event list"
  pe_alloc :: "nat \<Rightarrow> nat \<Rightarrow> bool"
  pe_targetName :: string
  pe_path_of_int :: "string \<Rightarrow> int \<Rightarrow> string"
  pe_path_of_name :: "string \<Rightarrow> string \<Rightarrow> string"
  pe_baseCGroupPath :: string
  pe_journald_urm_conf :: string
  pe_configOptions :: "(string \<times> string) list"

text \<open>\<open>result\<close> is the value of \<^verbatim>\<open>rc\<close> when the loop ends; \<open>i\<close> numbers the events.\<close>

fun drive ::
    "((nat \<Rightarrow> bool) \<Rightarrow> yaml_event \<Rightarrow> 'l \<Rightarrow> config_state \<Rightarrow> ('l next_step \<times> config_state) option) \<Rightarrow> ('l \<Rightarrow> ErrCode) \<Rightarrow>
       (nat \<Rightarrow> nat \<Rightarrow> bool) \<Rightarrow> nat \<Rightarrow> yaml_event list \<Rightarrow> 'l \<Rightarrow> config_state \<Rightarrow> (ErrCode \<times> config_state) outcome" where
  "drive step result al i [] l s = Some (Inr (RC_YAML_PARSING_ERROR, s))"
| "drive step result al i (e # es) l s =
     (if e = StreamEnd then Some (Inr (result l, s))
      else (case step (al i) e l s of None \<Rightarrow> None
        | Some (Go l', s') \<Rightarrow> drive step result al (Suc i) es l' s'
        | Some (Return rc, s') \<Rightarrow> Some (Inr (rc, s'))
        | Some (Throw x, s') \<Rightarrow> Some (Inl x)))"

definition SETUP_LIBYAML_PARSING :: "parse_env \<Rightarrow> string \<Rightarrow> ErrCode + yaml_event list" where
  "SETUP_LIBYAML_PARSING pe filePath =
     (if \<not> pe_fopen pe filePath then Inl RC_FILE_NOT_FOUND
      else if \<not> pe_parser_init pe filePath then Inl RC_YAML_PARSING_ERROR
      else Inr (pe_events pe filePath))"

definition parse_file ::
    "parse_env \<Rightarrow> ((nat \<Rightarrow> bool) \<Rightarrow> yaml_event \<Rightarrow> 'l \<Rightarrow> config_state \<Rightarrow> ('l next_step \<times> config_state) option) \<Rightarrow>
       ('l \<Rightarrow> ErrCode) \<Rightarrow> 'l \<Rightarrow> string \<Rightarrow> config_state \<Rightarrow> (ErrCode \<times> config_state) outcome" where
  "parse_file pe step result l filePath s =
     (case SETUP_LIBYAML_PARSING pe filePath of Inl rc \<Rightarrow> Some (Inr (rc, s))
      | Inr events \<Rightarrow> drive step result (pe_alloc pe) 0 events l s)"

section \<open>Keys\<close>

definition yaml_keys :: "string list" where
  "yaml_keys =
     [''TargetConfig'', ''TargetName'', ''ClusterInfo'', ''LgcId'', ''PhyId'', ''ClusterSpread'', ''NumCores'',
      ''ResourceConfigs'', ''ResType'', ''ResID'', ''Name'', ''Path'', ''Supported'', ''HighThreshold'',
      ''LowThreshold'', ''Permissions'', ''Modes'', ''Policy'', ''Unit'', ''ApplyType'', ''TargetsEnabled'',
      ''TargetsDisabled'', ''InitConfigs'', ''CgroupsInfo'', ''Name'', ''ID'', ''Create'', ''IsThreaded'',
      ''ClusterMap'', ''Id'', ''Type'', ''MPAMgroupsInfo'', ''Name'', ''ID'', ''Priority'', ''CacheInfo'', ''Type'',
      ''NumCacheBlocks'', ''PriorityAware'', ''IRQConfigs'', ''AffineIRQToCluster'', ''AffineIRQ'', ''LogLevel'',
      ''SignalConfigs'', ''SigId'', ''Category'', ''SigType'', ''Name'', ''Enable'', ''Timeout'',
      ''TargetsEnabled'', ''Permissions'', ''TargetsDisabled'', ''Resources'', ''Derivatives'', ''ExtraAttrs'',
      ''ResCode'', ''ResInfo'', ''Values'', ''Fps'', ''Height'', ''Width'', ''MmSrc'', ''FeatureConfigs'', ''FeatId'',
      ''LibPath'', ''Name'', ''Description'', ''Signals'', ''PerAppConfigs'', ''App'', ''Threads'', ''Configurations'']"

definition isKey :: "string \<Rightarrow> bool" where
  "isKey keyName \<longleftrightarrow> keyName \<in> set yaml_keys"

definition isKeyTypeList :: "string \<Rightarrow> bool" where
  "isKeyTypeList keyName \<longleftrightarrow>
     keyName \<in> {''TargetName'', ''ClusterInfo'', ''ClusterSpread''} \<or>
     keyName \<in> {''ClusterMap'', ''CgroupsInfo'', ''MPAMgroupsInfo'', ''CacheInfo''} \<or>
     keyName \<in> {''IRQConfigs'', ''AffineIRQToCluster'', ''AffineIRQ''} \<or> keyName = ''LogLevel'' \<or>
     keyName \<in> {''Modes'', ''TargetsEnabled'', ''TargetsDisabled''} \<or>
     keyName \<in> {''TargetsEnabled'', ''TargetsDisabled'', ''Permissions'', ''Derivatives'', ''Resources'',
       ''ExtraAttrs'', ''Values''} \<or>
     keyName = ''Signals''"

record key_state =
  docMarker :: bool
  ks_value :: string
  ks_topKey :: string
  keyTracker :: "string list"

definition read_value :: "string option \<Rightarrow> ('a) key_state_scheme \<Rightarrow> ('a) key_state_scheme" where
  "read_value v l = (case v of None \<Rightarrow> l | Some s \<Rightarrow> l\<lparr>ks_value := s\<rparr>)"

definition push_key :: "('a) key_state_scheme \<Rightarrow> ('a) key_state_scheme" where
  "push_key l = l\<lparr>keyTracker := ks_value l # keyTracker l\<rparr>"

text \<open>A value takes its key from the stack; the key of a list stays for the next item.\<close>

definition take_key :: "('a) key_state_scheme \<Rightarrow> ('a) key_state_scheme option" where
  "take_key l =
     (case keyTracker l of [] \<Rightarrow> None
      | k # ks \<Rightarrow> Some (l\<lparr>ks_topKey := k, keyTracker := (if isKeyTypeList k then k # ks else ks)\<rparr>))"

text \<open>The macros \<^verbatim>\<open>ADD_TO_...\<close>: a setter that fails stops all later ones of the file.\<close>

definition add_to_builder ::
    "(string \<Rightarrow> 'b \<Rightarrow> ErrCode \<times> 'b) \<Rightarrow> string \<Rightarrow> ErrCode \<Rightarrow> 'b \<Rightarrow> ErrCode \<times> 'b" where
  "add_to_builder setter v rc b = (if RC_IS_OK rc then setter v b else (rc, b))"

section \<open>Resources\<close>

record resource_locals = key_state +
  rl_rc :: ErrCode
  parsingResource :: bool
  resourceConfigInfoBuilder :: "config_builder option"

definition resource_locals_init :: resource_locals where
  "resource_locals_init = \<lparr>docMarker = False, ks_value = [], ks_topKey = [], keyTracker = [], rl_rc = RC_SUCCESS,
     parsingResource = False, resourceConfigInfoBuilder = None\<rparr>"

definition resource_setter ::
    "parse_env \<Rightarrow> world \<Rightarrow> string \<Rightarrow> (string \<Rightarrow> config_builder \<Rightarrow> ErrCode \<times> config_builder) option" where
  "resource_setter pe w = map_of
     [(''ResType'', setResType), (''ResID'', setResID), (''Name'', ResourceRegistry.setName), (''Path'', setPath w),
      (''Supported'', setSupported), (''HighThreshold'', setHighThreshold), (''LowThreshold'', setLowThreshold),
      (''Permissions'', setPermissions), (''Policy'', setPolicy), (''Unit'', setTranslationUnit),
      (''ApplyType'', setApplyType), (''Modes'', setModes),
      (''TargetsEnabled'', ResourceRegistry.addTargetEnabled (pe_targetName pe)),
      (''TargetsDisabled'', ResourceRegistry.addTargetDisabled (pe_targetName pe))]"

text \<open>The surroundings of a registration are the target and the files as they are now.\<close>

definition registry_env_of :: "parse_env \<Rightarrow> config_state \<Rightarrow> string list \<Rightarrow> registry_env" where
  "registry_env_of pe s names =
     \<lparr>env_world = cs_world s, path_of_int = pe_path_of_int pe, path_of_name = pe_path_of_name pe,
      env_clusterIDs = getClusterIDs (cs_target s), env_cGroupNames = names,
      env_coreCount = nat (mTotalCoreCount (cs_target s))\<rparr>"

definition register_config :: "parse_env \<Rightarrow> ResConfInfo option \<Rightarrow> config_state \<Rightarrow> config_state option" where
  "register_config pe rConf s = do {
     names \<leftarrow> (if \<not> isResourceConfigMalformed rConf \<and> map_option mApplyType rConf = Some APPLY_CGROUP
               then getCGroupNames (cs_target s) else Some []);
     rr \<leftarrow> registerResource (registry_env_of pe s names) rConf (cs_registry s);
     Some (s\<lparr>cs_registry := rr\<rparr>) }"

definition resource_step ::
    "parse_env \<Rightarrow> (nat \<Rightarrow> bool) \<Rightarrow> yaml_event \<Rightarrow> resource_locals \<Rightarrow> config_state \<Rightarrow>
       (resource_locals next_step \<times> config_state) option" where
  "resource_step pe al event l s =
     (case event of
        MappingStart \<Rightarrow>
          if \<not> docMarker l then Some (Go (l\<lparr>docMarker := True\<rparr>), s)
          else if \<not> al 0 then Some (Return RC_YAML_PARSING_ERROR, s)
          else Some (Go (l\<lparr>resourceConfigInfoBuilder := Some (ResourceConfigInfoBuilder_init (al 1)),
                           parsingResource := True\<rparr>), s)
      | MappingEnd \<Rightarrow>
          if \<not> parsingResource l then Some (Go l, s)
          else (case resourceConfigInfoBuilder l of None \<Rightarrow> None
            | Some b \<Rightarrow> do {
                let b = (if RC_IS_NOTOK (rl_rc l) \<or> ResourceRegistry.mTargetRefCount b < 0
                         then snd (setResType ''0'' b) else b);
                s \<leftarrow> register_config pe (build b) s;
                Some (Go (l\<lparr>resourceConfigInfoBuilder := None, parsingResource := False\<rparr>), s) })
      | SequenceEnd \<Rightarrow>
          (case keyTracker l of [] \<Rightarrow> Some (Return RC_YAML_INVALID_SYNTAX, s)
           | _ # ks \<Rightarrow> Some (Go (l\<lparr>keyTracker := ks\<rparr>), s))
      | Scalar v \<Rightarrow>
          (let l = read_value v l
           in if isKey (ks_value l) then Some (Go (push_key l), s)
              else (case take_key l of None \<Rightarrow> Some (Return RC_YAML_INVALID_SYNTAX, s)
                | Some l \<Rightarrow>
                    Some (Go (case (resource_setter pe (cs_world s) (ks_topKey l), resourceConfigInfoBuilder l) of
                        (Some setter, Some b) \<Rightarrow>
                          (case add_to_builder setter (ks_value l) (rl_rc l) b of
                             (rc, b) \<Rightarrow> l\<lparr>rl_rc := rc, resourceConfigInfoBuilder := Some b\<rparr>)
                      | _ \<Rightarrow> l), s)))
      | _ \<Rightarrow> Some (Go l, s))"

definition parseResourceConfigYamlNode ::
    "parse_env \<Rightarrow> string \<Rightarrow> config_state \<Rightarrow> (ErrCode \<times> config_state) outcome" where
  "parseResourceConfigYamlNode pe = parse_file pe (resource_step pe) rl_rc resource_locals_init"

section \<open>Properties\<close>

record property_locals =
  pl_value :: string
  isPropName :: bool
  currentKey :: string
  currentValue :: string

definition property_locals_init :: property_locals where
  "property_locals_init = \<lparr>pl_value = [], isPropName = False, currentKey = [], currentValue = []\<rparr>"

definition bytes_of :: "string \<Rightarrow> bytes" where
  "bytes_of s = map of_char s"

definition property_step ::
    "(nat \<Rightarrow> bool) \<Rightarrow> yaml_event \<Rightarrow> property_locals \<Rightarrow> config_state \<Rightarrow> (property_locals next_step \<times> config_state) option" where
  "property_step al event l s =
     (case event of
        MappingEnd \<Rightarrow>
          Some (Go (l\<lparr>currentKey := [], currentValue := []\<rparr>),
            if length (currentKey l) > 0 \<and> length (currentValue l) > 0
            then s\<lparr>cs_props := snd (createProperty (bytes_of (currentKey l)) (bytes_of (currentValue l)) (cs_props s))\<rparr>
            else s)
      | Scalar v \<Rightarrow>
          (let l = (case v of None \<Rightarrow> l | Some str \<Rightarrow> l\<lparr>pl_value := str\<rparr>)
           in Some (Go (if pl_value l = ''PropertyConfigs'' then l
                else if pl_value l = ''Name'' then l\<lparr>isPropName := True\<rparr>
                else if pl_value l = ''Value'' then l\<lparr>isPropName := False\<rparr>
                else if isPropName l then l\<lparr>currentKey := pl_value l\<rparr>
                else l\<lparr>currentValue := pl_value l\<rparr>), s))
      | _ \<Rightarrow> Some (Go l, s))"

definition parsePropertiesConfigYamlNode ::
    "parse_env \<Rightarrow> string \<Rightarrow> config_state \<Rightarrow> (ErrCode \<times> config_state) outcome" where
  "parsePropertiesConfigYamlNode pe = parse_file pe property_step (\<lambda>_. RC_SUCCESS) property_locals_init"

section \<open>The target\<close>

record target_locals = key_state +
  parsingItem :: bool
  isConfigForCurrentTarget :: bool
  deviceParsingDone :: bool
  lgcClusterID :: string
  phyClusterID :: string
  numCoresString :: string

definition target_locals_init :: target_locals where
  "target_locals_init = \<lparr>docMarker = False, ks_value = [], ks_topKey = [], keyTracker = [], parsingItem = False,
     isConfigForCurrentTarget = False, deviceParsingDone = False, lgcClusterID = [], phyClusterID = [],
     numCoresString = []\<rparr>"

definition target_item_end :: "target_locals \<Rightarrow> config_state \<Rightarrow> (target_locals next_step \<times> config_state) option" where
  "target_item_end l s =
     (case keyTracker l of [] \<Rightarrow> Some (Go l, s)
      | k # _ \<Rightarrow>
         (if \<not> parsingItem l then Some (Go l, s)
          else (let l = l\<lparr>parsingItem := False, ks_topKey := k\<rparr>
                in if \<not> isConfigForCurrentTarget l then Some (Go l, s)
                   else if k = ''ClusterInfo'' then
                     Some (Go (l\<lparr>lgcClusterID := [], phyClusterID := []\<rparr>),
                       s\<lparr>cs_target := addClusterMapping (lgcClusterID l) (phyClusterID l) (cs_target s)\<rparr>)
                   else do {
                     T \<leftarrow> addClusterSpreadInfo (phyClusterID l) (numCoresString l) (cs_target s);
                     Some (Go (l\<lparr>phyClusterID := [], numCoresString := []\<rparr>), s\<lparr>cs_target := T\<rparr>) })))"

definition target_value :: "parse_env \<Rightarrow> target_locals \<Rightarrow> target_locals" where
  "target_value pe l =
     (if ks_topKey l = ''TargetName'' then
        (if (ks_value l = ''*'' \<or> ks_value l = pe_targetName pe) \<and> \<not> deviceParsingDone l
         then l\<lparr>isConfigForCurrentTarget := True, deviceParsingDone := True\<rparr> else l)
      else if ks_topKey l = ''LgcId'' then l\<lparr>lgcClusterID := ks_value l\<rparr>
      else if ks_topKey l = ''PhyId'' then l\<lparr>phyClusterID := ks_value l\<rparr>
      else if ks_topKey l = ''NumCores'' then l\<lparr>numCoresString := ks_value l\<rparr>
      else l)"

definition target_step ::
    "parse_env \<Rightarrow> (nat \<Rightarrow> bool) \<Rightarrow> yaml_event \<Rightarrow> target_locals \<Rightarrow> config_state \<Rightarrow>
       (target_locals next_step \<times> config_state) option" where
  "target_step pe al event l s =
     (case event of
        SequenceEnd \<Rightarrow>
          (case keyTracker l of [] \<Rightarrow> Some (Return RC_YAML_INVALID_SYNTAX, s)
           | _ # ks \<Rightarrow> Some (Go (l\<lparr>keyTracker := ks\<rparr>), s))
      | MappingStart \<Rightarrow>
          Some (Go (if \<not> docMarker l then l\<lparr>docMarker := True\<rparr> else l\<lparr>parsingItem := True\<rparr>), s)
      | MappingEnd \<Rightarrow> target_item_end l s
      | Scalar v \<Rightarrow>
          (let l = read_value v l
           in if isKey (ks_value l)
              then Some (Go (push_key (if ks_value l = ''TargetName'' then l\<lparr>isConfigForCurrentTarget := False\<rparr> else l)), s)
              else (case take_key l of None \<Rightarrow> Some (Return RC_YAML_INVALID_SYNTAX, s)
                | Some l \<Rightarrow> Some (Go (target_value pe l), s)))
      | _ \<Rightarrow> Some (Go l, s))"

definition parseTargetConfigYamlNode ::
    "parse_env \<Rightarrow> string \<Rightarrow> config_state \<Rightarrow> (ErrCode \<times> config_state) outcome" where
  "parseTargetConfigYamlNode pe = parse_file pe (target_step pe) (\<lambda>_. RC_SUCCESS) target_locals_init"

section \<open>Cgroups, caches, interrupts and logging\<close>

text \<open>A builder is an object that may hold a null pointer.\<close>

record init_locals = key_state +
  il_rc :: ErrCode
  inAffineClusterList :: bool
  inAffineOneList :: bool
  inLoggingConfList :: bool
  il_items :: "string list"
  cGroupConfigBuilder :: "CGroupConfigInfo option option"
  mpamGroupConfigBuilder :: "MpamGroupConfigInfo option option"
  cacheInfoBuilder :: "CacheInfo option option"

definition init_locals_init :: init_locals where
  "init_locals_init = \<lparr>docMarker = False, ks_value = [], ks_topKey = [], keyTracker = [], il_rc = RC_SUCCESS,
     inAffineClusterList = False, inAffineOneList = False, inLoggingConfList = False, il_items = [],
     cGroupConfigBuilder = None, mpamGroupConfigBuilder = None, cacheInfoBuilder = None\<rparr>"

definition cgroup_setter :: "string \<Rightarrow> (string \<Rightarrow> CGroupConfigInfo option \<Rightarrow> ErrCode \<times> CGroupConfigInfo option) option" where
  "cgroup_setter = map_of
     [(''Name'', setCGroupName), (''ID'', setCGroupID), (''Create'', setCreationNeeded), (''IsThreaded'', setThreaded)]"

definition mpam_setter ::
    "string \<Rightarrow> (string \<Rightarrow> MpamGroupConfigInfo option \<Rightarrow> ErrCode \<times> MpamGroupConfigInfo option) option" where
  "mpam_setter = map_of [(''Name'', setMpamName), (''ID'', setLgcID), (''Priority'', setMpamPriority)]"

definition cache_setter :: "string \<Rightarrow> (string \<Rightarrow> CacheInfo option \<Rightarrow> ErrCode \<times> CacheInfo option) option" where
  "cache_setter = map_of
     [(''Type'', setCacheType), (''NumCacheBlocks'', setNumBlocks), (''PriorityAware'', setPriorityAware)]"

definition init_sequence_start :: "init_locals \<Rightarrow> init_locals next_step" where
  "init_sequence_start l =
     (case keyTracker l of [] \<Rightarrow> Return RC_YAML_INVALID_SYNTAX
      | k # _ \<Rightarrow> let l = l\<lparr>ks_topKey := k\<rparr> in
          Go (if k = ''AffineIRQToCluster'' then l\<lparr>inAffineClusterList := True\<rparr>
              else if k = ''AffineIRQ'' then l\<lparr>inAffineOneList := True\<rparr>
              else if k = ''LogLevel'' then l\<lparr>inLoggingConfList := True\<rparr> else l))"

text \<open>The end of a list of interrupts or of the log level: what it says takes effect at once.\<close>

definition init_affine ::
    "bool \<Rightarrow> init_locals \<Rightarrow> config_state \<Rightarrow> (init_locals next_step \<times> config_state) option" where
  "init_affine toClusters l s =
     (if RC_IS_NOTOK (il_rc l) then Some (Go l, s)
      else (case addIrqAffine (il_items l) toClusters (cs_target s) (cs_world s) of
          None \<Rightarrow> None
        | Some (Inl e) \<Rightarrow> Some (Throw e, s)
        | Some (Inr (rc, T, w)) \<Rightarrow>
            (let s = s\<lparr>cs_target := T, cs_world := w\<rparr>
             in if RC_IS_NOTOK rc then Some (Return RC_YAML_INVALID_SYNTAX, s) else Some (Go (l\<lparr>il_rc := rc\<rparr>), s))))"

definition init_logging :: "parse_env \<Rightarrow> init_locals \<Rightarrow> config_state \<Rightarrow> (init_locals next_step \<times> config_state) option" where
  "init_logging pe l s =
     (if RC_IS_NOTOK (il_rc l) then Some (Go l, s)
      else (case addLogLimit (pe_configOptions pe) (pe_journald_urm_conf pe) (il_items l) (cs_world s) of
          (rc, w) \<Rightarrow>
            (let s = s\<lparr>cs_world := w\<rparr>
             in if RC_IS_NOTOK rc then Some (Return RC_YAML_INVALID_SYNTAX, s) else Some (Go (l\<lparr>il_rc := rc\<rparr>), s))))"

definition init_sequence_end ::
    "parse_env \<Rightarrow> init_locals \<Rightarrow> config_state \<Rightarrow> (init_locals next_step \<times> config_state) option" where
  "init_sequence_end pe l s =
     (case keyTracker l of [] \<Rightarrow> Some (Return RC_YAML_INVALID_SYNTAX, s)
      | _ # ks \<Rightarrow>
         (let popped = (\<lambda>f r. map_option (\<lambda>(n, s). (case n of Go l \<Rightarrow> Go (f (l\<lparr>keyTracker := ks\<rparr>))
                | Return rc \<Rightarrow> Return rc | Throw e \<Rightarrow> Throw e, s)) r)
          in if inAffineClusterList l then
               popped (\<lambda>l. l\<lparr>il_items := [], inAffineClusterList := False\<rparr>) (init_affine True l s)
             else if inAffineOneList l then
               popped (\<lambda>l. l\<lparr>il_items := [], inAffineOneList := False\<rparr>) (init_affine False l s)
             else if inLoggingConfList l then
               popped (\<lambda>l. l\<lparr>inLoggingConfList := False\<rparr>) (init_logging pe l s)
             else Some (Go (l\<lparr>keyTracker := ks\<rparr>), s)))"

definition init_mapping_start :: "(nat \<Rightarrow> bool) \<Rightarrow> init_locals \<Rightarrow> init_locals next_step" where
  "init_mapping_start al l =
     (if \<not> docMarker l then Go (l\<lparr>docMarker := True\<rparr>)
      else (case keyTracker l of [] \<Rightarrow> Return RC_YAML_INVALID_SYNTAX
        | k # _ \<Rightarrow>
           (let l = l\<lparr>ks_topKey := k\<rparr>
            in if k \<notin> {''CgroupsInfo'', ''MPAMgroupsInfo'', ''CacheInfo''} then Go l
               else if \<not> al 0 then Return RC_MEMORY_ALLOCATION_FAILURE
               else Go (if k = ''CgroupsInfo'' then l\<lparr>cGroupConfigBuilder := Some (CGroupConfigInfoBuilder (al 1))\<rparr>
                        else if k = ''MPAMgroupsInfo''
                        then l\<lparr>mpamGroupConfigBuilder := Some (MpamGroupConfigInfoBuilder (al 1))\<rparr>
                        else l\<lparr>cacheInfoBuilder := Some (CacheInfoBuilder (al 1))\<rparr>))))"

definition init_mapping_end ::
    "parse_env \<Rightarrow> init_locals \<Rightarrow> config_state \<Rightarrow> (init_locals next_step \<times> config_state) option" where
  "init_mapping_end pe l s =
     (case keyTracker l of [] \<Rightarrow> Some (Go l, s)
      | k # _ \<Rightarrow>
         (let l = l\<lparr>ks_topKey := k\<rparr>; bad = RC_IS_NOTOK (il_rc l)
          in if k = ''CgroupsInfo'' then
               (case cGroupConfigBuilder l of None \<Rightarrow> None
                | Some b \<Rightarrow>
                    (let (T, w) = addCGroupMapping (pe_baseCGroupPath pe) (if bad then snd (setCGroupID ''-1'' b) else b)
                          (cs_target s, cs_world s)
                     in Some (Go (l\<lparr>cGroupConfigBuilder := None\<rparr>), s\<lparr>cs_target := T, cs_world := w\<rparr>)))
             else if k = ''MPAMgroupsInfo'' then
               (case mpamGroupConfigBuilder l of None \<Rightarrow> None
                | Some b \<Rightarrow>
                    Some (Go (l\<lparr>mpamGroupConfigBuilder := None\<rparr>),
                      s\<lparr>cs_target := addMpamGroupMapping (if bad then snd (setLgcID ''-1'' b) else b) (cs_target s)\<rparr>))
             else if k = ''CacheInfo'' then
               (case cacheInfoBuilder l of None \<Rightarrow> None
                | Some b \<Rightarrow>
                    Some (Go (l\<lparr>cacheInfoBuilder := None\<rparr>),
                      s\<lparr>cs_target := addCacheInfoMapping
                         (if bad then snd (setNumBlocks ''-1'' (snd (setCacheType '''' b))) else b) (cs_target s)\<rparr>))
             else Some (Go l, s)))"

text \<open>The first builder that is there and has a setter for the key takes the value.\<close>

definition init_value :: "init_locals \<Rightarrow> init_locals" where
  "init_value l =
     (case (cgroup_setter (ks_topKey l), cGroupConfigBuilder l) of
        (Some setter, Some b) \<Rightarrow> (case add_to_builder setter (ks_value l) (il_rc l) b of
          (rc, b) \<Rightarrow> l\<lparr>il_rc := rc, cGroupConfigBuilder := Some b\<rparr>)
      | _ \<Rightarrow>
     (case (mpam_setter (ks_topKey l), mpamGroupConfigBuilder l) of
        (Some setter, Some b) \<Rightarrow> (case add_to_builder setter (ks_value l) (il_rc l) b of
          (rc, b) \<Rightarrow> l\<lparr>il_rc := rc, mpamGroupConfigBuilder := Some b\<rparr>)
      | _ \<Rightarrow>
     (case (cache_setter (ks_topKey l), cacheInfoBuilder l) of
        (Some setter, Some b) \<Rightarrow> (case add_to_builder setter (ks_value l) (il_rc l) b of
          (rc, b) \<Rightarrow> l\<lparr>il_rc := rc, cacheInfoBuilder := Some b\<rparr>)
      | _ \<Rightarrow>
        if ks_topKey l \<in> {''AffineIRQToCluster'', ''AffineIRQ'', ''LogLevel''}
        then l\<lparr>il_items := il_items l @ [ks_value l]\<rparr> else l)))"

definition init_step ::
    "parse_env \<Rightarrow> (nat \<Rightarrow> bool) \<Rightarrow> yaml_event \<Rightarrow> init_locals \<Rightarrow> config_state \<Rightarrow>
       (init_locals next_step \<times> config_state) option" where
  "init_step pe al event l s =
     (case event of
        SequenceStart \<Rightarrow> Some (init_sequence_start l, s)
      | SequenceEnd \<Rightarrow> init_sequence_end pe l s
      | MappingStart \<Rightarrow> Some (init_mapping_start al l, s)
      | MappingEnd \<Rightarrow> init_mapping_end pe l s
      | Scalar v \<Rightarrow>
          (let l = read_value v l
           in if isKey (ks_value l) then Some (Go (push_key l), s)
              else (case take_key l of None \<Rightarrow> Some (Return RC_YAML_INVALID_SYNTAX, s)
                | Some l \<Rightarrow> Some (Go (init_value l), s)))
      | _ \<Rightarrow> Some (Go l, s))"

definition parseInitConfigYamlNode ::
    "parse_env \<Rightarrow> string \<Rightarrow> config_state \<Rightarrow> (ErrCode \<times> config_state) outcome" where
  "parseInitConfigYamlNode pe = parse_file pe (init_step pe) il_rc init_locals_init"


section \<open>Signals\<close>

text \<open>\<open>sl_resource\<close> is the builder of the resource that is being read.\<close>

record signal_locals = key_state +
  sl_rc :: ErrCode
  parsingSignal :: bool
  inResourcesMap :: bool
  parsingExtraAttr :: bool
  resValues :: "string list"
  signalInfoBuilder :: "signal_builder option"
  sl_resource :: "resource option option"

definition signal_locals_init :: signal_locals where
  "signal_locals_init = \<lparr>docMarker = False, ks_value = [], ks_topKey = [], keyTracker = [], sl_rc = RC_SUCCESS,
     parsingSignal = False, inResourcesMap = False, parsingExtraAttr = False, resValues = [],
     signalInfoBuilder = None, sl_resource = None\<rparr>"

definition signal_setter ::
    "parse_env \<Rightarrow> (nat \<Rightarrow> bool) \<Rightarrow> string \<Rightarrow> (string \<Rightarrow> signal_builder \<Rightarrow> ErrCode \<times> signal_builder) option" where
  "signal_setter pe al = map_of
     [(''TargetsEnabled'', Signals.addTargetEnabled (pe_targetName pe)),
      (''TargetsDisabled'', Signals.addTargetDisabled (pe_targetName pe)),
      (''Permissions'', addPermission (al 0)), (''Derivatives'', addDerivative (al 0)),
      (''SigId'', setSignalID), (''Category'', setSignalCategory), (''SigType'', setSignalType),
      (''Name'', Signals.setName), (''Timeout'', setTimeout), (''Enable'', setIsEnabled), (''Fps'', setFps),
      (''Height'', setHeight), (''Width'', setWidth), (''MmSrc'', setMmSrc)]"

definition signal_resource_setter :: "string \<Rightarrow> (string \<Rightarrow> resource option \<Rightarrow> ErrCode \<times> resource option) option" where
  "signal_resource_setter = map_of [(''ResCode'', rb_setResCode), (''ResInfo'', rb_setResInfo)]"

definition signal_mapping_start :: "(nat \<Rightarrow> bool) \<Rightarrow> signal_locals \<Rightarrow> signal_locals next_step" where
  "signal_mapping_start al l =
     (if \<not> docMarker l then Go (l\<lparr>docMarker := True\<rparr>)
      else (case keyTracker l of [] \<Rightarrow> Return RC_YAML_INVALID_SYNTAX
        | k # _ \<Rightarrow>
           (let l = l\<lparr>ks_topKey := k\<rparr>
            in if k = ''Resources'' then
                 (if \<not> al 0 then Return RC_YAML_PARSING_ERROR
                  else Go (l\<lparr>inResourcesMap := True, sl_resource := Some (ResourceBuilder_init (al 1))\<rparr>))
               else if k = ''ExtraAttrs'' then
                 Go (l\<lparr>parsingExtraAttr := True, signalInfoBuilder := map_option markExtraAttrsPresent (signalInfoBuilder l)\<rparr>)
               else if k = ''SignalConfigs'' then
                 (if \<not> al 0 then Return RC_YAML_PARSING_ERROR
                  else Go (l\<lparr>parsingSignal := True, signalInfoBuilder := Some (SignalInfoBuilder_init (al 1))\<rparr>))
               else Go l)))"

definition signal_mapping_end ::
    "(nat \<Rightarrow> bool) \<Rightarrow> signal_locals \<Rightarrow> config_state \<Rightarrow> (signal_locals next_step \<times> config_state) option" where
  "signal_mapping_end al l s =
     (if inResourcesMap l then
        (let l = l\<lparr>inResourcesMap := False\<rparr>
         in if RC_IS_NOTOK (sl_rc l) then Some (Go l, s)
            else (case (signalInfoBuilder l, sl_resource l) of
                (Some b, Some r) \<Rightarrow>
                  (case addSignalResource (al 0) (rb_build r) b of
                     (rc, b) \<Rightarrow> Some (Go (l\<lparr>sl_rc := rc, signalInfoBuilder := Some b, sl_resource := None\<rparr>), s))
              | _ \<Rightarrow> None))
      else if parsingExtraAttr l then Some (Go (l\<lparr>parsingExtraAttr := False\<rparr>), s)
      else if parsingSignal l then
        (case signalInfoBuilder l of None \<Rightarrow> None
         | Some b \<Rightarrow>
            (let (rc, b) = (if RC_IS_NOTOK (sl_rc l) then setSignalCategory ''0'' b else (sl_rc l, b))
             in Some (Go (l\<lparr>parsingSignal := False, sl_rc := rc, signalInfoBuilder := None\<rparr>),
                  s\<lparr>cs_signals := registerSignal (build_signal b) (cs_signals s)\<rparr>)))
      else Some (Go l, s))"

text \<open>The collected values of a resource are added one by one until one is refused.\<close>

fun add_values :: "nat \<Rightarrow> string list \<Rightarrow> ErrCode \<Rightarrow> resource option \<Rightarrow> (ErrCode \<times> resource option) option" where
  "add_values idx [] rc r = Some (rc, r)"
| "add_values idx (v # vs) rc r =
     (if RC_IS_OK rc then do {
        (rc, r) \<leftarrow> rb_addValue (word_of_nat idx) v r;
        add_values (Suc idx) vs rc r }
      else add_values (Suc idx) vs rc r)"

definition signal_sequence_end ::
    "(nat \<Rightarrow> bool) \<Rightarrow> signal_locals \<Rightarrow> config_state \<Rightarrow> (signal_locals next_step \<times> config_state) option" where
  "signal_sequence_end al l s =
     (case keyTracker l of [] \<Rightarrow> Some (Return RC_YAML_INVALID_SYNTAX, s)
      | k # ks \<Rightarrow>
         (let l = l\<lparr>ks_topKey := k, keyTracker := ks\<rparr>
          in if k \<noteq> ''Values'' then Some (Go l, s)
             else if RC_IS_NOTOK (sl_rc l) then Some (Go (l\<lparr>resValues := []\<rparr>), s)
             else (case sl_resource l of None \<Rightarrow> None
               | Some r \<Rightarrow> do {
                   let (rc, r) = rb_setNumValues (al 0) (word_of_nat (length (resValues l))) r;
                   (rc, r) \<leftarrow> add_values 0 (resValues l) rc r;
                   Some (Go (l\<lparr>sl_rc := rc, sl_resource := Some r, resValues := []\<rparr>), s) })))"

definition signal_value :: "parse_env \<Rightarrow> (nat \<Rightarrow> bool) \<Rightarrow> signal_locals \<Rightarrow> signal_locals" where
  "signal_value pe al l =
     (case (signal_setter pe al (ks_topKey l), signalInfoBuilder l) of
        (Some setter, Some b) \<Rightarrow> (case add_to_builder setter (ks_value l) (sl_rc l) b of
          (rc, b) \<Rightarrow> l\<lparr>sl_rc := rc, signalInfoBuilder := Some b\<rparr>)
      | _ \<Rightarrow>
     (case (signal_resource_setter (ks_topKey l), sl_resource l) of
        (Some setter, Some r) \<Rightarrow> (case add_to_builder setter (ks_value l) (sl_rc l) r of
          (rc, r) \<Rightarrow> l\<lparr>sl_rc := rc, sl_resource := Some r\<rparr>)
      | _ \<Rightarrow> if ks_topKey l = ''Values'' then l\<lparr>resValues := resValues l @ [ks_value l]\<rparr> else l))"

definition signal_step ::
    "parse_env \<Rightarrow> (nat \<Rightarrow> bool) \<Rightarrow> yaml_event \<Rightarrow> signal_locals \<Rightarrow> config_state \<Rightarrow>
       (signal_locals next_step \<times> config_state) option" where
  "signal_step pe al event l s =
     (case event of
        MappingStart \<Rightarrow> Some (signal_mapping_start al l, s)
      | MappingEnd \<Rightarrow> signal_mapping_end al l s
      | SequenceEnd \<Rightarrow> signal_sequence_end al l s
      | Scalar v \<Rightarrow>
          (let l = read_value v l
           in if isKey (ks_value l) then Some (Go (push_key l), s)
              else (case take_key l of None \<Rightarrow> Some (Return RC_YAML_INVALID_SYNTAX, s)
                | Some l \<Rightarrow> Some (Go (signal_value pe al l), s)))
      | _ \<Rightarrow> Some (Go l, s))"

definition parseSignalConfigYamlNode ::
    "parse_env \<Rightarrow> string \<Rightarrow> config_state \<Rightarrow> (ErrCode \<times> config_state) outcome" where
  "parseSignalConfigYamlNode pe = parse_file pe (signal_step pe) sl_rc signal_locals_init"

section \<open>External features\<close>

record feature_locals = key_state +
  fl_rc :: ErrCode
  parsingFeature :: bool
  extFeatureInfoBuilder :: "ExtFeatureInfo option option"

definition feature_locals_init :: feature_locals where
  "feature_locals_init = \<lparr>docMarker = False, ks_value = [], ks_topKey = [], keyTracker = [], fl_rc = RC_SUCCESS,
     parsingFeature = False, extFeatureInfoBuilder = None\<rparr>"

definition feature_setter ::
    "(nat \<Rightarrow> bool) \<Rightarrow> string \<Rightarrow> (string \<Rightarrow> ExtFeatureInfo option \<Rightarrow> ErrCode \<times> ExtFeatureInfo option) option" where
  "feature_setter al = map_of
     [(''FeatId'', setId), (''LibPath'', setLib), (''Name'', setFeatureName), (''Signals'', addSignalSubscribedTo (al 0))]"

definition feature_step ::
    "(nat \<Rightarrow> bool) \<Rightarrow> yaml_event \<Rightarrow> feature_locals \<Rightarrow> config_state \<Rightarrow> (feature_locals next_step \<times> config_state) option" where
  "feature_step al event l s =
     (case event of
        MappingStart \<Rightarrow>
          if \<not> docMarker l then Some (Go (l\<lparr>docMarker := True\<rparr>), s)
          else if \<not> al 0 then Some (Return RC_YAML_PARSING_ERROR, s)
          else Some (Go (l\<lparr>extFeatureInfoBuilder := Some (ExtFeatureInfoBuilder_init (al 1)), parsingFeature := True\<rparr>), s)
      | MappingEnd \<Rightarrow>
          if \<not> parsingFeature l then Some (Go l, s)
          else (case extFeatureInfoBuilder l of None \<Rightarrow> None
            | Some b \<Rightarrow> do {
                let b = (if RC_IS_NOTOK (fl_rc l) then snd (setLib '''' b) else b);
                ef \<leftarrow> registerExtFeature (cs_signals s) b (cs_features s);
                Some (Go (l\<lparr>parsingFeature := False, extFeatureInfoBuilder := None\<rparr>), s\<lparr>cs_features := ef\<rparr>) })
      | SequenceEnd \<Rightarrow>
          (case keyTracker l of [] \<Rightarrow> Some (Return RC_YAML_INVALID_SYNTAX, s)
           | _ # ks \<Rightarrow> Some (Go (l\<lparr>keyTracker := ks\<rparr>), s))
      | Scalar v \<Rightarrow>
          (let l = read_value v l
           in if isKey (ks_value l) then Some (Go (push_key l), s)
              else (case take_key l of None \<Rightarrow> Some (Return RC_YAML_INVALID_SYNTAX, s)
                | Some l \<Rightarrow>
                    Some (Go (case (feature_setter al (ks_topKey l), extFeatureInfoBuilder l) of
                        (Some setter, Some b) \<Rightarrow>
                          (case add_to_builder setter (ks_value l) (fl_rc l) b of
                             (rc, b) \<Rightarrow> l\<lparr>fl_rc := rc, extFeatureInfoBuilder := Some b\<rparr>)
                      | _ \<Rightarrow> l), s)))
      | _ \<Rightarrow> Some (Go l, s))"

definition parseExtFeatureConfigYamlNode ::
    "parse_env \<Rightarrow> string \<Rightarrow> config_state \<Rightarrow> (ErrCode \<times> config_state) outcome" where
  "parseExtFeatureConfigYamlNode pe = parse_file pe feature_step fl_rc feature_locals_init"

section \<open>Applications\<close>

record app_locals = key_state +
  al_rc :: ErrCode
  inThreadList :: bool
  inConfigList :: bool
  inAppList :: bool
  al_items :: "string list"
  appNameArray :: "string list"
  appConfigBuider :: "AppConfig option option"

definition app_locals_init :: app_locals where
  "app_locals_init = \<lparr>docMarker = False, ks_value = [], ks_topKey = [], keyTracker = [], al_rc = RC_SUCCESS,
     inThreadList = False, inConfigList = False, inAppList = False, al_items = [], appNameArray = [],
     appConfigBuider = None\<rparr>"

text \<open>A mapping that starts with no key on the stack reads the top of an empty stack.\<close>

definition app_mapping_start :: "(nat \<Rightarrow> bool) \<Rightarrow> app_locals \<Rightarrow> app_locals option" where
  "app_mapping_start al l =
     (if \<not> docMarker l then Some (l\<lparr>docMarker := True\<rparr>)
      else (case keyTracker l of [] \<Rightarrow> None
        | k # _ \<Rightarrow>
           Some (if k = ''PerAppConfigs'' \<and> appConfigBuider l = None
                 then l\<lparr>ks_topKey := k, appConfigBuider := Some (AppConfigBuilder_init (al 0))\<rparr>
                 else l\<lparr>ks_topKey := k\<rparr>)))"

fun register_apps :: "(nat \<Rightarrow> bool) \<Rightarrow> nat \<Rightarrow> string list \<Rightarrow> AppConfig option \<Rightarrow> app_configs \<Rightarrow> app_configs" where
  "register_apps al i [] b m = m"
| "register_apps al i (name # names) b m =
     register_apps al (Suc i) names b (registerAppConfig (build_app_named (al i) name b) m)"

definition app_mapping_end :: "(nat \<Rightarrow> bool) \<Rightarrow> app_locals \<Rightarrow> config_state \<Rightarrow> (app_locals next_step \<times> config_state) option" where
  "app_mapping_end al l s =
     (case keyTracker l of [] \<Rightarrow> Some (Go l, s)
      | k # _ \<Rightarrow>
         (let l = l\<lparr>ks_topKey := k\<rparr>
          in if k \<noteq> ''PerAppConfigs'' then Some (Go l, s)
             else (case (appNameArray l, appConfigBuider l) of
                 (_ # _, None) \<Rightarrow> None
               | (names, b) \<Rightarrow>
                   Some (Go (l\<lparr>appNameArray := [], appConfigBuider := None\<rparr>),
                     s\<lparr>cs_apps := (case b of None \<Rightarrow> cs_apps s | Some b \<Rightarrow> register_apps al 0 names b (cs_apps s))\<rparr>))))"

text \<open>Threads come as pairs of a name and a cgroup; a name without one reads past the end.\<close>

fun add_threads :: "nat \<Rightarrow> string list \<Rightarrow> ErrCode \<Rightarrow> AppConfig option \<Rightarrow> (ErrCode \<times> AppConfig option) option" where
  "add_threads i [] rc b = Some (rc, b)"
| "add_threads i [_] rc b = (if RC_IS_OK rc then None else Some (rc, b))"
| "add_threads i (name # cgroup # rest) rc b =
     (if RC_IS_OK rc then do {
        (rc, b) \<leftarrow> addThreadMapping (word_of_nat i) name cgroup b;
        (if RC_IS_NOTOK rc then Some (rc, b) else add_threads (Suc i) rest rc b) }
      else add_threads i rest rc b)"

fun add_codes :: "nat \<Rightarrow> string list \<Rightarrow> ErrCode \<Rightarrow> AppConfig option \<Rightarrow> (ErrCode \<times> AppConfig option) option" where
  "add_codes i [] rc b = Some (rc, b)"
| "add_codes i (c # cs) rc b =
     (if RC_IS_OK rc then do {
        (rc, b) \<leftarrow> addSigCode (word_of_nat i) c b;
        (if RC_IS_NOTOK rc then Some (rc, b) else add_codes (Suc i) cs rc b) }
      else add_codes (Suc i) cs rc b)"

text \<open>
  The end of a list: what was collected goes to the builder. A code that is not a success returns at
  once, so \<^verbatim>\<open>rc\<close> is a success wherever a list ends.
\<close>

definition app_list_end ::
    "((ErrCode \<times> AppConfig option) \<Rightarrow> (ErrCode \<times> AppConfig option) option) \<Rightarrow>
       (AppConfig option \<Rightarrow> ErrCode \<times> AppConfig option) \<Rightarrow> app_locals \<Rightarrow> app_locals next_step option" where
  "app_list_end add setNum l =
     (if RC_IS_NOTOK (al_rc l) then Some (Go (l\<lparr>al_items := []\<rparr>))
      else (case appConfigBuider l of None \<Rightarrow> None
        | Some b \<Rightarrow>
           (let (rc, b) = setNum b
            in if RC_IS_NOTOK rc then Some (Return RC_YAML_INVALID_SYNTAX)
               else do {
                 (rc, b) \<leftarrow> add (rc, b);
                 Some (if RC_IS_NOTOK rc then Return RC_YAML_INVALID_SYNTAX
                       else Go (l\<lparr>al_rc := rc, appConfigBuider := Some b, al_items := []\<rparr>)) })))"

definition app_sequence_end :: "(nat \<Rightarrow> bool) \<Rightarrow> app_locals \<Rightarrow> app_locals next_step option" where
  "app_sequence_end al l =
     (case keyTracker l of [] \<Rightarrow> Some (Return RC_YAML_INVALID_SYNTAX)
      | _ # ks \<Rightarrow>
         (let l = l\<lparr>keyTracker := ks\<rparr>; items = al_items l
          in if inThreadList l then
               app_list_end (\<lambda>(rc, b). add_threads 0 items rc b)
                 (setNumThreads (al 0) (al 1) (word_of_nat (length items div 2))) (l\<lparr>inThreadList := False\<rparr>)
             else if inConfigList l then
               app_list_end (\<lambda>(rc, b). add_codes 0 items rc b)
                 (setNumSigCodes (al 0) (word_of_nat (length items))) (l\<lparr>inConfigList := False\<rparr>)
             else Some (Go (if inAppList l then l\<lparr>inAppList := False\<rparr> else l))))"

definition app_sequence_start :: "app_locals \<Rightarrow> app_locals next_step" where
  "app_sequence_start l =
     (case keyTracker l of [] \<Rightarrow> Return RC_YAML_INVALID_SYNTAX
      | k # _ \<Rightarrow> let l = l\<lparr>ks_topKey := k\<rparr> in
          Go (if k = ''Threads'' then l\<lparr>inThreadList := True\<rparr>
              else if k = ''Configurations'' then l\<lparr>inConfigList := True\<rparr>
              else if k = ''App'' then l\<lparr>inAppList := True\<rparr> else l))"

text \<open>Here the key of a value leaves the stack exactly when no list is open.\<close>

definition app_value :: "app_locals \<Rightarrow> app_locals next_step" where
  "app_value l =
     (case keyTracker l of [] \<Rightarrow> Return RC_YAML_INVALID_SYNTAX
      | k # ks \<Rightarrow>
         (let l = l\<lparr>ks_topKey := k,
               keyTracker := (if \<not> inConfigList l \<and> \<not> inThreadList l \<and> \<not> inAppList l then ks else k # ks)\<rparr>
          in Go (if k = ''App'' then l\<lparr>appNameArray := appNameArray l @ [ks_value l]\<rparr>
                 else if k = ''Threads'' \<or> k = ''Configurations'' then l\<lparr>al_items := al_items l @ [ks_value l]\<rparr>
                 else l)))"

definition app_step ::
    "(nat \<Rightarrow> bool) \<Rightarrow> yaml_event \<Rightarrow> app_locals \<Rightarrow> config_state \<Rightarrow> (app_locals next_step \<times> config_state) option" where
  "app_step al event l s =
     (case event of
        MappingStart \<Rightarrow> map_option (\<lambda>l. (Go l, s)) (app_mapping_start al l)
      | MappingEnd \<Rightarrow> app_mapping_end al l s
      | SequenceStart \<Rightarrow> Some (app_sequence_start l, s)
      | SequenceEnd \<Rightarrow> map_option (\<lambda>n. (n, s)) (app_sequence_end al l)
      | Scalar v \<Rightarrow>
          (let l = read_value v l
           in Some (if isKey (ks_value l) then Go (push_key l) else app_value l, s))
      | _ \<Rightarrow> Some (Go l, s))"

definition parsePerAppConfigYamlNode ::
    "parse_env \<Rightarrow> string \<Rightarrow> config_state \<Rightarrow> (ErrCode \<times> config_state) outcome" where
  "parsePerAppConfigYamlNode pe = parse_file pe app_step al_rc app_locals_init"

section \<open>The entry point\<close>

datatype ConfigType = RESOURCE_CONFIG | PROPERTIES_CONFIG | SIGNALS_CONFIG | EXT_FEATURES_CONFIG | TARGET_CONFIG
  | INIT_CONFIG | APP_CONFIG | TOTAL_CONFIGS_COUNT

definition parse :: "parse_env \<Rightarrow> ConfigType \<Rightarrow> string \<Rightarrow> config_state \<Rightarrow> (ErrCode \<times> config_state) outcome" where
  "parse pe configType filePath s =
     (case configType of
        RESOURCE_CONFIG \<Rightarrow> parseResourceConfigYamlNode pe filePath s
      | PROPERTIES_CONFIG \<Rightarrow> parsePropertiesConfigYamlNode pe filePath s
      | TARGET_CONFIG \<Rightarrow> parseTargetConfigYamlNode pe filePath s
      | INIT_CONFIG \<Rightarrow> parseInitConfigYamlNode pe filePath s
      | SIGNALS_CONFIG \<Rightarrow> parseSignalConfigYamlNode pe filePath s
      | EXT_FEATURES_CONFIG \<Rightarrow> parseExtFeatureConfigYamlNode pe filePath s
      | APP_CONFIG \<Rightarrow> parsePerAppConfigYamlNode pe filePath s
      | TOTAL_CONFIGS_COUNT \<Rightarrow> Some (Inr (RC_BAD_ARG, s)))"

end
