(* ===== verification/ParserReference.thy ===== *)
theory ParserReference
  imports RestuneParser
begin

text \<open>
  What the loops of the parser compute, for files of the documented shape: a root key with a list of
  entries, each a mapping from keys to a value or a list of values. A file is a list of entries, and
  \<open>file_events\<close> are its events. The locale \<open>entry_parser\<close> is the contract of a loop that builds one
  object per entry; the loops over resources and over features are instances. The reference runs over
  the entries and knows no events and no stack of keys.
\<close>

section \<open>Documents\<close>

datatype field = Single string string | Listed string "string list"

fun field_events :: "field \<Rightarrow> yaml_event list" where
  "field_events (Single k v) = [Scalar (Some k), Scalar (Some v)]"
| "field_events (Listed k vs) = Scalar (Some k) # SequenceStart # map (\<lambda>v. Scalar (Some v)) vs @ [SequenceEnd]"

fun field_values :: "field \<Rightarrow> (string \<times> string) list" where
  "field_values (Single k v) = [(k, v)]"
| "field_values (Listed k vs) = map (Pair k) vs"

fun field_ok :: "field \<Rightarrow> bool" where
  "field_ok (Single k v) \<longleftrightarrow> isKey k \<and> \<not> isKey v"
| "field_ok (Listed k vs) \<longleftrightarrow> isKey k \<and> isKeyTypeList k \<and> list_all (\<lambda>v. \<not> isKey v) vs"

fun field_key :: "field \<Rightarrow> string" where
  "field_key (Single k v) = k"
| "field_key (Listed k vs) = k"

text \<open>A single value under the key of a list leaves the key on the stack.\<close>

fun leftover :: "field \<Rightarrow> string list" where
  "leftover (Single k v) = (if isKeyTypeList k then [k] else [])"
| "leftover (Listed k vs) = []"

definition leftovers :: "field list \<Rightarrow> string list" where
  "leftovers fs = concat (map leftover (rev fs))"

definition entry_events :: "field list \<Rightarrow> yaml_event list" where
  "entry_events fs = MappingStart # concat (map field_events fs) @ [MappingEnd]"

definition entry_values :: "field list \<Rightarrow> (string \<times> string) list" where
  "entry_values fs = concat (map field_values fs)"

definition file_events :: "string \<Rightarrow> field list list \<Rightarrow> yaml_event list" where
  "file_events root es =
     [OtherEvent, OtherEvent, MappingStart, Scalar (Some root), SequenceStart] @ concat (map entry_events es) @
     [SequenceEnd, MappingEnd, OtherEvent, StreamEnd]"

section \<open>Runs of the loop\<close>

fun steps ::
    "(yaml_event \<Rightarrow> 'l \<Rightarrow> config_state \<Rightarrow> ('l next_step \<times> config_state) option) \<Rightarrow> yaml_event list \<Rightarrow> 'l \<Rightarrow> config_state \<Rightarrow>
       ('l \<times> config_state) option" where
  "steps step [] l s = Some (l, s)"
| "steps step (e # es) l s =
     (case step e l s of Some (Go l', s') \<Rightarrow> steps step es l' s' | _ \<Rightarrow> None)"

lemma steps_append: "steps step es l s = Some (l', s') \<Longrightarrow> steps step (es @ es') l s = steps step es' l' s'"
  by (induction es arbitrary: l s) (auto split: option.splits next_step.splits)

text \<open>With every allocation answered, the loop is a run up to the end of the stream.\<close>

definition all_new :: "nat \<Rightarrow> nat \<Rightarrow> bool" where
  "all_new = (\<lambda>_ _. True)"

lemma drive_steps:
  assumes "StreamEnd \<notin> set es" "steps (step (\<lambda>_. True)) es l s = Some (l', s')"
  shows "drive step result all_new i (es @ es') l s = drive step result all_new (i + length es) es' l' s'"
  using assms
  by (induction es arbitrary: l s i) (auto simp: all_new_def split: option.splits next_step.splits)

lemma drive_fault:
  assumes "StreamEnd \<notin> set es" "steps (step (\<lambda>_. True)) es l s = Some (l', s')"
    "step (\<lambda>_. True) e l' s' = None" "e \<noteq> StreamEnd"
  shows "drive step result all_new i (es @ e # es') l s = None"
  using assms(3,4) by (simp add: drive_steps[of es step l s, OF assms(1,2)]) (simp add: all_new_def)

lemma no_stream_end: "StreamEnd \<notin> set (concat (map field_events fs))"
proof -
  have "StreamEnd \<notin> set (field_events f)" for f by (cases f) auto
  then show ?thesis by auto
qed

section \<open>Fields of one object\<close>

text \<open>
  \<open>state l rc b ks\<close>: the locals \<open>l\<close> have the return code \<open>rc\<close>, the builder \<open>b\<close> if an object is open, and
  the keys \<open>ks\<close>. The keys a loop treats like any other are \<open>plain\<close>.
\<close>

locale field_parser =
  fixes step :: "(nat \<Rightarrow> bool) \<Rightarrow> yaml_event \<Rightarrow> 'l \<Rightarrow> config_state \<Rightarrow> ('l next_step \<times> config_state) option"
    and state :: "'l \<Rightarrow> ErrCode \<Rightarrow> 'b option \<Rightarrow> string list \<Rightarrow> bool"
    and plain :: "string \<Rightarrow> bool"
    and set_field :: "config_state \<Rightarrow> string \<times> string \<Rightarrow> ErrCode \<times> 'b \<Rightarrow> ErrCode \<times> 'b"
  assumes on_sequence: "step (\<lambda>_. True) SequenceStart l s = Some (Go l, s)"
    and on_key: "state l rc bo ks \<Longrightarrow> isKey k \<Longrightarrow>
      \<exists>l'. step (\<lambda>_. True) (Scalar (Some k)) l s = Some (Go l', s) \<and> state l' rc bo (k # ks)"
    and on_value: "state l rc (Some b) (k # ks) \<Longrightarrow> plain k \<Longrightarrow> \<not> isKey v \<Longrightarrow> set_field s (k, v) (rc, b) = (rc', b') \<Longrightarrow>
      \<exists>l'. step (\<lambda>_. True) (Scalar (Some v)) l s = Some (Go l', s) \<and>
        state l' rc' (Some b') (if isKeyTypeList k then k # ks else ks)"
    and on_sequence_end: "state l rc bo (k # ks) \<Longrightarrow> plain k \<Longrightarrow>
      \<exists>l'. step (\<lambda>_. True) SequenceEnd l s = Some (Go l', s) \<and> state l' rc bo ks"
begin

abbreviation go where "go es l s \<equiv> steps (step (\<lambda>_. True)) es l s"

lemma list_values:
  assumes "state l rc (Some b) (k # ks)" "plain k" "isKeyTypeList k" "list_all (\<lambda>v. \<not> isKey v) vs"
    "fold (set_field s) (map (Pair k) vs) (rc, b) = (rc', b')"
  shows "\<exists>l'. go (map (\<lambda>v. Scalar (Some v)) vs) l s = Some (l', s) \<and> state l' rc' (Some b') (k # ks)"
  using assms
proof (induction vs arbitrary: l rc b)
  case (Cons v vs)
  obtain rc1 b1 where f: "set_field s (k, v) (rc, b) = (rc1, b1)" by fastforce
  with on_value[OF Cons.prems(1,2) _ f] Cons.prems(3,4) obtain l1 where
    "step (\<lambda>_. True) (Scalar (Some v)) l s = Some (Go l1, s)" "state l1 rc1 (Some b1) (k # ks)" by auto
  with Cons.IH[OF this(2) Cons.prems(2,3)] Cons.prems(4,5) f show ?case by auto
qed simp

lemma one_field:
  assumes "state l rc (Some b) ks" "field_ok f" "plain (field_key f)" "fold (set_field s) (field_values f) (rc, b) = (rc', b')"
  shows "\<exists>l'. go (field_events f) l s = Some (l', s) \<and> state l' rc' (Some b') (leftover f @ ks)"
proof (cases f)
  case (Single k v)
  with on_key[OF assms(1), of k s] assms(2) obtain l1 where
    l1: "step (\<lambda>_. True) (Scalar (Some k)) l s = Some (Go l1, s)" "state l1 rc (Some b) (k # ks)" by auto
  from on_value[OF l1(2), of v s rc' b'] assms(2-4) Single obtain l2 where
    l2: "step (\<lambda>_. True) (Scalar (Some v)) l1 s = Some (Go l2, s)"
    "state l2 rc' (Some b') (if isKeyTypeList k then k # ks else ks)" by auto
  then show ?thesis by (intro exI[of _ l2]) (use Single l1 in \<open>auto split: if_splits\<close>)
next
  case (Listed k vs)
  with on_key[OF assms(1), of k s] assms(2) obtain l1 where
    l1: "step (\<lambda>_. True) (Scalar (Some k)) l s = Some (Go l1, s)" "state l1 rc (Some b) (k # ks)" by auto
  from list_values[OF l1(2), of vs s rc' b'] assms(2-4) Listed obtain l2 where
    l2: "go (map (\<lambda>v. Scalar (Some v)) vs) l1 s = Some (l2, s)" "state l2 rc' (Some b') (k # ks)" by auto
  from on_sequence_end[OF l2(2), of s] assms(3) Listed obtain l3 where
    l3: "step (\<lambda>_. True) SequenceEnd l2 s = Some (Go l3, s)" "state l3 rc' (Some b') ks" by auto
  then show ?thesis by (intro exI[of _ l3]) (simp add: Listed l1 on_sequence steps_append[OF l2(1)])
qed

lemma all_fields:
  assumes "state l rc (Some b) ks" "list_all field_ok fs" "list_all (\<lambda>f. plain (field_key f)) fs"
    "fold (set_field s) (entry_values fs) (rc, b) = (rc', b')"
  shows "\<exists>l'. go (concat (map field_events fs)) l s = Some (l', s) \<and> state l' rc' (Some b') (leftovers fs @ ks)"
  using assms
proof (induction fs arbitrary: l rc b ks)
  case (Cons f fs)
  obtain rc1 b1 where f1: "fold (set_field s) (field_values f) (rc, b) = (rc1, b1)" by fastforce
  with one_field[OF Cons.prems(1) _ _ f1] Cons.prems(2,3) obtain l1 where
    l1: "go (field_events f) l s = Some (l1, s)" "state l1 rc1 (Some b1) (leftover f @ ks)" by auto
  from Cons.IH[OF l1(2)] Cons.prems(2-4) f1 obtain l2 where
    "go (concat (map field_events fs)) l1 s = Some (l2, s)" "state l2 rc' (Some b') (leftovers (f # fs) @ ks)"
    by (auto simp: entry_values_def leftovers_def)
  then show ?case by (intro exI[of _ l2]) (simp add: steps_append[OF l1(1)])
qed (simp add: entry_values_def leftovers_def)

end

section \<open>One object per entry\<close>

locale entry_parser = field_parser step state "\<lambda>_. True" set_field
  for step :: "(nat \<Rightarrow> bool) \<Rightarrow> yaml_event \<Rightarrow> 'l \<Rightarrow> config_state \<Rightarrow> ('l next_step \<times> config_state) option"
    and state :: "'l \<Rightarrow> ErrCode \<Rightarrow> 'b option \<Rightarrow> string list \<Rightarrow> bool"
    and set_field :: "config_state \<Rightarrow> string \<times> string \<Rightarrow> ErrCode \<times> 'b \<Rightarrow> ErrCode \<times> 'b" +
  fixes result :: "'l \<Rightarrow> ErrCode" and start :: 'l and new_builder :: 'b
    and finish :: "ErrCode \<Rightarrow> 'b \<Rightarrow> config_state \<Rightarrow> config_state option"
  assumes on_start: "\<exists>l. step (\<lambda>_. True) MappingStart start s = Some (Go l, s) \<and> state l RC_SUCCESS None []"
    and on_result: "state l rc bo ks \<Longrightarrow> result l = rc"
    and on_other: "step (\<lambda>_. True) OtherEvent l s = Some (Go l, s)"
    and on_new: "state l rc None ks \<Longrightarrow>
      \<exists>l'. step (\<lambda>_. True) MappingStart l s = Some (Go l', s) \<and> state l' rc (Some new_builder) ks"
    and on_finish: "state l rc (Some b) ks \<Longrightarrow> finish rc b s = Some s' \<Longrightarrow>
      \<exists>l'. step (\<lambda>_. True) MappingEnd l s = Some (Go l', s') \<and> state l' rc None ks"
    and on_fault: "state l rc (Some b) ks \<Longrightarrow> finish rc b s = None \<Longrightarrow> step (\<lambda>_. True) MappingEnd l s = None"
    and on_close: "state l rc None ks \<Longrightarrow> step (\<lambda>_. True) MappingEnd l s = Some (Go l, s)"
begin

definition build_entry :: "config_state \<Rightarrow> ErrCode \<Rightarrow> field list \<Rightarrow> ErrCode \<times> 'b" where
  "build_entry s rc fs = fold (set_field s) (entry_values fs) (rc, new_builder)"

fun entries :: "field list list \<Rightarrow> ErrCode \<Rightarrow> config_state \<Rightarrow> (ErrCode \<times> config_state) option" where
  "entries [] rc s = Some (rc, s)"
| "entries (fs # es) rc s =
     (case build_entry s rc fs of (rc, b) \<Rightarrow> Option.bind (finish rc b s) (entries es rc))"

text \<open>One entry after the other, from any index of an event.\<close>

lemma drive_entries:
  assumes "state l rc None (k # ks)" "list_all (list_all field_ok) es"
  shows "drive step result all_new i (concat (map entry_events es) @ [SequenceEnd, MappingEnd, OtherEvent, StreamEnd]) l s =
    map_option Inr (entries es rc s)"
  using assms(1,2)
proof (induction es arbitrary: l rc ks k s i)
  case Nil
  from on_sequence_end[OF Nil(1) TrueI, of s] obtain l1 where
    "step (\<lambda>_. True) SequenceEnd l s = Some (Go l1, s)" "state l1 rc None ks" by blast
  with on_close[OF this(2)] on_result[OF this(2)] show ?case by (simp add: all_new_def on_other)
next
  case (Cons fs es)
  let ?closing = "[SequenceEnd, MappingEnd, OtherEvent, StreamEnd]"
  from on_new[OF Cons.prems(1), of s] obtain l1 where
    l1: "step (\<lambda>_. True) MappingStart l s = Some (Go l1, s)" "state l1 rc (Some new_builder) (k # ks)" by blast
  obtain rc' b where b: "build_entry s rc fs = (rc', b)" by fastforce
  with all_fields[OF l1(2), of fs s rc' b] Cons.prems(2) obtain l2 where
    l2: "go (concat (map field_events fs)) l1 s = Some (l2, s)" "state l2 rc' (Some b) (leftovers fs @ k # ks)"
    by (auto simp: build_entry_def list.pred_True)
  define ks2 where "ks2 = leftovers fs"
  note l2 = l2[folded ks2_def]
  let ?pre = "MappingStart # concat (map field_events fs)"
  have pre: "StreamEnd \<notin> set ?pre" "go ?pre l s = Some (l2, s)" using no_stream_end[of fs] l1(1) l2(1) by auto
  let ?rest = "concat (map entry_events es) @ ?closing"
  have ev: "concat (map entry_events (fs # es)) @ ?closing = ?pre @ MappingEnd # ?rest" by (simp add: entry_events_def)
  show ?case
  proof (cases "finish rc' b s")
    case None
    from drive_fault[of ?pre step l s, OF pre on_fault[OF l2(2) None]] None b show ?thesis unfolding ev by simp
  next
    case (Some s')
    from on_finish[OF l2(2) Some] obtain l3 where
      l3: "step (\<lambda>_. True) MappingEnd l2 s = Some (Go l3, s')" "state l3 rc' None (ks2 @ k # ks)" by blast
    obtain k' ks' where k': "ks2 @ k # ks = k' # ks'" by (cases ks2) auto
    have "drive step result all_new i (?pre @ MappingEnd # ?rest) l s =
        drive step result all_new (i + length ?pre) (MappingEnd # ?rest) l2 s"
      by (rule drive_steps[of ?pre step l s, OF pre])
    also have "\<dots> = drive step result all_new (Suc (i + length ?pre)) ?rest l3 s'" by (simp add: all_new_def l3(1))
    also have "\<dots> = map_option Inr (entries es rc' s')"
      using Cons.IH[OF l3(2)[unfolded k']] Cons.prems(2) by simp
    finally show ?thesis unfolding ev using b Some by simp
  qed
qed

theorem drive_file:
  assumes "isKey root" "list_all (list_all field_ok) es"
  shows "drive step result all_new 0 (file_events root es) start s = map_option Inr (entries es RC_SUCCESS s)"
proof -
  from on_start[of s] obtain l1 where
    l1: "step (\<lambda>_. True) MappingStart start s = Some (Go l1, s)" "state l1 RC_SUCCESS None []" by blast
  from on_key[OF l1(2) assms(1), of s] obtain l2 where
    "step (\<lambda>_. True) (Scalar (Some root)) l1 s = Some (Go l2, s)" "state l2 RC_SUCCESS None [root]" by blast
  with drive_entries[OF this(2) assms(2)] l1(1) show ?thesis
    by (simp add: file_events_def all_new_def on_other on_sequence)
qed

end

section \<open>The files of resources and features\<close>

definition apply_setter ::
    "(string \<Rightarrow> 'b \<Rightarrow> ErrCode \<times> 'b) option \<Rightarrow> string \<Rightarrow> ErrCode \<times> 'b \<Rightarrow> ErrCode \<times> 'b" where
  "apply_setter setter v p =
     (case setter of None \<Rightarrow> p | Some f \<Rightarrow> (case p of (rc, b) \<Rightarrow> add_to_builder f v rc b))"

lemma fold_setter_stuck:
  assumes "RC_IS_NOTOK rc"
  shows "fold (\<lambda>kv. apply_setter (f (fst kv)) (snd kv)) kvs (rc, b) = (rc, b)"
  using assms by (induction kvs) (auto simp: apply_setter_def add_to_builder_def split: option.splits)

definition resource_state :: "resource_locals \<Rightarrow> ErrCode \<Rightarrow> config_builder option \<Rightarrow> string list \<Rightarrow> bool" where
  "resource_state l rc b ks \<longleftrightarrow> docMarker l \<and> rl_rc l = rc \<and> resourceConfigInfoBuilder l = b \<and>
     parsingResource l = (b \<noteq> None) \<and> keyTracker l = ks"

definition set_resource_field ::
    "parse_env \<Rightarrow> config_state \<Rightarrow> string \<times> string \<Rightarrow> ErrCode \<times> config_builder \<Rightarrow> ErrCode \<times> config_builder" where
  "set_resource_field pe s kv = apply_setter (resource_setter pe (cs_world s) (fst kv)) (snd kv)"

definition finish_resource :: "parse_env \<Rightarrow> ErrCode \<Rightarrow> config_builder \<Rightarrow> config_state \<Rightarrow> config_state option" where
  "finish_resource pe rc b s = register_config pe (build (if RC_IS_NOTOK rc \<or> ResourceRegistry.mTargetRefCount b < 0
     then snd (setResType ''0'' b) else b)) s"

interpretation resource_file: entry_parser "resource_step pe" resource_state "set_resource_field pe" rl_rc
    resource_locals_init "ResourceConfigInfoBuilder_init True" "finish_resource pe" for pe
proof unfold_locales
  fix l :: resource_locals and rc rc' b b' k ks v s
  assume st: "resource_state l rc (Some b) (k # ks)" "\<not> isKey v" "set_resource_field pe s (k, v) (rc, b) = (rc', b')"
  then show "\<exists>l'. resource_step pe (\<lambda>_. True) (Scalar (Some v)) l s = Some (Go l', s) \<and>
      resource_state l' rc' (Some b') (if isKeyTypeList k then k # ks else ks)"
    by (cases "resource_setter pe (cs_world s) k")
      (auto simp: resource_state_def resource_step_def read_value_def take_key_def set_resource_field_def apply_setter_def
        Let_def split: prod.splits)
qed (auto simp: resource_state_def resource_step_def resource_locals_init_def read_value_def push_key_def
    finish_resource_def Let_def)

definition feature_state :: "feature_locals \<Rightarrow> ErrCode \<Rightarrow> ExtFeatureInfo option option \<Rightarrow> string list \<Rightarrow> bool" where
  "feature_state l rc b ks \<longleftrightarrow> docMarker l \<and> fl_rc l = rc \<and> extFeatureInfoBuilder l = b \<and>
     parsingFeature l = (b \<noteq> None) \<and> keyTracker l = ks"

definition set_feature_field ::
    "string \<times> string \<Rightarrow> ErrCode \<times> ExtFeatureInfo option \<Rightarrow> ErrCode \<times> ExtFeatureInfo option" where
  "set_feature_field kv = apply_setter (feature_setter (\<lambda>_. True) (fst kv)) (snd kv)"

definition finish_feature :: "ErrCode \<Rightarrow> ExtFeatureInfo option \<Rightarrow> config_state \<Rightarrow> config_state option" where
  "finish_feature rc b s =
     map_option (\<lambda>ef. s\<lparr>cs_features := ef\<rparr>)
       (registerExtFeature (cs_signals s) (if RC_IS_NOTOK rc then snd (setLib '''' b) else b) (cs_features s))"

interpretation feature_file: entry_parser feature_step feature_state "\<lambda>_. set_feature_field" fl_rc
    feature_locals_init "ExtFeatureInfoBuilder_init True" finish_feature
proof unfold_locales
  fix l :: feature_locals and rc rc' b b' k ks v s
  assume st: "feature_state l rc (Some b) (k # ks)" "\<not> isKey v" "set_feature_field (k, v) (rc, b) = (rc', b')"
  then show "\<exists>l'. feature_step (\<lambda>_. True) (Scalar (Some v)) l s = Some (Go l', s) \<and>
      feature_state l' rc' (Some b') (if isKeyTypeList k then k # ks else ks)"
    by (cases "feature_setter (\<lambda>_. True) k")
      (auto simp: feature_state_def feature_step_def read_value_def take_key_def set_feature_field_def apply_setter_def
        Let_def split: prod.splits)
qed (auto simp: feature_state_def feature_step_def feature_locals_init_def read_value_def push_key_def
    finish_feature_def Let_def)

text \<open>
  The reference for resources: entries are registered one by one up to the first one with an invalid
  value, and nothing after it is. An entry that is not for this target is skipped.
\<close>

definition build_config :: "parse_env \<Rightarrow> world \<Rightarrow> field list \<Rightarrow> ErrCode \<times> config_builder" where
  "build_config pe w fs =
     fold (\<lambda>kv. apply_setter (resource_setter pe w (fst kv)) (snd kv)) (entry_values fs)
       (RC_SUCCESS, ResourceConfigInfoBuilder_init True)"

fun register_until :: "parse_env \<Rightarrow> field list list \<Rightarrow> config_state \<Rightarrow> (ErrCode \<times> config_state) option" where
  "register_until pe [] s = Some (RC_SUCCESS, s)"
| "register_until pe (fs # es) s =
     (case build_config pe (cs_world s) fs of (rc, b) \<Rightarrow>
        if RC_IS_NOTOK rc then Some (rc, s)
        else if ResourceRegistry.mTargetRefCount b < 0 then register_until pe es s
        else Option.bind (register_config pe (build b) s) (register_until pe es))"

lemma register_void: "register_config pe (build (snd (setResType ''0'' b))) s = Some s"
proof -
  have "stoi ''0'' = Some 0" by code_simp
  then have "isResourceConfigMalformed (build (snd (setResType ''0'' b)))"
    by (auto simp: isResourceConfigMalformed_def build_def setResType_def on_config_def split: option.splits)
  then show ?thesis by (simp add: register_config_def registerResource_def)
qed

lemma set_resource_field_eq:
  "set_resource_field pe s = (\<lambda>kv. apply_setter (resource_setter pe (cs_world s) (fst kv)) (snd kv))"
  by (rule ext) (simp add: set_resource_field_def)

lemma resource_build_eq: "resource_file.build_entry pe s RC_SUCCESS fs = build_config pe (cs_world s) fs"
  by (simp add: resource_file.build_entry_def build_config_def set_resource_field_eq)

lemma finish_resource_eq:
  "finish_resource pe rc b s =
     (if rc \<noteq> RC_SUCCESS \<or> ResourceRegistry.mTargetRefCount b < 0 then Some s else register_config pe (build b) s)"
  by (simp add: finish_resource_def register_void)

lemma resource_entries_stuck:
  assumes "rc \<noteq> RC_SUCCESS"
  shows "resource_file.entries pe es rc s = Some (rc, s)"
proof (induction es)
  case (Cons fs es)
  have "resource_file.build_entry pe s rc fs = (rc, ResourceConfigInfoBuilder_init True)"
    using assms by (simp add: resource_file.build_entry_def set_resource_field_eq fold_setter_stuck)
  with Cons assms finish_resource_eq[of pe rc "ResourceConfigInfoBuilder_init True" s] show ?case by simp
qed simp

lemma resource_entries: "resource_file.entries pe es RC_SUCCESS s = register_until pe es s"
proof (induction es arbitrary: s)
  case (Cons fs es)
  obtain rc b where b: "build_config pe (cs_world s) fs = (rc, b)" by fastforce
  have "resource_file.entries pe es RC_SUCCESS = register_until pe es" using Cons by blast
  with b finish_resource_eq[of pe rc b s] show ?case
    by (cases "rc = RC_SUCCESS") (simp_all add: resource_build_eq resource_entries_stuck)
qed simp

text \<open>The reading of a whole file.\<close>

definition reads_file :: "parse_env \<Rightarrow> string \<Rightarrow> yaml_event list \<Rightarrow> bool" where
  "reads_file pe file es \<longleftrightarrow> pe_fopen pe file \<and> pe_parser_init pe file \<and> pe_events pe file = es \<and> pe_alloc pe = all_new"

lemma parse_resources:
  assumes "reads_file pe file (file_events root es)" "isKey root" "list_all (list_all field_ok) es"
  shows "parse pe RESOURCE_CONFIG file s = map_option Inr (register_until pe es s)"
  using assms resource_file.drive_file[OF assms(2,3), of pe s]
  by (simp add: parse_def parseResourceConfigYamlNode_def parse_file_def SETUP_LIBYAML_PARSING_def reads_file_def
      resource_entries)


section \<open>The file of properties\<close>

definition property_fields :: "string \<times> string \<Rightarrow> field list" where
  "property_fields e = [Single ''Name'' (fst e), Single ''Value'' (snd e)]"

definition property_word :: "string \<Rightarrow> bool" where
  "property_word s \<longleftrightarrow> s \<in> {''PropertyConfigs'', ''Name'', ''Value''}"

definition put_property :: "string \<times> string \<Rightarrow> properties_registry \<Rightarrow> properties_registry" where
  "put_property e pr = snd (createProperty (bytes_of (fst e)) (bytes_of (snd e)) pr)"

lemma property_entry:
  assumes "currentKey l = []" "currentValue l = []" "\<not> property_word (fst e)" "\<not> property_word (snd e)"
  shows "\<exists>l'. steps (property_step (\<lambda>_. True)) (entry_events (property_fields e)) l s =
      Some (l', s\<lparr>cs_props := put_property e (cs_props s)\<rparr>) \<and> currentKey l' = [] \<and> currentValue l' = []"
proof -
  have "put_property e pr = pr" if "fst e = [] \<or> snd e = []" for pr
    using that by (auto simp: put_property_def createProperty_def bytes_of_def)
  then show ?thesis using assms
    by (auto simp: entry_events_def property_fields_def property_step_def property_word_def put_property_def Let_def)
qed

lemma drive_properties:
  assumes "currentKey l = []" "currentValue l = []" "list_all (\<lambda>e. \<not> property_word (fst e) \<and> \<not> property_word (snd e)) es"
  shows "drive property_step (\<lambda>_. RC_SUCCESS) all_new i
      (concat (map entry_events (map property_fields es)) @ [SequenceEnd, MappingEnd, OtherEvent, StreamEnd]) l s =
    Some (Inr (RC_SUCCESS, s\<lparr>cs_props := fold put_property es (cs_props s)\<rparr>))"
  using assms
proof (induction es arbitrary: l s i)
  case Nil
  then show ?case by (simp add: all_new_def property_step_def)
next
  case (Cons e es)
  from property_entry[OF Cons.prems(1,2), of e s] Cons.prems(3) obtain l' where
    l': "steps (property_step (\<lambda>_. True)) (entry_events (property_fields e)) l s =
      Some (l', s\<lparr>cs_props := put_property e (cs_props s)\<rparr>)" "currentKey l' = []" "currentValue l' = []" by auto
  have n: "StreamEnd \<notin> set (entry_events (property_fields e))" by (auto simp: entry_events_def property_fields_def)
  from Cons.IH[OF l'(2,3), where s = "s\<lparr>cs_props := put_property e (cs_props s)\<rparr>"] Cons.prems(3)
  show ?case by (simp add: drive_steps[of _ property_step l s, OF n l'(1)])
qed

lemma parse_properties:
  assumes "reads_file pe file (file_events ''PropertyConfigs'' (map property_fields es))"
    and "list_all (\<lambda>e. \<not> property_word (fst e) \<and> \<not> property_word (snd e)) es"
  shows "parse pe PROPERTIES_CONFIG file s = Some (Inr (RC_SUCCESS, s\<lparr>cs_props := fold put_property es (cs_props s)\<rparr>))"
  using assms drive_properties[where l = "property_locals_init\<lparr>pl_value := ''PropertyConfigs''\<rparr>" and es = es and s = s]
  by (simp add: parse_def parsePropertiesConfigYamlNode_def parse_file_def SETUP_LIBYAML_PARSING_def reads_file_def
      file_events_def property_step_def property_locals_init_def all_new_def Let_def numeral_eq_Suc)

lemma put_properties:
  "fold put_property es = props.put_all (map (\<lambda>e. (bytes_of (fst e), bytes_of (snd e))) es)"
  by (rule ext) (induction es arbitrary: rule: rev_induct, simp_all add: props.put_all_def put_property_def)

end
