(* ===== verification/SignalFile.thy ===== *)
theory SignalFile
  imports ParserReference
begin

text \<open>
  What the loop over a signal file computes. An entry has plain fields, a list of attributes and
  lists of resources; each resource has its fields and one list of values. The reference builds each
  signal from its entry alone.
\<close>

section \<open>Documents\<close>

datatype lock_part = LField string string | LValues "string list"
datatype part = Plain field | Attrs "(string \<times> string) list" | Locks "lock_part list list"

fun lock_events :: "lock_part \<Rightarrow> yaml_event list" where
  "lock_events (LField k v) = [Scalar (Some k), Scalar (Some v)]"
| "lock_events (LValues vs) = field_events (Listed ''Values'' vs)"

definition attr_events :: "string \<times> string \<Rightarrow> yaml_event list" where
  "attr_events kv = [MappingStart, Scalar (Some (fst kv)), Scalar (Some (snd kv)), MappingEnd]"

fun part_events :: "part \<Rightarrow> yaml_event list" where
  "part_events (Plain f) = field_events f"
| "part_events (Attrs kvs) =
     [Scalar (Some ''ExtraAttrs''), SequenceStart] @ concat (map attr_events kvs) @ [SequenceEnd]"
| "part_events (Locks rs) =
     [Scalar (Some ''Resources''), SequenceStart] @
     concat (map (\<lambda>ls. MappingStart # concat (map lock_events ls) @ [MappingEnd]) rs) @ [SequenceEnd]"

definition signal_events :: "part list \<Rightarrow> yaml_event list" where
  "signal_events ps = MappingStart # concat (map part_events ps) @ [MappingEnd]"

definition signal_file_events :: "part list list \<Rightarrow> yaml_event list" where
  "signal_file_events es =
     [OtherEvent, OtherEvent, MappingStart, Scalar (Some ''SignalConfigs''), SequenceStart] @
     concat (map signal_events es) @ [SequenceEnd, MappingEnd, OtherEvent, StreamEnd]"

definition plain_key :: "string \<Rightarrow> bool" where
  "plain_key k \<longleftrightarrow> k \<notin> {''Resources'', ''ExtraAttrs'', ''Values'', ''ResCode'', ''ResInfo''}"

fun lock_part_ok :: "lock_part \<Rightarrow> bool" where
  "lock_part_ok (LField k v) \<longleftrightarrow> k \<in> {''ResCode'', ''ResInfo''} \<and> \<not> isKey v"
| "lock_part_ok (LValues vs) \<longleftrightarrow> list_all (\<lambda>v. \<not> isKey v) vs"

fun part_ok :: "part \<Rightarrow> bool" where
  "part_ok (Plain f) \<longleftrightarrow> field_ok f \<and> plain_key (field_key f) \<and> leftover f = []"
| "part_ok (Attrs kvs) \<longleftrightarrow> list_all (\<lambda>kv. fst kv \<in> {''Fps'', ''Height'', ''Width'', ''MmSrc''} \<and> \<not> isKey (snd kv)) kvs"
| "part_ok (Locks rs) \<longleftrightarrow> list_all (list_all lock_part_ok) rs"

section \<open>The reference\<close>

definition set_signal_field :: "parse_env \<Rightarrow> string \<times> string \<Rightarrow> ErrCode \<times> signal_builder \<Rightarrow> ErrCode \<times> signal_builder" where
  "set_signal_field pe kv = apply_setter (signal_setter pe (\<lambda>_. True) (fst kv)) (snd kv)"

fun set_lock_part :: "lock_part \<Rightarrow> ErrCode \<times> resource option \<Rightarrow> (ErrCode \<times> resource option) option" where
  "set_lock_part (LField k v) p = Some (apply_setter (signal_resource_setter k) v p)"
| "set_lock_part (LValues vs) (rc, r) =
     (if RC_IS_NOTOK rc then Some (rc, r)
      else (case rb_setNumValues True (word_of_nat (length vs)) r of (rc, r) \<Rightarrow> add_values 0 vs rc r))"

definition add_lock :: "lock_part list \<Rightarrow> ErrCode \<times> signal_builder \<Rightarrow> (ErrCode \<times> signal_builder) option" where
  "add_lock ls p =
     map_option (\<lambda>(rc, r). if RC_IS_NOTOK rc then (rc, snd p) else addSignalResource True (rb_build r) (snd p))
       (foldM set_lock_part ls (fst p, ResourceBuilder_init True))"

fun set_part :: "parse_env \<Rightarrow> part \<Rightarrow> ErrCode \<times> signal_builder \<Rightarrow> (ErrCode \<times> signal_builder) option" where
  "set_part pe (Plain f) p = Some (fold (set_signal_field pe) (field_values f) p)"
| "set_part pe (Attrs kvs) p =
     Some (fold (\<lambda>kv (rc, b). set_signal_field pe kv (rc, markExtraAttrsPresent b)) kvs p)"
| "set_part pe (Locks rs) p = foldM add_lock rs p"

definition signal_of :: "parse_env \<Rightarrow> part list \<Rightarrow> (ErrCode \<times> signal_builder) option" where
  "signal_of pe ps = foldM (set_part pe) ps (RC_SUCCESS, SignalInfoBuilder_init True)"

fun register_signals :: "parse_env \<Rightarrow> part list list \<Rightarrow> signal_registry \<Rightarrow> signal_registry option" where
  "register_signals pe [] sr = Some sr"
| "register_signals pe (ps # es) sr =
     Option.bind (signal_of pe ps) (\<lambda>(rc, b).
       register_signals pe es (if RC_IS_OK rc then registerSignal (build_signal b) sr else sr))"

section \<open>The loop\<close>

definition in_signal :: "signal_locals \<Rightarrow> ErrCode \<Rightarrow> signal_builder option \<Rightarrow> string list \<Rightarrow> bool" where
  "in_signal l rc b ks \<longleftrightarrow> docMarker l \<and> sl_rc l = rc \<and> signalInfoBuilder l = b \<and> parsingSignal l = (b \<noteq> None) \<and>
     \<not> inResourcesMap l \<and> \<not> parsingExtraAttr l \<and> resValues l = [] \<and> keyTracker l = ks"

definition in_attr :: "signal_locals \<Rightarrow> ErrCode \<Rightarrow> signal_builder option \<Rightarrow> string list \<Rightarrow> bool" where
  "in_attr l rc b ks \<longleftrightarrow> docMarker l \<and> sl_rc l = rc \<and> signalInfoBuilder l = b \<and> parsingSignal l = (b \<noteq> None) \<and>
     \<not> inResourcesMap l \<and> parsingExtraAttr l \<and> resValues l = [] \<and> keyTracker l = ks"

definition in_lock ::
    "signal_builder \<Rightarrow> string list \<Rightarrow> signal_locals \<Rightarrow> ErrCode \<Rightarrow> resource option option \<Rightarrow> string list \<Rightarrow> bool" where
  "in_lock b vs l rc r ks \<longleftrightarrow> docMarker l \<and> sl_rc l = rc \<and> signalInfoBuilder l = Some b \<and> parsingSignal l \<and>
     inResourcesMap l \<and> \<not> parsingExtraAttr l \<and> sl_resource l = r \<and> resValues l = vs \<and> keyTracker l = ks"

lemma setters_apart: "signal_setter pe al k = None" if "k \<in> {''ResCode'', ''ResInfo'', ''Values''}"
  using that by (elim insertE emptyE) (simp_all add: signal_setter_def)

lemma resource_setters: "plain_key k \<Longrightarrow> signal_resource_setter k = None"
  by (simp add: signal_resource_setter_def plain_key_def)

lemmas signal_step_defs = signal_step_def signal_mapping_start_def signal_mapping_end_def signal_sequence_end_def
  signal_value_def read_value_def push_key_def take_key_def

interpretation signal_fields: field_parser "signal_step pe" in_signal plain_key "\<lambda>_. set_signal_field pe" for pe
proof unfold_locales
  fix l :: signal_locals and rc rc' b b' k ks v s
  assume st: "in_signal l rc (Some b) (k # ks)" "plain_key k" "\<not> isKey v" "set_signal_field pe (k, v) (rc, b) = (rc', b')"
  then show "\<exists>l'. signal_step pe (\<lambda>_. True) (Scalar (Some v)) l s = Some (Go l', s) \<and>
      in_signal l' rc' (Some b') (if isKeyTypeList k then k # ks else ks)"
    using resource_setters[OF st(2)]
    by (cases "signal_setter pe (\<lambda>_. True) k")
      (auto simp: in_signal_def signal_step_defs set_signal_field_def apply_setter_def plain_key_def Let_def split: prod.splits)
qed (auto simp: in_signal_def signal_step_defs plain_key_def Let_def)

interpretation attr_fields: field_parser "signal_step pe" in_attr plain_key "\<lambda>_. set_signal_field pe" for pe
proof unfold_locales
  fix l :: signal_locals and rc rc' b b' k ks v s
  assume st: "in_attr l rc (Some b) (k # ks)" "plain_key k" "\<not> isKey v" "set_signal_field pe (k, v) (rc, b) = (rc', b')"
  then show "\<exists>l'. signal_step pe (\<lambda>_. True) (Scalar (Some v)) l s = Some (Go l', s) \<and>
      in_attr l' rc' (Some b') (if isKeyTypeList k then k # ks else ks)"
    using resource_setters[OF st(2)]
    by (cases "signal_setter pe (\<lambda>_. True) k")
      (auto simp: in_attr_def signal_step_defs set_signal_field_def apply_setter_def plain_key_def Let_def split: prod.splits)
qed (auto simp: in_attr_def signal_step_defs plain_key_def Let_def)

definition lock_key :: "string \<Rightarrow> bool" where
  "lock_key k \<longleftrightarrow> k \<in> {''ResCode'', ''ResInfo''}"

definition set_lock_field :: "string \<times> string \<Rightarrow> ErrCode \<times> resource option \<Rightarrow> ErrCode \<times> resource option" where
  "set_lock_field kv = apply_setter (signal_resource_setter (fst kv)) (snd kv)"

interpretation lock_fields: field_parser "signal_step pe" "in_lock b vs" lock_key "\<lambda>_. set_lock_field" for pe b vs
proof unfold_locales
  fix l :: signal_locals and rc rc' r r' k ks v s
  assume st: "in_lock b vs l rc (Some r) (k # ks)" "lock_key k" "\<not> isKey v" "set_lock_field (k, v) (rc, r) = (rc', r')"
  have n: "signal_setter pe (\<lambda>_. True) k = None" by (rule setters_apart) (use st(2) in \<open>auto simp: lock_key_def\<close>)
  obtain f where f: "signal_resource_setter k = Some f" using st(2) by (auto simp: lock_key_def signal_resource_setter_def)
  show "\<exists>l'. signal_step pe (\<lambda>_. True) (Scalar (Some v)) l s = Some (Go l', s) \<and>
      in_lock b vs l' rc' (Some r') (if isKeyTypeList k then k # ks else ks)"
    using st n f
    by (auto simp: in_lock_def signal_step_defs set_lock_field_def apply_setter_def Let_def split: prod.splits)
qed (auto simp: in_lock_def signal_step_defs lock_key_def Let_def)

text \<open>One attribute, then a list of them.\<close>

abbreviation run where "run pe es l s \<equiv> steps (signal_step pe (\<lambda>_. True)) es l s"

lemma attr_keys: "k \<in> {''Fps'', ''Height'', ''Width'', ''MmSrc''} \<Longrightarrow> isKey k \<and> plain_key k \<and> \<not> isKeyTypeList k"
  by (elim insertE emptyE) (simp_all add: isKey_def yaml_keys_def plain_key_def isKeyTypeList_def)

lemma attr_item:
  assumes l: "in_signal l rc (Some b) (''ExtraAttrs'' # ks)"
    and kv: "fst kv \<in> {''Fps'', ''Height'', ''Width'', ''MmSrc''}" "\<not> isKey (snd kv)"
    and set: "set_signal_field pe kv (rc, markExtraAttrsPresent b) = (rc', b')"
  shows "\<exists>l'. run pe (attr_events kv) l s = Some (l', s) \<and> in_signal l' rc' (Some b') (''ExtraAttrs'' # ks)"
proof -
  obtain l1 where l1: "signal_step pe (\<lambda>_. True) MappingStart l s = Some (Go l1, s)"
    "in_attr l1 rc (Some (markExtraAttrsPresent b)) (''ExtraAttrs'' # ks)"
    using l by (auto simp: in_signal_def in_attr_def signal_step_defs Let_def)
  note k = attr_keys[OF kv(1)]
  from attr_fields.one_field[OF l1(2), where f = "Single (fst kv) (snd kv)" and pe = pe and s = s and rc' = rc' and b' = b'] k kv(2) set obtain l2 where
    l2: "run pe (field_events (Single (fst kv) (snd kv))) l1 s = Some (l2, s)"
    "in_attr l2 rc' (Some b') (''ExtraAttrs'' # ks)" by auto
  obtain l3 where l3: "signal_step pe (\<lambda>_. True) MappingEnd l2 s = Some (Go l3, s)"
    "in_signal l3 rc' (Some b') (''ExtraAttrs'' # ks)"
    using l2(2) by (auto simp: in_signal_def in_attr_def signal_step_defs Let_def)
  have "attr_events kv = MappingStart # field_events (Single (fst kv) (snd kv)) @ [MappingEnd]"
    by (simp add: attr_events_def)
  then show ?thesis using l1(1) l3 by (simp only: steps.simps steps_append[OF l2(1)] option.case prod.case next_step.case) auto
qed

lemma attr_items:
  assumes "in_signal l rc (Some b) (''ExtraAttrs'' # ks)"
    and "list_all (\<lambda>kv. fst kv \<in> {''Fps'', ''Height'', ''Width'', ''MmSrc''} \<and> \<not> isKey (snd kv)) kvs"
    and "fold (\<lambda>kv (rc, b). set_signal_field pe kv (rc, markExtraAttrsPresent b)) kvs (rc, b) = (rc', b')"
  shows "\<exists>l'. run pe (concat (map attr_events kvs)) l s = Some (l', s) \<and> in_signal l' rc' (Some b') (''ExtraAttrs'' # ks)"
  using assms
proof (induction kvs arbitrary: l rc b)
  case (Cons kv kvs)
  obtain rc1 b1 where f: "set_signal_field pe kv (rc, markExtraAttrsPresent b) = (rc1, b1)" by fastforce
  with attr_item[OF Cons.prems(1), of kv pe rc1 b1 s] Cons.prems(2) obtain l1 where
    l1: "run pe (attr_events kv) l s = Some (l1, s)" "in_signal l1 rc1 (Some b1) (''ExtraAttrs'' # ks)" by auto
  from Cons.IH[OF l1(2)] Cons.prems(2,3) f obtain l2 where
    "run pe (concat (map attr_events kvs)) l1 s = Some (l2, s)" "in_signal l2 rc' (Some b') (''ExtraAttrs'' # ks)" by auto
  then show ?case by (intro exI[of _ l2]) (simp add: steps_append[OF l1(1)])
qed simp

text \<open>The values of a resource are collected, and written when their list ends.\<close>

lemma collect_values:
  assumes "in_lock b ws l rc r (''Values'' # ks)" "list_all (\<lambda>v. \<not> isKey v) vs"
  shows "\<exists>l'. run pe (map (\<lambda>v. Scalar (Some v)) vs) l s = Some (l', s) \<and> in_lock b (ws @ vs) l' rc r (''Values'' # ks)"
  using assms
proof (induction vs arbitrary: l ws)
  case (Cons v vs)
  have n: "signal_setter pe (\<lambda>_. True) ''Values'' = None" by (rule setters_apart) simp
  have "signal_resource_setter ''Values'' = None" by (simp add: signal_resource_setter_def)
  moreover have "isKeyTypeList ''Values''" by (simp add: isKeyTypeList_def)
  ultimately obtain l1 where l1: "signal_step pe (\<lambda>_. True) (Scalar (Some v)) l s = Some (Go l1, s)"
    "in_lock b (ws @ [v]) l1 rc r (''Values'' # ks)"
    using Cons.prems n by (auto simp: in_lock_def signal_step_defs Let_def)
  from Cons.IH[OF l1(2)] Cons.prems(2) l1(1) show ?case by auto
qed simp

lemma values_end:
  assumes "in_lock b vs l rc (Some r) (''Values'' # ks)" "set_lock_part (LValues vs) (rc, r) = Some (rc', r')"
  shows "\<exists>l'. signal_step pe (\<lambda>_. True) SequenceEnd l s = Some (Go l', s) \<and> in_lock b [] l' rc' (Some r') ks"
proof (cases "rc = RC_SUCCESS")
  case True
  obtain rc1 r1 where n: "rb_setNumValues True (word_of_nat (length vs)) r = (rc1, r1)" by fastforce
  with assms True show ?thesis by (auto simp: in_lock_def signal_step_defs Let_def)
next
  case False
  with assms show ?thesis by (auto simp: in_lock_def signal_step_defs Let_def)
qed

lemma lock_part_run:
  assumes "in_lock b [] l rc (Some r) ks" "lock_part_ok p" "set_lock_part p (rc, r) = Some (rc', r')"
  shows "\<exists>l'. run pe (lock_events p) l s = Some (l', s) \<and> in_lock b [] l' rc' (Some r') ks"
proof (cases p)
  case (LField k v)
  then have k: "isKey k" "lock_key k" "\<not> isKeyTypeList k" "\<not> isKey v"
    using assms(2) by (auto simp: lock_key_def isKey_def yaml_keys_def isKeyTypeList_def)
  with lock_fields.one_field[OF assms(1), where f = "Single k v" and pe = pe and s = s and rc' = rc' and b' = r'] assms(3) LField show ?thesis
    by (auto simp: set_lock_field_def)
next
  case (LValues vs)
  have "isKey ''Values''" by (simp add: isKey_def yaml_keys_def)
  from lock_fields.on_key[OF assms(1) this, where pe = pe and s = s] obtain l1 where
    l1: "signal_step pe (\<lambda>_. True) (Scalar (Some ''Values'')) l s = Some (Go l1, s)"
    "in_lock b [] l1 rc (Some r) (''Values'' # ks)" by blast
  from collect_values[OF l1(2), of vs pe s] assms(2) LValues obtain l2 where
    l2: "run pe (map (\<lambda>v. Scalar (Some v)) vs) l1 s = Some (l2, s)" "in_lock b vs l2 rc (Some r) (''Values'' # ks)" by auto
  from values_end[OF l2(2)] assms(3) LValues obtain l3 where
    l3: "signal_step pe (\<lambda>_. True) SequenceEnd l2 s = Some (Go l3, s)" "in_lock b [] l3 rc' (Some r') ks" by blast
  have "signal_step pe (\<lambda>_. True) SequenceStart l1 s = Some (Go l1, s)" by (simp add: signal_step_def)
  then show ?thesis by (intro exI[of _ l3]) (simp add: LValues l1(1) l3 steps_append[OF l2(1)])
qed

lemma lock_parts_run:
  assumes "in_lock b [] l rc (Some r) ks" "list_all lock_part_ok ps" "foldM set_lock_part ps (rc, r) = Some (rc', r')"
  shows "\<exists>l'. run pe (concat (map lock_events ps)) l s = Some (l', s) \<and> in_lock b [] l' rc' (Some r') ks"
  using assms
proof (induction ps arbitrary: l rc r)
  case (Cons p ps)
  from Cons.prems(3) obtain rc1 r1 where f: "set_lock_part p (rc, r) = Some (rc1, r1)" "foldM set_lock_part ps (rc1, r1) = Some (rc', r')"
    by (cases "set_lock_part p (rc, r)") auto
  from lock_part_run[OF Cons.prems(1) _ f(1)] Cons.prems(2) obtain l1 where
    l1: "run pe (lock_events p) l s = Some (l1, s)" "in_lock b [] l1 rc1 (Some r1) ks" by fastforce
  from Cons.IH[OF l1(2) _ f(2)] Cons.prems(2) obtain l2 where
    "run pe (concat (map lock_events ps)) l1 s = Some (l2, s)" "in_lock b [] l2 rc' (Some r') ks" by auto
  then show ?case by (intro exI[of _ l2]) (simp add: steps_append[OF l1(1)])
qed simp

lemma lock_item:
  assumes l: "in_signal l rc (Some b) (''Resources'' # ks)" and ok: "list_all lock_part_ok ls"
    and add: "add_lock ls (rc, b) = Some (rc', b')"
  shows "\<exists>l'. run pe (MappingStart # concat (map lock_events ls) @ [MappingEnd]) l s = Some (l', s) \<and>
    in_signal l' rc' (Some b') (''Resources'' # ks)"
proof -
  obtain l1 where l1: "signal_step pe (\<lambda>_. True) MappingStart l s = Some (Go l1, s)"
    "in_lock b [] l1 rc (Some (ResourceBuilder_init True)) (''Resources'' # ks)"
    using l by (auto simp: in_signal_def in_lock_def signal_step_defs Let_def)
  from add obtain rc1 r where f: "foldM set_lock_part ls (rc, ResourceBuilder_init True) = Some (rc1, r)"
    "(rc', b') = (if RC_IS_NOTOK rc1 then (rc1, b) else addSignalResource True (rb_build r) b)"
    unfolding add_lock_def by (cases "foldM set_lock_part ls (rc, ResourceBuilder_init True)") (auto split: if_splits)
  from lock_parts_run[OF l1(2) ok f(1), of pe s] obtain l2 where
    l2: "run pe (concat (map lock_events ls)) l1 s = Some (l2, s)" "in_lock b [] l2 rc1 (Some r) (''Resources'' # ks)" by blast
  obtain l3 where l3: "signal_step pe (\<lambda>_. True) MappingEnd l2 s = Some (Go l3, s)"
    "in_signal l3 rc' (Some b') (''Resources'' # ks)"
    using l2(2) f(2)
    by (cases "addSignalResource True (rb_build r) b"; cases "rc1 = RC_SUCCESS")
       (auto simp: in_signal_def in_lock_def signal_step_defs Let_def)
  show ?thesis by (intro exI[of _ l3]) (simp add: l1(1) l3 steps_append[OF l2(1)])
qed

lemma lock_items:
  assumes "in_signal l rc (Some b) (''Resources'' # ks)" "list_all (list_all lock_part_ok) rs"
    and "foldM add_lock rs (rc, b) = Some (rc', b')"
  shows "\<exists>l'. run pe (concat (map (\<lambda>ls. MappingStart # concat (map lock_events ls) @ [MappingEnd]) rs)) l s = Some (l', s) \<and>
    in_signal l' rc' (Some b') (''Resources'' # ks)"
  using assms
proof (induction rs arbitrary: l rc b)
  case (Cons ls rs)
  from Cons.prems(3) obtain rc1 b1 where f: "add_lock ls (rc, b) = Some (rc1, b1)" "foldM add_lock rs (rc1, b1) = Some (rc', b')"
    by (cases "add_lock ls (rc, b)") auto
  from lock_item[OF Cons.prems(1) _ f(1), of pe s] Cons.prems(2) obtain l1 where
    l1: "run pe (MappingStart # concat (map lock_events ls) @ [MappingEnd]) l s = Some (l1, s)"
    "in_signal l1 rc1 (Some b1) (''Resources'' # ks)" by fastforce
  from Cons.IH[OF l1(2) _ f(2)] Cons.prems(2) obtain l2 where
    l2: "run pe (concat (map (\<lambda>ls. MappingStart # concat (map lock_events ls) @ [MappingEnd]) rs)) l1 s = Some (l2, s)"
    "in_signal l2 rc' (Some b') (''Resources'' # ks)" by auto
  have "concat (map (\<lambda>ls. MappingStart # concat (map lock_events ls) @ [MappingEnd]) (ls # rs)) =
      (MappingStart # concat (map lock_events ls) @ [MappingEnd]) @
      concat (map (\<lambda>ls. MappingStart # concat (map lock_events ls) @ [MappingEnd]) rs)" by simp
  then show ?case using l2 by (intro exI[of _ l2]) (simp only: steps_append[OF l1(1)] simp_thms)
qed simp

text \<open>A list of items under its key: the key comes and goes with the list.\<close>

lemma list_part:
  assumes l: "in_signal l rc (Some b) ks" and k: "isKey k" "k \<noteq> ''Values''"
    and body: "\<And>l. in_signal l rc (Some b) (k # ks) \<Longrightarrow> \<exists>l'. run pe body l s = Some (l', s) \<and> in_signal l' rc' (Some b') (k # ks)"
  shows "\<exists>l'. run pe ([Scalar (Some k), SequenceStart] @ body @ [SequenceEnd]) l s = Some (l', s) \<and> in_signal l' rc' (Some b') ks"
proof -
  from signal_fields.on_key[OF l k(1), where pe = pe and s = s] obtain l1 where
    l1: "signal_step pe (\<lambda>_. True) (Scalar (Some k)) l s = Some (Go l1, s)" "in_signal l1 rc (Some b) (k # ks)" by blast
  from body[OF l1(2)] obtain l2 where l2: "run pe body l1 s = Some (l2, s)" "in_signal l2 rc' (Some b') (k # ks)" by blast
  obtain l3 where l3: "signal_step pe (\<lambda>_. True) SequenceEnd l2 s = Some (Go l3, s)" "in_signal l3 rc' (Some b') ks"
    using l2(2) k(2) by (auto simp: in_signal_def signal_step_defs Let_def)
  have "signal_step pe (\<lambda>_. True) SequenceStart l1 s = Some (Go l1, s)" by (simp add: signal_step_def)
  then show ?thesis by (intro exI[of _ l3]) (simp add: l1(1) l3 steps_append[OF l2(1)])
qed

lemma part_run:
  assumes l: "in_signal l rc (Some b) ks" and ok: "part_ok p" and set: "set_part pe p (rc, b) = Some (rc', b')"
  shows "\<exists>l'. run pe (part_events p) l s = Some (l', s) \<and> in_signal l' rc' (Some b') ks"
proof (cases p)
  case (Plain f)
  with signal_fields.one_field[OF l, where f = f and pe = pe and s = s and rc' = rc' and b' = b'] ok set
  show ?thesis by auto
next
  case (Attrs kvs)
  have k: "isKey ''ExtraAttrs''" "''ExtraAttrs'' \<noteq> ''Values''" by (simp_all add: isKey_def yaml_keys_def)
  have "\<exists>l'. run pe ([Scalar (Some ''ExtraAttrs''), SequenceStart] @ concat (map attr_events kvs) @ [SequenceEnd]) l s = Some (l', s) \<and>
      in_signal l' rc' (Some b') ks"
    by (rule list_part[OF l k]) (use attr_items[of _ rc b ks kvs pe rc' b' s] ok set Attrs in auto)
  then show ?thesis by (simp add: Attrs)
next
  case (Locks rs)
  have k: "isKey ''Resources''" "''Resources'' \<noteq> ''Values''" by (simp_all add: isKey_def yaml_keys_def)
  have "\<exists>l'. run pe ([Scalar (Some ''Resources''), SequenceStart] @
      concat (map (\<lambda>ls. MappingStart # concat (map lock_events ls) @ [MappingEnd]) rs) @ [SequenceEnd]) l s = Some (l', s) \<and>
      in_signal l' rc' (Some b') ks"
    by (rule list_part[OF l k]) (use lock_items[of _ rc b ks rs rc' b' pe s] ok set Locks in auto)
  then show ?thesis by (simp add: Locks)
qed

lemma parts_run:
  assumes "in_signal l rc (Some b) ks" "list_all part_ok ps" "foldM (set_part pe) ps (rc, b) = Some (rc', b')"
  shows "\<exists>l'. run pe (concat (map part_events ps)) l s = Some (l', s) \<and> in_signal l' rc' (Some b') ks"
  using assms
proof (induction ps arbitrary: l rc b)
  case (Cons p ps)
  from Cons.prems(3) obtain rc1 b1 where f: "set_part pe p (rc, b) = Some (rc1, b1)" "foldM (set_part pe) ps (rc1, b1) = Some (rc', b')"
    by (cases "set_part pe p (rc, b)") auto
  from part_run[OF Cons.prems(1) _ f(1)] Cons.prems(2) obtain l1 where
    l1: "run pe (part_events p) l s = Some (l1, s)" "in_signal l1 rc1 (Some b1) ks" by fastforce
  from Cons.IH[OF l1(2) _ f(2)] Cons.prems(2) obtain l2 where
    "run pe (concat (map part_events ps)) l1 s = Some (l2, s)" "in_signal l2 rc' (Some b') ks" by auto
  then show ?case by (intro exI[of _ l2]) (simp add: steps_append[OF l1(1)])
qed simp

section \<open>Whole files\<close>

text \<open>No setter drops the object of the builder, so a refused signal can always be marked.\<close>

lemma on_signal_kept: "sb_info (snd (on_signal f b)) = None \<longleftrightarrow> sb_info b = None"
  by (simp add: on_signal_def split: option.splits)

lemma signal_setter_kept:
  assumes "signal_setter pe al k = Some f"
  shows "sb_info (snd (f v b)) = None \<longleftrightarrow> sb_info b = None"
proof -
  have "f \<in> {Signals.addTargetEnabled (pe_targetName pe), Signals.addTargetDisabled (pe_targetName pe), addPermission (al 0),
      addDerivative (al 0), setSignalID, setSignalCategory, setSignalType, Signals.setName, setTimeout, setIsEnabled,
      setFps, setHeight, setWidth, setMmSrc}"
    using map_of_SomeD[OF assms[unfolded signal_setter_def]] by auto
  then show ?thesis
    by (elim insertE emptyE)
       (simp_all add: Signals.addTargetEnabled_def Signals.addTargetDisabled_def addPermission_def addDerivative_def
        setSignalID_def setSignalCategory_def setSignalType_def Signals.setName_def setTimeout_def setIsEnabled_def
        setFps_def setHeight_def setWidth_def setMmSrc_def on_signal_kept Let_def)
qed

lemma set_signal_field_kept: "sb_info (snd (set_signal_field pe kv p)) = None \<longleftrightarrow> sb_info (snd p) = None"
  by (cases p; cases "signal_setter pe (\<lambda>_. True) (fst kv)")
     (simp_all add: set_signal_field_def apply_setter_def add_to_builder_def signal_setter_kept)

lemma fold_kept:
  assumes "\<And>x p. sb_info (snd (f x p)) = None \<longleftrightarrow> sb_info (snd p) = None"
  shows "sb_info (snd (fold f xs p)) = None \<longleftrightarrow> sb_info (snd p) = None"
  by (induction xs arbitrary: p) (simp_all add: assms)

lemma add_lock_kept:
  assumes "add_lock ls p = Some p'" "sb_info (snd p) \<noteq> None"
  shows "sb_info (snd p') \<noteq> None"
proof -
  have k: "sb_info (snd (addSignalResource True r b)) = None \<longleftrightarrow> sb_info b = None" for r b
    by (simp add: addSignalResource_def on_signal_kept)
  obtain rc r where "foldM set_lock_part ls (fst p, ResourceBuilder_init True) = Some (rc, r)"
    using assms(1) by (auto simp: add_lock_def)
  then have "p' = (if RC_IS_NOTOK rc then (rc, snd p) else addSignalResource True (rb_build r) (snd p))"
    using assms(1) by (simp add: add_lock_def)
  then show ?thesis using assms(2) k[of "rb_build r" "snd p"] by (simp split: if_splits)
qed

lemma foldM_kept:
  assumes "\<And>x p p'. f x p = Some p' \<Longrightarrow> sb_info (snd p) \<noteq> None \<Longrightarrow> sb_info (snd p') \<noteq> None"
  shows "foldM f xs p = Some p' \<Longrightarrow> sb_info (snd p) \<noteq> None \<Longrightarrow> sb_info (snd p') \<noteq> None"
proof (induction xs arbitrary: p)
  case (Cons x xs)
  then show ?case by (cases "f x p") (auto dest: assms)
qed simp

lemma set_part_kept:
  assumes "set_part pe x p = Some p'" "sb_info (snd p) \<noteq> None"
  shows "sb_info (snd p') \<noteq> None"
proof (cases x)
  case (Plain f)
  then show ?thesis using assms fold_kept[of "set_signal_field pe" "field_values f" p, OF set_signal_field_kept] by auto
next
  case (Attrs kvs)
  have "sb_info (snd ((\<lambda>kv (rc, b). set_signal_field pe kv (rc, markExtraAttrsPresent b)) kv q)) = None \<longleftrightarrow> sb_info (snd q) = None" for kv q
    by (cases q) (simp add: set_signal_field_kept markExtraAttrsPresent_def)
  from fold_kept[of "\<lambda>kv (rc, b). set_signal_field pe kv (rc, markExtraAttrsPresent b)" kvs p, OF this] show ?thesis
    using assms Attrs by auto
next
  case (Locks rs)
  then show ?thesis using assms foldM_kept[of add_lock rs p p'] add_lock_kept by auto
qed

lemma signal_of_kept: "signal_of pe ps = Some (rc, b) \<Longrightarrow> sb_info b \<noteq> None"
  using foldM_kept[of "set_part pe" ps "(RC_SUCCESS, SignalInfoBuilder_init True)" "(rc, b)"] set_part_kept
  by (auto simp: signal_of_def SignalInfoBuilder_init_def)

lemma refused_signal:
  assumes "sb_info b \<noteq> None"
  shows "fst (setSignalCategory ''0'' b) = RC_SUCCESS"
    "registerSignal (build_signal (snd (setSignalCategory ''0'' b))) sr = sr"
proof -
  have "stoi ''0'' = Some 0" by code_simp
  with assms show "fst (setSignalCategory ''0'' b) = RC_SUCCESS"
    "registerSignal (build_signal (snd (setSignalCategory ''0'' b))) sr = sr"
    by (auto simp: setSignalCategory_def on_signal_def build_signal_def registerSignal_malformed)
qed

lemma signal_end:
  assumes "in_signal l rc (Some b) ks" "sb_info b \<noteq> None"
  shows "\<exists>l'. signal_step pe (\<lambda>_. True) MappingEnd l s =
      Some (Go l', s\<lparr>cs_signals := (if RC_IS_OK rc then registerSignal (build_signal b) (cs_signals s) else cs_signals s)\<rparr>) \<and>
    in_signal l' RC_SUCCESS None ks"
  using assms(1) refused_signal[OF assms(2)]
  by (cases "setSignalCategory ''0'' b"; cases "rc = RC_SUCCESS") (auto simp: in_signal_def signal_step_defs Let_def)

lemma no_end_in_signal: "StreamEnd \<notin> set (concat (map part_events ps))"
proof -
  have f: "StreamEnd \<notin> set (field_events f)" for f by (cases f) auto
  have "StreamEnd \<notin> set (lock_events p)" for p by (cases p) auto
  then have "StreamEnd \<notin> set (part_events p)" for p by (cases p) (auto simp: f attr_events_def)
  then show ?thesis by auto
qed

lemma drive_signals:
  assumes "in_signal l RC_SUCCESS None (''SignalConfigs'' # ks)" "list_all (list_all part_ok) es"
    and "register_signals pe es (cs_signals s) = Some sr"
  shows "drive (signal_step pe) sl_rc all_new i
      (concat (map signal_events es) @ [SequenceEnd, MappingEnd, OtherEvent, StreamEnd]) l s =
    Some (Inr (RC_SUCCESS, s\<lparr>cs_signals := sr\<rparr>))"
  using assms
proof (induction es arbitrary: l s i)
  case Nil
  then show ?case by (simp add: all_new_def in_signal_def signal_step_defs Let_def)
next
  case (Cons ps es)
  from Cons.prems(3) obtain rc b where b: "signal_of pe ps = Some (rc, b)"
    "register_signals pe es (if RC_IS_OK rc then registerSignal (build_signal b) (cs_signals s) else cs_signals s) = Some sr"
    by (cases "signal_of pe ps") auto
  define s' where "s' = s\<lparr>cs_signals := (if RC_IS_OK rc then registerSignal (build_signal b) (cs_signals s) else cs_signals s)\<rparr>"
  let ?k = "''SignalConfigs'' # ks"
  obtain l1 where l1: "signal_step pe (\<lambda>_. True) MappingStart l s = Some (Go l1, s)"
    "in_signal l1 RC_SUCCESS (Some (SignalInfoBuilder_init True)) ?k"
    using Cons.prems(1) by (auto simp: in_signal_def signal_step_defs Let_def)
  from parts_run[OF l1(2), of ps pe rc b s] b(1) Cons.prems(2) obtain l2 where
    l2: "run pe (concat (map part_events ps)) l1 s = Some (l2, s)" "in_signal l2 rc (Some b) ?k"
    by (auto simp: signal_of_def)
  from signal_end[OF l2(2) signal_of_kept[OF b(1)], of pe s] obtain l3 where
    l3: "signal_step pe (\<lambda>_. True) MappingEnd l2 s = Some (Go l3, s')" "in_signal l3 RC_SUCCESS None ?k"
    unfolding s'_def by blast
  have pre: "StreamEnd \<notin> set (signal_events ps)" "run pe (signal_events ps) l s = Some (l3, s')"
    using no_end_in_signal[of ps] by (auto simp: signal_events_def l1(1) l3(1) steps_append[OF l2(1)])
  have "cs_signals s' = (if RC_IS_OK rc then registerSignal (build_signal b) (cs_signals s) else cs_signals s)" by (simp add: s'_def)
  from Cons.IH[OF l3(2), of s'] this b(2) Cons.prems(2)
  show ?case by (simp add: drive_steps[of _ "signal_step pe" l s, OF pre]) (simp add: s'_def)
qed

lemma parse_signals:
  assumes "reads_file pe file (signal_file_events es)" "list_all (list_all part_ok) es"
    and "register_signals pe es (cs_signals s) = Some sr"
  shows "parse pe SIGNALS_CONFIG file s = Some (Inr (RC_SUCCESS, s\<lparr>cs_signals := sr\<rparr>))"
proof -
  obtain l1 where l1: "signal_step pe (\<lambda>_. True) MappingStart signal_locals_init s = Some (Go l1, s)"
    "in_signal l1 RC_SUCCESS None []"
    by (auto simp: in_signal_def signal_step_defs signal_locals_init_def)
  have "isKey ''SignalConfigs''" by (simp add: isKey_def yaml_keys_def)
  from signal_fields.on_key[OF l1(2) this, where pe = pe and s = s] obtain l2 where
    l2: "signal_step pe (\<lambda>_. True) (Scalar (Some ''SignalConfigs'')) l1 s = Some (Go l2, s)"
    "in_signal l2 RC_SUCCESS None [''SignalConfigs'']" by blast
  have o: "signal_step pe (\<lambda>_. True) OtherEvent l s = Some (Go l, s)" "signal_step pe (\<lambda>_. True) SequenceStart l s = Some (Go l, s)"
    for l by (simp_all add: signal_step_def)
  have "drive (signal_step pe) sl_rc all_new 0 (signal_file_events es) signal_locals_init s =
      Some (Inr (RC_SUCCESS, s\<lparr>cs_signals := sr\<rparr>))"
    using drive_signals[OF l2(2) assms(2,3)] l1(1) l2(1) by (simp add: signal_file_events_def all_new_def o)
  then show ?thesis using assms(1)
    by (simp add: parse_def parseSignalConfigYamlNode_def parse_file_def SETUP_LIBYAML_PARSING_def reads_file_def)
qed

end
