(* ===== verification/ConfiguredSignals.thy ===== *)
theory ConfiguredSignals
  imports SignalHandler SignalFile
begin

text \<open>
  From the signal file to the daemon: an entry that names permissions and resources, each resource
  with at most one list of values, is read without a fault, and what it registers has everything
  that the handling of a signal relies on.
\<close>

section \<open>Resources of an entry\<close>

fun is_values :: "lock_part \<Rightarrow> bool" where
  "is_values (LField k v) \<longleftrightarrow> False"
| "is_values (LValues vs) \<longleftrightarrow> True"

fun values_fit :: "lock_part \<Rightarrow> bool" where
  "values_fit (LField k v) \<longleftrightarrow> True"
| "values_fit (LValues vs) \<longleftrightarrow> length vs < 2 ^ 31"

definition lock_doc_ok :: "lock_part list \<Rightarrow> bool" where
  "lock_doc_ok ls \<longleftrightarrow> list_all values_fit ls \<and> length (filter is_values ls) \<le> 1"

definition first_readable :: "nat \<Rightarrow> resource \<Rightarrow> bool" where
  "first_readable n r \<longleftrightarrow> (\<forall>j<n. getValueAt r (word_of_nat j) \<noteq> None)"

lemma readable_first: "readable r \<longleftrightarrow> first_readable (nat (sint (mNumValues r))) r"
  by (auto simp: readable_def first_readable_def list_all_iff)

lemma resource_setter_effect:
  assumes "signal_resource_setter k = Some f" "f v (Some r) = (rc, ro)"
  shows "\<exists>r'. ro = Some r' \<and> mNumValues r' = mNumValues r \<and> mResValue r' = mResValue r"
proof -
  have "f = rb_setResCode \<or> f = rb_setResInfo"
    using map_of_SomeD[OF assms(1)[unfolded signal_resource_setter_def]] by auto
  with assms(2) show ?thesis
    by (auto simp: rb_setResCode_def rb_setResInfo_def setResCode_def setResInfo_def split: option.splits prod.splits if_splits)
qed

lemma same_values:
  assumes "mNumValues r' = mNumValues r" "mResValue r' = mResValue r"
  shows "res_ok r' = res_ok r" "readable r' = readable r"
  using assms by (simp_all add: res_ok_def readable_def getValueAt_def)

lemma add_values_spec:
  assumes "res_ok r" "allocated r" "sint (mNumValues r) = int (idx + length vs)" "rc = RC_SUCCESS \<Longrightarrow> first_readable idx r"
  shows "\<exists>rc' r'. add_values idx vs rc (Some r) = Some (rc', Some r') \<and> res_ok r' \<and> mNumValues r' = mNumValues r \<and>
    (rc' = RC_SUCCESS \<longrightarrow> readable r')"
  using assms
proof (induction vs arbitrary: idx rc r)
  case Nil
  then show ?case by (auto simp: readable_first)
next
  case (Cons v vs)
  show ?case
  proof (cases "rc = RC_SUCCESS")
    case False
    with Cons.IH[of r "Suc idx" rc] Cons.prems show ?thesis by simp
  next
    case True
    define val where "val = (if v = ''%d'' then Some NSIG_PLACEHOLDER else map_option word_of_int (stoi10 v))"
    show ?thesis
    proof (cases val)
      case None
      with True Cons.IH[of r "Suc idx" RC_INVALID_VALUE] Cons.prems show ?thesis by (simp add: rb_addValue_def val_def Let_def)
    next
      case (Some x)
      have in_idx: "in_values r (word_of_nat idx)" using Cons.prems(3) in_values_nat[of idx r] by simp
      from setValueAt_success[OF Cons.prems(1,2) in_idx] obtain r1 where
        r1: "setValueAt (word_of_nat idx) x r = Some (RC_SUCCESS, r1)" by blast
      have n1: "mNumValues r1 = mNumValues r" using setValueAt_frame[OF r1] by simp
      have al: "allocated r1" using r1 Cons.prems(2) in_idx
        by (auto simp: allocated_def setValueAt_def in_values_def split: if_splits res_union.splits option.splits)
      have "getValueAt r1 (word_of_nat j) \<noteq> None" if "j < Suc idx" for j
        using setValueAt_getValueAt[OF Cons.prems(1) in_idx r1, of "word_of_nat j"] Cons.prems(4)[OF True] that
        by (cases "j = idx") (auto simp: first_readable_def)
      then have f1: "first_readable (Suc idx) r1" by (simp add: first_readable_def)
      from Cons.IH[OF setValueAt_keeps_ok[OF r1 Cons.prems(1)] al, of "Suc idx" RC_SUCCESS] Cons.prems(3) f1 n1
      obtain rc' r' where "add_values (Suc idx) vs RC_SUCCESS (Some r1) = Some (rc', Some r')" "res_ok r'"
        "mNumValues r' = mNumValues r" "rc' = RC_SUCCESS \<longrightarrow> readable r'" by auto
      moreover have "rb_addValue (word_of_nat idx) v (Some r) = Some (RC_SUCCESS, Some r1)"
        using Some r1 by (auto simp: rb_addValue_def val_def Let_def split: if_splits)
      ultimately show ?thesis using True by simp
    qed
  qed
qed

lemma set_lock_part_spec:
  assumes "res_ok r" "rc = RC_SUCCESS \<longrightarrow> readable r" "values_fit p" "mNumValues r = 0 \<or> \<not> is_values p"
  shows "\<exists>rc' r'. set_lock_part p (rc, Some r) = Some (rc', Some r') \<and> res_ok r' \<and> (rc' = RC_SUCCESS \<longrightarrow> readable r') \<and>
    (\<not> is_values p \<longrightarrow> mNumValues r' = mNumValues r) \<and> (rc' = RC_SUCCESS \<longrightarrow> rc = RC_SUCCESS)"
proof (cases p)
  case (LField k v)
  show ?thesis
  proof (cases "rc = RC_SUCCESS \<and> signal_resource_setter k \<noteq> None")
    case True
    then obtain f where f: "signal_resource_setter k = Some f" by auto
    obtain rc' ro where s: "f v (Some r) = (rc', ro)" by fastforce
    from resource_setter_effect[OF f s] obtain r' where
      r': "ro = Some r'" "mNumValues r' = mNumValues r" "mResValue r' = mResValue r" by blast
    have "set_lock_part p (rc, Some r) = Some (rc', Some r')"
      using True s f r'(1) by (simp add: LField apply_setter_def add_to_builder_def)
    with same_values[OF r'(2,3)] r'(2) assms(1,2) True show ?thesis by auto
  next
    case False
    then have "set_lock_part p (rc, Some r) = Some (rc, Some r)"
      by (auto simp: LField apply_setter_def add_to_builder_def split: option.splits)
    with assms(1,2) show ?thesis by auto
  qed
next
  case (LValues vs)
  show ?thesis
  proof (cases "rc = RC_SUCCESS")
    case True
    let ?r = "setNumValues True (word_of_nat (length vs)) r"
    have z: "mNumValues r = 0" using assms(4) LValues by simp
    have n: "mNumValues ?r = word_of_nat (length vs)" by (simp add: setNumValues_def Let_def)
    have "allocated ?r" by (auto simp: allocated_def setNumValues_def Let_def)
    from add_values_spec[OF setNumValues_ok[OF assms(1) z] this, of 0 vs RC_SUCCESS] assms(3) LValues
    obtain rc' r' where "add_values 0 vs RC_SUCCESS (Some ?r) = Some (rc', Some r')" "res_ok r'"
      "rc' = RC_SUCCESS \<longrightarrow> readable r'" by (auto simp: n sint_small_nat first_readable_def)
    with True show ?thesis by (auto simp: LValues rb_setNumValues_def)
  next
    case False
    with assms show ?thesis by (auto simp: LValues)
  qed
qed

lemma set_lock_parts_spec:
  assumes "res_ok r" "rc = RC_SUCCESS \<longrightarrow> readable r" "list_all values_fit ls"
    and "length (filter is_values ls) \<le> (if mNumValues r = 0 then 1 else 0)"
  shows "\<exists>rc' r'. foldM set_lock_part ls (rc, Some r) = Some (rc', Some r') \<and> res_ok r' \<and> (rc' = RC_SUCCESS \<longrightarrow> lock_ok r') \<and>
    (rc' = RC_SUCCESS \<longrightarrow> rc = RC_SUCCESS)"
  using assms
proof (induction ls arbitrary: rc r)
  case Nil
  then show ?case by (auto simp: lock_ok_def)
next
  case (Cons p ls)
  have "mNumValues r = 0 \<or> \<not> is_values p" using Cons.prems(4) by (auto split: if_splits)
  from set_lock_part_spec[OF Cons.prems(1,2) _ this] Cons.prems(3) obtain rc1 r1 where
    r1: "set_lock_part p (rc, Some r) = Some (rc1, Some r1)" "res_ok r1" "rc1 = RC_SUCCESS \<longrightarrow> readable r1"
    "\<not> is_values p \<longrightarrow> mNumValues r1 = mNumValues r" "rc1 = RC_SUCCESS \<longrightarrow> rc = RC_SUCCESS" by auto
  have "length (filter is_values ls) \<le> (if mNumValues r1 = 0 then 1 else 0)"
    using Cons.prems(4) r1(4) by (auto split: if_splits)
  from Cons.IH[OF r1(2,3) _ this] Cons.prems(3) r1(1,5) show ?case by auto
qed

lemma lock_built:
  assumes "lock_doc_ok ls"
  shows "\<exists>rc' r. foldM set_lock_part ls (rc, ResourceBuilder_init True) = Some (rc', Some r) \<and>
    (rc' = RC_SUCCESS \<longrightarrow> rc = RC_SUCCESS \<and> lock_ok r)"
proof -
  have i: "readable Resource_init" "mNumValues Resource_init = 0" by (simp_all add: readable_def Resource_init_def)
  from assms have "list_all values_fit ls" "length (filter is_values ls) \<le> (if mNumValues Resource_init = 0 then 1 else 0)"
    by (simp_all add: lock_doc_ok_def i)
  from set_lock_parts_spec[OF Resource_init_ok _ this, of rc] i(1) show ?thesis by (auto simp: ResourceBuilder_init_def)
qed

section \<open>Signals of an entry\<close>

text \<open>What the parts of an entry do to the signal under construction.\<close>

lemma on_signal_effect:
  assumes "sb_info b = Some s" "\<And>s. P s (snd (g s))"
  shows "\<exists>s'. sb_info (snd (on_signal g b)) = Some s' \<and> P s s'"
  using assms by (simp add: on_signal_def)

definition keeps_parts :: "SignalInfo \<Rightarrow> SignalInfo \<Rightarrow> bool" where
  "keeps_parts s s' \<longleftrightarrow> mSignalResources s' = mSignalResources s \<and> (mPermissions s \<noteq> None \<longrightarrow> mPermissions s' \<noteq> None)"

lemma keeps_parts_refl [simp]: "keeps_parts s s"
  by (simp add: keeps_parts_def)

lemma keeps_parts_trans: "keeps_parts s s' \<Longrightarrow> keeps_parts s' s'' \<Longrightarrow> keeps_parts s s''"
  by (simp add: keeps_parts_def)

lemma signal_setter_effect:
  assumes "signal_setter pe al k = Some f" "sb_info b = Some s"
  shows "\<exists>s'. sb_info (snd (f v b)) = Some s' \<and> keeps_parts s s'"
proof -
  have "f \<in> {Signals.addTargetEnabled (pe_targetName pe), Signals.addTargetDisabled (pe_targetName pe), addPermission (al 0),
      addDerivative (al 0), setSignalID, setSignalCategory, setSignalType, Signals.setName, setTimeout, setIsEnabled,
      setFps, setHeight, setWidth, setMmSrc}"
    using map_of_SomeD[OF assms(1)[unfolded signal_setter_def]] by auto
  then show ?thesis
    by (elim insertE emptyE)
       (use assms(2) in \<open>simp_all add: Signals.addTargetEnabled_def Signals.addTargetDisabled_def addPermission_def
        addDerivative_def setSignalID_def setSignalCategory_def setSignalType_def Signals.setName_def setTimeout_def
        setIsEnabled_def setFps_def setHeight_def setWidth_def setMmSrc_def set_attr_def on_signal_def keeps_parts_def Let_def
        split: option.split\<close>)
qed

definition signal_part :: "(SignalInfo \<Rightarrow> bool) \<Rightarrow> ErrCode \<times> signal_builder \<Rightarrow> bool" where
  "signal_part P p \<longleftrightarrow> (\<exists>s. sb_info (snd p) = Some s \<and> P s)"

definition good_locks :: "SignalInfo \<Rightarrow> bool" where
  "good_locks s \<longleftrightarrow> (\<forall>rs. mSignalResources s = Some rs \<longrightarrow> list_all lock_ok (somes rs))"

text \<open>The properties that every part keeps.\<close>

definition kept_by_fields :: "(SignalInfo \<Rightarrow> bool) \<Rightarrow> bool" where
  "kept_by_fields P \<longleftrightarrow> (\<forall>s s'. keeps_parts s s' \<longrightarrow> P s \<longrightarrow> P s')"

lemma set_signal_field_effect:
  assumes "sb_info (snd p) = Some s"
  shows "\<exists>s'. sb_info (snd (set_signal_field pe kv p)) = Some s' \<and> keeps_parts s s'"
    and "fst (set_signal_field pe kv p) = RC_SUCCESS \<longrightarrow> fst p = RC_SUCCESS"
  using assms signal_setter_effect[of pe "\<lambda>_. True" "fst kv" _ "snd p" s "snd kv"]
  by (cases p; cases "signal_setter pe (\<lambda>_. True) (fst kv)";
      auto simp: set_signal_field_def apply_setter_def add_to_builder_def)+

text \<open>A step that keeps \<open>P\<close> and can only succeed from success.\<close>

definition sticky :: "(SignalInfo \<Rightarrow> bool) \<Rightarrow> (ErrCode \<times> signal_builder \<Rightarrow> (ErrCode \<times> signal_builder) option) \<Rightarrow> bool" where
  "sticky P f \<longleftrightarrow> (\<forall>p. signal_part P p \<longrightarrow>
     (\<exists>p'. f p = Some p' \<and> signal_part P p' \<and> (fst p' = RC_SUCCESS \<longrightarrow> fst p = RC_SUCCESS)))"

lemma stickyD: "sticky P f \<Longrightarrow> signal_part P p \<Longrightarrow>
   \<exists>p'. f p = Some p' \<and> signal_part P p' \<and> (fst p' = RC_SUCCESS \<longrightarrow> fst p = RC_SUCCESS)"
  unfolding sticky_def by blast

lemma sticky_foldM: "(\<And>x. x \<in> set xs \<Longrightarrow> sticky P (f x)) \<Longrightarrow> sticky P (foldM f xs)"
proof (induction xs)
  case Nil
  then show ?case by (auto simp: sticky_def)
next
  case (Cons x xs)
  show ?case unfolding sticky_def
  proof (intro allI impI)
    fix p assume "signal_part P p"
    have "sticky P (f x)" by (rule Cons.prems) simp
    from stickyD[OF this \<open>signal_part P p\<close>] obtain p1 where
      p1: "f x p = Some p1" "signal_part P p1" "fst p1 = RC_SUCCESS \<longrightarrow> fst p = RC_SUCCESS" by blast
    have "sticky P (foldM f xs)" by (rule Cons.IH) (use Cons.prems in simp)
    from stickyD[OF this p1(2)] p1 show "\<exists>p'. foldM f (x # xs) p = Some p' \<and> signal_part P p' \<and> (fst p' = RC_SUCCESS \<longrightarrow> fst p = RC_SUCCESS)"
      by auto
  qed
qed

lemma sticky_fold:
  assumes "\<And>x p. signal_part P p \<Longrightarrow> signal_part P (f x p) \<and> (fst (f x p) = RC_SUCCESS \<longrightarrow> fst p = RC_SUCCESS)"
  shows "sticky P (\<lambda>p. Some (fold f xs p))"
proof -
  have "signal_part P (fold f xs p) \<and> (fst (fold f xs p) = RC_SUCCESS \<longrightarrow> fst p = RC_SUCCESS)" if "signal_part P p" for p
    using that
  proof (induction xs arbitrary: p)
    case (Cons x xs)
    from assms[OF Cons.prems, of x] Cons.IH[of "f x p"] show ?case by simp
  qed simp
  then show ?thesis by (simp add: sticky_def del: split_paired_All)
qed

lemma field_sticky:
  assumes "kept_by_fields P" "signal_part P p"
  shows "signal_part P (set_signal_field pe kv p) \<and> (fst (set_signal_field pe kv p) = RC_SUCCESS \<longrightarrow> fst p = RC_SUCCESS)"
proof -
  obtain s where s: "sb_info (snd p) = Some s" "P s" using assms(2) by (auto simp: signal_part_def)
  from set_signal_field_effect[OF s(1), where pe = pe and kv = kv] s(2) assms(1) show ?thesis
    by (auto simp: signal_part_def kept_by_fields_def)
qed

lemma mark_part:
  assumes "kept_by_fields P" "signal_part P (rc, b)"
  shows "signal_part P (rc, markExtraAttrsPresent b)"
proof -
  from assms(2) obtain s where s: "sb_info b = Some s" "P s" by (auto simp: signal_part_def)
  have "keeps_parts s (s\<lparr>mHasExtraAttrs := True\<rparr>)" by (simp add: keeps_parts_def)
  with assms(1) s show ?thesis by (auto simp: signal_part_def kept_by_fields_def markExtraAttrsPresent_def)
qed

lemma add_lock_sticky:
  assumes "lock_doc_ok ls" "\<And>s r rs. P s \<Longrightarrow> lock_ok r \<Longrightarrow>
      P (s\<lparr>mSignalResources := Some ((case mSignalResources s of None \<Rightarrow> [] | Some rs \<Rightarrow> rs) @ [Some r])\<rparr>)"
  shows "sticky P (add_lock ls)"
  unfolding sticky_def
proof (intro allI impI)
  fix p assume p: "signal_part P p"
  from lock_built[OF assms(1), of "fst p"] obtain rc r where
    r: "foldM set_lock_part ls (fst p, ResourceBuilder_init True) = Some (rc, Some r)"
    "rc = RC_SUCCESS \<longrightarrow> fst p = RC_SUCCESS \<and> lock_ok r" by blast
  obtain s where s: "sb_info (snd p) = Some s" "P s" using p by (auto simp: signal_part_def)
  let ?s = "s\<lparr>mSignalResources := Some ((case mSignalResources s of None \<Rightarrow> [] | Some rs \<Rightarrow> rs) @ [Some r])\<rparr>"
  have "addSignalResource True (rb_build (Some r)) (snd p) = (RC_SUCCESS, (snd p)\<lparr>sb_info := Some ?s\<rparr>)"
    using s(1) by (auto simp: addSignalResource_def on_signal_def rb_build_def split: option.split)
  then have "add_lock ls p = Some (if rc = RC_SUCCESS then (RC_SUCCESS, (snd p)\<lparr>sb_info := Some ?s\<rparr>) else (rc, snd p))"
    using r(1) by (simp add: add_lock_def)
  moreover have "rc = RC_SUCCESS \<Longrightarrow> P ?s" using assms(2)[OF s(2)] r(2) by blast
  ultimately show "\<exists>p'. add_lock ls p = Some p' \<and> signal_part P p' \<and> (fst p' = RC_SUCCESS \<longrightarrow> fst p = RC_SUCCESS)"
    using s p r(2) by (cases "rc = RC_SUCCESS") (auto simp: signal_part_def)
qed

section \<open>Entries that can be used\<close>

definition closed_under_locks :: "(SignalInfo \<Rightarrow> bool) \<Rightarrow> bool" where
  "closed_under_locks P \<longleftrightarrow> (\<forall>s r. P s \<longrightarrow> lock_ok r \<longrightarrow>
     P (s\<lparr>mSignalResources := Some ((case mSignalResources s of None \<Rightarrow> [] | Some rs \<Rightarrow> rs) @ [Some r])\<rparr>))"

fun part_fits :: "part \<Rightarrow> bool" where
  "part_fits (Plain f) \<longleftrightarrow> True"
| "part_fits (Attrs kvs) \<longleftrightarrow> True"
| "part_fits (Locks rs) \<longleftrightarrow> list_all lock_doc_ok rs"

lemma set_part_sticky:
  assumes "kept_by_fields P" "closed_under_locks P" "part_fits x"
  shows "sticky P (set_part pe x)"
proof (cases x)
  case (Plain f)
  have "sticky P (\<lambda>p. Some (fold (set_signal_field pe) (field_values f) p))"
    by (rule sticky_fold) (rule field_sticky[OF assms(1)])
  then show ?thesis by (simp add: Plain sticky_def)
next
  case (Attrs kvs)
  have "sticky P (\<lambda>p. Some (fold (\<lambda>kv (rc, b). set_signal_field pe kv (rc, markExtraAttrsPresent b)) kvs p))"
  proof (rule sticky_fold)
    fix kv p assume "signal_part P p"
    then show "signal_part P ((\<lambda>(rc, b). set_signal_field pe kv (rc, markExtraAttrsPresent b)) p) \<and>
      (fst ((\<lambda>(rc, b). set_signal_field pe kv (rc, markExtraAttrsPresent b)) p) = RC_SUCCESS \<longrightarrow> fst p = RC_SUCCESS)"
      using field_sticky[OF assms(1) mark_part[OF assms(1)], of "fst p" "snd p" pe kv] by (cases p) simp
  qed
  then show ?thesis by (simp add: Attrs sticky_def)
next
  case (Locks rs)
  have "sticky P (foldM add_lock rs)"
  proof (rule sticky_foldM)
    fix ls assume "ls \<in> set rs"
    then have "lock_doc_ok ls" using assms(3) Locks by (simp add: list_all_iff)
    then show "sticky P (add_lock ls)" by (rule add_lock_sticky) (use assms(2) in \<open>simp add: closed_under_locks_def\<close>)
  qed
  then show ?thesis by (simp add: Locks sticky_def)
qed

definition has_permissions :: "SignalInfo \<Rightarrow> bool" where "has_permissions s \<longleftrightarrow> mPermissions s \<noteq> None"
definition has_locks :: "SignalInfo \<Rightarrow> bool" where "has_locks s \<longleftrightarrow> mSignalResources s \<noteq> None"

lemma kept_parts:
  "kept_by_fields (\<lambda>_. True)" "kept_by_fields good_locks" "kept_by_fields has_permissions" "kept_by_fields has_locks"
  "closed_under_locks (\<lambda>_. True)" "closed_under_locks good_locks" "closed_under_locks has_permissions" "closed_under_locks has_locks"
  by (auto simp: kept_by_fields_def keeps_parts_def closed_under_locks_def good_locks_def has_permissions_def
      has_locks_def somes_def split: option.splits)

definition names_permission :: "part \<Rightarrow> bool" where
  "names_permission x \<longleftrightarrow> (case x of Plain (Listed k (v # vs)) \<Rightarrow> k = ''Permissions'' | _ \<Rightarrow> False)"

definition names_lock :: "part \<Rightarrow> bool" where
  "names_lock x \<longleftrightarrow> (case x of Locks (ls # rs) \<Rightarrow> True | _ \<Rightarrow> False)"

lemma permission_named:
  assumes "signal_part (\<lambda>_. True) p" "names_permission x" "set_part pe x p = Some p'" "fst p' = RC_SUCCESS"
  shows "signal_part has_permissions p'"
proof -
  from assms(2) obtain v vs where x: "x = Plain (Listed ''Permissions'' (v # vs))"
    by (auto simp: names_permission_def split: part.splits field.splits list.splits)
  let ?p = "set_signal_field pe (''Permissions'', v) p"
  have p': "p' = fold (set_signal_field pe) (map (Pair ''Permissions'') vs) ?p" using assms(3) by (simp add: x)
  have rest: "sticky P (\<lambda>p. Some (fold (set_signal_field pe) (map (Pair ''Permissions'') vs) p))" if "kept_by_fields P" for P
    by (rule sticky_fold) (rule field_sticky[OF that])
  have t: "signal_part (\<lambda>_. True) ?p" "fst ?p = RC_SUCCESS \<longrightarrow> fst p = RC_SUCCESS"
    using field_sticky[OF kept_parts(1) assms(1), of pe "(''Permissions'', v)"] by auto
  have "fst p = RC_SUCCESS" using stickyD[OF rest[OF kept_parts(1)] t(1)] t(2) assms(4) p' by auto
  moreover obtain s where "sb_info (snd p) = Some s" using assms(1) by (auto simp: signal_part_def)
  ultimately have "signal_part has_permissions ?p"
    by (cases p) (auto simp: signal_part_def set_signal_field_def apply_setter_def add_to_builder_def signal_setter_def
        addPermission_def on_signal_def has_permissions_def Let_def split: option.splits)
  from stickyD[OF rest[OF kept_parts(3)] this] show ?thesis by (simp add: p')
qed

lemma lock_named:
  assumes "signal_part (\<lambda>_. True) p" "names_lock x" "part_fits x" "set_part pe x p = Some p'" "fst p' = RC_SUCCESS"
  shows "signal_part has_locks p'"
proof -
  from assms(2) obtain ls rs where x: "x = Locks (ls # rs)"
    by (auto simp: names_lock_def split: part.splits list.splits)
  have fits: "lock_doc_ok ls" "part_fits (Locks rs)" using assms(3) x by auto
  from lock_built[OF fits(1), of "fst p"] obtain rc r where
    r: "foldM set_lock_part ls (fst p, ResourceBuilder_init True) = Some (rc, Some r)" by blast
  obtain s where s: "sb_info (snd p) = Some s" using assms(1) by (auto simp: signal_part_def)
  let ?p = "if rc = RC_SUCCESS then addSignalResource True (rb_build (Some r)) (snd p) else (rc, snd p)"
  have a: "add_lock ls p = Some ?p" using r by (simp add: add_lock_def)
  then have m: "set_part pe (Locks rs) ?p = Some p'" using assms(4) by (simp add: x)
  have "signal_part (\<lambda>_. True) ?p"
    using s by (auto simp: signal_part_def addSignalResource_def on_signal_def rb_build_def split: option.splits)
  from stickyD[OF set_part_sticky[OF kept_parts(1,5) fits(2)] this] m assms(5) have "fst ?p = RC_SUCCESS"
    by (metis option.inject set_part.simps(3))
  then have "rc = RC_SUCCESS" by (cases "rc = RC_SUCCESS") simp_all
  then have "signal_part has_locks ?p"
    using s by (auto simp: signal_part_def addSignalResource_def on_signal_def rb_build_def has_locks_def split: option.splits)
  from stickyD[OF set_part_sticky[OF kept_parts(4,8) fits(2)] this] m show ?thesis by auto
qed

text \<open>An entry that names what a signal needs.\<close>

definition entry_ready :: "part list \<Rightarrow> bool" where
  "entry_ready ps \<longleftrightarrow> list_all part_fits ps \<and> list_ex names_permission ps \<and> list_ex names_lock ps"

lemma established:
  assumes "kept_by_fields P" "closed_under_locks P" "list_all part_fits ps" "list_ex Q ps"
    and est: "\<And>p x p'. signal_part (\<lambda>_. True) p \<Longrightarrow> Q x \<Longrightarrow> part_fits x \<Longrightarrow> set_part pe x p = Some p' \<Longrightarrow>
      fst p' = RC_SUCCESS \<Longrightarrow> signal_part P p'"
    and run: "foldM (set_part pe) ps p = Some p'" "signal_part (\<lambda>_. True) p" "fst p' = RC_SUCCESS"
  shows "signal_part P p'"
proof -
  obtain x where "x \<in> set ps" "Q x" using assms(4) by (auto simp: list_ex_iff)
  then obtain xs ys where ps: "ps = xs @ x # ys" by (meson split_list)
  have fits: "\<And>y. y \<in> set ps \<Longrightarrow> part_fits y" using assms(3) by (simp add: list_all_iff)
  have st: "sticky R (foldM (set_part pe) zs)" if "set zs \<subseteq> set ps" "kept_by_fields R" "closed_under_locks R" for R zs
    by (rule sticky_foldM) (use set_part_sticky[OF that(2,3)] fits that(1) in blast)
  have sub: "set xs \<subseteq> set ps" "set ys \<subseteq> set ps" using ps by auto
  from stickyD[OF st[OF sub(1) kept_parts(1,5)] run(2)] obtain p1 where
    p1: "foldM (set_part pe) xs p = Some p1" "signal_part (\<lambda>_. True) p1" by blast
  have "part_fits x" using fits ps by simp
  from stickyD[OF set_part_sticky[OF kept_parts(1,5) this] p1(2)] obtain p2 where
    p2: "set_part pe x p1 = Some p2" "signal_part (\<lambda>_. True) p2" by blast
  have rest: "foldM (set_part pe) ys p2 = Some p'" using run(1) p1(1) p2(1) by (simp add: ps foldM_append)
  from stickyD[OF st[OF sub(2) kept_parts(1,5)] p2(2)] rest run(3) have "fst p2 = RC_SUCCESS" by auto
  from est[OF p1(2) \<open>Q x\<close> \<open>part_fits x\<close> p2(1) this] have "signal_part P p2" .
  from stickyD[OF st[OF sub(2) assms(1,2)] this] rest show ?thesis by auto
qed

lemma signal_of_usable:
  assumes "entry_ready ps"
  obtains rc b where "signal_of pe ps = Some (rc, b)" "rc = RC_SUCCESS \<Longrightarrow> \<exists>s. sb_info b = Some s \<and> usable s"
proof -
  let ?p = "(RC_SUCCESS, SignalInfoBuilder_init True)"
  have st: "sticky P (foldM (set_part pe) ps)" if "kept_by_fields P" "closed_under_locks P" for P
    by (rule sticky_foldM) (use set_part_sticky[OF that] assms in \<open>auto simp: entry_ready_def list_all_iff\<close>)
  have i: "signal_part (\<lambda>_. True) ?p" "signal_part good_locks ?p"
    by (simp_all add: signal_part_def SignalInfoBuilder_init_def good_locks_def)
  from stickyD[OF st[OF kept_parts(2,6)] i(2)] obtain p' where
    p': "foldM (set_part pe) ps ?p = Some p'" "signal_part good_locks p'" by blast
  have f: "list_all part_fits ps" "list_ex names_permission ps" "list_ex names_lock ps"
    using assms by (simp_all add: entry_ready_def)
  have "\<exists>s. sb_info (snd p') = Some s \<and> usable s" if "fst p' = RC_SUCCESS"
  proof -
    have "signal_part has_permissions p'"
      using established[OF kept_parts(3,7) f(1,2) _ p'(1) i(1) that] permission_named by blast
    moreover have "signal_part has_locks p'"
      using established[OF kept_parts(4,8) f(1,3) _ p'(1) i(1) that] lock_named by blast
    ultimately show ?thesis using p'(2)
      by (auto simp: signal_part_def usable_def has_permissions_def has_locks_def good_locks_def)
  qed
  then show ?thesis using that[of "fst p'" "snd p'"] p'(1) by (simp add: signal_of_def)
qed

section \<open>The registry after reading a file\<close>

lemma registry_usable_init: "registry_usable SignalRegistry_init"
  by (simp add: registry_usable_def SignalRegistry_init_inv) (simp add: SignalRegistry_init_def)

lemma registry_usable_conf:
  "registry_usable sr \<longleftrightarrow> sig_inv sr \<and> (\<forall>key. (\<forall>s. mSignalInfo (conf_at key sr) = Some s \<longrightarrow> usable s) \<and>
     (\<forall>s\<in>set (mFeatureSignals (conf_at key sr)). usable s))"
  by (force simp: registry_usable_def conf_at_def SignalConf_init_def split: option.splits)

lemma registry_usable_register:
  assumes "registry_usable sr" "usable s"
  shows "registry_usable (registerSignal (Some s) sr)"
proof (cases "mSignalCategory s = 0")
  case True
  with assms(1) show ?thesis by (simp add: registerSignal_malformed)
next
  case False
  have inv: "sig_inv sr" using assms(1) by (simp add: registry_usable_def)
  obtain conf' dup where u: "updated_conf s (conf_at (signalBitmap s) sr) = (conf', dup)" by fastforce
  note spec = updated_conf_spec[OF u conf_at_inv(3)[OF inv]]
  have at: "conf_at k (registerSignal (Some s) sr) = (if k = signalBitmap s then conf' else conf_at k sr)" for k
    by (simp add: register_conf[OF False u] conf_at_def)
  have "(\<forall>x. mSignalInfo conf' = Some x \<longrightarrow> usable x) \<and> (\<forall>x\<in>set (mFeatureSignals conf'). usable x)"
    using spec assms by (auto simp: registry_usable_conf split: if_splits)
  then show ?thesis using registerSignal_inv[OF inv] assms(1) by (auto simp: registry_usable_conf at)
qed

lemma register_signals_usable:
  assumes "list_all entry_ready es" "registry_usable sr"
  shows "\<exists>sr'. register_signals pe es sr = Some sr' \<and> registry_usable sr'"
  using assms
proof (induction es arbitrary: sr)
  case (Cons ps es)
  from Cons.prems(1) have "entry_ready ps" by simp
  from signal_of_usable[OF this, of pe] obtain rc b where
    b: "signal_of pe ps = Some (rc, b)" "rc = RC_SUCCESS \<longrightarrow> (\<exists>s. sb_info b = Some s \<and> usable s)" by blast
  have "registry_usable (if RC_IS_OK rc then registerSignal (build_signal b) sr else sr)"
    using b(2) Cons.prems(2) registry_usable_register by (auto simp: build_signal_def)
  from Cons.IH[OF _ this] Cons.prems(1) b(1) show ?case by simp
qed simp

end
