(* ===== verification/Failures.thy ===== *)
theory Failures
  imports ServerReach
begin

text \<open>
  The two paths on which the daemon breaks: a timer that cannot be started, after which
  \<^verbatim>\<open>CocoTable::insertRequest\<close> answers that it failed although the nodes stay in the table, and the
  caller frees them; and a retune of a request in the table that has no timer, whose null pointer
  \<^verbatim>\<open>CocoTable::updateRequest\<close> follows.
\<close>

section \<open>A link read after its node was freed\<close>

text \<open>
  \<^verbatim>\<open>Request::clearResources\<close> under the rule that memory may not be read once it was returned: it fails at the first
  node. \<open>release_request\<close> is the same loop under the rule of the pools of this program, which leave the
  contents of a returned block alone until they hand it out again.
\<close>

lemma strict_step: "dl_iterate k (\<lambda>s. s) (\<lambda>a h. Some (h(a := None))) (Some a) h = None"
  by (subst dl_iterate.simps) (simp add: getNextPtr_def)

lemma cleanUp_strict:
  assumes "req_list h req xs"
  shows "cleanUpRequest h (Some req) = (if xs = [] then Some (h, mTimer req) else None)"
proof (cases "mResourceList req")
  case (Some l)
  with assms have "dl_list h l xs" by (simp add: req_list_def)
  then have "mHead l = first_ptr xs None" by (simp add: dl_list_def)
  with Some show ?thesis
    by (cases xs) (simp_all add: cleanUpRequest_def clearResources_def strict_step dl_iterate.simps[of _ _ _ None])
qed (use assms in \<open>simp add: req_list_def cleanUpRequest_def clearResources_def\<close>)

lemma active_release:
  assumes "daemon_inv env sv" "map_of (mActiveRequests (sv_rm sv)) h = Some (a, s)"
  shows "\<exists>req xs sv'. sv_objs sv a = Some req \<and> list_nodes (c_heap (sv_coco sv)) req = Some xs \<and>
    cleanUpRequest (c_heap (sv_coco sv)) (Some req) = (if xs = [] then Some (c_heap (sv_coco sv), mTimer req) else None) \<and>
    release_request a sv = Some sv' \<and> sv_objs sv' a = None \<and> (\<forall>n\<in>set xs. c_heap (sv_coco sv') n = None)"
proof -
  from assms(1) obtain T W U P where "core_inv env sv T W U P" by (auto simp: daemon_inv_def server_inv_def)
  then obtain L where i: "objects sv (T @ W @ U @ P)" "ledger (sv_objs sv) (sv_rm sv) (fst ` set T) (fst ` set W)"
    by (rule core_invE)
  from ledger_entry[OF i(2) assms(2)] have "a \<in> fst ` set T \<union> fst ` set W" by (auto split: if_splits)
  then have "\<exists>xs. (a, xs) \<in> set (T @ W @ U @ P)" by fastforce
  then obtain xs where "(a, xs) \<in> set (T @ W @ U @ P)" by blast
  with i(1) obtain req where req: "sv_objs sv a = Some req" "req_list (c_heap (sv_coco sv)) req xs"
    unfolding objects_def req_ok_def by blast
  show ?thesis using req(1) list_nodes_req_list[OF req(2)] cleanUp_strict[OF req(2)]
    by (auto simp: release_request_def Let_def free_nodes_def log_event_def split: option.split)
qed

section \<open>A list with a freed node\<close>

text \<open>Where a node of a list has been freed, the fields of the list describe no list any more.\<close>

lemma dseg_freed:
  assumes "\<And>a. h' a = (if a \<in> F then None else h a)"
  shows "dseg h k p xs None \<Longrightarrow> dseg h' k p ys None \<Longrightarrow> first_ptr xs None = first_ptr ys None \<Longrightarrow> set xs \<inter> F = {}"
proof (induction xs arbitrary: p ys)
  case (Cons x xs)
  then obtain zs where ys: "ys = x # zs" by (cases ys) auto
  with Cons.prems have l: "links h' x k = Some (p, first_ptr zs None)" "dseg h' k (Some x) zs None" by auto
  then have x: "x \<notin> F" using assms[of x] by (auto simp: links_def)
  then have "h' x = h x" using assms[of x] by simp
  then have "links h' x k = links h x k" by (simp add: links_def)
  with l(1) Cons.prems(1) have "first_ptr xs None = first_ptr zs None" by simp
  with Cons.IH[of "Some x" zs] Cons.prems(1) l(2) x show ?case by simp
qed simp

lemma dl_list_freed:
  assumes "dl_list h m xs" "n \<in> set xs" "n \<in> set fs"
  shows "\<not> dl_list (free_nodes fs h) m ys"
proof
  assume "dl_list (free_nodes fs h) m ys"
  with assms(1) have "set xs \<inter> set fs = {}"
    by (intro dseg_freed[of "free_nodes fs h" "set fs" h "mLinkerInUse m" None xs ys]) (auto simp: dl_list_def free_nodes_def)
  with assms(2,3) show False by blast
qed

section \<open>A timer that cannot be started\<close>

lemma not_started:
  assumes "getDuration req \<noteq> -1" "insertRequest env (Some t) False (Some req) st = Some (b, ro, st')"
  shows "\<not> b"
  using assms by (auto simp: insertRequest_def Let_def finish_insert_def setTimer_def getDuration_def unsetTimer_def getResDlMgr_def
      split: option.splits if_splits)

text \<open>A round that takes a request from the queue consumes it.\<close>

lemma round_consumes:
  assumes "next_request ch sv = Some (a, req)" "hasPendingTasks (sv_queue sv)"
  shows "sv_objs sv a = Some req"
    and "\<exists>q. consumer_round env ch sv = map_option Again (consume_request env ch a (sv\<lparr>sv_queue := q\<rparr>))"
proof -
  from assms(1) obtain q where q: "pop (ch_tie ch) (sv_objs sv) (sv_queue sv) = Some (Some (QRequest a), q)"
    "sv_objs sv a = Some req" "getPriority req \<noteq> SERVER_CLEANUP_TRIGGER_PRIORITY"
    by (auto simp: next_request_def split: option.splits queue_item.splits if_splits)
  show "sv_objs sv a = Some req" by (rule q(2))
  have "sint (getPriority req) \<noteq> sint SERVER_CLEANUP_TRIGGER_PRIORITY" using q(3) signed_word_eqI by blast
  then show "\<exists>q. consumer_round env ch sv = map_option Again (consume_request env ch a (sv\<lparr>sv_queue := q\<rparr>))"
    using q assms(2) by (intro exI[of _ q]) (simp add: consumer_round_def item_priority_def)
qed

lemma next_pending: "queue_inv (sv_objs sv) (sv_queue sv) \<Longrightarrow> next_request ch sv = Some (a, req) \<Longrightarrow> hasPendingTasks (sv_queue sv)"
  by (auto simp: next_request_def pop_def hasPendingTasks_def queue_inv_def split: if_splits option.splits list.splits)

lemma strand_tune:
  assumes inv: "core_inv env sv T W U P" and m: "(a, xs) \<in> set W" and req: "sv_objs sv a = Some req"
    and nc: "\<not> has_flag (getRequestProcessingStatus (getHandle req) (sv_rm sv)) REQ_CANCELLED"
    and t: "getDuration req \<noteq> -1" "ch_timer_block ch = Some t" "\<not> ch_start_ok ch"
    and n: "n \<in> set xs" "dl_data (c_heap (sv_coco sv)) n = Some r"
      "slot (se_coco env) (sv_coco sv) r (sint (getPriority req)) = Some (p, s)"
  shows "\<exists>sv'. consume_tune env ch a req sv = Some sv' \<and> sv_objs sv' a = None \<and>
    map_of (mActiveRequests (sv_rm sv')) (getHandle req) = None \<and>
    (\<forall>ys. \<not> dl_list (c_heap (sv_coco sv')) (cell (sv_coco sv') p s) ys)"
proof -
  from inv obtain L where i: "good_env (se_coco env)" "objects sv (T @ W @ U @ P)"
    "sys_inv (se_coco env) (sv_coco sv, tune_objs (sv_objs sv) T) L" "waiting sv W"
    "ledger (sv_objs sv) (sv_rm sv) (fst ` set T) (fst ` set W)" "clients_ok (sv_clients sv)" by (rule core_invE)
  have ci: "coco_inv (se_coco env) (sv_coco sv) L" using i(3) by (rule sys_invE)
  have nd: "request_nodes (sv_coco sv) req xs" using i(4) m req by (auto simp: waiting_def)
  have aW: "a \<in> fst ` set W" using m by force
  then have nT: "a \<notin> fst ` set T" using place_disjoint[OF i(2)] by blast
  from ledgerD[OF i(5) _ place_disjoint[OF i(2)] req] aW nT obtain s0 where
    s0: "map_of (mActiveRequests (sv_rm sv)) (getHandle req) = Some (a, s0)" "\<not> has_flag s0 REQ_COMPLETED" by auto
  have dis: "set xs \<inter> set (active_nodes (tune_objs (sv_objs sv) T)) = {}"
  proof -
    obtain us vs where W: "W = us @ (a, xs) # vs" using m by (auto simp: in_set_conv_decomp)
    show ?thesis using i(2) unfolding objects_def W by auto
  qed
  have out: "\<forall>n\<in>set xs. outside (sv_coco sv) L n" using dis outside_inactive[OF i(3)] by blast
  from insertRequest_inserted[OF i(1) ci nd out, of "Some t" False] obtain b req' cs L' where
    ins: "insertRequest (se_coco env) (Some t) False (Some req) (sv_coco sv) = Some (b, Some req', cs)"
    "inserted (se_coco env) (sv_coco sv) L (sint (getPriority req)) xs cs L'" "mResourceList req' = mResourceList req"
    "message.truncate req' = message.truncate req" by blast
  have nb: "\<not> b" by (rule not_started[OF t(1) ins(1)])
  have r: "coco_inv (se_coco env) cs L'" "same_shape (sv_coco sv) cs" "at_slot (se_coco env) cs L' (sint (getPriority req)) n"
    and fr: "dl_frame COCO_TABLE_DL_NR UNIV (c_heap (sv_coco sv)) (c_heap cs)"
    using ins(2) n(1) by (auto simp: inserted_def)
  have v: "valid_cell cs p s" using slot_SomeD[OF i(1) ci n(3)] shape_valid[OF r(2)] by metis
  have "dl_data (c_heap cs) n = Some r" using fr n(2) by (simp add: dl_frame_def)
  moreover have "slot (se_coco env) cs r (sint (getPriority req)) = Some (p, s)" using n(3) slot_shape[OF r(2)] by simp
  ultimately have nL: "n \<in> set (L' p s)" using r(3) v by (auto simp: at_slot_def)
  have dl: "dl_list (c_heap cs) (cell cs p s) (L' p s)" using r(1) v by (auto simp: coco_inv_def coco_rel_def)
  have hd: "getHandle req' = getHandle req" using ins(4) by (simp add: message_getters message.defs)
  have "req_list (c_heap cs) req' xs"
    using frame_request_nodes[OF fr nd] ins(3) by (simp add: request_nodes_def req_list_def)
  then have ln: "list_nodes (c_heap cs) req' = Some xs" by (rule list_nodes_req_list)
  obtain cd where cd: "deleteRequestByClientId (getClientTID req') (getHandle req') (sv_clients sv) = Some cd"
    using deleteRequestByClientId_ok[OF i(6)] by blast
  let ?rm = "markRequestAsComplete (getHandle req) (sv_rm sv)"
  define rm where "rm = ?rm\<lparr>mActiveRequests := AList.delete (getHandle req) (mActiveRequests ?rm)\<rparr>"
  define st where "st = (let st = cs\<lparr>c_heap := free_nodes xs (c_heap cs)\<rparr>
    in case mTimer req' of None \<Rightarrow> st | Some t \<Rightarrow> log_event (TimerFree t) st)"
  define sv' where "sv' = sv\<lparr>sv_rm := rm, sv_clients := cd, sv_objs := (sv_objs sv)(a := None), sv_coco := st\<rparr>"
  have "getRequestProcessingStatus (getHandle req) (sv_rm sv) = s0" using s0(1) by (simp add: getRequestProcessingStatus_def)
  with nc s0(2) have "consume_tune env ch a req sv = Some sv'"
    using ins(1) nb t(2,3) cd ln hd
    by (simp add: consume_tune_def Let_def drop_request_def RequestManager.removeRequest_def release_request_def
        sv'_def rm_def st_def)
  moreover have "map_of (mActiveRequests rm) (getHandle req) = None" by (simp add: rm_def delete_conv')
  moreover have "c_heap st = free_nodes xs (c_heap cs)" "cell st p s = cell cs p s"
    by (simp_all add: st_def Let_def cell_def log_event_def split: option.split)
  then have "\<forall>ys. \<not> dl_list (c_heap st) (cell st p s) ys" using dl_list_freed[OF dl nL n(1)] by simp
  ultimately show ?thesis by (intro exI[of _ sv']) (simp add: sv'_def)
qed

lemma failed_start:
  assumes "daemon_inv env sv" "next_request ch sv = Some (a, req)" "getRequestType req = REQ_RESOURCE_TUNING"
    and nc: "\<not> has_flag (getRequestProcessingStatus (getHandle req) (sv_rm sv)) REQ_CANCELLED"
    and t: "getDuration req \<noteq> -1" "ch_timer_block ch = Some t" "\<not> ch_start_ok ch"
    and n: "list_nodes (c_heap (sv_coco sv)) req = Some xs" "n \<in> set xs" "dl_data (c_heap (sv_coco sv)) n = Some r"
      "slot (se_coco env) (sv_coco sv) r (sint (getPriority req)) = Some (p, s)"
  shows "\<exists>sv'. consumer_round env ch sv = Some (Again sv') \<and> sv_objs sv' a = None \<and>
    map_of (mActiveRequests (sv_rm sv')) (getHandle req) = None \<and>
    (\<forall>ys. \<not> dl_list (c_heap (sv_coco sv')) (cell (sv_coco sv') p s) ys)"
proof -
  from assms(1) obtain T W U P where inv: "server_inv env sv T W U P" by (auto simp: daemon_inv_def)
  then have core: "core_inv env sv T W U P" and que: "queued sv (W @ U)" by (auto simp: server_inv_def)
  have qi: "queue_inv (sv_objs sv) (sv_queue sv)" by (rule server_queue_inv[OF inv])
  note c = round_consumes[OF assms(2) next_pending[OF qi assms(2)]]
  from assms(2) have "QRequest a \<in> set (mOrderedQueue (sv_queue sv))"
    using pop_inv(2)[OF qi] by (fastforce simp: next_request_def split: option.splits queue_item.splits if_splits
        dest!: arg_cong[where f = set_mset])
  with queued_mem[OF que] obtain ys where ys: "(a, ys) \<in> set (W @ U)" by blast
  have "(a, ys) \<notin> set U" using core assms(3) c(1) by (auto simp: core_inv_def others_def)
  with ys have aW: "(a, ys) \<in> set W" by simp
  have "req_list (c_heap (sv_coco sv)) req ys"
    using core aW c(1) by (fastforce simp: core_inv_def waiting_def request_nodes_def)
  with n(1) list_nodes_req_list have ys_xs: "ys = xs" by fastforce
  from c(2) obtain q where q: "consumer_round env ch sv = map_option Again (consume_request env ch a (sv\<lparr>sv_queue := q\<rparr>))" by blast
  have "core_inv env (sv\<lparr>sv_queue := q\<rparr>) T W U P" using core by simp
  from strand_tune[OF this, of a xs req ch t n r p s] aW ys_xs nc t n c(1)
  show ?thesis unfolding q using assms(3) c(1) by (auto simp: consume_request_def)
qed

section \<open>A retune without a timer\<close>

lemma untimed_retune:
  assumes "daemon_inv env sv" "next_request ch sv = Some (a, req)" "getRequestType req = REQ_RESOURCE_RETUNING"
    and "map_of (mActiveRequests (sv_rm sv)) (getHandle req) = Some (b, s)" "has_flag s REQ_COMPLETED"
    and "sv_objs sv b = Some tune" "getTimer tune = None" "\<not> turned_down (getDuration req) tune"
  shows "consumer_round env ch sv = None"
proof -
  from assms(1) obtain T W U P where inv: "server_inv env sv T W U P" by (auto simp: daemon_inv_def)
  have "sv_objs sv a = Some req"
    using assms(2) by (auto simp: next_request_def split: option.splits queue_item.splits if_splits)
  then have "\<not> retune_ok sv a" using assms(3-8) unfolding retune_ok_def by blast
  with assms(2) show ?thesis by (intro untimed_retune_faults[OF inv]) (auto simp: retune_timed_def)
qed

end
