(* ===== verification/Samples.thy ===== *)
theory Samples
  imports CocoReach ClientAPI
begin

text \<open>
  A small concrete system for the witnesses: one registered resource of the whole system, for which
  higher values are better, and two tune requests for it, a high priority one with value 300 and a
  low priority one with value 700.
\<close>

definition sample_conf :: ResConfInfo where
  "sample_conf = \<lparr>mResourceName = ''RES_SCHED_UTIL_CLAMP_MIN'', mResourcePath = ''/proc/sys/kernel/sched_util_clamp_min'',
     mResourceResType = 3, mResourceResID = 0, mHighThreshold = 1024, mLowThreshold = 0,
     mPermissions = PERMISSION_THIRD_PARTY, mModes = MODE_RESUME, mApplyType = APPLY_GLOBAL, mPolicy = HIGHER_BETTER,
     mUnit = 1, mResourceApplierCallback = None, mResourceTearCallback = None\<rparr>"

text \<open>Every file holds two lines, the first of which is the default.\<close>

definition sample_world :: world where
  "sample_world = \<lparr>contents = (\<lambda>_. Some (''0'' @ [newline] @ ''rest'')), opens = (\<lambda>_. True), entries = (\<lambda>_. None),
     mkdir = (\<lambda>_. MkdirOk), written = []\<rparr>"

definition sample_renv :: registry_env where
  "sample_renv = \<lparr>env_world = sample_world, path_of_int = (\<lambda>p _. p), path_of_name = (\<lambda>p _. p),
     env_clusterIDs = [0], env_cGroupNames = [], env_coreCount = 4\<rparr>"

definition sample_registry :: resource_registry where
  "sample_registry = (case registerResource sample_renv (Some sample_conf) ResourceRegistry_init of
     None \<Rightarrow> ResourceRegistry_init | Some rr \<Rightarrow> rr)"

definition sample_code :: u32 where "sample_code = 196608"

definition sample_env :: coco_env where
  "sample_env = \<lparr>ce_registry = sample_registry, ce_mode = MODE_RESUME\<rparr>"

definition sample_resource :: "i32 \<Rightarrow> resource" where
  "sample_resource v = \<lparr>mResCode = sample_code, mResInfo = 0, mOptionalInfo = 0, mNumValues = 1,
     mResValue = Values (Some v) (Some 0), mResAction = RES_FORWARD\<rparr>"

definition sample_node :: "i32 \<Rightarrow> resource dl_node" where
  "sample_node v = \<lparr>nd_next = (\<lambda>_. None), nd_prev = (\<lambda>_. None), mData = sample_resource v\<rparr>"

definition sample_heap :: res_heap where
  "sample_heap = [1 \<mapsto> sample_node 300, 2 \<mapsto> sample_node 700]"

definition sample_list :: "addr \<Rightarrow> resource dl_manager" where
  "sample_list a = \<lparr>mHead = Some a, mTail = Some a, mLinkerInUse = 0, mSize = 1, mRank = 0,
     mAscPolicy = None, mDescPolicy = None\<rparr>"

definition sample_request :: "i32 \<Rightarrow> addr \<Rightarrow> request" where
  "sample_request prio a = \<lparr>mHandle = 7, mDuration = -1, mProperties = prio, mClientPID = 100, mClientTID = 101,
     mReqType = REQ_RESOURCE_TUNING, mTimer = None, mResourceList = Some (sample_list a), mSource = 0\<rparr>"

definition sample_state :: coco_state where
  "sample_state = CocoTable_init sample_registry [0] [] 4 1 0 sample_heap"

lemma sample_conf_code: "resourceBitmap sample_conf = sample_code"
  by (simp add: resourceBitmap_def sample_conf_def sample_code_def)

lemma sample_registry_spec:
  "reg_inv sample_registry"
  "getResConf sample_registry k = (if k = sample_code then Some (setLifeCycleCallbacks sample_conf) else None)"
proof -
  have "mResourceResType sample_conf \<noteq> 0" by (simp add: sample_conf_def)
  from registerResource_spec[OF ResourceRegistry_init_inv this, of sample_renv] obtain rr where
    r: "registerResource sample_renv (Some sample_conf) ResourceRegistry_init = Some rr" "reg_inv rr"
    "\<And>k. getResConf rr k = (if k = resourceBitmap sample_conf then Some (setLifeCycleCallbacks sample_conf)
       else getResConf ResourceRegistry_init k)" by blast
  then have s: "sample_registry = rr" by (simp add: sample_registry_def)
  show "reg_inv sample_registry" by (simp add: s r(2))
  show "getResConf sample_registry k = (if k = sample_code then Some (setLifeCycleCallbacks sample_conf) else None)"
  proof -
    have "getResConf ResourceRegistry_init k = None" by (simp add: ResourceRegistry_init_def getResConf_def)
    then show ?thesis by (simp only: s r(3) sample_conf_code)
  qed
qed

lemma sample_env_good: "good_env sample_env"
  by (simp add: good_env_def sample_env_def sample_registry_spec setLifeCycleCallbacks_def sample_conf_def)

lemma sample_managed:
  "getResConf (ce_registry sample_env) sample_code = Some (setLifeCycleCallbacks sample_conf)"
  "managed sample_env (setLifeCycleCallbacks sample_conf)"
  by (simp_all add: sample_env_def sample_registry_spec managed_def setLifeCycleCallbacks_def sample_conf_def MODE_RESUME_def)

lemma sample_state_inv: "coco_inv sample_env sample_state (\<lambda>_ _. [])"
  using CocoTable_init_inv[of sample_env] by (simp add: sample_env_def sample_state_def sample_registry_spec)

lemma sample_state_heap: "c_heap sample_state = sample_heap"
  by (simp add: sample_state_def CocoTable_init_def)

lemma sample_request_nodes:
  assumes "dl_data (c_heap st) a = Some (sample_resource v)" "links (c_heap st) a 0 = Some (None, None)"
    and "prio \<in> {0, 1, 2, 3}"
  shows "request_nodes st (sample_request prio a) [a]"
proof -
  have "node_for st a (sample_resource v)"
    using assms(1) by (simp add: node_for_def comparable_def sample_resource_def
        compared_value_def getValuesCount_def getValueAt_def inline_value_def)
  moreover have "dl_list (c_heap st) (sample_list a) [a]"
    using assms(2) by (simp add: dl_list_def sample_list_def)
  moreover have "sint (getPriority (sample_request prio a)) = uint prio"
    using assms(3) by (auto simp: getPriority_def sample_request_def)
  ultimately show ?thesis using assms(3)
    by (auto simp: request_nodes_def req_list_def sample_request_def sample_list_def REQUEST_DL_NR_def)
qed

lemma sample_low_nodes: "request_nodes sample_state (sample_request 1 2) [2]"
  by (rule sample_request_nodes[of _ _ 700])
    (simp_all add: sample_state_heap sample_heap_def dl_data_def links_def sample_node_def)

text \<open>The low priority request first, then the high priority one.\<close>

definition sample_insert :: "i32 \<Rightarrow> addr \<Rightarrow> coco_state \<Rightarrow> (request \<times> coco_state) option" where
  "sample_insert prio a st =
     (case insertRequest sample_env None True (Some (sample_request prio a)) st of
        Some (True, Some r, st') \<Rightarrow> Some (r, st') | _ \<Rightarrow> None)"

lemma sample_insertD:
  "sample_insert prio a st = Some (r, st') \<Longrightarrow>
     insertRequest sample_env None True (Some (sample_request prio a)) st = Some (True, Some r, st')"
  by (auto simp: sample_insert_def split: option.splits bool.splits)

definition sample_run :: "(active \<times> coco_state) option" where
  "sample_run = do {
     (r1, st1) \<leftarrow> sample_insert 1 2 sample_state;
     (r2, st2) \<leftarrow> sample_insert 0 1 st1;
     Some ([(r2, [1]), (r1, [2])], st2) }"

lemma sample_mid:
  "map_option (\<lambda>(r, st). (dl_data (c_heap st) 1, links (c_heap st) 1 0)) (sample_insert 1 2 sample_state) =
     Some (Some (sample_resource 300), Some (None, None))"
  by code_simp

definition sample_trace :: "coco_event list" where
  "sample_trace = [CallApply DefaultGlobalCb (sample_resource 300), CallApply DefaultGlobalCb (sample_resource 700)]"

lemma sample_run_trace: "map_option (\<lambda>(A, st). c_trace st) sample_run = Some sample_trace"
  by code_simp

lemma sample_reach_trace:
  "\<exists>r1 r2 st. coco_reach sample_env (sample_state, []) (st, [(r2, [1]), (r1, [2])]) \<and> c_trace st = sample_trace"
proof -
  from sample_run_trace obtain r1 st1 r2 st2 where s: "sample_insert 1 2 sample_state = Some (r1, st1)"
    "sample_insert 0 1 st1 = Some (r2, st2)" "c_trace st2 = sample_trace"
    by (auto simp: sample_run_def bind_eq_Some_conv)
  have "coco_step sample_env (sample_state, []) (st1, [(r1, [2])])"
    by (rule coco_step.tune[OF sample_low_nodes _ sample_insertD[OF s(1)]]) simp
  moreover have "request_nodes st1 (sample_request 0 1) [1]"
    by (rule sample_request_nodes[of _ _ 300]) (use sample_mid s(1) in simp_all)
  then have "coco_step sample_env (st1, [(r1, [2])]) (st2, [(r2, [1]), (r1, [2])])"
    by (rule coco_step.tune[OF _ _ sample_insertD[OF s(2)]]) simp
  ultimately show ?thesis using s(3) by (meson reach_start reach_step)
qed

lemma sample_reach:
  "\<exists>r1 r2 st. coco_reach sample_env (sample_state, []) (st, [(r2, [1]), (r1, [2])]) \<and>
     in_effect sample_code (c_trace st) = Some (sample_resource 300)"
proof -
  have "in_effect sample_code sample_trace = Some (sample_resource 300)"
    by (simp add: sample_trace_def sample_resource_def)
  with sample_reach_trace show ?thesis by metis
qed

section \<open>A client and the blocks of the server\<close>

definition sample_net :: net where
  "sample_net = \<lparr>conn_ok = True, send_ok = True, reply = Some (7 # replicate 63 0)\<rparr>"

definition sample_sys_resources :: "sys_resource list" where
  "sample_sys_resources =
     [\<lparr>sr_code = sample_code, sr_info = 0, sr_opt = 0, sr_num = 1, sr_value = SysValue 300\<rparr>,
      \<lparr>sr_code = 65538, sr_info = 0, sr_opt = 0, sr_num = 3, sr_value = SysValues [1, 2, 3]\<rparr>]"

definition sample_alloc :: alloc_source where
  "sample_alloc = \<lparr>iter_block = (\<lambda>i. Some (10 + i)), res_block = (\<lambda>_. True), val_array = (\<lambda>_. True),
     list_block = (\<lambda>_. True)\<rparr>"

lemma sample_alloc_ok: "alloc_ok sample_alloc is (\<lambda>i. 10 + i) Map.empty"
  by (simp add: alloc_ok_def sample_alloc_def inj_on_def)

lemma sample_handle: "readHandleHelper sample_net = 7"
  by (simp add: readHandleHelper_def sample_net_def) code_simp

lemma sample_tune_sends:
  "\<exists>buf. tuneResources sample_net batch 100 101 5000 1 2 (Some sample_sys_resources) = Some (7, Some buf)"
  unfolding sample_handle[symmetric]
  by (rule tuneResources_sends) (simp_all add: sample_sys_resources_def sample_net_def sys_readable_def sys_valid_def
      sys_values_def tune_size_def REQ_BUFFER_SIZE_def maxResPerReq_def sendMsgHelper_def res_image_def wire_of_def
      sample_code_def)

definition sample_signal :: signal where
  "sample_signal = \<lparr>mHandle = 0, mDuration = 0, mProperties = 0, mClientPID = 0, mClientTID = 0, mReqType = 0,
     mSignalCode = 0, mSignalType = 0, mAppName = [], mScenario = [], mNumArgs = 0, mListArgs = None\<rparr>"

text \<open>A message of 580 bytes whose header promises 36 resources.\<close>

definition sample_overrun :: "u8 list" where
  "sample_overrun = le_bytes 1 MOD_RESTUNE @ le_bytes 1 REQ_RESOURCE_TUNING @ le_bytes 8 (0 :: i64) @ le_bytes 8 (-1 :: i64) @
     le_bytes 4 (36 :: i32) @ le_bytes 4 (1 :: i32) @ le_bytes 4 (100 :: i32) @ le_bytes 4 (101 :: i32) @ replicate 546 0"

end
