(* ===== verification/ServerSamples.thy ===== *)
theory ServerSamples
  imports Failures Samples
begin

text \<open>
  A small daemon for the witnesses: it starts with one registered resource and receives one tune
  message of a new client.
\<close>

definition sample_server_env :: server_env where
  "sample_server_env = \<lparr>se_coco = sample_env, se_maxConcurrentRequests = 60,
     se_rate = \<lparr>mDelta = 5, mPenaltyFactor = 2, mRewardFactor = 1\<rparr>, se_rounding = (\<lambda>x. x)\<rparr>"

definition sample_server :: server where
  "sample_server = server_init sample_server_env [0] [] 4 1 0 target_empty"

definition sample_arrival :: arrival where
  "sample_arrival = \<lparr>ar_now = 1000, ar_permission = PERMISSION_THIRD_PARTY, ar_tid_block = True, ar_info_block = True\<rparr>"

definition sample_message :: "u8 list" where
  "sample_message = req_image REQ_RESOURCE_TUNING 0 (-1) 1 100 101 [\<lparr>w_code = sample_code, w_info = 0, w_opt = 0, w_vals = [300]\<rparr>]"

definition sample_received :: "server option" where
  "sample_received = submitResProvisionReqMsg sample_server_env sample_arrival sample_alloc
     (Some (1, sample_request 0 0)) sample_message 7 sample_server"

definition sample_choices :: "nat \<Rightarrow> choice" where
  "sample_choices i = \<lparr>ch_tie = 0, ch_timer_block = None, ch_start_ok = True\<rparr>"

definition sample_consumed :: "server option" where
  "sample_consumed = Option.bind sample_received (orderedQueueConsumerHook sample_server_env sample_choices 0)"

lemma sample_alloc_fresh: "alloc_fresh sample_alloc is Map.empty"
  by (simp add: alloc_fresh_def sample_alloc_def)

lemma sample_server_parts:
  "sv_objs sample_server = Map.empty" "c_heap (sv_coco sample_server) = Map.empty"
  "mActiveRequests (sv_rm sample_server) = []" "sv_target sample_server = target_empty"
  by (simp_all add: sample_server_def server_init_def CocoTable_init_def RequestManager_init_def)

lemma sample_target_ok: "target_ok target_empty"
  by (simp add: target_ok_def target_empty_def)

lemma sample_server_env_good: "good_env (se_coco sample_server_env)"
  by (simp add: sample_server_env_def sample_env_good)

lemma sample_message_decodes:
  "Request_deserialize sample_alloc sample_message Map.empty (Request_init (sample_request 0 0)) \<noteq> None"
proof -
  have "map_option (\<lambda>x. fst x) (Request_deserialize sample_alloc sample_message Map.empty (Request_init (sample_request 0 0)))
      = Some RC_SUCCESS" by code_simp
  then show ?thesis by auto
qed

lemma sample_receivable: "receivable sample_arrival sample_alloc 1 (sample_request 0 0) sample_message 7 sample_server"
  using sample_message_decodes by (simp add: receivable_def sample_server_parts sample_alloc_fresh sample_arrival_def)

lemma sample_received_map:
  "map_option (\<lambda>sv. (mActiveRequests (sv_rm sv), mOrderedQueue (sv_queue sv))) sample_received = Some ([(7, 1, 1)], [QRequest 1])"
  by code_simp

lemma sample_received_type:
  "map_option (\<lambda>sv. map_option (\<lambda>r. (getRequestType r, getPriority r)) (sv_objs sv 1)) sample_received
     = Some (Some (REQ_RESOURCE_TUNING, 3))"
  by code_simp

lemma sample_consumed_map:
  "map_option (\<lambda>sv. (mActiveRequests (sv_rm sv), in_effect sample_code (c_trace (sv_coco sv)))) sample_consumed
     = Some ([(7, 1, 5)], Some (sample_resource 300\<lparr>mResValue := Values (Some 300) (Some 0)\<rparr>))"
  by code_simp

lemma sample_tune_round:
  assumes "sample_received = Some sv1"
  shows "mOrderedQueue (sv_queue sv1) = [QRequest 1]"
    and "\<exists>r. sv_objs sv1 1 = Some r \<and> getRequestType r = REQ_RESOURCE_TUNING \<and> getPriority r = 3"
    and "no_trigger sv1" "next_request ch sv1 = Some (a, r) \<Longrightarrow> getRequestType r = REQ_RESOURCE_TUNING"
proof -
  show q: "mOrderedQueue (sv_queue sv1) = [QRequest 1]" using sample_received_map[unfolded assms] by simp
  from sample_received_type[unfolded assms] obtain r1 where r1: "sv_objs sv1 1 = Some r1"
    "getRequestType r1 = REQ_RESOURCE_TUNING" "getPriority r1 = 3" by auto
  then show "\<exists>r. sv_objs sv1 1 = Some r \<and> getRequestType r = REQ_RESOURCE_TUNING \<and> getPriority r = 3" by blast
  show "no_trigger sv1" using q r1 by (simp add: no_trigger_def item_priority_def SERVER_CLEANUP_TRIGGER_PRIORITY_def)
  show "getRequestType r = REQ_RESOURCE_TUNING" if "next_request ch sv1 = Some (a, r)"
    using that q r1 by (auto simp: next_request_def pop_def Let_def min_positions_def
        split: option.splits list.splits queue_item.splits if_splits)
qed

lemma sample_retune_timed: "sample_received = Some sv1 \<Longrightarrow> retune_timed ch sv1"
  using sample_tune_round(4) by (fastforce simp: retune_timed_def retune_ok_def next_request_def
      REQ_RESOURCE_TUNING_def REQ_RESOURCE_RETUNING_def split: option.splits queue_item.splits if_splits)

lemma sample_rounds_timed:
  assumes "sample_received = Some sv1" "after_rounds sample_server_env sample_choices j sv1 = Some sv"
  shows "retune_timed (sample_choices j) sv"
proof (cases j)
  case 0
  with assms sample_retune_timed show ?thesis by simp
next
  case (Suc i)
  have "length (mOrderedQueue (sv_queue sv1)) = 1" using sample_tune_round(1)[OF assms(1)] by simp
  then have "mOrderedQueue (sv_queue sv) = []" using rounds_bounded[OF assms(2)] Suc by simp
  then show ?thesis by (auto simp: retune_timed_def next_request_def pop_def split: option.splits)
qed

lemma sample_choices_start: "ch_start_ok (sample_choices i)"
  by (simp add: sample_choices_def)

lemma sample_server_inv: "daemon_inv sample_server_env sample_server"
  using server_init_reach_inv[OF sample_server_env_good sample_target_ok daemon_start] by (simp add: sample_server_def)

lemma sample_daemon:
  "\<exists>sv1 sv2. sample_received = Some sv1 \<and> sample_consumed = Some sv2 \<and>
     daemon_reach sample_server_env sample_server sv1 \<and> daemon_reach sample_server_env sample_server sv2 \<and> no_trigger sv1"
proof -
  from sample_received_map obtain sv1 where s1: "sample_received = Some sv1" by auto
  have "daemon_step sample_server_env sample_server sv1"
    by (rule daemon_step.receive[OF sample_receivable]) (use s1 in \<open>simp add: sample_received_def\<close>)
  then have d1: "daemon_reach sample_server_env sample_server sv1" by (meson daemon_start daemon_more)
  have i1: "daemon_inv sample_server_env sv1" by (rule daemon_reach_inv[OF d1 sample_server_inv])
  from daemon_drains[where chs = sample_choices, OF i1 sample_choices_start] sample_rounds_timed[OF s1] obtain sv2 where
    s2: "orderedQueueConsumerHook sample_server_env sample_choices 0 sv1 = Some sv2" "daemon_reach sample_server_env sv1 sv2" by blast
  have "daemon_reach sample_server_env sample_server sv2" using s2(2) d1
    by (induction rule: daemon_reach.induct) (auto intro: daemon_more)
  moreover have "sample_consumed = Some sv2" by (simp add: sample_consumed_def s1 s2(1))
  ultimately show ?thesis using s1 d1 sample_tune_round(3) by blast
qed

section \<open>The daemon breaks\<close>

text \<open>The client retunes its request, which has no timer.\<close>

definition sample_retune :: "u8 list" where
  "sample_retune = req_image REQ_RESOURCE_RETUNING 7 500 1 100 101 []"

definition sample_no_blocks :: alloc_source where
  "sample_no_blocks = sample_alloc\<lparr>iter_block := (\<lambda>_. None)\<rparr>"

definition sample_retuned :: "server option" where
  "sample_retuned = Option.bind sample_consumed (submitResProvisionReqMsg sample_server_env (sample_arrival\<lparr>ar_now := 5000\<rparr>)
     sample_no_blocks (Some (3, sample_request 0 0)) sample_retune 8)"

text \<open>A request for a second, whose timer cannot be started.\<close>

definition sample_second :: "u8 list" where
  "sample_second = req_image REQ_RESOURCE_TUNING 0 1000 1 100 101 [\<lparr>w_code = sample_code, w_info = 0, w_opt = 0, w_vals = [300]\<rparr>]"

definition sample_pending :: "server option" where
  "sample_pending = submitResProvisionReqMsg sample_server_env sample_arrival sample_alloc
     (Some (1, sample_request 0 0)) sample_second 7 sample_server"

definition sample_broken :: choice where
  "sample_broken = \<lparr>ch_tie = 0, ch_timer_block = Some 50, ch_start_ok = False\<rparr>"

lemma sample_retuned_next:
  "map_option (\<lambda>sv. map_option (\<lambda>(a, r). (a, getRequestType r, getDuration r, getHandle r)) (next_request (sample_choices 0) sv)) sample_retuned
     = Some (Some (3, REQ_RESOURCE_RETUNING, 500, 7))"
  by code_simp

lemma sample_retuned_tune:
  "map_option (\<lambda>sv. (map_of (mActiveRequests (sv_rm sv)) 7, map_option (\<lambda>r. (getTimer r, getDuration r)) (sv_objs sv 1))) sample_retuned
     = Some (Some (1, 5), Some (None, -1))"
  by code_simp

lemma sample_consumed_objs:
  "map_option (\<lambda>sv. (case sv_objs sv 3 of None \<Rightarrow> True | Some _ \<Rightarrow> False, map_of (mActiveRequests (sv_rm sv)) 8)) sample_consumed
     = Some (True, None)"
  by code_simp

lemma sample_retune_decodes:
  "Request_deserialize sample_no_blocks sample_retune h (Request_init (sample_request 0 0)) \<noteq> None"
proof -
  have "map_option (\<lambda>x. fst x) (Request_deserialize sample_no_blocks sample_retune h (Request_init (sample_request 0 0)))
      = Some RC_SUCCESS" by code_simp
  then show ?thesis by auto
qed

lemma sample_second_decodes:
  "Request_deserialize sample_alloc sample_second Map.empty (Request_init (sample_request 0 0)) \<noteq> None"
proof -
  have "map_option (\<lambda>x. fst x) (Request_deserialize sample_alloc sample_second Map.empty (Request_init (sample_request 0 0)))
      = Some RC_SUCCESS" by code_simp
  then show ?thesis by auto
qed

lemma sample_pending_next:
  "map_option (\<lambda>sv. map_option (\<lambda>(a, r). (a, getRequestType r, getDuration r, getHandle r, getPriority r,
      getRequestProcessingStatus (getHandle r) (sv_rm sv), list_nodes (c_heap (sv_coco sv)) r)) (next_request sample_broken sv)) sample_pending
     = Some (Some (1, REQ_RESOURCE_TUNING, 1000, 7, 3, 1, Some [10]))"
  by code_simp

lemma sample_pending_node:
  "map_option (\<lambda>sv. map_option (\<lambda>r. slot sample_env (sv_coco sv) r 3) (dl_data (c_heap (sv_coco sv)) 10)) sample_pending
     = Some (Some (Some (0, 3)))"
  by code_simp

lemma sample_broken_effect:
  "map_option (\<lambda>sv. map_option (\<lambda>r. map_option (\<lambda>x. getValueAt x 0) (in_effect sample_code (c_trace (sv_coco (next_state r)))))
      (consumer_round sample_server_env sample_broken sv)) sample_pending = Some (Some (Some (Some 300)))"
  by code_simp

lemma sample_pending_reach:
  "\<exists>sv. sample_pending = Some sv \<and> daemon_reach sample_server_env sample_server sv"
proof -
  from sample_pending_next obtain sv where s: "sample_pending = Some sv" by auto
  have "receivable sample_arrival sample_alloc 1 (sample_request 0 0) sample_second 7 sample_server"
    using sample_second_decodes by (simp add: receivable_def sample_server_parts sample_alloc_fresh sample_arrival_def)
  from daemon_step.receive[OF this] s have "daemon_step sample_server_env sample_server sv" by (simp add: sample_pending_def)
  with s show ?thesis by (meson daemon_start daemon_more)
qed

lemma sample_retuned_reach:
  "\<exists>sv. sample_retuned = Some sv \<and> daemon_reach sample_server_env sample_server sv"
proof -
  from sample_daemon obtain sv2 where s2: "sample_consumed = Some sv2" "daemon_reach sample_server_env sample_server sv2" by blast
  from sample_retuned_next obtain sv where s: "sample_retuned = Some sv" by auto
  have "sv_objs sv2 3 = None" "map_of (mActiveRequests (sv_rm sv2)) 8 = None"
    using sample_consumed_objs[unfolded s2(1)] by (simp_all split: option.splits)
  then have "receivable (sample_arrival\<lparr>ar_now := 5000\<rparr>) sample_no_blocks 3 (sample_request 0 0) sample_retune 8 sv2"
    using sample_retune_decodes by (simp add: receivable_def sample_arrival_def alloc_fresh_def sample_no_blocks_def)
  from daemon_step.receive[OF this] s[unfolded sample_retuned_def s2(1)]
  have "daemon_step sample_server_env sv2 sv" by simp
  with s s2(2) show ?thesis by (meson daemon_more)
qed

lemma sample_untimed:
  assumes "sample_retuned = Some sv"
  shows "\<not> retune_timed (sample_choices 0) sv"
proof -
  from sample_retuned_next[unfolded assms] obtain r where r: "next_request (sample_choices 0) sv = Some (3, r)"
    "getRequestType r = REQ_RESOURCE_RETUNING" "getDuration r = 500" "getHandle r = 7" by auto
  then have o: "sv_objs sv 3 = Some r" by (auto simp: next_request_def split: option.splits queue_item.splits if_splits)
  from sample_retuned_tune[unfolded assms] obtain t where t: "map_of (mActiveRequests (sv_rm sv)) 7 = Some (1, 5)"
    "sv_objs sv 1 = Some t" "getTimer t = None" "getDuration t = -1" by auto
  have "has_flag (5 :: i8) REQ_COMPLETED" by code_simp
  moreover have "\<not> turned_down (getDuration r) t" by (simp add: turned_down_def r t)
  ultimately have "\<not> retune_ok sv 3" using o r t unfolding retune_ok_def by metis
  with r(1) show ?thesis by (auto simp: retune_timed_def)
qed

lemma sample_consumed_nodes:
  "map_option (\<lambda>sv. map_option (list_nodes (c_heap (sv_coco sv))) (sv_objs sv 1)) sample_consumed = Some (Some (Some [10]))"
  by code_simp

end
