(* ===== verification/SignalSamples.thy ===== *)
theory SignalSamples
  imports ServerSamples SignalHandler Properties
begin

text \<open>A registry with one signal, whose one resource takes its value from the arguments, for the witnesses.\<close>

definition sample_lock :: resource where
  "sample_lock = sample_resource NSIG_PLACEHOLDER"

definition sample_config :: SignalInfo where
  "sample_config = \<lparr>mSignalCategory = 1, mSignalID = 2, mSigType = 0, mSignalName = ''open'', mTimeout = 500,
     mPermissions = Some [PERMISSION_THIRD_PARTY], mDerivatives = None, mExtraAttrs = [0, 0, 0, 0],
     mHasExtraAttrs = False, mSignalResources = Some [Some sample_lock]\<rparr>"

definition sample_variant :: "u32 \<Rightarrow> SignalInfo" where
  "sample_variant fps = sample_config\<lparr>mExtraAttrs := [fps, 1080, 1920, 0], mHasExtraAttrs := True\<rparr>"

definition sample_signals :: signal_registry where
  "sample_signals = registerSignal (Some sample_config) SignalRegistry_init"

definition sample_signal_env :: signal_env where
  "sample_signal_env = \<lparr>sg_registry = sample_signals, sg_features = ExtFeaturesRegistry_init, sg_open = (\<lambda>_. None)\<rparr>"

definition sample_signal_message :: "u8 list" where
  "sample_signal_message = concat (signal_chunks REQ_SIGNAL_TUNING 65538 0 0 (-1) [97] [98] 1 1 100 101 [300])"

lemma sample_lock_ok: "lock_ok sample_lock"
  by (simp add: lock_ok_def res_ok_def readable_def sample_lock_def sample_resource_def getValueAt_def inline_value_def)

lemma sample_usable: "usable sample_config"
  by (simp add: usable_def sample_config_def sample_lock_ok)

lemma sample_bitmap: "signalBitmap sample_config = code_bitmap 65538 0"
  by (simp add: signalBitmap_def code_bitmap_def sample_config_def)

lemma sample_signals_usable: "registry_usable sample_signals"
proof -
  have "sig_inv sample_signals"
    by (simp add: sample_signals_def registerSignal_inv SignalRegistry_init_inv)
  then show ?thesis using sample_usable
    by (auto simp: registry_usable_def sample_signals_def registerSignal_eq updated_conf_def SignalRegistry_init_def
        SignalConf_init_def sample_config_def split: if_splits)
qed

definition sample_tune_signal :: signal where
  "sample_tune_signal = sample_signal\<lparr>mSignalCode := 65538, mSignalType := 0, mListArgs := Some [300], mNumArgs := 1\<rparr>"

lemma sample_lookup: "getSignalConfigByIdAndType 65538 0 0 None sample_signals = Some (Some sample_config, False)"
proof -
  have "sig_key sample_config = (code_bitmap 65538 0, None)" by (simp add: sig_key_def sample_bitmap) (simp add: sample_config_def)
  moreover have "mSignalCategory sample_config \<noteq> 0" by (simp add: sample_config_def)
  ultimately have "find_config (code_bitmap 65538 0, None) sample_signals = Some sample_config"
    using registerSignal_spec[OF SignalRegistry_init_inv, of sample_config] by (simp add: sample_signals_def)
  then show ?thesis by (simp add: lookup_plain)
qed

lemma sample_ready: "signals_ready sample_signal_env"
  by (simp add: signals_ready_def sample_signal_env_def sample_signals_usable feature_index_init)

lemma sample_signal_receivable:
  "signal_receivable sample_arrival sample_arrival sample_alloc (Some (1, sample_request 0 0)) 9 sample_server"
  by (simp add: signal_receivable_def sample_server_parts sample_alloc_fresh sample_arrival_def)
    (simp add: sample_alloc_def)

definition sample_signal_run :: "(server \<times> relay_call list) option" where
  "sample_signal_run = submitSignalRequest sample_server_env sample_signal_env sample_arrival sample_arrival sample_alloc
     (Some (1, sample_request 0 0)) (Some sample_signal) True sample_signal_message 9 sample_server"

lemma sample_signal_run_map:
  "map_option (\<lambda>(sv, calls). (mActiveRequests (sv_rm sv), mOrderedQueue (sv_queue sv), calls)) sample_signal_run
     = Some ([(9, 1, 1)], [QRequest 1], [])"
  by code_simp

end
