(* ===== verification/ConfigSamples.thy ===== *)
theory ConfigSamples
  imports ConfiguredSignals SignalSamples
begin

text \<open>Three small configuration files for the witnesses.\<close>

definition sample_resource_file :: "field list list" where
  "sample_resource_file =
     [[Single ''ResType'' ''0x03'', Single ''ResID'' ''1'', Single ''Name'' ''A'', Single ''Path'' ''/a'',
       Listed ''Modes'' [''display_on'', ''doze'']],
      [Single ''ResType'' ''0x03'', Single ''ResID'' ''2'', Single ''Supported'' ''false''],
      [Single ''ResType'' ''0x03'', Single ''ResID'' ''3'', Single ''Policy'' ''best_effort''],
      [Single ''ResType'' ''0x03'', Single ''ResID'' ''4'', Single ''Path'' ''/d'']]"

definition sample_signal_file :: "part list list" where
  "sample_signal_file =
     [[Plain (Single ''SigId'' ''2''), Plain (Single ''Category'' ''1''), Plain (Single ''Timeout'' ''500''),
       Plain (Listed ''Permissions'' [''third_party'']),
       Locks [[LField ''ResCode'' ''0x00030000'', LField ''ResInfo'' ''0'', LValues [''%d'']]]],
      [Plain (Single ''SigId'' ''3''), Plain (Single ''Category'' ''none''), Plain (Listed ''Permissions'' [''system'']),
       Locks [[LField ''ResCode'' ''0x00030000'', LValues [''7'', ''8'', ''9'']]]]]"

definition sample_property_file :: "(string \<times> string) list" where
  "sample_property_file = [(''urm.delta'', ''5''), (''urm.delta'', ''1000'')]"

definition sample_parse_env :: parse_env where
  "sample_parse_env = \<lparr>pe_fopen = (\<lambda>_. True), pe_parser_init = (\<lambda>_. True),
     pe_events = (\<lambda>file. if file = ''resources'' then file_events ''ResourceConfigs'' sample_resource_file
        else if file = ''signals'' then signal_file_events sample_signal_file
        else file_events ''PropertyConfigs'' (map property_fields sample_property_file)),
     pe_alloc = all_new, pe_targetName = ''board'', pe_path_of_int = (\<lambda>p _. p), pe_path_of_name = (\<lambda>p _. p),
     pe_baseCGroupPath = ''/sys/fs/cgroup/'', pe_journald_urm_conf = ''/j'', pe_configOptions = []\<rparr>"

definition sample_world :: world where
  "sample_world = \<lparr>contents = [''/a'' \<mapsto> ''42''], opens = (\<lambda>_. True), entries = (\<lambda>_. None),
     mkdir = (\<lambda>_. MkdirOk), written = []\<rparr>"

definition sample_config_state :: config_state where
  "sample_config_state = \<lparr>cs_registry = ResourceRegistry_init, cs_props = PropertiesRegistry_init,
     cs_target = target_empty, cs_world = sample_world, cs_signals = SignalRegistry_init,
     cs_features = ExtFeaturesRegistry_init, cs_apps = (\<lambda>_. None)\<rparr>"

lemma sample_reads:
  "reads_file sample_parse_env ''resources'' (file_events ''ResourceConfigs'' sample_resource_file)"
  "reads_file sample_parse_env ''signals'' (signal_file_events sample_signal_file)"
  "reads_file sample_parse_env ''properties'' (file_events ''PropertyConfigs'' (map property_fields sample_property_file))"
  by (simp_all add: reads_file_def sample_parse_env_def)

lemma sample_fields_ok: "list_all (list_all field_ok) sample_resource_file"
  by (simp add: sample_resource_file_def isKey_def yaml_keys_def isKeyTypeList_def)

lemma sample_parts_ok: "list_all (list_all part_ok) sample_signal_file"
  by (simp add: sample_signal_file_def isKey_def yaml_keys_def isKeyTypeList_def plain_key_def)

lemma sample_entries_ready: "list_all entry_ready sample_signal_file"
  by (simp add: sample_signal_file_def entry_ready_def lock_doc_ok_def names_permission_def names_lock_def)

lemma sample_until:
  "map_option (\<lambda>(rc, s). (rc, map mResourceName (mResourceConfigs (cs_registry s)), mDefaultValueStore (cs_registry s) ''/a''))
     (register_until sample_parse_env sample_resource_file sample_config_state) =
   Some (RC_INVALID_VALUE, [''A''], Some ''42'')"
  by code_simp

lemma sample_registered:
  "map_option (\<lambda>sr. (getSignalsConfigCount sr, mSignalsConfigs sr (code_bitmap 65538 0) \<noteq> None))
     (register_signals sample_parse_env sample_signal_file SignalRegistry_init) = Some (1, True)"
  by code_simp

definition sample_property_name :: bytes where
  "sample_property_name = bytes_of ''urm.delta''"

lemma sample_property_found:
  "(case map_of (rev (filter (\<lambda>(k, v). k \<noteq> [] \<and> v \<noteq> [])
      (map (\<lambda>e. (bytes_of (fst e), bytes_of (snd e))) sample_property_file))) sample_property_name of
    Some v \<Rightarrow> Some v | None \<Rightarrow> find_property sample_property_name (cs_props sample_config_state)) = Some [49, 48, 48, 48]"
  by (simp add: sample_property_file_def sample_property_name_def bytes_of_def)

end
