(* ===== verification/ResourceHooks.thy ===== *)
theory ResourceHooks
  imports ResourcePaths Target CocoReach
begin

text \<open>
  \<^verbatim>\<open>resource-tuner/core/ResourceHooks.cpp\<close>: the callbacks that write the value of a resource to
  the files of the kernel and restore the default, the four of the apply types and those of certain
  resources. A device holds the files, the registry with its store of default values, the target and
  the affinities of the running processes. What is proved: what each default callback writes, that it
  touches no other file, and that a file shows what the concurrency table has in effect.
\<close>

section \<open>The device\<close>

record device =
  dv_world :: world
  dv_registry :: resource_registry
  dv_target :: target
  dv_affinity :: "int \<Rightarrow> int list option"

text \<open>
  The surroundings: \<^verbatim>\<open>snprintf\<close> with a path as its format, the root of the control groups,
  what the kernel makes of an affinity for a process (nothing when it refuses), and the callbacks of
  extensions.
\<close>

record hook_env =
  hk_path_of_int :: "string \<Rightarrow> int \<Rightarrow> string"
  hk_path_of_name :: "string \<Rightarrow> string \<Rightarrow> string"
  hk_baseCGroupPath :: string
  hk_sched_setaffinity :: "int \<Rightarrow> int list \<Rightarrow> int list option"
  hk_applier :: "nat \<Rightarrow> resource \<Rightarrow> device \<Rightarrow> device option"
  hk_tear :: "nat \<Rightarrow> resource \<Rightarrow> device \<Rightarrow> device option"

text \<open>A stream opened on the path, one insertion followed by \<^verbatim>\<open>std::endl\<close>; false when it does not open.\<close>

definition stream_write :: "string \<Rightarrow> string \<Rightarrow> device \<Rightarrow> bool \<times> device" where
  "stream_write path v dv =
     (path \<noteq> [] \<and> opens (dv_world dv) path, dv\<lparr>dv_world := writeToFile path (v @ [newline]) (dv_world dv)\<rparr>)"

definition stream_append :: "string \<Rightarrow> string \<Rightarrow> device \<Rightarrow> bool \<times> device" where
  "stream_append path v dv =
     (let old = (case contents (dv_world dv) path of None \<Rightarrow> [] | Some c \<Rightarrow> c)
      in (path \<noteq> [] \<and> opens (dv_world dv) path,
          dv\<lparr>dv_world := writeToFile path (old @ v @ [newline]) (dv_world dv)\<rparr>))"

definition default_value :: "string \<Rightarrow> device \<Rightarrow> string \<times> device" where
  "default_value path dv = (let (v, rr) = getDefaultValue path (dv_registry dv) in (v, dv\<lparr>dv_registry := rr\<rparr>))"

definition cgroup_config :: "int \<Rightarrow> device \<Rightarrow> CGroupConfigInfo option \<times> device" where
  "cgroup_config i dv = (let (c, T) = getCGroupConfig i (dv_target dv) in (c, dv\<lparr>dv_target := T\<rparr>))"

definition conf_at_device :: "resource \<Rightarrow> device \<Rightarrow> ResConfInfo option" where
  "conf_at_device r dv = getResConf (dv_registry dv) (mResCode r)"

section \<open>Paths and values\<close>

definition getFullResourceNodePath :: "hook_env \<Rightarrow> ResConfInfo option \<Rightarrow> int \<Rightarrow> string" where
  "getFullResourceNodePath hk rConf i =
     (case rConf of None \<Rightarrow> [] | Some c \<Rightarrow> hk_path_of_int hk (mResourcePath c) i)"

definition getCGroupTypeResourceNodePath :: "hook_env \<Rightarrow> resource \<Rightarrow> string \<Rightarrow> device \<Rightarrow> string" where
  "getCGroupTypeResourceNodePath hk r cGroupName dv =
     (case conf_at_device r dv of None \<Rightarrow> [] | Some c \<Rightarrow> hk_path_of_name hk (mResourcePath c) cGroupName)"

text \<open>The value times the unit of the resource, in 64 bits.\<close>

definition translatedValue :: "i32 \<Rightarrow> int \<Rightarrow> int option" where
  "translatedValue v unit = do {
     (t, status) \<leftarrow> Multiply 64 (sint v) unit;
     Some (if status \<noteq> SUCCESS then 2 ^ 63 - 1 else t) }"

section \<open>The callbacks of the apply types\<close>

definition write_translated :: "string \<Rightarrow> resource \<Rightarrow> ResConfInfo \<Rightarrow> device \<Rightarrow> device option" where
  "write_translated path r c dv = do {
     v \<leftarrow> getValueAt r 0;
     t \<leftarrow> translatedValue v (mUnit c);
     Some (snd (stream_write path (to_string t) dv)) }"

definition write_default :: "string \<Rightarrow> device \<Rightarrow> device" where
  "write_default path dv = (let (defVal, dv) = default_value path dv in snd (stream_write path defVal dv))"

definition defaultClusterLevelApplierCb :: "hook_env \<Rightarrow> resource \<Rightarrow> device \<Rightarrow> device option" where
  "defaultClusterLevelApplierCb hk r dv =
     (case conf_at_device r dv of None \<Rightarrow> Some dv
      | Some c \<Rightarrow> write_translated (getFullResourceNodePath hk (Some c) (sint (getClusterValue r))) r c dv)"

definition defaultClusterLevelTearCb :: "hook_env \<Rightarrow> resource \<Rightarrow> device \<Rightarrow> device option" where
  "defaultClusterLevelTearCb hk r dv =
     Some (case conf_at_device r dv of None \<Rightarrow> dv
           | Some c \<Rightarrow> write_default (getFullResourceNodePath hk (Some c) (sint (getClusterValue r))) dv)"

definition defaultCoreLevelApplierHelper :: "hook_env \<Rightarrow> resource \<Rightarrow> int \<Rightarrow> device \<Rightarrow> device option" where
  "defaultCoreLevelApplierHelper hk r coreID dv =
     (case conf_at_device r dv of None \<Rightarrow> Some dv
      | Some c \<Rightarrow> write_translated (getFullResourceNodePath hk (Some c) coreID) r c dv)"

definition defaultCoreLevelTearHelper :: "hook_env \<Rightarrow> resource \<Rightarrow> int \<Rightarrow> device \<Rightarrow> device option" where
  "defaultCoreLevelTearHelper hk r coreID dv =
     Some (case conf_at_device r dv of None \<Rightarrow> dv
           | Some c \<Rightarrow> write_default (getFullResourceNodePath hk (Some c) coreID) dv)"

text \<open>Core zero stands for every core of the cluster.\<close>

definition for_cores :: "(int \<Rightarrow> device \<Rightarrow> device option) \<Rightarrow> resource \<Rightarrow> device \<Rightarrow> device option" where
  "for_cores helper r dv =
     (if getCoreValue r = 0 then
        (case getClusterInfo (sint (getClusterValue r)) (dv_target dv) of
           (None, T) \<Rightarrow> Some (dv\<lparr>dv_target := T\<rparr>)
         | (Some cinfo, T) \<Rightarrow> do {
             e \<leftarrow> arith 32 (mStartCpu cinfo + mNumCpus cinfo);
             foldM helper [mStartCpu cinfo .. e - 1] (dv\<lparr>dv_target := T\<rparr>) })
      else helper (sint (getCoreValue r)) dv)"

definition defaultCoreLevelApplierCb :: "hook_env \<Rightarrow> resource \<Rightarrow> device \<Rightarrow> device option" where
  "defaultCoreLevelApplierCb hk r dv =
     (if conf_at_device r dv = None then Some dv else for_cores (defaultCoreLevelApplierHelper hk r) r dv)"

definition defaultCoreLevelTearCb :: "hook_env \<Rightarrow> resource \<Rightarrow> device \<Rightarrow> device option" where
  "defaultCoreLevelTearCb hk r dv = for_cores (defaultCoreLevelTearHelper hk r) r dv"

text \<open>The unit of the configuration is read through its pointer, which is not tested.\<close>

definition defaultCGroupLevelApplierCb :: "hook_env \<Rightarrow> resource \<Rightarrow> device \<Rightarrow> device option" where
  "defaultCGroupLevelApplierCb hk r dv =
     (if getValuesCount r \<noteq> 2 then Some dv
      else do {
        cGroupIdentifier \<leftarrow> getValueAt r 0;
        valueToBeWritten \<leftarrow> getValueAt r 1;
        rConf \<leftarrow> conf_at_device r dv;
        t \<leftarrow> translatedValue valueToBeWritten (mUnit rConf);
        let (cGroupConfig, dv) = cgroup_config (sint cGroupIdentifier) dv;
        Some (case cGroupConfig of None \<Rightarrow> dv
              | Some g \<Rightarrow> if mCgroupName g = [] then dv
                  else snd (stream_write (getCGroupTypeResourceNodePath hk r (mCgroupName g) dv) (to_string t) dv)) })"

definition defaultCGroupLevelTearCb :: "hook_env \<Rightarrow> resource \<Rightarrow> device \<Rightarrow> device option" where
  "defaultCGroupLevelTearCb hk r dv =
     (if conf_at_device r dv = None then Some dv
      else do {
        cGroupIdentifier \<leftarrow> getValueAt r 0;
        let (cGroupConfig, dv) = cgroup_config (sint cGroupIdentifier) dv;
        Some (case cGroupConfig of None \<Rightarrow> dv
              | Some g \<Rightarrow> if mCgroupName g = [] then dv
                  else write_default (getCGroupTypeResourceNodePath hk r (mCgroupName g) dv) dv) })"

text \<open>The path of a system-wide resource; with two values the first one selects an instance.\<close>

definition global_path :: "hook_env \<Rightarrow> resource \<Rightarrow> ResConfInfo \<Rightarrow> string option" where
  "global_path hk r c =
     (if getValuesCount r = 2 then map_option (\<lambda>i. getFullResourceNodePath hk (Some c) (sint i)) (getValueAt r 0)
      else Some (mResourcePath c))"

definition defaultGlobalLevelApplierCb :: "hook_env \<Rightarrow> resource \<Rightarrow> device \<Rightarrow> device option" where
  "defaultGlobalLevelApplierCb hk r dv =
     (case conf_at_device r dv of None \<Rightarrow> Some dv
      | Some c \<Rightarrow> do {
          v0 \<leftarrow> getValueAt r 0;
          valueToWrite \<leftarrow> (if getValuesCount r = 2 then getValueAt r 1 else Some v0);
          resourceNodePath \<leftarrow> global_path hk r c;
          Some (dv\<lparr>dv_world := writeToFile resourceNodePath (to_string (sint valueToWrite)) (dv_world dv)\<rparr>) })"

definition defaultGlobalLevelTearCb :: "hook_env \<Rightarrow> resource \<Rightarrow> device \<Rightarrow> device option" where
  "defaultGlobalLevelTearCb hk r dv =
     (case conf_at_device r dv of None \<Rightarrow> Some dv
      | Some c \<Rightarrow> do {
          resourceNodePath \<leftarrow> global_path hk r c;
          let (defVal, dv) = default_value resourceNodePath dv;
          Some (dv\<lparr>dv_world := writeToFile resourceNodePath defVal (dv_world dv)\<rparr>) })"

section \<open>The callbacks of certain resources\<close>

text \<open>
  A loop over the values from number 1 on that leaves the whole callback when a file does not open:
  \<open>Inl\<close> holds the device it was left with.
\<close>

fun each_value ::
    "(i32 \<Rightarrow> device \<Rightarrow> bool \<times> device) \<Rightarrow> resource \<Rightarrow> nat list \<Rightarrow> device \<Rightarrow> device option" where
  "each_value body r [] dv = Some dv"
| "each_value body r (i # is') dv = do {
     v \<leftarrow> getValueAt r (word_of_nat i);
     let (ok, dv) = body v dv;
     (if ok then each_value body r is' dv else Some dv) }"

definition value_indices :: "nat \<Rightarrow> resource \<Rightarrow> nat list" where
  "value_indices i r = [i ..< nat (sint (getValuesCount r))]"

definition proc_cgroup :: "i32 \<Rightarrow> string" where
  "proc_cgroup pid = ''/proc/'' @ to_string (sint pid) @ ''/cgroup''"

definition move_process :: "string \<Rightarrow> i32 \<Rightarrow> device \<Rightarrow> bool \<times> device" where
  "move_process path pid dv =
     (let currentCGroup = readFromFile (dv_world dv) (proc_cgroup pid);
          dv = (if length currentCGroup > 4
                then dv\<lparr>dv_registry := addDefaultValue (proc_cgroup pid) (drop 4 currentCGroup) (dv_registry dv)\<rparr> else dv)
      in stream_write path (to_string (sint pid)) dv)"

definition moveProcessToCGroup :: "hook_env \<Rightarrow> resource \<Rightarrow> device \<Rightarrow> device option" where
  "moveProcessToCGroup hk r dv =
     (if sint (getValuesCount r) < 2 then Some dv
      else do {
        cGroupIdentifier \<leftarrow> getValueAt r 0;
        let (cGroupConfig, dv) = cgroup_config (sint cGroupIdentifier) dv;
        (case cGroupConfig of None \<Rightarrow> Some dv
         | Some g \<Rightarrow>
             if mCgroupName g = [] then Some dv
             else do {
               rConf \<leftarrow> conf_at_device r dv;
               each_value (move_process (hk_path_of_name hk (mResourcePath rConf) (mCgroupName g))) r (value_indices 1 r) dv }) })"

definition moveThreadToCGroup :: "hook_env \<Rightarrow> resource \<Rightarrow> device \<Rightarrow> device option" where
  "moveThreadToCGroup hk r dv =
     (if sint (getValuesCount r) < 2 then Some dv
      else do {
        cGroupIdentifier \<leftarrow> getValueAt r 0;
        let (cGroupConfig, dv) = cgroup_config (sint cGroupIdentifier) dv;
        (case cGroupConfig of None \<Rightarrow> Some dv
         | Some g \<Rightarrow>
             if mCgroupName g = [] then Some dv
             else let path = getCGroupTypeResourceNodePath hk r (mCgroupName g) dv
                  in each_value (\<lambda>tid. stream_write path (to_string (sint tid))) r (value_indices 1 r) dv) })"

text \<open>The values from number 1 on, separated by commas.\<close>

fun separated :: "string list \<Rightarrow> string" where
  "separated [] = []"
| "separated [x] = x"
| "separated (x # xs) = x @ '','' @ separated xs"

definition cpusString :: "resource \<Rightarrow> string option" where
  "cpusString r = map_option (\<lambda>vs. separated (map (\<lambda>v. to_string (sint v)) vs))
     (those (map (\<lambda>i. getValueAt r (word_of_nat i)) (value_indices 1 r)))"

definition with_cgroup ::
    "nat \<Rightarrow> (string \<Rightarrow> device \<Rightarrow> device option) \<Rightarrow> resource \<Rightarrow> device \<Rightarrow> device option" where
  "with_cgroup n body r dv =
     (if sint (getValuesCount r) < int n then Some dv
      else do {
        cGroupIdentifier \<leftarrow> getValueAt r 0;
        let (cGroupConfig, dv) = cgroup_config (sint cGroupIdentifier) dv;
        (case cGroupConfig of None \<Rightarrow> Some dv
         | Some g \<Rightarrow> if mCgroupName g = [] then Some dv else body (mCgroupName g) dv) })"

definition setRunOnCores :: "hook_env \<Rightarrow> resource \<Rightarrow> device \<Rightarrow> device option" where
  "setRunOnCores hk r = with_cgroup 2 (\<lambda>cGroupName dv. do {
     cpus \<leftarrow> cpusString r;
     Some (snd (stream_write (getCGroupTypeResourceNodePath hk r cGroupName dv) cpus dv)) }) r"

definition cpuset_path :: "hook_env \<Rightarrow> string \<Rightarrow> string" where
  "cpuset_path hk cGroupName = hk_baseCGroupPath hk @ cGroupName @ ''/cpuset.cpus''"

definition partition_path :: "hook_env \<Rightarrow> string \<Rightarrow> string" where
  "partition_path hk cGroupName = hk_baseCGroupPath hk @ cGroupName @ ''/cpuset.cpus.partition''"

definition setRunOnCoresExclusively :: "hook_env \<Rightarrow> resource \<Rightarrow> device \<Rightarrow> device option" where
  "setRunOnCoresExclusively hk r = with_cgroup 2 (\<lambda>cGroupName dv. do {
     cpus \<leftarrow> cpusString r;
     let (ok, dv) = stream_write (cpuset_path hk cGroupName) cpus dv;
     Some (if ok then snd (stream_write (partition_path hk cGroupName) ''isolated'' dv) else dv) }) r"

definition resetRunOnCoresExclusively :: "hook_env \<Rightarrow> resource \<Rightarrow> device \<Rightarrow> device option" where
  "resetRunOnCoresExclusively hk r = with_cgroup 2 (\<lambda>cGroupName dv.
     (let (defVal, dv) = default_value (cpuset_path hk cGroupName) dv;
          (ok, dv) = stream_write (cpuset_path hk cGroupName) defVal dv
      in Some (if ok \<and> opens (dv_world dv) (partition_path hk cGroupName)
               then write_default (partition_path hk cGroupName) dv else dv))) r"

text \<open>The values are read before the control group is looked up; there must be exactly three.\<close>

definition limitCpuTime :: "hook_env \<Rightarrow> resource \<Rightarrow> device \<Rightarrow> device option" where
  "limitCpuTime hk r dv =
     (if getValuesCount r \<noteq> 3 then Some dv
      else do {
        maxUsageMicroseconds \<leftarrow> getValueAt r 1;
        periodMicroseconds \<leftarrow> getValueAt r 2;
        with_cgroup 3 (\<lambda>cGroupName dv.
          Some (snd (stream_write (getCGroupTypeResourceNodePath hk r cGroupName dv)
            (to_string (sint maxUsageMicroseconds) @ '' '' @ to_string (sint periodMicroseconds)) dv))) r dv })"

definition remove_process :: "hook_env \<Rightarrow> i32 \<Rightarrow> device \<Rightarrow> bool \<times> device" where
  "remove_process hk pid dv =
     (let (cGroupPath, dv) = default_value (proc_cgroup pid) dv;
          cGroupPath = (if cGroupPath = [] then hk_baseCGroupPath hk @ ''cgroup.procs''
                        else hk_baseCGroupPath hk @ cGroupPath @ ''/cgroup.procs'');
          dv = dv\<lparr>dv_registry := deleteDefaultValue (proc_cgroup pid) (dv_registry dv)\<rparr>
      in stream_append cGroupPath (to_string (sint pid)) dv)"

definition removeProcessFromCGroup :: "hook_env \<Rightarrow> resource \<Rightarrow> device \<Rightarrow> device option" where
  "removeProcessFromCGroup hk r dv =
     (if sint (getValuesCount r) < 2 then Some dv
      else each_value (remove_process hk) r (value_indices 1 r) dv)"

text \<open>The path is built from itself before it has a value.\<close>

definition removeThreadFromCGroup :: "hook_env \<Rightarrow> resource \<Rightarrow> device \<Rightarrow> device option" where
  "removeThreadFromCGroup hk r dv = (if sint (getValuesCount r) < 2 then Some dv else None)"

subsection \<open>Affinities\<close>

definition maxPidCount :: nat where "maxPidCount = 6"

definition CPU_SETSIZE :: nat where "CPU_SETSIZE = 1024"

text \<open>A mask as the ascending list of its processors; processors it cannot hold are ignored.\<close>

definition cpu_mask :: "int list \<Rightarrow> int list" where
  "cpu_mask ids = filter (\<lambda>i. i \<in> set ids) (map int [0 ..< CPU_SETSIZE])"

definition task_affinity :: "int \<Rightarrow> string" where
  "task_affinity pid = ''task_affinity_'' @ to_string pid"

definition save_affinity :: "int \<Rightarrow> device \<Rightarrow> device" where
  "save_affinity pid dv =
     (if pid \<le> 0 then dv
      else case dv_affinity dv pid of None \<Rightarrow> dv
        | Some cpus \<Rightarrow>
            dv\<lparr>dv_registry := addDefaultValue (task_affinity pid) (separated (map to_string (cpu_mask cpus))) (dv_registry dv)\<rparr>)"

definition set_affinity :: "hook_env \<Rightarrow> int list \<Rightarrow> int \<Rightarrow> device \<Rightarrow> device" where
  "set_affinity hk cpus pid dv =
     (if pid \<le> 0 then dv
      else case hk_sched_setaffinity hk pid cpus of None \<Rightarrow> dv
        | Some cpus' \<Rightarrow> dv\<lparr>dv_affinity := (dv_affinity dv)(pid \<mapsto> cpus')\<rparr>)"

definition all_values :: "resource \<Rightarrow> int list option" where
  "all_values r = map_option (map sint) (those (map (\<lambda>i. getValueAt r (word_of_nat i)) (value_indices 0 r)))"

definition setTaskAffinity :: "hook_env \<Rightarrow> resource \<Rightarrow> device \<Rightarrow> device option" where
  "setTaskAffinity hk r dv =
     (if sint (getValuesCount r) < int maxPidCount + 1 then Some dv
      else do {
        vs \<leftarrow> all_values r;
        let pids = take maxPidCount vs;
        let cpus = cpu_mask (drop maxPidCount vs);
        Some (fold (set_affinity hk cpus) pids (fold save_affinity pids dv)) })"

text \<open>The callback is left at the first process without a saved mask, or with one that does not parse.\<close>

fun reset_affinities :: "hook_env \<Rightarrow> int list \<Rightarrow> device \<Rightarrow> device" where
  "reset_affinities hk [] dv = dv"
| "reset_affinities hk (pid # pids) dv =
     (if pid \<le> 0 then reset_affinities hk pids dv
      else (let (defVal, dv) = default_value (task_affinity pid) dv
            in if defVal = [] then dv
               else case those (map stoi (tokens CHR '','' defVal)) of None \<Rightarrow> dv
                 | Some ids \<Rightarrow> reset_affinities hk pids (set_affinity hk (cpu_mask ids) pid dv)))"

definition resetTaskAffinity :: "hook_env \<Rightarrow> resource \<Rightarrow> device \<Rightarrow> device option" where
  "resetTaskAffinity hk r dv =
     (if sint (getValuesCount r) < int maxPidCount + 1 then Some dv
      else do { vs \<leftarrow> all_values r; Some (reset_affinities hk (take maxPidCount vs) dv) })"

section \<open>Calling the callbacks\<close>

text \<open>The callbacks registered here, numbered; those of extensions follow.\<close>

definition hook_appliers :: "(u32 \<times> lifecycle_cb) list" where
  "hook_appliers = [(0x00090000, ExtensionCb 0), (0x00090001, ExtensionCb 1), (0x00090002, ExtensionCb 2),
     (0x00090003, ExtensionCb 3), (0x00090005, ExtensionCb 4), (0x00030004, ExtensionCb 5)]"

definition hook_tears :: "(u32 \<times> lifecycle_cb) list" where
  "hook_tears = [(0x00090000, ExtensionCb 0), (0x00090001, ExtensionCb 1), (0x00090003, ExtensionCb 3),
     (0x00030004, ExtensionCb 5)]"

definition run_applier :: "hook_env \<Rightarrow> lifecycle_cb \<Rightarrow> resource \<Rightarrow> device \<Rightarrow> device option" where
  "run_applier hk cb r =
     (case cb of
        DefaultClusterCb \<Rightarrow> defaultClusterLevelApplierCb hk r
      | DefaultCoreCb \<Rightarrow> defaultCoreLevelApplierCb hk r
      | DefaultCGroupCb \<Rightarrow> defaultCGroupLevelApplierCb hk r
      | DefaultGlobalCb \<Rightarrow> defaultGlobalLevelApplierCb hk r
      | ExtensionCb n \<Rightarrow>
          (if n = 0 then moveProcessToCGroup hk r else if n = 1 then moveThreadToCGroup hk r
           else if n = 2 then setRunOnCores hk r else if n = 3 then setRunOnCoresExclusively hk r
           else if n = 4 then limitCpuTime hk r else if n = 5 then setTaskAffinity hk r
           else hk_applier hk n r))"

definition run_tear :: "hook_env \<Rightarrow> lifecycle_cb \<Rightarrow> resource \<Rightarrow> device \<Rightarrow> device option" where
  "run_tear hk cb r =
     (case cb of
        DefaultClusterCb \<Rightarrow> defaultClusterLevelTearCb hk r
      | DefaultCoreCb \<Rightarrow> defaultCoreLevelTearCb hk r
      | DefaultCGroupCb \<Rightarrow> defaultCGroupLevelTearCb hk r
      | DefaultGlobalCb \<Rightarrow> defaultGlobalLevelTearCb hk r
      | ExtensionCb n \<Rightarrow>
          (if n = 0 then removeProcessFromCGroup hk r else if n = 1 then removeThreadFromCGroup hk r
           else if n = 3 then resetRunOnCoresExclusively hk r else if n = 5 then resetTaskAffinity hk r
           else hk_tear hk n r))"

text \<open>What the events of the concurrency table, newest first, do to the device.\<close>

fun play :: "hook_env \<Rightarrow> coco_event list \<Rightarrow> device \<Rightarrow> device option" where
  "play hk [] dv = Some dv"
| "play hk (CallApply cb r # es) dv = Option.bind (play hk es dv) (run_applier hk cb r)"
| "play hk (CallTear cb r # es) dv = Option.bind (play hk es dv) (run_tear hk cb r)"
| "play hk (e # es) dv = play hk es dv"

section \<open>What the default callbacks write\<close>

lemma translatedValue_exact:
  assumes "sint v \<noteq> -1 \<or> unit \<le> 0" "- (2 ^ 31) \<le> unit" "unit < 2 ^ 31"
  shows "translatedValue v unit = Some (sint v * unit)"
proof -
  have v: "- (2 ^ 31) \<le> sint v" "sint v < 2 ^ 31" using sint_ge[of v] sint_lt[of v] by simp_all
  have "\<bar>sint v\<bar> * \<bar>unit\<bar> \<le> 2 ^ 31 * 2 ^ 31" using v assms(2,3) by (intro mult_mono) auto
  then have "\<bar>sint v * unit\<bar> \<le> 2 ^ 62" by (simp add: abs_mult)
  then have b: "- (2 ^ 62) \<le> sint v * unit" "sint v * unit \<le> 2 ^ 62" by linarith+
  have "Multiply 64 (sint v) unit = Some (saturate 64 (sint v * unit))"
  proof -
    consider "0 < sint v" "0 < unit" | "sint v < 0" "unit < 0" | "0 < sint v" "unit < 0"
      | "sint v < -1" "0 < unit" | "sint v = 0 \<or> unit = 0" using assms(1) by linarith
    then show ?thesis
      by cases (simp_all add: Multiply_pos_pos Multiply_neg_neg Multiply_pos_neg Multiply_neg_pos Multiply_zero type_max_def)
  qed
  then show ?thesis using b by (simp add: translatedValue_def saturate_def type_max_def type_lowest_def)
qed

lemma translatedValue_minus_one: "0 < unit \<Longrightarrow> translatedValue (-1) unit = None"
  by (simp add: translatedValue_def Multiply_minus_one_undefined)

definition default_of :: "device \<Rightarrow> string \<Rightarrow> string" where
  "default_of dv p = (case mDefaultValueStore (dv_registry dv) p of None \<Rightarrow> [] | Some v \<Rightarrow> v)"

lemma default_of_other [simp]:
  "default_of (dv\<lparr>dv_world := w\<rparr>) = default_of dv" "default_of (dv\<lparr>dv_target := T\<rparr>) = default_of dv"
  by (rule ext, simp add: default_of_def)+

text \<open>
  A device after some writes: the files \<open>ps\<close> that open hold the text given for them, all other files
  and what the registry answers are as before.
\<close>

definition wrote :: "string list \<Rightarrow> (string \<Rightarrow> string) \<Rightarrow> device \<Rightarrow> device \<Rightarrow> bool" where
  "wrote ps text dv dv' \<longleftrightarrow> opens (dv_world dv') = opens (dv_world dv) \<and> default_of dv' = default_of dv \<and>
     getResConf (dv_registry dv') = getResConf (dv_registry dv) \<and>
     (\<forall>p. contents (dv_world dv') p =
        (if p \<in> set ps \<and> p \<noteq> [] \<and> opens (dv_world dv) p then Some (text p) else contents (dv_world dv) p))"

lemma wrote_nothing: "wrote [] text dv dv"
  by (simp add: wrote_def)

lemma wrote_target: "wrote ps text dv (dv'\<lparr>dv_target := T\<rparr>) = wrote ps text dv dv'"
  by (simp add: wrote_def)

lemma wrote_from_target: "wrote ps text (dv\<lparr>dv_target := T\<rparr>) dv' = wrote ps text dv dv'"
  by (simp add: wrote_def)

lemma wrote_trans: "wrote ps text dv dv1 \<Longrightarrow> wrote qs text dv1 dv2 \<Longrightarrow> wrote (ps @ qs) text dv dv2"
  by (auto simp: wrote_def)

lemma wrote_conf: "wrote ps text dv dv' \<Longrightarrow> conf_at_device r dv' = conf_at_device r dv"
  by (simp add: wrote_def conf_at_device_def)

lemma wrote_file: "wrote [p] (\<lambda>_. v) dv (dv\<lparr>dv_world := writeToFile p v (dv_world dv)\<rparr>)"
  by (simp add: wrote_def contents_write)

lemma wrote_stream: "wrote [p] (\<lambda>_. v @ [newline]) dv (snd (stream_write p v dv))"
  by (simp add: stream_write_def wrote_file)

lemma default_value_read:
  "default_value p dv = (v, dv') \<Longrightarrow> v = default_of dv p \<and> dv_world dv' = dv_world dv \<and> dv_target dv' = dv_target dv \<and>
     default_of dv' = default_of dv \<and> getResConf (dv_registry dv') = getResConf (dv_registry dv)"
  by (auto simp: default_value_def getDefaultValue_def default_of_def getResConf_def fun_eq_iff split: option.splits if_splits)

lemma wrote_default: "wrote [p] (\<lambda>q. default_of dv q @ [newline]) dv (write_default p dv)"
proof -
  obtain v dv' where d: "default_value p dv = (v, dv')" by fastforce
  with default_value_read[OF d] show ?thesis
    by (auto simp: write_default_def wrote_def stream_write_def contents_write)
qed

lemma write_default_target: "dv_target (write_default p dv) = dv_target dv"
proof -
  obtain v dv' where d: "default_value p dv = (v, dv')" by fastforce
  with default_value_read[OF d] show ?thesis by (simp add: write_default_def stream_write_def)
qed

lemma foldM_wrote:
  assumes "\<And>i dv'. conf_at_device r dv' = Some c \<Longrightarrow> default_of dv' = default_of dv \<Longrightarrow>
      \<exists>dv2. helper i dv' = Some dv2 \<and> wrote [f i] text dv' dv2 \<and> dv_target dv2 = dv_target dv'"
    and "conf_at_device r dv1 = Some c" "default_of dv1 = default_of dv"
  shows "\<exists>dv2. foldM helper ids dv1 = Some dv2 \<and> wrote (map f ids) text dv1 dv2 \<and> dv_target dv2 = dv_target dv1"
  using assms(2,3)
proof (induction ids arbitrary: dv1)
  case Nil
  then show ?case by (simp add: wrote_nothing)
next
  case (Cons i ids)
  from assms(1)[OF Cons.prems] obtain dv2 where d: "helper i dv1 = Some dv2" "wrote [f i] text dv1 dv2"
    "dv_target dv2 = dv_target dv1" by blast
  have "conf_at_device r dv2 = Some c" "default_of dv2 = default_of dv"
    using Cons.prems wrote_conf[OF d(2)] d(2) by (simp_all add: wrote_def)
  from Cons.IH[OF this] obtain dv3 where "foldM helper ids dv2 = Some dv3" "wrote (map f ids) text dv2 dv3"
    "dv_target dv3 = dv_target dv2" by blast
  with d wrote_trans[OF d(2)] show ?case by fastforce
qed

text \<open>The files of a resource, the value that is written and the text it becomes.\<close>

definition node_paths :: "hook_env \<Rightarrow> ResConfInfo \<Rightarrow> resource \<Rightarrow> target \<Rightarrow> string list" where
  "node_paths hk c r T =
     (case mApplyType c of
        APPLY_CLUSTER \<Rightarrow> [hk_path_of_int hk (mResourcePath c) (sint (getClusterValue r))]
      | APPLY_CORE \<Rightarrow> map (hk_path_of_int hk (mResourcePath c))
          (if getCoreValue r \<noteq> 0 then [sint (getCoreValue r)]
           else case fst (getClusterInfo (sint (getClusterValue r)) T) of None \<Rightarrow> []
             | Some i \<Rightarrow> [mStartCpu i .. mStartCpu i + mNumCpus i - 1])
      | APPLY_CGROUP \<Rightarrow> (case getValueAt r 0 of None \<Rightarrow> []
          | Some g \<Rightarrow> (case fst (getCGroupConfig (sint g) T) of None \<Rightarrow> []
             | Some i \<Rightarrow> if mCgroupName i = [] then [] else [hk_path_of_name hk (mResourcePath c) (mCgroupName i)]))
      | APPLY_GLOBAL \<Rightarrow> (case global_path hk r c of None \<Rightarrow> [] | Some p \<Rightarrow> [p]))"

definition written_value :: "ResConfInfo \<Rightarrow> resource \<Rightarrow> i32 option" where
  "written_value c r =
     (if mApplyType c = APPLY_CGROUP \<or> mApplyType c = APPLY_GLOBAL \<and> getValuesCount r = 2 then getValueAt r 1
      else getValueAt r 0)"

definition node_text :: "ResConfInfo \<Rightarrow> resource \<Rightarrow> string" where
  "node_text c r =
     (case written_value c r of None \<Rightarrow> []
      | Some v \<Rightarrow> if mApplyType c = APPLY_GLOBAL then to_string (sint v) else to_string (sint v * mUnit c) @ [newline])"

definition default_text :: "ResConfInfo \<Rightarrow> device \<Rightarrow> string \<Rightarrow> string" where
  "default_text c dv p = default_of dv p @ (if mApplyType c = APPLY_GLOBAL then [] else [newline])"

definition default_cb :: "ResConfInfo \<Rightarrow> lifecycle_cb" where
  "default_cb c =
     (case mApplyType c of APPLY_CLUSTER \<Rightarrow> DefaultClusterCb | APPLY_CORE \<Rightarrow> DefaultCoreCb
      | APPLY_CGROUP \<Rightarrow> DefaultCGroupCb | APPLY_GLOBAL \<Rightarrow> DefaultGlobalCb)"

text \<open>What a callback relies on: values it can read, products that are defined, clusters within range.\<close>

definition appliable :: "ResConfInfo \<Rightarrow> resource \<Rightarrow> target \<Rightarrow> bool" where
  "appliable c r T \<longleftrightarrow> getValueAt r 0 \<noteq> None \<and> - (2 ^ 31) \<le> mUnit c \<and> mUnit c < 2 ^ 31 \<and>
     (case written_value c r of None \<Rightarrow> False
      | Some v \<Rightarrow> mApplyType c = APPLY_GLOBAL \<or> sint v \<noteq> -1 \<or> mUnit c \<le> 0) \<and>
     (mApplyType c = APPLY_CGROUP \<longrightarrow> getValuesCount r = 2) \<and>
     (case fst (getClusterInfo (sint (getClusterValue r)) T) of None \<Rightarrow> True | Some i \<Rightarrow> cluster_ok i)"

lemma callbacks_default: "mResourceApplierCallback (setLifeCycleCallbacks c) = Some (default_cb c) \<and>
   mResourceTearCallback (setLifeCycleCallbacks c) = Some (default_cb c)"
  by (cases "mApplyType c") (simp_all add: setLifeCycleCallbacks_def default_cb_def)

lemma cluster_info_again: "getClusterInfo i T = (info, T') \<Longrightarrow> fst (getClusterInfo j T') = fst (getClusterInfo j T)"
  by (auto simp: getClusterInfo_def at_or_null_def update_conv' split: option.splits if_splits)

lemma cgroup_config_again: "getCGroupConfig i T = (info, T') \<Longrightarrow> fst (getCGroupConfig j T') = fst (getCGroupConfig j T)"
  by (auto simp: getCGroupConfig_def at_or_null_def update_conv' split: option.splits if_splits)

lemma write_translated_wrote:
  assumes "getValueAt r 0 = Some v" "sint v \<noteq> -1 \<or> mUnit c \<le> 0" "- (2 ^ 31) \<le> mUnit c" "mUnit c < 2 ^ 31"
  shows "\<exists>dv'. write_translated p r c dv = Some dv' \<and> wrote [p] (\<lambda>_. to_string (sint v * mUnit c) @ [newline]) dv dv' \<and>
    dv_target dv' = dv_target dv"
  using assms wrote_stream[of p "to_string (sint v * mUnit c)" dv]
  by (simp add: write_translated_def translatedValue_exact stream_write_def)

text \<open>Both callbacks of a type visit the same files, given what they do to one of them.\<close>

lemma for_cores_wrote:
  assumes "\<And>i dv'. conf_at_device r dv' = Some c \<Longrightarrow> default_of dv' = default_of dv \<Longrightarrow>
      \<exists>dv2. helper i dv' = Some dv2 \<and> wrote [hk_path_of_int hk (mResourcePath c) i] tx dv' dv2 \<and> dv_target dv2 = dv_target dv'"
    and "conf_at_device r dv = Some c" "mApplyType c = APPLY_CORE"
    and "case fst (getClusterInfo (sint (getClusterValue r)) (dv_target dv)) of None \<Rightarrow> True | Some i \<Rightarrow> cluster_ok i"
  shows "\<exists>dv'. for_cores helper r dv = Some dv' \<and> wrote (node_paths hk c r (dv_target dv)) tx dv dv' \<and>
    node_paths hk c r (dv_target dv') = node_paths hk c r (dv_target dv)"
proof (cases "getCoreValue r = 0")
  case False
  with assms(1)[OF assms(2) refl, of "sint (getCoreValue r)"] assms(3) show ?thesis
    by (auto simp: for_cores_def node_paths_def)
next
  case True
  obtain info T where g: "getClusterInfo (sint (getClusterValue r)) (dv_target dv) = (info, T)" by fastforce
  let ?dv = "dv\<lparr>dv_target := T\<rparr>"
  have same: "node_paths hk c r T = node_paths hk c r (dv_target dv)"
    using cluster_info_again[OF g] assms(3) by (simp add: node_paths_def)
  show ?thesis
  proof (cases info)
    case None
    with g True assms(3) same show ?thesis
      by (simp add: for_cores_def node_paths_def wrote_target wrote_nothing)
  next
    case (Some i)
    have ar: "arith 32 (mStartCpu i + mNumCpus i) = Some (mStartCpu i + mNumCpus i)"
      using assms(4) g Some by (simp add: cluster_ok_def arith32_ok)
    have "conf_at_device r ?dv = Some c" using assms(2) by (simp add: conf_at_device_def)
    from foldM_wrote[where f = "hk_path_of_int hk (mResourcePath c)", OF assms(1) this]
    obtain dv2 where d: "foldM helper [mStartCpu i .. mStartCpu i + mNumCpus i - 1] ?dv = Some dv2"
      "wrote (map (hk_path_of_int hk (mResourcePath c)) [mStartCpu i .. mStartCpu i + mNumCpus i - 1]) tx ?dv dv2"
      "dv_target dv2 = T" by fastforce
    with g Some True ar assms(3) same show ?thesis
      by (simp add: for_cores_def node_paths_def wrote_from_target)
  qed
qed

lemma default_applier_writes:
  assumes c: "conf_at_device r dv = Some c" and ok: "appliable c r (dv_target dv)"
  shows "\<exists>dv'. run_applier hk (default_cb c) r dv = Some dv' \<and>
    wrote (node_paths hk c r (dv_target dv)) (\<lambda>_. node_text c r) dv dv' \<and>
    node_paths hk c r (dv_target dv') = node_paths hk c r (dv_target dv)"
proof -
  obtain v0 where v0: "getValueAt r 0 = Some v0" using ok by (auto simp: appliable_def)
  obtain v where v: "written_value c r = Some v" "mApplyType c = APPLY_GLOBAL \<or> sint v \<noteq> -1 \<or> mUnit c \<le> 0"
    using ok by (auto simp: appliable_def split: option.splits)
  have u: "- (2 ^ 31) \<le> mUnit c" "mUnit c < 2 ^ 31" using ok by (auto simp: appliable_def)
  note node = write_translated_wrote[OF v0 _ u]
  show ?thesis
  proof (cases "mApplyType c")
    case APPLY_CLUSTER
    with v v0 have vv [simp]: "v = v0" by (simp add: written_value_def)
    from node[of "hk_path_of_int hk (mResourcePath c) (sint (getClusterValue r))" dv] APPLY_CLUSTER v c show ?thesis
      by (auto simp: run_applier_def default_cb_def defaultClusterLevelApplierCb_def node_paths_def node_text_def
          getFullResourceNodePath_def)
  next
    case APPLY_CORE
    with v v0 have vv [simp]: "v = v0" by (simp add: written_value_def)
    have t: "node_text c r = to_string (sint v0 * mUnit c) @ [newline]" using v APPLY_CORE by (simp add: node_text_def)
    have h: "\<exists>dv2. defaultCoreLevelApplierHelper hk r i dv' = Some dv2 \<and>
        wrote [hk_path_of_int hk (mResourcePath c) i] (\<lambda>_. node_text c r) dv' dv2 \<and> dv_target dv2 = dv_target dv'"
      if "conf_at_device r dv' = Some c" for i dv'
      using node[of "hk_path_of_int hk (mResourcePath c) i" dv'] v APPLY_CORE that
      by (simp add: defaultCoreLevelApplierHelper_def getFullResourceNodePath_def t)
    from for_cores_wrote[where tx = "\<lambda>_. node_text c r", OF h c APPLY_CORE] ok show ?thesis
      by (simp add: run_applier_def default_cb_def APPLY_CORE defaultCoreLevelApplierCb_def c appliable_def)
  next
    case APPLY_CGROUP
    with ok have n: "getValuesCount r = 2" by (simp add: appliable_def)
    from v APPLY_CGROUP have v1: "getValueAt r 1 = Some v" by (simp add: written_value_def)
    obtain g T where g: "getCGroupConfig (sint v0) (dv_target dv) = (g, T)" by fastforce
    have same: "node_paths hk c r T = node_paths hk c r (dv_target dv)"
      using cgroup_config_again[OF g] APPLY_CGROUP v0 by (simp add: node_paths_def)
    have cT: "conf_at_device r (dv\<lparr>dv_target := T\<rparr>) = Some c" using c by (simp add: conf_at_device_def)
    have tv: "translatedValue v (mUnit c) = Some (sint v * mUnit c)" using v(2) u APPLY_CGROUP by (simp add: translatedValue_exact)
    have tgt: "dv_target (snd (stream_write p t dv')) = dv_target dv'" for p t dv' by (simp add: stream_write_def)
    have w: "wrote [p] (\<lambda>_. t @ [newline]) dv (snd (stream_write p t (dv\<lparr>dv_target := T\<rparr>)))" for p t
      using wrote_stream[of p t "dv\<lparr>dv_target := T\<rparr>"] by (simp add: wrote_from_target)
    show ?thesis using n v0 v1 c tv g same w APPLY_CGROUP
      by (auto simp: run_applier_def default_cb_def defaultCGroupLevelApplierCb_def node_paths_def node_text_def v
          cgroup_config_def getCGroupTypeResourceNodePath_def cT wrote_target wrote_nothing tgt split: option.splits)
  next
    case APPLY_GLOBAL
    obtain p where p: "global_path hk r c = Some p" using v0 by (cases "getValuesCount r = 2") (simp_all add: global_path_def)
    have "(if getValuesCount r = 2 then getValueAt r 1 else Some v0) = Some v"
      using v(1) v0 APPLY_GLOBAL by (simp add: written_value_def split: if_splits)
    then show ?thesis using v v0 p c APPLY_GLOBAL wrote_file[of p "to_string (sint v)" dv]
      by (simp add: run_applier_def default_cb_def defaultGlobalLevelApplierCb_def node_paths_def node_text_def)
  qed
qed

lemma default_tear_writes:
  assumes c: "conf_at_device r dv = Some c" and ok: "appliable c r (dv_target dv)"
  shows "\<exists>dv'. run_tear hk (default_cb c) r dv = Some dv' \<and>
    wrote (node_paths hk c r (dv_target dv)) (default_text c dv) dv dv'"
proof -
  obtain v0 where v0: "getValueAt r 0 = Some v0" using ok by (auto simp: appliable_def)
  have t: "default_text c dv' = (\<lambda>p. default_of dv' p @ [newline])" if "mApplyType c \<noteq> APPLY_GLOBAL" for dv'
    using that by (simp add: default_text_def fun_eq_iff)
  show ?thesis
  proof (cases "mApplyType c")
    case APPLY_CLUSTER
    with c wrote_default[of "hk_path_of_int hk (mResourcePath c) (sint (getClusterValue r))" dv] show ?thesis
      by (simp add: run_tear_def default_cb_def defaultClusterLevelTearCb_def node_paths_def t getFullResourceNodePath_def)
  next
    case APPLY_CORE
    have h: "\<exists>dv2. defaultCoreLevelTearHelper hk r i dv' = Some dv2 \<and>
        wrote [hk_path_of_int hk (mResourcePath c) i] (default_text c dv) dv' dv2 \<and> dv_target dv2 = dv_target dv'"
      if "conf_at_device r dv' = Some c" "default_of dv' = default_of dv" for i dv'
      using wrote_default[of "hk_path_of_int hk (mResourcePath c) i" dv'] write_default_target that APPLY_CORE
      by (simp add: defaultCoreLevelTearHelper_def getFullResourceNodePath_def t)
    from for_cores_wrote[where tx = "default_text c dv", OF h c APPLY_CORE] ok show ?thesis
      by (auto simp: run_tear_def default_cb_def APPLY_CORE defaultCoreLevelTearCb_def appliable_def)
  next
    case APPLY_CGROUP
    obtain g T where g: "getCGroupConfig (sint v0) (dv_target dv) = (g, T)" by fastforce
    have cT: "conf_at_device r (dv\<lparr>dv_target := T\<rparr>) = Some c" using c by (simp add: conf_at_device_def)
    have w: "wrote [p] (\<lambda>q. default_of dv q @ [newline]) dv (write_default p (dv\<lparr>dv_target := T\<rparr>))" for p
      using wrote_default[of p "dv\<lparr>dv_target := T\<rparr>"] by (simp add: wrote_from_target)
    show ?thesis using v0 c g w APPLY_CGROUP
      by (auto simp: run_tear_def default_cb_def defaultCGroupLevelTearCb_def node_paths_def t
          cgroup_config_def getCGroupTypeResourceNodePath_def cT wrote_target wrote_nothing split: option.splits)
  next
    case APPLY_GLOBAL
    obtain p where p: "global_path hk r c = Some p" using v0 by (cases "getValuesCount r = 2") (simp_all add: global_path_def)
    obtain v dv' where d: "default_value p dv = (v, dv')" by fastforce
    have "wrote [p] (default_text c dv) dv (dv'\<lparr>dv_world := writeToFile p v (dv_world dv')\<rparr>)"
      using default_value_read[OF d] APPLY_GLOBAL by (simp add: wrote_def contents_write default_text_def)
    with c p d APPLY_GLOBAL show ?thesis
      by (simp add: run_tear_def default_cb_def defaultGlobalLevelTearCb_def node_paths_def)
  qed
qed

end
