(* ===== verification/DeviceEffect.thy ===== *)
theory DeviceEffect
  imports ResourceHooks
begin

text \<open>
  The concurrency table and the files of the device together: every callback the table calls is the
  one configured for the resource, so that the events of the table, played on the device, leave in the
  file of a system-wide resource the value that is in effect, and the default when nothing is.
\<close>

section \<open>The callbacks of the table\<close>

definition logged :: "coco_env \<Rightarrow> coco_event \<Rightarrow> bool" where
  "logged env e =
     (case e of
        CallApply cb r \<Rightarrow> (case conf_of env r of None \<Rightarrow> False | Some c \<Rightarrow> mResourceApplierCallback c = Some cb)
      | CallTear cb r \<Rightarrow> (case conf_of env r of None \<Rightarrow> False | Some c \<Rightarrow> mResourceTearCallback c = Some cb)
      | _ \<Rightarrow> True)"

definition trace_ok :: "coco_env \<Rightarrow> coco_state \<Rightarrow> bool" where
  "trace_ok env st \<longleftrightarrow> list_all (logged env) (c_trace st)"

lemma trace_ok_frame [simp]:
  "trace_ok env (set_cell p s m st) = trace_ok env st"
  "trace_ok env (st\<lparr>c_heap := h\<rparr>) = trace_ok env st"
  "trace_ok env (st\<lparr>mCurrentlyAppliedPriority := l\<rparr>) = trace_ok env st"
  by (simp_all add: trace_ok_def set_cell_def)

lemma trace_ok_log [simp]: "trace_ok env (log_event e st) \<longleftrightarrow> logged env e \<and> trace_ok env st"
  by (simp add: trace_ok_def log_event_def)

lemma logged_timers [simp]: "logged env (TimerStart t d)" "logged env (TimerKill t)" "logged env (TimerFree t)"
  by (simp_all add: logged_def)

lemma call_applier_trace:
  "conf_of env r = Some c \<Longrightarrow> trace_ok env st \<Longrightarrow> trace_ok env (call_applier c r st)"
  by (auto simp: call_applier_def logged_def split: option.split)

lemma applyAction_trace:
  "applyAction env n p prio st = Some st' \<Longrightarrow> trace_ok env st \<longrightarrow> trace_ok env st'"
  by (auto simp: applyAction_def call_applier_trace split: option.splits Option.bind_splits if_splits)

lemma fastPathApply_trace: "fastPathApply env r st = Some st' \<Longrightarrow> trace_ok env st \<longrightarrow> trace_ok env st'"
  by (auto simp: fastPathApply_def call_applier_trace split: Option.bind_splits)

lemma removeAction_trace: "removeAction env p r st = Some st' \<Longrightarrow> trace_ok env st \<longrightarrow> trace_ok env st'"
  by (auto simp: removeAction_def logged_def split: option.splits if_splits)

lemma fastPathReset_trace: "fastPathReset env r st = Some st' \<Longrightarrow> trace_ok env st \<longrightarrow> trace_ok env st'"
  by (auto simp: fastPathReset_def logged_def split: option.splits Option.bind_splits if_splits)

lemma insert_and_apply_trace:
  "insert_and_apply env n p s prio res st = Some st' \<Longrightarrow> trace_ok env st \<longrightarrow> trace_ok env st'"
  by (auto simp: insert_and_apply_def Let_def split: Option.bind_splits if_splits dest!: applyAction_trace)

lemma insertInCocoTable_trace:
  "insertInCocoTable env n prio st = Some (b, st') \<Longrightarrow> trace_ok env st \<longrightarrow> trace_ok env st'"
  by (auto simp: insertInCocoTable_def Let_def split: option.splits Option.bind_splits if_splits Policy.splits
      dest!: insert_and_apply_trace fastPathApply_trace)

lemma reapply_trace: "reapply env r p st = Some st' \<Longrightarrow> trace_ok env st \<longrightarrow> trace_ok env st'"
  by (auto simp: reapply_def Let_def split: option.splits Option.bind_splits if_splits
      dest!: applyAction_trace removeAction_trace)

lemma removeNode_trace: "removeNode env prio n st = Some st' \<Longrightarrow> trace_ok env st \<longrightarrow> trace_ok env st'"
  by (auto simp: removeNode_def Let_def split: Option.bind_splits if_splits
      dest!: applyAction_trace reapply_trace fastPathReset_trace)

text \<open>What every run of the body keeps, the loop over a list keeps.\<close>

lemma dl_iterate_keeps:
  assumes "\<And>a s t. body a s = Some t \<Longrightarrow> P s \<Longrightarrow> P t" "dl_iterate k hp body iter s = Some t" "P s"
  shows "P t"
proof -
  have "(\<forall>a s t. body a s = Some t \<longrightarrow> P s \<longrightarrow> P t) \<longrightarrow> P s \<longrightarrow> P t"
  proof (rule dl_iterate.raw_induct[where P = "\<lambda>k hp body iter s t. (\<forall>a s t. body a s = Some t \<longrightarrow> P s \<longrightarrow> P t) \<longrightarrow> P s \<longrightarrow> P t",
        OF _ assms(2)], intro impI)
    fix self k hp body iter s t
    assume ih: "\<And>k hp body iter s t. self k hp body iter s = Some t \<Longrightarrow>
        (\<forall>a s t. body a s = Some t \<longrightarrow> P s \<longrightarrow> P t) \<longrightarrow> P s \<longrightarrow> P t"
      and step: "(case iter of None \<Rightarrow> Some s | Some a \<Rightarrow> Option.bind (body a s) (\<lambda>s'.
          Option.bind (getNextPtr (hp s') a k) (\<lambda>nx. self k hp body nx s'))) = Some t"
      and b: "\<forall>a s t. body a s = Some t \<longrightarrow> P s \<longrightarrow> P t" and s: "P s"
    show "P t"
    proof (cases iter)
      case None
      with step s show ?thesis by simp
    next
      case (Some a)
      with step obtain s' nx where "body a s = Some s'" "self k hp body nx s' = Some t"
        by (auto split: Option.bind_splits)
      with ih[OF this(2)] b s show ?thesis by blast
    qed
  qed
  with assms(1,3) show ?thesis by blast
qed

lemma insertRequest_trace: "insertRequest env tb ok req st = Some (b, req', st') \<Longrightarrow> trace_ok env st \<longrightarrow> trace_ok env st'"
proof
  assume r: "insertRequest env tb ok req st = Some (b, req', st')" and st: "trace_ok env st"
  have body: "trace_ok env (snd t)" if "insert_body env prio a s = Some t" "trace_ok env (snd s)" for prio a s t
    using that insertInCocoTable_trace by (cases s) (fastforce simp: insert_body_def)
  have loop: "trace_ok env (snd t)"
    if "dl_iterate k (\<lambda>cs. c_heap (snd cs)) (insert_body env prio) iter (0, st) = Some t" for k prio iter t
    by (rule dl_iterate_keeps[where P = "\<lambda>t. trace_ok env (snd t)", OF body that]) (simp_all add: st)
  have finish: "finish_insert ok tm rq t = (b, rq', st2) \<Longrightarrow> trace_ok env (snd t) \<Longrightarrow> trace_ok env st2" for tm rq t rq' st2
    by (cases t) (auto simp: finish_insert_def split: if_splits option.splits)
  from r st show "trace_ok env st'"
    by (auto simp: insertRequest_def Let_def split: option.splits if_splits dest!: loop intro: finish)
qed

lemma updateRequest_trace: "updateRequest tb ok req d st = Some (b, req', st') \<Longrightarrow> trace_ok env st \<longrightarrow> trace_ok env st'"
  by (auto simp: updateRequest_def Let_def split: option.splits if_splits)

lemma removeRequest_trace: "removeRequest env req st = Some (rc, st') \<Longrightarrow> trace_ok env st \<longrightarrow> trace_ok env st'"
proof
  assume r: "removeRequest env req st = Some (rc, st')" and st: "trace_ok env st"
  have keep: "trace_ok env t" if "dl_iterate k hp (removeNode env prio) iter st = Some t" for k hp prio iter t
    by (rule dl_iterate_keeps[where P = "trace_ok env", OF _ that]) (auto simp: st dest: removeNode_trace)
  from r st show "trace_ok env st'"
    by (auto simp: removeRequest_def Let_def split: option.splits Option.bind_splits if_splits dest!: keep)
qed

lemma coco_step_trace: "coco_step env s s' \<Longrightarrow> trace_ok env (fst s) \<Longrightarrow> trace_ok env (fst s')"
  by (induction rule: coco_step.induct) (auto dest!: insertRequest_trace updateRequest_trace removeRequest_trace)

lemma coco_reach_trace: "coco_reach env s0 s \<Longrightarrow> trace_ok env (fst s0) \<Longrightarrow> trace_ok env (fst s)"
  by (induction rule: coco_reach.induct) (auto dest: coco_step_trace)

section \<open>The file of a resource\<close>

text \<open>
  The device as one file sees it: what the file holds, whether it opens, the default stored for it, and
  the resources the registry knows.
\<close>

definition same_file :: "string \<Rightarrow> device \<Rightarrow> device \<Rightarrow> bool" where
  "same_file p dv dv' \<longleftrightarrow> contents (dv_world dv') p = contents (dv_world dv) p \<and>
     opens (dv_world dv') p = opens (dv_world dv) p \<and> default_of dv' p = default_of dv p \<and>
     getResConf (dv_registry dv') = getResConf (dv_registry dv)"

text \<open>
  The callback of another resource returns, and leaves a file as it is, on every device with the
  registry of the table.
\<close>

definition spares :: "hook_env \<Rightarrow> coco_env \<Rightarrow> u32 \<Rightarrow> string \<Rightarrow> coco_event \<Rightarrow> bool" where
  "spares hk env k p e \<longleftrightarrow>
     (\<forall>dv. getResConf (dv_registry dv) = getResConf (ce_registry env) \<longrightarrow>
        (case e of
           CallApply cb r \<Rightarrow> mResCode r \<noteq> k \<longrightarrow> (\<exists>dv'. run_applier hk cb r dv = Some dv' \<and> same_file p dv dv')
         | CallTear cb r \<Rightarrow> mResCode r \<noteq> k \<longrightarrow> (\<exists>dv'. run_tear hk cb r dv = Some dv' \<and> same_file p dv dv')
         | _ \<Rightarrow> True))"

text \<open>The resource of an event has a readable value, and does not name an instance of the file with a second one.\<close>

definition single_valued :: "u32 \<Rightarrow> coco_event \<Rightarrow> bool" where
  "single_valued k e =
     (case e of
        CallApply cb r \<Rightarrow> mResCode r = k \<longrightarrow> getValuesCount r \<noteq> 2 \<and> getValueAt r 0 \<noteq> None
      | CallTear cb r \<Rightarrow> mResCode r = k \<longrightarrow> getValuesCount r \<noteq> 2
      | _ \<Rightarrow> True)"

definition shown :: "resource option \<Rightarrow> string \<Rightarrow> string" where
  "shown eff d = (case eff of None \<Rightarrow> d
     | Some r \<Rightarrow> (case getValueAt r 0 of None \<Rightarrow> [] | Some v \<Rightarrow> to_string (sint v)))"

text \<open>The two callbacks of a system-wide resource with one value.\<close>

lemma global_applier_wrote:
  assumes "conf_at_device r dv = Some c" "getValuesCount r \<noteq> 2" "getValueAt r 0 = Some v"
  shows "\<exists>dv'. run_applier hk DefaultGlobalCb r dv = Some dv' \<and> wrote [mResourcePath c] (\<lambda>_. to_string (sint v)) dv dv'"
  using assms wrote_file[of "mResourcePath c" "to_string (sint v)" dv]
  by (simp add: run_applier_def defaultGlobalLevelApplierCb_def global_path_def)

lemma global_tear_wrote:
  assumes "conf_at_device r dv = Some c" "getValuesCount r \<noteq> 2"
  shows "\<exists>dv'. run_tear hk DefaultGlobalCb r dv = Some dv' \<and> wrote [mResourcePath c] (default_of dv) dv dv'"
proof -
  obtain v dv' where d: "default_value (mResourcePath c) dv = (v, dv')" by fastforce
  from default_value_read[OF d] assms d show ?thesis
    by (simp add: run_tear_def defaultGlobalLevelTearCb_def global_path_def contents_write wrote_def)
qed

text \<open>System-wide resources with files of their own spare a file.\<close>

lemma wrote_same_file: "wrote ps tx dv dv' \<Longrightarrow> p \<notin> set ps \<Longrightarrow> same_file p dv dv'"
  by (simp add: wrote_def same_file_def)

lemma global_spares:
  assumes "conf_of env r = Some c" "mResourcePath c \<noteq> p" "getValuesCount r \<noteq> 2" "getValueAt r 0 = Some v"
  shows "spares hk env k p (CallApply DefaultGlobalCb r)" "spares hk env k p (CallTear DefaultGlobalCb r)"
proof -
  have at: "conf_at_device r dv = Some c" if "getResConf (dv_registry dv) = getResConf (ce_registry env)" for dv
    using that assms(1) by (simp add: conf_at_device_def conf_of_def)
  have p: "p \<notin> set [mResourcePath c]" using assms(2) by simp
  show "spares hk env k p (CallApply DefaultGlobalCb r)"
    using global_applier_wrote[OF at assms(3,4)] wrote_same_file[OF _ p] by (simp add: spares_def) metis
  show "spares hk env k p (CallTear DefaultGlobalCb r)"
    using global_tear_wrote[OF at assms(3)] wrote_same_file[OF _ p] by (simp add: spares_def) metis
qed

text \<open>After any events of the table the file shows what is in effect.\<close>

lemma play_shows:
  assumes k: "getResConf (ce_registry env) k = Some c"
    and cb: "mResourceApplierCallback c = Some DefaultGlobalCb" "mResourceTearCallback c = Some DefaultGlobalCb"
    and p: "p = mResourcePath c" "p \<noteq> []" "opens (dv_world dv0) p" "contents (dv_world dv0) p = Some (default_of dv0 p)"
    and reg: "getResConf (dv_registry dv0) = getResConf (ce_registry env)"
    and es: "list_all (logged env) es" "list_all (single_valued k) es" "list_all (spares hk env k p) es"
  shows "\<exists>dv. play hk es dv0 = Some dv \<and> contents (dv_world dv) p = Some (shown (in_effect k es) (default_of dv0 p)) \<and>
    opens (dv_world dv) p \<and> default_of dv p = default_of dv0 p \<and> getResConf (dv_registry dv) = getResConf (ce_registry env)"
  using es
proof (induction es)
  case Nil
  then show ?case using p reg by (simp add: shown_def)
next
  case (Cons e es)
  then obtain dv where dv: "play hk es dv0 = Some dv"
    "contents (dv_world dv) p = Some (shown (in_effect k es) (default_of dv0 p))"
    "opens (dv_world dv) p" "default_of dv p = default_of dv0 p" "getResConf (dv_registry dv) = getResConf (ce_registry env)" by auto
  have at: "conf_at_device r dv = Some c" if "mResCode r = k" for r
    using that k dv(5) by (simp add: conf_at_device_def)
  have sp: "spares hk env k p e" using Cons.prems by simp
  show ?case
  proof (cases e)
    case (CallApply cb' r)
    then obtain cr where cr: "conf_of env r = Some cr" "mResourceApplierCallback cr = Some cb'"
      using Cons.prems by (auto simp: logged_def split: option.splits)
    show ?thesis
    proof (cases "mResCode r = k")
      case True
      with cr k cb CallApply Cons.prems obtain v where v: "cb' = DefaultGlobalCb" "getValuesCount r \<noteq> 2" "getValueAt r 0 = Some v"
        by (auto simp: conf_of_def single_valued_def)
      from global_applier_wrote[OF at[OF True] v(2,3), of hk] show ?thesis
        using dv True CallApply v p(1,2) by (auto simp: shown_def wrote_def)
    next
      case False
      with sp CallApply dv(5) obtain dv' where "run_applier hk cb' r dv = Some dv'" "same_file p dv dv'"
        by (auto simp: spares_def)
      with dv False CallApply show ?thesis by (simp add: same_file_def)
    qed
  next
    case (CallTear cb' r)
    then obtain cr where cr: "conf_of env r = Some cr" "mResourceTearCallback cr = Some cb'"
      using Cons.prems by (auto simp: logged_def split: option.splits)
    show ?thesis
    proof (cases "mResCode r = k")
      case True
      with cr k cb CallTear Cons.prems have v: "cb' = DefaultGlobalCb" "getValuesCount r \<noteq> 2"
        by (auto simp: conf_of_def single_valued_def)
      from global_tear_wrote[OF at[OF True] v(2), of hk] show ?thesis
        using dv True CallTear v p(1,2) by (auto simp: shown_def wrote_def)
    next
      case False
      with sp CallTear dv(5) obtain dv' where "run_tear hk cb' r dv = Some dv'" "same_file p dv dv'"
        by (auto simp: spares_def)
      with dv False CallTear show ?thesis by (simp add: same_file_def)
    qed
  qed (use dv in auto)
qed

text \<open>
  The calls the theorem about files allows: of the default callbacks of system-wide resources, for a resource with one
  readable value that is the one in question or has a file of its own; and of other callbacks that spare the file.
\<close>

definition plain_call :: "coco_env \<Rightarrow> u32 \<Rightarrow> string \<Rightarrow> lifecycle_cb \<Rightarrow> resource \<Rightarrow> bool" where
  "plain_call env k p cb r \<longleftrightarrow> getValuesCount r \<noteq> 2 \<and> getValueAt r 0 \<noteq> None \<and>
     (mResCode r = k \<or> cb = DefaultGlobalCb \<and> (\<exists>c. conf_of env r = Some c \<and> mResourcePath c \<noteq> p))"

definition harmless :: "hook_env \<Rightarrow> coco_env \<Rightarrow> u32 \<Rightarrow> string \<Rightarrow> coco_event \<Rightarrow> bool" where
  "harmless hk env k p e \<longleftrightarrow>
     (case e of
        CallApply cb r \<Rightarrow> plain_call env k p cb r \<or> mResCode r \<noteq> k \<and> spares hk env k p e
      | CallTear cb r \<Rightarrow> plain_call env k p cb r \<or> mResCode r \<noteq> k \<and> spares hk env k p e
      | _ \<Rightarrow> True)"

lemma harmless_spares: "harmless hk env k p e \<Longrightarrow> spares hk env k p e \<and> single_valued k e"
proof -
  have own: "spares hk env k p (CallApply cb r)" "spares hk env k p (CallTear cb r)" if "mResCode r = k" for cb r
    using that by (simp_all add: spares_def)
  have plain: "spares hk env k p (CallApply cb r) \<and> spares hk env k p (CallTear cb r)" if "plain_call env k p cb r" for cb r
    using that own[of r cb] global_spares[of env r _ p _ hk k] by (cases "mResCode r = k") (auto simp: plain_call_def)
  show "harmless hk env k p e \<Longrightarrow> spares hk env k p e \<and> single_valued k e"
    using plain by (cases e) (auto simp: harmless_def single_valued_def spares_def[of hk env k p "TimerStart _ _"]
        spares_def[of hk env k p "TimerKill _"] spares_def[of hk env k p "TimerFree _"] plain_call_def)
qed

lemma harmless_trace:
  "list_all (harmless hk env k p) es \<Longrightarrow> list_all (single_valued k) es \<and> list_all (spares hk env k p) es"
  using harmless_spares by (induction es) auto

end
