(* ===== verification/DeviceSamples.thy ===== *)
theory DeviceSamples
  imports DeviceEffect Samples
begin

text \<open>
  A device with the file of the sample resource, and one with a resource of each core, for the witnesses.
\<close>

definition sample_hooks :: hook_env where
  "sample_hooks = \<lparr>hk_path_of_int = (\<lambda>p i. p @ to_string i), hk_path_of_name = (\<lambda>p _. p), hk_baseCGroupPath = ''/sys/fs/cgroup/'',
     hk_sched_setaffinity = (\<lambda>_ cpus. Some cpus), hk_applier = (\<lambda>_ _ dv. Some dv), hk_tear = (\<lambda>_ _ dv. Some dv)\<rparr>"

definition sample_target :: target where
  "sample_target = \<lparr>mLogicalToPhysicalClusterMapping = [], mPhysicalClusters = [], mCGroupMapping = [], mMpamGroupMapping = [],
     mCacheInfoMapping = [], mTotalCoreCount = 4, mTotalClusterCount = 1\<rparr>"

definition sample_device :: device where
  "sample_device = \<lparr>dv_world = \<lparr>contents = (\<lambda>_. Some ''0''), opens = (\<lambda>_. True), entries = (\<lambda>_. None),
     mkdir = (\<lambda>_. MkdirOk), written = []\<rparr>, dv_registry = sample_registry, dv_target = sample_target, dv_affinity = (\<lambda>_. None)\<rparr>"

definition sample_core_conf :: ResConfInfo where
  "sample_core_conf = sample_conf\<lparr>mResourcePath := ''/c'', mApplyType := APPLY_CORE, mUnit := 1000\<rparr>"

definition sample_core_device :: device where
  "sample_core_device = sample_device\<lparr>
     dv_registry := ResourceRegistry_init\<lparr>mResourceConfigs := [sample_core_conf], mSILMap := [sample_code \<mapsto> 0],
       mDefaultValueStore := [''/c1'' \<mapsto> ''7'']\<rparr>,
     dv_target := sample_target\<lparr>mPhysicalClusters :=
       [(0, Some \<lparr>mPhysicalID = 0, mCapacity = 100, mStartCpu = 0, mNumCpus = 2\<rparr>)]\<rparr>\<rparr>"

section \<open>Two resources\<close>

text \<open>A second system-wide resource with a file of its own, and a request for each.\<close>

definition pair_conf :: ResConfInfo where
  "pair_conf = sample_conf\<lparr>mResourceResID := 1, mResourcePath := ''/proc/sys/kernel/sched_boost''\<rparr>"

definition pair_code :: u32 where "pair_code = 196609"

definition pair_registry :: resource_registry where
  "pair_registry = (case foldM (\<lambda>c. registerResource sample_renv (Some c)) [sample_conf, pair_conf] ResourceRegistry_init of
     None \<Rightarrow> ResourceRegistry_init | Some rr \<Rightarrow> rr)"

definition pair_env :: coco_env where
  "pair_env = \<lparr>ce_registry = pair_registry, ce_mode = MODE_RESUME\<rparr>"

definition pair_resource :: resource where
  "pair_resource = (sample_resource 5)\<lparr>mResCode := pair_code\<rparr>"

definition pair_heap :: res_heap where
  "pair_heap = [1 \<mapsto> (sample_node 0)\<lparr>mData := pair_resource\<rparr>, 2 \<mapsto> sample_node 700]"

definition pair_state :: coco_state where
  "pair_state = CocoTable_init pair_registry [0] [] 4 1 0 pair_heap"

definition pair_device :: device where
  "pair_device = sample_device\<lparr>dv_registry := pair_registry\<rparr>"

definition pair_insert :: "i32 \<Rightarrow> addr \<Rightarrow> coco_state \<Rightarrow> (request \<times> coco_state) option" where
  "pair_insert prio a st =
     (case insertRequest pair_env None True (Some (sample_request prio a)) st of
        Some (True, Some r, st') \<Rightarrow> Some (r, st') | _ \<Rightarrow> None)"

lemma pair_insertD:
  "pair_insert prio a st = Some (r, st') \<Longrightarrow>
     insertRequest pair_env None True (Some (sample_request prio a)) st = Some (True, Some r, st')"
  by (auto simp: pair_insert_def split: option.splits bool.splits)

definition pair_run :: "(active \<times> coco_state) option" where
  "pair_run = do {
     (r1, st1) \<leftarrow> pair_insert 1 2 pair_state;
     (r2, st2) \<leftarrow> pair_insert 0 1 st1;
     Some ([(r2, [1]), (r1, [2])], st2) }"

definition pair_trace :: "coco_event list" where
  "pair_trace = [CallApply DefaultGlobalCb pair_resource, CallApply DefaultGlobalCb (sample_resource 700)]"

lemma pair_run_trace: "map_option (\<lambda>(A, st). c_trace st) pair_run = Some pair_trace"
  by code_simp

lemma pair_mid:
  "map_option (\<lambda>(r, st). (dl_data (c_heap st) 1, links (c_heap st) 1 0)) (pair_insert 1 2 pair_state) =
     Some (Some pair_resource, Some (None, None))"
  by code_simp

lemma pair_registry_spec:
  "reg_inv pair_registry"
  "getResConf pair_registry k = (if k = sample_code then Some (setLifeCycleCallbacks sample_conf)
     else if k = pair_code then Some (setLifeCycleCallbacks pair_conf) else None)"
proof -
  from res_directory.add_all[OF ResourceRegistry_init_inv, of sample_renv "[sample_conf, pair_conf]"] obtain rr where
    r: "foldM (\<lambda>c. registerResource sample_renv (Some c)) [sample_conf, pair_conf] ResourceRegistry_init = Some rr" "reg_inv rr"
    "\<And>k. getResConf rr k =
       (case find (\<lambda>c. resourceBitmap c = k) (rev (filter (\<lambda>c. mResourceResType c \<noteq> 0) [sample_conf, pair_conf])) of
          Some c \<Rightarrow> Some (setLifeCycleCallbacks c) | None \<Rightarrow> getResConf ResourceRegistry_init k)" by blast
  then have s: "pair_registry = rr" by (simp add: pair_registry_def)
  show "reg_inv pair_registry" by (simp add: s r(2))
  have "resourceBitmap pair_conf = pair_code" by code_simp
  moreover have "mResourceResType sample_conf \<noteq> 0" "mResourceResType pair_conf \<noteq> 0"
    by (simp_all add: sample_conf_def pair_conf_def)
  moreover have "getResConf ResourceRegistry_init k = None" by (simp add: ResourceRegistry_init_def getResConf_def)
  moreover have "sample_code \<noteq> pair_code" by (simp add: sample_code_def pair_code_def)
  ultimately show "getResConf pair_registry k = (if k = sample_code then Some (setLifeCycleCallbacks sample_conf)
     else if k = pair_code then Some (setLifeCycleCallbacks pair_conf) else None)"
    unfolding s r(3) using sample_conf_code by auto
qed

lemma pair_env_good: "good_env pair_env"
  by (simp add: good_env_def pair_env_def pair_registry_spec setLifeCycleCallbacks_def sample_conf_def pair_conf_def)

lemma pair_managed:
  "getResConf (ce_registry pair_env) sample_code = Some (setLifeCycleCallbacks sample_conf)"
  "managed pair_env (setLifeCycleCallbacks sample_conf)"
  by (simp_all add: pair_env_def pair_registry_spec managed_def setLifeCycleCallbacks_def sample_conf_def MODE_RESUME_def)

lemma pair_nodes:
  assumes "dl_data (c_heap st) a = Some r" "r = pair_resource \<or> r = sample_resource v" "links (c_heap st) a 0 = Some (None, None)"
    and "prio \<in> {0, 1}"
  shows "request_nodes st (sample_request prio a) [a]"
proof -
  have "node_for st a r"
    using assms(1,2) by (auto simp: node_for_def comparable_def pair_resource_def sample_resource_def
        compared_value_def getValuesCount_def getValueAt_def inline_value_def)
  moreover have "dl_list (c_heap st) (sample_list a) [a]" using assms(3) by (simp add: dl_list_def sample_list_def)
  moreover have "sint (getPriority (sample_request prio a)) = uint prio"
    using assms(4) by (auto simp: getPriority_def sample_request_def)
  ultimately show ?thesis using assms(4)
    by (auto simp: request_nodes_def req_list_def sample_request_def sample_list_def REQUEST_DL_NR_def)
qed

lemma pair_reach:
  "\<exists>r1 r2 st. coco_reach pair_env (CocoTable_init (ce_registry pair_env) [0] [] 4 1 0 pair_heap, []) (st, [(r2, [1]), (r1, [2])]) \<and>
     c_trace st = pair_trace"
proof -
  from pair_run_trace obtain r1 st1 r2 st2 where s: "pair_insert 1 2 pair_state = Some (r1, st1)"
    "pair_insert 0 1 st1 = Some (r2, st2)" "c_trace st2 = pair_trace"
    by (auto simp: pair_run_def bind_eq_Some_conv)
  have "request_nodes pair_state (sample_request 1 2) [2]"
    by (rule pair_nodes[of _ _ "sample_resource 700" 700])
      (simp_all add: pair_state_def CocoTable_init_def pair_heap_def dl_data_def links_def sample_node_def)
  then have "coco_step pair_env (pair_state, []) (st1, [(r1, [2])])"
    by (rule coco_step.tune[OF _ _ pair_insertD[OF s(1)]]) simp
  moreover have "request_nodes st1 (sample_request 0 1) [1]"
    by (rule pair_nodes[of _ _ pair_resource 0]) (use pair_mid s(1) in simp_all)
  then have "coco_step pair_env (st1, [(r1, [2])]) (st2, [(r2, [1]), (r1, [2])])"
    by (rule coco_step.tune[OF _ _ pair_insertD[OF s(2)]]) simp
  ultimately have "coco_reach pair_env (pair_state, []) (st2, [(r2, [1]), (r1, [2])])" by (meson reach_start reach_step)
  then have "coco_reach pair_env (CocoTable_init (ce_registry pair_env) [0] [] 4 1 0 pair_heap, []) (st2, [(r2, [1]), (r1, [2])])"
    by (simp add: pair_state_def pair_env_def)
  with s(3) show ?thesis by blast
qed

lemma pair_harmless:
  "list_all (harmless sample_hooks pair_env sample_code (mResourcePath sample_conf)) pair_trace"
  by (simp add: pair_trace_def harmless_def plain_call_def conf_of_def pair_env_def pair_registry_spec pair_resource_def
      sample_resource_def pair_code_def sample_code_def getValuesCount_def getValueAt_def inline_value_def
      setLifeCycleCallbacks_def sample_conf_def pair_conf_def)

end
