(* ===== verification/LinkedQueue.thy ===== *)
theory LinkedQueue
  imports Prelude
begin

text \<open>
  The queue of linked nodes with a head and a tail pointer that the memory pools and the thread pool
  build by hand: appending a node behind the tail and removing the head are each written out several times
  in \<^verbatim>\<open>modula/Components/MemoryPool.cpp\<close> and \<^verbatim>\<open>ThreadPool.cpp\<close>. The lemmas are proved once for
  any kind of node that has a next pointer.
\<close>

section \<open>The two operations\<close>

text \<open>
  \<open>if(head == nullptr) head = tail = a; else tail->next = a, tail = tail->next\<close>; \<^const>\<open>None\<close> for a
  null or dangling pointer.
\<close>

definition link_tail ::
    "(nat option \<Rightarrow> 'n \<Rightarrow> 'n) \<Rightarrow> nat \<Rightarrow> nat option \<Rightarrow> nat option \<Rightarrow> (nat \<rightharpoonup> 'n) \<Rightarrow>
     (nat option \<times> nat option \<times> (nat \<rightharpoonup> 'n)) option" where
  "link_tail set_nx a hd' tl' h =
     (case hd' of
        None \<Rightarrow> Some (Some a, Some a, h)
      | Some _ \<Rightarrow> do { t \<leftarrow> tl'; n \<leftarrow> h t; Some (hd', Some a, h(t \<mapsto> set_nx (Some a) n)) })"

text \<open>\<open>node = head, head = head->next, if(head == nullptr) tail = nullptr\<close>\<close>

definition unlink_head ::
    "('n \<Rightarrow> nat option) \<Rightarrow> nat option \<Rightarrow> nat option \<Rightarrow> (nat \<rightharpoonup> 'n) \<Rightarrow> (nat \<times> nat option \<times> nat option) option" where
  "unlink_head nx hd' tl' h = do {
     a \<leftarrow> hd'; n \<leftarrow> h a;
     Some (a, nx n, if nx n = None then None else tl') }"

section \<open>What they represent\<close>

fun chain :: "('n \<Rightarrow> nat option) \<Rightarrow> (nat \<rightharpoonup> 'n) \<Rightarrow> nat option \<Rightarrow> nat list \<Rightarrow> bool" where
  "chain nx h p [] = (p = None)"
| "chain nx h p (a # as) = (p = Some a \<and> (\<exists>n. h a = Some n \<and> chain nx h (nx n) as))"

definition queue_rel :: "('n \<Rightarrow> nat option) \<Rightarrow> (nat \<rightharpoonup> 'n) \<Rightarrow> nat option \<Rightarrow> nat option \<Rightarrow> nat list \<Rightarrow> bool" where
  "queue_rel nx h hd' tl' xs \<longleftrightarrow>
     chain nx h hd' xs \<and> distinct xs \<and> tl' = (if xs = [] then None else Some (last xs))"

lemma chain_other: "a \<notin> set xs \<Longrightarrow> chain nx (h(a := x)) p xs = chain nx h p xs"
  by (induction xs arbitrary: p) auto

lemma chain_dom: "chain nx h p xs \<Longrightarrow> a \<in> set xs \<Longrightarrow> h a \<noteq> None"
  by (induction xs arbitrary: p) auto

lemma chain_cong: "(\<And>a. a \<in> set xs \<Longrightarrow> h' a = h a) \<Longrightarrow> chain nx h' p xs = chain nx h p xs"
  by (induction xs arbitrary: p) auto

lemma chain_head: "chain nx h p xs \<Longrightarrow> p = (if xs = [] then None else Some (hd xs))"
  by (cases xs) auto

lemma chain_deterministic: "chain nx h p xs \<Longrightarrow> chain nx h p ys \<Longrightarrow> xs = ys"
proof (induction xs arbitrary: p ys)
  case Nil
  then show ?case by (cases ys) auto
next
  case (Cons a xs)
  then show ?case by (cases ys) auto
qed

lemma queue_rel_other: "a \<notin> set xs \<Longrightarrow> queue_rel nx (h(a := x)) p q xs = queue_rel nx h p q xs"
  by (simp add: queue_rel_def chain_other)

lemma queue_rel_empty [simp]: "queue_rel nx h None None []"
  by (simp add: queue_rel_def)

lemma unlink_head_rel:
  assumes "queue_rel nx h hd' tl' (a # as)"
  shows "\<exists>n tl2. h a = Some n \<and> unlink_head nx hd' tl' h = Some (a, nx n, tl2) \<and> queue_rel nx h (nx n) tl2 as"
proof -
  from assms obtain n where n: "hd' = Some a" "h a = Some n" "chain nx h (nx n) as" by (auto simp: queue_rel_def)
  then have "(nx n = None) = (as = [])" by (cases as) auto
  with assms n show ?thesis by (auto simp: queue_rel_def unlink_head_def)
qed

section \<open>Nodes with a next pointer\<close>

locale linked_nodes =
  fixes nx :: "'n \<Rightarrow> nat option" and set_nx :: "nat option \<Rightarrow> 'n \<Rightarrow> 'n"
  assumes nx_set: "nx (set_nx p n) = p"
begin

lemma chain_append:
  "chain nx h p (xs @ [t]) \<Longrightarrow> distinct (xs @ [t]) \<Longrightarrow> a \<notin> set (xs @ [t]) \<Longrightarrow> h t = Some n \<Longrightarrow>
     h a = Some m \<Longrightarrow> nx m = None \<Longrightarrow> chain nx (h(t \<mapsto> set_nx (Some a) n)) p (xs @ [t, a])"
  by (induction xs arbitrary: p) (auto simp: nx_set)

lemma link_tail_rel:
  assumes q: "queue_rel nx h hd' tl' xs" and a: "a \<notin> set xs" "h a = Some m" "nx m = None"
  shows "\<exists>hd2 tl2 h2. link_tail set_nx a hd' tl' h = Some (hd2, tl2, h2) \<and> queue_rel nx h2 hd2 tl2 (xs @ [a]) \<and>
    h2 = (if xs = [] then h else h(last xs := map_option (set_nx (Some a)) (h (last xs))))"
proof (cases "xs = []")
  case True
  with q a show ?thesis by (simp add: queue_rel_def link_tail_def)
next
  case False
  then obtain ys t where xs: "xs = ys @ [t]" by (metis rev_exhaust)
  with q have c: "chain nx h hd' (ys @ [t])" "distinct (ys @ [t])" "tl' = Some t" by (auto simp: queue_rel_def)
  then obtain n where n: "h t = Some n" using chain_dom[OF c(1), of t] by auto
  have "hd' \<noteq> None" using chain_head[OF c(1)] by simp
  then have "link_tail set_nx a hd' tl' h = Some (hd', Some a, h(t \<mapsto> set_nx (Some a) n))"
    using c(3) n by (auto simp: link_tail_def)
  moreover have "queue_rel nx (h(t \<mapsto> set_nx (Some a) n)) hd' (Some a) (xs @ [a])"
    using chain_append[OF c(1,2) _ n a(2,3)] a(1) c(2) by (simp add: queue_rel_def xs)
  ultimately show ?thesis using n xs by auto
qed

end

end
