(* ===== verification/ThreadPool.thy ===== *)
theory ThreadPool
  imports LinkedQueue SafeOps
begin

text \<open>
  \<^verbatim>\<open>modula/Components/ThreadPool.cpp\<close> and \<^verbatim>\<open>Timer.cpp\<close>: the queue of tasks, the admission of tasks and the growth of
  the pool, one round of a worker thread, and timers as tasks. Threads are steps of a relation; blocks of
  the memory pools and the creation of threads are arguments. What is proved: tasks are run in the order
  in which they were accepted, each once, and the counters of the pool say what they should.
\<close>

section \<open>The queue of tasks\<close>

text \<open>A task is identified by a number; \<open>tn_taskCallback\<close> is the function in the block the node points to.\<close>

type_synonym task_fn = nat

record task_node =
  tn_taskCallback :: "task_fn option"
  tn_args :: nat
  tn_next :: "addr option"

record task_queue =
  tq_nodes :: "addr \<rightharpoonup> task_node"
  tq_size :: int
  tq_head :: "addr option"
  tq_tail :: "addr option"

interpretation tasks: linked_nodes tn_next "\<lambda>p n. n\<lparr>tn_next := p\<rparr>"
  by unfold_locales simp

definition TaskQueue_init :: task_queue where
  "TaskQueue_init = \<lparr>tq_nodes = (\<lambda>_. None), tq_size = 0, tq_head = None, tq_tail = None\<rparr>"

definition TaskQueue_add :: "addr option \<Rightarrow> task_queue \<Rightarrow> task_queue option" where
  "TaskQueue_add taskNode Q =
     (case taskNode of None \<Rightarrow> Some Q
      | Some a \<Rightarrow> do {
          (hd', tl', h) \<leftarrow> link_tail (\<lambda>p n. n\<lparr>tn_next := p\<rparr>) a (tq_head Q) (tq_tail Q) (tq_nodes Q);
          n \<leftarrow> arith 32 (tq_size Q + 1);
          Some (Q\<lparr>tq_head := hd', tq_tail := tl', tq_nodes := h, tq_size := n\<rparr>) })"

definition TaskQueue_poll :: "task_queue \<Rightarrow> (addr option \<times> task_queue) option" where
  "TaskQueue_poll Q =
     (if tq_size Q > 0 \<and> tq_head Q \<noteq> None then do {
        (a, hd', tl') \<leftarrow> unlink_head tn_next (tq_head Q) (tq_tail Q) (tq_nodes Q);
        n \<leftarrow> arith 32 (tq_size Q - 1);
        Some (Some a, Q\<lparr>tq_head := hd', tq_tail := tl', tq_size := n\<rparr>) }
      else Some (None, Q))"

definition TaskQueue_isEmpty :: "task_queue \<Rightarrow> bool" where
  "TaskQueue_isEmpty Q \<longleftrightarrow> tq_size Q = 0"

definition TaskQueue_getSize :: "task_queue \<Rightarrow> int" where
  "TaskQueue_getSize Q = tq_size Q"

section \<open>The pool\<close>

record thread_node =
  th_thread :: bool
  th_next :: "addr option"

record thread_pool =
  mDesiredPoolCapacity :: int
  mMaxPoolCapacity :: int
  mCurrentThreadsCount :: int
  mTerminatePool :: bool
  mCurrentTasks :: task_queue
  mThreadQueueHead :: "addr option"
  mThreadQueueTail :: "addr option"
  tp_threads :: "addr \<rightharpoonup> thread_node"

interpretation threads: linked_nodes th_next "\<lambda>p n. n\<lparr>th_next := p\<rparr>"
  by unfold_locales simp

definition maxLoadPerThread :: int where "maxLoadPerThread = 3"

text \<open>The block for the node of a thread, and whether \<^verbatim>\<open>std::thread\<close> starts.\<close>

type_synonym thread_answer = "addr option \<times> bool"

definition addNewThread :: "thread_answer \<Rightarrow> thread_pool \<Rightarrow> (bool \<times> thread_pool) option" where
  "addNewThread src tp =
     (case src of
        (Some a, True) \<Rightarrow> do {
          (hd', tl', h) \<leftarrow> link_tail (\<lambda>p n. n\<lparr>th_next := p\<rparr>) a (mThreadQueueHead tp) (mThreadQueueTail tp)
            ((tp_threads tp)(a \<mapsto> \<lparr>th_thread = True, th_next = None\<rparr>));
          Some (True, tp\<lparr>mThreadQueueHead := hd', mThreadQueueTail := tl', tp_threads := h\<rparr>) }
      | _ \<Rightarrow> Some (False, tp))"

definition add_core_thread :: "thread_answer \<Rightarrow> thread_pool \<Rightarrow> thread_pool option" where
  "add_core_thread src tp = do {
     (ok, tp) \<leftarrow> addNewThread src tp;
     Some (if ok then tp\<lparr>mCurrentThreadsCount := mCurrentThreadsCount tp + 1\<rparr> else tp) }"

text \<open>The list has one answer per thread that is wanted.\<close>

definition ThreadPool_init :: "thread_answer list \<Rightarrow> int \<Rightarrow> thread_pool option" where
  "ThreadPool_init srcs maxCapacity = do {
     let desiredCapacity = int (length srcs);
     tp \<leftarrow> foldM add_core_thread srcs
       \<lparr>mDesiredPoolCapacity = desiredCapacity,
        mMaxPoolCapacity = (if maxCapacity < desiredCapacity then desiredCapacity else maxCapacity),
        mCurrentThreadsCount = 0, mTerminatePool = False, mCurrentTasks = TaskQueue_init,
        mThreadQueueHead = None, mThreadQueueTail = None, tp_threads = (\<lambda>_. None)\<rparr>;
     Some (tp\<lparr>mDesiredPoolCapacity := mCurrentThreadsCount tp\<rparr>) }"

text \<open>
  The blocks for a node and for its function. When only the second is missing, the destructor of the node
  runs on memory in which nothing was constructed.
\<close>

definition createTaskNode :: "addr option \<Rightarrow> bool \<Rightarrow> task_fn \<Rightarrow> nat \<Rightarrow> task_queue \<Rightarrow> (addr option \<times> task_queue) option" where
  "createTaskNode node cb_block callback args Q =
     (case node of None \<Rightarrow> Some (None, Q)
      | Some a \<Rightarrow>
          if cb_block
          then Some (Some a, Q\<lparr>tq_nodes := (tq_nodes Q)(a \<mapsto> \<lparr>tn_taskCallback = Some callback, tn_args = args, tn_next = None\<rparr>)\<rparr>)
          else None)"

text \<open>\<open>taskCallback\<close> is \<^const>\<open>None\<close> for an empty \<^verbatim>\<open>std::function\<close>.\<close>

definition enqueueTask ::
    "addr option \<Rightarrow> bool \<Rightarrow> thread_answer \<Rightarrow> task_fn option \<Rightarrow> nat \<Rightarrow> thread_pool \<Rightarrow> (bool \<times> thread_pool) option" where
  "enqueueTask node cb_block thread_src taskCallback args tp =
     (case taskCallback of None \<Rightarrow> Some (False, tp)
      | Some callback \<Rightarrow> do {
          limit \<leftarrow> arith 32 (maxLoadPerThread * mCurrentThreadsCount tp);
          (if TaskQueue_getSize (mCurrentTasks tp) \<le> limit then do {
             (taskNode, Q) \<leftarrow> createTaskNode node cb_block callback args (mCurrentTasks tp);
             (if taskNode = None then Some (False, tp)
              else do {
                Q \<leftarrow> TaskQueue_add taskNode Q;
                Some (True, tp\<lparr>mCurrentTasks := Q\<rparr>) }) }
           else if mCurrentThreadsCount tp < mMaxPoolCapacity tp then do {
             (taskNode, Q) \<leftarrow> createTaskNode node cb_block callback args (mCurrentTasks tp);
             (if taskNode = None then Some (False, tp)
              else do {
                (ok, tp) \<leftarrow> addNewThread thread_src tp;
                Q \<leftarrow> TaskQueue_add taskNode Q;
                Some (True, tp\<lparr>mCurrentThreadsCount := mCurrentThreadsCount tp + (if ok then 1 else 0), mCurrentTasks := Q\<rparr>) }) }
           else Some (False, tp)) })"

text \<open>
  A round of a worker: it waits, it ends, or it takes a task. A worker beyond the core ends when it has
  waited for ten minutes; \<open>throws\<close> says whether the task leaves with an exception, which ends the worker too.
\<close>

datatype round = Waits | Ends thread_pool | Runs "(task_fn \<times> nat) option" bool thread_pool

definition threadRoutineHelper :: "bool \<Rightarrow> bool \<Rightarrow> bool \<Rightarrow> thread_pool \<Rightarrow> round option" where
  "threadRoutineHelper isCoreThread timed_out throws tp =
     (if \<not> mTerminatePool tp \<and> TaskQueue_getSize (mCurrentTasks tp) = 0
      then (if isCoreThread \<or> \<not> timed_out then Some Waits
            else Some (Ends (tp\<lparr>mCurrentThreadsCount := mCurrentThreadsCount tp - 1\<rparr>)))
      else if mTerminatePool tp then Some (Ends tp)
      else do {
        (taskNode, Q) \<leftarrow> (if TaskQueue_getSize (mCurrentTasks tp) > 0 then TaskQueue_poll (mCurrentTasks tp)
                         else Some (None, mCurrentTasks tp));
        (case taskNode of None \<Rightarrow> Some (Runs None False (tp\<lparr>mCurrentTasks := Q\<rparr>))
         | Some a \<Rightarrow> do {
             n \<leftarrow> tq_nodes Q a;
             Some (case tn_taskCallback n of None \<Rightarrow> Runs None False (tp\<lparr>mCurrentTasks := Q\<rparr>)
               | Some f \<Rightarrow>
                   if throws then Runs (Some (f, tn_args n)) True (tp\<lparr>mCurrentTasks := Q\<rparr>)
                   else Runs (Some (f, tn_args n)) False
                     (tp\<lparr>mCurrentTasks := Q\<lparr>tq_nodes := (tq_nodes Q)(a := None)\<rparr>\<rparr>)) }) })"

section \<open>The queue is a list\<close>

definition task_at :: "task_queue \<Rightarrow> addr \<Rightarrow> (task_fn \<times> nat) option" where
  "task_at Q a = Option.bind (tq_nodes Q a) (\<lambda>n. map_option (\<lambda>f. (f, tn_args n)) (tn_taskCallback n))"

definition tasks_rel :: "task_queue \<Rightarrow> addr list \<Rightarrow> (task_fn \<times> nat) list \<Rightarrow> bool" where
  "tasks_rel Q xs ts \<longleftrightarrow> queue_rel tn_next (tq_nodes Q) (tq_head Q) (tq_tail Q) xs \<and>
     map (task_at Q) xs = map Some ts \<and> tq_size Q = int (length xs) \<and> length xs < 2 ^ 31"

lemma TaskQueue_init_rel: "tasks_rel TaskQueue_init [] []"
  by (simp add: tasks_rel_def TaskQueue_init_def)

text \<open>A node that is fresh, or left over from a worker that ended, is filled and put behind the others.\<close>

lemma add_rel:
  assumes "tasks_rel Q xs ts" "a \<notin> set xs" "Suc (length xs) < 2 ^ 31"
  shows "\<exists>Q1 Q2. createTaskNode (Some a) True f arg Q = Some (Some a, Q1) \<and> TaskQueue_add (Some a) Q1 = Some Q2 \<and>
    tasks_rel Q2 (xs @ [a]) (ts @ [(f, arg)])"
proof -
  let ?n = "\<lparr>tn_taskCallback = Some f, tn_args = arg, tn_next = None\<rparr>"
  let ?h = "(tq_nodes Q)(a \<mapsto> ?n)"
  have q: "queue_rel tn_next ?h (tq_head Q) (tq_tail Q) xs" using assms by (simp add: tasks_rel_def queue_rel_other)
  have "?h a = Some ?n" "tn_next ?n = None" by simp_all
  from tasks.link_tail_rel[OF q assms(2) this] obtain hd2 tl2 h2 where
    l: "link_tail (\<lambda>p n. n\<lparr>tn_next := p\<rparr>) a (tq_head Q) (tq_tail Q) ?h = Some (hd2, tl2, h2)"
    "queue_rel tn_next h2 hd2 tl2 (xs @ [a])"
    and h2: "h2 = (if xs = [] then ?h else ?h(last xs := map_option (\<lambda>n. n\<lparr>tn_next := Some a\<rparr>) (?h (last xs))))" by blast
  let ?Q = "Q\<lparr>tq_head := hd2, tq_tail := tl2, tq_nodes := h2, tq_size := tq_size Q + 1\<rparr>"
  have at: "task_at ?Q b = (if b = a then Some (f, arg) else task_at Q b)" for b
    using h2 assms(2) by (cases "tq_nodes Q b") (auto simp: task_at_def)
  have "map (task_at ?Q) xs = map (task_at Q) xs" using assms(2) at by (intro map_cong refl) auto
  also have "\<dots> = map Some ts" using assms(1) by (simp add: tasks_rel_def)
  finally have "map (task_at ?Q) (xs @ [a]) = map Some (ts @ [(f, arg)])" using at[of a] by simp
  then have "tasks_rel ?Q (xs @ [a]) (ts @ [(f, arg)])" unfolding tasks_rel_def using l(2) assms(1,3) by (simp add: tasks_rel_def)
  moreover have "arith 32 (tq_size Q + 1) = Some (tq_size Q + 1)"
    using assms by (simp add: tasks_rel_def arith_def in_type_def type_max_def type_lowest_def)
  ultimately show ?thesis using l(1) by (simp add: createTaskNode_def TaskQueue_add_def)
qed

lemma poll_rel:
  assumes "tasks_rel Q (a # xs) (t # ts)"
  shows "\<exists>Q'. TaskQueue_poll Q = Some (Some a, Q') \<and> tasks_rel Q' xs ts \<and> task_at Q' a = Some t \<and> a \<notin> set xs"
proof -
  have q: "queue_rel tn_next (tq_nodes Q) (tq_head Q) (tq_tail Q) (a # xs)" using assms by (simp add: tasks_rel_def)
  from unlink_head_rel[OF q] obtain n tl2 where u: "tq_nodes Q a = Some n"
    "unlink_head tn_next (tq_head Q) (tq_tail Q) (tq_nodes Q) = Some (a, tn_next n, tl2)"
    "queue_rel tn_next (tq_nodes Q) (tn_next n) tl2 xs" by blast
  let ?Q = "Q\<lparr>tq_head := tn_next n, tq_tail := tl2, tq_size := tq_size Q - 1\<rparr>"
  have "arith 32 (tq_size Q - 1) = Some (tq_size Q - 1)"
    using assms by (simp add: tasks_rel_def arith_def in_type_def type_max_def type_lowest_def)
  moreover have "task_at ?Q = task_at Q" by (rule ext, simp add: task_at_def)
  ultimately show ?thesis using u assms by (auto simp: tasks_rel_def TaskQueue_poll_def queue_rel_def)
qed

lemma tasks_rel_free: "tasks_rel Q xs ts \<Longrightarrow> a \<notin> set xs \<Longrightarrow> tasks_rel (Q\<lparr>tq_nodes := (tq_nodes Q)(a := None)\<rparr>) xs ts"
proof -
  assume r: "tasks_rel Q xs ts" "a \<notin> set xs"
  then have "map (task_at (Q\<lparr>tq_nodes := (tq_nodes Q)(a := None)\<rparr>)) xs = map (task_at Q) xs"
    by (intro map_cong refl) (auto simp: task_at_def)
  with r show ?thesis by (simp add: tasks_rel_def queue_rel_other)
qed

section \<open>Threads at work\<close>

text \<open>
  The pool with what happened so far: the tasks accepted and the tasks taken by a worker, in order, and the numbers of
  workers that ended because they had nothing to do for ten minutes and for another reason (a task left with an exception, or the
  pool was shut down). None of these looks at the count of the pool. The workers that ever started are the nodes of threads.
\<close>

record pool_run =
  pr_pool :: thread_pool
  pr_accepted :: "(task_fn \<times> nat) list"
  pr_taken :: "(task_fn \<times> nat) list"
  pr_idle :: nat
  pr_gone :: nat

definition pr_started :: "pool_run \<Rightarrow> nat" where
  "pr_started r = card (dom (tp_threads (pr_pool r)))"

definition pool_run_start :: "thread_pool \<Rightarrow> pool_run" where
  "pool_run_start tp = \<lparr>pr_pool = tp, pr_accepted = [], pr_taken = [], pr_idle = 0, pr_gone = 0\<rparr>"

text \<open>Blocks are not in use, and there are as many blocks for functions as for nodes.\<close>

definition blocks_ok :: "addr option \<Rightarrow> bool \<Rightarrow> thread_answer \<Rightarrow> thread_pool \<Rightarrow> bool" where
  "blocks_ok node cb_block thread_src tp \<longleftrightarrow>
     (case node of None \<Rightarrow> True | Some a \<Rightarrow> cb_block \<and> tq_nodes (mCurrentTasks tp) a = None) \<and>
     (case fst thread_src of None \<Rightarrow> True | Some b \<Rightarrow> tp_threads tp b = None) \<and>
     tq_size (mCurrentTasks tp) < 2 ^ 31 - 1"

inductive run_step :: "pool_run \<Rightarrow> pool_run \<Rightarrow> bool" where
  accept: "blocks_ok node cb_block thread_src (pr_pool r) \<Longrightarrow>
     enqueueTask node cb_block thread_src (Some f) args (pr_pool r) = Some (True, tp) \<Longrightarrow>
     run_step r (r\<lparr>pr_pool := tp, pr_accepted := pr_accepted r @ [(f, args)]\<rparr>)"
| refuse: "blocks_ok node cb_block thread_src (pr_pool r) \<Longrightarrow>
     enqueueTask node cb_block thread_src callback args (pr_pool r) = Some (False, tp) \<Longrightarrow>
     run_step r (r\<lparr>pr_pool := tp\<rparr>)"
| run_task: "pr_idle r + pr_gone r < pr_started r \<Longrightarrow>
     threadRoutineHelper isCoreThread timed_out throws (pr_pool r) = Some (Runs (Some t) ends tp) \<Longrightarrow>
     run_step r (r\<lparr>pr_pool := tp, pr_taken := pr_taken r @ [t],
       pr_gone := pr_gone r + (if ends then 1 else 0)\<rparr>)"
| run_nothing: "pr_idle r + pr_gone r < pr_started r \<Longrightarrow>
     threadRoutineHelper isCoreThread timed_out throws (pr_pool r) = Some (Runs None ends tp) \<Longrightarrow>
     run_step r (r\<lparr>pr_pool := tp\<rparr>)"
| run_end: "pr_idle r + pr_gone r < pr_started r \<Longrightarrow>
     threadRoutineHelper isCoreThread timed_out throws (pr_pool r) = Some (Ends tp) \<Longrightarrow>
     run_step r (r\<lparr>pr_pool := tp, pr_idle := pr_idle r + (if mTerminatePool (pr_pool r) then 0 else 1),
       pr_gone := pr_gone r + (if mTerminatePool (pr_pool r) then 1 else 0)\<rparr>)"
| terminate: "run_step r (r\<lparr>pr_pool := (pr_pool r)\<lparr>mTerminatePool := True\<rparr>\<rparr>)"

inductive run_reach :: "pool_run \<Rightarrow> pool_run \<Rightarrow> bool" where
  run_start: "run_reach r r"
| run_next: "run_reach r r' \<Longrightarrow> run_step r' r'' \<Longrightarrow> run_reach r r''"

definition run_inv :: "pool_run \<Rightarrow> (task_fn \<times> nat) list \<Rightarrow> bool" where
  "run_inv r ts \<longleftrightarrow>
     (\<exists>xs ths. tasks_rel (mCurrentTasks (pr_pool r)) xs ts \<and>
        queue_rel th_next (tp_threads (pr_pool r)) (mThreadQueueHead (pr_pool r)) (mThreadQueueTail (pr_pool r)) ths) \<and>
     pr_accepted r = pr_taken r @ ts \<and>
     mCurrentThreadsCount (pr_pool r) = int (pr_started r) - int (pr_idle r) \<and>
     pr_idle r + pr_gone r \<le> pr_started r \<and> finite (dom (tp_threads (pr_pool r))) \<and>
     mCurrentThreadsCount (pr_pool r) \<le> mMaxPoolCapacity (pr_pool r) \<and> 3 * mMaxPoolCapacity (pr_pool r) < 2 ^ 31"

lemma addNewThread_rel:
  assumes "queue_rel th_next (tp_threads tp) (mThreadQueueHead tp) (mThreadQueueTail tp) ths"
    and "\<And>a. fst src = Some a \<Longrightarrow> tp_threads tp a = None"
  shows "\<exists>ok tp' ths'. addNewThread src tp = Some (ok, tp') \<and>
    queue_rel th_next (tp_threads tp') (mThreadQueueHead tp') (mThreadQueueTail tp') ths' \<and>
    mCurrentTasks tp' = mCurrentTasks tp \<and> mCurrentThreadsCount tp' = mCurrentThreadsCount tp \<and>
    mMaxPoolCapacity tp' = mMaxPoolCapacity tp \<and> mTerminatePool tp' = mTerminatePool tp \<and>
    dom (tp_threads tp') = dom (tp_threads tp) \<union> (if ok then set_option (fst src) else {}) \<and> (ok \<longrightarrow> fst src \<noteq> None)"
proof (cases "\<exists>a. src = (Some a, True)")
  case True
  then obtain a where src: "src = (Some a, True)" by blast
  let ?h = "(tp_threads tp)(a \<mapsto> \<lparr>th_thread = True, th_next = None\<rparr>)"
  have "a \<notin> set ths" using assms src chain_dom[of th_next "tp_threads tp" _ ths a] by (auto simp: queue_rel_def)
  then have q: "queue_rel th_next ?h (mThreadQueueHead tp) (mThreadQueueTail tp) ths" using assms(1) by (simp add: queue_rel_other)
  from threads.link_tail_rel[OF q \<open>a \<notin> set ths\<close>, of "\<lparr>th_thread = True, th_next = None\<rparr>"] obtain hd2 tl2 h2 where
    l: "link_tail (\<lambda>p n. n\<lparr>th_next := p\<rparr>) a (mThreadQueueHead tp) (mThreadQueueTail tp) ?h = Some (hd2, tl2, h2)"
    "queue_rel th_next h2 hd2 tl2 (ths @ [a])"
    and h2: "h2 = (if ths = [] then ?h else ?h(last ths := map_option (\<lambda>n. n\<lparr>th_next := Some a\<rparr>) (?h (last ths))))"
    by auto
  have "set ths \<subseteq> dom ?h" using q chain_dom[of th_next ?h _ ths] by (fastforce simp: queue_rel_def)
  then have "dom h2 = insert a (dom (tp_threads tp))"
    unfolding h2 using last_in_set[of ths] by (cases "ths = []") (auto simp: domIff split: if_splits)
  with l src show ?thesis by (auto simp: addNewThread_def)
next
  case False
  then have "addNewThread src tp = Some (False, tp)"
    by (cases src) (auto simp: addNewThread_def split: option.split bool.split)
  with assms(1) show ?thesis by auto
qed

lemma thread_counted:
  assumes "dom (tp_threads tp') = dom (tp_threads tp) \<union> (if ok then set_option (fst src) else {})" "ok \<longrightarrow> fst src \<noteq> None"
    and "\<And>a. fst src = Some a \<Longrightarrow> tp_threads tp a = None" "finite (dom (tp_threads tp))"
  shows "finite (dom (tp_threads tp')) \<and> card (dom (tp_threads tp')) = card (dom (tp_threads tp)) + (if ok then 1 else 0)"
  using assms by (cases ok) (auto simp: domIff card_insert_if)

definition thread_blocks :: "thread_answer list \<Rightarrow> addr list" where
  "thread_blocks srcs = concat (map (\<lambda>s. case fst s of None \<Rightarrow> [] | Some a \<Rightarrow> [a]) srcs)"

lemma thread_blocks_Cons:
  "distinct (thread_blocks (s # srcs)) \<Longrightarrow> distinct (thread_blocks srcs)"
  "distinct (thread_blocks (s # srcs)) \<Longrightarrow> s' \<in> set srcs \<Longrightarrow> fst s' = Some a \<Longrightarrow> fst s \<noteq> Some a"
  by (force simp: thread_blocks_def)+

lemma add_core_threads:
  "queue_rel th_next (tp_threads tp) (mThreadQueueHead tp) (mThreadQueueTail tp) ths \<Longrightarrow>
     distinct (thread_blocks srcs) \<Longrightarrow>
     (\<And>s a. s \<in> set srcs \<Longrightarrow> fst s = Some a \<Longrightarrow> tp_threads tp a = None) \<Longrightarrow>
     finite (dom (tp_threads tp)) \<Longrightarrow> mCurrentThreadsCount tp = int (card (dom (tp_threads tp))) \<Longrightarrow>
     \<exists>tp' ths'. foldM add_core_thread srcs tp = Some tp' \<and>
       finite (dom (tp_threads tp')) \<and> mCurrentThreadsCount tp' = int (card (dom (tp_threads tp'))) \<and>
       queue_rel th_next (tp_threads tp') (mThreadQueueHead tp') (mThreadQueueTail tp') ths' \<and>
       mCurrentTasks tp' = mCurrentTasks tp \<and> mMaxPoolCapacity tp' = mMaxPoolCapacity tp \<and>
       mCurrentThreadsCount tp \<le> mCurrentThreadsCount tp' \<and> mCurrentThreadsCount tp' \<le> mCurrentThreadsCount tp + int (length srcs)"
proof (induction srcs arbitrary: tp ths)
  case Nil
  then show ?case by auto
next
  case (Cons s srcs)
  have "tp_threads tp a = None" if "fst s = Some a" for a using Cons.prems(3)[of s a] that by simp
  from addNewThread_rel[OF Cons.prems(1) this] obtain ok tp1 ths1 where t: "addNewThread s tp = Some (ok, tp1)"
    "queue_rel th_next (tp_threads tp1) (mThreadQueueHead tp1) (mThreadQueueTail tp1) ths1"
    "mCurrentTasks tp1 = mCurrentTasks tp" "mCurrentThreadsCount tp1 = mCurrentThreadsCount tp"
    "mMaxPoolCapacity tp1 = mMaxPoolCapacity tp" "dom (tp_threads tp1) = dom (tp_threads tp) \<union> (if ok then set_option (fst s) else {})"
    "ok \<longrightarrow> fst s \<noteq> None" by blast
  have free: "\<And>a. fst s = Some a \<Longrightarrow> tp_threads tp a = None" using Cons.prems(3)[of s] by simp
  note n = thread_counted[OF t(6,7) free Cons.prems(4)]
  let ?tp = "if ok then tp1\<lparr>mCurrentThreadsCount := mCurrentThreadsCount tp1 + 1\<rparr> else tp1"
  have q: "queue_rel th_next (tp_threads ?tp) (mThreadQueueHead ?tp) (mThreadQueueTail ?tp) ths1" using t(2) by simp
  have fresh: "\<And>s' a. s' \<in> set srcs \<Longrightarrow> fst s' = Some a \<Longrightarrow> tp_threads ?tp a = None"
  proof -
    fix s' a assume m: "s' \<in> set srcs" "fst s' = Some a"
    have "tp_threads tp a = None" using Cons.prems(3)[of s' a] m by simp
    moreover have "fst s \<noteq> Some a" by (rule thread_blocks_Cons(2)[OF Cons.prems(2) m])
    ultimately have "a \<notin> dom (tp_threads tp) \<union> set_option (fst s)" by (auto simp: domIff)
    then have "a \<notin> dom (tp_threads ?tp)" using t(6) by (auto split: if_splits)
    then show "tp_threads ?tp a = None" by (simp add: domIff)
  qed
  have dist: "distinct (thread_blocks srcs)" by (rule thread_blocks_Cons(1)[OF Cons.prems(2)])
  have c: "finite (dom (tp_threads ?tp))" "mCurrentThreadsCount ?tp = int (card (dom (tp_threads ?tp)))"
    using n t(4) Cons.prems(5) by simp_all
  have "\<exists>tp' ths'. foldM add_core_thread srcs ?tp = Some tp' \<and>
       finite (dom (tp_threads tp')) \<and> mCurrentThreadsCount tp' = int (card (dom (tp_threads tp'))) \<and>
       queue_rel th_next (tp_threads tp') (mThreadQueueHead tp') (mThreadQueueTail tp') ths' \<and>
       mCurrentTasks tp' = mCurrentTasks ?tp \<and> mMaxPoolCapacity tp' = mMaxPoolCapacity ?tp \<and>
       mCurrentThreadsCount ?tp \<le> mCurrentThreadsCount tp' \<and> mCurrentThreadsCount tp' \<le> mCurrentThreadsCount ?tp + int (length srcs)"
    by (rule Cons.IH[OF q dist _ c]) (rule fresh)
  then obtain tp' ths' where "foldM add_core_thread srcs ?tp = Some tp'"
    "finite (dom (tp_threads tp'))" "mCurrentThreadsCount tp' = int (card (dom (tp_threads tp')))"
    "queue_rel th_next (tp_threads tp') (mThreadQueueHead tp') (mThreadQueueTail tp') ths'"
    "mCurrentTasks tp' = mCurrentTasks ?tp" "mMaxPoolCapacity tp' = mMaxPoolCapacity ?tp"
    "mCurrentThreadsCount ?tp \<le> mCurrentThreadsCount tp'" "mCurrentThreadsCount tp' \<le> mCurrentThreadsCount ?tp + int (length srcs)"
    by blast
  moreover have "add_core_thread s tp = Some ?tp" by (simp add: add_core_thread_def t(1))
  ultimately show ?case using t(3-5) by (auto split: if_splits)
qed

lemma ThreadPool_init_inv:
  assumes "distinct (thread_blocks srcs)"
    and "3 * int (length srcs) < 2 ^ 31" "3 * maxCapacity < 2 ^ 31"
  shows "\<exists>tp. ThreadPool_init srcs maxCapacity = Some tp \<and> run_inv (pool_run_start tp) []"
proof -
  let ?tp = "\<lparr>mDesiredPoolCapacity = int (length srcs),
    mMaxPoolCapacity = (if maxCapacity < int (length srcs) then int (length srcs) else maxCapacity),
    mCurrentThreadsCount = 0, mTerminatePool = False, mCurrentTasks = TaskQueue_init,
    mThreadQueueHead = None, mThreadQueueTail = None, tp_threads = (\<lambda>_. None)\<rparr>"
  from add_core_threads[of ?tp "[]" srcs] assms(1) obtain tp ths where t: "foldM add_core_thread srcs ?tp = Some tp"
    "queue_rel th_next (tp_threads tp) (mThreadQueueHead tp) (mThreadQueueTail tp) ths"
    "mCurrentTasks tp = TaskQueue_init" "mMaxPoolCapacity tp = mMaxPoolCapacity ?tp"
    "finite (dom (tp_threads tp))" "mCurrentThreadsCount tp = int (card (dom (tp_threads tp)))"
    "mCurrentThreadsCount tp \<le> int (length srcs)" by auto
  have "run_inv (pool_run_start (tp\<lparr>mDesiredPoolCapacity := mCurrentThreadsCount tp\<rparr>)) []"
    using t assms(2,3) TaskQueue_init_rel by (auto simp: run_inv_def pool_run_start_def pr_started_def)
  with t(1) show ?thesis by (simp add: ThreadPool_init_def)
qed

lemma enqueueTask_refused: "enqueueTask node cb_block src callback args tp = Some (False, tp') \<Longrightarrow> tp' = tp"
  by (auto simp: enqueueTask_def split: option.splits Option.bind_splits if_splits)

lemma enqueueTask_accepted:
  assumes inv: "run_inv r ts" and ok: "blocks_ok node cb_block src (pr_pool r)"
  shows "\<exists>b tp'. enqueueTask node cb_block src (Some f) args (pr_pool r) = Some (b, tp') \<and>
    (b \<longrightarrow> (\<exists>xs ths k. tasks_rel (mCurrentTasks tp') xs (ts @ [(f, args)]) \<and>
       queue_rel th_next (tp_threads tp') (mThreadQueueHead tp') (mThreadQueueTail tp') ths \<and>
       k \<in> {0, 1} \<and> finite (dom (tp_threads tp')) \<and> int (card (dom (tp_threads tp'))) = int (pr_started r) + k \<and>
       mCurrentThreadsCount tp' = mCurrentThreadsCount (pr_pool r) + k \<and>
       mCurrentThreadsCount tp' \<le> mMaxPoolCapacity tp' \<and> mMaxPoolCapacity tp' = mMaxPoolCapacity (pr_pool r)))"
proof -
  let ?tp = "pr_pool r"
  obtain xs ths where q: "tasks_rel (mCurrentTasks ?tp) xs ts"
    "queue_rel th_next (tp_threads ?tp) (mThreadQueueHead ?tp) (mThreadQueueTail ?tp) ths"
    using inv by (auto simp: run_inv_def)
  have c: "0 \<le> mCurrentThreadsCount ?tp" "mCurrentThreadsCount ?tp \<le> mMaxPoolCapacity ?tp" "3 * mMaxPoolCapacity ?tp < 2 ^ 31"
    and fin: "finite (dom (tp_threads ?tp))"
    using inv by (simp_all add: run_inv_def)
  from c have lim: "arith 32 (maxLoadPerThread * mCurrentThreadsCount ?tp) = Some (3 * mCurrentThreadsCount ?tp)"
    by (simp add: arith_def in_type_def type_max_def type_lowest_def maxLoadPerThread_def)
  have len: "Suc (length xs) < 2 ^ 31" using q(1) ok by (simp add: tasks_rel_def blocks_ok_def)
  show ?thesis
  proof (cases node)
    case None
    then have "enqueueTask node cb_block src (Some f) args ?tp = Some (False, ?tp)" using lim by (simp add: enqueueTask_def createTaskNode_def)
    then show ?thesis by (intro exI[of _ False] exI[of _ ?tp]) simp
  next
    case (Some a)
    with ok have cb: "cb_block" "tq_nodes (mCurrentTasks ?tp) a = None"
      "\<And>b. fst src = Some b \<Longrightarrow> tp_threads ?tp b = None" by (auto simp: blocks_ok_def split: option.splits)
    have "chain tn_next (tq_nodes (mCurrentTasks ?tp)) (tq_head (mCurrentTasks ?tp)) xs"
      using q(1) by (simp add: tasks_rel_def queue_rel_def)
    from chain_dom[OF this, of a] cb(2) have "a \<notin> set xs" by blast
    from add_rel[OF q(1) this len, of f args] cb(1) obtain Q1 Q2 where
      Q: "createTaskNode (Some a) cb_block f args (mCurrentTasks ?tp) = Some (Some a, Q1)" "TaskQueue_add (Some a) Q1 = Some Q2"
      "tasks_rel Q2 (xs @ [a]) (ts @ [(f, args)])" by auto
    from addNewThread_rel[OF q(2) cb(3)] obtain started tp1 ths' where
      t: "addNewThread src ?tp = Some (started, tp1)"
      "queue_rel th_next (tp_threads tp1) (mThreadQueueHead tp1) (mThreadQueueTail tp1) ths'"
      "mCurrentThreadsCount tp1 = mCurrentThreadsCount ?tp" "mMaxPoolCapacity tp1 = mMaxPoolCapacity ?tp"
      "dom (tp_threads tp1) = dom (tp_threads ?tp) \<union> (if started then set_option (fst src) else {})" "started \<longrightarrow> fst src \<noteq> None" by blast
    note n = thread_counted[OF t(5,6) cb(3) fin]
    consider "TaskQueue_getSize (mCurrentTasks ?tp) \<le> 3 * mCurrentThreadsCount ?tp"
      | "\<not> TaskQueue_getSize (mCurrentTasks ?tp) \<le> 3 * mCurrentThreadsCount ?tp" "mCurrentThreadsCount ?tp < mMaxPoolCapacity ?tp"
      | "\<not> TaskQueue_getSize (mCurrentTasks ?tp) \<le> 3 * mCurrentThreadsCount ?tp" "\<not> mCurrentThreadsCount ?tp < mMaxPoolCapacity ?tp"
      by blast
    then show ?thesis
    proof cases
      case 1
      with lim Q Some have "enqueueTask node cb_block src (Some f) args ?tp = Some (True, ?tp\<lparr>mCurrentTasks := Q2\<rparr>)"
        by (simp add: enqueueTask_def)
      with Q(3) q(2) c(2) fin show ?thesis by (fastforce simp: pr_started_def)
    next
      case 2
      let ?tp' = "tp1\<lparr>mCurrentThreadsCount := mCurrentThreadsCount tp1 + (if started then 1 else 0), mCurrentTasks := Q2\<rparr>"
      have e: "enqueueTask node cb_block src (Some f) args ?tp = Some (True, ?tp')"
        using 2 lim Q Some t(1) by (simp add: enqueueTask_def)
      have "tasks_rel (mCurrentTasks ?tp') (xs @ [a]) (ts @ [(f, args)])"
        "queue_rel th_next (tp_threads ?tp') (mThreadQueueHead ?tp') (mThreadQueueTail ?tp') ths'"
        "mCurrentThreadsCount ?tp' = mCurrentThreadsCount ?tp + (if started then 1 else 0)"
        "mCurrentThreadsCount ?tp' \<le> mMaxPoolCapacity ?tp'" "mMaxPoolCapacity ?tp' = mMaxPoolCapacity ?tp"
        "finite (dom (tp_threads ?tp'))" "int (card (dom (tp_threads ?tp'))) = int (pr_started r) + (if started then 1 else 0)"
        using Q(3) t(2-4) 2(2) n by (simp_all add: pr_started_def)
      moreover have "(if started then 1 else 0 :: int) \<in> {0, 1}" by simp
      ultimately show ?thesis unfolding e by blast
    next
      case 3
      with lim have "enqueueTask node cb_block src (Some f) args ?tp = Some (False, ?tp)" by (simp add: enqueueTask_def)
      then show ?thesis by (intro exI[of _ False] exI[of _ ?tp]) simp
    qed
  qed
qed

text \<open>A round of a worker: it takes the first task exactly if there is one and the pool goes on.\<close>

lemma threadRoutineHelper_round:
  assumes inv: "run_inv r ts"
  shows "threadRoutineHelper core timed_out throws (pr_pool r) =
      (if mTerminatePool (pr_pool r) then Some (Ends (pr_pool r))
       else if ts = [] then
         (if core \<or> \<not> timed_out then Some Waits
          else Some (Ends ((pr_pool r)\<lparr>mCurrentThreadsCount := mCurrentThreadsCount (pr_pool r) - 1\<rparr>)))
       else threadRoutineHelper core timed_out throws (pr_pool r))"
    and "\<not> mTerminatePool (pr_pool r) \<Longrightarrow> ts = t # ts' \<Longrightarrow>
      \<exists>Q xs. threadRoutineHelper core timed_out throws (pr_pool r) = Some (Runs (Some t) throws ((pr_pool r)\<lparr>mCurrentTasks := Q\<rparr>)) \<and>
        tasks_rel Q xs ts'"
proof -
  let ?tp = "pr_pool r"
  obtain xs where q: "tasks_rel (mCurrentTasks ?tp) xs ts" using inv by (auto simp: run_inv_def)
  then have len: "length xs = length ts" by (auto simp: tasks_rel_def dest: map_eq_imp_length_eq)
  then have sz: "TaskQueue_getSize (mCurrentTasks ?tp) = int (length ts)" using q by (simp add: tasks_rel_def TaskQueue_getSize_def)
  then show "threadRoutineHelper core timed_out throws ?tp =
      (if mTerminatePool ?tp then Some (Ends ?tp)
       else if ts = [] then
         (if core \<or> \<not> timed_out then Some Waits
          else Some (Ends (?tp\<lparr>mCurrentThreadsCount := mCurrentThreadsCount ?tp - 1\<rparr>)))
       else threadRoutineHelper core timed_out throws ?tp)"
    by (simp add: threadRoutineHelper_def)
  assume go: "\<not> mTerminatePool ?tp" "ts = t # ts'"
  then obtain a xs' where xs: "xs = a # xs'" using len by (cases xs) auto
  with q go poll_rel[of "mCurrentTasks ?tp" a xs' t ts'] obtain Q where
    Q: "TaskQueue_poll (mCurrentTasks ?tp) = Some (Some a, Q)" "tasks_rel Q xs' ts'" "task_at Q a = Some t" "a \<notin> set xs'" by auto
  from Q(3) obtain n f where n: "tq_nodes Q a = Some n" "tn_taskCallback n = Some f" "t = (f, tn_args n)"
    by (auto simp: task_at_def bind_eq_Some_conv)
  show "\<exists>Q xs. threadRoutineHelper core timed_out throws ?tp = Some (Runs (Some t) throws (?tp\<lparr>mCurrentTasks := Q\<rparr>)) \<and>
      tasks_rel Q xs ts'"
    using go Q(1,2) n sz tasks_rel_free[OF Q(2,4)] by (cases throws) (fastforce simp: threadRoutineHelper_def)+
qed

lemma run_step_inv: "run_step r r' \<Longrightarrow> run_inv r ts \<Longrightarrow> \<exists>ts'. run_inv r' ts'"
proof (induction rule: run_step.induct)
  case (accept node cb_block thread_src r f args tp)
  from enqueueTask_accepted[OF accept(3,1), of f args] accept(2) obtain xs ths k where
    e: "tasks_rel (mCurrentTasks tp) xs (ts @ [(f, args)])"
    "queue_rel th_next (tp_threads tp) (mThreadQueueHead tp) (mThreadQueueTail tp) ths"
    "k \<in> {0, 1}" "finite (dom (tp_threads tp))" "int (card (dom (tp_threads tp))) = int (pr_started r) + k" "mCurrentThreadsCount tp = mCurrentThreadsCount (pr_pool r) + k"
    "mCurrentThreadsCount tp \<le> mMaxPoolCapacity tp" "mMaxPoolCapacity tp = mMaxPoolCapacity (pr_pool r)" by auto
  show ?case
    by (rule exI[of _ "ts @ [(f, args)]"]) (use e accept(3) in \<open>auto simp: run_inv_def pr_started_def\<close>)
next
  case (refuse node cb_block thread_src r callback args tp)
  with enqueueTask_refused[OF refuse(2)] show ?case by auto
next
  case (run_task r core timed_out throws t ends tp)
  then have go: "\<not> mTerminatePool (pr_pool r)" "ts \<noteq> []"
    using threadRoutineHelper_round(1)[OF run_task(3), of core timed_out throws] by (auto split: if_splits)
  then obtain t' ts' where ts: "ts = t' # ts'" by (cases ts) auto
  from threadRoutineHelper_round(2)[OF run_task(3) go(1) ts, of core timed_out throws] run_task(2) obtain Q xs where
    Q: "tp = (pr_pool r)\<lparr>mCurrentTasks := Q\<rparr>" "tasks_rel Q xs ts'" "t' = t" "ends = throws" by auto
  show ?case
    by (rule exI[of _ ts']) (use Q run_task(1,3) ts in \<open>auto simp: run_inv_def pr_started_def\<close>)
next
  case (run_nothing r core timed_out throws ends tp)
  then have go: "\<not> mTerminatePool (pr_pool r)" "ts \<noteq> []"
    using threadRoutineHelper_round(1)[OF run_nothing(3), of core timed_out throws] by (auto split: if_splits)
  then obtain t' ts' where ts: "ts = t' # ts'" by (cases ts) auto
  from threadRoutineHelper_round(2)[OF run_nothing(3) go(1) ts, of core timed_out throws] run_nothing(2) show ?case by auto
next
  case (run_end r core timed_out throws tp)
  have "tp = (if mTerminatePool (pr_pool r) then pr_pool r
      else (pr_pool r)\<lparr>mCurrentThreadsCount := mCurrentThreadsCount (pr_pool r) - 1\<rparr>)"
  proof (cases "mTerminatePool (pr_pool r) \<or> ts = []")
    case True
    then show ?thesis using run_end(2) threadRoutineHelper_round(1)[OF run_end(3), of core timed_out throws]
      by (auto split: if_splits)
  next
    case False
    then obtain t' ts' where "ts = t' # ts'" by (cases ts) auto
    from threadRoutineHelper_round(2)[OF run_end(3) _ this, of core timed_out throws] False run_end(2) show ?thesis by auto
  qed
  then show ?case
    by (intro exI[of _ ts]) (use run_end(1,3) in \<open>auto simp: run_inv_def pr_started_def\<close>)
next
  case (terminate r)
  then show ?case by (intro exI[of _ ts]) (auto simp: run_inv_def pr_started_def)
qed

lemma run_reach_inv: "run_reach r r' \<Longrightarrow> \<exists>ts. run_inv r ts \<Longrightarrow> \<exists>ts. run_inv r' ts"
  by (induction rule: run_reach.induct) (auto dest: run_step_inv)

section \<open>Timers\<close>

record timer =
  mTimerStop :: bool
  mIsRecurring :: bool
  mDuration :: int
  mCallback :: bool

definition Timer_init :: "bool \<Rightarrow> bool \<Rightarrow> timer" where
  "Timer_init callBack isRecurring =
     \<lparr>mTimerStop = False, mIsRecurring = isRecurring, mDuration = 0, mCallback = callBack\<rparr>"

definition killTimer :: "timer \<Rightarrow> timer" where
  "killTimer tm = tm\<lparr>mTimerStop := True\<rparr>"

text \<open>
  What a round of the task of a timer observes: whether the timer is stopped when the wait ends, whether the callback
  leaves with an exception, and whether the timer is stopped at the test of the loop. The result is the
  number of calls and whether the task has returned within these rounds.
\<close>

type_synonym timer_round = "bool \<times> bool \<times> bool"

fun implementTimer :: "timer \<Rightarrow> timer_round list \<Rightarrow> nat \<times> bool" where
  "implementTimer tm [] = (0, False)"
| "implementTimer tm ((stopped, throws, stopped_after) # rounds) =
     (let calls = \<not> stopped \<and> mCallback tm
      in if calls \<and> throws then (1, True)
         else if mIsRecurring tm \<and> \<not> stopped_after
         then (case implementTimer tm rounds of (n, returned) \<Rightarrow> ((if calls then 1 else 0) + n, returned))
         else ((if calls then 1 else 0), True))"

text \<open>The thread pool of the timers may be missing; \<open>f\<close> is the task of this timer.\<close>

definition startTimer ::
    "addr option \<Rightarrow> bool \<Rightarrow> thread_answer \<Rightarrow> task_fn \<Rightarrow> int \<Rightarrow> thread_pool option \<Rightarrow> timer \<Rightarrow>
     (bool \<times> thread_pool option \<times> timer) option" where
  "startTimer node cb_block src f duration mTimerThreadPool tm =
     (if duration = -1 then Some (True, mTimerThreadPool, tm)
      else if duration = 0 \<or> duration < -1 then Some (False, mTimerThreadPool, tm)
      else (case mTimerThreadPool of None \<Rightarrow> Some (False, None, tm\<lparr>mDuration := duration\<rparr>)
        | Some tp \<Rightarrow> do {
            (ok, tp) \<leftarrow> enqueueTask node cb_block src (Some f) 0 tp;
            Some (ok, Some tp, tm\<lparr>mDuration := duration\<rparr>) }))"

text \<open>A one-shot timer calls back once unless it is stopped before; a recurring one once in each round before it is stopped.\<close>

lemma timer_once:
  "\<not> mIsRecurring tm \<Longrightarrow> implementTimer tm (x # rounds) = ((if fst x \<or> \<not> mCallback tm then 0 else 1), True)"
  by (cases x) (simp add: Let_def)

lemma timer_recurs:
  assumes "mIsRecurring tm" "mCallback tm" "list_all (\<lambda>x. x = (False, False, False)) before"
  shows "implementTimer tm (before @ (True, throws, True) # rounds) = (length before, True)"
  using assms(3) by (induction before) (use assms(1,2) in auto)

lemma startTimer_unlimited: "startTimer node cb_block src f (-1) pool tm = Some (True, pool, tm)"
  by (simp add: startTimer_def)

end
