(* ===== verification/Liveness.thy ===== *)
theory Liveness
  imports SignalHandler ThreadPool
begin

text \<open>
  \<^verbatim>\<open>PulseMonitor.cpp\<close> and \<^verbatim>\<open>ClientGarbageCollector.cpp\<close>: recurring tasks that find the clients whose
  process has ended, and queue untune requests for what they left. What is proved: with these tasks added
  the invariant of the daemon still holds in every reachable state, and how much of its queue a clean-up
  takes.
\<close>

section \<open>Finding dead clients\<close>

text \<open>The queue of threads to clean up; \<open>alive\<close> is whether \<^verbatim>\<open>/proc/<pid>/comm\<close> exists.\<close>

type_synonym gc_queue = "i32 list"

definition submitClientForCleanup :: "i32 \<Rightarrow> client_data \<Rightarrow> gc_queue \<Rightarrow> gc_queue" where
  "submitClientForCleanup clientPid cd gq = gq @ getThreadsByClientId clientPid cd"

definition check_client :: "(i32 \<Rightarrow> bool) \<Rightarrow> i32 \<Rightarrow> client_data \<times> gc_queue \<Rightarrow> client_data \<times> gc_queue" where
  "check_client alive pid = (\<lambda>(cd, gq).
     if alive pid then (cd, gq) else (deleteClientPID pid cd, submitClientForCleanup pid cd gq))"

definition checkForDeadClients :: "(i32 \<Rightarrow> bool) \<Rightarrow> i32 list \<Rightarrow> client_data \<Rightarrow> gc_queue \<Rightarrow> client_data \<times> gc_queue" where
  "checkForDeadClients alive pids cd gq = fold (check_client alive) (getActiveClientList pids cd) (cd, gq)"

section \<open>Cleaning up\<close>

text \<open>
  \<open>blocks\<close> answers the allocations of untune requests, by their number. The priority is or-ed into the
  properties, which already hold that of the tune request. The clean-up of a thread is one step here: the
  code reads each request after it has released the lock of the map, when the consumer may already have freed it.
\<close>

definition untune_handle ::
    "(nat \<Rightarrow> (addr \<times> request) option) \<Rightarrow> i64 \<Rightarrow> nat \<times> server \<Rightarrow> (nat \<times> server) option" where
  "untune_handle blocks handle = (\<lambda>(k, sv).
     case fst (getRequestFromMap handle (sv_rm sv)) of None \<Rightarrow> Some (k, sv)
     | Some b \<Rightarrow>
         (case blocks k of None \<Rightarrow> Some (Suc k, sv)
          | Some (a, raw) \<Rightarrow> do {
              req \<leftarrow> sv_objs sv b;
              u \<leftarrow> populateUntuneRequest req (Some (Request_init raw));
              sv \<leftarrow> enqueue a (sv\<lparr>sv_objs := (sv_objs sv)(a \<mapsto> setPriority REQ_PRIORITY_HIGH u)\<rparr>);
              Some (Suc k, sv) }))"

definition cleanup_thread ::
    "(nat \<Rightarrow> (addr \<times> request) option) \<Rightarrow> i32 \<Rightarrow> nat \<times> server \<Rightarrow> (nat \<times> server) option" where
  "cleanup_thread blocks clientTID = (\<lambda>(k, sv).
     case getRequestsByClientID clientTID (sv_clients sv) of
       (None, cd) \<Rightarrow> Some (k, sv\<lparr>sv_clients := cd\<rparr>)
     | (Some handles, cd) \<Rightarrow> do {
         cd \<leftarrow> deleteClientTID clientTID cd;
         foldM (untune_handle blocks) handles (k, sv\<lparr>sv_clients := cd\<rparr>) })"

text \<open>The bound of the loop is computed again in every round, from the queue that has become shorter.\<close>

fun cleanup_loop ::
    "(nat \<Rightarrow> (addr \<times> request) option) \<Rightarrow> nat \<Rightarrow> nat \<Rightarrow> gc_queue \<Rightarrow> nat \<times> server \<Rightarrow> (gc_queue \<times> nat \<times> server) option" where
  "cleanup_loop blocks batchSize cleaned [] s = Some ([], s)"
| "cleanup_loop blocks batchSize cleaned (clientTID # gq) s =
     (if cleaned < min (length (clientTID # gq)) batchSize then do {
        s \<leftarrow> cleanup_thread blocks clientTID s;
        cleanup_loop blocks batchSize (cleaned + 1) gq s }
      else Some (clientTID # gq, s))"

definition performCleanup ::
    "(nat \<Rightarrow> (addr \<times> request) option) \<Rightarrow> u32 \<Rightarrow> gc_queue \<Rightarrow> server \<Rightarrow> (gc_queue \<times> server) option" where
  "performCleanup blocks batchSize gq sv =
     map_option (\<lambda>(gq, k, sv). (gq, sv)) (cleanup_loop blocks (unat batchSize) 0 gq (0, sv))"

section \<open>The recurring timers\<close>

text \<open>
  Both tasks are started in the same way: a block for the timer, then a recurring timer on the pool. The
  timer keeps its worker until it is stopped.
\<close>

definition start_recurring ::
    "bool \<Rightarrow> addr option \<Rightarrow> bool \<Rightarrow> thread_answer \<Rightarrow> task_fn \<Rightarrow> int \<Rightarrow> thread_pool option \<Rightarrow>
     (ErrCode \<times> timer option \<times> thread_pool option) option" where
  "start_recurring timer_block node cb_block src f duration pool =
     (if \<not> timer_block then Some (RC_MEMORY_ALLOCATION_FAILURE, None, pool)
      else do {
        (ok, pool, tm) \<leftarrow> startTimer node cb_block src f duration pool (Timer_init True True);
        Some (if ok then RC_SUCCESS else RC_WORKER_THREAD_ASSIGNMENT_FAILURE, Some tm, pool) })"

definition stop_recurring :: "timer option \<Rightarrow> timer option" where
  "stop_recurring tm = map_option killTimer tm"

lemma start_recurring_refused:
  "duration \<le> 0 \<Longrightarrow> duration \<noteq> -1 \<Longrightarrow>
     start_recurring True node cb_block src f duration pool =
       Some (RC_WORKER_THREAD_ASSIGNMENT_FAILURE, Some (Timer_init True True), pool)"
  by (auto simp: start_recurring_def startTimer_def)

section \<open>How much is cleaned up\<close>

lemma cleanup_loop_rest:
  "cleanup_loop blocks batchSize cleaned gq s = Some (gq', s') \<Longrightarrow> cleaned \<le> batchSize \<Longrightarrow>
     gq' = drop (min ((length gq - cleaned + 1) div 2) (batchSize - cleaned)) gq"
proof (induction gq arbitrary: cleaned s)
  case Nil
  then show ?case by simp
next
  case (Cons t gq)
  show ?case
  proof (cases "cleaned < min (length (t # gq)) batchSize")
    case False
    then have "(length (t # gq) - cleaned + 1) div 2 = 0 \<or> batchSize - cleaned = 0" by auto
    with False Cons.prems show ?thesis by auto
  next
    case True
    then obtain s1 where s1: "cleanup_loop blocks batchSize (cleaned + 1) gq s1 = Some (gq', s')"
      using Cons.prems(1) by (auto split: Option.bind_splits)
    obtain m b where m: "length gq = cleaned + m" "batchSize = Suc (cleaned + b)"
      using True less_imp_Suc_add[of cleaned batchSize] le_Suc_ex[of cleaned "length gq"] by auto
    have "min ((length (t # gq) - cleaned + 1) div 2) (batchSize - cleaned)
        = Suc (min ((length gq - (cleaned + 1) + 1) div 2) (batchSize - (cleaned + 1)))"
      by (cases m) (simp_all add: m)
    then show ?thesis using Cons.IH[OF s1] True by (simp only: drop_Suc_Cons) simp
  qed
qed

lemma untune_priority: "getPriority (setPriority REQ_PRIORITY_HIGH u) = getPriority u"
  by (simp add: priority_ored REQ_PRIORITY_HIGH_def)

section \<open>The invariant of the daemon\<close>

definition blocks_fresh :: "(nat \<Rightarrow> (addr \<times> request) option) \<Rightarrow> nat \<Rightarrow> server \<Rightarrow> bool" where
  "blocks_fresh blocks k sv \<longleftrightarrow>
     (\<forall>i\<ge>k. \<forall>a raw. blocks i = Some (a, raw) \<longrightarrow> sv_objs sv a = None) \<and>
     (\<forall>i\<ge>k. \<forall>j\<ge>k. \<forall>a raw raw'. blocks i = Some (a, raw) \<longrightarrow> blocks j = Some (a, raw') \<longrightarrow> i = j)"

lemma blocks_freshD:
  assumes "blocks_fresh blocks k sv" "k \<le> i" "blocks i = Some (a, raw)"
  shows "sv_objs sv a = None" "k \<le> j \<Longrightarrow> blocks j = Some (a, raw') \<Longrightarrow> j = i"
  using assms unfolding blocks_fresh_def by blast+

lemma blocks_fresh_mono:
  assumes "blocks_fresh blocks k sv" "k \<le> k'" "sv_objs sv' = sv_objs sv"
  shows "blocks_fresh blocks k' sv'"
proof -
  note le = order_trans[OF assms(2)]
  have "sv_objs sv' a = None" if "k' \<le> i" "blocks i = Some (a, raw)" for i a raw
    using blocks_freshD(1)[OF assms(1) le that(2)] that(1) assms(3) by simp
  moreover have "i = j" if "k' \<le> i" "k' \<le> j" "blocks i = Some (a, r)" "blocks j = Some (a, r')" for i j a r r'
    using blocks_freshD(2)[OF assms(1) le that(4) le that(3)] that(1,2) by simp
  ultimately show ?thesis unfolding blocks_fresh_def by blast
qed

lemma blocks_fresh_used:
  assumes "blocks_fresh blocks k sv" "blocks k = Some (a, raw)" "sv_objs sv' = (sv_objs sv)(a \<mapsto> u)"
  shows "blocks_fresh blocks (Suc k) sv'"
proof -
  have "sv_objs sv' b = None" if i: "Suc k \<le> i" "blocks i = Some (b, raw')" for i b raw'
  proof -
    have "b \<noteq> a" using blocks_freshD(2)[OF assms(1) order_refl assms(2), of i] i by auto
    then show ?thesis using blocks_freshD(1)[OF assms(1) _ i(2)] i(1) assms(3) by simp
  qed
  moreover have "i = j" if "Suc k \<le> i" "Suc k \<le> j" "blocks i = Some (b, r)" "blocks j = Some (b, r')" for i j b r r'
    using blocks_freshD(2)[OF assms(1) _ that(4), of i] that by simp
  ultimately show ?thesis unfolding blocks_fresh_def by blast
qed

text \<open>A bare message that is not a tune request is queued under a fresh address.\<close>

lemma enqueue_message_ok:
  assumes inv: "daemon_inv env sv" and fresh: "sv_objs sv a = None"
    and u: "mResourceList u = None" "getRequestType u \<noteq> REQ_RESOURCE_TUNING"
  shows "\<exists>sv'. enqueue a (sv\<lparr>sv_objs := (sv_objs sv)(a \<mapsto> u)\<rparr>) = Some sv' \<and> daemon_inv env sv' \<and>
    sv_objs sv' = (sv_objs sv)(a \<mapsto> u) \<and> sv_clients sv' = sv_clients sv \<and> sv_rm sv' = sv_rm sv"
proof -
  from inv obtain T W U P where si: "server_inv env sv T W U P" and T: "target_ok (sv_target sv)"
    by (auto simp: daemon_inv_def)
  define sv1 where "sv1 = sv\<lparr>sv_objs := (sv_objs sv)(a \<mapsto> u), sv_coco := (sv_coco sv)\<lparr>c_heap := c_heap (sv_coco sv)\<rparr>\<rparr>"
  have eq: "sv\<lparr>sv_objs := (sv_objs sv)(a \<mapsto> u)\<rparr> = sv1" by (simp add: sv1_def)
  have "req_ok (c_heap (sv_coco sv)) u []" using u(1) by (simp add: req_ok_def req_list_def nodes_readable_iff)
  then have "core_inv env sv1 T W U ((a, []) # P)"
    unfolding sv1_def using si fresh_object[OF si fresh] by (intro hold_inv) (simp_all add: server_inv_def)
  then have inv1: "server_inv env sv1 T W U ((a, []) # P)" using si by (simp add: server_inv_def sv1_def queued_def)
  have o: "sv_objs sv1 a = Some u" "sv_target sv1 = sv_target sv" by (simp_all add: sv1_def)
  from enqueue_other[OF inv1 o(1) u(2)] obtain sv' where e: "enqueue a sv1 = Some sv'" "sv_target sv' = sv_target sv1"
    "(if sint (getPriority u) < sint SERVER_CLEANUP_TRIGGER_PRIORITY then server_inv env sv' T W U ((a, []) # P)
     else server_inv env sv' T W ((a, []) # U) P)" by blast
  have "daemon_inv env sv'" using e(2,3) o(2) T by (auto simp: daemon_inv_def split: if_splits)
  moreover from e(1) obtain q where "sv' = sv1\<lparr>sv_queue := q\<rparr>" by (auto simp: enqueue_def)
  ultimately show ?thesis unfolding eq using e(1) by (auto simp: sv1_def)
qed

lemma untune_handle_ok:
  assumes "daemon_inv env sv" "blocks_fresh blocks k sv"
  shows "\<exists>k' sv'. untune_handle blocks h (k, sv) = Some (k', sv') \<and> daemon_inv env sv' \<and> blocks_fresh blocks k' sv' \<and>
    sv_clients sv' = sv_clients sv"
proof (cases "fst (getRequestFromMap h (sv_rm sv))")
  case None
  then show ?thesis using assms by (simp add: untune_handle_def)
next
  case (Some b)
  show ?thesis
  proof (cases "blocks k")
    case None
    then have "untune_handle blocks h (k, sv) = Some (Suc k, sv)"
      using \<open>fst (getRequestFromMap h (sv_rm sv)) = Some b\<close> by (simp add: untune_handle_def)
    moreover have "blocks_fresh blocks (Suc k) sv" by (rule blocks_fresh_mono[OF assms(2)]) simp_all
    ultimately show ?thesis using assms(1) by blast
  next
    case (Some ar)
    obtain a raw where ar: "blocks k = Some (a, raw)" using Some by (cases ar) auto
    from \<open>fst (getRequestFromMap h (sv_rm sv)) = Some b\<close> obtain s where "map_of (mActiveRequests (sv_rm sv)) h = Some (b, s)"
      by (auto simp: getRequestFromMap_def split: option.splits)
    from daemon_map_sound(2)[OF assms(1) this] obtain req where req: "sv_objs sv b = Some req" by blast
    let ?u = "setPriority REQ_PRIORITY_HIGH (the (populateUntuneRequest req (Some (Request_init raw))))"
    have u: "mResourceList ?u = None" "getRequestType ?u \<noteq> REQ_RESOURCE_TUNING"
      by (simp_all add: populateUntuneRequest_def setPriority_def getRequestType_def REQ_RESOURCE_TUNING_def REQ_RESOURCE_UNTUNING_def)
    have "sv_objs sv a = None" by (rule blocks_freshD(1)[OF assms(2) order_refl ar])
    from enqueue_message_ok[OF assms(1) this u] obtain sv' where
      e: "enqueue a (sv\<lparr>sv_objs := (sv_objs sv)(a \<mapsto> ?u)\<rparr>) = Some sv'" "daemon_inv env sv'"
      "sv_objs sv' = (sv_objs sv)(a \<mapsto> ?u)" "sv_clients sv' = sv_clients sv" by blast
    have "untune_handle blocks h (k, sv) = Some (Suc k, sv')"
      using \<open>fst (getRequestFromMap h (sv_rm sv)) = Some b\<close> ar req e(1) by (simp add: untune_handle_def populateUntuneRequest_def)
    with e blocks_fresh_used[OF assms(2) ar e(3)] show ?thesis by blast
  qed
qed

lemma untune_handles_ok:
  "daemon_inv env sv \<Longrightarrow> blocks_fresh blocks k sv \<Longrightarrow>
     \<exists>k' sv'. foldM (untune_handle blocks) hs (k, sv) = Some (k', sv') \<and> daemon_inv env sv' \<and> blocks_fresh blocks k' sv' \<and>
       sv_clients sv' = sv_clients sv"
proof (induction hs arbitrary: k sv)
  case Nil
  then show ?case by auto
next
  case (Cons h hs)
  from untune_handle_ok[OF Cons.prems, of h] obtain k1 sv1 where s: "untune_handle blocks h (k, sv) = Some (k1, sv1)"
    "daemon_inv env sv1" "blocks_fresh blocks k1 sv1" "sv_clients sv1 = sv_clients sv" by blast
  from Cons.IH[OF s(2,3)] s(1,4) show ?case by simp
qed

lemma daemon_inv_clients: "daemon_inv env sv \<Longrightarrow> clients_ok cd \<Longrightarrow> daemon_inv env (sv\<lparr>sv_clients := cd\<rparr>)"
  using server_inv_clients by (fastforce simp: daemon_inv_def)

lemma daemon_clients_ok: "daemon_inv env sv \<Longrightarrow> clients_ok (sv_clients sv)"
  by (auto simp: daemon_inv_def server_inv_def core_inv_def)

text \<open>Cleaning up a known thread; for an unknown one a null entry is left in the table of threads.\<close>

lemma cleanup_thread_ok:
  assumes inv: "daemon_inv env sv" and fresh: "blocks_fresh blocks k sv" and known: "mClientTidRepo (sv_clients sv) t \<noteq> None"
  shows "\<exists>k' sv'. cleanup_thread blocks t (k, sv) = Some (k', sv') \<and> daemon_inv env sv' \<and> blocks_fresh blocks k' sv' \<and>
    mClientTidRepo (sv_clients sv') = (mClientTidRepo (sv_clients sv))(t := None)"
proof -
  from known clients_okD[OF daemon_clients_ok[OF inv]] obtain e where e: "mClientTidRepo (sv_clients sv) t = Some (Some e)" by blast
  let ?cd = "(sv_clients sv)\<lparr>mClientTidRepo := (mClientTidRepo (sv_clients sv))(t := None)\<rparr>"
  have "clients_ok ?cd" using daemon_clients_ok[OF inv] by (simp add: clients_ok_def)
  from daemon_inv_clients[OF inv this] have "daemon_inv env (sv\<lparr>sv_clients := ?cd\<rparr>)" .
  moreover have "blocks_fresh blocks k (sv\<lparr>sv_clients := ?cd\<rparr>)" using fresh by (simp add: blocks_fresh_def)
  ultimately have "\<exists>k' sv'. foldM (untune_handle blocks) (mClientHandles e) (k, sv\<lparr>sv_clients := ?cd\<rparr>) = Some (k', sv') \<and>
      daemon_inv env sv' \<and> blocks_fresh blocks k' sv' \<and> sv_clients sv' = sv_clients (sv\<lparr>sv_clients := ?cd\<rparr>)"
    by (rule untune_handles_ok)
  then obtain k' sv' where "foldM (untune_handle blocks) (mClientHandles e) (k, sv\<lparr>sv_clients := ?cd\<rparr>) = Some (k', sv')"
    "daemon_inv env sv'" "blocks_fresh blocks k' sv'" "sv_clients sv' = ?cd" by auto
  with e show ?thesis
    by (auto simp: cleanup_thread_def getRequestsByClientID_def tid_lookup_def deleteClientTID_def)
qed

lemma cleanup_thread_unknown:
  "mClientTidRepo (sv_clients sv) t = None \<Longrightarrow> cleanup_thread blocks t (k, sv) = Some (k', sv') \<Longrightarrow>
     mClientTidRepo (sv_clients sv') t = Some None"
  by (auto simp: cleanup_thread_def getRequestsByClientID_def tid_lookup_def)

lemma cleanup_loop_ok:
  "daemon_inv env sv \<Longrightarrow> blocks_fresh blocks k sv \<Longrightarrow> distinct gq \<Longrightarrow>
     \<forall>t\<in>set gq. mClientTidRepo (sv_clients sv) t \<noteq> None \<Longrightarrow>
     \<exists>gq' k' sv'. cleanup_loop blocks batchSize cleaned gq (k, sv) = Some (gq', k', sv') \<and> daemon_inv env sv'"
proof (induction gq arbitrary: cleaned k sv)
  case Nil
  then show ?case by simp
next
  case (Cons t gq)
  show ?case
  proof (cases "cleaned < min (length (t # gq)) batchSize")
    case True
    from cleanup_thread_ok[OF Cons.prems(1,2), of t] Cons.prems(4) obtain k1 sv1 where
      s: "cleanup_thread blocks t (k, sv) = Some (k1, sv1)" "daemon_inv env sv1" "blocks_fresh blocks k1 sv1"
      "mClientTidRepo (sv_clients sv1) = (mClientTidRepo (sv_clients sv))(t := None)" by auto
    have "\<forall>u\<in>set gq. mClientTidRepo (sv_clients sv1) u \<noteq> None" "distinct gq" using Cons.prems(3,4) s(4) by auto
    from Cons.IH[OF s(2,3) this(2,1), of "cleaned + 1"] s(1) True show ?thesis by auto
  qed (use Cons.prems(1) in auto)
qed

definition cleanable :: "(nat \<Rightarrow> (addr \<times> request) option) \<Rightarrow> gc_queue \<Rightarrow> server \<Rightarrow> bool" where
  "cleanable blocks gq sv \<longleftrightarrow> blocks_fresh blocks 0 sv \<and> distinct gq \<and>
     (\<forall>t\<in>set gq. mClientTidRepo (sv_clients sv) t \<noteq> None)"

lemma performCleanup_ok:
  assumes "daemon_inv env sv" "cleanable blocks gq sv"
  shows "\<exists>gq' sv'. performCleanup blocks batchSize gq sv = Some (gq', sv') \<and> daemon_inv env sv'"
  using cleanup_loop_ok[OF assms(1), of blocks 0 gq "unat batchSize" 0] assms(2)
  by (auto simp: performCleanup_def cleanable_def)

lemma checkForDeadClients_threads: "mClientTidRepo (fst (checkForDeadClients alive pids cd gq)) = mClientTidRepo cd"
proof -
  have "mClientTidRepo (fst (fold (check_client alive) ps (cd, gq))) = mClientTidRepo cd" for ps
    by (induction ps arbitrary: cd gq) (simp_all add: check_client_def deleteClientPID_def)
  then show ?thesis by (simp add: checkForDeadClients_def)
qed

section \<open>What a clean-up queues\<close>

definition untune_queued :: "server \<Rightarrow> i64 \<Rightarrow> bool" where
  "untune_queued sv h \<longleftrightarrow> (\<exists>a u. QRequest a \<in> set (mOrderedQueue (sv_queue sv)) \<and> sv_objs sv a = Some u \<and>
     getHandle u = h \<and> getRequestType u = REQ_RESOURCE_UNTUNING)"

lemma map_priority:
  assumes "daemon_inv env sv" "map_of (mActiveRequests (sv_rm sv)) h = Some (b, s)" "sv_objs sv b = Some req"
  shows "0 \<le> sint (getPriority req) \<and> getHandle req = h"
proof -
  from assms(1) obtain T W U P where c: "core_inv env sv T W U P" by (auto simp: daemon_inv_def server_inv_def)
  then obtain L where i: "sys_inv (se_coco env) (sv_coco sv, tune_objs (sv_objs sv) T) L" "waiting sv W"
    "ledger (sv_objs sv) (sv_rm sv) (fst ` set T) (fst ` set W)" by (rule core_invE)
  from ledger_entry[OF i(3) assms(2)] have b: "b \<in> fst ` set T \<union> fst ` set W" "getHandle req = h"
    using assms(3) by (auto split: if_splits)
  have "\<exists>xs. request_nodes (sv_coco sv) req xs"
  proof (cases "b \<in> fst ` set W")
    case True
    then obtain xs where "(b, xs) \<in> set W" by auto
    with i(2) assms(3) show ?thesis by (fastforce simp: waiting_def)
  next
    case False
    then obtain xs where "(b, xs) \<in> set T" using b(1) by auto
    then have "(req, xs) \<in> set (tune_objs (sv_objs sv) T)" using assms(3) by (auto simp: set_tune_objs)
    with i(1) show ?thesis by (elim sys_invE) blast
  qed
  with b(2) show ?thesis by (auto simp: request_nodes_def)
qed

lemma enqueue_adds:
  assumes "sv_objs sv a = Some u" "0 \<le> sint (getPriority u)"
  shows "enqueue a sv = Some (sv\<lparr>sv_queue := (sv_queue sv)\<lparr>mOrderedQueue := mOrderedQueue (sv_queue sv) @ [QRequest a],
      mElementCount := mElementCount (sv_queue sv) + 1\<rparr>\<rparr>)"
  using assms by (simp add: enqueue_def addAndWakeup_def item_priority_def SERVER_CLEANUP_TRIGGER_PRIORITY_def)

lemma untune_handle_queues:
  assumes inv: "daemon_inv env sv" and fresh: "blocks_fresh blocks k sv" and some: "blocks k \<noteq> None"
    and run: "untune_handle blocks h (k, sv) = Some (k', sv')"
  shows "sv_rm sv' = sv_rm sv \<and> k \<le> k' \<and> k' \<le> Suc k \<and> (\<forall>g. untune_queued sv g \<longrightarrow> untune_queued sv' g) \<and>
    (map_of (mActiveRequests (sv_rm sv)) h \<noteq> None \<longrightarrow> untune_queued sv' h)"
proof (cases "map_of (mActiveRequests (sv_rm sv)) h")
  case None
  with run show ?thesis by (simp add: untune_handle_def getRequestFromMap_def)
next
  case (Some e)
  then obtain b s where m: "map_of (mActiveRequests (sv_rm sv)) h = Some (b, s)" by (cases e) auto
  obtain a raw where ar: "blocks k = Some (a, raw)" using some by auto
  from daemon_map_sound(2)[OF inv m] obtain req where req: "sv_objs sv b = Some req" by blast
  obtain u0 where u0: "populateUntuneRequest req (Some (Request_init raw)) = Some u0" "getPriority u0 = getPriority req"
    "getHandle u0 = getHandle req" "getRequestType u0 = REQ_RESOURCE_UNTUNING"
    by (simp add: populateUntuneRequest_def getPriority_def getHandle_def getRequestType_def getProperties_def)
  define u where "u = setPriority REQ_PRIORITY_HIGH u0"
  have prio: "0 \<le> sint (getPriority u)" using map_priority[OF inv m req] u0(2) by (simp add: u_def untune_priority)
  have u: "getHandle u = h" "getRequestType u = REQ_RESOURCE_UNTUNING"
    using map_priority[OF inv m req] u0(3,4) by (simp_all add: u_def setPriority_def getHandle_def getRequestType_def)
  let ?sv = "sv\<lparr>sv_objs := (sv_objs sv)(a \<mapsto> u)\<rparr>"
  have "enqueue a ?sv = Some (?sv\<lparr>sv_queue := (sv_queue sv)\<lparr>mOrderedQueue := mOrderedQueue (sv_queue sv) @ [QRequest a],
      mElementCount := mElementCount (sv_queue sv) + 1\<rparr>\<rparr>)"
    using enqueue_adds[of ?sv a u] prio by simp
  then have sv': "k' = Suc k" "sv' = ?sv\<lparr>sv_queue := (sv_queue sv)\<lparr>mOrderedQueue := mOrderedQueue (sv_queue sv) @ [QRequest a],
      mElementCount := mElementCount (sv_queue sv) + 1\<rparr>\<rparr>"
    using run m ar req u0(1) by (auto simp: untune_handle_def getRequestFromMap_def u_def[symmetric])
  have free: "sv_objs sv a = None" by (rule blocks_freshD(1)[OF fresh order_refl ar])
  have "untune_queued sv' h" unfolding untune_queued_def by (intro exI[of _ a] exI[of _ u]) (simp add: sv'(2) u)
  moreover have "untune_queued sv' g" if "untune_queued sv g" for g
  proof -
    from that obtain b v where v: "QRequest b \<in> set (mOrderedQueue (sv_queue sv))" "sv_objs sv b = Some v"
      "getHandle v = g" "getRequestType v = REQ_RESOURCE_UNTUNING" unfolding untune_queued_def by blast
    then have "b \<noteq> a" using free by auto
    with v show ?thesis unfolding untune_queued_def by (intro exI[of _ b] exI[of _ v]) (simp add: sv'(2))
  qed
  ultimately show ?thesis using sv' by simp
qed

lemma untune_handles_queue:
  "daemon_inv env sv \<Longrightarrow> blocks_fresh blocks k sv \<Longrightarrow>
     (\<And>i. k \<le> i \<Longrightarrow> i < k + length hs \<Longrightarrow> blocks i \<noteq> None) \<Longrightarrow>
     foldM (untune_handle blocks) hs (k, sv) = Some (k', sv') \<Longrightarrow>
     (\<forall>g. untune_queued sv g \<longrightarrow> untune_queued sv' g) \<and>
     (\<forall>h\<in>set hs. map_of (mActiveRequests (sv_rm sv)) h \<noteq> None \<longrightarrow> untune_queued sv' h)"
proof (induction hs arbitrary: k sv)
  case Nil
  then show ?case by simp
next
  case (Cons h hs)
  from untune_handle_ok[OF Cons.prems(1,2), of h] obtain k1 sv1 where s: "untune_handle blocks h (k, sv) = Some (k1, sv1)"
    "daemon_inv env sv1" "blocks_fresh blocks k1 sv1" by blast
  have "blocks k \<noteq> None" by (rule Cons.prems(3)) simp_all
  from untune_handle_queues[OF Cons.prems(1,2) this s(1)] have q: "sv_rm sv1 = sv_rm sv" "k \<le> k1" "k1 \<le> Suc k"
    "\<forall>g. untune_queued sv g \<longrightarrow> untune_queued sv1 g" "map_of (mActiveRequests (sv_rm sv)) h \<noteq> None \<longrightarrow> untune_queued sv1 h" by auto
  have run: "foldM (untune_handle blocks) hs (k1, sv1) = Some (k', sv')" using Cons.prems(4) s(1) by simp
  have some: "blocks i \<noteq> None" if "k1 \<le> i" "i < k1 + length hs" for i
    by (rule Cons.prems(3)) (use that q(2,3) in simp_all)
  from Cons.IH[OF s(2,3) some run] q(1,4,5) show ?case by auto
qed

text \<open>Every active request of a thread that is cleaned up gets an untune request.\<close>

lemma cleanup_thread_untunes:
  assumes inv: "daemon_inv env sv" and fresh: "blocks_fresh blocks k sv" and t: "mClientTidRepo (sv_clients sv) t = Some (Some e)"
    and some: "\<And>i. k \<le> i \<Longrightarrow> i < k + length (mClientHandles e) \<Longrightarrow> blocks i \<noteq> None"
  shows "\<exists>k' sv'. cleanup_thread blocks t (k, sv) = Some (k', sv') \<and>
    mClientTidRepo (sv_clients sv') = (mClientTidRepo (sv_clients sv))(t := None) \<and>
    (\<forall>h\<in>set (mClientHandles e). map_of (mActiveRequests (sv_rm sv)) h \<noteq> None \<longrightarrow> untune_queued sv' h)"
proof -
  have "mClientTidRepo (sv_clients sv) t \<noteq> None" using t by simp
  from cleanup_thread_ok[OF inv fresh this] obtain k' sv' where c: "cleanup_thread blocks t (k, sv) = Some (k', sv')"
    "mClientTidRepo (sv_clients sv') = (mClientTidRepo (sv_clients sv))(t := None)" by blast
  let ?cd = "(sv_clients sv)\<lparr>mClientTidRepo := (mClientTidRepo (sv_clients sv))(t := None)\<rparr>"
  have "clients_ok ?cd" using daemon_clients_ok[OF inv] by (simp add: clients_ok_def)
  then have i: "daemon_inv env (sv\<lparr>sv_clients := ?cd\<rparr>)" by (rule daemon_inv_clients[OF inv])
  have f: "blocks_fresh blocks k (sv\<lparr>sv_clients := ?cd\<rparr>)" using fresh by (simp add: blocks_fresh_def)
  have "foldM (untune_handle blocks) (mClientHandles e) (k, sv\<lparr>sv_clients := ?cd\<rparr>) = Some (k', sv')"
    using c(1) t by (simp add: cleanup_thread_def getRequestsByClientID_def tid_lookup_def deleteClientTID_def)
  from untune_handles_queue[OF i f some this] c show ?thesis by simp
qed

section \<open>The system with its recurring tasks\<close>

inductive monitored_step ::
    "server_env \<Rightarrow> signal_env \<Rightarrow> (server \<times> relay_call list) \<times> gc_queue \<Rightarrow> (server \<times> relay_call list) \<times> gc_queue \<Rightarrow> bool"
  for env sg where
  serve: "system_step env sg st st' \<Longrightarrow> monitored_step env sg (st, gq) (st', gq)"
| pulse: "checkForDeadClients alive pids (sv_clients sv) gq = (cd, gq') \<Longrightarrow>
     monitored_step env sg ((sv, calls), gq) ((sv\<lparr>sv_clients := cd\<rparr>, calls), gq')"
| cleanup: "cleanable blocks gq sv \<Longrightarrow> performCleanup blocks batchSize gq sv = Some (gq', sv') \<Longrightarrow>
     monitored_step env sg ((sv, calls), gq) ((sv', calls), gq')"

inductive monitored_reach ::
    "server_env \<Rightarrow> signal_env \<Rightarrow> (server \<times> relay_call list) \<times> gc_queue \<Rightarrow> (server \<times> relay_call list) \<times> gc_queue \<Rightarrow> bool"
  for env sg s0 where
  monitored_start: "monitored_reach env sg s0 s0"
| monitored_more: "monitored_reach env sg s0 s \<Longrightarrow> monitored_step env sg s s' \<Longrightarrow> monitored_reach env sg s0 s'"

inductive_cases monitored_stepE: "monitored_step env sg s s'"

lemma monitored_step_inv:
  assumes "monitored_step env sg s s'" "signals_ready sg" "daemon_inv env (fst (fst s))"
  shows "daemon_inv env (fst (fst s'))"
  using assms(1)
proof cases
  case (serve st st' gq)
  with assms(2,3) show ?thesis using system_step_inv[of env sg st st'] by simp
next
  case (pulse alive pids sv gq cd gq' calls)
  have "mClientTidRepo cd = mClientTidRepo (sv_clients sv)"
    using checkForDeadClients_threads[of alive pids "sv_clients sv" gq] pulse(3) by simp
  then have "clients_ok cd" using daemon_clients_ok[of env sv] assms(3) pulse(1) by (simp add: clients_ok_def)
  with assms(3) pulse(1,2) show ?thesis using daemon_inv_clients by simp
next
  case (cleanup blocks gq sv batchSize gq' sv' calls)
  with performCleanup_ok[of env sv blocks gq batchSize] assms(3) show ?thesis by auto
qed

lemma monitored_reach_inv:
  "monitored_reach env sg s0 s \<Longrightarrow> signals_ready sg \<Longrightarrow> daemon_inv env (fst (fst s0)) \<Longrightarrow> daemon_inv env (fst (fst s))"
  by (induction rule: monitored_reach.induct) (auto intro: monitored_step_inv)

end
