(* ===== verification/MemoryPool.thy ===== *)
theory MemoryPool
  imports LinkedQueue SafeOps
begin

text \<open>
  \<^verbatim>\<open>modula/Components/MemoryPool.cpp\<close>: pools of blocks of one size, and the table of pools by type. A
  pool keeps its free blocks in a queue of nodes and the nodes of the blocks that were handed out, emptied, on a stack.
  What is proved: the pointers implement a queue of free blocks and a count of empty nodes, and a block
  that is handed out is never handed out again before it is returned.
\<close>

section \<open>One pool\<close>

record memory_node =
  mn_next :: "addr option"
  mn_block :: "addr option"

record memory_pool =
  mp_nodes :: "addr \<rightharpoonup> memory_node"
  mFreeListHead :: "addr option"
  mFreeListTail :: "addr option"
  mAllocatedListHead :: "addr option"
  mBlockSize :: int
  mfreeBlocks :: int

interpretation mem: linked_nodes mn_next "\<lambda>p n. n\<lparr>mn_next := p\<rparr>"
  by unfold_locales simp

definition MemoryPool_init :: "int \<Rightarrow> memory_pool" where
  "MemoryPool_init blockSize = \<lparr>mp_nodes = (\<lambda>_. None), mFreeListHead = None, mFreeListTail = None,
     mAllocatedListHead = None, mBlockSize = blockSize, mfreeBlocks = 0\<rparr>"

text \<open>A node is put behind the tail of the free list.\<close>

definition push_free :: "addr \<Rightarrow> memory_pool \<Rightarrow> memory_pool option" where
  "push_free a P =
     map_option (\<lambda>(hd', tl', h). P\<lparr>mFreeListHead := hd', mFreeListTail := tl', mp_nodes := h\<rparr>)
       (link_tail (\<lambda>p n. n\<lparr>mn_next := p\<rparr>) a (mFreeListHead P) (mFreeListTail P) (mp_nodes P))"

text \<open>
  What \<^verbatim>\<open>new(std::nothrow)\<close> answers in the rounds of the loop: the node and its block.
\<close>

type_synonym answers = "(addr option \<times> addr option) list"

fun addNodesToFreeList :: "answers \<Rightarrow> memory_pool \<Rightarrow> (int \<times> memory_pool) option" where
  "addNodesToFreeList [] P = Some (0, P)"
| "addNodesToFreeList ((node, block) # src) P =
     (case (node, block) of
        (Some a, Some b) \<Rightarrow> do {
          P' \<leftarrow> push_free a (P\<lparr>mp_nodes := (mp_nodes P)(a \<mapsto> \<lparr>mn_next = None, mn_block = Some b\<rparr>)\<rparr>);
          (n, P') \<leftarrow> addNodesToFreeList src P';
          Some (n + 1, P') }
      | _ \<Rightarrow> Some (0, P))"

text \<open>The count grows by the number of blocks asked for, however many there are.\<close>

definition makeAllocation :: "answers \<Rightarrow> memory_pool \<Rightarrow> (int \<times> memory_pool) option" where
  "makeAllocation src P = do {
     (blocksAllocated, P) \<leftarrow> addNodesToFreeList src P;
     n \<leftarrow> arith 32 (mfreeBlocks P + int (length src));
     Some (blocksAllocated, P\<lparr>mfreeBlocks := n\<rparr>) }"

text \<open>\<^const>\<open>Inl\<close> stands for \<^verbatim>\<open>std::bad_alloc\<close>.\<close>

datatype pool_exn = BadAlloc

definition getBlock :: "memory_pool \<Rightarrow> ((pool_exn + addr option) \<times> memory_pool) option" where
  "getBlock P =
     (if mfreeBlocks P = 0 then Some (Inl BadAlloc, P)
      else do {
        (a, hd', tl') \<leftarrow> unlink_head mn_next (mFreeListHead P) (mFreeListTail P) (mp_nodes P);
        n \<leftarrow> mp_nodes P a;
        k \<leftarrow> arith 32 (mfreeBlocks P - 1);
        Some (Inr (mn_block n),
          P\<lparr>mFreeListHead := hd', mFreeListTail := tl', mAllocatedListHead := Some a, mfreeBlocks := k,
            mp_nodes := (mp_nodes P)(a \<mapsto> \<lparr>mn_next = mAllocatedListHead P, mn_block = None\<rparr>)\<rparr>) })"

definition freeBlock :: "addr option \<Rightarrow> memory_pool \<Rightarrow> memory_pool option" where
  "freeBlock block P =
     (case block of None \<Rightarrow> Some P
      | Some b \<Rightarrow>
         (case mAllocatedListHead P of None \<Rightarrow> Some P
          | Some a \<Rightarrow> do {
              n \<leftarrow> mp_nodes P a;
              P \<leftarrow> push_free a (P\<lparr>mAllocatedListHead := mn_next n,
                mp_nodes := (mp_nodes P)(a \<mapsto> \<lparr>mn_next = None, mn_block = Some b\<rparr>)\<rparr>);
              k \<leftarrow> arith 32 (mfreeBlocks P + 1);
              Some (P\<lparr>mfreeBlocks := k\<rparr>) }))"

section \<open>The pools by type\<close>

text \<open>\<open>room\<close> is whether \<^verbatim>\<open>new MemoryPool\<close> succeeds; types are numbered.\<close>

type_synonym pool_refs = "nat \<rightharpoonup> memory_pool"

definition PoolWrapper_makeAllocation :: "bool \<Rightarrow> answers \<Rightarrow> int \<Rightarrow> nat \<Rightarrow> pool_refs \<Rightarrow> (int \<times> pool_refs) option" where
  "PoolWrapper_makeAllocation room src blockSize typeIndex refs =
     (if src = [] then Some (0, refs)
      else case (case refs typeIndex of Some P \<Rightarrow> Some P | None \<Rightarrow> if room then Some (MemoryPool_init blockSize) else None) of
        None \<Rightarrow> Some (0, refs)
      | Some P \<Rightarrow> map_option (\<lambda>(n, P). (n, refs(typeIndex \<mapsto> P))) (makeAllocation src P))"

definition PoolWrapper_getBlock :: "nat \<Rightarrow> pool_refs \<Rightarrow> ((pool_exn + addr option) \<times> pool_refs) option" where
  "PoolWrapper_getBlock typeIndex refs =
     (case refs typeIndex of None \<Rightarrow> Some (Inl BadAlloc, refs)
      | Some P \<Rightarrow> map_option (\<lambda>(res, P). (res, refs(typeIndex \<mapsto> P))) (getBlock P))"

definition PoolWrapper_freeBlock :: "nat \<Rightarrow> addr option \<Rightarrow> pool_refs \<Rightarrow> pool_refs option" where
  "PoolWrapper_freeBlock typeIndex block refs =
     (if block = None then Some refs
      else case refs typeIndex of None \<Rightarrow> Some refs
      | Some P \<Rightarrow> map_option (\<lambda>P. refs(typeIndex \<mapsto> P)) (freeBlock block P))"

section \<open>A pool as a queue of blocks\<close>

text \<open>\<open>fs\<close> lists the free nodes with their blocks, \<open>as\<close> the empty nodes.\<close>

definition pool_shape :: "memory_pool \<Rightarrow> (addr \<times> addr) list \<Rightarrow> addr list \<Rightarrow> bool" where
  "pool_shape P fs as \<longleftrightarrow>
     queue_rel mn_next (mp_nodes P) (mFreeListHead P) (mFreeListTail P) (map fst fs) \<and>
     chain mn_next (mp_nodes P) (mAllocatedListHead P) as \<and> distinct (map fst fs @ as) \<and>
     (\<forall>(a, b) \<in> set fs. map_option mn_block (mp_nodes P a) = Some (Some b))"

text \<open>\<open>over\<close> is by how much the count exceeds the free blocks.\<close>

definition pool_rel :: "memory_pool \<Rightarrow> (addr \<times> addr) list \<Rightarrow> addr list \<Rightarrow> nat \<Rightarrow> bool" where
  "pool_rel P fs as over \<longleftrightarrow> pool_shape P fs as \<and> mfreeBlocks P = int (length fs) + int over \<and>
     mfreeBlocks P + int (length as) < 2 ^ 31"

lemma MemoryPool_init_rel: "pool_rel (MemoryPool_init n) [] [] 0"
  by (simp add: pool_rel_def pool_shape_def MemoryPool_init_def)

lemma shape_nodes: "pool_shape P fs as \<Longrightarrow> a \<in> set (map fst fs @ as) \<Longrightarrow> mp_nodes P a \<noteq> None"
  by (auto simp: pool_shape_def queue_rel_def dest: chain_dom)

lemma shape_count [simp]: "pool_shape (P\<lparr>mfreeBlocks := n\<rparr>) fs as = pool_shape P fs as"
  by (simp add: pool_shape_def)

lemma shape_update:
  assumes "a \<notin> set (map fst fs @ as)"
  shows "pool_shape (P\<lparr>mp_nodes := (mp_nodes P)(a := x)\<rparr>) fs as = pool_shape P fs as"
proof -
  have "((mp_nodes P)(a := x)) c = mp_nodes P c" if "(c, d) \<in> set fs" for c d using that assms by force
  then show ?thesis using assms by (fastforce simp: pool_shape_def queue_rel_other chain_other)
qed

lemma push_free_shape:
  assumes sh: "pool_shape (P\<lparr>mp_nodes := (mp_nodes P)(a := x)\<rparr>) fs as" and a: "a \<notin> set (map fst fs @ as)"
    and x: "x = Some \<lparr>mn_next = None, mn_block = Some b\<rparr>"
  shows "\<exists>P'. push_free a (P\<lparr>mp_nodes := (mp_nodes P)(a := x)\<rparr>) = Some P' \<and> pool_shape P' (fs @ [(a, b)]) as \<and>
    mfreeBlocks P' = mfreeBlocks P \<and> mAllocatedListHead P' = mAllocatedListHead P \<and>
    dom (mp_nodes P') = insert a (dom (mp_nodes P))"
proof -
  let ?h = "(mp_nodes P)(a := x)"
  have q: "queue_rel mn_next ?h (mFreeListHead P) (mFreeListTail P) (map fst fs)" and c: "chain mn_next ?h (mAllocatedListHead P) as"
    and d: "distinct (map fst fs @ as)" and bl: "\<And>a b. (a, b) \<in> set fs \<Longrightarrow> map_option mn_block (?h a) = Some (Some b)"
    using sh by (auto simp: pool_shape_def)
  have "?h a = Some \<lparr>mn_next = None, mn_block = Some b\<rparr>" "a \<notin> set (map fst fs)" "mn_next \<lparr>mn_next = None, mn_block = Some b\<rparr> = None"
    using x a by simp_all
  from mem.link_tail_rel[OF q this(2,1,3)] obtain hd2 tl2 h2 where
    l: "link_tail (\<lambda>p n. n\<lparr>mn_next := p\<rparr>) a (mFreeListHead P) (mFreeListTail P) ?h = Some (hd2, tl2, h2)"
    "queue_rel mn_next h2 hd2 tl2 (map fst fs @ [a])"
    and h2: "h2 = (if map fst fs = [] then ?h
      else ?h(last (map fst fs) := map_option (\<lambda>n. n\<lparr>mn_next := Some a\<rparr>) (?h (last (map fst fs)))))"
    by blast
  note l3 = h2[unfolded map_is_Nil_conv]
  have last: "fs \<noteq> [] \<Longrightarrow> last (map fst fs) \<in> set (map fst fs)" by (simp add: last_map)
  have blk: "map_option mn_block (h2 y) = map_option mn_block (?h y)" for y using l3 by (auto simp: option.map_comp o_def)
  have "chain mn_next h2 (mAllocatedListHead P) as = chain mn_next ?h (mAllocatedListHead P) as"
    by (rule chain_cong) (use l3 d last in \<open>auto simp: disjoint_iff\<close>)
  moreover have "dom h2 = insert a (dom (mp_nodes P))"
    using l3 x last chain_dom[of mn_next ?h _ "map fst fs"] q by (auto simp: queue_rel_def dom_def split: if_splits)
  moreover have "map_option mn_block (h2 c) = Some (Some e)" if "(c, e) \<in> set (fs @ [(a, b)])" for c e
    using that blk[of c] bl[of c e] x by auto
  ultimately show ?thesis using l(1,2) c d a by (simp add: push_free_def pool_shape_def case_prod_beta')
qed

subsection \<open>Allocation\<close>

text \<open>The nodes and blocks that are granted before the first refusal.\<close>

fun granted :: "answers \<Rightarrow> (addr \<times> addr) list" where
  "granted [] = []"
| "granted ((node, block) # src) = (case (node, block) of (Some a, Some b) \<Rightarrow> (a, b) # granted src | _ \<Rightarrow> [])"

lemma length_granted: "length (granted src) \<le> length src"
  by (induction src rule: granted.induct) (auto split: option.splits)

lemma addNodesToFreeList_shape:
  "pool_shape P fs as \<Longrightarrow> distinct (map fst (granted src)) \<Longrightarrow> fst ` set (granted src) \<inter> dom (mp_nodes P) = {} \<Longrightarrow>
     \<exists>P'. addNodesToFreeList src P = Some (int (length (granted src)), P') \<and> pool_shape P' (fs @ granted src) as \<and>
       mfreeBlocks P' = mfreeBlocks P"
proof (induction src arbitrary: P fs rule: granted.induct)
  case 1
  then show ?case by simp
next
  case (2 node block src)
  show ?case
  proof (cases "node = None \<or> block = None")
    case True
    with 2(2) show ?thesis by (auto split: option.split)
  next
    case False
    then obtain a b where ab: "node = Some a" "block = Some b" by auto
    let ?P = "P\<lparr>mp_nodes := (mp_nodes P)(a \<mapsto> \<lparr>mn_next = None, mn_block = Some b\<rparr>)\<rparr>"
    have a: "mp_nodes P a = None" using 2(4) by (auto simp: ab)
    then have f: "a \<notin> set (map fst fs @ as)" using shape_nodes[OF 2(2), of a] by blast
    have "pool_shape ?P fs as" using 2(2) by (simp only: shape_update[OF f])
    from push_free_shape[OF this f refl] obtain P' where P': "push_free a ?P = Some P'"
      "pool_shape P' (fs @ [(a, b)]) as" "mfreeBlocks P' = mfreeBlocks P" "dom (mp_nodes P') = insert a (dom (mp_nodes P))" by blast
    have "fst ` set (granted src) \<inter> dom (mp_nodes P') = {}" "distinct (map fst (granted src))"
      using 2(3,4) P'(4) by (auto simp: ab)
    from 2(1)[OF refl ab P'(2) this(2,1)] P' show ?thesis by (auto simp: ab)
  qed
qed

lemma makeAllocation_rel:
  assumes "pool_rel P fs as over" "distinct (map fst (granted src))" "fst ` set (granted src) \<inter> dom (mp_nodes P) = {}"
    and "mfreeBlocks P + int (length src) + int (length as) < 2 ^ 31"
  shows "\<exists>P'. makeAllocation src P = Some (int (length (granted src)), P') \<and>
    pool_rel P' (fs @ granted src) as (over + (length src - length (granted src)))"
  using assms addNodesToFreeList_shape[of P fs as src] length_granted[of src]
  by (auto simp: pool_rel_def makeAllocation_def arith_def in_type_def type_max_def type_lowest_def)

subsection \<open>Handing out and taking back\<close>

lemma getBlock_empty: "pool_rel P [] as 0 \<Longrightarrow> getBlock P = Some (Inl BadAlloc, P)"
  by (simp add: pool_rel_def getBlock_def)

lemma getBlock_over: "pool_rel P [] as (Suc over) \<Longrightarrow> getBlock P = None"
  by (simp add: pool_rel_def pool_shape_def queue_rel_def getBlock_def unlink_head_def)

lemma getBlock_rel:
  assumes "pool_rel P ((a, b) # fs) as over"
  shows "\<exists>P'. getBlock P = Some (Inr (Some b), P') \<and> pool_rel P' fs (a # as) over \<and> dom (mp_nodes P') = dom (mp_nodes P)"
proof -
  have q: "queue_rel mn_next (mp_nodes P) (mFreeListHead P) (mFreeListTail P) (a # map fst fs)"
    and c: "chain mn_next (mp_nodes P) (mAllocatedListHead P) as" and d: "distinct (map fst fs @ a # as)"
    and bl: "map_option mn_block (mp_nodes P a) = Some (Some b)"
    "\<And>a b. (a, b) \<in> set fs \<Longrightarrow> map_option mn_block (mp_nodes P a) = Some (Some b)"
    and n: "mfreeBlocks P = int (length fs) + 1 + int over" "mfreeBlocks P + int (length as) < 2 ^ 31"
    using assms by (auto simp: pool_rel_def pool_shape_def)
  from unlink_head_rel[OF q] obtain x tl2 where u: "mp_nodes P a = Some x"
    "unlink_head mn_next (mFreeListHead P) (mFreeListTail P) (mp_nodes P) = Some (a, mn_next x, tl2)"
    "queue_rel mn_next (mp_nodes P) (mn_next x) tl2 (map fst fs)" by blast
  have "arith 32 (mfreeBlocks P - 1) = Some (mfreeBlocks P - 1)"
    using n by (simp add: arith_def in_type_def type_max_def type_lowest_def)
  moreover have "fst y \<noteq> a" if "y \<in> set fs" for y using d that by auto
  ultimately show ?thesis using u d c bl n
    by (fastforce simp: getBlock_def pool_rel_def pool_shape_def queue_rel_other chain_other)
qed

lemma freeBlock_rel:
  assumes "pool_rel P fs (a # as) over"
  shows "\<exists>P'. freeBlock (Some b) P = Some P' \<and> pool_rel P' (fs @ [(a, b)]) as over \<and> dom (mp_nodes P') = dom (mp_nodes P)"
proof -
  have sh: "pool_shape P fs (a # as)" and n: "mfreeBlocks P = int (length fs) + int over"
    "mfreeBlocks P + int (Suc (length as)) < 2 ^ 31" using assms by (simp_all add: pool_rel_def)
  then obtain x where x: "mAllocatedListHead P = Some a" "mp_nodes P a = Some x" "chain mn_next (mp_nodes P) (mn_next x) as"
    by (auto simp: pool_shape_def)
  define Q where "Q = P\<lparr>mAllocatedListHead := mn_next x\<rparr>"
  have Q: "mp_nodes Q = mp_nodes P" "mfreeBlocks Q = mfreeBlocks P" by (simp_all add: Q_def)
  have a: "a \<notin> set (map fst fs @ as)" using sh by (auto simp: pool_shape_def)
  have "pool_shape Q fs as" using sh x by (simp add: pool_shape_def Q_def)
  then have "pool_shape (Q\<lparr>mp_nodes := (mp_nodes Q)(a \<mapsto> \<lparr>mn_next = None, mn_block = Some b\<rparr>)\<rparr>) fs as"
    by (simp only: shape_update[OF a])
  from push_free_shape[OF this a refl] obtain P' where
    P': "push_free a (Q\<lparr>mp_nodes := (mp_nodes Q)(a \<mapsto> \<lparr>mn_next = None, mn_block = Some b\<rparr>)\<rparr>) = Some P'"
    "pool_shape P' (fs @ [(a, b)]) as" "mfreeBlocks P' = mfreeBlocks Q" "dom (mp_nodes P') = insert a (dom (mp_nodes Q))"
    by blast
  have "arith 32 (mfreeBlocks P' + 1) = Some (mfreeBlocks P + 1)"
    using n P'(3) Q by (simp add: arith_def in_type_def type_max_def type_lowest_def)
  moreover have "push_free a (P\<lparr>mAllocatedListHead := mn_next x,
      mp_nodes := (mp_nodes P)(a \<mapsto> \<lparr>mn_next = None, mn_block = Some b\<rparr>)\<rparr>) = Some P'"
    using P'(1) by (simp add: Q_def)
  ultimately have "freeBlock (Some b) P = Some (P'\<lparr>mfreeBlocks := mfreeBlocks P + 1\<rparr>)" by (simp add: freeBlock_def x)
  moreover have "dom (mp_nodes P') = dom (mp_nodes P)" using P'(4) x(2) Q by auto
  ultimately show ?thesis using P'(2,3) n Q by (simp add: pool_rel_def)
qed

lemma freeBlock_none_out: "pool_rel P fs [] over \<Longrightarrow> freeBlock b P = Some P"
  by (cases b) (simp_all add: pool_rel_def pool_shape_def freeBlock_def)

section \<open>Blocks in use\<close>

text \<open>
  What the clients of the pools do: allocations that are granted in full, with fresh nodes and blocks, requests for a
  block, and returns of blocks in use. The second component lists the blocks in use with their types.
\<close>

type_synonym in_use = "(nat \<times> addr) list"

definition of_type :: "nat \<Rightarrow> in_use \<Rightarrow> in_use" where
  "of_type t held = filter (\<lambda>(t', b). t' = t) held"

definition known_blocks :: "pool_refs \<Rightarrow> in_use \<Rightarrow> addr set" where
  "known_blocks refs held =
     {b. \<exists>t P a. refs t = Some P \<and> map_option mn_block (mp_nodes P a) = Some (Some b)} \<union> snd ` set held"

definition fresh_answers :: "answers \<Rightarrow> nat \<Rightarrow> pool_refs \<Rightarrow> in_use \<Rightarrow> bool" where
  "fresh_answers src t refs held \<longleftrightarrow>
     length (granted src) = length src \<and> distinct (map fst (granted src)) \<and> distinct (map snd (granted src)) \<and>
     snd ` set (granted src) \<inter> known_blocks refs held = {} \<and>
     (case refs t of None \<Rightarrow> int (length src) < 2 ^ 31
      | Some P \<Rightarrow> fst ` set (granted src) \<inter> dom (mp_nodes P) = {} \<and>
          mfreeBlocks P + int (length src) + int (length (of_type t held)) < 2 ^ 31)"

inductive pool_step :: "pool_refs \<times> in_use \<Rightarrow> pool_refs \<times> in_use \<Rightarrow> bool" where
  reserve: "fresh_answers src t refs held \<Longrightarrow> PoolWrapper_makeAllocation room src blockSize t refs = Some (n, refs') \<Longrightarrow>
     pool_step (refs, held) (refs', held)"
| take: "PoolWrapper_getBlock t refs = Some (Inr (Some b), refs') \<Longrightarrow> pool_step (refs, held) (refs', (t, b) # held)"
| throw: "PoolWrapper_getBlock t refs = Some (Inl BadAlloc, refs') \<Longrightarrow> pool_step (refs, held) (refs', held)"
| give: "(t, b) \<in> set held \<Longrightarrow> PoolWrapper_freeBlock t (Some b) refs = Some refs' \<Longrightarrow>
     pool_step (refs, held) (refs', remove1 (t, b) held)"

inductive pool_reach :: "pool_refs \<times> in_use \<Rightarrow> bool" where
  pool_start: "pool_reach (Map.empty, [])"
| pool_next: "pool_reach s \<Longrightarrow> pool_step s s' \<Longrightarrow> pool_reach s'"

definition pool_ok :: "memory_pool option \<Rightarrow> (addr \<times> addr) list \<Rightarrow> nat \<Rightarrow> bool" where
  "pool_ok pool fs n =
     (case pool of None \<Rightarrow> fs = [] \<and> n = 0 | Some P \<Rightarrow> \<exists>as. pool_rel P fs as 0 \<and> length as = n)"

definition pool_inv :: "pool_refs \<Rightarrow> in_use \<Rightarrow> (nat \<Rightarrow> (addr \<times> addr) list) \<Rightarrow> bool" where
  "pool_inv refs held F \<longleftrightarrow>
     (\<forall>t. pool_ok (refs t) (F t) (length (of_type t held))) \<and>
     distinct (map snd held) \<and> (\<forall>t. distinct (map snd (F t))) \<and>
     (\<forall>t t'. t \<noteq> t' \<longrightarrow> snd ` set (F t) \<inter> snd ` set (F t') = {}) \<and> (\<forall>t. snd ` set (F t) \<inter> snd ` set held = {})"

lemma of_type_simps [simp]:
  "of_type t [] = []" "of_type t ((t', b) # held) = (if t' = t then (t', b) # of_type t held else of_type t held)"
  by (simp_all add: of_type_def)

lemma of_type_remove1: "of_type t (remove1 (t', b) held) = (if t = t' then remove1 (t', b) (of_type t held) else of_type t held)"
  by (induction held) (auto simp: of_type_def)

lemma of_type_mem: "(t, b) \<in> set held \<Longrightarrow> (t, b) \<in> set (of_type t held)"
  by (simp add: of_type_def)

lemma pool_inv_start: "pool_inv Map.empty [] (\<lambda>_. [])"
  by (simp add: pool_inv_def pool_ok_def)

lemma pool_invD:
  assumes "pool_inv refs held F"
  shows "refs t = None \<Longrightarrow> F t = [] \<and> of_type t held = []"
    and "refs t = Some P \<Longrightarrow> \<exists>as. pool_rel P (F t) as 0 \<and> length as = length (of_type t held)"
proof -
  have "pool_ok (refs t) (F t) (length (of_type t held))" using assms unfolding pool_inv_def by blast
  then show "refs t = None \<Longrightarrow> F t = [] \<and> of_type t held = []"
    and "refs t = Some P \<Longrightarrow> \<exists>as. pool_rel P (F t) as 0 \<and> length as = length (of_type t held)"
    by (simp_all add: pool_ok_def)
qed

lemma pool_inv_known: "pool_inv refs held F \<Longrightarrow> snd ` set (F t) \<subseteq> known_blocks refs held"
proof
  fix b assume inv: "pool_inv refs held F" and "b \<in> snd ` set (F t)"
  then obtain a where a: "(a, b) \<in> set (F t)" by auto
  then obtain P where P: "refs t = Some P" using pool_invD(1)[OF inv, of t] by (cases "refs t") auto
  then obtain as where "pool_rel P (F t) as 0" using pool_invD(2)[OF inv] by blast
  then have "map_option mn_block (mp_nodes P a) = Some (Some b)" using a by (auto simp: pool_rel_def pool_shape_def)
  with P show "b \<in> known_blocks refs held" by (auto simp: known_blocks_def)
qed

text \<open>One pool changes; the others, and their share of the blocks in use, stay.\<close>

lemma pool_inv_update:
  assumes inv: "pool_inv refs held F" and P: "pool_rel P fs as 0" "length as = length (of_type t held')"
    and other: "\<And>u. u \<noteq> t \<Longrightarrow> of_type u held' = of_type u held"
    and d: "distinct (map snd held')" "distinct (map snd fs)" "snd ` set fs \<inter> snd ` set held' = {}"
    and disj: "\<And>u. u \<noteq> t \<Longrightarrow> snd ` set (F u) \<inter> snd ` set fs = {} \<and> snd ` set (F u) \<inter> snd ` set held' = {}"
  shows "pool_inv (refs(t \<mapsto> P)) held' (F(t := fs))"
proof -
  have old: "\<And>u. pool_ok (refs u) (F u) (length (of_type u held))" "\<And>u. distinct (map snd (F u))"
    "\<And>u v. u \<noteq> v \<Longrightarrow> snd ` set (F u) \<inter> snd ` set (F v) = {}" using inv by (simp_all add: pool_inv_def)
  have "pool_ok ((refs(t \<mapsto> P)) u) ((F(t := fs)) u) (length (of_type u held'))" for u
    using old(1)[of u] P other[of u] by (cases "u = t") (auto simp: pool_ok_def)
  moreover have "distinct (map snd ((F(t := fs)) u))" for u using old(2) d(2) by simp
  moreover have "snd ` set ((F(t := fs)) u) \<inter> snd ` set ((F(t := fs)) v) = {}" if "u \<noteq> v" for u v
    using old(3)[OF that] disj[of u] disj[of v] that by (cases "u = t"; cases "v = t") (simp_all add: Int_commute)
  moreover have "snd ` set ((F(t := fs)) u) \<inter> snd ` set held' = {}" for u
    using disj[of u] d(3) by (cases "u = t") simp_all
  ultimately show ?thesis using d(1) unfolding pool_inv_def by blast
qed

lemma pool_step_inv:
  assumes "pool_step (refs, held) (refs', held')" "pool_inv refs held F"
  shows "\<exists>F'. pool_inv refs' held' F'"
  using assms(1)
proof (cases rule: pool_step.cases)
  case (reserve src t room blockSize n)
  show ?thesis
  proof (cases "refs' = refs")
    case False
    obtain P where P: "(case refs t of Some P \<Rightarrow> Some P | None \<Rightarrow> if room then Some (MemoryPool_init blockSize) else None) = Some P"
      "src \<noteq> []" using False reserve by (auto simp: PoolWrapper_makeAllocation_def split: if_splits option.splits)
    have f: "length (granted src) = length src" "distinct (map fst (granted src))" "distinct (map snd (granted src))"
      "snd ` set (granted src) \<inter> known_blocks refs held = {}" using reserve(2) by (auto simp: fresh_answers_def)
    obtain as where as: "pool_rel P (F t) as 0" "length as = length (of_type t held)"
      "fst ` set (granted src) \<inter> dom (mp_nodes P) = {}" "mfreeBlocks P + int (length src) + int (length as) < 2 ^ 31"
    proof (cases "refs t")
      case None
      then have "P = MemoryPool_init blockSize" "F t = []" "of_type t held = []"
        using P(1) pool_invD(1)[OF assms(2)] by (auto split: if_splits)
      then show ?thesis using None reserve(2) MemoryPool_init_rel[of blockSize]
        by (intro that[of "[]"]) (simp_all add: fresh_answers_def MemoryPool_init_def)
    next
      case (Some Q)
      then show ?thesis using P(1) pool_invD(2)[OF assms(2) Some] reserve(2) that by (auto simp: fresh_answers_def)
    qed
    from makeAllocation_rel[OF as(1) f(2) as(3,4)] obtain P' where
      P': "makeAllocation src P = Some (int (length (granted src)), P')" "pool_rel P' (F t @ granted src) as 0" using f(1) by auto
    then have r: "refs' = refs(t \<mapsto> P')" using reserve(3) P by (auto simp: PoolWrapper_makeAllocation_def)
    have "pool_inv refs' held (F(t := F t @ granted src))"
      unfolding r
    proof (rule pool_inv_update[OF assms(2) P'(2) as(2) refl])
      have known: "snd ` set (granted src) \<inter> snd ` set (F u) = {}" "snd ` set (granted src) \<inter> snd ` set held = {}" for u
      proof -
        show "snd ` set (granted src) \<inter> snd ` set (F u) = {}" using f(4) pool_inv_known[OF assms(2), of u] by blast
        have "snd ` set held \<subseteq> known_blocks refs held" by (simp add: known_blocks_def)
        then show "snd ` set (granted src) \<inter> snd ` set held = {}" using f(4) by blast
      qed
      have old: "snd ` set (F u) \<inter> snd ` set held = {}" "u \<noteq> t \<Longrightarrow> snd ` set (F u) \<inter> snd ` set (F t) = {}" for u
        using assms(2) unfolding pool_inv_def by blast+
      show "distinct (map snd held)" using assms(2) by (simp add: pool_inv_def)
      show "distinct (map snd (F t @ granted src))" using assms(2) f(3) known(1)[of t] by (auto simp: pool_inv_def)
      show "snd ` set (F t @ granted src) \<inter> snd ` set held = {}"
        using old(1)[of t] known(2) by (simp add: image_Un Int_Un_distrib2)
      show "snd ` set (F u) \<inter> snd ` set (F t @ granted src) = {} \<and> snd ` set (F u) \<inter> snd ` set held = {}" if "u \<noteq> t" for u
        using old[of u] known(1)[of u] that by (simp add: image_Un Int_Un_distrib Int_commute)
    qed
    with reserve show ?thesis by blast
  qed (use reserve assms(2) in auto)
next
  case (take t b)
  then obtain P P' where P: "refs t = Some P" "getBlock P = Some (Inr (Some b), P')" "refs' = refs(t \<mapsto> P')"
    by (auto simp: PoolWrapper_getBlock_def split: option.splits)
  from pool_invD(2)[OF assms(2) P(1)] obtain as where as: "pool_rel P (F t) as 0" "length as = length (of_type t held)" by blast
  obtain a fs where F: "F t = (a, b) # fs"
    using P(2) as(1) getBlock_empty[of P as] getBlock_rel[of P _ _ _ as 0] by (cases "F t") fastforce+
  with getBlock_rel[of P a b fs as 0] as(1) P(2) have rel: "pool_rel P' fs (a # as) 0" by auto
  have "pool_inv refs' ((t, b) # held) (F(t := fs))"
    unfolding P(3)
  proof (rule pool_inv_update[OF assms(2) rel])
    have old: "distinct (map snd held)" "distinct (map snd (F t))" "snd ` set (F t) \<inter> snd ` set held = {}"
      "\<And>u. u \<noteq> t \<Longrightarrow> snd ` set (F u) \<inter> snd ` set (F t) = {}" "\<And>u. snd ` set (F u) \<inter> snd ` set held = {}"
      using assms(2) unfolding pool_inv_def by blast+
    show "distinct (map snd ((t, b) # held))" "distinct (map snd fs)" "snd ` set fs \<inter> snd ` set ((t, b) # held) = {}"
      using old(1-3) F by auto
    show "snd ` set (F u) \<inter> snd ` set fs = {} \<and> snd ` set (F u) \<inter> snd ` set ((t, b) # held) = {}" if "u \<noteq> t" for u
      using old(4)[OF that] old(5)[of u] F by auto
  qed (use as(2) in auto)
  with take show ?thesis by blast
next
  case (throw t)
  have "refs' = refs" if P: "refs t = Some P" for P
  proof -
    from pool_invD(2)[OF assms(2) P] obtain as where "pool_rel P (F t) as 0" by blast
    then show ?thesis using throw(2) P getBlock_empty[of P as] getBlock_rel[of P _ _ _ as 0]
      by (cases "F t") (fastforce simp: PoolWrapper_getBlock_def)+
  qed
  then have "refs' = refs" using throw(2) by (cases "refs t") (simp_all add: PoolWrapper_getBlock_def)
  with throw assms(2) show ?thesis by blast
next
  case (give t b)
  then obtain P where P: "refs t = Some P" using pool_invD(1)[OF assms(2), of t] of_type_mem[OF give(2)] by (cases "refs t") auto
  from pool_invD(2)[OF assms(2) P] obtain as where as: "pool_rel P (F t) as 0" "length as = length (of_type t held)" by blast
  then obtain a as' where c: "as = a # as'" using of_type_mem[OF give(2)] by (cases as) auto
  from freeBlock_rel[of P "F t" a as' 0 b] as(1) c obtain P' where
    P': "freeBlock (Some b) P = Some P'" "pool_rel P' (F t @ [(a, b)]) as' 0" by auto
  then have r: "refs' = refs(t \<mapsto> P')" using give(3) P by (auto simp: PoolWrapper_freeBlock_def)
  have old: "distinct (map snd held)" "distinct (map snd (F t))" "snd ` set (F t) \<inter> snd ` set held = {}"
    "\<And>u. u \<noteq> t \<Longrightarrow> snd ` set (F u) \<inter> snd ` set (F t) = {}" "\<And>u. snd ` set (F u) \<inter> snd ` set held = {}"
    using assms(2) unfolding pool_inv_def by blast+
  have gone: "snd ` set (remove1 (t, b) held) \<subseteq> snd ` set held - {b}"
    using old(1) give(2) by (induction held) (auto simp: rev_image_eqI)
  have "pool_inv refs' (remove1 (t, b) held) (F(t := F t @ [(a, b)]))"
    unfolding r
  proof (rule pool_inv_update[OF assms(2) P'(2)])
    show "length as' = length (of_type t (remove1 (t, b) held))"
      using as(2) c of_type_mem[OF give(2)] by (simp add: of_type_remove1 length_remove1)
    show "of_type u (remove1 (t, b) held) = of_type u held" if "u \<noteq> t" for u using that by (simp add: of_type_remove1)
    show "distinct (map snd (remove1 (t, b) held))" using old(1) by (induction held) (auto dest: set_remove1_subset[THEN subsetD])
    have b: "b \<in> snd ` set held" using give(2) by force
    have nb: "b \<notin> snd ` set (F t)" "snd ` set (F t) \<inter> snd ` set (remove1 (t, b) held) = {}"
      "b \<notin> snd ` set (remove1 (t, b) held)" using old(3) b gone by blast+
    show "distinct (map snd (F t @ [(a, b)]))" using old(2) nb(1) by simp
    show "snd ` set (F t @ [(a, b)]) \<inter> snd ` set (remove1 (t, b) held) = {}"
      using nb(2,3) by (simp add: image_Un Int_Un_distrib2)
    show "snd ` set (F u) \<inter> snd ` set (F t @ [(a, b)]) = {} \<and> snd ` set (F u) \<inter> snd ` set (remove1 (t, b) held) = {}"
      if "u \<noteq> t" for u
    proof -
      have "b \<notin> snd ` set (F u)" "snd ` set (F u) \<inter> snd ` set (remove1 (t, b) held) = {}" using old(5)[of u] b gone by blast+
      then show ?thesis using old(4)[OF that] by (simp add: image_Un Int_Un_distrib)
    qed
  qed
  with give show ?thesis by blast
qed

lemma pool_reach_inv: "pool_reach s \<Longrightarrow> \<exists>F. pool_inv (fst s) (snd s) F"
proof (induction rule: pool_reach.induct)
  case pool_start
  then show ?case using pool_inv_start by auto
next
  case (pool_next s s')
  then show ?case using pool_step_inv[of "fst s" "snd s" "fst s'" "snd s'"] by auto
qed

text \<open>A request for a block, whatever happened before.\<close>

lemma pool_get:
  assumes "pool_inv refs held F"
  shows "\<exists>res refs'. PoolWrapper_getBlock t refs = Some (res, refs') \<and>
    (case res of Inl e \<Rightarrow> F t = [] | Inr b \<Rightarrow> \<exists>x. b = Some x \<and> F t \<noteq> [] \<and> x \<notin> snd ` set held)"
proof (cases "refs t")
  case None
  with pool_invD(1)[OF assms, of t] show ?thesis by (simp add: PoolWrapper_getBlock_def)
next
  case (Some P)
  from pool_invD(2)[OF assms Some] obtain as where as: "pool_rel P (F t) as 0" by blast
  have free: "snd ` set (F t) \<inter> snd ` set held = {}" using assms unfolding pool_inv_def by blast
  show ?thesis
  proof (cases "F t")
    case Nil
    with as getBlock_empty[of P as] Some show ?thesis by (simp add: PoolWrapper_getBlock_def)
  next
    case (Cons x fs)
    with as getBlock_rel[of P "fst x" "snd x" fs as 0] obtain P' where "getBlock P = Some (Inr (Some (snd x)), P')" by auto
    moreover have "snd x \<notin> snd ` set held" using free Cons by auto
    ultimately show ?thesis using Some Cons by (auto simp: PoolWrapper_getBlock_def)
  qed
qed

lemma pool_give:
  assumes "pool_inv refs held F" "(t, b) \<in> set held"
  shows "\<exists>refs'. PoolWrapper_freeBlock t (Some b) refs = Some refs'"
proof -
  obtain P where P: "refs t = Some P" using pool_invD(1)[OF assms(1), of t] of_type_mem[OF assms(2)] by (cases "refs t") auto
  from pool_invD(2)[OF assms(1) P] obtain as where as: "pool_rel P (F t) as 0" "length as = length (of_type t held)" by blast
  then obtain a as' where "as = a # as'" using of_type_mem[OF assms(2)] by (cases as) auto
  with freeBlock_rel[of P "F t" a as' 0 b] as(1) P show ?thesis by (auto simp: PoolWrapper_freeBlock_def)
qed

lemma pool_free_count: "pool_inv refs held F \<Longrightarrow> length (F t) = (case refs t of None \<Rightarrow> 0 | Some P \<Rightarrow> nat (mfreeBlocks P))"
  using pool_invD[of refs held F t] by (auto simp: pool_rel_def split: option.split)

text \<open>
  A pool whose count is too high by \<open>over\<close>, as it is after an allocation that was not granted in full,
  hands out its free blocks and then follows the null head of its list.
\<close>

fun get_blocks :: "nat \<Rightarrow> memory_pool \<Rightarrow> memory_pool option" where
  "get_blocks 0 P = Some P"
| "get_blocks (Suc n) P = Option.bind (getBlock P) (\<lambda>(res, P). get_blocks n P)"

lemma get_blocks_rel: "pool_rel P fs as over \<Longrightarrow> \<exists>P' as'. get_blocks (length fs) P = Some P' \<and> pool_rel P' [] as' over"
proof (induction fs arbitrary: P as)
  case Nil
  then show ?case by auto
next
  case (Cons x fs)
  then obtain P' where P': "getBlock P = Some (Inr (Some (snd x)), P')" "pool_rel P' fs (fst x # as) over"
    using getBlock_rel[of P "fst x" "snd x" fs as over] by auto
  from Cons.IH[OF P'(2)] P'(1) show ?case by auto
qed

end
