(* ===== verification/PlatformSamples.thy ===== *)
theory PlatformSamples
  imports Liveness MemoryPool ThreadPool SignalSamples ServerSamples
begin

text \<open>
  The client of the sample message has died; a pool of two blocks; a thread pool of one thread.
\<close>

definition sample_pulse :: "(client_data \<times> gc_queue) option" where
  "sample_pulse = map_option (\<lambda>sv. checkForDeadClients (\<lambda>_. False) [100] (sv_clients sv) []) sample_consumed"

definition sample_blocks :: "nat \<Rightarrow> (addr \<times> request) option" where
  "sample_blocks i = (if i = 0 then Some (10, sample_request 0 0) else None)"

lemma sample_pulse_queue: "map_option snd sample_pulse = Some [101]"
  by code_simp

lemma sample_pulse_thread:
  "map_option (\<lambda>x. map_option (map_option mClientHandles) (mClientTidRepo (fst x) 101)) sample_pulse = Some (Some (Some [7]))"
  by code_simp

lemma sample_consumed_free:
  "map_option (\<lambda>sv. case sv_objs sv 10 of None \<Rightarrow> True | Some _ \<Rightarrow> False) sample_consumed = Some True"
  by code_simp

lemma sample_monitored:
  "\<exists>sv cd e. sample_consumed = Some sv \<and>
     monitored_reach sample_server_env sample_signal_env ((sample_server, []), []) ((sv\<lparr>sv_clients := cd\<rparr>, []), [101]) \<and>
     mClientTidRepo cd 101 = Some (Some e) \<and> mClientHandles e = [7] \<and> map_of (mActiveRequests (sv_rm sv)) 7 \<noteq> None \<and>
     blocks_fresh sample_blocks 0 (sv\<lparr>sv_clients := cd\<rparr>)"
proof -
  obtain sv1 sv2 where s: "sample_received = Some sv1" "sample_consumed = Some sv2"
    "daemon_reach sample_server_env sample_server sv1" "daemon_reach sample_server_env sample_server sv2" using sample_daemon by blast
  have lift: "daemon_reach sample_server_env sample_server sv \<Longrightarrow>
      monitored_reach sample_server_env sample_signal_env ((sample_server, []), []) ((sv, []), [])" for sv
    by (induction rule: daemon_reach.induct) (auto intro: monitored_start monitored_more monitored_step.serve system_step.request_step)
  obtain cd gq where c: "checkForDeadClients (\<lambda>_. False) [100] (sv_clients sv2) [] = (cd, gq)" by fastforce
  moreover have "gq = [101]" using sample_pulse_queue c by (simp add: sample_pulse_def s(2))
  ultimately have p: "checkForDeadClients (\<lambda>_. False) [100] (sv_clients sv2) [] = (cd, [101])" by simp
  have "monitored_step sample_server_env sample_signal_env ((sv2, []), []) ((sv2\<lparr>sv_clients := cd\<rparr>, []), [101])"
    by (rule monitored_step.pulse[OF p])
  with lift[OF s(4)] have "monitored_reach sample_server_env sample_signal_env ((sample_server, []), [])
      ((sv2\<lparr>sv_clients := cd\<rparr>, []), [101])" by (rule monitored_more)
  moreover have "map_option (map_option mClientHandles) (mClientTidRepo cd 101) = Some (Some [7])"
    using sample_pulse_thread p by (simp add: sample_pulse_def s(2))
  then obtain e where "mClientTidRepo cd 101 = Some (Some e)" "mClientHandles e = [7]" by auto
  moreover have "map_of (mActiveRequests (sv_rm sv2)) 7 \<noteq> None" using sample_consumed_map unfolding s(2) by simp
  moreover have "blocks_fresh sample_blocks 0 (sv2\<lparr>sv_clients := cd\<rparr>)"
    using sample_consumed_free unfolding s(2) by (simp add: blocks_fresh_def sample_blocks_def split: option.splits)
  ultimately show ?thesis using s(2) by blast
qed

section \<open>Blocks and tasks\<close>

definition sample_answers :: answers where "sample_answers = [(Some 1, Some 11), (Some 2, Some 12)]"

definition sample_refs :: "(pool_refs \<times> pool_refs) option" where
  "sample_refs = do {
     (_, refs) \<leftarrow> PoolWrapper_makeAllocation True sample_answers 8 0 Map.empty;
     (_, refs') \<leftarrow> PoolWrapper_getBlock 0 refs;
     Some (refs, refs') }"

lemma sample_first_block:
  "Option.bind (PoolWrapper_makeAllocation True sample_answers 8 0 Map.empty)
     (\<lambda>(n, refs). map_option (\<lambda>(res, refs'). (n, res)) (PoolWrapper_getBlock 0 refs)) = Some (2, Inr (Some 11))"
  by code_simp

lemma sample_pool: "\<exists>refs. pool_reach (refs, [(0, 11)])"
proof -
  from sample_first_block obtain n refs refs' where
    r: "PoolWrapper_makeAllocation True sample_answers 8 0 Map.empty = Some (n, refs)"
    "PoolWrapper_getBlock 0 refs = Some (Inr (Some 11), refs')" by (auto simp: bind_eq_Some_conv)
  have "fresh_answers sample_answers 0 Map.empty []"
    by (simp add: fresh_answers_def sample_answers_def known_blocks_def)
  from pool_next[OF pool_start pool_step.reserve[OF this r(1)]] pool_step.take[OF r(2)] show ?thesis by (meson pool_next)
qed

definition sample_threads :: "thread_pool option" where
  "sample_threads = ThreadPool_init [(Some 1, True)] 2"

definition sample_tasks :: "(thread_pool \<times> thread_pool \<times> thread_pool \<times> round) option" where
  "sample_tasks = do {
     tp \<leftarrow> sample_threads;
     (b, tp1) \<leftarrow> enqueueTask (Some 1) True (None, False) (Some 5) 50 tp;
     (b', tp2) \<leftarrow> enqueueTask (Some 2) True (None, False) (Some 6) 60 tp1;
     r \<leftarrow> threadRoutineHelper True False False tp2;
     (if b \<and> b' then Some (tp, tp1, tp2, r) else None) }"

definition round_task :: "round \<Rightarrow> (task_fn \<times> nat) option \<times> bool \<times> bool" where
  "round_task r = (case r of Runs t ends tp \<Rightarrow> (t, ends, mTerminatePool tp) | _ \<Rightarrow> (None, True, True))"

lemma sample_tasks_run:
  "map_option (\<lambda>(tp, tp1, tp2, r). (map (\<lambda>p. mCurrentThreadsCount p) [tp, tp1, tp2],
     map (\<lambda>p. tq_size (mCurrentTasks p)) [tp, tp1, tp2], round_task r)) sample_tasks =
     Some ([1, 1, 1], [0, 1, 2], (Some (5, 50), False, False))"
  by code_simp

lemma sample_tasks_free:
  "map_option (\<lambda>(tp, tp1, tp2, r). ((case tq_nodes (mCurrentTasks tp) 1 of None \<Rightarrow> True | Some _ \<Rightarrow> False),
     (case tq_nodes (mCurrentTasks tp1) 2 of None \<Rightarrow> True | Some _ \<Rightarrow> False))) sample_tasks = Some (True, True)"
  by code_simp

lemma sample_pool_run:
  "\<exists>tp r. sample_threads = Some tp \<and> run_reach (pool_run_start tp) r \<and> pr_accepted r = [(5, 50), (6, 60)] \<and> pr_taken r = [(5, 50)] \<and>
     \<not> mTerminatePool (pr_pool r)"
proof -
  obtain tp tp1 tp2 r where s: "sample_tasks = Some (tp, tp1, tp2, r)" using sample_tasks_run by auto
  then have e: "sample_threads = Some tp" "enqueueTask (Some 1) True (None, False) (Some 5) 50 tp = Some (True, tp1)"
    "enqueueTask (Some 2) True (None, False) (Some 6) 60 tp1 = Some (True, tp2)" "threadRoutineHelper True False False tp2 = Some r"
    by (auto simp: sample_tasks_def bind_eq_Some_conv split: if_splits)
  have n: "mCurrentThreadsCount tp = 1" "mCurrentThreadsCount tp1 = 1" "mCurrentThreadsCount tp2 = 1"
    "tq_size (mCurrentTasks tp) = 0" "tq_size (mCurrentTasks tp1) = 1" "round_task r = (Some (5, 50), False, False)"
    using sample_tasks_run by (simp_all add: s)
  have f: "tq_nodes (mCurrentTasks tp) 1 = None" "tq_nodes (mCurrentTasks tp1) 2 = None"
    using sample_tasks_free by (simp_all add: s split: option.splits)
  obtain tp3 where r: "r = Runs (Some (5, 50)) False tp3" "\<not> mTerminatePool tp3" using n(6) by (cases r) (auto simp: round_task_def)
  let ?r0 = "pool_run_start tp"
  have b0: "blocks_ok (Some 1) True (None, False) (pr_pool ?r0)" using n f by (simp add: blocks_ok_def pool_run_start_def)
  have e0: "enqueueTask (Some 1) True (None, False) (Some 5) 50 (pr_pool ?r0) = Some (True, tp1)" using e by (simp add: pool_run_start_def)
  note s1 = run_next[OF run_start run_step.accept[OF b0 e0]]
  let ?r1 = "?r0\<lparr>pr_pool := tp1, pr_accepted := pr_accepted ?r0 @ [(5, 50)]\<rparr>"
  have b1: "blocks_ok (Some 2) True (None, False) (pr_pool ?r1)" using n f by (simp add: blocks_ok_def)
  have e1: "enqueueTask (Some 2) True (None, False) (Some 6) 60 (pr_pool ?r1) = Some (True, tp2)" using e by simp
  note s2 = run_next[OF s1 run_step.accept[OF b1 e1]]
  let ?r2 = "?r1\<lparr>pr_pool := tp2, pr_accepted := pr_accepted ?r1 @ [(6, 60)]\<rparr>"
  have "run_inv (pool_run_start tp) []"
    using ThreadPool_init_inv[of "[(Some 1, True)]" 2] e(1) by (simp add: sample_threads_def thread_blocks_def)
  with run_reach_inv[OF s2] obtain ts where i2: "run_inv ?r2 ts" by blast
  then have "int (pr_started ?r2) = 1" using n by (auto simp: run_inv_def pool_run_start_def)
  then have "pr_idle ?r2 + pr_gone ?r2 < pr_started ?r2" by (simp add: pool_run_start_def)
  moreover have "threadRoutineHelper True False False (pr_pool ?r2) = Some (Runs (Some (5, 50)) False tp3)" using e(4) r(1) by simp
  ultimately have "run_step ?r2 (?r2\<lparr>pr_pool := tp3, pr_taken := pr_taken ?r2 @ [(5, 50)],
      pr_gone := pr_gone ?r2 + (if False then 1 else 0)\<rparr>)"
    by (rule run_step.run_task)
  from run_next[OF s2 this] e(1) r(2) show ?thesis by (fastforce simp: pool_run_start_def)
qed

end
