(* ===== verification/ClientCLI.thy ===== *)
theory ClientCLI
  imports RestuneParser Samples Files "HOL-Library.Multiset"
begin

text \<open>
  \<^verbatim>\<open>client/ClientCLI.cpp\<close>: the command line client, from its options or the lines it reads to the
  calls of the client library; what it prints is left out. What is proved: a list of resources in the syntax of the
  option is read back to these resources, and which lines of the interactive mode reach the library.
\<close>

section \<open>Lists of resources\<close>

text \<open>An uncaught exception, a message to the user, or a result.\<close>

datatype 'a cli_result = Thrown | Refused | Value 'a

text \<open>The entries of the hash table, in the order they were inserted.\<close>

type_synonym cli_resource = "u32 \<times> i32 \<times> i32 list"

definition update_entry :: "u32 \<Rightarrow> (i32 \<times> i32 list \<Rightarrow> i32 \<times> i32 list) \<Rightarrow> cli_resource list \<Rightarrow> cli_resource list" where
  "update_entry code f m =
     (if code \<in> fst ` set m then map (\<lambda>(k, e). if k = code then (k, f e) else (k, e)) m
      else m @ [(code, f (0, []))])"

fun parse_values :: "string \<Rightarrow> string list \<Rightarrow> cli_resource list \<Rightarrow> cli_resource list cli_result" where
  "parse_values opCode [] m = Value m"
| "parse_values opCode (v # vs) m =
     (case (stol opCode, stoi10 v) of
        (Some code, Some x) \<Rightarrow>
          parse_values opCode vs (update_entry (word_of_int code) (\<lambda>(info, xs). (info, xs @ [word_of_int x])) m)
      | _ \<Rightarrow> Refused)"

definition parse_resource :: "string \<Rightarrow> cli_resource list \<Rightarrow> cli_resource list cli_result" where
  "parse_resource token m =
     (if CHR '':'' \<notin> set token then Refused
      else (let opCode = takeWhile (\<lambda>c. c \<noteq> CHR '':'') token;
                valuesStr = tl (dropWhile (\<lambda>c. c \<noteq> CHR '':'') token);
                resInfo = (if CHR ''#'' \<in> set opCode then tl (dropWhile (\<lambda>c. c \<noteq> CHR ''#'') opCode) else []);
                opCode = takeWhile (\<lambda>c. c \<noteq> CHR ''#'') opCode
            in if resInfo \<noteq> [] then
                 (case (stoi resInfo, stol opCode) of
                    (Some info, Some code) \<Rightarrow>
                      parse_values opCode (tokens (CHR '','') valuesStr)
                        (update_entry (word_of_int code) (\<lambda>(_, xs). (word_of_int info, xs)) m)
                  | _ \<Rightarrow> Thrown)
               else parse_values opCode (tokens (CHR '','') valuesStr) m))"

fun parse_tokens :: "string list \<Rightarrow> cli_resource list \<Rightarrow> cli_resource list cli_result" where
  "parse_tokens [] m = Value m"
| "parse_tokens (t # ts) m = (case parse_resource t m of Value m' \<Rightarrow> parse_tokens ts m' | r \<Rightarrow> r)"

text \<open>\<open>iter\<close>: the order in which the hash table is iterated.\<close>

definition parseResources :: "(cli_resource list \<Rightarrow> cli_resource list) \<Rightarrow> string \<Rightarrow> cli_resource list cli_result" where
  "parseResources iter input =
     (case parse_tokens (tokens (CHR '';'') input) [] of Value m \<Rightarrow> Value (iter m) | r \<Rightarrow> r)"

section \<open>Calls of the library\<close>

definition sys_of :: "cli_resource \<Rightarrow> sys_resource" where
  "sys_of = (\<lambda>(code, info, xs). \<lparr>sr_code = code, sr_info = info, sr_opt = 0, sr_num = word_of_nat (length xs),
     sr_value = (if length xs = 1 then SysValue (hd xs) else SysValues xs)\<rparr>)"

definition bound_priority :: "i32 \<Rightarrow> i32" where
  "bound_priority p = (let p = (if sint p < 0 then 0 else p) in if 1 < sint p then 1 else p)"

text \<open>The surroundings of a call: connection, encoder, process and thread, iteration order, and what is in a fresh buffer.\<close>

record cli_env =
  ce_net :: net
  ce_batch :: flat_buff_encoder
  ce_pid :: i32
  ce_tid :: i32
  ce_iter :: "cli_resource list \<Rightarrow> cli_resource list"
  ce_stack :: bytes

type_synonym api_result = "(i64 \<times> u8 list option) option"

definition sendTuneRequest :: "cli_env \<Rightarrow> i64 \<Rightarrow> i32 \<Rightarrow> i32 \<Rightarrow> string \<Rightarrow> api_result cli_result" where
  "sendTuneRequest ce duration priority cnt resourceInfo =
     (if sint cnt < 0 then Refused
      else (case parseResources (ce_iter ce) resourceInfo of
          Thrown \<Rightarrow> Thrown
        | Refused \<Rightarrow> Refused
        | Value resourceVec \<Rightarrow>
            if sint cnt < int (length resourceVec) then Refused
            else Value (tuneResources (ce_net ce) (ce_batch ce) (ce_pid ce) (ce_tid ce) duration (bound_priority priority)
                   (word_of_nat (length resourceVec)) (Some (map sys_of resourceVec)))))"

definition sendRetuneRequest :: "cli_env \<Rightarrow> i64 \<Rightarrow> i64 \<Rightarrow> api_result cli_result" where
  "sendRetuneRequest ce handle duration =
     Value (retuneResources (ce_net ce) (ce_batch ce) (ce_pid ce) (ce_tid ce) handle duration)"

definition sendUntuneRequest :: "cli_env \<Rightarrow> i64 \<Rightarrow> api_result cli_result" where
  "sendUntuneRequest ce handle = Value (untuneResources (ce_net ce) (ce_batch ce) (ce_pid ce) (ce_tid ce) handle)"

section \<open>The interactive mode\<close>

text \<open>One line; the second component tells whether the mode goes on.\<close>

definition processCommands :: "cli_env \<Rightarrow> string \<Rightarrow> api_result cli_result \<times> bool" where
  "processCommands ce input =
     (if input = '''' then (Refused, True)
      else if input = ''exit'' \<or> input = ''stop'' then (Refused, False)
      else if input = ''help'' then (Refused, True)
      else (let ts = tokens (CHR '' '') input
            in if ts ! 0 = ''tune'' then
                 (if length ts \<noteq> 5 then (Refused, True)
                  else if CHR '':'' \<notin> set (ts ! 1) then (Refused, True)
                  else (case (stoi10 (ts ! 1), stoi10 (ts ! 2), stoi10 (ts ! 3)) of
                      (Some duration, Some priority, Some cnt) \<Rightarrow>
                        if duration < -1 \<or> duration = 0 \<or> cnt \<le> 0 then (Refused, True)
                        else (sendTuneRequest ce (word_of_int duration) (word_of_int priority) (word_of_int cnt) (ts ! 4), True)
                    | _ \<Rightarrow> (Thrown, False)))
               else if ts ! 0 = ''untune'' then
                 (if length ts \<noteq> 2 then (Refused, True)
                  else (case stoi10 (ts ! 1) of None \<Rightarrow> (Thrown, False)
                    | Some handle \<Rightarrow>
                        if handle \<le> 0 then (Refused, True) else (sendUntuneRequest ce (word_of_int handle), True)))
               else if ts ! 0 = ''retune'' then
                 (if length ts \<noteq> 3 then (Refused, True)
                  else (case (stoi10 (ts ! 1), stoi10 (ts ! 2)) of
                      (Some handle, Some duration) \<Rightarrow>
                        if handle \<le> 0 \<or> duration = 0 \<or> duration < -1 then (Refused, True)
                        else (sendRetuneRequest ce (word_of_int handle) (word_of_int duration), True)
                    | _ \<Rightarrow> (Thrown, False)))
               else (Refused, True)))"

text \<open>
  A thrown exception is not of the kind that is caught, and ends the program. At the end of the input the
  mode goes on with empty lines.
\<close>

fun startPersistentMode :: "cli_env \<Rightarrow> string list \<Rightarrow> api_result cli_result list" where
  "startPersistentMode ce [] = []"
| "startPersistentMode ce (input # inputs) =
     (case processCommands ce input of (r, go_on) \<Rightarrow> r # (if go_on \<and> r \<noteq> Thrown then startPersistentMode ce inputs else []))"

section \<open>Options\<close>

record cli_options =
  co_type :: i8
  co_handle :: i64
  co_duration :: i64
  co_priority :: i32
  co_num :: i32
  co_resources :: "string option"
  co_key :: "string option"
  co_code :: "string option"
  co_persistent :: bool

definition cli_defaults :: cli_options where
  "cli_defaults = \<lparr>co_type = -1, co_handle = -1, co_duration = -1, co_priority = -1, co_num = -1, co_resources = None,
     co_key = None, co_code = None, co_persistent = False\<rparr>"

text \<open>One option as \<^verbatim>\<open>getopt_long\<close> delivers it; a number that cannot be read throws.\<close>

definition apply_option :: "char \<times> string \<Rightarrow> cli_options \<Rightarrow> cli_options option" where
  "apply_option = (\<lambda>(c, optarg) o1.
     if c = CHR ''t'' then Some (o1\<lparr>co_type := REQ_RESOURCE_TUNING\<rparr>)
     else if c = CHR ''u'' then Some (o1\<lparr>co_type := REQ_RESOURCE_UNTUNING\<rparr>)
     else if c = CHR ''r'' then Some (o1\<lparr>co_type := REQ_RESOURCE_RETUNING\<rparr>)
     else if c = CHR ''d'' then map_option (\<lambda>v. o1\<lparr>co_duration := word_of_int v\<rparr>) (stoi10 optarg)
     else if c = CHR ''p'' then map_option (\<lambda>v. o1\<lparr>co_priority := word_of_int v\<rparr>) (stoi10 optarg)
     else if c = CHR ''h'' then map_option (\<lambda>v. o1\<lparr>co_handle := word_of_int v\<rparr>) (stoi10 optarg)
     else if c = CHR ''l'' then Some (o1\<lparr>co_resources := Some optarg\<rparr>)
     else if c = CHR ''n'' then map_option (\<lambda>v. o1\<lparr>co_num := word_of_int v\<rparr>) (stoi10 optarg)
     else if c = CHR ''s'' then Some (o1\<lparr>co_persistent := True\<rparr>)
     else if c = CHR ''g'' then Some (o1\<lparr>co_type := REQ_PROP_GET\<rparr>)
     else if c = CHR ''k'' then Some (o1\<lparr>co_key := Some optarg\<rparr>)
     else if c = CHR ''q'' then Some (o1\<lparr>co_type := REQ_SIGNAL_TUNING\<rparr>)
     else if c = CHR ''x'' then Some (o1\<lparr>co_type := REQ_SIGNAL_UNTUNING\<rparr>)
     else if c = CHR ''m'' then Some (o1\<lparr>co_code := Some optarg\<rparr>)
     else Some o1)"

datatype cli_call = Api api_result | Query "(i64 \<times> u8 list option \<times> bytes option) option" | Persistent | NoCommand

definition api_call :: "api_result cli_result \<Rightarrow> cli_call cli_result" where
  "api_call r = (case r of Thrown \<Rightarrow> Thrown | Refused \<Rightarrow> Refused | Value a \<Rightarrow> Value (Api a))"

definition sendPropRequest :: "cli_env \<Rightarrow> string \<Rightarrow> (i64 \<times> u8 list option \<times> bytes option) option" where
  "sendPropRequest ce prop =
     getProp (ce_net ce) (ce_batch ce) (Some (bytes_of prop)) (Some (take 1024 (ce_stack ce))) 1024 (Some (bytes_of ''prop_not_found''))"

definition sendTuneSignal :: "cli_env \<Rightarrow> string \<Rightarrow> api_result cli_result" where
  "sendTuneSignal ce scode =
     (case stol scode of None \<Rightarrow> Thrown
      | Some code \<Rightarrow> Value (tuneSignal (ce_net ce) (ce_batch ce) (ce_pid ce) (ce_tid ce) (word_of_int code) 0 0 0 [] [] 0 None))"

definition sendUntuneSignal :: "cli_env \<Rightarrow> i64 \<Rightarrow> api_result cli_result" where
  "sendUntuneSignal ce handle = Value (untuneSignal (ce_net ce) (ce_batch ce) (ce_pid ce) (ce_tid ce) handle)"

definition cli_dispatch :: "cli_env \<Rightarrow> cli_options \<Rightarrow> cli_call cli_result" where
  "cli_dispatch ce o1 =
     (if co_persistent o1 then Value Persistent
      else if co_type o1 = REQ_RESOURCE_TUNING then
        (case co_resources o1 of None \<Rightarrow> Refused
         | Some resources \<Rightarrow>
             if sint (co_duration o1) = 0 \<or> sint (co_duration o1) < -1 \<or> sint (co_num o1) \<le> 0 \<or> co_priority o1 = -1 then Refused
             else api_call (sendTuneRequest ce (co_duration o1) (co_priority o1) (co_num o1) resources))
      else if co_type o1 = REQ_RESOURCE_RETUNING then
        (if sint (co_duration o1) = 0 \<or> sint (co_duration o1) < -1 \<or> sint (co_handle o1) \<le> 0 then Refused
         else api_call (sendRetuneRequest ce (co_handle o1) (co_duration o1)))
      else if co_type o1 = REQ_RESOURCE_UNTUNING then
        (if sint (co_handle o1) \<le> 0 then Refused else api_call (sendUntuneRequest ce (co_handle o1)))
      else if co_type o1 = REQ_PROP_GET then
        (case co_key o1 of None \<Rightarrow> Refused | Some key \<Rightarrow> Value (Query (sendPropRequest ce key)))
      else if co_type o1 = REQ_SIGNAL_TUNING then
        (case co_code o1 of None \<Rightarrow> Refused | Some code \<Rightarrow> api_call (sendTuneSignal ce code))
      else if co_type o1 = REQ_SIGNAL_UNTUNING then
        (if sint (co_handle o1) \<le> 0 then Refused else api_call (sendUntuneSignal ce (co_handle o1)))
      else Value NoCommand)"

definition cli_main :: "cli_env \<Rightarrow> (char \<times> string) list \<Rightarrow> cli_call cli_result" where
  "cli_main ce opts = (case foldM apply_option opts cli_defaults of None \<Rightarrow> Thrown | Some o1 \<Rightarrow> cli_dispatch ce o1)"

section \<open>Writing and reading resources\<close>

text \<open>The syntax of the option: \<open>code#info:value,value\<close>, entries separated by semicolons.\<close>

fun join :: "char \<Rightarrow> string list \<Rightarrow> string" where
  "join d [] = []"
| "join d [s] = s"
| "join d (s # ss) = s @ d # join d ss"

definition show_resource :: "cli_resource \<Rightarrow> string" where
  "show_resource = (\<lambda>(code, info, xs).
     to_string (uint code) @ (if info = 0 then [] else CHR ''#'' # to_string (sint info)) @
     CHR '':'' # join (CHR '','') (map (\<lambda>x. to_string (sint x)) xs))"

definition show_resources :: "cli_resource list \<Rightarrow> string" where
  "show_resources rs = join (CHR '';'') (map show_resource rs)"

lemma tokens_join:
  "\<forall>s\<in>set ss. d \<notin> set s \<and> s \<noteq> [] \<Longrightarrow> tokens d (join d ss) = ss"
proof (induction d ss rule: join.induct)
  case (3 d s t ss)
  then show ?case using tokens_cons_sep[of d s "join d (t # ss)"] by simp
qed (simp_all add: tokens_no_sep)

lemma separators:
  "CHR '';'' \<notin> set (to_string v)" "CHR '':'' \<notin> set (to_string v)" "CHR '','' \<notin> set (to_string v)" "CHR ''#'' \<notin> set (to_string v)"
proof -
  have "c \<notin> set (to_string v)" if "c \<in> {CHR '';'', CHR '':'', CHR '','', CHR ''#''}" for c
  proof
    assume "c \<in> set (to_string v)"
    then have "c = CHR ''-'' \<or> digit_value c < 10" by (rule to_string_chars)
    then show False using that by (auto simp: digit_value_def)
  qed
  then show "CHR '';'' \<notin> set (to_string v)" "CHR '':'' \<notin> set (to_string v)" "CHR '','' \<notin> set (to_string v)"
    "CHR ''#'' \<notin> set (to_string v)" by auto
qed

lemma to_base_head: "0 < n \<Longrightarrow> hd (to_base 10 n) \<noteq> CHR ''0''"
proof (induction "10 :: nat" n rule: to_base.induct)
  case (1 n)
  show ?case
  proof (cases "n < 10")
    case True
    have "\<forall>k\<in>set [1..<10]. digit_char k \<noteq> CHR ''0''" by code_simp
    then show ?thesis using 1(2) True by (subst to_base.simps) auto
  next
    case False
    then have "hd (to_base 10 (n div 10)) \<noteq> CHR ''0''" by (intro 1(1)) auto
    then show ?thesis using False by (subst to_base.simps) simp
  qed
qed

lemma parse_magnitude_to_base: "parse_magnitude (to_base 10 n) = Some (int n)"
proof (cases "n = 0")
  case True
  have "parse_magnitude (to_base 10 0) = Some 0" by code_simp
  then show ?thesis using True by simp
next
  case False
  then obtain c cs where c: "to_base 10 n = c # cs" "c \<noteq> CHR ''0''"
    using to_base_head[of n] by (cases "to_base 10 n") auto
  then have "parse_magnitude (c # cs) = parse_base 10 (c # cs)" by (auto simp: parse_magnitude_def split: list.split)
  then show ?thesis using parse_base_to_base[of 10 n] c(1) by simp
qed

lemma to_string_head:
  obtains c cs where "to_base 10 (nat \<bar>v\<bar>) = c # cs" "\<not> c_space c" "c \<noteq> CHR ''-''" "c \<noteq> CHR ''+''"
    "to_string v = (if v < 0 then CHR ''-'' # c # cs else c # cs)" "parse_magnitude (c # cs) = Some \<bar>v\<bar>"
proof -
  obtain c cs where c: "to_base 10 (nat \<bar>v\<bar>) = c # cs" by (cases "to_base 10 (nat \<bar>v\<bar>)") auto
  have "digit_value c < 10" using to_base_digits[of 10 c "nat \<bar>v\<bar>"] c by simp
  from digit_not_special[OF this] show ?thesis
    by (intro that[OF c]) (use c parse_magnitude_to_base[of "nat \<bar>v\<bar>"] in \<open>auto simp: to_string_def\<close>)
qed

lemma stoi_to_string: "- (2 ^ 31) \<le> v \<Longrightarrow> v < 2 ^ 31 \<Longrightarrow> stoi (to_string v) = Some v"
proof -
  assume v: "- (2 ^ 31) \<le> v" "v < 2 ^ 31"
  obtain c cs where c: "\<not> c_space c" "c \<noteq> CHR ''-''" "c \<noteq> CHR ''+''"
    "to_string v = (if v < 0 then CHR ''-'' # c # cs else c # cs)" "parse_magnitude (c # cs) = Some \<bar>v\<bar>"
    using to_string_head[of v] by metis
  have s: "\<not> c_space CHR ''-''" by code_simp
  show ?thesis using c s v by (cases "v < 0") (simp_all add: stoi_def Let_def)
qed

lemma stol_to_string: "- (2 ^ 63) \<le> v \<Longrightarrow> v < 2 ^ 63 \<Longrightarrow> stol (to_string v) = Some v"
proof -
  assume v: "- (2 ^ 63) \<le> v" "v < 2 ^ 63"
  obtain c cs where c: "\<not> c_space c" "c \<noteq> CHR ''-''" "c \<noteq> CHR ''+''"
    "to_string v = (if v < 0 then CHR ''-'' # c # cs else c # cs)" "parse_magnitude (c # cs) = Some \<bar>v\<bar>"
    using to_string_head[of v] by metis
  have s: "\<not> c_space CHR ''-''" by code_simp
  show ?thesis using c s v by (cases "v < 0") (simp_all add: stol_def split_sign_def Let_def)
qed

section \<open>Reading back\<close>

lemma update_new: "code \<notin> fst ` set m \<Longrightarrow> update_entry code f m = m @ [(code, f (0, []))]"
  by (simp add: update_entry_def)

lemma update_last: "code \<notin> fst ` set m \<Longrightarrow> update_entry code f (m @ [(code, e)]) = m @ [(code, f e)]"
  by (force simp: update_entry_def intro!: map_idI)

lemma word_of_sint: "word_of_int (sint (x :: i32)) = x" "word_of_int (uint (c :: u32)) = c"
  by simp_all

lemma sint_range: "- (2 ^ 31) \<le> sint (x :: i32)" "sint x < 2 ^ 31"
  using sint_greater_eq[of x] sint_less[of x] by simp_all

lemma code_range: "- (2 ^ 63) \<le> uint (c :: u32) \<and> uint c < 2 ^ 63"
proof -
  have "0 \<le> uint c" "uint c < 2 ^ 32" using uint_lt2p[of c] by simp_all
  then show ?thesis by (intro conjI) (simp_all add: order_trans[of _ 0] order_less_trans)
qed

lemma parse_values_last:
  assumes "code \<notin> fst ` set m"
  shows "parse_values (to_string (uint code)) (map (\<lambda>x. to_string (sint x)) xs) (m @ [(code, info, ys)]) = Value (m @ [(code, info, ys @ xs)])"
proof (induction xs arbitrary: ys)
  case (Cons x xs)
  then show ?case
    using stol_to_string[of "uint code"] code_range[of code] stoi10_to_string[OF sint_range[of x]] update_last[OF assms]
    by simp
qed simp

lemma parse_values_new:
  assumes "code \<notin> fst ` set m" "xs \<noteq> []"
  shows "parse_values (to_string (uint code)) (map (\<lambda>x. to_string (sint x)) xs) m = Value (m @ [(code, 0, xs)])"
proof -
  obtain x ys where xs: "xs = x # ys" using assms(2) by (cases xs) auto
  show ?thesis
    using stol_to_string[of "uint code"] code_range[of code] stoi10_to_string[OF sint_range[of x]] update_new[OF assms(1)]
      parse_values_last[OF assms(1), of ys 0 "[x]"]
    by (simp add: xs)
qed

lemma takeWhile_sep: "d \<notin> set s \<Longrightarrow> takeWhile (\<lambda>c. c \<noteq> d) (s @ d # t) = s \<and> dropWhile (\<lambda>c. c \<noteq> d) (s @ d # t) = d # t"
  by (induction s) auto

lemma takeWhile_none: "d \<notin> set s \<Longrightarrow> takeWhile (\<lambda>c. c \<noteq> d) s = s"
  by (induction s) auto

lemma parse_show_resource:
  assumes "code \<notin> fst ` set m" "xs \<noteq> []"
  shows "parse_resource (show_resource (code, info, xs)) m = Value (m @ [(code, info, xs)])"
proof -
  let ?code = "to_string (uint code)" and ?vals = "map (\<lambda>x. to_string (sint x)) xs"
  let ?op = "?code @ (if info = 0 then [] else CHR ''#'' # to_string (sint info))"
  have op: "CHR '':'' \<notin> set ?op" using separators by auto
  have vals: "tokens (CHR '','') (join (CHR '','') ?vals) = ?vals" using separators by (intro tokens_join) auto
  have sh: "show_resource (code, info, xs) = ?op @ CHR '':'' # join (CHR '','') ?vals" by (simp add: show_resource_def)
  note split = takeWhile_sep[OF op, of "join (CHR '','') ?vals"]
  show ?thesis
  proof (cases "info = 0")
    case True
    then show ?thesis using split vals parse_values_new[OF assms] separators
      unfolding parse_resource_def Let_def sh by (simp add: True takeWhile_none[OF separators(4)])
  next
    case False
    note code = takeWhile_sep[OF separators(4), of "uint code" "to_string (sint info)"]
    have "stoi (to_string (sint info)) = Some (sint info)" by (rule stoi_to_string[OF sint_range])
    moreover have "stol ?code = Some (uint code)" using code_range[of code] by (intro stol_to_string) auto
    ultimately show ?thesis
      using False split vals code update_new[OF assms(1)] parse_values_last[OF assms(1), of xs info "[]"]
      unfolding parse_resource_def Let_def sh by (simp add: False)
  qed
qed

definition cli_ok :: "cli_resource list \<Rightarrow> bool" where
  "cli_ok rs \<longleftrightarrow> distinct (map fst rs) \<and> (\<forall>(code, info, xs)\<in>set rs. xs \<noteq> [] \<and> length xs < 2 ^ 31)"

lemma parse_tokens_show:
  "distinct (map fst (m @ rs)) \<Longrightarrow> \<forall>(code, info, xs)\<in>set rs. xs \<noteq> [] \<Longrightarrow>
     parse_tokens (map show_resource rs) m = Value (m @ rs)"
proof (induction rs arbitrary: m)
  case (Cons r rs)
  obtain code info xs where r: "r = (code, info, xs)" by (cases r)
  have "code \<notin> fst ` set m" "xs \<noteq> []" using Cons.prems by (auto simp: r)
  then show ?case using Cons.IH[of "m @ [r]"] Cons.prems parse_show_resource[of code m xs info] by (simp add: r)
qed simp

lemma show_resource_chars: "CHR '';'' \<notin> set (show_resource r) \<and> show_resource r \<noteq> []"
proof -
  have j: "c \<in> set (join d ss) \<Longrightarrow> c = d \<or> (\<exists>s\<in>set ss. c \<in> set s)" for c d ss
    by (induction d ss rule: join.induct) auto
  obtain code info xs where r: "r = (code, info, xs)" by (cases r)
  have "CHR '';'' \<notin> set (join (CHR '','') (map (\<lambda>x. to_string (sint x)) xs))"
    using separators(1) by (auto dest!: j)
  then show ?thesis using separators(1) by (simp add: r show_resource_def)
qed

lemma parseResources_show:
  assumes "cli_ok rs"
  shows "parseResources iter (show_resources rs) = Value (iter rs)"
proof -
  have "tokens (CHR '';'') (show_resources rs) = map show_resource rs"
    unfolding show_resources_def using show_resource_chars by (intro tokens_join) auto
  moreover have "\<forall>(code, info, xs)\<in>set rs. xs \<noteq> []" "distinct (map fst ([] @ rs))" using assms by (auto simp: cli_ok_def)
  ultimately show ?thesis using parse_tokens_show[of "[]" rs] by (simp add: parseResources_def)
qed

section \<open>From the command line to the message\<close>

definition cli_wire :: "cli_resource \<Rightarrow> wire_resource" where
  "cli_wire = (\<lambda>(code, info, xs). \<lparr>w_code = code, w_info = info, w_opt = 0, w_vals = xs\<rparr>)"

lemma wire_of_sys: "length xs < 2 ^ 31 \<Longrightarrow> wire_of (sys_of (code, info, xs)) = cli_wire (code, info, xs)"
proof -
  assume "length xs < 2 ^ 31"
  then have n: "sint (word_of_nat (length xs) :: i32) = int (length xs)" by (rule sint_small_nat)
  then show ?thesis
    by (cases "length xs = 1") (auto simp: wire_of_def sys_of_def cli_wire_def sys_values_def length_Suc_conv)
qed

lemma map_wire_of_sys: "cli_ok rs \<Longrightarrow> set ss \<subseteq> set rs \<Longrightarrow> map wire_of (map sys_of ss) = map cli_wire ss"
proof -
  assume "cli_ok rs" "set ss \<subseteq> set rs"
  then have "wire_of (sys_of r) = cli_wire r" if "r \<in> set ss" for r
    using that by (cases r) (fastforce simp: cli_ok_def intro!: wire_of_sys)
  then show ?thesis by simp
qed

text \<open>The options of a tune command.\<close>

definition tune_options :: "int \<Rightarrow> int \<Rightarrow> int \<Rightarrow> cli_resource list \<Rightarrow> (char \<times> string) list" where
  "tune_options duration priority num rs =
     [(CHR ''t'', []), (CHR ''d'', to_string duration), (CHR ''p'', to_string priority), (CHR ''n'', to_string num),
      (CHR ''l'', show_resources rs)]"

definition int_range :: "int \<Rightarrow> bool" where
  "int_range v \<longleftrightarrow> - (2 ^ 31) \<le> v \<and> v < 2 ^ 31"

lemma tune_options_apply:
  assumes "int_range duration" "int_range priority" "int_range num"
  shows "foldM apply_option (tune_options duration priority num rs) cli_defaults =
    Some (cli_defaults\<lparr>co_type := REQ_RESOURCE_TUNING, co_duration := word_of_int duration, co_priority := word_of_int priority,
      co_num := word_of_int num, co_resources := Some (show_resources rs)\<rparr>)"
  using assms stoi10_to_string unfolding int_range_def by (simp add: tune_options_def apply_option_def)

lemma sint_in_range: "int_range v \<Longrightarrow> sint (word_of_int v :: i32) = v" "int_range v \<Longrightarrow> sint (word_of_int v :: i64) = v"
  by (simp_all add: int_range_def signed_of_int signed_take_bit_int_eq_self)

text \<open>A valid tune command with a list of resources in the documented syntax.\<close>

lemma cli_tune_calls:
  assumes "cli_ok rs" "int_range duration" "int_range priority" "int_range num"
    and "duration = -1 \<or> 0 < duration" "priority \<noteq> -1" "int (length rs) \<le> num" "0 < num" "length (ce_iter ce rs) = length rs"
  shows "cli_main ce (tune_options duration priority num rs) =
    Value (Api (tuneResources (ce_net ce) (ce_batch ce) (ce_pid ce) (ce_tid ce) (word_of_int duration)
      (bound_priority (word_of_int priority)) (word_of_nat (length rs)) (Some (map sys_of (ce_iter ce rs)))))"
proof -
  have "(word_of_int priority :: i32) \<noteq> -1"
    using sint_in_range(1)[OF assms(3)] assms(6) by auto
  let ?o = "cli_defaults\<lparr>co_type := REQ_RESOURCE_TUNING, co_duration := word_of_int duration, co_priority := word_of_int priority,
      co_num := word_of_int num, co_resources := Some (show_resources rs)\<rparr>"
  have "cli_dispatch ce ?o = api_call (sendTuneRequest ce (word_of_int duration) (word_of_int priority) (word_of_int num) (show_resources rs))"
    using assms(5,8) \<open>word_of_int priority \<noteq> -1\<close> sint_in_range[OF assms(2)] sint_in_range(1)[OF assms(4)]
    by (simp add: cli_dispatch_def cli_defaults_def, linarith)
  then show ?thesis using assms(7,8,9) sint_in_range(1)[OF assms(4)] unfolding cli_main_def tune_options_apply[OF assms(2,3,4)]
    by (simp add: api_call_def sendTuneRequest_def parseResources_show[OF assms(1)])
qed

lemma cli_tune_decoded:
  assumes rs: "cli_ok rs" and r: "int_range duration" "int_range priority" "int_range num"
    and v: "duration = -1 \<or> 0 < duration" "priority \<noteq> -1" "int (length rs) \<le> num" "0 < num"
    and iter: "mset (ce_iter ce rs) = mset rs"
    and sent: "cli_main ce (tune_options duration priority num rs) = Value (Api (Some (ret, Some buf)))"
    and al: "alloc_ok al [0..<length rs] A h" and req: "mResourceList req = None"
  shows "\<exists>h' req'. Request_deserialize al buf h req = Some (RC_SUCCESS, h', req') \<and> mReqType req' = REQ_RESOURCE_TUNING \<and>
    mDuration req' = word_of_int duration \<and> mProperties req' = bound_priority (word_of_int priority) \<and>
    mClientPID req' = ce_pid ce \<and> mClientTID req' = ce_tid ce \<and>
    req_list h' req' (map A [0..<length rs]) \<and> list_all2 (stored h') (map A [0..<length rs]) (map cli_wire (ce_iter ce rs))"
proof -
  have len: "length (ce_iter ce rs) = length rs" and set: "set (ce_iter ce rs) = set rs"
    using mset_eq_length[OF iter] mset_eq_setD[OF iter] by simp_all
  have "int (length rs) < 2 ^ 31" using v(3) r(3) by (simp add: int_range_def)
  then have n: "nat (sint (word_of_nat (length rs) :: i32)) = length rs" by (simp add: sint_small_nat)
  have call: "tuneResources (ce_net ce) (ce_batch ce) (ce_pid ce) (ce_tid ce) (word_of_int duration)
      (bound_priority (word_of_int priority)) (word_of_nat (length rs)) (Some (map sys_of (ce_iter ce rs))) = Some (ret, Some buf)"
    using sent cli_tune_calls[where ce = ce, OF rs r v len] by simp
  have "map wire_of (map sys_of (ce_iter ce rs)) = map cli_wire (ce_iter ce rs)"
    using set by (intro map_wire_of_sys[OF rs]) simp
  then have w: "map wire_of (take (length rs) (map sys_of (ce_iter ce rs))) = map cli_wire (ce_iter ce rs)" using len by simp
  have "alloc_ok al [0..<nat (sint (word_of_nat (length rs) :: i32))] A h" using al n by simp
  from tune_roundtrip_lemma[OF call this req, unfolded n] w show ?thesis by auto
qed

text \<open>In the interactive mode a tune command is sent only if its duration contains a colon, so the documented example is refused.\<close>

lemma interactive_tune_needs_colon:
  "processCommands ce input = (Value r, b) \<Longrightarrow> tokens (CHR '' '') input ! 0 = ''tune'' \<Longrightarrow>
     CHR '':'' \<in> set (tokens (CHR '' '') input ! 1)"
  by (auto simp: processCommands_def Let_def split: if_splits option.splits)

lemma interactive_example_refused: "processCommands ce ''tune 4000 3 2 1:1,2:2'' = (Refused, True)"
proof -
  have "tokens (CHR '' '') ''tune 4000 3 2 1:1,2:2'' = [''tune'', ''4000'', ''3'', ''2'', ''1:1,2:2'']" by code_simp
  then show ?thesis by (simp add: processCommands_def)
qed

section \<open>A sample\<close>

definition sample_cli_env :: cli_env where
  "sample_cli_env = \<lparr>ce_net = sample_net, ce_batch = FlatBuffEncoder_init, ce_pid = 100, ce_tid = 101, ce_iter = (\<lambda>m. m),
     ce_stack = replicate 1024 0\<rparr>"

definition sample_cli_resources :: "cli_resource list" where
  "sample_cli_resources = [(sample_code, 0, [300]), (65538, 0, [1, 2, 3])]"

lemma sample_cli_ok: "cli_ok sample_cli_resources"
  by (simp add: cli_ok_def sample_cli_resources_def sample_code_def)

lemma sample_numbers:
  "to_string 5000 = ''5000''" "to_string 3 = ''3''" "to_string 2 = ''2''" "to_string 196608 = ''196608''"
  "to_string 300 = ''300''" "to_string 65538 = ''65538''" "to_string 1 = ''1''"
  by (simp_all add: to_string_def to_base.simps digit_char_def)

lemma sample_tune_options:
  "tune_options 5000 3 2 sample_cli_resources = [(CHR ''t'', []), (CHR ''d'', ''5000''), (CHR ''p'', ''3''), (CHR ''n'', ''2''),
     (CHR ''l'', ''196608:300;65538:1,2,3'')]"
  by (simp add: tune_options_def show_resources_def show_resource_def sample_cli_resources_def sample_code_def sample_numbers)

lemma sample_cli_sends:
  "\<exists>buf. cli_main sample_cli_env (tune_options 5000 3 2 sample_cli_resources) = Value (Api (Some (7, Some buf)))"
proof -
  have "map sys_of (ce_iter sample_cli_env sample_cli_resources) = sample_sys_resources"
    by (simp add: sample_cli_env_def sample_cli_resources_def sample_sys_resources_def sys_of_def)
  moreover have "bound_priority (word_of_int 3) = 1" by (simp add: bound_priority_def)
  moreover have "length sample_cli_resources = 2" by (simp add: sample_cli_resources_def)
  ultimately show ?thesis
    using cli_tune_calls[OF sample_cli_ok, of 5000 3 2 sample_cli_env] sample_tune_sends
    by (auto simp: int_range_def sample_cli_env_def)
qed

end
