(* ===== verification/Startup.thy ===== *)
theory Startup
  imports Complex_Main ConfigSamples
begin

text \<open>
  Start-up: \<^verbatim>\<open>extensions/Extensions.cpp\<close>, with what plugins register, and the part of
  \<^verbatim>\<open>resource-tuner/init/RestuneInit.cpp\<close> that reads the configuration: the common file of a kind, then those of the
  device, the target, the integrator and the plugins, and the settings of the daemon from the properties.
  What is proved: which of several files decides on a property, and the bounds of the settings.
\<close>

section \<open>Extensions\<close>

text \<open>The maps are association lists with distinct keys, in the order they are iterated.\<close>

record extensions =
  mModifiedConfigFiles :: "string list"
  mResourceApplierCallbacks :: "(u32 \<times> lifecycle_cb) list"
  mResourceTearCallbacks :: "(u32 \<times> lifecycle_cb) list"
  mPostProcessCallbacks :: "(string \<times> nat option) list"

definition Extensions_init :: extensions where
  "Extensions_init = \<lparr>mModifiedConfigFiles = replicate 7 '''', mResourceApplierCallbacks = [], mResourceTearCallbacks = [],
     mPostProcessCallbacks = []\<rparr>"

definition register_resource_callback :: "u32 \<Rightarrow> i8 \<Rightarrow> lifecycle_cb \<Rightarrow> extensions \<Rightarrow> extensions" where
  "register_resource_callback resCode callbackType callback e =
     (if callbackType = 0 then e\<lparr>mResourceApplierCallbacks := AList.update resCode callback (mResourceApplierCallbacks e)\<rparr>
      else if callbackType = 1 then e\<lparr>mResourceTearCallbacks := AList.update resCode callback (mResourceTearCallbacks e)\<rparr>
      else e)"

definition register_config_file :: "int \<Rightarrow> string \<Rightarrow> extensions \<Rightarrow> extensions" where
  "register_config_file configType yamlFile e =
     (if configType < 0 \<or> int (length (mModifiedConfigFiles e)) \<le> configType then e
      else e\<lparr>mModifiedConfigFiles := (mModifiedConfigFiles e)[nat configType := yamlFile]\<rparr>)"

definition register_post_process :: "string \<Rightarrow> nat option \<Rightarrow> extensions \<Rightarrow> extensions" where
  "register_post_process identifier callback e =
     e\<lparr>mPostProcessCallbacks := AList.update identifier callback (mPostProcessCallbacks e)\<rparr>"

text \<open>Looking up an unknown identifier inserts a null pointer.\<close>

definition getPostProcessingCallback :: "string \<Rightarrow> extensions \<Rightarrow> nat option \<times> extensions" where
  "getPostProcessingCallback identifier e =
     (case map_of (mPostProcessCallbacks e) identifier of
        Some cb \<Rightarrow> (cb, e) | None \<Rightarrow> (None, register_post_process identifier None e))"

fun config_index :: "ConfigType \<Rightarrow> nat" where
  "config_index RESOURCE_CONFIG = 0"
| "config_index PROPERTIES_CONFIG = 1"
| "config_index SIGNALS_CONFIG = 2"
| "config_index EXT_FEATURES_CONFIG = 3"
| "config_index TARGET_CONFIG = 4"
| "config_index INIT_CONFIG = 5"
| "config_index APP_CONFIG = 6"
| "config_index TOTAL_CONFIGS_COUNT = 7"

definition getConfigFilePath :: "ConfigType \<Rightarrow> extensions \<Rightarrow> string" where
  "getConfigFilePath configType e = mModifiedConfigFiles e ! config_index configType"

section \<open>The name of the machine\<close>

definition isalnum :: "char \<Rightarrow> bool" where
  "isalnum c \<longleftrightarrow> digit_value c < 99"

definition NUL :: char where "NUL = CHR 0x00"

text \<open>The strings of the device tree; one that is not terminated is read past its end.\<close>

function compatible_names :: "string \<Rightarrow> string list option" where
  "compatible_names s =
     (if s = [] then Some []
      else if NUL \<notin> set s then None
      else map_option (\<lambda>rest. takeWhile (\<lambda>c. c \<noteq> NUL) s # rest) (compatible_names (tl (dropWhile (\<lambda>c. c \<noteq> NUL) s))))"
  by pat_completeness auto

termination
proof (relation "measure length")
  fix s :: string
  assume "s \<noteq> []"
  moreover have "length (dropWhile (\<lambda>c. c \<noteq> NUL) s) \<le> length s" by (rule length_dropWhile_le)
  ultimately show "(tl (dropWhile (\<lambda>c. c \<noteq> NUL) s), s) \<in> measure length"
    by (cases s) (simp_all add: less_Suc_eq_le)
qed simp

declare compatible_names.simps [simp del]

definition mDeviceNamePath :: string where "mDeviceNamePath = ''/sys/devices/soc0/machine''"

text \<open>\<open>exists\<close>: whether a path of the configuration exists.\<close>

definition getMachineName :: "(string \<Rightarrow> bool) \<Rightarrow> string \<Rightarrow> world \<Rightarrow> string option" where
  "getMachineName exists target_dir w =
     (let name = readFromFile w mDeviceNamePath
      in if list_all isalnum name \<and> name \<noteq> [] then Some name
         else (case contents w ''/proc/device-tree/compatible'' of None \<Rightarrow> Some []
           | Some content \<Rightarrow>
               map_option (\<lambda>ts. case find (\<lambda>n. exists (target_dir @ n))
                     (map (\<lambda>t. tl (dropWhile (\<lambda>c. c \<noteq> CHR '','') t)) (filter (\<lambda>t. CHR '','' \<in> set t) ts)) of
                   None \<Rightarrow> [] | Some n \<Rightarrow> n) (compatible_names content)))"

section \<open>Reading the files of one kind\<close>

text \<open>The directories are fixed when the program is built. \<open>be_ext\<close> is what the plugins have registered.\<close>

record boot_env =
  be_parse :: parse_env
  be_exists :: "string \<Rightarrow> bool"
  be_common :: string
  be_target :: string
  be_custom :: string
  be_ext :: extensions

definition parseUtil :: "boot_env \<Rightarrow> string \<Rightarrow> ConfigType \<Rightarrow> config_state \<Rightarrow> (ErrCode \<times> config_state) outcome" where
  "parseUtil be filePath configType s =
     (if length filePath = 0 then Some (Inr (RC_FILE_NOT_FOUND, s)) else parse (be_parse be) configType filePath s)"

definition getFullTargetBasedConfPath :: "boot_env \<Rightarrow> string \<Rightarrow> string" where
  "getFullTargetBasedConfPath be configFileName =
     (if pe_targetName (be_parse be) = [] then [] else be_target be @ pe_targetName (be_parse be) @ ''/'' @ configFileName)"

definition customConfPaths :: "boot_env \<Rightarrow> string \<Rightarrow> ConfigType \<Rightarrow> string list" where
  "customConfPaths be name configType =
     [be_target be @ name, getFullTargetBasedConfPath be name, be_custom be @ name, getConfigFilePath configType (be_ext be)]"

fun fetch_custom :: "boot_env \<Rightarrow> ConfigType \<Rightarrow> string list \<Rightarrow> config_state \<Rightarrow> (ErrCode \<times> config_state) outcome" where
  "fetch_custom be configType [] s = Some (Inr (RC_SUCCESS, s))"
| "fetch_custom be configType (filePath # paths) s =
     (if 0 < length filePath \<and> be_exists be filePath then
        (case parseUtil be filePath configType s of
           Some (Inr (opStatus, s)) \<Rightarrow>
             if RC_IS_NOTOK opStatus then Some (Inr (opStatus, s)) else fetch_custom be configType paths s
         | r \<Rightarrow> r)
      else fetch_custom be configType paths s)"

text \<open>Go on after a step that returned without an error.\<close>

definition and_then ::
    "(ErrCode \<times> 's) outcome \<Rightarrow> ('s \<Rightarrow> (ErrCode \<times> 's) outcome) \<Rightarrow> (ErrCode \<times> 's) outcome" where
  "and_then r f = (case r of Some (Inr (rc, s)) \<Rightarrow> if RC_IS_NOTOK rc then r else f s | _ \<Rightarrow> r)"

definition fetch_both :: "boot_env \<Rightarrow> string \<Rightarrow> ConfigType \<Rightarrow> config_state \<Rightarrow> (ErrCode \<times> config_state) outcome" where
  "fetch_both be name configType s =
     and_then (parseUtil be (be_common be @ name) configType s) (fetch_custom be configType (customConfPaths be name configType))"

definition fetchCommonProperties :: "boot_env \<Rightarrow> config_state \<Rightarrow> (ErrCode \<times> config_state) outcome" where
  "fetchCommonProperties be s = parseUtil be (be_common be @ ''PropertiesConfig.yaml'') PROPERTIES_CONFIG s"

definition fetchCustomProperties :: "boot_env \<Rightarrow> config_state \<Rightarrow> (ErrCode \<times> config_state) outcome" where
  "fetchCustomProperties be = fetch_custom be PROPERTIES_CONFIG (customConfPaths be ''PropertiesConfig.yaml'' PROPERTIES_CONFIG)"

definition fetchResources :: "boot_env \<Rightarrow> config_state \<Rightarrow> (ErrCode \<times> config_state) outcome" where
  "fetchResources be = fetch_both be ''ResourcesConfig.yaml'' RESOURCE_CONFIG"

definition fetchInitInfo :: "boot_env \<Rightarrow> config_state \<Rightarrow> (ErrCode \<times> config_state) outcome" where
  "fetchInitInfo be = fetch_both be ''InitConfig.yaml'' INIT_CONFIG"

definition fetchSignals :: "boot_env \<Rightarrow> config_state \<Rightarrow> (ErrCode \<times> config_state) outcome" where
  "fetchSignals be = fetch_both be ''SignalsConfig.yaml'' SIGNALS_CONFIG"

definition fetchExtFeatureConfigs :: "boot_env \<Rightarrow> config_state \<Rightarrow> (ErrCode \<times> config_state) outcome" where
  "fetchExtFeatureConfigs be = fetch_custom be EXT_FEATURES_CONFIG (customConfPaths be ''ExtFeaturesConfig.yaml'' EXT_FEATURES_CONFIG)"

definition fetchPerAppConfigs :: "boot_env \<Rightarrow> config_state \<Rightarrow> (ErrCode \<times> config_state) outcome" where
  "fetchPerAppConfigs be = fetch_custom be APP_CONFIG (customConfPaths be ''PerApp.yaml'' APP_CONFIG)"

text \<open>\<open>indet\<close> and \<open>ptr\<close>: what reading the target takes from outside, see \<^const>\<open>readTargetInfo\<close>.\<close>

definition fetchTargetInfo :: "int \<Rightarrow> (int \<Rightarrow> nat) \<Rightarrow> boot_env \<Rightarrow> config_state \<Rightarrow> (ErrCode \<times> config_state) outcome" where
  "fetchTargetInfo indet ptr be s =
     (case readTargetInfo indet ptr (cs_world s) (cs_target s) of None \<Rightarrow> None
      | Some T \<Rightarrow> fetch_custom be TARGET_CONFIG (customConfPaths be ''TargetConfig.yaml'' TARGET_CONFIG) (s\<lparr>cs_target := T\<rparr>))"

section \<open>The settings of the daemon\<close>

record meta_configs =
  mMaxConcurrentRequests :: u32
  mMaxResourcesPerRequest :: u32
  mDesiredThreadCount :: u32
  mMaxScalingCapacity :: u32
  mListeningPort :: u32
  mPulseDuration :: u32
  mClientGarbageCollectorDuration :: u32
  mDelta :: u32
  mCleanupBatchSize :: u32
  mPenaltyFactor :: real
  mRewardFactor :: real
  mPluginCount :: u32
  mAcceptMode :: u32

definition prop_string :: "string \<Rightarrow> string \<Rightarrow> properties_registry \<Rightarrow> string" where
  "prop_string name defVal pr = map (\<lambda>b. char_of (unat b)) (snd (submitPropGetRequest_def_value (bytes_of name) (bytes_of defVal) pr))"

text \<open>One setting: its name, its default and how its text is stored; \<^const>\<open>None\<close> is an exception. \<open>stod\<close> is that of the library.\<close>

definition stol_to :: "(u32 \<Rightarrow> meta_configs \<Rightarrow> meta_configs) \<Rightarrow> string \<Rightarrow> meta_configs \<Rightarrow> meta_configs option" where
  "stol_to upd str m = map_option (\<lambda>v. upd (word_of_int v) m) (stol str)"

definition stod_to :: "(string \<Rightarrow> real option) \<Rightarrow> (real \<Rightarrow> meta_configs \<Rightarrow> meta_configs) \<Rightarrow> string \<Rightarrow> meta_configs \<Rightarrow> meta_configs option" where
  "stod_to stod upd str m = map_option (\<lambda>v. upd v m) (stod str)"

definition meta_entries ::
    "(string \<Rightarrow> real option) \<Rightarrow> (string \<times> string \<times> (string \<Rightarrow> meta_configs \<Rightarrow> meta_configs option)) list" where
  "meta_entries stod =
     [(''resource_tuner.maximum.concurrent.requests'', ''50'', stol_to (\<lambda>v. mMaxConcurrentRequests_update (\<lambda>_. v))),
      (''resource_tuner.maximum.resources.per.request'', ''5'', stol_to (\<lambda>v. mMaxResourcesPerRequest_update (\<lambda>_. v))),
      (''resource_tuner.thread_pool.desired_capacity'', ''5'', stol_to (\<lambda>v. mDesiredThreadCount_update (\<lambda>_. v))),
      (''resource_tuner.thread_pool.max_scaling_capacity'', ''10'', stol_to (\<lambda>v. mMaxScalingCapacity_update (\<lambda>_. v))),
      (''resource_tuner.pulse.duration'', ''60000'', stol_to (\<lambda>v. mPulseDuration_update (\<lambda>_. v))),
      (''resource_tuner.garbage_collection.duration'', ''83000'', stol_to (\<lambda>v. mClientGarbageCollectorDuration_update (\<lambda>_. v))),
      (''resource_tuner.garbage_collection.batch_size'', ''20'', stol_to (\<lambda>v. mCleanupBatchSize_update (\<lambda>_. v))),
      (''resource_tuner.rate_limiter.delta'', ''5'', stol_to (\<lambda>v. mDelta_update (\<lambda>_. v))),
      (''resource_tuner.penalty.factor'', ''2.0'', stod_to stod (\<lambda>v. mPenaltyFactor_update (\<lambda>_. v))),
      (''resource_tuner.reward.factor'', ''0.4'', stod_to stod (\<lambda>v. mRewardFactor_update (\<lambda>_. v))),
      (''urm.extensions_lib.count'', ''3'', stol_to (\<lambda>v. mPluginCount_update (\<lambda>_. v)))]"

fun read_meta ::
    "properties_registry \<Rightarrow> (string \<times> string \<times> (string \<Rightarrow> meta_configs \<Rightarrow> meta_configs option)) list \<Rightarrow> meta_configs \<Rightarrow>
       bool \<times> meta_configs" where
  "read_meta pr [] m = (True, m)"
| "read_meta pr ((name, defVal, store) # es) m =
     (case store (prop_string name defVal pr) m of None \<Rightarrow> (False, m) | Some m' \<Rightarrow> read_meta pr es m')"

definition fetchMetaConfigs :: "(string \<Rightarrow> real option) \<Rightarrow> properties_registry \<Rightarrow> meta_configs \<Rightarrow> ErrCode \<times> meta_configs" where
  "fetchMetaConfigs stod pr m =
     (case read_meta pr (meta_entries stod) m of
        (False, m) \<Rightarrow> (RC_PROP_PARSING_ERROR, m)
      | (True, m) \<Rightarrow>
          (let mode = prop_string ''urm.classifier.apply_mode'' ''ACCEPT_AND_PERSIST'' pr;
               m = m\<lparr>mAcceptMode := (if mode = ''ACCEPT_AND_REPLACE'' then 2 else 1)\<rparr>;
               m = (if mDesiredThreadCount m < 1 then m\<lparr>mDesiredThreadCount := 5\<rparr> else m);
               m = (if 100 < mMaxScalingCapacity m then m\<lparr>mMaxScalingCapacity := 100\<rparr> else m)
           in (RC_SUCCESS, m)))"

section \<open>The sequence of the start\<close>

text \<open>What is left in the files by a run that was killed is put back first.\<close>

definition restoreToSafeState :: "string \<Rightarrow> world \<Rightarrow> world" where
  "restoreToSafeState mPersistenceFile w =
     (if fileExists w mPersistenceFile then deleteFile mPersistenceFile (writeSysFsDefaults mPersistenceFile w) else w)"

definition mBaseCGroupPath :: string where "mBaseCGroupPath = ''/sys/fs/cgroup/''"
definition focusedCgroup :: string where "focusedCgroup = ''urm.slice/focused.apps''"

definition setCgroupParam :: "string \<Rightarrow> string \<times> string \<Rightarrow> world \<Rightarrow> ErrCode \<times> world" where
  "setCgroupParam slice_name = (\<lambda>(name, v) w.
     let cGroupPath = mBaseCGroupPath @ slice_name @ ''/'' @ name
     in if \<not> fileExists w cGroupPath then (RC_SOCKET_FD_READ_FAILURE, w) else (RC_SUCCESS, writeToFile cGroupPath v w))"

definition configureFocusedSlice :: "world \<Rightarrow> world" where
  "configureFocusedSlice w =
     fold (\<lambda>p w. snd (setCgroupParam focusedCgroup p w)) [(''cgroup.max.depth'', ''3''), (''cgroup.max.descendants'', ''10'')] w"

record boot_state =
  bs_conf :: config_state
  bs_meta :: meta_configs

definition on_conf ::
    "(config_state \<Rightarrow> (ErrCode \<times> config_state) outcome) \<Rightarrow> boot_state \<Rightarrow> (ErrCode \<times> boot_state) outcome" where
  "on_conf f b = map_option (map_sum id (\<lambda>(rc, s). (if RC_IS_NOTOK rc then RC_MODULE_INIT_FAILURE else rc, b\<lparr>bs_conf := s\<rparr>))) (f (bs_conf b))"

definition on_meta :: "(string \<Rightarrow> real option) \<Rightarrow> boot_state \<Rightarrow> (ErrCode \<times> boot_state) outcome" where
  "on_meta stod b =
     (case fetchMetaConfigs stod (cs_props (bs_conf b)) (bs_meta b) of
        (rc, m) \<Rightarrow> Some (Inr (if RC_IS_NOTOK rc then RC_MODULE_INIT_FAILURE else rc, b\<lparr>bs_meta := m\<rparr>)))"

text \<open>The first reading of the number of plugins is outside of the guarded part; \<open>calloc_ok\<close> answers the allocation.\<close>

definition plugin_count :: "bool \<Rightarrow> boot_state \<Rightarrow> (ErrCode \<times> boot_state) outcome" where
  "plugin_count calloc_ok b =
     (case stol (prop_string ''urm.extensions_lib.count'' ''6'' (cs_props (bs_conf b))) of
        None \<Rightarrow> Some (Inl StoiException)
      | Some v \<Rightarrow> Some (Inr (if calloc_ok then RC_SUCCESS else RC_MODULE_INIT_FAILURE,
            b\<lparr>bs_meta := (bs_meta b)\<lparr>mPluginCount := word_of_int v\<rparr>\<rparr>)))"

text \<open>
  \<open>pre\<close> is the surroundings before the plugins are loaded, \<open>be\<close> those after it. The steps between those
  modelled, which set up the logger, the pools, the workers and the libraries of external features, change none of this state.
\<close>

definition register_plugins :: "boot_env \<Rightarrow> config_state \<Rightarrow> (ErrCode \<times> config_state) outcome" where
  "register_plugins be s =
     (case pluginModifications (mResourceApplierCallbacks (be_ext be)) (mResourceTearCallbacks (be_ext be)) (cs_registry s) of
        None \<Rightarrow> None
      | Some rr \<Rightarrow> Some (Inr (RC_SUCCESS, s\<lparr>cs_registry := rr, cs_world := configureFocusedSlice (cs_world s)\<rparr>)))"

text \<open>The first thing that is fetched with the settings: the name of the machine, in small letters, names the target.\<close>

definition with_target :: "boot_env \<Rightarrow> world \<Rightarrow> boot_env option" where
  "with_target be w =
     map_option (\<lambda>name. be\<lparr>be_parse := (be_parse be)\<lparr>pe_targetName := toLowerCase name\<rparr>\<rparr>) (getMachineName (be_exists be) (be_target be) w)"

definition init_configs ::
    "(string \<Rightarrow> real option) \<Rightarrow> bool \<Rightarrow> int \<Rightarrow> (int \<Rightarrow> nat) \<Rightarrow> string \<Rightarrow> boot_env \<Rightarrow> boot_env \<Rightarrow> boot_state \<Rightarrow> (ErrCode \<times> boot_state) outcome" where
  "init_configs stod calloc_ok indet ptr mPersistenceFile pre be b =
     (let s = bs_conf b; b = b\<lparr>bs_conf := s\<lparr>cs_world := restoreToSafeState mPersistenceFile (cs_world s)\<rparr>\<rparr>
      in and_then (on_conf (fetchCommonProperties pre) b) (\<lambda>b.
         and_then (plugin_count calloc_ok b) (\<lambda>b. case with_target be (cs_world (bs_conf b)) of None \<Rightarrow> None | Some be \<Rightarrow>
         and_then (on_meta stod b) (\<lambda>b.
         and_then (on_conf (fetchCustomProperties be) b) (\<lambda>b.
         and_then (on_meta stod b) (\<lambda>b.
         and_then (on_conf (fetchTargetInfo indet ptr be) b) (\<lambda>b.
         and_then (on_conf (fetchInitInfo be) b) (\<lambda>b.
         and_then (on_conf (fetchResources be) b) (\<lambda>b.
         and_then (on_conf (fetchSignals be) b) (\<lambda>b.
         and_then (on_conf (fetchPerAppConfigs be) b) (\<lambda>b.
         and_then (on_conf (fetchExtFeatureConfigs be) b) (on_conf (register_plugins be)))))))))))))"

text \<open>What the end of the daemon does to the files; \<open>order\<close> enumerates the stored defaults.\<close>

definition tear_files :: "string \<Rightarrow> (string \<times> string) list \<Rightarrow> world \<Rightarrow> world" where
  "tear_files mPersistenceFile order w = deleteFile mPersistenceFile (restoreResourcesToDefaultValues order w)"

section \<open>The bounds of the settings\<close>

lemma one_le_word: "(x :: u32) \<noteq> 0 \<Longrightarrow> 1 \<le> x"
  by (simp add: word_le_nat_alt Suc_leI unat_gt_0)

lemma fetchMetaConfigs_bounds:
  "fetchMetaConfigs stod pr m = (RC_SUCCESS, m') \<Longrightarrow>
     1 \<le> mDesiredThreadCount m' \<and> mMaxScalingCapacity m' \<le> 100 \<and> mAcceptMode m' \<in> {1, 2}"
  by (auto simp: fetchMetaConfigs_def Let_def not_less not_le split: prod.splits bool.splits if_splits intro: one_le_word)

section \<open>Which file decides\<close>

definition reads_properties :: "parse_env \<Rightarrow> string \<Rightarrow> (string \<times> string) list \<Rightarrow> bool" where
  "reads_properties pe file es \<longleftrightarrow> reads_file pe file (file_events ''PropertyConfigs'' (map property_fields es)) \<and>
     list_all (\<lambda>e. \<not> property_word (fst e) \<and> \<not> property_word (snd e)) es"

text \<open>What the files of a list that exist say, in order, and the entries that are taken over.\<close>

definition file_entries :: "boot_env \<Rightarrow> (string \<Rightarrow> (string \<times> string) list) \<Rightarrow> string list \<Rightarrow> (string \<times> string) list" where
  "file_entries be doc paths = concat (map doc (filter (\<lambda>p. p \<noteq> [] \<and> be_exists be p) paths))"

definition admissible_entries :: "(string \<times> string) list \<Rightarrow> (bytes \<times> bytes) list" where
  "admissible_entries es = filter (\<lambda>(k, v). k \<noteq> [] \<and> v \<noteq> []) (map (\<lambda>e. (bytes_of (fst e), bytes_of (snd e))) es)"

lemma fetch_custom_properties:
  assumes "\<And>p. p \<in> set paths \<Longrightarrow> p \<noteq> [] \<Longrightarrow> be_exists be p \<Longrightarrow> reads_properties (be_parse be) p (doc p)"
  shows "fetch_custom be PROPERTIES_CONFIG paths s =
    Some (Inr (RC_SUCCESS, s\<lparr>cs_props := fold put_property (file_entries be doc paths) (cs_props s)\<rparr>))"
  using assms
proof (induction paths arbitrary: s)
  case (Cons p paths)
  note IH = Cons.IH[OF Cons.prems]
  show ?case
  proof (cases "p \<noteq> [] \<and> be_exists be p")
    case True
    then have "parse (be_parse be) PROPERTIES_CONFIG p s = Some (Inr (RC_SUCCESS, s\<lparr>cs_props := fold put_property (doc p) (cs_props s)\<rparr>))"
      using Cons.prems[of p] by (intro parse_properties) (auto simp: reads_properties_def)
    with True show ?thesis using IH by (simp add: parseUtil_def RC_IS_NOTOK_def file_entries_def)
  qed (use IH in \<open>auto simp: file_entries_def\<close>)
qed (simp add: file_entries_def)

lemma fetch_common_properties:
  assumes "reads_properties (be_parse be) (be_common be @ ''PropertiesConfig.yaml'') es"
  shows "fetchCommonProperties be s = Some (Inr (RC_SUCCESS, s\<lparr>cs_props := fold put_property es (cs_props s)\<rparr>))"
  using assms by (simp add: fetchCommonProperties_def parseUtil_def reads_properties_def parse_properties)

lemma find_after_entries:
  assumes "props_inv pr"
  shows "find_property name (fold put_property es pr) =
    (case map_of (rev (admissible_entries es)) name of Some v \<Rightarrow> Some v | None \<Rightarrow> find_property name pr)"
  unfolding put_properties
  by (subst props.find_put_all[OF assms]) (simp add: props.last_entry_def admissible_entries_def split: option.split)

lemma fetch_properties:
  assumes "reads_properties (be_parse pre) (be_common pre @ ''PropertiesConfig.yaml'') common"
    and "paths = customConfPaths be ''PropertiesConfig.yaml'' PROPERTIES_CONFIG"
    and "\<And>p. p \<in> set paths \<Longrightarrow> p \<noteq> [] \<Longrightarrow> be_exists be p \<Longrightarrow> reads_properties (be_parse be) p (doc p)"
  shows "and_then (fetchCommonProperties pre s) (fetchCustomProperties be) =
    Some (Inr (RC_SUCCESS, s\<lparr>cs_props := fold put_property (common @ file_entries be doc paths) (cs_props s)\<rparr>))"
  using fetch_common_properties[OF assms(1)] fetch_custom_properties[OF assms(3)] assms(2)
  by (simp add: and_then_def RC_IS_NOTOK_def fetchCustomProperties_def)

section \<open>A sample\<close>

definition sample_doc :: "string \<Rightarrow> (string \<times> string) list" where
  "sample_doc file =
     (if file = ''/c/PropertiesConfig.yaml'' then [(''urm.delta'', ''5''), (''urm.pulse'', ''60'')]
      else if file = ''/t/board/PropertiesConfig.yaml'' then [(''urm.delta'', ''6'')]
      else if file = ''/u/PropertiesConfig.yaml'' then [(''urm.delta'', ''7''), (''urm.delta'', '''')]
      else [(''urm.delta'', ''9'')])"

definition sample_boot_env :: boot_env where
  "sample_boot_env = \<lparr>be_parse = sample_parse_env\<lparr>pe_events := \<lambda>file. file_events ''PropertyConfigs'' (map property_fields (sample_doc file))\<rparr>,
     be_exists = (\<lambda>file. file \<in> {''/t/board/PropertiesConfig.yaml'', ''/u/PropertiesConfig.yaml''}),
     be_common = ''/c/'', be_target = ''/t/'', be_custom = ''/u/'', be_ext = register_config_file 1 ''/x.yaml'' Extensions_init\<rparr>"

lemma sample_reads_properties: "reads_properties (be_parse sample_boot_env) file (sample_doc file)"
  by (simp add: reads_properties_def reads_file_def sample_boot_env_def sample_parse_env_def sample_doc_def property_word_def)

lemma sample_entries:
  "map_of (rev (admissible_entries (sample_doc (be_common sample_boot_env @ ''PropertiesConfig.yaml'') @
     file_entries sample_boot_env sample_doc (customConfPaths sample_boot_env ''PropertiesConfig.yaml'' PROPERTIES_CONFIG))))
     (bytes_of ''urm.delta'') = Some (bytes_of ''7'')"
  by code_simp

end
