(* ===== verification/Classifier.thy ===== *)
theory Classifier
  imports Liveness "HOL-Library.Sublist"
begin

text \<open>
  \<^verbatim>\<open>ContextualClassifier.cpp\<close> of \<^verbatim>\<open>contextual-classifier\<close>: process events
  are filtered and queued, and a worker answers each start of an application with tune requests and
  signals, after untuning what an older application holds. The handling of one event is a program whose
  nodes are the calls into the daemon, so that the steps of the other threads can come in between. What
  is proved: how many applications are tracked, what is untuned and in which order, and that the queue of
  events is bounded.
\<close>

section \<open>Events and state\<close>

record ProcEvent =
  ev_pid :: i32
  ev_tgid :: i32
  ev_type :: i32

definition CC_IGNORE :: i32 where "CC_IGNORE = 0"
definition CC_APP_OPEN :: i32 where "CC_APP_OPEN = 1"
definition CC_APP_CLOSE :: i32 where "CC_APP_CLOSE = 2"
definition CC_APP :: i32 where "CC_APP = 1"
definition CC_BROWSER :: i32 where "CC_BROWSER = 2"
definition CC_GAME :: i32 where "CC_GAME = 3"
definition CC_MULTIMEDIA :: i32 where "CC_MULTIMEDIA = 4"

lemmas cc_defs = CC_IGNORE_def CC_APP_OPEN_def CC_APP_CLOSE_def

definition ACCEPT_AND_PERSIST :: i32 where "ACCEPT_AND_PERSIST = 1"
definition pendingQueueControlSize :: nat where "pendingQueueControlSize = 30"
definition FOCUSED_CGROUP_IDENTIFIER :: i32 where "FOCUSED_CGROUP_IDENTIFIER = 4"
definition RES_CGRP_MOVE_PID :: u32 where "RES_CGRP_MOVE_PID = 0x00090000"
definition URM_SIG_APP_OPEN :: u32 where "URM_SIG_APP_OPEN = 0x00020001"
definition URM_SIG_BROWSER_APP_OPEN :: u32 where "URM_SIG_BROWSER_APP_OPEN = 0x00020002"
definition URM_SIG_GAME_APP_OPEN :: u32 where "URM_SIG_GAME_APP_OPEN = 0x00020003"
definition URM_SIG_MULTIMEDIA_APP_OPEN :: u32 where "URM_SIG_MULTIMEDIA_APP_OPEN = 0x00020004"
definition DEFAULT_SIGNAL_TYPE :: u32 where "DEFAULT_SIGNAL_TYPE = 0"

record classifier =
  mNeedExit :: bool
  mIsPriorityClient :: bool
  mClientTracker :: u64
  mActiveClientCount :: u64
  mActiveAppThreshold :: u64
  mCurrRestuneHandles :: "(u64 \<times> i64) list"
  mClassifierPidCache :: min_lru_cache
  mPendingEv :: "ProcEvent list"
  mIgnoredProcesses :: "string set"
  mAllowedProcesses :: "string set"
  mPriorityClients :: "string set"

definition ContextualClassifier_init :: "i32 \<Rightarrow> classifier" where
  "ContextualClassifier_init mAcceptMode =
     \<lparr>mNeedExit = False, mIsPriorityClient = False, mClientTracker = 0, mActiveClientCount = 0,
      mActiveAppThreshold = (if mAcceptMode AND ACCEPT_AND_PERSIST \<noteq> 0 then 3 else 1),
      mCurrRestuneHandles = [], mClassifierPidCache = MinLRUCache_init 30, mPendingEv = [],
      mIgnoredProcesses = {}, mAllowedProcesses = {}, mPriorityClients = {}\<rparr>"

section \<open>Names of processes\<close>

definition ws :: "char \<Rightarrow> bool" where
  "ws c \<longleftrightarrow> c \<in> {CHR '' '', CHR 0x09, CHR 0x0A, CHR 0x0D}"

definition strip :: "string \<Rightarrow> string" where
  "strip s = rev (dropWhile ws (rev (dropWhile ws s)))"

definition process_names :: "string \<Rightarrow> string list" where
  "process_names content =
     filter (\<lambda>s. s \<noteq> []) (map strip (concat (map (tokens (CHR '','')) (tokens newline content))))"

text \<open>\<open>file\<close>: the content, if the file can be opened.\<close>

definition loadProcessNames :: "string option \<Rightarrow> string set \<Rightarrow> string set" where
  "loadProcessNames file names = (case file of None \<Rightarrow> names | Some content \<Rightarrow> names \<union> set (process_names content))"

definition loadStaticProcData :: "string option \<Rightarrow> string option \<Rightarrow> string option \<Rightarrow> classifier \<Rightarrow> classifier" where
  "loadStaticProcData allow_list blocklist priority_clients c =
     (let c = (if allow_list \<noteq> None
               then c\<lparr>mAllowedProcesses := loadProcessNames allow_list (mAllowedProcesses c)\<rparr>
               else c\<lparr>mIgnoredProcesses := loadProcessNames blocklist (mIgnoredProcesses c)\<rparr>)
      in c\<lparr>mPriorityClients := loadProcessNames priority_clients (mPriorityClients c)\<rparr>)"

text \<open>
  The argument of \<^verbatim>\<open>fetchComm\<close> is \<^verbatim>\<open>/proc/<pid>\<close>: absent, or with the first line of
  its \<^verbatim>\<open>comm\<close> if that can be opened. A blank name is not trimmed.
\<close>

definition fetchComm :: "string option option \<Rightarrow> string option" where
  "fetchComm proc =
     map_option (\<lambda>comm. case comm of None \<Rightarrow> '''' | Some s \<Rightarrow> if list_all ws s then s else strip s) proc"

definition isContainerProcess :: "string option \<Rightarrow> bool" where
  "isContainerProcess cgroup =
     (case cgroup of None \<Rightarrow> False
      | Some content \<Rightarrow> list_ex (\<lambda>line. sublist ''docker-'' line \<and> sublist ''.scope'' line) (tokens newline content))"

definition shouldProcBeIgnored :: "i32 \<Rightarrow> string option \<Rightarrow> string option option \<Rightarrow> classifier \<Rightarrow> bool" where
  "shouldProcBeIgnored evType cgroup proc c =
     (if evType = CC_APP_CLOSE then False
      else if isContainerProcess cgroup then True
      else (case fetchComm proc of None \<Rightarrow> True
        | Some procName \<Rightarrow>
            if mAllowedProcesses c \<noteq> {} then procName \<notin> mAllowedProcesses c
            else procName \<in> mIgnoredProcesses c))"

definition checkClientPriority :: "string \<Rightarrow> classifier \<Rightarrow> bool" where
  "checkClientPriority procName c \<longleftrightarrow> procName \<in> mPriorityClients c"

text \<open>
  The directories of \<^verbatim>\<open>/proc\<close> with a numeric name, in the order they are read, each with the
  first line of its \<^verbatim>\<open>comm\<close> if that can be opened.
\<close>

type_synonym proc_table = "(i32 \<times> string option) list"

definition fetchPid :: "proc_table option \<Rightarrow> string \<Rightarrow> i32" where
  "fetchPid procs process_name =
     (case procs of None \<Rightarrow> -1
      | Some es \<Rightarrow>
          (case List.find (\<lambda>(_, comm). case comm of None \<Rightarrow> False | Some s \<Rightarrow> sublist process_name s) es of
             None \<Rightarrow> -1 | Some (pid, _) \<Rightarrow> pid))"

definition fetchPidsForCommPrefix :: "proc_table option \<Rightarrow> string \<Rightarrow> i32 list" where
  "fetchPidsForCommPrefix procs pat =
     (if pat = '''' \<or> last pat \<noteq> CHR ''*'' then (let pid = fetchPid procs pat in if pid \<noteq> -1 then [pid] else [])
      else (case procs of None \<Rightarrow> []
        | Some es \<Rightarrow> map fst (filter (\<lambda>(_, comm). case comm of None \<Rightarrow> False | Some s \<Rightarrow> starts_with (butlast pat) s) es)))"

section \<open>Tracking\<close>

definition trackClient :: "i64 \<Rightarrow> classifier \<Rightarrow> classifier" where
  "trackClient handle c =
     (if mIsPriorityClient c then c
      else if handle \<noteq> -1 then c\<lparr>mCurrRestuneHandles := mCurrRestuneHandles c @ [(mClientTracker c, handle)]\<rparr>
      else c)"

text \<open>The loop of \<^verbatim>\<open>reShuffle\<close>: the handles to untune, the rest of the queue, and whether a client was evicted.\<close>

fun evict :: "u64 \<Rightarrow> (u64 \<times> i64) list \<Rightarrow> i64 list \<times> (u64 \<times> i64) list \<times> bool" where
  "evict minClientId [] = ([], [], False)"
| "evict minClientId ((i, handle) # q) =
     (if minClientId = i
      then (case evict minClientId q of (hs, rest, _) \<Rightarrow> ((if 0 < sint handle then handle # hs else hs), rest, True))
      else ([], (i, handle) # q, False))"

definition reShuffle :: "classifier \<Rightarrow> i64 list \<times> classifier" where
  "reShuffle c =
     (case mCurrRestuneHandles c of
        [] \<Rightarrow> ([], c\<lparr>mActiveClientCount := 0\<rparr>)
      | (minClientId, h) # q \<Rightarrow>
          if mActiveAppThreshold c \<le> mActiveClientCount c then
            (case evict minClientId ((minClientId, h) # q) of (hs, rest, evictedClient) \<Rightarrow>
               (hs, c\<lparr>mCurrRestuneHandles := rest,
                      mActiveClientCount := (if evictedClient \<and> 0 < mActiveClientCount c
                        then mActiveClientCount c - 1 else mActiveClientCount c)\<rparr>))
          else ([], c))"

definition GetSignalIDForWorkload :: "i32 \<Rightarrow> u32" where
  "GetSignalIDForWorkload contextType =
     (if contextType = CC_MULTIMEDIA then URM_SIG_MULTIMEDIA_APP_OPEN
      else if contextType = CC_GAME then URM_SIG_GAME_APP_OPEN
      else if contextType = CC_BROWSER then URM_SIG_BROWSER_APP_OPEN
      else URM_SIG_APP_OPEN)"

section \<open>The listener\<close>

text \<open>
  One round of \<^verbatim>\<open>HandleProcEv\<close>: \<open>rc\<close> is what receiving gave, \<open>alive\<close> whether
  \<^verbatim>\<open>/proc/<pid>/comm\<close> exists. First what is decided without the lock, then what is done under it.
\<close>

datatype listen = Ignored | Failed | Accepted

definition listen_event ::
    "i32 \<Rightarrow> bool \<Rightarrow> ProcEvent \<Rightarrow> bool \<Rightarrow> string option \<Rightarrow> string option option \<Rightarrow> classifier \<Rightarrow> listen" where
  "listen_event rc interrupted ev alive cgroup proc c =
     (if rc = CC_IGNORE then Ignored
      else if rc = -1 then (if interrupted then Ignored else Failed)
      else if \<not> alive then Ignored
      else if (rc = CC_APP_OPEN \<or> rc = CC_APP_CLOSE) \<and> \<not> shouldProcBeIgnored (ev_type ev) cgroup proc c then Accepted
      else Ignored)"

definition push_event :: "ProcEvent \<Rightarrow> classifier \<Rightarrow> classifier" where
  "push_event ev c =
     (let q = mPendingEv c @ [ev]
      in c\<lparr>mPendingEv := (if pendingQueueControlSize < length q then tl q else q)\<rparr>)"

definition accept_event :: "i32 \<Rightarrow> ProcEvent \<Rightarrow> classifier \<Rightarrow> classifier option" where
  "accept_event rc ev c =
     (if rc = CC_APP_OPEN then
        (if isPresent (scast (ev_pid ev)) (mClassifierPidCache c) then Some c
         else map_option (\<lambda>cache. (push_event ev c)\<lparr>mClassifierPidCache := cache\<rparr>)
                (lru_insert (scast (ev_pid ev)) (mClassifierPidCache c)))
      else Some (push_event ev c))"

section \<open>The program of one event\<close>

text \<open>
  The calls of the worker, with what comes after them for every answer: an untune request, a tune request
  that moves processes to cgroups (answered by its handle, if it could be built), a signal to acquire
  (answered by its handle or -1), a post-processing callback (answered by the handle it stored), and the
  two calls on the end of a process. \<open>Fault\<close> is an undefined access.
\<close>

datatype prog =
    Fault
  | Finish classifier
  | UntuneReq i64 prog
  | MoveReq "(i32 \<times> i32) list" i32 i32 "i64 option \<Rightarrow> prog"
  | AcquireSig u32 u32 i32 i32 "i64 \<Rightarrow> prog"
  | PostProcess string i32 "i64 \<Rightarrow> prog"
  | SubmitCleanup i32 prog
  | DeletePID i32 prog

record surroundings =
  w_proc :: "i32 \<Rightarrow> string option option"
  w_procs :: "proc_table option"
  w_alive :: "i32 \<Rightarrow> bool"
  w_classify :: "i32 \<Rightarrow> i32"
  w_post :: "string \<Rightarrow> bool"
  w_apps :: app_configs

definition ClassifyProcess :: "surroundings \<Rightarrow> i32 \<Rightarrow> i32" where
  "ClassifyProcess w processPid = (if \<not> w_alive w processPid then CC_IGNORE else w_classify w processPid)"

fun thread_moves ::
    "proc_table option \<Rightarrow> i32 \<Rightarrow> string list \<Rightarrow> i32 option list \<Rightarrow> nat list \<Rightarrow> (i32 \<times> i32) list option" where
  "thread_moves procs incomingPID names ids [] = Some []"
| "thread_moves procs incomingPID names ids (i # is) =
     (if length names \<le> i \<or> length ids \<le> i then None
      else do {
        currCGroupID \<leftarrow> ids ! i;
        rest \<leftarrow> thread_moves procs incomingPID names ids is;
        Some (map (\<lambda>pid. (currCGroupID, pid))
           (filter (\<lambda>pid. pid \<noteq> -1 \<and> pid \<noteq> incomingPID) (fetchPidsForCommPrefix procs (names ! i))) @ rest) })"

definition app_moves :: "surroundings \<Rightarrow> i32 \<Rightarrow> string \<Rightarrow> (i32 \<times> i32) list option" where
  "app_moves w incomingPID comm =
     (case fst (getAppConfig comm (w_apps w)) of None \<Rightarrow> Some []
      | Some app \<Rightarrow>
         (case mThreadNameList app of None \<Rightarrow> Some []
          | Some names \<Rightarrow> thread_moves (w_procs w) incomingPID names
              (case mCGroupIds app of None \<Rightarrow> [] | Some ids \<Rightarrow> ids) [0 ..< nat (sint (mNumThreads app))]))"

definition MoveAppThreadsToCGroup ::
    "surroundings \<Rightarrow> i32 \<Rightarrow> i32 \<Rightarrow> string \<Rightarrow> i32 \<Rightarrow> classifier \<Rightarrow> (classifier \<Rightarrow> prog) \<Rightarrow> prog" where
  "MoveAppThreadsToCGroup w incomingPID incomingTID comm cgroupIdentifier c k =
     (case app_moves w incomingPID comm of None \<Rightarrow> Fault
      | Some moves \<Rightarrow> MoveReq ((cgroupIdentifier, incomingPID) # moves) incomingPID incomingTID
          (\<lambda>answer. k (case answer of None \<Rightarrow> c | Some handle \<Rightarrow> trackClient handle c)))"

fun acquire_codes :: "u32 option list \<Rightarrow> i32 \<Rightarrow> i32 \<Rightarrow> classifier \<Rightarrow> (classifier \<Rightarrow> prog) \<Rightarrow> prog" where
  "acquire_codes [] incomingPID incomingTID c k = k c"
| "acquire_codes (None # codes) incomingPID incomingTID c k = Fault"
| "acquire_codes (Some sig_code # codes) incomingPID incomingTID c k =
     AcquireSig sig_code 0 incomingPID incomingTID
       (\<lambda>handle. acquire_codes codes incomingPID incomingTID (if handle \<noteq> -1 then trackClient handle c else c) k)"

definition app_codes :: "surroundings \<Rightarrow> string \<Rightarrow> u32 option list" where
  "app_codes w comm =
     (case fst (getAppConfig comm (w_apps w)) of None \<Rightarrow> []
      | Some app \<Rightarrow>
         (case mSignalCodes app of None \<Rightarrow> []
          | Some codes \<Rightarrow> map (\<lambda>i. if i < length codes then codes ! i else None) [0 ..< nat (sint (mNumSignals app))]))"

definition configureAppSignals ::
    "surroundings \<Rightarrow> i32 \<Rightarrow> i32 \<Rightarrow> string \<Rightarrow> classifier \<Rightarrow> (classifier \<Rightarrow> prog) \<Rightarrow> prog" where
  "configureAppSignals w incomingPID incomingTID comm c k = acquire_codes (app_codes w comm) incomingPID incomingTID c k"

text \<open>Step 4 of the source: the callback of the application, or the signal of its kind.\<close>

definition apply_workload :: "surroundings \<Rightarrow> ProcEvent \<Rightarrow> string \<Rightarrow> classifier \<Rightarrow> (classifier \<Rightarrow> prog) \<Rightarrow> prog" where
  "apply_workload w ev comm c k =
     (if w_post w comm then PostProcess comm (ev_pid ev) (\<lambda>mHandleAcq. k (trackClient mHandleAcq c))
      else (let contextType = ClassifyProcess w (ev_pid ev)
            in if contextType \<noteq> CC_IGNORE
               then AcquireSig (GetSignalIDForWorkload contextType) DEFAULT_SIGNAL_TYPE (ev_pid ev) (ev_tgid ev)
                      (\<lambda>handle. k (trackClient handle c))
               else k c))"

definition next_client :: "classifier \<Rightarrow> classifier" where
  "next_client c = c\<lparr>mClientTracker := mClientTracker c + 1\<rparr>"

definition count_client :: "nat \<Rightarrow> classifier \<Rightarrow> classifier" where
  "count_client handlesBeforeClient c =
     (if handlesBeforeClient < length (mCurrRestuneHandles c)
      then c\<lparr>mActiveClientCount := mActiveClientCount c + 1\<rparr> else c)"

definition open_app :: "surroundings \<Rightarrow> ProcEvent \<Rightarrow> string \<Rightarrow> classifier \<Rightarrow> prog" where
  "open_app w ev comm c =
     (let c = c\<lparr>mIsPriorityClient := checkClientPriority comm c\<rparr>;
          (untuned, c) = (if \<not> mIsPriorityClient c then reShuffle c else ([], c));
          handlesBeforeClient = length (mCurrRestuneHandles c)
      in foldr UntuneReq untuned
          (MoveAppThreadsToCGroup w (ev_pid ev) (ev_tgid ev) comm FOCUSED_CGROUP_IDENTIFIER c (\<lambda>c.
           configureAppSignals w (ev_pid ev) (ev_tgid ev) comm c (\<lambda>c.
           apply_workload w ev comm c (\<lambda>c. Finish (next_client (count_client handlesBeforeClient c)))))))"

text \<open>The body of the loop of \<^verbatim>\<open>ClassifierMain\<close>, for an event taken from the queue.\<close>

definition ClassifierMain_event :: "surroundings \<Rightarrow> ProcEvent \<Rightarrow> classifier \<Rightarrow> prog" where
  "ClassifierMain_event w ev c =
     (let c = c\<lparr>mIsPriorityClient := False\<rparr>
      in if ev_type ev = CC_APP_OPEN then
           (if ev_pid ev \<noteq> -1 then
              (case fetchComm (w_proc w (ev_pid ev)) of None \<Rightarrow> Finish c | Some comm \<Rightarrow> open_app w ev comm c)
            else Finish (next_client c))
         else if ev_type ev = CC_APP_CLOSE then SubmitCleanup (ev_pid ev) (DeletePID (ev_pid ev) (Finish c))
         else Finish c)"

section \<open>Runs of a program\<close>

datatype call =
    Untuned i64
  | Moved "(i32 \<times> i32) list" i32 i32 "i64 option"
  | Acquired u32 u32 i32 i32 i64
  | PostProcessed string i32 i64
  | CleanedUp i32
  | DeletedPID i32

inductive runs :: "prog \<Rightarrow> call list \<Rightarrow> classifier \<Rightarrow> bool" where
  runs_finish: "runs (Finish c) [] c"
| runs_untune: "runs p cs c \<Longrightarrow> runs (UntuneReq h p) (Untuned h # cs) c"
| runs_move: "runs (f a) cs c \<Longrightarrow> runs (MoveReq ms pid tid f) (Moved ms pid tid a # cs) c"
| runs_acquire: "runs (g h) cs c \<Longrightarrow> runs (AcquireSig i t pid tid g) (Acquired i t pid tid h # cs) c"
| runs_post: "runs (g h) cs c \<Longrightarrow> runs (PostProcess comm pid g) (PostProcessed comm pid h # cs) c"
| runs_cleanup: "runs p cs c \<Longrightarrow> runs (SubmitCleanup pid p) (CleanedUp pid # cs) c"
| runs_delete: "runs p cs c \<Longrightarrow> runs (DeletePID pid p) (DeletedPID pid # cs) c"

inductive_simps runs_simps [simp]:
  "runs Fault cs c" "runs (Finish c0) cs c" "runs (UntuneReq h p) cs c" "runs (MoveReq ms pid tid f) cs c"
  "runs (AcquireSig i t pid tid g) cs c" "runs (PostProcess comm pid g) cs c" "runs (SubmitCleanup pid p) cs c"
  "runs (DeletePID pid p) cs c"

fun answer_of :: "call \<Rightarrow> i64 list" where
  "answer_of (Moved ms pid tid (Some h)) = [h]"
| "answer_of (Acquired i t pid tid h) = [h]"
| "answer_of (PostProcessed comm pid h) = [h]"
| "answer_of _ = []"

definition answers :: "call list \<Rightarrow> i64 list" where
  "answers cs = concat (map answer_of cs)"

definition untuned :: "call list \<Rightarrow> i64 list" where
  "untuned cs = concat (map (\<lambda>x. case x of Untuned h \<Rightarrow> [h] | _ \<Rightarrow> []) cs)"

lemma trace_simps [simp]:
  "answers [] = []" "answers (x # cs) = answer_of x @ answers cs" "answers (cs @ cs') = answers cs @ answers cs'"
  "untuned [] = []" "untuned (x # cs) = (case x of Untuned h \<Rightarrow> [h] | _ \<Rightarrow> []) @ untuned cs"
  "untuned (cs @ cs') = untuned cs @ untuned cs'"
  "answers (map Untuned hs) = []" "untuned (map Untuned hs) = hs"
  by (simp_all add: answers_def untuned_def) (induction hs; simp)+

text \<open>What holds of the classifier at the end of every run, and that no run meets a fault.\<close>

primrec prog_all :: "(classifier \<Rightarrow> bool) \<Rightarrow> prog \<Rightarrow> bool" where
  "prog_all P Fault = False"
| "prog_all P (Finish c) = P c"
| "prog_all P (UntuneReq h p) = prog_all P p"
| "prog_all P (MoveReq ms pid tid f) = (\<forall>a. prog_all P (f a))"
| "prog_all P (AcquireSig i t pid tid g) = (\<forall>h. prog_all P (g h))"
| "prog_all P (PostProcess comm pid g) = (\<forall>h. prog_all P (g h))"
| "prog_all P (SubmitCleanup pid p) = prog_all P p"
| "prog_all P (DeletePID pid p) = prog_all P p"

lemma prog_all_runs: "prog_all (\<lambda>_. True) p \<Longrightarrow> (\<And>cs c. runs p cs c \<Longrightarrow> P c) \<Longrightarrow> prog_all P p"
  by (induction p) (simp_all, blast+)

lemma prog_all_mono: "prog_all P p \<Longrightarrow> (\<And>c. P c \<Longrightarrow> Q c) \<Longrightarrow> prog_all Q p"
  by (induction p) auto

lemma runs_untunes: "runs (foldr UntuneReq hs p) cs c \<longleftrightarrow> (\<exists>cs'. cs = map Untuned hs @ cs' \<and> runs p cs' c)"
  by (induction hs arbitrary: cs) auto

lemma prog_all_untunes [simp]: "prog_all P (foldr UntuneReq hs p) = prog_all P p"
  by (induction hs) auto

text \<open>Tracking a sequence of answers.\<close>

lemma track_fold:
  "fold trackClient hs c = (if mIsPriorityClient c then c else c\<lparr>mCurrRestuneHandles :=
     mCurrRestuneHandles c @ map (Pair (mClientTracker c)) (filter (\<lambda>h. h \<noteq> -1) hs)\<rparr>)"
  by (induction hs arbitrary: c) (auto simp: trackClient_def)

lemma track_minus_one: "(if h \<noteq> -1 then trackClient h c else c) = trackClient h c"
  by (simp add: trackClient_def)

lemma track_answer:
  "(case a of None \<Rightarrow> c | Some h \<Rightarrow> trackClient h c) = fold trackClient (answer_of (Moved ms pid tid a)) c"
  by (cases a) simp_all

lemma runs_moves:
  assumes "runs (MoveAppThreadsToCGroup w pid tid comm g c k) cs c'"
  obtains moves a cs' where "cs = Moved ((g, pid) # moves) pid tid a # cs'"
    "runs (k (fold trackClient (answer_of (Moved ((g, pid) # moves) pid tid a)) c)) cs' c'"
proof -
  from assms obtain moves a cs' where r: "cs = Moved ((g, pid) # moves) pid tid a # cs'"
    "runs (k (case a of None \<Rightarrow> c | Some h \<Rightarrow> trackClient h c)) cs' c'"
    by (cases "app_moves w pid comm") (auto simp: MoveAppThreadsToCGroup_def)
  from that[OF r(1) r(2)[unfolded track_answer[of c a "(g, pid) # moves" pid tid]]] show ?thesis .
qed

lemma runs_codes:
  "runs (acquire_codes codes pid tid c k) cs c' \<Longrightarrow>
     \<exists>hs cs'. length hs = length codes \<and> cs = map2 (\<lambda>i h. Acquired (the i) 0 pid tid h) codes hs @ cs' \<and>
       runs (k (fold trackClient hs c)) cs' c'"
proof (induction codes arbitrary: c cs)
  case Nil
  then show ?case by simp
next
  case (Cons code codes)
  then obtain i h cs1 where s: "code = Some i" "cs = Acquired i 0 pid tid h # cs1"
    "runs (acquire_codes codes pid tid (trackClient h c) k) cs1 c'"
    by (cases code) (auto simp: track_minus_one)
  from Cons.IH[OF s(3)] obtain hs cs' where "length hs = length codes"
    "cs1 = map2 (\<lambda>i h. Acquired (the i) 0 pid tid h) codes hs @ cs'" "runs (k (fold trackClient hs (trackClient h c))) cs' c'"
    by blast
  with s show ?case by (intro exI[of _ "h # hs"] exI[of _ cs']) simp
qed

lemma answers_codes: "length hs = length codes \<Longrightarrow>
   answers (map2 (\<lambda>i h. Acquired (the i) 0 pid tid h) codes hs) = hs \<and>
   untuned (map2 (\<lambda>i h. Acquired (the i) 0 pid tid h) codes hs) = []"
  by (induction hs codes rule: list_induct2) simp_all

lemma runs_workload:
  assumes "runs (apply_workload w ev comm c k) cs c'"
  obtains cs1 cs' where "cs = cs1 @ cs'" "untuned cs1 = []" "runs (k (fold trackClient (answers cs1) c)) cs' c'"
proof -
  consider h cs' where "cs = [PostProcessed comm (ev_pid ev) h] @ cs'" "runs (k (trackClient h c)) cs' c'"
    | i h cs' where "cs = [Acquired i DEFAULT_SIGNAL_TYPE (ev_pid ev) (ev_tgid ev) h] @ cs'" "runs (k (trackClient h c)) cs' c'"
    | "runs (k c) cs c'"
    using assms by (auto simp: apply_workload_def Let_def split: if_splits)
  then show ?thesis
  proof cases
    case (1 h cs')
    show ?thesis by (rule that[OF 1(1)]) (use 1(2) in simp_all)
  next
    case (2 i h cs')
    show ?thesis by (rule that[OF 2(1)]) (use 2(2) in simp_all)
  next
    case 3
    show ?thesis by (rule that[of "[]" cs]) (use 3 in simp_all)
  qed
qed

text \<open>A run of the start of an application: the untune requests first, then the other calls, whose answers are tracked.\<close>

lemma runs_open:
  assumes "runs (open_app w ev comm c) cs c'"
    and start: "(if checkClientPriority comm c then ([], c\<lparr>mIsPriorityClient := True\<rparr>)
      else reShuffle (c\<lparr>mIsPriorityClient := False\<rparr>)) = (us, c1)"
  shows "\<exists>moves a cs'. cs = map Untuned us @ Moved ((FOCUSED_CGROUP_IDENTIFIER, ev_pid ev) # moves) (ev_pid ev) (ev_tgid ev) a # cs' \<and>
    untuned cs' = [] \<and> c' = next_client (count_client (length (mCurrRestuneHandles c1)) (fold trackClient (answers cs) c1))"
proof -
  let ?fin = "\<lambda>c. Finish (next_client (count_client (length (mCurrRestuneHandles c1)) c))"
  from assms obtain cs0 where cs0: "cs = map Untuned us @ cs0"
    "runs (MoveAppThreadsToCGroup w (ev_pid ev) (ev_tgid ev) comm FOCUSED_CGROUP_IDENTIFIER c1 (\<lambda>c.
           configureAppSignals w (ev_pid ev) (ev_tgid ev) comm c (\<lambda>c. apply_workload w ev comm c ?fin))) cs0 c'"
    by (auto simp: open_app_def Let_def runs_untunes split: prod.splits if_splits)
  from runs_moves[OF cs0(2)] obtain moves a cs1 where m: "cs0 = Moved ((FOCUSED_CGROUP_IDENTIFIER, ev_pid ev) # moves) (ev_pid ev) (ev_tgid ev) a # cs1"
    "runs (configureAppSignals w (ev_pid ev) (ev_tgid ev) comm
       (fold trackClient (answer_of (Moved ((FOCUSED_CGROUP_IDENTIFIER, ev_pid ev) # moves) (ev_pid ev) (ev_tgid ev) a)) c1)
       (\<lambda>c. apply_workload w ev comm c ?fin)) cs1 c'" .
  from runs_codes[OF m(2)[unfolded configureAppSignals_def]] obtain hs cs2 where
    h: "length hs = length (app_codes w comm)"
    "cs1 = map2 (\<lambda>i h. Acquired (the i) 0 (ev_pid ev) (ev_tgid ev) h) (app_codes w comm) hs @ cs2"
    "runs (apply_workload w ev comm (fold trackClient hs
       (fold trackClient (answer_of (Moved ((FOCUSED_CGROUP_IDENTIFIER, ev_pid ev) # moves) (ev_pid ev) (ev_tgid ev) a)) c1)) ?fin) cs2 c'"
    by blast
  from runs_workload[OF h(3)] obtain cs3 cs4 where w: "cs2 = cs3 @ cs4" "untuned cs3 = []"
    "runs (?fin (fold trackClient (answers cs3) (fold trackClient hs
       (fold trackClient (answer_of (Moved ((FOCUSED_CGROUP_IDENTIFIER, ev_pid ev) # moves) (ev_pid ev) (ev_tgid ev) a)) c1)))) cs4 c'" .
  show ?thesis
    by (intro exI[of _ moves] exI[of _ a] exI[of _ cs1])
      (use cs0(1) m(1) h(2) w answers_codes[OF h(1)] in \<open>simp add: fold_append\<close>)
qed

section \<open>Tracked applications\<close>

definition client_ids :: "classifier \<Rightarrow> u64 list" where
  "client_ids c = map fst (mCurrRestuneHandles c)"

text \<open>
  The handles are queued by application in the order of their numbers, and the count is the number of
  applications with handles, at most the threshold.
\<close>

definition counts_inv :: "classifier \<Rightarrow> bool" where
  "counts_inv c \<longleftrightarrow> sorted (client_ids c) \<and> (\<forall>i\<in>set (client_ids c). i < mClientTracker c) \<and>
     unat (mActiveClientCount c) = card (set (client_ids c)) \<and> mActiveClientCount c \<le> mActiveAppThreshold c \<and>
     mActiveAppThreshold c \<in> {1, 3}"

lemma evict_eq:
  "evict m q = (map snd (filter (\<lambda>p. 0 < sint (snd p)) (takeWhile (\<lambda>p. fst p = m) q)), dropWhile (\<lambda>p. fst p = m) q,
     q \<noteq> [] \<and> fst (hd q) = m)"
  by (induction m q rule: evict.induct) auto

lemma sorted_front:
  assumes "sorted (map fst q)" "\<forall>p\<in>set q. (m :: 'a :: linorder) \<le> fst p"
  shows "takeWhile (\<lambda>p. fst p = m) q = filter (\<lambda>p. fst p = m) q \<and> dropWhile (\<lambda>p. fst p = m) q = filter (\<lambda>p. fst p \<noteq> m) q"
  using assms
proof (induction q)
  case (Cons p q)
  show ?case
  proof (cases "fst p = m")
    case False
    then have "fst x \<noteq> m" if "x \<in> set q" for x using Cons.prems that by fastforce
    then have "filter (\<lambda>p. fst p = m) q = []" "filter (\<lambda>p. fst p \<noteq> m) q = q" by (auto simp: filter_empty_conv filter_id_conv)
    with False show ?thesis by simp
  qed (use Cons in auto)
qed simp

definition oldest :: "classifier \<Rightarrow> u64" where
  "oldest c = hd (client_ids c)"

definition full :: "classifier \<Rightarrow> bool" where
  "full c \<longleftrightarrow> mActiveAppThreshold c \<le> mActiveClientCount c"

lemma full_nonempty: "counts_inv c \<Longrightarrow> full c \<Longrightarrow> mCurrRestuneHandles c \<noteq> []"
  by (auto simp: counts_inv_def full_def client_ids_def word_le_nat_alt unat_eq_0)

lemma reShuffle_full:
  assumes "counts_inv c" "full c"
  shows "reShuffle c = (map snd (filter (\<lambda>p. fst p = oldest c \<and> 0 < sint (snd p)) (mCurrRestuneHandles c)),
    c\<lparr>mCurrRestuneHandles := filter (\<lambda>p. fst p \<noteq> oldest c) (mCurrRestuneHandles c),
      mActiveClientCount := mActiveClientCount c - 1\<rparr>)"
proof -
  obtain m h q where q: "mCurrRestuneHandles c = (m, h) # q"
    using full_nonempty[OF assms] by (cases "mCurrRestuneHandles c") auto
  have s: "sorted (map fst ((m, h) # q))" "\<forall>p\<in>set ((m, h) # q). m \<le> fst p"
    using assms(1) q by (auto simp: counts_inv_def client_ids_def)
  have "unat (mActiveClientCount c) \<noteq> 0" using assms(1) q by (auto simp: counts_inv_def client_ids_def)
  then have "0 < mActiveClientCount c" by (simp add: word_less_nat_alt)
  then show ?thesis using assms(2) q sorted_front[OF s]
    by (simp add: reShuffle_def oldest_def client_ids_def full_def evict_eq filter_filter conj_commute)
qed

lemma reShuffle_room:
  "counts_inv c \<Longrightarrow> \<not> full c \<Longrightarrow> reShuffle c = ([], c)"
  by (cases "mCurrRestuneHandles c") (auto simp: reShuffle_def full_def counts_inv_def client_ids_def unat_eq_0)

lemma reShuffle_counts:
  assumes inv: "counts_inv c" and r: "reShuffle c = (us, c')"
  shows "counts_inv c' \<and> \<not> full c' \<and> mClientTracker c' = mClientTracker c \<and> mPendingEv c' = mPendingEv c \<and>
    mClassifierPidCache c' = mClassifierPidCache c \<and> mIsPriorityClient c' = mIsPriorityClient c"
proof (cases "full c")
  case False
  then show ?thesis using reShuffle_room[OF inv False] r inv by auto
next
  case True
  let ?q = "mCurrRestuneHandles c" and ?m = "oldest c"
  have c': "c' = c\<lparr>mCurrRestuneHandles := filter (\<lambda>p. fst p \<noteq> ?m) ?q, mActiveClientCount := mActiveClientCount c - 1\<rparr>"
    using reShuffle_full[OF inv True] r by simp
  have m: "?m \<in> set (client_ids c)" unfolding oldest_def using full_nonempty[OF inv True] by (intro hd_in_set) (simp add: client_ids_def)
  have set: "set (client_ids c') = set (client_ids c) - {?m}" by (auto simp: client_ids_def c')
  have sorted: "sorted (client_ids c')" using inv by (auto simp: counts_inv_def client_ids_def c' intro: sorted_filter)
  have pos: "0 < unat (mActiveClientCount c)" using inv m by (auto simp: counts_inv_def card_gt_0_iff)
  then have down: "unat (mActiveClientCount c - 1) = unat (mActiveClientCount c) - 1"
    by (intro unat_minus_one) auto
  have cnt: "unat (mActiveClientCount c') = card (set (client_ids c'))" "mActiveClientCount c' < mActiveClientCount c"
    using inv m set pos down by (auto simp: c' counts_inv_def word_less_nat_alt)
  have same: "mActiveAppThreshold c' = mActiveAppThreshold c" "mClientTracker c' = mClientTracker c" by (simp_all add: c')
  then have below: "mActiveClientCount c' < mActiveAppThreshold c'" using less_le_trans[OF cnt(2)] inv unfolding counts_inv_def by metis
  have "counts_inv c'" using inv sorted cnt(1) less_imp_le[OF below] set same by (simp add: counts_inv_def)
  then show ?thesis using below by (simp add: full_def not_le) (simp add: c')
qed

lemma unat_next: "(x :: u64) \<noteq> -1 \<Longrightarrow> unat (x + 1) = Suc (unat x)"
proof -
  assume "x \<noteq> -1"
  then have "unat x \<noteq> 2 ^ 64 - 1" using word_unat_eq_iff[of x "-1"] by (simp add: unsigned_minus_1_eq_mask mask_eq_exp_minus_1)
  then have "Suc (unat x) < 2 ^ 64" using unsigned_less[of x, where 'a = nat] by simp
  then show ?thesis by (simp add: unat_word_ariths)
qed

text \<open>The end of a handled event.\<close>

lemma tracked_counts:
  assumes inv: "counts_inv c" and room: "hs = [] \<or> \<not> full c" and top: "mClientTracker c \<noteq> -1"
    and c': "c' = c\<lparr>mCurrRestuneHandles := mCurrRestuneHandles c @ map (Pair (mClientTracker c)) hs\<rparr>"
  shows "counts_inv (next_client (count_client (length (mCurrRestuneHandles c)) c'))"
proof -
  have less: "mClientTracker c < mClientTracker c + 1"
    using unat_next[OF top] by (simp add: word_less_nat_alt)
  then have below: "i < mClientTracker c + 1" if "i \<in> set (client_ids c)" for i
    using inv that by (force simp: counts_inv_def)
  show ?thesis
  proof (cases "hs = []")
    case True
    with inv below show ?thesis by (simp add: c' counts_inv_def count_client_def next_client_def client_ids_def)
  next
    case False
    then have lt: "mActiveClientCount c < mActiveAppThreshold c" using room by (simp add: full_def)
    have ids: "client_ids c' = client_ids c @ map (\<lambda>_. mClientTracker c) hs" by (simp add: client_ids_def c' comp_def)
    have new: "mClientTracker c \<notin> set (client_ids c)" using inv by (auto simp: counts_inv_def)
    have "set (client_ids c') = insert (mClientTracker c) (set (client_ids c))" using False by (simp add: ids image_constant_conv)
    then have card: "card (set (client_ids c')) = Suc (card (set (client_ids c)))" using new by simp
    have up: "unat (mActiveClientCount c + 1) = Suc (unat (mActiveClientCount c))"
      by (rule unat_next) (use lt word_order.extremum_strict in force)
    have "mActiveClientCount c + 1 \<le> mActiveAppThreshold c"
      using lt up by (simp add: word_le_nat_alt word_less_nat_alt)
    moreover have "sorted (client_ids c')"
      using inv by (auto simp: ids sorted_append counts_inv_def sorted_wrt_map less_imp_le map_replicate_const)
    moreover have "client_ids (next_client (count_client (length (mCurrRestuneHandles c)) c')) = client_ids c'"
      by (simp add: client_ids_def next_client_def count_client_def)
    moreover have "i < mClientTracker c + 1" if "i \<in> set (client_ids c')" for i
      using that below less by (auto simp: ids)
    ultimately show ?thesis using inv card up False
      by (simp add: counts_inv_def) (simp add: next_client_def count_client_def c')
  qed
qed

section \<open>The cache of process numbers\<close>

text \<open>Numbers are only inserted when absent, so the set and the queue of the cache hold the same ones.\<close>

definition cache_exact :: "min_lru_cache \<Rightarrow> bool" where
  "cache_exact c \<longleftrightarrow> distinct (mDataSet c) \<and> distinct (mRecencyQueue c) \<and> set (mDataSet c) = set (mRecencyQueue c) \<and>
     length (mRecencyQueue c) \<le> mMaxSize c \<and> 0 < mMaxSize c"

lemma cache_exact_length: "cache_exact c \<Longrightarrow> length (mDataSet c) = length (mRecencyQueue c)"
  unfolding cache_exact_def by (metis distinct_card)

lemma lru_insert_new:
  assumes e: "cache_exact c" and new: "\<not> isPresent x c"
  shows "\<exists>c'. lru_insert x c = Some c' \<and> cache_exact c' \<and> mMaxSize c' = mMaxSize c \<and>
    mRecencyQueue c' = (if length (mRecencyQueue c) < mMaxSize c then mRecencyQueue c else tl (mRecencyQueue c)) @ [x]"
proof (cases "length (mRecencyQueue c) < mMaxSize c")
  case True
  with e new cache_exact_length[OF e] show ?thesis
    by (auto simp: lru_insert_def cache_exact_def isPresent_def List.insert_def)
next
  case False
  with e obtain y ys where q: "mRecencyQueue c = y # ys" by (cases "mRecencyQueue c") (auto simp: cache_exact_def)
  have "\<not> length (mDataSet c) < mMaxSize c" using False cache_exact_length[OF e] by simp
  with e new q False show ?thesis
    by (auto simp: lru_insert_def cache_exact_def isPresent_def List.insert_def distinct_removeAll)
qed

section \<open>The invariant of the classifier\<close>

definition cls_inv :: "classifier \<Rightarrow> bool" where
  "cls_inv c \<longleftrightarrow> counts_inv c \<and> length (mPendingEv c) \<le> pendingQueueControlSize \<and> cache_exact (mClassifierPidCache c)"

lemma cls_inv_init: "cls_inv (loadStaticProcData allow_list blocklist priority_clients (ContextualClassifier_init mode))"
  by (simp add: cls_inv_def counts_inv_def client_ids_def cache_exact_def loadStaticProcData_def ContextualClassifier_init_def
      MinLRUCache_init_def Let_def)

lemma push_event_inv: "cls_inv c \<Longrightarrow> cls_inv (push_event ev c)"
  by (cases "mPendingEv c") (auto simp: cls_inv_def push_event_def counts_inv_def client_ids_def Let_def)

lemma accept_event_ok:
  assumes "cls_inv c"
  shows "\<exists>c'. accept_event rc ev c = Some c' \<and> cls_inv c' \<and> mClientTracker c' = mClientTracker c \<and> mNeedExit c' = mNeedExit c"
proof (cases "rc = CC_APP_OPEN \<and> \<not> isPresent (scast (ev_pid ev)) (mClassifierPidCache c)")
  case False
  then show ?thesis using assms push_event_inv[OF assms, of ev]
    by (auto simp: accept_event_def push_event_def Let_def)
next
  case True
  have "cache_exact (mClassifierPidCache c)" using assms by (simp add: cls_inv_def)
  from lru_insert_new[OF this, of "scast (ev_pid ev)"] True obtain cache where
    "lru_insert (scast (ev_pid ev)) (mClassifierPidCache c) = Some cache" "cache_exact cache" by blast
  with True push_event_inv[OF assms, of ev] show ?thesis
    by (auto simp: accept_event_def push_event_def Let_def cls_inv_def counts_inv_def client_ids_def)
qed

text \<open>What the configuration of an application must provide: an element for each number it announces.\<close>

definition app_ready :: "AppConfig \<Rightarrow> bool" where
  "app_ready app \<longleftrightarrow>
     (\<forall>names. mThreadNameList app = Some names \<longrightarrow> nat (sint (mNumThreads app)) \<le> length names \<and>
        (\<exists>ids. mCGroupIds app = Some ids \<and> nat (sint (mNumThreads app)) \<le> length ids \<and> None \<notin> set ids)) \<and>
     (\<forall>codes. mSignalCodes app = Some codes \<longrightarrow> nat (sint (mNumSignals app)) \<le> length codes \<and> None \<notin> set codes)"

definition apps_ready :: "app_configs \<Rightarrow> bool" where
  "apps_ready apps \<longleftrightarrow> (\<forall>name app. apps name = Some (Some app) \<longrightarrow> app_ready app)"

lemma thread_moves_defined:
  assumes "n \<le> length names" "n \<le> length ids" "None \<notin> set ids"
  shows "\<forall>i\<in>set is. i < n \<Longrightarrow> thread_moves procs pid names ids is \<noteq> None"
proof (induction "is")
  case (Cons i rest)
  then have "i < length ids" "i < length names" using assms by auto
  moreover from this have "ids ! i \<noteq> None" using assms(3) by (metis nth_mem)
  ultimately show ?case using Cons by auto
qed simp

lemma app_moves_defined:
  assumes "apps_ready (w_apps w)"
  shows "app_moves w pid comm \<noteq> None"
proof (cases "fst (getAppConfig comm (w_apps w))")
  case None
  then show ?thesis by (simp add: app_moves_def)
next
  case (Some app)
  then have r: "app_ready app" using assms by (auto simp: apps_ready_def getAppConfig_def split: option.splits)
  then show ?thesis
    using thread_moves_defined[of "nat (sint (mNumThreads app))" _ _ "[0 ..< nat (sint (mNumThreads app))]"] Some
    by (fastforce simp: app_moves_def app_ready_def split: option.splits)
qed

lemma app_codes_defined: "apps_ready (w_apps w) \<Longrightarrow> None \<notin> set (app_codes w comm)"
proof (cases "fst (getAppConfig comm (w_apps w))")
  case (Some app)
  assume "apps_ready (w_apps w)"
  with Some have "app_ready app" by (auto simp: apps_ready_def getAppConfig_def split: option.splits)
  then show ?thesis using Some
    by (cases "mSignalCodes app") (auto simp: app_codes_def app_ready_def, metis nth_mem less_le_trans)
qed (simp add: app_codes_def)

lemma prog_all_codes: "None \<notin> set codes \<Longrightarrow> (\<And>c. prog_all P (k c)) \<Longrightarrow> prog_all P (acquire_codes codes pid tid c k)"
proof (induction codes arbitrary: c)
  case (Cons code codes)
  then show ?case by (cases code) auto
qed simp

lemma open_app_total: "apps_ready (w_apps w) \<Longrightarrow> prog_all (\<lambda>_. True) (open_app w ev comm c)"
  using app_moves_defined[of w] app_codes_defined[of w comm]
  by (auto simp: open_app_def MoveAppThreadsToCGroup_def configureAppSignals_def apply_workload_def Let_def
      split: option.splits prod.splits intro!: prog_all_codes)

lemma ClassifierMain_event_inv:
  assumes inv: "cls_inv c" and apps: "apps_ready (w_apps w)" and top: "mClientTracker c \<noteq> -1"
  shows "prog_all (\<lambda>c'. cls_inv c' \<and> unat (mClientTracker c') \<le> unat (mClientTracker c) + 1 \<and>
    mNeedExit c' = mNeedExit c) (ClassifierMain_event w ev c)"
proof -
  let ?P = "\<lambda>c'. cls_inv c' \<and> unat (mClientTracker c') \<le> unat (mClientTracker c) + 1 \<and> mNeedExit c' = mNeedExit c"
  let ?c = "c\<lparr>mIsPriorityClient := False\<rparr>"
  have stay: "?P ?c" using inv by (simp add: cls_inv_def counts_inv_def client_ids_def)
  have next_ok: "?P (next_client ?c)"
    using inv tracked_counts[of ?c "[]" ?c] top unat_next[OF top]
    by (simp add: cls_inv_def counts_inv_def client_ids_def count_client_def next_client_def)
  have opened: "prog_all ?P (open_app w ev comm ?c)" for comm
  proof (rule prog_all_runs[OF open_app_total[OF apps]])
    fix cs c' assume r: "runs (open_app w ev comm ?c) cs c'"
    obtain us c1 where start: "(if checkClientPriority comm ?c then ([], ?c\<lparr>mIsPriorityClient := True\<rparr>)
      else reShuffle (?c\<lparr>mIsPriorityClient := False\<rparr>)) = (us, c1)" by fastforce
    from runs_open[OF r start] have c': "c' = next_client (count_client (length (mCurrRestuneHandles c1)) (fold trackClient (answers cs) c1))"
      by blast
    have "counts_inv ?c" "counts_inv (?c\<lparr>mIsPriorityClient := True\<rparr>)" using inv by (simp_all add: cls_inv_def counts_inv_def client_ids_def)
    then have c1: "counts_inv c1 \<and> mClientTracker c1 = mClientTracker c \<and> mPendingEv c1 = mPendingEv c \<and>
        mClassifierPidCache c1 = mClassifierPidCache c \<and> (mIsPriorityClient c1 \<or> \<not> full c1)"
      using start reShuffle_counts[of ?c us c1] by (auto split: if_splits)
    have exit: "mNeedExit c1 = mNeedExit c"
      using start by (auto simp: reShuffle_def split: if_splits list.splits prod.splits)
    define hs where "hs = (if mIsPriorityClient c1 then [] else filter (\<lambda>h. h \<noteq> -1) (answers cs))"
    have f: "fold trackClient (answers cs) c1 = c1\<lparr>mCurrRestuneHandles := mCurrRestuneHandles c1 @ map (Pair (mClientTracker c1)) hs\<rparr>"
      by (simp add: track_fold hs_def)
    have "hs = [] \<or> \<not> full c1" using c1 by (auto simp: hs_def)
    from tracked_counts[OF _ this _ f] c1 top have "counts_inv c'" by (simp add: c')
    then show "?P c'" using c1 inv exit unat_next[OF top]
      by (simp add: c' f cls_inv_def next_client_def count_client_def)
  qed
  show ?thesis using stay next_ok opened by (auto simp: ClassifierMain_event_def Let_def split: option.splits)
qed

text \<open>Which handles the start of an application untunes, and which are tracked afterwards.\<close>

lemma open_event_effect:
  assumes inv: "counts_inv c" and ev: "ev_type ev = CC_APP_OPEN" "ev_pid ev \<noteq> -1"
    and comm: "fetchComm (w_proc w (ev_pid ev)) = Some comm"
    and r: "runs (ClassifierMain_event w ev c) cs c'"
  shows "\<exists>moves a cs'. cs = map Untuned (untuned cs) @ Moved ((FOCUSED_CGROUP_IDENTIFIER, ev_pid ev) # moves) (ev_pid ev) (ev_tgid ev) a # cs' \<and>
    untuned cs = (if comm \<notin> mPriorityClients c \<and> full c
      then map snd (filter (\<lambda>p. fst p = oldest c \<and> 0 < sint (snd p)) (mCurrRestuneHandles c)) else []) \<and>
    mCurrRestuneHandles c' =
      (if comm \<in> mPriorityClients c then mCurrRestuneHandles c
       else (if full c then filter (\<lambda>p. fst p \<noteq> oldest c) (mCurrRestuneHandles c) else mCurrRestuneHandles c) @
         map (Pair (mClientTracker c)) (filter (\<lambda>h. h \<noteq> -1) (answers cs)))"
proof -
  let ?c = "c\<lparr>mIsPriorityClient := False\<rparr>"
  have r: "runs (open_app w ev comm ?c) cs c'" using r ev comm by (simp add: ClassifierMain_event_def Let_def)
  have inv1: "counts_inv ?c" and same: "full ?c = full c" "oldest ?c = oldest c"
    using inv by (simp_all add: counts_inv_def client_ids_def full_def oldest_def)
  obtain us c1 where start: "(if checkClientPriority comm ?c then ([], ?c\<lparr>mIsPriorityClient := True\<rparr>)
      else reShuffle (?c\<lparr>mIsPriorityClient := False\<rparr>)) = (us, c1)" by fastforce
  from runs_open[OF r start] obtain moves a cs' where o:
    "cs = map Untuned us @ Moved ((FOCUSED_CGROUP_IDENTIFIER, ev_pid ev) # moves) (ev_pid ev) (ev_tgid ev) a # cs'" "untuned cs' = []"
    "c' = next_client (count_client (length (mCurrRestuneHandles c1)) (fold trackClient (answers cs) c1))" by blast
  have u: "untuned cs = us" using o(2) by (simp add: o(1))
  have "mCurrRestuneHandles c' = mCurrRestuneHandles (fold trackClient (answers cs) c1)"
    by (simp add: o(3) next_client_def count_client_def)
  moreover have "(us, c1) = (if comm \<in> mPriorityClients c then ([], ?c\<lparr>mIsPriorityClient := True\<rparr>)
      else if full c then (map snd (filter (\<lambda>p. fst p = oldest c \<and> 0 < sint (snd p)) (mCurrRestuneHandles c)),
        ?c\<lparr>mCurrRestuneHandles := filter (\<lambda>p. fst p \<noteq> oldest c) (mCurrRestuneHandles c),
          mActiveClientCount := mActiveClientCount c - 1\<rparr>) else ([], ?c))"
    by (cases "comm \<in> mPriorityClients c"; cases "full c")
      (use start reShuffle_full[OF inv1] reShuffle_room[OF inv1] in \<open>auto simp: checkClientPriority_def same\<close>)
  ultimately show ?thesis using o(1) u by (auto simp: track_fold split: if_splits)
qed

end
