(* ===== verification/ClassifierDaemon.thy ===== *)
theory ClassifierDaemon
  imports Classifier
begin

text \<open>
  The classifier in the daemon: the calls of its worker on the daemon, and the threads of the classifier,
  its listener, its worker and the one that terminates it, with the lock they share. What is proved: the
  calls are defined and keep the invariant of the daemon, the invariant of the classifier holds whenever
  the lock is free, and termination never returns.
\<close>

section \<open>The calls of the worker\<close>

definition createMovePidResource :: "bool \<Rightarrow> i32 \<Rightarrow> i32 \<Rightarrow> resource option" where
  "createMovePidResource new_ok cGroupdId pid = do {
     let r = setNumValues new_ok 2 (setResCode RES_CGRP_MOVE_PID Resource_init);
     (_, r) \<leftarrow> setValueAt 0 cGroupdId r;
     (_, r) \<leftarrow> setValueAt 1 pid r;
     Some r }"

text \<open>The first component is false where an allocation throws.\<close>

fun add_moves ::
    "alloc_source \<Rightarrow> nat \<Rightarrow> (i32 \<times> i32) list \<Rightarrow> res_heap \<Rightarrow> request \<Rightarrow> (bool \<times> res_heap \<times> request) option" where
  "add_moves al i [] h req = Some (True, h, req)"
| "add_moves al i ((cGroupdId, pid) # moves) h req =
     (case iter_block al i of None \<Rightarrow> Some (False, h, req)
      | Some a \<Rightarrow>
          if \<not> res_block al i then Some (False, h, req)
          else do {
            r \<leftarrow> createMovePidResource (val_array al i) cGroupdId pid;
            (h, req) \<leftarrow> addResource (list_block al i)
              (h(a \<mapsto> \<lparr>nd_next = (\<lambda>_. None), nd_prev = (\<lambda>_. None), mData = r\<rparr>)) req a;
            add_moves al (Suc i) moves h req })"

definition move_fields :: "int \<Rightarrow> i32 \<Rightarrow> i32 \<Rightarrow> request \<Rightarrow> request" where
  "move_fields handle pid tid raw =
     setClientTID tid (setClientPID pid (setPriority SYSTEM_LOW (setDuration (-1)
       (setHandle (word_of_int handle) (setRequestType REQ_RESOURCE_TUNING (Request_init raw))))))"

text \<open>The rest of \<^verbatim>\<open>MoveAppThreadsToCGroup\<close>: the handle, if the request could be built.\<close>

definition move_request ::
    "server_env \<Rightarrow> arrival \<Rightarrow> alloc_source \<Rightarrow> (addr \<times> request) option \<Rightarrow> (i32 \<times> i32) list \<Rightarrow> i32 \<Rightarrow> i32 \<Rightarrow> int \<Rightarrow> server \<Rightarrow>
       (i64 option \<times> int \<times> server) option" where
  "move_request env ar al block moves pid tid gen sv =
     (case block of None \<Rightarrow> Some (None, gen, sv)
      | Some (a, raw) \<Rightarrow> do {
          (handle, gen) \<leftarrow> generateUniqueHandle gen;
          (ok, h, req) \<leftarrow> add_moves al 0 moves (c_heap (sv_coco sv)) (move_fields handle pid tid raw);
          let sv = hold_request a req h sv;
          (if \<not> ok then Some (None, gen, sv)
           else if getResourcesCount req > 0
           then map_option (\<lambda>sv. (Some (getHandle req), gen, sv)) (RequestHandler.processIncomingRequest env ar True a sv)
           else map_option (\<lambda>sv. (None, gen, sv)) (release_request a sv)) })"

definition untune_fields :: "i64 \<Rightarrow> request \<Rightarrow> request" where
  "untune_fields handle raw =
     setClientTID 0 (setClientPID 0 (setPriority SYSTEM_HIGH (setDuration (-1)
       (setHandle handle (setRequestType REQ_RESOURCE_UNTUNING (Request_init raw))))))"

definition untuneRequestHelper ::
    "server_env \<Rightarrow> arrival \<Rightarrow> (addr \<times> request) option \<Rightarrow> i64 \<Rightarrow> server \<Rightarrow> server option" where
  "untuneRequestHelper env ar block handle sv =
     (case block of None \<Rightarrow> Some sv
      | Some (a, raw) \<Rightarrow>
          RequestHandler.processIncomingRequest env ar True a (hold_request a (untune_fields handle raw) (c_heap (sv_coco sv)) sv))"

section \<open>The calls keep the daemon sound\<close>

lemma move_resource:
  "createMovePidResource b g pid = Some \<lparr>mResCode = RES_CGRP_MOVE_PID, mResInfo = 0, mOptionalInfo = 0,
     mNumValues = 2, mResValue = Values (Some g) (Some pid), mResAction = RES_FORWARD\<rparr>"
  by (simp add: createMovePidResource_def setNumValues_def setValueAt_def setResCode_def Resource_init_def
      write_inline_def inline_value_def)

lemma move_resource_readable:
  "createMovePidResource b g pid = Some r \<Longrightarrow> readable r \<and> vals r = [g, pid]"
  by (auto simp: move_resource readable_def vals_def getValueAt_def inline_value_def numeral_2_eq_2)

text \<open>With all blocks available the request carries exactly the moves, in order.\<close>

lemma add_moves_ok:
  "alloc_fresh al [i ..< i + length moves] h \<Longrightarrow> req_ok h req xs \<Longrightarrow>
   \<exists>ok h' req' ys. add_moves al i moves h req = Some (ok, h', req') \<and> added h req xs h' req' ys \<and>
     (alloc_full al [i ..< i + length moves] \<longrightarrow> ok \<and> map (\<lambda>a. vals (data_at h' a)) ys = map (\<lambda>(g, pid). [g, pid]) moves)"
proof (induction moves arbitrary: i h req xs)
  case Nil
  then show ?case
    by (intro exI[of _ True] exI[of _ h] exI[of _ req] exI[of _ "[]"]) (simp add: added_refl)
next
  case (Cons m moves)
  obtain g pid where m: "m = (g, pid)" by (cases m)
  have upt: "[i ..< i + length (m # moves)] = i # [Suc i ..< Suc i + length moves]" by (simp add: upt_rec)
  have first: "alloc_full al [i ..< i + length (m # moves)] \<Longrightarrow> iter_block al i \<noteq> None \<and> res_block al i"
    by (auto simp: alloc_full_def)
  have stop: ?case if "add_moves al i (m # moves) h req = Some (False, h, req)" "\<not> alloc_full al [i ..< i + length (m # moves)]"
    using that added_refl[OF Cons.prems(2)] by blast
  show ?case
  proof (cases "iter_block al i")
    case None
    then show ?thesis using first by (intro stop) (auto simp: m)
  next
    case a: (Some a)
    show ?thesis
    proof (cases "res_block al i")
      case False
      then show ?thesis using a first by (intro stop) (auto simp: m)
    next
      case True
      obtain r where r: "createMovePidResource (val_array al i) g pid = Some r" by (simp add: move_resource)
      note rd = move_resource_readable[OF r]
      have ha: "h a = None" using Cons.prems(1) a unfolding upt alloc_fresh_def by auto
      from add_fresh_node[OF Cons.prems(2) ha, of r "list_block al i"] rd obtain h1 l ys where
        ad: "addResource (list_block al i) (h(a \<mapsto> \<lparr>nd_next = (\<lambda>_. None), nd_prev = (\<lambda>_. None), mData = r\<rparr>)) req a =
          Some (h1, req\<lparr>mResourceList := l\<rparr>)" "req_ok h1 (req\<lparr>mResourceList := l\<rparr>) (xs @ ys)" "set ys \<subseteq> {a}"
        "list_block al i \<longrightarrow> ys = [a]" "\<And>n. dl_data h1 n = (if n = a then Some r else dl_data h n)"
        "\<And>n. n \<notin> insert a (set xs) \<Longrightarrow> h1 n = h n" by metis
      have fr1: "alloc_fresh al [Suc i ..< Suc i + length moves] h1"
        by (rule alloc_fresh_after[OF Cons.prems(1)[unfolded upt] a _ ad(5)]) auto
      from Cons.IH[OF fr1 ad(2)] obtain ok h' req' zs where
        z: "add_moves al (Suc i) moves h1 (req\<lparr>mResourceList := l\<rparr>) = Some (ok, h', req')"
        "added h1 (req\<lparr>mResourceList := l\<rparr>) (xs @ ys) h' req' zs"
        "alloc_full al [Suc i ..< Suc i + length moves] \<longrightarrow>
           ok \<and> map (\<lambda>a. vals (data_at h' a)) zs = map (\<lambda>(g, pid). [g, pid]) moves" by blast
      have run: "add_moves al i (m # moves) h req = Some (ok, h', req')" using m a True r ad(1) z(1) by simp
      have da: "data_at h' a = r" by (rule data_at_added[OF z(2)]) (simp add: ad(5))
      have "ok \<and> map (\<lambda>a. vals (data_at h' a)) (ys @ zs) = map (\<lambda>(g, pid). [g, pid]) (m # moves)"
        if "alloc_full al [i ..< i + length (m # moves)]"
      proof -
        have "alloc_full al [Suc i ..< Suc i + length moves]" "ys = [a]" using that ad(4) unfolding upt by (auto simp: alloc_full_def)
        with z(3) da rd m show ?thesis by simp
      qed
      with run added_trans[OF z(2) ad(3) ha ad(5,6)] show ?thesis by blast
    qed
  qed
qed

lemma empty_request_ok: "mResourceList req = None \<Longrightarrow> req_ok h req []"
  by (simp add: req_ok_def req_list_def nodes_readable_iff)

lemma move_fields_simps:
  "mResourceList (move_fields handle pid tid raw) = None" "getHandle (move_fields handle pid tid raw) = word_of_int handle"
  "sint (getPriority (move_fields handle pid tid raw)) < 4"
  by (simp_all add: move_fields_def setClientTID_def setClientPID_def setPriority_def setDuration_def setHandle_def
      setRequestType_def Request_init_def getHandle_def getPriority_def SYSTEM_LOW_def)

lemma untune_fields_simps:
  "mResourceList (untune_fields handle raw) = None" "getRequestType (untune_fields handle raw) = REQ_RESOURCE_UNTUNING"
  by (simp_all add: untune_fields_def setClientTID_def setClientPID_def setPriority_def setDuration_def setHandle_def
      setRequestType_def Request_init_def getRequestType_def)

lemma move_request_ok:
  assumes inv: "daemon_inv env sv" and acq: "acquirable ar al block 0 None 0 None gen sv"
  shows "\<exists>answer gen' sv'. move_request env ar al block moves pid tid gen sv = Some (answer, gen', sv') \<and> daemon_inv env sv'"
proof (cases block)
  case None
  with inv show ?thesis by (simp add: move_request_def)
next
  case (Some p)
  obtain a raw where p: "block = Some (a, raw)" using Some by (cases p) auto
  from inv obtain T W U P where inv': "server_inv env sv T W U P" and tg: "target_ok (sv_target sv)" by (auto simp: daemon_inv_def)
  note q = acq[unfolded acquirable_def]
  have fresh: "sv_objs sv a = None" using q p by blast
  have g: "generateUniqueHandle gen = Some (gen + 1, gen + 1)" using q by (intro generateUniqueHandle_step) auto
  let ?req = "move_fields (gen + 1) pid tid raw" and ?h = "c_heap (sv_coco sv)"
  from add_moves_ok[of al 0 moves ?h ?req "[]"] q obtain ok h req ys where
    x: "add_moves al 0 moves ?h ?req = Some (ok, h, req)" "added ?h ?req [] h req ys"
    using empty_request_ok[OF move_fields_simps(1)] by (metis add_0)
  let ?sv = "hold_request a req h sv"
  have inv1: "server_inv env ?sv T W U ((a, ys) # P)" by (rule hold_request_inv[OF inv' fresh x(2)])
  have eqs: "sv_target ?sv = sv_target sv" "sv_objs ?sv a = Some req" "sv_rm ?sv = sv_rm sv" by (simp_all add: hold_request_def)
  obtain l where "req = ?req\<lparr>mResourceList := l\<rparr>" using x(2) by (auto simp: added_def)
  then have "getHandle req = word_of_int (gen + 1)" "sint (getPriority req) < 4"
    using move_fields_simps[of "gen + 1" pid tid raw] by (simp_all add: getHandle_def getPriority_def)
  then have "arrival_ok ar True req ?sv" using q tg eqs by (simp add: arrival_ok_def)
  from arrival_daemon[OF inv1 eqs(2) this] obtain sv1 where
    s1: "RequestHandler.processIncomingRequest env ar True a ?sv = Some sv1" "daemon_inv env sv1" by blast
  from release_done[OF inv1] eqs(1) tg obtain sv2 where s2: "release_request a ?sv = Some sv2" "daemon_inv env sv2"
    unfolding daemon_inv_def by metis
  have "daemon_inv env ?sv" using inv1 eqs(1) tg by (auto simp: daemon_inv_def)
  with p g x(1) s1 s2 show ?thesis by (cases ok; cases "getResourcesCount req > 0") (auto simp: move_request_def Let_def)
qed

lemma untuneRequestHelper_ok:
  assumes inv: "daemon_inv env sv" and rcv: "signal_receivable ar ar al block handle' sv"
  shows "\<exists>sv'. untuneRequestHelper env ar block handle sv = Some sv' \<and> daemon_inv env sv'"
proof (cases block)
  case None
  with inv show ?thesis by (simp add: untuneRequestHelper_def)
next
  case (Some p)
  obtain a raw where p: "block = Some (a, raw)" using Some by (cases p) auto
  from inv obtain T W U P where inv': "server_inv env sv T W U P" and tg: "target_ok (sv_target sv)" by (auto simp: daemon_inv_def)
  have fresh: "sv_objs sv a = None" and now: "0 \<le> sint (ar_now ar)" using rcv p by (auto simp: signal_receivable_def)
  let ?req = "untune_fields handle raw"
  note inv1 = hold_request_inv[OF inv' fresh added_refl[OF empty_request_ok[OF untune_fields_simps(1)]], of handle raw]
  let ?sv = "hold_request a ?req (c_heap (sv_coco sv)) sv"
  have eqs: "sv_objs ?sv a = Some ?req" "sv_target ?sv = sv_target sv" by (simp_all add: hold_request_def)
  have "arrival_ok ar True ?req ?sv"
    using now tg eqs untune_fields_simps(2)[of handle raw] by (simp add: arrival_ok_def is_untune_or_retune_def request_types)
  from arrival_daemon[OF inv1 eqs(1) this] show ?thesis by (simp add: untuneRequestHelper_def p)
qed

section \<open>The threads of the classifier\<close>

text \<open>
  \<open>Busy p\<close>: the worker holds the lock and has the program \<open>p\<close> left. \<open>Wanting\<close>: the listener is about
  to take the lock for an event. \<open>JoiningListener\<close> and \<open>JoiningWorker\<close>: the thread in
  \<^verbatim>\<open>Terminate\<close> holds the lock and waits for a thread to end.
\<close>

datatype worker_state = Waiting | Busy prog | WorkerGone
datatype listener_state = Listening | Wanting i32 ProcEvent | ListenerGone
datatype terminator_state = Idle | JoiningListener | JoiningWorker | Returned
datatype lock_owner = ByWorker | ByTerminator

record cls_state =
  cs_system :: "(server \<times> relay_call list) \<times> gc_queue"
  cs_cls :: classifier
  cs_lock :: "lock_owner option"
  cs_worker :: worker_state
  cs_listener :: listener_state
  cs_term :: terminator_state
  cs_taken :: nat

text \<open>What \<^verbatim>\<open>Terminate\<close> does when it has the lock; the socket is closed.\<close>

definition request_exit :: "classifier \<Rightarrow> classifier" where
  "request_exit c = c\<lparr>mNeedExit := True, mPendingEv := []\<rparr>"

abbreviation daemon_of :: "cls_state \<Rightarrow> server" where
  "daemon_of s \<equiv> fst (fst (cs_system s))"

definition set_daemon :: "server \<Rightarrow> cls_state \<Rightarrow> cls_state" where
  "set_daemon sv s = s\<lparr>cs_system := ((sv, snd (fst (cs_system s))), snd (cs_system s))\<rparr>"

text \<open>
  \<open>cls_daemon\<close>: any step of the monitored system. \<open>cls_post\<close>: what a callback does to the daemon are
  steps of it, so that here only its answer remains. The lock guards a round of the worker, the queueing
  of an event, and \<^verbatim>\<open>Terminate\<close> from its first line to its end.
\<close>

inductive cls_step :: "server_env \<Rightarrow> signal_env \<Rightarrow> app_configs \<Rightarrow> cls_state \<Rightarrow> cls_state \<Rightarrow> bool" for env sg apps where
  cls_daemon: "monitored_step env sg (cs_system s) sys' \<Longrightarrow> cls_step env sg apps s (s\<lparr>cs_system := sys'\<rparr>)"
| cls_listen: "cs_listener s = Listening \<Longrightarrow> \<not> mNeedExit (cs_cls s) \<Longrightarrow>
     listen_event rc interrupted ev alive cgroup proc (cs_cls s) = answer \<Longrightarrow>
     cls_step env sg apps s (s\<lparr>cs_listener :=
       (case answer of Ignored \<Rightarrow> Listening | Accepted \<Rightarrow> Wanting rc ev | Failed \<Rightarrow> ListenerGone)\<rparr>)"
| cls_listener_exit: "cs_listener s = Listening \<Longrightarrow> mNeedExit (cs_cls s) \<Longrightarrow>
     cls_step env sg apps s (s\<lparr>cs_listener := ListenerGone\<rparr>)"
| cls_accept: "cs_listener s = Wanting rc ev \<Longrightarrow> cs_lock s = None \<Longrightarrow> accept_event rc ev (cs_cls s) = Some c \<Longrightarrow>
     cls_step env sg apps s (s\<lparr>cs_listener := Listening, cs_cls := c\<rparr>)"
| cls_take: "cs_worker s = Waiting \<Longrightarrow> cs_lock s = None \<Longrightarrow> \<not> mNeedExit (cs_cls s) \<Longrightarrow> mPendingEv (cs_cls s) = ev # rest \<Longrightarrow>
     w_apps w = apps \<Longrightarrow>
     cls_step env sg apps s (s\<lparr>cs_lock := Some ByWorker, cs_cls := (cs_cls s)\<lparr>mPendingEv := rest\<rparr>, cs_taken := cs_taken s + 1,
       cs_worker := Busy (ClassifierMain_event w ev ((cs_cls s)\<lparr>mPendingEv := rest\<rparr>))\<rparr>)"
| cls_worker_exit: "cs_worker s = Waiting \<Longrightarrow> cs_lock s = None \<Longrightarrow> mNeedExit (cs_cls s) \<Longrightarrow>
     cls_step env sg apps s (s\<lparr>cs_worker := WorkerGone\<rparr>)"
| cls_finish: "cs_worker s = Busy (Finish c) \<Longrightarrow>
     cls_step env sg apps s (s\<lparr>cs_worker := Waiting, cs_lock := None, cs_cls := c\<rparr>)"
| cls_untune: "cs_worker s = Busy (UntuneReq handle p) \<Longrightarrow> signal_receivable ar ar al block handle' (daemon_of s) \<Longrightarrow>
     untuneRequestHelper env ar block handle (daemon_of s) = Some sv \<Longrightarrow>
     cls_step env sg apps s (set_daemon sv (s\<lparr>cs_worker := Busy p\<rparr>))"
| cls_move: "cs_worker s = Busy (MoveReq moves pid tid f) \<Longrightarrow> acquirable ar al block 0 None 0 None gen (daemon_of s) \<Longrightarrow>
     move_request env ar al block moves pid tid gen (daemon_of s) = Some (handle_opt, gen', sv) \<Longrightarrow>
     cls_step env sg apps s (set_daemon sv (s\<lparr>cs_worker := Busy (f handle_opt)\<rparr>))"
| cls_acquire: "cs_worker s = Busy (AcquireSig sigId sigType pid tid g) \<Longrightarrow> acquirable ar al block 0 None 0 None gen (daemon_of s) \<Longrightarrow>
     acquireSignal env (sg_registry sg) ar al block sigId sigType pid tid 0 None 0 None gen (daemon_of s) = Some (handle, gen', sv) \<Longrightarrow>
     cls_step env sg apps s (set_daemon sv (s\<lparr>cs_worker := Busy (g handle)\<rparr>))"
| cls_post: "cs_worker s = Busy (PostProcess comm pid g) \<Longrightarrow>
     cls_step env sg apps s (s\<lparr>cs_worker := Busy (g mHandleAcq)\<rparr>)"
| cls_cleanup: "cs_worker s = Busy (SubmitCleanup pid p) \<Longrightarrow> cs_system s = ((sv, calls), gq) \<Longrightarrow>
     cls_step env sg apps s (s\<lparr>cs_worker := Busy p, cs_system := ((sv, calls), submitClientForCleanup pid (sv_clients sv) gq)\<rparr>)"
| cls_delete: "cs_worker s = Busy (DeletePID pid p) \<Longrightarrow>
     cls_step env sg apps s (set_daemon ((daemon_of s)\<lparr>sv_clients := deleteClientPID pid (sv_clients (daemon_of s))\<rparr>)
       (s\<lparr>cs_worker := Busy p\<rparr>))"
| cls_terminate: "cs_term s = Idle \<Longrightarrow> cs_lock s = None \<Longrightarrow>
     cls_step env sg apps s (s\<lparr>cs_term := JoiningListener, cs_lock := Some ByTerminator, cs_cls := request_exit (cs_cls s)\<rparr>)"
| cls_join_listener: "cs_term s = JoiningListener \<Longrightarrow> cs_listener s = ListenerGone \<Longrightarrow>
     cls_step env sg apps s (s\<lparr>cs_term := JoiningWorker\<rparr>)"
| cls_join_worker: "cs_term s = JoiningWorker \<Longrightarrow> cs_worker s = WorkerGone \<Longrightarrow>
     cls_step env sg apps s (s\<lparr>cs_term := Returned, cs_lock := None\<rparr>)"

inductive cls_reach :: "server_env \<Rightarrow> signal_env \<Rightarrow> app_configs \<Rightarrow> cls_state \<Rightarrow> cls_state \<Rightarrow> bool" for env sg apps s0 where
  cls_start: "cls_reach env sg apps s0 s0"
| cls_more: "cls_reach env sg apps s0 s \<Longrightarrow> cls_step env sg apps s s' \<Longrightarrow> cls_reach env sg apps s0 s'"

definition cls_started :: "cls_state \<Rightarrow> bool" where
  "cls_started s \<longleftrightarrow> cls_inv (cs_cls s) \<and> \<not> mNeedExit (cs_cls s) \<and> cs_lock s = None \<and> cs_worker s = Waiting \<and> cs_term s = Idle \<and>
     unat (mClientTracker (cs_cls s)) \<le> cs_taken s"

section \<open>Invariants\<close>

inductive_cases cls_stepE: "cls_step env sg apps s s'"

lemma set_daemon_simps [simp]:
  "cs_cls (set_daemon sv s) = cs_cls s" "cs_lock (set_daemon sv s) = cs_lock s" "cs_worker (set_daemon sv s) = cs_worker s"
  "cs_listener (set_daemon sv s) = cs_listener s" "cs_term (set_daemon sv s) = cs_term s" "cs_taken (set_daemon sv s) = cs_taken s"
  "cs_system (set_daemon sv s) = ((sv, snd (fst (cs_system s))), snd (cs_system s))"
  by (simp_all add: set_daemon_def)

text \<open>Who holds the lock, and what it guards. The worker never ends.\<close>

definition lock_inv :: "cls_state \<Rightarrow> bool" where
  "lock_inv s \<longleftrightarrow>
     (case cs_worker s of
        Waiting \<Rightarrow> cs_lock s \<noteq> Some ByWorker
      | Busy p \<Rightarrow> cs_lock s = Some ByWorker \<and> (\<forall>cs c. runs p cs c \<longrightarrow> \<not> mNeedExit c)
      | WorkerGone \<Rightarrow> False) \<and>
     (cs_lock s = Some ByTerminator \<longleftrightarrow> cs_term s \<noteq> Idle) \<and> (mNeedExit (cs_cls s) \<longleftrightarrow> cs_term s \<noteq> Idle) \<and> cs_term s \<noteq> Returned"

lemma exit_simps [simp]:
  "mNeedExit (next_client c) = mNeedExit c" "mNeedExit (count_client n c) = mNeedExit c"
  "mNeedExit (fold trackClient hs c) = mNeedExit c"
  by (simp_all add: next_client_def count_client_def track_fold)

lemma runs_exit: "runs (ClassifierMain_event w ev c) cs c' \<Longrightarrow> mNeedExit c' = mNeedExit c"
proof -
  assume r: "runs (ClassifierMain_event w ev c) cs c'"
  let ?c = "c\<lparr>mIsPriorityClient := False\<rparr>"
  have "mNeedExit c' = mNeedExit c" if o: "runs (open_app w ev comm ?c) cs c'" for comm
  proof -
    obtain us c1 where start: "(if checkClientPriority comm ?c then ([], ?c\<lparr>mIsPriorityClient := True\<rparr>)
      else reShuffle (?c\<lparr>mIsPriorityClient := False\<rparr>)) = (us, c1)" by fastforce
    then have "mNeedExit c1 = mNeedExit c"
      by (auto simp: reShuffle_def split: if_splits list.splits prod.splits)
    with runs_open[OF o start] show ?thesis by auto
  qed
  with r show ?thesis
    by (auto simp: ClassifierMain_event_def Let_def split: if_splits option.splits)
qed

lemma accept_event_exit: "accept_event rc ev c = Some c' \<Longrightarrow> mNeedExit c' = mNeedExit c"
  by (auto simp: accept_event_def push_event_def Let_def split: if_splits)

lemma cls_step_lock: "cls_step env sg apps s s' \<Longrightarrow> lock_inv s \<Longrightarrow> lock_inv s'"
  by (erule cls_stepE)
    (auto simp: lock_inv_def request_exit_def accept_event_exit dest!: runs_exit split: worker_state.splits)

lemma cls_reach_lock: "cls_reach env sg apps s0 s \<Longrightarrow> cls_started s0 \<Longrightarrow> lock_inv s"
  by (induction rule: cls_reach.induct) (auto simp: cls_started_def lock_inv_def[of s0] intro: cls_step_lock)

text \<open>The invariant of the classifier, as long as the 64-bit counter of events has not wrapped.\<close>

definition data_inv :: "cls_state \<Rightarrow> bool" where
  "data_inv s \<longleftrightarrow> cls_inv (cs_cls s) \<and> unat (mClientTracker (cs_cls s)) \<le> cs_taken s \<and>
     (\<forall>p. cs_worker s = Busy p \<longrightarrow> prog_all (\<lambda>c. cls_inv c \<and> unat (mClientTracker c) \<le> cs_taken s) p)"

lemma cls_step_taken: "cls_step env sg apps s s' \<Longrightarrow> cs_taken s \<le> cs_taken s'"
  by (erule cls_stepE) auto

lemma cls_step_data:
  assumes step: "cls_step env sg apps s s'" and inv: "data_inv s" and apps: "apps_ready apps" and "cs_taken s' < 2 ^ 64"
  shows "data_inv s'"
  using step
proof cases
  case (cls_take ev rest w)
  let ?c = "(cs_cls s)\<lparr>mPendingEv := rest\<rparr>"
  have c: "cls_inv ?c" using inv cls_take(5) by (auto simp: data_inv_def cls_inv_def counts_inv_def client_ids_def)
  have t: "unat (mClientTracker ?c) \<le> cs_taken s" using inv by (simp add: data_inv_def)
  moreover have "cs_taken s < 2 ^ 64 - 1" using assms(4) cls_take(1) by simp
  ultimately have "mClientTracker ?c \<noteq> -1" by (auto simp: unsigned_minus_1_eq_mask mask_eq_exp_minus_1)
  from ClassifierMain_event_inv[OF c _ this, of w ev] apps cls_take(6) have
    "prog_all (\<lambda>c'. cls_inv c' \<and> unat (mClientTracker c') \<le> unat (mClientTracker ?c) + 1 \<and> mNeedExit c' = mNeedExit ?c)
       (ClassifierMain_event w ev ?c)" by simp
  then have "prog_all (\<lambda>c'. cls_inv c' \<and> unat (mClientTracker c') \<le> cs_taken s + 1) (ClassifierMain_event w ev ?c)"
    by (rule prog_all_mono) (use t in auto)
  with c t cls_take(1) show ?thesis by (simp add: data_inv_def)
next
  case (cls_accept rc ev c)
  with inv accept_event_ok[of "cs_cls s" rc ev] show ?thesis by (auto simp: data_inv_def)
next
  case cls_terminate
  with inv show ?thesis by (auto simp: data_inv_def request_exit_def cls_inv_def counts_inv_def client_ids_def)
qed (use inv in \<open>auto simp: data_inv_def\<close>)

lemma cls_reach_data:
  "cls_reach env sg apps s0 s \<Longrightarrow> cls_started s0 \<Longrightarrow> apps_ready apps \<Longrightarrow> cs_taken s < 2 ^ 64 \<Longrightarrow> data_inv s"
proof (induction rule: cls_reach.induct)
  case cls_start
  then show ?case by (simp add: cls_started_def data_inv_def)
next
  case (cls_more s s')
  then show ?case using cls_step_data[OF cls_more(2)] cls_step_taken[OF cls_more(2)] by simp
qed

lemma cls_step_daemon:
  assumes "cls_step env sg apps s s'" and inv: "daemon_inv env (daemon_of s)" and sg: "signals_ready sg"
  shows "daemon_inv env (daemon_of s')"
  using assms(1)
proof cases
  case (cls_daemon sys')
  with monitored_step_inv[OF cls_daemon(2) sg inv] show ?thesis by simp
next
  case (cls_untune handle p ar al block handle' sv)
  with untuneRequestHelper_ok[OF inv cls_untune(3), of handle] show ?thesis by auto
next
  case (cls_move moves pid tid f ar al block gen handle_opt gen' sv)
  with move_request_ok[OF inv cls_move(3), of moves pid tid] show ?thesis by auto
next
  case (cls_acquire sigId sigType pid tid g ar al block gen handle gen' sv)
  have "registry_usable (sg_registry sg)" using sg by (simp add: signals_ready_def)
  from acquireSignal_ok[OF inv this cls_acquire(3), of sigId sigType pid tid] cls_acquire show ?thesis by auto
next
  case (cls_delete pid p)
  have "clients_ok (deleteClientPID pid (sv_clients (daemon_of s)))"
    using daemon_clients_ok[OF inv] by (simp add: clients_ok_def deleteClientPID_def)
  from daemon_inv_clients[OF inv this] cls_delete show ?thesis by simp
qed (use inv in auto)

lemma cls_reach_daemon:
  "cls_reach env sg apps s0 s \<Longrightarrow> daemon_inv env (daemon_of s0) \<Longrightarrow> signals_ready sg \<Longrightarrow> daemon_inv env (daemon_of s)"
  by (induction rule: cls_reach.induct) (auto intro: cls_step_daemon)

text \<open>The next call of the worker and the queueing of an event are defined.\<close>

definition call_defined :: "server_env \<Rightarrow> signal_env \<Rightarrow> server \<Rightarrow> prog \<Rightarrow> bool" where
  "call_defined env sg sv p \<longleftrightarrow>
     (case p of
        Fault \<Rightarrow> False
      | UntuneReq handle q \<Rightarrow>
          (\<forall>ar al block handle'. signal_receivable ar ar al block handle' sv \<longrightarrow> untuneRequestHelper env ar block handle sv \<noteq> None)
      | MoveReq moves pid tid f \<Rightarrow>
          (\<forall>ar al block gen. acquirable ar al block 0 None 0 None gen sv \<longrightarrow> move_request env ar al block moves pid tid gen sv \<noteq> None)
      | AcquireSig sigId sigType pid tid g \<Rightarrow>
          (\<forall>ar al block gen. acquirable ar al block 0 None 0 None gen sv \<longrightarrow>
             acquireSignal env (sg_registry sg) ar al block sigId sigType pid tid 0 None 0 None gen sv \<noteq> None)
      | _ \<Rightarrow> True)"

lemma call_defined_ok:
  assumes inv: "daemon_inv env sv" and sg: "signals_ready sg" and p: "p \<noteq> Fault"
  shows "call_defined env sg sv p"
proof -
  have sr: "registry_usable (sg_registry sg)" using sg by (simp add: signals_ready_def)
  note ok = untuneRequestHelper_ok[OF inv] move_request_ok[OF inv] acquireSignal_ok[OF inv sr]
  show ?thesis using p
    by (cases p; unfold call_defined_def; simp; intro allI impI; insert ok; fastforce)
qed

lemma cls_calls_defined:
  assumes "cls_reach env sg apps s0 s" "cls_started s0" "daemon_inv env (daemon_of s0)" "signals_ready sg" "apps_ready apps"
    and "cs_taken s < 2 ^ 64"
  shows "(\<forall>p. cs_worker s = Busy p \<longrightarrow> call_defined env sg (daemon_of s) p) \<and> (\<forall>rc ev. accept_event rc ev (cs_cls s) \<noteq> None)"
proof (intro conjI allI impI)
  have d: "data_inv s" by (rule cls_reach_data[OF assms(1,2,5,6)])
  fix p assume "cs_worker s = Busy p"
  then have "p \<noteq> Fault" using d by (auto simp: data_inv_def)
  then show "call_defined env sg (daemon_of s) p" by (rule call_defined_ok[OF cls_reach_daemon[OF assms(1,3,4)] assms(4)])
next
  fix rc ev
  show "accept_event rc ev (cs_cls s) \<noteq> None"
    using accept_event_ok[of "cs_cls s" rc ev] cls_reach_data[OF assms(1,2,5,6)] by (auto simp: data_inv_def)
qed

end
