(* ===== verification/ClassifierSamples.thy ===== *)
theory ClassifierSamples
  imports ClassifierDaemon SignalSamples ServerSamples
begin

text \<open>
  A classifier that tracks one application, the start of a game while another application holds two
  handles, and a run of the threads up to the first call of the worker and to the end of the listener.
\<close>

definition sample_open :: ProcEvent where
  "sample_open = \<lparr>ev_pid = 500, ev_tgid = 501, ev_type = CC_APP_OPEN\<rparr>"

definition sample_surroundings :: surroundings where
  "sample_surroundings = \<lparr>w_proc = (\<lambda>_. Some (Some ''game'')), w_procs = None, w_alive = (\<lambda>_. True),
     w_classify = (\<lambda>_. CC_GAME), w_post = (\<lambda>_. False), w_apps = Map.empty\<rparr>"

definition sample_classifier :: classifier where
  "sample_classifier = loadStaticProcData None None (Some ''vmtouch, daemon'') (ContextualClassifier_init 2)"

text \<open>The classifier after an application that got the handles 7 and 8.\<close>

definition sample_occupied :: classifier where
  "sample_occupied = sample_classifier\<lparr>mClientTracker := 1, mActiveClientCount := 1, mCurrRestuneHandles := [(0, 7), (0, 8)]\<rparr>"

lemma sample_names: "mPriorityClients sample_classifier = {''vmtouch'', ''daemon''}"
  by code_simp

lemma sample_occupied_counts: "counts_inv sample_occupied"
  by (simp add: counts_inv_def client_ids_def sample_occupied_def sample_classifier_def loadStaticProcData_def
      ContextualClassifier_init_def ACCEPT_AND_PERSIST_def Let_def)

lemma sample_comm: "fetchComm (w_proc sample_surroundings (ev_pid sample_open)) = Some ''game''"
  by code_simp

lemma sample_full: "full sample_occupied \<and> ''game'' \<notin> mPriorityClients sample_occupied"
  by code_simp

definition sample_calls :: "call list" where
  "sample_calls = [Untuned 7, Untuned 8, Moved [(4, 500)] 500 501 (Some 21), Acquired 0x00020003 0 500 501 22]"

lemma sample_open_run: "\<exists>c. runs (ClassifierMain_event sample_surroundings sample_open sample_occupied) sample_calls c"
proof -
  have s: "reShuffle (sample_occupied\<lparr>mIsPriorityClient := False\<rparr>) =
      ([7, 8], sample_occupied\<lparr>mIsPriorityClient := False, mCurrRestuneHandles := [], mActiveClientCount := 0\<rparr>)"
    by (simp add: reShuffle_def sample_occupied_def sample_classifier_def loadStaticProcData_def
        ContextualClassifier_init_def ACCEPT_AND_PERSIST_def Let_def)
  have o: "ClassifierMain_event sample_surroundings sample_open sample_occupied =
      open_app sample_surroundings sample_open ''game'' (sample_occupied\<lparr>mIsPriorityClient := False\<rparr>)"
    using sample_comm by (simp add: ClassifierMain_event_def sample_open_def)
  have "checkClientPriority ''game'' (sample_occupied\<lparr>mIsPriorityClient := False\<rparr>) = False"
    using sample_full by (simp add: checkClientPriority_def)
  then show ?thesis unfolding o
    by (simp add: open_app_def Let_def s MoveAppThreadsToCGroup_def app_moves_def configureAppSignals_def app_codes_def apply_workload_def
        getAppConfig_def sample_surroundings_def sample_open_def sample_calls_def ClassifyProcess_def GetSignalIDForWorkload_def
        FOCUSED_CGROUP_IDENTIFIER_def CC_IGNORE_def CC_GAME_def CC_MULTIMEDIA_def URM_SIG_GAME_APP_OPEN_def DEFAULT_SIGNAL_TYPE_def)
qed

section \<open>The threads\<close>

definition sample_cls_state :: cls_state where
  "sample_cls_state = \<lparr>cs_system = ((sample_server, []), []), cs_cls = sample_classifier, cs_lock = None, cs_worker = Waiting,
     cs_listener = Listening, cs_term = Idle, cs_taken = 0\<rparr>"

lemma sample_cls_started: "cls_started sample_cls_state"
proof -
  have "cls_inv sample_classifier" unfolding sample_classifier_def by (rule cls_inv_init)
  then show ?thesis
    by (simp add: cls_started_def sample_cls_state_def sample_classifier_def loadStaticProcData_def ContextualClassifier_init_def Let_def)
qed

lemma sample_apps: "apps_ready Map.empty"
  by (simp add: apps_ready_def)

lemma sample_listen:
  "listen_event CC_APP_OPEN False sample_open True None (Some (Some ''game'')) sample_classifier = Accepted"
  by code_simp

lemma sample_accept:
  "map_option mPendingEv (accept_event CC_APP_OPEN sample_open sample_classifier) = Some [sample_open]"
  by code_simp

text \<open>An event is accepted and taken: the worker is about to make its first call.\<close>

lemma sample_taken:
  "\<exists>s p. cls_reach sample_server_env sample_signal_env Map.empty sample_cls_state s \<and> cs_worker s = Busy p \<and>
     p = ClassifierMain_event sample_surroundings sample_open (cs_cls s) \<and> cs_taken s = 1"
proof -
  let ?step = "cls_step sample_server_env sample_signal_env Map.empty"
  let ?s1 = "sample_cls_state\<lparr>cs_listener := Wanting CC_APP_OPEN sample_open\<rparr>"
  have "?step sample_cls_state (sample_cls_state\<lparr>cs_listener :=
      (case Accepted of Ignored \<Rightarrow> Listening | Accepted \<Rightarrow> Wanting CC_APP_OPEN sample_open | Failed \<Rightarrow> ListenerGone)\<rparr>)"
    using sample_cls_started sample_listen
    by (intro cls_listen[of _ CC_APP_OPEN False sample_open True None "Some (Some ''game'')"])
      (simp_all add: sample_cls_state_def cls_started_def)
  then have 1: "?step sample_cls_state ?s1" by simp
  obtain c where c: "accept_event CC_APP_OPEN sample_open sample_classifier = Some c" "mPendingEv c = [sample_open]"
    using sample_accept by auto
  let ?s2 = "?s1\<lparr>cs_listener := Listening, cs_cls := c\<rparr>"
  have 2: "?step ?s1 ?s2" using c(1) by (intro cls_accept[of _ CC_APP_OPEN sample_open]) (simp_all add: sample_cls_state_def)
  let ?c = "c\<lparr>mPendingEv := []\<rparr>"
  let ?s3 = "?s2\<lparr>cs_lock := Some ByWorker, cs_cls := (cs_cls ?s2)\<lparr>mPendingEv := []\<rparr>, cs_taken := cs_taken ?s2 + 1,
       cs_worker := Busy (ClassifierMain_event sample_surroundings sample_open ((cs_cls ?s2)\<lparr>mPendingEv := []\<rparr>))\<rparr>"
  have "mNeedExit c = mNeedExit sample_classifier" by (rule accept_event_exit[OF c(1)])
  then have "\<not> mNeedExit c" using sample_cls_started by (simp add: cls_started_def sample_cls_state_def)
  then have 3: "?step ?s2 ?s3"
    by (intro cls_take) (simp_all add: sample_cls_state_def c(2) sample_surroundings_def)
  have "cls_reach sample_server_env sample_signal_env Map.empty sample_cls_state ?s3"
    by (rule cls_more[OF cls_more[OF cls_more[OF cls_start 1] 2] 3])
  then show ?thesis by (intro exI[of _ ?s3] exI) (auto simp: sample_cls_state_def)
qed

text \<open>The classifier is terminated and its listener ends.\<close>

lemma sample_terminating:
  "\<exists>s. cls_reach sample_server_env sample_signal_env Map.empty sample_cls_state s \<and> cs_term s = JoiningWorker"
proof -
  let ?step = "cls_step sample_server_env sample_signal_env Map.empty"
  let ?s1 = "sample_cls_state\<lparr>cs_term := JoiningListener, cs_lock := Some ByTerminator,
      cs_cls := request_exit (cs_cls sample_cls_state)\<rparr>"
  have 1: "?step sample_cls_state ?s1" by (rule cls_terminate) (simp_all add: sample_cls_state_def)
  let ?s2 = "?s1\<lparr>cs_listener := ListenerGone\<rparr>"
  have 2: "?step ?s1 ?s2" by (rule cls_listener_exit) (simp_all add: sample_cls_state_def request_exit_def)
  have 3: "?step ?s2 (?s2\<lparr>cs_term := JoiningWorker\<rparr>)" by (rule cls_join_listener) simp_all
  have "cls_reach sample_server_env sample_signal_env Map.empty sample_cls_state (?s2\<lparr>cs_term := JoiningWorker\<rparr>)"
    by (rule cls_more[OF cls_more[OF cls_more[OF cls_start 1] 2] 3])
  then show ?thesis by (intro exI[of _ "?s2\<lparr>cs_term := JoiningWorker\<rparr>"]) simp
qed

end
