(* ===== verification/Spec2Isabelle.thy ===== *)
theory Spec2Isabelle
  imports ConfigSamples Properties ResourcePaths SafeOps Message Resource DLManager Wire Request ClientAPI ResourceRegistry
    CocoTable CocoReach ClientData AuxRoutines Files Target ServerReach Samples ServerSamples DeviceSamples PlatformSamples ClientCLI Startup
    Failures ClassifierSamples
begin

text \<open>
  The userspace resource manager (\<^verbatim>\<open>urm\<close>) is a daemon that lets client processes tune the
  device: a client asks for values of resources (clock floors, scheduler knobs, cgroup settings) for
  a duration, the daemon arbitrates between the requests of all clients and writes the winning values
  to the kernel's files, and restores the defaults when requests end. This development models the
  C++ of the daemon and its client library at the level of single operations and proves what makes
  the parts, and the daemon as a whole, correct.

  \<^bold>\<open>The way of a request.\<close> A client calls \<^verbatim>\<open>tuneResources\<close> (\<open>ClientAPI\<close>), which packs the request into a
  message of 580 bytes (\<open>Wire\<close>). The daemon decodes it into a request whose resources are nodes of an
  intrusive list (\<open>Request\<close>, \<open>Resource\<close>, \<open>Message\<close>, \<open>DLManager\<close>), checks client, rate, priority, values and
  duplicates (\<open>RequestHandler\<close>, \<open>ClientData\<close>, \<open>RequestManager\<close>), maps logical cores and clusters to physical
  ones (\<open>Target\<close>), and queues it by priority (\<open>OrderedQueue\<close>). The consumer (\<open>RequestQueue\<close>) enters it in the
  concurrency table (\<open>CocoTable\<close>), which keeps one list per resource instance and priority and applies
  the best entry according to the configuration of the resource (\<open>ResourceRegistry\<close>). A timer or an
  untune request removes it again.

  \<^bold>\<open>Signals and configuration.\<close> A signal (\<open>SignalHandler\<close>) names a configuration of the registry of signals
  (\<open>Signals\<close>) and becomes a request for the resources configured there, with its arguments in the place of
  the placeholders. What resources, signals, properties, features and applications there are comes from YAML
  files, which the parser (\<open>RestuneParser\<close>) turns into calls of the builders and registries (\<open>ResourceRegistry\<close>,
  \<open>ResourcePaths\<close>, \<open>Target\<close>, \<open>Signals\<close>, \<open>Properties\<close>, \<open>ExtFeatures\<close>). Clients query properties over the same
  socket.

  \<^bold>\<open>Theories.\<close>
  \<^item> \<open>Prelude\<close>: machine integers by width, error codes and enumerations (\<^verbatim>\<open>ErrCodes.h\<close>,
    \<^verbatim>\<open>UrmPlatformAL.h\<close>), shared lemmas.
  \<^item> \<open>SafeOps\<close>: \<^verbatim>\<open>modula/Components/Include/SafeOps.h\<close>, with undefined overflow as \<^const>\<open>None\<close>.
  \<^item> \<open>Message\<close>, \<open>Resource\<close>, \<open>Request\<close>: \<^verbatim>\<open>modula/Common\<close>; bits of the packed words, the union of
    resource values, deserialization.
  \<^item> \<open>DLManager\<close>: the lists of \<^verbatim>\<open>DLManager.cpp\<close> on a heap of nodes with two pairs of links,
    with a representation predicate and one refinement lemma per operation.
  \<^item> \<open>Wire\<close>, \<open>ClientAPI\<close>: encoding and decoding, and \<^verbatim>\<open>client/APIs/UrmAPIs.cpp\<close>.
  \<^item> \<open>ClientCLI\<close>: the command line client, \<^verbatim>\<open>client/ClientCLI.cpp\<close>, from its options to the message.
  \<^item> \<open>Strings\<close>, \<open>Files\<close>, \<open>AuxRoutines\<close>: \<^verbatim>\<open>AuxRoutines.cpp\<close>: number conversions, files of a modelled
    file system, handles and the cache of untuned handles.
  \<^item> \<open>ResourceRegistry\<close>, \<open>Target\<close>: \<^verbatim>\<open>ResourceRegistry.cpp\<close> and \<^verbatim>\<open>TargetRegistry.cpp\<close>.
  \<^item> \<open>ResourcePaths\<close>: paths with wildcards, and the restoration of the defaults, both of \<^verbatim>\<open>ResourceRegistry.cpp\<close>.
  \<^item> \<open>Stores\<close>: the contract of the registries that are filled entry by entry, as locales; \<open>Properties\<close> and
    \<open>Signals\<close> interpret them.
  \<^item> \<open>Properties\<close>: \<^verbatim>\<open>PropertiesRegistry.cpp\<close>, \<^verbatim>\<open>forwardMessage\<close> of \<^verbatim>\<open>RequestReceiver.cpp\<close>, and \<^verbatim>\<open>getProp\<close> of
    the client.
  \<^item> \<open>ConfigValues\<close>: the conversions the builders of signals use, and the names of the resource codes.
  \<^item> \<open>Signals\<close>, \<open>ExtFeatures\<close>: \<^verbatim>\<open>SignalRegistry.cpp\<close>; \<^verbatim>\<open>ExtFeaturesRegistry.cpp\<close>, \<^verbatim>\<open>ExtFeatureMapper.cpp\<close>
    and \<^verbatim>\<open>AppConfigs.cpp\<close>.
  \<^item> \<open>CocoTable\<close>, \<open>CocoReach\<close>: \<^verbatim>\<open>CocoTable.cpp\<close>; every operation keeps \<open>coco_inv\<close>, and \<open>sys_inv\<close> ties
    the lists to the active requests.
  \<^item> \<open>ResourceHooks\<close>, \<open>DeviceEffect\<close>: \<^verbatim>\<open>ResourceHooks.cpp\<close>, the callbacks that write to the files of the kernel
    and restore the defaults; and that the calls of the concurrency table, played on a device, leave the
    value in effect in the file.
  \<^item> \<open>ClientData\<close>: \<^verbatim>\<open>ClientDataManager.cpp\<close> and \<^verbatim>\<open>RateLimiter.cpp\<close>.
  \<^item> \<open>RequestManager\<close>, \<open>OrderedQueue\<close>, \<open>RequestHandler\<close>, \<open>RequestQueue\<close>: the files of these names. The state of
    the daemon is the record \<open>server\<close>.
  \<^item> \<open>ServerInv\<close>, \<open>ServerArrival\<close>, \<open>ServerReach\<close>: the invariant of the daemon, which says where each request
    object is held, and its preservation by the rounds of the consumer, by arrivals and by timers. \<open>Failures\<close>: the cases in which
    the daemon breaks.
  \<^item> \<open>SignalHandler\<close>: \<^verbatim>\<open>SignalHandler.cpp\<close>; what is built from a signal, and the system of the daemon with
    signals (\<open>system_step\<close>), which keeps the invariant of the daemon.
  \<^item> \<open>Liveness\<close>: \<^verbatim>\<open>PulseMonitor.cpp\<close> and \<^verbatim>\<open>ClientGarbageCollector.cpp\<close>; dead clients, the clean-up of what
    they left, and the system with these recurring tasks (\<open>monitored_step\<close>).
  \<^item> \<open>Classifier\<close>, \<open>ClassifierDaemon\<close>: \<^verbatim>\<open>ContextualClassifier.cpp\<close>; the handling of a process event as a program of
    calls into the daemon, and the threads of the classifier with the lock they share (\<open>cls_step\<close>), on top of
    \<open>monitored_step\<close>.
  \<^item> \<open>LinkedQueue\<close>, \<open>MemoryPool\<close>, \<open>ThreadPool\<close>: the queue of linked nodes as a locale, and its instances in
    \<^verbatim>\<open>MemoryPool.cpp\<close>, \<^verbatim>\<open>ThreadPool.cpp\<close> and \<^verbatim>\<open>Timer.cpp\<close>. What these promise, blocks that are not in use
    and timers that start, is what the other theories take as their parameters.
  \<^item> \<open>RestuneParser\<close>: \<^verbatim>\<open>RestuneParser.cpp\<close>, one step function per loop over the events of libyaml.
  \<^item> \<open>ParserReference\<close>, \<open>SignalFile\<close>, \<open>ConfiguredSignals\<close>: documents as data, what reading them should do, and that
    the loops do it; the registry of signals that results is one \<open>SignalHandler\<close> can rely on.
  \<^item> \<open>Startup\<close>: \<^verbatim>\<open>Extensions.cpp\<close> and the part of \<^verbatim>\<open>RestuneInit.cpp\<close> that reads the files of each kind in order
    of precedence, the settings of the daemon and the name of the machine.
  \<^item> \<open>Samples\<close>, \<open>ServerSamples\<close>, \<open>SignalSamples\<close>, \<open>ConfigSamples\<close>, \<open>DeviceSamples\<close>, \<open>PlatformSamples\<close>,
    \<open>ClassifierSamples\<close>: a small configuration on which the properties are evaluated.

  \<^bold>\<open>Conventions.\<close> An operation that meets a null or dangling pointer, an index out of range, or
  undefined arithmetic is \<^const>\<open>None\<close>; so that an operation returns is always a statement of its
  own. Blocks of the pools, the clock, the scheduler, \<^verbatim>\<open>/proc\<close> and the kernel's files are arguments
  (\<open>alloc_source\<close>, \<open>arrival\<close>, \<open>choice\<close>, \<open>world\<close>). An operation that runs under
  the lock of its component is one step, and the interleavings are those of the steps
  (\<open>coco_step\<close>, \<open>daemon_step\<close>). A message is one step from its bytes to the queue, and the clean-up of a dead client is one step, although the
  code holds no lock all the way; races between two messages, or between a clean-up and the consumer, are
  not covered. Only the lock of the classifier, which is held over many calls, is part of a state. Loops over lists are \<^theory_text>\<open>partial_function (option)\<close> or recursion on data;
  no fuel is used;
  the loops of the parser run over the list of events that libyaml delivers. The consumer's loop takes an item in each round (\<open>consumer_round\<close>) and is shown to end in \<open>queue_drained\<close>.

  \<^bold>\<open>What is shown.\<close> Below the parts: lists refine HOL lists, accessors of packed words are independent, safe
  arithmetic is exact or clamped, messages decode to what was encoded. Of the registries: they are maps from
  keys to the last admissible entry. Of the concurrency table: the value in effect is a best claim of the
  highest priority, and the file of a system-wide resource holds it. Of the pools: while reservations are granted in full, blocks in use are not handed
  out again, and tasks run in the order of their acceptance. Of the daemon: the invariant \<open>daemon_inv\<close> holds in every state reached by
  messages, signals, timers and rounds of the consumer in any order, each taken as one whole step, while the timers of inserted
  requests start. What comes next is then defined, with the exception, stated exactly, of a round that takes a retune of a request in the
  table that has no timer (\<open>daemon_no_fault\<close>). Two further errors of the code are kept out of these steps and shown on their own: what a failed start
  of a timer leaves behind (\<open>failed_start_dangles\<close>), and the read of a freed node in the clean-up of requests
  (\<open>release_reads_freed\<close>), for which the steps rely on the pools leaving a returned block as it is. Of the classifier: it tracks a bounded
  number of applications and untunes the oldest first, but its termination deadlocks. Of the
  parser: each loop is run against a description of the documents it accepts, and equals a reference that
  builds every entry by itself; and of several files the last one decides. Of the client: what a user
  types arrives. Hypotheses on the surroundings, such as fresh addresses from the pools and
  handles that are not in use, are the predicates \<open>receivable\<close>, \<open>signal_receivable\<close> and \<open>acquirable\<close>; samples
  show that they can hold.

  \<^bold>\<open>Not modelled.\<close> Sockets, the threads and clocks of the operating system, the D-Bus modules and the logger are
  input, output or scheduling, and appear only as parameters. What the command line client prints, and of
  \<^verbatim>\<open>RestuneInit.cpp\<close> the logger, the preallocation, the loading of libraries and the start of the threads, are left out,
  as are the board specific callbacks of the plugins, and what the classifier feeds to
  its model (regular expressions over texts of \<^verbatim>\<open>/proc\<close>) with that model; the callbacks of extensions are parameters. Destructors of singletons and
  the functions that only display their state are not modelled.
\<close>

section \<open>Arbitration of resources\<close>

text \<open>C1: In every state of the concurrency table that insertions, removals and changes of duration reach, what is in effect on a
  resource that is arbitrated system-wide is decided by the active requests alone. Without a claim nothing is in effect;
  otherwise it is a claim of the highest priority, and by the resource's policy no other claim of that
  priority has a better value. A request is active from its insertion to its removal, one whose timer could not be
  started included, since its nodes stay in the lists; that the nodes of active requests are not freed is part of the steps.\<close>

theorem coco_arbitration:
  assumes "good_env env"
    and "coco_reach env (CocoTable_init (ce_registry env) clusterIDs cgroupIDs cores clusters cgroups h, []) (st, A)"
    and "getResConf (ce_registry env) k = Some c" "managed env c"
  shows "case in_effect k (c_trace st) of
      None \<Rightarrow> \<forall>prio r. \<not> claim st A k prio r
    | Some r \<Rightarrow> \<exists>prio. claim st A k prio r \<and>
        (\<forall>prio' r'. claim st A k prio' r' \<longrightarrow> prio \<le> prio' \<and> (prio' = prio \<longrightarrow> unbeaten (mPolicy c) r r'))"
proof -
  have "sys_inv env (CocoTable_init (ce_registry env) clusterIDs cgroupIDs cores clusters cgroups h, []) (\<lambda>_ _. [])"
    using assms(1) CocoTable_init_inv by (auto simp: sys_inv_def good_env_def)
  then obtain L where "sys_inv env (st, A) L" using coco_reach_inv[OF assms(2,1)] by blast
  then show ?thesis by (rule sys_arbitration[OF assms(1) _ assms(3,4)])
qed

theorem coco_arbitration_witness:
  "\<exists>st r1 r2 prio. claim st [(r2, [1]), (r1, [2])] sample_code prio (sample_resource 300) \<and>
     (\<forall>prio' r'. claim st [(r2, [1]), (r1, [2])] sample_code prio' r' \<longrightarrow> prio \<le> prio')"
proof -
  obtain r1 r2 st where r: "coco_reach sample_env (sample_state, []) (st, [(r2, [1]), (r1, [2])])"
    "in_effect sample_code (c_trace st) = Some (sample_resource 300)" using sample_reach by blast
  from r(1) have "coco_reach sample_env (CocoTable_init (ce_registry sample_env) [0] [] 4 1 0 sample_heap, [])
      (st, [(r2, [1]), (r1, [2])])" by (simp add: sample_state_def sample_env_def)
  from coco_arbitration[OF sample_env_good this sample_managed] r(2) obtain prio where
    "claim st [(r2, [1]), (r1, [2])] sample_code prio (sample_resource 300)"
    "\<And>prio' r'. claim st [(r2, [1]), (r1, [2])] sample_code prio' r' \<Longrightarrow> prio \<le> prio'" by auto
  then show ?thesis by blast
qed



text \<open>C3: A tune request whose nodes are in no list of the table is inserted, and its removal afterwards
  restores every list of the table, and what is in effect on every resource that is arbitrated system-wide. Of what is in effect on
  resources of a core, a cluster or a control group it says nothing: the priority applied is kept per
  resource and not per instance there, which is one of the recorded errors.\<close>

theorem tune_untune:
  assumes "good_env env" "coco_inv env st L" "request_nodes st req xs" "\<forall>n\<in>set xs. outside st L n"
    and "getDuration req = -1 \<or> timer_block \<noteq> None"
  shows "\<exists>b req' st1 st2. insertRequest env timer_block start_ok (Some req) st = Some (b, Some req', st1) \<and>
    CocoTable.removeRequest env (Some req') st1 = Some (0, st2) \<and>
    (\<forall>p s. valid_cell st p s \<longrightarrow> dl_list (c_heap st2) (cell st2 p s) (L p s)) \<and>
    (\<forall>k c. getResConf (ce_registry env) k = Some c \<longrightarrow> managed env c \<longrightarrow>
       in_effect k (c_trace st2) = in_effect k (c_trace st))"
  by (rule tune_untune_restores[OF assms])

theorem tune_untune_witness:
  "\<exists>b req' st1 st2.
    insertRequest sample_env None True (Some (sample_request 1 2)) sample_state = Some (b, Some req', st1) \<and>
    CocoTable.removeRequest sample_env (Some req') st1 = Some (0, st2) \<and> in_effect sample_code (c_trace st2) = None"
  using tune_untune[OF sample_env_good sample_state_inv sample_low_nodes, of None True] sample_managed
  by (simp add: outside_def sample_request_def getDuration_def) (fastforce simp: sample_state_def CocoTable_init_def)

text \<open>C4: From every state the table reaches while the nodes of active requests stay allocated, inserting a request of fresh
  nodes and removing an active one return, whether the timer starts or not: no null or dangling pointer is followed, no index
  is out of range, no loop runs on. That the nodes stay allocated is up to the callers, and the daemon breaks it after a failed start
  of a timer (\<open>failed_start_dangles\<close>).\<close>

theorem coco_safe:
  assumes "good_env env"
    and "coco_reach env (CocoTable_init (ce_registry env) clusterIDs cgroupIDs cores clusters cgroups h, []) (st, A)"
  shows "(\<forall>req xs. request_nodes st req xs \<longrightarrow> set xs \<inter> set (active_nodes A) = {} \<longrightarrow>
       insertRequest env timer_block start_ok (Some req) st \<noteq> None) \<and>
     (\<forall>(req, xs)\<in>set A. CocoTable.removeRequest env (Some req) st \<noteq> None)"
proof -
  have "sys_inv env (CocoTable_init (ce_registry env) clusterIDs cgroupIDs cores clusters cgroups h, []) (\<lambda>_ _. [])"
    using assms(1) CocoTable_init_inv by (auto simp: sys_inv_def good_env_def)
  then obtain L where "sys_inv env (st, A) L" using coco_reach_inv[OF assms(2,1)] by blast
  then show ?thesis using sys_inv_defined[OF assms(1)] by blast
qed

theorem coco_safe_witness:
  "\<exists>st r1 r2. (\<forall>(req, xs)\<in>set [(r2, [1 :: nat]), (r1, [2])]. CocoTable.removeRequest sample_env (Some req) st \<noteq> None)"
proof -
  obtain r1 r2 st where r: "coco_reach sample_env (sample_state, []) (st, [(r2, [1]), (r1, [2])])"
    using sample_reach by blast
  from r(1) have "coco_reach sample_env (CocoTable_init (ce_registry sample_env) [0] [] 4 1 0 sample_heap, [])
      (st, [(r2, [1]), (r1, [2])])" by (simp add: sample_state_def sample_env_def)
  from coco_safe[OF sample_env_good this] show ?thesis by blast
qed

section \<open>From the client to the server\<close>

text \<open>C5: A tune request that leaves the client library is decoded by the server to the arguments of
  the call: header fields, and the resources in order with their code, scope and all their values.\<close>

theorem tune_roundtrip:
  assumes "tuneResources nt batch pid tid duration properties numRes resourceList = Some (ret, Some buf)"
    and "alloc_ok al [0..<nat (sint numRes)] A h" "mResourceList req = None"
  shows "\<exists>h' req' rs. resourceList = Some rs \<and> Request_deserialize al buf h req = Some (RC_SUCCESS, h', req') \<and>
    mReqType req' = REQ_RESOURCE_TUNING \<and> message.mDuration req' = duration \<and> mProperties req' = properties \<and>
    mClientPID req' = pid \<and> mClientTID req' = tid \<and>
    req_list h' req' (map A [0..<nat (sint numRes)]) \<and>
    list_all2 (stored h') (map A [0..<nat (sint numRes)]) (map wire_of (take (nat (sint numRes)) rs))"
  by (rule tune_roundtrip_lemma[OF assms])

theorem tune_roundtrip_witness:
  "\<exists>buf h' req'. tuneResources sample_net FlatBuffEncoder_init 100 101 5000 1 2
       (Some sample_sys_resources) = Some (7, Some buf) \<and>
     Request_deserialize sample_alloc buf Map.empty (Request_init (sample_request 0 0)) = Some (RC_SUCCESS, h', req') \<and>
     message.mDuration req' = 5000 \<and> req_list h' req' [10, 11]"
proof -
  obtain buf where b: "tuneResources sample_net FlatBuffEncoder_init 100 101 5000 1 2
       (Some sample_sys_resources) = Some (7, Some buf)"
    using sample_tune_sends by blast
  have "alloc_ok sample_alloc [0..<nat (sint (2 :: i32))] (\<lambda>i. 10 + i) Map.empty" by (rule sample_alloc_ok)
  from tune_roundtrip[OF b this, of "Request_init (sample_request 0 0)"] b show ?thesis
    by (simp add: Request_init_def upt_rec) blast
qed

text \<open>C6: Every call of \<^verbatim>\<open>tuneResources\<close> with valid arguments that fit the message buffer sends a
  message and answers with the handle the server replies.\<close>

theorem tune_sends:
  assumes "0 < sint numRes" "sint numRes \<le> maxResPerReq" "nat (sint numRes) \<le> length rs"
    and "sint duration = -1 \<or> 0 < sint duration" "0 \<le> sint properties"
    and "\<forall>r\<in>set (take (nat (sint numRes)) rs). sys_readable r"
    and "int (tune_size (take (nat (sint numRes)) rs)) < REQ_BUFFER_SIZE" "sendMsgHelper nt"
  shows "\<exists>buf. tuneResources nt batch pid tid duration properties numRes (Some rs) =
    Some (readHandleHelper nt, Some buf)"
  by (rule tuneResources_sends[OF assms])

theorem tune_sends_witness:
  "\<exists>buf. tuneResources sample_net FlatBuffEncoder_init 1 2 (-1) 0 1 (Some sample_sys_resources) =
     Some (readHandleHelper sample_net, Some buf)"
  by (rule tune_sends) (simp_all add: sample_sys_resources_def sample_net_def sys_readable_def sys_valid_def
      sys_values_def tune_size_def REQ_BUFFER_SIZE_def maxResPerReq_def sendMsgHelper_def res_image_def wire_of_def sample_code_def)

text \<open>Retune and untune messages are decoded to a request of their type with the handle and duration
  of the call and no resources.\<close>

theorem retune_untune_roundtrip:
  "(\<forall>ret buf. retuneResources nt batch pid tid handle duration = Some (ret, Some buf) \<longrightarrow>
     Request_deserialize al buf h req = Some (RC_SUCCESS, h, req\<lparr>mReqType := REQ_RESOURCE_RETUNING,
       mHandle := handle, message.mDuration := duration, mProperties := 0, mClientPID := pid, mClientTID := tid\<rparr>)) \<and>
   (\<forall>ret buf. untuneResources nt batch pid tid handle = Some (ret, Some buf) \<longrightarrow>
     Request_deserialize al buf h req = Some (RC_SUCCESS, h, req\<lparr>mReqType := REQ_RESOURCE_UNTUNING,
       mHandle := handle, message.mDuration := -1, mProperties := 0, mClientPID := pid, mClientTID := tid\<rparr>))"
  using short_request_roundtrip[of nt REQ_RESOURCE_RETUNING handle duration pid tid batch _ _ al h req]
    short_request_roundtrip[of nt REQ_RESOURCE_UNTUNING handle "-1" pid tid batch _ _ al h req]
  by (auto simp: retuneResources_def untuneResources_def split: if_splits)

theorem retune_untune_roundtrip_witness:
  "\<exists>buf. retuneResources sample_net FlatBuffEncoder_init 1 2 9 500 = Some (0, Some buf) \<and>
     Request_deserialize sample_alloc buf Map.empty (sample_request 0 0) =
       Some (RC_SUCCESS, Map.empty, (sample_request 0 0)\<lparr>mReqType := REQ_RESOURCE_RETUNING, mHandle := 9,
         message.mDuration := 500, mProperties := 0, mClientPID := 1, mClientTID := 2\<rparr>)"
proof -
  obtain buf where "retuneResources sample_net FlatBuffEncoder_init 1 2 9 500 = Some (0, Some buf)"
    using transmit_chunks_fit[of "header_chunks REQ_RESOURCE_RETUNING 9 500 0 0 1 2" sample_net 0]
    by (auto simp: retuneResources_def header_chunks_def REQ_BUFFER_SIZE_def sample_net_def sendMsgHelper_def)
  with retune_untune_roundtrip[of sample_net FlatBuffEncoder_init 1 2 9 500] show ?thesis by blast
qed

text \<open>C7: A signal that leaves the client is decoded to its code, type, duration, both strings, properties,
  sender and all its arguments, when the strings hold no zero byte.\<close>

theorem signal_roundtrip:
  assumes "tuneSignal nt batch pid tid sigId sigType duration properties app scn numArgs lst = Some (ret, Some buf)"
    and "0 \<notin> set app" "0 \<notin> set scn"
  shows "\<exists>args. signal_args numArgs lst = Some args \<and> Signal_deserialize True buf sig = Some (RC_SUCCESS,
    sig\<lparr>mReqType := REQ_SIGNAL_TUNING, mSignalCode := sigId, mSignalType := sigType, mHandle := 0,
        message.mDuration := duration, Request.mAppName := app, mScenario := scn, mNumArgs := numArgs, mProperties := properties,
        mClientPID := pid, mClientTID := tid, mListArgs := Some args\<rparr>)"
  using assms encode_signal_roundtrip[OF _ assms(2,3)] by (auto simp: tuneSignal_def split: if_splits)

theorem signal_roundtrip_witness:
  "\<exists>buf sig. tuneSignal sample_net FlatBuffEncoder_init 1 2 65537 3 1000 0 [97] [98, 99] 1 (Some [42]) =
       Some (7, Some buf) \<and>
     Signal_deserialize True buf sample_signal = Some (RC_SUCCESS, sig) \<and> Request.mAppName sig = [97] \<and>
     mScenario sig = [98, 99] \<and> mListArgs sig = Some [42]"
proof -
  obtain buf where b: "tuneSignal sample_net FlatBuffEncoder_init 1 2 65537 3 1000 0 [97] [98, 99] 1 (Some [42]) =
       Some (7, Some buf)"
    using transmit_chunks_fit[of "signal_chunks REQ_SIGNAL_TUNING 65537 3 0 1000 [97] [98, 99] 1 0 1 2 [42]" sample_net 7]
    by (auto simp: tuneSignal_def encode_signal_def signal_args_def signal_chunks_def REQ_BUFFER_SIZE_def sample_handle
        sendMsgHelper_def sample_net_def[THEN arg_cong, of conn_ok] sample_net_def[THEN arg_cong, of send_ok])
  from signal_roundtrip[OF b, of sample_signal] b show ?thesis by (auto simp: signal_args_def)
qed

text \<open>C8: A tune command given to the command line client, with its resources separated by semicolons, the values of one
  resource by commas, all numbers decimal and the codes of the resources distinct, is decoded by the server to its duration, the
  priority cut to 0 or 1, the sender, and these resources with their scope and values, in the order in which the hash table of
  the client holds them.\<close>

theorem cli_tune_roundtrip:
  assumes "cli_ok rs" "int_range duration" "int_range priority" "int_range num"
    and "duration = -1 \<or> 0 < duration" "priority \<noteq> -1" "int (length rs) \<le> num" "0 < num"
    and "mset (ce_iter ce rs) = mset rs"
    and "cli_main ce (tune_options duration priority num rs) = Value (Api (Some (ret, Some buf)))"
    and "alloc_ok al [0..<length rs] A h" "mResourceList req = None"
  shows "\<exists>h' req'. Request_deserialize al buf h req = Some (RC_SUCCESS, h', req') \<and> mReqType req' = REQ_RESOURCE_TUNING \<and>
    message.mDuration req' = word_of_int duration \<and> mProperties req' = bound_priority (word_of_int priority) \<and>
    mClientPID req' = ce_pid ce \<and> mClientTID req' = ce_tid ce \<and>
    req_list h' req' (map A [0..<length rs]) \<and> list_all2 (stored h') (map A [0..<length rs]) (map cli_wire (ce_iter ce rs))"
  by (rule cli_tune_decoded[OF assms])

theorem cli_tune_roundtrip_witness:
  "\<exists>buf h' req'. cli_main sample_cli_env [(CHR ''t'', []), (CHR ''d'', ''5000''), (CHR ''p'', ''3''), (CHR ''n'', ''2''),
       (CHR ''l'', ''196608:300;65538:1,2,3'')] = Value (Api (Some (7, Some buf))) \<and>
     Request_deserialize sample_alloc buf Map.empty (Request_init (sample_request 0 0)) = Some (RC_SUCCESS, h', req') \<and>
     message.mDuration req' = 5000 \<and> mProperties req' = 1 \<and> req_list h' req' [10, 11]"
proof -
  obtain buf where b: "cli_main sample_cli_env (tune_options 5000 3 2 sample_cli_resources) = Value (Api (Some (7, Some buf)))"
    using sample_cli_sends by blast
  have i: "mset (ce_iter sample_cli_env sample_cli_resources) = mset sample_cli_resources" by (simp add: sample_cli_env_def)
  have n: "length sample_cli_resources = 2" by (simp add: sample_cli_resources_def)
  have p: "bound_priority (word_of_int 3) = 1" by (simp add: bound_priority_def)
  have r: "int_range 5000" "int_range 3" "int_range 2" "(5000 :: int) = -1 \<or> 0 < (5000 :: int)" "(3 :: int) \<noteq> -1"
    "int (length sample_cli_resources) \<le> 2" "0 < (2 :: int)" by (simp_all add: int_range_def n)
  have q: "mResourceList (Request_init (sample_request 0 0)) = None" by (simp add: Request_init_def)
  have l: "map (\<lambda>i. 10 + i) [0..<length sample_cli_resources] = [10, 11]" by (simp add: n upt_rec)
  from cli_tune_roundtrip[OF sample_cli_ok r i b sample_alloc_ok q] b p show ?thesis
    unfolding sample_tune_options l by (simp, blast)
qed

text \<open>C9: The server trusts the resource count of a message. When the header of a tune message promises more resources
  than the buffer has room for and the rest of the buffer is zero, deserialization reads past the end of the buffer, for
  every supply of blocks that does not run out.\<close>

theorem count_trusted:
  assumes "reads buf 0 (le_bytes 1 (md :: i8) @ le_bytes 1 REQ_RESOURCE_TUNING @ le_bytes 8 (handle :: i64) @
      le_bytes 8 (duration :: i64) @ le_bytes 4 (n :: i32) @ le_bytes 4 (properties :: i32) @ le_bytes 4 (pid :: i32) @
      le_bytes 4 (tid :: i32))"
    and "\<forall>q < length buf. 34 \<le> q \<longrightarrow> buf ! q = 0" "length buf < 34 + 16 * nat (sint n)"
    and "alloc_ok al [0 ..< nat (sint n)] A h" "mResourceList req = None"
  shows "Request_deserialize al buf h req = None"
  by (rule Request_deserialize_overrun[OF assms])

theorem count_trusted_witness:
  "length sample_overrun = 580 \<and>
   Request_deserialize sample_alloc sample_overrun Map.empty (Request_init (sample_request 0 0)) = None"
proof -
  have h: "sample_overrun = (le_bytes 1 MOD_RESTUNE @ le_bytes 1 REQ_RESOURCE_TUNING @ le_bytes 8 (0 :: i64) @ le_bytes 8 (-1 :: i64) @
     le_bytes 4 (36 :: i32) @ le_bytes 4 (1 :: i32) @ le_bytes 4 (100 :: i32) @ le_bytes 4 (101 :: i32)) @ replicate 546 0"
    (is "_ = ?hd @ _") by (simp add: sample_overrun_def)
  have l: "length ?hd = 34" by simp
  have "reads sample_overrun 0 ?hd" unfolding h by (simp add: reads_def)
  moreover have "\<forall>q < length sample_overrun. 34 \<le> q \<longrightarrow> sample_overrun ! q = 0"
    unfolding h using l by (auto simp: nth_append)
  moreover have "length sample_overrun = 580" unfolding h by simp
  ultimately show ?thesis
    using count_trusted[OF _ _ _ sample_alloc_ok, of sample_overrun MOD_RESTUNE 0 "-1" 36 1 100 101 "Request_init (sample_request 0 0)"]
    by (simp add: Request_init_def)
qed

section \<open>Intrusive lists\<close>

text \<open>C10: Insertion by a policy puts the node in front of the first node it beats, at the end when it beats
  none, and leaves payloads, other nodes and the other linker alone.\<close>

theorem insert_with_policy:
  assumes "dl_list h m xs" "n \<notin> set xs" "h n \<noteq> None" "\<And>a. a \<in> set xs \<Longrightarrow> policy h n a = Some (P a)"
  shows "\<exists>h' m'. insertWithPolicyHelper h m (Some n) policy = Some (h', m', RC_SUCCESS) \<and>
    dl_list h' m' (takeWhile (\<lambda>a. \<not> P a) xs @ n # dropWhile (\<lambda>a. \<not> P a) xs) \<and>
    dl_frame (mLinkerInUse m) (insert n (set xs)) h h'"
proof -
  have "dl_done h m (insert n (set xs)) (policy_insert P n xs) (insertWithPolicyHelper h m (Some n) policy)"
    by (rule insertWithPolicyHelper_list) (use assms in simp_all)
  then show ?thesis by (auto simp: policy_insert_def elim: dl_doneE)
qed

theorem insert_with_policy_witness:
  "\<exists>h' m'. insertWithPolicyHelper sample_heap (sample_list 2) (Some 1) comparLBetter = Some (h', m', RC_SUCCESS) \<and>
    dl_list h' m' [1, 2]"
  using insert_with_policy[of sample_heap "sample_list 2" "[2]" 1 comparLBetter "\<lambda>_. True"]
  by (auto simp: sample_heap_def dl_list_def sample_list_def links_def sample_node_def comparLBetter_def dl_data_def
      sample_resource_def compared_value_def getValuesCount_def getValueAt_def inline_value_def)

text \<open>C11: Deletion takes the node out of the list wherever it is and keeps the order of the others.\<close>

theorem delete_node:
  assumes "dl_list h m xs" "a \<in> set xs"
  shows "\<exists>h' m'. deleteNodeHelper h m (Some a) = Some (h', m', RC_SUCCESS) \<and> dl_list h' m' (remove1 a xs) \<and>
    getLenHelper m' = getLenHelper m - 1 \<and> dl_frame (mLinkerInUse m) (set xs) h h'"
proof -
  obtain us vs where xs: "xs = us @ a # vs" "a \<notin> set us" using assms(2) by (metis split_list_first)
  from deleteNodeHelper_list[OF assms(1)[unfolded xs(1)]] obtain h' m' where
    d: "deleteNodeHelper h m (Some a) = Some (h', m', RC_SUCCESS)" "dl_list h' m' (us @ vs)"
    "dl_frame (mLinkerInUse m) (set xs) h h'" unfolding xs(1) by (rule dl_doneE)
  moreover have "remove1 a xs = us @ vs" using xs by (simp add: remove1_append)
  moreover have "getLenHelper m' = getLenHelper m - 1"
    using d(2) assms(1) xs(1) by (simp add: dl_list_def getLenHelper_def)
  ultimately show ?thesis by auto
qed

theorem delete_node_witness:
  "\<exists>h' m'. deleteNodeHelper sample_heap (sample_list 2) (Some 2) = Some (h', m', RC_SUCCESS) \<and> dl_list h' m' []"
  using delete_node[of sample_heap "sample_list 2" "[2]" 2]
  by (auto simp: sample_heap_def dl_list_def sample_list_def links_def sample_node_def)

text \<open>Insertion at a position puts the node there, for the positions 0 (the same as 1) to the length
  plus one, and refuses every other position with \<^verbatim>\<open>RC_BAD_ARG\<close>, leaving the list unchanged.\<close>

theorem insert_at_position:
  assumes "dl_list h m xs" "a \<notin> set xs" "h a \<noteq> None"
  shows "if position_ok n xs
    then \<exists>h' m'. insertHelper_opt h m (Some a) INSERT_N_NODE_START n = Some (h', m', RC_SUCCESS) \<and>
      dl_list h' m' (take (nat (n - 1)) xs @ a # drop (nat (n - 1)) xs)
    else insertHelper_opt h m (Some a) INSERT_N_NODE_START n = Some (h, m, RC_BAD_ARG)"
  using insertHelper_opt_list[OF assms, of n] insertHelper_opt_bad_position[OF assms(1), of n a]
  by (auto elim: dl_doneE)

theorem insert_at_position_witness:
  "\<exists>h' m'. insertHelper_opt sample_heap (sample_list 2) (Some 1) INSERT_N_NODE_START 2 = Some (h', m', RC_SUCCESS) \<and>
    dl_list h' m' [2, 1]"
  using insert_at_position[of sample_heap "sample_list 2" "[2]" 1 2]
  by (auto simp: sample_heap_def dl_list_def sample_list_def links_def sample_node_def position_ok_def)

text \<open>Two lists match exactly when they have the same length and the callback accepts every pair of
  nodes at the same position; without a callback, when they hold the same nodes.\<close>

theorem match_lists:
  assumes "dl_list h m xs" "dl_list h t ys"
    and "\<And>a b. a \<in> set xs \<Longrightarrow> b \<in> set ys \<Longrightarrow>
      (case cmp of None \<Rightarrow> Some (a = b) | Some c \<Rightarrow> c h a b) = Some (P a b)"
  shows "matchAgainstHelper h m (Some t) cmp = Some (list_all2 P xs ys)"
  by (rule matchAgainstHelper_list[OF assms])

theorem match_lists_witness:
  "matchAgainstHelper sample_heap (sample_list 2) (Some (sample_list 2)) None = Some True"
  using match_lists[of sample_heap "sample_list 2" "[2]" "sample_list 2" "[2]" None "\<lambda>a b. a = b"]
  by (simp add: sample_heap_def dl_list_def sample_list_def links_def sample_node_def)

section \<open>Resources and message words\<close>

text \<open>A value written to a resource is read back at its index, every other index keeps its value, and
  writing keeps the value store well-formed, whether the values are inline or in an array.\<close>

theorem write_read_value:
  assumes "res_ok r" "allocated r" "in_values r i"
  shows "\<exists>r'. setValueAt i v r = Some (RC_SUCCESS, r') \<and> res_ok r' \<and>
    (\<forall>j. getValueAt r' j = (if j = i then Some v else getValueAt r j))"
  using setValueAt_success[OF assms, of v] setValueAt_keeps_ok[OF _ assms(1)]
    setValueAt_getValueAt[OF assms(1,3)] by blast

theorem write_read_value_witness:
  "\<exists>r'. setValueAt 2 9 (setNumValues True 3 Resource_init) = Some (RC_SUCCESS, r') \<and> getValueAt r' 2 = Some 9"
proof -
  have "res_ok (setNumValues True 3 Resource_init)"
    by (rule setNumValues_ok[OF Resource_init_ok]) (simp add: Resource_init_def)
  moreover have "allocated (setNumValues True 3 Resource_init)" "in_values (setNumValues True 3 Resource_init) 2"
    by (simp_all add: allocated_def in_values_def setNumValues_def Resource_init_def Let_def)
  ultimately show ?thesis using write_read_value by metis
qed

text \<open>The copy constructor yields a resource with the same header and the same value at every index.\<close>

theorem copy_resource:
  assumes "res_ok src" "\<And>j. in_values src j \<Longrightarrow> getValueAt src j \<noteq> None"
  shows "\<exists>r. Resource_copy True src = Some r \<and> res_ok r \<and> same_header src r \<and>
    (\<forall>j. getValueAt r j = getValueAt src j)"
  by (rule Resource_copy_faithful[OF assms])

theorem copy_resource_witness:
  "\<exists>r. Resource_copy True (sample_resource 300) = Some r \<and> getValueAt r 0 = Some 300"
proof -
  have "res_ok (sample_resource 300)" by (simp add: res_ok_def sample_resource_def)
  moreover have "getValueAt (sample_resource 300) j \<noteq> None" for j
    by (simp add: sample_resource_def getValueAt_def inline_value_def)
  moreover have "getValueAt (sample_resource 300) 0 = Some 300"
    by (simp add: sample_resource_def getValueAt_def inline_value_def)
  ultimately show ?thesis using copy_resource[of "sample_resource 300"] by force
qed

text \<open>The core and the cluster field of a resource are independent for identifiers that fit a byte:
  each reads back what was set, and setting one keeps the other and the upper half of the word.\<close>

theorem scope_fields:
  assumes "c < 256"
  shows "getCoreValue (setCoreValue c r) = c \<and> getClusterValue (setCoreValue c r) = getClusterValue r \<and>
    getClusterValue (setClusterValue c r) = c \<and> getCoreValue (setClusterValue c r) = getCoreValue r \<and>
    drop_bit 16 (mResInfo (setCoreValue c r)) = drop_bit 16 (mResInfo r) \<and>
    drop_bit 16 (mResInfo (setClusterValue c r)) = drop_bit 16 (mResInfo r)"
  using assms by (simp add: setCoreValue_get setCoreValue_cluster setClusterValue_get setClusterValue_core
      setCoreValue_high setClusterValue_high)

theorem scope_fields_witness:
  "getCoreValue (setCoreValue 3 Resource_init) = 3 \<and> getClusterValue (setClusterValue 1 Resource_init) = 1"
  using scope_fields[of 3 Resource_init] scope_fields[of 1 Resource_init] by simp



text \<open>In the packed properties word, setting a non-negative priority or adding a processing mode sets
  the bits of its own field and keeps the other field.\<close>

theorem packed_properties:
  assumes "0 \<le> sint p"
  shows "getPriority (setPriority p m) = getPriority m OR p \<and>
    getProcessingModes (setPriority p m) = getProcessingModes m \<and>
    getProcessingModes (addProcessingMode k m) = getProcessingModes m OR k \<and>
    getPriority (addProcessingMode k m) = getPriority m"
  using assms by (simp add: getPriority_setPriority getProcessingModes_setPriority getProcessingModes_addProcessingMode)

theorem packed_properties_witness:
  "getPriority (addProcessingMode MODE_DOZE (setPriority 3 (Request_init (sample_request 0 1)))) = 3"
  using packed_properties[of 3 "Request_init (sample_request 0 1)"]
    packed_properties[of 0 "setPriority 3 (Request_init (sample_request 0 1))" MODE_DOZE]
  by (simp add: Request_init_def getPriority_def)

section \<open>Saturating arithmetic\<close>

text \<open>C13: Addition and subtraction of two values of a signed type, and multiplication except of -1 by a positive number, return
  the exact result clamped to the type with the matching status, without ever overflowing. For the exception see
  the next property.\<close>

theorem safe_operations:
  assumes "in_type n a" "in_type n b" "0 < type_max n"
  shows "Add n a b = Some (saturate n (a + b)) \<and> Subtract n a b = Some (saturate n (a - b)) \<and>
    (\<not> (a = -1 \<and> 0 < b) \<longrightarrow> Multiply n a b = Some (saturate n (a * b)))"
proof -
  have "Multiply n a b = Some (saturate n (a * b))" if g: "\<not> (a = -1 \<and> 0 < b)"
  proof -
    consider "a = 0 \<or> b = 0" | "0 < a" "0 < b" | "a < 0" "b < 0" | "0 < a" "b < 0" | "a < -1" "0 < b"
      using g by linarith
    then show ?thesis using assms(3)
      by cases (simp_all add: Multiply_zero Multiply_pos_pos Multiply_neg_neg Multiply_pos_neg Multiply_neg_pos)
  qed
  then show ?thesis using Add_saturates[OF assms(1,2)] Subtract_saturates[OF assms(1,2)] by blast
qed

theorem safe_operations_witness:
  "Add 64 (2 ^ 63 - 1) 1 = Some (saturate 64 (2 ^ 63))"
  using safe_operations[of 64 "2 ^ 63 - 1" 1] by (simp add: in_type_def type_max_def type_lowest_def)

text \<open>\<^verbatim>\<open>Multiply(-1, b)\<close> with a positive \<^verbatim>\<open>b\<close> divides the lowest value of the type by -1 in its own
  guard, which is undefined.\<close>

theorem multiply_guard_undefined:
  assumes "0 < b"
  shows "Multiply n (-1) b = None"
  by (rule Multiply_minus_one_undefined[OF assms])

theorem multiply_guard_undefined_witness: "Multiply 64 (-1) 5 = None"
  by (rule multiply_guard_undefined) simp

section \<open>Configuration\<close>

text \<open>C15: Registering a list of configurations succeeds, keeps the registry consistent, and afterwards each
  code has the last well-formed configuration registered for it, with the callbacks of its apply type;
  different codes have different rows below the total.\<close>

theorem register_all:
  assumes "reg_inv rr"
  shows "\<exists>rr'. foldM (\<lambda>c. registerResource env (Some c)) cs rr = Some rr' \<and> reg_inv rr' \<and>
    (\<forall>k. getResConf rr' k =
       (case find (\<lambda>c. resourceBitmap c = k) (rev (filter (\<lambda>c. mResourceResType c \<noteq> 0) cs)) of
          Some c \<Rightarrow> Some (setLifeCycleCallbacks c) | None \<Rightarrow> getResConf rr k)) \<and>
    (\<forall>k k' c c'. getResConf rr' k = Some c \<longrightarrow> getResConf rr' k' = Some c' \<longrightarrow>
       0 \<le> getResourceTableIndex rr' k \<and> getResourceTableIndex rr' k < getTotalResourcesCount rr' \<and>
       (getResourceTableIndex rr' k = getResourceTableIndex rr' k' \<longrightarrow> k = k'))"
proof -
  from res_directory.add_all[OF assms, of env cs] obtain rr' where
    r: "foldM (\<lambda>c. registerResource env (Some c)) cs rr = Some rr'" "reg_inv rr'"
    "\<forall>k. getResConf rr' k =
       (case find (\<lambda>c. resourceBitmap c = k) (rev (filter (\<lambda>c. mResourceResType c \<noteq> 0) cs)) of
          Some c \<Rightarrow> Some (setLifeCycleCallbacks c) | None \<Rightarrow> getResConf rr k)" by blast
  then show ?thesis using res_directory.conf_idx[OF r(2)] res_directory.idx_inj[OF r(2)] by blast
qed

theorem register_all_witness:
  "\<exists>rr'. foldM (\<lambda>c. registerResource sample_renv (Some c)) [sample_conf, sample_conf] ResourceRegistry_init = Some rr' \<and>
     reg_inv rr'"
  using register_all[OF ResourceRegistry_init_inv] by blast

text \<open>After a non-empty list of enabled targets a supported resource is built for this target exactly
  if the target is listed, and after a non-empty list of disabled ones exactly if it is not.\<close>

theorem target_lists:
  assumes "mResourceConfigInfo b \<noteq> None" "ResourceRegistry.mTargetRefCount b = 0" "ts \<noteq> []"
  shows "(ResourceRegistry.mTargetRefCount (enable_all self ts b) = 1) = (self \<in> set ts) \<and>
    (ResourceRegistry.mTargetRefCount (disable_all self ts b) = 1) = (self \<notin> set ts)"
  using assms enable_all_count[of b ts self] disable_all_count[of b ts self] by (simp split: if_splits)

theorem target_lists_witness:
  "ResourceRegistry.mTargetRefCount (enable_all ''qcs9100'' [''qcm6490'', ''qcs9100''] (ResourceConfigInfoBuilder_init True)) = 1"
  using target_lists[of "ResourceConfigInfoBuilder_init True" "[''qcm6490'', ''qcs9100'']" "''qcs9100''"]
  by (simp add: ResourceConfigInfoBuilder_init_def)

section \<open>Clients\<close>

text \<open>C16: A request of a known, healthy client changes the health by the penalty when it comes within the
  configured distance of the last one and by the reward, capped at 100, otherwise; it is admitted, and the
  time recorded, exactly if the new health is positive. No other client is affected.\<close>

theorem rate_limit_step:
  assumes "known_thread cd t" "getHealthByClientID t cd = Some h" "0 < h"
    and "getLastRequestTimestampByClientID t cd = Some l" "l \<noteq> 0 \<longrightarrow> time_difference now l = Some d"
  shows "\<exists>cd'. shouldBeProcessed fl rc now t cd =
      Some (0 < (if l = 0 then h else new_health fl rc h d), cd') \<and>
    getHealthByClientID t cd' = Some (if l = 0 then h else new_health fl rc h d) \<and>
    getLastRequestTimestampByClientID t cd' =
      Some (if 0 < (if l = 0 then h else new_health fl rc h d) then now else l) \<and>
    (\<forall>t'. t' \<noteq> t \<longrightarrow> getHealthByClientID t' cd' = getHealthByClientID t' cd \<and>
       getLastRequestTimestampByClientID t' cd' = getLastRequestTimestampByClientID t' cd)"
  using shouldBeProcessed_step[OF assms(1-4), of now d fl rc] assms(5) by blast

theorem rate_limit_step_witness:
  "\<exists>cd'. shouldBeProcessed (\<lambda>x. x) \<lparr>rate_config.mDelta = 5, mPenaltyFactor = 2, mRewardFactor = 1\<rparr> 1000 7
     (snd (createNewClient True True 1 3 7 ClientDataManager_init)) = Some (True, cd') \<and>
     getLastRequestTimestampByClientID 7 cd' = Some 1000"
  using rate_limit_step[of "snd (createNewClient True True 1 3 7 ClientDataManager_init)" 7 100 0 1000 0
      "\<lambda>x. x" "\<lparr>rate_config.mDelta = 5, mPenaltyFactor = 2, mRewardFactor = 1\<rparr>"]
  by (force simp: createNewClient_def clientExists_def ClientDataManager_init_def known_thread_def
      getHealthByClientID_def getLastRequestTimestampByClientID_def)

text \<open>Handles are positive, increasing and never repeat, until the 64-bit range is used up.\<close>

theorem handles_unique:
  assumes "0 \<le> g" "g + int n \<le> 2 ^ 63 - 1"
  shows "\<exists>hs. generate_handles n g = Some (hs, g + int n) \<and> length hs = n \<and> distinct hs \<and> sorted_wrt (<) hs \<and>
    (\<forall>h\<in>set hs. 0 < h)"
proof -
  have "sorted_wrt (<) (map (\<lambda>i. g + 1 + int i) [0..<n])" by (simp add: sorted_wrt_map)
  moreover have "distinct (map (\<lambda>i. g + 1 + int i) [0..<n])" by (simp add: distinct_map inj_on_def)
  ultimately show ?thesis using generate_handles_spec[OF assms] assms(1)
    by (intro exI[of _ "map (\<lambda>i. g + 1 + int i) [0..<n]"]) auto
qed

theorem handles_unique_witness: "\<exists>hs. generate_handles 3 0 = Some (hs, 3) \<and> distinct hs"
  using handles_unique[of 0 3] by auto

text \<open>The cache of untuned handles never reads an empty queue, holds what was inserted last, and evicts
  nothing while it is not full.\<close>

theorem cache_insert:
  assumes "lru_inv c"
  shows "\<exists>c'. lru_insert x c = Some c' \<and> isPresent x c' \<and>
    (\<forall>y. isPresent y c \<and> length (mDataSet c) < mMaxSize c \<longrightarrow> isPresent y c')"
  using lru_insert_spec[OF assms] by blast

theorem cache_insert_witness: "\<exists>c'. lru_insert 5 (MinLRUCache_init 2) = Some c' \<and> isPresent 5 c'"
  using cache_insert[OF lru_init_inv[of 2]] by auto

section \<open>The daemon\<close>



text \<open>C18: A run of the consumer takes one item from the queue in every round, so that it ends. From a reachable state, when timers
  start and no round of the run meets a retune of a request in the table without a timer, it returns, and it leaves the queue
  empty unless a message of the clean-up priority stopped it.\<close>

theorem queue_drained:
  assumes "good_env (se_coco env)" "target_ok T"
    and "daemon_reach env (server_init env clusterIDs cgroupIDs cores clusters cgroups T) sv"
    and "\<forall>i. ch_start_ok (chs i)" "\<forall>j sv1. after_rounds env chs j sv = Some sv1 \<longrightarrow> retune_timed (chs j) sv1"
  shows "(\<exists>sv'. orderedQueueConsumerHook env chs 0 sv = Some sv' \<and>
      (no_trigger sv \<longrightarrow> queue_addrs (mOrderedQueue (sv_queue sv')) = [])) \<and>
    (\<forall>j sv1. after_rounds env chs j sv = Some sv1 \<longrightarrow> j \<le> length (mOrderedQueue (sv_queue sv)))"
  using daemon_drains[OF server_init_reach_inv[OF assms(1-3)], of chs] assms(4,5) rounds_bounded[of env chs _ sv]
  by (metis le_add1)

theorem queue_drained_witness:
  "\<exists>sv1 sv2. sample_received = Some sv1 \<and> orderedQueueConsumerHook sample_server_env sample_choices 0 sv1 = Some sv2 \<and>
     queue_addrs (mOrderedQueue (sv_queue sv1)) = [1] \<and> queue_addrs (mOrderedQueue (sv_queue sv2)) = []"
proof -
  obtain sv1 where s: "sample_received = Some sv1" "daemon_reach sample_server_env sample_server sv1" "no_trigger sv1"
    using sample_daemon by blast
  have c: "\<forall>i. ch_start_ok (sample_choices i)" by (simp add: sample_choices_start)
  have t: "\<forall>j sv. after_rounds sample_server_env sample_choices j sv1 = Some sv \<longrightarrow> retune_timed (sample_choices j) sv"
    using sample_rounds_timed[OF s(1)] by blast
  from sample_received_map[unfolded s(1)] have "queue_addrs (mOrderedQueue (sv_queue sv1)) = [1]" by simp
  with queue_drained[OF sample_server_env_good sample_target_ok s(2)[unfolded sample_server_def] c t] s(1,3)
  show ?thesis by blast
qed

text \<open>C19: In every state the daemon reaches by whole messages, timers and rounds of the consumer, retunes included, while
  timers start, the request map holds no more requests than configured, each entry
  belongs to a live tune request with that handle, and the queue refers to live requests, each once.\<close>

theorem daemon_map:
  assumes "good_env (se_coco env)" "target_ok T"
    and "daemon_reach env (server_init env clusterIDs cgroupIDs cores clusters cgroups T) sv"
  shows "length (mActiveRequests (sv_rm sv)) \<le> unat (se_maxConcurrentRequests env) \<and>
    (\<forall>h a s. map_of (mActiveRequests (sv_rm sv)) h = Some (a, s) \<longrightarrow>
       (\<exists>req. sv_objs sv a = Some req \<and> getHandle req = h \<and> getRequestType req = REQ_RESOURCE_TUNING)) \<and>
    (\<forall>a. QRequest a \<in> set (mOrderedQueue (sv_queue sv)) \<longrightarrow> sv_objs sv a \<noteq> None) \<and>
    distinct (queue_addrs (mOrderedQueue (sv_queue sv)))"
  using daemon_map_sound[OF server_init_reach_inv[OF assms]] by blast

theorem daemon_map_witness:
  "\<exists>sv2 req. sample_consumed = Some sv2 \<and> sv_objs sv2 1 = Some req \<and> getHandle req = 7"
proof -
  obtain sv2 where s: "sample_consumed = Some sv2" "daemon_reach sample_server_env sample_server sv2"
    using sample_daemon by blast
  from sample_consumed_map[unfolded s(1)] have "map_of (mActiveRequests (sv_rm sv2)) 7 = Some (1, 5)" by simp
  with daemon_map[OF sample_server_env_good sample_target_ok s(2)[unfolded sample_server_def]] s(1) show ?thesis by blast
qed

text \<open>C20: In the same states, whatever is in effect on a resource arbitrated system-wide was asked for by a resource of a tune
  request that is in the request map and marked completed: as long as timers start, nothing stays in effect after its request is gone.\<close>

theorem effect_owned:
  assumes "good_env (se_coco env)" "target_ok T"
    and "daemon_reach env (server_init env clusterIDs cgroupIDs cores clusters cgroups T) sv"
    and "in_effect k (c_trace (sv_coco sv)) = Some r"
    and "getResConf (ce_registry (se_coco env)) k = Some c" "managed (se_coco env) c"
  shows "\<exists>h a s req. map_of (mActiveRequests (sv_rm sv)) h = Some (a, s) \<and> has_flag s REQ_COMPLETED \<and>
    sv_objs sv a = Some req \<and> (\<exists>xs. list_nodes (c_heap (sv_coco sv)) req = Some xs \<and>
      (\<exists>x\<in>set xs. dl_data (c_heap (sv_coco sv)) x = Some r \<and> mResCode r = k))"
  by (rule daemon_effect[OF server_init_reach_inv[OF assms(1-3)] assms(4-6)])

theorem effect_owned_witness:
  "\<exists>sv2 h a s req. sample_consumed = Some sv2 \<and> map_of (mActiveRequests (sv_rm sv2)) h = Some (a, s) \<and>
     has_flag s REQ_COMPLETED \<and> sv_objs sv2 a = Some req"
proof -
  obtain sv2 where s: "sample_consumed = Some sv2" "daemon_reach sample_server_env sample_server sv2"
    using sample_daemon by blast
  from sample_consumed_map[unfolded s(1)] obtain r where "in_effect sample_code (c_trace (sv_coco sv2)) = Some r" by auto
  from effect_owned[OF sample_server_env_good sample_target_ok s(2)[unfolded sample_server_def] this, of "setLifeCycleCallbacks sample_conf"]
    sample_managed s(1) show ?thesis unfolding sample_server_env_def by (simp, blast)
qed

text \<open>C34: When the daemon, in a reachable state, takes a tune request of limited duration from the queue that was not
  cancelled, and its timer cannot be started, the request, its entry in the map and its nodes are gone
  after the round, but the list of the concurrency table that held one of these nodes is none any more: it leads to a freed node. The value
  stays in effect without an owner, as the sample shows.\<close>

theorem failed_start_dangles:
  assumes "good_env (se_coco env)" "target_ok T"
    and "daemon_reach env (server_init env clusterIDs cgroupIDs cores clusters cgroups T) sv"
    and "next_request ch sv = Some (a, req)" "getRequestType req = REQ_RESOURCE_TUNING"
    and "\<not> has_flag (getRequestProcessingStatus (getHandle req) (sv_rm sv)) REQ_CANCELLED"
    and "getDuration req \<noteq> -1" "ch_timer_block ch = Some t" "\<not> ch_start_ok ch"
    and "list_nodes (c_heap (sv_coco sv)) req = Some xs" "n \<in> set xs" "dl_data (c_heap (sv_coco sv)) n = Some r"
    and "slot (se_coco env) (sv_coco sv) r (sint (getPriority req)) = Some (p, s)"
  shows "\<exists>sv'. consumer_round env ch sv = Some (Again sv') \<and> sv_objs sv' a = None \<and>
    map_of (mActiveRequests (sv_rm sv')) (getHandle req) = None \<and>
    (\<forall>ys. \<not> dl_list (c_heap (sv_coco sv')) (cell (sv_coco sv') p s) ys)"
  by (rule failed_start[OF server_init_reach_inv[OF assms(1-3)] assms(4-13)])

theorem failed_start_dangles_witness:
  "\<exists>sv sv' r. sample_pending = Some sv \<and> consumer_round sample_server_env sample_broken sv = Some (Again sv') \<and>
     map_of (mActiveRequests (sv_rm sv')) 7 = None \<and> (\<forall>ys. \<not> dl_list (c_heap (sv_coco sv')) (cell (sv_coco sv') 0 3) ys) \<and>
     in_effect sample_code (c_trace (sv_coco sv')) = Some r \<and> getValueAt r 0 = Some 300"
proof -
  obtain sv where s: "sample_pending = Some sv" "daemon_reach sample_server_env sample_server sv"
    using sample_pending_reach by blast
  from sample_pending_next[unfolded s(1)] obtain req where q: "next_request sample_broken sv = Some (1, req)"
    "getRequestType req = REQ_RESOURCE_TUNING" "getDuration req = 1000" "getHandle req = 7" "getPriority req = 3"
    "getRequestProcessingStatus (getHandle req) (sv_rm sv) = 1" "list_nodes (c_heap (sv_coco sv)) req = Some [10]" by auto
  from sample_pending_node[unfolded s(1)] obtain r where r: "dl_data (c_heap (sv_coco sv)) 10 = Some r"
    "slot sample_env (sv_coco sv) r 3 = Some (0, 3)" by auto
  have nc: "\<not> has_flag (getRequestProcessingStatus (getHandle req) (sv_rm sv)) REQ_CANCELLED"
    unfolding q(6) by code_simp
  have "getDuration req \<noteq> -1" "ch_timer_block sample_broken = Some 50" "\<not> ch_start_ok sample_broken"
    by (simp_all add: q(3) sample_broken_def)
  note f = failed_start_dangles[OF sample_server_env_good sample_target_ok s(2)[unfolded sample_server_def] q(1,2) nc this q(7) _ r(1)]
  have "slot (se_coco sample_server_env) (sv_coco sv) r (sint (getPriority req)) = Some (0, 3)"
    using r(2) q(5) by (simp add: sample_server_env_def)
  from f[OF _ this] obtain sv' where v: "consumer_round sample_server_env sample_broken sv = Some (Again sv')"
    "map_of (mActiveRequests (sv_rm sv')) 7 = None" "\<forall>ys. \<not> dl_list (c_heap (sv_coco sv')) (cell (sv_coco sv') 0 3) ys"
    unfolding q(4) by auto
  have "\<exists>r. in_effect sample_code (c_trace (sv_coco sv')) = Some r \<and> getValueAt r 0 = Some 300"
    using sample_broken_effect[unfolded s(1)] v(1) by auto
  with s(1) v show ?thesis by blast
qed

text \<open>C38: For every request in the map of a reachable state, the clean-up of the request as it is written fails
  exactly if it has a resource, when memory may not be read once it was returned: the loop of \<^verbatim>\<open>Request::clearResources\<close> frees a node and
  then reads its link. With the pools of this program, which leave a returned block as it is, the clean-up returns and
  frees the request and all its nodes; this is what the daemon's operations use.\<close>

theorem release_reads_freed:
  assumes "good_env (se_coco env)" "target_ok T"
    and "daemon_reach env (server_init env clusterIDs cgroupIDs cores clusters cgroups T) sv"
    and "map_of (mActiveRequests (sv_rm sv)) h = Some (a, s)"
  shows "\<exists>req xs sv'. sv_objs sv a = Some req \<and> list_nodes (c_heap (sv_coco sv)) req = Some xs \<and>
    cleanUpRequest (c_heap (sv_coco sv)) (Some req) = (if xs = [] then Some (c_heap (sv_coco sv), mTimer req) else None) \<and>
    release_request a sv = Some sv' \<and> sv_objs sv' a = None \<and> (\<forall>n\<in>set xs. c_heap (sv_coco sv') n = None)"
  by (rule active_release[OF server_init_reach_inv[OF assms(1-3)] assms(4)])

theorem release_reads_freed_witness:
  "\<exists>sv req. sample_consumed = Some sv \<and> sv_objs sv 1 = Some req \<and> cleanUpRequest (c_heap (sv_coco sv)) (Some req) = None \<and>
     release_request 1 sv \<noteq> None"
proof -
  obtain sv where s: "sample_consumed = Some sv" "daemon_reach sample_server_env sample_server sv"
    using sample_daemon by blast
  from sample_consumed_map[unfolded s(1)] have "map_of (mActiveRequests (sv_rm sv)) 7 = Some (1, 5)" by simp
  from release_reads_freed[OF sample_server_env_good sample_target_ok s(2)[unfolded sample_server_def] this] obtain req xs sv' where
    r: "sv_objs sv 1 = Some req" "list_nodes (c_heap (sv_coco sv)) req = Some xs"
    "cleanUpRequest (c_heap (sv_coco sv)) (Some req) = (if xs = [] then Some (c_heap (sv_coco sv), mTimer req) else None)" "release_request 1 sv = Some sv'" by blast
  have "xs = [10]" using sample_consumed_nodes[unfolded s(1)] r(1,2) by simp
  with r s(1) show ?thesis by fastforce
qed

text \<open>C21: A tune request is let in exactly if it is complete, there is room in the map, and no request in the map of its
  client thread has the same source and the same resources, scopes and values. For a client of the system level, requests that
  were completed or cancelled do not count, so that an equal request already in effect is let in again.\<close>

theorem duplicate_refused:
  assumes "map_sound h objs nodes rm" "req_ok h req xs" "known_thread cd (getClientTID req)"
    and "getRequestType req = REQ_RESOURCE_TUNING"
  shows "shouldRequestBeAdded n h objs (Some req) rm cd =
    Some (getResDlMgr req \<noteq> None \<and> 0 < sint (getHandle req) \<and> 0 \<le> sint (getPriority req)
      \<and> 0 \<le> sint (getClientPID req) \<and> 0 \<le> sint (getClientTID req) \<and> length (mActiveRequests rm) < n
      \<and> \<not> (\<exists>handle\<in>set (handles_of (getClientTID req) cd). duplicates h objs nodes req xs cd rm handle), cd)"
  by (rule shouldRequestBeAdded_spec[OF assms])

theorem duplicate_refused_witness:
  "\<exists>cd. shouldRequestBeAdded 10 sample_heap Map.empty (Some (sample_request 1 2)) RequestManager_init cd = Some (True, cd)"
proof -
  let ?cd = "snd (createNewClient True True 1 100 101 ClientDataManager_init)"
  have "map_sound sample_heap Map.empty (\<lambda>_. []) RequestManager_init" by (simp add: map_sound_def RequestManager_init_def)
  moreover have "req_ok sample_heap (sample_request 1 2) [2]"
    using sample_low_nodes
    by (simp add: req_ok_def request_nodes_def sample_state_heap nodes_readable_def sample_heap_def dl_data_def
        sample_node_def readable_def sample_resource_def getValueAt_def inline_value_def)
  moreover have "known_thread ?cd (getClientTID (sample_request 1 2))"
    by (simp add: known_thread_def createNewClient_def clientExists_def ClientDataManager_init_def getClientTID_def sample_request_def)
  moreover have "getRequestType (sample_request 1 2) = REQ_RESOURCE_TUNING" by (simp add: getRequestType_def sample_request_def)
  ultimately have "shouldRequestBeAdded 10 sample_heap Map.empty (Some (sample_request 1 2)) RequestManager_init ?cd = Some (True, ?cd)"
    using duplicate_refused[of sample_heap Map.empty "\<lambda>_. []" RequestManager_init "sample_request 1 2" "[2]" ?cd 10]
    by (simp add: duplicates_def RequestManager_init_def sample_request_def getResDlMgr_def getHandle_def getPriority_def
        getClientPID_def getClientTID_def)
  then show ?thesis by blast
qed

text \<open>C22: Whichever of several equally urgent requests is taken, draining the ordered queue delivers exactly
  its items, most urgent first.\<close>

theorem queue_order:
  assumes "queue_inv objs q" "length ts = length (mOrderedQueue q)"
  shows "\<exists>xs. oq.drain objs ts q = Some xs \<and> mset xs = mset (mOrderedQueue q) \<and>
    sorted (map (\<lambda>x. the (item_priority objs x)) xs)"
  by (rule oq.drain_sorted[OF assms])

theorem queue_order_witness:
  "\<exists>xs. oq.drain [1 \<mapsto> sample_request 1 1, 2 \<mapsto> sample_request 0 2] [0, 0]
       \<lparr>mElementCount = 2, mOrderedQueue = [QRequest 1, QRequest 2]\<rparr> = Some xs \<and>
     mset xs = {#QRequest 1, QRequest 2#}"
  using queue_order[of "[1 \<mapsto> sample_request 1 1, 2 \<mapsto> sample_request 0 2]"
      "\<lparr>mElementCount = 2, mOrderedQueue = [QRequest 1, QRequest 2]\<rparr>" "[0, 0]"]
  by (auto simp: queue_inv_def item_priority_def)

section \<open>The device\<close>

text \<open>C23: The mask answered for a cluster and a signed count selects exactly the first, last or all cores
  of the cluster, as the count is positive, negative or zero.\<close>

theorem mask_selects:
  assumes "getClusterInfo (getPhysicalClusterId T cluster) T = (Some c, T)" "cluster_ok c"
    and "- (2 ^ 31) \<le> k" "k < 2 ^ 31" "cluster \<noteq> GET_MAX_CLUSTER"
  shows "\<exists>m. get_mask cluster k T = Some (m, T) \<and> (\<forall>i<64. bit m i \<longleftrightarrow> int i \<in> set (selected_cores c k))"
  by (rule get_mask_selected[OF assms])

theorem mask_selects_witness:
  "\<exists>m T. get_mask 0 (-2) T = Some (m, T) \<and> bit m 7 \<and> \<not> bit m 5"
proof -
  let ?c = "\<lparr>mPhysicalID = 4, mCapacity = 1024, mStartCpu = 4, mNumCpus = 4\<rparr>"
  let ?T = "target_empty\<lparr>mLogicalToPhysicalClusterMapping := [(0, 4)], mPhysicalClusters := [(4, Some ?c)]\<rparr>"
  have 1: "getClusterInfo (getPhysicalClusterId ?T 0) ?T = (Some ?c, ?T)"
    by (simp add: getClusterInfo_def getPhysicalClusterId_def at_or_null_def)
  have 2: "cluster_ok ?c" by (simp add: cluster_ok_def)
  from mask_selects[OF 1 2, of "-2"] obtain m where
    m: "get_mask 0 (-2) ?T = Some (m, ?T)" "\<And>i. i < 64 \<Longrightarrow> bit m i \<longleftrightarrow> int i \<in> set (selected_cores ?c (-2))"
    by (auto simp: GET_MAX_CLUSTER_def)
  have "set (selected_cores ?c (-2)) = {6, 7}" by code_simp
  with m(2)[of 7] m(2)[of 5] have "bit m 7 \<and> \<not> bit m 5" by simp
  with m(1) show ?thesis by blast
qed

text \<open>C24: From the cpufreq policy directories the logical clusters are numbered from zero in ascending
  capacity, and distinct logical clusters are distinct physical clusters, each with its record.\<close>

theorem policy_clusters:
  assumes "policies_ok w ds" "T' = generatePolicyBasedMapping indet w ds T"
  shows "mTotalClusterCount T' = int (length ds)
    \<and> (\<forall>i<length ds. \<exists>c. map_of (mLogicalToPhysicalClusterMapping T') (int i) = Some (mPhysicalID c)
          \<and> map_of (mPhysicalClusters T') (mPhysicalID c) = Some (Some c))
    \<and> (\<forall>i j. i < j \<longrightarrow> j < length ds \<longrightarrow>
          getPhysicalClusterId T' (int i) \<noteq> getPhysicalClusterId T' (int j)
          \<and> mCapacity (the (the (map_of (mPhysicalClusters T') (getPhysicalClusterId T' (int i)))))
              \<le> mCapacity (the (the (map_of (mPhysicalClusters T') (getPhysicalClusterId T' (int j))))))"
  by (rule policy_mapping[OF assms])

theorem policy_clusters_witness:
  "mTotalClusterCount (generatePolicyBasedMapping 0 three_policies [''policy4'', ''policy0'', ''policy10''] target_empty) = 3"
proof -
  have "policies_ok three_policies [''policy4'', ''policy0'', ''policy10'']" by code_simp
  from policy_clusters[OF this refl, of 0 target_empty] show ?thesis by simp
qed

text \<open>After a restart the daemon writes every value it saved back to its file: reading a saved node
  gives the default again.\<close>

theorem sysfs_restored:
  assumes "\<forall>e\<in>set es. entry_ok e" "distinct (map fst es)" "e \<in> set es" "opens w (fst e)"
    and "contents w pf = Some (concat (map (\<lambda>e. sysfs_entry e @ [newline]) es))"
  shows "readFromFile (writeSysFsDefaults pf w) (fst e) = to_string (snd e)"
  by (rule sysfs_defaults_restored[OF assms])

theorem sysfs_restored_witness:
  "readFromFile (writeSysFsDefaults ''d'' \<lparr>contents = [''d'' \<mapsto> sysfs_entry (''/a'', 42) @ [newline]], opens = (\<lambda>_. True),
     entries = (\<lambda>_. None), mkdir = (\<lambda>_. MkdirOk), written = []\<rparr>) ''/a'' = to_string 42"
  using sysfs_restored[of "[(''/a'', 42)]" "(''/a'', 42)"] by (simp add: entry_ok_def newline_def)

section \<open>Configuration files\<close>



text \<open>C25: A value from the file of properties reaches the client: after the file is read, the daemon answers the
  query that \<open>getProp\<close> sends, \<open>getProp\<close> returns 0, and the buffer of the client then holds, cut to its size and filled up with zeros, the last
  value given for the name, or the default where there is none or where the value begins with the letters that stand for a missing
  property. Names, values and the default hold no zero byte, and the name fits the message.\<close>

theorem property_query:
  assumes "reads_file pe file (file_events ''PropertyConfigs'' (map property_fields es))"
    and "list_all (\<lambda>e. \<not> property_word (fst e) \<and> \<not> property_word (snd e)) es"
    and "props_inv (cs_props s)"
    and found: "found = (case map_of (rev (filter (\<lambda>(k, v). k \<noteq> [] \<and> v \<noteq> [])
        (map (\<lambda>e. (bytes_of (fst e), bytes_of (snd e))) es))) name of
      Some v \<Rightarrow> Some v | None \<Rightarrow> find_property name (cs_props s))"
    and "0 \<notin> set name" "length name < 569" "\<forall>v. found = Some v \<longrightarrow> 0 \<notin> set v" "0 \<notin> set d"
    and "2 \<le> unat bufferSize" "unat bufferSize \<le> length out + 1"
  shows "\<exists>s' msg answer. parse pe PROPERTIES_CONFIG file s = Some (Inr (RC_SUCCESS, s')) \<and>
    (\<forall>pool gen. forwardMessage pool (cs_props s') gen msg = Some (answer, gen)) \<and>
    (\<forall>nt. sendMsgHelper nt \<and> reply nt = fw_reply answer \<longrightarrow>
       getProp nt batch (Some name) (Some out) bufferSize (Some d) = Some (0, Some msg, Some (
         let v = received_value d found; n = unat bufferSize - 1
         in take n v @ replicate (n - length v) 0 @ drop n out)))"
proof -
  let ?kv = "map (\<lambda>e. (bytes_of (fst e), bytes_of (snd e))) es" and ?pr = "fold put_property es (cs_props s)"
  have "props_inv ?pr" unfolding put_properties by (rule props.put_all_valid[OF assms(3)])
  moreover have "find_property name ?pr = found"
    unfolding put_properties found
    by (subst props.find_put_all[OF assms(3)]) (simp add: props.last_entry_def split: option.split)
  ultimately have "\<exists>msg answer. (\<forall>pool gen. forwardMessage pool ?pr gen msg = Some (answer, gen)) \<and> fw_task answer = None \<and>
    (\<forall>nt. sendMsgHelper nt \<and> reply nt = fw_reply answer \<longrightarrow>
       getProp nt batch (Some name) (Some out) bufferSize (Some d) = Some (0, Some msg, Some (
         let v = received_value d found; n = unat bufferSize - 1
         in take n v @ replicate (n - length v) 0 @ drop n out)))"
    using property_query_lemma[of ?pr name d bufferSize out batch] assms(5-10) by simp
  with parse_properties[OF assms(1,2), of s] show ?thesis by auto
qed

theorem property_query_witness:
  "\<exists>s' msg answer. parse sample_parse_env PROPERTIES_CONFIG ''properties'' sample_config_state = Some (Inr (RC_SUCCESS, s')) \<and>
     forwardMessage None (cs_props s') 0 msg = Some (answer, 0) \<and>
     (\<forall>nt. sendMsgHelper nt \<and> reply nt = fw_reply answer \<longrightarrow>
        getProp nt FlatBuffEncoder_init (Some sample_property_name) (Some (replicate 8 1)) 8 (Some [57]) =
          Some (0, Some msg, Some [49, 48, 48, 48, 0, 0, 0, 1]))"
proof -
  have i: "props_inv (cs_props sample_config_state)" by (simp add: sample_config_state_def props_inv_init)
  have w: "list_all (\<lambda>e. \<not> property_word (fst e) \<and> \<not> property_word (snd e)) sample_property_file"
    by (simp add: sample_property_file_def property_word_def)
  have q: "0 \<notin> set sample_property_name" "length sample_property_name < 569"
    by (simp_all add: sample_property_name_def bytes_of_def)
  have v: "\<forall>v. Some [49, 48, 48, 48] = Some v \<longrightarrow> (0 :: u8) \<notin> set v" by simp
  have d: "(0 :: u8) \<notin> set [57]" "2 \<le> unat (8 :: u64)" "unat (8 :: u64) \<le> length (replicate 8 (1 :: u8)) + 1" by simp_all
  have e: "(let v = received_value [57] (Some [49, 48, 48, 48]); n = unat (8 :: u64) - 1
      in take n v @ replicate (n - length v) 0 @ drop n (replicate 8 1)) = [49, 48, 48, 48, 0, 0, 0, 1]" by code_simp
  from property_query[OF sample_reads(3) w i sample_property_found[symmetric] q v d, of FlatBuffEncoder_init, unfolded e]
  show ?thesis by blast
qed

text \<open>C26: After the common file of properties and those of the device, the target, the integrator and the plugins
  that exist, in this order, have been read, a property has the last admissible value any of them gives it.\<close>

theorem config_precedence:
  assumes "reads_properties (be_parse pre) (be_common pre @ ''PropertiesConfig.yaml'') common"
    and "paths = [be_target be @ ''PropertiesConfig.yaml'', getFullTargetBasedConfPath be ''PropertiesConfig.yaml'',
      be_custom be @ ''PropertiesConfig.yaml'', getConfigFilePath PROPERTIES_CONFIG (be_ext be)]"
    and "\<And>p. p \<in> set paths \<Longrightarrow> p \<noteq> [] \<Longrightarrow> be_exists be p \<Longrightarrow> reads_properties (be_parse be) p (doc p)"
    and "props_inv (cs_props s)"
  shows "\<exists>s'. and_then (fetchCommonProperties pre s) (fetchCustomProperties be) = Some (Inr (RC_SUCCESS, s')) \<and>
    find_property name (cs_props s') =
      (case map_of (rev (admissible_entries (common @ file_entries be doc paths))) name of
         Some v \<Rightarrow> Some v | None \<Rightarrow> find_property name (cs_props s))"
proof -
  have p: "paths = customConfPaths be ''PropertiesConfig.yaml'' PROPERTIES_CONFIG" by (simp add: customConfPaths_def assms(2))
  show ?thesis
    by (intro exI conjI) (rule fetch_properties[OF assms(1) p assms(3)], simp_all del: fold_append add: find_after_entries[OF assms(4)])
qed

theorem config_precedence_witness:
  "\<exists>s'. and_then (fetchCommonProperties sample_boot_env sample_config_state) (fetchCustomProperties sample_boot_env) =
      Some (Inr (RC_SUCCESS, s')) \<and>
    find_property (bytes_of ''urm.delta'') (cs_props s') = Some (bytes_of ''7'')"
proof -
  have i: "props_inv (cs_props sample_config_state)" by (simp add: sample_config_state_def props_inv_init)
  from config_precedence[OF sample_reads_properties refl sample_reads_properties i, where name = "bytes_of ''urm.delta''"]
  show ?thesis using sample_entries by (simp add: customConfPaths_def)
qed

text \<open>C27: After any list of registrations a signal is found under its code, type and variant as the last
  registration with that key left it, and the count is the number of distinct keys.\<close>

theorem signals_registered:
  "let sr = fold (\<lambda>s. registerSignal (Some s)) ss SignalRegistry_init; good = filter (\<lambda>s. mSignalCategory s \<noteq> 0) ss
   in sig_inv sr \<and> getSignalsConfigCount sr = word_of_nat (card (sig_key ` set good)) \<and>
      (\<forall>key. find_config key sr = map_of (rev (map (\<lambda>s. (sig_key s, s)) good)) key)"
proof -
  have none: "find_config key SignalRegistry_init = None" for key
    by (simp add: find_config_def SignalRegistry_init_def)
  have "getSignalsConfigCount SignalRegistry_init = 0"
    by (simp add: getSignalsConfigCount_def SignalRegistry_init_def)
  from signals.count_put_all[OF SignalRegistry_init_inv none this, of ss]
    signals.find_put_all[OF SignalRegistry_init_inv, of _ ss]
    signals.put_all_valid[OF SignalRegistry_init_inv, of ss] none
  show ?thesis by (simp add: signals.put_all_def signals.last_entry_def Let_def split: option.splits)
qed

text \<open>C28: Among the variants of a signal the lookup picks one that is within the tolerance for as many of the
  attributes asked for as any other, and one that agrees exactly in all of them if there is one.\<close>

theorem closest_variant:
  assumes "sig_inv sr" "mSignalsConfigs sr (code_bitmap i t) = Some conf" "mFeatureSignals conf \<noteq> []"
    and "0 \<le> sint numArgs" "n = nat (min (sint numArgs) 4)" "n \<le> length attrs"
  shows "\<exists>m\<in>set (mFeatureSignals conf).
    getSignalConfigByIdAndType i t numArgs (Some attrs) sr =
      Some (Some m, \<not> (\<exists>c\<in>set (mFeatureSignals conf). exact_score n attrs c = int n)) \<and>
    sigCode m = i \<and> mSigType m = t \<and>
    (\<forall>c\<in>set (mFeatureSignals conf). tolerance_score n attrs c \<le> tolerance_score n attrs m) \<and>
    ((\<exists>c\<in>set (mFeatureSignals conf). exact_score n attrs c = int n) \<longrightarrow> exact_score n attrs m = int n)"
proof -
  from findBest_closest[OF assms(3-6)] obtain m where m: "m \<in> set (mFeatureSignals conf)"
    "findBestExtraAttrsMatch (mFeatureSignals conf) numArgs (Some attrs) =
      Some (Some m, \<not> (\<exists>c\<in>set (mFeatureSignals conf). exact_score n attrs c = int n))"
    "\<forall>c\<in>set (mFeatureSignals conf). tolerance_score n attrs c \<le> tolerance_score n attrs m"
    "(\<exists>c\<in>set (mFeatureSignals conf). exact_score n attrs c = int n) \<longrightarrow> exact_score n attrs m = int n" by blast
  have "stored_ok (code_bitmap i t) True m" using assms(1,2) m(1) unfolding sig_inv_def by blast
  then have "sigCode m = i \<and> mSigType m = t" by (simp add: stored_ok_def signalBitmap_code code_bitmap_inj)
  with m assms(2,3) show ?thesis
    by (intro bexI[OF _ m(1)]) (simp add: getSignalConfigByIdAndType_def code_bitmap_def)
qed

theorem closest_variant_witness:
  "\<exists>sr. sr = fold (\<lambda>s. registerSignal (Some s)) [sample_variant 30, sample_variant 60] SignalRegistry_init \<and>
     getSignalConfigByIdAndType 65538 0 1 (Some [55]) sr = Some (Some (sample_variant 60), True)"
proof -
  define sr where "sr = fold (\<lambda>s. registerSignal (Some s)) [sample_variant 30, sample_variant 60] SignalRegistry_init"
  have inv: "sig_inv sr" by (simp add: sr_def registerSignal_inv SignalRegistry_init_inv)
  have bm: "signalBitmap (sample_variant f) = code_bitmap 65538 0" for f
    by (simp add: signalBitmap_def code_bitmap_def sample_variant_def sample_config_def)
  have nd: "\<not> isDuplicateConfig (sample_variant 30) (sample_variant 60)" by code_simp
  have cat: "mSignalCategory (sample_variant f) \<noteq> 0" "mHasExtraAttrs (sample_variant f)" for f
    by (simp_all add: sample_variant_def sample_config_def)
  have "mSignalsConfigs sr (code_bitmap 65538 0) =
      Some \<lparr>mSignalInfo = None, mFeatureSignals = [sample_variant 60, sample_variant 30]\<rparr>"
    unfolding sr_def by (simp add: registerSignal_eq updated_conf_def bm cat nd SignalRegistry_init_def SignalConf_init_def
        addToFeaturedSigList_def)
  from closest_variant[OF inv this, of 1 1 "[55]"] show ?thesis
    unfolding sr_def[symmetric]
    by (auto simp: exact_score_def tolerance_score_def within_tolerance_def sample_variant_def sample_config_def)
qed

text \<open>C29: When all blocks are granted, a tune signal becomes a request exactly if it has an argument for every placeholder of its
  configuration, and then the resources of the request are those of the configuration with the placeholders
  replaced by the arguments in order, across all resources. The configuration is the one without extra attributes that the
  handler asks for: the arguments are placeholder values and never select a variant.\<close>

theorem signal_request:
  assumes "registry_usable sr"
    and "getSignalConfigByIdAndType (mSignalCode sig) (mSignalType sig) 0 None sr = Some (Some s, False)"
    and "locks = somes (the (mSignalResources s))" "sig_args sig args"
    and "\<forall>n. alloc_fresh al [0 ..< n] h" "\<forall>j. val_array al j" "\<forall>n. alloc_full al [0 ..< n]"
  shows "\<exists>ok h' req ys. createResourceTuningRequest sr al (Some raw) sig h = Some (ok, h', Some req) \<and>
    ok = (count_list (concat (map vals locks)) NSIG_PLACEHOLDER \<le> length args) \<and> req_ok h' req ys \<and>
    (ok \<longrightarrow> Some (concat (map (\<lambda>a. vals (data_at h' a)) ys)) = map_option fst (fill_values (concat (map vals locks)) args) \<and>
       list_all2 same_header locks (map (data_at h') ys))"
proof -
  from createResourceTuningRequest_ok[OF lookup_usable[OF assms(1,2)] assms(2,4), of al h raw] assms(5-7)
  obtain ok h' req ys where r: "createResourceTuningRequest sr al (Some raw) sig h = Some (ok, h', Some req)"
    "added h (tune_fields sig raw) [] h' req ys"
    "locks_result locks (fold_ref (ref_all args) 0 (map vals locks)) ok h' ys"
    unfolding assms(3) by metis
  note f = fold_ref_all[of 0 args "map vals locks"] fill_values_none[of "concat (map vals locks)" args]
  show ?thesis
    using r f by (cases "fold_ref (ref_all args) 0 (map vals locks)")
      (auto simp: locks_result_def added_def not_less intro!: exI[of _ ok] exI[of _ h'] exI[of _ req] exI[of _ ys])
qed

theorem signal_request_witness:
  "\<exists>ok h' req ys. createResourceTuningRequest sample_signals sample_alloc (Some (sample_request 0 0)) sample_tune_signal Map.empty =
      Some (ok, h', Some req) \<and> ok \<and> concat (map (\<lambda>a. vals (data_at h' a)) ys) = [300]"
proof -
  have v: "vals sample_lock = [NSIG_PLACEHOLDER]"
    by (simp add: vals_def sample_lock_def sample_resource_def getValueAt_def inline_value_def)
  have l: "[sample_lock] = somes (the (mSignalResources sample_config))" by (simp add: sample_config_def somes_def)
  have a: "sig_args sample_tune_signal [300]" by (simp add: sig_args_def sample_tune_signal_def)
  have f: "\<forall>n. alloc_full sample_alloc [0 ..< n]" "\<forall>j. val_array sample_alloc j" "\<forall>n. alloc_fresh sample_alloc [0 ..< n] Map.empty"
    by (simp_all add: alloc_full_def sample_alloc_def alloc_fresh_def)
  have k: "getSignalConfigByIdAndType (mSignalCode sample_tune_signal) (mSignalType sample_tune_signal) 0 None sample_signals =
      Some (Some sample_config, False)" by (simp add: sample_tune_signal_def sample_lookup)
  show ?thesis using signal_request[OF sample_signals_usable k l a f(3,2,1), of "sample_request 0 0"] by (auto simp: v)
qed

section \<open>The whole system\<close>

text \<open>C30: With the registry of signals in order, what the daemon meets next in a state reached by whole steps, while timers
  start, is defined: a signal message that decodes is processed to its end, so is a signal the daemon acquires itself and a request
  message, and a round of the consumer returns unless it takes a retune of a request in the table that has no timer. As in the
  claim about the daemon without signals, the read of a node just returned to its pool sees what the node held.\<close>

theorem system_no_fault:
  assumes "good_env (se_coco env)" "target_ok T" "signals_ready sg"
    and "system_reach env sg (server_init env clusterIDs cgroupIDs cores clusters cgroups T, []) (sv, calls)"
  shows "(signal_receivable ar ar' al block handle sv \<and>
        (\<forall>raw. sig_block = Some raw \<longrightarrow> Signal_deserialize vec_ok buf raw \<noteq> None) \<longrightarrow>
      submitSignalRequest env sg ar ar' al block sig_block vec_ok buf handle sv \<noteq> None) \<and>
    (acquirable ar al block nf fa numArgs args gen sv \<longrightarrow>
      acquireSignal env (sg_registry sg) ar al block i t pid tid nf fa numArgs args gen sv \<noteq> None) \<and>
    (receivable ar al a raw buf handle sv \<longrightarrow> submitResProvisionReqMsg env ar al (Some (a, raw)) buf handle sv \<noteq> None) \<and>
    (timer_starts ch sv \<longrightarrow> (consumer_round env ch sv = None \<longleftrightarrow> \<not> retune_timed ch sv))"
proof -
  have inv: "daemon_inv env sv"
    using system_reach_inv[OF assms(4,3)] server_init_reach_inv[OF assms(1,2) daemon_start] by simp
  have "submitSignalRequest env sg ar ar' al block sig_block vec_ok buf handle sv \<noteq> None"
    if "signal_receivable ar ar' al block handle sv" "\<forall>raw. sig_block = Some raw \<longrightarrow> Signal_deserialize vec_ok buf raw \<noteq> None"
    using submit_signal_ok[OF inv assms(3) that(1), of sig_block vec_ok buf] that(2) by auto
  moreover have "registry_usable (sg_registry sg)" using assms(3) by (simp add: signals_ready_def)
  then have "acquireSignal env (sg_registry sg) ar al block i t pid tid nf fa numArgs args gen sv \<noteq> None"
    if "acquirable ar al block nf fa numArgs args gen sv"
    using acquireSignal_ok[OF inv _ that, of "sg_registry sg" i t pid tid] by auto
  ultimately show ?thesis using daemon_progress[OF inv] by blast
qed

theorem system_no_fault_witness: "sample_signal_run \<noteq> None"
proof -
  have "map_option (\<lambda>x. fst x) (Signal_deserialize True sample_signal_message sample_signal) = Some RC_SUCCESS" by code_simp
  then have "\<forall>raw. Some sample_signal = Some raw \<longrightarrow> Signal_deserialize True sample_signal_message raw \<noteq> None" by auto
  moreover have "system_reach sample_server_env sample_signal_env (server_init sample_server_env [0] [] 4 1 0 target_empty, [])
      (sample_server, [])" unfolding sample_server_def by (rule system_start)
  note system_no_fault[OF sample_server_env_good sample_target_ok sample_ready this, THEN conjunct1, THEN mp]
  ultimately show ?thesis unfolding sample_signal_run_def using sample_signal_receivable by blast
qed

text \<open>C31: However features are registered, and whatever the daemon receives, no signal is ever passed on to a
  feature library: the codes that features subscribe to are looked up under keys that no signal has.\<close>

theorem features_never_relayed:
  assumes "\<forall>x\<in>set regs. sig_inv (fst x)"
    and "foldM (\<lambda>x. registerExtFeature (fst x) (snd x)) regs ExtFeaturesRegistry_init = Some (sg_features sg)"
    and "system_reach env sg (sv0, []) (sv, calls)"
  shows "calls = []"
  using system_reach_calls[OF assms(3)] registered_features_unused[OF assms(2,1)]
  by (simp add: relays_unused_def ExtFeaturesRegistry_init_def)

theorem features_never_relayed_witness:
  "\<exists>sv calls. sample_signal_run = Some (sv, calls) \<and> system_reach sample_server_env sample_signal_env (sample_server, []) (sv, calls) \<and>
     calls = []"
proof -
  from sample_signal_run_map obtain sv calls where r: "sample_signal_run = Some (sv, calls)" by auto
  have "system_step sample_server_env sample_signal_env (sample_server, []) (sv, [] @ calls)"
    by (rule system_step.signal_step[OF sample_signal_receivable r[unfolded sample_signal_run_def]])
  then have s: "system_reach sample_server_env sample_signal_env (sample_server, []) (sv, calls)"
    using system_more[OF system_start] by simp
  have "foldM (\<lambda>x. registerExtFeature (fst x) (snd x)) [] ExtFeaturesRegistry_init = Some (sg_features sample_signal_env)"
    by (simp add: sample_signal_env_def)
  then have "calls = []" by (rule features_never_relayed[OF _ _ s, rotated]) simp
  with r s show ?thesis by blast
qed

text \<open>C32: Reading a file of resources registers the resources one after the other, each with all its settings,
  up to the first with an invalid value, and answers the error of that one; those not meant for this target are
  left out.\<close>

theorem resource_file_read:
  assumes "reads_file pe file (file_events rootKey es)" "isKey rootKey" "list_all (list_all field_ok) es"
  shows "parse pe RESOURCE_CONFIG file s = map_option Inr (register_until pe es s)"
  by (rule parse_resources[OF assms])

theorem resource_file_read_witness:
  "\<exists>s'. parse sample_parse_env RESOURCE_CONFIG ''resources'' sample_config_state = Some (Inr (RC_INVALID_VALUE, s')) \<and>
     map mResourceName (mResourceConfigs (cs_registry s')) = [''A'']"
  using resource_file_read[OF sample_reads(1) _ sample_fields_ok, of sample_config_state] sample_until
  by (auto simp: isKey_def yaml_keys_def)

text \<open>C33: A file of signals each of which names permissions and resources is read without an error, whatever
  single values are invalid, and leaves a registry from which every signal can be used.\<close>

theorem signal_file_read:
  assumes "reads_file pe file (signal_file_events es)" "list_all (list_all part_ok) es" "list_all entry_ready es"
    and "registry_usable (cs_signals s)"
  shows "\<exists>sr. register_signals pe es (cs_signals s) = Some sr \<and> registry_usable sr \<and>
    parse pe SIGNALS_CONFIG file s = Some (Inr (RC_SUCCESS, s\<lparr>cs_signals := sr\<rparr>))"
  using register_signals_usable[OF assms(3,4)] parse_signals[OF assms(1,2)] by blast

theorem signal_file_read_witness:
  "\<exists>sr. parse sample_parse_env SIGNALS_CONFIG ''signals'' sample_config_state =
      Some (Inr (RC_SUCCESS, sample_config_state\<lparr>cs_signals := sr\<rparr>)) \<and> registry_usable sr \<and> getSignalsConfigCount sr = 1"
proof -
  have "registry_usable (cs_signals sample_config_state)" by (simp add: sample_config_state_def registry_usable_init)
  from signal_file_read[OF sample_reads(2) sample_parts_ok sample_entries_ready this] sample_registered
  show ?thesis by (auto simp: sample_config_state_def)
qed

section \<open>Liveness, blocks and threads\<close>

text \<open>With the recurring tasks of the pulse monitor and the garbage collector added to the system, as whole steps, what comes next in a
  reachable state is still defined: a clean-up of known threads, a request message, and a round of the consumer that takes no untimed retune.\<close>

theorem monitored_no_fault:
  assumes "good_env (se_coco env)" "target_ok T" "signals_ready sg"
    and "monitored_reach env sg ((server_init env clusterIDs cgroupIDs cores clusters cgroups T, []), []) ((sv, calls), gq)"
  shows "(cleanable blocks gq sv \<longrightarrow> performCleanup blocks batchSize gq sv \<noteq> None) \<and>
    (receivable ar al a raw buf handle sv \<longrightarrow> submitResProvisionReqMsg env ar al (Some (a, raw)) buf handle sv \<noteq> None) \<and>
    (timer_starts ch sv \<longrightarrow> (consumer_round env ch sv = None \<longleftrightarrow> \<not> retune_timed ch sv))"
proof -
  have inv: "daemon_inv env sv"
    using monitored_reach_inv[OF assms(4,3)] server_init_reach_inv[OF assms(1,2) daemon_start] by simp
  have "performCleanup blocks batchSize gq sv \<noteq> None" if "cleanable blocks gq sv"
    using performCleanup_ok[OF inv that, of batchSize] by auto
  then show ?thesis using daemon_progress[OF inv] by blast
qed

theorem monitored_no_fault_witness:
  "\<exists>sv cd. sample_consumed = Some sv \<and> performCleanup sample_blocks 5 [101] (sv\<lparr>sv_clients := cd\<rparr>) \<noteq> None \<and> mClientTidRepo cd 101 \<noteq> None"
proof -
  obtain sv cd e where s: "sample_consumed = Some sv"
    "monitored_reach sample_server_env sample_signal_env ((sample_server, []), []) ((sv\<lparr>sv_clients := cd\<rparr>, []), [101])"
    "mClientTidRepo cd 101 = Some (Some e)" "blocks_fresh sample_blocks 0 (sv\<lparr>sv_clients := cd\<rparr>)" using sample_monitored by blast
  have "cleanable sample_blocks [101] (sv\<lparr>sv_clients := cd\<rparr>)" using s(3,4) by (simp add: cleanable_def)
  with monitored_no_fault[OF sample_server_env_good sample_target_ok sample_ready s(2)[unfolded sample_server_def], of sample_blocks 5]
  have "performCleanup sample_blocks 5 [101] (sv\<lparr>sv_clients := cd\<rparr>) \<noteq> None" by blast
  with s(1,3) show ?thesis by blast
qed

text \<open>In every reachable state the clean-up of a thread, taken as one step, forgets the thread and leaves, for each of its handles that
  is in the request map, an untune request in the queue, when there is a block for each of them.\<close>

theorem cleanup_untunes:
  assumes "good_env (se_coco env)" "target_ok T" "signals_ready sg"
    and "monitored_reach env sg ((server_init env clusterIDs cgroupIDs cores clusters cgroups T, []), []) ((sv, calls), gq)"
    and "mClientTidRepo (sv_clients sv) t = Some (Some e)" "blocks_fresh blocks 0 sv"
    and "\<forall>i<length (mClientHandles e). blocks i \<noteq> None"
  shows "\<exists>k sv'. cleanup_thread blocks t (0, sv) = Some (k, sv') \<and> mClientTidRepo (sv_clients sv') t = None \<and>
    (\<forall>h\<in>set (mClientHandles e). map_of (mActiveRequests (sv_rm sv)) h \<noteq> None \<longrightarrow>
       (\<exists>a u. QRequest a \<in> set (mOrderedQueue (sv_queue sv')) \<and> sv_objs sv' a = Some u \<and>
          getHandle u = h \<and> getRequestType u = REQ_RESOURCE_UNTUNING))"
proof -
  have inv: "daemon_inv env sv"
    using monitored_reach_inv[OF assms(4,3)] server_init_reach_inv[OF assms(1,2) daemon_start] by simp
  have some: "blocks i \<noteq> None" if "0 \<le> i" "i < 0 + length (mClientHandles e)" for i using assms(7) that by simp
  from cleanup_thread_untunes[OF inv assms(6,5) some] show ?thesis unfolding untune_queued_def by auto
qed

theorem cleanup_untunes_witness:
  "\<exists>sv k sv' a u. cleanup_thread sample_blocks 101 (0, sv) = Some (k, sv') \<and> mClientTidRepo (sv_clients sv') 101 = None \<and>
     QRequest a \<in> set (mOrderedQueue (sv_queue sv')) \<and> sv_objs sv' a = Some u \<and> getHandle u = 7 \<and>
     getRequestType u = REQ_RESOURCE_UNTUNING"
proof -
  obtain sv cd e where s: "monitored_reach sample_server_env sample_signal_env ((sample_server, []), []) ((sv\<lparr>sv_clients := cd\<rparr>, []), [101])"
    "mClientTidRepo cd 101 = Some (Some e)" "mClientHandles e = [7]" "map_of (mActiveRequests (sv_rm sv)) 7 \<noteq> None"
    "blocks_fresh sample_blocks 0 (sv\<lparr>sv_clients := cd\<rparr>)" using sample_monitored by blast
  have t: "mClientTidRepo (sv_clients (sv\<lparr>sv_clients := cd\<rparr>)) 101 = Some (Some e)" using s(2) by simp
  have "\<forall>i<length (mClientHandles e). sample_blocks i \<noteq> None" by (simp add: s(3) sample_blocks_def)
  from cleanup_untunes[OF sample_server_env_good sample_target_ok sample_ready s(1)[unfolded sample_server_def] t s(5) this]
  obtain k sv' where "cleanup_thread sample_blocks 101 (0, sv\<lparr>sv_clients := cd\<rparr>) = Some (k, sv')"
    "mClientTidRepo (sv_clients sv') 101 = None"
    "\<exists>a u. QRequest a \<in> set (mOrderedQueue (sv_queue sv')) \<and> sv_objs sv' a = Some u \<and> getHandle u = 7 \<and>
       getRequestType u = REQ_RESOURCE_UNTUNING" using s(3,4) by auto
  then show ?thesis by blast
qed



text \<open>An allocation that is granted only in part counts blocks that do not exist: after the granted blocks are handed out,
  the next request follows a null pointer instead of reporting that the pool is empty.\<close>

theorem pool_overcounted:
  assumes "distinct (map fst (granted src))" "length (granted src) < length src" "length src < 2 ^ 31"
  shows "\<exists>P1 P2. makeAllocation src (MemoryPool_init n) = Some (int (length (granted src)), P1) \<and>
    get_blocks (length (granted src)) P1 = Some P2 \<and> getBlock P2 = None"
proof -
  have "fst ` set (granted src) \<inter> dom (mp_nodes (MemoryPool_init n)) = {}" by (simp add: MemoryPool_init_def)
  moreover have "mfreeBlocks (MemoryPool_init n) + int (length src) + int (length ([] :: addr list)) < 2 ^ 31"
    using assms(3) by (simp add: MemoryPool_init_def)
  ultimately obtain P1 where P1: "makeAllocation src (MemoryPool_init n) = Some (int (length (granted src)), P1)"
    "pool_rel P1 (granted src) [] (length src - length (granted src))"
    using makeAllocation_rel[OF MemoryPool_init_rel assms(1)] by fastforce
  from get_blocks_rel[OF P1(2)] obtain P2 as' where P2: "get_blocks (length (granted src)) P1 = Some P2"
    "pool_rel P2 [] as' (length src - length (granted src))" by blast
  obtain k where "length src - length (granted src) = Suc k" using assms(2) by (cases "length src - length (granted src)") auto
  with P1(1) P2 getBlock_over show ?thesis by auto
qed

theorem pool_overcounted_witness:
  "\<exists>P1 P2. makeAllocation [(Some 1, Some 11), (None, None)] (MemoryPool_init 8) = Some (1, P1) \<and>
     get_blocks 1 P1 = Some P2 \<and> getBlock P2 = None"
  using pool_overcounted[of "[(Some 1, Some 11), (None, None)]" 8] by simp

text \<open>C40: In every reachable state of a thread pool the tasks taken by workers, followed by those in the queue, are the
  tasks that were accepted, in their order; the count of threads is the number of threads that were ever started less those
  that ended because they were idle, and stays within the capacity; and unless the pool is shut down, a worker takes the first waiting
  task. A worker ended by an exception of its task stays in the count. There is a block for the function of a task whenever there is one for its node.\<close>

theorem tasks_in_order:
  assumes "ThreadPool_init srcs maxCapacity = Some tp" "distinct (thread_blocks srcs)"
    and "3 * int (length srcs) < 2 ^ 31" "3 * maxCapacity < 2 ^ 31" "run_reach (pool_run_start tp) r"
  shows "\<exists>ts. pr_accepted r = pr_taken r @ ts \<and> TaskQueue_getSize (mCurrentTasks (pr_pool r)) = int (length ts) \<and>
    mCurrentThreadsCount (pr_pool r) = int (pr_started r) - int (pr_idle r) \<and>
    mCurrentThreadsCount (pr_pool r) \<le> mMaxPoolCapacity (pr_pool r) \<and>
    (\<forall>t ts'. ts = t # ts' \<and> \<not> mTerminatePool (pr_pool r) \<longrightarrow>
       (\<exists>tp'. threadRoutineHelper core timed_out throws (pr_pool r) = Some (Runs (Some t) throws tp')))"
proof -
  from ThreadPool_init_inv[OF assms(2-4)] assms(1) have "\<exists>ts. run_inv (pool_run_start tp) ts" by auto
  from run_reach_inv[OF assms(5) this] obtain ts where i: "run_inv r ts" by blast
  then obtain xs where "tasks_rel (mCurrentTasks (pr_pool r)) xs ts" by (auto simp: run_inv_def)
  then have "TaskQueue_getSize (mCurrentTasks (pr_pool r)) = int (length ts)"
    by (auto simp: tasks_rel_def TaskQueue_getSize_def dest: map_eq_imp_length_eq)
  with i threadRoutineHelper_round(2)[OF i, of _ _ core timed_out throws] show ?thesis
    unfolding run_inv_def by (intro exI[of _ ts]) blast
qed

theorem tasks_in_order_witness:
  "\<exists>tp r tp'. sample_threads = Some tp \<and> run_reach (pool_run_start tp) r \<and> pr_accepted r = pr_taken r @ [(6, 60)] \<and>
     threadRoutineHelper True False False (pr_pool r) = Some (Runs (Some (6, 60)) False tp')"
proof -
  obtain tp r where s: "sample_threads = Some tp" "run_reach (pool_run_start tp) r" "pr_accepted r = [(5, 50), (6, 60)]"
    "pr_taken r = [(5, 50)]" "\<not> mTerminatePool (pr_pool r)" using sample_pool_run by blast
  with tasks_in_order[OF s(1)[unfolded sample_threads_def] _ _ _ s(2), of True False False] s show ?thesis
    by (fastforce simp: thread_blocks_def)
qed

section \<open>The classifier\<close>

text \<open>C36: When an application starts that is not a priority client and the classifier tracks as many applications as it
  may, the first calls untune the handles of the oldest one, all of them and in order. Then the process is moved to the focused group.
  Afterwards the queue holds what the other applications had, followed by every handle this start acquired, under
  the number of this application. A priority client untunes and tracks nothing.\<close>

theorem oldest_untuned:
  assumes "counts_inv c" "ev_type ev = CC_APP_OPEN" "ev_pid ev \<noteq> -1"
    and "fetchComm (w_proc w (ev_pid ev)) = Some comm" "runs (ClassifierMain_event w ev c) cs c'"
  shows "\<exists>moves a cs'. cs = map Untuned (untuned cs) @ Moved ((FOCUSED_CGROUP_IDENTIFIER, ev_pid ev) # moves) (ev_pid ev) (ev_tgid ev) a # cs' \<and>
    untuned cs = (if comm \<notin> mPriorityClients c \<and> full c
      then map snd (filter (\<lambda>p. fst p = oldest c \<and> 0 < sint (snd p)) (mCurrRestuneHandles c)) else []) \<and>
    mCurrRestuneHandles c' =
      (if comm \<in> mPriorityClients c then mCurrRestuneHandles c
       else (if full c then filter (\<lambda>p. fst p \<noteq> oldest c) (mCurrRestuneHandles c) else mCurrRestuneHandles c) @
         map (Pair (mClientTracker c)) (filter (\<lambda>h. h \<noteq> -1) (answers cs)))"
  by (rule open_event_effect[OF assms])

theorem oldest_untuned_witness:
  "\<exists>c. runs (ClassifierMain_event sample_surroundings sample_open sample_occupied) sample_calls c \<and>
     untuned sample_calls = [7, 8] \<and> mCurrRestuneHandles c = [(1, 21), (1, 22)]"
proof -
  obtain c where r: "runs (ClassifierMain_event sample_surroundings sample_open sample_occupied) sample_calls c"
    using sample_open_run by blast
  have "ev_type sample_open = CC_APP_OPEN" "ev_pid sample_open \<noteq> -1" by (simp_all add: sample_open_def)
  from oldest_untuned[OF sample_occupied_counts this sample_comm r] sample_full
  have "untuned sample_calls = map snd (filter (\<lambda>p. fst p = oldest sample_occupied \<and> 0 < sint (snd p)) (mCurrRestuneHandles sample_occupied))"
    "mCurrRestuneHandles c = filter (\<lambda>p. fst p \<noteq> oldest sample_occupied) (mCurrRestuneHandles sample_occupied) @
       map (Pair (mClientTracker sample_occupied)) (filter (\<lambda>h. h \<noteq> -1) (answers sample_calls))" by simp_all
  then have "untuned sample_calls = [7, 8]" "mCurrRestuneHandles c = [(1, 21), (1, 22)]"
    by (simp_all add: sample_calls_def sample_occupied_def oldest_def client_ids_def)
  with r show ?thesis by blast
qed

text \<open>C35: In every reachable state of the threads of the classifier, before the 64-bit counter of events wraps, its count of
  active applications is the number of applications that have handles in the queue, which is at most the
  threshold; the handles are queued by application, oldest first; at most 30 events wait; and the cache of process numbers
  holds at most as many as it has room for.\<close>

theorem classifier_bounded:
  assumes "cls_reach env sg apps s0 s" "cls_started s0" "apps_ready apps" "cs_taken s < 2 ^ 64"
  shows "unat (mActiveClientCount (cs_cls s)) = card (fst ` set (mCurrRestuneHandles (cs_cls s))) \<and>
    mActiveClientCount (cs_cls s) \<le> mActiveAppThreshold (cs_cls s) \<and> mActiveAppThreshold (cs_cls s) \<in> {1, 3} \<and>
    sorted (map fst (mCurrRestuneHandles (cs_cls s))) \<and> length (mPendingEv (cs_cls s)) \<le> 30 \<and>
    length (mDataSet (mClassifierPidCache (cs_cls s))) \<le> mMaxSize (mClassifierPidCache (cs_cls s))"
proof -
  have "cls_inv (cs_cls s)" using cls_reach_data[OF assms(1,2,3,4)] by (simp add: data_inv_def)
  then show ?thesis using cache_exact_length[of "mClassifierPidCache (cs_cls s)"]
    by (auto simp: cls_inv_def counts_inv_def client_ids_def pendingQueueControlSize_def cache_exact_def)
qed

theorem classifier_bounded_witness:
  "\<exists>s. cls_reach sample_server_env sample_signal_env Map.empty sample_cls_state s \<and> cs_taken s = 1 \<and>
     mActiveClientCount (cs_cls s) \<le> mActiveAppThreshold (cs_cls s)"
proof -
  obtain s where s: "cls_reach sample_server_env sample_signal_env Map.empty sample_cls_state s" "cs_taken s = 1"
    using sample_taken by blast
  from s(2) have "cs_taken s < 2 ^ 64" by simp
  from classifier_bounded[OF s(1) sample_cls_started sample_apps this] s show ?thesis by blast
qed

text \<open>With the threads of the classifier and the recurring tasks of the pulse monitor and the garbage collector added to the
  system, what comes next in a reachable state is defined under the same conditions: the call of the daemon the classifier is about to make, the
  queueing of an event, a clean-up of known threads, a request message, and a round of the consumer that takes no untimed retune.\<close>

theorem classifier_no_fault:
  assumes "good_env (se_coco env)" "target_ok T" "signals_ready sg" "apps_ready apps"
    and "cls_reach env sg apps s0 s" "cls_started s0" "cs_taken s < 2 ^ 64"
    and "cs_system s0 = ((server_init env clusterIDs cgroupIDs cores clusters cgroups T, []), [])"
  shows "(\<forall>p. cs_worker s = Busy p \<longrightarrow> call_defined env sg (daemon_of s) p) \<and> accept_event rc ev (cs_cls s) \<noteq> None \<and>
    (cleanable blocks gq (daemon_of s) \<longrightarrow> performCleanup blocks batchSize gq (daemon_of s) \<noteq> None) \<and>
    (receivable ar al a raw buf handle (daemon_of s) \<longrightarrow>
       submitResProvisionReqMsg env ar al (Some (a, raw)) buf handle (daemon_of s) \<noteq> None) \<and>
    (timer_starts ch (daemon_of s) \<longrightarrow> (consumer_round env ch (daemon_of s) = None \<longleftrightarrow> \<not> retune_timed ch (daemon_of s)))"
proof -
  have start: "daemon_inv env (daemon_of s0)" using server_init_reach_inv[OF assms(1,2) daemon_start] by (simp add: assms(8))
  have inv: "daemon_inv env (daemon_of s)" by (rule cls_reach_daemon[OF assms(5) start assms(3)])
  have "performCleanup blocks batchSize gq (daemon_of s) \<noteq> None" if "cleanable blocks gq (daemon_of s)"
    using performCleanup_ok[OF inv that, of batchSize] by auto
  then show ?thesis using cls_calls_defined[OF assms(5,6) start assms(3,4,7)] daemon_progress[OF inv] by blast
qed

theorem classifier_no_fault_witness:
  "\<exists>s p. cls_reach sample_server_env sample_signal_env Map.empty sample_cls_state s \<and> cs_worker s = Busy p \<and>
     call_defined sample_server_env sample_signal_env (daemon_of s) p"
proof -
  obtain s p where s: "cls_reach sample_server_env sample_signal_env Map.empty sample_cls_state s" "cs_worker s = Busy p"
    "cs_taken s = 1" using sample_taken by blast
  have "cs_system sample_cls_state = ((server_init sample_server_env [0] [] 4 1 0 target_empty, []), [])"
    by (simp add: sample_cls_state_def sample_server_def)
  with classifier_no_fault[OF sample_server_env_good sample_target_ok sample_ready sample_apps s(1) sample_cls_started] s
  show ?thesis by fastforce
qed

text \<open>C37: The function that terminates the classifier never returns once the worker runs: it joins the worker while it holds
  the lock the worker needs to see the request. From the moment it has the lock, no reachable
  state has the worker ended or the lock released.\<close>

theorem terminate_never_returns:
  assumes "cls_reach env sg apps s0 s" "cls_started s0"
  shows "cs_term s \<noteq> Returned \<and> (cs_term s \<noteq> Idle \<longrightarrow> cs_lock s = Some ByTerminator \<and> cs_worker s = Waiting)"
  using cls_reach_lock[OF assms] by (auto simp: lock_inv_def split: worker_state.splits)

theorem terminate_never_returns_witness:
  "\<exists>s. cls_reach sample_server_env sample_signal_env Map.empty sample_cls_state s \<and> cs_term s = JoiningWorker \<and> cs_worker s = Waiting"
proof -
  obtain s where s: "cls_reach sample_server_env sample_signal_env Map.empty sample_cls_state s" "cs_term s = JoiningWorker"
    using sample_terminating by blast
  from terminate_never_returns[OF s(1) sample_cls_started] s(2) have "cs_worker s = Waiting" by simp
  with s show ?thesis by blast
qed

end
